(* ===== verification/Prelude.thy ===== *)
theory Prelude
  imports Complex_Main "HOL-Library.Multiset" "HOL-Library.Sublist"
begin

text \<open>
  Shared vocabulary of the development: Go errors and results, the pieces of the Go
  standard library the modelled code uses (\<open>errors.Is\<close>, \<open>strconv\<close>-style decimal
  printing, \<open>strings.Split\<close> and \<open>strings.Join\<close>, \<open>sort.Slice\<close>), the two loop shapes
  that recur all over the repository (keep the first occurrence of a key; walk a slice in
  batches) and the lemma collections the component proofs use.

  Conventions. A Go \<open>string\<close> or \<open>[]byte\<close> is a \<open>char list\<close>, one \<open>char\<close> per byte. Go's
  \<open>int\<close> and \<open>int64\<close> are \<open>int\<close>; where the code relies on a bound a lemma states it.
  \<open>float64\<close> is \<open>real\<close>, so rounding is not modelled. A function that returns
  \<open>(T, error)\<close> returns \<open>T res\<close>.
\<close>

named_theorems go_simps \<open>unfolding rules for the small Go library functions\<close>
named_theorems frame_simps \<open>fields and observations an operation leaves unchanged\<close>

section \<open>Errors and results\<close>

text \<open>
  \<open>ErrMsg\<close> is an \<open>errors.New\<close> or \<open>fmt.Errorf\<close> without a wrapped cause,
  \<open>ErrWrap ctx e\<close> is \<open>fmt.Errorf("ctx ...: %w", e)\<close> (the formatted operands of the
  message are left out), and the other constructors are the sentinels the code compares
  against.
\<close>

datatype err =
    ErrMsg string
  | ErrWrap string err
  | ErrOllamaUnreachable
  | ErrCircuitOpen
  | ErrPermanentEmbed
  | ErrBatchShrunk
  | ErrEmbedHTTP int string
  | ErrWriterClosed
  | ErrContext

type_synonym 'a res = "err + 'a"

fun errors_is :: "err \<Rightarrow> err \<Rightarrow> bool" where
  "errors_is (ErrWrap c e) target \<longleftrightarrow> ErrWrap c e = target \<or> errors_is e target"
| "errors_is (ErrEmbedHTTP code body) target \<longleftrightarrow>
     ErrEmbedHTTP code body = target \<or>
     (400 \<le> code \<and> code < 500 \<and> target = ErrPermanentEmbed)"
| "errors_is e target \<longleftrightarrow> e = target"

definition bind_res :: "'a res \<Rightarrow> ('a \<Rightarrow> 'b res) \<Rightarrow> 'b res" where
  "bind_res r f = (case r of Inl e \<Rightarrow> Inl e | Inr a \<Rightarrow> f a)"

definition wrap_res :: "string \<Rightarrow> 'a res \<Rightarrow> 'a res" where
  "wrap_res ctx r = (case r of Inl e \<Rightarrow> Inl (ErrWrap ctx e) | Inr a \<Rightarrow> Inr a)"

lemma bind_res_simps [simp]:
  "bind_res (Inl e) f = Inl e"
  "bind_res (Inr a) f = f a"
  by (simp_all add: bind_res_def)

lemma wrap_res_simps [simp]:
  "wrap_res ctx (Inl e) = Inl (ErrWrap ctx e)"
  "wrap_res ctx (Inr a) = Inr a"
  by (simp_all add: wrap_res_def)

lemma bind_res_Inr_iff:
  "bind_res r f = Inr b \<longleftrightarrow> (\<exists>a. r = Inr a \<and> f a = Inr b)"
  by (cases r) auto

lemma wrap_res_Inr_iff [simp]: "wrap_res ctx r = Inr b \<longleftrightarrow> r = Inr b"
  by (cases r) auto

section \<open>Decimal printing\<close>

text \<open>\<open>fmt\<close>'s verb \<open>%d\<close>.\<close>

fun dec_nat :: "nat \<Rightarrow> string" where
  "dec_nat n = (if n < 10 then [char_of (48 + n)]
                else dec_nat (n div 10) @ [char_of (48 + n mod 10)])"

declare dec_nat.simps [simp del]

definition dec_int :: "int \<Rightarrow> string" where
  "dec_int i = (if i < 0 then CHR ''-'' # dec_nat (nat (- i)) else dec_nat (nat i))"

lemma of_char_digit: "d < 10 \<Longrightarrow> (of_char (char_of (48 + d :: nat) :: char) :: nat) = 48 + d"
  by (simp add: of_char_of)

lemma dec_nat_ne [simp]: "dec_nat n \<noteq> []"
  by (subst dec_nat.simps) simp

lemma dec_nat_digits: "c \<in> set (dec_nat n) \<Longrightarrow> \<exists>d<10. c = char_of (48 + d :: nat)"
proof (induction n rule: dec_nat.induct)
  case (1 n)
  then show ?case
    by (subst (asm) (2) dec_nat.simps) (auto split: if_splits intro: exI [of _ n] exI [of _ "n mod 10"])
qed

lemma dec_nat_not_special:
  assumes "c \<in> set (dec_nat n)"
  shows "c \<noteq> CHR '':''" and "c \<noteq> CHR ''-''"
proof -
  from dec_nat_digits [OF assms] obtain d where d: "d < 10" and c: "c = char_of (48 + d :: nat)"
    by blast
  then have *: "(of_char c :: nat) = 48 + d" by (simp add: of_char_digit)
  show "c \<noteq> CHR '':''"
  proof
    assume "c = CHR '':''"
    then have "(of_char c :: nat) = 58" by simp
    with * d show False by simp
  qed
  show "c \<noteq> CHR ''-''"
  proof
    assume "c = CHR ''-''"
    then have "(of_char c :: nat) = 45" by simp
    with * show False by simp
  qed
qed

lemma dec_nat_inj: "dec_nat m = dec_nat n \<Longrightarrow> m = n"
proof (induction m arbitrary: n rule: dec_nat.induct)
  case (1 m)
  have digit: "a = b" if "a < 10" "b < 10" "char_of (48 + a :: nat) = (char_of (48 + b :: nat) :: char)"
    for a b :: nat
    using that by (metis of_char_digit add_left_cancel)
  show ?case
  proof (cases "m < 10")
    case True
    show ?thesis
    proof (cases "n < 10")
      case True
      with \<open>m < 10\<close> "1.prems" show ?thesis
        by (subst (asm) (1 2) dec_nat.simps) (simp add: digit)
    next
      case False
      with \<open>m < 10\<close> "1.prems" have "[char_of (48 + m)] = dec_nat (n div 10) @ [char_of (48 + n mod 10)]"
        by (subst (asm) (1 2) dec_nat.simps) simp
      then show ?thesis using dec_nat_ne [of "n div 10"] by (metis append_eq_Cons_conv append_is_Nil_conv list.distinct(1))
    qed
  next
    case False
    show ?thesis
    proof (cases "n < 10")
      case True
      with False "1.prems" have "dec_nat (m div 10) @ [char_of (48 + m mod 10)] = [char_of (48 + n)]"
        by (subst (asm) (1 2) dec_nat.simps) simp
      then show ?thesis by simp
    next
      case n: False
      from False n "1.prems"
      have "dec_nat (m div 10) @ [char_of (48 + m mod 10)] = dec_nat (n div 10) @ [char_of (48 + n mod 10)]"
        by (subst (asm) (1 2) dec_nat.simps) simp
      then have "dec_nat (m div 10) = dec_nat (n div 10)"
        and "char_of (48 + m mod 10) = (char_of (48 + n mod 10) :: char)" by simp_all
      with "1.IH" [OF False] have "m div 10 = n div 10" and "m mod 10 = n mod 10"
        by (auto intro: digit)
      then show ?thesis by (metis div_mult_mod_eq)
    qed
  qed
qed

lemma dec_int_no_colon: "CHR '':'' \<notin> set (dec_int i)"
  using dec_nat_not_special(1) by (auto simp: dec_int_def)

lemma dec_int_inj: "dec_int i = dec_int j \<Longrightarrow> i = j"
proof -
  assume eq: "dec_int i = dec_int j"
  have mixed: "CHR ''-'' # dec_nat m \<noteq> dec_nat n" for m n
    using dec_nat_not_special(2) by (metis list.set_intros(1))
  from eq show "i = j"
    by (auto simp: dec_int_def mixed mixed [symmetric] dest!: dec_nat_inj split: if_splits)
qed

text \<open>Two strings joined by a separator that neither tail contains can be taken apart.\<close>

lemma append_sep_inj:
  assumes "xs @ c # ys = xs' @ c # ys'" and "c \<notin> set ys" and "c \<notin> set ys'"
  shows "xs = xs' \<and> ys = ys'"
proof -
  have "takeWhile (\<lambda>x. x \<noteq> c) (rev (zs @ c # ws)) = rev ws" if "c \<notin> set ws" for zs ws
    using that takeWhile_append2 [of "rev ws" "\<lambda>x. x \<noteq> c" "c # rev zs"] by fastforce
  with assms have "rev ys = rev ys'" by metis
  with assms(1) show ?thesis by simp
qed

lemma append_sep_inj_prefix:
  assumes "xs @ c # ys = xs' @ c # ys'" and "c \<notin> set xs" and "c \<notin> set xs'"
  shows "xs = xs' \<and> ys = ys'"
proof -
  have "takeWhile (\<lambda>x. x \<noteq> c) (zs @ c # ws) = zs" if "c \<notin> set zs" for zs ws
    using that by (subst takeWhile_append2) auto
  with assms have "xs = xs'" by metis
  with assms(1) show ?thesis by simp
qed

section \<open>Splitting and joining strings\<close>

text \<open>\<open>strings.Split(s, sep)\<close> for a one-byte separator: never empty, one piece more than
  there are separators.\<close>

fun split_on :: "char \<Rightarrow> string \<Rightarrow> string list" where
  "split_on sep [] = [[]]"
| "split_on sep (c # s) =
     (if c = sep then [] # split_on sep s
      else (case split_on sep s of [] \<Rightarrow> [[c]] | p # ps \<Rightarrow> (c # p) # ps))"

text \<open>\<open>strings.Join\<close>.\<close>

fun join_with :: "string \<Rightarrow> string list \<Rightarrow> string" where
  "join_with sep [] = []"
| "join_with sep [s] = s"
| "join_with sep (s # t # ts) = s @ sep @ join_with sep (t # ts)"

lemma split_on_ne [simp]: "split_on sep s \<noteq> []"
  by (induction s) (auto split: list.splits)

lemma join_with_Cons: "xs \<noteq> [] \<Longrightarrow> join_with sep (x # xs) = x @ sep @ join_with sep xs"
  by (cases xs) simp_all

lemma join_split_on: "join_with [sep] (split_on sep s) = s"
proof (induction s)
  case Nil
  then show ?case by simp
next
  case (Cons c s)
  obtain p ps where p: "split_on sep s = p # ps"
    using split_on_ne by (metis list.exhaust)
  with Cons.IH show ?case
    by (cases ps) (auto simp: join_with_Cons)
qed

lemma split_on_no_sep: "p \<in> set (split_on sep s) \<Longrightarrow> sep \<notin> set p"
  by (induction s arbitrary: p) (auto split: if_splits list.splits)

section \<open>sort.Slice\<close>

text \<open>
  \<open>sort.Slice\<close> permutes the slice so that no element is less than one before it; how it
  orders equal elements is not specified. The contract is a locale; every definition that
  sorts takes the sorting function as an argument and its theorems ask for this contract.
\<close>

locale slice_sort =
  fixes lt :: "'a \<Rightarrow> 'a \<Rightarrow> bool"
    and srt :: "'a list \<Rightarrow> 'a list"
  assumes perm: "mset (srt xs) = mset xs"
    and ordered: "sorted_wrt (\<lambda>a b. \<not> lt b a) (srt xs)"
begin

lemma set_srt [simp]: "set (srt xs) = set xs"
  using perm by (rule mset_eq_setD)

lemma length_srt [simp]: "length (srt xs) = length xs"
  using perm by (rule mset_eq_length)

lemma srt_Nil [simp]: "srt [] = []"
  using length_srt [of "[]"] by (simp del: length_srt)

lemma srt_ne [simp]: "srt xs = [] \<longleftrightarrow> xs = []"
  using length_srt [of xs] by (cases "srt xs") auto

lemma hd_srt: "x \<in> set xs \<Longrightarrow> \<not> lt x (hd (srt xs)) \<or> x = hd (srt xs)"
  using ordered [of xs] set_srt [of xs] by (cases "srt xs") auto

lemma distinct_map_srt: "distinct (map f (srt xs)) \<longleftrightarrow> distinct (map f xs)"
  using perm by (metis mset_map mset_eq_imp_distinct_iff)

lemma sum_srt: "sum_list (map f (srt xs)) = sum_list (map f xs)" for f :: "'a \<Rightarrow> int"
  using perm by (metis mset_map sum_mset_sum_list)

end

text \<open>
  The algorithm \<open>sort.Slice\<close> runs on up to twelve elements: insert each element to the
  left, past the elements it is less than.
\<close>

fun insert_left :: "('a \<Rightarrow> 'a \<Rightarrow> bool) \<Rightarrow> 'a \<Rightarrow> 'a list \<Rightarrow> 'a list" where
  "insert_left lt x [] = [x]"
| "insert_left lt x (y # ys) = (if lt x y then x # y # ys else y # insert_left lt x ys)"

definition insertion_sort :: "('a \<Rightarrow> 'a \<Rightarrow> bool) \<Rightarrow> 'a list \<Rightarrow> 'a list" where
  "insertion_sort lt xs = foldl (\<lambda>acc x. insert_left lt x acc) [] xs"

lemma mset_insert_left [simp]: "mset (insert_left lt x ys) = add_mset x (mset ys)"
  by (induction ys) auto

lemma set_insert_left [simp]: "set (insert_left lt x ys) = insert x (set ys)"
  by (induction ys) auto

lemma mset_insertion_sort: "mset (insertion_sort lt xs) = mset xs"
proof -
  have "mset (foldl (\<lambda>acc x. insert_left lt x acc) ys xs) = mset ys + mset xs" for ys
    by (induction xs arbitrary: ys) auto
  then show ?thesis by (simp add: insertion_sort_def)
qed

lemma sorted_insert_left:
  fixes f :: "'a \<Rightarrow> 'k::linorder"
  assumes "\<And>a b. lt a b \<longleftrightarrow> f a < f b"
    and "sorted_wrt (\<lambda>a b. \<not> lt b a) ys"
  shows "sorted_wrt (\<lambda>a b. \<not> lt b a) (insert_left lt x ys)"
  using assms(2) by (induction ys) (auto simp: assms(1))

lemma sorted_insertion_sort:
  fixes f :: "'a \<Rightarrow> 'k::linorder"
  assumes "\<And>a b. lt a b \<longleftrightarrow> f a < f b"
  shows "sorted_wrt (\<lambda>a b. \<not> lt b a) (insertion_sort lt xs)"
proof -
  have "sorted_wrt (\<lambda>a b. \<not> lt b a) (foldl (\<lambda>acc x. insert_left lt x acc) ys xs)"
    if "sorted_wrt (\<lambda>a b. \<not> lt b a) ys" for ys
    using that by (induction xs arbitrary: ys) (auto intro!: sorted_insert_left [where f = f] assms)
  then show ?thesis by (simp add: insertion_sort_def)
qed

lemma slice_sort_insertion_sort:
  fixes f :: "'a \<Rightarrow> 'k::linorder"
  assumes "\<And>a b. lt a b \<longleftrightarrow> f a < f b"
  shows "slice_sort lt (insertion_sort lt)"
  using sorted_insertion_sort [OF assms] by unfold_locales (simp_all add: mset_insertion_sort)

section \<open>Keep the first occurrence\<close>

text \<open>
  The loop \<open>for x := range xs { if !seen[k] { seen[k] = true; out = append(out, x) } }\<close>,
  with the set of seen keys as an argument.
\<close>

fun dedup_on :: "('a \<Rightarrow> 'k) \<Rightarrow> 'k set \<Rightarrow> 'a list \<Rightarrow> 'a list" where
  "dedup_on k seen [] = []"
| "dedup_on k seen (x # xs) =
     (if k x \<in> seen then dedup_on k seen xs else x # dedup_on k (insert (k x) seen) xs)"

abbreviation dedup :: "'a list \<Rightarrow> 'a list" where
  "dedup xs \<equiv> dedup_on id {} xs"

lemma set_dedup_on: "k ` set (dedup_on k seen xs) = k ` set xs - seen"
  by (induction xs arbitrary: seen) auto

lemma dedup_on_subset: "set (dedup_on k seen xs) \<subseteq> set xs"
  by (induction xs arbitrary: seen) auto

lemma distinct_dedup_on: "distinct (map k (dedup_on k seen xs))"
proof (induction xs arbitrary: seen)
  case (Cons x xs)
  have "k x \<notin> k ` set (dedup_on k (insert (k x) seen) xs)"
    by (simp add: set_dedup_on)
  with Cons.IH show ?case by (auto simp: image_iff)
qed simp

lemma set_dedup [simp]: "set (dedup xs) = set xs"
  using set_dedup_on [of id "{}" xs] by simp

lemma distinct_dedup [simp]: "distinct (dedup xs)"
  using distinct_dedup_on [of id "{}" xs] by simp

lemma dedup_on_id: "distinct (map k xs) \<Longrightarrow> k ` set xs \<inter> seen = {} \<Longrightarrow> dedup_on k seen xs = xs"
  by (induction xs arbitrary: seen) auto

section \<open>Walking a slice in batches\<close>

text \<open>The windows of \<open>for start := 0; start < n; start += size { end := min(start+size, n); ... }\<close>.\<close>

function batches :: "nat \<Rightarrow> 'a list \<Rightarrow> 'a list list" where
  "batches k xs = (if xs = [] \<or> k = 0 then [] else take k xs # batches k (drop k xs))"
  by pat_completeness auto
termination
  by (relation "measure (\<lambda>(k, xs). length xs)") auto

declare batches.simps [simp del]

lemma concat_batches: "0 < k \<Longrightarrow> concat (batches k xs) = xs"
proof (induction k xs rule: batches.induct)
  case (1 k xs)
  then show ?case
    by (cases "xs = []") (simp add: batches.simps, simp add: batches.simps [of k xs])
qed

lemma length_batches: "b \<in> set (batches k xs) \<Longrightarrow> 0 < length b \<and> length b \<le> k"
proof (induction k xs rule: batches.induct)
  case (1 k xs)
  then show ?case
    by (cases "xs = [] \<or> k = 0") (auto simp: batches.simps [of k xs])
qed

lemma set_batches: "0 < k \<Longrightarrow> (\<Union>b \<in> set (batches k xs). set b) = set xs"
  by (metis concat_batches set_concat)

section \<open>List lemmas\<close>

lemma map_of_map_key: "map_of (map (\<lambda>x. (k x, f x)) xs) i = map_option f (find (\<lambda>x. k x = i) xs)"
  by (induction xs) auto

lemma find_Some_set: "find P xs = Some x \<Longrightarrow> x \<in> set xs \<and> P x"
  by (induction xs) (auto split: if_splits)

lemma find_None_set: "find P xs = None \<longleftrightarrow> (\<forall>x \<in> set xs. \<not> P x)"
  by (induction xs) auto

lemma find_key_distinct:
  "distinct (map k xs) \<Longrightarrow> x \<in> set xs \<Longrightarrow> find (\<lambda>y. k y = k x) xs = Some x"
  by (induction xs) (auto simp: image_iff)

lemma sum_list_nonneg_int: "(\<And>x. x \<in> set xs \<Longrightarrow> 0 \<le> f x) \<Longrightarrow> 0 \<le> (\<Sum>x\<leftarrow>xs. f x :: int)"
  by (induction xs) auto


lemma subseq_set: "subseq xs ys \<Longrightarrow> set xs \<subseteq> set ys"
  by (induction rule: list_emb.induct) auto

lemma subseq_distinct_map: "subseq xs ys \<Longrightarrow> distinct (map f ys) \<Longrightarrow> distinct (map f xs)"
proof (induction rule: list_emb.induct)
  case (list_emb_Cons2 x y xs ys)
  then show ?case using subseq_set [of xs ys] by auto
qed auto

lemma subseq_sorted_wrt: "subseq xs ys \<Longrightarrow> sorted_wrt R ys \<Longrightarrow> sorted_wrt R xs"
proof (induction rule: list_emb.induct)
  case (list_emb_Cons2 x y xs ys)
  then show ?case using subseq_set [of xs ys] by auto
qed auto

end
