(* ===== verification/Circuit_Breaker.thy ===== *)
theory Circuit_Breaker
  imports Prelude
begin

text \<open>
  \<open>internal/vector/circuit_breaker.go\<close>: the breaker that protects the calls to the embedding
  service. Each exported method locks the mutex for its whole body, so the methods are atomic
  and the model is one function per method on the breaker's fields. A time is a number of
  nanoseconds and every method that reads the clock gets the reading as \<open>now\<close>; a
  \<open>time.Duration\<close> is an \<open>int\<close>, and \<open>cb_wf_no_overflow\<close> shows that the doubled cooldown
  fits 64 bits. The log calls are left out.
\<close>

datatype circuit_state = StateClosed | StateOpen | StateHalfOpen | StateDisabled

record circuit_breaker =
  cb_state :: circuit_state
  cb_consecutiveFail :: int
  cb_openCycles :: int
  cb_lastOpenTime :: int
  cb_baseCooldown :: int
  cb_currentCooldown :: int
  cb_backoffMax :: int
  cb_failThreshold :: int
  cb_halfOpenProbing :: bool

definition minute :: int where "minute = 60 * 10 ^ 9"

definition new_circuit_breaker :: circuit_breaker where
  "new_circuit_breaker =
     \<lparr>cb_state = StateClosed, cb_consecutiveFail = 0, cb_openCycles = 0, cb_lastOpenTime = 0,
      cb_baseCooldown = 5 * minute, cb_currentCooldown = 5 * minute,
      cb_backoffMax = 60 * minute, cb_failThreshold = 3, cb_halfOpenProbing = False\<rparr>"

text \<open>\<open>Allow\<close>: whether the request may proceed, and the breaker after the call.\<close>

definition cb_allow :: "int \<Rightarrow> circuit_breaker \<Rightarrow> bool \<times> circuit_breaker" where
  "cb_allow now cb =
     (case cb_state cb of
        StateClosed \<Rightarrow> (True, cb)
      | StateOpen \<Rightarrow>
          (if now - cb_lastOpenTime cb > cb_currentCooldown cb
           then (True, cb\<lparr>cb_state := StateHalfOpen, cb_halfOpenProbing := True\<rparr>)
           else (False, cb))
      | StateHalfOpen \<Rightarrow>
          (if cb_halfOpenProbing cb then (False, cb)
           else (True, cb\<lparr>cb_halfOpenProbing := True\<rparr>))
      | StateDisabled \<Rightarrow> (False, cb))"

definition cb_record_success :: "circuit_breaker \<Rightarrow> circuit_breaker" where
  "cb_record_success cb =
     cb\<lparr>cb_consecutiveFail := 0, cb_openCycles := 0,
        cb_currentCooldown := cb_baseCooldown cb,
        cb_halfOpenProbing := False, cb_state := StateClosed\<rparr>"

definition cb_record_failure :: "int \<Rightarrow> circuit_breaker \<Rightarrow> circuit_breaker" where
  "cb_record_failure now cb0 =
     (let cb = cb0\<lparr>cb_halfOpenProbing := False\<rparr> in
      if cb_state cb = StateHalfOpen then
        cb\<lparr>cb_openCycles := cb_openCycles cb + 1, cb_state := StateOpen,
           cb_lastOpenTime := now,
           cb_currentCooldown := min (cb_currentCooldown cb * 2) (cb_backoffMax cb)\<rparr>
      else
        let cb' = cb\<lparr>cb_consecutiveFail := cb_consecutiveFail cb + 1\<rparr> in
        if cb_consecutiveFail cb' \<ge> cb_failThreshold cb' then
          cb'\<lparr>cb_openCycles := cb_openCycles cb' + 1, cb_state := StateOpen,
              cb_lastOpenTime := now, cb_consecutiveFail := 0,
              cb_currentCooldown := min (cb_currentCooldown cb' * 2) (cb_backoffMax cb')\<rparr>
        else cb')"

definition cb_State :: "circuit_breaker \<Rightarrow> circuit_state" where
  "cb_State cb = cb_state cb"

definition cb_reset :: "circuit_breaker \<Rightarrow> circuit_breaker" where
  "cb_reset cb =
     cb\<lparr>cb_state := StateClosed, cb_consecutiveFail := 0, cb_openCycles := 0,
        cb_currentCooldown := cb_baseCooldown cb, cb_halfOpenProbing := False\<rparr>"

fun state_string :: "circuit_state \<Rightarrow> string" where
  "state_string StateClosed = ''closed''"
| "state_string StateOpen = ''open''"
| "state_string StateHalfOpen = ''half_open''"
| "state_string StateDisabled = ''unknown''"

section \<open>Calls and the states they reach\<close>

datatype cb_call = CallAllow int | CallSuccess | CallFailure int | CallReset

fun cb_step :: "circuit_breaker \<Rightarrow> cb_call \<Rightarrow> circuit_breaker" where
  "cb_step cb (CallAllow now) = snd (cb_allow now cb)"
| "cb_step cb CallSuccess = cb_record_success cb"
| "cb_step cb (CallFailure now) = cb_record_failure now cb"
| "cb_step cb CallReset = cb_reset cb"

text \<open>The breakers a client can hold: any sequence of calls on a new one.\<close>

inductive cb_reachable :: "circuit_breaker \<Rightarrow> bool" where
  cb_new: "cb_reachable new_circuit_breaker"
| cb_call: "cb_reachable cb \<Longrightarrow> cb_reachable (cb_step cb c)"

definition cb_wf :: "circuit_breaker \<Rightarrow> bool" where
  "cb_wf cb \<longleftrightarrow>
     cb_baseCooldown cb = 5 * minute \<and> cb_backoffMax cb = 60 * minute \<and> cb_failThreshold cb = 3 \<and>
     cb_state cb \<noteq> StateDisabled \<and>
     0 \<le> cb_consecutiveFail cb \<and> cb_consecutiveFail cb < cb_failThreshold cb \<and>
     cb_baseCooldown cb \<le> cb_currentCooldown cb \<and> cb_currentCooldown cb \<le> cb_backoffMax cb \<and>
     0 \<le> cb_openCycles cb \<and>
     (cb_state cb = StateHalfOpen \<longrightarrow> cb_halfOpenProbing cb) \<and>
     (cb_halfOpenProbing cb \<longrightarrow> cb_state cb = StateHalfOpen) \<and>
     (cb_state cb = StateOpen \<or> cb_state cb = StateHalfOpen \<longrightarrow> 2 * cb_baseCooldown cb \<le> cb_currentCooldown cb)"

lemmas cb_op_defs = cb_allow_def cb_record_success_def cb_record_failure_def cb_reset_def Let_def

lemma cb_wf_new: "cb_wf new_circuit_breaker"
  by (simp add: cb_wf_def new_circuit_breaker_def minute_def)

lemma cb_wf_step:
  assumes "cb_wf cb" shows "cb_wf (cb_step cb c)"
  using assms
  by (cases c; cases "cb_state cb")
    (auto simp: cb_wf_def cb_op_defs minute_def)

lemma cb_reachable_wf: "cb_reachable cb \<Longrightarrow> cb_wf cb"
  by (induction rule: cb_reachable.induct) (simp_all add: cb_wf_new cb_wf_step)

lemma cb_wf_no_overflow: "cb_wf cb \<Longrightarrow> 0 \<le> cb_currentCooldown cb * 2 \<and> cb_currentCooldown cb * 2 < 2 ^ 63"
  by (auto simp: cb_wf_def minute_def)

section \<open>At most one probe\<close>

text \<open>A run of concurrent \<open>Allow\<close> calls: the clock readings, and the answers.\<close>

fun cb_allows :: "int list \<Rightarrow> circuit_breaker \<Rightarrow> bool list \<times> circuit_breaker" where
  "cb_allows [] cb = ([], cb)"
| "cb_allows (t # ts) cb =
     (let (a, cb1) = cb_allow t cb; (as, cb2) = cb_allows ts cb1 in (a # as, cb2))"

lemma cb_allows_probing:
  "cb_state cb = StateHalfOpen \<Longrightarrow> cb_halfOpenProbing cb \<Longrightarrow>
   cb_allows ts cb = (replicate (length ts) False, cb)"
  by (induction ts) (simp_all add: cb_allow_def)

lemma cb_allows_open:
  "cb_state cb = StateOpen \<Longrightarrow> count_list (fst (cb_allows ts cb)) True \<le> 1"
proof (induction ts)
  case (Cons t ts)
  show ?case
  proof (cases "t - cb_lastOpenTime cb > cb_currentCooldown cb")
    case True
    let ?cb1 = "cb\<lparr>cb_state := StateHalfOpen, cb_halfOpenProbing := True\<rparr>"
    have "cb_allows ts ?cb1 = (replicate (length ts) False, ?cb1)"
      by (rule cb_allows_probing) simp_all
    moreover have "count_list (replicate n False) True = 0" for n
      by (induction n) simp_all
    ultimately show ?thesis using True Cons.prems by (simp add: cb_allow_def)
  next
    case False
    with Cons show ?thesis by (cases "cb_allows ts cb") (simp add: cb_allow_def)
  qed
qed simp

section \<open>The backoff schedule\<close>

text \<open>One probe that fails: the request is let through at \<open>t\<close> and its failure recorded at \<open>t'\<close>.\<close>

fun failed_probes :: "(int \<times> int) list \<Rightarrow> circuit_breaker \<Rightarrow> circuit_breaker" where
  "failed_probes [] cb = cb"
| "failed_probes ((t, t') # ps) cb = failed_probes ps (cb_record_failure t' (snd (cb_allow t cb)))"

text \<open>Each probe comes after the cooldown that runs when it is asked for.\<close>

fun probes_due :: "(int \<times> int) list \<Rightarrow> circuit_breaker \<Rightarrow> bool" where
  "probes_due [] cb \<longleftrightarrow> True"
| "probes_due ((t, t') # ps) cb \<longleftrightarrow>
     t - cb_lastOpenTime cb > cb_currentCooldown cb \<and>
     probes_due ps (cb_record_failure t' (snd (cb_allow t cb)))"

lemma failed_probe_state:
  assumes "cb_state cb = StateOpen" and "t - cb_lastOpenTime cb > cb_currentCooldown cb"
  shows "fst (cb_allow t cb)"
    and "cb_record_failure t' (snd (cb_allow t cb)) =
         cb\<lparr>cb_openCycles := cb_openCycles cb + 1, cb_lastOpenTime := t',
            cb_currentCooldown := min (cb_currentCooldown cb * 2) (cb_backoffMax cb),
            cb_halfOpenProbing := False\<rparr>"
  using assms by (simp_all add: cb_allow_def cb_record_failure_def)

lemma failed_probes_cooldown:
  assumes "cb_state cb = StateOpen" and "0 \<le> cb_currentCooldown cb"
    and "cb_currentCooldown cb \<le> cb_backoffMax cb" and "probes_due ps cb"
  shows "cb_state (failed_probes ps cb) = StateOpen
    \<and> cb_currentCooldown (failed_probes ps cb)
        = min (cb_currentCooldown cb * 2 ^ length ps) (cb_backoffMax cb)
    \<and> cb_openCycles (failed_probes ps cb) = cb_openCycles cb + int (length ps)"
  using assms
proof (induction ps arbitrary: cb)
  case (Cons p ps)
  obtain t t' where p: "p = (t, t')" by (cases p)
  let ?cb1 = "cb_record_failure t' (snd (cb_allow t cb))"
  from Cons.prems p have due: "t - cb_lastOpenTime cb > cb_currentCooldown cb" by simp
  note cb1 = failed_probe_state(2) [OF Cons.prems(1) due, of t']
  have "cb_state (failed_probes ps ?cb1) = StateOpen
    \<and> cb_currentCooldown (failed_probes ps ?cb1)
        = min (cb_currentCooldown ?cb1 * 2 ^ length ps) (cb_backoffMax ?cb1)
    \<and> cb_openCycles (failed_probes ps ?cb1) = cb_openCycles ?cb1 + int (length ps)"
    using Cons.prems p by (intro Cons.IH) (simp_all add: cb1)
  moreover have "min (min (c * 2) m * 2 ^ n) m = min (c * 2 ^ Suc n) m"
    if "0 \<le> c" "c \<le> m" for c m :: int and n
  proof (cases "c * 2 \<le> m")
    case True
    then show ?thesis by (simp add: mult.assoc)
  next
    case False
    have "m * 1 \<le> m * 2 ^ n" using that by (intro mult_left_mono) simp_all
    moreover have "(c * 2) * 1 \<le> (c * 2) * 2 ^ n" using that by (intro mult_left_mono) simp_all
    ultimately show ?thesis using False by (simp add: mult.assoc)
  qed
  ultimately show ?case using Cons.prems(2,3) by (simp add: p cb1)
qed simp

text \<open>Failures in the closed state: the threshold opens the breaker at twice the base cooldown.\<close>

fun cb_failures :: "int list \<Rightarrow> circuit_breaker \<Rightarrow> circuit_breaker" where
  "cb_failures [] cb = cb"
| "cb_failures (t # ts) cb = cb_failures ts (cb_record_failure t cb)"

declare cb_failures.simps [simp del]

lemma three_failures_open:
  "cb_failures [t1, t2, t3] new_circuit_breaker =
     new_circuit_breaker\<lparr>cb_state := StateOpen, cb_openCycles := 1, cb_lastOpenTime := t3,
       cb_currentCooldown := 10 * minute\<rparr>"
  by (simp add: cb_failures.simps new_circuit_breaker_def cb_record_failure_def minute_def)

lemma opened_fields:
  "cb_state (cb_failures [t1, t2, t3] new_circuit_breaker) = StateOpen"
  "cb_lastOpenTime (cb_failures [t1, t2, t3] new_circuit_breaker) = t3"
  "cb_openCycles (cb_failures [t1, t2, t3] new_circuit_breaker) = 1"
  "cb_currentCooldown (cb_failures [t1, t2, t3] new_circuit_breaker) = 10 * minute"
  "cb_backoffMax (cb_failures [t1, t2, t3] new_circuit_breaker) = 60 * minute"
  unfolding three_failures_open by (simp_all add: new_circuit_breaker_def)

lemma minute_pos [simp]: "0 < minute" "0 \<le> minute"
  by (simp_all add: minute_def)

lemma cb_success_closes [simp]:
  "cb_state (cb_record_success cb) = StateClosed"
  "fst (cb_allow now (cb_record_success cb))"
  by (simp_all add: cb_record_success_def cb_allow_def)

lemma cb_open_rejects:
  "cb_state cb = StateOpen \<Longrightarrow> now - cb_lastOpenTime cb \<le> cb_currentCooldown cb \<Longrightarrow>
   cb_allow now cb = (False, cb)"
  by (simp add: cb_allow_def)

section \<open>Properties\<close>

text \<open>Every breaker that any sequence of calls can produce is well formed: the failure
  counter stays below its threshold, the cooldown stays between the five-minute base and the
  one-hour cap, so that doubling it never overflows 64 bits, the disabled state is never
  entered, and a probe is marked in flight exactly in the half-open state.\<close>

theorem circuit_breaker_invariant:
  assumes "cb_reachable cb"
  shows "cb_wf cb \<and> 0 \<le> cb_currentCooldown cb * 2 \<and> cb_currentCooldown cb * 2 < 2 ^ 63"
  using cb_reachable_wf [OF assms] cb_wf_no_overflow by blast

theorem circuit_breaker_invariant_witness:
  "cb_wf (cb_step (cb_step new_circuit_breaker (CallFailure 7)) (CallAllow 8))"
  using circuit_breaker_invariant [OF cb_call [OF cb_call [OF cb_new]]] by blast

text \<open>C9. However many requests ask an open breaker at whatever times, at most one of them is
  let through until its outcome is recorded, and none while the cooldown runs.\<close>

theorem open_breaker_one_probe:
  assumes "cb_state cb = StateOpen"
  shows "count_list (fst (cb_allows ts cb)) True \<le> 1
    \<and> ((\<forall>t \<in> set ts. t - cb_lastOpenTime cb \<le> cb_currentCooldown cb) \<longrightarrow>
         cb_allows ts cb = (replicate (length ts) False, cb))"
proof -
  have "(\<forall>t \<in> set ts. t - cb_lastOpenTime cb \<le> cb_currentCooldown cb) \<Longrightarrow>
        cb_allows ts cb = (replicate (length ts) False, cb)"
    using assms by (induction ts) (simp_all add: cb_open_rejects)
  with assms cb_allows_open show ?thesis by blast
qed

theorem open_breaker_one_probe_witness:
  "count_list (fst (cb_allows [700 * 10 ^ 9, 701 * 10 ^ 9]
     (cb_failures [1, 2, 3] new_circuit_breaker))) True \<le> 1"
  using open_breaker_one_probe [OF opened_fields(1)] by blast

text \<open>After the third failure in a row opens a new breaker, the cooldown is ten minutes,
  and each probe that fails doubles it up to one hour: after \<open>n\<close> failed probes it is the
  smaller of \<open>10 * 2^n\<close> and 60 minutes. (The comment in the code starts the sequence
  at five minutes.)\<close>

theorem backoff_schedule:
  assumes "probes_due ps (cb_failures [t1, t2, t3] new_circuit_breaker)"
  shows "cb_currentCooldown (failed_probes ps (cb_failures [t1, t2, t3] new_circuit_breaker))
           = min (10 * 2 ^ length ps) 60 * minute
    \<and> cb_openCycles (failed_probes ps (cb_failures [t1, t2, t3] new_circuit_breaker))
           = 1 + int (length ps)"
proof -
  let ?cb = "cb_failures [t1, t2, t3] new_circuit_breaker"
  have "cb_state ?cb = StateOpen" "0 \<le> cb_currentCooldown ?cb"
    "cb_currentCooldown ?cb \<le> cb_backoffMax ?cb"
    by (simp_all add: opened_fields)
  note * = failed_probes_cooldown [OF this assms]
  have "min (10 * minute * 2 ^ n) (60 * minute) = min (10 * 2 ^ n) 60 * minute" for n
    by (simp add: minute_def min_def)
  with * show ?thesis by (simp only: opened_fields)
qed

theorem backoff_schedule_witness:
  "cb_currentCooldown (failed_probes [(11 * minute, 11 * minute), (40 * minute, 41 * minute)]
     (cb_failures [0, 0, 0] new_circuit_breaker)) = 40 * minute"
proof -
  let ?ps = "[(11 * minute, 11 * minute), (40 * minute, 41 * minute)]"
  have "probes_due ?ps (cb_failures [0, 0, 0] new_circuit_breaker)"
    by (simp add: failed_probe_state opened_fields)
  from backoff_schedule [OF this] show ?thesis by simp
qed

end
