(* ===== verification/Core_Types.thy ===== *)
theory Core_Types
  imports Prelude
begin

text \<open>
  The shared entities of \<open>internal/types\<close> (\<open>entities.go\<close>, \<open>results.go\<close>,
  \<open>diff_types.go\<close>, \<open>enums.go\<close> and the plain structs of \<open>interfaces.go\<close>) as records,
  field for field. A field is named after the struct's initials and the Go field. A Go
  pointer that may be nil is an \<open>option\<close>; a time stamp that the code keeps as a string is
  a string. \<open>Meta map[string]any\<close> is a partial map, the nil map being empty.
\<close>

section \<open>Results of retrieval (results.go, interfaces.go)\<close>

record scored_result =
  sr_ChunkID :: int
  sr_FileID :: int
  sr_Score :: real
  sr_Path :: string
  sr_SymbolName :: string
  sr_Kind :: string
  sr_StartLine :: int
  sr_EndLine :: int
  sr_Content :: string
  sr_TokenCount :: int

datatype meta_val = MBool bool | MInt int

record context_package =
  cp_Chunks :: "scored_result list"
  cp_TotalTokens :: int
  cp_Strategy :: string
  cp_Meta :: "string \<rightharpoonup> meta_val"

record index_stats =
  st_TotalFiles :: int
  st_TotalChunks :: int
  st_TotalSymbols :: int
  st_Languages :: "(string \<times> int) list"
  st_ParseErrors :: int
  st_StaleFiles :: int

record fts_result =
  ft_ChunkID :: int
  ft_Rank :: real

record vector_result =
  vr_ChunkID :: int
  vr_Score :: real

record embed_job =
  ej_ChunkID :: int
  ej_Content :: string

text \<open>A \<open>float32\<close>: a finite number, a NaN or an infinity (\<open>F32Inf True\<close> is the positive one).\<close>

datatype float32 = F32 real | F32NaN | F32Inf bool

type_synonym vec = "float32 list"

section \<open>Stored entities (entities.go)\<close>

record file_record =
  fr_ID :: int
  fr_Path :: string
  fr_ContentHash :: string
  fr_Mtime :: real
  fr_Size :: int
  fr_Language :: string
  fr_IndexedAt :: string
  fr_EmbeddingStatus :: string
  fr_ParseQuality :: string
  fr_IsTest :: bool

record chunk_record =
  cr_ID :: int
  cr_FileID :: int
  cr_ParentChunkID :: "int option"
  cr_ChunkIndex :: int
  cr_SymbolName :: string
  cr_Kind :: string
  cr_StartLine :: int
  cr_EndLine :: int
  cr_Content :: string
  cr_TokenCount :: int
  cr_Signature :: string
  cr_ParseQuality :: string
  cr_ParentIndex :: "int option"

text \<open>Go's zero value, from which the code's struct literals are built.\<close>

definition zero_chunk :: chunk_record where
  "zero_chunk = \<lparr>cr_ID = 0, cr_FileID = 0, cr_ParentChunkID = None, cr_ChunkIndex = 0,
     cr_SymbolName = [], cr_Kind = [], cr_StartLine = 0, cr_EndLine = 0, cr_Content = [],
     cr_TokenCount = 0, cr_Signature = [], cr_ParseQuality = [], cr_ParentIndex = None\<rparr>"

record symbol_record =
  sy_ID :: int
  sy_ChunkID :: int
  sy_FileID :: int
  sy_Name :: string
  sy_QualifiedName :: string
  sy_Kind :: string
  sy_Line :: int
  sy_Signature :: string
  sy_Visibility :: string
  sy_IsExported :: bool

definition zero_symbol :: symbol_record where
  "zero_symbol = \<lparr>sy_ID = 0, sy_ChunkID = 0, sy_FileID = 0, sy_Name = [],
     sy_QualifiedName = [], sy_Kind = [], sy_Line = 0, sy_Signature = [],
     sy_Visibility = [], sy_IsExported = False\<rparr>"

record edge_record =
  er_ID :: int
  er_SrcSymbolID :: int
  er_DstSymbolID :: int
  er_SrcSymbolName :: string
  er_DstSymbolName :: string
  er_DstQualifiedName :: string
  er_Kind :: string
  er_FileID :: int
  er_IsCrossFile :: bool

record hydrated_chunk =
  hc_ChunkID :: int
  hc_FileID :: int
  hc_Path :: string
  hc_IsTest :: bool
  hc_SymbolName :: string
  hc_Kind :: string
  hc_StartLine :: int
  hc_EndLine :: int
  hc_Content :: string
  hc_TokenCount :: int

record sibling_key =
  sk_FileID :: int
  sk_SymbolName :: string
  sk_Kind :: string

definition sibling_key_string :: "sibling_key \<Rightarrow> string" where
  "sibling_key_string k =
     dec_int (sk_FileID k) @ '':'' @ sk_SymbolName k @ '':'' @ sk_Kind k"

section \<open>Write jobs and diffs (entities.go, diff_types.go)\<close>

datatype write_job_type = WriteJobEnrichment | WriteJobFileDelete | WriteJobSync | WriteJobOther int

record write_job =
  wj_Type :: write_job_type
  wj_FilePath :: string
  wj_File :: "file_record option"
  wj_Chunks :: "chunk_record list"
  wj_Symbols :: "symbol_record list"
  wj_Edges :: "edge_record list"
  wj_ContentHash :: string
  wj_Timestamp :: int

record diff_log_entry =
  dl_ID :: int
  dl_FileID :: int
  dl_Timestamp :: string
  dl_ChangeType :: string
  dl_LinesAdded :: int
  dl_LinesRemoved :: int
  dl_HashBefore :: string
  dl_HashAfter :: string

record diff_symbol_entry =
  ds_SymbolName :: string
  ds_SymbolID :: int
  ds_ChangeType :: string
  ds_ChunkID :: int

record recent_diffs_input =
  rd_Since :: string
  rd_FileID :: int
  rd_Limit :: int

record pending_edge_caller =
  pc_SrcSymbolID :: int
  pc_Kind :: string
  pc_DstQualifiedName :: string

section \<open>Closed string sets (enums.go)\<close>

definition kind_valid :: "string \<Rightarrow> bool" where
  "kind_valid k \<longleftrightarrow> k \<in> {''function'', ''method'', ''class'', ''type'', ''interface'',
     ''header'', ''block'', ''variable'', ''constant''}"

definition visibility_valid :: "string \<Rightarrow> bool" where
  "visibility_valid v \<longleftrightarrow> v \<in> {''public'', ''private'', ''internal'', ''exported''}"

definition edge_kind_valid :: "string \<Rightarrow> bool" where
  "edge_kind_valid k \<longleftrightarrow> k \<in> {''calls'', ''imports'', ''type_ref'', ''inherits'', ''implements''}"

definition embedding_status_valid :: "string \<Rightarrow> bool" where
  "embedding_status_valid s \<longleftrightarrow> s \<in> {''pending'', ''partial'', ''complete''}"

definition parse_quality_valid :: "string \<Rightarrow> bool" where
  "parse_quality_valid q \<longleftrightarrow> q \<in> {''full'', ''partial'', ''error'', ''unparseable''}"

lemma kind_valid_no_colon: "kind_valid k \<Longrightarrow> CHR '':'' \<notin> set k"
  by (auto simp: kind_valid_def)

section \<open>Sibling keys never collide\<close>

text \<open>
  The decimal file id holds no colon and neither does a valid kind, so the key can be
  split again at its first and at its last colon, whatever the symbol name holds.
\<close>

lemma sibling_key_string_inj:
  assumes eq: "sibling_key_string k = sibling_key_string k'"
    and "CHR '':'' \<notin> set (sk_Kind k)" and "CHR '':'' \<notin> set (sk_Kind k')"
  shows "k = k'"
proof -
  from eq have "dec_int (sk_FileID k) = dec_int (sk_FileID k')
      \<and> sk_SymbolName k @ '':'' @ sk_Kind k = sk_SymbolName k' @ '':'' @ sk_Kind k'"
    unfolding sibling_key_string_def
    by (intro append_sep_inj_prefix [where c = "CHR '':''"]) (simp_all add: dec_int_no_colon)
  then have "sk_FileID k = sk_FileID k'"
    and "sk_SymbolName k @ CHR '':'' # sk_Kind k = sk_SymbolName k' @ CHR '':'' # sk_Kind k'"
    by (auto dest: dec_int_inj)
  moreover from this(2) assms(2,3) have "sk_SymbolName k = sk_SymbolName k' \<and> sk_Kind k = sk_Kind k'"
    by (intro append_sep_inj)
  ultimately show ?thesis by (cases k, cases k') simp
qed

lemma sibling_key_string_eq_iff:
  "kind_valid (sk_Kind k) \<Longrightarrow> kind_valid (sk_Kind k') \<Longrightarrow>
   sibling_key_string k = sibling_key_string k' \<longleftrightarrow> k = k'"
  using sibling_key_string_inj kind_valid_no_colon by blast

end
