(* ===== verification/Core_Store.thy ===== *)
theory Core_Store
  imports Core_Types
begin

text \<open>
  The interface through which \<open>internal/core\<close> reads the index: the query methods of
  \<open>types.MetadataStore\<close>, \<open>DiffStore\<close> and \<open>GraphMutator\<close> as a record of functions, with
  the optional \<open>types.BatchMetadataStore\<close> as its last field (the type assertion
  \<open>store.(types.BatchMetadataStore)\<close> succeeds when the field is set). A Go map that the
  callers range over is an association list, whose order stands for the order the range
  statement happens to take; lookups use \<open>map_of\<close>. The context argument is left out.
\<close>

record batch_store =
  bs_BatchGetSymbolIDsForChunks :: "int list \<Rightarrow> (int \<times> int) list res"
  bs_BatchNeighbors :: "int list \<Rightarrow> int \<Rightarrow> (int \<times> int list) list res"
  bs_BatchGetChunkIDsForSymbols :: "int list \<Rightarrow> (int \<times> int) list res"
  bs_BatchHydrateChunks :: "int list \<Rightarrow> hydrated_chunk list res"
  bs_BatchGetSiblingChunks :: "sibling_key list \<Rightarrow> (string \<times> hydrated_chunk list) list res"

record metadata_store =
  ms_GetChunkByID :: "int \<Rightarrow> chunk_record option res"
  ms_GetSymbolByName :: "string \<Rightarrow> symbol_record list res"
  ms_GetSymbolByID :: "int \<Rightarrow> symbol_record option res"
  ms_GetFilePathByID :: "int \<Rightarrow> string res"
  ms_GetFileIsTestByID :: "int \<Rightarrow> bool res"
  ms_GetIndexStats :: "index_stats res"
  ms_KeywordSearch :: "string \<Rightarrow> int \<Rightarrow> fts_result list res"
  ms_ComputeChangeScores :: "int list \<Rightarrow> (int \<times> real) list res"
  ms_Neighbors :: "int \<Rightarrow> int \<Rightarrow> string \<Rightarrow> int list res"
  ms_GetSiblingChunks :: "int \<Rightarrow> string \<Rightarrow> string \<Rightarrow> chunk_record list res"
  ms_PendingEdgeCallers :: "string \<Rightarrow> int list res"
  ms_PendingEdgeCallersWithKind :: "string \<Rightarrow> pending_edge_caller list res"
  ms_GetRecentDiffs :: "recent_diffs_input \<Rightarrow> diff_log_entry list res"
  ms_GetDiffSymbols :: "int \<Rightarrow> diff_symbol_entry list res"
  ms_batch :: "batch_store option"

text \<open>\<open>lookupSymbolForChunk\<close> of \<open>ranker.go\<close>: zero when there is no symbol.\<close>

definition lookup_symbol_for_chunk :: "metadata_store \<Rightarrow> int \<Rightarrow> int" where
  "lookup_symbol_for_chunk store chunkID =
     (case ms_GetChunkByID store chunkID of
        Inl _ \<Rightarrow> 0
      | Inr None \<Rightarrow> 0
      | Inr (Some chunk) \<Rightarrow>
          if cr_SymbolName chunk = [] then 0
          else (case ms_GetSymbolByName store (cr_SymbolName chunk) of
                  Inl _ \<Rightarrow> 0
                | Inr [] \<Rightarrow> 0
                | Inr (s # ss) \<Rightarrow>
                    (case find (\<lambda>x. sy_FileID x = cr_FileID chunk) (s # ss) of
                       Some x \<Rightarrow> sy_ID x
                     | None \<Rightarrow> sy_ID s)))"

text \<open>\<open>lookupChunkIDsForSymbols\<close> of \<open>ranker.go\<close>.\<close>

fun lookup_chunk_ids_for_symbols :: "metadata_store \<Rightarrow> int list \<Rightarrow> int list" where
  "lookup_chunk_ids_for_symbols store [] = []"
| "lookup_chunk_ids_for_symbols store (symID # ids) =
     (case ms_GetSymbolByID store symID of
        Inr (Some y) \<Rightarrow> sy_ChunkID y # lookup_chunk_ids_for_symbols store ids
      | _ \<Rightarrow> lookup_chunk_ids_for_symbols store ids)"

text \<open>A store that holds nothing, for concrete instances.\<close>

definition empty_stats :: index_stats where
  "empty_stats = \<lparr>st_TotalFiles = 0, st_TotalChunks = 0, st_TotalSymbols = 0, st_Languages = [],
     st_ParseErrors = 0, st_StaleFiles = 0\<rparr>"

definition empty_store :: metadata_store where
  "empty_store =
     \<lparr>ms_GetChunkByID = (\<lambda>_. Inr None), ms_GetSymbolByName = (\<lambda>_. Inr []),
      ms_GetSymbolByID = (\<lambda>_. Inr None), ms_GetFilePathByID = (\<lambda>_. Inl (ErrMsg ''no file'')),
      ms_GetFileIsTestByID = (\<lambda>_. Inl (ErrMsg ''no file'')), ms_GetIndexStats = Inr empty_stats,
      ms_KeywordSearch = (\<lambda>_ _. Inr []), ms_ComputeChangeScores = (\<lambda>_. Inr []),
      ms_Neighbors = (\<lambda>_ _ _. Inr []), ms_GetSiblingChunks = (\<lambda>_ _ _. Inr []),
      ms_PendingEdgeCallers = (\<lambda>_. Inr []), ms_PendingEdgeCallersWithKind = (\<lambda>_. Inr []),
      ms_GetRecentDiffs = (\<lambda>_. Inr []), ms_GetDiffSymbols = (\<lambda>_. Inr []), ms_batch = None\<rparr>"

end
