(* ===== verification/Retrieval.thy ===== *)
theory Retrieval
  imports Core_Store
begin

text \<open>
  \<open>internal/core/retrieval.go\<close>: keyword search with test filtering, hydration of the hits
  (batch and per-item paths), and the reconstitution of methods that were split into several
  chunks. \<open>srt\<close> is \<open>sort.Slice\<close> on start lines.
\<close>

section \<open>Test filter\<close>

record test_filter =
  tf_ExcludeTests :: bool
  tf_TestOnly :: bool

definition scope_to_filter :: "string \<Rightarrow> test_filter" where
  "scope_to_filter scope =
     (if scope = ''test'' then \<lparr>tf_ExcludeTests = False, tf_TestOnly = True\<rparr>
      else if scope = ''all'' then \<lparr>tf_ExcludeTests = False, tf_TestOnly = False\<rparr>
      else \<lparr>tf_ExcludeTests = True, tf_TestOnly = False\<rparr>)"

definition filter_active :: "test_filter \<Rightarrow> bool" where
  "filter_active f \<longleftrightarrow> tf_ExcludeTests f \<or> tf_TestOnly f"

definition accept_is_test :: "test_filter \<Rightarrow> bool \<Rightarrow> bool" where
  "accept_is_test f isTest =
     (if tf_ExcludeTests f \<and> isTest then False
      else if tf_TestOnly f \<and> \<not> isTest then False
      else True)"

definition accept_by_file_id :: "test_filter \<Rightarrow> (int \<Rightarrow> bool res) \<Rightarrow> int \<Rightarrow> bool res" where
  "accept_by_file_id f getFileIsTest fileID =
     (if \<not> filter_active f then Inr True
      else bind_res (getFileIsTest fileID) (\<lambda>isTest. Inr (accept_is_test f isTest)))"

section \<open>Hydration\<close>

definition scored_from_hydrated :: "hydrated_chunk \<Rightarrow> real \<Rightarrow> scored_result" where
  "scored_from_hydrated h score =
     \<lparr>sr_ChunkID = hc_ChunkID h, sr_FileID = hc_FileID h, sr_Score = score, sr_Path = hc_Path h,
      sr_SymbolName = hc_SymbolName h, sr_Kind = hc_Kind h, sr_StartLine = hc_StartLine h,
      sr_EndLine = hc_EndLine h, sr_Content = hc_Content h, sr_TokenCount = hc_TokenCount h\<rparr>"

definition scored_from_chunk :: "chunk_record \<Rightarrow> string \<Rightarrow> real \<Rightarrow> scored_result" where
  "scored_from_chunk c path score =
     \<lparr>sr_ChunkID = cr_ID c, sr_FileID = cr_FileID c, sr_Score = score, sr_Path = path,
      sr_SymbolName = cr_SymbolName c, sr_Kind = cr_Kind c, sr_StartLine = cr_StartLine c,
      sr_EndLine = cr_EndLine c, sr_Content = cr_Content c, sr_TokenCount = cr_TokenCount c\<rparr>"

definition normalize_bm25 :: "real \<Rightarrow> real" where
  "normalize_bm25 rank =
     (if rank \<ge> 0 then 0 else let score = - rank / 50 in if score > 1 then 1 else score)"

fun hydrate_rows ::
  "(int \<rightharpoonup> hydrated_chunk) \<Rightarrow> test_filter \<Rightarrow> fts_result list \<Rightarrow> scored_result list" where
  "hydrate_rows hydratedMap f [] = []"
| "hydrate_rows hydratedMap f (fts # rest) =
     (case hydratedMap (ft_ChunkID fts) of
        None \<Rightarrow> hydrate_rows hydratedMap f rest
      | Some h \<Rightarrow>
          if \<not> accept_is_test f (hc_IsTest h) then hydrate_rows hydratedMap f rest
          else scored_from_hydrated h (normalize_bm25 (ft_Rank fts)) # hydrate_rows hydratedMap f rest)"

definition hydrated_map :: "hydrated_chunk list \<Rightarrow> int \<rightharpoonup> hydrated_chunk" where
  "hydrated_map hydrated = map_of (rev (map (\<lambda>h. (hc_ChunkID h, h)) hydrated))"

definition hydrate_fts_results_batch ::
  "batch_store \<Rightarrow> fts_result list \<Rightarrow> test_filter \<Rightarrow> scored_result list res" where
  "hydrate_fts_results_batch bs ftsResults f =
     bind_res (wrap_res ''batch hydrate FTS results'' (bs_BatchHydrateChunks bs (map ft_ChunkID ftsResults)))
       (\<lambda>hydrated. Inr (hydrate_rows (hydrated_map hydrated) f ftsResults))"

fun hydrate_fts_results_legacy ::
  "metadata_store \<Rightarrow> fts_result list \<Rightarrow> test_filter \<Rightarrow> scored_result list res" where
  "hydrate_fts_results_legacy store [] f = Inr []"
| "hydrate_fts_results_legacy store (fts # rest) f =
     (case ms_GetChunkByID store (ft_ChunkID fts) of
        Inl e \<Rightarrow> Inl (ErrWrap ''hydrate chunk'' e)
      | Inr None \<Rightarrow> hydrate_fts_results_legacy store rest f
      | Inr (Some chunk) \<Rightarrow>
          (case accept_by_file_id f (ms_GetFileIsTestByID store) (cr_FileID chunk) of
             Inl e \<Rightarrow> Inl (ErrWrap ''check is_test for chunk'' e)
           | Inr ok \<Rightarrow>
               if \<not> ok then hydrate_fts_results_legacy store rest f
               else (case ms_GetFilePathByID store (cr_FileID chunk) of
                       Inl e \<Rightarrow> Inl (ErrWrap ''get file path for chunk'' e)
                     | Inr path \<Rightarrow>
                         bind_res (hydrate_fts_results_legacy store rest f)
                           (\<lambda>results. Inr (scored_from_chunk chunk path (normalize_bm25 (ft_Rank fts)) # results)))))"

definition hydrate_fts_results ::
  "metadata_store \<Rightarrow> fts_result list \<Rightarrow> test_filter \<Rightarrow> scored_result list res" where
  "hydrate_fts_results store ftsResults f =
     (case ms_batch store of
        Some bs \<Rightarrow> hydrate_fts_results_batch bs ftsResults f
      | None \<Rightarrow> hydrate_fts_results_legacy store ftsResults f)"

definition fts_limit :: "int \<Rightarrow> test_filter \<Rightarrow> int" where
  "fts_limit limit f =
     (if tf_ExcludeTests f \<or> tf_TestOnly f
      then (if limit * 2 > 400 then 400 else limit * 2)
      else limit)"

definition keyword_search ::
  "metadata_store \<Rightarrow> string \<Rightarrow> int \<Rightarrow> test_filter \<Rightarrow> scored_result list res" where
  "keyword_search store query limit f =
     bind_res (wrap_res ''keyword search'' (ms_KeywordSearch store query (fts_limit limit f)))
       (\<lambda>ftsResults. if ftsResults = [] then Inr [] else hydrate_fts_results store ftsResults f)"

section \<open>Split siblings\<close>

definition has_sibling_key :: "scored_result \<Rightarrow> bool" where
  "has_sibling_key r \<longleftrightarrow> \<not> (sr_SymbolName r = [] \<or> sr_Kind r = ''header'' \<or> sr_FileID r = 0)"

definition sibling_key_of :: "scored_result \<Rightarrow> sibling_key" where
  "sibling_key_of r = \<lparr>sk_FileID = sr_FileID r, sk_SymbolName = sr_SymbolName r, sk_Kind = sr_Kind r\<rparr>"

text \<open>\<open>siblingChunkIDs\<close>: the group a chunk belongs to; a later group wins.\<close>

definition sibling_chunk_ids :: "(string \<times> hydrated_chunk list) list \<Rightarrow> int \<rightharpoonup> string" where
  "sibling_chunk_ids siblingMap =
     map_of (rev (concat (map (\<lambda>(key, siblings). map (\<lambda>s. (hc_ChunkID s, key)) siblings) siblingMap)))"

definition best_score :: "(int \<rightharpoonup> string) \<Rightarrow> string \<Rightarrow> scored_result list \<Rightarrow> real \<Rightarrow> real" where
  "best_score ids key results start =
     foldl (\<lambda>best other.
        if ids (sr_ChunkID other) = Some key \<and> sr_Score other > best then sr_Score other else best)
       start results"

definition merged_result ::
  "(hydrated_chunk list \<Rightarrow> hydrated_chunk list) \<Rightarrow> (string \<times> hydrated_chunk list) list \<Rightarrow> (int \<rightharpoonup> string)
     \<Rightarrow> scored_result list \<Rightarrow> string \<Rightarrow> scored_result \<Rightarrow> scored_result" where
  "merged_result srt siblingMap ids results key r =
     (let siblings = srt (case map_of siblingMap key of Some s \<Rightarrow> s | None \<Rightarrow> []);
          contentParts = map hc_Content siblings;
          totalTokens = foldl (\<lambda>t s. t + hc_TokenCount s) 0 siblings;
          startLine = foldl (\<lambda>m s. if hc_StartLine s < m then hc_StartLine s else m)
                        (hc_StartLine (hd siblings)) siblings;
          endLine = foldl (\<lambda>m s. if hc_EndLine s > m then hc_EndLine s else m)
                        (hc_EndLine (hd siblings)) siblings;
          bestScore = best_score ids key results (sr_Score r)
      in \<lparr>sr_ChunkID = sr_ChunkID r, sr_FileID = 0, sr_Score = bestScore, sr_Path = sr_Path r,
          sr_SymbolName = sr_SymbolName r, sr_Kind = sr_Kind r, sr_StartLine = startLine,
          sr_EndLine = endLine, sr_Content = join_with [char_of (10 :: nat)] contentParts,
          sr_TokenCount = totalTokens\<rparr>)"

fun merge_loop ::
  "(hydrated_chunk list \<Rightarrow> hydrated_chunk list) \<Rightarrow> (string \<times> hydrated_chunk list) list \<Rightarrow> (int \<rightharpoonup> string)
     \<Rightarrow> scored_result list \<Rightarrow> string set \<Rightarrow> scored_result list \<Rightarrow> scored_result list" where
  "merge_loop srt siblingMap ids results emitted [] = []"
| "merge_loop srt siblingMap ids results emitted (r # rs) =
     (case ids (sr_ChunkID r) of
        None \<Rightarrow> r # merge_loop srt siblingMap ids results emitted rs
      | Some key \<Rightarrow>
          if key \<in> emitted then merge_loop srt siblingMap ids results emitted rs
          else merged_result srt siblingMap ids results key r
                 # merge_loop srt siblingMap ids results (insert key emitted) rs)"

definition merge_siblings ::
  "(hydrated_chunk list \<Rightarrow> hydrated_chunk list) \<Rightarrow> scored_result list
     \<Rightarrow> (string \<times> hydrated_chunk list) list \<Rightarrow> scored_result list" where
  "merge_siblings srt results siblingMap =
     (if siblingMap = [] then results
      else merge_loop srt siblingMap (sibling_chunk_ids siblingMap) results {} results)"

text \<open>The unique sibling keys; the code takes them in the order of a map.\<close>

definition expand_siblings_batch ::
  "(hydrated_chunk list \<Rightarrow> hydrated_chunk list) \<Rightarrow> batch_store \<Rightarrow> scored_result list \<Rightarrow> scored_result list" where
  "expand_siblings_batch srt bs results =
     (let keys = dedup_on sibling_key_string {} (map sibling_key_of (filter has_sibling_key results)) in
      if keys = [] then results
      else (case bs_BatchGetSiblingChunks bs keys of
              Inl _ \<Rightarrow> results
            | Inr siblingMap \<Rightarrow> merge_siblings srt results siblingMap))"

definition hydrated_from_chunk :: "string \<Rightarrow> chunk_record \<Rightarrow> hydrated_chunk" where
  "hydrated_from_chunk path s =
     \<lparr>hc_ChunkID = cr_ID s, hc_FileID = cr_FileID s, hc_Path = path, hc_IsTest = False,
      hc_SymbolName = cr_SymbolName s, hc_Kind = cr_Kind s, hc_StartLine = cr_StartLine s,
      hc_EndLine = cr_EndLine s, hc_Content = cr_Content s, hc_TokenCount = cr_TokenCount s\<rparr>"

fun collect_siblings ::
  "metadata_store \<Rightarrow> scored_result list \<Rightarrow> (string \<times> hydrated_chunk list) list
     \<Rightarrow> (string \<times> hydrated_chunk list) list" where
  "collect_siblings store [] siblingMap = siblingMap"
| "collect_siblings store (r # rs) siblingMap =
     (if \<not> has_sibling_key r then collect_siblings store rs siblingMap
      else
        let k = sibling_key_string (sibling_key_of r) in
        if map_of siblingMap k \<noteq> None then collect_siblings store rs siblingMap
        else (case ms_GetSiblingChunks store (sr_FileID r) (sr_SymbolName r) (sr_Kind r) of
                Inl _ \<Rightarrow> collect_siblings store rs siblingMap
              | Inr siblings \<Rightarrow>
                  if length siblings \<le> 1 then collect_siblings store rs siblingMap
                  else collect_siblings store rs
                         (siblingMap @ [(k, map (hydrated_from_chunk (sr_Path r)) siblings)])))"

definition expand_siblings_legacy ::
  "(hydrated_chunk list \<Rightarrow> hydrated_chunk list) \<Rightarrow> metadata_store \<Rightarrow> scored_result list \<Rightarrow> scored_result list" where
  "expand_siblings_legacy srt store results = merge_siblings srt results (collect_siblings store results [])"

definition expand_split_siblings ::
  "(hydrated_chunk list \<Rightarrow> hydrated_chunk list) \<Rightarrow> metadata_store \<Rightarrow> scored_result list \<Rightarrow> scored_result list" where
  "expand_split_siblings srt store results =
     (if results = [] then results
      else (case ms_batch store of
              Some bs \<Rightarrow> expand_siblings_batch srt bs results
            | None \<Rightarrow> expand_siblings_legacy srt store results))"

definition start_line_lt :: "hydrated_chunk \<Rightarrow> hydrated_chunk \<Rightarrow> bool" where
  "start_line_lt a b \<longleftrightarrow> hc_StartLine a < hc_StartLine b"


section \<open>Batch hydration agrees with hydration one by one\<close>

text \<open>What the per-item queries say about a chunk, as one row.\<close>

definition hydration :: "metadata_store \<Rightarrow> int \<Rightarrow> hydrated_chunk option" where
  "hydration store i =
     (case ms_GetChunkByID store i of
        Inr (Some c) \<Rightarrow>
          (case (ms_GetFilePathByID store (cr_FileID c), ms_GetFileIsTestByID store (cr_FileID c)) of
             (Inr p, Inr t) \<Rightarrow> Some ((hydrated_from_chunk p c)\<lparr>hc_IsTest := t\<rparr>)
           | _ \<Rightarrow> None)
      | _ \<Rightarrow> None)"

text \<open>The contract between the two interfaces of a store: the per-item queries answer, and
  the batch query returns the same rows for the ids it is given.\<close>

locale batch_hydration =
  fixes store :: "'d \<Rightarrow> metadata_store" and bs :: "'d \<Rightarrow> batch_store" and inv :: "'d \<Rightarrow> bool"
  assumes chunk_total: "inv st \<Longrightarrow> \<exists>co. ms_GetChunkByID (store st) i = Inr co"
    and chunk_id: "inv st \<Longrightarrow> ms_GetChunkByID (store st) i = Inr (Some c) \<Longrightarrow> cr_ID c = i"
    and file_total: "inv st \<Longrightarrow> ms_GetChunkByID (store st) i = Inr (Some c) \<Longrightarrow>
      \<exists>p t. ms_GetFilePathByID (store st) (cr_FileID c) = Inr p \<and> ms_GetFileIsTestByID (store st) (cr_FileID c) = Inr t"
    and batch_rows: "inv st \<Longrightarrow> \<exists>hs. bs_BatchHydrateChunks (bs st) ids = Inr hs
      \<and> (\<forall>h \<in> set hs. hydration (store st) (hc_ChunkID h) = Some h)
      \<and> (\<forall>i \<in> set ids. hydration (store st) i \<noteq> None \<longrightarrow> i \<in> hc_ChunkID ` set hs)"
begin

lemma hydration_cases:
  assumes inv: "inv st"
  obtains (none) "ms_GetChunkByID (store st) i = Inr None" "hydration (store st) i = None"
  | (some) c p t where "ms_GetChunkByID (store st) i = Inr (Some c)"
      "ms_GetFilePathByID (store st) (cr_FileID c) = Inr p" "ms_GetFileIsTestByID (store st) (cr_FileID c) = Inr t"
      "hydration (store st) i = Some ((hydrated_from_chunk p c)\<lparr>hc_IsTest := t\<rparr>)"
proof (cases "ms_GetChunkByID (store st) i = Inr None")
  case True
  then show ?thesis by (intro none) (simp_all add: hydration_def)
next
  case False
  with chunk_total [OF inv, of i] obtain c where c: "ms_GetChunkByID (store st) i = Inr (Some c)"
    by (metis option.exhaust)
  from file_total [OF inv c] obtain p t where
    "ms_GetFilePathByID (store st) (cr_FileID c) = Inr p" "ms_GetFileIsTestByID (store st) (cr_FileID c) = Inr t" by blast
  with c show ?thesis by (intro some) (simp_all add: hydration_def)
qed

lemma hydrated_map_rows:
  assumes rows: "\<forall>h \<in> set hs. hydration (store st) (hc_ChunkID h) = Some h"
    and all: "\<forall>i \<in> set ids. hydration (store st) i \<noteq> None \<longrightarrow> i \<in> hc_ChunkID ` set hs"
    and i: "i \<in> set ids"
  shows "hydrated_map hs i = hydration (store st) i"
proof (cases "hydrated_map hs i")
  case None
  then have "i \<notin> hc_ChunkID ` set hs"
    by (auto simp: hydrated_map_def map_of_eq_None_iff image_iff)
  with all i None show ?thesis by auto
next
  case (Some h)
  then have "h \<in> set hs" "hc_ChunkID h = i" unfolding hydrated_map_def by (auto dest: map_of_SomeD)
  with rows Some show ?thesis by auto
qed

lemma hydrate_rows_legacy:
  assumes inv: "inv st"
    and "\<And>i. i \<in> ft_ChunkID ` set fts \<Longrightarrow> m i = hydration (store st) i"
  shows "hydrate_fts_results_legacy (store st) fts f = Inr (hydrate_rows m f fts)"
  using assms(2)
proof (induction fts)
  case (Cons x xs)
  from Cons have IH: "hydrate_fts_results_legacy (store st) xs f = Inr (hydrate_rows m f xs)" by simp
  from Cons.prems [of "ft_ChunkID x"] have mx: "m (ft_ChunkID x) = hydration (store st) (ft_ChunkID x)" by simp
  from inv show ?case
  proof (cases rule: hydration_cases [of _ "ft_ChunkID x"])
    case none
    with IH mx show ?thesis by simp
  next
    case (some c p t)
    have same: "scored_from_chunk c p sc = scored_from_hydrated ((hydrated_from_chunk p c)\<lparr>hc_IsTest := t\<rparr>) sc" for sc
      by (simp add: scored_from_chunk_def scored_from_hydrated_def hydrated_from_chunk_def)
    show ?thesis
      using IH mx some
      by (auto simp: same accept_by_file_id_def filter_active_def accept_is_test_def)
  qed
qed simp

lemma batch_eq_legacy:
  assumes inv: "inv st"
  shows "hydrate_fts_results_batch (bs st) fts f = hydrate_fts_results_legacy (store st) fts f"
proof -
  from batch_rows [OF inv, of "map ft_ChunkID fts"] obtain hs where
    hs: "bs_BatchHydrateChunks (bs st) (map ft_ChunkID fts) = Inr hs"
      "\<forall>h \<in> set hs. hydration (store st) (hc_ChunkID h) = Some h"
      "\<forall>i \<in> set (map ft_ChunkID fts). hydration (store st) i \<noteq> None \<longrightarrow> i \<in> hc_ChunkID ` set hs" by blast
  then have "hydrated_map hs i = hydration (store st) i" if "i \<in> ft_ChunkID ` set fts" for i
    using that by (intro hydrated_map_rows [where ids = "map ft_ChunkID fts"]) auto
  with hs(1) hydrate_rows_legacy [OF inv, of fts "hydrated_map hs"] show ?thesis
    by (simp add: hydrate_fts_results_batch_def)
qed

end

section \<open>Lemmas on merged siblings\<close>

lemma slice_sort_start_line: "slice_sort start_line_lt (insertion_sort start_line_lt)"
  by (rule slice_sort_insertion_sort [where f = hc_StartLine]) (simp add: start_line_lt_def)

lemma foldl_min: "foldl (\<lambda>m x. if g x < m then g x else m) a xs = Min (insert a (g ` set xs))"
  for g :: "'x \<Rightarrow> int"
proof (induction xs arbitrary: a)
  case (Cons x xs)
  have "Min (insert (min a b) S) = Min (insert a (insert b S))" if "finite S" for b and S :: "int set"
    using that by (cases "S = {}") (simp_all add: min.assoc)
  moreover have "(if g x < a then g x else a) = min a (g x)" by (simp add: min_def)
  ultimately show ?case using Cons.IH by simp
qed simp

lemma foldl_max: "foldl (\<lambda>m x. if m < g x then g x else m) a xs = Max (insert a (g ` set xs))"
  for g :: "'x \<Rightarrow> 'k::linorder"
proof (induction xs arbitrary: a)
  case (Cons x xs)
  have "Max (insert (max a b) S) = Max (insert a (insert b S))" if "finite S" for b and S :: "'k set"
    using that by (cases "S = {}") (simp_all add: max.assoc)
  moreover have "(if a < g x then g x else a) = max a (g x)" by (auto simp: max_def)
  ultimately show ?case using Cons.IH by simp
qed simp

lemma foldl_sum: "foldl (\<lambda>t x. t + g x) (a :: int) xs = a + sum_list (map g xs)"
  by (induction xs arbitrary: a) simp_all

lemma best_score_Max:
  "best_score ids key results b
     = Max (insert b (sr_Score ` {r \<in> set results. ids (sr_ChunkID r) = Some key}))"
proof -
  let ?P = "\<lambda>r. ids (sr_ChunkID r) = Some key"
  have "best_score ids key results b
      = foldl (\<lambda>m r. if m < sr_Score r then sr_Score r else m) b (filter ?P results)"
    unfolding best_score_def by (induction results arbitrary: b) auto
  then show ?thesis by (simp add: foldl_max)
qed

lemma sibling_ids_group:
  assumes "sibling_chunk_ids G i = Some key" and "distinct (map fst G)"
  shows "\<exists>sibs. map_of G key = Some sibs \<and> i \<in> hc_ChunkID ` set sibs"
proof -
  from assms(1) have "(i, key) \<in> set (concat (map (\<lambda>(key, sibs). map (\<lambda>s. (hc_ChunkID s, key)) sibs) G))"
    unfolding sibling_chunk_ids_def by (metis map_of_SomeD set_rev)
  then obtain sibs where "(key, sibs) \<in> set G" "i \<in> hc_ChunkID ` set sibs" by auto
  with assms(2) show ?thesis by (auto intro!: map_of_is_SomeI)
qed

lemma merged_result_id [simp]: "sr_ChunkID (merged_result srt G ids results key r) = sr_ChunkID r"
  by (simp add: merged_result_def Let_def)

lemma merge_loop_plain:
  "filter (\<lambda>m. ids (sr_ChunkID m) = None) (merge_loop srt G ids results E rs)
     = filter (\<lambda>r. ids (sr_ChunkID r) = None) rs"
  by (induction srt G ids results E rs rule: merge_loop.induct) (auto split: option.split)

lemma merge_loop_keys:
  "map (\<lambda>m. ids (sr_ChunkID m)) (filter (\<lambda>m. ids (sr_ChunkID m) \<noteq> None) (merge_loop srt G ids results E rs))
     = dedup_on id (Some ` E) (map (\<lambda>r. ids (sr_ChunkID r)) (filter (\<lambda>r. ids (sr_ChunkID r) \<noteq> None) rs))"
proof (induction srt G ids results E rs rule: merge_loop.induct)
  case (2 srt G ids results E r rs)
  then show ?case by (cases "ids (sr_ChunkID r)") auto
qed simp

lemma merge_loop_order:
  "subseq (map sr_ChunkID (merge_loop srt G ids results E rs)) (map sr_ChunkID rs)"
  by (induction srt G ids results E rs rule: merge_loop.induct) (auto split: option.split)

lemma merge_loop_merged:
  "m \<in> set (merge_loop srt G ids results E rs) \<Longrightarrow> ids (sr_ChunkID m) = Some key \<Longrightarrow>
   \<exists>r \<in> set rs. ids (sr_ChunkID r) = Some key \<and> m = merged_result srt G ids results key r"
  by (induction srt G ids results E rs rule: merge_loop.induct)
    (auto split: option.splits if_splits)

lemma merged_result_group:
  assumes "slice_sort start_line_lt srt" and "map_of G key = Some sibs" and "sibs \<noteq> []"
    and "r \<in> set results" and "ids (sr_ChunkID r) = Some key"
  shows "sr_TokenCount (merged_result srt G ids results key r) = sum_list (map hc_TokenCount sibs)
    \<and> sr_StartLine (merged_result srt G ids results key r) = Min (hc_StartLine ` set sibs)
    \<and> sr_EndLine (merged_result srt G ids results key r) = Max (hc_EndLine ` set sibs)
    \<and> sr_Score (merged_result srt G ids results key r)
        = Max (sr_Score ` {o' \<in> set results. ids (sr_ChunkID o') = Some key})
    \<and> sr_Content (merged_result srt G ids results key r) = join_with [char_of (10 :: nat)] (map hc_Content (srt sibs))"
proof -
  note srt = slice_sort.set_srt [OF assms(1)] slice_sort.srt_ne [OF assms(1)] slice_sort.sum_srt [OF assms(1)]
  have "hd (srt sibs) \<in> set sibs" using assms(3) srt hd_in_set by blast
  then have "insert (g (hd (srt sibs))) (g ` set sibs) = g ` set sibs" for g :: "hydrated_chunk \<Rightarrow> int" by blast
  moreover have "insert (sr_Score r) (sr_Score ` {o' \<in> set results. ids (sr_ChunkID o') = Some key})
      = sr_Score ` {o' \<in> set results. ids (sr_ChunkID o') = Some key}" using assms(4,5) by blast
  ultimately show ?thesis
    by (simp add: merged_result_def Let_def assms(2) srt foldl_min foldl_max foldl_sum best_score_Max)
qed

lemma normalize_bm25_bounds: "0 \<le> normalize_bm25 r \<and> normalize_bm25 r \<le> 1"
  by (auto simp: normalize_bm25_def Let_def)

lemma normalize_bm25_antimono: "r \<le> r' \<Longrightarrow> normalize_bm25 r' \<le> normalize_bm25 r"
  by (auto simp: normalize_bm25_def Let_def)


section \<open>Properties\<close>

text \<open>Merging the fragments of split methods leaves every other result as it is and in its
  order, replaces all fragments of a group by one result at the place of the first of them,
  and that result covers the group: its tokens are the sum over the siblings, its lines run
  from the first to the last, its score is the best of the group's hits and its content joins
  the siblings in the order of their start lines.\<close>

theorem merge_siblings_groups:
  assumes "slice_sort start_line_lt srt" and "distinct (map fst G)"
  shows "filter (\<lambda>m. sibling_chunk_ids G (sr_ChunkID m) = None) (merge_siblings srt results G)
      = filter (\<lambda>r. sibling_chunk_ids G (sr_ChunkID r) = None) results
    \<and> map (\<lambda>m. sibling_chunk_ids G (sr_ChunkID m))
        (filter (\<lambda>m. sibling_chunk_ids G (sr_ChunkID m) \<noteq> None) (merge_siblings srt results G))
      = dedup (map (\<lambda>r. sibling_chunk_ids G (sr_ChunkID r))
          (filter (\<lambda>r. sibling_chunk_ids G (sr_ChunkID r) \<noteq> None) results))
    \<and> subseq (map sr_ChunkID (merge_siblings srt results G)) (map sr_ChunkID results)
    \<and> (\<forall>m \<in> set (merge_siblings srt results G). \<forall>key. sibling_chunk_ids G (sr_ChunkID m) = Some key \<longrightarrow>
         (\<exists>sibs. map_of G key = Some sibs
           \<and> sr_TokenCount m = sum_list (map hc_TokenCount sibs)
           \<and> sr_StartLine m = Min (hc_StartLine ` set sibs) \<and> sr_EndLine m = Max (hc_EndLine ` set sibs)
           \<and> sr_Score m = Max (sr_Score ` {r \<in> set results. sibling_chunk_ids G (sr_ChunkID r) = Some key})
           \<and> sr_Content m = join_with [char_of (10 :: nat)] (map hc_Content (srt sibs))))"
proof (cases "G = []")
  case True
  then show ?thesis by (simp add: merge_siblings_def sibling_chunk_ids_def)
next
  case False
  let ?ids = "sibling_chunk_ids G"
  have out: "merge_siblings srt results G = merge_loop srt G ?ids results {} results"
    using False by (simp add: merge_siblings_def)
  have "\<exists>sibs. map_of G key = Some sibs
           \<and> sr_TokenCount m = sum_list (map hc_TokenCount sibs)
           \<and> sr_StartLine m = Min (hc_StartLine ` set sibs) \<and> sr_EndLine m = Max (hc_EndLine ` set sibs)
           \<and> sr_Score m = Max (sr_Score ` {r \<in> set results. ?ids (sr_ChunkID r) = Some key})
           \<and> sr_Content m = join_with [char_of (10 :: nat)] (map hc_Content (srt sibs))"
    if "m \<in> set (merge_siblings srt results G)" "?ids (sr_ChunkID m) = Some key" for m key
  proof -
    from merge_loop_merged [of m srt G ?ids results "{}" results key] that out obtain r where
      r: "r \<in> set results" "?ids (sr_ChunkID r) = Some key" "m = merged_result srt G ?ids results key r" by auto
    from sibling_ids_group [OF r(2) assms(2)] obtain sibs where
      sibs: "map_of G key = Some sibs" "sr_ChunkID r \<in> hc_ChunkID ` set sibs" by blast
    from sibs(2) have "sibs \<noteq> []" by auto
    with merged_result_group [where ids = ?ids, OF assms(1) sibs(1) this r(1,2)] r(3) sibs(1) show ?thesis by blast
  qed
  then show ?thesis
    using merge_loop_keys [of ?ids srt G results "{}" results]
    by (simp add: out merge_loop_plain merge_loop_order)
qed

definition fragment :: "int \<Rightarrow> int \<Rightarrow> hydrated_chunk" where
  "fragment i line =
     \<lparr>hc_ChunkID = i, hc_FileID = 1, hc_Path = ''a.go'', hc_IsTest = False, hc_SymbolName = ''f'',
      hc_Kind = ''function'', hc_StartLine = line, hc_EndLine = line + 4, hc_Content = ''x'', hc_TokenCount = 3\<rparr>"

theorem merge_siblings_groups_witness:
  "subseq (map sr_ChunkID (merge_siblings (insertion_sort start_line_lt)
      [scored_from_hydrated (fragment 2 6) 1, scored_from_hydrated (fragment 1 1) 0]
      [(''1:f:function'', [fragment 1 1, fragment 2 6])])) [2, 1]"
proof -
  have "distinct (map fst [(''1:f:function'', [fragment 1 1, fragment 2 6])])" by simp
  from merge_siblings_groups [OF slice_sort_start_line this,
      of "[scored_from_hydrated (fragment 2 6) 1, scored_from_hydrated (fragment 1 1) 0]"]
  have "subseq (map sr_ChunkID (merge_siblings (insertion_sort start_line_lt)
      [scored_from_hydrated (fragment 2 6) 1, scored_from_hydrated (fragment 1 1) 0]
      [(''1:f:function'', [fragment 1 1, fragment 2 6])]))
      (map sr_ChunkID [scored_from_hydrated (fragment 2 6) 1, scored_from_hydrated (fragment 1 1) 0])" by blast
  moreover have "map sr_ChunkID [scored_from_hydrated (fragment 2 6) 1, scored_from_hydrated (fragment 1 1) 0] = [2, 1]"
    by (simp add: scored_from_hydrated_def fragment_def)
  ultimately show ?thesis by simp
qed

end
