(* ===== verification/Assembler.thy ===== *)
theory Assembler
  imports Core_Store
begin

text \<open>
  \<open>internal/core/assembler.go\<close>: packing of ranked chunks into a token budget, with the line
  overlap test, the truncation of an oversized first chunk, the spill-over of a later one and
  the structural expansion. \<open>srt\<close> is \<open>sort.Slice\<close> with the comparison on scores.
\<close>

record assembler_input =
  as_Candidates :: "scored_result list"
  as_BudgetTokens :: int
  as_Store :: "metadata_store option"
  as_Ctx :: bool

definition score_gt :: "scored_result \<Rightarrow> scored_result \<Rightarrow> bool" where
  "score_gt a b \<longleftrightarrow> sr_Score a > sr_Score b"

definition newline :: char where "newline = char_of (10 :: nat)"

section \<open>Line overlap\<close>

definition overlaps_more_than_half :: "scored_result \<Rightarrow> scored_result \<Rightarrow> bool" where
  "overlaps_more_than_half candidate s \<longleftrightarrow>
     (let candLines = sr_EndLine candidate - sr_StartLine candidate + 1;
          overlapStart = max (sr_StartLine candidate) (sr_StartLine s);
          overlapEnd = min (sr_EndLine candidate) (sr_EndLine s);
          overlap = overlapEnd - overlapStart + 1
      in sr_Path s = sr_Path candidate \<and> \<not> overlapStart > overlapEnd \<and>
         real_of_int overlap / real_of_int candLines > 0.5)"

definition has_line_overlap :: "scored_result \<Rightarrow> scored_result list \<Rightarrow> bool" where
  "has_line_overlap candidate selected \<longleftrightarrow>
     (if sr_Path candidate = [] then False
      else if sr_EndLine candidate - sr_StartLine candidate + 1 \<le> 0 then False
      else list_ex (overlaps_more_than_half candidate) selected)"

section \<open>Truncation\<close>

text \<open>The loop over the lines: \<open>sb\<close> is the builder's content.\<close>

fun truncate_lines :: "int \<Rightarrow> string list \<Rightarrow> string \<Rightarrow> int \<Rightarrow> string \<times> int" where
  "truncate_lines budget [] sb tokensSoFar = (sb, tokensSoFar)"
| "truncate_lines budget (line # lines) sb tokensSoFar =
     (let lineTokens = int (length line) div 4 + 1 in
      if tokensSoFar + lineTokens > budget \<and> length sb > 0 then (sb, tokensSoFar)
      else truncate_lines budget lines
             ((if length sb > 0 then sb @ [newline] else sb) @ line) (tokensSoFar + lineTokens))"

definition truncate_chunk :: "scored_result \<Rightarrow> int \<Rightarrow> scored_result" where
  "truncate_chunk chunk budget =
     (let (content, tokens) = truncate_lines budget (split_on newline (sr_Content chunk)) [] 0
      in chunk\<lparr>sr_Content := content, sr_TokenCount := tokens\<rparr>)"

section \<open>Structural expansion\<close>

text \<open>The neighbours of one selected chunk: candidates not yet taken, each marked as taken.\<close>

fun collect_neighbors ::
  "metadata_store \<Rightarrow> (int \<rightharpoonup> scored_result) \<Rightarrow> int list \<Rightarrow> int set \<times> scored_result list
     \<Rightarrow> int set \<times> scored_result list" where
  "collect_neighbors store candidateMap [] st = st"
| "collect_neighbors store candidateMap (nsID # ids) (selectedSet, out) =
     (case ms_GetSymbolByID store nsID of
        Inr (Some y) \<Rightarrow>
          (case candidateMap (sy_ChunkID y) of
             Some c \<Rightarrow>
               if sy_ChunkID y \<notin> selectedSet
               then collect_neighbors store candidateMap ids
                      (insert (sy_ChunkID y) selectedSet, out @ [c])
               else collect_neighbors store candidateMap ids (selectedSet, out)
           | None \<Rightarrow> collect_neighbors store candidateMap ids (selectedSet, out))
      | _ \<Rightarrow> collect_neighbors store candidateMap ids (selectedSet, out))"

fun expand_selected ::
  "metadata_store \<Rightarrow> (int \<rightharpoonup> scored_result) \<Rightarrow> scored_result list \<Rightarrow> int set \<times> scored_result list
     \<Rightarrow> int set \<times> scored_result list" where
  "expand_selected store candidateMap [] st = st"
| "expand_selected store candidateMap (s # ss) st =
     (let symbolID = lookup_symbol_for_chunk store (sr_ChunkID s) in
      if symbolID = 0 then expand_selected store candidateMap ss st
      else (case ms_Neighbors store symbolID 1 ''both'' of
              Inl _ \<Rightarrow> expand_selected store candidateMap ss st
            | Inr ids \<Rightarrow>
                expand_selected store candidateMap ss (collect_neighbors store candidateMap ids st)))"

fun pack_neighbors :: "int \<Rightarrow> scored_result list \<Rightarrow> scored_result list" where
  "pack_neighbors remaining [] = []"
| "pack_neighbors remaining (nc # ncs) =
     (if remaining \<le> 0 then []
      else if sr_TokenCount nc \<le> remaining
           then nc # pack_neighbors (remaining - sr_TokenCount nc) ncs
           else pack_neighbors remaining ncs)"

definition candidate_map :: "scored_result list \<Rightarrow> int \<rightharpoonup> scored_result" where
  "candidate_map allCandidates = map_of (rev (map (\<lambda>c. (sr_ChunkID c, c)) allCandidates))"

definition structural_expand ::
  "(scored_result list \<Rightarrow> scored_result list) \<Rightarrow> metadata_store \<Rightarrow> scored_result list
     \<Rightarrow> scored_result list \<Rightarrow> int \<Rightarrow> scored_result list" where
  "structural_expand srt store selected allCandidates budget =
     (let selectedSet = sr_ChunkID ` set selected;
          (_, neighborCandidates) =
            expand_selected store (candidate_map allCandidates) selected (selectedSet, [])
      in pack_neighbors budget (srt neighborCandidates))"

section \<open>Assemble\<close>

record pack_state =
  pk_selected :: "scored_result list"
  pk_remaining :: int
  pk_truncated :: bool
  pk_overflowed :: bool

fun pack_loop :: "int \<Rightarrow> scored_result list \<Rightarrow> pack_state \<Rightarrow> pack_state" where
  "pack_loop budget [] st = st"
| "pack_loop budget (c # cs) st =
     (if pk_remaining st \<le> 0 then st
      else if has_line_overlap c (pk_selected st) then pack_loop budget cs st
      else if sr_TokenCount c \<le> pk_remaining st then
        pack_loop budget cs
          (st\<lparr>pk_selected := pk_selected st @ [c], pk_remaining := pk_remaining st - sr_TokenCount c\<rparr>)
      else if pk_selected st = [] then
        pack_loop budget cs
          (st\<lparr>pk_selected := [truncate_chunk c budget], pk_remaining := 0, pk_truncated := True\<rparr>)
      else
        pack_loop budget cs
          (st\<lparr>pk_selected := pk_selected st @ [c], pk_remaining := pk_remaining st - sr_TokenCount c,
              pk_overflowed := True\<rparr>))"

definition pack_start :: "int \<Rightarrow> pack_state" where
  "pack_start budget =
     \<lparr>pk_selected = [], pk_remaining = budget, pk_truncated = False, pk_overflowed = False\<rparr>"

definition total_tokens :: "scored_result list \<Rightarrow> int" where
  "total_tokens cs = sum_list (map sr_TokenCount cs)"

text \<open>\<open>expansionBudget := remaining * 30 / 100\<close>, on a positive remainder.\<close>

definition expansion_budget :: "int \<Rightarrow> int" where
  "expansion_budget remaining = remaining * 30 div 100"

lemma expansion_budget_le: "0 \<le> r \<Longrightarrow> max 0 (expansion_budget r) \<le> r"
  by (simp add: expansion_budget_def)

definition assemble ::
  "(scored_result list \<Rightarrow> scored_result list) \<Rightarrow> assembler_input \<Rightarrow> context_package" where
  "assemble srt input =
     (let candidates = srt (as_Candidates input);
          st = pack_loop (as_BudgetTokens input) candidates (pack_start (as_BudgetTokens input));
          expansion =
            (case as_Store input of
               Some store \<Rightarrow>
                 if as_Ctx input \<and> pk_remaining st > 0 then
                   let expansionBudget = expansion_budget (pk_remaining st) in
                   if expansionBudget > 0
                   then structural_expand srt store (pk_selected st) candidates expansionBudget
                   else []
                 else []
             | None \<Rightarrow> []);
          selected = pk_selected st @ expansion;
          total = total_tokens selected;
          meta1 = (if pk_truncated st then [''truncated'' \<mapsto> MBool True] else Map.empty);
          meta2 = (if pk_overflowed st
                   then meta1(''budget_overflow'' \<mapsto> MBool True,
                              ''budget_overflow_tokens'' \<mapsto> MInt (total - as_BudgetTokens input))
                   else meta1)
      in \<lparr>cp_Chunks = selected, cp_TotalTokens = total,
          cp_Strategy = (if as_Store input = None then ''keyword_l2'' else ''hybrid_l0''),
          cp_Meta = meta2\<rparr>)"


section \<open>Lemmas on packing\<close>

lemma has_line_overlap_iff:
  "has_line_overlap c sel \<longleftrightarrow> (\<exists>s \<in> set sel. has_line_overlap c [s])"
  by (auto simp: has_line_overlap_def list_ex_iff)

lemma total_tokens_simps [simp]:
  "total_tokens [] = 0"
  "total_tokens (c # cs) = sr_TokenCount c + total_tokens cs"
  "total_tokens (cs @ ds) = total_tokens cs + total_tokens ds"
  by (simp_all add: total_tokens_def)

abbreviation pairwise_no_overlap :: "scored_result list \<Rightarrow> bool" where
  "pairwise_no_overlap \<equiv> sorted_wrt (\<lambda>s c. \<not> has_line_overlap c [s])"

text \<open>What the packing loop keeps of its state.\<close>

definition pack_ok :: "int \<Rightarrow> pack_state \<Rightarrow> bool" where
  "pack_ok b st \<longleftrightarrow>
     (\<not> pk_truncated st \<longrightarrow> total_tokens (pk_selected st) = b - pk_remaining st) \<and>
     (pk_truncated st \<longrightarrow> pk_remaining st = 0 \<and> \<not> pk_overflowed st \<and> length (pk_selected st) = 1) \<and>
     (pk_overflowed st \<longrightarrow> pk_remaining st < 0 \<and> pk_selected st \<noteq> [] \<and>
        0 < pk_remaining st + sr_TokenCount (last (pk_selected st))) \<and>
     (\<not> pk_overflowed st \<longrightarrow> 0 \<le> pk_remaining st) \<and>
     pairwise_no_overlap (pk_selected st)"

lemma pack_ok_start: "0 < b \<Longrightarrow> pack_ok b (pack_start b)"
  by (simp add: pack_ok_def pack_start_def)

lemma no_overlap_snoc:
  "pairwise_no_overlap sel \<Longrightarrow> \<not> has_line_overlap c sel \<Longrightarrow> pairwise_no_overlap (sel @ [c])"
  using has_line_overlap_iff [of c sel] by (simp add: sorted_wrt_append)

text \<open>The five ways through the body of the loop.\<close>

lemma pack_step_cases:
  fixes st :: pack_state and c :: scored_result
  obtains (stop) "pk_remaining st \<le> 0"
  | (overlap) "0 < pk_remaining st" "has_line_overlap c (pk_selected st)"
  | (fits) "0 < pk_remaining st" "\<not> has_line_overlap c (pk_selected st)" "sr_TokenCount c \<le> pk_remaining st"
  | (cut) "0 < pk_remaining st" "\<not> has_line_overlap c (pk_selected st)"
      "pk_remaining st < sr_TokenCount c" "pk_selected st = []"
  | (spill) "0 < pk_remaining st" "\<not> has_line_overlap c (pk_selected st)"
      "pk_remaining st < sr_TokenCount c" "pk_selected st \<noteq> []"
  by (meson not_le_imp_less)

lemma pack_ok_loop: "pack_ok b st \<Longrightarrow> pack_ok b (pack_loop b cs st)"
proof (induction b cs st rule: pack_loop.induct)
  case (2 b c cs st)
  show ?case
  proof (cases rule: pack_step_cases [where st = st and c = c])
    case stop
    with "2.prems" show ?thesis by simp
  next
    case overlap
    with "2.IH"(1) "2.prems" show ?thesis by simp
  next
    case fits
    have "pack_ok b (st\<lparr>pk_selected := pk_selected st @ [c], pk_remaining := pk_remaining st - sr_TokenCount c\<rparr>)"
      using fits "2.prems" by (simp add: pack_ok_def no_overlap_snoc)
    with fits "2.IH"(2) show ?thesis by simp
  next
    case cut
    have "pack_ok b (st\<lparr>pk_selected := [truncate_chunk c b], pk_remaining := 0, pk_truncated := True\<rparr>)"
      using cut "2.prems" by (simp add: pack_ok_def)
    with cut "2.IH"(3) show ?thesis by simp
  next
    case spill
    have "pack_ok b (st\<lparr>pk_selected := pk_selected st @ [c],
        pk_remaining := pk_remaining st - sr_TokenCount c, pk_overflowed := True\<rparr>)"
      using spill "2.prems" by (simp add: pack_ok_def no_overlap_snoc)
    with spill "2.IH"(4) show ?thesis by simp
  qed
qed simp

lemma pack_loop_done: "pk_remaining st \<le> 0 \<Longrightarrow> pack_loop b cs st = st"
  by (cases cs) simp_all

lemma pack_loop_subseq:
  "\<not> pk_truncated (pack_loop b cs st) \<Longrightarrow>
   \<exists>ys. subseq ys cs \<and> pk_selected (pack_loop b cs st) = pk_selected st @ ys"
proof (induction b cs st rule: pack_loop.induct)
  case (2 b c cs st)
  show ?case
  proof (cases rule: pack_step_cases [where st = st and c = c])
    case stop
    then show ?thesis by (intro exI [of _ "[]"]) simp
  next
    case overlap
    with "2.IH"(1) "2.prems" obtain ys where "subseq ys cs"
      "pk_selected (pack_loop b cs st) = pk_selected st @ ys" by auto
    with overlap show ?thesis by (intro exI [of _ ys]) (simp add: list_emb_Cons)
  next
    case fits
    let ?st = "st\<lparr>pk_selected := pk_selected st @ [c], pk_remaining := pk_remaining st - sr_TokenCount c\<rparr>"
    from fits "2.IH"(2) "2.prems" obtain ys where "subseq ys cs"
      "pk_selected (pack_loop b cs ?st) = pk_selected ?st @ ys" by auto
    with fits show ?thesis by (intro exI [of _ "c # ys"]) simp
  next
    case cut
    with "2.prems" show ?thesis by (simp add: pack_loop_done)
  next
    case spill
    let ?st = "st\<lparr>pk_selected := pk_selected st @ [c], pk_remaining := pk_remaining st - sr_TokenCount c,
      pk_overflowed := True\<rparr>"
    from spill "2.IH"(4) "2.prems" obtain ys where "subseq ys cs"
      "pk_selected (pack_loop b cs ?st) = pk_selected ?st @ ys" by auto
    with spill show ?thesis by (intro exI [of _ "c # ys"]) simp
  qed
qed simp

lemma pack_loop_complete:
  "0 < pk_remaining (pack_loop b cs st) \<Longrightarrow>
   set (pk_selected st) \<subseteq> set (pk_selected (pack_loop b cs st)) \<and>
   (\<forall>c \<in> set cs. c \<in> set (pk_selected (pack_loop b cs st))
      \<or> has_line_overlap c (pk_selected (pack_loop b cs st)))"
proof (induction b cs st rule: pack_loop.induct)
  case (2 b c cs st)
  show ?case
  proof (cases rule: pack_step_cases [where st = st and c = c])
    case stop
    with "2.prems" show ?thesis by simp
  next
    case overlap
    then have eq: "pack_loop b (c # cs) st = pack_loop b cs st" by simp
    from overlap "2.IH"(1) "2.prems" eq
    have IH: "set (pk_selected st) \<subseteq> set (pk_selected (pack_loop b cs st))
      \<and> (\<forall>c \<in> set cs. c \<in> set (pk_selected (pack_loop b cs st))
           \<or> has_line_overlap c (pk_selected (pack_loop b cs st)))" by simp
    moreover from overlap obtain s where "s \<in> set (pk_selected st)" "has_line_overlap c [s]"
      using has_line_overlap_iff by blast
    ultimately have "has_line_overlap c (pk_selected (pack_loop b cs st))"
      using has_line_overlap_iff [of c "pk_selected (pack_loop b cs st)"] by blast
    with IH eq show ?thesis by simp
  next
    case fits
    with "2.IH"(2) "2.prems" show ?thesis by simp
  next
    case cut
    with "2.prems" show ?thesis by (simp add: pack_loop_done)
  next
    case spill
    with "2.prems" show ?thesis by (simp add: pack_loop_done)
  qed
qed simp

lemma pack_loop_nonempty:
  "0 < b \<Longrightarrow> cs \<noteq> [] \<Longrightarrow> pk_selected (pack_loop b cs (pack_start b)) \<noteq> []"
proof -
  have keep: "pk_selected st \<noteq> [] \<Longrightarrow> pk_selected (pack_loop b cs st) \<noteq> []" for b cs st
    by (induction b cs st rule: pack_loop.induct) auto
  assume "0 < b" and "cs \<noteq> []"
  then show ?thesis
    by (cases cs) (auto simp: pack_start_def has_line_overlap_def keep)
qed

text \<open>The flag is set by the first candidate or never.\<close>

lemma pack_loop_truncated:
  assumes "0 < b"
  shows "pk_truncated (pack_loop b cs (pack_start b)) \<longleftrightarrow> cs \<noteq> [] \<and> b < sr_TokenCount (hd cs)"
    and "pk_truncated (pack_loop b cs (pack_start b)) \<Longrightarrow>
         pk_selected (pack_loop b cs (pack_start b)) = [truncate_chunk (hd cs) b]"
proof -
  have keep: "pk_selected st \<noteq> [] \<Longrightarrow> pk_truncated (pack_loop b cs st) = pk_truncated st" for b cs st
    by (induction b cs st rule: pack_loop.induct) auto
  show *: "pk_truncated (pack_loop b cs (pack_start b)) \<longleftrightarrow> cs \<noteq> [] \<and> b < sr_TokenCount (hd cs)"
    using assms by (cases cs) (auto simp: pack_start_def has_line_overlap_def keep)
  assume "pk_truncated (pack_loop b cs (pack_start b))"
  with * assms show "pk_selected (pack_loop b cs (pack_start b)) = [truncate_chunk (hd cs) b]"
    by (cases cs) (auto simp: pack_start_def has_line_overlap_def pack_loop_done)
qed

lemma pack_neighbors_total: "total_tokens (pack_neighbors r ncs) \<le> max 0 r"
proof (induction r ncs rule: pack_neighbors.induct)
  case (2 r nc ncs)
  then show ?case by (auto simp: max_def split: if_splits)
qed simp

lemma pack_neighbors_subseq: "subseq (pack_neighbors r ncs) ncs"
  by (induction r ncs rule: pack_neighbors.induct) auto


section \<open>Lemmas on truncation\<close>

lemma truncate_lines_started:
  "sb \<noteq> [] \<Longrightarrow>
   \<exists>k. fst (truncate_lines b ls sb t) = join_with [newline] (sb # take k ls)
     \<and> (k = 0 \<and> snd (truncate_lines b ls sb t) = t \<or> snd (truncate_lines b ls sb t) \<le> b)"
proof (induction ls arbitrary: sb t)
  case Nil
  then show ?case by (intro exI [of _ 0]) simp
next
  case (Cons l ls)
  let ?t = "t + (int (length l) div 4 + 1)"
  show ?case
  proof (cases "?t > b")
    case True
    with Cons.prems show ?thesis by (intro exI [of _ 0]) (simp add: Let_def)
  next
    case False
    from Cons.IH [of "sb @ [newline] @ l" ?t] obtain k where
      k: "fst (truncate_lines b ls (sb @ [newline] @ l) ?t) = join_with [newline] ((sb @ [newline] @ l) # take k ls)"
        "snd (truncate_lines b ls (sb @ [newline] @ l) ?t) = ?t \<or> snd (truncate_lines b ls (sb @ [newline] @ l) ?t) \<le> b"
      by auto
    have "join_with [newline] ((sb @ [newline] @ l) # xs) = join_with [newline] (sb # l # xs)" for xs
      by (cases xs) simp_all
    with k False Cons.prems show ?thesis by (intro exI [of _ "Suc k"]) (auto simp: Let_def)
  qed
qed

lemma truncate_lines_fresh:
  "\<exists>k. fst (truncate_lines b ls [] t) = join_with [newline] (dropWhile ((=) []) (take k ls))
     \<and> (length (dropWhile ((=) []) (take k ls)) \<le> 1 \<or> snd (truncate_lines b ls [] t) \<le> b)"
proof (induction ls arbitrary: t)
  case Nil
  then show ?case by simp
next
  case (Cons l ls)
  show ?case
  proof (cases "l = []")
    case True
    from Cons.IH [of "t + 1"] obtain k where
      "fst (truncate_lines b ls [] (t + 1)) = join_with [newline] (dropWhile ((=) []) (take k ls))"
      "length (dropWhile ((=) []) (take k ls)) \<le> 1 \<or> snd (truncate_lines b ls [] (t + 1)) \<le> b"
      by blast
    with True show ?thesis by (intro exI [of _ "Suc k"]) (simp add: Let_def)
  next
    case False
    from truncate_lines_started [OF False, of b ls "t + (int (length l) div 4 + 1)"] obtain k where
      "fst (truncate_lines b ls l (t + (int (length l) div 4 + 1))) = join_with [newline] (l # take k ls)"
      "k = 0 \<or> snd (truncate_lines b ls l (t + (int (length l) div 4 + 1))) \<le> b" by blast
    with False show ?thesis by (intro exI [of _ "Suc k"]) (auto simp: Let_def)
  qed
qed

lemma join_short_no_newline:
  assumes "length ls \<le> 1" and "\<And>l. l \<in> set ls \<Longrightarrow> newline \<notin> set l"
  shows "newline \<notin> set (join_with [newline] ls)"
  using assms by (cases ls) auto

section \<open>Lemmas on structural expansion\<close>

lemma candidate_map_Some: "candidate_map cs i = Some c \<Longrightarrow> c \<in> set cs \<and> sr_ChunkID c = i"
  unfolding candidate_map_def by (drule map_of_SomeD) auto

text \<open>Why a chunk is a structural neighbour of the selected ones.\<close>

definition graph_neighbor :: "metadata_store \<Rightarrow> scored_result list \<Rightarrow> int \<Rightarrow> bool" where
  "graph_neighbor store selected chunkID \<longleftrightarrow>
     (\<exists>s \<in> set selected. \<exists>ids. ms_Neighbors store (lookup_symbol_for_chunk store (sr_ChunkID s)) 1 ''both'' = Inr ids
        \<and> (\<exists>i \<in> set ids. \<exists>y. ms_GetSymbolByID store i = Inr (Some y) \<and> sy_ChunkID y = chunkID))"

definition expansion_ok ::
  "metadata_store \<Rightarrow> scored_result list \<Rightarrow> scored_result list \<Rightarrow> int set \<Rightarrow> int set \<times> scored_result list \<Rightarrow> bool" where
  "expansion_ok store selected cs S0 st \<longleftrightarrow>
     fst st = S0 \<union> sr_ChunkID ` set (snd st) \<and> distinct (map sr_ChunkID (snd st)) \<and>
     (\<forall>c \<in> set (snd st). c \<in> set cs \<and> sr_ChunkID c \<notin> S0 \<and> graph_neighbor store selected (sr_ChunkID c))"

lemma collect_neighbors_ok:
  assumes "expansion_ok store sel cs S0 st" and "s \<in> set sel"
    and "ms_Neighbors store (lookup_symbol_for_chunk store (sr_ChunkID s)) 1 ''both'' = Inr all"
    and "set ids \<subseteq> set all"
  shows "expansion_ok store sel cs S0 (collect_neighbors store (candidate_map cs) ids st)"
  using assms(1,4)
proof (induction ids arbitrary: st)
  case (Cons i ids)
  obtain S out where st: "st = (S, out)" by (cases st)
  note IH = Cons.IH [OF _ order.trans [OF set_subset_Cons Cons.prems(2)]]
  have step: "expansion_ok store sel cs S0 (insert (sy_ChunkID y) S, out @ [c])"
    if "ms_GetSymbolByID store i = Inr (Some y)" "candidate_map cs (sy_ChunkID y) = Some c"
      "sy_ChunkID y \<notin> S" for y c
  proof -
    from candidate_map_Some [OF that(2)] have c: "c \<in> set cs" "sr_ChunkID c = sy_ChunkID y" by simp_all
    have "graph_neighbor store sel (sr_ChunkID c)"
      unfolding graph_neighbor_def using assms(2,3) Cons.prems(2) that(1) c(2) by auto
    with Cons.prems(1) st c that(3) show ?thesis by (auto simp: expansion_ok_def)
  qed
  show ?case
    using Cons.prems(1) step by (auto simp: st intro: IH split: sum.split option.split)
qed simp

lemma expand_selected_ok:
  "expansion_ok store sel cs S0 st \<Longrightarrow> set ss \<subseteq> set sel \<Longrightarrow>
   expansion_ok store sel cs S0 (expand_selected store (candidate_map cs) ss st)"
proof (induction ss arbitrary: st)
  case (Cons s ss)
  then have ss: "set ss \<subseteq> set sel" and s: "s \<in> set sel" by simp_all
  have collect: "expansion_ok store sel cs S0 (collect_neighbors store (candidate_map cs) ids st)"
    if "ms_Neighbors store (lookup_symbol_for_chunk store (sr_ChunkID s)) 1 ''both'' = Inr ids" for ids
    using collect_neighbors_ok [OF Cons.prems(1) s that order.refl] .
  show ?case
    using Cons.IH [OF _ ss] Cons.prems(1) collect by (simp add: Let_def split: sum.split)
qed simp

lemma structural_expand_ok:
  assumes "slice_sort score_gt srt"
  shows "total_tokens (structural_expand srt store sel cs b) \<le> max 0 b
    \<and> distinct (map sr_ChunkID (structural_expand srt store sel cs b))
    \<and> (\<forall>c \<in> set (structural_expand srt store sel cs b).
         c \<in> set cs \<and> sr_ChunkID c \<notin> sr_ChunkID ` set sel \<and> graph_neighbor store sel (sr_ChunkID c))"
proof -
  note srt = slice_sort.set_srt [OF assms] slice_sort.distinct_map_srt [OF assms]
  obtain S out where so: "expand_selected store (candidate_map cs) sel (sr_ChunkID ` set sel, []) = (S, out)"
    by (cases "expand_selected store (candidate_map cs) sel (sr_ChunkID ` set sel, [])")
  have "expansion_ok store sel cs (sr_ChunkID ` set sel) (S, out)"
    unfolding so [symmetric] by (rule expand_selected_ok) (simp_all add: expansion_ok_def)
  moreover have eq: "structural_expand srt store sel cs b = pack_neighbors b (srt out)"
    using so by (simp add: structural_expand_def)
  moreover have "set (pack_neighbors b (srt out)) \<subseteq> set out"
    using subseq_set [OF pack_neighbors_subseq [of b "srt out"]] by (simp add: srt)
  moreover have "distinct (map sr_ChunkID (pack_neighbors b (srt out)))"
    if "distinct (map sr_ChunkID out)"
    using subseq_distinct_map [OF pack_neighbors_subseq [of b "srt out"], of sr_ChunkID] that by (simp add: srt)
  ultimately show ?thesis
    using pack_neighbors_total [of b "srt out"] by (simp add: expansion_ok_def) blast
qed


section \<open>The assembled package\<close>

lemma slice_sort_score: "slice_sort score_gt (insertion_sort score_gt)"
  by (rule slice_sort_insertion_sort [where f = "\<lambda>r. - sr_Score r"]) (simp add: score_gt_def)

definition packed_state :: "(scored_result list \<Rightarrow> scored_result list) \<Rightarrow> assembler_input \<Rightarrow> pack_state" where
  "packed_state srt input =
     pack_loop (as_BudgetTokens input) (srt (as_Candidates input)) (pack_start (as_BudgetTokens input))"

definition expansion_of :: "(scored_result list \<Rightarrow> scored_result list) \<Rightarrow> assembler_input \<Rightarrow> scored_result list" where
  "expansion_of srt input =
     (case as_Store input of
        None \<Rightarrow> []
      | Some store \<Rightarrow>
          if as_Ctx input \<and> pk_remaining (packed_state srt input) > 0
             \<and> expansion_budget (pk_remaining (packed_state srt input)) > 0
          then structural_expand srt store (pk_selected (packed_state srt input)) (srt (as_Candidates input))
                 (expansion_budget (pk_remaining (packed_state srt input)))
          else [])"

lemma assemble_fields:
  "cp_Chunks (assemble srt input) = pk_selected (packed_state srt input) @ expansion_of srt input"
  "cp_TotalTokens (assemble srt input) = total_tokens (cp_Chunks (assemble srt input))"
  "cp_Meta (assemble srt input) ''truncated'' = None \<longleftrightarrow> \<not> pk_truncated (packed_state srt input)"
  "cp_Meta (assemble srt input) ''budget_overflow'' = None \<longleftrightarrow> \<not> pk_overflowed (packed_state srt input)"
  "pk_overflowed (packed_state srt input) \<Longrightarrow>
   cp_Meta (assemble srt input) ''budget_overflow_tokens''
     = Some (MInt (cp_TotalTokens (assemble srt input) - as_BudgetTokens input))"
  by (auto simp: assemble_def Let_def packed_state_def expansion_of_def split: option.split)

lemma packed_ok: "0 < as_BudgetTokens input \<Longrightarrow> pack_ok (as_BudgetTokens input) (packed_state srt input)"
  by (simp add: packed_state_def pack_ok_loop pack_ok_start)

lemma expansion_none: "pk_remaining (packed_state srt input) \<le> 0 \<Longrightarrow> expansion_of srt input = []"
  by (simp add: expansion_of_def split: option.split)

lemma expansion_total:
  assumes "slice_sort score_gt srt"
  shows "total_tokens (expansion_of srt input) \<le> max 0 (expansion_budget (pk_remaining (packed_state srt input)))"
proof (cases "as_Store input")
  case (Some store)
  have "total_tokens (structural_expand srt store (pk_selected (packed_state srt input)) (srt (as_Candidates input)) b)
      \<le> max 0 b" for b
    using structural_expand_ok [OF assms] by blast
  from this [of "expansion_budget (pk_remaining (packed_state srt input))"]
  show ?thesis by (auto simp: expansion_of_def Some max_def split: if_splits)
qed (simp add: expansion_of_def)

lemma butlast_total: "xs \<noteq> [] \<Longrightarrow> total_tokens (butlast xs) = total_tokens xs - sr_TokenCount (last xs)"
  by (induction xs) auto

lemma assemble_within_budget:
  assumes "slice_sort score_gt srt" and "0 < as_BudgetTokens input"
    and "\<not> pk_truncated (packed_state srt input)" "\<not> pk_overflowed (packed_state srt input)"
  shows "cp_TotalTokens (assemble srt input) \<le> as_BudgetTokens input"
proof -
  from packed_ok [OF assms(2), of srt] assms(3,4) have "0 \<le> pk_remaining (packed_state srt input)"
    and "total_tokens (pk_selected (packed_state srt input)) = as_BudgetTokens input - pk_remaining (packed_state srt input)"
    by (simp_all add: pack_ok_def)
  with expansion_total [OF assms(1), of input] expansion_budget_le [of "pk_remaining (packed_state srt input)"]
  show ?thesis by (simp add: assemble_fields)
qed

text \<open>C7. Assembling a non-empty candidate list never yields an empty package, the reported total
  is the sum over the chunks, and it respects the budget unless the package says otherwise:
  without the truncation and overflow flags it is at most the budget; with the overflow flag
  it exceeds the budget by the amount recorded, and only because of the last chunk, and
  nothing was truncated.\<close>

theorem assemble_budget:
  assumes "slice_sort score_gt srt" and "0 < as_BudgetTokens input" and "as_Candidates input \<noteq> []"
  shows "cp_Chunks (assemble srt input) \<noteq> []
    \<and> cp_TotalTokens (assemble srt input) = total_tokens (cp_Chunks (assemble srt input))
    \<and> (cp_Meta (assemble srt input) ''truncated'' = None \<and> cp_Meta (assemble srt input) ''budget_overflow'' = None
         \<longrightarrow> cp_TotalTokens (assemble srt input) \<le> as_BudgetTokens input)
    \<and> (cp_Meta (assemble srt input) ''budget_overflow'' \<noteq> None \<longrightarrow>
         cp_Meta (assemble srt input) ''truncated'' = None
         \<and> cp_TotalTokens (assemble srt input) > as_BudgetTokens input
         \<and> cp_Meta (assemble srt input) ''budget_overflow_tokens''
             = Some (MInt (cp_TotalTokens (assemble srt input) - as_BudgetTokens input))
         \<and> total_tokens (butlast (cp_Chunks (assemble srt input))) < as_BudgetTokens input)"
proof -
  let ?st = "packed_state srt input"
  have ok: "pack_ok (as_BudgetTokens input) ?st" using assms(2) by (rule packed_ok)
  have "srt (as_Candidates input) \<noteq> []" using assms by (simp add: slice_sort.srt_ne)
  then have ne: "pk_selected ?st \<noteq> []"
    using pack_loop_nonempty assms(2) by (simp add: packed_state_def)
  note assemble_within_budget [OF assms(1,2)]
  moreover have "\<not> pk_truncated ?st \<and> cp_TotalTokens (assemble srt input) > as_BudgetTokens input
    \<and> total_tokens (butlast (cp_Chunks (assemble srt input))) < as_BudgetTokens input"
    if "pk_overflowed ?st"
  proof -
    from that ok have "pk_remaining ?st < 0" "\<not> pk_truncated ?st"
      and "total_tokens (pk_selected ?st) = as_BudgetTokens input - pk_remaining ?st"
      and "0 < pk_remaining ?st + sr_TokenCount (last (pk_selected ?st))"
      by (auto simp: pack_ok_def)
    with ne show ?thesis by (simp add: assemble_fields(1,2) expansion_none butlast_total)
  qed
  ultimately show ?thesis
    using ne by (simp add: assemble_fields)
qed

definition sample_chunk :: "int \<Rightarrow> int \<Rightarrow> scored_result" where
  "sample_chunk i tokens =
     \<lparr>sr_ChunkID = i, sr_FileID = 1, sr_Score = 1, sr_Path = ''a.go'', sr_SymbolName = ''f'',
      sr_Kind = ''function'', sr_StartLine = 10 * i, sr_EndLine = 10 * i + 5, sr_Content = ''x'',
      sr_TokenCount = tokens\<rparr>"

theorem assemble_budget_witness:
  "cp_Chunks (assemble (insertion_sort score_gt)
     \<lparr>as_Candidates = [sample_chunk 1 6, sample_chunk 2 7], as_BudgetTokens = 10, as_Store = None, as_Ctx = False\<rparr>) \<noteq> []"
proof -
  let ?i = "\<lparr>as_Candidates = [sample_chunk 1 6, sample_chunk 2 7], as_BudgetTokens = 10, as_Store = None, as_Ctx = False\<rparr>"
  have "0 < as_BudgetTokens ?i" "as_Candidates ?i \<noteq> []" by simp_all
  from assemble_budget [OF slice_sort_score this] show ?thesis by blast
qed

text \<open>The package is the packed chunks followed by the structural expansion. No packed chunk
  covers more than half of a later one. When nothing is truncated, every chunk is a candidate,
  the packed ones come in descending score, no chunk appears twice, and a candidate is left
  out with budget to spare only because a packed chunk overlaps it. Truncation happens only
  to a best candidate that alone exceeds the budget, which is then the only chunk.\<close>

theorem assemble_selection:
  assumes "slice_sort score_gt srt" and "0 < as_BudgetTokens input"
  shows "\<exists>packed expansion. cp_Chunks (assemble srt input) = packed @ expansion
    \<and> pairwise_no_overlap packed
    \<and> (cp_Meta (assemble srt input) ''truncated'' = None \<longrightarrow>
         set (packed @ expansion) \<subseteq> set (as_Candidates input)
         \<and> sorted_wrt (\<lambda>a b. sr_Score b \<le> sr_Score a) packed
         \<and> (distinct (map sr_ChunkID (as_Candidates input)) \<longrightarrow> distinct (map sr_ChunkID (packed @ expansion)))
         \<and> (total_tokens packed < as_BudgetTokens input \<longrightarrow>
              (\<forall>c \<in> set (as_Candidates input). c \<in> set packed \<or> has_line_overlap c packed)))
    \<and> (cp_Meta (assemble srt input) ''truncated'' \<noteq> None \<longrightarrow>
         expansion = [] \<and> (\<exists>c \<in> set (as_Candidates input). packed = [truncate_chunk c (as_BudgetTokens input)]
           \<and> as_BudgetTokens input < sr_TokenCount c
           \<and> (\<forall>d \<in> set (as_Candidates input). sr_Score d \<le> sr_Score c)))"
proof -
  let ?st = "packed_state srt input" and ?cs = "srt (as_Candidates input)" and ?b = "as_BudgetTokens input"
  note srt = slice_sort.set_srt [OF assms(1)] slice_sort.distinct_map_srt [OF assms(1)]
  have ord: "sorted_wrt (\<lambda>a b. sr_Score b \<le> sr_Score a) ?cs"
    using slice_sort.ordered [OF assms(1), of "as_Candidates input"] by (simp add: score_gt_def not_less)
  have ok: "pack_ok ?b ?st" using assms(2) by (rule packed_ok)
  then have no: "pairwise_no_overlap (pk_selected ?st)" by (simp add: pack_ok_def)
  have exp: "set (expansion_of srt input) \<subseteq> set (as_Candidates input)"
    "distinct (map sr_ChunkID (expansion_of srt input))"
    "sr_ChunkID ` set (expansion_of srt input) \<inter> sr_ChunkID ` set (pk_selected ?st) = {}"
    using structural_expand_ok [OF assms(1), of _ "pk_selected ?st" ?cs]
    by (auto simp: expansion_of_def srt split: option.splits if_splits)
  have plain: "set (pk_selected ?st) \<subseteq> set (as_Candidates input)
      \<and> sorted_wrt (\<lambda>a b. sr_Score b \<le> sr_Score a) (pk_selected ?st)
      \<and> (distinct (map sr_ChunkID (as_Candidates input)) \<longrightarrow> distinct (map sr_ChunkID (pk_selected ?st)))
      \<and> (total_tokens (pk_selected ?st) < ?b \<longrightarrow>
           (\<forall>c \<in> set (as_Candidates input). c \<in> set (pk_selected ?st) \<or> has_line_overlap c (pk_selected ?st)))"
    if nt: "\<not> pk_truncated ?st"
  proof -
    from pack_loop_subseq [of ?b ?cs "pack_start ?b"] nt have sub: "subseq (pk_selected ?st) ?cs"
      by (auto simp: packed_state_def pack_start_def)
    have "0 < pk_remaining ?st" if "total_tokens (pk_selected ?st) < ?b"
      using that ok nt by (simp add: pack_ok_def)
    then show ?thesis
      using subseq_set [OF sub] subseq_sorted_wrt [OF sub ord] subseq_distinct_map [OF sub, of sr_ChunkID]
        pack_loop_complete [of ?b ?cs "pack_start ?b"]
      by (simp add: srt packed_state_def)
  qed
  have cut: "expansion_of srt input = [] \<and> (\<exists>c \<in> set (as_Candidates input). pk_selected ?st = [truncate_chunk c ?b]
      \<and> ?b < sr_TokenCount c \<and> (\<forall>d \<in> set (as_Candidates input). sr_Score d \<le> sr_Score c))"
    if t: "pk_truncated ?st"
  proof -
    from pack_loop_truncated [OF assms(2), of ?cs] t have "?cs \<noteq> []" "?b < sr_TokenCount (hd ?cs)"
      and "pk_selected ?st = [truncate_chunk (hd ?cs) ?b]" by (auto simp: packed_state_def)
    moreover from this(1) ord have "\<forall>d \<in> set (as_Candidates input). sr_Score d \<le> sr_Score (hd ?cs)"
      unfolding srt(1) [of "as_Candidates input", symmetric] by (cases ?cs) auto
    moreover have "hd ?cs \<in> set (as_Candidates input)"
      using \<open>?cs \<noteq> []\<close> srt(1) [of "as_Candidates input"] hd_in_set by blast
    moreover have "expansion_of srt input = []" using t ok by (intro expansion_none) (simp add: pack_ok_def)
    ultimately show ?thesis by blast
  qed
  show ?thesis
    by (intro exI [of _ "pk_selected ?st"] exI [of _ "expansion_of srt input"])
      (use no exp plain cut in \<open>auto simp: assemble_fields(1,3)\<close>)
qed

theorem assemble_selection_witness:
  "\<exists>packed expansion. cp_Chunks (assemble (insertion_sort score_gt)
     \<lparr>as_Candidates = [sample_chunk 1 6], as_BudgetTokens = 10, as_Store = None, as_Ctx = False\<rparr>) = packed @ expansion
     \<and> pairwise_no_overlap packed"
proof -
  let ?i = "\<lparr>as_Candidates = [sample_chunk 1 6], as_BudgetTokens = 10, as_Store = None, as_Ctx = False\<rparr>"
  have "0 < as_BudgetTokens ?i" by simp
  from assemble_selection [OF slice_sort_score this] show ?thesis by blast
qed


text \<open>The chunks that structural expansion adds are candidates that were not packed, each
  of them holding a symbol the graph store reports as a direct neighbour of a packed chunk's
  symbol; together they take at most thirty percent of the tokens the packing left, and
  nothing is added when the packing left none.\<close>

theorem structural_expansion_adds_neighbors:
  assumes "slice_sort score_gt srt" and "0 < as_BudgetTokens input" and "as_Store input = Some store"
  shows "\<exists>packed expansion. cp_Chunks (assemble srt input) = packed @ expansion
    \<and> packed = pk_selected (packed_state srt input)
    \<and> (\<forall>c \<in> set expansion. c \<in> set (as_Candidates input) \<and> sr_ChunkID c \<notin> sr_ChunkID ` set packed
         \<and> graph_neighbor store packed (sr_ChunkID c))
    \<and> (expansion \<noteq> [] \<longrightarrow>
         100 * total_tokens expansion \<le> 30 * (as_BudgetTokens input - total_tokens packed))"
proof -
  let ?st = "packed_state srt input"
  note srt = slice_sort.set_srt [OF assms(1)]
  have ok: "pack_ok (as_BudgetTokens input) ?st" using assms(2) by (rule packed_ok)
  have "100 * total_tokens (expansion_of srt input) \<le> 30 * (as_BudgetTokens input - total_tokens (pk_selected ?st))"
    if "expansion_of srt input \<noteq> []"
  proof -
    from that have pos: "0 < pk_remaining ?st" using expansion_none by force
    with ok have "pk_remaining ?st = as_BudgetTokens input - total_tokens (pk_selected ?st)"
      by (auto simp: pack_ok_def)
    moreover from expansion_total [OF assms(1), of input] pos
    have "total_tokens (expansion_of srt input) \<le> pk_remaining ?st * 30 div 100"
      by (simp add: expansion_budget_def)
    moreover have "100 * x \<le> 30 * r" if "x \<le> r * 30 div 100" for x r :: int
      using that minus_mod_eq_div_mult [of "r * 30" 100] pos_mod_sign [of 100 "r * 30"] by linarith
    ultimately show ?thesis by simp
  qed
  moreover have "\<forall>c \<in> set (expansion_of srt input). c \<in> set (as_Candidates input)
      \<and> sr_ChunkID c \<notin> sr_ChunkID ` set (pk_selected ?st) \<and> graph_neighbor store (pk_selected ?st) (sr_ChunkID c)"
    using structural_expand_ok [OF assms(1), of store "pk_selected ?st" "srt (as_Candidates input)"]
    by (auto simp: expansion_of_def assms(3) srt)
  ultimately show ?thesis
    by (intro exI [of _ "pk_selected ?st"] exI [of _ "expansion_of srt input"]) (simp add: assemble_fields(1))
qed

theorem structural_expansion_witness:
  "\<exists>packed expansion. cp_Chunks (assemble (insertion_sort score_gt)
     \<lparr>as_Candidates = [sample_chunk 1 6], as_BudgetTokens = 10, as_Store = Some empty_store, as_Ctx = True\<rparr>)
       = packed @ expansion
     \<and> packed = pk_selected (packed_state (insertion_sort score_gt)
         \<lparr>as_Candidates = [sample_chunk 1 6], as_BudgetTokens = 10, as_Store = Some empty_store, as_Ctx = True\<rparr>)"
proof -
  let ?i = "\<lparr>as_Candidates = [sample_chunk 1 6], as_BudgetTokens = 10, as_Store = Some empty_store, as_Ctx = True\<rparr>"
  have "0 < as_BudgetTokens ?i" "as_Store ?i = Some empty_store" by simp_all
  from structural_expansion_adds_neighbors [OF slice_sort_score this] show ?thesis by blast
qed

text \<open>Truncation keeps whole lines: the content becomes the first lines of the chunk, less
  the blank lines before the first line with text, and its token estimate stays within the
  budget unless only one line is left. Everything but content and token count is kept.\<close>

theorem truncate_chunk_lines:
  "\<exists>k. sr_Content (truncate_chunk c b)
         = join_with [newline] (dropWhile ((=) []) (take k (split_on newline (sr_Content c))))
     \<and> (sr_TokenCount (truncate_chunk c b) \<le> b \<or> newline \<notin> set (sr_Content (truncate_chunk c b)))
     \<and> truncate_chunk c b
         = c\<lparr>sr_Content := sr_Content (truncate_chunk c b), sr_TokenCount := sr_TokenCount (truncate_chunk c b)\<rparr>"
proof -
  let ?ls = "split_on newline (sr_Content c)"
  obtain content tokens where r: "truncate_lines b ?ls [] 0 = (content, tokens)"
    by (cases "truncate_lines b ?ls [] 0")
  from truncate_lines_fresh [of b ?ls 0] r obtain k where
    k: "content = join_with [newline] (dropWhile ((=) []) (take k ?ls))"
      "length (dropWhile ((=) []) (take k ?ls)) \<le> 1 \<or> tokens \<le> b" by auto
  have "newline \<notin> set content" if "length (dropWhile ((=) []) (take k ?ls)) \<le> 1"
    unfolding k(1) using that
    by (rule join_short_no_newline) (auto dest!: set_dropWhileD in_set_takeD split_on_no_sep)
  with k r show ?thesis by (intro exI [of _ k]) (auto simp: truncate_chunk_def)
qed


theorem truncate_chunk_lines_witness:
  "\<exists>k. sr_Content (truncate_chunk (sample_chunk 1 9) 2)
     = join_with [newline] (dropWhile ((=) []) (take k (split_on newline (sr_Content (sample_chunk 1 9)))))"
  using truncate_chunk_lines [of "sample_chunk 1 9" 2] by blast

end
