(* ===== verification/Ranker.thy ===== *)
theory Ranker
  imports Assembler
begin

text \<open>
  \<open>internal/core/ranker.go\<close>: blending of the five signals into one score. Signal scores are
  partial maps whose missing entries read as zero, as in Go. The batch path ranges over Go
  maps; the association lists give the order in which it does so.
\<close>

record rank_weights =
  rw_Semantic :: real
  rw_Structural :: real
  rw_Change :: real
  rw_Session :: real
  rw_Keyword :: real

definition default_rank_weights :: rank_weights where
  "default_rank_weights =
     \<lparr>rw_Semantic = 40 / 100, rw_Structural = 20 / 100, rw_Change = 15 / 100,
      rw_Session = 15 / 100, rw_Keyword = 10 / 100\<rparr>"

record hybrid_rank_input =
  hr_Candidates :: "scored_result list"
  hr_Store :: metadata_store
  hr_Weights :: rank_weights
  hr_SemanticScores :: "int \<rightharpoonup> real"
  hr_SemanticReady :: bool
  hr_SessionScorer :: "(string \<Rightarrow> int \<Rightarrow> real) option"

definition map_get :: "(int \<rightharpoonup> real) \<Rightarrow> int \<Rightarrow> real" where
  "map_get m i = (case m i of Some x \<Rightarrow> x | None \<Rightarrow> 0)"

definition redistribute_weights :: "rank_weights \<Rightarrow> bool \<Rightarrow> bool \<Rightarrow> rank_weights" where
  "redistribute_weights base semanticReady sessionReady =
     (let unavailable1 = (if \<not> semanticReady then rw_Semantic base else 0);
          w1 = (if \<not> semanticReady then base\<lparr>rw_Semantic := 0\<rparr> else base);
          unavailable = (if \<not> sessionReady then unavailable1 + rw_Session w1 else unavailable1);
          w = (if \<not> sessionReady then w1\<lparr>rw_Session := 0\<rparr> else w1)
      in if unavailable = 0 then w
         else
           let remaining = rw_Keyword w + rw_Structural w + rw_Change w + rw_Semantic w + rw_Session w in
           if remaining = 0 then w
           else
             let factor = (remaining + unavailable) / remaining;
                 w2 = w\<lparr>rw_Keyword := rw_Keyword w * factor, rw_Structural := rw_Structural w * factor,
                        rw_Change := rw_Change w * factor\<rparr>;
                 w3 = (if semanticReady then w2\<lparr>rw_Semantic := rw_Semantic w2 * factor\<rparr> else w2)
             in (if sessionReady then w3\<lparr>rw_Session := rw_Session w3 * factor\<rparr> else w3))"

definition normalize_cosine_similarity :: "real \<Rightarrow> real" where
  "normalize_cosine_similarity sim = (sim + 1) / 2"

section \<open>Structural scores\<close>

definition overlap_score :: "int \<Rightarrow> real" where
  "overlap_score overlap = real_of_int overlap / real_of_int (overlap + 1)"

definition count_overlap :: "int set \<Rightarrow> int \<Rightarrow> int list \<Rightarrow> int" where
  "count_overlap candidateChunks self ncIDs =
     foldl (\<lambda>n ncID. if ncID \<in> candidateChunks \<and> ncID \<noteq> self then n + 1 else n) 0 ncIDs"

fun legacy_scores :: "metadata_store \<Rightarrow> int set \<Rightarrow> scored_result list \<Rightarrow> (int \<rightharpoonup> real) \<Rightarrow> int \<rightharpoonup> real" where
  "legacy_scores store candidateChunks [] scores = scores"
| "legacy_scores store candidateChunks (c # cs) scores =
     (if sr_ChunkID c = 0 then legacy_scores store candidateChunks cs scores
      else
        let symbolID = lookup_symbol_for_chunk store (sr_ChunkID c) in
        if symbolID = 0 then legacy_scores store candidateChunks cs scores
        else (case ms_Neighbors store symbolID 2 ''both'' of
                Inl _ \<Rightarrow> legacy_scores store candidateChunks cs scores
              | Inr neighbors \<Rightarrow>
                  let overlap = count_overlap candidateChunks (sr_ChunkID c)
                                  (lookup_chunk_ids_for_symbols store neighbors) in
                  if overlap > 0
                  then legacy_scores store candidateChunks cs (scores(sr_ChunkID c \<mapsto> overlap_score overlap))
                  else legacy_scores store candidateChunks cs scores))"

definition compute_structural_scores_legacy :: "metadata_store \<Rightarrow> scored_result list \<Rightarrow> int \<rightharpoonup> real" where
  "compute_structural_scores_legacy store candidates =
     legacy_scores store (sr_ChunkID ` set candidates) candidates Map.empty"

fun batch_scores ::
  "(int \<rightharpoonup> int) \<Rightarrow> (int \<rightharpoonup> int list) \<Rightarrow> (int \<rightharpoonup> int) \<Rightarrow> int set \<Rightarrow> scored_result list
     \<Rightarrow> (int \<rightharpoonup> real) \<Rightarrow> int \<rightharpoonup> real" where
  "batch_scores chunkSymbolMap neighborMap symChunkMap candidateChunks [] scores = scores"
| "batch_scores chunkSymbolMap neighborMap symChunkMap candidateChunks (c # cs) scores =
     (case chunkSymbolMap (sr_ChunkID c) of
        None \<Rightarrow> batch_scores chunkSymbolMap neighborMap symChunkMap candidateChunks cs scores
      | Some symID \<Rightarrow>
          let neighbors = (case neighborMap symID of Some ns \<Rightarrow> ns | None \<Rightarrow> []);
              overlap = foldl (\<lambda>n nSymID.
                 let ncID = (case symChunkMap nSymID of Some x \<Rightarrow> x | None \<Rightarrow> 0) in
                 if ncID \<noteq> 0 \<and> ncID \<in> candidateChunks \<and> ncID \<noteq> sr_ChunkID c then n + 1 else n) 0 neighbors
          in if overlap > 0
             then batch_scores chunkSymbolMap neighborMap symChunkMap candidateChunks cs
                    (scores(sr_ChunkID c \<mapsto> overlap_score overlap))
             else batch_scores chunkSymbolMap neighborMap symChunkMap candidateChunks cs scores)"

definition compute_structural_scores_batch :: "batch_store \<Rightarrow> scored_result list \<Rightarrow> int \<rightharpoonup> real" where
  "compute_structural_scores_batch bs candidates =
     (if candidates = [] then Map.empty
      else
        let chunkIDs = filter (\<lambda>i. i \<noteq> 0) (map sr_ChunkID candidates) in
        case bs_BatchGetSymbolIDsForChunks bs chunkIDs of
          Inl _ \<Rightarrow> Map.empty
        | Inr chunkSymbolMap \<Rightarrow>
            (case bs_BatchNeighbors bs (map snd chunkSymbolMap) 2 of
               Inl _ \<Rightarrow> Map.empty
             | Inr neighborMap \<Rightarrow>
                 (case bs_BatchGetChunkIDsForSymbols bs (dedup (concat (map snd neighborMap))) of
                    Inl _ \<Rightarrow> Map.empty
                  | Inr symChunkMap \<Rightarrow>
                      batch_scores (map_of chunkSymbolMap) (map_of neighborMap) (map_of symChunkMap)
                        (sr_ChunkID ` set candidates) candidates Map.empty)))"

definition compute_structural_scores :: "metadata_store \<Rightarrow> scored_result list \<Rightarrow> int \<rightharpoonup> real" where
  "compute_structural_scores store candidates =
     (case ms_batch store of
        Some bs \<Rightarrow> compute_structural_scores_batch bs candidates
      | None \<Rightarrow> compute_structural_scores_legacy store candidates)"

section \<open>Hybrid ranking\<close>

definition blend :: "rank_weights \<Rightarrow> hybrid_rank_input \<Rightarrow> (int \<rightharpoonup> real) \<Rightarrow> (int \<rightharpoonup> real) \<Rightarrow> scored_result \<Rightarrow> scored_result" where
  "blend w input changeScores structScores r =
     (let keywordScore = sr_Score r;
          structScore = map_get structScores (sr_ChunkID r);
          changeScore = map_get changeScores (sr_ChunkID r);
          sessionScore = (case hr_SessionScorer input of
                            Some scorer \<Rightarrow> scorer (sr_Path r) (sr_StartLine r) | None \<Rightarrow> 0);
          semanticScore = (if hr_SemanticReady input
                           then map_get (hr_SemanticScores input) (sr_ChunkID r) else 0)
      in r\<lparr>sr_Score := rw_Semantic w * semanticScore + rw_Structural w * structScore
                       + rw_Change w * changeScore + rw_Session w * sessionScore
                       + rw_Keyword w * keywordScore\<rparr>)"

definition hybrid_rank ::
  "(scored_result list \<Rightarrow> scored_result list) \<Rightarrow> hybrid_rank_input \<Rightarrow> scored_result list" where
  "hybrid_rank srt input =
     (if hr_Candidates input = [] then hr_Candidates input
      else
        let w = redistribute_weights (hr_Weights input) (hr_SemanticReady input)
                  (hr_SessionScorer input \<noteq> None);
            chunkIDs = map sr_ChunkID (hr_Candidates input);
            changeScores = (case ms_ComputeChangeScores (hr_Store input) chunkIDs of
                              Inr m \<Rightarrow> map_of m | Inl _ \<Rightarrow> Map.empty);
            structScores = compute_structural_scores (hr_Store input) (hr_Candidates input)
        in srt (map (blend w input changeScores structScores) (hr_Candidates input)))"

section \<open>Lemmas on weights\<close>

definition weight_sum :: "rank_weights \<Rightarrow> real" where
  "weight_sum w = rw_Semantic w + rw_Structural w + rw_Change w + rw_Session w + rw_Keyword w"

definition weights_nonneg :: "rank_weights \<Rightarrow> bool" where
  "weights_nonneg w \<longleftrightarrow> 0 \<le> rw_Semantic w \<and> 0 \<le> rw_Structural w \<and> 0 \<le> rw_Change w
     \<and> 0 \<le> rw_Session w \<and> 0 \<le> rw_Keyword w"

lemma default_weights: "weights_nonneg default_rank_weights" "weight_sum default_rank_weights = 1"
  by (simp_all add: weights_nonneg_def weight_sum_def default_rank_weights_def)


text \<open>The weight of the signals that are available.\<close>

definition available_weight :: "rank_weights \<Rightarrow> bool \<Rightarrow> bool \<Rightarrow> real" where
  "available_weight w sem ses =
     rw_Keyword w + rw_Structural w + rw_Change w + (if sem then rw_Semantic w else 0)
       + (if ses then rw_Session w else 0)"

text \<open>Each available weight is scaled by the same factor.\<close>

definition scale_weights :: "real \<Rightarrow> rank_weights \<Rightarrow> bool \<Rightarrow> bool \<Rightarrow> rank_weights" where
  "scale_weights k w sem ses =
     \<lparr>rw_Semantic = (if sem then k * rw_Semantic w else 0), rw_Structural = k * rw_Structural w,
      rw_Change = k * rw_Change w, rw_Session = (if ses then k * rw_Session w else 0),
      rw_Keyword = k * rw_Keyword w\<rparr>"

lemma redistribute_scaled:
  assumes "available_weight w sem ses \<noteq> 0"
  shows "redistribute_weights w sem ses
    = scale_weights (weight_sum w / available_weight w sem ses) w sem ses"
proof -
  define k where "k = weight_sum w / available_weight w sem ses"
  have sum: "weight_sum w = available_weight w sem ses
      + ((if sem then 0 else rw_Semantic w) + (if ses then 0 else rw_Session w))"
    by (simp add: weight_sum_def available_weight_def)
  let ?u = "(if sem then 0 else rw_Semantic w) + (if ses then 0 else rw_Session w)"
  have unavailable: "(if \<not> ses then (if \<not> sem then rw_Semantic w else 0)
      + rw_Session (if \<not> sem then w\<lparr>rw_Semantic := 0\<rparr> else w) else (if \<not> sem then rw_Semantic w else 0)) = ?u"
    by simp
  have one: "k = 1" if "?u = 0" using assms sum that by (simp add: k_def)
  have kk: "(available_weight w sem ses + ?u) / available_weight w sem ses = k" using sum by (simp add: k_def)
  show ?thesis
  proof (cases "?u = 0")
    case True
    with one [OF True] show ?thesis
      unfolding k_def [symmetric]
      by (simp add: redistribute_weights_def Let_def unavailable scale_weights_def)
  next
    case False
    with kk assms show ?thesis
      unfolding k_def [symmetric]
      by (cases sem; cases ses)
        (simp_all add: redistribute_weights_def Let_def scale_weights_def available_weight_def ac_simps)
  qed
qed

lemma weight_sum_scale: "weight_sum (scale_weights k w sem ses) = k * available_weight w sem ses"
  by (simp add: weight_sum_def scale_weights_def available_weight_def algebra_simps)

lemma redistribute_total:
  "available_weight w sem ses \<noteq> 0 \<Longrightarrow> weight_sum (redistribute_weights w sem ses) = weight_sum w"
  by (simp add: redistribute_scaled weight_sum_scale)

lemma available_weight_pos:
  "weights_nonneg w \<Longrightarrow> 0 < rw_Keyword w \<Longrightarrow> 0 < available_weight w sem ses"
  by (simp add: available_weight_def weights_nonneg_def add_pos_nonneg)

lemma redistribute_nonneg:
  assumes "weights_nonneg w" and "0 < available_weight w sem ses"
  shows "weights_nonneg (redistribute_weights w sem ses)"
proof -
  have "0 \<le> weight_sum w" using assms(1) by (simp add: weights_nonneg_def weight_sum_def)
  then have "0 \<le> weight_sum w / available_weight w sem ses" using assms(2) by simp
  moreover have "weights_nonneg (scale_weights k w sem ses)" if "0 \<le> k" for k
    using assms(1) that by (simp add: weights_nonneg_def scale_weights_def)
  ultimately show ?thesis using assms(2) by (simp add: redistribute_scaled)
qed

section \<open>Lemmas on structural scores\<close>

definition unit_scores :: "(int \<rightharpoonup> real) \<Rightarrow> bool" where
  "unit_scores m \<longleftrightarrow> (\<forall>i x. m i = Some x \<longrightarrow> 0 \<le> x \<and> x \<le> 1)"

lemma unit_scores_get: "unit_scores m \<Longrightarrow> 0 \<le> map_get m i \<and> map_get m i \<le> 1"
  by (auto simp: unit_scores_def map_get_def split: option.split)

lemma unit_scores_empty [simp]: "unit_scores Map.empty"
  by (simp add: unit_scores_def)

lemma overlap_score_unit: "0 < n \<Longrightarrow> 0 \<le> overlap_score n \<and> overlap_score n \<le> 1"
  by (simp add: overlap_score_def divide_le_eq)

lemma unit_scores_upd: "unit_scores m \<Longrightarrow> 0 < n \<Longrightarrow> unit_scores (m(i \<mapsto> overlap_score n))"
  using overlap_score_unit by (simp add: unit_scores_def)

lemma legacy_scores_unit: "unit_scores m \<Longrightarrow> unit_scores (legacy_scores store C cs m)"
  by (induction store C cs m rule: legacy_scores.induct)
    (simp_all add: Let_def unit_scores_upd split: sum.split)

lemma batch_scores_unit: "unit_scores m \<Longrightarrow> unit_scores (batch_scores a b c C cs m)"
  by (induction a b c C cs m rule: batch_scores.induct)
    (simp_all add: Let_def unit_scores_upd split: option.split)

lemma structural_unit: "unit_scores (compute_structural_scores store cs)"
  by (simp add: compute_structural_scores_def compute_structural_scores_batch_def Let_def
      compute_structural_scores_legacy_def legacy_scores_unit batch_scores_unit split: option.split sum.split)

section \<open>Batch queries agree with queries one by one\<close>

locale batch_graph =
  fixes store :: "'d \<Rightarrow> metadata_store" and bs :: "'d \<Rightarrow> batch_store" and inv :: "'d \<Rightarrow> bool"
  assumes symbol_ids: "inv st \<Longrightarrow> \<exists>m. bs_BatchGetSymbolIDsForChunks (bs st) ids = Inr m \<and> distinct (map fst m)
      \<and> fst ` set m \<subseteq> set ids
      \<and> (\<forall>i \<in> set ids. map_of m i =
           (if lookup_symbol_for_chunk (store st) i = 0 then None else Some (lookup_symbol_for_chunk (store st) i)))"
    and neighbor_lists: "inv st \<Longrightarrow> \<exists>m. bs_BatchNeighbors (bs st) syms d = Inr m \<and> (\<forall>s \<in> set syms. map_of m s =
           (case ms_Neighbors (store st) s d ''both'' of Inr ns \<Rightarrow> Some ns | Inl _ \<Rightarrow> None))"
    and chunk_ids: "inv st \<Longrightarrow> \<exists>m. bs_BatchGetChunkIDsForSymbols (bs st) syms = Inr m \<and> (\<forall>s \<in> set syms. map_of m s =
           (case ms_GetSymbolByID (store st) s of Inr (Some y) \<Rightarrow> Some (sy_ChunkID y) | _ \<Rightarrow> None))"
    and chunk_nonzero: "inv st \<Longrightarrow> ms_GetSymbolByID (store st) s = Inr (Some y) \<Longrightarrow> sy_ChunkID y \<noteq> 0"
begin

lemma overlap_eq:
  assumes inv: "inv st" and sc: "\<And>s. s \<in> set ns \<Longrightarrow> sc s =
     (case ms_GetSymbolByID (store st) s of Inr (Some y) \<Rightarrow> Some (sy_ChunkID y) | _ \<Rightarrow> None)"
  shows "foldl (\<lambda>n s. let x = (case sc s of Some x \<Rightarrow> x | None \<Rightarrow> 0) in
           if x \<noteq> 0 \<and> x \<in> C \<and> x \<noteq> self then n + 1 else n) a ns
         = foldl (\<lambda>n x. if x \<in> C \<and> x \<noteq> self then n + 1 else n) a (lookup_chunk_ids_for_symbols (store st) ns)"
  using sc
proof (induction ns arbitrary: a)
  case (Cons s ns)
  from Cons.prems [of s] have s: "sc s =
    (case ms_GetSymbolByID (store st) s of Inr (Some y) \<Rightarrow> Some (sy_ChunkID y) | _ \<Rightarrow> None)" by simp
  from Cons.prems have rest: "\<And>s. s \<in> set ns \<Longrightarrow> sc s =
    (case ms_GetSymbolByID (store st) s of Inr (Some y) \<Rightarrow> Some (sy_ChunkID y) | _ \<Rightarrow> None)" by simp
  show ?case
  proof (cases "\<exists>y. ms_GetSymbolByID (store st) s = Inr (Some y)")
    case True
    then obtain y where y: "ms_GetSymbolByID (store st) s = Inr (Some y)" by blast
    from chunk_nonzero [OF inv y] y s Cons.IH [OF rest] show ?thesis by (simp add: Let_def)
  next
    case False
    then have "sc s = None"
      and "lookup_chunk_ids_for_symbols (store st) (s # ns) = lookup_chunk_ids_for_symbols (store st) ns"
      using s by (auto split: sum.splits option.splits)
    with Cons.IH [OF rest] show ?thesis by (simp add: Let_def)
  qed
qed simp

lemma batch_scores_eq:
  assumes inv: "inv st" and cs: "\<And>i. i \<in> sr_ChunkID ` set cands \<Longrightarrow> csm i =
      (if i = 0 \<or> lookup_symbol_for_chunk (store st) i = 0 then None else Some (lookup_symbol_for_chunk (store st) i))"
    and nm: "\<And>i s. i \<in> sr_ChunkID ` set cands \<Longrightarrow> csm i = Some s \<Longrightarrow> nm s =
      (case ms_Neighbors (store st) s 2 ''both'' of Inr ns \<Rightarrow> Some ns | Inl _ \<Rightarrow> None)"
    and sc: "\<And>s ns x. nm s = Some ns \<Longrightarrow> x \<in> set ns \<Longrightarrow> sc x =
      (case ms_GetSymbolByID (store st) x of Inr (Some y) \<Rightarrow> Some (sy_ChunkID y) | _ \<Rightarrow> None)"
  shows "batch_scores csm nm sc C cands m = legacy_scores (store st) C cands m"
  using cs nm
proof (induction cands arbitrary: m)
  case (Cons c cands)
  let ?i = "sr_ChunkID c" and ?s = "lookup_symbol_for_chunk (store st) (sr_ChunkID c)"
  have IH: "batch_scores csm nm sc C cands m = legacy_scores (store st) C cands m" for m
  proof (rule Cons.IH)
    fix i s assume "i \<in> sr_ChunkID ` set cands"
    then have i: "i \<in> sr_ChunkID ` set (c # cands)" by simp
    from Cons.prems(1) [OF i] show "csm i = (if i = 0 \<or> lookup_symbol_for_chunk (store st) i = 0 then None
      else Some (lookup_symbol_for_chunk (store st) i))" .
    show "nm s = (case ms_Neighbors (store st) s 2 ''both'' of Inr ns \<Rightarrow> Some ns | Inl _ \<Rightarrow> None)"
      if "csm i = Some s" using Cons.prems(2) [OF i that] .
  qed
  from Cons.prems(1) [of ?i]
  have i: "csm ?i = (if ?i = 0 \<or> ?s = 0 then None else Some ?s)" by simp
  show ?case
  proof (cases "?i = 0 \<or> ?s = 0")
    case True
    with i IH show ?thesis by (auto simp: Let_def)
  next
    case False
    with i have csm: "csm ?i = Some ?s" by simp
    from Cons.prems(2) [OF _ csm] have n: "nm ?s =
      (case ms_Neighbors (store st) ?s 2 ''both'' of Inr ns \<Rightarrow> Some ns | Inl _ \<Rightarrow> None)" by simp
    show ?thesis
    proof (cases "ms_Neighbors (store st) ?s 2 ''both''")
      case (Inl e)
      with csm n False IH show ?thesis by (simp add: Let_def)
    next
      case (Inr ns)
      with n have ns: "nm ?s = Some ns" by simp
      have "foldl (\<lambda>n s. let x = (case sc s of Some x \<Rightarrow> x | None \<Rightarrow> 0) in
             if x \<noteq> 0 \<and> x \<in> C \<and> x \<noteq> ?i then n + 1 else n) 0 ns
          = count_overlap C ?i (lookup_chunk_ids_for_symbols (store st) ns)"
        unfolding count_overlap_def by (rule overlap_eq [OF inv]) (rule sc [OF ns])
      with ns Inr csm False IH show ?thesis by (simp del: Let_def) (simp add: Let_def)
    qed
  qed
qed simp

lemma structural_batch_eq_legacy:
  assumes inv: "inv st"
  shows "compute_structural_scores_batch (bs st) cands = compute_structural_scores_legacy (store st) cands"
proof (cases "cands = []")
  case True
  then show ?thesis
    by (simp add: compute_structural_scores_batch_def compute_structural_scores_legacy_def)
next
  case False
  let ?ids = "filter (\<lambda>i. i \<noteq> 0) (map sr_ChunkID cands)"
  from symbol_ids [OF inv, of ?ids] obtain m1 where
    m1: "bs_BatchGetSymbolIDsForChunks (bs st) ?ids = Inr m1" "distinct (map fst m1)" "fst ` set m1 \<subseteq> set ?ids"
      "\<forall>i \<in> set ?ids. map_of m1 i =
         (if lookup_symbol_for_chunk (store st) i = 0 then None else Some (lookup_symbol_for_chunk (store st) i))" by blast
  from neighbor_lists [OF inv, of "map snd m1" 2] obtain m2 where
    m2: "bs_BatchNeighbors (bs st) (map snd m1) 2 = Inr m2"
      "\<forall>s \<in> set (map snd m1). map_of m2 s =
         (case ms_Neighbors (store st) s 2 ''both'' of Inr ns \<Rightarrow> Some ns | Inl _ \<Rightarrow> None)" by blast
  from chunk_ids [OF inv, of "dedup (concat (map snd m2))"] obtain m3 where
    m3: "bs_BatchGetChunkIDsForSymbols (bs st) (dedup (concat (map snd m2))) = Inr m3"
      "\<forall>s \<in> set (concat (map snd m2)). map_of m3 s =
         (case ms_GetSymbolByID (store st) s of Inr (Some y) \<Rightarrow> Some (sy_ChunkID y) | _ \<Rightarrow> None)" by auto
  have zero: "map_of m1 0 = None"
    using m1(3) by (auto simp: map_of_eq_None_iff)
  have "batch_scores (map_of m1) (map_of m2) (map_of m3) (sr_ChunkID ` set cands) cands Map.empty
      = legacy_scores (store st) (sr_ChunkID ` set cands) cands Map.empty"
  proof (rule batch_scores_eq [OF inv])
    fix i assume "i \<in> sr_ChunkID ` set cands"
    then show "map_of m1 i = (if i = 0 \<or> lookup_symbol_for_chunk (store st) i = 0 then None
        else Some (lookup_symbol_for_chunk (store st) i))"
      using m1(4) zero by auto
  next
    fix i s assume "map_of m1 i = Some s"
    then have "s \<in> set (map snd m1)" by (force dest: map_of_SomeD)
    with m2(2) show "map_of m2 s = (case ms_Neighbors (store st) s 2 ''both'' of Inr ns \<Rightarrow> Some ns | Inl _ \<Rightarrow> None)"
      by blast
  next
    fix s ns x assume "map_of m2 s = Some ns" and "x \<in> set ns"
    then have "x \<in> set (concat (map snd m2))" by (force dest: map_of_SomeD)
    with m3(2) show "map_of m3 x =
        (case ms_GetSymbolByID (store st) x of Inr (Some y) \<Rightarrow> Some (sy_ChunkID y) | _ \<Rightarrow> None)" by blast
  qed
  with False m1(1) m2(1) m3(1) show ?thesis
    by (simp add: compute_structural_scores_batch_def compute_structural_scores_legacy_def)
qed

end


section \<open>Lemmas on blending\<close>

lemma weighted_unit:
  assumes w: "weights_nonneg w" and sum: "weight_sum w \<le> 1"
    and "0 \<le> a \<and> a \<le> 1" "0 \<le> b \<and> b \<le> 1" "0 \<le> c \<and> c \<le> 1" "0 \<le> d \<and> d \<le> 1" "0 \<le> e \<and> e \<le> (1 :: real)"
  shows "0 \<le> rw_Semantic w * a + rw_Structural w * b + rw_Change w * c + rw_Session w * d + rw_Keyword w * e
    \<and> rw_Semantic w * a + rw_Structural w * b + rw_Change w * c + rw_Session w * d + rw_Keyword w * e \<le> 1"
proof -
  have part: "0 \<le> x * y \<and> x * y \<le> x" if "0 \<le> x" "0 \<le> y \<and> y \<le> 1" for x y :: real
    using that by (simp add: mult_left_le)
  show ?thesis
    using w sum part [of "rw_Semantic w" a] part [of "rw_Structural w" b] part [of "rw_Change w" c]
      part [of "rw_Session w" d] part [of "rw_Keyword w" e] assms(3-)
    by (simp add: weights_nonneg_def weight_sum_def)
qed

text \<open>All signals of a ranking input lie in the unit interval.\<close>

definition unit_signals :: "hybrid_rank_input \<Rightarrow> bool" where
  "unit_signals input \<longleftrightarrow>
     (\<forall>c \<in> set (hr_Candidates input). 0 \<le> sr_Score c \<and> sr_Score c \<le> 1) \<and>
     unit_scores (hr_SemanticScores input) \<and>
     (\<forall>m. ms_ComputeChangeScores (hr_Store input) (map sr_ChunkID (hr_Candidates input)) = Inr m
        \<longrightarrow> unit_scores (map_of m)) \<and>
     (\<forall>scorer p l. hr_SessionScorer input = Some scorer \<longrightarrow> 0 \<le> scorer p l \<and> scorer p l \<le> 1)"

lemma blend_fields:
  "sr_ChunkID (blend w input ch st r) = sr_ChunkID r"
  "(blend w input ch st r)\<lparr>sr_Score := x\<rparr> = r\<lparr>sr_Score := x\<rparr>"
  by (simp_all add: blend_def Let_def)

text \<open>The signals of one ranking, and the ranking in terms of them.\<close>

lemma hybrid_rank_eq:
  "hybrid_rank srt input = (if hr_Candidates input = [] then [] else
     srt (map (blend (redistribute_weights (hr_Weights input) (hr_SemanticReady input) (hr_SessionScorer input \<noteq> None)) input
       (case ms_ComputeChangeScores (hr_Store input) (map sr_ChunkID (hr_Candidates input)) of Inr m \<Rightarrow> map_of m | Inl _ \<Rightarrow> Map.empty)
       (compute_structural_scores (hr_Store input) (hr_Candidates input))) (hr_Candidates input)))"
  by (simp add: hybrid_rank_def Let_def)

lemma hybrid_rank_perm:
  assumes "slice_sort score_gt srt"
  shows "mset (map (\<lambda>r. r\<lparr>sr_Score := 0\<rparr>) (hybrid_rank srt input))
      = mset (map (\<lambda>r. r\<lparr>sr_Score := 0\<rparr>) (hr_Candidates input))"
    and "sorted_wrt (\<lambda>a b. sr_Score b \<le> sr_Score a) (hybrid_rank srt input)"
    and "length (hybrid_rank srt input) = length (hr_Candidates input)"
    and "sr_ChunkID ` set (hybrid_rank srt input) = sr_ChunkID ` set (hr_Candidates input)"
proof -
  have "mset (map (\<lambda>r. r\<lparr>sr_Score := 0\<rparr>) (srt (map (blend w input ch st) cs)))
      = mset (map (\<lambda>r. r\<lparr>sr_Score := 0\<rparr>) cs)" for w ch st cs
  proof -
    have "mset (map (\<lambda>r. r\<lparr>sr_Score := 0\<rparr>) (srt (map (blend w input ch st) cs)))
        = mset (map (\<lambda>r. r\<lparr>sr_Score := 0\<rparr>) (map (blend w input ch st) cs))"
      using slice_sort.perm [OF assms] by (metis mset_map)
    also have "\<dots> = mset (map (\<lambda>r. r\<lparr>sr_Score := 0\<rparr>) cs)" by (simp add: comp_def blend_fields)
    finally show ?thesis .
  qed
  then show perm: "mset (map (\<lambda>r. r\<lparr>sr_Score := 0\<rparr>) (hybrid_rank srt input))
      = mset (map (\<lambda>r. r\<lparr>sr_Score := 0\<rparr>) (hr_Candidates input))"
    by (simp add: hybrid_rank_eq)
  show "length (hybrid_rank srt input) = length (hr_Candidates input)"
    using mset_eq_length [OF perm] by simp
  show "sr_ChunkID ` set (hybrid_rank srt input) = sr_ChunkID ` set (hr_Candidates input)"
    using arg_cong [OF mset_eq_setD [OF perm], of "image sr_ChunkID"] by (simp add: image_image)
  show "sorted_wrt (\<lambda>a b. sr_Score b \<le> sr_Score a) (hybrid_rank srt input)"
    using slice_sort.ordered [OF assms] by (simp add: hybrid_rank_eq score_gt_def not_less)
qed

lemma hybrid_rank_unit:
  assumes "slice_sort score_gt srt" and "hr_Weights input = default_rank_weights" and "unit_signals input"
  shows "\<forall>r \<in> set (hybrid_rank srt input). 0 \<le> sr_Score r \<and> sr_Score r \<le> 1"
proof (cases "hr_Candidates input = []")
  case True
  then show ?thesis by (simp add: hybrid_rank_def)
next
  case False
  let ?cs = "hr_Candidates input"
  define w where "w = redistribute_weights (hr_Weights input) (hr_SemanticReady input) (hr_SessionScorer input \<noteq> None)"
  define ch where "ch = (case ms_ComputeChangeScores (hr_Store input) (map sr_ChunkID ?cs) of
    Inr m \<Rightarrow> map_of m | Inl _ \<Rightarrow> Map.empty)"
  define st where "st = compute_structural_scores (hr_Store input) ?cs"
  have eq: "hybrid_rank srt input = srt (map (blend w input ch st) ?cs)"
    using False by (simp add: hybrid_rank_def Let_def w_def ch_def st_def)
  have pos: "0 < available_weight default_rank_weights (hr_SemanticReady input) (hr_SessionScorer input \<noteq> None)"
    by (rule available_weight_pos [OF default_weights(1)]) (simp add: default_rank_weights_def)
  have w: "weights_nonneg w" "weight_sum w \<le> 1"
    using redistribute_nonneg [OF default_weights(1) pos]
      redistribute_total [of default_rank_weights "hr_SemanticReady input" "hr_SessionScorer input \<noteq> None"] pos default_weights(2)
    by (simp_all add: w_def assms(2))
  have ch: "unit_scores ch" using assms(3) by (auto simp: ch_def unit_signals_def split: sum.split)
  have st: "unit_scores st" by (simp add: st_def structural_unit)
  have unit: "0 \<le> sr_Score (blend w input ch st c) \<and> sr_Score (blend w input ch st c) \<le> 1" if "c \<in> set ?cs" for c
  proof -
    have "0 \<le> (if hr_SemanticReady input then map_get (hr_SemanticScores input) (sr_ChunkID c) else 0)
      \<and> (if hr_SemanticReady input then map_get (hr_SemanticScores input) (sr_ChunkID c) else 0) \<le> 1"
      using assms(3) unit_scores_get by (simp add: unit_signals_def)
    moreover have "0 \<le> (case hr_SessionScorer input of Some scorer \<Rightarrow> scorer (sr_Path c) (sr_StartLine c) | None \<Rightarrow> 0)
      \<and> (case hr_SessionScorer input of Some scorer \<Rightarrow> scorer (sr_Path c) (sr_StartLine c) | None \<Rightarrow> 0) \<le> 1"
      using assms(3) by (simp add: unit_signals_def split: option.split)
    moreover have "0 \<le> sr_Score c \<and> sr_Score c \<le> 1" using assms(3) that by (simp add: unit_signals_def)
    ultimately show ?thesis
      using weighted_unit [OF w _ unit_scores_get [OF st] unit_scores_get [OF ch]]
      by (simp add: blend_def Let_def)
  qed
  show ?thesis using unit by (simp add: eq slice_sort.set_srt [OF assms(1)])
qed

section \<open>Properties\<close>

text \<open>When signals are missing, their weight goes to the remaining ones in proportion: the
  missing signals get weight zero, no weight becomes negative, the total is unchanged, and the
  ratio of any two available signals stays what it was.\<close>

theorem redistribute_weights_proportional:
  assumes "weights_nonneg w" and "0 < rw_Keyword w"
  shows "weight_sum (redistribute_weights w sem ses) = weight_sum w
    \<and> weights_nonneg (redistribute_weights w sem ses)
    \<and> (\<not> sem \<longrightarrow> rw_Semantic (redistribute_weights w sem ses) = 0)
    \<and> (\<not> ses \<longrightarrow> rw_Session (redistribute_weights w sem ses) = 0)
    \<and> rw_Structural (redistribute_weights w sem ses) * rw_Keyword w
        = rw_Structural w * rw_Keyword (redistribute_weights w sem ses)
    \<and> rw_Change (redistribute_weights w sem ses) * rw_Keyword w
        = rw_Change w * rw_Keyword (redistribute_weights w sem ses)
    \<and> (sem \<longrightarrow> rw_Semantic (redistribute_weights w sem ses) * rw_Keyword w
        = rw_Semantic w * rw_Keyword (redistribute_weights w sem ses))
    \<and> (ses \<longrightarrow> rw_Session (redistribute_weights w sem ses) * rw_Keyword w
        = rw_Session w * rw_Keyword (redistribute_weights w sem ses))"
proof -
  have pos: "0 < available_weight w sem ses" using assms by (rule available_weight_pos)
  then have ne: "available_weight w sem ses \<noteq> 0" by simp
  obtain k where k: "redistribute_weights w sem ses = scale_weights k w sem ses"
    using redistribute_scaled [OF ne] by blast
  show ?thesis
    using redistribute_total [OF ne] redistribute_nonneg [OF assms(1) pos]
    unfolding k by (simp add: scale_weights_def)
qed

theorem redistribute_weights_witness:
  "weight_sum (redistribute_weights default_rank_weights False False) = 1"
proof -
  have "0 < rw_Keyword default_rank_weights" by (simp add: default_rank_weights_def)
  from redistribute_weights_proportional [OF default_weights(1) this, of False False] default_weights(2)
  show ?thesis by simp
qed

text \<open>C8. Ranking keeps exactly the candidates and changes only their scores; when every signal
  lies between 0 and 1, so does every blended score, whichever signals are missing; and the
  results come in descending score.\<close>

theorem hybrid_rank_correct:
  assumes "slice_sort score_gt srt" and "hr_Weights input = default_rank_weights" and "unit_signals input"
  shows "mset (map (\<lambda>r. r\<lparr>sr_Score := 0\<rparr>) (hybrid_rank srt input))
      = mset (map (\<lambda>r. r\<lparr>sr_Score := 0\<rparr>) (hr_Candidates input))
    \<and> (\<forall>r \<in> set (hybrid_rank srt input). 0 \<le> sr_Score r \<and> sr_Score r \<le> 1)
    \<and> sorted_wrt (\<lambda>a b. sr_Score b \<le> sr_Score a) (hybrid_rank srt input)"
  using hybrid_rank_perm [OF assms(1)] hybrid_rank_unit [OF assms] by blast

theorem hybrid_rank_correct_witness:
  "sorted_wrt (\<lambda>a b. sr_Score b \<le> sr_Score a) (hybrid_rank (insertion_sort score_gt)
      \<lparr>hr_Candidates = [sample_chunk 1 5, sample_chunk 2 5], hr_Store = empty_store, hr_Weights = default_rank_weights,
       hr_SemanticScores = [1 \<mapsto> 1 / 2], hr_SemanticReady = True, hr_SessionScorer = None\<rparr>)"
proof -
  let ?i = "\<lparr>hr_Candidates = [sample_chunk 1 5, sample_chunk 2 5], hr_Store = empty_store, hr_Weights = default_rank_weights,
       hr_SemanticScores = [1 \<mapsto> 1 / 2], hr_SemanticReady = True, hr_SessionScorer = None\<rparr>"
  have "hr_Weights ?i = default_rank_weights" by simp
  moreover have "unit_signals ?i"
    by (simp add: unit_signals_def sample_chunk_def unit_scores_def empty_store_def)
  ultimately show ?thesis using hybrid_rank_correct [OF slice_sort_score] by blast
qed

end
