(* ===== verification/Utf8.thy ===== *)
theory Utf8
  imports Prelude
begin

text \<open>
  The part of Go's \<open>unicode/utf8\<close> that \<open>truncateBytesAtRune\<close> of
  \<open>internal/core/fallback.go\<close> relies on, and that function. A decoded rune is a pair: whether
  the bytes are a valid encoding, and how many bytes were consumed. The code's tests
  \<open>r == utf8.RuneError && size <= 1\<close> and \<open>r2 != utf8.RuneError || sz2 > 1\<close> are the first
  component negated and the first component: a valid encoding of \<open>U+FFFD\<close> has size three.
\<close>

section \<open>Decoding\<close>

abbreviation byte :: "char \<Rightarrow> nat" where "byte c \<equiv> of_char c"

text \<open>Size, and the range of the second byte, for a lead byte of a multi-byte rune.\<close>

definition rune_first :: "nat \<Rightarrow> (nat \<times> nat \<times> nat) option" where
  "rune_first b =
     (if 194 \<le> b \<and> b \<le> 223 then Some (2, 128, 191)
      else if b = 224 then Some (3, 160, 191)
      else if b = 237 then Some (3, 128, 159)
      else if 225 \<le> b \<and> b \<le> 239 then Some (3, 128, 191)
      else if b = 240 then Some (4, 144, 191)
      else if 241 \<le> b \<and> b \<le> 243 then Some (4, 128, 191)
      else if b = 244 then Some (4, 128, 143)
      else None)"

definition continuation :: "char \<Rightarrow> bool" where
  "continuation c \<longleftrightarrow> 128 \<le> byte c \<and> byte c \<le> 191"

definition decode_rune :: "string \<Rightarrow> bool \<times> nat" where
  "decode_rune p =
     (case p of
        [] \<Rightarrow> (False, 0)
      | c # cs \<Rightarrow>
          if byte c < 128 then (True, 1)
          else (case rune_first (byte c) of
                  None \<Rightarrow> (False, 1)
                | Some (sz, lo, hi) \<Rightarrow>
                    if length p < sz then (False, 1)
                    else if byte (cs ! 0) < lo \<or> hi < byte (cs ! 0) then (False, 1)
                    else if sz \<le> 2 then (True, 2)
                    else if \<not> continuation (cs ! 1) then (False, 1)
                    else if sz \<le> 3 then (True, 3)
                    else if \<not> continuation (cs ! 2) then (False, 1)
                    else (True, 4)))"

definition rune_start :: "char \<Rightarrow> bool" where
  "rune_start c \<longleftrightarrow> \<not> continuation c"

text \<open>The loop \<open>for ; start >= limit; start--\<close> that breaks at a byte that may start a rune.\<close>

function scan_back :: "string \<Rightarrow> int \<Rightarrow> int \<Rightarrow> int" where
  "scan_back p limit start =
     (if start \<ge> limit \<and> start \<ge> 0 then
        if rune_start (p ! nat start) then start else scan_back p limit (start - 1)
      else start)"
  by pat_completeness auto
termination
  by (relation "measure (\<lambda>(p, limit, start). nat (start + 1))") auto

declare scan_back.simps [simp del]

definition decode_last_rune :: "string \<Rightarrow> bool \<times> nat" where
  "decode_last_rune p =
     (if p = [] then (False, 0)
      else if byte (last p) < 128 then (True, 1)
      else
        let e = int (length p);
            limit = max (e - 4) 0;
            start = max (scan_back p limit (e - 2)) 0;
            (ok, sz) = decode_rune (drop (nat start) p)
        in if start + int sz \<noteq> e then (False, 1) else (ok, sz))"

section \<open>Truncation\<close>

text \<open>The walk-back loop: \<open>e\<close> is \<open>end\<close>.\<close>

function walk_back :: "string \<Rightarrow> int \<Rightarrow> string" where
  "walk_back head e =
     (if e > 0 \<and> int (length head) - e \<le> 4 then
        if fst (decode_last_rune (take (nat e) head)) then take (nat e) head
        else walk_back head (e - 1)
      else [])"
  by pat_completeness auto
termination
  by (relation "measure (\<lambda>(head, e). nat e)") auto

declare walk_back.simps [simp del]

definition truncate_bytes_at_rune :: "string \<Rightarrow> int \<Rightarrow> string" where
  "truncate_bytes_at_rune b maxLen =
     (if maxLen \<le> 0 \<or> int (length b) \<le> maxLen then b
      else
        let head = take (nat maxLen) b in
        if \<not> fst (decode_last_rune head) then walk_back head (int (length head) - 1) else head)"

section \<open>Runes and valid text\<close>

text \<open>A rune is a string that decodes to one rune with nothing left, valid UTF-8 a sequence of them.\<close>

definition is_rune :: "string \<Rightarrow> bool" where
  "is_rune r \<longleftrightarrow> decode_rune r = (True, length r)"

definition valid_utf8 :: "string \<Rightarrow> bool" where
  "valid_utf8 s \<longleftrightarrow> (\<exists>rs. s = concat rs \<and> (\<forall>r \<in> set rs. is_rune r))"

lemma rune_first_lead: "rune_first b = Some (sz, lo, hi) \<Longrightarrow> 194 \<le> b \<and> 2 \<le> sz \<and> sz \<le> 4 \<and> 128 \<le> lo \<and> hi \<le> 191"
  by (auto simp: rune_first_def split: if_splits)

lemma is_rune_ne: "is_rune r \<Longrightarrow> r \<noteq> []"
  by (auto simp: is_rune_def decode_rune_def)

text \<open>The shape of a rune: an ASCII byte, or a lead byte and its continuation bytes.\<close>

lemma is_rune_cases:
  assumes "is_rune r"
  obtains (ascii) c where "r = [c]" "byte c < 128"
  | (multi) c cs sz lo hi where "r = c # cs" "128 \<le> byte c" "rune_first (byte c) = Some (sz, lo, hi)"
      "length r = sz" "\<forall>x \<in> set cs. continuation x"
proof (cases r)
  case Nil
  with assms show ?thesis by (simp add: is_rune_def decode_rune_def)
next
  case (Cons c cs)
  show ?thesis
  proof (cases "byte c < 128")
    case True
    with assms Cons show ?thesis by (intro ascii [of c]) (auto simp: is_rune_def decode_rune_def)
  next
    case False
    then obtain sz lo hi where f: "rune_first (byte c) = Some (sz, lo, hi)"
      using assms Cons by (cases "rune_first (byte c)") (auto simp: is_rune_def decode_rune_def)
    note lead = rune_first_lead [OF f]
    have len: "length r = sz"
      using assms Cons False f lead by (auto simp: is_rune_def decode_rune_def split: if_splits)
    have "continuation (cs ! i)" if "i < length cs" for i
    proof -
      have "i < 3" using that len lead Cons by simp
      then consider "i = 0" | "i = 1" | "i = 2" by linarith
      then show ?thesis
        using assms Cons False f lead that len
        by cases (auto simp: is_rune_def decode_rune_def continuation_def split: if_splits)
    qed
    then have "\<forall>x \<in> set cs. continuation x" by (auto simp: in_set_conv_nth)
    with Cons False f len show ?thesis by (intro multi) simp_all
  qed
qed

lemma decode_rune_prefix:
  assumes "0 < k" and "k < length r" and "is_rune r"
  shows "decode_rune (take k r) = (False, 1)"
  using assms(3)
proof (cases rule: is_rune_cases)
  case (ascii c)
  with assms(1,2) show ?thesis by simp
next
  case (multi c cs sz lo hi)
  with assms(1,2) show ?thesis by (cases k) (auto simp: decode_rune_def)
qed

lemma decode_rune_true:
  assumes "decode_rune p = (True, n)" and "n = length p" and "2 \<le> length p"
  shows "continuation (last p)"
proof -
  have "is_rune p" using assms by (simp add: is_rune_def)
  then show ?thesis
    by (cases rule: is_rune_cases) (use assms(3) in auto)
qed

lemma scan_back_to:
  assumes "limit \<le> int (length xs)" and "rune_start c" and "\<forall>x \<in> set cs. continuation x"
    and "0 \<le> limit" and "j < length (c # cs)"
  shows "scan_back (xs @ c # cs @ ys) limit (int (length xs + j)) = int (length xs)"
  using assms(5)
proof (induction j)
  case 0
  with assms show ?case by (subst scan_back.simps) (simp add: nth_append)
next
  case (Suc j)
  then have "\<not> rune_start ((xs @ c # cs @ ys) ! nat (int (length xs + Suc j)))"
    using assms(3) by (simp add: nth_append rune_start_def)
  with Suc assms(1,4) show ?case by (subst scan_back.simps) simp
qed

lemma decode_last_ascii: "byte c < 128 \<Longrightarrow> fst (decode_last_rune (xs @ [c]))"
  by (simp add: decode_last_rune_def)

text \<open>A lead byte with its continuation bytes at the end is what \<open>DecodeLastRune\<close> decodes.\<close>

lemma decode_last_group:
  assumes c: "192 \<le> byte c" and cs: "\<forall>x \<in> set cs. continuation x" "cs \<noteq> []" "length cs \<le> 3"
  shows "fst (decode_last_rune (xs @ c # cs)) \<longleftrightarrow> is_rune (c # cs)"
proof -
  let ?p = "xs @ c # cs"
  have "last ?p \<in> set cs" using cs(2) by simp
  with cs(1) have hi: "\<not> byte (last ?p) < 128" by (auto simp: continuation_def)
  have "scan_back (xs @ c # cs @ []) (max (int (length ?p) - 4) 0) (int (length xs + (length cs - 1))) = int (length xs)"
    using c cs by (intro scan_back_to) (auto simp: rune_start_def continuation_def)
  moreover have "int (length xs + (length cs - 1)) = int (length ?p) - 2" using cs(2) by (cases cs) auto
  ultimately have start: "scan_back ?p (max (int (length ?p) - 4) 0) (int (length ?p) - 2) = int (length xs)"
    by (simp only: append_Nil2)
  show ?thesis
    using hi start by (cases "decode_rune (c # cs)") (auto simp: decode_last_rune_def Let_def is_rune_def)
qed

text \<open>A lead byte alone at the end never decodes.\<close>

lemma decode_rune_lead_alone:
  assumes "192 \<le> byte c" shows "decode_rune [c] = (False, 1)"
proof (cases "rune_first (byte c)")
  case None
  with assms show ?thesis by (simp add: decode_rune_def)
next
  case (Some t)
  obtain sz lo hi where t: "t = (sz, lo, hi)" by (cases t)
  with Some have "2 \<le> sz" using rune_first_lead by blast
  with Some t assms show ?thesis by (simp add: decode_rune_def)
qed

lemma decode_last_lead:
  assumes "192 \<le> byte c" shows "\<not> fst (decode_last_rune (xs @ [c]))"
proof
  let ?p = "xs @ [c]"
  let ?start = "max (scan_back ?p (max (int (length ?p) - 4) 0) (int (length ?p) - 2)) 0"
  assume "fst (decode_last_rune ?p)"
  with assms obtain sz where d: "decode_rune (drop (nat ?start) ?p) = (True, sz)" "?start + int sz = int (length ?p)"
    by (cases "decode_rune (drop (nat ?start) ?p)") (auto simp: decode_last_rune_def Let_def split: if_splits)
  have le: "scan_back p limit e \<le> e" for p limit e
    by (induction p limit e rule: scan_back.induct) (subst scan_back.simps, force)
  have "?start \<le> int (length xs)" using le [of ?p "max (int (length ?p) - 4) 0" "int (length ?p) - 2"] by simp
  then have q: "drop (nat ?start) ?p = drop (nat ?start) xs @ [c]" by simp
  have "0 \<le> ?start" by simp
  with d(2) have "sz = length ?p - nat ?start" by linarith
  then have len: "sz = length (drop (nat ?start) ?p)" by (simp only: length_drop)
  show False
  proof (cases "2 \<le> length (drop (nat ?start) ?p)")
    case True
    have "continuation c" using decode_rune_true [OF d(1) len True] unfolding q by (simp only: last_snoc)
    with assms show False by (simp add: continuation_def)
  next
    case False
    with q have "drop (nat ?start) ?p = [c]" by simp
    with d(1) have "decode_rune [c] = (True, sz)" by (simp only:)
    with decode_rune_lead_alone [OF assms] show False by simp
  qed
qed

lemma decode_last_rune_end:
  assumes "is_rune r" shows "fst (decode_last_rune (xs @ r))"
  using assms
proof (cases rule: is_rune_cases)
  case (ascii c)
  then show ?thesis by (simp add: decode_last_ascii)
next
  case (multi c cs sz lo hi)
  with rune_first_lead [OF multi(3)] have "192 \<le> byte c" "cs \<noteq> []" "length cs \<le> 3" by auto
  with decode_last_group [of c cs xs] multi assms show ?thesis by simp
qed

lemma decode_last_cut:
  assumes "is_rune r" and "0 < k" and "k < length r"
  shows "\<not> fst (decode_last_rune (xs @ take k r))"
  using assms(1)
proof (cases rule: is_rune_cases)
  case (ascii c)
  with assms show ?thesis by simp
next
  case (multi c cs sz lo hi)
  with rune_first_lead [OF multi(3)] have c: "192 \<le> byte c" "length cs \<le> 3" by auto
  obtain j where k: "k = Suc j" using assms(2) by (cases k) auto
  show ?thesis
  proof (cases j)
    case 0
    with k multi c decode_last_lead show ?thesis by simp
  next
    case (Suc i)
    have "\<not> is_rune (c # take j cs)"
      using decode_rune_prefix [OF assms(2,3,1)] k multi(1) by (simp add: is_rune_def)
    moreover have "\<forall>x \<in> set (take j cs). continuation x" using multi(5) by (auto dest: in_set_takeD)
    moreover have "cs \<noteq> []" using assms(3) k Suc multi(1) by auto
    ultimately show ?thesis
      using decode_last_group [OF c(1), of "take j cs" xs] c(2) k Suc multi by simp
  qed
qed

text \<open>A prefix of a sequence of runes is some of them and a proper part of the next.\<close>

lemma take_concat_runes:
  "\<forall>r \<in> set rs. r \<noteq> [] \<Longrightarrow> m < length (concat rs) \<Longrightarrow>
   \<exists>rs1 r rs2 k. rs = rs1 @ r # rs2 \<and> k < length r \<and> take m (concat rs) = concat rs1 @ take k r"
proof (induction rs arbitrary: m)
  case (Cons r rs)
  show ?case
  proof (cases "m < length r")
    case True
    then show ?thesis by (intro exI [of _ "[]"] exI [of _ r] exI [of _ rs] exI [of _ m]) simp
  next
    case False
    with Cons.prems(2) have "m - length r < length (concat rs)" by simp
    moreover have "\<forall>r \<in> set rs. r \<noteq> []" using Cons.prems(1) by simp
    ultimately obtain rs1 r' rs2 k where "rs = rs1 @ r' # rs2" "k < length r'"
      "take (m - length r) (concat rs) = concat rs1 @ take k r'"
      using Cons.IH [of "m - length r"] by blast
    with False show ?thesis
      by (intro exI [of _ "r # rs1"] exI [of _ r'] exI [of _ rs2] exI [of _ k]) simp
  qed
qed simp

lemma walk_back_runes:
  assumes "\<forall>r \<in> set rs1. is_rune r" and "is_rune r" and "k < length r" and "k \<le> 4" and "j \<le> k"
  shows "walk_back (concat rs1 @ take k r) (int (length (concat rs1) + j)) = concat rs1"
  using assms(5)
proof (induction j)
  case 0
  show ?case
  proof (cases rs1 rule: rev_cases)
    case Nil
    then show ?thesis by (subst walk_back.simps) simp
  next
    case (snoc qs q)
    with assms(1) have q: "is_rune q" by simp
    then have "fst (decode_last_rune (concat qs @ q))" by (rule decode_last_rune_end)
    moreover have "0 < length q" using is_rune_ne [OF q] by simp
    then have "0 < int (length (concat qs)) + int (length q)" by linarith
    ultimately show ?thesis using snoc 0 assms(3,4) by (subst walk_back.simps) simp
  qed
next
  case (Suc j)
  have "\<not> fst (decode_last_rune (concat rs1 @ take (Suc j) r))"
    using decode_last_cut [OF assms(2), of "Suc j" "concat rs1"] Suc.prems assms(3) by simp
  moreover have "take (nat (int (length (concat rs1) + Suc j))) (concat rs1 @ take k r) = concat rs1 @ take (Suc j) r"
    using Suc.prems by (simp add: min_def nat_add_distrib)
  moreover have "int (length (concat rs1 @ take k r)) - int (length (concat rs1) + Suc j) \<le> 4"
    using assms(3,4) by simp
  moreover have "int (length (concat rs1) + Suc j) - 1 = int (length (concat rs1) + j)"
    and "0 < int (length (concat rs1) + Suc j)" by simp_all
  ultimately have "walk_back (concat rs1 @ take k r) (int (length (concat rs1) + Suc j))
      = walk_back (concat rs1 @ take k r) (int (length (concat rs1) + j))"
    by (subst walk_back.simps) (simp only: if_True if_False simp_thms)
  with Suc show ?case by simp
qed

lemma is_rune_length: "is_rune r \<Longrightarrow> length r \<le> 4"
  using rune_first_lead by (elim is_rune_cases) auto

section \<open>Properties\<close>

text \<open>Truncating valid UTF-8 text to a positive number of bytes yields a prefix of it, no
  longer than asked for, that is valid UTF-8 again and gives up at most three of the bytes
  that would have fitted.\<close>

theorem truncate_at_rune_valid:
  assumes "valid_utf8 b" and "0 < maxLen"
  shows "valid_utf8 (truncate_bytes_at_rune b maxLen)
    \<and> prefix (truncate_bytes_at_rune b maxLen) b
    \<and> int (length (truncate_bytes_at_rune b maxLen)) \<le> maxLen
    \<and> min maxLen (int (length b)) \<le> int (length (truncate_bytes_at_rune b maxLen)) + 3"
proof (cases "int (length b) \<le> maxLen")
  case True
  with assms show ?thesis by (simp add: truncate_bytes_at_rune_def)
next
  case False
  from assms(1) obtain rs where rs: "b = concat rs" "\<forall>r \<in> set rs. is_rune r" by (auto simp: valid_utf8_def)
  let ?m = "nat maxLen"
  from False rs(1) assms(2) have "?m < length (concat rs)" by (simp add: nat_less_iff)
  with take_concat_runes [of rs ?m] rs is_rune_ne obtain rs1 r rs2 k where
    split: "rs = rs1 @ r # rs2" "k < length r" "take ?m (concat rs) = concat rs1 @ take k r" by blast
  with rs have rune: "is_rune r" "\<forall>r \<in> set rs1. is_rune r" by simp_all
  have len: "?m = length (concat rs1) + k"
    using arg_cong [OF split(3), of length] \<open>?m < length (concat rs)\<close> split(2) by simp
  have res: "truncate_bytes_at_rune b maxLen = concat rs1"
  proof (cases "k = 0")
    case True
    with len assms(2) have "rs1 \<noteq> []" by auto
    then obtain qs q where q: "rs1 = qs @ [q]" by (cases rs1 rule: rev_cases) auto
    with rune have "fst (decode_last_rune (concat qs @ q))" by (intro decode_last_rune_end) simp
    with True False assms(2) split(3) rs(1) q show ?thesis
      by (simp add: truncate_bytes_at_rune_def Let_def)
  next
    case k: False
    have "\<not> fst (decode_last_rune (concat rs1 @ take k r))"
      using decode_last_cut [OF rune(1) _ split(2)] k by simp
    moreover have "int (length (concat rs1 @ take k r)) - 1 = int (length (concat rs1) + (k - 1))"
      using k split(2) by simp
    moreover have "walk_back (concat rs1 @ take k r) (int (length (concat rs1) + (k - 1))) = concat rs1"
      using is_rune_length [OF rune(1)] split(2) by (intro walk_back_runes [OF rune(2,1) split(2)]) simp_all
    ultimately show ?thesis
      using False assms(2) split(3) rs(1) by (simp add: truncate_bytes_at_rune_def Let_def)
  qed
  have "valid_utf8 (concat rs1)" using rune(2) by (auto simp: valid_utf8_def)
  moreover have "prefix (concat rs1) b" using rs(1) split(1) by simp
  moreover have "k \<le> 3" using split(2) is_rune_length [OF rune(1)] by simp
  moreover have "maxLen = int (length (concat rs1)) + int k" using len assms(2) by simp
  ultimately show ?thesis unfolding res using False by simp
qed

theorem truncate_at_rune_witness:
  "valid_utf8 (truncate_bytes_at_rune [CHR ''a'', CHR 0xE2, CHR 0x82, CHR 0xAC] 3)"
proof -
  have "[CHR ''a'', CHR 0xE2, CHR 0x82, CHR 0xAC] = concat [[CHR ''a''], [CHR 0xE2, CHR 0x82, CHR 0xAC]]" by simp
  moreover have "is_rune [CHR ''a'']" "is_rune [CHR 0xE2, CHR 0x82, CHR 0xAC]"
    by (simp_all add: is_rune_def decode_rune_def rune_first_def continuation_def)
  ultimately have "valid_utf8 [CHR ''a'', CHR 0xE2, CHR 0x82, CHR 0xAC]"
    unfolding valid_utf8_def by (intro exI [of _ "[[CHR ''a''], [CHR 0xE2, CHR 0x82, CHR 0xAC]]"]) simp
  from truncate_at_rune_valid [OF this, of 3] show ?thesis by simp
qed

end
