(* ===== verification/Fallback.thy ===== *)
theory Fallback
  imports Core_Store Utf8
begin

text \<open>
  \<open>internal/core/fallback.go\<close> and \<open>internal/core/path.go\<close>: the choice of the retrieval level,
  the containment test on paths, and the fallback that reads source files. The file system
  is a record: the directory tree under the project root, and the results of
  \<open>filepath.EvalSymlinks\<close> and \<open>os.ReadFile\<close>. Paths are rooted Unix paths, as the containment
  test requires; \<open>strings.ToLower\<close> folds ASCII letters.
\<close>

section \<open>Levels\<close>

datatype fallback_level = LevelHybrid | LevelMixed | LevelKeyword | LevelFilesystem

fun level_string :: "fallback_level \<Rightarrow> string" where
  "level_string LevelHybrid = ''hybrid_l0''"
| "level_string LevelMixed = ''mixed_l0.5''"
| "level_string LevelKeyword = ''keyword_l2''"
| "level_string LevelFilesystem = ''filesystem_l3''"

definition determine_level :: "metadata_store \<Rightarrow> fallback_level" where
  "determine_level store =
     (case ms_GetIndexStats store of
        Inl _ \<Rightarrow> LevelFilesystem
      | Inr stats \<Rightarrow> if st_TotalChunks stats = 0 then LevelFilesystem else LevelKeyword)"

definition determine_level_full :: "metadata_store \<Rightarrow> int \<Rightarrow> bool \<Rightarrow> fallback_level" where
  "determine_level_full store vectorCount embeddingReady =
     (case ms_GetIndexStats store of
        Inl _ \<Rightarrow> LevelFilesystem
      | Inr stats \<Rightarrow>
          if st_TotalChunks stats = 0 then LevelFilesystem
          else if \<not> embeddingReady \<or> vectorCount = 0 then LevelKeyword
          else
            let readiness = real_of_int vectorCount / real_of_int (st_TotalChunks stats) in
            if readiness \<ge> 8 / 10 then LevelHybrid
            else if readiness \<ge> 2 / 10 then LevelMixed
            else LevelKeyword)"

section \<open>Paths\<close>

definition slash :: char where "slash = CHR ''/''"

text \<open>\<open>filepath.Clean\<close> of a rooted path, as its components; the accumulator is reversed.\<close>

fun clean_components :: "string list \<Rightarrow> string list \<Rightarrow> string list" where
  "clean_components acc [] = rev acc"
| "clean_components acc (c # cs) =
     (if c = [] \<or> c = ''.'' then clean_components acc cs
      else if c = ''..'' then clean_components (tl acc) cs
      else clean_components (c # acc) cs)"

definition components :: "string \<Rightarrow> string list" where
  "components p = clean_components [] (split_on slash p)"

fun rel_components :: "string list \<Rightarrow> string list \<Rightarrow> string list" where
  "rel_components (b # bs) (t # ts) =
     (if b = t then rel_components bs ts else replicate (length (b # bs)) ''..'' @ t # ts)"
| "rel_components bs ts = replicate (length bs) ''..'' @ ts"

text \<open>\<open>filepath.Rel\<close> on two rooted paths, which never fails.\<close>

definition filepath_rel :: "string \<Rightarrow> string \<Rightarrow> string" where
  "filepath_rel base targ =
     (case rel_components (components base) (components targ) of
        [] \<Rightarrow> ''.''
      | cs \<Rightarrow> join_with [slash] cs)"

definition to_lower_char :: "char \<Rightarrow> char" where
  "to_lower_char c = (if 65 \<le> (of_char c :: nat) \<and> (of_char c :: nat) \<le> 90 then char_of (of_char c + 32 :: nat) else c)"

definition to_lower :: "string \<Rightarrow> string" where
  "to_lower s = map to_lower_char s"

text \<open>\<open>caseSensitive\<close> is \<open>caseSensitiveFS()\<close>, false on darwin and windows.\<close>

definition path_contains :: "bool \<Rightarrow> string \<Rightarrow> string \<Rightarrow> bool" where
  "path_contains caseSensitive absRoot absPath =
     (let root = (if \<not> caseSensitive then to_lower absRoot else absRoot);
          path = (if \<not> caseSensitive then to_lower absPath else absPath);
          rel = filepath_rel root path
      in if rel = ''..'' \<or> prefix (''..'' @ [slash]) rel then False else True)"

text \<open>\<open>filepath.Ext\<close>: from the last dot of the last path element.\<close>

definition filepath_ext :: "string \<Rightarrow> string" where
  "filepath_ext path =
     (let revExt = takeWhile (\<lambda>c. c \<noteq> CHR ''.'' \<and> c \<noteq> slash) (rev path) in
      case drop (length revExt) (rev path) of
        c # _ \<Rightarrow> if c = CHR ''.'' then c # rev revExt else []
      | [] \<Rightarrow> [])"

section \<open>The file system fallback\<close>

text \<open>A directory tree as \<open>filepath.WalkDir\<close> visits it; an entry that cannot be read is
  reported to the callback as an error, which skips it.\<close>

datatype fs_entry = FsFile string | FsDir string "fs_entry list" | FsError string

record filesystem =
  fs_root :: fs_entry
  fs_EvalSymlinks :: "string \<Rightarrow> string res"
  fs_ReadFile :: "string \<Rightarrow> string res"
  fs_caseSensitive :: bool

definition skipped_dir :: "string \<Rightarrow> bool" where
  "skipped_dir name \<longleftrightarrow> name \<in> {''node_modules'', ''.git'', ''dist'', ''build'', ''vendor''}"

definition source_ext :: "string \<Rightarrow> bool" where
  "source_ext ext \<longleftrightarrow> ext \<in> {''.ts'', ''.tsx'', ''.py'', ''.go'', ''.rs'', ''.java'', ''.sh'', ''.bash'',
     ''.js'', ''.jsx'', ''.mjs'', ''.cjs'', ''.rb'', ''.rake'', ''.gemspec'', ''.erb''}"

fun entry_name :: "fs_entry \<Rightarrow> string" where
  "entry_name (FsFile n) = n"
| "entry_name (FsDir n es) = n"
| "entry_name (FsError n) = n"

definition accept_source :: "filesystem \<Rightarrow> string \<Rightarrow> string \<Rightarrow> string \<Rightarrow> bool" where
  "accept_source fs absRoot path name \<longleftrightarrow>
     source_ext (to_lower (filepath_ext name)) \<and>
     (case fs_EvalSymlinks fs path of
        Inl _ \<Rightarrow> False
      | Inr absPath \<Rightarrow> path_contains (fs_caseSensitive fs) absRoot absPath)"

fun walk_sources :: "filesystem \<Rightarrow> string \<Rightarrow> string \<Rightarrow> fs_entry \<Rightarrow> string list" where
  "walk_sources fs absRoot path (FsError n) = []"
| "walk_sources fs absRoot path (FsDir n es) =
     (if skipped_dir n then []
      else concat (map (\<lambda>e. walk_sources fs absRoot (path @ [slash] @ entry_name e) e) es))"
| "walk_sources fs absRoot path (FsFile n) = (if accept_source fs absRoot path n then [path] else [])"

definition fallback_chunk :: "string \<Rightarrow> string \<Rightarrow> int \<Rightarrow> scored_result" where
  "fallback_chunk relPath content tokenCount =
     \<lparr>sr_ChunkID = 0, sr_FileID = 0, sr_Score = 1 / 10, sr_Path = relPath, sr_SymbolName = [],
      sr_Kind = ''block'', sr_StartLine = 1,
      sr_EndLine = int (count_list content (char_of (10 :: nat))) + 1,
      sr_Content = content, sr_TokenCount = tokenCount\<rparr>"

text \<open>The loop over the files; \<open>ctxDone n\<close> tells whether the context is cancelled when the
  loop comes to the file number \<open>n\<close>.\<close>

fun fallback_loop ::
  "filesystem \<Rightarrow> string \<Rightarrow> (nat \<Rightarrow> bool) \<Rightarrow> nat \<Rightarrow> int \<Rightarrow> string list \<Rightarrow> scored_result list" where
  "fallback_loop fs projectRoot ctxDone n remaining [] = []"
| "fallback_loop fs projectRoot ctxDone n remaining (path # paths) =
     (if remaining \<le> 0 then []
      else if ctxDone n then []
      else (case fs_ReadFile fs path of
              Inl _ \<Rightarrow> fallback_loop fs projectRoot ctxDone (Suc n) remaining paths
            | Inr content \<Rightarrow>
                let relPath = filepath_rel projectRoot path;
                    tokenCount = int (length content) div 4;
                    content' = (if tokenCount > remaining
                                then truncate_bytes_at_rune content (remaining * 4) else content);
                    tokenCount' = (if tokenCount > remaining then remaining else tokenCount)
                in fallback_chunk relPath content' tokenCount'
                     # fallback_loop fs projectRoot ctxDone (Suc n) (remaining - tokenCount') paths))"

definition filesystem_fallback ::
  "filesystem \<Rightarrow> (nat \<Rightarrow> bool) \<Rightarrow> string \<Rightarrow> int \<Rightarrow> context_package res" where
  "filesystem_fallback fs ctxDone projectRoot budget =
     bind_res (wrap_res ''resolve project root'' (fs_EvalSymlinks fs projectRoot))
       (\<lambda>absRoot.
          let srcFiles = walk_sources fs absRoot projectRoot (fs_root fs);
              chunks = fallback_loop fs projectRoot ctxDone 0 budget srcFiles
          in Inr \<lparr>cp_Chunks = chunks, cp_TotalTokens = sum_list (map sr_TokenCount chunks),
                  cp_Strategy = level_string LevelFilesystem, cp_Meta = Map.empty\<rparr>)"

section \<open>Lemmas on paths\<close>

definition plain_component :: "string \<Rightarrow> bool" where
  "plain_component c \<longleftrightarrow> c \<noteq> [] \<and> c \<noteq> ''.'' \<and> c \<noteq> ''..'' \<and> slash \<notin> set c"

lemma clean_components_plain:
  "\<forall>c \<in> set acc. plain_component c \<Longrightarrow> \<forall>c \<in> set cs. slash \<notin> set c \<Longrightarrow>
   \<forall>c \<in> set (clean_components acc cs). plain_component c"
proof (induction acc cs rule: clean_components.induct)
  case (2 acc c cs)
  have tl: "\<forall>x \<in> set (tl acc). plain_component x" using 2(4) by (cases acc) auto
  have rest: "\<forall>x \<in> set cs. slash \<notin> set x" and c: "slash \<notin> set c" using 2(5) by simp_all
  consider "c = [] \<or> c = ''.''" | "\<not> (c = [] \<or> c = ''.'')" "c = ''..''" | "plain_component c"
    using c by (auto simp: plain_component_def)
  then show ?case
  proof cases
    case 1
    with "2.IH"(1) [OF 1 2(4) rest] show ?thesis by simp
  next
    case 2
    with "2.IH"(2) [OF 2 tl rest] show ?thesis by simp
  next
    case 3
    then have "\<not> (c = [] \<or> c = ''.'')" "c \<noteq> ''..''" and "\<forall>x \<in> set (c # acc). plain_component x"
      using 2(4) by (simp_all add: plain_component_def)
    from "2.IH"(3) [OF this rest] this show ?thesis by simp
  qed
qed simp

lemma components_plain: "\<forall>c \<in> set (components p). plain_component c"
  unfolding components_def by (rule clean_components_plain) (auto dest: split_on_no_sep)

lemma rel_components_prefix: "rel_components bs (bs @ ts) = ts"
  by (induction bs) (simp, cases ts, simp_all)

lemma rel_components_up:
  "\<not> prefix bs ts \<Longrightarrow> \<exists>rest. rel_components bs ts = ''..'' # rest"
  by (induction bs ts rule: rel_components.induct) (auto simp: neq_Nil_conv)

lemma join_up: "join_with [slash] (''..'' # rest) = ''..'' \<or> prefix (''..'' @ [slash]) (join_with [slash] (''..'' # rest))"
  by (cases rest) simp_all

lemma join_not_up:
  assumes "plain_component c"
  shows "join_with [slash] (c # cs) \<noteq> ''..'' \<and> \<not> prefix (''..'' @ [slash]) (join_with [slash] (c # cs))"
proof -
  have split: "takeWhile (\<lambda>x. x \<noteq> slash) (join_with [slash] (c # cs)) = c"
  proof -
    have "takeWhile (\<lambda>x. x \<noteq> slash) c = c" and "takeWhile (\<lambda>x. x \<noteq> slash) (c @ slash # s) = c" for s
      using assms by (auto simp: plain_component_def takeWhile_append)
    then show ?thesis by (cases cs) simp_all
  qed
  have c: "c \<noteq> ''..''" using assms by (simp add: plain_component_def)
  have "takeWhile (\<lambda>x. x \<noteq> slash) ''..'' = ''..''" by (simp add: slash_def)
  moreover have "takeWhile (\<lambda>x. x \<noteq> slash) ((''..'' @ [slash]) @ s) = ''..''" for s
    by (simp add: slash_def)
  ultimately show ?thesis using split c by (auto simp: prefix_def)
qed

lemma filepath_rel_outside:
  "(filepath_rel base targ = ''..'' \<or> prefix (''..'' @ [slash]) (filepath_rel base targ))
     \<longleftrightarrow> \<not> prefix (components base) (components targ)"
proof (cases "prefix (components base) (components targ)")
  case True
  then obtain ts where ts: "components targ = components base @ ts" by (auto simp: prefix_def)
  then have rel: "rel_components (components base) (components targ) = ts" by (simp add: rel_components_prefix)
  show ?thesis
  proof (cases ts)
    case Nil
    with True rel show ?thesis by (simp add: filepath_rel_def)
  next
    case (Cons c cs)
    with ts components_plain [of targ] have "plain_component c" by simp
    from join_not_up [OF this, of cs] True rel Cons show ?thesis by (simp add: filepath_rel_def)
  qed
next
  case False
  from rel_components_up [OF this] obtain rest where
    "rel_components (components base) (components targ) = ''..'' # rest" by blast
  with join_up [of rest] False show ?thesis by (simp add: filepath_rel_def)
qed

text \<open>The specification of containment: on components, up to case where the system folds it.\<close>

definition inside :: "bool \<Rightarrow> string \<Rightarrow> string \<Rightarrow> bool" where
  "inside caseSensitive base path \<longleftrightarrow>
     (if caseSensitive then prefix (components base) (components path)
      else prefix (components (to_lower base)) (components (to_lower path)))"

lemma path_contains_inside: "path_contains cs base path = inside cs base path"
  using filepath_rel_outside by (auto simp: path_contains_def inside_def Let_def)


section \<open>Lemmas on the fallback\<close>

text \<open>What the walk may return: files with a source extension, reached without entering a
  skipped directory, that resolve to a path inside the root.\<close>

fun reachable_source :: "string \<Rightarrow> fs_entry \<Rightarrow> string \<Rightarrow> string \<Rightarrow> bool" where
  "reachable_source path (FsError n) p name \<longleftrightarrow> False"
| "reachable_source path (FsFile n) p name \<longleftrightarrow> p = path \<and> name = n"
| "reachable_source path (FsDir n es) p name \<longleftrightarrow>
     \<not> skipped_dir n \<and> (\<exists>e \<in> set es. reachable_source (path @ [slash] @ entry_name e) e p name)"

lemma walk_sources_iff:
  "p \<in> set (walk_sources fs absRoot path e) \<longleftrightarrow>
   (\<exists>name. reachable_source path e p name \<and> accept_source fs absRoot p name)"
proof (induction fs absRoot path e rule: walk_sources.induct)
  case (2 fs absRoot path n es)
  then show ?case by (cases "skipped_dir n") auto
qed auto

lemma walk_back_prefix: "prefix (walk_back h e) h"
proof (induction h e rule: walk_back.induct)
  case (1 h e)
  then show ?case by (subst walk_back.simps) (simp add: take_is_prefix)
qed

lemma truncate_bytes_prefix: "prefix (truncate_bytes_at_rune b n) b"
proof -
  have "prefix (walk_back (take m b) e) b" for m e
    using walk_back_prefix take_is_prefix by (rule prefix_order.trans)
  then show ?thesis by (simp add: truncate_bytes_at_rune_def Let_def take_is_prefix)
qed

text \<open>The chunk made of a file's content with \<open>remaining\<close> tokens left.\<close>

lemma fallback_loop_chunks:
  "c \<in> set (fallback_loop fs base cd n remaining paths) \<Longrightarrow>
   \<exists>p \<in> set paths. \<exists>content. fs_ReadFile fs p = Inr content \<and> sr_Path c = filepath_rel base p
     \<and> 0 \<le> sr_TokenCount c
     \<and> (sr_Content c = content \<and> sr_TokenCount c = int (length content) div 4
        \<or> (\<exists>k. 0 < k \<and> sr_Content c = truncate_bytes_at_rune content (4 * k) \<and> sr_TokenCount c = k
             \<and> k < int (length content) div 4))"
proof (induction fs base cd n remaining paths rule: fallback_loop.induct)
  case (2 fs base cd n remaining path paths)
  show ?case
  proof (cases "remaining \<le> 0 \<or> cd n")
    case True
    with 2(3) show ?thesis by (auto split: if_splits)
  next
    case False
    show ?thesis
    proof (cases "fs_ReadFile fs path")
      case (Inl e)
      with False 2 show ?thesis by auto
    next
      case (Inr content)
      define t where "t = (if int (length content) div 4 > remaining then remaining else int (length content) div 4)"
      define s where "s = (if int (length content) div 4 > remaining
        then truncate_bytes_at_rune content (remaining * 4) else content)"
      have eq: "fallback_loop fs base cd n remaining (path # paths)
          = fallback_chunk (filepath_rel base path) s t # fallback_loop fs base cd (Suc n) (remaining - t) paths"
        using False Inr by (simp add: t_def s_def Let_def)
      with 2(3) consider "c = fallback_chunk (filepath_rel base path) s t"
        | "c \<in> set (fallback_loop fs base cd (Suc n) (remaining - t) paths)" by auto
      then show ?thesis
      proof cases
        case 1
        then show ?thesis using Inr False
          by (intro bexI [of _ path] exI [of _ content]) (auto simp: fallback_chunk_def t_def s_def mult.commute)
      next
        case c2: 2
        from "2.IH"(2) [OF _ _ Inr refl refl refl, of] False c2 show ?thesis by (auto simp: t_def)
      qed
    qed
  qed
qed simp

lemma fallback_loop_total:
  "0 \<le> remaining \<Longrightarrow> sum_list (map sr_TokenCount (fallback_loop fs base cd n remaining paths)) \<le> remaining"
proof (induction fs base cd n remaining paths rule: fallback_loop.induct)
  case (2 fs base cd n remaining path paths)
  show ?case
  proof (cases "fs_ReadFile fs path")
    case (Inl e)
    with 2 show ?thesis by simp
  next
    case (Inr content)
    show ?thesis
      using 2(2) [OF _ _ Inr refl refl refl] 2(3) Inr by (auto simp: fallback_chunk_def Let_def)
  qed
qed simp


definition level_rank :: "fallback_level \<Rightarrow> nat" where
  "level_rank l = (case l of LevelHybrid \<Rightarrow> 3 | LevelMixed \<Rightarrow> 2 | LevelKeyword \<Rightarrow> 1 | LevelFilesystem \<Rightarrow> 0)"

section \<open>Properties\<close>

text \<open>The containment test decides exactly whether the components of the root are the first
  components of the path, after cleaning away empty, dot and dot-dot elements and folding case
  where the file system does; so spelling does not matter, a sibling that shares a name prefix
  is outside, and containment is transitive.\<close>

theorem path_contains_components:
  "(path_contains True base p \<longleftrightarrow> prefix (components base) (components p))
   \<and> path_contains False base p = path_contains True (to_lower base) (to_lower p)
   \<and> (path_contains cs base p \<and> path_contains cs p q \<longrightarrow> path_contains cs base q)
   \<and> (\<forall>c \<in> set (components p). c \<noteq> [] \<and> c \<noteq> ''.'' \<and> c \<noteq> ''..'' \<and> slash \<notin> set c)
   \<and> \<not> path_contains True ''/a/b'' ''/a/bc/x''"
proof -
  have "\<not> prefix (components ''/a/b'') (components ''/a/bc/x'')"
    by (simp add: components_def slash_def)
  then show ?thesis
    using components_plain [of p]
    by (auto simp: path_contains_inside inside_def plain_component_def dest: prefix_order.trans)
qed

theorem path_contains_components_witness:
  "path_contains True ''/a/b/'' ''/a/x/../b/./c'' \<and> components ''/a/x/../b/./c'' = [''a'', ''b'', ''c'']"
proof -
  have "prefix (components ''/a/b/'') (components ''/a/x/../b/./c'')"
    and "components ''/a/x/../b/./c'' = [''a'', ''b'', ''c'']"
    by (simp_all add: components_def slash_def)
  with path_contains_components [of "''/a/b/''" "''/a/x/../b/./c''", THEN conjunct1] show ?thesis by simp
qed

lemma fallback_loop_score: "c \<in> set (fallback_loop fs root0 ctxDone n b ps) \<Longrightarrow> sr_Score c = 1 / 10"
  by (induction fs root0 ctxDone n b ps rule: fallback_loop.induct)
    (auto simp: fallback_chunk_def Let_def split: if_splits sum.splits)

lemma filesystem_fallback_fields:
  assumes "filesystem_fallback fs ctxDone projectRoot budget = Inr pkg" and "0 \<le> budget"
  shows "cp_TotalTokens pkg = sum_list (map sr_TokenCount (cp_Chunks pkg))" "cp_TotalTokens pkg \<le> budget"
    "cp_Strategy pkg = level_string LevelFilesystem" "\<forall>c \<in> set (cp_Chunks pkg). sr_Score c = 1 / 10"
  using assms(1) fallback_loop_total [OF assms(2)] fallback_loop_score
  by (auto simp: filesystem_fallback_def bind_res_Inr_iff Let_def)

text \<open>The file system fallback stays within the token budget and returns only text from
  the start of files that it reached without entering a skipped directory, that have a source
  extension and whose resolved path lies inside the resolved project root; if the root does
  not resolve it fails, whatever the tree holds.\<close>

theorem filesystem_fallback_safe:
  assumes "filesystem_fallback fs ctxDone projectRoot budget = Inr pkg" and "0 \<le> budget"
  shows "cp_TotalTokens pkg = sum_list (map sr_TokenCount (cp_Chunks pkg)) \<and> cp_TotalTokens pkg \<le> budget
    \<and> cp_Strategy pkg = ''filesystem_l3''
    \<and> (\<exists>absRoot. fs_EvalSymlinks fs projectRoot = Inr absRoot
       \<and> (\<forall>c \<in> set (cp_Chunks pkg). \<exists>p name absPath content.
            sr_Path c = filepath_rel projectRoot p
            \<and> reachable_source projectRoot (fs_root fs) p name
            \<and> source_ext (to_lower (filepath_ext name))
            \<and> fs_EvalSymlinks fs p = Inr absPath \<and> inside (fs_caseSensitive fs) absRoot absPath
            \<and> fs_ReadFile fs p = Inr content \<and> prefix (sr_Content c) content))"
proof -
  from assms(1) obtain absRoot where root: "fs_EvalSymlinks fs projectRoot = Inr absRoot"
    and pkg: "pkg = \<lparr>cp_Chunks = fallback_loop fs projectRoot ctxDone 0 budget
                (walk_sources fs absRoot projectRoot (fs_root fs)),
        cp_TotalTokens = sum_list (map sr_TokenCount (fallback_loop fs projectRoot ctxDone 0 budget
                (walk_sources fs absRoot projectRoot (fs_root fs)))),
        cp_Strategy = ''filesystem_l3'', cp_Meta = Map.empty\<rparr>"
    by (auto simp: filesystem_fallback_def bind_res_Inr_iff Let_def)
  have "\<exists>p name absPath content. sr_Path c = filepath_rel projectRoot p
            \<and> reachable_source projectRoot (fs_root fs) p name
            \<and> source_ext (to_lower (filepath_ext name))
            \<and> fs_EvalSymlinks fs p = Inr absPath \<and> inside (fs_caseSensitive fs) absRoot absPath
            \<and> fs_ReadFile fs p = Inr content \<and> prefix (sr_Content c) content"
    if "c \<in> set (cp_Chunks pkg)" for c
  proof -
    from that pkg have "c \<in> set (fallback_loop fs projectRoot ctxDone 0 budget
        (walk_sources fs absRoot projectRoot (fs_root fs)))" by simp
    from fallback_loop_chunks [OF this] obtain p content where
      p: "p \<in> set (walk_sources fs absRoot projectRoot (fs_root fs))" "fs_ReadFile fs p = Inr content"
        "sr_Path c = filepath_rel projectRoot p"
        "sr_Content c = content \<or> (\<exists>k. sr_Content c = truncate_bytes_at_rune content (4 * k))" by blast
    from p(1) obtain name where "reachable_source projectRoot (fs_root fs) p name"
      and acc: "accept_source fs absRoot p name" by (auto simp: walk_sources_iff)
    moreover from acc obtain absPath where "source_ext (to_lower (filepath_ext name))"
      "fs_EvalSymlinks fs p = Inr absPath" "inside (fs_caseSensitive fs) absRoot absPath"
      by (auto simp: accept_source_def path_contains_inside split: sum.splits)
    moreover have "prefix (sr_Content c) content" using p(4) truncate_bytes_prefix by auto
    ultimately show ?thesis using p(2,3) by blast
  qed
  then show ?thesis using root fallback_loop_total [OF assms(2)] by (simp add: pkg)
qed

definition sample_fs :: filesystem where
  "sample_fs = \<lparr>fs_root = FsDir ''p'' [FsDir ''vendor'' [FsFile ''v.go''], FsFile ''a.GO'', FsFile ''b.txt''],
     fs_EvalSymlinks = (\<lambda>p. Inr p), fs_ReadFile = (\<lambda>p. Inr ''package p''), fs_caseSensitive = True\<rparr>"

theorem filesystem_fallback_safe_witness:
  "cp_TotalTokens (case filesystem_fallback sample_fs (\<lambda>_. False) ''/p'' 10 of Inr pkg \<Rightarrow> pkg) \<le> 10"
proof -
  obtain pkg where "filesystem_fallback sample_fs (\<lambda>_. False) ''/p'' 10 = Inr pkg"
    by (simp add: filesystem_fallback_def sample_fs_def Let_def)
  from filesystem_fallback_safe [OF this] this show ?thesis by simp
qed

text \<open>The retrieval level with an embedding service: the file system exactly when the index
  is empty or unreadable; otherwise keyword search unless the service is ready, and then
  hybrid from eighty percent of the chunks embedded, mixed from twenty percent. More vectors
  never lower the level.\<close>

theorem determine_level_full_spec:
  assumes "ms_GetIndexStats store = Inr stats" and "0 \<le> st_TotalChunks stats" and "0 \<le> vc" and "vc \<le> vc'"
  shows "(determine_level_full store vc ready = LevelFilesystem \<longleftrightarrow> st_TotalChunks stats = 0)
    \<and> (determine_level_full store vc ready = LevelHybrid \<longleftrightarrow>
         0 < st_TotalChunks stats \<and> ready \<and> 8 * st_TotalChunks stats \<le> 10 * vc)
    \<and> (determine_level_full store vc ready = LevelMixed \<longleftrightarrow>
         0 < st_TotalChunks stats \<and> ready \<and> 2 * st_TotalChunks stats \<le> 10 * vc \<and> 10 * vc < 8 * st_TotalChunks stats)
    \<and> level_rank (determine_level_full store vc ready) \<le> level_rank (determine_level_full store vc' ready)
    \<and> (determine_level store = LevelFilesystem \<longleftrightarrow> st_TotalChunks stats = 0)"
proof (cases "st_TotalChunks stats = 0")
  case True
  with assms(1) show ?thesis by (simp add: determine_level_full_def determine_level_def level_rank_def)
next
  case False
  with assms(2) have pos: "0 < st_TotalChunks stats" by simp
  have frac: "a / 10 \<le> real_of_int v / real_of_int (st_TotalChunks stats)
      \<longleftrightarrow> a * real_of_int (st_TotalChunks stats) \<le> 10 * real_of_int v" for a v
    using pos by (simp add: field_simps)
  have f8: "8 / 10 \<le> real_of_int v / real_of_int (st_TotalChunks stats) \<longleftrightarrow> 8 * st_TotalChunks stats \<le> 10 * v"
    and f2: "2 / 10 \<le> real_of_int v / real_of_int (st_TotalChunks stats) \<longleftrightarrow> 2 * st_TotalChunks stats \<le> 10 * v" for v
    unfolding frac by linarith+
  have level: "determine_level_full store v ready =
      (if \<not> ready \<or> v = 0 then LevelKeyword else if 8 * st_TotalChunks stats \<le> 10 * v then LevelHybrid
       else if 2 * st_TotalChunks stats \<le> 10 * v then LevelMixed else LevelKeyword)" for v
    using assms(1) pos by (simp only: determine_level_full_def Let_def f8 f2 sum.case) simp
  show ?thesis using assms pos by (auto simp: level determine_level_def level_rank_def)
qed

theorem determine_level_full_witness:
  "determine_level_full (empty_store\<lparr>ms_GetIndexStats := Inr (empty_stats\<lparr>st_TotalChunks := 10\<rparr>)\<rparr>) 8 True = LevelHybrid"
proof -
  let ?s = "empty_stats\<lparr>st_TotalChunks := 10\<rparr>"
  have "ms_GetIndexStats (empty_store\<lparr>ms_GetIndexStats := Inr ?s\<rparr>) = Inr ?s" by simp
  from determine_level_full_spec [OF this, of 8 9 True] show ?thesis by simp
qed

end
