(* ===== verification/Linked_Lru.thy ===== *)
theory Linked_Lru
  imports Prelude "HOL-Library.AList"
begin

text \<open>
  The data structure under \<open>core.SessionStore\<close> and \<open>vector.EmbedCache\<close>: a
  \<open>container/list\<close> of entries in access order (front = least recent) and a Go map from a
  string key to the list element. Elements are pointers, so the model keeps a store of
  entries addressed by element number, the order as a list of element numbers and the map
  as an association list whose length is Go's \<open>len\<close>. \<open>lru_inv\<close> says that the map and
  the list describe the same entries; \<open>lru_contents\<close> is the abstraction to the plain list
  of entries, and the second half of the theory is the interface of an LRU cache as a locale.
\<close>

section \<open>container/list and the index map\<close>

record 'e lru =
  lru_heap :: "nat \<Rightarrow> 'e"
  lru_next :: nat
  lru_order :: "nat list"
  lru_entries :: "(string \<times> nat) list"

definition lru_empty :: "'e \<Rightarrow> 'e lru" where
  "lru_empty e0 = \<lparr>lru_heap = (\<lambda>_. e0), lru_next = 0, lru_order = [], lru_entries = []\<rparr>"

definition lru_find :: "'e lru \<Rightarrow> string \<Rightarrow> nat option" where
  "lru_find l k = map_of (lru_entries l) k"

definition lru_move_to_back :: "nat \<Rightarrow> 'e lru \<Rightarrow> 'e lru" where
  "lru_move_to_back n l = l\<lparr>lru_order := filter (\<lambda>m. m \<noteq> n) (lru_order l) @ [n]\<rparr>"

definition lru_set :: "nat \<Rightarrow> 'e \<Rightarrow> 'e lru \<Rightarrow> 'e lru" where
  "lru_set n e l = l\<lparr>lru_heap := (lru_heap l)(n := e)\<rparr>"

text \<open>\<open>order.Remove(front)\<close> and \<open>delete(entries, key)\<close>.\<close>

definition lru_remove_front :: "('e \<Rightarrow> string) \<Rightarrow> 'e lru \<Rightarrow> 'e lru" where
  "lru_remove_front key l =
     (case lru_order l of
        [] \<Rightarrow> l
      | n # ns \<Rightarrow> l\<lparr>lru_order := ns, lru_entries := AList.delete (key (lru_heap l n)) (lru_entries l)\<rparr>)"

text \<open>\<open>elem := order.PushBack(entry); entries[key] = elem\<close>.\<close>

definition lru_push_back :: "string \<Rightarrow> 'e \<Rightarrow> 'e lru \<Rightarrow> 'e lru" where
  "lru_push_back k e l =
     l\<lparr>lru_heap := (lru_heap l)(lru_next l := e), lru_next := Suc (lru_next l),
       lru_order := lru_order l @ [lru_next l],
       lru_entries := AList.update k (lru_next l) (lru_entries l)\<rparr>"

section \<open>Consistency of list and map\<close>

definition lru_inv :: "('e \<Rightarrow> string) \<Rightarrow> 'e lru \<Rightarrow> bool" where
  "lru_inv key l \<longleftrightarrow>
     distinct (lru_order l) \<and> (\<forall>n \<in> set (lru_order l). n < lru_next l) \<and>
     distinct (map fst (lru_entries l)) \<and>
     (\<forall>k n. map_of (lru_entries l) k = Some n \<longleftrightarrow> n \<in> set (lru_order l) \<and> key (lru_heap l n) = k)"

definition lru_contents :: "'e lru \<Rightarrow> 'e list" where
  "lru_contents l = map (lru_heap l) (lru_order l)"

lemma lru_inv_empty [simp]: "lru_inv key (lru_empty e0)"
  by (simp add: lru_inv_def lru_empty_def)

lemma lru_contents_empty [simp]: "lru_contents (lru_empty e0) = []"
  by (simp add: lru_contents_def lru_empty_def)

lemma lru_inv_map:
  "lru_inv key l \<Longrightarrow>
   map_of (lru_entries l) k = Some n \<longleftrightarrow> n \<in> set (lru_order l) \<and> key (lru_heap l n) = k"
  by (simp only: lru_inv_def)

lemma lru_inv_inj:
  assumes "lru_inv key l" shows "inj_on (\<lambda>n. key (lru_heap l n)) (set (lru_order l))"
proof (rule inj_onI)
  fix x y
  assume "x \<in> set (lru_order l)" "y \<in> set (lru_order l)" "key (lru_heap l x) = key (lru_heap l y)"
  then have "map_of (lru_entries l) (key (lru_heap l x)) = Some x"
    and "map_of (lru_entries l) (key (lru_heap l x)) = Some y"
    using lru_inv_map [OF assms] by simp_all
  then show "x = y" by simp
qed

lemma lru_distinct_keys: "lru_inv key l \<Longrightarrow> distinct (map key (lru_contents l))"
  using lru_inv_inj [of key l] by (simp add: lru_contents_def lru_inv_def distinct_map comp_def)

lemma lru_find_Some:
  "lru_inv key l \<Longrightarrow> lru_find l k = Some n \<Longrightarrow> n \<in> set (lru_order l) \<and> key (lru_heap l n) = k"
  by (auto simp: lru_inv_def lru_find_def)

lemma lru_find_iff:
  assumes "lru_inv key l"
  shows "lru_find l k = None \<longleftrightarrow> k \<notin> key ` set (lru_contents l)"
proof -
  have "lru_find l k \<noteq> None \<longleftrightarrow> (\<exists>n. n \<in> set (lru_order l) \<and> key (lru_heap l n) = k)"
    using assms by (auto simp: lru_inv_def lru_find_def)
  then show ?thesis by (auto simp: lru_contents_def)
qed

lemma lru_find_find:
  assumes inv: "lru_inv key l"
  shows "map_option (lru_heap l) (lru_find l k) = find (\<lambda>e. key e = k) (lru_contents l)"
proof (cases "lru_find l k")
  case None
  with lru_find_iff [OF inv] have "k \<notin> key ` set (lru_contents l)" by blast
  then have "find (\<lambda>e. key e = k) (lru_contents l) = None" by (auto simp: find_None_set)
  with None show ?thesis by simp
next
  case (Some n)
  with lru_find_Some [OF inv] have "lru_heap l n \<in> set (lru_contents l)" "key (lru_heap l n) = k"
    by (auto simp: lru_contents_def)
  with find_key_distinct [OF lru_distinct_keys [OF inv]] Some show ?thesis by fastforce
qed

lemma lru_length_entries:
  assumes "lru_inv key l"
  shows "length (lru_entries l) = length (lru_order l)"
proof -
  have dom: "fst ` set (lru_entries l) = (\<lambda>n. key (lru_heap l n)) ` set (lru_order l)"
    (is "?K = ?f ` _")
  proof -
    have "k \<in> ?K \<longleftrightarrow> (\<exists>n. map_of (lru_entries l) k = Some n)" for k
      using map_of_eq_None_iff [of "lru_entries l" k] by auto
    then have K: "k \<in> ?K \<longleftrightarrow> (\<exists>n. n \<in> set (lru_order l) \<and> ?f n = k)" for k
      unfolding lru_inv_map [OF assms] .
    show ?thesis by (rule set_eqI) (subst K, auto)
  qed
  have "length (lru_entries l) = card ?K"
    using assms distinct_card [of "map fst (lru_entries l)"] by (simp add: lru_inv_def)
  also have "\<dots> = card (set (lru_order l))"
    unfolding dom by (rule card_image [OF lru_inv_inj [OF assms]])
  also have "\<dots> = length (lru_order l)"
    using assms by (simp add: lru_inv_def distinct_card)
  finally show ?thesis .
qed

section \<open>What each operation does to the contents\<close>

lemma lru_inv_move [simp]: "lru_inv key l \<Longrightarrow> n \<in> set (lru_order l) \<Longrightarrow> lru_inv key (lru_move_to_back n l)"
  by (auto simp: lru_inv_def lru_move_to_back_def)

lemma lru_inv_set [simp]:
  "lru_inv key l \<Longrightarrow> key e = key (lru_heap l n) \<Longrightarrow> lru_inv key (lru_set n e l)"
  by (auto simp: lru_inv_def lru_set_def)

lemma lru_find_frame [frame_simps]:
  "lru_find (lru_move_to_back n l) k = lru_find l k"
  "lru_find (lru_set n e l) k = lru_find l k"
  "lru_heap (lru_move_to_back n l) = lru_heap l"
  "lru_order (lru_set n e l) = lru_order l"
  by (simp_all add: lru_find_def lru_move_to_back_def lru_set_def)

lemma lru_touch_contents:
  assumes inv: "lru_inv key l" and n: "n \<in> set (lru_order l)" and e: "key e = key (lru_heap l n)"
  shows "lru_contents (lru_move_to_back n (lru_set n e l))
         = filter (\<lambda>x. key x \<noteq> key e) (lru_contents l) @ [e]"
proof -
  have neq: "m = n" if "m \<in> set (lru_order l)" "key (lru_heap l m) = key (lru_heap l n)" for m
    using that n lru_inv_inj [OF inv] by (auto simp: inj_on_def)
  have "filter (\<lambda>m. m \<noteq> n) (lru_order l) = filter (\<lambda>m. key (lru_heap l m) \<noteq> key e) (lru_order l)"
    using neq e by (intro filter_cong) auto
  moreover have "map ((lru_heap l)(n := e)) ms = map (lru_heap l) ms" if "n \<notin> set ms" for ms
    using that by (intro map_cong) auto
  ultimately show ?thesis
    by (simp add: lru_contents_def lru_move_to_back_def lru_set_def filter_map comp_def e)
qed

lemma lru_inv_remove_front [simp]:
  assumes "lru_inv key l" shows "lru_inv key (lru_remove_front key l)"
proof (cases "lru_order l")
  case Nil
  with assms show ?thesis by (simp add: lru_remove_front_def)
next
  case (Cons n ns)
  have "key (lru_heap l m) \<noteq> key (lru_heap l n)" if "m \<in> set ns" for m
    using that assms lru_inv_inj [OF assms] by (auto simp: Cons inj_on_def lru_inv_def)
  moreover have "distinct (map fst (AList.delete k al))" if "distinct (map fst al)" for k and al :: "(string \<times> nat) list"
    using that by (rule distinct_delete)
  ultimately show ?thesis
    using assms by (auto simp: lru_inv_def lru_remove_front_def Cons delete_conv')
qed

lemma lru_contents_remove_front: "lru_contents (lru_remove_front key l) = tl (lru_contents l)"
  by (cases "lru_order l") (simp_all add: lru_contents_def lru_remove_front_def)

lemma lru_order_remove_front: "lru_order (lru_remove_front key l) = tl (lru_order l)"
  by (cases "lru_order l") (simp_all add: lru_remove_front_def)

lemma lru_inv_push_back:
  assumes "lru_inv key l" and "key e = k" and "lru_find l k = None"
  shows "lru_inv key (lru_push_back k e l)"
proof -
  have "distinct (map fst (AList.update k v al))" if "distinct (map fst al)" for v and al :: "(string \<times> nat) list"
    using that by (rule distinct_update)
  with assms show ?thesis
    by (auto simp: lru_inv_def lru_push_back_def lru_find_def update_conv')
qed

lemma lru_contents_push_back:
  assumes "lru_inv key l"
  shows "lru_contents (lru_push_back k e l) = lru_contents l @ [e]"
proof -
  have "lru_next l \<notin> set (lru_order l)" using assms by (auto simp: lru_inv_def)
  then show ?thesis by (auto simp: lru_contents_def lru_push_back_def)
qed

section \<open>The interface of an LRU cache\<close>

text \<open>
  \<open>touch_keys cap k ks\<close>: the keys, oldest first, after key \<open>k\<close> is used with \<open>cap\<close> slots.
\<close>

definition touch_keys :: "nat \<Rightarrow> string \<Rightarrow> string list \<Rightarrow> string list" where
  "touch_keys cap k ks =
     (if k \<in> set ks then filter (\<lambda>j. j \<noteq> k) ks @ [k] else drop (length ks + 1 - cap) ks @ [k])"

text \<open>The \<open>cap\<close> most recent distinct keys of a history, most recent first.\<close>

definition recent_keys :: "nat \<Rightarrow> string list \<Rightarrow> string list" where
  "recent_keys cap hist = take cap (dedup (rev hist))"

lemma dedup_on_insert: "dedup_on id (insert k seen) xs = filter (\<lambda>x. x \<noteq> k) (dedup_on id seen xs)"
proof (induction xs arbitrary: seen)
  case (Cons x xs)
  have "insert x (insert k seen) = insert k (insert x seen)" by (rule insert_commute)
  then show ?case using Cons.IH by (auto simp del: insert_commute)
qed simp

lemma dedup_Cons: "dedup (x # xs) = x # filter (\<lambda>y. y \<noteq> x) (dedup xs)"
  by (simp add: dedup_on_insert)

lemma take_filter_distinct:
  "distinct ds \<Longrightarrow> k \<in> set (take n ds) \<Longrightarrow>
   filter (\<lambda>x. x \<noteq> k) (take n ds) = take (n - 1) (filter (\<lambda>x. x \<noteq> k) ds)"
proof (induction ds arbitrary: n)
  case (Cons d ds)
  then obtain n' where n: "n = Suc n'" by (cases n) auto
  show ?case
  proof (cases "d = k")
    case True
    with Cons.prems have "k \<notin> set ds" by simp
    then have "filter (\<lambda>x. x \<noteq> k) xs = xs" if "set xs \<subseteq> set ds" for xs
      using that by (intro filter_True) auto
    then show ?thesis using True n by (simp add: set_take_subset)
  next
    case False
    with Cons.prems n have "k \<in> set (take n' ds)" by simp
    moreover from this obtain n'' where "n' = Suc n''" by (cases n') auto
    ultimately show ?thesis using False n Cons by simp
  qed
qed simp

lemma take_filter_notin:
  "k \<notin> set (take n ds) \<Longrightarrow> take (n - 1) (filter (\<lambda>x. x \<noteq> k) ds) = take (n - 1) ds"
proof (induction ds arbitrary: n)
  case (Cons d ds)
  show ?case
  proof (cases n)
    case (Suc n')
    with Cons.prems have d: "d \<noteq> k" and "k \<notin> set (take n' ds)" by auto
    with Cons.IH have "take (n' - 1) (filter (\<lambda>x. x \<noteq> k) ds) = take (n' - 1) ds" by blast
    with d Suc show ?thesis by (cases n') simp_all
  qed simp
qed simp

lemma recent_keys_snoc:
  assumes "0 < cap"
  shows "recent_keys cap (hist @ [k]) = rev (touch_keys cap k (rev (recent_keys cap hist)))"
proof -
  let ?D = "dedup (rev hist)"
  obtain c where c: "cap = Suc c" using assms by (cases cap) auto
  have lhs: "recent_keys cap (hist @ [k]) = k # take c (filter (\<lambda>x. x \<noteq> k) ?D)"
    using dedup_Cons [of k "rev hist"] by (simp add: recent_keys_def c)
  show ?thesis
  proof (cases "k \<in> set (take cap ?D)")
    case True
    then have "filter (\<lambda>x. x \<noteq> k) (take cap ?D) = take c (filter (\<lambda>x. x \<noteq> k) ?D)"
      using take_filter_distinct [of ?D k cap] c by simp
    with True lhs show ?thesis
      by (simp add: touch_keys_def recent_keys_def rev_filter [symmetric])
  next
    case False
    then have "take c (filter (\<lambda>x. x \<noteq> k) ?D) = take c ?D"
      using take_filter_notin [of k cap ?D] c by simp
    moreover have "take c ?D = rev (drop (length (take cap ?D) - c) (rev (take cap ?D)))"
      by (cases "length ?D \<le> c") (simp_all add: rev_drop c min_def)
    ultimately show ?thesis using False lhs
      by (simp add: touch_keys_def recent_keys_def c)
  qed
qed

locale lru_cache =
  fixes key_of :: "'e \<Rightarrow> string"
    and arg_key :: "'x \<Rightarrow> string"
    and contents :: "'s \<Rightarrow> 'e list"
    and capacity :: "'s \<Rightarrow> nat"
    and inv :: "'s \<Rightarrow> bool"
    and touch :: "'x \<Rightarrow> 's \<Rightarrow> 's"
  assumes inv_touch: "inv s \<Longrightarrow> inv (touch x s)"
    and capacity_touch: "capacity (touch x s) = capacity s"
    and capacity_pos: "inv s \<Longrightarrow> 0 < capacity s"
    and contents_touch: "inv s \<Longrightarrow>
      map key_of (contents (touch x s)) = touch_keys (capacity s) (arg_key x) (map key_of (contents s))"
begin

lemma inv_run: "inv s \<Longrightarrow> inv (fold touch xs s)"
  by (induction xs arbitrary: s) (simp_all add: inv_touch)

lemma capacity_run: "capacity (fold touch xs s) = capacity s"
  by (induction xs arbitrary: s) (simp_all add: capacity_touch)

lemma run_recent:
  assumes "inv s" and "contents s = []"
  shows "map key_of (contents (fold touch xs s)) = rev (recent_keys (capacity s) (map arg_key xs))"
proof (induction xs rule: rev_induct)
  case Nil
  with assms show ?case by (simp add: recent_keys_def)
next
  case (snoc x xs)
  from assms(1) have "inv (fold touch xs s)" by (rule inv_run)
  then show ?case
    using snoc.IH recent_keys_snoc [OF capacity_pos [OF assms(1)]]
    by (simp add: contents_touch capacity_run)
qed

lemma run_bounded:
  assumes "inv s" and "contents s = []"
  shows "length (contents (fold touch xs s)) \<le> capacity s"
proof -
  have "length (contents (fold touch xs s)) = length (recent_keys (capacity s) (map arg_key xs))"
    using arg_cong [OF run_recent [OF assms], of length] by simp
  then show ?thesis by (simp add: recent_keys_def)
qed

lemma touched_present: "inv s \<Longrightarrow> arg_key x \<in> key_of ` set (contents (touch x s))"
  using contents_touch [of s x] by (simp add: touch_keys_def flip: set_map)

end

end
