(* ===== verification/Session.thy ===== *)
theory Session
  imports Linked_Lru Circuit_Breaker
begin

text \<open>
  \<open>internal/core/session.go\<close>: the store of recently returned code locations. A method that
  writes holds the mutex for its whole body, so each is one function on the store; a reading
  of the clock is the argument \<open>now\<close> (nanoseconds), and the loop body that
  \<open>RecordAccess\<close>, \<open>RecordBatch\<close> and \<open>RecordAndDecay\<close> share is \<open>record_hit\<close>. The store is an
  instance of the \<open>lru_cache\<close> interface.
\<close>

record session_hit =
  sh_FilePath :: string
  sh_StartLine :: int

record session_entry =
  se_key :: string
  se_accessCount :: int
  se_lastAccessed :: int
  se_lastGeneration :: int

record session_store =
  ss_lru :: "session_entry lru"
  ss_maxSize :: int
  ss_generation :: int

definition zero_session_entry :: session_entry where
  "zero_session_entry =
     \<lparr>se_key = [], se_accessCount = 0, se_lastAccessed = 0, se_lastGeneration = 0\<rparr>"

definition new_session_store :: "int \<Rightarrow> session_store" where
  "new_session_store maxSize =
     \<lparr>ss_lru = lru_empty zero_session_entry,
      ss_maxSize = (if maxSize \<le> 0 then 2000 else maxSize), ss_generation = 0\<rparr>"

definition session_key :: "string \<Rightarrow> int \<Rightarrow> string" where
  "session_key filePath startLine = filePath @ '':'' @ dec_int startLine"

text \<open>\<open>evictIfNeeded\<close>: the loop removes the front until there is room.\<close>

function evict_if_needed :: "int \<Rightarrow> session_entry lru \<Rightarrow> session_entry lru" where
  "evict_if_needed maxSize l =
     (if int (length (lru_entries l)) \<ge> maxSize
      then case lru_order l of
             [] \<Rightarrow> l
           | n # ns \<Rightarrow> evict_if_needed maxSize (lru_remove_front se_key l)
      else l)"
  by pat_completeness auto
termination
  by (relation "measure (\<lambda>(m, l). length (lru_order l))") (auto simp: lru_order_remove_front)

declare evict_if_needed.simps [simp del]

definition record_hit :: "int \<Rightarrow> int \<Rightarrow> string \<Rightarrow> session_store \<Rightarrow> session_store" where
  "record_hit now gen key s =
     (case lru_find (ss_lru s) key of
        Some n \<Rightarrow>
          let e = lru_heap (ss_lru s) n;
              e' = e\<lparr>se_accessCount := se_accessCount e + 1, se_lastAccessed := now,
                     se_lastGeneration := gen\<rparr>
          in s\<lparr>ss_lru := lru_move_to_back n (lru_set n e' (ss_lru s))\<rparr>
      | None \<Rightarrow>
          s\<lparr>ss_lru := lru_push_back key
              \<lparr>se_key = key, se_accessCount = 1, se_lastAccessed = now, se_lastGeneration = gen\<rparr>
              (evict_if_needed (ss_maxSize s) (ss_lru s))\<rparr>)"

definition hit_key :: "session_hit \<Rightarrow> string" where
  "hit_key h = session_key (sh_FilePath h) (sh_StartLine h)"

definition record_access :: "int \<Rightarrow> string \<Rightarrow> int \<Rightarrow> session_store \<Rightarrow> session_store" where
  "record_access now filePath startLine s =
     record_hit now (ss_generation s) (session_key filePath startLine) s"

definition record_and_decay :: "int \<Rightarrow> session_hit list \<Rightarrow> session_store \<Rightarrow> session_store" where
  "record_and_decay now hits s =
     (let gen = ss_generation s + 1 in
      fold (\<lambda>h. record_hit now gen (hit_key h)) hits (s\<lparr>ss_generation := gen\<rparr>))"

definition record_batch :: "int \<Rightarrow> session_hit list \<Rightarrow> session_store \<Rightarrow> session_store" where
  "record_batch now hits s =
     (let gen = ss_generation s in fold (\<lambda>h. record_hit now gen (hit_key h)) hits s)"

definition decay_hit :: "int \<Rightarrow> string \<Rightarrow> session_store \<Rightarrow> session_store" where
  "decay_hit gen key s =
     (case lru_find (ss_lru s) key of
        Some n \<Rightarrow> s\<lparr>ss_lru := lru_set n ((lru_heap (ss_lru s) n)\<lparr>se_lastGeneration := gen\<rparr>) (ss_lru s)\<rparr>
      | None \<Rightarrow> s)"

definition decay_all_except :: "session_hit list \<Rightarrow> session_store \<Rightarrow> session_store" where
  "decay_all_except hits s =
     (let gen = ss_generation s + 1 in
      fold (\<lambda>h. decay_hit gen (hit_key h)) hits (s\<lparr>ss_generation := gen\<rparr>))"

definition entry_score :: "int \<Rightarrow> int \<Rightarrow> session_entry \<Rightarrow> real" where
  "entry_score now currentGen e =
     (let queriesSince = currentGen - se_lastGeneration e;
          minutesAgo = real_of_int (now - se_lastAccessed e) / real_of_int minute;
          recency = exp (- 0.07 * minutesAgo);
          frequency = min (log 2 (real_of_int (se_accessCount e) + 1) / 4) 1;
          decay = exp (- 0.1 * real_of_int queriesSince)
      in recency * frequency * decay)"

definition session_score :: "int \<Rightarrow> string \<Rightarrow> int \<Rightarrow> session_store \<Rightarrow> real" where
  "session_score now filePath startLine s =
     (case lru_find (ss_lru s) (session_key filePath startLine) of
        None \<Rightarrow> 0
      | Some n \<Rightarrow> entry_score now (ss_generation s) (lru_heap (ss_lru s) n))"

definition session_len :: "session_store \<Rightarrow> int" where
  "session_len s = int (length (lru_entries (ss_lru s)))"

section \<open>Invariant\<close>

abbreviation ss_contents :: "session_store \<Rightarrow> session_entry list" where
  "ss_contents s \<equiv> lru_contents (ss_lru s)"

text \<open>What the store keeps: a consistent list and map, room for an entry, and entries that
  were accessed, no later than \<open>now\<close> and in no later generation than the current one.\<close>

definition entry_ok :: "int \<Rightarrow> int \<Rightarrow> session_entry \<Rightarrow> bool" where
  "entry_ok now gen e \<longleftrightarrow>
     1 \<le> se_accessCount e \<and> se_lastAccessed e \<le> now \<and> se_lastGeneration e \<le> gen"

definition session_inv :: "session_store \<Rightarrow> bool" where
  "session_inv s \<longleftrightarrow> lru_inv se_key (ss_lru s) \<and> 0 < ss_maxSize s
     \<and> int (length (ss_contents s)) \<le> ss_maxSize s"

lemma evict_contents:
  assumes "lru_inv se_key l" and "0 < m"
  shows "lru_inv se_key (evict_if_needed m l)
    \<and> lru_contents (evict_if_needed m l) = drop (length (lru_contents l) + 1 - nat m) (lru_contents l)"
  using assms
proof (induction m l rule: evict_if_needed.induct)
  case (1 m l)
  have len: "length (lru_entries l) = length (lru_contents l)"
    using lru_length_entries [OF "1.prems"(1)] by (simp add: lru_contents_def)
  show ?case
  proof (cases "int (length (lru_entries l)) \<ge> m")
    case True
    show ?thesis
    proof (cases "lru_order l")
      case Nil
      with "1.prems" show ?thesis
        by (subst (1 2) evict_if_needed.simps) (simp add: lru_contents_def)
    next
      case (Cons n ns)
      let ?l' = "lru_remove_front se_key l"
      have IH: "lru_inv se_key (evict_if_needed m ?l')
        \<and> lru_contents (evict_if_needed m ?l')
            = drop (length (lru_contents ?l') + 1 - nat m) (lru_contents ?l')"
        using "1.prems" by (intro "1.IH" [OF True Cons]) simp_all
      have "evict_if_needed m l = evict_if_needed m ?l'"
        using True Cons by (subst evict_if_needed.simps) simp
      moreover obtain c cs where "lru_contents l = c # cs"
        using Cons by (simp add: lru_contents_def)
      ultimately show ?thesis
        using IH True len "1.prems" by (simp add: lru_contents_remove_front Suc_diff_le nat_le_iff)
    qed
  next
    case False
    with len have "length (lru_contents l) + 1 - nat m = 0" by simp
    with False "1.prems" show ?thesis by (subst (1 2) evict_if_needed.simps) simp
  qed
qed

lemma record_hit_fields [simp, frame_simps]:
  "ss_maxSize (record_hit now gen k s) = ss_maxSize s"
  "ss_generation (record_hit now gen k s) = ss_generation s"
  by (simp_all add: record_hit_def Let_def split: option.splits)

text \<open>The two branches of \<open>record_hit\<close> on the list of entries.\<close>

lemma record_hit_found:
  assumes inv: "session_inv s" and k: "k \<in> se_key ` set (ss_contents s)"
  obtains e where "find (\<lambda>e. se_key e = k) (ss_contents s) = Some e" and "se_key e = k"
    and "e \<in> set (ss_contents s)"
    and "lru_inv se_key (ss_lru (record_hit now gen k s))"
    and "ss_contents (record_hit now gen k s) = filter (\<lambda>x. se_key x \<noteq> k) (ss_contents s)
      @ [e\<lparr>se_accessCount := se_accessCount e + 1, se_lastAccessed := now, se_lastGeneration := gen\<rparr>]"
proof -
  from inv have l: "lru_inv se_key (ss_lru s)" by (simp add: session_inv_def)
  from lru_find_iff [OF l] k obtain n where n: "lru_find (ss_lru s) k = Some n" by blast
  let ?e = "lru_heap (ss_lru s) n"
  let ?e' = "?e\<lparr>se_accessCount := se_accessCount ?e + 1, se_lastAccessed := now, se_lastGeneration := gen\<rparr>"
  from lru_find_Some [OF l n] have no: "n \<in> set (lru_order (ss_lru s))" and key: "se_key ?e = k"
    by simp_all
  from no have "?e \<in> set (ss_contents s)" by (simp add: lru_contents_def)
  moreover have "find (\<lambda>e. se_key e = k) (ss_contents s) = Some ?e"
    using lru_find_find [OF l, of k] n by simp
  moreover have "record_hit now gen k s = s\<lparr>ss_lru := lru_move_to_back n (lru_set n ?e' (ss_lru s))\<rparr>"
    using n by (simp add: record_hit_def Let_def)
  ultimately show ?thesis
    using that lru_touch_contents [OF l no, of ?e'] l no key by (simp add: frame_simps)
qed

lemma record_hit_new:
  assumes inv: "session_inv s" and k: "k \<notin> se_key ` set (ss_contents s)"
  shows "lru_inv se_key (ss_lru (record_hit now gen k s))"
    and "ss_contents (record_hit now gen k s)
      = drop (length (ss_contents s) + 1 - nat (ss_maxSize s)) (ss_contents s)
        @ [\<lparr>se_key = k, se_accessCount = 1, se_lastAccessed = now, se_lastGeneration = gen\<rparr>]"
proof -
  let ?l = "evict_if_needed (ss_maxSize s) (ss_lru s)"
  from inv have l: "lru_inv se_key (ss_lru s)" and "0 < ss_maxSize s" by (simp_all add: session_inv_def)
  note ev = evict_contents [OF this]
  have none: "lru_find (ss_lru s) k = None" using lru_find_iff [OF l] k by blast
  have "k \<notin> se_key ` set (lru_contents ?l)" using k ev by (auto dest: in_set_dropD)
  with lru_find_iff [of se_key ?l] ev have none': "lru_find ?l k = None" by blast
  from none ev lru_inv_push_back [OF _ _ none'] lru_contents_push_back [of se_key ?l]
  show "lru_inv se_key (ss_lru (record_hit now gen k s))"
    and "ss_contents (record_hit now gen k s)
      = drop (length (ss_contents s) + 1 - nat (ss_maxSize s)) (ss_contents s)
        @ [\<lparr>se_key = k, se_accessCount = 1, se_lastAccessed = now, se_lastGeneration = gen\<rparr>]"
    by (simp_all add: record_hit_def)
qed

lemma record_hit_keys:
  assumes "session_inv s"
  shows "map se_key (ss_contents (record_hit now gen k s))
    = touch_keys (nat (ss_maxSize s)) k (map se_key (ss_contents s))"
proof (cases "k \<in> se_key ` set (ss_contents s)")
  case True
  show ?thesis
    by (rule record_hit_found [OF assms True, of now gen])
      (use True in \<open>simp add: touch_keys_def filter_map comp_def\<close>)
next
  case False
  with record_hit_new(2) [OF assms False] show ?thesis
    by (simp add: touch_keys_def drop_map)
qed

lemma length_touch_keys:
  "0 < cap \<Longrightarrow> length ks \<le> cap \<Longrightarrow> length (touch_keys cap k ks) \<le> cap"
proof (cases "k \<in> set ks")
  case True
  assume "length ks \<le> cap"
  from True have "length (filter (\<lambda>j. j \<noteq> k) ks) < length ks" by (intro length_filter_less [of k]) simp_all
  with True \<open>length ks \<le> cap\<close> show ?thesis by (simp add: touch_keys_def)
qed (simp add: touch_keys_def)

lemma session_inv_record_hit [simp]:
  assumes "session_inv s" shows "session_inv (record_hit now gen k s)"
proof -
  have "lru_inv se_key (ss_lru (record_hit now gen k s))"
    by (cases "k \<in> se_key ` set (ss_contents s)")
      (use assms in \<open>auto intro: record_hit_new(1) elim: record_hit_found [of s k now gen]\<close>)
  moreover have "length (ss_contents (record_hit now gen k s)) \<le> nat (ss_maxSize s)"
    using arg_cong [OF record_hit_keys [OF assms], of length now gen k] assms
      length_touch_keys [of "nat (ss_maxSize s)" "map se_key (ss_contents s)" k]
    by (simp add: session_inv_def le_nat_iff)
  ultimately show ?thesis using assms by (simp add: session_inv_def le_nat_iff)
qed

lemma session_inv_new [simp]: "session_inv (new_session_store m)"
  by (simp add: session_inv_def new_session_store_def)


text \<open>One hit as a function on the list of entries, least recently used first.\<close>

definition hit_contents :: "nat \<Rightarrow> int \<Rightarrow> int \<Rightarrow> string \<Rightarrow> session_entry list \<Rightarrow> session_entry list" where
  "hit_contents cap now gen k es =
     (case find (\<lambda>e. se_key e = k) es of
        Some e \<Rightarrow> filter (\<lambda>x. se_key x \<noteq> k) es
          @ [e\<lparr>se_accessCount := se_accessCount e + 1, se_lastAccessed := now, se_lastGeneration := gen\<rparr>]
      | None \<Rightarrow> drop (length es + 1 - cap) es
          @ [\<lparr>se_key = k, se_accessCount = 1, se_lastAccessed = now, se_lastGeneration = gen\<rparr>])"

lemma record_hit_contents:
  assumes "session_inv s"
  shows "ss_contents (record_hit now gen k s)
    = hit_contents (nat (ss_maxSize s)) now gen k (ss_contents s)"
proof (cases "k \<in> se_key ` set (ss_contents s)")
  case True
  show ?thesis
    by (rule record_hit_found [OF assms True, of now gen]) (simp add: hit_contents_def)
next
  case False
  then have "find (\<lambda>e. se_key e = k) (ss_contents s) = None" by (auto simp: find_None_set)
  with record_hit_new(2) [OF assms False] show ?thesis by (simp add: hit_contents_def)
qed

definition regen :: "string set \<Rightarrow> int \<Rightarrow> session_entry list \<Rightarrow> session_entry list" where
  "regen K g es = map (\<lambda>e. if se_key e \<in> K then e\<lparr>se_lastGeneration := g\<rparr> else e) es"

lemma se_key_regen [simp]: "map se_key (regen K g es) = map se_key es"
  by (simp add: regen_def)

lemma regen_regen: "regen K g (regen K' g es) = regen (K \<union> K') g es"
  by (simp add: regen_def)

lemma decay_hit_fields [simp, frame_simps]:
  "ss_maxSize (decay_hit gen k s) = ss_maxSize s"
  "ss_generation (decay_hit gen k s) = ss_generation s"
  by (simp_all add: decay_hit_def split: option.splits)

lemma decay_hit_contents:
  assumes "session_inv s"
  shows "session_inv (decay_hit gen k s) \<and> ss_contents (decay_hit gen k s) = regen {k} gen (ss_contents s)"
proof -
  from assms have l: "lru_inv se_key (ss_lru s)" by (simp add: session_inv_def)
  show ?thesis
  proof (cases "lru_find (ss_lru s) k")
    case None
    with lru_find_iff [OF l] have "k \<notin> se_key ` set (ss_contents s)" by blast
    then have "regen {k} gen (ss_contents s) = ss_contents s"
      unfolding regen_def by (intro map_idI) auto
    with None assms show ?thesis by (simp add: decay_hit_def)
  next
    case (Some n)
    let ?h = "lru_heap (ss_lru s)"
    from lru_find_Some [OF l Some] have n: "n \<in> set (lru_order (ss_lru s))" and k: "se_key (?h n) = k"
      by simp_all
    have "(m = n) = (se_key (?h m) = k)" if "m \<in> set (lru_order (ss_lru s))" for m
      using that n k lru_inv_inj [OF l] by (auto simp: inj_on_def)
    then have "ss_contents (decay_hit gen k s) = regen {k} gen (ss_contents s)"
      using Some by (auto simp: decay_hit_def lru_contents_def lru_set_def regen_def)
    moreover from this have "length (ss_contents (decay_hit gen k s)) = length (ss_contents s)"
      by (simp add: regen_def)
    ultimately show ?thesis
      using assms Some by (simp add: session_inv_def decay_hit_def)
  qed
qed

section \<open>Whole operations\<close>

lemma record_hits_run:
  assumes "session_inv s"
  shows "session_inv (fold (\<lambda>h. record_hit now gen (hit_key h)) hs s)
    \<and> ss_contents (fold (\<lambda>h. record_hit now gen (hit_key h)) hs s)
        = fold (\<lambda>h. hit_contents (nat (ss_maxSize s)) now gen (hit_key h)) hs (ss_contents s)
    \<and> ss_maxSize (fold (\<lambda>h. record_hit now gen (hit_key h)) hs s) = ss_maxSize s
    \<and> ss_generation (fold (\<lambda>h. record_hit now gen (hit_key h)) hs s) = ss_generation s"
  using assms by (induction hs arbitrary: s) (simp_all add: record_hit_contents)

lemma decay_hits_run:
  assumes "session_inv s"
  shows "session_inv (fold (\<lambda>h. decay_hit gen (hit_key h)) hs s)
    \<and> ss_contents (fold (\<lambda>h. decay_hit gen (hit_key h)) hs s) = regen (hit_key ` set hs) gen (ss_contents s)
    \<and> ss_maxSize (fold (\<lambda>h. decay_hit gen (hit_key h)) hs s) = ss_maxSize s
    \<and> ss_generation (fold (\<lambda>h. decay_hit gen (hit_key h)) hs s) = ss_generation s"
  using assms
proof (induction hs arbitrary: s)
  case Nil
  then show ?case by (simp add: regen_def)
next
  case (Cons h hs)
  from decay_hit_contents [OF Cons.prems] Cons.IH [of "decay_hit gen (hit_key h) s"]
  show ?case by (simp add: regen_regen)
qed

lemma session_inv_generation [simp]: "session_inv (s\<lparr>ss_generation := g\<rparr>) = session_inv s"
  by (simp add: session_inv_def)

lemma hit_contents_regen:
  "hit_contents cap now g' k (regen K g' es) = regen (insert k K) g' (hit_contents cap now g k es)"
proof -
  let ?u = "\<lambda>K e. if se_key e \<in> K then e\<lparr>se_lastGeneration := g'\<rparr> else e"
  have find: "find (\<lambda>e. se_key e = k) (regen K g' es) = map_option (?u K) (find (\<lambda>e. se_key e = k) es)"
    by (induction es) (auto simp: regen_def)
  have filter: "filter (\<lambda>e. se_key e \<noteq> k) (regen K g' es)
      = regen (insert k K) g' (filter (\<lambda>e. se_key e \<noteq> k) es)"
    by (induction es) (auto simp: regen_def)
  show ?thesis
  proof (cases "find (\<lambda>e. se_key e = k) es")
    case None
    then have "regen K g' es = regen (insert k K) g' es"
      by (auto simp: find_None_set regen_def)
    moreover have "regen J g' (drop n es) = drop n (regen J g' es)" for J n
      by (simp add: regen_def drop_map)
    ultimately show ?thesis using None find by (simp add: hit_contents_def) (simp add: regen_def drop_map)
  next
    case (Some e)
    from find_Some_set [OF Some] have "se_key e = k" by simp
    with Some find filter show ?thesis by (simp add: hit_contents_def) (simp add: regen_def)
  qed
qed

lemma hits_contents_regen:
  "fold (\<lambda>h. hit_contents cap now g' (hit_key h)) hs (regen K g' es)
     = regen (hit_key ` set hs \<union> K) g' (fold (\<lambda>h. hit_contents cap now g (hit_key h)) hs es)"
proof (induction hs arbitrary: K es)
  case (Cons h hs)
  show ?case
    by (simp add: hit_contents_regen [of cap now g' _ K es g] Cons.IH)
qed simp

lemma record_and_decay_contents:
  assumes "session_inv s"
  shows "session_inv (record_and_decay now hits s)
    \<and> ss_contents (record_and_decay now hits s)
        = regen (hit_key ` set hits) (ss_generation s + 1) (ss_contents (record_batch now hits s))
    \<and> ss_generation (record_and_decay now hits s) = ss_generation s + 1
    \<and> ss_maxSize (record_and_decay now hits s) = ss_maxSize s"
proof -
  have "regen {} g es = es" for g es by (simp add: regen_def)
  with hits_contents_regen [where K = "{}"] assms show ?thesis
    using record_hits_run [of "s\<lparr>ss_generation := ss_generation s + 1\<rparr>"] record_hits_run [of s]
    by (simp add: record_and_decay_def record_batch_def Let_def)
qed

lemma decay_all_except_contents:
  assumes "session_inv s"
  shows "session_inv (decay_all_except hits s)
    \<and> ss_contents (decay_all_except hits s) = regen (hit_key ` set hits) (ss_generation s + 1) (ss_contents s)
    \<and> ss_generation (decay_all_except hits s) = ss_generation s + 1
    \<and> ss_maxSize (decay_all_except hits s) = ss_maxSize s"
  using decay_hits_run [of "s\<lparr>ss_generation := ss_generation s + 1\<rparr>"] assms
  by (simp add: decay_all_except_def Let_def)

lemma session_score_contents:
  assumes "session_inv s"
  shows "session_score now p l s =
    (case find (\<lambda>e. se_key e = session_key p l) (ss_contents s) of
       None \<Rightarrow> 0 | Some e \<Rightarrow> entry_score now (ss_generation s) e)"
proof -
  from assms have "lru_inv se_key (ss_lru s)" by (simp add: session_inv_def)
  from lru_find_find [OF this, of "session_key p l"] show ?thesis
    by (auto simp: session_score_def split: option.splits)
qed


lemma session_score_cong:
  "session_inv s \<Longrightarrow> session_inv s' \<Longrightarrow> ss_contents s = ss_contents s' \<Longrightarrow>
   ss_generation s = ss_generation s' \<Longrightarrow> session_score t p l s = session_score t p l s'"
  by (simp add: session_score_contents split: option.split)

section \<open>The store as an LRU cache\<close>

interpretation session: lru_cache se_key "\<lambda>(now, p, l). session_key p l" ss_contents
  "\<lambda>s. nat (ss_maxSize s)" session_inv "\<lambda>(now, p, l). record_access now p l"
  by unfold_locales
    (auto simp: record_access_def record_hit_keys, simp add: session_inv_def)

section \<open>Reachable stores\<close>

datatype session_call =
    CallRecordAccess string int
  | CallRecordBatch "session_hit list"
  | CallRecordAndDecay "session_hit list"
  | CallDecayAllExcept "session_hit list"

fun session_step :: "int \<Rightarrow> session_call \<Rightarrow> session_store \<Rightarrow> session_store" where
  "session_step now (CallRecordAccess p l) s = record_access now p l s"
| "session_step now (CallRecordBatch hs) s = record_batch now hs s"
| "session_step now (CallRecordAndDecay hs) s = record_and_decay now hs s"
| "session_step now (CallDecayAllExcept hs) s = decay_all_except hs s"

text \<open>\<open>session_reach now s\<close>: the store \<open>s\<close> after calls at clock readings that never ran
  backwards, the last of them \<open>now\<close>.\<close>

inductive session_reach :: "int \<Rightarrow> session_store \<Rightarrow> bool" where
  reach_new: "session_reach now (new_session_store maxSize)"
| reach_call: "session_reach before s \<Longrightarrow> before \<le> now \<Longrightarrow> session_reach now (session_step now c s)"

definition session_ok :: "int \<Rightarrow> session_store \<Rightarrow> bool" where
  "session_ok now s \<longleftrightarrow>
     session_inv s \<and> (\<forall>e \<in> set (ss_contents s). entry_ok now (ss_generation s) e)"

lemma hit_contents_ok:
  assumes "\<forall>e \<in> set es. entry_ok now gen e" and "g \<le> gen"
  shows "\<forall>e \<in> set (hit_contents cap now g k es). entry_ok now gen e"
  using assms
  by (auto simp: hit_contents_def entry_ok_def find_None_set dest!: find_Some_set
      dest: in_set_dropD split: option.splits)

lemma hits_contents_ok:
  "\<forall>e \<in> set es. entry_ok now gen e \<Longrightarrow> g \<le> gen \<Longrightarrow>
   \<forall>e \<in> set (fold (\<lambda>h. hit_contents cap now g (hit_key h)) hs es). entry_ok now gen e"
proof (induction hs arbitrary: es)
  case (Cons h hs)
  from Cons.IH [OF hit_contents_ok [OF Cons.prems] Cons.prems(2)] show ?case by simp
qed simp

lemma regen_ok:
  assumes "\<forall>e \<in> set es. entry_ok now gen e"
  shows "\<forall>e \<in> set (regen K (gen + 1) es). entry_ok now (gen + 1) e"
  using assms by (auto simp: regen_def entry_ok_def)

lemma entry_ok_later: "entry_ok t gen e \<Longrightarrow> t \<le> now \<Longrightarrow> entry_ok now gen e"
  by (auto simp: entry_ok_def)

lemma session_ok_later: "session_ok t s \<Longrightarrow> t \<le> now \<Longrightarrow> session_ok now s"
  by (auto simp: session_ok_def intro: entry_ok_later)

lemma record_batch_contents:
  assumes "session_inv s"
  shows "session_inv (record_batch now hits s)
    \<and> ss_contents (record_batch now hits s)
        = fold (\<lambda>h. hit_contents (nat (ss_maxSize s)) now (ss_generation s) (hit_key h)) hits (ss_contents s)
    \<and> ss_generation (record_batch now hits s) = ss_generation s
    \<and> ss_maxSize (record_batch now hits s) = ss_maxSize s"
  using record_hits_run [OF assms] by (simp add: record_batch_def Let_def)

lemma session_ok_batch: "session_ok now s \<Longrightarrow> session_ok now (record_batch now hits s)"
  using record_batch_contents [of s now hits]
    hits_contents_ok [of "ss_contents s" now "ss_generation s" "ss_generation s"]
  by (simp add: session_ok_def)

lemma session_ok_step:
  assumes ok: "session_ok now s" shows "session_ok now (session_step now c s)"
proof (cases c)
  case (CallRecordAccess p l)
  have "record_access now p l s = record_batch now [\<lparr>sh_FilePath = p, sh_StartLine = l\<rparr>] s"
    by (simp add: record_access_def record_batch_def hit_key_def)
  with session_ok_batch [OF ok] CallRecordAccess show ?thesis by simp
next
  case (CallRecordBatch hs)
  with session_ok_batch [OF ok] show ?thesis by simp
next
  case (CallRecordAndDecay hs)
  from ok have "session_inv s" by (simp add: session_ok_def)
  note c = record_and_decay_contents [OF this, of now hs] record_batch_contents [OF this, of now hs]
  have "\<forall>e \<in> set (ss_contents (record_batch now hs s)). entry_ok now (ss_generation s) e"
    using session_ok_batch [OF ok, of hs] c by (simp add: session_ok_def)
  from regen_ok [OF this] c CallRecordAndDecay show ?thesis by (simp add: session_ok_def)
next
  case (CallDecayAllExcept hs)
  from ok have inv: "session_inv s"
    and "\<forall>e \<in> set (ss_contents s). entry_ok now (ss_generation s) e" by (simp_all add: session_ok_def)
  from regen_ok [OF this(2)] decay_all_except_contents [OF inv] CallDecayAllExcept
  show ?thesis by (simp add: session_ok_def)
qed

lemma session_reach_ok: "session_reach now s \<Longrightarrow> session_ok now s"
proof (induction rule: session_reach.induct)
  case (reach_new now m)
  have "ss_contents (new_session_store m) = []" by (simp add: new_session_store_def)
  then show ?case by (simp add: session_ok_def)
next
  case (reach_call before s now c)
  from session_ok_step [OF session_ok_later [OF reach_call.IH reach_call.hyps(2)]] show ?case .
qed

lemma entry_score_bounds:
  assumes "entry_ok now gen e"
  shows "0 < entry_score now gen e \<and> entry_score now gen e \<le> 1"
proof -
  let ?m = "real_of_int (now - se_lastAccessed e) / real_of_int minute"
  let ?f = "min (log 2 (real_of_int (se_accessCount e) + 1) / 4) 1"
  let ?q = "real_of_int (gen - se_lastGeneration e)"
  have "exp (- 0.07 * ?m) \<le> 1" and "exp (- 0.1 * ?q) \<le> 1"
    using assms by (simp_all add: entry_ok_def)
  moreover have "0 < ?f" and "?f \<le> 1" using assms by (simp_all add: entry_ok_def)
  ultimately have "exp (- 0.07 * ?m) * ?f * exp (- 0.1 * ?q) \<le> 1 * 1 * 1"
    by (intro mult_mono) simp_all
  moreover have "entry_score now gen e = exp (- 0.07 * ?m) * ?f * exp (- 0.1 * ?q)"
    by (simp only: entry_score_def Let_def)
  ultimately show ?thesis using \<open>0 < ?f\<close> by simp
qed

section \<open>Keys of different locations differ\<close>

lemma session_key_inj: "session_key p l = session_key p' l' \<longleftrightarrow> p = p' \<and> l = l'"
proof
  assume "session_key p l = session_key p' l'"
  then have "p @ CHR '':'' # dec_int l = p' @ CHR '':'' # dec_int l'" by (simp add: session_key_def)
  then have "p = p' \<and> dec_int l = dec_int l'"
    by (rule append_sep_inj [OF _ dec_int_no_colon dec_int_no_colon])
  then show "p = p' \<and> l = l'" by (auto dest: dec_int_inj)
qed simp

lemma session_score_ok:
  assumes ok: "session_ok now s"
  shows "0 \<le> session_score now p l s \<and> session_score now p l s \<le> 1
    \<and> (0 < session_score now p l s \<longleftrightarrow> session_key p l \<in> se_key ` set (ss_contents s))"
proof -
  have inv: "session_inv s" using ok by (simp add: session_ok_def)
  show ?thesis
  proof (cases "find (\<lambda>e. se_key e = session_key p l) (ss_contents s)")
    case None
    then have "session_key p l \<notin> se_key ` set (ss_contents s)" by (auto simp: find_None_set)
    with None session_score_contents [OF inv, of now p l] show ?thesis by simp
  next
    case (Some e)
    from find_Some_set [OF Some] have e: "e \<in> set (ss_contents s)" "se_key e = session_key p l" by simp_all
    with ok have "entry_ok now (ss_generation s) e" by (simp add: session_ok_def)
    from entry_score_bounds [OF this] Some e session_score_contents [OF inv, of now p l]
    show ?thesis by force
  qed
qed

section \<open>Properties\<close>

text \<open>C10. Whatever sequence of accesses is recorded in a new store, it holds exactly the most
  recently used distinct locations, at most its capacity of them, in order of use, and no
  two locations share an entry.\<close>

theorem session_store_is_lru:
  "map se_key (ss_contents (fold (\<lambda>(now, p, l). record_access now p l) accs (new_session_store m)))
     = rev (recent_keys (nat (if m \<le> 0 then 2000 else m)) (map (\<lambda>(now, p, l). session_key p l) accs))
   \<and> (session_key p l = session_key p' l' \<longleftrightarrow> p = p' \<and> l = l')"
proof -
  have "session_inv (new_session_store m)" and "ss_contents (new_session_store m) = []"
    and "nat (ss_maxSize (new_session_store m)) = nat (if m \<le> 0 then 2000 else m)"
    by (simp_all add: new_session_store_def session_inv_def)
  with session.run_recent [of "new_session_store m" accs] show ?thesis
    by (simp add: session_key_inj)
qed

text \<open>In every store that calls with a clock that does not run backwards can produce, the
  score of a location lies between 0 and 1 from then on, and is positive exactly for the
  locations the store still tracks.\<close>

theorem session_score_bounds:
  assumes "session_reach before s" and "before \<le> now"
  shows "0 \<le> session_score now p l s \<and> session_score now p l s \<le> 1
    \<and> (0 < session_score now p l s \<longleftrightarrow> session_key p l \<in> se_key ` set (ss_contents s))"
  using session_score_ok [OF session_ok_later [OF session_reach_ok [OF assms(1)] assms(2)]] .

theorem session_score_bounds_witness:
  "session_score 9 ''a.go'' 1 (session_step 7 (CallRecordAndDecay [\<lparr>sh_FilePath = ''a.go'', sh_StartLine = 1\<rparr>])
     (new_session_store 2)) \<le> 1"
proof -
  have "session_reach 7 (session_step 7 (CallRecordAndDecay [\<lparr>sh_FilePath = ''a.go'', sh_StartLine = 1\<rparr>])
     (new_session_store 2))"
    by (rule reach_call [OF reach_new order.refl])
  from session_score_bounds [OF this, of 9 "''a.go''" 1] show ?thesis by linarith
qed

text \<open>Recording a query's hits with \<open>RecordAndDecay\<close> leaves the same entries, the same
  generation and so the same scores as \<open>RecordBatch\<close> followed by \<open>DecayAllExcept\<close> when no
  other call comes between them, and every hit the store still tracks is exempt from the
  decay of this query.\<close>

theorem record_and_decay_refines:
  assumes "session_inv s"
  shows "ss_contents (record_and_decay now hits s)
      = ss_contents (decay_all_except hits (record_batch now hits s))
    \<and> ss_generation (record_and_decay now hits s)
      = ss_generation (decay_all_except hits (record_batch now hits s))
    \<and> session_score t p l (record_and_decay now hits s)
      = session_score t p l (decay_all_except hits (record_batch now hits s))
    \<and> (\<forall>e \<in> set (ss_contents (record_and_decay now hits s)).
         se_key e \<in> hit_key ` set hits \<longrightarrow>
         se_lastGeneration e = ss_generation (record_and_decay now hits s))"
proof -
  note b = record_batch_contents [OF assms, of now hits]
  note rd = record_and_decay_contents [OF assms, of now hits]
  have bi: "session_inv (record_batch now hits s)" using b by blast
  note d = decay_all_except_contents [OF bi, of hits]
  have same: "ss_contents (record_and_decay now hits s)
      = ss_contents (decay_all_except hits (record_batch now hits s))"
    "ss_generation (record_and_decay now hits s)
      = ss_generation (decay_all_except hits (record_batch now hits s))"
    using rd b d by simp_all
  moreover have "session_score t p l (record_and_decay now hits s)
      = session_score t p l (decay_all_except hits (record_batch now hits s))"
    using rd d by (intro session_score_cong same) simp_all
  moreover have "\<forall>e \<in> set (ss_contents (record_and_decay now hits s)).
         se_key e \<in> hit_key ` set hits \<longrightarrow>
         se_lastGeneration e = ss_generation (record_and_decay now hits s)"
    using rd by (auto simp: regen_def)
  ultimately show ?thesis by blast
qed

theorem record_and_decay_refines_witness:
  "ss_generation (record_and_decay 3 [\<lparr>sh_FilePath = ''a'', sh_StartLine = 1\<rparr>] (new_session_store 5))
   = ss_generation (decay_all_except [\<lparr>sh_FilePath = ''a'', sh_StartLine = 1\<rparr>]
       (record_batch 3 [\<lparr>sh_FilePath = ''a'', sh_StartLine = 1\<rparr>] (new_session_store 5)))"
  using record_and_decay_refines [OF session_inv_new] by blast

end
