(* ===== verification/Embed_Cache.thy ===== *)
theory Embed_Cache
  imports Linked_Lru Core_Types
begin

text \<open>
  \<open>internal/vector/embed_cache.go\<close>: the LRU cache of query embeddings. The methods hold the
  mutex for their whole body. Vectors are values, so the copies the code makes to keep its
  callers from sharing a slice are the vectors themselves.
\<close>

record cache_entry =
  ce_key :: string
  ce_vec :: vec

record embed_cache =
  ec_lru :: "cache_entry lru"
  ec_maxSize :: int

definition new_embed_cache :: "int \<Rightarrow> embed_cache" where
  "new_embed_cache maxSize =
     \<lparr>ec_lru = lru_empty \<lparr>ce_key = [], ce_vec = []\<rparr>, ec_maxSize = maxSize\<rparr>"

definition cache_get :: "string \<Rightarrow> embed_cache \<Rightarrow> vec option \<times> embed_cache" where
  "cache_get query c =
     (case lru_find (ec_lru c) query of
        Some n \<Rightarrow> (Some (ce_vec (lru_heap (ec_lru c) n)), c\<lparr>ec_lru := lru_move_to_back n (ec_lru c)\<rparr>)
      | None \<Rightarrow> (None, c))"

definition cache_put :: "string \<Rightarrow> vec \<Rightarrow> embed_cache \<Rightarrow> embed_cache" where
  "cache_put query v c =
     (case lru_find (ec_lru c) query of
        Some n \<Rightarrow>
          c\<lparr>ec_lru := lru_move_to_back n
              (lru_set n ((lru_heap (ec_lru c) n)\<lparr>ce_vec := v\<rparr>) (ec_lru c))\<rparr>
      | None \<Rightarrow>
          let l = (if int (length (lru_order (ec_lru c))) \<ge> ec_maxSize c
                   then (case lru_order (ec_lru c) of
                           [] \<Rightarrow> ec_lru c
                         | _ # _ \<Rightarrow> lru_remove_front ce_key (ec_lru c))
                   else ec_lru c)
          in c\<lparr>ec_lru := lru_push_back query \<lparr>ce_key = query, ce_vec = v\<rparr> l\<rparr>)"

section \<open>The cache as a list of entries\<close>

abbreviation ec_contents :: "embed_cache \<Rightarrow> cache_entry list" where
  "ec_contents c \<equiv> lru_contents (ec_lru c)"

text \<open>A capacity below one still keeps the last entry.\<close>

definition ec_capacity :: "embed_cache \<Rightarrow> nat" where
  "ec_capacity c = nat (max 1 (ec_maxSize c))"

definition cache_inv :: "embed_cache \<Rightarrow> bool" where
  "cache_inv c \<longleftrightarrow> lru_inv ce_key (ec_lru c) \<and> length (ec_contents c) \<le> ec_capacity c"

lemma cache_inv_new [simp]: "cache_inv (new_embed_cache m)"
  by (simp add: cache_inv_def new_embed_cache_def)

lemma cache_entry_self: "\<lparr>ce_key = ce_key e, ce_vec = v\<rparr> = e\<lparr>ce_vec := v\<rparr>"
  by (cases e) simp

lemma length_filter_key:
  "x \<in> set xs \<Longrightarrow> Suc (length (filter (\<lambda>y. k y \<noteq> k x) xs)) \<le> length xs"
  using length_filter_less [of x xs "\<lambda>y. k y \<noteq> k x"] by simp

lemma cache_get_found:
  assumes inv: "cache_inv c" and e: "find (\<lambda>e. ce_key e = q) (ec_contents c) = Some e"
  shows "fst (cache_get q c) = Some (ce_vec e) \<and> cache_inv (snd (cache_get q c))
    \<and> ec_maxSize (snd (cache_get q c)) = ec_maxSize c
    \<and> ec_contents (snd (cache_get q c)) = filter (\<lambda>x. ce_key x \<noteq> q) (ec_contents c) @ [e]"
proof -
  let ?l = "ec_lru c"
  from inv have l: "lru_inv ce_key ?l" by (simp add: cache_inv_def)
  from lru_find_find [OF l, of q] e obtain n where n: "lru_find ?l q = Some n" "lru_heap ?l n = e" by auto
  from lru_find_Some [OF l n(1)] have no: "n \<in> set (lru_order ?l)" and k: "ce_key e = q" using n by auto
  have "lru_set n e ?l = ?l" using n(2) by (auto simp: lru_set_def)
  with lru_touch_contents [OF l no, of e] n k
  have "ec_contents (snd (cache_get q c)) = filter (\<lambda>x. ce_key x \<noteq> q) (ec_contents c) @ [e]"
    by (simp add: cache_get_def)
  moreover from find_Some_set [OF e] have "Suc (length (filter (\<lambda>x. ce_key x \<noteq> q) (ec_contents c))) \<le> length (ec_contents c)"
    using length_filter_key [of e "ec_contents c" ce_key] k by simp
  ultimately show ?thesis using n no l inv by (simp add: cache_get_def cache_inv_def ec_capacity_def)
qed

lemma cache_get_missing:
  assumes inv: "cache_inv c" and "find (\<lambda>e. ce_key e = q) (ec_contents c) = None"
  shows "cache_get q c = (None, c)"
proof -
  from inv have "lru_inv ce_key (ec_lru c)" by (simp add: cache_inv_def)
  from lru_find_find [OF this, of q] assms(2) show ?thesis by (simp add: cache_get_def)
qed

lemma cache_put_contents:
  assumes inv: "cache_inv c"
  shows "cache_inv (cache_put q v c) \<and> ec_maxSize (cache_put q v c) = ec_maxSize c
    \<and> ec_contents (cache_put q v c) =
        (if q \<in> ce_key ` set (ec_contents c) then filter (\<lambda>x. ce_key x \<noteq> q) (ec_contents c)
         else drop (length (ec_contents c) + 1 - ec_capacity c) (ec_contents c))
        @ [\<lparr>ce_key = q, ce_vec = v\<rparr>]"
proof -
  let ?l = "ec_lru c"
  from inv have l: "lru_inv ce_key ?l" and len: "length (ec_contents c) \<le> ec_capacity c"
    by (simp_all add: cache_inv_def)
  show ?thesis
  proof (cases "lru_find ?l q")
    case (Some n)
    let ?e = "(lru_heap ?l n)\<lparr>ce_vec := v\<rparr>"
    from lru_find_Some [OF l Some] have no: "n \<in> set (lru_order ?l)" and k: "ce_key (lru_heap ?l n) = q"
      by simp_all
    then have mem: "lru_heap ?l n \<in> set (ec_contents c)" by (simp add: lru_contents_def)
    have e: "?e = \<lparr>ce_key = q, ce_vec = v\<rparr>" using k cache_entry_self by metis
    have con: "ec_contents (cache_put q v c) = filter (\<lambda>x. ce_key x \<noteq> q) (ec_contents c) @ [?e]"
      using lru_touch_contents [OF l no, of ?e] Some k by (simp add: cache_put_def)
    have "lru_inv ce_key (ec_lru (cache_put q v c))" and m: "ec_maxSize (cache_put q v c) = ec_maxSize c"
      using Some no k l by (simp_all add: cache_put_def frame_simps)
    moreover have "Suc (length (filter (\<lambda>x. ce_key x \<noteq> q) (ec_contents c))) \<le> length (ec_contents c)"
      using length_filter_key [OF mem, of ce_key] k by simp
    moreover have "q \<in> ce_key ` set (ec_contents c)" using mem k by blast
    ultimately show ?thesis using len con e by (simp add: cache_inv_def ec_capacity_def)
  next
    case None
    then have q: "q \<notin> ce_key ` set (ec_contents c)" using lru_find_iff [OF l] by blast
    define l' where "l' = (if int (length (lru_order ?l)) \<ge> ec_maxSize c
      then (case lru_order ?l of [] \<Rightarrow> ?l | _ # _ \<Rightarrow> lru_remove_front ce_key ?l) else ?l)"
    have put: "cache_put q v c = c\<lparr>ec_lru := lru_push_back q \<lparr>ce_key = q, ce_vec = v\<rparr> l'\<rparr>"
      using None by (simp add: cache_put_def l'_def Let_def)
    have inv': "lru_inv ce_key l'" using l by (simp add: l'_def split: list.split)
    have con: "lru_contents l' = drop (length (ec_contents c) + 1 - ec_capacity c) (ec_contents c)"
    proof (cases "lru_order ?l")
      case Nil
      then show ?thesis by (simp add: l'_def lru_contents_def)
    next
      case (Cons n ns)
      then have "length (ec_contents c) = Suc (length ns)" by (simp add: lru_contents_def)
      moreover have "Suc (Suc (length ns)) - nat (max 1 (ec_maxSize c))
          = (if ec_maxSize c \<le> 1 + int (length ns) then 1 else 0)"
        using calculation len by (auto simp: ec_capacity_def)
      ultimately show ?thesis using Cons
        by (simp add: l'_def lru_contents_remove_front ec_capacity_def drop_Suc)
    qed
    then have "q \<notin> ce_key ` set (lru_contents l')" using q by (auto dest: in_set_dropD)
    with lru_find_iff [OF inv'] have "lru_find l' q = None" by blast
    with lru_inv_push_back [OF inv' _ this, of "\<lparr>ce_key = q, ce_vec = v\<rparr>"] lru_contents_push_back [OF inv'] con q len
    show ?thesis by (simp add: put cache_inv_def ec_capacity_def)
  qed
qed


interpretation query_cache: lru_cache ce_key "\<lambda>(q, v). q" ec_contents ec_capacity cache_inv
  "\<lambda>(q, v). cache_put q v"
proof (unfold_locales, goal_cases)
  case (1 c x)
  then show ?case using cache_put_contents by (cases x) auto
next
  case (2 x c)
  then show ?case
    by (cases x) (simp add: ec_capacity_def cache_put_def Let_def split: option.split)
next
  case (3 c)
  then show ?case by (simp add: ec_capacity_def)
next
  case (4 c x)
  then show ?case
    using cache_put_contents [of c "fst x" "snd x"]
    by (cases x) (auto simp: touch_keys_def filter_map comp_def drop_map)
qed

section \<open>Answers of the cache\<close>

datatype cache_op = CGet string | CPut string vec

fun cache_step :: "cache_op \<Rightarrow> embed_cache \<Rightarrow> embed_cache" where
  "cache_step (CGet q) c = snd (cache_get q c)"
| "cache_step (CPut q v) c = cache_put q v c"

text \<open>The last vector put under a key by a history, and the keys it puts.\<close>

fun last_put :: "cache_op list \<Rightarrow> string \<Rightarrow> vec option" where
  "last_put [] q = None"
| "last_put (CGet p # ops) q = last_put ops q"
| "last_put (CPut p v # ops) q =
     (case last_put ops q of Some w \<Rightarrow> Some w | None \<Rightarrow> if p = q then Some v else None)"

fun put_keys :: "cache_op list \<Rightarrow> string set" where
  "put_keys [] = {}"
| "put_keys (CGet p # ops) = put_keys ops"
| "put_keys (CPut p v # ops) = insert p (put_keys ops)"

lemma last_put_snoc:
  "last_put (ops @ [CGet p]) q = last_put ops q"
  "last_put (ops @ [CPut p v]) q = (if p = q then Some v else last_put ops q)"
  by (induction ops q rule: last_put.induct) (auto split: option.splits)

lemma put_keys_snoc:
  "put_keys (ops @ [CGet p]) = put_keys ops"
  "put_keys (ops @ [CPut p v]) = insert p (put_keys ops)"
  by (induction ops rule: put_keys.induct) auto

lemma finite_put_keys [simp]: "finite (put_keys ops)"
  by (induction ops rule: put_keys.induct) auto

lemma put_keys_last: "q \<in> put_keys ops \<longleftrightarrow> last_put ops q \<noteq> None"
  by (induction ops q rule: last_put.induct) (auto split: option.splits)

definition cache_agrees :: "cache_op list \<Rightarrow> embed_cache \<Rightarrow> bool" where
  "cache_agrees ops c \<longleftrightarrow> cache_inv c
     \<and> (\<forall>e \<in> set (ec_contents c). last_put ops (ce_key e) = Some (ce_vec e))
     \<and> (card (put_keys ops) \<le> ec_capacity c \<longrightarrow> put_keys ops \<subseteq> ce_key ` set (ec_contents c))"

lemma cache_agrees_get:
  assumes "cache_agrees ops c" shows "cache_agrees (ops @ [CGet q]) (snd (cache_get q c))"
proof (cases "find (\<lambda>e. ce_key e = q) (ec_contents c)")
  case None
  with assms cache_get_missing [of c q] show ?thesis
    by (simp add: cache_agrees_def last_put_snoc put_keys_snoc)
next
  case (Some e)
  from find_Some_set [OF Some] have "e \<in> set (ec_contents c)" "ce_key e = q" by simp_all
  with assms cache_get_found [of c q e] Some show ?thesis
    by (auto simp: cache_agrees_def last_put_snoc put_keys_snoc ec_capacity_def)
qed

lemma cache_agrees_put:
  assumes "cache_agrees ops c" shows "cache_agrees (ops @ [CPut q v]) (cache_put q v c)"
proof -
  from assms have inv: "cache_inv c"
    and val: "\<And>e. e \<in> set (ec_contents c) \<Longrightarrow> last_put ops (ce_key e) = Some (ce_vec e)"
    and all: "card (put_keys ops) \<le> ec_capacity c \<Longrightarrow> put_keys ops \<subseteq> ce_key ` set (ec_contents c)"
    by (simp_all add: cache_agrees_def)
  note put = cache_put_contents [OF inv, of q v]
  have "set (ec_contents (cache_put q v c)) \<subseteq>
      insert \<lparr>ce_key = q, ce_vec = v\<rparr> {e \<in> set (ec_contents c). ce_key e \<noteq> q}"
    using put by (auto dest: in_set_dropD split: if_splits)
  then have 1: "last_put (ops @ [CPut q v]) (ce_key e) = Some (ce_vec e)"
    if "e \<in> set (ec_contents (cache_put q v c))" for e
  proof -
    from that \<open>set (ec_contents (cache_put q v c)) \<subseteq> _\<close>
    have "e = \<lparr>ce_key = q, ce_vec = v\<rparr> \<or> e \<in> set (ec_contents c) \<and> ce_key e \<noteq> q" by blast
    then show ?thesis using val by (elim disjE) (auto simp: last_put_snoc)
  qed
  have 2: "put_keys (ops @ [CPut q v]) \<subseteq> ce_key ` set (ec_contents (cache_put q v c))"
    if few: "card (put_keys (ops @ [CPut q v])) \<le> ec_capacity c"
  proof (cases "q \<in> ce_key ` set (ec_contents c)")
    case True
    from few have "card (put_keys ops) \<le> ec_capacity c"
      by (rule order.trans [OF card_mono, rotated 2]) (auto simp: put_keys_snoc)
    from all [OF this] True put show ?thesis by (auto simp: put_keys_snoc)
  next
    case False
    from few have le: "card (put_keys ops) \<le> ec_capacity c"
      by (rule order.trans [OF card_mono, rotated 2]) (auto simp: put_keys_snoc)
    have keys: "ce_key ` set (ec_contents c) = put_keys ops"
      using all [OF le] val by (auto simp: put_keys_last)
    have "length (ec_contents c) = card (put_keys ops)"
      using lru_distinct_keys [of ce_key "ec_lru c"] inv distinct_card [of "map ce_key (ec_contents c)"] keys
      by (simp add: cache_inv_def)
    then have "length (ec_contents c) + 1 - ec_capacity c = 0"
      using few False keys by (simp add: put_keys_snoc)
    with put False keys show ?thesis by (auto simp: put_keys_snoc)
  qed
  from put 1 2 show ?thesis by (auto simp: cache_agrees_def ec_capacity_def)
qed

lemma cache_agrees_run: "cache_agrees ops (fold cache_step ops (new_embed_cache m))"
proof (induction ops rule: rev_induct)
  case Nil
  have "ec_contents (new_embed_cache m) = []" by (simp add: new_embed_cache_def)
  then show ?case by (simp add: cache_agrees_def)
next
  case (snoc op ops)
  then show ?case by (cases op) (simp_all add: cache_agrees_get cache_agrees_put)
qed

lemma cache_get_agrees:
  assumes "cache_agrees ops c"
  shows "fst (cache_get q c) = Some v \<Longrightarrow> last_put ops q = Some v"
    and "card (put_keys ops) \<le> ec_capacity c \<Longrightarrow> fst (cache_get q c) = last_put ops q"
proof -
  from assms have inv: "cache_inv c" by (simp add: cache_agrees_def)
  have hit: "last_put ops q = Some (ce_vec e)" if "find (\<lambda>e. ce_key e = q) (ec_contents c) = Some e" for e
    using find_Some_set [OF that] assms by (auto simp: cache_agrees_def)
  show "fst (cache_get q c) = Some v \<Longrightarrow> last_put ops q = Some v"
    using hit cache_get_found [OF inv] cache_get_missing [OF inv]
    by (cases "find (\<lambda>e. ce_key e = q) (ec_contents c)") auto
  show "fst (cache_get q c) = last_put ops q" if few: "card (put_keys ops) \<le> ec_capacity c"
  proof (cases "find (\<lambda>e. ce_key e = q) (ec_contents c)")
    case None
    then have "q \<notin> put_keys ops" using assms few by (auto simp: cache_agrees_def find_None_set)
    with None cache_get_missing [OF inv None] show ?thesis by (simp add: put_keys_last)
  qed (use hit cache_get_found [OF inv] in auto)
qed

lemma capacity_cache_run: "ec_maxSize (fold cache_step ops c) = ec_maxSize c"
proof (induction ops arbitrary: c)
  case (Cons op ops)
  have "ec_maxSize (cache_step op c) = ec_maxSize c"
    by (cases op) (simp_all add: cache_get_def cache_put_def Let_def split: option.split)
  with Cons.IH [of "cache_step op c"] show ?case by simp
qed simp

section \<open>Properties\<close>

text \<open>A query cache answers with the vector last put under the query or not at all; it
  never holds more entries than its capacity (one, when that is smaller); as long as no more
  distinct queries were put than fit, every put query is answered; and after puts alone the
  cached queries are the most recently put ones.\<close>

theorem query_cache_answers:
  "(fst (cache_get q (fold cache_step ops (new_embed_cache m))) = Some v \<longrightarrow> last_put ops q = Some v)
   \<and> int (length (ec_contents (fold cache_step ops (new_embed_cache m)))) \<le> max 1 m
   \<and> (int (card (put_keys ops)) \<le> max 1 m \<longrightarrow>
        fst (cache_get q (fold cache_step ops (new_embed_cache m))) = last_put ops q)
   \<and> map ce_key (ec_contents (fold (\<lambda>(q, v). cache_put q v) qs (new_embed_cache m)))
      = rev (recent_keys (nat (max 1 m)) (map fst qs))"
proof -
  let ?c = "fold cache_step ops (new_embed_cache m)"
  have cap: "ec_capacity ?c = nat (max 1 m)" and cap0: "ec_capacity (new_embed_cache m) = nat (max 1 m)"
    using capacity_cache_run by (simp_all add: ec_capacity_def new_embed_cache_def)
  have "cache_inv ?c" using cache_agrees_run by (simp add: cache_agrees_def)
  then have "int (length (ec_contents ?c)) \<le> max 1 m" by (simp add: cache_inv_def cap le_nat_iff)
  moreover have "ec_contents (new_embed_cache m) = []" by (simp add: new_embed_cache_def)
  from query_cache.run_recent [OF cache_inv_new this, of qs]
  have "map ce_key (ec_contents (fold (\<lambda>(q, v). cache_put q v) qs (new_embed_cache m)))
      = rev (recent_keys (nat (max 1 m)) (map fst qs))" by (simp add: cap0 case_prod_unfold)
  ultimately show ?thesis
    using cache_get_agrees [OF cache_agrees_run] by (simp add: cap le_nat_iff)
qed

theorem query_cache_answers_witness:
  "fst (cache_get ''x'' (fold cache_step [CPut ''x'' [F32 1], CGet ''x'', CPut ''y'' []] (new_embed_cache 2)))
   = last_put [CPut ''x'' [F32 1], CGet ''x'', CPut ''y'' []] ''x''"
proof -
  have "int (card (put_keys [CPut ''x'' [F32 1], CGet ''x'', CPut ''y'' []])) \<le> max 1 2" by simp
  with query_cache_answers show ?thesis by blast
qed

end
