(* ===== verification/Query_Params.thy ===== *)
theory Query_Params
  imports Core_Types
begin

text \<open>
  \<open>internal/core/queryparams.go\<close>: the query parameters the MCP tools and the command line
  share. \<open>parse_duration\<close> follows Go's \<open>time.ParseDuration\<close>, on natural numbers with its
  overflow tests; durations are nanoseconds.
\<close>

section \<open>time.ParseDuration\<close>

definition digit_val :: "char \<Rightarrow> nat option" where
  "digit_val c = (if 48 \<le> (of_char c :: nat) \<and> (of_char c :: nat) \<le> 57 then Some (of_char c - 48) else None)"

definition is_digit :: "char \<Rightarrow> bool" where
  "is_digit c \<longleftrightarrow> digit_val c \<noteq> None"

text \<open>\<open>leadingInt\<close>: none on overflow.\<close>

fun leading_int :: "nat \<Rightarrow> string \<Rightarrow> (nat \<times> string) option" where
  "leading_int x [] = Some (x, [])"
| "leading_int x (c # s) =
     (case digit_val c of
        None \<Rightarrow> Some (x, c # s)
      | Some d \<Rightarrow>
          if x > 2 ^ 63 div 10 then None
          else if x * 10 + d > 2 ^ 63 then None
          else leading_int (x * 10 + d) s)"

text \<open>\<open>leadingFraction\<close>: digits past an overflow are dropped.\<close>

fun leading_fraction :: "nat \<Rightarrow> nat \<Rightarrow> bool \<Rightarrow> string \<Rightarrow> nat \<times> nat \<times> string" where
  "leading_fraction x scale overflow [] = (x, scale, [])"
| "leading_fraction x scale overflow (c # s) =
     (case digit_val c of
        None \<Rightarrow> (x, scale, c # s)
      | Some d \<Rightarrow>
          if overflow then leading_fraction x scale True s
          else if x > (2 ^ 63 - 1) div 10 then leading_fraction x scale True s
          else if x * 10 + d > 2 ^ 63 then leading_fraction x scale True s
          else leading_fraction (x * 10 + d) (scale * 10) False s)"

definition unit_map :: "string \<Rightarrow> nat option" where
  "unit_map u =
     (if u = ''ns'' then Some 1
      else if u = ''us'' \<or> u = [char_of (0xC2 :: nat), char_of (0xB5 :: nat), CHR ''s'']
              \<or> u = [char_of (0xCE :: nat), char_of (0xBC :: nat), CHR ''s''] then Some (10 ^ 3)
      else if u = ''ms'' then Some (10 ^ 6)
      else if u = ''s'' then Some (10 ^ 9)
      else if u = ''m'' then Some (60 * 10 ^ 9)
      else if u = ''h'' then Some (3600 * 10 ^ 9)
      else None)"

definition unit_char :: "char \<Rightarrow> bool" where
  "unit_char c \<longleftrightarrow> \<not> (c = CHR ''.'' \<or> is_digit c)"

text \<open>One term \<open>v.f unit\<close>: its value and the rest of the string.\<close>

definition duration_term :: "string \<Rightarrow> (nat \<times> string) option" where
  "duration_term s =
     (if s = [] \<or> \<not> (hd s = CHR ''.'' \<or> is_digit (hd s)) then None
      else case leading_int 0 s of
        None \<Rightarrow> None
      | Some (v, s1) \<Rightarrow>
          let pre = (length s \<noteq> length s1);
              (f, scale, s2, post) =
                (if s1 \<noteq> [] \<and> hd s1 = CHR ''.''
                 then (case leading_fraction 0 1 False (tl s1) of
                         (f, scale, s2) \<Rightarrow> (f, scale, s2, length (tl s1) \<noteq> length s2))
                 else (0, 1, s1, False))
          in if \<not> pre \<and> \<not> post then None
             else
               let u = takeWhile unit_char s2; s3 = dropWhile unit_char s2 in
               if u = [] then None
               else case unit_map u of
                 None \<Rightarrow> None
               | Some unt \<Rightarrow>
                   if v > 2 ^ 63 div unt then None
                   else
                     let v' = v * unt + f * unt div scale in
                     if f > 0 \<and> v' > 2 ^ 63 then None
                     else Some (v', s3))"

lemma leading_int_length: "leading_int x s = Some (v, s') \<Longrightarrow> length s' \<le> length s"
  by (induction x s rule: leading_int.induct) (auto split: option.splits if_splits)

lemma leading_fraction_length: "leading_fraction x sc ov s = (f, sc', s') \<Longrightarrow> length s' \<le> length s"
  by (induction x sc ov s rule: leading_fraction.induct) (auto split: option.splits if_splits)

lemma duration_term_shorter:
  assumes "duration_term s = Some (v, s')"
  shows "length s' < length s"
proof -
  have dropped: "takeWhile unit_char t \<noteq> [] \<Longrightarrow> length (dropWhile unit_char t) < length t" for t
    using takeWhile_dropWhile_id [of unit_char t]
    by (metis append_self_conv2 le_neq_implies_less length_dropWhile_le length_append
        add_cancel_left_left length_0_conv)
  have "length (tl t) \<le> length t" for t :: string by simp
  with assms show ?thesis
    by (auto simp: duration_term_def Let_def split: if_splits option.splits prod.splits
        dest!: leading_int_length leading_fraction_length dropped
        intro: less_le_trans le_trans)
qed

function duration_terms :: "string \<Rightarrow> nat \<Rightarrow> nat option" where
  "duration_terms s d =
     (if s = [] then Some d
      else case duration_term s of
        None \<Rightarrow> None
      | Some (v, s') \<Rightarrow> if d + v > 2 ^ 63 then None else duration_terms s' (d + v))"
  by pat_completeness auto
termination
  by (relation "measure (\<lambda>(s, d). length s)") (auto simp: duration_term_shorter)

declare duration_terms.simps [simp del]

definition parse_duration :: "string \<Rightarrow> int option" where
  "parse_duration s0 =
     (let neg = (s0 \<noteq> [] \<and> hd s0 = CHR ''-'');
          s = (if s0 \<noteq> [] \<and> (hd s0 = CHR ''-'' \<or> hd s0 = CHR ''+'') then tl s0 else s0)
      in if s = ''0'' then Some 0
         else if s = [] then None
         else case duration_terms s 0 of
           None \<Rightarrow> None
         | Some d \<Rightarrow> if neg then Some (- int d) else if d > 2 ^ 63 - 1 then None else Some (int d))"

section \<open>The parameters\<close>

definition hour :: int where "hour = 3600 * 10 ^ 9"

definition max_diff_window :: int where "max_diff_window = 720 * hour"
definition min_diff_limit :: int where "min_diff_limit = 1"
definition max_diff_limit :: int where "max_diff_limit = 500"
definition overfetch_multiplier :: int where "overfetch_multiplier = 3"
definition overfetch_cap :: int where "overfetch_cap = 200"

definition validate_diff_window :: "string \<Rightarrow> int res" where
  "validate_diff_window since =
     (case parse_duration since of
        None \<Rightarrow> Inl (ErrMsg ''use Go duration syntax'')
      | Some d \<Rightarrow>
          if d \<le> 0 then Inl (ErrMsg ''must be positive'')
          else if d > max_diff_window then Inl (ErrMsg ''must be <= 720h (30 days)'')
          else Inr d)"

definition validate_diff_limit :: "int \<Rightarrow> unit res" where
  "validate_diff_limit n =
     (if n < min_diff_limit \<or> n > max_diff_limit then Inl (ErrMsg ''must be 1..500'') else Inr ())"

definition search_overfetch_limit :: "int \<Rightarrow> bool \<Rightarrow> int" where
  "search_overfetch_limit maxResults hasPathFilter =
     (if \<not> hasPathFilter then maxResults
      else let n = maxResults * overfetch_multiplier in
           if n > overfetch_cap then overfetch_cap else n)"

text \<open>\<open>FilterByPathPrefix\<close>; the reuse of the backing array is not visible in the result.\<close>

definition filter_by_path_prefix :: "scored_result list \<Rightarrow> string \<Rightarrow> int \<Rightarrow> scored_result list" where
  "filter_by_path_prefix results pathPrefix maxResults =
     (if pathPrefix = [] then results
      else
        let filtered = filter (\<lambda>r. take (length pathPrefix) (sr_Path r) = pathPrefix) results in
        if int (length filtered) > maxResults then take (nat maxResults) filtered else filtered)"

definition normalize_direction :: "string \<Rightarrow> string \<times> bool" where
  "normalize_direction s =
     (if s = ''callers'' then (''incoming'', True)
      else if s = ''callees'' then (''outgoing'', True)
      else if s = ''both'' then (''both'', True)
      else ([], False))"

section \<open>Printed durations parse\<close>

lemma digit_val_char: "d < 10 \<Longrightarrow> digit_val (char_of (48 + d :: nat)) = Some d"
  by (simp add: digit_val_def of_char_digit)

lemma dec_nat_snoc: "10 \<le> n \<Longrightarrow> dec_nat n = dec_nat (n div 10) @ [char_of (48 + n mod 10)]"
  by (subst dec_nat.simps) simp

text \<open>Reading digits after a number \<open>x\<close> appends them to it.\<close>

lemma leading_int_dec:
  "n \<le> 2 ^ 63 \<Longrightarrow> (\<And>c. s \<noteq> [] \<Longrightarrow> digit_val (hd s) = None) \<Longrightarrow> leading_int 0 (dec_nat n @ s) = Some (n, s)"
proof -
  have step: "n \<le> 2 ^ 63 \<Longrightarrow> leading_int 0 (dec_nat n @ t) = leading_int n t" for n t
  proof (induction n arbitrary: t rule: dec_nat.induct)
    case (1 n)
    show ?case
    proof (cases "n < 10")
      case True
      then show ?thesis by (subst dec_nat.simps) (simp add: digit_val_char)
    next
      case False
      then have "leading_int 0 (dec_nat n @ t) = leading_int (n div 10) (char_of (48 + n mod 10) # t)"
        using 1 by (simp add: dec_nat_snoc)
      moreover have "\<not> n div 10 > 2 ^ 63 div 10" using "1.prems" by (simp add: div_le_mono not_less)
      moreover have "n div 10 * 10 + n mod 10 = n" by simp
      ultimately show ?thesis using "1.prems" by (simp add: digit_val_char)
    qed
  qed
  show "n \<le> 2 ^ 63 \<Longrightarrow> (\<And>c. s \<noteq> [] \<Longrightarrow> digit_val (hd s) = None) \<Longrightarrow> leading_int 0 (dec_nat n @ s) = Some (n, s)"
    using step [of n s] by (cases s) auto
qed

lemma duration_term_plain:
  assumes u: "unit_map u = Some unt" "u \<noteq> []" "\<forall>c \<in> set u. unit_char c" and n: "n * unt \<le> 2 ^ 63" "0 < unt"
  shows "duration_term (dec_nat n @ u) = Some (n * unt, [])"
proof -
  have "n \<le> n * unt" using n(2) by simp
  with n(1) have n63: "n \<le> 2 ^ 63" by linarith
  have hd_u: "unit_char (hd u)" using u by simp
  then have "leading_int 0 (dec_nat n @ u) = Some (n, u)"
    using n63 by (intro leading_int_dec) (simp_all add: unit_char_def is_digit_def)
  moreover have "is_digit (hd (dec_nat n @ u))"
    using dec_nat_digits [of "hd (dec_nat n)" n] by (auto simp: is_digit_def digit_val_char)
  moreover have all: "takeWhile unit_char u = u" "dropWhile unit_char u = []" using u(3) by auto
  moreover have "hd u \<noteq> CHR ''.''" using hd_u by (simp add: unit_char_def)
  moreover have "\<not> n > 2 ^ 63 div unt" using n by (simp add: less_eq_div_iff_mult_less_eq not_less)
  ultimately show ?thesis using u(1,2) by (simp add: duration_term_def Let_def all)
qed

lemma parse_plain:
  assumes u: "unit_map u = Some unt" "u \<noteq> []" "\<forall>c \<in> set u. unit_char c" and n: "n * unt < 2 ^ 63" "0 < unt"
  shows "parse_duration (dec_nat n @ u) = Some (int (n * unt))"
    and "parse_duration (CHR ''-'' # dec_nat n @ u) = Some (- int (n * unt))"
proof -
  have one: "duration_term (dec_nat n @ u) = Some (n * unt, [])"
    using duration_term_plain [OF u _ n(2)] n(1) by simp
  have terms: "duration_terms (dec_nat n @ u) 0 = Some (n * unt)"
    using n(1) by (subst duration_terms.simps) (simp add: one duration_terms.simps [of "[]"])
  obtain d where d: "d < 10" "hd (dec_nat n) = char_of (48 + d :: nat)"
    using dec_nat_digits [of "hd (dec_nat n)" n] by auto
  have sign: "hd (dec_nat n) \<noteq> CHR ''-''" "hd (dec_nat n) \<noteq> CHR ''+''"
  proof -
    have "(of_char (hd (dec_nat n)) :: nat) = 48 + d" using d by (simp add: of_char_digit)
    then show "hd (dec_nat n) \<noteq> CHR ''-''" "hd (dec_nat n) \<noteq> CHR ''+''" by auto
  qed
  have zero: "dec_nat n @ u \<noteq> ''0''"
  proof
    assume "dec_nat n @ u = ''0''"
    then have "u = ''0''" using dec_nat_ne u(2) by (metis append_eq_Cons_conv append_is_Nil_conv)
    with u(1) show False by (simp add: unit_map_def)
  qed
  show "parse_duration (dec_nat n @ u) = Some (int (n * unt))"
    using sign zero terms n(1) by (simp add: parse_duration_def Let_def)
  show "parse_duration (CHR ''-'' # dec_nat n @ u) = Some (- int (n * unt))"
    using sign zero terms n(1) by (simp add: parse_duration_def Let_def)
qed

lemma unit_map_names:
  "unit_map ''h'' = Some (3600 * 10 ^ 9)" "unit_map ''m'' = Some (60 * 10 ^ 9)" "unit_map ''s'' = Some (10 ^ 9)"
  "\<forall>c \<in> set ''h''. unit_char c" "\<forall>c \<in> set ''m''. unit_char c" "\<forall>c \<in> set ''s''. unit_char c"
  by (simp_all add: unit_map_def unit_char_def is_digit_def digit_val_def)

section \<open>Properties\<close>

text \<open>A diff window given as a number of hours is accepted exactly from one hour to thirty
  days and then means that many hours, minutes likewise; a negative or zero window and one past
  thirty days are refused with the message that says so.\<close>

theorem diff_window_accepts:
  assumes "n < 2 ^ 20"
  shows "validate_diff_window (dec_nat n @ ''h'') =
      (if n = 0 then Inl (ErrMsg ''must be positive'')
       else if n \<le> 720 then Inr (int n * hour)
       else Inl (ErrMsg ''must be <= 720h (30 days)''))
    \<and> validate_diff_window (dec_nat n @ ''m'') =
      (if n = 0 then Inl (ErrMsg ''must be positive'')
       else if n \<le> 720 * 60 then Inr (int n * (hour div 60))
       else Inl (ErrMsg ''must be <= 720h (30 days)''))
    \<and> validate_diff_window (CHR ''-'' # dec_nat n @ ''h'') = Inl (ErrMsg ''must be positive'')"
proof -
  have n: "n * (3600 * 10 ^ 9) < 2 ^ 63" "n * (60 * 10 ^ 9) < 2 ^ 63" using assms by simp_all
  note h = parse_plain [OF unit_map_names(1) _ unit_map_names(4) n(1)]
    and m = parse_plain [OF unit_map_names(2) _ unit_map_names(5) n(2)]
  show ?thesis
    using h m by (simp add: validate_diff_window_def max_diff_window_def hour_def)
qed

theorem diff_window_accepts_witness:
  "validate_diff_window (dec_nat 24 @ ''h'') = Inr (24 * hour)"
proof -
  have "(24 :: nat) < 2 ^ 20" by simp
  from diff_window_accepts [OF this] show ?thesis by simp
qed

end
