(* ===== verification/Engine.thy ===== *)
theory Engine
  imports Ranker Retrieval Fallback Session Embed_Cache Query_Params
begin

text \<open>
  \<open>internal/core/engine.go\<close>: the query engine, which picks a retrieval level, gathers keyword
  and semantic candidates, ranks them and assembles context. The engine is a record; a query
  returns its result and the engine after it, in which the embedding cache and the session
  store may have changed. What one query sees of the outside is an environment: the clock (one
  reading per query), the file system, cancellation, and the order \<open>sort.Slice\<close> gives to
  equal elements. The embedder is called at most once per query, so it is a function of the
  text. Logging is left out.
\<close>

record vector_ops =
  vo_Search :: "vec \<Rightarrow> int \<Rightarrow> vector_result list res"
  vo_Count :: "int res"

record query_engine =
  qe_store :: metadata_store
  qe_projectRoot :: string
  qe_vectorStore :: "vector_ops option"
  qe_embedder :: "(string \<Rightarrow> vec res) option"
  qe_embedCache :: embed_cache
  qe_embedReady :: "bool option"
  qe_sessionStore :: "session_store option"
  qe_queryPrefix :: string

record query_env =
  en_now :: int
  en_fs :: filesystem
  en_ctxDone :: "nat \<Rightarrow> bool"
  en_sortScore :: "scored_result list \<Rightarrow> scored_result list"
  en_sortLine :: "hydrated_chunk list \<Rightarrow> hydrated_chunk list"

record search_input =
  si_Query :: string
  si_MaxResults :: int
  si_MinScore :: real
  si_ExcludeTests :: bool
  si_TestOnly :: bool

record context_input =
  ci_Query :: string
  ci_BudgetTokens :: int
  ci_ExcludeTests :: bool
  ci_TestOnly :: bool

definition new_query_engine :: "metadata_store \<Rightarrow> string \<Rightarrow> string \<Rightarrow> query_engine" where
  "new_query_engine store projectRoot queryPrefix =
     \<lparr>qe_store = store, qe_projectRoot = projectRoot, qe_vectorStore = None, qe_embedder = None,
      qe_embedCache = new_embed_cache 100, qe_embedReady = None, qe_sessionStore = None,
      qe_queryPrefix = queryPrefix\<rparr>"

definition set_vector_store :: "vector_ops \<Rightarrow> (string \<Rightarrow> vec res) \<Rightarrow> bool \<Rightarrow> query_engine \<Rightarrow> query_engine" where
  "set_vector_store vs embedder ready e =
     e\<lparr>qe_vectorStore := Some vs, qe_embedder := Some embedder, qe_embedReady := Some ready\<rparr>"

definition set_session_store :: "session_store \<Rightarrow> query_engine \<Rightarrow> query_engine" where
  "set_session_store ss e = e\<lparr>qe_sessionStore := Some ss\<rparr>"

definition engine_level :: "query_engine \<Rightarrow> fallback_level" where
  "engine_level e =
     (case (qe_vectorStore e, qe_embedder e) of
        (Some vs, Some _) \<Rightarrow>
          let embeddingReady = (qe_embedReady e = Some True);
              vc = (case vo_Count vs of Inr n \<Rightarrow> n | Inl _ \<Rightarrow> 0)
          in determine_level_full (qe_store e) vc embeddingReady
      | _ \<Rightarrow> determine_level (qe_store e))"

definition embed_query :: "string \<Rightarrow> query_engine \<Rightarrow> vec res \<times> query_engine" where
  "embed_query query e =
     (let prefixed = qe_queryPrefix e @ query in
      case cache_get prefixed (qe_embedCache e) of
        (Some v, c) \<Rightarrow> (Inr v, e\<lparr>qe_embedCache := c\<rparr>)
      | (None, c) \<Rightarrow>
          (case the (qe_embedder e) prefixed of
             Inl err \<Rightarrow> (Inl err, e\<lparr>qe_embedCache := c\<rparr>)
           | Inr v \<Rightarrow> (Inr v, e\<lparr>qe_embedCache := cache_put prefixed v c\<rparr>)))"

definition session_scorer :: "int \<Rightarrow> query_engine \<Rightarrow> (string \<Rightarrow> int \<Rightarrow> real) option" where
  "session_scorer now e = map_option (\<lambda>ss p l. session_score now p l ss) (qe_sessionStore e)"

definition result_hits :: "scored_result list \<Rightarrow> session_hit list" where
  "result_hits results = map (\<lambda>r. \<lparr>sh_FilePath = sr_Path r, sh_StartLine = sr_StartLine r\<rparr>) results"

definition record_session :: "int \<Rightarrow> scored_result list \<Rightarrow> query_engine \<Rightarrow> query_engine" where
  "record_session now results e =
     (case qe_sessionStore e of
        None \<Rightarrow> e
      | Some ss \<Rightarrow> e\<lparr>qe_sessionStore := Some (record_and_decay now (result_hits results) ss)\<rparr>)"

definition filter_by_score :: "scored_result list \<Rightarrow> real \<Rightarrow> scored_result list" where
  "filter_by_score results minScore = filter (\<lambda>r. sr_Score r \<ge> minScore) results"

section \<open>Merging keyword and semantic candidates\<close>

fun hydrate_ids_legacy :: "metadata_store \<Rightarrow> int list \<Rightarrow> test_filter \<Rightarrow> scored_result list" where
  "hydrate_ids_legacy store [] f = []"
| "hydrate_ids_legacy store (i # ids) f =
     (case ms_GetChunkByID store i of
        Inr (Some chunk) \<Rightarrow>
          (case accept_by_file_id f (ms_GetFileIsTestByID store) (cr_FileID chunk) of
             Inr True \<Rightarrow>
               scored_from_chunk chunk
                 (case ms_GetFilePathByID store (cr_FileID chunk) of Inr p \<Rightarrow> p | Inl _ \<Rightarrow> []) 0
                 # hydrate_ids_legacy store ids f
           | _ \<Rightarrow> hydrate_ids_legacy store ids f)
      | _ \<Rightarrow> hydrate_ids_legacy store ids f)"

definition merge_results ::
  "metadata_store \<Rightarrow> scored_result list \<Rightarrow> vector_result list \<Rightarrow> test_filter \<Rightarrow> scored_result list" where
  "merge_results store kwResults semResults f =
     (let needHydrate = map vr_ChunkID (dedup_on vr_ChunkID (sr_ChunkID ` set kwResults) semResults) in
      if needHydrate = [] then kwResults
      else
        case (case ms_batch store of
                Some bs \<Rightarrow> (case bs_BatchHydrateChunks bs needHydrate of Inr hs \<Rightarrow> Some hs | Inl _ \<Rightarrow> None)
              | None \<Rightarrow> None) of
          Some hydrated \<Rightarrow>
            kwResults @ map (\<lambda>h. scored_from_hydrated h 0) (filter (\<lambda>h. accept_is_test f (hc_IsTest h)) hydrated)
        | None \<Rightarrow> kwResults @ hydrate_ids_legacy store needHydrate f)"

section \<open>Search\<close>

definition input_filter :: "search_input \<Rightarrow> test_filter" where
  "input_filter input = \<lparr>tf_ExcludeTests = si_ExcludeTests input, tf_TestOnly = si_TestOnly input\<rparr>"

definition fallback_chunks :: "query_env \<Rightarrow> query_engine \<Rightarrow> scored_result list res" where
  "fallback_chunks env e =
     bind_res (wrap_res ''filesystem fallback''
         (filesystem_fallback (en_fs env) (en_ctxDone env) (qe_projectRoot e) 4096))
       (\<lambda>pkg. Inr (cp_Chunks pkg))"

definition search_keyword :: "query_env \<Rightarrow> search_input \<Rightarrow> query_engine \<Rightarrow> scored_result list res \<times> query_engine" where
  "search_keyword env input e =
     (case keyword_search (qe_store e) (si_Query input) (si_MaxResults input) (input_filter input) of
        Inl err \<Rightarrow> (Inl (ErrWrap ''keyword search'' err), e)
      | Inr results \<Rightarrow>
          if results = [] then (fallback_chunks env e, e)
          else
            let expanded = expand_split_siblings (en_sortLine env) (qe_store e) results;
                ranked = hybrid_rank (en_sortScore env)
                  \<lparr>hr_Candidates = expanded, hr_Store = qe_store e, hr_Weights = default_rank_weights,
                   hr_SemanticScores = Map.empty, hr_SemanticReady = False,
                   hr_SessionScorer = session_scorer (en_now env) e\<rparr>;
                kept = (if si_MinScore input > 0 then filter_by_score ranked (si_MinScore input) else ranked)
            in (Inr kept, record_session (en_now env) kept e))"

definition semantic_scores :: "vector_result list \<Rightarrow> int \<rightharpoonup> real" where
  "semantic_scores semResults =
     map_of (rev (map (\<lambda>sr. (vr_ChunkID sr, normalize_cosine_similarity (vr_Score sr))) semResults))"

definition search_semantic :: "query_env \<Rightarrow> search_input \<Rightarrow> query_engine \<Rightarrow> scored_result list res \<times> query_engine" where
  "search_semantic env input e =
     (let f = input_filter input in
      case keyword_search (qe_store e) (si_Query input) (si_MaxResults input * 2) f of
        Inl err \<Rightarrow> (Inl (ErrWrap ''keyword search'' err), e)
      | Inr kwResults \<Rightarrow>
          (case embed_query (si_Query input) e of
             (Inl _, e1) \<Rightarrow> search_keyword env input e1
           | (Inr queryVec, e1) \<Rightarrow>
               (case vo_Search (the (qe_vectorStore e1)) queryVec (si_MaxResults input * 2) of
                  Inl _ \<Rightarrow> search_keyword env input e1
                | Inr semResults \<Rightarrow>
                    let merged = merge_results (qe_store e1) kwResults semResults f;
                        expanded = expand_split_siblings (en_sortLine env) (qe_store e1) merged;
                        ranked = hybrid_rank (en_sortScore env)
                          \<lparr>hr_Candidates = expanded, hr_Store = qe_store e1, hr_Weights = default_rank_weights,
                           hr_SemanticScores = semantic_scores semResults, hr_SemanticReady = True,
                           hr_SessionScorer = session_scorer (en_now env) e1\<rparr>;
                        top = (if int (length ranked) > si_MaxResults input
                               then take (nat (si_MaxResults input)) ranked else ranked);
                        kept = (if si_MinScore input > 0 then filter_by_score top (si_MinScore input) else top)
                    in (Inr kept, record_session (en_now env) kept e1))))"

definition search :: "query_env \<Rightarrow> search_input \<Rightarrow> query_engine \<Rightarrow> scored_result list res \<times> query_engine" where
  "search env input0 e =
     (let input = (if si_MaxResults input0 \<le> 0 then input0\<lparr>si_MaxResults := 10\<rparr> else input0) in
      case engine_level e of
        LevelHybrid \<Rightarrow> search_semantic env input e
      | LevelMixed \<Rightarrow> search_semantic env input e
      | LevelKeyword \<Rightarrow> search_keyword env input e
      | LevelFilesystem \<Rightarrow> (fallback_chunks env e, e))"

section \<open>Context\<close>

definition budget_fallback :: "query_env \<Rightarrow> int \<Rightarrow> query_engine \<Rightarrow> context_package res" where
  "budget_fallback env budget e = filesystem_fallback (en_fs env) (en_ctxDone env) (qe_projectRoot e) budget"

definition assemble_results :: "query_env \<Rightarrow> query_engine \<Rightarrow> int \<Rightarrow> scored_result list \<Rightarrow> context_package" where
  "assemble_results env e budget results =
     assemble (en_sortScore env)
       \<lparr>as_Candidates = results, as_BudgetTokens = budget, as_Store = Some (qe_store e), as_Ctx = True\<rparr>"

definition context_semantic ::
  "query_env \<Rightarrow> context_input \<Rightarrow> fallback_level \<Rightarrow> query_engine \<Rightarrow> context_package res \<times> query_engine" where
  "context_semantic env input level e =
     (case search_semantic env \<lparr>si_Query = ci_Query input, si_MaxResults = 200, si_MinScore = 0,
             si_ExcludeTests = ci_ExcludeTests input, si_TestOnly = ci_TestOnly input\<rparr> e of
        (Inl err, e1) \<Rightarrow> (Inl err, e1)
      | (Inr results, e1) \<Rightarrow>
          if results = [] then (budget_fallback env (ci_BudgetTokens input) e1, e1)
          else (Inr ((assemble_results env e1 (ci_BudgetTokens input) results)\<lparr>cp_Strategy := level_string level\<rparr>), e1))"

definition context_keyword ::
  "query_env \<Rightarrow> context_input \<Rightarrow> query_engine \<Rightarrow> context_package res" where
  "context_keyword env input e =
     (case keyword_search (qe_store e) (ci_Query input) 200
             \<lparr>tf_ExcludeTests = ci_ExcludeTests input, tf_TestOnly = ci_TestOnly input\<rparr> of
        Inl err \<Rightarrow> Inl (ErrWrap ''keyword search for context'' err)
      | Inr results \<Rightarrow>
          if results = [] then budget_fallback env (ci_BudgetTokens input) e
          else
            let ranked = hybrid_rank (en_sortScore env)
                  \<lparr>hr_Candidates = results, hr_Store = qe_store e, hr_Weights = default_rank_weights,
                   hr_SemanticScores = Map.empty, hr_SemanticReady = False,
                   hr_SessionScorer = session_scorer (en_now env) e\<rparr>
            in Inr ((assemble_results env e (ci_BudgetTokens input) ranked)
                      \<lparr>cp_Strategy := level_string LevelKeyword\<rparr>))"

definition query_context ::
  "query_env \<Rightarrow> context_input \<Rightarrow> query_engine \<Rightarrow> context_package res \<times> query_engine" where
  "query_context env input0 e =
     (let input = (if ci_BudgetTokens input0 \<le> 0 then input0\<lparr>ci_BudgetTokens := 4096\<rparr> else input0);
          level = engine_level e
      in case level of
           LevelHybrid \<Rightarrow> context_semantic env input level e
         | LevelMixed \<Rightarrow> context_semantic env input level e
         | LevelKeyword \<Rightarrow> (context_keyword env input e, e)
         | LevelFilesystem \<Rightarrow> (budget_fallback env (ci_BudgetTokens input) e, e))"

section \<open>Lemmas on candidates\<close>

text \<open>The chunk \<open>i\<close> was read from the store and its file passed the filter.\<close>

definition passes_filter :: "metadata_store \<Rightarrow> test_filter \<Rightarrow> int \<Rightarrow> bool" where
  "passes_filter store f i \<longleftrightarrow>
     (\<exists>bs ids hs h. ms_batch store = Some bs \<and> bs_BatchHydrateChunks bs ids = Inr hs \<and> h \<in> set hs
        \<and> hc_ChunkID h = i \<and> accept_is_test f (hc_IsTest h))
   \<or> (\<exists>j c. ms_GetChunkByID store j = Inr (Some c) \<and> cr_ID c = i
        \<and> accept_by_file_id f (ms_GetFileIsTestByID store) (cr_FileID c) = Inr True)"

definition unit_score :: "scored_result \<Rightarrow> bool" where
  "unit_score r \<longleftrightarrow> 0 \<le> sr_Score r \<and> sr_Score r \<le> 1"

definition candidate_ok :: "metadata_store \<Rightarrow> test_filter \<Rightarrow> scored_result \<Rightarrow> bool" where
  "candidate_ok store f r \<longleftrightarrow> passes_filter store f (sr_ChunkID r) \<and> unit_score r"

lemma candidate_hydrated:
  "ms_batch store = Some bs \<Longrightarrow> bs_BatchHydrateChunks bs ids = Inr hs \<Longrightarrow> h \<in> set hs \<Longrightarrow>
   accept_is_test f (hc_IsTest h) \<Longrightarrow> 0 \<le> s \<and> s \<le> 1 \<Longrightarrow> candidate_ok store f (scored_from_hydrated h s)"
  by (auto simp: candidate_ok_def passes_filter_def scored_from_hydrated_def unit_score_def)

lemma candidate_chunk:
  "ms_GetChunkByID store j = Inr (Some c) \<Longrightarrow>
   accept_by_file_id f (ms_GetFileIsTestByID store) (cr_FileID c) = Inr True \<Longrightarrow> 0 \<le> s \<and> s \<le> 1 \<Longrightarrow>
   candidate_ok store f (scored_from_chunk c p s)"
  by (auto simp: candidate_ok_def passes_filter_def scored_from_chunk_def unit_score_def)

lemma hydrate_rows_ok:
  assumes "ms_batch store = Some bs" and "bs_BatchHydrateChunks bs ids = Inr hs"
  shows "(\<forall>r \<in> set (hydrate_rows (hydrated_map hs) f fts). candidate_ok store f r)
    \<and> length (hydrate_rows (hydrated_map hs) f fts) \<le> length fts"
proof (induction fts)
  case (Cons x xs)
  show ?case
  proof (cases "hydrated_map hs (ft_ChunkID x)")
    case (Some h)
    then have "h \<in> set hs" unfolding hydrated_map_def by (auto dest: map_of_SomeD)
    from candidate_hydrated [OF assms this] Some Cons.IH normalize_bm25_bounds show ?thesis by auto
  qed (use Cons.IH in simp)
qed simp

lemma hydrate_legacy_ok:
  "hydrate_fts_results_legacy store fts f = Inr rs \<Longrightarrow>
   (\<forall>r \<in> set rs. candidate_ok store f r) \<and> length rs \<le> length fts"
proof (induction fts arbitrary: rs)
  case (Cons x xs)
  then show ?case
    by (auto simp: bind_res_Inr_iff normalize_bm25_bounds intro: le_SucI
        dest!: candidate_chunk [of store _ _ f "normalize_bm25 (ft_Rank x)"]
        split: sum.splits option.splits if_splits)
qed simp

lemma keyword_search_ok:
  assumes "keyword_search store q n f = Inr rs"
  shows "\<forall>r \<in> set rs. candidate_ok store f r"
    and "\<exists>fts. ms_KeywordSearch store q (fts_limit n f) = Inr fts \<and> length rs \<le> length fts"
proof -
  from assms obtain fts where fts: "ms_KeywordSearch store q (fts_limit n f) = Inr fts"
    and rs: "rs = [] \<or> hydrate_fts_results store fts f = Inr rs"
    by (auto simp: keyword_search_def bind_res_Inr_iff split: if_splits)
  from rs have "(\<forall>r \<in> set rs. candidate_ok store f r) \<and> length rs \<le> length fts"
  proof
    assume h: "hydrate_fts_results store fts f = Inr rs"
    show ?thesis
    proof (cases "ms_batch store")
      case None
      with h show ?thesis by (intro hydrate_legacy_ok) (simp add: hydrate_fts_results_def)
    next
      case (Some bs)
      with h obtain hs where hs: "bs_BatchHydrateChunks bs (map ft_ChunkID fts) = Inr hs"
        and rs_eq: "rs = hydrate_rows (hydrated_map hs) f fts"
        by (auto simp: hydrate_fts_results_def hydrate_fts_results_batch_def bind_res_Inr_iff)
      from hydrate_rows_ok [OF Some hs] rs_eq show ?thesis by blast
    qed
  qed simp
  with fts show "\<forall>r \<in> set rs. candidate_ok store f r"
    and "\<exists>fts. ms_KeywordSearch store q (fts_limit n f) = Inr fts \<and> length rs \<le> length fts" by blast+
qed

lemma hydrate_ids_legacy_ok: "\<forall>r \<in> set (hydrate_ids_legacy store ids f). candidate_ok store f r"
  by (induction ids) (auto dest: candidate_chunk [where s = 0] split: sum.split option.split bool.split)

lemma merge_results_ok:
  assumes "\<forall>r \<in> set kw. candidate_ok store f r"
  shows "\<forall>r \<in> set (merge_results store kw sem f). candidate_ok store f r"
  using assms hydrate_ids_legacy_ok
  by (auto simp: merge_results_def Let_def candidate_hydrated split: option.split sum.splits)

text \<open>Merging siblings only drops and rescores results.\<close>

lemma best_score_in:
  "best_score ids key results b \<in> insert b (sr_Score ` set results)"
proof -
  have "finite (insert b (sr_Score ` {r \<in> set results. ids (sr_ChunkID r) = Some key}))" by simp
  from Max_in [OF this] show ?thesis unfolding best_score_Max by auto
qed

lemma merge_loop_ok:
  assumes "\<forall>r \<in> set results. candidate_ok store f r"
  shows "set rs \<subseteq> set results \<Longrightarrow>
    (\<forall>r \<in> set (merge_loop srt G ids results E rs). candidate_ok store f r)
    \<and> length (merge_loop srt G ids results E rs) \<le> length rs"
proof (induction rs arbitrary: E)
  case (Cons r rs)
  have merged: "candidate_ok store f (merged_result srt G ids results key r)" for key
  proof -
    have "sr_Score (merged_result srt G ids results key r) \<in> insert (sr_Score r) (sr_Score ` set results)"
      using best_score_in [of ids key results "sr_Score r"] by (simp add: merged_result_def Let_def)
    with assms Cons.prems show ?thesis by (auto simp: candidate_ok_def unit_score_def)
  qed
  from Cons.IH Cons.prems assms merged show ?case
    by (auto split: option.split simp: le_SucI)
qed simp

lemma expand_split_ok:
  assumes "\<forall>r \<in> set rs. candidate_ok store f r"
  shows "(\<forall>r \<in> set (expand_split_siblings srt store rs). candidate_ok store f r)
    \<and> length (expand_split_siblings srt store rs) \<le> length rs"
proof -
  have "(\<forall>r \<in> set (merge_siblings srt rs G). candidate_ok store f r) \<and> length (merge_siblings srt rs G) \<le> length rs" for G
    using assms merge_loop_ok [OF assms, of rs srt G] by (simp add: merge_siblings_def)
  with assms show ?thesis
    by (auto simp: expand_split_siblings_def expand_siblings_batch_def expand_siblings_legacy_def Let_def
        split: option.split sum.split)
qed

section \<open>Ranked answers\<close>

text \<open>What the signals owe the ranker.\<close>

definition signals_ok :: "query_env \<Rightarrow> query_engine \<Rightarrow> bool" where
  "signals_ok env e \<longleftrightarrow>
     (\<forall>ids m. ms_ComputeChangeScores (qe_store e) ids = Inr m \<longrightarrow> unit_scores (map_of m))
   \<and> (\<forall>ss. qe_sessionStore e = Some ss \<longrightarrow> session_ok (en_now env) ss)
   \<and> (\<forall>vs q k rs. qe_vectorStore e = Some vs \<longrightarrow> vo_Search vs q k = Inr rs \<longrightarrow>
        (\<forall>r \<in> set rs. - 1 \<le> vr_Score r \<and> vr_Score r \<le> 1))"

definition fts_limited :: "metadata_store \<Rightarrow> bool" where
  "fts_limited store \<longleftrightarrow>
     (\<forall>q n fts. 0 < n \<longrightarrow> ms_KeywordSearch store q n = Inr fts \<longrightarrow> int (length fts) \<le> n)"

definition ranked_ok :: "metadata_store \<Rightarrow> search_input \<Rightarrow> int \<Rightarrow> scored_result list \<Rightarrow> bool" where
  "ranked_ok store input n rs \<longleftrightarrow>
     sorted_wrt (\<lambda>a b. sr_Score b \<le> sr_Score a) rs \<and> int (length rs) \<le> n
   \<and> (\<forall>r \<in> set rs. candidate_ok store (input_filter input) r
        \<and> (0 < si_MinScore input \<longrightarrow> si_MinScore input \<le> sr_Score r))"

lemma semantic_scores_unit:
  assumes "\<forall>r \<in> set sem. - 1 \<le> vr_Score r \<and> vr_Score r \<le> 1"
  shows "unit_scores (semantic_scores sem)"
proof -
  have "0 \<le> normalize_cosine_similarity (vr_Score r) \<and> normalize_cosine_similarity (vr_Score r) \<le> 1"
    if "r \<in> set sem" for r
    using bspec [OF assms that] by (simp add: normalize_cosine_similarity_def)
  then show ?thesis unfolding unit_scores_def semantic_scores_def by (auto dest!: map_of_SomeD)
qed

lemma rank_candidates_ok:
  fixes ready :: bool
  assumes "slice_sort score_gt (en_sortScore env)" and sig: "signals_ok env e"
    and cs: "\<forall>r \<in> set cs. candidate_ok (qe_store e) f r" and sem: "unit_scores sem"
  defines "input \<equiv> \<lparr>hr_Candidates = cs, hr_Store = qe_store e, hr_Weights = default_rank_weights,
      hr_SemanticScores = sem, hr_SemanticReady = ready, hr_SessionScorer = session_scorer (en_now env) e\<rparr>"
  shows "sorted_wrt (\<lambda>a b. sr_Score b \<le> sr_Score a) (hybrid_rank (en_sortScore env) input)
    \<and> length (hybrid_rank (en_sortScore env) input) = length cs
    \<and> (\<forall>r \<in> set (hybrid_rank (en_sortScore env) input). candidate_ok (qe_store e) f r)"
proof -
  have "0 \<le> session_score (en_now env) p l ss \<and> session_score (en_now env) p l ss \<le> 1"
    if "qe_sessionStore e = Some ss" for ss p l
    using sig that session_score_ok [of "en_now env" ss p l] by (simp add: signals_ok_def)
  then have "unit_signals input"
    using cs sem sig by (auto simp: unit_signals_def input_def candidate_ok_def unit_score_def signals_ok_def session_scorer_def)
  from hybrid_rank_unit [OF assms(1) _ this] have "\<forall>r \<in> set (hybrid_rank (en_sortScore env) input). unit_score r"
    by (simp add: unit_score_def input_def)
  moreover have "passes_filter (qe_store e) f (sr_ChunkID r)" if "r \<in> set (hybrid_rank (en_sortScore env) input)" for r
  proof -
    from that hybrid_rank_perm(4) [OF assms(1), of input] have "sr_ChunkID r \<in> sr_ChunkID ` set cs"
      by (auto simp: input_def)
    with cs show ?thesis by (auto simp: candidate_ok_def)
  qed
  ultimately show ?thesis
    using hybrid_rank_perm(2,3) [OF assms(1), of input] by (simp add: candidate_ok_def input_def)
qed

lemma ranked_ok_keep:
  assumes "sorted_wrt (\<lambda>a b. sr_Score b \<le> sr_Score a) rs" and "int (length rs) \<le> n"
    and "\<forall>r \<in> set rs. candidate_ok store (input_filter input) r"
  shows "ranked_ok store input n (if si_MinScore input > 0 then filter_by_score rs (si_MinScore input) else rs)"
proof -
  have "int (length (filter_by_score rs (si_MinScore input))) \<le> n"
    using assms(2) length_filter_le [of "\<lambda>r. sr_Score r \<ge> si_MinScore input" rs]
    unfolding filter_by_score_def by linarith
  then show ?thesis using assms by (auto simp: ranked_ok_def filter_by_score_def sorted_wrt_filter)
qed

lemma search_keyword_ok:
  assumes "slice_sort score_gt (en_sortScore env)" and "signals_ok env e" and "fts_limited (qe_store e)"
    and pos: "0 < si_MaxResults input" and run: "search_keyword env input e = (Inr rs, e')"
  shows "fallback_chunks env e = Inr rs \<and> e' = e
    \<or> ranked_ok (qe_store e) input (if filter_active (input_filter input) then 2 * si_MaxResults input else si_MaxResults input) rs
      \<and> e' = record_session (en_now env) rs e"
proof (cases "keyword_search (qe_store e) (si_Query input) (si_MaxResults input) (input_filter input)")
  case (Inr kw)
  let ?f = "input_filter input" and ?n = "if filter_active (input_filter input) then 2 * si_MaxResults input else si_MaxResults input"
  show ?thesis
  proof (cases "kw = []")
    case True
    with Inr run show ?thesis by (auto simp: search_keyword_def)
  next
    case False
    let ?x = "expand_split_siblings (en_sortLine env) (qe_store e) kw"
    let ?r = "hybrid_rank (en_sortScore env) \<lparr>hr_Candidates = ?x, hr_Store = qe_store e,
      hr_Weights = default_rank_weights, hr_SemanticScores = Map.empty, hr_SemanticReady = False,
      hr_SessionScorer = session_scorer (en_now env) e\<rparr>"
    note kw = keyword_search_ok [OF Inr]
    note x = expand_split_ok [OF kw(1), of "en_sortLine env"]
    note r = rank_candidates_ok [OF assms(1,2) x [THEN conjunct1], where sem = Map.empty and ready = False]
    obtain fts where fts: "ms_KeywordSearch (qe_store e) (si_Query input) (fts_limit (si_MaxResults input) ?f) = Inr fts"
      "length kw \<le> length fts" using kw(2) by blast
    have lim: "0 < fts_limit (si_MaxResults input) ?f" "fts_limit (si_MaxResults input) ?f \<le> ?n"
      using pos by (auto simp: fts_limit_def filter_active_def)
    from lim(1) fts(1) assms(3) have "int (length fts) \<le> fts_limit (si_MaxResults input) ?f"
      by (simp add: fts_limited_def)
    with fts(2) lim(2) x r have "int (length ?r) \<le> ?n" by (simp add: unit_scores_def)
    moreover have kept: "rs = (if si_MinScore input > 0 then filter_by_score ?r (si_MinScore input) else ?r)"
      and "e' = record_session (en_now env) rs e"
      using run Inr False by (auto simp: search_keyword_def Let_def)
    ultimately show ?thesis
      using ranked_ok_keep [of ?r ?n "qe_store e" input] r by (simp add: unit_scores_def)
  qed
qed (use run in \<open>simp add: search_keyword_def\<close>)

lemma embed_query_frame:
  "embed_query q e = (r, e1) \<Longrightarrow> \<exists>c. e1 = e\<lparr>qe_embedCache := c\<rparr>"
  by (auto simp: embed_query_def Let_def split: prod.splits option.splits sum.splits)

lemma signals_ok_cache [simp]: "signals_ok env (e\<lparr>qe_embedCache := c\<rparr>) = signals_ok env e"
  by (simp add: signals_ok_def)

lemma fallback_chunks_cache [simp]: "fallback_chunks env (e\<lparr>qe_embedCache := c\<rparr>) = fallback_chunks env e"
  by (simp add: fallback_chunks_def)

lemma search_semantic_ok:
  assumes "slice_sort score_gt (en_sortScore env)" and sig: "signals_ok env e" and "fts_limited (qe_store e)"
    and pos: "0 < si_MaxResults input" and vs: "qe_vectorStore e \<noteq> None"
    and run: "search_semantic env input e = (Inr rs, e')"
  shows "\<exists>c. fallback_chunks env e = Inr rs \<and> e' = e\<lparr>qe_embedCache := c\<rparr>
    \<or> ranked_ok (qe_store e) input (if filter_active (input_filter input) then 2 * si_MaxResults input else si_MaxResults input) rs
      \<and> e' = record_session (en_now env) rs (e\<lparr>qe_embedCache := c\<rparr>)"
proof -
  let ?f = "input_filter input" and ?n = "if filter_active (input_filter input) then 2 * si_MaxResults input else si_MaxResults input"
  obtain kw where kw: "keyword_search (qe_store e) (si_Query input) (si_MaxResults input * 2) ?f = Inr kw"
    using run by (auto simp: search_semantic_def Let_def split: sum.splits)
  obtain q e1 where q: "embed_query (si_Query input) e = (q, e1)" by fastforce
  from embed_query_frame [OF q] obtain c where e1: "e1 = e\<lparr>qe_embedCache := c\<rparr>" by blast
  have key: ?thesis if "search_keyword env input e1 = (Inr rs, e')"
    using search_keyword_ok [OF assms(1) _ _ pos that] sig assms(3) by (auto simp: e1)
  show ?thesis
  proof (cases q)
    case (Inl err)
    with run kw q key show ?thesis by (simp add: search_semantic_def)
  next
    case (Inr v)
    show ?thesis
    proof (cases "vo_Search (the (qe_vectorStore e1)) v (si_MaxResults input * 2)")
      case (Inl err)
      with run kw q Inr key show ?thesis by (simp add: search_semantic_def)
    next
      case sem: (Inr sem)
      let ?x = "expand_split_siblings (en_sortLine env) (qe_store e1) (merge_results (qe_store e1) kw sem ?f)"
      let ?r = "hybrid_rank (en_sortScore env) \<lparr>hr_Candidates = ?x, hr_Store = qe_store e1,
        hr_Weights = default_rank_weights, hr_SemanticScores = semantic_scores sem, hr_SemanticReady = True,
        hr_SessionScorer = session_scorer (en_now env) e1\<rparr>"
      let ?t = "if int (length ?r) > si_MaxResults input then take (nat (si_MaxResults input)) ?r else ?r"
      have "unit_scores (semantic_scores sem)"
        using sig vs sem unfolding signals_ok_def e1 by (intro semantic_scores_unit) auto
      moreover have "\<forall>r \<in> set ?x. candidate_ok (qe_store e1) ?f r"
        using expand_split_ok [OF merge_results_ok [OF keyword_search_ok(1) [OF kw]]] by (simp add: e1)
      ultimately have r: "sorted_wrt (\<lambda>a b. sr_Score b \<le> sr_Score a) ?r"
          "\<forall>r \<in> set ?r. candidate_ok (qe_store e1) ?f r"
        using rank_candidates_ok [OF assms(1), where e = e1 and cs = ?x and f = ?f and sem = "semantic_scores sem" and ready = True] sig by (simp_all add: e1)
      then have "sorted_wrt (\<lambda>a b. sr_Score b \<le> sr_Score a) ?t" "\<forall>r \<in> set ?t. candidate_ok (qe_store e1) ?f r"
        by (auto simp: sorted_wrt_take dest: in_set_takeD)
      moreover have "int (length ?t) \<le> ?n" using pos by auto
      moreover have "rs = (if si_MinScore input > 0 then filter_by_score ?t (si_MinScore input) else ?t)"
        and "e' = record_session (en_now env) rs e1"
        using run kw q Inr sem by (auto simp: search_semantic_def Let_def)
      ultimately show ?thesis using ranked_ok_keep [of ?t ?n "qe_store e1" input] by (auto simp: e1)
    qed
  qed
qed

section \<open>The query embedding\<close>

text \<open>The cache holds what the embedder answered.\<close>

definition cache_coherent :: "(string \<Rightarrow> vec res) \<Rightarrow> embed_cache \<Rightarrow> bool" where
  "cache_coherent emb c \<longleftrightarrow> cache_inv c \<and> (\<forall>x \<in> set (ec_contents c). emb (ce_key x) = Inr (ce_vec x))"

lemma cache_coherent_put:
  assumes "cache_coherent emb c" and "emb q = Inr v"
  shows "cache_coherent emb (cache_put q v c)"
proof -
  have "set (ec_contents (cache_put q v c)) \<subseteq> insert \<lparr>ce_key = q, ce_vec = v\<rparr> (set (ec_contents c))"
    using cache_put_contents [of c q v] assms(1) by (auto simp: cache_coherent_def dest: in_set_dropD)
  with assms cache_put_contents [of c q v] show ?thesis by (auto simp: cache_coherent_def)
qed

lemma cache_get_coherent:
  assumes "cache_coherent emb c"
  shows "cache_coherent emb (snd (cache_get q c))"
    and "fst (cache_get q c) = Some v \<Longrightarrow> emb q = Inr v"
    and "fst (cache_get q c) = None \<Longrightarrow> snd (cache_get q c) = c \<and> q \<notin> ce_key ` set (ec_contents c)"
proof -
  from assms have inv: "cache_inv c" by (simp add: cache_coherent_def)
  have "cache_coherent emb (snd (cache_get q c)) \<and> (fst (cache_get q c) = Some v \<longrightarrow> emb q = Inr v)
    \<and> (fst (cache_get q c) = None \<longrightarrow> snd (cache_get q c) = c \<and> q \<notin> ce_key ` set (ec_contents c))" for v
  proof (cases "find (\<lambda>e. ce_key e = q) (ec_contents c)")
    case None
    with cache_get_missing [OF inv None] assms show ?thesis by (auto simp: find_None_set)
  next
    case (Some x)
    from find_Some_set [OF Some] have "x \<in> set (ec_contents c)" "ce_key x = q" by simp_all
    with cache_get_found [OF inv Some] assms show ?thesis by (auto simp: cache_coherent_def)
  qed
  then show "cache_coherent emb (snd (cache_get q c))"
    and "fst (cache_get q c) = Some v \<Longrightarrow> emb q = Inr v"
    and "fst (cache_get q c) = None \<Longrightarrow> snd (cache_get q c) = c \<and> q \<notin> ce_key ` set (ec_contents c)" by blast+
qed

lemma cache_get_after_put:
  "cache_inv c \<Longrightarrow> fst (cache_get q (cache_put q v c)) = Some v"
proof -
  assume inv: "cache_inv c"
  note put = cache_put_contents [OF inv, of q v]
  have "find (\<lambda>e. ce_key e = q) (xs @ [\<lparr>ce_key = q, ce_vec = v\<rparr>]) \<noteq> None" for xs by (simp add: find_None_set)
  then obtain e where e: "find (\<lambda>e. ce_key e = q) (ec_contents (cache_put q v c)) = Some e" using put by fastforce
  have "distinct (map ce_key (ec_contents (cache_put q v c)))"
    using conjunct1 [OF put] lru_distinct_keys [of ce_key "ec_lru (cache_put q v c)"] by (simp add: cache_inv_def)
  moreover have "\<lparr>ce_key = q, ce_vec = v\<rparr> \<in> set (ec_contents (cache_put q v c))" using put by auto
  ultimately have "find (\<lambda>e. ce_key e = ce_key \<lparr>ce_key = q, ce_vec = v\<rparr>) (ec_contents (cache_put q v c)) = Some \<lparr>ce_key = q, ce_vec = v\<rparr>"
    by (rule find_key_distinct)
  with e have "e = \<lparr>ce_key = q, ce_vec = v\<rparr>" by simp
  with cache_get_found [OF _ e] put show ?thesis by simp
qed

lemma cache_get_again:
  assumes inv: "cache_inv c" and hit: "fst (cache_get q c) = Some v"
  shows "fst (cache_get q (snd (cache_get q c))) = Some v"
proof (cases "find (\<lambda>e. ce_key e = q) (ec_contents c)")
  case None
  with cache_get_missing [OF inv None] hit show ?thesis by simp
next
  case (Some e)
  note g = cache_get_found [OF inv Some]
  from find_Some_set [OF Some] have "ce_key e = q" by simp
  then have "find (\<lambda>x. ce_key x = q) (filter (\<lambda>x. ce_key x \<noteq> q) xs @ [e]) = Some e" for xs
    by (induction xs) auto
  with g have "find (\<lambda>x. ce_key x = q) (ec_contents (snd (cache_get q c))) = Some e" by metis
  from cache_get_found [OF _ this] g hit show ?thesis by simp
qed

lemma context_package_ok:
  assumes "slice_sort score_gt (en_sortScore env)" and "0 < b"
  shows "cp_TotalTokens (assemble_results env e b rs) = total_tokens (cp_Chunks (assemble_results env e b rs))
    \<and> (cp_Meta (assemble_results env e b rs) ''truncated'' = None
         \<and> cp_Meta (assemble_results env e b rs) ''budget_overflow'' = None
         \<longrightarrow> cp_TotalTokens (assemble_results env e b rs) \<le> b)"
  using assemble_within_budget [OF assms(1), of "\<lparr>as_Candidates = rs, as_BudgetTokens = b, as_Store = Some (qe_store e), as_Ctx = True\<rparr>"]
    assms(2)
  by (simp add: assemble_results_def assemble_fields)

lemma budget_fallback_ok:
  assumes "budget_fallback env b e = Inr pkg" and "0 < b"
  shows "cp_TotalTokens pkg = total_tokens (cp_Chunks pkg) \<and> cp_TotalTokens pkg \<le> b
    \<and> cp_Strategy pkg = level_string LevelFilesystem"
  using filesystem_fallback_fields [of "en_fs env" "en_ctxDone env" "qe_projectRoot e" b pkg] assms
  by (simp add: budget_fallback_def total_tokens_def)

lemma search_keyword_cache: "fst (search_keyword env input (e\<lparr>qe_embedCache := c\<rparr>)) = fst (search_keyword env input e)"
  by (simp add: search_keyword_def session_scorer_def Let_def split: sum.split)

lemma search_keyword_vectors: "fst (search_keyword env input (e\<lparr>qe_vectorStore := v\<rparr>)) = fst (search_keyword env input e)"
  by (simp add: search_keyword_def session_scorer_def fallback_chunks_def Let_def split: sum.split)

lemma semantic_level_stores:
  assumes "engine_level e \<in> {LevelHybrid, LevelMixed}"
  shows "qe_vectorStore e \<noteq> None" and "engine_level (e\<lparr>qe_vectorStore := None\<rparr>) = LevelKeyword"
proof -
  from assms obtain vs emb where "qe_vectorStore e = Some vs" "qe_embedder e = Some emb"
    and "determine_level_full (qe_store e) n r \<in> {LevelHybrid, LevelMixed} \<or> True" for n r
    by (cases "qe_vectorStore e"; cases "qe_embedder e")
      (auto simp: engine_level_def determine_level_def split: sum.splits if_splits)
  with assms show "qe_vectorStore e \<noteq> None" and "engine_level (e\<lparr>qe_vectorStore := None\<rparr>) = LevelKeyword"
    by (auto simp: engine_level_def determine_level_def determine_level_full_def Let_def split: sum.splits if_splits)
qed

lemma search_post:
  assumes "slice_sort score_gt (en_sortScore env)" and "signals_ok env e" and "fts_limited (qe_store e)"
    and "search env input e = (Inr rs, e')"
  defines "n \<equiv> if si_MaxResults input \<le> 0 then 10 else si_MaxResults input"
  shows "qe_store e' = qe_store e
    \<and> (fallback_chunks env e = Inr rs \<and> qe_sessionStore e' = qe_sessionStore e
      \<or> ranked_ok (qe_store e) input (if filter_active (input_filter input) then 2 * n else n) rs
        \<and> qe_sessionStore e' = map_option (record_and_decay (en_now env) (result_hits rs)) (qe_sessionStore e))"
proof -
  define i where "i = (if si_MaxResults input \<le> 0 then input\<lparr>si_MaxResults := 10\<rparr> else input)"
  have i: "0 < si_MaxResults i" "si_MaxResults i = n" "input_filter i = input_filter input"
    "si_MinScore i = si_MinScore input"
    by (simp_all add: i_def n_def input_filter_def)
  have ro: "ranked_ok (qe_store e) i m rs = ranked_ok (qe_store e) input m rs" for m
    by (simp add: ranked_ok_def i)
  have rec: "qe_sessionStore (record_session t rs e0) = map_option (record_and_decay t (result_hits rs)) (qe_sessionStore e0)
      \<and> qe_store (record_session t rs e0) = qe_store e0" for t e0
    by (simp add: record_session_def split: option.split)
  have sem: ?thesis if "search_semantic env i e = (Inr rs, e')" "engine_level e \<in> {LevelHybrid, LevelMixed}"
    using search_semantic_ok [OF assms(1-3) i(1) semantic_level_stores(1) [OF that(2)] that(1)] i(2,3) ro rec by auto
  have key: ?thesis if "search_keyword env i e = (Inr rs, e')"
    using search_keyword_ok [OF assms(1-3) i(1) that] i(2,3) ro rec by auto
  show ?thesis
    using assms(4) sem key unfolding search_def i_def [symmetric] Let_def
    by (cases "engine_level e") auto
qed

section \<open>Properties\<close>

text \<open>C13. A search answers either with the file system fallback or with ranked results: in
  descending score, every score between 0 and 1 and at least the minimum asked for, every
  chunk read from the store with a file the test filter accepts. There are at most as many as
  asked for (ten when nothing was asked for), except that with a test filter the keyword path
  may return twice as many. The returned locations, and no others, are recorded in the session.\<close>

theorem search_ranked:
  assumes "slice_sort score_gt (en_sortScore env)" and "signals_ok env e" and "fts_limited (qe_store e)"
    and "search env input e = (Inr rs, e')"
  defines "n \<equiv> if si_MaxResults input \<le> 0 then 10 else si_MaxResults input"
  shows "qe_store e' = qe_store e
    \<and> (fallback_chunks env e = Inr rs \<and> qe_sessionStore e' = qe_sessionStore e
      \<or> ranked_ok (qe_store e) input (if filter_active (input_filter input) then 2 * n else n) rs
        \<and> qe_sessionStore e' = map_option (record_and_decay (en_now env) (result_hits rs)) (qe_sessionStore e))"
  using search_post [OF assms(1-4)] unfolding n_def .

definition sample_store :: metadata_store where
  "sample_store = empty_store\<lparr>ms_GetIndexStats := Inr (empty_stats\<lparr>st_TotalChunks := 2\<rparr>),
     ms_KeywordSearch := (\<lambda>_ n. Inr (take (nat n) [\<lparr>ft_ChunkID = 1, ft_Rank = - 3\<rparr>, \<lparr>ft_ChunkID = 2, ft_Rank = - 2\<rparr>])),
     ms_GetChunkByID := (\<lambda>i. Inr (Some (zero_chunk\<lparr>cr_ID := i\<rparr>))),
     ms_GetFilePathByID := (\<lambda>_. Inr ''a.go''), ms_GetFileIsTestByID := (\<lambda>_. Inr False)\<rparr>"

definition sample_env :: query_env where
  "sample_env = \<lparr>en_now = 0, en_fs = sample_fs, en_ctxDone = (\<lambda>_. False),
     en_sortScore = insertion_sort score_gt, en_sortLine = insertion_sort start_line_lt\<rparr>"

definition sample_input :: search_input where
  "sample_input = \<lparr>si_Query = ''q'', si_MaxResults = 1, si_MinScore = 0, si_ExcludeTests = True, si_TestOnly = False\<rparr>"

theorem search_ranked_witness:
  "\<exists>rs e'. search sample_env sample_input (new_query_engine sample_store ''/p'' []) = (Inr rs, e')
     \<and> length rs = 2 \<and> qe_store e' = sample_store"
proof -
  let ?e = "new_query_engine sample_store ''/p'' []"
  obtain kw where kw: "keyword_search sample_store ''q'' 1 (input_filter sample_input) = Inr kw"
    "expand_split_siblings (insertion_sort start_line_lt) sample_store kw = kw" "length kw = 2" "kw \<noteq> []"
    by (simp add: keyword_search_def sample_store_def input_filter_def sample_input_def fts_limit_def
        hydrate_fts_results_def accept_by_file_id_def filter_active_def accept_is_test_def empty_store_def
        expand_split_siblings_def expand_siblings_legacy_def has_sibling_key_def scored_from_chunk_def zero_chunk_def
        merge_siblings_def)
  have lv: "engine_level ?e = LevelKeyword"
    by (simp add: engine_level_def new_query_engine_def determine_level_def sample_store_def)
  obtain rs e' where run: "search_keyword sample_env sample_input ?e = (Inr rs, e')" "length rs = 2"
    using kw hybrid_rank_perm(3) [OF slice_sort_score]
    by (simp add: search_keyword_def new_query_engine_def sample_input_def sample_env_def Let_def)
  have "signals_ok sample_env ?e"
    by (simp add: signals_ok_def new_query_engine_def sample_store_def empty_store_def unit_scores_def)
  moreover have "fts_limited sample_store" by (auto simp: fts_limited_def sample_store_def min_def)
  moreover have "search sample_env sample_input ?e = (Inr rs, e')"
    using run lv by (simp add: search_def sample_input_def)
  ultimately have "qe_store e' = sample_store"
    using search_ranked [of sample_env ?e sample_input rs e'] slice_sort_score
    by (simp add: sample_env_def new_query_engine_def)
  with run \<open>search sample_env sample_input ?e = (Inr rs, e')\<close> show ?thesis by blast
qed

text \<open>When the query cannot be embedded or the vector search fails, a search answers exactly
  what it would answer without a vector store at all, as long as the wider keyword search that
  runs first succeeds.\<close>

theorem search_degrades:
  assumes "engine_level e \<in> {LevelHybrid, LevelMixed}" and "0 < si_MaxResults input"
    and "keyword_search (qe_store e) (si_Query input) (si_MaxResults input * 2) (input_filter input) = Inr kw"
    and "embed_query (si_Query input) e = (r, e1)"
    and "\<forall>v. r = Inr v \<longrightarrow> (\<exists>err. vo_Search (the (qe_vectorStore e)) v (si_MaxResults input * 2) = Inl err)"
  shows "fst (search env input e) = fst (search env input (e\<lparr>qe_vectorStore := None\<rparr>))"
proof -
  from embed_query_frame [OF assms(4)] obtain c where e1: "e1 = e\<lparr>qe_embedCache := c\<rparr>" by blast
  have "search_semantic env input e = search_keyword env input e1"
    using assms(3,4,5) by (auto simp: search_semantic_def e1 split: sum.splits)
  moreover have "fst (search env input e) = fst (search_semantic env input e)"
    using assms(1,2) by (auto simp: search_def)
  moreover have "fst (search env input (e\<lparr>qe_vectorStore := None\<rparr>)) = fst (search_keyword env input e)"
    using semantic_level_stores(2) [OF assms(1)] assms(2) by (simp add: search_def search_keyword_vectors)
  ultimately show ?thesis by (simp add: e1 search_keyword_cache)
qed

theorem search_degrades_witness:
  "fst (search sample_env sample_input
     (set_vector_store \<lparr>vo_Search = (\<lambda>_ _. Inr []), vo_Count = Inr 2\<rparr> (\<lambda>_. Inl ErrOllamaUnreachable) True
        (new_query_engine sample_store ''/p'' [])))
   = fst (search sample_env sample_input
     ((set_vector_store \<lparr>vo_Search = (\<lambda>_ _. Inr []), vo_Count = Inr 2\<rparr> (\<lambda>_. Inl ErrOllamaUnreachable) True
        (new_query_engine sample_store ''/p'' []))\<lparr>qe_vectorStore := None\<rparr>))"
proof -
  let ?e = "set_vector_store \<lparr>vo_Search = (\<lambda>_ _. Inr []), vo_Count = Inr 2\<rparr> (\<lambda>_. Inl ErrOllamaUnreachable) True
     (new_query_engine sample_store ''/p'' [])"
  have "engine_level ?e \<in> {LevelHybrid, LevelMixed}"
    by (simp add: engine_level_def set_vector_store_def new_query_engine_def determine_level_full_def sample_store_def)
  moreover have "0 < si_MaxResults sample_input" by (simp add: sample_input_def)
  moreover obtain kw where "keyword_search (qe_store ?e) (si_Query sample_input) (si_MaxResults sample_input * 2) (input_filter sample_input) = Inr kw"
    by (simp add: keyword_search_def sample_store_def input_filter_def sample_input_def fts_limit_def set_vector_store_def
        new_query_engine_def hydrate_fts_results_def accept_by_file_id_def filter_active_def accept_is_test_def empty_store_def
        zero_chunk_def)
  moreover have "cache_inv (qe_embedCache ?e)" "ec_contents (qe_embedCache ?e) = []"
    by (simp_all add: set_vector_store_def new_query_engine_def) (simp add: new_embed_cache_def)
  then have "embed_query (si_Query sample_input) ?e = (Inl ErrOllamaUnreachable, ?e)"
    using cache_get_missing [of "qe_embedCache ?e" "qe_queryPrefix ?e @ si_Query sample_input"]
    by (simp add: embed_query_def set_vector_store_def new_query_engine_def)
  ultimately show ?thesis by (rule search_degrades) simp
qed

text \<open>The embedding cache is transparent: as long as it holds only answers of the embedder, the
  query is embedded as the embedder would embed it, success or failure; a failure leaves the
  engine as it was and is not remembered; after a success the same query is answered without
  the embedder, whatever that would say by then.\<close>

theorem embed_query_transparent:
  assumes "qe_embedder e = Some emb" and "cache_coherent emb (qe_embedCache e)"
    and "embed_query q e = (r, e1)"
  shows "r = emb (qe_queryPrefix e @ q) \<and> cache_coherent emb (qe_embedCache e1)
    \<and> (\<forall>err. r = Inl err \<longrightarrow> e1 = e)
    \<and> (\<forall>v emb'. r = Inr v \<longrightarrow> fst (embed_query q (e1\<lparr>qe_embedder := emb'\<rparr>)) = Inr v)"
proof -
  let ?q = "qe_queryPrefix e @ q"
  note get = cache_get_coherent [OF assms(2), of ?q]
  have again: "fst (embed_query q (e0\<lparr>qe_embedder := emb'\<rparr>)) = Inr v"
    if "fst (cache_get (qe_queryPrefix e0 @ q) (qe_embedCache e0)) = Some v" for e0 emb' v
    using that by (cases "cache_get (qe_queryPrefix e0 @ q) (qe_embedCache e0)") (simp add: embed_query_def)
  have put_get: "fst (cache_get ?q (cache_put ?q v (qe_embedCache e))) = Some v" for v
    using assms(2) by (intro cache_get_after_put) (simp add: cache_coherent_def)
  show ?thesis
  proof (cases "cache_get ?q (qe_embedCache e)")
    case (Pair hit c)
    show ?thesis
    proof (cases hit)
      case None
      with get(3) Pair have c: "c = qe_embedCache e" by simp
      show ?thesis
      proof (cases "emb ?q")
        case (Inl err)
        with None Pair c assms have "r = Inl err" "e1 = e" by (simp_all add: embed_query_def)
        with Inl assms(2) show ?thesis by simp
      next
        case (Inr v)
        then have "r = Inr v" and e1: "e1 = e\<lparr>qe_embedCache := cache_put ?q v (qe_embedCache e)\<rparr>"
          using None Pair c assms by (simp_all add: embed_query_def)
        with Inr cache_coherent_put [OF assms(2) Inr] again [of e1 v] put_get [of v] show ?thesis by simp
      qed
    next
      case (Some v)
      then have r: "r = Inr v" "e1 = e\<lparr>qe_embedCache := c\<rparr>" using Pair assms by (simp_all add: embed_query_def)
      moreover have "emb ?q = Inr v" using get(2) Pair Some by simp
      moreover have "cache_coherent emb c" using get(1) Pair by simp
      moreover have "fst (cache_get ?q c) = Some v"
        using cache_get_again [of "qe_embedCache e" ?q v] Pair Some assms(2) by (simp add: cache_coherent_def)
      ultimately show ?thesis using again [of e1 v] by simp
    qed
  qed
qed

theorem embed_query_transparent_witness:
  "fst (embed_query ''q'' (set_vector_store \<lparr>vo_Search = (\<lambda>_ _. Inr []), vo_Count = Inr 2\<rparr> (\<lambda>t. Inr [F32 (real (length t))]) True
     (new_query_engine sample_store ''/p'' ''s:''))) = Inr [F32 3]"
proof -
  let ?emb = "\<lambda>t. Inr [F32 (real (length t))]"
  let ?e = "set_vector_store \<lparr>vo_Search = (\<lambda>_ _. Inr []), vo_Count = Inr 2\<rparr> ?emb True (new_query_engine sample_store ''/p'' ''s:'')"
  have "qe_embedder ?e = Some ?emb" by (simp add: set_vector_store_def)
  moreover have "cache_inv (qe_embedCache ?e)" "ec_contents (qe_embedCache ?e) = []"
    by (simp_all add: set_vector_store_def new_query_engine_def) (simp add: new_embed_cache_def)
  then have "cache_coherent ?emb (qe_embedCache ?e)" by (simp add: cache_coherent_def)
  moreover obtain r e1 where eq: "embed_query ''q'' ?e = (r, e1)" by fastforce
  ultimately have "r = ?emb (qe_queryPrefix ?e @ ''q'')" using embed_query_transparent by blast
  with eq show ?thesis by (simp add: set_vector_store_def new_query_engine_def)
qed

text \<open>An assembled context reports the token total of its chunks, stays within the budget asked
  for (4096 when none was) unless it carries the truncation or the overflow flag, and names the
  level it was assembled at or the file system fallback.\<close>

theorem context_within_budget:
  assumes "slice_sort score_gt (en_sortScore env)" and "query_context env input e = (Inr pkg, e')"
  shows "cp_TotalTokens pkg = total_tokens (cp_Chunks pkg)
    \<and> (cp_Meta pkg ''truncated'' = None \<and> cp_Meta pkg ''budget_overflow'' = None \<longrightarrow>
         cp_TotalTokens pkg \<le> (if ci_BudgetTokens input \<le> 0 then 4096 else ci_BudgetTokens input))
    \<and> cp_Strategy pkg \<in> {level_string (engine_level e), level_string LevelFilesystem}"
proof -
  define i where "i = (if ci_BudgetTokens input \<le> 0 then input\<lparr>ci_BudgetTokens := 4096\<rparr> else input)"
  have b: "0 < ci_BudgetTokens i" "ci_BudgetTokens i = (if ci_BudgetTokens input \<le> 0 then 4096 else ci_BudgetTokens input)"
    by (simp_all add: i_def)
  define P where "P \<longleftrightarrow> cp_TotalTokens pkg = total_tokens (cp_Chunks pkg)
    \<and> (cp_Meta pkg ''truncated'' = None \<and> cp_Meta pkg ''budget_overflow'' = None \<longrightarrow>
         cp_TotalTokens pkg \<le> ci_BudgetTokens i)
    \<and> cp_Strategy pkg \<in> {level_string (engine_level e), level_string LevelFilesystem}"
  have fb: P if "budget_fallback env (ci_BudgetTokens i) e0 = Inr pkg" for e0
    using budget_fallback_ok [OF that b(1)] by (simp add: P_def)
  have as: P if "pkg = (assemble_results env e0 (ci_BudgetTokens i) rs)\<lparr>cp_Strategy := level_string (engine_level e)\<rparr>" for e0 rs
    using context_package_ok [OF assms(1) b(1), where e = e0 and rs = rs] by (auto simp: P_def that)
  have sem: P if "context_semantic env i (engine_level e) e = (Inr pkg, e')"
    using that fb as by (auto simp: context_semantic_def split: prod.splits sum.splits if_splits)
  have key: P if "context_keyword env i e = Inr pkg" "engine_level e = LevelKeyword"
    using that fb as by (auto simp: context_keyword_def Let_def split: sum.splits if_splits)
  have P
    using assms(2) sem key fb unfolding query_context_def i_def [symmetric] Let_def
    by (cases "engine_level e") auto
  then show ?thesis unfolding P_def b(2) .
qed

theorem context_within_budget_witness:
  "\<exists>pkg e'. query_context sample_env \<lparr>ci_Query = ''q'', ci_BudgetTokens = 10, ci_ExcludeTests = False, ci_TestOnly = False\<rparr>
      (new_query_engine empty_store ''/p'' []) = (Inr pkg, e') \<and> cp_TotalTokens pkg = total_tokens (cp_Chunks pkg)"
proof -
  let ?i = "\<lparr>ci_Query = ''q'', ci_BudgetTokens = 10, ci_ExcludeTests = False, ci_TestOnly = False\<rparr>"
  have "engine_level (new_query_engine empty_store ''/p'' []) = LevelFilesystem"
    by (simp add: engine_level_def new_query_engine_def determine_level_def empty_store_def empty_stats_def)
  then obtain pkg e' where run: "query_context sample_env ?i (new_query_engine empty_store ''/p'' []) = (Inr pkg, e')"
    by (simp add: query_context_def budget_fallback_def filesystem_fallback_def sample_env_def sample_fs_def
        new_query_engine_def Let_def)
  from context_within_budget [OF _ run] slice_sort_score run show ?thesis by (auto simp: sample_env_def)
qed

end
