(* ===== verification/Lookup.thy ===== *)
theory Lookup
  imports Retrieval Engine
begin

text \<open>
  \<open>internal/core/lookup.go\<close>: symbol, dependency, diff and status queries over the store, with
  the result structs of \<open>internal/format/types.go\<close>. The note of a symbol lookup is kept as
  the operands of its message (the name and the number of references).
\<close>

record symbol_result =
  sx_Name :: string
  sx_Kind :: string
  sx_Line :: int
  sx_Signature :: string
  sx_Visibility :: string
  sx_FilePath :: string

record symbol_ref =
  sf_Symbol :: string
  sf_Kind :: string
  sf_FilePath :: string
  sf_Line :: int
  sf_Via :: string
  sf_QualifiedName :: string

record dep_result =
  dp_Name :: string
  dp_Kind :: string
  dp_FilePath :: string
  dp_Line :: int

record diff_result =
  dr_FileID :: int
  dr_FilePath :: string
  dr_ChangeType :: string
  dr_LinesAdded :: int
  dr_LinesRemoved :: int
  dr_Timestamp :: string
  dr_Symbols :: "string list"

record symbol_lookup_result =
  sl_Definitions :: "symbol_result list"
  sl_ReferencedBy :: "symbol_ref list"
  sl_Note :: "(string \<times> int) option"

text \<open>\<open>path, _ := store.GetFilePathByID(...)\<close>: the empty string on error.\<close>

definition path_or_empty :: "metadata_store \<Rightarrow> int \<Rightarrow> string" where
  "path_or_empty store fileID = (case ms_GetFilePathByID store fileID of Inr p \<Rightarrow> p | Inl _ \<Rightarrow> [])"

text \<open>The guard \<open>if ok, err := filter.AcceptByFileID(...); err != nil || !ok { continue }\<close>.\<close>

definition file_accepted :: "metadata_store \<Rightarrow> test_filter \<Rightarrow> int \<Rightarrow> bool" where
  "file_accepted store f fileID \<longleftrightarrow> accept_by_file_id f (ms_GetFileIsTestByID store) fileID = Inr True"

definition symbol_result_of :: "metadata_store \<Rightarrow> symbol_record \<Rightarrow> symbol_result" where
  "symbol_result_of store s =
     \<lparr>sx_Name = sy_Name s, sx_Kind = sy_Kind s, sx_Line = sy_Line s, sx_Signature = sy_Signature s,
      sx_Visibility = sy_Visibility s, sx_FilePath = path_or_empty store (sy_FileID s)\<rparr>"

fun symbol_results :: "metadata_store \<Rightarrow> string \<Rightarrow> test_filter \<Rightarrow> symbol_record list \<Rightarrow> symbol_result list" where
  "symbol_results store kind f [] = []"
| "symbol_results store kind f (s # ss) =
     (if kind \<noteq> [] \<and> sy_Kind s \<noteq> kind then symbol_results store kind f ss
      else if \<not> file_accepted store f (sy_FileID s) then symbol_results store kind f ss
      else symbol_result_of store s # symbol_results store kind f ss)"

fun symbol_refs :: "metadata_store \<Rightarrow> test_filter \<Rightarrow> pending_edge_caller list \<Rightarrow> symbol_ref list" where
  "symbol_refs store f [] = []"
| "symbol_refs store f (c # cs) =
     (case ms_GetSymbolByID store (pc_SrcSymbolID c) of
        Inr (Some smb) \<Rightarrow>
          if \<not> file_accepted store f (sy_FileID smb) then symbol_refs store f cs
          else \<lparr>sf_Symbol = sy_Name smb, sf_Kind = sy_Kind smb, sf_FilePath = path_or_empty store (sy_FileID smb),
                sf_Line = sy_Line smb, sf_Via = pc_Kind c, sf_QualifiedName = pc_DstQualifiedName c\<rparr>
               # symbol_refs store f cs
      | _ \<Rightarrow> symbol_refs store f cs)"

definition lookup_symbols :: "metadata_store \<Rightarrow> string \<Rightarrow> string \<Rightarrow> test_filter \<Rightarrow> symbol_lookup_result res" where
  "lookup_symbols store name kind f =
     (case ms_GetSymbolByName store name of
        Inl e \<Rightarrow> Inl (ErrWrap ''symbol lookup'' e)
      | Inr syms \<Rightarrow>
          let results = symbol_results store kind f syms;
              result = \<lparr>sl_Definitions = results, sl_ReferencedBy = [], sl_Note = None\<rparr>
          in if results = [] \<and> syms = [] then
               (case ms_PendingEdgeCallersWithKind store name of
                  Inl _ \<Rightarrow> Inr result
                | Inr callers \<Rightarrow>
                    let refs = symbol_refs store f callers in
                    if refs \<noteq> []
                    then Inr (result\<lparr>sl_ReferencedBy := refs, sl_Note := Some (name, int (length refs))\<rparr>)
                    else Inr result)
             else Inr result)"

fun dep_results :: "metadata_store \<Rightarrow> test_filter \<Rightarrow> int list \<Rightarrow> dep_result list" where
  "dep_results store f [] = []"
| "dep_results store f (nID # ids) =
     (case ms_GetSymbolByID store nID of
        Inr (Some smb) \<Rightarrow>
          if \<not> file_accepted store f (sy_FileID smb) then dep_results store f ids
          else \<lparr>dp_Name = sy_Name smb, dp_Kind = sy_Kind smb, dp_FilePath = path_or_empty store (sy_FileID smb),
                dp_Line = sy_Line smb\<rparr> # dep_results store f ids
      | _ \<Rightarrow> dep_results store f ids)"

definition lookup_dependencies ::
  "metadata_store \<Rightarrow> string \<Rightarrow> string \<Rightarrow> int \<Rightarrow> test_filter \<Rightarrow> dep_result list res" where
  "lookup_dependencies store symbol direction depth f =
     (case ms_GetSymbolByName store symbol of
        Inl e \<Rightarrow> Inl (ErrWrap ''symbol lookup'' e)
      | Inr syms \<Rightarrow>
          bind_res (case syms of [] \<Rightarrow> Inr []
                    | s # _ \<Rightarrow> wrap_res ''graph query'' (ms_Neighbors store (sy_ID s) depth direction))
            (\<lambda>neighborIDs.
               bind_res (if neighborIDs = [] \<and> (direction = ''incoming'' \<or> direction = ''both'')
                         then wrap_res ''pending edge lookup'' (ms_PendingEdgeCallers store symbol)
                         else Inr neighborIDs)
                 (\<lambda>ids. Inr (dep_results store f ids))))"

definition diff_symbol_label :: "diff_symbol_entry \<Rightarrow> string" where
  "diff_symbol_label ds = ds_SymbolName ds @ '' ('' @ ds_ChangeType ds @ '')''"

fun diff_results :: "metadata_store \<Rightarrow> test_filter \<Rightarrow> diff_log_entry list \<Rightarrow> diff_result list" where
  "diff_results store f [] = []"
| "diff_results store f (d # ds) =
     (if \<not> file_accepted store f (dl_FileID d) then diff_results store f ds
      else \<lparr>dr_FileID = dl_FileID d, dr_FilePath = path_or_empty store (dl_FileID d),
            dr_ChangeType = dl_ChangeType d, dr_LinesAdded = dl_LinesAdded d,
            dr_LinesRemoved = dl_LinesRemoved d, dr_Timestamp = dl_Timestamp d,
            dr_Symbols = (case ms_GetDiffSymbols store (dl_ID d) of
                            Inr dsyms \<Rightarrow> map diff_symbol_label dsyms | Inl _ \<Rightarrow> [])\<rparr>
           # diff_results store f ds)"

definition lookup_diffs :: "metadata_store \<Rightarrow> string \<Rightarrow> int \<Rightarrow> test_filter \<Rightarrow> diff_result list res" where
  "lookup_diffs store since n f =
     (case ms_GetRecentDiffs store \<lparr>rd_Since = since, rd_FileID = 0, rd_Limit = n\<rparr> of
        Inl e \<Rightarrow> Inl (ErrWrap ''diff query'' e)
      | Inr difs \<Rightarrow> Inr (diff_results store f difs))"

record summary_result =
  su_TotalFiles :: int
  su_TotalChunks :: int
  su_TotalSymbols :: int
  su_Languages :: "(string \<times> int) list"
  su_EmbeddingPct :: real
  su_ParseErrors :: int
  su_StaleFiles :: int

definition vector_count :: "vector_ops option \<Rightarrow> int" where
  "vector_count vs = (case vs of None \<Rightarrow> 0 | Some v \<Rightarrow> (case vo_Count v of Inr n \<Rightarrow> n | Inl _ \<Rightarrow> 0))"

definition get_summary :: "metadata_store \<Rightarrow> vector_ops option \<Rightarrow> summary_result res" where
  "get_summary store vs =
     (case ms_GetIndexStats store of
        Inl e \<Rightarrow> Inl (ErrWrap ''stats query'' e)
      | Inr stats \<Rightarrow>
          let vectorCount = vector_count vs;
              embeddingPct = (if st_TotalChunks stats > 0
                              then real_of_int vectorCount / real_of_int (st_TotalChunks stats) * 100 else 0)
          in Inr \<lparr>su_TotalFiles = st_TotalFiles stats, su_TotalChunks = st_TotalChunks stats,
                  su_TotalSymbols = st_TotalSymbols stats, su_Languages = st_Languages stats,
                  su_EmbeddingPct = embeddingPct, su_ParseErrors = st_ParseErrors stats,
                  su_StaleFiles = st_StaleFiles stats\<rparr>)"

record enrichment_status =
  es_TotalChunks :: int
  es_EmbeddedChunks :: int
  es_EmbeddingPct :: real
  es_PendingJobs :: int
  es_CircuitState :: string
  es_TotalFiles :: int
  es_TotalSymbols :: int

text \<open>\<open>PendingFn\<close> and \<open>CircuitFn\<close> are functions without arguments that may be nil.\<close>

definition get_enrichment_status ::
  "metadata_store \<Rightarrow> vector_ops option \<Rightarrow> int option \<Rightarrow> string option \<Rightarrow> enrichment_status res" where
  "get_enrichment_status store vs pendingFn circuitFn =
     (case ms_GetIndexStats store of
        Inl e \<Rightarrow> Inl (ErrWrap ''stats query'' e)
      | Inr stats \<Rightarrow>
          let vectorCount = vector_count vs;
              readiness = (if st_TotalChunks stats > 0
                           then real_of_int vectorCount / real_of_int (st_TotalChunks stats) else 0)
          in Inr \<lparr>es_TotalChunks = st_TotalChunks stats, es_EmbeddedChunks = vectorCount,
                  es_EmbeddingPct = readiness * 100,
                  es_PendingJobs = (case pendingFn of None \<Rightarrow> 0 | Some n \<Rightarrow> n),
                  es_CircuitState = (case circuitFn of None \<Rightarrow> ''n/a'' | Some s \<Rightarrow> s),
                  es_TotalFiles = st_TotalFiles stats, es_TotalSymbols = st_TotalSymbols stats\<rparr>)"

section \<open>Lemmas\<close>

lemma symbol_results_filter:
  "symbol_results store kind f ss =
     map (symbol_result_of store) (filter (\<lambda>s. (kind = [] \<or> sy_Kind s = kind) \<and> file_accepted store f (sy_FileID s)) ss)"
  by (induction store kind f ss rule: symbol_results.induct) auto

lemma dep_results_filter:
  "map dp_Name (dep_results store f ids) =
     map sy_Name (filter (\<lambda>y. file_accepted store f (sy_FileID y))
       (concat (map (\<lambda>i. case ms_GetSymbolByID store i of Inr (Some y) \<Rightarrow> [y] | _ \<Rightarrow> []) ids)))"
  by (induction store f ids rule: dep_results.induct) (auto split: sum.split option.split)

lemma symbol_refs_sound:
  "r \<in> set (symbol_refs store f cs) \<Longrightarrow>
   \<exists>c \<in> set cs. \<exists>y. ms_GetSymbolByID store (pc_SrcSymbolID c) = Inr (Some y) \<and> file_accepted store f (sy_FileID y)
     \<and> sf_Symbol r = sy_Name y \<and> sf_Via r = pc_Kind c"
  by (induction store f cs rule: symbol_refs.induct) (auto split: sum.splits option.splits if_splits)

lemma file_accepted_iff:
  "file_accepted store f i \<longleftrightarrow>
     (\<not> tf_ExcludeTests f \<and> \<not> tf_TestOnly f)
   \<or> (\<exists>t. ms_GetFileIsTestByID store i = Inr t \<and> (tf_ExcludeTests f \<longrightarrow> \<not> t) \<and> (tf_TestOnly f \<longrightarrow> t))"
  by (cases "ms_GetFileIsTestByID store i")
    (auto simp: file_accepted_def accept_by_file_id_def filter_active_def accept_is_test_def)

section \<open>Properties\<close>

text \<open>Looking a symbol up returns exactly the symbols of that name, of the kind asked for, whose
  file the scope admits (a test file, a non-test file, or any), in the store's order; references
  from unresolved edges are reported only when the project defines no such symbol at all, each
  from an admitted file, and the note counts them.\<close>

theorem lookup_symbols_exact:
  assumes "ms_GetSymbolByName store name = Inr syms" and "lookup_symbols store name kind f = Inr r"
  shows "sl_Definitions r = map (symbol_result_of store)
      (filter (\<lambda>s. (kind = [] \<or> sy_Kind s = kind) \<and> file_accepted store f (sy_FileID s)) syms)
    \<and> (sl_ReferencedBy r \<noteq> [] \<longrightarrow> syms = [] \<and> sl_Note r = Some (name, int (length (sl_ReferencedBy r))))
    \<and> (\<forall>x \<in> set (sl_ReferencedBy r). \<exists>y i. ms_GetSymbolByID store i = Inr (Some y)
         \<and> sf_Symbol x = sy_Name y \<and> file_accepted store f (sy_FileID y))
    \<and> (file_accepted store f i \<longleftrightarrow>
         (\<not> tf_ExcludeTests f \<and> \<not> tf_TestOnly f)
       \<or> (\<exists>t. ms_GetFileIsTestByID store i = Inr t \<and> (tf_ExcludeTests f \<longrightarrow> \<not> t) \<and> (tf_TestOnly f \<longrightarrow> t)))"
proof -
  have refs: "\<exists>y i. ms_GetSymbolByID store i = Inr (Some y) \<and> sf_Symbol x = sy_Name y \<and> file_accepted store f (sy_FileID y)"
    if "x \<in> set (symbol_refs store f cs)" for x cs
    using symbol_refs_sound [OF that] by blast
  show ?thesis
    using assms refs unfolding file_accepted_iff [of store f i]
    by (auto simp: lookup_symbols_def Let_def symbol_results_filter split: sum.splits if_splits)
qed

theorem lookup_symbols_exact_witness:
  "lookup_symbols (empty_store\<lparr>ms_GetSymbolByName := (\<lambda>_. Inr [zero_symbol\<lparr>sy_Name := ''f'', sy_Kind := ''function''\<rparr>])\<rparr>)
     ''f'' ''class'' \<lparr>tf_ExcludeTests = False, tf_TestOnly = False\<rparr>
   = Inr \<lparr>sl_Definitions = [], sl_ReferencedBy = [], sl_Note = None\<rparr>"
proof -
  let ?s = "empty_store\<lparr>ms_GetSymbolByName := (\<lambda>_. Inr [zero_symbol\<lparr>sy_Name := ''f'', sy_Kind := ''function''\<rparr>])\<rparr>"
  let ?f = "\<lparr>tf_ExcludeTests = False, tf_TestOnly = False\<rparr>"
  have by_name: "ms_GetSymbolByName ?s ''f'' = Inr [zero_symbol\<lparr>sy_Name := ''f'', sy_Kind := ''function''\<rparr>]" by simp
  obtain r where r: "lookup_symbols ?s ''f'' ''class'' ?f = Inr r" "sl_Note r = None" "sl_ReferencedBy r = []"
    by (simp add: lookup_symbols_def Let_def)
  from lookup_symbols_exact [OF by_name r(1)] have "sl_Definitions r = []" by simp
  with r show ?thesis by (cases r) simp
qed

end
