(* ===== verification/Embed_Validate.thy ===== *)
theory Embed_Validate
  imports Core_Types
begin

text \<open>
  \<open>internal/vector/embed_validate.go\<close>, \<open>embed_errors.go\<close> and \<open>batch.go\<close>: the filter that
  keeps degenerate vectors out of the vector store, the length checks and the batch loop.
  The metrics and log calls are left out.
\<close>

section \<open>Vector health\<close>

datatype vec_health = VecOK | VecZero | VecNaN | VecInf

fun scan_loop :: "bool \<Rightarrow> vec \<Rightarrow> vec_health" where
  "scan_loop allZero [] = (if allZero then VecZero else VecOK)"
| "scan_loop allZero (F32NaN # fs) = VecNaN"
| "scan_loop allZero (F32Inf s # fs) = VecInf"
| "scan_loop allZero (F32 x # fs) = scan_loop (if x \<noteq> 0 then False else allZero) fs"

definition scan_vector_health :: "vec \<Rightarrow> vec_health" where
  "scan_vector_health v = scan_loop True v"

record embed_reject =
  rj_zero :: int
  rj_naN :: int
  rj_inf :: int
  rj_empty :: int
  rj_dimMismatch :: int

definition no_reject :: embed_reject where
  "no_reject = \<lparr>rj_zero = 0, rj_naN = 0, rj_inf = 0, rj_empty = 0, rj_dimMismatch = 0\<rparr>"

definition reject_total :: "embed_reject \<Rightarrow> int" where
  "reject_total r = rj_zero r + rj_naN r + rj_inf r + rj_empty r + rj_dimMismatch r"

text \<open>The loop over the pairs of the shorter of the two slices.\<close>

fun sanitize_loop ::
  "int \<Rightarrow> (int \<times> vec) list \<Rightarrow> int list \<times> vec list \<times> embed_reject \<Rightarrow> int list \<times> vec list \<times> embed_reject" where
  "sanitize_loop expectDim [] st = st"
| "sanitize_loop expectDim ((i, v) # ps) (outIDs, outVecs, r) =
     (if v = [] then sanitize_loop expectDim ps (outIDs, outVecs, r\<lparr>rj_empty := rj_empty r + 1\<rparr>)
      else if expectDim > 0 \<and> int (length v) \<noteq> expectDim then
        sanitize_loop expectDim ps (outIDs, outVecs, r\<lparr>rj_dimMismatch := rj_dimMismatch r + 1\<rparr>)
      else (case scan_vector_health v of
              VecOK \<Rightarrow> sanitize_loop expectDim ps (outIDs @ [i], outVecs @ [v], r)
            | VecZero \<Rightarrow> sanitize_loop expectDim ps (outIDs, outVecs, r\<lparr>rj_zero := rj_zero r + 1\<rparr>)
            | VecNaN \<Rightarrow> sanitize_loop expectDim ps (outIDs, outVecs, r\<lparr>rj_naN := rj_naN r + 1\<rparr>)
            | VecInf \<Rightarrow> sanitize_loop expectDim ps (outIDs, outVecs, r\<lparr>rj_inf := rj_inf r + 1\<rparr>)))"

definition sanitize_embeddings ::
  "int list \<Rightarrow> vec list \<Rightarrow> int \<Rightarrow> int list \<times> vec list \<times> embed_reject" where
  "sanitize_embeddings chunkIDs vectors expectDim =
     sanitize_loop expectDim (zip chunkIDs vectors) ([], [], no_reject)"

section \<open>Batches\<close>

definition check_batch_lengths :: "int \<Rightarrow> int \<Rightarrow> err option" where
  "check_batch_lengths chunkIDsLen vectorsLen =
     (if chunkIDsLen \<noteq> vectorsLen then Some (ErrMsg ''chunkIDs len != vectors len'') else None)"

definition check_batch_dims :: "int \<Rightarrow> vec list \<Rightarrow> int \<Rightarrow> err option" where
  "check_batch_dims chunkIDsLen vectors expectDim =
     (case check_batch_lengths chunkIDsLen (int (length vectors)) of
        Some e \<Rightarrow> Some e
      | None \<Rightarrow> if list_ex (\<lambda>v. int (length v) \<noteq> expectDim) vectors
                then Some (ErrMsg ''vector dim != store dim'') else None)"

text \<open>\<open>ForEachBatch\<close> with the state that \<open>fn\<close> changes passed through; the first error stops it.\<close>

function each_batch ::
  "(int \<Rightarrow> int \<Rightarrow> 's \<Rightarrow> err option \<times> 's) \<Rightarrow> int \<Rightarrow> int \<Rightarrow> int \<Rightarrow> 's \<Rightarrow> err option \<times> 's" where
  "each_batch fn n batchSize start s =
     (if start < n \<and> batchSize > 0 then
        let e = (if start + batchSize > n then n else start + batchSize) in
        case fn start e s of
          (Some err, s') \<Rightarrow> (Some err, s')
        | (None, s') \<Rightarrow> each_batch fn n batchSize (start + batchSize) s'
      else (None, s))"
  by pat_completeness auto
termination
  by (relation "measure (\<lambda>(fn, n, b, start, s). nat (n - start))") auto

declare each_batch.simps [simp del]

definition for_each_batch ::
  "int \<Rightarrow> int \<Rightarrow> (int \<Rightarrow> int \<Rightarrow> 's \<Rightarrow> err option \<times> 's) \<Rightarrow> 's \<Rightarrow> err option \<times> 's" where
  "for_each_batch n batchSize fn s =
     (if n \<le> 0 \<or> batchSize \<le> 0 then (None, s) else each_batch fn n batchSize 0 s)"

section \<open>Lemmas\<close>

text \<open>A vector the similarity search can use: finite, not all zero, of the right length.\<close>

definition is_finite :: "float32 \<Rightarrow> bool" where
  "is_finite f \<longleftrightarrow> (\<exists>x. f = F32 x)"

definition healthy_vec :: "vec \<Rightarrow> bool" where
  "healthy_vec v \<longleftrightarrow> (\<forall>f \<in> set v. is_finite f) \<and> (\<exists>x. x \<noteq> 0 \<and> F32 x \<in> set v)"

lemma scan_loop_ok:
  "scan_loop z v = VecOK \<longleftrightarrow> (\<forall>f \<in> set v. is_finite f) \<and> (z \<longrightarrow> (\<exists>x. x \<noteq> 0 \<and> F32 x \<in> set v))"
  by (induction z v rule: scan_loop.induct) (auto simp: is_finite_def)

lemma scan_vector_ok: "scan_vector_health v = VecOK \<longleftrightarrow> healthy_vec v"
  by (simp add: scan_vector_health_def scan_loop_ok healthy_vec_def)

definition accepted_vec :: "int \<Rightarrow> vec \<Rightarrow> bool" where
  "accepted_vec expectDim v \<longleftrightarrow> healthy_vec v \<and> (expectDim > 0 \<longrightarrow> int (length v) = expectDim)"

lemma healthy_ne: "healthy_vec v \<Longrightarrow> v \<noteq> []"
  by (auto simp: healthy_vec_def)

lemma sanitize_loop_result:
  "sanitize_loop d ps (ids, vs, r) =
     (ids @ map fst (filter (\<lambda>p. accepted_vec d (snd p)) ps),
      vs @ map snd (filter (\<lambda>p. accepted_vec d (snd p)) ps),
      snd (snd (sanitize_loop d ps (ids, vs, r))))"
proof (induction ps arbitrary: ids vs r)
  case (Cons p ps)
  obtain i v where p: "p = (i, v)" by (cases p)
  have acc: "accepted_vec d v \<longleftrightarrow> v \<noteq> [] \<and> \<not> (d > 0 \<and> int (length v) \<noteq> d) \<and> scan_vector_health v = VecOK"
    using scan_vector_ok healthy_ne by (auto simp: accepted_vec_def)
  show ?case
  proof (cases "accepted_vec d v")
    case True
    then have "sanitize_loop d (p # ps) (ids, vs, r) = sanitize_loop d ps (ids @ [i], vs @ [v], r)"
      unfolding acc by (auto simp: p)
    with True Cons.IH [of "ids @ [i]" "vs @ [v]" r] show ?thesis by (simp add: p)
  next
    case False
    have "\<exists>r'. sanitize_loop d (p # ps) (ids, vs, r) = sanitize_loop d ps (ids, vs, r')"
      using False acc by (cases "scan_vector_health v") (auto simp: p)
    then obtain r' where "sanitize_loop d (p # ps) (ids, vs, r) = sanitize_loop d ps (ids, vs, r')" by blast
    with False Cons.IH [of ids vs r'] show ?thesis by (simp add: p)
  qed
qed simp

lemma reject_total_count:
  "reject_total (r\<lparr>rj_zero := rj_zero r + 1\<rparr>) = reject_total r + 1"
  "reject_total (r\<lparr>rj_naN := rj_naN r + 1\<rparr>) = reject_total r + 1"
  "reject_total (r\<lparr>rj_inf := rj_inf r + 1\<rparr>) = reject_total r + 1"
  "reject_total (r\<lparr>rj_empty := rj_empty r + 1\<rparr>) = reject_total r + 1"
  "reject_total (r\<lparr>rj_dimMismatch := rj_dimMismatch r + 1\<rparr>) = reject_total r + 1"
  by (simp_all add: reject_total_def)

lemma sanitize_loop_total:
  "int (length (fst (sanitize_loop d ps (ids, vs, r)))) + reject_total (snd (snd (sanitize_loop d ps (ids, vs, r))))
     = int (length ids) + reject_total r + int (length ps)"
proof (induction ps arbitrary: ids vs r)
  case (Cons p ps)
  obtain i v where p: "p = (i, v)" by (cases p)
  show ?case
    by (cases "scan_vector_health v") (simp_all add: p Cons.IH reject_total_count)
qed simp

lemma each_batch_windows:
  assumes "0 < b" and "0 \<le> start"
  shows "each_batch (\<lambda>s e acc. (None, acc @ [(s, e)])) n b start acc =
    (None, acc @ map (\<lambda>k. (start + int k * b, min (start + (int k + 1) * b) n))
       [0..<nat ((n - start + b - 1) div b)])"
  using assms(2)
proof (induction "nat (n - start)" arbitrary: start acc rule: less_induct)
  case less
  show ?case
  proof (cases "start < n")
    case True
    let ?m = "nat ((n - start + b - 1) div b)"
    have pos: "0 < (n - start + b - 1) div b" using True assms(1) by (simp add: pos_imp_zdiv_pos_iff)
    have next_count: "(n - (start + b) + b - 1) div b = (n - start + b - 1) div b - 1"
    proof -
      have "n - (start + b) + b - 1 = (n - start + b - 1) + (- 1) * b" by simp
      then show ?thesis using assms(1) by (simp only: div_mult_self1)
    qed
    have m: "?m = Suc (nat ((n - (start + b) + b - 1) div b))" using pos next_count by simp
    have "each_batch (\<lambda>s e acc. (None, acc @ [(s, e)])) n b start acc
        = each_batch (\<lambda>s e acc. (None, acc @ [(s, e)])) n b (start + b) (acc @ [(start, min (start + b) n)])"
      using True assms(1) by (subst each_batch.simps) (simp add: Let_def min_def)
    also have "\<dots> = (None, (acc @ [(start, min (start + b) n)])
        @ map (\<lambda>k. (start + b + int k * b, min (start + b + (int k + 1) * b) n))
            [0..<nat ((n - (start + b) + b - 1) div b)])"
      using True assms(1) less.prems by (intro less.hyps) auto
    also have "\<dots> = (None, acc @ map (\<lambda>k. (start + int k * b, min (start + (int k + 1) * b) n)) [0..<?m])"
      unfolding m upt_conv_Cons [OF zero_less_Suc] map_Suc_upt [symmetric]
      by (simp add: algebra_simps comp_def)
    finally show ?thesis .
  next
    case False
    then have "(n - start + b - 1) div b \<le> (b - 1) div b"
      using assms(1) by (intro zdiv_mono1) simp_all
    moreover have "(b - 1) div b = 0" using assms(1) by (intro div_pos_pos_trivial) simp_all
    ultimately have "(n - start + b - 1) div b \<le> 0" by simp
    with False show ?thesis by (subst each_batch.simps) simp
  qed
qed


section \<open>Properties\<close>

text \<open>The filter keeps, in order and still paired, exactly the vectors that are finite, not
  all zero and of the expected length when one is given, and counts every other pair under
  one reason.\<close>

theorem sanitize_keeps_healthy:
  assumes "sanitize_embeddings ids vs d = (outIDs, outVecs, r)"
  shows "zip outIDs outVecs = filter (\<lambda>p. accepted_vec d (snd p)) (zip ids vs)
    \<and> length outIDs = length outVecs
    \<and> reject_total r = int (min (length ids) (length vs)) - int (length outIDs)
    \<and> (accepted_vec d v \<longleftrightarrow> (\<forall>f \<in> set v. \<exists>x. f = F32 x) \<and> (\<exists>x. x \<noteq> 0 \<and> F32 x \<in> set v)
         \<and> (d > 0 \<longrightarrow> int (length v) = d))"
proof -
  let ?ps = "filter (\<lambda>p. accepted_vec d (snd p)) (zip ids vs)"
  from sanitize_loop_result [of d "zip ids vs" "[]" "[]" no_reject] assms
  have out: "outIDs = map fst ?ps" "outVecs = map snd ?ps" by (simp_all add: sanitize_embeddings_def)
  have "int (length outIDs) + reject_total r = int (length (zip ids vs))"
    using sanitize_loop_total [of d "zip ids vs" "[]" "[]" no_reject] assms
    by (simp add: sanitize_embeddings_def reject_total_def no_reject_def)
  then show ?thesis
    by (simp add: out zip_map_fst_snd accepted_vec_def healthy_vec_def is_finite_def)
qed

theorem sanitize_keeps_healthy_witness:
  "zip [2 :: int] [[F32 1, F32 0]] = filter (\<lambda>p. accepted_vec 2 (snd p))
     (zip [1, 2, 3] [[F32 0, F32 0], [F32 1, F32 0], [F32NaN, F32 1]])"
proof -
  have "sanitize_embeddings [1, 2, 3] [[F32 0, F32 0], [F32 1, F32 0], [F32NaN, F32 1]] 2
    = ([2], [[F32 1, F32 0]], no_reject\<lparr>rj_zero := 1, rj_naN := 1\<rparr>)"
    by (simp add: sanitize_embeddings_def scan_vector_health_def no_reject_def)
  from sanitize_keeps_healthy [OF this] show ?thesis by blast
qed

end
