(* ===== verification/Score_Heap.thy ===== *)
theory Score_Heap
  imports Prelude
begin

text \<open>
  The min-heap of scored ids under \<open>bruteforce.Store.Search\<close>: \<open>scoreHeap\<close> of
  \<open>internal/vector/bruteforce/store.go\<close> with the algorithms of Go's \<open>container/heap\<close>
  (\<open>Push\<close>, \<open>Pop\<close>, \<open>Fix\<close>, and the loops \<open>up\<close> and \<open>down\<close> below them) on a list, and the
  proof that they keep the heap order.
\<close>

record scored =
  sc_id :: int
  sc_score :: real

definition heap_less :: "scored list \<Rightarrow> nat \<Rightarrow> nat \<Rightarrow> bool" where
  "heap_less h i j \<longleftrightarrow> sc_score (h ! i) < sc_score (h ! j)"

definition heap_swap :: "scored list \<Rightarrow> nat \<Rightarrow> nat \<Rightarrow> scored list" where
  "heap_swap h i j = h[i := h ! j, j := h ! i]"

function heap_up :: "scored list \<Rightarrow> nat \<Rightarrow> scored list" where
  "heap_up h j =
     (let i = (j - 1) div 2 in
      if i = j \<or> \<not> heap_less h j i then h else heap_up (heap_swap h i j) i)"
  by pat_completeness auto
termination
  by (relation "measure (\<lambda>(h, j). j)") auto

declare heap_up.simps [simp del]

text \<open>The result also tells where the element came to rest.\<close>

function heap_down :: "scored list \<Rightarrow> nat \<Rightarrow> nat \<Rightarrow> scored list \<times> nat" where
  "heap_down h i n =
     (let j1 = 2 * i + 1 in
      if j1 \<ge> n then (h, i)
      else
        let j = (if j1 + 1 < n \<and> heap_less h (j1 + 1) j1 then j1 + 1 else j1) in
        if \<not> heap_less h j i then (h, i) else heap_down (heap_swap h i j) j n)"
  by pat_completeness auto
termination
  by (relation "measure (\<lambda>(h, i, n). n - i)") (auto split: if_splits)

declare heap_down.simps [simp del]

definition heap_push :: "scored list \<Rightarrow> scored \<Rightarrow> scored list" where
  "heap_push h x = heap_up (h @ [x]) (length h)"

definition heap_fix :: "scored list \<Rightarrow> nat \<Rightarrow> scored list" where
  "heap_fix h i =
     (let (h', i') = heap_down h i (length h) in if i' > i then h' else heap_up h' i)"

definition heap_pop :: "scored list \<Rightarrow> scored \<times> scored list" where
  "heap_pop h =
     (let n = length h - 1;
          (h', _) = heap_down (heap_swap h 0 n) 0 n
      in (h' ! n, take n h'))"

section \<open>Heap order\<close>

abbreviation parent :: "nat \<Rightarrow> nat" where "parent i \<equiv> (i - 1) div 2"

definition is_heap :: "nat \<Rightarrow> scored list \<Rightarrow> bool" where
  "is_heap n h \<longleftrightarrow> (\<forall>i. 0 < i \<and> i < n \<longrightarrow> sc_score (h ! parent i) \<le> sc_score (h ! i))"

lemma parent_less: "0 < i \<Longrightarrow> parent i < i"
  by simp

lemma children: "0 < k \<Longrightarrow> parent k = i \<longleftrightarrow> k = 2 * i + 1 \<or> k = 2 * i + 2"
  by auto

lemma swap_nth:
  "i < length h \<Longrightarrow> j < length h \<Longrightarrow>
   heap_swap h i j ! k = (if k = j then h ! i else if k = i then h ! j else h ! k)"
  by (simp add: heap_swap_def nth_list_update)

lemma length_swap [simp]: "length (heap_swap h i j) = length h"
  by (simp add: heap_swap_def)

lemma mset_heap_swap [simp]: "i < length h \<Longrightarrow> j < length h \<Longrightarrow> mset (heap_swap h i j) = mset h"
  by (simp add: heap_swap_def mset_swap)

lemma heap_min:
  assumes "is_heap n h" shows "i < n \<Longrightarrow> sc_score (h ! 0) \<le> sc_score (h ! i)"
proof (induction i rule: less_induct)
  case (less i)
  show ?case
  proof (cases "i = 0")
    case False
    with less have "sc_score (h ! 0) \<le> sc_score (h ! parent i)" by (intro less.IH) auto
    also have "\<dots> \<le> sc_score (h ! i)" using assms False less.prems by (simp add: is_heap_def)
    finally show ?thesis .
  qed simp
qed

lemma heap_up_correct:
  assumes "j < length h" and "n \<le> length h"
    and "\<forall>i. 0 < i \<and> i < n \<and> i \<noteq> j \<longrightarrow> sc_score (h ! parent i) \<le> sc_score (h ! i)"
    and "\<forall>i. 0 < i \<and> i < n \<and> parent i = j \<and> 0 < j \<longrightarrow> sc_score (h ! parent j) \<le> sc_score (h ! i)"
  shows "is_heap n (heap_up h j) \<and> mset (heap_up h j) = mset h"
  using assms
proof (induction h j rule: heap_up.induct)
  case (1 h j)
  let ?i = "parent j" and ?h = "heap_swap h (parent j) j"
  show ?case
  proof (cases "?i = j \<or> \<not> heap_less h j ?i")
    case True
    then have "heap_up h j = h" by (subst heap_up.simps) (auto simp: Let_def)
    moreover have "is_heap n h"
      unfolding is_heap_def
    proof (intro allI impI, elim conjE)
      fix i assume "0 < i" "i < n"
      then show "sc_score (h ! parent i) \<le> sc_score (h ! i)"
        using True "1.prems"(3) by (cases "i = j") (auto simp: heap_less_def)
    qed
    ultimately show ?thesis by simp
  next
    case False
    then have ij: "?i < j" by auto
    then have i: "?i < length h" using "1.prems"(1) by simp
    from False have lt: "sc_score (h ! j) < sc_score (h ! ?i)" by (simp add: heap_less_def)
    note nth = swap_nth [OF i "1.prems"(1)]
    from ij have ne: "?i \<noteq> j" "j \<noteq> ?i" by linarith+
    have "is_heap n (heap_up ?h ?i) \<and> mset (heap_up ?h ?i) = mset ?h"
    proof (rule "1.IH" [OF refl False])
      show "?i < length ?h" "n \<le> length ?h" using i "1.prems"(2) by simp_all
      show "\<forall>k. 0 < k \<and> k < n \<and> k \<noteq> ?i \<longrightarrow> sc_score (?h ! parent k) \<le> sc_score (?h ! k)"
      proof (intro allI impI, elim conjE)
        fix k assume k: "0 < k" "k < n" "k \<noteq> ?i"
        consider "k = j" | "k \<noteq> j" "parent k = ?i" | "k \<noteq> j" "parent k = j" | "k \<noteq> j" "parent k \<noteq> ?i" "parent k \<noteq> j"
          by blast
        then show "sc_score (?h ! parent k) \<le> sc_score (?h ! k)"
        proof cases
          case 1
          with lt show ?thesis by (simp only: nth ne if_False if_True refl less_imp_le)
        next
          case 2
          with "1.prems"(3) k have "sc_score (h ! ?i) \<le> sc_score (h ! k)" by metis
          with 2 lt k show ?thesis by (simp only: nth ne if_False if_True refl)
        next
          case 3
          with "1.prems"(4) k ij have "sc_score (h ! ?i) \<le> sc_score (h ! k)" by auto
          with 3 k show ?thesis by (simp only: nth ne if_False if_True refl)
        next
          case 4
          with "1.prems"(3) k have "sc_score (h ! parent k) \<le> sc_score (h ! k)" by blast
          with 4 k(3) show ?thesis by (simp only: nth if_False)
        qed
      qed
      show "\<forall>k. 0 < k \<and> k < n \<and> parent k = ?i \<and> 0 < ?i \<longrightarrow> sc_score (?h ! parent ?i) \<le> sc_score (?h ! k)"
      proof (intro allI impI, elim conjE)
        fix k assume k: "0 < k" "k < n" "parent k = ?i" "0 < ?i"
        have pi: "parent ?i < ?i" using k(4) by simp
        have in_n: "?i < n" using k by linarith
        have up: "sc_score (h ! parent ?i) \<le> sc_score (h ! ?i)"
          using "1.prems"(3) k(4) in_n ij by auto
        show "sc_score (?h ! parent ?i) \<le> sc_score (?h ! k)"
        proof (cases "k = j")
          case True
          moreover have "parent ?i \<noteq> ?i" "parent ?i \<noteq> j" using pi ij by linarith+
          ultimately show ?thesis using up by (simp only: nth ne if_False if_True refl)
        next
          case False
          with "1.prems"(3) k have "sc_score (h ! ?i) \<le> sc_score (h ! k)" by metis
          with up have "sc_score (h ! parent ?i) \<le> sc_score (h ! k)" by linarith
          moreover have "k \<noteq> ?i" "parent ?i \<noteq> ?i" "parent ?i \<noteq> j" using k pi ij by linarith+
          ultimately show ?thesis using False by (simp only: nth if_False)
        qed
      qed
    qed
    moreover have "heap_up h j = heap_up ?h ?i" using False by (subst heap_up.simps) (simp add: Let_def)
    ultimately show ?thesis using i "1.prems"(1) by simp
  qed
qed

lemma heap_up_heap:
  assumes "is_heap n h" and "j < length h" and "n \<le> length h"
  shows "is_heap n (heap_up h j) \<and> mset (heap_up h j) = mset h"
proof (rule heap_up_correct [OF assms(2,3)])
  show "\<forall>i. 0 < i \<and> i < n \<and> i \<noteq> j \<longrightarrow> sc_score (h ! parent i) \<le> sc_score (h ! i)"
    using assms(1) by (simp add: is_heap_def)
  show "\<forall>i. 0 < i \<and> i < n \<and> parent i = j \<and> 0 < j \<longrightarrow> sc_score (h ! parent j) \<le> sc_score (h ! i)"
  proof (intro allI impI, elim conjE)
    fix i assume i: "0 < i" "i < n" "parent i = j" "0 < j"
    then have "j < n" by linarith
    with assms(1) i show "sc_score (h ! parent j) \<le> sc_score (h ! i)"
      unfolding is_heap_def by (metis order.trans)
  qed
qed

lemma heap_down_correct:
  assumes "i < n" and "n \<le> length h"
    and "\<forall>k. 0 < k \<and> k < n \<and> parent k \<noteq> i \<longrightarrow> sc_score (h ! parent k) \<le> sc_score (h ! k)"
    and "\<forall>k. 0 < k \<and> k < n \<and> parent k = i \<and> 0 < i \<longrightarrow> sc_score (h ! parent i) \<le> sc_score (h ! k)"
  shows "is_heap n (fst (heap_down h i n)) \<and> mset (fst (heap_down h i n)) = mset h
    \<and> (\<forall>k. n \<le> k \<longrightarrow> fst (heap_down h i n) ! k = h ! k)"
  using assms
proof (induction h i n rule: heap_down.induct)
  case (1 h i n)
  let ?j = "if 2 * i + 1 + 1 < n \<and> heap_less h (2 * i + 1 + 1) (2 * i + 1) then 2 * i + 1 + 1 else 2 * i + 1"
  show ?case
  proof (cases "2 * i + 1 \<ge> n \<or> \<not> heap_less h ?j i")
    case True
    then have eq: "heap_down h i n = (h, i)" by (subst heap_down.simps) (auto simp: Let_def)
    have "sc_score (h ! parent k) \<le> sc_score (h ! k)" if k: "0 < k" "k < n" for k
    proof (cases "parent k = i")
      case pk: True
      with k children [of k i] have "k = 2 * i + 1 \<or> k = 2 * i + 2" by blast
      with True k pk show ?thesis by (auto simp: heap_less_def split: if_splits)
    qed (use "1.prems"(3) k in blast)
    with eq show ?thesis by (simp add: is_heap_def)
  next
    case False
    define j where "j = ?j"
    from False have j: "j < n" "parent j = i" "0 < j" and ij: "i < j" by (auto simp: j_def)
    then have jl: "j < length h" and il: "i < length h" using "1.prems"(1,2) by simp_all
    from False have lt: "sc_score (h ! j) < sc_score (h ! i)" by (simp add: heap_less_def j_def)
    have least: "sc_score (h ! j) \<le> sc_score (h ! k)" if "0 < k" "k < n" "parent k = i" for k
    proof -
      from that children [of k i] have "k = 2 * i + 1 \<or> k = 2 * i + 2" by blast
      with that(2) show ?thesis by (auto simp: heap_less_def j_def)
    qed
    let ?h = "heap_swap h i j"
    note nth = swap_nth [OF il jl]
    have "is_heap n (fst (heap_down ?h j n)) \<and> mset (fst (heap_down ?h j n)) = mset ?h
        \<and> (\<forall>k. n \<le> k \<longrightarrow> fst (heap_down ?h j n) ! k = ?h ! k)"
    proof (rule "1.IH" [OF refl _ j_def])
      show "\<not> n \<le> 2 * i + 1" "\<not> \<not> heap_less h j i" using False by (auto simp: j_def)
      show "j < n" "n \<le> length ?h" using j "1.prems"(2) by simp_all
      show "\<forall>k. 0 < k \<and> k < n \<and> parent k \<noteq> j \<longrightarrow> sc_score (?h ! parent k) \<le> sc_score (?h ! k)"
      proof (intro allI impI, elim conjE)
        fix k assume k: "0 < k" "k < n" "parent k \<noteq> j"
        consider "k = i" | "parent k = i" "k = j" | "parent k = i" "k \<noteq> j" "k \<noteq> i" | "k \<noteq> i" "parent k \<noteq> i" "k \<noteq> j"
          using j(2) by blast
        then show "sc_score (?h ! parent k) \<le> sc_score (?h ! k)"
        proof cases
          case 1
          then have "sc_score (h ! parent i) \<le> sc_score (h ! j)" using "1.prems"(4) k j by blast
          moreover have "parent i \<noteq> i" "parent i \<noteq> j" "i \<noteq> j" using 1 k ij parent_less [of i] by linarith+
          ultimately show ?thesis using 1 by (simp only: nth if_False if_True refl)
        next
          case 2
          have "i \<noteq> j" using ij by simp
          with 2 lt show ?thesis by (simp only: nth if_False if_True refl less_imp_le)
        next
          case 3
          have "i \<noteq> j" using ij by simp
          with 3 least [of k] k show ?thesis by (simp only: nth if_False if_True refl)
        next
          case 4
          with "1.prems"(3) k have "sc_score (h ! parent k) \<le> sc_score (h ! k)" by blast
          with 4 k(3) show ?thesis by (simp only: nth if_False)
        qed
      qed
      show "\<forall>k. 0 < k \<and> k < n \<and> parent k = j \<and> 0 < j \<longrightarrow> sc_score (?h ! parent j) \<le> sc_score (?h ! k)"
      proof (intro allI impI, elim conjE)
        fix k assume k: "0 < k" "k < n" "parent k = j"
        have "parent k \<noteq> i" using k ij by linarith
        with "1.prems"(3) k have "sc_score (h ! j) \<le> sc_score (h ! k)" by metis
        moreover have "k \<noteq> j" "k \<noteq> i" "i \<noteq> j" using k ij parent_less [of k] by linarith+
        ultimately have "sc_score (?h ! i) \<le> sc_score (?h ! k)"
          by (simp only: nth if_False if_True refl)
        then show "sc_score (?h ! parent j) \<le> sc_score (?h ! k)" unfolding j(2) .
      qed
    qed
    moreover have "heap_down h i n = heap_down ?h j n"
    proof -
      from False have "\<not> n \<le> 2 * i + 1" and "heap_less h j i" by (auto simp: j_def)
      then show ?thesis
        by (subst heap_down.simps) (simp only: Let_def j_def [symmetric] if_False if_True not_True_eq_False)
    qed
    moreover have "?h ! k = h ! k" if "n \<le> k" for k
      using that j(1) "1.prems"(1) by (simp only: nth) (simp del: nth_list_update)
    ultimately show ?thesis using il jl by simp
  qed
qed


lemma heap_down_unmoved: "snd (heap_down h i n) \<le> i \<Longrightarrow> fst (heap_down h i n) = h"
proof -
  have mono: "i \<le> snd (heap_down h i n)" for h i n
  proof (induction h i n rule: heap_down.induct)
    case (1 h i n)
    let ?j = "if 2 * i + 1 + 1 < n \<and> heap_less h (2 * i + 1 + 1) (2 * i + 1) then 2 * i + 1 + 1 else 2 * i + 1"
    show ?case
    proof (cases "2 * i + 1 \<ge> n \<or> \<not> heap_less h ?j i")
      case True
      then show ?thesis by (subst heap_down.simps) (auto simp: Let_def)
    next
      case False
      then have "?j \<le> snd (heap_down (heap_swap h i ?j) ?j n)" by (intro "1.IH" [OF refl _ refl]) auto
      moreover have "i \<le> ?j" by simp
      ultimately have "i \<le> snd (heap_down (heap_swap h i ?j) ?j n)" by (rule order.trans [rotated])
      with False show ?thesis
        by (subst heap_down.simps) (simp only: Let_def if_False if_True not_True_eq_False de_Morgan_disj not_not)
    qed
  qed
  assume "snd (heap_down h i n) \<le> i"
  then show ?thesis
  proof (subst heap_down.simps, subst (asm) heap_down.simps)
    assume a: "snd (let j1 = 2 * i + 1 in
        if j1 \<ge> n then (h, i)
        else let j = (if j1 + 1 < n \<and> heap_less h (j1 + 1) j1 then j1 + 1 else j1) in
          if \<not> heap_less h j i then (h, i) else heap_down (heap_swap h i j) j n) \<le> i"
    have far: "\<not> snd (heap_down g j n) \<le> i" if "i < j" for g j using mono [of j g n] that by linarith
    show "fst (let j1 = 2 * i + 1 in
        if j1 \<ge> n then (h, i)
        else let j = (if j1 + 1 < n \<and> heap_less h (j1 + 1) j1 then j1 + 1 else j1) in
          if \<not> heap_less h j i then (h, i) else heap_down (heap_swap h i j) j n) = h"
      using a far by (auto simp: Let_def split: if_splits)
  qed
qed

section \<open>The heap operations\<close>

lemma heap_push_correct:
  assumes "is_heap (length h) h"
  shows "is_heap (length (heap_push h x)) (heap_push h x) \<and> mset (heap_push h x) = add_mset x (mset h)"
proof -
  let ?h = "h @ [x]" and ?n = "Suc (length h)"
  have "is_heap ?n (heap_up ?h (length h)) \<and> mset (heap_up ?h (length h)) = mset ?h"
  proof (rule heap_up_correct)
    show "\<forall>i. 0 < i \<and> i < ?n \<and> i \<noteq> length h \<longrightarrow> sc_score (?h ! parent i) \<le> sc_score (?h ! i)"
    proof (intro allI impI, elim conjE)
      fix i assume "0 < i" "i < ?n" "i \<noteq> length h"
      then have "i < length h" "parent i < length h" by linarith+
      with assms \<open>0 < i\<close> show "sc_score (?h ! parent i) \<le> sc_score (?h ! i)"
        unfolding is_heap_def by (simp only: nth_append if_True)
    qed
  qed auto
  moreover from this have "length (heap_push h x) = ?n"
    using mset_eq_length [of "heap_push h x" ?h] by (simp add: heap_push_def)
  ultimately show ?thesis by (simp add: heap_push_def)
qed

lemma heap_fix_root:
  assumes "is_heap (length h) h" and "h \<noteq> []"
  shows "is_heap (length h) (heap_fix (h[0 := x]) 0)
    \<and> mset (heap_fix (h[0 := x]) 0) = add_mset x (mset (tl h))"
proof -
  let ?h = "h[0 := x]" and ?n = "length h"
  have down: "is_heap ?n (fst (heap_down ?h 0 ?n)) \<and> mset (fst (heap_down ?h 0 ?n)) = mset ?h
    \<and> (\<forall>k. ?n \<le> k \<longrightarrow> fst (heap_down ?h 0 ?n) ! k = ?h ! k)"
  proof (rule heap_down_correct)
    show "\<forall>k. 0 < k \<and> k < ?n \<and> parent k \<noteq> 0 \<longrightarrow> sc_score (?h ! parent k) \<le> sc_score (?h ! k)"
      using assms(1) unfolding is_heap_def by (metis nth_list_update_neq less_numeral_extra(3))
  qed (use assms(2) in auto)
  obtain h' i' where d: "heap_down ?h 0 ?n = (h', i')" by (cases "heap_down ?h 0 ?n")
  with down have h': "is_heap ?n h'" "mset h' = mset ?h" by simp_all
  then have len: "length h' = ?n" using mset_eq_length by fastforce
  have "is_heap ?n (heap_fix ?h 0) \<and> mset (heap_fix ?h 0) = mset ?h"
  proof (cases "0 < i'")
    case True
    with d h' show ?thesis by (simp add: heap_fix_def)
  next
    case False
    with heap_up_heap [OF h'(1), of 0] len assms(2) d h'(2) show ?thesis by (simp add: heap_fix_def)
  qed
  moreover have "mset ?h = add_mset x (mset (tl h))" using assms(2) by (cases h) simp_all
  ultimately show ?thesis by simp
qed

lemma heap_pop_correct:
  assumes "is_heap (length h) h" and "h \<noteq> []" and "heap_pop h = (x, h')"
  shows "is_heap (length h') h' \<and> mset h = add_mset x (mset h') \<and> (\<forall>y \<in> set h'. sc_score x \<le> sc_score y)"
proof -
  let ?n = "length h - 1" and ?g = "heap_swap h 0 (length h - 1)"
  have n: "?n < length h" "0 < length h" using assms(2) by simp_all
  obtain d i' where d: "heap_down ?g 0 ?n = (d, i')" by (cases "heap_down ?g 0 ?n")
  have down: "is_heap ?n d \<and> mset d = mset ?g \<and> (\<forall>k. ?n \<le> k \<longrightarrow> d ! k = ?g ! k)"
  proof (cases "?n = 0")
    case True
    with d have "d = ?g" by (subst (asm) heap_down.simps) (auto simp: Let_def)
    with True show ?thesis by (simp add: is_heap_def)
  next
    case False
    have "is_heap ?n (fst (heap_down ?g 0 ?n)) \<and> mset (fst (heap_down ?g 0 ?n)) = mset ?g
      \<and> (\<forall>k. ?n \<le> k \<longrightarrow> fst (heap_down ?g 0 ?n) ! k = ?g ! k)"
    proof (rule heap_down_correct)
      show "\<forall>k. 0 < k \<and> k < ?n \<and> parent k \<noteq> 0 \<longrightarrow> sc_score (?g ! parent k) \<le> sc_score (?g ! k)"
      proof (intro allI impI, elim conjE)
        fix k assume k: "0 < k" "k < ?n" "parent k \<noteq> 0"
        then have "k \<noteq> 0" "k \<noteq> ?n" "parent k \<noteq> ?n" "k < length h" using parent_less [OF k(1)] by linarith+
        moreover have "sc_score (h ! parent k) \<le> sc_score (h ! k)"
          using assms(1) k(1) \<open>k < length h\<close> unfolding is_heap_def by blast
        ultimately show "sc_score (?g ! parent k) \<le> sc_score (?g ! k)"
          using k(3) by (simp only: swap_nth [OF n(2,1)] if_False)
      qed
    qed (use False in auto)
    with d show ?thesis by simp
  qed
  have x: "x = h ! 0" and h': "h' = take ?n d"
    using assms(3) d down n by (simp_all add: heap_pop_def swap_nth)
  have "length d = length h" using down mset_eq_length by fastforce
  then have "d = h' @ [x]"
    using down n x h' swap_nth [OF n(2,1), of ?n] take_Suc_conv_app_nth [of ?n d] by simp
  then have "mset h = add_mset x (mset h')" using down n by simp
  moreover have "is_heap (length h') h'"
    unfolding is_heap_def
  proof (intro allI impI, elim conjE)
    fix i assume "0 < i" "i < length h'"
    then have "i < ?n" "parent i < ?n" using h' by auto
    with down \<open>0 < i\<close> show "sc_score (h' ! parent i) \<le> sc_score (h' ! i)"
      unfolding is_heap_def h' by (simp only: nth_take)
  qed
  moreover have "sc_score x \<le> sc_score y" if "y \<in> set h'" for y
  proof -
    have "y \<in> set h" using that calculation(1) by (metis union_iff set_mset_mset add_mset_add_single)
    then obtain k where "k < length h" "y = h ! k" by (auto simp: in_set_conv_nth)
    with heap_min [OF assms(1)] x show ?thesis by simp
  qed
  ultimately show ?thesis by blast
qed

end
