(* ===== verification/Bruteforce.thy ===== *)
theory Bruteforce
  imports Score_Heap Embed_Validate "HOL-Library.AList"
begin

text \<open>
  \<open>internal/vector/bruteforce/store.go\<close>: the in-memory vector store and its similarity
  search. The map of vectors is an association list with distinct keys; its order is the one
  the range statement of \<open>Search\<close> happens to take, so a theorem about \<open>bf_search\<close> holds for
  every order. Floating-point operations are exact on finite numbers and follow IEEE on
  NaN and the infinities. The locale at the end is the interface \<open>types.VectorStore\<close> as the
  embedding worker relies on it.
\<close>

section \<open>Arithmetic on floats\<close>

fun f_add :: "float32 \<Rightarrow> float32 \<Rightarrow> float32" where
  "f_add F32NaN _ = F32NaN"
| "f_add _ F32NaN = F32NaN"
| "f_add (F32 x) (F32 y) = F32 (x + y)"
| "f_add (F32Inf s) (F32 _) = F32Inf s"
| "f_add (F32 _) (F32Inf s) = F32Inf s"
| "f_add (F32Inf s) (F32Inf t) = (if s = t then F32Inf s else F32NaN)"

fun f_mul :: "float32 \<Rightarrow> float32 \<Rightarrow> float32" where
  "f_mul F32NaN _ = F32NaN"
| "f_mul _ F32NaN = F32NaN"
| "f_mul (F32 x) (F32 y) = F32 (x * y)"
| "f_mul (F32Inf s) (F32 x) = (if x = 0 then F32NaN else F32Inf (s = (0 < x)))"
| "f_mul (F32 x) (F32Inf s) = (if x = 0 then F32NaN else F32Inf (s = (0 < x)))"
| "f_mul (F32Inf s) (F32Inf t) = F32Inf (s = t)"

fun f_sqrt :: "float32 \<Rightarrow> float32" where
  "f_sqrt (F32 x) = (if x < 0 then F32NaN else F32 (sqrt x))"
| "f_sqrt (F32Inf s) = (if s then F32Inf True else F32NaN)"
| "f_sqrt F32NaN = F32NaN"

fun f_div :: "float32 \<Rightarrow> float32 \<Rightarrow> float32" where
  "f_div F32NaN _ = F32NaN"
| "f_div _ F32NaN = F32NaN"
| "f_div (F32 x) (F32 y) = (if y \<noteq> 0 then F32 (x / y) else if x = 0 then F32NaN else F32Inf (0 < x))"
| "f_div (F32Inf s) (F32 y) = F32Inf (s = (0 \<le> y))"
| "f_div (F32 _) (F32Inf _) = F32 0"
| "f_div (F32Inf _) (F32Inf _) = F32NaN"

type_synonym cos_acc = "float32 \<times> float32 \<times> float32"

text \<open>The loop unrolled four times, and the loop over the rest.\<close>

function cosine_quads :: "vec \<Rightarrow> vec \<Rightarrow> nat \<Rightarrow> cos_acc \<Rightarrow> nat \<times> cos_acc" where
  "cosine_quads a b i (dot, normA, normB) =
     (if i + 3 < length a then
        let a0 = a ! i; a1 = a ! (i + 1); a2 = a ! (i + 2); a3 = a ! (i + 3);
            b0 = b ! i; b1 = b ! (i + 1); b2 = b ! (i + 2); b3 = b ! (i + 3)
        in cosine_quads a b (i + 4)
             (f_add dot (f_add (f_add (f_add (f_mul a0 b0) (f_mul a1 b1)) (f_mul a2 b2)) (f_mul a3 b3)),
              f_add normA (f_add (f_add (f_add (f_mul a0 a0) (f_mul a1 a1)) (f_mul a2 a2)) (f_mul a3 a3)),
              f_add normB (f_add (f_add (f_add (f_mul b0 b0) (f_mul b1 b1)) (f_mul b2 b2)) (f_mul b3 b3)))
      else (i, (dot, normA, normB)))"
  by pat_completeness auto
termination
  by (relation "measure (\<lambda>(a, b, i, acc). length a - i)") auto

function cosine_rest :: "vec \<Rightarrow> vec \<Rightarrow> nat \<Rightarrow> cos_acc \<Rightarrow> cos_acc" where
  "cosine_rest a b i (dot, normA, normB) =
     (if i < length a then
        cosine_rest a b (i + 1)
          (f_add dot (f_mul (a ! i) (b ! i)), f_add normA (f_mul (a ! i) (a ! i)),
           f_add normB (f_mul (b ! i) (b ! i)))
      else (dot, normA, normB))"
  by pat_completeness auto
termination
  by (relation "measure (\<lambda>(a, b, i, acc). length a - i)") auto

declare cosine_quads.simps [simp del] cosine_rest.simps [simp del]

definition cosine_similarity :: "vec \<Rightarrow> vec \<Rightarrow> float32" where
  "cosine_similarity a b =
     (let (i, acc) = cosine_quads a b 0 (F32 0, F32 0, F32 0);
          (dot, normA, normB) = cosine_rest a b i acc
      in if normA = F32 0 \<or> normB = F32 0 then F32 0
         else f_div dot (f_mul (f_sqrt normA) (f_sqrt normB)))"

section \<open>The store\<close>

record bf_store =
  bf_vectors :: "(int \<times> vec) list"
  bf_dim :: int

definition new_bf_store :: "int \<Rightarrow> bf_store" where
  "new_bf_store d = \<lparr>bf_vectors = [], bf_dim = d\<rparr>"

definition search_step :: "int \<Rightarrow> vec \<Rightarrow> int \<Rightarrow> int \<times> vec \<Rightarrow> scored list \<Rightarrow> scored list" where
  "search_step d query topK p h =
     (case p of (i, v) \<Rightarrow>
        if int (length v) \<noteq> d then h
        else (case cosine_similarity query v of
                F32 sim \<Rightarrow>
                  if int (length h) < topK then heap_push h \<lparr>sc_id = i, sc_score = sim\<rparr>
                  else if sim > sc_score (h ! 0) then heap_fix (h[0 := \<lparr>sc_id = i, sc_score = sim\<rparr>]) 0
                  else h
              | F32NaN \<Rightarrow> h
              | F32Inf s \<Rightarrow> h))"

text \<open>The extraction loop: \<open>n\<close> elements left in the heap, those popped so far in front.\<close>

primrec heap_drain :: "nat \<Rightarrow> scored list \<Rightarrow> vector_result list \<Rightarrow> vector_result list" where
  "heap_drain 0 h out = out"
| "heap_drain (Suc n) h out =
     (let (s, h') = heap_pop h in
      heap_drain n h' (\<lparr>vr_ChunkID = sc_id s, vr_Score = sc_score s\<rparr> # out))"

definition bf_search :: "bf_store \<Rightarrow> vec \<Rightarrow> int \<Rightarrow> vector_result list res" where
  "bf_search s query topK =
     (if topK \<le> 0 then Inr []
      else if int (length query) \<noteq> bf_dim s then Inl (ErrMsg ''query dim != store dim'')
      else if bf_vectors s = [] then Inr []
      else
        let h = fold (search_step (bf_dim s) query topK) (bf_vectors s) []
        in Inr (heap_drain (length h) h []))"

definition bf_upsert :: "int \<Rightarrow> vec \<Rightarrow> bf_store \<Rightarrow> unit res \<times> bf_store" where
  "bf_upsert chunkID v s =
     (if int (length v) \<noteq> bf_dim s then (Inl (ErrMsg ''vector dim != store dim''), s)
      else (Inr (), s\<lparr>bf_vectors := AList.update chunkID v (bf_vectors s)\<rparr>))"

definition bf_upsert_batch :: "int list \<Rightarrow> vec list \<Rightarrow> bf_store \<Rightarrow> unit res \<times> bf_store" where
  "bf_upsert_batch chunkIDs vectors s =
     (case check_batch_dims (int (length chunkIDs)) vectors (bf_dim s) of
        Some e \<Rightarrow> (Inl e, s)
      | None \<Rightarrow> (Inr (), s\<lparr>bf_vectors := fold (\<lambda>(i, v). AList.update i v) (zip chunkIDs vectors) (bf_vectors s)\<rparr>))"

definition bf_delete :: "int list \<Rightarrow> bf_store \<Rightarrow> unit res \<times> bf_store" where
  "bf_delete chunkIDs s = (Inr (), s\<lparr>bf_vectors := fold AList.delete chunkIDs (bf_vectors s)\<rparr>)"

definition bf_count :: "bf_store \<Rightarrow> int res" where
  "bf_count s = Inr (int (length (bf_vectors s)))"

definition bf_has :: "int \<Rightarrow> bf_store \<Rightarrow> bool res" where
  "bf_has chunkID s = Inr (map_of (bf_vectors s) chunkID \<noteq> None)"

section \<open>Cosine similarity\<close>

abbreviation cos_sums :: "real list \<Rightarrow> real list \<Rightarrow> nat \<Rightarrow> cos_acc" where
  "cos_sums xs ys i \<equiv>
     (F32 (\<Sum>k<i. xs ! k * ys ! k), F32 (\<Sum>k<i. xs ! k * xs ! k), F32 (\<Sum>k<i. ys ! k * ys ! k))"

lemma cosine_quads_sums:
  assumes "length xs = length ys" and "i \<le> length xs"
  shows "\<exists>j \<le> length xs. cosine_quads (map F32 xs) (map F32 ys) i (cos_sums xs ys i) = (j, cos_sums xs ys j)"
  using assms(2)
proof (induction "length xs - i" arbitrary: i rule: less_induct)
  case less
  show ?case
  proof (cases "i + 3 < length xs")
    case True
    have "cosine_quads (map F32 xs) (map F32 ys) i (cos_sums xs ys i)
        = cosine_quads (map F32 xs) (map F32 ys) (i + 4) (cos_sums xs ys (i + 4))"
      using True assms(1)
      by (subst cosine_quads.simps) (simp add: Let_def eval_nat_numeral add.assoc)
    moreover have "\<exists>j \<le> length xs. cosine_quads (map F32 xs) (map F32 ys) (i + 4) (cos_sums xs ys (i + 4))
        = (j, cos_sums xs ys j)" by (rule less.hyps) (use True in auto)
    ultimately show ?thesis by (simp only:)
  next
    case False
    with less.prems show ?thesis by (subst cosine_quads.simps) auto
  qed
qed

lemma cosine_rest_sums:
  assumes "length xs = length ys" and "i \<le> length xs"
  shows "cosine_rest (map F32 xs) (map F32 ys) i (cos_sums xs ys i) = cos_sums xs ys (length xs)"
  using assms(2)
proof (induction "length xs - i" arbitrary: i rule: less_induct)
  case less
  show ?case
  proof (cases "i < length xs")
    case True
    have "cosine_rest (map F32 xs) (map F32 ys) i (cos_sums xs ys i)
        = cosine_rest (map F32 xs) (map F32 ys) (i + 1) (cos_sums xs ys (i + 1))"
      using True assms(1) by (subst cosine_rest.simps) simp
    also have "\<dots> = cos_sums xs ys (length xs)" by (rule less.hyps) (use True in auto)
    finally show ?thesis .
  next
    case False
    with less.prems show ?thesis by (subst cosine_rest.simps) simp
  qed
qed

text \<open>The reference definition on real vectors.\<close>

definition cosine_ref :: "real list \<Rightarrow> real list \<Rightarrow> real" where
  "cosine_ref xs ys =
     (let n = length xs; dot = \<Sum>k<n. xs ! k * ys ! k; a = \<Sum>k<n. xs ! k * xs ! k; b = \<Sum>k<n. ys ! k * ys ! k
      in if a = 0 \<or> b = 0 then 0 else dot / (sqrt a * sqrt b))"

lemma sum_squares_nonneg: "0 \<le> (\<Sum>k<n. xs ! k * xs ! k)" for xs :: "real list"
  by (simp add: sum_nonneg)

lemma cosine_similarity_finite:
  assumes "length xs = length ys"
  shows "cosine_similarity (map F32 xs) (map F32 ys) = F32 (cosine_ref xs ys)"
proof -
  let ?n = "length xs"
  from cosine_quads_sums [OF assms, of 0] obtain j where
    j: "j \<le> ?n" "cosine_quads (map F32 xs) (map F32 ys) 0 (F32 0, F32 0, F32 0) = (j, cos_sums xs ys j)" by auto
  note rest = cosine_rest_sums [OF assms j(1)]
  have "\<not> (\<Sum>k<?n. xs ! k * xs ! k) < 0" "\<not> (\<Sum>k<?n. ys ! k * ys ! k) < 0"
    using sum_squares_nonneg [of xs] sum_squares_nonneg [of ys] by (simp_all add: not_less)
  then show ?thesis by (simp add: cosine_similarity_def j(2) rest cosine_ref_def Let_def)
qed

lemma cauchy_schwarz_sums:
  "(\<Sum>k<n. f k * g k)\<^sup>2 \<le> (\<Sum>k<n. f k * f k) * (\<Sum>k<n. g k * g k)" for f g :: "nat \<Rightarrow> real"
proof (induction n)
  case (Suc n)
  let ?S = "\<Sum>k<n. f k * g k" and ?A = "\<Sum>k<n. f k * f k" and ?B = "\<Sum>k<n. g k * g k"
  let ?x = "f n" and ?y = "g n"
  have A: "0 \<le> ?A" and B: "0 \<le> ?B" by (simp_all add: sum_nonneg)
  have "2 * ?S * (?x * ?y) \<le> ?x * ?x * ?B + ?A * (?y * ?y)"
  proof -
    have "\<bar>?S\<bar> \<le> sqrt (?A * ?B)" using Suc.IH real_sqrt_le_mono [of "?S\<^sup>2" "?A * ?B"] by simp
    then have "\<bar>?S\<bar> * (\<bar>?x\<bar> * \<bar>?y\<bar>) \<le> (sqrt ?A * sqrt ?B) * (\<bar>?x\<bar> * \<bar>?y\<bar>)"
      unfolding real_sqrt_mult by (rule mult_right_mono) simp
    moreover have "?S * (?x * ?y) \<le> \<bar>?S\<bar> * (\<bar>?x\<bar> * \<bar>?y\<bar>)"
      using abs_ge_self [of "?S * (?x * ?y)"] by (simp only: abs_mult)
    ultimately have "2 * ?S * (?x * ?y) \<le> 2 * (sqrt ?A * sqrt ?B) * (\<bar>?x\<bar> * \<bar>?y\<bar>)" by linarith
    also have "\<dots> \<le> ?x * ?x * ?B + ?A * (?y * ?y)"
    proof -
      have "0 \<le> (\<bar>?x\<bar> * sqrt ?B - sqrt ?A * \<bar>?y\<bar>)\<^sup>2" by simp
      then show ?thesis using A B
        by (simp add: power2_diff power_mult_distrib power2_eq_square [symmetric] algebra_simps)
    qed
    finally show ?thesis .
  qed
  with Suc.IH show ?case by (simp add: power2_eq_square algebra_simps)
qed simp

lemma cosine_ref_bounds:
  assumes "length xs = length ys" shows "- 1 \<le> cosine_ref xs ys \<and> cosine_ref xs ys \<le> 1"
proof -
  let ?n = "length xs"
  let ?d = "\<Sum>k<?n. xs ! k * ys ! k" and ?a = "\<Sum>k<?n. xs ! k * xs ! k" and ?b = "\<Sum>k<?n. ys ! k * ys ! k"
  have "sqrt (?d\<^sup>2) \<le> sqrt (?a * ?b)" using cauchy_schwarz_sums by (rule real_sqrt_le_mono)
  then have "\<bar>?d\<bar> \<le> sqrt ?a * sqrt ?b" by (simp add: real_sqrt_mult)
  moreover have "0 < sqrt ?a * sqrt ?b" if "?a \<noteq> 0" "?b \<noteq> 0"
    using that sum_squares_nonneg [of xs ?n] sum_squares_nonneg [of ys ?n] by (simp add: order_less_le)
  ultimately show ?thesis by (auto simp: cosine_ref_def Let_def divide_le_eq le_divide_eq)
qed


section \<open>The search keeps the best\<close>

text \<open>The entries that take part in a search, with their scores.\<close>

definition valid_entries :: "int \<Rightarrow> vec \<Rightarrow> (int \<times> vec) list \<Rightarrow> scored list" where
  "valid_entries d query vs =
     concat (map (\<lambda>(i, v).
       if int (length v) \<noteq> d then []
       else (case cosine_similarity query v of F32 sim \<Rightarrow> [\<lparr>sc_id = i, sc_score = sim\<rparr>] | _ \<Rightarrow> [])) vs)"

text \<open>The heap holds the best of the entries seen, the rest \<open>R\<close> are no better than any of them.\<close>

definition keeps_best :: "nat \<Rightarrow> scored multiset \<Rightarrow> scored list \<Rightarrow> bool" where
  "keeps_best k M h \<longleftrightarrow> is_heap (length h) h \<and> length h \<le> k \<and>
     (\<exists>R. M = mset h + R \<and> (R \<noteq> {#} \<longrightarrow> length h = k) \<and>
        (\<forall>r \<in># R. \<forall>y \<in> set h. sc_score r \<le> sc_score y))"

lemma keeps_best_push:
  assumes "keeps_best k M h" and "length h < k"
  shows "keeps_best k (add_mset x M) (heap_push h x)"
proof -
  from assms obtain R where "M = mset h + R" "R \<noteq> {#} \<longrightarrow> length h = k" "is_heap (length h) h"
    by (auto simp: keeps_best_def)
  with assms(2) have "M = mset h" by auto
  moreover have "length (heap_push h x) = Suc (length h)"
    using heap_push_correct [OF \<open>is_heap (length h) h\<close>] mset_eq_length [of "heap_push h x" "x # h"] by simp
  ultimately show ?thesis
    using heap_push_correct [OF \<open>is_heap (length h) h\<close>, of x] assms(2)
    by (auto simp: keeps_best_def intro!: exI [of _ "{#}"])
qed

lemma keeps_best_replace:
  assumes "keeps_best k M h" and "length h = k" and "0 < k" and "sc_score (h ! 0) < sc_score x"
  shows "keeps_best k (add_mset x M) (heap_fix (h[0 := x]) 0)"
proof -
  let ?h = "heap_fix (h[0 := x]) 0"
  from assms obtain R where R: "M = mset h + R" "is_heap (length h) h"
    "\<forall>r \<in># R. \<forall>y \<in> set h. sc_score r \<le> sc_score y" by (auto simp: keeps_best_def)
  have ne: "h \<noteq> []" using assms(2,3) by auto
  then obtain a t where h: "h = a # t" by (cases h) auto
  note fix_h = heap_fix_root [OF R(2) ne, of x]
  have len: "length ?h = length h"
    using fix_h mset_eq_length [of ?h "x # t"] h by simp
  have set_h: "set ?h = insert x (set t)" using fix_h h by (metis list.sel(3) set_mset_add_mset_insert set_mset_mset)
  have root: "sc_score a \<le> sc_score y" if y: "y \<in> set h" for y
  proof -
    from y obtain i where "i < length h" "y = h ! i" by (auto simp: in_set_conv_nth)
    with heap_min [OF R(2)] h show ?thesis by fastforce
  qed
  have "add_mset x M = mset ?h + add_mset a R" using fix_h R(1) h by simp
  moreover have "\<forall>r \<in># add_mset a R. \<forall>y \<in> set ?h. sc_score r \<le> sc_score y"
  proof (intro ballI)
    fix r y assume r: "r \<in># add_mset a R" and "y \<in> set ?h"
    then have y: "y = x \<or> y \<in> set h" using set_h h by auto
    have "sc_score r \<le> sc_score a" using r R(3) h by auto
    moreover have "sc_score a \<le> sc_score y" using y root assms(4) h by auto
    ultimately show "sc_score r \<le> sc_score y" by linarith
  qed
  ultimately show ?thesis
    using fix_h len assms(2) unfolding keeps_best_def by (metis order_refl)
qed

lemma keeps_best_skip:
  assumes "keeps_best k M h" and "length h = k" and "0 < k" and "\<not> sc_score (h ! 0) < sc_score x"
  shows "keeps_best k (add_mset x M) h"
proof -
  from assms obtain R where R: "M = mset h + R" "is_heap (length h) h"
    "\<forall>r \<in># R. \<forall>y \<in> set h. sc_score r \<le> sc_score y" by (auto simp: keeps_best_def)
  have "sc_score x \<le> sc_score y" if y: "y \<in> set h" for y
  proof -
    from y obtain i where "i < length h" "y = h ! i" by (auto simp: in_set_conv_nth)
    with heap_min [OF R(2)] assms(4) show ?thesis by fastforce
  qed
  with R(3) have "\<forall>r \<in># add_mset x R. \<forall>y \<in> set h. sc_score r \<le> sc_score y" by auto
  with R assms(2) show ?thesis unfolding keeps_best_def by (intro conjI exI [of _ "add_mset x R"]) auto
qed

lemma search_step_best:
  assumes "keeps_best k M h" and "0 < k"
  shows "keeps_best k (mset (valid_entries d query [p]) + M) (search_step d query (int k) p h)"
proof -
  obtain i v where p: "p = (i, v)" by (cases p)
  show ?thesis
  proof (cases "int (length v) = d \<and> (\<exists>sim. cosine_similarity query v = F32 sim)")
    case False
    then have "valid_entries d query [p] = []" and "search_step d query (int k) p h = h"
      by (auto simp: p valid_entries_def search_step_def split: float32.splits)
    with assms(1) show ?thesis by simp
  next
    case True
    then obtain sim where sim: "cosine_similarity query v = F32 sim" and "int (length v) = d" by blast
    let ?x = "\<lparr>sc_id = i, sc_score = sim\<rparr>"
    have v: "valid_entries d query [p] = [?x]" using sim \<open>int (length v) = d\<close> by (simp add: p valid_entries_def)
    have step: "search_step d query (int k) p h = (if length h < k then heap_push h ?x
        else if sim > sc_score (h ! 0) then heap_fix (h[0 := ?x]) 0 else h)"
      using sim \<open>int (length v) = d\<close> by (simp add: p search_step_def)
    consider "length h < k" | "length h = k" "sc_score (h ! 0) < sim" | "length h = k" "\<not> sc_score (h ! 0) < sim"
      using assms(1) by (fastforce simp: keeps_best_def)
    then show ?thesis
    proof cases
      case 1
      with keeps_best_push [OF assms(1), of ?x] show ?thesis by (simp add: v step)
    next
      case 2
      with keeps_best_replace [OF assms(1) _ assms(2), of ?x] show ?thesis by (simp add: v step)
    next
      case 3
      with keeps_best_skip [OF assms(1) _ assms(2), of ?x] show ?thesis by (simp add: v step)
    qed
  qed
qed

lemma valid_entries_Cons: "valid_entries d query (p # ps) = valid_entries d query [p] @ valid_entries d query ps"
  by (simp add: valid_entries_def)

lemma search_fold_best:
  "keeps_best k M h \<Longrightarrow> 0 < k \<Longrightarrow>
   keeps_best k (mset (valid_entries d query vs) + M) (fold (search_step d query (int k)) vs h)"
proof (induction vs arbitrary: M h)
  case Nil
  then show ?case by (simp add: valid_entries_def)
next
  case (Cons p vs)
  from Cons.IH [OF search_step_best [OF Cons.prems] Cons.prems(2), of d query p]
  show ?case
    by (subst valid_entries_Cons) (simp add: ac_simps)
qed

abbreviation to_result :: "scored \<Rightarrow> vector_result" where
  "to_result s \<equiv> \<lparr>vr_ChunkID = sc_id s, vr_Score = sc_score s\<rparr>"

lemma heap_drain_sorted:
  "is_heap n h \<Longrightarrow> length h = n \<Longrightarrow>
   \<exists>ys. heap_drain n h out = map to_result ys @ out \<and> mset ys = mset h
     \<and> sorted_wrt (\<lambda>a b. sc_score b \<le> sc_score a) ys"
proof (induction n arbitrary: h out)
  case 0
  then show ?case by simp
next
  case (Suc n)
  obtain x h' where pop: "heap_pop h = (x, h')" by (cases "heap_pop h")
  have "h \<noteq> []" using Suc.prems(2) by auto
  with heap_pop_correct [OF _ _ pop] Suc.prems have
    h': "is_heap (length h') h'" "mset h = add_mset x (mset h')" "\<forall>y \<in> set h'. sc_score x \<le> sc_score y" by simp_all
  then have "length h' = n" using Suc.prems(2) mset_eq_length [of h "x # h'"] by simp
  with Suc.IH [of h' "to_result x # out"] h'(1) obtain ys where
    ys: "heap_drain n h' (to_result x # out) = map to_result ys @ to_result x # out" "mset ys = mset h'"
      "sorted_wrt (\<lambda>a b. sc_score b \<le> sc_score a) ys" by blast
  have "set ys = set h'" using ys(2) by (rule mset_eq_setD)
  with ys h' pop show ?case
    by (intro exI [of _ "ys @ [x]"]) (simp add: sorted_wrt_append)
qed

section \<open>The interface of a vector store\<close>

text \<open>\<open>lookup\<close> is the abstract view of a store: the vector kept under a chunk id.\<close>

locale vector_store =
  fixes lookup :: "'s \<Rightarrow> int \<rightharpoonup> vec"
    and inv :: "'s \<Rightarrow> bool"
    and upsert_batch :: "int list \<Rightarrow> vec list \<Rightarrow> 's \<Rightarrow> unit res \<times> 's"
    and delete :: "int list \<Rightarrow> 's \<Rightarrow> unit res \<times> 's"
    and has :: "int \<Rightarrow> 's \<Rightarrow> bool res"
    and count :: "'s \<Rightarrow> int res"
  assumes upsert_ok: "inv s \<Longrightarrow> upsert_batch ids vs s = (Inr (), s') \<Longrightarrow>
      inv s' \<and> length ids = length vs \<and> lookup s' = lookup s ++ map_of (rev (zip ids vs))"
    and upsert_fail: "upsert_batch ids vs s = (Inl e, s') \<Longrightarrow> s' = s"
    and delete_ok: "inv s \<Longrightarrow> \<exists>s'. delete ids s = (Inr (), s') \<and> inv s' \<and> lookup s' = lookup s |` (- set ids)"
    and has_ok: "has i s = Inr (lookup s i \<noteq> None)"
    and count_ok: "inv s \<Longrightarrow> finite (dom (lookup s)) \<and> count s = Inr (int (card (dom (lookup s))))"
begin

lemma upsert_has:
  assumes "inv s" and "upsert_batch ids vs s = (Inr (), s')"
  shows "has i s' = Inr (lookup s i \<noteq> None \<or> i \<in> set ids)"
proof -
  from upsert_ok [OF assms] have l: "lookup s' = lookup s ++ map_of (rev (zip ids vs))" "length ids = length vs"
    by simp_all
  have "map_of (rev (zip ids vs)) i \<noteq> None \<longleftrightarrow> i \<in> set ids"
    using l(2) by (metis map_of_eq_None_iff map_fst_zip rev_map set_rev set_map)
  then show ?thesis using l(1) by (auto simp: has_ok map_add_def split: option.split)
qed

lemma upsert_distinct:
  assumes "inv s" and "upsert_batch ids vs s = (Inr (), s')" and "distinct ids" and "n < length ids"
  shows "lookup s' (ids ! n) = Some (vs ! n)"
proof -
  from upsert_ok [OF assms(1,2)] have l: "lookup s' = lookup s ++ map_of (rev (zip ids vs))" "length ids = length vs"
    by simp_all
  have "distinct (map fst (rev (zip ids vs)))" using assms(3) l(2) by (simp flip: rev_map)
  moreover have "(ids ! n, vs ! n) \<in> set (rev (zip ids vs))"
    using assms(4) l(2) by (auto simp: set_zip)
  ultimately have "map_of (rev (zip ids vs)) (ids ! n) = Some (vs ! n)" by (rule map_of_is_SomeI)
  then show ?thesis by (simp add: l(1))
qed

lemma delete_count:
  assumes "inv s" and "delete ids s = (r, s')"
  shows "count s' = Inr (int (card (dom (lookup s) - set ids)))"
proof -
  from delete_ok [OF assms(1), of ids] assms(2) have "inv s'" "lookup s' = lookup s |` (- set ids)" by auto
  moreover have "dom (lookup s |` (- set ids)) = dom (lookup s) - set ids" by auto
  ultimately show ?thesis using count_ok by simp
qed

end

definition bf_lookup :: "bf_store \<Rightarrow> int \<rightharpoonup> vec" where
  "bf_lookup s = map_of (bf_vectors s)"

text \<open>Distinct keys, as in a map, and the store's dimension for every vector.\<close>

definition bf_inv :: "bf_store \<Rightarrow> bool" where
  "bf_inv s \<longleftrightarrow> distinct (map fst (bf_vectors s)) \<and> (\<forall>(i, v) \<in> set (bf_vectors s). int (length v) = bf_dim s)"

lemma bf_fold_update:
  "map_of (fold (\<lambda>(i, v). AList.update i v) ps al) = map_of al ++ map_of (rev ps)"
proof (induction ps arbitrary: al)
  case (Cons p ps)
  then show ?case by (cases p) (simp add: update_conv' fun_upd_def map_add_def fun_eq_iff split: option.split)
qed simp

lemma bf_fold_update_keys:
  "distinct (map fst al) \<Longrightarrow> distinct (map fst (fold (\<lambda>(i, v). AList.update i v) ps al))"
  by (induction ps arbitrary: al) (auto simp: distinct_update)

lemma set_update_subset: "set (AList.update k v al) \<subseteq> insert (k, v) (set al)"
  by (induction al) auto

lemma bf_fold_update_set: "set (fold (\<lambda>(i, v). AList.update i v) ps al) \<subseteq> set ps \<union> set al"
proof (induction ps arbitrary: al)
  case (Cons p ps)
  obtain i v where p: "p = (i, v)" by (cases p)
  from Cons.IH [of "AList.update i v al"] set_update_subset [of i v al] show ?case by (auto simp: p)
qed simp

lemma bf_delete_lookup: "map_of (fold AList.delete ids al) = map_of al |` (- set ids)"
  by (induction ids arbitrary: al) (auto simp: delete_conv' restrict_map_def fun_eq_iff)

lemma bf_delete_set: "set (fold AList.delete ids al) \<subseteq> set al"
proof (induction ids arbitrary: al)
  case (Cons i ids)
  have "set (AList.delete i al) \<subseteq> set al" by (auto simp: AList.delete_eq)
  with Cons.IH [of "AList.delete i al"] show ?case by auto
qed simp

lemma bf_delete_keys: "distinct (map fst al) \<Longrightarrow> distinct (map fst (fold AList.delete ids al))"
  by (induction ids arbitrary: al) (auto simp: distinct_delete)

lemma check_batch_dims_None:
  "check_batch_dims (int (length ids)) vs d = None \<longleftrightarrow>
   length ids = length vs \<and> (\<forall>v \<in> set vs. int (length v) = d)"
  by (auto simp: check_batch_dims_def check_batch_lengths_def list_ex_iff)

interpretation bf: vector_store bf_lookup bf_inv bf_upsert_batch bf_delete bf_has bf_count
proof (unfold_locales, goal_cases)
  case (1 s ids vs s')
  then have ok: "length ids = length vs" "\<forall>v \<in> set vs. int (length v) = bf_dim s"
    and s': "s' = s\<lparr>bf_vectors := fold (\<lambda>(i, v). AList.update i v) (zip ids vs) (bf_vectors s)\<rparr>"
    using check_batch_dims_None [of ids vs "bf_dim s"] by (auto simp: bf_upsert_batch_def split: option.splits)
  have "\<forall>(i, v) \<in> set (bf_vectors s'). int (length v) = bf_dim s'"
  proof (rule ballI)
    fix p assume "p \<in> set (bf_vectors s')"
    then have "p \<in> set (zip ids vs) \<or> p \<in> set (bf_vectors s)"
      using bf_fold_update_set [of "zip ids vs" "bf_vectors s"] by (auto simp: s')
    then show "case p of (i, v) \<Rightarrow> int (length v) = bf_dim s'"
    proof
      assume "p \<in> set (zip ids vs)"
      then have "snd p \<in> set vs" by (metis set_zip_rightD prod.collapse)
      with ok(2) show ?thesis by (cases p) (simp add: s')
    next
      assume "p \<in> set (bf_vectors s)"
      with 1(1) show ?thesis unfolding bf_inv_def by (auto simp: s')
    qed
  qed
  moreover have "distinct (map fst (bf_vectors s'))"
    using 1(1) bf_fold_update_keys by (auto simp: s' bf_inv_def)
  ultimately have "bf_inv s'" by (simp add: bf_inv_def)
  with ok show ?case by (simp add: bf_lookup_def s' bf_fold_update)
next
  case (2 ids vs s e s')
  then show ?case by (auto simp: bf_upsert_batch_def split: option.splits)
next
  case (3 s ids)
  then show ?case
    using bf_delete_set [of ids "bf_vectors s"]
    by (auto simp: bf_delete_def bf_inv_def bf_lookup_def bf_delete_lookup bf_delete_keys)
next
  case (4 i s)
  then show ?case by (simp add: bf_has_def bf_lookup_def)
next
  case (5 s)
  then have d: "distinct (map fst (bf_vectors s))" by (simp add: bf_inv_def)
  have "card (dom (map_of (bf_vectors s))) = length (bf_vectors s)"
    using distinct_card [OF d] by (simp add: dom_map_of_conv_image_fst)
  then show ?case by (simp add: bf_lookup_def bf_count_def finite_dom_map_of)
qed

section \<open>Properties of the search\<close>

text \<open>C11. A search that succeeds returns the best entries of the store: as many as asked for or
  as there are entries that can be compared, in descending score, and no entry left out has a
  higher score than one returned. Entries of another dimension and entries whose similarity is
  not a number are left out. For finite vectors the score is the cosine similarity and lies
  between -1 and 1. A query of the wrong dimension is an error.\<close>

theorem bf_search_top_k:
  assumes "0 < topK"
  shows "(int (length query) \<noteq> bf_dim s \<longrightarrow> (\<exists>e. bf_search s query topK = Inl e))
    \<and> (int (length query) = bf_dim s \<longrightarrow>
        (\<exists>best rest. bf_search s query topK = Inr (map to_result best)
          \<and> mset (valid_entries (bf_dim s) query (bf_vectors s)) = mset best + rest
          \<and> int (length best) = min topK (int (length (valid_entries (bf_dim s) query (bf_vectors s))))
          \<and> sorted_wrt (\<lambda>a b. sc_score b \<le> sc_score a) best
          \<and> (\<forall>r \<in># rest. \<forall>b \<in> set best. sc_score r \<le> sc_score b)))
    \<and> (length xs = length ys \<longrightarrow>
        cosine_similarity (map F32 xs) (map F32 ys) = F32 (cosine_ref xs ys)
        \<and> - 1 \<le> cosine_ref xs ys \<and> cosine_ref xs ys \<le> 1)"
proof -
  have "\<exists>best rest. bf_search s query topK = Inr (map to_result best)
          \<and> mset (valid_entries (bf_dim s) query (bf_vectors s)) = mset best + rest
          \<and> int (length best) = min topK (int (length (valid_entries (bf_dim s) query (bf_vectors s))))
          \<and> sorted_wrt (\<lambda>a b. sc_score b \<le> sc_score a) best
          \<and> (\<forall>r \<in># rest. \<forall>b \<in> set best. sc_score r \<le> sc_score b)"
    if len: "int (length query) = bf_dim s"
  proof -
    define k where "k = nat topK"
    have k: "int k = topK" "0 < k" using assms by (simp_all add: k_def)
    let ?V = "valid_entries (bf_dim s) query (bf_vectors s)"
    define h where "h = fold (search_step (bf_dim s) query (int k)) (bf_vectors s) []"
    have "keeps_best k {#} []" by (simp add: keeps_best_def is_heap_def)
    from search_fold_best [OF this k(2), of "bf_dim s" query "bf_vectors s"]
    have best: "keeps_best k (mset ?V) h" by (simp add: h_def)
    then obtain R where R: "is_heap (length h) h" "length h \<le> k" "mset ?V = mset h + R"
      "R \<noteq> {#} \<longrightarrow> length h = k" "\<forall>r \<in># R. \<forall>y \<in> set h. sc_score r \<le> sc_score y"
      by (auto simp: keeps_best_def)
    from heap_drain_sorted [OF R(1) refl, of "[]"] obtain ys where
      ys: "heap_drain (length h) h [] = map to_result ys" "mset ys = mset h"
        "sorted_wrt (\<lambda>a b. sc_score b \<le> sc_score a) ys" by auto
    have "length ?V = length h + size R" using arg_cong [OF R(3), of size] by simp
    moreover have "length ys = length h" using ys(2) by (rule mset_eq_length)
    ultimately have "int (length ys) = min topK (int (length ?V))"
      using R(2,4) k(1) by (cases "R = {#}") auto
    moreover have "bf_search s query topK = Inr (map to_result ys)"
      using ys(1) assms len k(1) by (cases "bf_vectors s = []") (auto simp: bf_search_def h_def Let_def)
    moreover have "set ys = set h" using ys(2) by (rule mset_eq_setD)
    ultimately show ?thesis
      using R(3,5) ys(2,3) by (intro exI [of _ ys] exI [of _ R]) simp
  qed
  then show ?thesis
    using assms cosine_similarity_finite cosine_ref_bounds by (simp add: bf_search_def)
qed

theorem bf_search_top_k_witness:
  "\<exists>best. bf_search (\<lparr>bf_vectors = [(1, [F32 1, F32 0]), (2, [F32 0, F32 1])], bf_dim = 2\<rparr>) [F32 1, F32 0] 1
     = Inr (map to_result best)"
  using bf_search_top_k [of 1 "[F32 1, F32 0]" "\<lparr>bf_vectors = [(1, [F32 1, F32 0]), (2, [F32 0, F32 1])], bf_dim = 2\<rparr>" "[]" "[]"]
  by auto


text \<open>The in-memory store is a map from chunk ids to vectors: a batch is stored whole or, when
  lengths or dimensions disagree, not at all; afterwards every id of the batch is present with
  its vector, ids that were there stay, deleting removes exactly the given ids, and the count
  is the number of ids.\<close>

theorem bf_store_is_map:
  assumes "bf_inv s" and "distinct ids"
  shows "(\<exists>s'. bf_upsert_batch ids vs s = (if length ids = length vs \<and> (\<forall>v \<in> set vs. int (length v) = bf_dim s)
            then (Inr (), s') else (Inl (the (check_batch_dims (int (length ids)) vs (bf_dim s))), s)))
    \<and> (\<forall>s'. bf_upsert_batch ids vs s = (Inr (), s') \<longrightarrow> bf_inv s'
         \<and> (\<forall>n < length ids. bf_lookup s' (ids ! n) = Some (vs ! n))
         \<and> (\<forall>i. bf_has i s' = Inr (bf_lookup s i \<noteq> None \<or> i \<in> set ids))
         \<and> (\<forall>r s''. bf_delete ids s' = (r, s'') \<longrightarrow>
              r = Inr () \<and> bf_lookup s'' = bf_lookup s |` (- set ids)
              \<and> bf_count s'' = Inr (int (card (dom (bf_lookup s) - set ids)))))"
proof -
  have "bf_inv s' \<and> (\<forall>n < length ids. bf_lookup s' (ids ! n) = Some (vs ! n))
         \<and> (\<forall>i. bf_has i s' = Inr (bf_lookup s i \<noteq> None \<or> i \<in> set ids))
         \<and> (\<forall>r s''. bf_delete ids s' = (r, s'') \<longrightarrow>
              r = Inr () \<and> bf_lookup s'' = bf_lookup s |` (- set ids)
              \<and> bf_count s'' = Inr (int (card (dom (bf_lookup s) - set ids))))"
    if up: "bf_upsert_batch ids vs s = (Inr (), s')" for s'
  proof -
    note ok = bf.upsert_ok [OF assms(1) up]
    have keys: "dom (map_of (rev (zip ids vs))) = set ids"
      using ok by (simp add: dom_map_of_conv_image_fst flip: set_map)
    have restr: "bf_lookup s' |` (- set ids) = bf_lookup s |` (- set ids)"
      using keys ok by (auto simp: restrict_map_def map_add_def fun_eq_iff domIff split: option.split)
    have "dom (bf_lookup s') - set ids = dom (bf_lookup s) - set ids"
      using keys ok by auto
    moreover have "r = Inr () \<and> bf_lookup s'' = bf_lookup s |` (- set ids)"
      if "bf_delete ids s' = (r, s'')" for r s''
      using bf.delete_ok [of s' ids] ok that restr by auto
    ultimately show ?thesis
      using ok bf.upsert_distinct [OF assms(1) up assms(2)] bf.upsert_has [OF assms(1) up] bf.delete_count by auto
  qed
  then show ?thesis
    using check_batch_dims_None [of ids vs "bf_dim s"]
    by (cases "check_batch_dims (int (length ids)) vs (bf_dim s)") (auto simp: bf_upsert_batch_def)
qed

theorem bf_store_is_map_witness:
  "bf_inv (new_bf_store 1) \<and>
   (\<exists>s'. bf_upsert_batch [3] [[F32 1]] (new_bf_store 1) =
     (if length [3 :: int] = length [[F32 1]] \<and> (\<forall>v \<in> set [[F32 1]]. int (length v) = bf_dim (new_bf_store 1))
      then (Inr (), s') else (Inl (the (check_batch_dims (int (length [3 :: int])) [[F32 1]] (bf_dim (new_bf_store 1)))), new_bf_store 1)))"
proof -
  have inv: "bf_inv (new_bf_store 1)" by (simp add: bf_inv_def new_bf_store_def)
  have "distinct [3 :: int]" by simp
  from bf_store_is_map [OF inv this, of "[[F32 1]]"] inv show ?thesis by blast
qed

end
