(* ===== verification/Vector_File.thy ===== *)
theory Vector_File
  imports Prelude "HOL-Library.Word" "HOL-Library.AList"
begin

unbundle bit_operations_syntax

text \<open>
  \<open>SaveToDisk\<close> and \<open>LoadFromDisk\<close> of \<open>internal/vector/bruteforce/store.go\<close>: the binary file
  of embeddings. Here a component of a vector is its 32-bit pattern, on which
  \<open>math.Float32bits\<close> and \<open>math.Float32frombits\<close> are the identity; a file is a list of
  bytes, a disk a partial map from paths to files. Chunk ids are 64-bit signed numbers. The
  checksum is Go's \<open>crc32.ChecksumIEEE\<close>, computed bit by bit.
\<close>

type_synonym bytes = "8 word list"
type_synonym bitvec = "32 word list"

record vec_file_store =
  vf_vectors :: "(int \<times> bitvec) list"
  vf_dim :: int

section \<open>Little-endian numbers and the checksum\<close>

definition put_u32 :: "32 word \<Rightarrow> bytes" where
  "put_u32 w = [ucast w, ucast (drop_bit 8 w), ucast (drop_bit 16 w), ucast (drop_bit 24 w)]"

definition get_u32 :: "bytes \<Rightarrow> 32 word" where
  "get_u32 b = ucast (b ! 0) OR push_bit 8 (ucast (b ! 1)) OR push_bit 16 (ucast (b ! 2)) OR push_bit 24 (ucast (b ! 3))"

definition put_u64 :: "64 word \<Rightarrow> bytes" where
  "put_u64 w = map (\<lambda>k. ucast (drop_bit (8 * k) w)) [0..<8]"

definition get_u64 :: "bytes \<Rightarrow> 64 word" where
  "get_u64 b = fold (\<lambda>k acc. acc OR push_bit (8 * k) (ucast (b ! k))) [0..<8] 0"

definition crc_bit :: "32 word \<Rightarrow> 32 word" where
  "crc_bit c = (if bit c 0 then drop_bit 1 c XOR 0xEDB88320 else drop_bit 1 c)"

definition crc_byte :: "8 word \<Rightarrow> 32 word \<Rightarrow> 32 word" where
  "crc_byte b c = (crc_bit ^^ 8) (c XOR ucast b)"

definition crc32 :: "bytes \<Rightarrow> 32 word" where
  "crc32 bs = NOT (fold crc_byte bs (NOT 0))"

section \<open>Saving\<close>

definition emb_magic :: bytes where
  "emb_magic = [0x45, 0x4D, 0x42, 0x56]"

definition file_header :: "int \<Rightarrow> nat \<Rightarrow> bytes" where
  "file_header d n = emb_magic @ put_u32 2 @ put_u32 (word_of_int d) @ put_u32 (of_nat n)"

text \<open>The entry buffer is reused: a vector shorter than the store's dimension would leave the
  end of the entry before it in place, and a longer one would run off the buffer, a panic in Go.
  The store checks every vector's dimension when it is inserted, so neither occurs; the model
  covers the first, and \<open>storable\<close> below excludes both.\<close>

definition fill_entry :: "bytes \<Rightarrow> int \<times> bitvec \<Rightarrow> bytes" where
  "fill_entry buf p =
     (let new = put_u64 (word_of_int (fst p)) @ concat (map put_u32 (snd p))
      in new @ drop (length new) buf)"

fun write_entries :: "bytes \<Rightarrow> (int \<times> bitvec) list \<Rightarrow> bytes" where
  "write_entries buf [] = []"
| "write_entries buf (p # ps) = fill_entry buf p @ write_entries (fill_entry buf p) ps"

definition encode_file :: "vec_file_store \<Rightarrow> bytes" where
  "encode_file s =
     (let body = file_header (vf_dim s) (length (vf_vectors s))
                 @ write_entries (replicate (nat (8 + vf_dim s * 4)) 0) (vf_vectors s)
      in body @ put_u32 (crc32 body))"

text \<open>The steps of \<open>SaveToDisk\<close> that can fail.\<close>

datatype save_step = SMkdirAll | SCreateTemp | SWriteHeader | SWriteEntry nat | SWriteCrc | SFlush | SClose | SRename

type_synonym disk = "string \<rightharpoonup> bytes"

text \<open>\<open>partial\<close> is what has reached the temporary file when a step fails; the deferred
  \<open>os.Remove\<close> takes it away again.\<close>

definition save_to_disk ::
  "(save_step \<Rightarrow> bool) \<Rightarrow> string \<Rightarrow> (save_step \<Rightarrow> bytes) \<Rightarrow> string \<Rightarrow> vec_file_store \<Rightarrow> disk \<Rightarrow> unit res \<times> disk" where
  "save_to_disk fails tmpName partial path s disk =
     (let abort = (\<lambda>step ctx. (Inl (ErrWrap ctx (ErrMsg ''io'')), (disk(tmpName \<mapsto> partial step))(tmpName := None)))
      in if fails SMkdirAll then (Inl (ErrWrap ''create embedding dir'' (ErrMsg ''io'')), disk)
         else if fails SCreateTemp then (Inl (ErrWrap ''create temp file'' (ErrMsg ''io'')), disk)
         else if fails SWriteHeader then abort SWriteHeader ''write header''
         else (case find (\<lambda>i. fails (SWriteEntry i)) [0..<length (vf_vectors s)] of
                 Some i \<Rightarrow> abort (SWriteEntry i) ''write entry''
               | None \<Rightarrow>
                   if fails SWriteCrc then abort SWriteCrc ''write crc32''
                   else if fails SFlush then abort SFlush ''flush''
                   else if fails SClose then abort SClose ''close temp''
                   else if fails SRename then abort SRename ''atomic rename''
                   else (Inr (), (disk(path \<mapsto> encode_file s))(tmpName := None))))"

section \<open>Loading\<close>

definition max_dim :: nat where "max_dim = 4096"
definition max_vector_count :: nat where "max_vector_count = 2000000"

text \<open>\<open>io.ReadFull\<close>: the first \<open>n\<close> bytes, or none when there are fewer.\<close>

definition read_full :: "nat \<Rightarrow> bytes \<Rightarrow> (bytes \<times> bytes) option" where
  "read_full n bs = (if length bs < n then None else Some (take n bs, drop n bs))"

definition decode_entry :: "nat \<Rightarrow> bytes \<Rightarrow> int \<times> bitvec" where
  "decode_entry d b =
     (sint (get_u64 (take 8 b)), map (\<lambda>j. get_u32 (take 4 (drop (8 + j * 4) b))) [0..<d])"

fun read_entries :: "nat \<Rightarrow> nat \<Rightarrow> bytes \<Rightarrow> (int \<times> bitvec) list \<Rightarrow> ((int \<times> bitvec) list \<times> bytes) option" where
  "read_entries d 0 bs loaded = Some (loaded, bs)"
| "read_entries d (Suc n) bs loaded =
     (case read_full (8 + d * 4) bs of
        None \<Rightarrow> None
      | Some (buf, rest) \<Rightarrow>
          (case decode_entry d buf of (i, v) \<Rightarrow> read_entries d n rest (AList.update i v loaded)))"

definition load_file :: "bytes \<Rightarrow> vec_file_store \<Rightarrow> unit res \<times> vec_file_store" where
  "load_file bs s =
     (case read_full 4 bs of None \<Rightarrow> (Inl (ErrMsg ''read magic''), s) | Some (magic, r1) \<Rightarrow>
      if magic \<noteq> emb_magic then (Inl (ErrMsg ''invalid embedding file magic''), s) else
      case read_full 4 r1 of None \<Rightarrow> (Inl (ErrMsg ''read version''), s) | Some (vb, r2) \<Rightarrow>
      let version = get_u32 vb in
      if version \<noteq> 1 \<and> version \<noteq> 2 then (Inl (ErrMsg ''unsupported embedding file version''), s) else
      case read_full 4 r2 of None \<Rightarrow> (Inl (ErrMsg ''read dim''), s) | Some (db, r3) \<Rightarrow>
      case read_full 4 r3 of None \<Rightarrow> (Inl (ErrMsg ''read count''), s) | Some (cb, r4) \<Rightarrow>
      let d = unat (get_u32 db); count = unat (get_u32 cb) in
      if d > max_dim then (Inl (ErrMsg ''embedding dim exceeds max''), s)
      else if count > max_vector_count then (Inl (ErrMsg ''embedding count exceeds max''), s)
      else if vf_dim s > 0 \<and> int d \<noteq> vf_dim s then (Inl (ErrMsg ''embedding file dim != expected''), s)
      else case read_entries d count r4 [] of None \<Rightarrow> (Inl (ErrMsg ''read entry''), s) | Some (loaded, r5) \<Rightarrow>
        if version = 2 then
          (case read_full 4 r5 of
             None \<Rightarrow> (Inl (ErrMsg ''read crc32''), s)
           | Some (sb, _) \<Rightarrow>
               if crc32 (take (length bs - length r5) bs) \<noteq> get_u32 sb
               then (Inl (ErrMsg ''embedding file CRC32 mismatch''), s)
               else (Inr (), \<lparr>vf_vectors = loaded, vf_dim = int d\<rparr>))
        else (Inr (), \<lparr>vf_vectors = loaded, vf_dim = int d\<rparr>))"

text \<open>\<open>openErr\<close> is an error of \<open>os.Open\<close> other than that the file does not exist.\<close>

definition load_from_disk :: "err option \<Rightarrow> string \<Rightarrow> disk \<Rightarrow> vec_file_store \<Rightarrow> unit res \<times> vec_file_store" where
  "load_from_disk openErr path disk s =
     (case openErr of
        Some e \<Rightarrow> (Inl (ErrWrap ''open embeddings file'' e), s)
      | None \<Rightarrow> (case disk path of None \<Rightarrow> (Inr (), s) | Some bs \<Rightarrow> load_file bs s))"

section \<open>Numbers round trip\<close>

lemma length_put_u32 [simp]: "length (put_u32 w) = 4"
  by (simp add: put_u32_def)

lemma length_put_u64 [simp]: "length (put_u64 w) = 8"
  by (simp add: put_u64_def)

lemma get_put_u32 [simp]: "get_u32 (put_u32 w) = w"
proof (rule bit_word_eqI)
  fix n assume "n < LENGTH(32)"
  then consider "n < 8" | "8 \<le> n" "n < 16" | "16 \<le> n" "n < 24" | "24 \<le> n" "n < 32" by fastforce
  then show "bit (get_u32 (put_u32 w)) n = bit w n"
    by cases (auto simp: get_u32_def put_u32_def bit_or_iff bit_push_bit_iff bit_ucast_iff bit_drop_bit_eq)
qed

lemma bit_or_bytes:
  "bit (fold (\<lambda>k acc. acc OR push_bit (8 * k) (ucast (f k :: 8 word))) [0..<m] (0 :: 64 word)) n
     \<longleftrightarrow> n < 64 \<and> (\<exists>k < m. 8 * k \<le> n \<and> bit (f k) (n - 8 * k))"
proof (induction m)
  case (Suc m)
  have "bit (push_bit (8 * m) (ucast (f m) :: 64 word)) n \<longleftrightarrow> n < 64 \<and> 8 * m \<le> n \<and> bit (f m) (n - 8 * m)"
    using bit_imp_le_length [of "f m" "n - 8 * m"] by (auto simp: bit_push_bit_iff bit_ucast_iff)
  with Suc.IH show ?case by (auto simp: bit_or_iff less_Suc_eq)
qed simp

lemma get_put_u64 [simp]: "get_u64 (put_u64 w) = w"
proof (rule bit_word_eqI)
  fix n assume n: "n < LENGTH(64)"
  have same: "fold (\<lambda>k acc. acc OR push_bit (8 * k) (ucast (put_u64 w ! k))) [0..<8] (0 :: 64 word)
      = fold (\<lambda>k acc. acc OR push_bit (8 * k) (ucast (ucast (drop_bit (8 * k) w) :: 8 word))) [0..<8] 0"
    by (rule fold_cong) (simp_all add: put_u64_def)
  have "bit (get_u64 (put_u64 w)) n \<longleftrightarrow>
      (\<exists>k < 8. 8 * k \<le> n \<and> bit (ucast (drop_bit (8 * k) w) :: 8 word) (n - 8 * k))"
    unfolding get_u64_def same bit_or_bytes using n by simp
  also have "\<dots> \<longleftrightarrow> (\<exists>k < 8. 8 * k \<le> n \<and> n - 8 * k < 8 \<and> bit w n)"
    by (auto simp: bit_ucast_iff bit_drop_bit_eq)
  also have "\<dots> \<longleftrightarrow> bit w n"
    using n by (auto intro!: exI [of _ "n div 8"] simp: minus_mult_div_eq_mod)
  finally show "bit (get_u64 (put_u64 w)) n = bit w n" .
qed

lemma sint_word_of_int64: "- (2 ^ 63) \<le> i \<Longrightarrow> i < 2 ^ 63 \<Longrightarrow> sint (word_of_int i :: 64 word) = i"
  by (simp add: signed_of_int signed_take_bit_int_eq_self)


section \<open>The file format round trips\<close>

text \<open>What the store keeps: distinct 64-bit ids, vectors of the store's dimension, and sizes
  within the bounds of the file format.\<close>

definition storable :: "vec_file_store \<Rightarrow> bool" where
  "storable s \<longleftrightarrow> distinct (map fst (vf_vectors s)) \<and>
     (\<forall>p \<in> set (vf_vectors s). - (2 ^ 63) \<le> fst p \<and> fst p < 2 ^ 63 \<and> int (length (snd p)) = vf_dim s) \<and>
     0 \<le> vf_dim s \<and> vf_dim s \<le> int max_dim \<and> length (vf_vectors s) \<le> max_vector_count"

definition entry_bytes :: "int \<times> bitvec \<Rightarrow> bytes" where
  "entry_bytes p = put_u64 (word_of_int (fst p)) @ concat (map put_u32 (snd p))"

lemma length_concat_u32 [simp]: "length (concat (map put_u32 ws)) = 4 * length ws"
  by (induction ws) simp_all

lemma length_entry_bytes: "length (entry_bytes p) = 8 + 4 * length (snd p)"
  by (simp add: entry_bytes_def)

lemma write_entries_plain:
  assumes "\<forall>p \<in> set ps. length (snd p) = d" and "length buf = 8 + 4 * d"
  shows "write_entries buf ps = concat (map entry_bytes ps)"
  using assms
proof (induction ps arbitrary: buf)
  case (Cons p ps)
  then have "fill_entry buf p = entry_bytes p"
    by (simp add: fill_entry_def Let_def entry_bytes_def)
  with Cons show ?case by (simp add: length_entry_bytes)
qed simp

lemma nth_u32:
  "j < length ws \<Longrightarrow> take 4 (drop (j * 4) (concat (map put_u32 ws))) = put_u32 (ws ! j)"
proof (induction ws arbitrary: j)
  case (Cons w ws)
  show ?case
  proof (cases j)
    case (Suc i)
    with Cons show ?thesis by (simp add: add.commute)
  qed simp
qed simp

lemma decode_entry_bytes:
  assumes "- (2 ^ 63) \<le> fst p" "fst p < 2 ^ 63" and "length (snd p) = d"
  shows "decode_entry d (entry_bytes p) = p"
proof -
  have "map (\<lambda>j. get_u32 (take 4 (drop (8 + j * 4) (entry_bytes p)))) [0..<d] = map (\<lambda>j. snd p ! j) [0..<d]"
    using assms(3) by (intro map_cong) (simp_all add: entry_bytes_def nth_u32 del: upt_Suc)
  also have "\<dots> = snd p" using assms(3) map_nth [of "snd p"] by blast
  finally show ?thesis
    using assms(1,2) by (cases p) (simp add: decode_entry_def entry_bytes_def sint_word_of_int64)
qed

lemma update_fresh: "k \<notin> fst ` set al \<Longrightarrow> AList.update k v al = al @ [(k, v)]"
  by (induction al) auto

lemma read_entries_bytes:
  assumes "\<forall>p \<in> set ps. - (2 ^ 63) \<le> fst p \<and> fst p < 2 ^ 63 \<and> length (snd p) = d"
    and "distinct (map fst (acc @ ps))"
  shows "read_entries d (length ps) (concat (map entry_bytes ps) @ rest) acc = Some (acc @ ps, rest)"
  using assms
proof (induction ps arbitrary: acc)
  case (Cons p ps)
  then have p: "decode_entry d (entry_bytes p) = p" and len: "length (entry_bytes p) = 8 + d * 4"
    by (simp_all add: decode_entry_bytes length_entry_bytes)
  have "fst p \<notin> fst ` set acc" using Cons.prems(2) by auto
  then have up: "AList.update (fst p) (snd p) acc = acc @ [p]" by (simp add: update_fresh)
  have "read_entries d (length ps) (concat (map entry_bytes ps) @ rest) (acc @ [p]) = Some ((acc @ [p]) @ ps, rest)"
    using Cons.prems by (intro Cons.IH) simp_all
  with p len up show ?case by (cases p) (simp add: read_full_def)
qed simp

lemma encode_file_plain:
  assumes "storable s"
  shows "encode_file s = (let body = file_header (vf_dim s) (length (vf_vectors s)) @ concat (map entry_bytes (vf_vectors s))
      in body @ put_u32 (crc32 body))"
proof -
  have "write_entries (replicate (nat (8 + vf_dim s * 4)) 0) (vf_vectors s) = concat (map entry_bytes (vf_vectors s))"
    using assms by (intro write_entries_plain [where d = "nat (vf_dim s)"]) (auto simp: storable_def nat_add_distrib nat_mult_distrib)
  then show ?thesis by (simp add: encode_file_def)
qed

text \<open>What loading does with a file that opens with a version 2 header.\<close>

definition load_v2_tail :: "nat \<Rightarrow> nat \<Rightarrow> bytes \<Rightarrow> bytes \<Rightarrow> vec_file_store \<Rightarrow> unit res \<times> vec_file_store" where
  "load_v2_tail d cnt hdr r4 s =
     (if d > max_dim then (Inl (ErrMsg ''embedding dim exceeds max''), s)
      else if cnt > max_vector_count then (Inl (ErrMsg ''embedding count exceeds max''), s)
      else if vf_dim s > 0 \<and> int d \<noteq> vf_dim s then (Inl (ErrMsg ''embedding file dim != expected''), s)
      else case read_entries d cnt r4 [] of None \<Rightarrow> (Inl (ErrMsg ''read entry''), s) | Some (loaded, r5) \<Rightarrow>
          (case read_full 4 r5 of
             None \<Rightarrow> (Inl (ErrMsg ''read crc32''), s)
           | Some (sb, _) \<Rightarrow>
               if crc32 (take (length (hdr @ r4) - length r5) (hdr @ r4)) \<noteq> get_u32 sb
               then (Inl (ErrMsg ''embedding file CRC32 mismatch''), s)
               else (Inr (), \<lparr>vf_vectors = loaded, vf_dim = int d\<rparr>)))"

lemma read_full_4 [simp]:
  "length b = 4 \<Longrightarrow> read_full 4 (b @ r) = Some (b, r)" "length b = 4 \<Longrightarrow> read_full 4 b = Some (b, [])"
  by (simp_all add: read_full_def)

lemma length_emb_magic [simp]: "length emb_magic = 4"
  by (simp add: emb_magic_def)

lemma two_ne_one: "(2 :: 32 word) \<noteq> 1"
  by simp

lemma load_v2:
  "load_file (emb_magic @ put_u32 2 @ put_u32 dw @ put_u32 nw @ q) t =
     load_v2_tail (unat dw) (unat nw) (emb_magic @ put_u32 2 @ put_u32 dw @ put_u32 nw) q t"
  unfolding load_file_def load_v2_tail_def
  by (simp only: read_full_4 length_emb_magic length_put_u32 option.case prod.case Let_def get_put_u32
      simp_thms if_False if_True append_assoc)

lemma load_encode:
  assumes s: "storable s" and t: "vf_dim t \<le> 0 \<or> vf_dim t = vf_dim s"
  shows "load_file (encode_file s) t = (Inr (), s)"
proof -
  let ?d = "nat (vf_dim s)" and ?n = "length (vf_vectors s)" and ?E = "concat (map entry_bytes (vf_vectors s))"
  let ?H = "file_header (vf_dim s) ?n"
  have d: "0 \<le> vf_dim s" "?d \<le> max_dim" and n: "?n \<le> max_vector_count"
    using s by (simp_all add: storable_def nat_le_iff)
  have vd: "unat (word_of_int (vf_dim s) :: 32 word) = ?d"
    using d by (simp add: unat_eq_nat_uint unsigned_of_int take_bit_int_eq_self max_dim_def)
  have vn: "unat (of_nat ?n :: 32 word) = ?n"
    using n by (simp add: unsigned_of_nat take_bit_nat_eq_self max_vector_count_def)
  have entries: "read_entries ?d ?n (?E @ put_u32 (crc32 (?H @ ?E))) [] = Some (vf_vectors s, put_u32 (crc32 (?H @ ?E)))"
  proof -
    have "\<forall>p \<in> set (vf_vectors s). - (2 ^ 63) \<le> fst p \<and> fst p < 2 ^ 63 \<and> length (snd p) = ?d"
      using s unfolding storable_def by (metis nat_int)
    moreover have "distinct (map fst ([] @ vf_vectors s))" using s by (simp add: storable_def)
    ultimately show ?thesis using read_entries_bytes by (metis append_Nil)
  qed
  have enc: "encode_file s = ?H @ ?E @ put_u32 (crc32 (?H @ ?E))"
    using encode_file_plain [OF s] by (simp add: Let_def)
  have "load_file (encode_file s) t = load_v2_tail ?d ?n ?H (?E @ put_u32 (crc32 (?H @ ?E))) t"
    unfolding enc file_header_def append_assoc load_v2 vd vn ..
  also have "\<dots> = (Inr (), s)"
    unfolding load_v2_tail_def entries option.case prod.case
    using d n t by (auto simp: not_less)
  finally show ?thesis .
qed

section \<open>Damaged files\<close>

lemma read_full_less: "length bs < n \<Longrightarrow> read_full n bs = None"
  by (simp add: read_full_def)

lemma read_full_drop: "read_full n bs = Some (a, r) \<Longrightarrow> length bs = n + length r"
  by (auto simp: read_full_def split: if_splits)

lemma load_file_short:
  assumes "length bs < 16"
  shows "\<exists>e. load_file bs t = (Inl e, t)"
proof (cases "read_full 4 bs")
  case None
  then show ?thesis by (simp add: load_file_def)
next
  case a: (Some p1)
  obtain m r1 where p1: "p1 = (m, r1)" by fastforce
  show ?thesis
  proof (cases "read_full 4 r1")
    case None
    with a p1 show ?thesis by (simp add: load_file_def)
  next
    case b: (Some p2)
    obtain vb r2 where p2: "p2 = (vb, r2)" by fastforce
    show ?thesis
    proof (cases "read_full 4 r2")
      case None
      with a p1 b p2 show ?thesis by (simp add: load_file_def Let_def)
    next
      case c: (Some p3)
      obtain db r3 where p3: "p3 = (db, r3)" by fastforce
      have "length r3 < 4"
        using a b c p1 p2 p3 assms read_full_drop by fastforce
      with a b c p1 p2 p3 show ?thesis by (simp add: load_file_def Let_def read_full_less)
    qed
  qed
qed

definition unchanged_or_ok :: "vec_file_store \<Rightarrow> unit res \<times> vec_file_store \<Rightarrow> bool" where
  "unchanged_or_ok t r \<longleftrightarrow> (\<exists>e. r = (Inl e, t)) \<or> (\<exists>t'. r = (Inr (), t'))"

lemma unchanged_or_okI: "unchanged_or_ok t (Inl e, t)" "unchanged_or_ok t (Inr (), t')"
  by (simp_all add: unchanged_or_ok_def)

lemma unchanged_or_ok_if: "unchanged_or_ok t a \<Longrightarrow> unchanged_or_ok t b \<Longrightarrow> unchanged_or_ok t (if c then a else b)"
  by simp

lemma unchanged_or_ok_case:
  "unchanged_or_ok t a \<Longrightarrow> (\<And>x y. unchanged_or_ok t (f x y)) \<Longrightarrow>
   unchanged_or_ok t (case r of None \<Rightarrow> a | Some (x, y) \<Rightarrow> f x y)"
  by (auto split: option.split)

lemma load_file_fails_or_ok: "unchanged_or_ok t (load_file bs t)"
  unfolding load_file_def Let_def
  by (intro unchanged_or_ok_case unchanged_or_ok_if unchanged_or_okI)

lemma read_entries_length:
  "read_entries d n bs acc = Some (l, rest) \<Longrightarrow> length bs = n * (8 + d * 4) + length rest"
proof (induction n arbitrary: bs acc)
  case (Suc n)
  let ?b = "take (8 + d * 4) bs"
  have len: "8 + d * 4 \<le> length bs" using Suc.prems by (auto simp: read_full_def split: if_splits)
  with Suc.prems have "read_entries d n (drop (8 + d * 4) bs)
      (AList.update (fst (decode_entry d ?b)) (snd (decode_entry d ?b)) acc) = Some (l, rest)"
    by (simp add: read_full_def split: prod.splits)
  from Suc.IH [OF this] len show ?case by simp
qed simp

text \<open>What a successful load of a version 2 file says about its bytes.\<close>

lemma load_v2_length:
  assumes "load_file (emb_magic @ put_u32 2 @ put_u32 dw @ put_u32 nw @ q) t = (Inr (), t')"
  shows "unat nw * (8 + unat dw * 4) + 4 \<le> length q"
proof -
  have t: "load_v2_tail (unat dw) (unat nw) (emb_magic @ put_u32 2 @ put_u32 dw @ put_u32 nw) q t = (Inr (), t')"
    using assms unfolding load_v2 .
  obtain l r5 where "read_entries (unat dw) (unat nw) q [] = Some (l, r5)" "4 \<le> length r5"
    using t by (auto simp: load_v2_tail_def read_full_def split: if_splits option.splits)
  with read_entries_length show ?thesis by fastforce
qed

lemma length_encode_file:
  assumes "storable s"
  shows "length (encode_file s) = 16 + length (vf_vectors s) * (8 + nat (vf_dim s) * 4) + 4"
proof -
  have "length (concat (map entry_bytes ps)) = length ps * (8 + nat (vf_dim s) * 4)"
    if "\<forall>p \<in> set ps. int (length (snd p)) = vf_dim s" for ps
    using that by (induction ps) (auto simp: length_entry_bytes)
  with assms show ?thesis
    by (simp add: encode_file_plain Let_def file_header_def emb_magic_def storable_def)
qed

lemma load_truncated:
  assumes "storable s" and "strict_prefix p (encode_file s)"
  shows "\<exists>e. load_file p t = (Inl e, t)"
proof (rule ccontr)
  assume no: "\<nexists>e. load_file p t = (Inl e, t)"
  with load_file_fails_or_ok [of t p] obtain t' where ok: "load_file p t = (Inr (), t')"
    by (auto simp: unchanged_or_ok_def)
  have "16 \<le> length p" using no load_file_short [of p t] by (meson not_le_imp_less)
  let ?H = "file_header (vf_dim s) (length (vf_vectors s))"
  obtain r where enc: "encode_file s = ?H @ r"
    using encode_file_plain [OF assms(1)] by (simp add: Let_def)
  have "length ?H = 16" by (simp add: file_header_def emb_magic_def)
  with \<open>16 \<le> length p\<close> assms(2) enc have "prefix ?H p"
    by (metis prefixI prefix_length_prefix strict_prefix_def)
  then obtain q where p: "p = ?H @ q" by (auto simp: prefix_def)
  have "unat (of_nat (length (vf_vectors s)) :: 32 word) = length (vf_vectors s)"
    using assms(1) by (simp add: storable_def unsigned_of_nat take_bit_nat_eq_self max_vector_count_def)
  moreover have "unat (word_of_int (vf_dim s) :: 32 word) = nat (vf_dim s)"
    using assms(1) by (simp add: storable_def unat_eq_nat_uint unsigned_of_int take_bit_int_eq_self max_dim_def)
  ultimately have "length (encode_file s) \<le> length p"
    using load_v2_length [of "word_of_int (vf_dim s)" "of_nat (length (vf_vectors s))" q t t'] ok p
    by (simp add: length_encode_file [OF assms(1)] file_header_def emb_magic_def)
  with assms(2) show False using prefix_length_less by fastforce
qed

section \<open>Properties\<close>

text \<open>C12. Saving a store and loading the file into a store of the same dimension, or one without a
  dimension yet, gives the saved store back, vector by vector and bit by bit; a file cut short
  anywhere is refused, and whenever loading fails the store keeps what it had.\<close>

theorem vector_file_round_trip:
  assumes "storable s" and "vf_dim t \<le> 0 \<or> vf_dim t = vf_dim s"
  shows "load_file (encode_file s) t = (Inr (), s)
    \<and> (\<forall>p. strict_prefix p (encode_file s) \<longrightarrow> (\<exists>e. load_file p t = (Inl e, t)))
    \<and> (\<forall>bs. (\<exists>e. load_file bs t = (Inl e, t)) \<or> (\<exists>t'. load_file bs t = (Inr (), t')))"
  using assms load_encode load_truncated load_file_fails_or_ok unfolding unchanged_or_ok_def by blast

theorem vector_file_round_trip_witness:
  "load_file (encode_file \<lparr>vf_vectors = [(7, [1, 2])], vf_dim = 2\<rparr>) \<lparr>vf_vectors = [], vf_dim = 2\<rparr>
     = (Inr (), \<lparr>vf_vectors = [(7, [1, 2])], vf_dim = 2\<rparr>)"
proof -
  have "storable \<lparr>vf_vectors = [(7, [1, 2])], vf_dim = 2\<rparr>"
    by (simp add: storable_def max_dim_def max_vector_count_def)
  from vector_file_round_trip [OF this, of "\<lparr>vf_vectors = [], vf_dim = 2\<rparr>"] show ?thesis by simp
qed

text \<open>Saving replaces the file in one step: whichever step fails, the file at the path is what
  it was before and no temporary file is left, so that loading it again still gives the store
  saved last; without a failure the path holds the new file.\<close>

theorem save_is_atomic:
  assumes "disk tmp = None" and "tmp \<noteq> path" and "disk path = Some (encode_file old)" and "storable old"
    and "save_to_disk fails tmp partial path s disk = (r, disk')"
  shows "(r \<noteq> Inr () \<longrightarrow> disk' = disk \<and> load_from_disk None path disk' old = (Inr (), old))
    \<and> (r = Inr () \<longrightarrow> disk' = disk(path \<mapsto> encode_file s)
         \<and> (storable s \<and> vf_dim s = vf_dim old \<longrightarrow> load_from_disk None path disk' old = (Inr (), s)))
    \<and> (r = Inr () \<longleftrightarrow> \<not> fails SMkdirAll \<and> \<not> fails SCreateTemp \<and> \<not> fails SWriteHeader
         \<and> (\<forall>i < length (vf_vectors s). \<not> fails (SWriteEntry i))
         \<and> \<not> fails SWriteCrc \<and> \<not> fails SFlush \<and> \<not> fails SClose \<and> \<not> fails SRename)"
proof -
  have tmp: "disk(tmp := None) = disk" using assms(1) by auto
  have tmp': "(disk(path \<mapsto> x))(tmp := None) = disk(path \<mapsto> x)" for x using assms(1,2) by auto
  have none: "find (\<lambda>i. fails (SWriteEntry i)) [0..<n] = None \<longleftrightarrow> (\<forall>i < n. \<not> fails (SWriteEntry i))" for n
    by (auto simp: find_None_set)
  have all: "(r = Inr () \<and> disk' = disk(path \<mapsto> encode_file s) \<or> r \<noteq> Inr () \<and> disk' = disk)
      \<and> (r = Inr () \<longleftrightarrow> \<not> fails SMkdirAll \<and> \<not> fails SCreateTemp \<and> \<not> fails SWriteHeader
         \<and> (\<forall>i < length (vf_vectors s). \<not> fails (SWriteEntry i))
         \<and> \<not> fails SWriteCrc \<and> \<not> fails SFlush \<and> \<not> fails SClose \<and> \<not> fails SRename)"
    unfolding none [symmetric]
    using assms(5) by (auto simp: save_to_disk_def Let_def tmp tmp' split: if_splits option.splits)
  moreover have "load_from_disk None path disk old = (Inr (), old)"
    using assms(3) load_encode [OF assms(4)] by (simp add: load_from_disk_def)
  moreover have "load_from_disk None path (disk(path \<mapsto> encode_file s)) old = (Inr (), s)"
    if "storable s" "vf_dim s = vf_dim old"
    using load_encode [OF that(1), of old] that(2) by (simp add: load_from_disk_def)
  ultimately show ?thesis by blast
qed

theorem save_is_atomic_witness:
  "fst (save_to_disk (\<lambda>st. st = SFlush) ''t'' (\<lambda>_. []) ''p'' \<lparr>vf_vectors = [(7, [1, 2])], vf_dim = 2\<rparr>
     [''p'' \<mapsto> encode_file \<lparr>vf_vectors = [], vf_dim = 2\<rparr>]) \<noteq> Inr ()"
proof -
  let ?old = "\<lparr>vf_vectors = [], vf_dim = 2\<rparr>" and ?s = "\<lparr>vf_vectors = [(7, [1, 2])], vf_dim = 2\<rparr>"
  obtain r disk' where eq: "save_to_disk (\<lambda>st. st = SFlush) ''t'' (\<lambda>_. []) ''p'' ?s [''p'' \<mapsto> encode_file ?old] = (r, disk')"
    by (cases "save_to_disk (\<lambda>st. st = SFlush) ''t'' (\<lambda>_. []) ''p'' ?s [''p'' \<mapsto> encode_file ?old]")
  have "storable ?old" by (simp add: storable_def max_dim_def max_vector_count_def)
  from save_is_atomic [OF _ _ _ this eq] eq show ?thesis by simp
qed

end
