(* ===== verification/Sql_Db.thy ===== *)
theory Sql_Db
  imports Core_Types
begin

text \<open>
  The database of \<open>internal/storage/migrations/sqlite\<close>: its tables as lists of rows in rowid
  order, with the schema's constraints (\<open>CHECK\<close>, \<open>UNIQUE\<close>, \<open>REFERENCES\<close>), its cascades and
  its full-text triggers. Every table numbers its rows with \<open>AUTOINCREMENT\<close>, so a number is
  never used again; the sequence fields hold the last one. A query without \<open>ORDER BY\<close> is
  taken to deliver rows in rowid order. A statement that violates a constraint is an error;
  failures of the driver itself (disk, locks) are not modelled. A transaction is a function
  from the database to a result and the database after it; \<open>with_write_tx\<close> rolls back on error.
\<close>

section \<open>Rows and tables\<close>

record chunk_row = chunk_record +
  cw_embedded :: bool

record edge_row =
  eg_ID :: int
  eg_Src :: int
  eg_Dst :: int
  eg_Kind :: string
  eg_FileID :: int

record pending_row =
  pe_ID :: int
  pe_Src :: int
  pe_FileID :: int
  pe_DstName :: string
  pe_DstQualified :: string
  pe_Kind :: string
  pe_Language :: string

record diff_symbol_row =
  dy_ID :: int
  dy_DiffID :: int
  dy_SymbolID :: "int option"
  dy_SymbolName :: string
  dy_ChangeType :: string
  dy_ChunkID :: "int option"

record tool_call =
  tc_SessionID :: string
  tc_Timestamp :: string
  tc_ToolName :: string
  tc_ArgsJSON :: string
  tc_ArgsBytes :: int
  tc_ResponseBytes :: int
  tc_ResponseTokensEst :: int
  tc_ResultCount :: int
  tc_DurationMs :: int
  tc_IsError :: bool

record sql_db =
  db_files :: "file_record list"
  db_files_seq :: int
  db_chunks :: "chunk_row list"
  db_chunks_seq :: int
  db_symbols :: "symbol_record list"
  db_symbols_seq :: int
  db_edges :: "edge_row list"
  db_edges_seq :: int
  db_pending :: "pending_row list"
  db_pending_seq :: int
  db_diffs :: "diff_log_entry list"
  db_diffs_seq :: int
  db_diffsyms :: "diff_symbol_row list"
  db_diffsyms_seq :: int
  db_config :: "(string \<times> string) list"
  db_tool_calls :: "tool_call list"
  db_fts :: "(int \<times> string \<times> string) set"
  db_fts_triggers :: bool

definition empty_db :: sql_db where
  "empty_db =
     \<lparr>db_files = [], db_files_seq = 0, db_chunks = [], db_chunks_seq = 0, db_symbols = [], db_symbols_seq = 0,
      db_edges = [], db_edges_seq = 0, db_pending = [], db_pending_seq = 0, db_diffs = [], db_diffs_seq = 0,
      db_diffsyms = [], db_diffsyms_seq = 0, db_config = [], db_tool_calls = [], db_fts = {}, db_fts_triggers = True\<rparr>"

type_synonym 'a tx = "sql_db \<Rightarrow> 'a res \<times> sql_db"

definition with_write_tx :: "'a tx \<Rightarrow> 'a tx" where
  "with_write_tx fn db = (case fn db of (Inl e, _) \<Rightarrow> (Inl e, db) | (Inr a, db') \<Rightarrow> (Inr a, db'))"

definition tx_bind :: "'a tx \<Rightarrow> ('a \<Rightarrow> 'b tx) \<Rightarrow> 'b tx" where
  "tx_bind m f db = (case m db of (Inl e, db') \<Rightarrow> (Inl e, db') | (Inr a, db') \<Rightarrow> f a db')"

definition tx_wrap :: "string \<Rightarrow> 'a tx \<Rightarrow> 'a tx" where
  "tx_wrap ctx m db = (case m db of (r, db') \<Rightarrow> (wrap_res ctx r, db'))"

definition tx_return :: "'a \<Rightarrow> 'a tx" where
  "tx_return a db = (Inr a, db)"

section \<open>Constraints\<close>

definition file_check :: "file_record \<Rightarrow> bool" where
  "file_check f \<longleftrightarrow> embedding_status_valid (fr_EmbeddingStatus f) \<and> parse_quality_valid (fr_ParseQuality f)"

definition chunk_kind_check :: "string \<Rightarrow> bool" where
  "chunk_kind_check k \<longleftrightarrow> k \<in> {''function'', ''class'', ''method'', ''type'', ''interface'', ''header'', ''block''}"

definition chunk_check :: "chunk_row \<Rightarrow> bool" where
  "chunk_check c \<longleftrightarrow> chunk_kind_check (cr_Kind c) \<and> cr_ParseQuality c \<in> {''full'', ''partial''}"

definition symbol_check :: "symbol_record \<Rightarrow> bool" where
  "symbol_check s \<longleftrightarrow>
     sy_Kind s \<in> {''function'', ''class'', ''method'', ''type'', ''interface'', ''variable'', ''constant'', ''namespace''}
   \<and> visibility_valid (sy_Visibility s)"

definition diff_check :: "diff_log_entry \<Rightarrow> bool" where
  "diff_check d \<longleftrightarrow> dl_ChangeType d \<in> {''add'', ''modify'', ''delete'', ''rename''}"

definition diff_symbol_check :: "diff_symbol_row \<Rightarrow> bool" where
  "diff_symbol_check d \<longleftrightarrow>
     dy_ChangeType d \<in> {''added'', ''modified'', ''removed'', ''signature_changed'', ''moved''}"

abbreviation file_ids :: "sql_db \<Rightarrow> int set" where "file_ids db \<equiv> fr_ID ` set (db_files db)"
abbreviation chunk_ids :: "sql_db \<Rightarrow> int set" where "chunk_ids db \<equiv> cr_ID ` set (db_chunks db)"
abbreviation symbol_ids :: "sql_db \<Rightarrow> int set" where "symbol_ids db \<equiv> sy_ID ` set (db_symbols db)"
abbreviation diff_ids :: "sql_db \<Rightarrow> int set" where "diff_ids db \<equiv> dl_ID ` set (db_diffs db)"

text \<open>\<open>REFERENCES\<close> of a nullable column.\<close>

definition ref_ok :: "int set \<Rightarrow> int option \<Rightarrow> bool" where
  "ref_ok S r = (case r of None \<Rightarrow> True | Some i \<Rightarrow> i \<in> S)"

definition forget :: "int set \<Rightarrow> int option \<Rightarrow> int option" where
  "forget S r = (case r of Some i \<Rightarrow> if i \<in> S then None else Some i | None \<Rightarrow> None)"

section \<open>Statements on single tables\<close>

definition constraint_err :: err where "constraint_err = ErrMsg ''constraint failed''"

definition fts_row :: "chunk_row \<Rightarrow> int \<times> string \<times> string" where
  "fts_row c = (cr_ID c, cr_Content c, cr_SymbolName c)"

text \<open>\<open>INSERT INTO chunks\<close>, with the insert trigger.\<close>

definition insert_chunk :: "chunk_row \<Rightarrow> int tx" where
  "insert_chunk c db =
     (if chunk_check c \<and> cr_FileID c \<in> file_ids db \<and> ref_ok (chunk_ids db) (cr_ParentChunkID c) then
        let i = db_chunks_seq db + 1; row = c\<lparr>cr_ID := i\<rparr> in
        (Inr i, db\<lparr>db_chunks := db_chunks db @ [row], db_chunks_seq := i,
                   db_fts := (if db_fts_triggers db then insert (fts_row row) (db_fts db) else db_fts db)\<rparr>)
      else (Inl constraint_err, db))"

text \<open>\<open>UPDATE chunks SET ... WHERE\<close>, with the update trigger.\<close>

definition update_chunks :: "(chunk_row \<Rightarrow> bool) \<Rightarrow> (chunk_row \<Rightarrow> chunk_row) \<Rightarrow> sql_db \<Rightarrow> sql_db" where
  "update_chunks P f db =
     db\<lparr>db_chunks := map (\<lambda>c. if P c then f c else c) (db_chunks db),
        db_fts := (if db_fts_triggers db
                   then (db_fts db - fts_row ` {c \<in> set (db_chunks db). P c})
                        \<union> (\<lambda>c. fts_row (f c)) ` {c \<in> set (db_chunks db). P c}
                   else db_fts db)\<rparr>"

definition insert_symbol :: "symbol_record \<Rightarrow> int tx" where
  "insert_symbol s db =
     (if symbol_check s \<and> sy_ChunkID s \<in> chunk_ids db \<and> sy_FileID s \<in> file_ids db then
        let i = db_symbols_seq db + 1 in
        (Inr i, db\<lparr>db_symbols := db_symbols db @ [s\<lparr>sy_ID := i\<rparr>], db_symbols_seq := i\<rparr>)
      else (Inl constraint_err, db))"

section \<open>Deletion with cascades\<close>

definition drop_symbols :: "int set \<Rightarrow> sql_db \<Rightarrow> sql_db" where
  "drop_symbols S db =
     db\<lparr>db_symbols := filter (\<lambda>s. sy_ID s \<notin> S) (db_symbols db),
        db_edges := filter (\<lambda>e. eg_Src e \<notin> S \<and> eg_Dst e \<notin> S) (db_edges db),
        db_pending := filter (\<lambda>p. pe_Src p \<notin> S) (db_pending db),
        db_diffsyms := map (\<lambda>d. d\<lparr>dy_SymbolID := forget S (dy_SymbolID d)\<rparr>) (db_diffsyms db)\<rparr>"

definition drop_chunks :: "int set \<Rightarrow> sql_db \<Rightarrow> sql_db" where
  "drop_chunks C db =
     (let db1 = db\<lparr>db_chunks := map (\<lambda>c. c\<lparr>cr_ParentChunkID := forget C (cr_ParentChunkID c)\<rparr>)
                      (filter (\<lambda>c. cr_ID c \<notin> C) (db_chunks db)),
                   db_diffsyms := map (\<lambda>d. d\<lparr>dy_ChunkID := forget C (dy_ChunkID d)\<rparr>) (db_diffsyms db),
                   db_fts := (if db_fts_triggers db
                              then db_fts db - fts_row ` {c \<in> set (db_chunks db). cr_ID c \<in> C}
                              else db_fts db)\<rparr>
      in drop_symbols (sy_ID ` {s \<in> set (db_symbols db). sy_ChunkID s \<in> C}) db1)"

definition drop_diffs :: "int set \<Rightarrow> sql_db \<Rightarrow> sql_db" where
  "drop_diffs D db =
     db\<lparr>db_diffs := filter (\<lambda>d. dl_ID d \<notin> D) (db_diffs db),
        db_diffsyms := filter (\<lambda>d. dy_DiffID d \<notin> D) (db_diffsyms db)\<rparr>"

definition drop_files :: "int set \<Rightarrow> sql_db \<Rightarrow> sql_db" where
  "drop_files F db =
     (let db1 = drop_chunks (cr_ID ` {c \<in> set (db_chunks db). cr_FileID c \<in> F}) db;
          db2 = drop_symbols (sy_ID ` {s \<in> set (db_symbols db1). sy_FileID s \<in> F}) db1;
          db3 = drop_diffs (dl_ID ` {d \<in> set (db_diffs db2). dl_FileID d \<in> F}) db2
      in db3\<lparr>db_files := filter (\<lambda>f. fr_ID f \<notin> F) (db_files db3),
             db_edges := filter (\<lambda>e. eg_FileID e \<notin> F) (db_edges db3),
             db_pending := filter (\<lambda>p. pe_FileID p \<notin> F) (db_pending db3)\<rparr>)"

section \<open>Integrity\<close>

definition wf_ids :: "int list \<Rightarrow> int \<Rightarrow> bool" where
  "wf_ids ids n \<longleftrightarrow> sorted_wrt (<) ids \<and> (\<forall>i \<in> set ids. 0 < i \<and> i \<le> n) \<and> 0 \<le> n"

text \<open>What the schema promises of every database.\<close>

definition db_inv :: "sql_db \<Rightarrow> bool" where
  "db_inv db \<longleftrightarrow>
     wf_ids (map fr_ID (db_files db)) (db_files_seq db)
   \<and> wf_ids (map cr_ID (db_chunks db)) (db_chunks_seq db)
   \<and> wf_ids (map sy_ID (db_symbols db)) (db_symbols_seq db)
   \<and> wf_ids (map eg_ID (db_edges db)) (db_edges_seq db)
   \<and> wf_ids (map pe_ID (db_pending db)) (db_pending_seq db)
   \<and> wf_ids (map dl_ID (db_diffs db)) (db_diffs_seq db)
   \<and> wf_ids (map dy_ID (db_diffsyms db)) (db_diffsyms_seq db)
   \<and> distinct (map fr_Path (db_files db)) \<and> (\<forall>f \<in> set (db_files db). file_check f)
   \<and> (\<forall>c \<in> set (db_chunks db). chunk_check c \<and> cr_FileID c \<in> file_ids db \<and> ref_ok (chunk_ids db) (cr_ParentChunkID c))
   \<and> (\<forall>s \<in> set (db_symbols db). symbol_check s \<and> sy_ChunkID s \<in> chunk_ids db \<and> sy_FileID s \<in> file_ids db)
   \<and> (\<forall>e \<in> set (db_edges db). edge_kind_valid (eg_Kind e) \<and> eg_Src e \<in> symbol_ids db \<and> eg_Dst e \<in> symbol_ids db
        \<and> eg_FileID e \<in> file_ids db)
   \<and> distinct (map (\<lambda>e. (eg_Src e, eg_Dst e, eg_Kind e)) (db_edges db))
   \<and> (\<forall>p \<in> set (db_pending db). edge_kind_valid (pe_Kind p) \<and> pe_Src p \<in> symbol_ids db \<and> pe_FileID p \<in> file_ids db)
   \<and> (\<forall>d \<in> set (db_diffs db). diff_check d \<and> dl_FileID d \<in> file_ids db)
   \<and> (\<forall>d \<in> set (db_diffsyms db). diff_symbol_check d \<and> dy_DiffID d \<in> diff_ids db
        \<and> ref_ok (symbol_ids db) (dy_SymbolID d) \<and> ref_ok (chunk_ids db) (dy_ChunkID d))"

text \<open>The full-text index holds exactly the chunks.\<close>

definition fts_fresh :: "sql_db \<Rightarrow> bool" where
  "fts_fresh db \<longleftrightarrow> db_fts db = fts_row ` set (db_chunks db)"

lemma wf_ids_distinct: "wf_ids ids n \<Longrightarrow> distinct ids"
  by (auto simp: wf_ids_def strict_sorted_iff)

lemma wf_ids_snoc: "wf_ids ids n \<Longrightarrow> wf_ids (ids @ [n + 1]) (n + 1)"
  by (fastforce simp: wf_ids_def sorted_wrt_append)

lemma wf_ids_filter: "wf_ids (map f xs) n \<Longrightarrow> wf_ids (map f (filter P xs)) n"
  by (auto simp: wf_ids_def sorted_wrt_map sorted_wrt_filter)

lemma wf_ids_fresh: "wf_ids ids n \<Longrightarrow> n + 1 \<notin> set ids"
  by (auto simp: wf_ids_def)

lemma ref_ok_forget: "ref_ok S r \<Longrightarrow> ref_ok (S - D) (forget D r)"
  by (auto simp: ref_ok_def forget_def split: option.splits)

lemma ref_ok_mono: "ref_ok S r \<Longrightarrow> S \<subseteq> T \<Longrightarrow> ref_ok T r"
  by (auto simp: ref_ok_def split: option.splits)

lemma empty_db_ok: "db_inv empty_db" "fts_fresh empty_db"
  by (simp_all add: db_inv_def empty_db_def wf_ids_def fts_fresh_def)

lemma with_write_tx_cases:
  assumes "with_write_tx fn db = (r, db')"
  obtains (rollback) e where "r = Inl e" "db' = db" | (commit) a where "r = Inr a" "fn db = (Inr a, db')"
  using assms by (auto simp: with_write_tx_def split: prod.splits sum.splits)

section \<open>Statements keep the database intact\<close>

lemma wf_ids_map_id:
  "(\<And>x. f (g x) = f x) \<Longrightarrow> wf_ids (map f (map g xs)) n = wf_ids (map f xs) n"
  by (simp add: comp_def)

lemma insert_chunk_ok:
  assumes "db_inv db" and "insert_chunk c db = (Inr i, db')"
  shows "db_inv db' \<and> i = db_chunks_seq db + 1
    \<and> db_chunks db' = db_chunks db @ [c\<lparr>cr_ID := i\<rparr>] \<and> db_files db' = db_files db
    \<and> db_symbols db' = db_symbols db \<and> db_chunks_seq db' = i \<and> db_fts_triggers db' = db_fts_triggers db
    \<and> (db_fts_triggers db \<longrightarrow> fts_fresh db \<longrightarrow> fts_fresh db')"
proof -
  from assms(2) have c: "chunk_check c" "cr_FileID c \<in> file_ids db" "ref_ok (chunk_ids db) (cr_ParentChunkID c)"
    and i: "i = db_chunks_seq db + 1"
    and db': "db' = db\<lparr>db_chunks := db_chunks db @ [c\<lparr>cr_ID := i\<rparr>], db_chunks_seq := i,
        db_fts := (if db_fts_triggers db then insert (fts_row (c\<lparr>cr_ID := i\<rparr>)) (db_fts db) else db_fts db)\<rparr>"
    by (auto simp: insert_chunk_def Let_def split: if_splits)
  have chk: "chunk_check (c\<lparr>cr_ID := i\<rparr>)" using c(1) by (simp add: chunk_check_def)
  have sub: "ref_ok (insert i (chunk_ids db)) r" if "ref_ok (chunk_ids db) r" for r
    using that by (rule ref_ok_mono) blast
  have "db_inv db'"
    using assms(1) c chk sub wf_ids_snoc [of "map cr_ID (db_chunks db)" "db_chunks_seq db"]
    unfolding db_inv_def db' i by (simp add: ball_Un)
  then show ?thesis using i db' by (auto simp: fts_fresh_def)
qed

lemma insert_symbol_ok:
  assumes "db_inv db" and "insert_symbol s db = (Inr i, db')"
  shows "db_inv db' \<and> i = db_symbols_seq db + 1 \<and> db_symbols db' = db_symbols db @ [s\<lparr>sy_ID := i\<rparr>]
    \<and> db_files db' = db_files db \<and> db_chunks db' = db_chunks db \<and> db_symbols_seq db' = i
    \<and> db_fts db' = db_fts db \<and> db_fts_triggers db' = db_fts_triggers db"
proof -
  from assms(2) have c: "symbol_check s" "sy_ChunkID s \<in> chunk_ids db" "sy_FileID s \<in> file_ids db"
    and i: "i = db_symbols_seq db + 1"
    and db': "db' = db\<lparr>db_symbols := db_symbols db @ [s\<lparr>sy_ID := i\<rparr>], db_symbols_seq := i\<rparr>"
    by (auto simp: insert_symbol_def Let_def split: if_splits)
  have chk: "symbol_check (s\<lparr>sy_ID := i\<rparr>)" using c(1) by (simp add: symbol_check_def)
  have sub: "ref_ok (insert i (symbol_ids db)) r" if "ref_ok (symbol_ids db) r" for r
    using that by (rule ref_ok_mono) blast
  have "db_inv db'"
    using assms(1) c chk sub wf_ids_snoc [of "map sy_ID (db_symbols db)" "db_symbols_seq db"]
    unfolding db_inv_def db' i by (simp add: ball_Un)
  then show ?thesis using i db' by simp
qed

lemma drop_symbols_inv:
  assumes "db_inv db"
  shows "db_inv (drop_symbols S db)"
proof -
  have ids: "symbol_ids (drop_symbols S db) = symbol_ids db - S"
    by (auto simp: drop_symbols_def)
  have refs: "ref_ok (symbol_ids db - S) (forget S r)" if "ref_ok (symbol_ids db) r" for r
    using that by (rule ref_ok_forget)
  show ?thesis
    using assms refs
    unfolding db_inv_def ids
    by (simp add: wf_ids_filter drop_symbols_def comp_def distinct_map_filter diff_symbol_check_def)
qed

lemma key_filter:
  "distinct (map f xs) \<Longrightarrow> filter (\<lambda>x. f x \<notin> f ` {y \<in> set xs. P y}) xs = filter (\<lambda>x. \<not> P x) xs"
  by (rule filter_cong) (auto simp: distinct_map inj_on_def)

lemma drop_chunks_inv:
  assumes inv: "db_inv db"
  shows "db_inv (drop_chunks C db)"
proof -
  let ?S = "sy_ID ` {s \<in> set (db_symbols db). sy_ChunkID s \<in> C}"
  define db1 where "db1 = db\<lparr>db_symbols := filter (\<lambda>s. sy_ID s \<notin> ?S) (db_symbols db),
        db_edges := filter (\<lambda>e. eg_Src e \<notin> ?S \<and> eg_Dst e \<notin> ?S) (db_edges db),
        db_pending := filter (\<lambda>p. pe_Src p \<notin> ?S) (db_pending db),
        db_diffsyms := map (\<lambda>d. d\<lparr>dy_SymbolID := forget ?S (dy_SymbolID d)\<rparr>) (db_diffsyms db)\<rparr>"
  have "db1 = drop_symbols ?S db" by (simp add: db1_def drop_symbols_def)
  with drop_symbols_inv [OF inv] have inv1: "db_inv db1" by simp
  have syms: "sy_ChunkID s \<notin> C" if "s \<in> set (db_symbols db1)" for s
    using that by (auto simp: db1_def)
  have eq: "drop_chunks C db = db1\<lparr>
      db_chunks := map (\<lambda>c. c\<lparr>cr_ParentChunkID := forget C (cr_ParentChunkID c)\<rparr>) (filter (\<lambda>c. cr_ID c \<notin> C) (db_chunks db1)),
      db_diffsyms := map (\<lambda>d. d\<lparr>dy_ChunkID := forget C (dy_ChunkID d)\<rparr>) (db_diffsyms db1),
      db_fts := (if db_fts_triggers db1 then db_fts db1 - fts_row ` {c \<in> set (db_chunks db1). cr_ID c \<in> C} else db_fts db1)\<rparr>"
    by (simp add: drop_chunks_def drop_symbols_def db1_def Let_def)
  have ids: "chunk_ids (drop_chunks C db) = chunk_ids db1 - C" by (auto simp: eq image_iff)
  have refs: "ref_ok (chunk_ids db1 - C) (forget C r)" if "ref_ok (chunk_ids db1) r" for r
    using that by (rule ref_ok_forget)
  show ?thesis
    using inv1 refs syms
    unfolding db_inv_def ids
    by (simp add: wf_ids_filter eq comp_def chunk_check_def diff_symbol_check_def)
qed

lemma drop_diffs_inv: "db_inv db \<Longrightarrow> db_inv (drop_diffs D db)"
  by (auto simp: db_inv_def drop_diffs_def intro: wf_ids_filter)

text \<open>Once nothing refers to a file, its row can go.\<close>

lemma drop_chunks_fields:
  "db_files (drop_chunks C db) = db_files db"
  "db_diffs (drop_chunks C db) = db_diffs db"
  "db_chunks (drop_chunks C db) = map (\<lambda>c. c\<lparr>cr_ParentChunkID := forget C (cr_ParentChunkID c)\<rparr>) (filter (\<lambda>c. cr_ID c \<notin> C) (db_chunks db))"
  "db_symbols (drop_chunks C db) = filter (\<lambda>s. sy_ID s \<notin> sy_ID ` {s \<in> set (db_symbols db). sy_ChunkID s \<in> C}) (db_symbols db)"
  "db_fts (drop_chunks C db) = (if db_fts_triggers db then db_fts db - fts_row ` {c \<in> set (db_chunks db). cr_ID c \<in> C} else db_fts db)"
  "db_fts_triggers (drop_chunks C db) = db_fts_triggers db"
  by (simp_all add: drop_chunks_def drop_symbols_def Let_def)

lemma drop_symbols_fields:
  "db_files (drop_symbols S db) = db_files db" "db_diffs (drop_symbols S db) = db_diffs db"
  "db_chunks (drop_symbols S db) = db_chunks db" "db_fts (drop_symbols S db) = db_fts db"
  "db_fts_triggers (drop_symbols S db) = db_fts_triggers db"
  "db_symbols (drop_symbols S db) = filter (\<lambda>s. sy_ID s \<notin> S) (db_symbols db)"
  by (simp_all add: drop_symbols_def)

lemma drop_diffs_fields:
  "db_files (drop_diffs D db) = db_files db" "db_chunks (drop_diffs D db) = db_chunks db"
  "db_symbols (drop_diffs D db) = db_symbols db" "db_fts (drop_diffs D db) = db_fts db"
  "db_fts_triggers (drop_diffs D db) = db_fts_triggers db"
  "db_diffs (drop_diffs D db) = filter (\<lambda>d. dl_ID d \<notin> D) (db_diffs db)"
  by (simp_all add: drop_diffs_def)

lemma drop_files_inv:
  assumes inv: "db_inv db"
  shows "db_inv (drop_files F db)"
proof -
  define db1 where "db1 = drop_chunks (cr_ID ` {c \<in> set (db_chunks db). cr_FileID c \<in> F}) db"
  define db2 where "db2 = drop_symbols (sy_ID ` {s \<in> set (db_symbols db1). sy_FileID s \<in> F}) db1"
  define db3 where "db3 = drop_diffs (dl_ID ` {d \<in> set (db_diffs db2). dl_FileID d \<in> F}) db2"
  have inv3: "db_inv db3"
    unfolding db3_def db2_def db1_def by (intro drop_diffs_inv drop_symbols_inv drop_chunks_inv inv)
  have c: "cr_FileID c \<notin> F" if "c \<in> set (db_chunks db3)" for c
    using that by (auto simp: db3_def db2_def db1_def drop_chunks_fields drop_symbols_fields drop_diffs_fields)
  have s: "sy_FileID s \<notin> F" if "s \<in> set (db_symbols db3)" for s
    using that by (auto simp: db3_def db2_def drop_symbols_fields drop_diffs_fields)
  have d: "dl_FileID d \<notin> F" if "d \<in> set (db_diffs db3)" for d
    using that by (auto simp: db3_def drop_diffs_fields)
  have eq: "drop_files F db = db3\<lparr>db_files := filter (\<lambda>f. fr_ID f \<notin> F) (db_files db3),
      db_edges := filter (\<lambda>e. eg_FileID e \<notin> F) (db_edges db3),
      db_pending := filter (\<lambda>p. pe_FileID p \<notin> F) (db_pending db3)\<rparr>"
    by (simp add: drop_files_def Let_def db1_def db2_def db3_def)
  have ids: "file_ids (drop_files F db) = file_ids db3 - F" by (auto simp: eq)
  show ?thesis
    using inv3 c s d
    unfolding db_inv_def ids
    by (simp add: wf_ids_filter eq distinct_map_filter)
qed

lemma update_chunks_inv:
  assumes "db_inv db"
    and "\<And>c. c \<in> set (db_chunks db) \<Longrightarrow> P c \<Longrightarrow> cr_ID (f c) = cr_ID c \<and> cr_FileID (f c) = cr_FileID c
           \<and> chunk_check (f c) \<and> ref_ok (chunk_ids db) (cr_ParentChunkID (f c))"
  shows "db_inv (update_chunks P f db)"
proof -
  have ids: "map cr_ID (db_chunks (update_chunks P f db)) = map cr_ID (db_chunks db)"
    using assms(2) by (auto simp: update_chunks_def)
  then have set_ids: "chunk_ids (update_chunks P f db) = chunk_ids db" by (metis set_map)
  show ?thesis
    using assms unfolding db_inv_def ids set_ids by (auto simp: update_chunks_def)
qed

text \<open>With the triggers in place the full-text index follows the chunks.\<close>

lemma update_chunks_fts:
  "db_fts_triggers db \<Longrightarrow> fts_fresh db \<Longrightarrow> db_inv db \<Longrightarrow> fts_fresh (update_chunks P f db)"
proof -
  assume t: "db_fts_triggers db" and f: "fts_fresh db" and inv: "db_inv db"
  then have "distinct (map cr_ID (db_chunks db))" by (auto simp: db_inv_def dest: wf_ids_distinct)
  then have "fts_row ` set (db_chunks db) - fts_row ` {c \<in> set (db_chunks db). P c} = fts_row ` {c \<in> set (db_chunks db). \<not> P c}"
    by (auto simp: fts_row_def distinct_map inj_on_def)
  with t f show ?thesis
    by (auto simp: fts_fresh_def update_chunks_def)
qed

lemma drop_chunks_fts:
  "db_fts_triggers db \<Longrightarrow> fts_fresh db \<Longrightarrow> db_inv db \<Longrightarrow> fts_fresh (drop_chunks C db)"
proof -
  assume "db_fts_triggers db" "fts_fresh db"
  moreover have "fts_row ` set (db_chunks db) - fts_row ` {c \<in> set (db_chunks db). cr_ID c \<in> C}
      = fts_row ` {c \<in> set (db_chunks db). cr_ID c \<notin> C}"
    by (auto simp: fts_row_def)
  moreover have "fts_row (c\<lparr>cr_ParentChunkID := p\<rparr>) = fts_row c" for c p
    by (simp add: fts_row_def)
  ultimately show ?thesis by (simp add: fts_fresh_def drop_chunks_fields image_image)
qed

lemma drop_files_fts:
  "db_fts_triggers db \<Longrightarrow> fts_fresh db \<Longrightarrow> db_inv db \<Longrightarrow> fts_fresh (drop_files F db)"
  using drop_chunks_fts [of db "cr_ID ` {c \<in> set (db_chunks db). cr_FileID c \<in> F}"]
  by (simp add: drop_files_def Let_def fts_fresh_def drop_symbols_fields drop_diffs_fields)

section \<open>Operations that keep the store in order\<close>

text \<open>
  A store is in order when the schema's promises hold and, while the triggers are installed, the
  full-text index mirrors the chunks. An operation keeps the store when it takes a store in order
  to a store in order, on every outcome, and leaves the triggers as they are.
\<close>

definition store_ok :: "sql_db \<Rightarrow> bool" where
  "store_ok db \<longleftrightarrow> db_inv db \<and> (db_fts_triggers db \<longrightarrow> fts_fresh db)"

text \<open>The schema alone, or with the full-text index as well.\<close>

definition inv_at :: "bool \<Rightarrow> sql_db \<Rightarrow> bool" where
  "inv_at u db \<longleftrightarrow> db_inv db \<and> (u \<longrightarrow> db_fts_triggers db \<longrightarrow> fts_fresh db)"

lemma inv_at_simps [simp]: "inv_at True db = store_ok db" "inv_at False db = db_inv db"
  by (simp_all add: inv_at_def store_ok_def)

text \<open>An operation keeps the schema whatever the full-text index holds, and the index if that is in step.\<close>

definition keeps :: "(sql_db \<Rightarrow> sql_db) \<Rightarrow> bool" where
  "keeps f \<longleftrightarrow> (\<forall>u db. inv_at u db \<longrightarrow> inv_at u (f db) \<and> db_fts_triggers (f db) = db_fts_triggers db)"

abbreviation tx_keeps :: "'a tx \<Rightarrow> bool" where "tx_keeps m \<equiv> keeps (\<lambda>db. snd (m db))"

named_theorems keeps_intros \<open>operations that keep the store in order\<close>

lemma keepsI:
  "(\<And>db. db_inv db \<Longrightarrow> db_inv (f db)) \<Longrightarrow>
   (\<And>db. db_inv db \<Longrightarrow> db_fts_triggers db \<Longrightarrow> fts_fresh db \<Longrightarrow> fts_fresh (f db)) \<Longrightarrow>
   (\<And>db. db_fts_triggers (f db) = db_fts_triggers db) \<Longrightarrow> keeps f"
  by (auto simp: keeps_def inv_at_def)

lemma keeps_at: "keeps f \<Longrightarrow> inv_at u db \<Longrightarrow> inv_at u (f db) \<and> db_fts_triggers (f db) = db_fts_triggers db"
  by (simp add: keeps_def)

lemma keeps_inv: "keeps f \<Longrightarrow> db_inv db \<Longrightarrow> db_inv (f db) \<and> db_fts_triggers (f db) = db_fts_triggers db"
  unfolding keeps_def by (metis inv_at_simps(2))

lemma keeps_ok: "keeps f \<Longrightarrow> store_ok db \<Longrightarrow> store_ok (f db) \<and> db_fts_triggers (f db) = db_fts_triggers db"
  unfolding keeps_def by (metis inv_at_simps(1))

lemma keepsD: "keeps f \<Longrightarrow> store_ok db \<Longrightarrow> store_ok (f db)"
  by (simp add: keeps_ok)

lemma tx_keepsD: "tx_keeps m \<Longrightarrow> store_ok db \<Longrightarrow> m db = (r, db') \<Longrightarrow> store_ok db'"
  by (drule (1) keepsD) simp

lemma keeps_const [keeps_intros]: "tx_keeps (\<lambda>db. (r db, db))"
  by (simp add: keeps_def)

lemma keeps_id [simp]: "keeps (\<lambda>db. db)"
  by (simp add: keeps_def)

lemma keeps_pair: "tx_keeps (\<lambda>db. (r db, f db)) \<longleftrightarrow> keeps f"
  by (simp add: keeps_def)

lemma keeps_with_write_tx [keeps_intros]: "tx_keeps m \<Longrightarrow> tx_keeps (with_write_tx m)"
  unfolding keeps_def with_write_tx_def
  by (simp split: prod.splits sum.splits) (metis snd_conv)

lemma keeps_bind [keeps_intros]: "tx_keeps m \<Longrightarrow> (\<And>a. tx_keeps (g a)) \<Longrightarrow> tx_keeps (tx_bind m g)"
  unfolding keeps_def tx_bind_def
  by (simp split: prod.splits sum.splits) (metis snd_conv)

lemma keeps_return [keeps_intros]: "tx_keeps (tx_return a)"
  by (simp add: keeps_def tx_return_def)

lemma keeps_tx_wrap [keeps_intros]: "tx_keeps m \<Longrightarrow> tx_keeps (tx_wrap ctx m)"
  unfolding keeps_def tx_wrap_def by (simp split: prod.splits) (metis snd_conv)

lemma keeps_case_option:
  assumes "\<And>a. tx_keeps (g a)" and "tx_keeps n"
  shows "tx_keeps (\<lambda>db. case h db of None \<Rightarrow> n db | Some a \<Rightarrow> g a db)"
  unfolding keeps_def
proof (intro allI impI)
  fix u db assume "inv_at u db"
  then show "inv_at u (snd (case h db of None \<Rightarrow> n db | Some a \<Rightarrow> g a db))
      \<and> db_fts_triggers (snd (case h db of None \<Rightarrow> n db | Some a \<Rightarrow> g a db)) = db_fts_triggers db"
    using assms by (cases "h db") (simp_all add: keeps_def)
qed

lemma keeps_if: "tx_keeps f \<Longrightarrow> tx_keeps g \<Longrightarrow> tx_keeps (\<lambda>db. if P db then f db else g db)"
  by (simp add: keeps_def)

lemma keeps_arg:
  assumes "\<And>a. tx_keeps (g a)" shows "tx_keeps (\<lambda>db. g (h db) db)"
  unfolding keeps_def
proof (intro allI impI)
  fix u db assume "inv_at u db"
  with assms [of "h db"] show "inv_at u (snd (g (h db) db)) \<and> db_fts_triggers (snd (g (h db) db)) = db_fts_triggers db"
    by (simp add: keeps_def)
qed

lemma keeps_comp: "keeps f \<Longrightarrow> keeps g \<Longrightarrow> keeps (\<lambda>db. g (f db))"
  unfolding keeps_def by metis

lemma keeps_drop_symbols: "keeps (\<lambda>db. drop_symbols (S db) db)"
  by (rule keepsI) (simp_all add: drop_symbols_inv fts_fresh_def drop_symbols_fields)

lemma keeps_drop_chunks: "keeps (\<lambda>db. drop_chunks (S db) db)"
  by (rule keepsI) (simp_all add: drop_chunks_inv drop_chunks_fts drop_chunks_fields)

lemma drop_files_triggers: "db_fts_triggers (drop_files F db) = db_fts_triggers db"
  by (simp add: drop_files_def Let_def drop_chunks_fields drop_symbols_fields drop_diffs_fields)

lemma keeps_drop_files: "keeps (\<lambda>db. drop_files (S db) db)"
  by (rule keepsI) (simp_all add: drop_files_inv drop_files_fts drop_files_triggers)

lemma keeps_insert_chunk: "tx_keeps (insert_chunk c)"
proof (rule keepsI)
  fix db
  have cases: "(\<exists>e. insert_chunk c db = (Inl e, db)) \<or> (\<exists>i db'. insert_chunk c db = (Inr i, db'))"
    by (auto simp: insert_chunk_def Let_def)
  show "db_fts_triggers (snd (insert_chunk c db)) = db_fts_triggers db"
    by (simp add: insert_chunk_def Let_def)
  show "db_inv (snd (insert_chunk c db))" if "db_inv db"
    using cases insert_chunk_ok [OF that] by (metis snd_conv that)
  show "fts_fresh (snd (insert_chunk c db))" if "db_inv db" "db_fts_triggers db" "fts_fresh db"
    using cases insert_chunk_ok [OF that(1)] by (metis snd_conv that(2,3))
qed

lemma keeps_insert_symbol: "tx_keeps (insert_symbol s)"
proof (rule keepsI)
  fix db
  have cases: "(\<exists>e. insert_symbol s db = (Inl e, db)) \<or> (\<exists>i db'. insert_symbol s db = (Inr i, db'))"
    by (auto simp: insert_symbol_def Let_def)
  show "db_fts_triggers (snd (insert_symbol s db)) = db_fts_triggers db"
    by (simp add: insert_symbol_def Let_def)
  show "db_inv (snd (insert_symbol s db))" if "db_inv db"
    using cases insert_symbol_ok [OF that] by (metis snd_conv that)
  show "fts_fresh (snd (insert_symbol s db))" if "db_inv db" "db_fts_triggers db" "fts_fresh db"
    using that(3) by (simp add: insert_symbol_def Let_def fts_fresh_def)
qed

lemma empty_store_ok: "store_ok empty_db"
  by (simp add: store_ok_def empty_db_ok)

section \<open>A small database\<close>

text \<open>Two Go files and a Python file; \<open>bar\<close> calls \<open>foo\<close>, and a call of \<open>baz\<close> is still pending.\<close>

definition sample_file_row :: "int \<Rightarrow> string \<Rightarrow> string \<Rightarrow> file_record" where
  "sample_file_row i path lang = \<lparr>fr_ID = i, fr_Path = path, fr_ContentHash = ''h'', fr_Mtime = 0, fr_Size = 10, fr_Language = lang,
     fr_IndexedAt = ''t'', fr_EmbeddingStatus = ''pending'', fr_ParseQuality = ''full'', fr_IsTest = False\<rparr>"

definition sample_chunk_row :: "int \<Rightarrow> int \<Rightarrow> string \<Rightarrow> chunk_row" where
  "sample_chunk_row i fid name = \<lparr>cr_ID = i, cr_FileID = fid, cr_ParentChunkID = None, cr_ChunkIndex = i, cr_SymbolName = name,
     cr_Kind = ''function'', cr_StartLine = 1, cr_EndLine = 2, cr_Content = name, cr_TokenCount = 3, cr_Signature = [],
     cr_ParseQuality = ''full'', cr_ParentIndex = None, cw_embedded = False\<rparr>"

definition sample_symbol_row :: "int \<Rightarrow> int \<Rightarrow> int \<Rightarrow> string \<Rightarrow> symbol_record" where
  "sample_symbol_row i cid fid name = \<lparr>sy_ID = i, sy_ChunkID = cid, sy_FileID = fid, sy_Name = name, sy_QualifiedName = [],
     sy_Kind = ''function'', sy_Line = 1, sy_Signature = [], sy_Visibility = ''public'', sy_IsExported = True\<rparr>"

definition sample_db :: sql_db where
  "sample_db =
     \<lparr>db_files = [sample_file_row 1 ''a.go'' ''go'', sample_file_row 2 ''b.go'' ''go'', sample_file_row 3 ''c.py'' ''python''], db_files_seq = 3,
      db_chunks = [sample_chunk_row 1 1 ''foo'', sample_chunk_row 2 1 ''bar'', sample_chunk_row 3 2 ''baz'', sample_chunk_row 4 3 ''baz''], db_chunks_seq = 4,
      db_symbols = [sample_symbol_row 1 1 1 ''foo'', sample_symbol_row 2 2 1 ''bar'', sample_symbol_row 3 4 3 ''baz'', sample_symbol_row 4 3 2 ''baz''],
      db_symbols_seq = 4,
      db_edges = [\<lparr>eg_ID = 1, eg_Src = 2, eg_Dst = 1, eg_Kind = ''calls'', eg_FileID = 1\<rparr>], db_edges_seq = 1,
      db_pending = [\<lparr>pe_ID = 1, pe_Src = 1, pe_FileID = 1, pe_DstName = ''baz'', pe_DstQualified = [], pe_Kind = ''calls'', pe_Language = ''go''\<rparr>],
      db_pending_seq = 1,
      db_diffs = [\<lparr>dl_ID = 1, dl_FileID = 1, dl_Timestamp = ''2025'', dl_ChangeType = ''modify'', dl_LinesAdded = 10, dl_LinesRemoved = 5,
                   dl_HashBefore = [], dl_HashAfter = []\<rparr>], db_diffs_seq = 1,
      db_diffsyms = [], db_diffsyms_seq = 0, db_config = [], db_tool_calls = [],
      db_fts = {(1, ''foo'', ''foo''), (2, ''bar'', ''bar''), (3, ''baz'', ''baz''), (4, ''baz'', ''baz'')}, db_fts_triggers = True\<rparr>"

lemmas sample_defs = sample_db_def sample_file_row_def sample_chunk_row_def sample_symbol_row_def

lemma sample_db_ok: "store_ok sample_db" "fts_fresh sample_db"
proof -
  show fresh: "fts_fresh sample_db" by (simp add: fts_fresh_def fts_row_def sample_defs)
  have "db_inv sample_db"
    unfolding db_inv_def
    by (simp add: sample_defs wf_ids_def file_check_def embedding_status_valid_def parse_quality_valid_def chunk_check_def
        chunk_kind_check_def symbol_check_def visibility_valid_def edge_kind_valid_def diff_check_def ref_ok_def)
  with fresh show "store_ok sample_db" by (simp add: store_ok_def)
qed

end
