(* ===== verification/Sqlite_Graph.thy ===== *)
theory Sqlite_Graph
  imports Sql_Db "HOL-Library.AList"
begin

text \<open>
  \<open>internal/storage/sqlite/graph.go\<close>: the symbol graph. Edges whose target is known go into
  \<open>edges\<close>; the others wait in \<open>pending_edges\<close> until a symbol of that name appears.
  \<open>Neighbors\<close> is a recursive query; it is modelled as SQLite evaluates one, with a queue of
  rows still to be expanded and \<open>UNION\<close> dropping rows seen before.
\<close>

section \<open>Edges\<close>

abbreviation edge_triple :: "edge_row \<Rightarrow> int \<times> int \<times> string" where
  "edge_triple e \<equiv> (eg_Src e, eg_Dst e, eg_Kind e)"

abbreviation edge_triples :: "sql_db \<Rightarrow> (int \<times> int \<times> string) set" where
  "edge_triples db \<equiv> edge_triple ` set (db_edges db)"

text \<open>\<open>INSERT OR IGNORE\<close> skips a row that violates \<open>CHECK\<close> or \<open>UNIQUE\<close>; a foreign key still fails.\<close>

definition insert_edge :: "int \<Rightarrow> int \<Rightarrow> string \<Rightarrow> int \<Rightarrow> unit tx" where
  "insert_edge srcID dstID kind fileID db =
     (if \<not> edge_kind_valid kind \<or> (srcID, dstID, kind) \<in> edge_triples db then (Inr (), db)
      else if srcID \<in> symbol_ids db \<and> dstID \<in> symbol_ids db \<and> fileID \<in> file_ids db then
        let i = db_edges_seq db + 1 in
        (Inr (), db\<lparr>db_edges := db_edges db @ [\<lparr>eg_ID = i, eg_Src = srcID, eg_Dst = dstID, eg_Kind = kind, eg_FileID = fileID\<rparr>],
                    db_edges_seq := i\<rparr>)
      else (Inl constraint_err, db))"

definition insert_pending :: "int \<Rightarrow> int \<Rightarrow> string \<Rightarrow> string \<Rightarrow> string \<Rightarrow> string \<Rightarrow> unit tx" where
  "insert_pending srcID fileID dstName dstQualified kind language db =
     (if edge_kind_valid kind \<and> srcID \<in> symbol_ids db \<and> fileID \<in> file_ids db then
        let i = db_pending_seq db + 1 in
        (Inr (), db\<lparr>db_pending := db_pending db @ [\<lparr>pe_ID = i, pe_Src = srcID, pe_FileID = fileID, pe_DstName = dstName,
                       pe_DstQualified = dstQualified, pe_Kind = kind, pe_Language = language\<rparr>],
                    db_pending_seq := i\<rparr>)
      else (Inl constraint_err, db))"

definition file_has_language :: "string \<Rightarrow> sql_db \<Rightarrow> int \<Rightarrow> bool" where
  "file_has_language language db fileID \<longleftrightarrow> (\<exists>f \<in> set (db_files db). fr_ID f = fileID \<and> fr_Language f = language)"

definition sym_id_or_zero :: "symbol_record option \<Rightarrow> int" where
  "sym_id_or_zero r = (case r of Some s \<Rightarrow> sy_ID s | None \<Rightarrow> 0)"

definition lookup_symbol_id_tx :: "string \<Rightarrow> int \<Rightarrow> string \<Rightarrow> sql_db \<Rightarrow> int" where
  "lookup_symbol_id_tx name fileID language db =
     (case (if fileID > 0 then find (\<lambda>s. sy_Name s = name \<and> sy_FileID s = fileID) (db_symbols db) else None) of
        Some s \<Rightarrow> sy_ID s
      | None \<Rightarrow>
          if language \<noteq> []
          then sym_id_or_zero (find (\<lambda>s. sy_Name s = name \<and> file_has_language language db (sy_FileID s)) (db_symbols db))
          else sym_id_or_zero (find (\<lambda>s. sy_Name s = name) (db_symbols db)))"

definition map_or_zero :: "(string \<rightharpoonup> int) \<Rightarrow> string \<Rightarrow> int" where
  "map_or_zero m k = (case m k of Some v \<Rightarrow> v | None \<Rightarrow> 0)"

definition insert_one_edge :: "int \<Rightarrow> (string \<rightharpoonup> int) \<Rightarrow> string \<Rightarrow> edge_record \<Rightarrow> unit tx" where
  "insert_one_edge fileID symbolIDs language e db =
     (let srcID = map_or_zero symbolIDs (er_SrcSymbolName e) in
      if srcID = 0 then (Inr (), db)
      else
        let dst0 = map_or_zero symbolIDs (er_DstSymbolName e);
            dstID = (if dst0 = 0 then lookup_symbol_id_tx (er_DstSymbolName e) fileID language db else dst0)
        in if dstID \<noteq> 0
           then tx_wrap ''insert edge'' (insert_edge srcID dstID (er_Kind e) fileID) db
           else tx_wrap ''insert pending edge''
                  (insert_pending srcID fileID (er_DstSymbolName e) (er_DstQualifiedName e) (er_Kind e) language) db)"

fun insert_edges :: "int \<Rightarrow> edge_record list \<Rightarrow> (string \<rightharpoonup> int) \<Rightarrow> string \<Rightarrow> unit tx" where
  "insert_edges fileID [] symbolIDs language db = (Inr (), db)"
| "insert_edges fileID (e # es) symbolIDs language db =
     (case insert_one_edge fileID symbolIDs language e db of
        (Inl err, db1) \<Rightarrow> (Inl err, db1)
      | (Inr _, db1) \<Rightarrow> insert_edges fileID es symbolIDs language db1)"

definition delete_pending :: "int \<Rightarrow> sql_db \<Rightarrow> sql_db" where
  "delete_pending i db = db\<lparr>db_pending := filter (\<lambda>p. pe_ID p \<noteq> i) (db_pending db)\<rparr>"

fun resolve_rows :: "pending_row list \<Rightarrow> unit tx" where
  "resolve_rows [] db = (Inr (), db)"
| "resolve_rows (p # ps) db =
     (let dstID = lookup_symbol_id_tx (pe_DstName p) 0 (pe_Language p) db in
      if dstID = 0 then resolve_rows ps db
      else case insert_edge (pe_Src p) dstID (pe_Kind p) (pe_FileID p) db of
             (Inl err, db1) \<Rightarrow> (Inl (ErrWrap ''resolve edge'' err), db1)
           | (Inr _, db1) \<Rightarrow> resolve_rows ps (delete_pending (pe_ID p) db1))"

definition resolve_pending_edges :: "string list \<Rightarrow> unit tx" where
  "resolve_pending_edges newSymbolNames db =
     (if newSymbolNames = [] then (Inr (), db)
      else resolve_rows (filter (\<lambda>p. pe_DstName p \<in> set newSymbolNames) (db_pending db)) db)"

definition delete_edges_by_file :: "int \<Rightarrow> unit tx" where
  "delete_edges_by_file fileID db =
     (Inr (), db\<lparr>db_edges := filter (\<lambda>e. eg_FileID e \<noteq> fileID) (db_edges db)\<rparr>)"

definition pending_edge_callers :: "string \<Rightarrow> sql_db \<Rightarrow> int list" where
  "pending_edge_callers dstName db = dedup (map pe_Src (filter (\<lambda>p. pe_DstName p = dstName) (db_pending db)))"

definition pending_edge_callers_with_kind :: "string \<Rightarrow> sql_db \<Rightarrow> pending_edge_caller list" where
  "pending_edge_callers_with_kind dstName db =
     dedup (map (\<lambda>p. \<lparr>pc_SrcSymbolID = pe_Src p, pc_Kind = pe_Kind p, pc_DstQualifiedName = pe_DstQualified p\<rparr>)
       (filter (\<lambda>p. pe_DstName p = dstName) (db_pending db)))"

section \<open>Neighbours\<close>

text \<open>The queue of a recursive query: a row is expanded once, and its new rows join the queue.\<close>

function (sequential) cte_rows :: "(int \<Rightarrow> int list) \<Rightarrow> nat \<Rightarrow> (int \<times> nat) list \<Rightarrow> (int \<times> nat) list \<Rightarrow> (int \<times> nat) list" where
  "cte_rows succs maxDepth [] seen = seen"
| "cte_rows succs maxDepth ((i, d) # queue) seen =
     (let new = dedup (filter (\<lambda>r. r \<notin> set seen) (if d < maxDepth then map (\<lambda>j. (j, d + 1)) (succs i) else []))
      in cte_rows succs maxDepth (queue @ new) (seen @ new))"
  by pat_completeness auto
termination
proof (relation "inv_image (mult less_than) (\<lambda>(succs, maxDepth, queue, seen). mset (map (\<lambda>(i, d). maxDepth - d) queue))", goal_cases)
  case 1
  then show ?case by (intro wf_inv_image wf_mult wf_less_than)
next
  case (2 succs maxDepth i d queue seen new)
  have "\<forall>(j, e) \<in> set new. e = d + 1 \<and> d < maxDepth"
    using dedup_on_subset [of id "{}" "filter (\<lambda>r. r \<notin> set seen) (if d < maxDepth then map (\<lambda>j. (j, d + 1)) (succs i) else [])"]
    by (auto simp: 2 split: if_splits)
  then have less: "\<forall>k \<in># mset (map (\<lambda>(i, d). maxDepth - d) new). k < maxDepth - d" by auto
  then show ?case
    using one_step_implies_mult [of "{#maxDepth - d#}" "mset (map (\<lambda>(i, d). maxDepth - d) new)" less_than
        "mset (map (\<lambda>(i, d). maxDepth - d) queue)"]
    by (auto simp: add.commute)
qed

declare cte_rows.simps [simp del]

definition outgoing :: "sql_db \<Rightarrow> int \<Rightarrow> int list" where
  "outgoing db i = map eg_Dst (filter (\<lambda>e. eg_Src e = i) (db_edges db))"

definition incoming :: "sql_db \<Rightarrow> int \<Rightarrow> int list" where
  "incoming db i = map eg_Src (filter (\<lambda>e. eg_Dst e = i) (db_edges db))"

definition neighbors_cte :: "(int \<Rightarrow> int list) \<Rightarrow> int \<Rightarrow> nat \<Rightarrow> int list" where
  "neighbors_cte succs symbolID maxDepth =
     (let start = dedup (map (\<lambda>j. (j, 1)) (succs symbolID))
      in dedup (map fst (cte_rows succs maxDepth start start)))"

definition clamp_depth :: "int \<Rightarrow> nat" where
  "clamp_depth maxDepth = nat (if maxDepth < 1 then 1 else if maxDepth > 10 then 10 else maxDepth)"

definition neighbors :: "int \<Rightarrow> int \<Rightarrow> string \<Rightarrow> sql_db \<Rightarrow> int list res" where
  "neighbors symbolID maxDepth direction db =
     (let depth = clamp_depth maxDepth;
          out = neighbors_cte (outgoing db) symbolID depth;
          inc = neighbors_cte (incoming db) symbolID depth
      in if direction = ''outgoing'' then Inr out
         else if direction = ''incoming'' then Inr inc
         else if direction = ''both'' then Inr (dedup (out @ inc))
         else Inl (ErrMsg ''invalid direction''))"

text \<open>\<open>BatchNeighbors\<close> of \<open>metadata.go\<close>.\<close>

definition batch_neighbors :: "int list \<Rightarrow> int \<Rightarrow> sql_db \<Rightarrow> (int \<times> int list) list" where
  "batch_neighbors symbolIDs maxDepth db =
     fold (\<lambda>i result. case neighbors i maxDepth ''both'' db of
                         Inl _ \<Rightarrow> result
                       | Inr ns \<Rightarrow> AList.update i ns result) symbolIDs []"

section \<open>What the recursive query returns\<close>

definition cte_step :: "(int \<Rightarrow> int list) \<Rightarrow> nat \<Rightarrow> ((int \<times> nat) \<times> (int \<times> nat)) set" where
  "cte_step succs maxDepth = {((i, d), (j, e)). j \<in> set (succs i) \<and> d < maxDepth \<and> e = d + 1}"

lemma cte_rows_closed:
  assumes "set queue \<subseteq> set seen"
    and "\<forall>r \<in> set seen - set queue. cte_step succs maxDepth `` {r} \<subseteq> set seen"
  shows "set (cte_rows succs maxDepth queue seen) = (cte_step succs maxDepth)\<^sup>* `` set seen"
  using assms
proof (induction succs maxDepth queue seen rule: cte_rows.induct)
  case (1 succs maxDepth seen)
  have "(cte_step succs maxDepth)\<^sup>* `` set seen \<subseteq> set seen"
  proof
    fix r assume "r \<in> (cte_step succs maxDepth)\<^sup>* `` set seen"
    then obtain s where "(s, r) \<in> (cte_step succs maxDepth)\<^sup>*" "s \<in> set seen" by blast
    then show "r \<in> set seen" by (induction rule: rtrancl_induct) (use 1 in auto)
  qed
  then show ?case by (auto simp: cte_rows.simps)
next
  case (2 succs maxDepth i d queue seen)
  define new where "new = dedup (filter (\<lambda>r. r \<notin> set seen) (if d < maxDepth then map (\<lambda>j. (j, d + 1)) (succs i) else []))"
  have new: "set new = cte_step succs maxDepth `` {(i, d)} - set seen"
    by (auto simp: new_def cte_step_def)
  have "set (cte_rows succs maxDepth (queue @ new) (seen @ new)) = (cte_step succs maxDepth)\<^sup>* `` set (seen @ new)"
  proof (rule "2.IH" [OF new_def])
    show "set (queue @ new) \<subseteq> set (seen @ new)" using "2.prems" by auto
    show "\<forall>r \<in> set (seen @ new) - set (queue @ new). cte_step succs maxDepth `` {r} \<subseteq> set (seen @ new)"
    proof
      fix r assume r: "r \<in> set (seen @ new) - set (queue @ new)"
      show "cte_step succs maxDepth `` {r} \<subseteq> set (seen @ new)"
      proof (cases "r = (i, d)")
        case True
        then show ?thesis using new by auto
      next
        case False
        with r "2.prems"(2) show ?thesis by fastforce
      qed
    qed
  qed
  moreover have "(cte_step succs maxDepth)\<^sup>* `` set (seen @ new) = (cte_step succs maxDepth)\<^sup>* `` set seen"
  proof -
    have "(i, d) \<in> set seen" using "2.prems"(1) by auto
    then have "set new \<subseteq> (cte_step succs maxDepth)\<^sup>* `` set seen" using new by auto
    moreover have "R\<^sup>* `` (A \<union> B) = R\<^sup>* `` A" if "B \<subseteq> R\<^sup>* `` A" for R :: "((int \<times> nat) \<times> (int \<times> nat)) set" and A B
      using that by (blast intro: rtrancl_trans)
    ultimately show ?thesis by simp
  qed
  ultimately show ?case by (simp add: cte_rows.simps flip: new_def)
qed

definition edge_rel :: "(int \<Rightarrow> int list) \<Rightarrow> (int \<times> int) set" where
  "edge_rel succs = {(i, j). j \<in> set (succs i)}"

lemma cte_step_reach:
  "((i, d), (j, e)) \<in> (cte_step succs maxDepth)\<^sup>* \<longleftrightarrow>
     d \<le> e \<and> (i, j) \<in> edge_rel succs ^^ (e - d) \<and> (e \<le> maxDepth \<or> e = d)"
proof
  assume "((i, d), (j, e)) \<in> (cte_step succs maxDepth)\<^sup>*"
  then show "d \<le> e \<and> (i, j) \<in> edge_rel succs ^^ (e - d) \<and> (e \<le> maxDepth \<or> e = d)"
  proof (induction rule: rtrancl_induct2)
    case (step k f l g)
    then have "(k, l) \<in> edge_rel succs" "f < maxDepth" "g = f + 1" by (auto simp: cte_step_def edge_rel_def)
    with step.IH show ?case by (auto simp: Suc_diff_le)
  qed simp
next
  assume "d \<le> e \<and> (i, j) \<in> edge_rel succs ^^ (e - d) \<and> (e \<le> maxDepth \<or> e = d)"
  then obtain n where n: "e = d + n" and path: "(i, j) \<in> edge_rel succs ^^ n" and bound: "d + n \<le> maxDepth \<or> n = 0"
    by (metis add_diff_cancel_left' le_add_diff_inverse add_cancel_left_right)
  show "((i, d), (j, e)) \<in> (cte_step succs maxDepth)\<^sup>*"
    using path bound unfolding n
  proof (induction n arbitrary: j)
    case (Suc n)
    then obtain k where k: "(i, k) \<in> edge_rel succs ^^ n" "(k, j) \<in> edge_rel succs" by auto
    with Suc have "((i, d), (k, d + n)) \<in> (cte_step succs maxDepth)\<^sup>*" by simp
    moreover have "((k, d + n), (j, d + Suc n)) \<in> cte_step succs maxDepth"
      using k(2) Suc.prems(2) by (auto simp: cte_step_def edge_rel_def)
    ultimately show ?case by (rule rtrancl_into_rtrancl)
  qed simp
qed

lemma set_neighbors_cte:
  assumes "1 \<le> maxDepth"
  shows "set (neighbors_cte succs s maxDepth) = {j. \<exists>n. 1 \<le> n \<and> n \<le> maxDepth \<and> (s, j) \<in> edge_rel succs ^^ n}"
proof -
  define start where "start = dedup (map (\<lambda>j. (j, 1 :: nat)) (succs s))"
  have start: "set start = {(j, 1) |j. (s, j) \<in> edge_rel succs}" by (auto simp: start_def edge_rel_def)
  have rows: "set (cte_rows succs maxDepth start start) = (cte_step succs maxDepth)\<^sup>* `` set start"
    by (rule cte_rows_closed) simp_all
  have "set (neighbors_cte succs s maxDepth) = fst ` ((cte_step succs maxDepth)\<^sup>* `` set start)"
    using rows unfolding start_def by (simp add: neighbors_cte_def Let_def)
  also have "\<dots> = {j. \<exists>k e. (s, k) \<in> edge_rel succs \<and> ((k, 1), (j, e)) \<in> (cte_step succs maxDepth)\<^sup>*}"
    unfolding start by force
  also have "\<dots> = {j. \<exists>n. 1 \<le> n \<and> n \<le> maxDepth \<and> (s, j) \<in> edge_rel succs ^^ n}"
  proof (intro Collect_cong iffI)
    fix j assume "\<exists>k e. (s, k) \<in> edge_rel succs \<and> ((k, 1), (j, e)) \<in> (cte_step succs maxDepth)\<^sup>*"
    then obtain k e where k: "(s, k) \<in> edge_rel succs" and e: "1 \<le> e" "(k, j) \<in> edge_rel succs ^^ (e - 1)" "e \<le> maxDepth \<or> e = 1"
      by (auto simp: cte_step_reach)
    from k e(2) have "(s, j) \<in> edge_rel succs ^^ Suc (e - 1)" by (rule relpow_Suc_I2)
    with e assms show "\<exists>n. 1 \<le> n \<and> n \<le> maxDepth \<and> (s, j) \<in> edge_rel succs ^^ n" by (intro exI [of _ e]) auto
  next
    fix j assume "\<exists>n. 1 \<le> n \<and> n \<le> maxDepth \<and> (s, j) \<in> edge_rel succs ^^ n"
    then obtain m where m: "Suc m \<le> maxDepth" "(s, j) \<in> edge_rel succs ^^ Suc m" by (metis Suc_le_D One_nat_def)
    then obtain k where "(s, k) \<in> edge_rel succs" "(k, j) \<in> edge_rel succs ^^ m" by (metis relpow_Suc_E2)
    with m(1) show "\<exists>k e. (s, k) \<in> edge_rel succs \<and> ((k, 1), (j, e)) \<in> (cte_step succs maxDepth)\<^sup>*"
      by (intro exI [of _ k] exI [of _ "Suc m"]) (auto simp: cte_step_reach)
  qed
  finally show ?thesis .
qed

lemma edge_rel_outgoing: "(i, j) \<in> edge_rel (outgoing db) \<longleftrightarrow> (\<exists>k. (i, j, k) \<in> edge_triples db)"
  by (force simp: edge_rel_def outgoing_def)

lemma edge_rel_incoming: "edge_rel (incoming db) = (edge_rel (outgoing db))\<inverse>"
  by (auto simp: edge_rel_def outgoing_def incoming_def)

lemma distinct_neighbors: "neighbors s d dir db = Inr ns \<Longrightarrow> distinct ns"
  by (auto simp: neighbors_def Let_def neighbors_cte_def split: if_splits)

section \<open>Edges and the integrity of the store\<close>

lemma insert_edge_cases:
  obtains (skip) "insert_edge a b k f db = (Inr (), db)" "edge_kind_valid k \<longrightarrow> (a, b, k) \<in> edge_triples db"
  | (fail) "insert_edge a b k f db = (Inl constraint_err, db)" "a \<notin> symbol_ids db \<or> b \<notin> symbol_ids db \<or> f \<notin> file_ids db"
  | (new) i where "insert_edge a b k f db = (Inr (), db\<lparr>db_edges := db_edges db @
        [\<lparr>eg_ID = i, eg_Src = a, eg_Dst = b, eg_Kind = k, eg_FileID = f\<rparr>], db_edges_seq := i\<rparr>)"
      "i = db_edges_seq db + 1" "edge_kind_valid k" "(a, b, k) \<notin> edge_triples db"
      "a \<in> symbol_ids db" "b \<in> symbol_ids db" "f \<in> file_ids db"
  unfolding insert_edge_def Let_def by (metis (no_types, lifting))

lemma edge_snoc_inv:
  assumes inv: "db_inv db" and new: "edge_kind_valid k" "(a, b, k) \<notin> edge_triples db"
    "a \<in> symbol_ids db" "b \<in> symbol_ids db" "f \<in> file_ids db"
  shows "db_inv (db\<lparr>db_edges := db_edges db @ [\<lparr>eg_ID = db_edges_seq db + 1, eg_Src = a, eg_Dst = b, eg_Kind = k, eg_FileID = f\<rparr>],
    db_edges_seq := db_edges_seq db + 1\<rparr>)"
  using inv new wf_ids_snoc [of "map eg_ID (db_edges db)" "db_edges_seq db"]
  unfolding db_inv_def by simp

lemma pending_snoc_inv:
  assumes inv: "db_inv db" and new: "edge_kind_valid k" "a \<in> symbol_ids db" "f \<in> file_ids db"
  shows "db_inv (db\<lparr>db_pending := db_pending db @ [\<lparr>pe_ID = db_pending_seq db + 1, pe_Src = a, pe_FileID = f, pe_DstName = n,
    pe_DstQualified = q, pe_Kind = k, pe_Language = l\<rparr>], db_pending_seq := db_pending_seq db + 1\<rparr>)"
  using inv new wf_ids_snoc [of "map pe_ID (db_pending db)" "db_pending_seq db"]
  unfolding db_inv_def by simp

lemma keeps_insert_edge: "tx_keeps (insert_edge a b k f)"
proof (rule keepsI)
  fix db
  show "db_inv (snd (insert_edge a b k f db))" if "db_inv db"
    by (cases rule: insert_edge_cases [of a b k f db]) (use that edge_snoc_inv [OF that] in simp_all)
  show "fts_fresh (snd (insert_edge a b k f db))" if "fts_fresh db"
    using that by (simp add: insert_edge_def Let_def fts_fresh_def)
  show "db_fts_triggers (snd (insert_edge a b k f db)) = db_fts_triggers db"
    by (simp add: insert_edge_def Let_def)
qed

lemma keeps_insert_pending: "tx_keeps (insert_pending a f n q k l)"
proof (rule keepsI)
  fix db
  show "db_inv (snd (insert_pending a f n q k l db))" if "db_inv db"
    using pending_snoc_inv [OF that, of k a f n q l] that by (simp add: insert_pending_def Let_def)
  show "fts_fresh (snd (insert_pending a f n q k l db))" if "fts_fresh db"
    using that by (simp add: insert_pending_def Let_def fts_fresh_def)
  show "db_fts_triggers (snd (insert_pending a f n q k l db)) = db_fts_triggers db"
    by (simp add: insert_pending_def Let_def)
qed

lemma keeps_delete_pending: "keeps (delete_pending i)"
  by (rule keepsI) (auto simp: delete_pending_def db_inv_def fts_fresh_def intro: wf_ids_filter)

lemma keeps_insert_one_edge: "tx_keeps (insert_one_edge fileID ids language e)"
proof -
  have edge: "tx_keeps (tx_wrap ''insert edge'' (insert_edge a b k f))" for a b k f
    by (intro keeps_tx_wrap keeps_insert_edge)
  have pend: "tx_keeps (tx_wrap ''insert pending edge'' (insert_pending a f n q k l))" for a f n q k l
    by (intro keeps_tx_wrap keeps_insert_pending)
  show ?thesis
    unfolding keeps_def
  proof (intro allI impI)
    fix u db assume "inv_at u db"
    with edge pend show "inv_at u (snd (insert_one_edge fileID ids language e db))
        \<and> db_fts_triggers (snd (insert_one_edge fileID ids language e db)) = db_fts_triggers db"
      unfolding keeps_def insert_one_edge_def Let_def by (simp only: snd_conv split: if_split) blast
  qed
qed

lemma keeps_insert_edges: "tx_keeps (insert_edges fileID es ids language)"
proof (induction es)
  case (Cons e es)
  have "insert_edges fileID (e # es) ids language =
      tx_bind (insert_one_edge fileID ids language e) (\<lambda>_. insert_edges fileID es ids language)"
    by (auto simp: fun_eq_iff tx_bind_def)
  with Cons show ?case by (simp add: keeps_bind keeps_insert_one_edge)
qed (simp add: keeps_const)

lemma keeps_delete_edges_by_file: "tx_keeps (delete_edges_by_file fileID)"
  unfolding delete_edges_by_file_def keeps_pair
  by (rule keepsI) (auto simp: db_inv_def fts_fresh_def distinct_map_filter intro: wf_ids_filter)

section \<open>Resolving pending edges\<close>

lemma lookup_cong:
  "db_symbols db' = db_symbols db \<Longrightarrow> db_files db' = db_files db \<Longrightarrow>
   lookup_symbol_id_tx n f l db' = lookup_symbol_id_tx n f l db"
  by (simp add: lookup_symbol_id_tx_def file_has_language_def cong: option.case_cong)

lemma lookup_symbol:
  assumes "lookup_symbol_id_tx n 0 l db \<noteq> 0"
  obtains s where "s \<in> set (db_symbols db)" "sy_ID s = lookup_symbol_id_tx n 0 l db" "sy_Name s = n"
    "l \<noteq> [] \<longrightarrow> file_has_language l db (sy_FileID s)"
  using assms by (auto simp: lookup_symbol_id_tx_def sym_id_or_zero_def split: if_splits option.splits dest!: find_Some_set)

lemma lookup_zero_iff:
  assumes "db_inv db"
  shows "lookup_symbol_id_tx n 0 l db = 0 \<longleftrightarrow>
    \<not> (\<exists>s \<in> set (db_symbols db). sy_Name s = n \<and> (l \<noteq> [] \<longrightarrow> file_has_language l db (sy_FileID s)))"
proof -
  from assms have "\<forall>s \<in> set (db_symbols db). sy_ID s \<noteq> 0" by (auto simp: db_inv_def wf_ids_def)
  then show ?thesis
    by (auto simp: lookup_symbol_id_tx_def sym_id_or_zero_def find_None_set split: option.splits dest!: find_Some_set)
qed

text \<open>The edge a pending row becomes.\<close>

definition resolved :: "sql_db \<Rightarrow> pending_row \<Rightarrow> bool" where
  "resolved db p \<longleftrightarrow> lookup_symbol_id_tx (pe_DstName p) 0 (pe_Language p) db \<noteq> 0"

definition resolution :: "sql_db \<Rightarrow> pending_row \<Rightarrow> int \<times> int \<times> string" where
  "resolution db p = (pe_Src p, lookup_symbol_id_tx (pe_DstName p) 0 (pe_Language p) db, pe_Kind p)"

lemma insert_edge_resolve:
  assumes inv: "db_inv db" and p: "p \<in> set (db_pending db)" and r: "resolved db p"
  obtains db1 where "insert_edge (pe_Src p) (lookup_symbol_id_tx (pe_DstName p) 0 (pe_Language p) db) (pe_Kind p) (pe_FileID p) db = (Inr (), db1)"
    "edge_triples db1 = insert (resolution db p) (edge_triples db)" "db_pending db1 = db_pending db"
    "db_symbols db1 = db_symbols db" "db_files db1 = db_files db" "db_chunks db1 = db_chunks db"
proof -
  from inv p have k: "edge_kind_valid (pe_Kind p)" "pe_Src p \<in> symbol_ids db" "pe_FileID p \<in> file_ids db"
    by (auto simp: db_inv_def)
  from r have dst: "lookup_symbol_id_tx (pe_DstName p) 0 (pe_Language p) db \<in> symbol_ids db"
    unfolding resolved_def by (rule lookup_symbol) (metis image_eqI)
  show thesis
  proof (cases rule: insert_edge_cases [of "pe_Src p" "lookup_symbol_id_tx (pe_DstName p) 0 (pe_Language p) db" "pe_Kind p" "pe_FileID p" db])
    case skip
    then show ?thesis using k by (intro that [of db]) (auto simp: resolution_def)
  next
    case fail
    with k dst show ?thesis by simp
  next
    case (new i)
    show ?thesis by (rule that [OF new(1)]) (simp_all add: resolution_def)
  qed
qed

lemma resolve_rows_exact:
  assumes "store_ok db" and "set ps \<subseteq> set (db_pending db)" and "distinct ps"
  shows "\<exists>db'. resolve_rows ps db = (Inr (), db') \<and> store_ok db'
    \<and> db_pending db' = filter (\<lambda>p. \<not> (p \<in> set ps \<and> resolved db p)) (db_pending db)
    \<and> edge_triples db' = edge_triples db \<union> resolution db ` {p \<in> set ps. resolved db p}
    \<and> db_symbols db' = db_symbols db \<and> db_files db' = db_files db \<and> db_chunks db' = db_chunks db"
  using assms
proof (induction ps arbitrary: db)
  case (Cons p ps)
  show ?case
  proof (cases "resolved db p")
    case False
    from Cons.IH [of db] Cons.prems obtain db' where "resolve_rows ps db = (Inr (), db')" "store_ok db'"
      "db_pending db' = filter (\<lambda>p. \<not> (p \<in> set ps \<and> resolved db p)) (db_pending db)"
      "edge_triples db' = edge_triples db \<union> resolution db ` {p \<in> set ps. resolved db p}"
      "db_symbols db' = db_symbols db" "db_files db' = db_files db" "db_chunks db' = db_chunks db" by auto
    moreover from False have "resolve_rows (p # ps) db = resolve_rows ps db" by (simp add: resolved_def)
    moreover have "filter (\<lambda>q. \<not> (q \<in> set ps \<and> resolved db q)) (db_pending db)
        = filter (\<lambda>q. \<not> (q \<in> set (p # ps) \<and> resolved db q)) (db_pending db)"
      using False by (intro filter_cong) auto
    moreover have "{q \<in> set ps. resolved db q} = {q \<in> set (p # ps). resolved db q}" using False by auto
    ultimately show ?thesis by auto
  next
    case True
    from Cons.prems have inv: "db_inv db" and p: "p \<in> set (db_pending db)" by (auto simp: store_ok_def)
    from insert_edge_resolve [OF inv p True] obtain db1 where db1:
      "insert_edge (pe_Src p) (lookup_symbol_id_tx (pe_DstName p) 0 (pe_Language p) db) (pe_Kind p) (pe_FileID p) db = (Inr (), db1)"
      "edge_triples db1 = insert (resolution db p) (edge_triples db)" "db_pending db1 = db_pending db"
      "db_symbols db1 = db_symbols db" "db_files db1 = db_files db" "db_chunks db1 = db_chunks db" .
    define db2 where "db2 = delete_pending (pe_ID p) db1"
    have same: "db_symbols db2 = db_symbols db" "db_files db2 = db_files db" "db_chunks db2 = db_chunks db"
      "edge_triples db2 = insert (resolution db p) (edge_triples db)"
      using db1 by (simp_all add: db2_def delete_pending_def)
    have "distinct (map pe_ID (db_pending db))" using inv by (auto simp: db_inv_def dest: wf_ids_distinct)
    then have pend: "db_pending db2 = filter (\<lambda>q. q \<noteq> p) (db_pending db)"
      using p by (auto simp: db2_def delete_pending_def db1 distinct_map inj_on_def intro!: filter_cong)
    have res: "resolved db2 = resolved db" "resolution db2 = resolution db"
      using lookup_cong [OF same(1,2)] by (simp_all add: resolved_def resolution_def fun_eq_iff)
    have "store_ok db2"
      using keepsD [OF keeps_insert_edge Cons.prems(1)] keepsD [OF keeps_delete_pending] db1(1)
      unfolding db2_def by (metis snd_conv)
    moreover have "set ps \<subseteq> set (db_pending db2)" "distinct ps" using Cons.prems(2,3) by (auto simp: pend)
    ultimately obtain db' where db': "resolve_rows ps db2 = (Inr (), db')" "store_ok db'"
      "db_pending db' = filter (\<lambda>p. \<not> (p \<in> set ps \<and> resolved db p)) (db_pending db2)"
      "edge_triples db' = edge_triples db2 \<union> resolution db ` {p \<in> set ps. resolved db p}"
      "db_symbols db' = db_symbols db2" "db_files db' = db_files db2" "db_chunks db' = db_chunks db2"
      using Cons.IH [of db2] unfolding res by blast
    moreover from True db1(1) have "resolve_rows (p # ps) db = resolve_rows ps db2"
      by (simp add: resolved_def db2_def Let_def)
    moreover have "filter (\<lambda>q. \<not> (q \<in> set ps \<and> resolved db q)) (db_pending db2)
        = filter (\<lambda>q. \<not> (q \<in> set (p # ps) \<and> resolved db q)) (db_pending db)"
      using True unfolding pend by (auto intro!: filter_cong)
    moreover have "{q \<in> set (p # ps). resolved db q} = insert p {q \<in> set ps. resolved db q}" using True by auto
    ultimately show ?thesis using same by auto
  qed
qed simp

lemma keeps_resolve_rows: "tx_keeps (resolve_rows ps)"
proof (induction ps)
  case (Cons p ps)
  define insert_at where "insert_at dst = tx_bind (tx_wrap ''resolve edge'' (insert_edge (pe_Src p) dst (pe_Kind p) (pe_FileID p)))
     (\<lambda>_ db. resolve_rows ps (delete_pending (pe_ID p) db))" for dst
  have "resolve_rows (p # ps) = (\<lambda>db. if lookup_symbol_id_tx (pe_DstName p) 0 (pe_Language p) db = 0 then resolve_rows ps db
      else insert_at (lookup_symbol_id_tx (pe_DstName p) 0 (pe_Language p) db) db)"
    by (auto simp: fun_eq_iff insert_at_def tx_bind_def tx_wrap_def Let_def split: prod.splits sum.splits)
  moreover have "tx_keeps (insert_at dst)" for dst
    unfolding insert_at_def
    by (intro keeps_bind keeps_tx_wrap keeps_insert_edge keeps_comp [OF keeps_delete_pending] Cons)
  then have "tx_keeps (\<lambda>db. insert_at (lookup_symbol_id_tx (pe_DstName p) 0 (pe_Language p) db) db)"
    by (rule keeps_arg [of insert_at])
  ultimately show ?case using keeps_if [OF Cons] by simp
qed (simp add: keeps_const)

lemma keeps_resolve_pending_edges: "tx_keeps (resolve_pending_edges names)"
proof (cases "names = []")
  case False
  then have "resolve_pending_edges names = (\<lambda>db. resolve_rows (filter (\<lambda>p. pe_DstName p \<in> set names) (db_pending db)) db)"
    by (simp add: resolve_pending_edges_def fun_eq_iff)
  then show ?thesis
    using keeps_arg [of resolve_rows "\<lambda>db. filter (\<lambda>p. pe_DstName p \<in> set names) (db_pending db)"]
    by (simp add: keeps_resolve_rows)
qed (simp add: resolve_pending_edges_def keeps_const)

section \<open>Properties\<close>

text \<open>C17. \<open>Neighbors\<close> ends on every graph, cyclic ones included, and returns each symbol at most once:
  exactly the symbols at the end of a path of one to \<open>maxDepth\<close> edges, the depth clamped to 1..10,
  along the edges, against them, or either.\<close>

theorem neighbors_reachable:
  "\<exists>out inc both E. E = edge_rel (outgoing db) \<and> E = {(i, j). \<exists>k. (i, j, k) \<in> edge_triples db}
    \<and> neighbors s depth ''outgoing'' db = Inr out \<and> distinct out
    \<and> set out = {j. \<exists>n. 1 \<le> n \<and> n \<le> clamp_depth depth \<and> (s, j) \<in> E ^^ n}
    \<and> neighbors s depth ''incoming'' db = Inr inc \<and> distinct inc
    \<and> set inc = {j. \<exists>n. 1 \<le> n \<and> n \<le> clamp_depth depth \<and> (s, j) \<in> (E\<inverse>) ^^ n}
    \<and> neighbors s depth ''both'' db = Inr both \<and> distinct both \<and> set both = set out \<union> set inc"
proof -
  have E: "edge_rel (outgoing db) = {(i, j). \<exists>k. (i, j, k) \<in> edge_triples db}"
    by (intro set_eqI) (simp add: edge_rel_outgoing split: prod.split)
  have c: "1 \<le> clamp_depth depth" by (auto simp: clamp_depth_def le_nat_iff)
  let ?out = "neighbors_cte (outgoing db) s (clamp_depth depth)" and ?inc = "neighbors_cte (incoming db) s (clamp_depth depth)"
  have "neighbors s depth ''outgoing'' db = Inr ?out" "neighbors s depth ''incoming'' db = Inr ?inc"
    "neighbors s depth ''both'' db = Inr (dedup (?out @ ?inc))"
    by (simp_all add: neighbors_def Let_def)
  moreover have "distinct ?out" "distinct ?inc" by (simp_all add: neighbors_cte_def Let_def)
  ultimately show ?thesis
    using set_neighbors_cte [OF c, of "outgoing db" s] set_neighbors_cte [OF c, of "incoming db" s] E
    unfolding edge_rel_incoming by (intro exI conjI) (assumption | simp)+
qed

text \<open>C18. \<open>ResolvePendingEdges\<close> always succeeds on a store in order. It turns exactly the pending edges
  whose target name is among the new names and can be found into edges, keeps every other pending
  edge and every existing edge, and never resolves an edge to a symbol of another language.\<close>

theorem resolve_pending_edges_exact:
  assumes "store_ok db"
  shows "\<exists>db'. resolve_pending_edges names db = (Inr (), db') \<and> store_ok db'
    \<and> db_pending db' = filter (\<lambda>p. \<not> (pe_DstName p \<in> set names \<and> resolved db p)) (db_pending db)
    \<and> edge_triples db' = edge_triples db \<union> resolution db ` {p \<in> set (db_pending db). pe_DstName p \<in> set names \<and> resolved db p}
    \<and> (\<forall>p \<in> set (db_pending db). resolved db p \<longrightarrow> (\<exists>s \<in> set (db_symbols db).
         resolution db p = (pe_Src p, sy_ID s, pe_Kind p) \<and> sy_Name s = pe_DstName p
         \<and> (pe_Language p \<noteq> [] \<longrightarrow> file_has_language (pe_Language p) db (sy_FileID s))))"
proof -
  let ?ps = "filter (\<lambda>p. pe_DstName p \<in> set names) (db_pending db)"
  have lang: "\<exists>s \<in> set (db_symbols db). resolution db p = (pe_Src p, sy_ID s, pe_Kind p) \<and> sy_Name s = pe_DstName p
         \<and> (pe_Language p \<noteq> [] \<longrightarrow> file_has_language (pe_Language p) db (sy_FileID s))" if r: "resolved db p" for p
  proof -
    from lookup_symbol [OF r [unfolded resolved_def]] obtain s where "s \<in> set (db_symbols db)"
      "sy_ID s = lookup_symbol_id_tx (pe_DstName p) 0 (pe_Language p) db" "sy_Name s = pe_DstName p"
      "pe_Language p \<noteq> [] \<longrightarrow> file_has_language (pe_Language p) db (sy_FileID s)" .
    then show ?thesis unfolding resolution_def by (intro bexI [of _ s]) simp_all
  qed
  show ?thesis
  proof (cases "names = []")
    case True
    with lang assms show ?thesis by (auto simp: resolve_pending_edges_def)
  next
    case False
    have "distinct (map pe_ID (db_pending db))" using assms by (auto simp: store_ok_def db_inv_def dest: wf_ids_distinct)
    then have "distinct ?ps" by (simp add: distinct_map)
    from resolve_rows_exact [OF assms _ this] obtain db' where db': "resolve_rows ?ps db = (Inr (), db')" "store_ok db'"
      "db_pending db' = filter (\<lambda>p. \<not> (p \<in> set ?ps \<and> resolved db p)) (db_pending db)"
      "edge_triples db' = edge_triples db \<union> resolution db ` {p \<in> set ?ps. resolved db p}" by auto
    moreover have "filter (\<lambda>p. \<not> (p \<in> set ?ps \<and> resolved db p)) (db_pending db)
        = filter (\<lambda>p. \<not> (pe_DstName p \<in> set names \<and> resolved db p)) (db_pending db)"
      by (rule filter_cong) auto
    moreover have "{p \<in> set ?ps. resolved db p} = {p \<in> set (db_pending db). pe_DstName p \<in> set names \<and> resolved db p}"
      by auto
    ultimately show ?thesis using lang False by (auto simp: resolve_pending_edges_def)
  qed
qed

text \<open>The hypothesis holds for the small database, where the pending call of \<open>baz\<close> goes to the Go function,
  although the Python one comes first.\<close>

theorem resolve_pending_edges_exact_witness:
  "\<exists>db'. resolve_pending_edges [''baz''] sample_db = (Inr (), db') \<and> store_ok db' \<and> db_pending db' = []
     \<and> edge_triples db' = {(2, 1, ''calls''), (1, 4, ''calls'')}"
proof -
  have "\<exists>p. db_pending sample_db = [p] \<and> pe_DstName p = ''baz'' \<and> resolved sample_db p \<and> resolution sample_db p = (1, 4, ''calls'')"
    by (simp add: sample_defs resolved_def resolution_def lookup_symbol_id_tx_def file_has_language_def sym_id_or_zero_def)
  then obtain p where p: "db_pending sample_db = [p]" "pe_DstName p = ''baz''" "resolved sample_db p"
    "resolution sample_db p = (1, 4, ''calls'')" by blast
  have "{q \<in> set (db_pending sample_db). pe_DstName q \<in> set [''baz''] \<and> resolved sample_db q} = {p}" using p by auto
  moreover have "filter (\<lambda>q. \<not> (pe_DstName q \<in> set [''baz''] \<and> resolved sample_db q)) (db_pending sample_db) = []" using p by simp
  moreover have "edge_triples sample_db = {(2, 1, ''calls'')}" by (simp add: sample_db_def)
  ultimately show ?thesis
    using resolve_pending_edges_exact [OF sample_db_ok(1), of "[''baz'']"] p(4) by (auto simp: insert_commute)
qed

end
