(* ===== verification/Embed_Status.thy ===== *)
theory Embed_Status
  imports Core_Types
begin

text \<open>
  \<open>internal/storage/embedstatus/state.go\<close>: the state machine that derives a file's embedding
  status from its chunks. The interface \<open>ChunkOps\<close> is a record of operations on the backend's
  state; the locale \<open>chunk_ops\<close> states what they owe the state machine, and the lemmas of the
  state machine are proved in it once for all backends.
\<close>

record 's chunk_ops =
  co_SetEmbedded :: "int list \<Rightarrow> bool \<Rightarrow> 's \<Rightarrow> unit res \<times> 's"
  co_AffectedFiles :: "int list \<Rightarrow> 's \<Rightarrow> int list res"
  co_CountRemaining :: "int \<Rightarrow> 's \<Rightarrow> int res"
  co_CountEmbedded :: "int \<Rightarrow> 's \<Rightarrow> int res"
  co_SetFileStatus :: "int \<Rightarrow> string \<Rightarrow> bool \<Rightarrow> 's \<Rightarrow> unit res \<times> 's"

fun mark_files :: "'s chunk_ops \<Rightarrow> int list \<Rightarrow> 's \<Rightarrow> unit res \<times> 's" where
  "mark_files ops [] s = (Inr (), s)"
| "mark_files ops (fid # fids) s =
     (case co_CountRemaining ops fid s of
        Inl e \<Rightarrow> (Inl e, s)
      | Inr remaining \<Rightarrow>
          (case (if remaining = 0 then co_SetFileStatus ops fid ''complete'' False s
                 else co_SetFileStatus ops fid ''partial'' True s) of
             (Inl e, s1) \<Rightarrow> (Inl e, s1)
           | (Inr _, s1) \<Rightarrow> mark_files ops fids s1))"

definition mark_embedded :: "'s chunk_ops \<Rightarrow> int list \<Rightarrow> 's \<Rightarrow> unit res \<times> 's" where
  "mark_embedded ops chunkIDs s =
     (if chunkIDs = [] then (Inr (), s)
      else case co_SetEmbedded ops chunkIDs True s of
        (Inl e, s1) \<Rightarrow> (Inl e, s1)
      | (Inr _, s1) \<Rightarrow>
          (case co_AffectedFiles ops chunkIDs s1 of
             Inl e \<Rightarrow> (Inl e, s1)
           | Inr fileIDs \<Rightarrow> mark_files ops fileIDs s1))"

fun reset_files :: "'s chunk_ops \<Rightarrow> int list \<Rightarrow> 's \<Rightarrow> unit res \<times> 's" where
  "reset_files ops [] s = (Inr (), s)"
| "reset_files ops (fid # fids) s =
     (case co_CountEmbedded ops fid s of
        Inl e \<Rightarrow> (Inl e, s)
      | Inr embedded \<Rightarrow>
          (case co_SetFileStatus ops fid (if embedded > 0 then ''partial'' else ''pending'') False s of
             (Inl e, s1) \<Rightarrow> (Inl e, s1)
           | (Inr _, s1) \<Rightarrow> reset_files ops fids s1))"

definition reset_embedded :: "'s chunk_ops \<Rightarrow> int list \<Rightarrow> 's \<Rightarrow> unit res \<times> 's" where
  "reset_embedded ops chunkIDs s =
     (if chunkIDs = [] then (Inr (), s)
      else case co_SetEmbedded ops chunkIDs False s of
        (Inl e, s1) \<Rightarrow> (Inl e, s1)
      | (Inr _, s1) \<Rightarrow>
          (case co_AffectedFiles ops chunkIDs s1 of
             Inl e \<Rightarrow> (Inl e, s1)
           | Inr fileIDs \<Rightarrow> reset_files ops fileIDs s1))"

section \<open>The status a file should have\<close>

text \<open>A chunk as the state machine sees it: its id, its file, and whether it is embedded.\<close>

type_synonym chunk_view = "int \<times> int \<times> bool"

definition set_flags :: "int set \<Rightarrow> bool \<Rightarrow> chunk_view list \<Rightarrow> chunk_view list" where
  "set_flags ids b cs = map (\<lambda>(i, f, e). if i \<in> ids then (i, f, b) else (i, f, e)) cs"

definition flags_of :: "int \<Rightarrow> chunk_view list \<Rightarrow> bool list" where
  "flags_of fid cs = map (\<lambda>(i, f, e). e) (filter (\<lambda>(i, f, e). f = fid) cs)"

definition status_of_flags :: "bool list \<Rightarrow> string" where
  "status_of_flags fs = (if list_all id fs then ''complete'' else if list_ex id fs then ''partial'' else ''pending'')"

text \<open>Every file with chunks carries the status its chunks say.\<close>

definition status_exact :: "chunk_view list \<Rightarrow> (int \<rightharpoonup> string) \<Rightarrow> bool" where
  "status_exact cs st \<longleftrightarrow>
     (\<forall>fid s. st fid = Some s \<longrightarrow> flags_of fid cs \<noteq> [] \<longrightarrow> s = status_of_flags (flags_of fid cs))"

lemma flags_of_set_flags:
  "flags_of fid (set_flags ids b cs) = map (\<lambda>(i, f, e). if i \<in> ids then b else e) (filter (\<lambda>(i, f, e). f = fid) cs)"
  by (induction cs) (auto simp: flags_of_def set_flags_def split: if_splits)

lemma flags_of_untouched:
  "(\<forall>(i, f, e) \<in> set cs. i \<in> ids \<longrightarrow> f \<noteq> fid) \<Longrightarrow> flags_of fid (set_flags ids b cs) = flags_of fid cs"
  by (induction cs) (auto simp: flags_of_def set_flags_def split: if_splits)

lemma count_flags: "int (length (filter id fs)) = 0 \<longleftrightarrow> \<not> list_ex id fs"
  by (auto simp: list_ex_iff filter_empty_conv)

lemma count_not_flags: "int (length (filter Not fs)) = 0 \<longleftrightarrow> list_all id fs"
  by (auto simp: list_all_iff filter_empty_conv)

section \<open>The contract of a backend\<close>

locale chunk_ops =
  fixes ops :: "'s chunk_ops"
    and inv :: "'s \<Rightarrow> bool"
    and chunks :: "'s \<Rightarrow> chunk_view list"
    and status :: "'s \<Rightarrow> int \<rightharpoonup> string"
  assumes set_embedded: "inv s \<Longrightarrow> \<exists>s'. co_SetEmbedded ops ids b s = (Inr (), s') \<and> inv s'
      \<and> chunks s' = set_flags (set ids) b (chunks s) \<and> status s' = status s"
    and affected: "inv s \<Longrightarrow> \<exists>fids. co_AffectedFiles ops ids s = Inr fids
      \<and> set fids = {f. \<exists>i e. (i, f, e) \<in> set (chunks s) \<and> i \<in> set ids}"
    and remaining: "inv s \<Longrightarrow> co_CountRemaining ops fid s = Inr (int (length (filter Not (flags_of fid (chunks s)))))"
    and embedded: "inv s \<Longrightarrow> co_CountEmbedded ops fid s = Inr (int (length (filter id (flags_of fid (chunks s)))))"
    and set_status: "inv s \<Longrightarrow> st \<in> {''pending'', ''partial'', ''complete''} \<Longrightarrow>
      \<exists>s'. co_SetFileStatus ops fid st keep s = (Inr (), s') \<and> inv s' \<and> chunks s' = chunks s
        \<and> status s' = (\<lambda>f. if f = fid then map_option (\<lambda>old. if keep \<and> old = ''complete'' then old else st) (status s f)
                            else status s f)"
begin

definition marked_status :: "bool list \<Rightarrow> string \<Rightarrow> string" where
  "marked_status fs old = (if list_all id fs then ''complete'' else if old = ''complete'' then old else ''partial'')"

lemma marked_status_idem: "marked_status fs (marked_status fs old) = marked_status fs old"
  by (simp add: marked_status_def)

lemma mark_files_ok:
  assumes "inv s"
  shows "\<exists>s'. mark_files ops fids s = (Inr (), s') \<and> inv s' \<and> chunks s' = chunks s
    \<and> status s' = (\<lambda>f. if f \<in> set fids then map_option (marked_status (flags_of f (chunks s))) (status s f) else status s f)"
  using assms
proof (induction fids arbitrary: s)
  case (Cons fid fids)
  let ?fs = "flags_of fid (chunks s)"
  obtain s1 where s1: "(if int (length (filter Not ?fs)) = 0 then co_SetFileStatus ops fid ''complete'' False s
        else co_SetFileStatus ops fid ''partial'' True s) = (Inr (), s1)"
    "inv s1" "chunks s1 = chunks s"
    "status s1 = (\<lambda>f. if f = fid then map_option (marked_status ?fs) (status s f) else status s f)"
    using set_status [OF Cons.prems, of "''complete''" fid False] set_status [OF Cons.prems, of "''partial''" fid True]
    unfolding count_not_flags marked_status_def by (cases "list_all id ?fs") (auto cong: if_cong)
  from Cons.IH [OF s1(2)] obtain s' where s': "mark_files ops fids s1 = (Inr (), s')" "inv s'" "chunks s' = chunks s1"
    "status s' = (\<lambda>f. if f \<in> set fids then map_option (marked_status (flags_of f (chunks s1))) (status s1 f) else status s1 f)"
    by blast
  have "mark_files ops (fid # fids) s = (Inr (), s')"
    using s1(1) s'(1) by (simp add: remaining [OF Cons.prems])
  moreover have "status s' = (\<lambda>f. if f \<in> set (fid # fids) then map_option (marked_status (flags_of f (chunks s))) (status s f) else status s f)"
    using s1(3,4) s'(4) by (auto simp: fun_eq_iff option.map_comp comp_def marked_status_idem)
  ultimately show ?case using s' s1 by auto
qed simp

lemma reset_files_ok:
  assumes "inv s"
  shows "\<exists>s'. reset_files ops fids s = (Inr (), s') \<and> inv s' \<and> chunks s' = chunks s
    \<and> status s' = (\<lambda>f. if f \<in> set fids then map_option (\<lambda>_. if list_ex id (flags_of f (chunks s)) then ''partial'' else ''pending'') (status s f)
                        else status s f)"
  using assms
proof (induction fids arbitrary: s)
  case (Cons fid fids)
  let ?fs = "flags_of fid (chunks s)"
  have pos: "filter id ?fs = [] \<longleftrightarrow> \<not> list_ex id ?fs"
    by (simp flip: count_flags)
  obtain s1 where s1: "co_SetFileStatus ops fid (if list_ex id ?fs then ''partial'' else ''pending'') False s = (Inr (), s1)"
    "inv s1" "chunks s1 = chunks s"
    "status s1 = (\<lambda>f. if f = fid then map_option (\<lambda>_. if list_ex id ?fs then ''partial'' else ''pending'') (status s f) else status s f)"
  proof -
    have "(if list_ex id ?fs then ''partial'' else ''pending'') \<in> {''pending'', ''partial'', ''complete''}" by simp
    from set_status [OF Cons.prems this, of fid False] that show thesis unfolding simp_thms if_False by blast
  qed
  from Cons.IH [OF s1(2)] obtain s' where s': "reset_files ops fids s1 = (Inr (), s')" "inv s'" "chunks s' = chunks s1"
    "status s' = (\<lambda>f. if f \<in> set fids then map_option (\<lambda>_. if list_ex id (flags_of f (chunks s1)) then ''partial'' else ''pending'') (status s1 f) else status s1 f)"
    by blast
  have "reset_files ops (fid # fids) s = (Inr (), s')"
    using s1(1) s'(1) pos by (cases "list_ex id ?fs") (simp_all add: embedded [OF Cons.prems])
  moreover have "status s' = (\<lambda>f. if f \<in> set (fid # fids) then map_option (\<lambda>_. if list_ex id (flags_of f (chunks s)) then ''partial'' else ''pending'') (status s f) else status s f)"
    using s1(3,4) s'(4) by (auto simp: fun_eq_iff option.map_comp comp_def)
  ultimately show ?case using s' s1 by auto
qed simp

text \<open>Without assuming the statuses exact: the operations succeed, keep the invariant and set the flags.\<close>

lemma set_flags_none: "set_flags {} b cs = cs"
  by (induction cs) (auto simp: set_flags_def)

lemma mark_embedded_inv:
  "inv s \<Longrightarrow> \<exists>s'. mark_embedded ops ids s = (Inr (), s') \<and> inv s' \<and> chunks s' = set_flags (set ids) True (chunks s)"
  using set_embedded [of s ids True] affected [of _ ids] mark_files_ok
  by (simp add: mark_embedded_def set_flags_none) (metis (no_types, lifting) old.prod.case sum.case(2))

lemma reset_embedded_inv:
  "inv s \<Longrightarrow> \<exists>s'. reset_embedded ops ids s = (Inr (), s') \<and> inv s' \<and> chunks s' = set_flags (set ids) False (chunks s)"
  using set_embedded [of s ids False] affected [of _ ids] reset_files_ok
  by (simp add: reset_embedded_def set_flags_none) (metis (no_types, lifting) old.prod.case sum.case(2))

lemma mark_embedded_ok:
  assumes inv: "inv s" and ex: "status_exact (chunks s) (status s)"
  shows "\<exists>s'. mark_embedded ops ids s = (Inr (), s') \<and> inv s' \<and> chunks s' = set_flags (set ids) True (chunks s)
    \<and> dom (status s') = dom (status s) \<and> status_exact (chunks s') (status s')"
proof (cases "ids = []")
  case True
  have "set_flags {} True cs = cs" for cs by (induction cs) (auto simp: set_flags_def)
  with True inv ex show ?thesis by (simp add: mark_embedded_def)
next
  case False
  obtain s1 where s1: "co_SetEmbedded ops ids True s = (Inr (), s1)" "inv s1"
    "chunks s1 = set_flags (set ids) True (chunks s)" "status s1 = status s"
    using set_embedded [OF inv] by blast
  obtain fids where f: "co_AffectedFiles ops ids s1 = Inr fids"
    "set fids = {f. \<exists>i e. (i, f, e) \<in> set (chunks s1) \<and> i \<in> set ids}"
    using affected [OF s1(2)] by blast
  obtain s' where s': "mark_files ops fids s1 = (Inr (), s')" "inv s'" "chunks s' = chunks s1"
    "status s' = (\<lambda>f. if f \<in> set fids then map_option (marked_status (flags_of f (chunks s1))) (status s1 f) else status s1 f)"
    using mark_files_ok [OF s1(2)] by blast
  have "st = status_of_flags (flags_of fid (chunks s1))"
    if st: "status s' fid = Some st" and ne: "flags_of fid (chunks s1) \<noteq> []" for fid st
  proof -
    from st obtain old where old: "status s fid = Some old" by (auto simp: s'(4) s1(4) split: if_splits)
    let ?cs = "filter (\<lambda>(i, f, e). f = fid) (chunks s)"
    have ne0: "flags_of fid (chunks s) \<noteq> []" using ne unfolding s1(3) flags_of_set_flags by (auto simp: flags_of_def)
    with ex old have o: "old = status_of_flags (flags_of fid (chunks s))" by (simp add: status_exact_def)
    have mono: "list_all id (flags_of fid (chunks s)) \<Longrightarrow> list_all id (flags_of fid (chunks s1))"
      unfolding s1(3) flags_of_set_flags by (auto simp: flags_of_def list_all_iff)
    show ?thesis
    proof (cases "fid \<in> set fids")
      case True
      then obtain i e where "(i, fid, e) \<in> set (chunks s)" "i \<in> set ids"
        unfolding f(2) s1(3) by (auto simp: set_flags_def split: if_splits)
      then have "list_ex id (flags_of fid (chunks s1))"
        unfolding s1(3) flags_of_set_flags by (force simp: list_ex_iff)
      moreover have "st = marked_status (flags_of fid (chunks s1)) old" using st old True by (simp add: s'(4) s1(4))
      moreover have "old = ''complete'' \<longrightarrow> list_all id (flags_of fid (chunks s1))"
        using o mono by (auto simp: status_of_flags_def split: if_splits)
      ultimately show ?thesis by (auto simp: marked_status_def status_of_flags_def)
    next
      case False
      then have "flags_of fid (chunks s1) = flags_of fid (chunks s)"
        unfolding s1(3) by (intro flags_of_untouched) (force simp: f(2) s1(3) set_flags_def)
      with st old o False show ?thesis by (simp add: s'(4) s1(4))
    qed
  qed
  then have "status_exact (chunks s') (status s')" by (simp add: status_exact_def s'(3))
  moreover have "mark_embedded ops ids s = (Inr (), s')" using False s1(1) f(1) s'(1) by (simp add: mark_embedded_def)
  moreover have "dom (status s') = dom (status s)" by (auto simp: s'(4) s1(4) split: if_splits)
  ultimately show ?thesis using s' s1 by auto
qed

lemma reset_embedded_ok:
  assumes inv: "inv s" and ex: "status_exact (chunks s) (status s)"
  shows "\<exists>s'. reset_embedded ops ids s = (Inr (), s') \<and> inv s' \<and> chunks s' = set_flags (set ids) False (chunks s)
    \<and> dom (status s') = dom (status s) \<and> status_exact (chunks s') (status s')"
proof (cases "ids = []")
  case True
  have "set_flags {} False cs = cs" for cs by (induction cs) (auto simp: set_flags_def)
  with True inv ex show ?thesis by (simp add: reset_embedded_def)
next
  case False
  obtain s1 where s1: "co_SetEmbedded ops ids False s = (Inr (), s1)" "inv s1"
    "chunks s1 = set_flags (set ids) False (chunks s)" "status s1 = status s"
    using set_embedded [OF inv] by blast
  obtain fids where f: "co_AffectedFiles ops ids s1 = Inr fids"
    "set fids = {f. \<exists>i e. (i, f, e) \<in> set (chunks s1) \<and> i \<in> set ids}"
    using affected [OF s1(2)] by blast
  obtain s' where s': "reset_files ops fids s1 = (Inr (), s')" "inv s'" "chunks s' = chunks s1"
    "status s' = (\<lambda>f. if f \<in> set fids then map_option (\<lambda>_. if list_ex id (flags_of f (chunks s1)) then ''partial'' else ''pending'') (status s1 f) else status s1 f)"
    using reset_files_ok [OF s1(2)] by blast
  have "st = status_of_flags (flags_of fid (chunks s1))"
    if st: "status s' fid = Some st" and ne: "flags_of fid (chunks s1) \<noteq> []" for fid st
  proof -
    from st obtain old where old: "status s fid = Some old" by (auto simp: s'(4) s1(4) split: if_splits)
    have ne0: "flags_of fid (chunks s) \<noteq> []" using ne unfolding s1(3) flags_of_set_flags by (auto simp: flags_of_def)
    with ex old have o: "old = status_of_flags (flags_of fid (chunks s))" by (simp add: status_exact_def)
    show ?thesis
    proof (cases "fid \<in> set fids")
      case True
      then obtain i e where "(i, fid, e) \<in> set (chunks s)" "i \<in> set ids"
        unfolding f(2) s1(3) by (auto simp: set_flags_def split: if_splits)
      then have "\<not> list_all id (flags_of fid (chunks s1))"
        unfolding s1(3) flags_of_set_flags by (force simp: list_all_iff)
      with st old True show ?thesis by (auto simp: s'(4) s1(4) status_of_flags_def)
    next
      case False
      then have "flags_of fid (chunks s1) = flags_of fid (chunks s)"
        unfolding s1(3) by (intro flags_of_untouched) (force simp: f(2) s1(3) set_flags_def)
      with st old o False show ?thesis by (simp add: s'(4) s1(4))
    qed
  qed
  then have "status_exact (chunks s') (status s')" by (simp add: status_exact_def s'(3))
  moreover have "reset_embedded ops ids s = (Inr (), s')" using False s1(1) f(1) s'(1) by (simp add: reset_embedded_def)
  moreover have "dom (status s') = dom (status s)" by (auto simp: s'(4) s1(4) split: if_splits)
  ultimately show ?thesis using s' s1 by auto
qed

end

end
