(* ===== verification/Sqlite_Store.thy ===== *)
theory Sqlite_Store
  imports Sql_Db Embed_Status "HOL-Library.AList" "HOL-Library.List_Lexorder" "HOL-Library.Char_ord"
begin

text \<open>
  \<open>internal/storage/sqlite/metadata.go\<close> and \<open>embed_status.go\<close>: the store's operations on
  files, chunks, symbols, embedding flags, configuration and metrics. Each SQL statement is
  written out on the tables of \<open>Sql_Db\<close>; a column that the code reads through
  \<open>sql.NullString\<close> is never NULL here, because every insertion writes a string. \<open>now\<close> is the
  formatted clock. Queries that cannot fail return plain values. String columns are ordered by
  bytes, as SQLite's default collation does.
\<close>

definition coalesce :: "string \<Rightarrow> string \<Rightarrow> string" where
  "coalesce v fallback = (if v = [] then fallback else v)"

text \<open>\<open>LIMIT\<close>: a negative one is no limit.\<close>

definition sql_limit :: "int \<Rightarrow> 'a list \<Rightarrow> 'a list" where
  "sql_limit n xs = (if n < 0 then xs else take (nat n) xs)"

section \<open>Files\<close>

definition upsert_file_tx :: "string \<Rightarrow> file_record \<Rightarrow> int tx" where
  "upsert_file_tx now file db =
     (let row = file\<lparr>fr_IndexedAt := now, fr_EmbeddingStatus := coalesce (fr_EmbeddingStatus file) ''pending'',
                    fr_ParseQuality := coalesce (fr_ParseQuality file) ''full''\<rparr>
      in if \<not> file_check row then (Inl (ErrWrap ''upsert file'' constraint_err), db)
         else case find (\<lambda>f. fr_Path f = fr_Path file) (db_files db) of
           Some old \<Rightarrow>
             (Inr (fr_ID old),
              db\<lparr>db_files := map (\<lambda>f. if fr_Path f = fr_Path file then row\<lparr>fr_ID := fr_ID f\<rparr> else f) (db_files db)\<rparr>)
         | None \<Rightarrow>
             (let i = db_files_seq db + 1
              in (Inr i, db\<lparr>db_files := db_files db @ [row\<lparr>fr_ID := i\<rparr>], db_files_seq := i\<rparr>)))"

definition upsert_file :: "string \<Rightarrow> file_record \<Rightarrow> int tx" where
  "upsert_file now file = with_write_tx (upsert_file_tx now file)"

definition get_file_by_path :: "string \<Rightarrow> sql_db \<Rightarrow> file_record option" where
  "get_file_by_path path db = find (\<lambda>f. fr_Path f = path) (db_files db)"

definition list_files :: "sql_db \<Rightarrow> file_record list" where
  "list_files db = sort_key fr_Path (db_files db)"

definition delete_file :: "int \<Rightarrow> unit tx" where
  "delete_file fileID = with_write_tx (\<lambda>db. (Inr (), drop_files {fileID} db))"

definition delete_file_by_path :: "string \<Rightarrow> int tx" where
  "delete_file_by_path path = with_write_tx (\<lambda>db.
     case get_file_by_path path db of
       None \<Rightarrow> (Inr 0, db)
     | Some f \<Rightarrow> (Inr (fr_ID f), drop_files {fr_ID f} db))"

definition get_embedded_chunk_ids_by_file :: "int \<Rightarrow> sql_db \<Rightarrow> int list" where
  "get_embedded_chunk_ids_by_file fileID db =
     map cr_ID (filter (\<lambda>c. cr_FileID c = fileID \<and> cw_embedded c) (db_chunks db))"

definition get_file_path_by_id :: "int \<Rightarrow> sql_db \<Rightarrow> string res" where
  "get_file_path_by_id fileID db =
     (case find (\<lambda>f. fr_ID f = fileID) (db_files db) of
        None \<Rightarrow> Inl (ErrWrap ''get path for file'' (ErrMsg ''sql: no rows in result set''))
      | Some f \<Rightarrow> Inr (fr_Path f))"

definition get_file_is_test_by_id :: "int \<Rightarrow> sql_db \<Rightarrow> bool res" where
  "get_file_is_test_by_id fileID db =
     (case find (\<lambda>f. fr_ID f = fileID) (db_files db) of
        None \<Rightarrow> Inl (ErrWrap ''get is_test for file'' (ErrMsg ''sql: no rows in result set''))
      | Some f \<Rightarrow> Inr (fr_IsTest f))"

section \<open>Chunks\<close>

definition set_parent :: "int \<Rightarrow> int \<Rightarrow> unit tx" where
  "set_parent parentID chunkID db =
     (if (\<exists>c \<in> set (db_chunks db). cr_ID c = chunkID) \<and> parentID \<notin> chunk_ids db then (Inl constraint_err, db)
      else (Inr (), update_chunks (\<lambda>c. cr_ID c = chunkID) (\<lambda>c. c\<lparr>cr_ParentChunkID := Some parentID\<rparr>) db))"

fun set_parents :: "(int \<times> int) list \<Rightarrow> unit tx" where
  "set_parents [] db = (Inr (), db)"
| "set_parents ((chunkID, parentID) # ups) db =
     (case set_parent parentID chunkID db of
        (Inl e, db1) \<Rightarrow> (Inl e, db1)
      | (Inr _, db1) \<Rightarrow> set_parents ups db1)"

text \<open>The updates are a Go map; the list is the order it is ranged over in.\<close>

definition update_chunk_parents :: "(int \<times> int) list \<Rightarrow> unit tx" where
  "update_chunk_parents updates db =
     (if updates = [] then (Inr (), db) else with_write_tx (set_parents updates) db)"

definition chunk_row_of :: "int \<Rightarrow> chunk_record \<Rightarrow> chunk_row" where
  "chunk_row_of fileID c =
     chunk_record.extend (c\<lparr>cr_FileID := fileID, cr_ParseQuality := coalesce (cr_ParseQuality c) ''full'',
                           cr_ParentIndex := None\<rparr>) (chunk_row.fields False)"

fun insert_chunk_rows :: "int \<Rightarrow> chunk_record list \<Rightarrow> int list tx" where
  "insert_chunk_rows fileID [] db = (Inr [], db)"
| "insert_chunk_rows fileID (c # cs) db =
     (case insert_chunk (chunk_row_of fileID c) db of
        (Inl e, db1) \<Rightarrow> (Inl (ErrWrap ''insert chunk'' e), db1)
      | (Inr i, db1) \<Rightarrow>
          (case insert_chunk_rows fileID cs db1 of
             (Inl e, db2) \<Rightarrow> (Inl e, db2)
           | (Inr ids, db2) \<Rightarrow> (Inr (i # ids), db2)))"

text \<open>\<open>ParentIndex\<close> becomes \<open>ParentChunkID\<close>; a negative index panics.\<close>

fun resolve_parents :: "int list \<Rightarrow> (chunk_record \<times> int) list \<Rightarrow> unit tx" where
  "resolve_parents ids [] db = (Inr (), db)"
| "resolve_parents ids ((c, i) # rest) db =
     (case cr_ParentIndex c of
        Some p \<Rightarrow>
          if p < int (length ids) then
            if p < 0 then (Inl (ErrMsg ''index out of range''), db)
            else (case set_parent (ids ! nat p) i db of
                    (Inl e, db1) \<Rightarrow> (Inl (ErrWrap ''set parent chunk'' e), db1)
                  | (Inr _, db1) \<Rightarrow> resolve_parents ids rest db1)
          else resolve_parents ids rest db
      | None \<Rightarrow> resolve_parents ids rest db)"

definition insert_chunks :: "int \<Rightarrow> chunk_record list \<Rightarrow> int list tx" where
  "insert_chunks fileID chunks =
     with_write_tx (tx_bind (insert_chunk_rows fileID chunks)
       (\<lambda>ids. tx_bind (resolve_parents ids (zip chunks ids)) (\<lambda>_. tx_return ids)))"

definition get_chunks_by_file :: "int \<Rightarrow> sql_db \<Rightarrow> chunk_record list" where
  "get_chunks_by_file fileID db =
     map chunk_record.truncate (sort_key cr_ChunkIndex (filter (\<lambda>c. cr_FileID c = fileID) (db_chunks db)))"

definition get_chunk_by_id :: "int \<Rightarrow> sql_db \<Rightarrow> chunk_record option" where
  "get_chunk_by_id i db = map_option chunk_record.truncate (find (\<lambda>c. cr_ID c = i) (db_chunks db))"

definition get_sibling_chunks :: "int \<Rightarrow> string \<Rightarrow> string \<Rightarrow> sql_db \<Rightarrow> chunk_record list" where
  "get_sibling_chunks fileID symbolName kind db =
     map chunk_record.truncate (sort_key cr_ChunkIndex
       (filter (\<lambda>c. cr_FileID c = fileID \<and> cr_SymbolName c = symbolName \<and> cr_Kind c = kind) (db_chunks db)))"

definition delete_chunks_by_file :: "int \<Rightarrow> unit tx" where
  "delete_chunks_by_file fileID = with_write_tx (\<lambda>db.
     (Inr (), drop_chunks (cr_ID ` {c \<in> set (db_chunks db). cr_FileID c = fileID}) db))"

section \<open>Symbols\<close>

fun insert_symbol_rows :: "int \<Rightarrow> symbol_record list \<Rightarrow> int list tx" where
  "insert_symbol_rows fileID [] db = (Inr [], db)"
| "insert_symbol_rows fileID (s # ss) db =
     (case insert_symbol (s\<lparr>sy_FileID := fileID\<rparr>) db of
        (Inl e, db1) \<Rightarrow> (Inl (ErrWrap ''insert symbol'' e), db1)
      | (Inr i, db1) \<Rightarrow>
          (case insert_symbol_rows fileID ss db1 of
             (Inl e, db2) \<Rightarrow> (Inl e, db2)
           | (Inr ids, db2) \<Rightarrow> (Inr (i # ids), db2)))"

definition insert_symbols :: "int \<Rightarrow> symbol_record list \<Rightarrow> int list tx" where
  "insert_symbols fileID symbols = with_write_tx (insert_symbol_rows fileID symbols)"

definition get_symbols_by_file :: "int \<Rightarrow> sql_db \<Rightarrow> symbol_record list" where
  "get_symbols_by_file fileID db = sort_key sy_Line (filter (\<lambda>s. sy_FileID s = fileID) (db_symbols db))"

definition get_symbol_by_name :: "string \<Rightarrow> sql_db \<Rightarrow> symbol_record list" where
  "get_symbol_by_name name db = filter (\<lambda>s. sy_Name s = name) (db_symbols db)"

definition get_symbol_by_id :: "int \<Rightarrow> sql_db \<Rightarrow> symbol_record option" where
  "get_symbol_by_id i db = find (\<lambda>s. sy_ID s = i) (db_symbols db)"

definition delete_symbols_by_file :: "int \<Rightarrow> unit tx" where
  "delete_symbols_by_file fileID = with_write_tx (\<lambda>db.
     (Inr (), drop_symbols (sy_ID ` {s \<in> set (db_symbols db). sy_FileID s = fileID}) db))"

section \<open>Statistics\<close>

definition get_index_stats :: "sql_db \<Rightarrow> index_stats" where
  "get_index_stats db =
     (let langs = filter (\<lambda>l. l \<noteq> []) (map fr_Language (db_files db)) in
      \<lparr>st_TotalFiles = int (length (db_files db)), st_TotalChunks = int (length (db_chunks db)),
       st_TotalSymbols = int (length (db_symbols db)),
       st_Languages = map (\<lambda>l. (l, int (count_list langs l))) (dedup langs),
       st_ParseErrors = int (length (filter (\<lambda>f. fr_ParseQuality f \<in> {''error'', ''unparseable''}) (db_files db))),
       st_StaleFiles = 0\<rparr>)"

section \<open>Embedding flags\<close>

definition embed_job_of :: "chunk_row \<Rightarrow> embed_job" where
  "embed_job_of c = \<lparr>ej_ChunkID = cr_ID c, ej_Content = cr_Content c\<rparr>"

text \<open>The join with \<open>files\<close> drops a chunk whose file is missing.\<close>

definition get_chunks_needing_embedding :: "sql_db \<Rightarrow> embed_job list" where
  "get_chunks_needing_embedding db =
     map embed_job_of (filter (\<lambda>c. \<exists>f \<in> set (db_files db). fr_ID f = cr_FileID c \<and> fr_EmbeddingStatus f \<noteq> ''complete'')
       (db_chunks db))"

definition get_embed_page :: "int \<Rightarrow> int \<Rightarrow> sql_db \<Rightarrow> embed_job list" where
  "get_embed_page afterID n db =
     sql_limit n (map embed_job_of (filter (\<lambda>c. \<not> cw_embedded c \<and> cr_ID c > afterID) (db_chunks db)))"

definition count_chunks_needing_embedding :: "sql_db \<Rightarrow> int" where
  "count_chunks_needing_embedding db = int (length (filter (\<lambda>c. \<not> cw_embedded c) (db_chunks db)))"

definition count_chunks_embedded :: "sql_db \<Rightarrow> int" where
  "count_chunks_embedded db = int (length (filter cw_embedded (db_chunks db)))"

definition reset_all_embedded_flags :: "unit tx" where
  "reset_all_embedded_flags = with_write_tx (\<lambda>db.
     let db1 = update_chunks cw_embedded (\<lambda>c. c\<lparr>cw_embedded := False\<rparr>) db
     in (Inr (), db1\<lparr>db_files := map (\<lambda>f. if fr_EmbeddingStatus f \<noteq> ''pending''
                                          then f\<lparr>fr_EmbeddingStatus := ''pending''\<rparr> else f) (db_files db1)\<rparr>))"

definition get_embedded_chunk_ids :: "int \<Rightarrow> int \<Rightarrow> sql_db \<Rightarrow> int list" where
  "get_embedded_chunk_ids afterID n db =
     sql_limit n (map cr_ID (filter (\<lambda>c. cw_embedded c \<and> cr_ID c > afterID) (db_chunks db)))"

definition embedding_readiness :: "int \<Rightarrow> sql_db \<Rightarrow> real" where
  "embedding_readiness vectorCount db =
     (let totalChunks = int (length (db_chunks db)) in
      if totalChunks = 0 then 0 else real_of_int vectorCount / real_of_int totalChunks)"

text \<open>\<open>sqliteChunkOps\<close> of \<open>embed_status.go\<close>. The ids go into \<open>IN\<close> clauses in batches of 500.\<close>

definition chunk_batch_limit :: nat where "chunk_batch_limit = 500"

definition sq_set_embedded :: "int list \<Rightarrow> bool \<Rightarrow> unit tx" where
  "sq_set_embedded chunkIDs embedded db =
     (Inr (), fold (\<lambda>batch. update_chunks (\<lambda>c. cr_ID c \<in> set batch) (\<lambda>c. c\<lparr>cw_embedded := embedded\<rparr>))
                (batches chunk_batch_limit chunkIDs) db)"

definition affected_file_ids :: "int list \<Rightarrow> sql_db \<Rightarrow> int list" where
  "affected_file_ids batch db = dedup (map cr_FileID (filter (\<lambda>c. cr_ID c \<in> set batch) (db_chunks db)))"

definition sq_affected_files :: "int list \<Rightarrow> sql_db \<Rightarrow> int list res" where
  "sq_affected_files chunkIDs db =
     Inr (dedup (concat (map (\<lambda>batch. affected_file_ids batch db) (batches chunk_batch_limit chunkIDs))))"

definition sq_count_remaining :: "int \<Rightarrow> sql_db \<Rightarrow> int res" where
  "sq_count_remaining fileID db =
     Inr (int (length (filter (\<lambda>c. cr_FileID c = fileID \<and> \<not> cw_embedded c) (db_chunks db))))"

definition sq_count_embedded :: "int \<Rightarrow> sql_db \<Rightarrow> int res" where
  "sq_count_embedded fileID db =
     Inr (int (length (filter (\<lambda>c. cr_FileID c = fileID \<and> cw_embedded c) (db_chunks db))))"

definition sq_set_file_status :: "int \<Rightarrow> string \<Rightarrow> bool \<Rightarrow> unit tx" where
  "sq_set_file_status fileID st keepCompleteOnly db =
     (let hit = (\<lambda>f. fr_ID f = fileID \<and> (\<not> keepCompleteOnly \<or> fr_EmbeddingStatus f \<noteq> ''complete'')) in
      if list_ex hit (db_files db) \<and> \<not> embedding_status_valid st
      then (Inl (ErrWrap ''update file embedding status'' constraint_err), db)
      else (Inr (), db\<lparr>db_files := map (\<lambda>f. if hit f then f\<lparr>fr_EmbeddingStatus := st\<rparr> else f) (db_files db)\<rparr>))"

definition sqlite_chunk_ops :: "sql_db chunk_ops" where
  "sqlite_chunk_ops =
     \<lparr>co_SetEmbedded = sq_set_embedded, co_AffectedFiles = sq_affected_files,
      co_CountRemaining = sq_count_remaining, co_CountEmbedded = sq_count_embedded,
      co_SetFileStatus = sq_set_file_status\<rparr>"

definition reset_embedded_flags :: "int list \<Rightarrow> unit tx" where
  "reset_embedded_flags chunkIDs = with_write_tx (reset_embedded sqlite_chunk_ops chunkIDs)"

definition mark_chunks_embedded :: "int list \<Rightarrow> unit tx" where
  "mark_chunks_embedded chunkIDs = with_write_tx (mark_embedded sqlite_chunk_ops chunkIDs)"

section \<open>Metrics and configuration\<close>

definition record_tool_calls :: "tool_call list \<Rightarrow> unit tx" where
  "record_tool_calls records = with_write_tx (\<lambda>db. (Inr (), db\<lparr>db_tool_calls := db_tool_calls db @ records\<rparr>))"

definition get_config :: "string \<Rightarrow> sql_db \<Rightarrow> string" where
  "get_config key db = (case map_of (db_config db) key of None \<Rightarrow> [] | Some v \<Rightarrow> v)"

definition set_config :: "string \<Rightarrow> string \<Rightarrow> unit tx" where
  "set_config key v = with_write_tx (\<lambda>db. (Inr (), db\<lparr>db_config := AList.update key v (db_config db)\<rparr>))"

section \<open>Batch queries\<close>

definition symbol_rows_for_chunk :: "sql_db \<Rightarrow> chunk_row \<Rightarrow> (int \<times> int) list" where
  "symbol_rows_for_chunk db c =
     map (\<lambda>s. (cr_ID c, sy_ID s))
       (sort_key (\<lambda>s. if sy_FileID s = cr_FileID c then 0 else 1 :: nat)
         (sort_key sy_ID (filter (\<lambda>s. sy_Name s = cr_SymbolName c) (db_symbols db))))"

definition batch_get_symbol_ids_for_chunks :: "int list \<Rightarrow> sql_db \<Rightarrow> (int \<times> int) list" where
  "batch_get_symbol_ids_for_chunks chunkIDs db =
     dedup_on fst {} (concat (map (\<lambda>batch.
       concat (map (symbol_rows_for_chunk db)
         (sort_key cr_ID (filter (\<lambda>c. cr_ID c \<in> set batch \<and> cr_SymbolName c \<noteq> []) (db_chunks db)))))
       (batches chunk_batch_limit chunkIDs)))"

definition batch_get_chunk_ids_for_symbols :: "int list \<Rightarrow> sql_db \<Rightarrow> (int \<times> int) list" where
  "batch_get_chunk_ids_for_symbols symbolIDs db =
     fold (\<lambda>(symID, chunkID). AList.update symID chunkID)
       (concat (map (\<lambda>batch. map (\<lambda>s. (sy_ID s, sy_ChunkID s)) (filter (\<lambda>s. sy_ID s \<in> set batch) (db_symbols db)))
         (batches chunk_batch_limit symbolIDs))) []"

text \<open>The columns of the join of \<open>chunks\<close> with \<open>files\<close>.\<close>

definition hydrate_row :: "chunk_row \<Rightarrow> file_record \<Rightarrow> hydrated_chunk" where
  "hydrate_row c f =
     \<lparr>hc_ChunkID = cr_ID c, hc_FileID = cr_FileID c, hc_Path = fr_Path f, hc_IsTest = fr_IsTest f,
      hc_SymbolName = cr_SymbolName c, hc_Kind = cr_Kind c, hc_StartLine = cr_StartLine c,
      hc_EndLine = cr_EndLine c, hc_Content = cr_Content c, hc_TokenCount = cr_TokenCount c\<rparr>"

definition join_files :: "sql_db \<Rightarrow> chunk_row list \<Rightarrow> hydrated_chunk list" where
  "join_files db cs =
     concat (map (\<lambda>c. map (hydrate_row c) (filter (\<lambda>f. fr_ID f = cr_FileID c) (db_files db))) cs)"

definition batch_hydrate_chunks :: "int list \<Rightarrow> sql_db \<Rightarrow> hydrated_chunk list" where
  "batch_hydrate_chunks chunkIDs db =
     concat (map (\<lambda>batch. join_files db (filter (\<lambda>c. cr_ID c \<in> set batch) (db_chunks db)))
       (batches chunk_batch_limit chunkIDs))"

definition sibling_rows :: "sibling_key \<Rightarrow> sql_db \<Rightarrow> hydrated_chunk list" where
  "sibling_rows k db =
     join_files db (sort_key cr_ChunkIndex
       (filter (\<lambda>c. cr_FileID c = sk_FileID k \<and> cr_SymbolName c = sk_SymbolName k \<and> cr_Kind c = sk_Kind k)
         (db_chunks db)))"

definition batch_get_sibling_chunks :: "sibling_key list \<Rightarrow> sql_db \<Rightarrow> (string \<times> hydrated_chunk list) list" where
  "batch_get_sibling_chunks keys db =
     fold (\<lambda>k result. if length (sibling_rows k db) > 1
                       then AList.update (sibling_key_string k) (sibling_rows k db) result else result) keys []"

definition batch_get_file_hashes :: "string list \<Rightarrow> sql_db \<Rightarrow> (string \<times> string) list" where
  "batch_get_file_hashes paths db =
     fold (\<lambda>(path, h). AList.update path h)
       (concat (map (\<lambda>batch. map (\<lambda>f. (fr_Path f, fr_ContentHash f)) (filter (\<lambda>f. fr_Path f \<in> set batch) (db_files db)))
         (batches chunk_batch_limit paths))) []"

section \<open>Every operation keeps the store in order\<close>

lemma map_if_same: "(\<And>x. x \<in> set xs \<Longrightarrow> P x \<Longrightarrow> g (f x) = g x) \<Longrightarrow> map g (map (\<lambda>x. if P x then f x else x) xs) = map g xs"
  by auto

text \<open>Rewriting the file rows is safe when ids and paths stay and the rows stay valid.\<close>

lemma files_replace_inv:
  assumes inv: "db_inv db" and ids: "map fr_ID fs = map fr_ID (db_files db)"
    and paths: "map fr_Path fs = map fr_Path (db_files db)" and chk: "\<forall>f \<in> set fs. file_check f"
  shows "db_inv (db\<lparr>db_files := fs\<rparr>)"
proof -
  have "fr_ID ` set fs = file_ids db" using ids by (metis set_map)
  then show ?thesis using inv ids paths chk by (simp add: db_inv_def)
qed

lemma keeps_files_replace:
  assumes "\<And>db. db_inv db \<Longrightarrow> map fr_ID (h db) = map fr_ID (db_files db) \<and> map fr_Path (h db) = map fr_Path (db_files db)
    \<and> (\<forall>f \<in> set (h db). file_check f)"
  shows "keeps (\<lambda>db. db\<lparr>db_files := h db\<rparr>)"
  by (rule keepsI) (use assms in \<open>auto simp: files_replace_inv fts_fresh_def\<close>)

lemma file_snoc_inv:
  assumes inv: "db_inv db" and chk: "file_check f" and new: "fr_Path f \<notin> fr_Path ` set (db_files db)"
  shows "db_inv (db\<lparr>db_files := db_files db @ [f\<lparr>fr_ID := db_files_seq db + 1\<rparr>], db_files_seq := db_files_seq db + 1\<rparr>)"
proof -
  have "file_check (f\<lparr>fr_ID := i\<rparr>)" for i using chk by (simp add: file_check_def)
  then show ?thesis
    using inv new wf_ids_snoc [of "map fr_ID (db_files db)" "db_files_seq db"] by (simp add: db_inv_def ball_Un)
qed

lemma keeps_upsert_file_tx: "tx_keeps (upsert_file_tx now file)"
proof (rule keepsI)
  fix db
  let ?row = "file\<lparr>fr_IndexedAt := now, fr_EmbeddingStatus := coalesce (fr_EmbeddingStatus file) ''pending'',
                    fr_ParseQuality := coalesce (fr_ParseQuality file) ''full''\<rparr>"
  have p: "fr_Path ?row = fr_Path file" by simp
  have chk_id: "file_check (?row\<lparr>fr_ID := i\<rparr>) = file_check ?row" for i by (simp add: file_check_def)
  show "db_inv (snd (upsert_file_tx now file db))" if inv: "db_inv db"
  proof (cases "file_check ?row")
    case chk: True
    show ?thesis
    proof (cases "find (\<lambda>f. fr_Path f = fr_Path file) (db_files db)")
      case None
      then have "fr_Path ?row \<notin> fr_Path ` set (db_files db)" by (auto simp: find_None_set)
      from file_snoc_inv [OF inv chk this] None chk show ?thesis by (simp add: upsert_file_tx_def Let_def)
    next
      case (Some old)
      have "db_inv (db\<lparr>db_files := map (\<lambda>f. if fr_Path f = fr_Path file then ?row\<lparr>fr_ID := fr_ID f\<rparr> else f) (db_files db)\<rparr>)"
      proof (rule files_replace_inv [OF inv])
        have "\<forall>f \<in> set (db_files db). file_check f" using inv by (simp add: db_inv_def)
        with chk chk_id show "\<forall>f \<in> set (map (\<lambda>f. if fr_Path f = fr_Path file then ?row\<lparr>fr_ID := fr_ID f\<rparr> else f) (db_files db)). file_check f"
          by auto
      qed simp_all
      with Some chk show ?thesis by (simp add: upsert_file_tx_def Let_def)
    qed
  qed (simp add: upsert_file_tx_def Let_def inv)
qed (simp_all add: upsert_file_tx_def Let_def fts_fresh_def split: option.split)

lemma keeps_delete_file_by_path: "tx_keeps (delete_file_by_path path)"
  unfolding delete_file_by_path_def
  by (intro keeps_with_write_tx keeps_case_option keeps_const) (simp add: keeps_drop_files)

lemma keeps_set_parent: "tx_keeps (set_parent parentID chunkID)"
proof (rule keepsI)
  fix db
  let ?u = "update_chunks (\<lambda>c. cr_ID c = chunkID) (\<lambda>c. c\<lparr>cr_ParentChunkID := Some parentID\<rparr>) db"
  have eq: "snd (set_parent parentID chunkID db) = (if chunkID \<in> chunk_ids db \<and> parentID \<notin> chunk_ids db then db else ?u)"
    by (auto simp: set_parent_def image_iff)
  show "db_fts_triggers (snd (set_parent parentID chunkID db)) = db_fts_triggers db"
    unfolding eq by (simp add: update_chunks_def)
  assume inv: "db_inv db"
  have chk: "chunk_check (c\<lparr>cr_ParentChunkID := p\<rparr>) = chunk_check c" for c :: chunk_row and p by (simp add: chunk_check_def)
  have "db_inv ?u" if "\<not> (chunkID \<in> chunk_ids db \<and> parentID \<notin> chunk_ids db)"
    using that inv by (intro update_chunks_inv) (auto simp: chk ref_ok_def db_inv_def)
  with inv show "db_inv (snd (set_parent parentID chunkID db))" unfolding eq by simp
  assume "db_fts_triggers db" "fts_fresh db"
  with inv show "fts_fresh (snd (set_parent parentID chunkID db))" unfolding eq by (simp add: update_chunks_fts)
qed

lemma keeps_set_parents: "tx_keeps (set_parents ups)"
proof (induction ups)
  case (Cons u ups)
  obtain c p where u: "u = (c, p)" by (cases u)
  have "set_parents (u # ups) = tx_bind (set_parent p c) (\<lambda>_. set_parents ups)"
    by (auto simp: u fun_eq_iff tx_bind_def)
  with Cons show ?case by (simp add: keeps_bind keeps_set_parent)
qed (simp add: keeps_const)

lemma insert_chunk_rows_Cons:
  "insert_chunk_rows fileID (c # cs) =
     tx_bind (tx_wrap ''insert chunk'' (insert_chunk (chunk_row_of fileID c)))
       (\<lambda>i. tx_bind (insert_chunk_rows fileID cs) (\<lambda>ids. tx_return (i # ids)))"
  by (auto simp: fun_eq_iff tx_bind_def tx_wrap_def tx_return_def split: prod.splits sum.splits)

lemma insert_symbol_rows_Cons:
  "insert_symbol_rows fileID (s # ss) =
     tx_bind (tx_wrap ''insert symbol'' (insert_symbol (s\<lparr>sy_FileID := fileID\<rparr>)))
       (\<lambda>i. tx_bind (insert_symbol_rows fileID ss) (\<lambda>ids. tx_return (i # ids)))"
  by (auto simp: fun_eq_iff tx_bind_def tx_wrap_def tx_return_def split: prod.splits sum.splits)

lemma keeps_insert_chunk_rows: "tx_keeps (insert_chunk_rows fileID cs)"
proof (induction cs)
  case (Cons c cs)
  then show ?case unfolding insert_chunk_rows_Cons by (intro keeps_intros keeps_insert_chunk)
qed (simp add: keeps_const)

lemma keeps_insert_symbol_rows: "tx_keeps (insert_symbol_rows fileID ss)"
proof (induction ss)
  case (Cons s ss)
  then show ?case unfolding insert_symbol_rows_Cons by (intro keeps_intros keeps_insert_symbol)
qed (simp add: keeps_const)

lemma keeps_resolve_parents: "tx_keeps (resolve_parents ids rest)"
proof (induction rest)
  case (Cons x rest)
  obtain c i where x: "x = (c, i)" by (cases x)
  have "resolve_parents ids (x # rest) = (case cr_ParentIndex c of
      Some p \<Rightarrow> if p < int (length ids) then
                  if p < 0 then (\<lambda>db. (Inl (ErrMsg ''index out of range''), db))
                  else tx_bind (tx_wrap ''set parent chunk'' (set_parent (ids ! nat p) i)) (\<lambda>_. resolve_parents ids rest)
                else resolve_parents ids rest
    | None \<Rightarrow> resolve_parents ids rest)"
    by (auto simp: x fun_eq_iff tx_bind_def tx_wrap_def split: prod.splits sum.splits option.splits)
  moreover have "tx_keeps (tx_bind (tx_wrap ''set parent chunk'' (set_parent p i)) (\<lambda>_. resolve_parents ids rest))" for p
    using Cons by (intro keeps_intros keeps_set_parent)
  ultimately show ?case using Cons by (auto simp: keeps_const split: option.split)
qed (simp add: keeps_const)

lemma keeps_insert_chunks: "tx_keeps (insert_chunks fileID cs)"
  unfolding insert_chunks_def
  by (intro keeps_intros keeps_insert_chunk_rows keeps_resolve_parents)

lemma keeps_flag_update:
  "keeps (update_chunks P (\<lambda>c. c\<lparr>cw_embedded := b\<rparr>))"
proof (rule keepsI)
  fix db assume inv: "db_inv db"
  have "chunk_check (c\<lparr>cw_embedded := b\<rparr>) = chunk_check c" for c by (simp add: chunk_check_def)
  with inv show "db_inv (update_chunks P (\<lambda>c. c\<lparr>cw_embedded := b\<rparr>) db)"
    by (intro update_chunks_inv) (auto simp: db_inv_def)
qed (simp_all add: update_chunks_fts, simp add: update_chunks_def)

lemma keeps_fold: "(\<And>x. x \<in> set xs \<Longrightarrow> keeps (f x)) \<Longrightarrow> keeps (fold f xs)"
proof (induction xs)
  case (Cons x xs)
  have "keeps (\<lambda>db. fold f xs (f x db))" by (rule keeps_comp) (use Cons in auto)
  then show ?case by (simp add: comp_def)
qed (simp add: keeps_def)

lemma keeps_reset_all: "tx_keeps reset_all_embedded_flags"
proof -
  have "keeps (\<lambda>db. db\<lparr>db_files := map (\<lambda>f. if fr_EmbeddingStatus f \<noteq> ''pending''
                      then f\<lparr>fr_EmbeddingStatus := ''pending''\<rparr> else f) (db_files db)\<rparr>)"
    by (rule keeps_files_replace) (auto simp: db_inv_def file_check_def embedding_status_valid_def)
  from keeps_comp [OF keeps_flag_update [of cw_embedded False] this] show ?thesis
    unfolding reset_all_embedded_flags_def by (intro keeps_with_write_tx) (simp add: Let_def)
qed

lemma keeps_sq_set_embedded: "tx_keeps (sq_set_embedded ids b)"
  unfolding sq_set_embedded_def keeps_pair by (intro keeps_fold keeps_flag_update)

lemma keeps_sq_set_file_status: "tx_keeps (sq_set_file_status fid st keep)"
proof (cases "embedding_status_valid st")
  case True
  have "keeps (\<lambda>db. db\<lparr>db_files := map (\<lambda>f. if fr_ID f = fid \<and> (\<not> keep \<or> fr_EmbeddingStatus f \<noteq> ''complete'')
          then f\<lparr>fr_EmbeddingStatus := st\<rparr> else f) (db_files db)\<rparr>)"
    by (rule keeps_files_replace) (use True in \<open>auto simp: db_inv_def file_check_def\<close>)
  with True show ?thesis by (simp add: sq_set_file_status_def Let_def)
next
  case False
  have "map (\<lambda>f. if P f then g f else f) fs = fs" if "\<not> list_ex P fs" for P g and fs :: "file_record list"
    using that by (induction fs) auto
  with False have "snd (sq_set_file_status fid st keep db) = db" for db
    by (simp add: sq_set_file_status_def Let_def)
  then show ?thesis by simp
qed

section \<open>The embedding status of a file\<close>

definition chunk_views :: "sql_db \<Rightarrow> chunk_view list" where
  "chunk_views db = map (\<lambda>c. (cr_ID c, cr_FileID c, cw_embedded c)) (db_chunks db)"

definition file_statuses :: "sql_db \<Rightarrow> int \<rightharpoonup> string" where
  "file_statuses db = map_of (map (\<lambda>f. (fr_ID f, fr_EmbeddingStatus f)) (db_files db))"

lemma flags_of_chunk_views:
  "flags_of fid (chunk_views db) = map cw_embedded (filter (\<lambda>c. cr_FileID c = fid) (db_chunks db))"
  by (simp add: flags_of_def chunk_views_def filter_map comp_def)

lemma chunk_views_flag_update:
  "chunk_views (update_chunks (\<lambda>c. cr_ID c \<in> S) (\<lambda>c. c\<lparr>cw_embedded := b\<rparr>) db) = set_flags S b (chunk_views db)"
  by (simp add: chunk_views_def update_chunks_def set_flags_def)

lemma set_flags_set_flags: "set_flags T b (set_flags S b cs) = set_flags (S \<union> T) b cs"
  by (auto simp: set_flags_def)

lemma chunk_views_sq_set_embedded:
  "chunk_views (snd (sq_set_embedded ids b db)) = set_flags (set ids) b (chunk_views db)
   \<and> db_files (snd (sq_set_embedded ids b db)) = db_files db"
proof -
  have "chunk_views (fold (\<lambda>batch. update_chunks (\<lambda>c. cr_ID c \<in> set batch) (\<lambda>c. c\<lparr>cw_embedded := b\<rparr>)) bs db)
        = set_flags (\<Union>x \<in> set bs. set x) b (chunk_views db)
      \<and> db_files (fold (\<lambda>batch. update_chunks (\<lambda>c. cr_ID c \<in> set batch) (\<lambda>c. c\<lparr>cw_embedded := b\<rparr>)) bs db) = db_files db" for bs
  proof (induction bs arbitrary: db)
    case Nil
    then show ?case by (auto simp: set_flags_def intro!: map_idI [symmetric])
  next
    case (Cons x bs)
    then show ?case by (simp add: chunk_views_flag_update set_flags_set_flags) (simp add: update_chunks_def)
  qed
  from this [of "batches chunk_batch_limit ids"] show ?thesis
    by (simp add: sq_set_embedded_def set_batches chunk_batch_limit_def)
qed

lemma file_statuses_update:
  "file_statuses (db\<lparr>db_files := map (\<lambda>f. if fr_ID f = fid \<and> P (fr_EmbeddingStatus f) then f\<lparr>fr_EmbeddingStatus := st\<rparr> else f) (db_files db)\<rparr>)
   = (\<lambda>i. if i = fid then map_option (\<lambda>old. if P old then st else old) (file_statuses db i) else file_statuses db i)"
proof -
  have key: "map_of (map (\<lambda>f. (fr_ID f, fr_EmbeddingStatus f)) (map (\<lambda>f. if fr_ID f = fid \<and> P (fr_EmbeddingStatus f) then f\<lparr>fr_EmbeddingStatus := st\<rparr> else f) fs)) i
      = (if i = fid then map_option (\<lambda>old. if P old then st else old) (map_of (map (\<lambda>f. (fr_ID f, fr_EmbeddingStatus f)) fs) i)
         else map_of (map (\<lambda>f. (fr_ID f, fr_EmbeddingStatus f)) fs) i)" for i fs
    by (induction fs) auto
  have upd: "db_files (db\<lparr>db_files := fs\<rparr>) = fs" for fs by simp
  show ?thesis by (rule ext) (simp only: file_statuses_def upd key)
qed

lemma sq_set_file_status_ok:
  assumes "embedding_status_valid st"
  shows "\<exists>db'. sq_set_file_status fid st keep db = (Inr (), db') \<and> chunk_views db' = chunk_views db
    \<and> file_statuses db' = (\<lambda>i. if i = fid then map_option (\<lambda>old. if keep \<and> old = ''complete'' then old else st) (file_statuses db i)
                              else file_statuses db i)"
proof -
  let ?P = "\<lambda>s. \<not> keep \<or> s \<noteq> ''complete''"
  let ?db = "db\<lparr>db_files := map (\<lambda>f. if fr_ID f = fid \<and> ?P (fr_EmbeddingStatus f) then f\<lparr>fr_EmbeddingStatus := st\<rparr> else f) (db_files db)\<rparr>"
  have "sq_set_file_status fid st keep db = (Inr (), ?db)"
    using assms by (simp add: sq_set_file_status_def Let_def)
  moreover have "chunk_views ?db = chunk_views db" by (simp add: chunk_views_def)
  moreover have "(\<lambda>old. if ?P old then st else old) = (\<lambda>old. if keep \<and> old = ''complete'' then old else st)" by auto
  with file_statuses_update [where P = ?P and fid = fid and st = st and db = db]
  have "file_statuses ?db = (\<lambda>i. if i = fid then map_option (\<lambda>old. if keep \<and> old = ''complete'' then old else st) (file_statuses db i)
                              else file_statuses db i)" by (simp only:)
  ultimately show ?thesis by blast
qed

lemma in_chunk_views: "(i, f, e) \<in> set (chunk_views db) \<longleftrightarrow> (\<exists>c \<in> set (db_chunks db). i = cr_ID c \<and> f = cr_FileID c \<and> e = cw_embedded c)"
  by (auto simp: chunk_views_def)

lemma set_affected_file_ids:
  "set (affected_file_ids batch db) = {f. \<exists>i e. (i, f, e) \<in> set (chunk_views db) \<and> i \<in> set batch}"
  unfolding affected_file_ids_def in_chunk_views by auto

text \<open>The store honours the contract of the embedding state machine.\<close>

interpretation sq: chunk_ops sqlite_chunk_ops "\<lambda>db. inv_at u db \<and> db_fts_triggers db = t" chunk_views file_statuses for t u
proof (unfold_locales, goal_cases)
  case (1 db ids b)
  obtain db' where db': "sq_set_embedded ids b db = (Inr (), db')" by (simp add: sq_set_embedded_def)
  with chunk_views_sq_set_embedded [of ids b db] keeps_at [OF keeps_sq_set_embedded, of u db ids b] 1 show ?case
    by (auto simp: sqlite_chunk_ops_def file_statuses_def)
next
  case (2 db ids)
  have "set (concat (map (\<lambda>batch. affected_file_ids batch db) bs)) = {f. \<exists>i e. (i, f, e) \<in> set (chunk_views db) \<and> i \<in> (\<Union>x \<in> set bs. set x)}" for bs
    unfolding set_concat set_map image_image set_affected_file_ids by blast
  from this [of "batches chunk_batch_limit ids"] show ?case
    by (simp add: sqlite_chunk_ops_def sq_affected_files_def set_batches chunk_batch_limit_def)
next
  case (3 db fid)
  then show ?case by (simp add: sqlite_chunk_ops_def sq_count_remaining_def flags_of_chunk_views filter_map comp_def)
next
  case (4 db fid)
  then show ?case by (simp add: sqlite_chunk_ops_def sq_count_embedded_def flags_of_chunk_views filter_map comp_def)
next
  case (5 db st fid keep)
  then have st: "embedding_status_valid st" by (auto simp: embedding_status_valid_def)
  with sq_set_file_status_ok [of st fid keep db] st keeps_at [OF keeps_sq_set_file_status, of u db fid st keep] 5 show ?case
    by (auto simp: sqlite_chunk_ops_def)
qed

text \<open>Marking chunks embedded, and resetting them, always succeeds, sets exactly the named chunks' flags, and
  leaves every file with chunks with the status its chunks imply: complete when all are embedded,
  partial when some are, pending when none is. A file is neither lost nor invented.\<close>

theorem embedding_flags_exact:
  assumes "store_ok db" and "status_exact (chunk_views db) (file_statuses db)"
  shows "(\<exists>db'. mark_chunks_embedded ids db = (Inr (), db') \<and> store_ok db'
      \<and> chunk_views db' = set_flags (set ids) True (chunk_views db)
      \<and> dom (file_statuses db') = dom (file_statuses db) \<and> status_exact (chunk_views db') (file_statuses db'))
    \<and> (\<exists>db'. reset_embedded_flags ids db = (Inr (), db') \<and> store_ok db'
      \<and> chunk_views db' = set_flags (set ids) False (chunk_views db)
      \<and> dom (file_statuses db') = dom (file_statuses db) \<and> status_exact (chunk_views db') (file_statuses db'))"
  using sq.mark_embedded_ok [of True db "db_fts_triggers db" ids] sq.reset_embedded_ok [of True db "db_fts_triggers db" ids] assms
  by (auto simp: mark_chunks_embedded_def reset_embedded_flags_def with_write_tx_def)

theorem embedding_flags_exact_witness:
  "\<exists>db'. mark_chunks_embedded [1, 3] sample_db = (Inr (), db')
     \<and> chunk_views db' = [(1, 1, True), (2, 1, False), (3, 2, True), (4, 3, False)]
     \<and> status_exact (chunk_views db') (file_statuses db')"
proof -
  have "status_exact (chunk_views sample_db) (file_statuses sample_db)"
    by (auto simp: status_exact_def chunk_views_def file_statuses_def flags_of_def status_of_flags_def sample_defs split: if_splits)
  moreover have "set_flags (set [1, 3]) True (chunk_views sample_db) = [(1, 1, True), (2, 1, False), (3, 2, True), (4, 3, False)]"
    by (simp add: chunk_views_def sample_defs set_flags_def)
  ultimately show ?thesis
    using embedding_flags_exact [OF sample_db_ok(1), of "[1, 3]"] by metis
qed

end
