(* ===== verification/Sqlite_Fts.thy ===== *)
theory Sqlite_Fts
  imports Sqlite_Store
begin

text \<open>
  \<open>internal/storage/sqlite/fts.go\<close> and \<open>lifecycle.go\<close>: keyword search over the full-text index,
  and the triggers that keep the index in step with the chunks. FTS5 itself is a parameter: the
  rows it matches to a query and their ranks. Queries are taken to be ASCII. \<open>chunks_fts\<close> is an
  external-content table, so counting its rows counts the rows of \<open>chunks\<close>
  (\<open>fts_test.go\<close>, \<open>TestIsFTSStale_WithDisabledTriggers\<close>).
\<close>

section \<open>Queries\<close>

definition is_ws :: "char \<Rightarrow> bool" where
  "is_ws c \<longleftrightarrow> c \<in> {CHR '' '', CHR 0x09, CHR 0x0A, CHR 0x0B, CHR 0x0C, CHR 0x0D}"

text \<open>\<open>strings.Fields\<close> and \<open>strings.TrimSpace\<close>.\<close>

function ws_fields :: "string \<Rightarrow> string list" where
  "ws_fields s =
     (let t = dropWhile is_ws s
      in if t = [] then [] else takeWhile (\<lambda>c. \<not> is_ws c) t # ws_fields (dropWhile (\<lambda>c. \<not> is_ws c) t))"
  by pat_completeness auto
termination
proof (relation "measure length", goal_cases)
  case (2 s t)
  from 2 have "\<not> is_ws (hd t)" by (simp add: hd_dropWhile)
  with 2(2) have "length (dropWhile (\<lambda>c. \<not> is_ws c) t) < length t"
    by (cases t) (simp_all add: length_dropWhile_le less_Suc_eq_le)
  also have "\<dots> \<le> length s" by (simp add: 2(1) length_dropWhile_le)
  finally show ?case by simp
qed simp

declare ws_fields.simps [simp del]

definition trim_ws :: "string \<Rightarrow> string" where
  "trim_ws s = rev (dropWhile is_ws (rev (dropWhile is_ws s)))"

definition fts_special :: "char \<Rightarrow> bool" where
  "fts_special c \<longleftrightarrow> c \<in> {CHR 0x22, CHR ''*'', CHR ''+'', CHR ''-'', CHR ''^''}"

definition fts_terms :: "string \<Rightarrow> string list" where
  "fts_terms query = filter (\<lambda>t. t \<noteq> []) (map (\<lambda>w. trim_ws (filter (\<lambda>c. \<not> fts_special c) w)) (ws_fields query))"

definition quoted :: "string \<Rightarrow> string" where
  "quoted t = CHR 0x22 # t @ [CHR 0x22]"

definition sanitize_fts_query :: "string \<Rightarrow> string" where
  "sanitize_fts_query query =
     (if fts_terms query = [] then [] else join_with '' OR '' (map quoted (fts_terms query)))"

type_synonym fts_match = "string \<Rightarrow> (int \<times> string \<times> string) set \<Rightarrow> (int \<times> real) list"

definition keyword_search_fts :: "fts_match \<Rightarrow> string \<Rightarrow> int \<Rightarrow> sql_db \<Rightarrow> fts_result list" where
  "keyword_search_fts fts query n db =
     (if query = [] then []
      else let q = sanitize_fts_query query in
           if q = [] then []
           else map (\<lambda>(i, r). \<lparr>ft_ChunkID = i, ft_Rank = r\<rparr>) (sql_limit n (sort_key snd (fts q (db_fts db)))))"

section \<open>Triggers\<close>

definition disable_fts_triggers :: "unit tx" where
  "disable_fts_triggers = with_write_tx (\<lambda>db. (Inr (), db\<lparr>db_fts_triggers := False\<rparr>))"

definition enable_fts_triggers :: "unit tx" where
  "enable_fts_triggers = with_write_tx (\<lambda>db. (Inr (), db\<lparr>db_fts_triggers := True\<rparr>))"

definition ensure_fts_triggers :: "unit tx" where
  "ensure_fts_triggers = with_write_tx (\<lambda>db. (Inr (), db\<lparr>db_fts_triggers := True\<rparr>))"

definition rebuild_fts :: "unit tx" where
  "rebuild_fts = with_write_tx (\<lambda>db. (Inr (), db\<lparr>db_fts := fts_row ` set (db_chunks db)\<rparr>))"

text \<open>\<open>SELECT COUNT(*) FROM chunks_fts\<close> reads the content table.\<close>

definition count_chunks_fts :: "sql_db \<Rightarrow> nat" where
  "count_chunks_fts db = length (db_chunks db)"

definition is_fts_stale :: "sql_db \<Rightarrow> bool" where
  "is_fts_stale db \<longleftrightarrow> length (db_chunks db) \<noteq> count_chunks_fts db"

definition on_startup :: "unit tx" where
  "on_startup = tx_bind ensure_fts_triggers (\<lambda>_ db. if is_fts_stale db then rebuild_fts db else (Inr (), db))"

definition on_bulk_write_begin :: "unit tx" where
  "on_bulk_write_begin = disable_fts_triggers"

definition on_bulk_write_end :: "unit tx" where
  "on_bulk_write_end = tx_bind rebuild_fts (\<lambda>_. enable_fts_triggers)"

section \<open>Lemmas\<close>

lemma fts_inv_fields [simp]: "db_inv (db\<lparr>db_fts := x\<rparr>) = db_inv db" "db_inv (db\<lparr>db_fts_triggers := b\<rparr>) = db_inv db"
  by (simp_all add: db_inv_def)

lemma disable_eq: "disable_fts_triggers db = (Inr (), db\<lparr>db_fts_triggers := False\<rparr>)"
  by (simp add: disable_fts_triggers_def with_write_tx_def)

lemma bulk_end_eq:
  "on_bulk_write_end db = (Inr (), db\<lparr>db_fts := fts_row ` set (db_chunks db), db_fts_triggers := True\<rparr>)"
  by (simp add: on_bulk_write_end_def tx_bind_def rebuild_fts_def enable_fts_triggers_def with_write_tx_def)

lemma fields_no_ws: "w \<in> set (ws_fields s) \<Longrightarrow> list_all (\<lambda>c. \<not> is_ws c) w"
proof (induction s rule: ws_fields.induct)
  case (1 s)
  define t where "t = dropWhile is_ws s"
  from "1.prems" have "t \<noteq> []"
    and w: "w = takeWhile (\<lambda>c. \<not> is_ws c) t \<or> w \<in> set (ws_fields (dropWhile (\<lambda>c. \<not> is_ws c) t))"
    unfolding ws_fields.simps [of s] Let_def t_def by (simp_all split: if_splits)
  from w show ?case
  proof
    assume "w = takeWhile (\<lambda>c. \<not> is_ws c) t"
    then show ?thesis by (simp add: list_all_iff) (metis set_takeWhileD)
  qed (rule "1.IH" [OF t_def \<open>t \<noteq> []\<close>])
qed

lemma dropWhile_ws_id: "list_all (\<lambda>c. \<not> is_ws c) w \<Longrightarrow> dropWhile is_ws w = w"
  by (cases w) simp_all

lemma trim_ws_id: "list_all (\<lambda>c. \<not> is_ws c) w \<Longrightarrow> trim_ws w = w"
  by (simp add: trim_ws_def dropWhile_ws_id)

lemma fts_terms_eq:
  "fts_terms query = filter (\<lambda>t. t \<noteq> []) (map (filter (\<lambda>c. \<not> fts_special c)) (ws_fields query))"
proof -
  have "trim_ws (filter (\<lambda>c. \<not> fts_special c) w) = filter (\<lambda>c. \<not> fts_special c) w" if "w \<in> set (ws_fields query)" for w
    using fields_no_ws [OF that] by (intro trim_ws_id) (auto simp: list_all_iff)
  then show ?thesis unfolding fts_terms_def by (metis (mono_tags, lifting) map_cong)
qed

section \<open>Properties\<close>

text \<open>What reaches FTS5 is empty or a disjunction of quoted phrases: the words of the query with FTS5's
  operators removed, none of them empty, none holding a quote, an operator or white space, so a
  user's query is never read as FTS5 syntax.\<close>

theorem sanitize_fts_query_safe:
  "\<exists>ts. ts = filter (\<lambda>t. t \<noteq> []) (map (filter (\<lambda>c. \<not> fts_special c)) (ws_fields query))
    \<and> list_all (\<lambda>t. t \<noteq> [] \<and> list_all (\<lambda>c. \<not> fts_special c \<and> \<not> is_ws c) t) ts
    \<and> sanitize_fts_query query = join_with '' OR '' (map quoted ts)"
proof (intro exI conjI)
  show "fts_terms query = filter (\<lambda>t. t \<noteq> []) (map (filter (\<lambda>c. \<not> fts_special c)) (ws_fields query))"
    by (rule fts_terms_eq)
  show "list_all (\<lambda>t. t \<noteq> [] \<and> list_all (\<lambda>c. \<not> fts_special c \<and> \<not> is_ws c) t) (fts_terms query)"
    unfolding fts_terms_eq using fields_no_ws [of _ query] by (auto simp: list_all_iff)
  show "sanitize_fts_query query = join_with '' OR '' (map quoted (fts_terms query))"
    by (simp add: sanitize_fts_query_def)
qed

text \<open>A bulk write leaves a store in order: whatever store operation runs between the two hooks,
  afterwards the triggers are installed and the full-text index mirrors the chunks.\<close>

theorem bulk_write_cycle_fresh:
  assumes "store_ok db" and "keeps f"
  shows "\<exists>db1 db2. on_bulk_write_begin db = (Inr (), db1) \<and> on_bulk_write_end (f db1) = (Inr (), db2)
    \<and> store_ok db2 \<and> fts_fresh db2 \<and> db_fts_triggers db2 \<and> db_chunks db2 = db_chunks (f db1)"
proof -
  let ?db1 = "db\<lparr>db_fts_triggers := False\<rparr>"
  have "store_ok ?db1" using assms(1) by (simp add: store_ok_def)
  then have "db_inv (f ?db1)" using keepsD [OF assms(2)] by (auto simp: store_ok_def)
  then show ?thesis
    by (auto simp: on_bulk_write_begin_def disable_eq bulk_end_eq store_ok_def fts_fresh_def)
qed

text \<open>The hypotheses hold for the small database and the deletion of a file.\<close>

theorem bulk_write_cycle_fresh_witness:
  "\<exists>db1 db2. on_bulk_write_begin sample_db = (Inr (), db1) \<and> on_bulk_write_end (drop_files {1} db1) = (Inr (), db2)
    \<and> store_ok db2 \<and> fts_fresh db2 \<and> db_fts_triggers db2 \<and> db_chunks db2 = db_chunks (drop_files {1} db1)"
  using bulk_write_cycle_fresh [OF sample_db_ok(1) keeps_drop_files [of "\<lambda>_. {1}"]] .

text \<open>Startup recovery installs the triggers and changes nothing else: the staleness test compares the
  chunk count with itself, so an index left behind by an interrupted bulk write is not rebuilt.\<close>

theorem on_startup_only_triggers:
  "on_startup db = (Inr (), db\<lparr>db_fts_triggers := True\<rparr>)"
  by (simp add: on_startup_def tx_bind_def ensure_fts_triggers_def with_write_tx_def is_fts_stale_def count_chunks_fts_def)

end
