(* ===== verification/Sqlite_Diff.thy ===== *)
theory Sqlite_Diff
  imports Sqlite_Store
begin

text \<open>
  \<open>internal/storage/sqlite/diff.go\<close>: the log of changes to files and symbols, and the change
  scores the ranker uses. Time stamps are the strings the database keeps; \<open>now\<close> is the column's
  default, \<open>since\<close> the formatted lower bound of a query. \<open>time.Parse\<close> is the argument \<open>parse\<close>,
  which gives nanoseconds. A query without a limit, or with a limit that is not positive,
  returns every row.
\<close>

section \<open>Recording\<close>

definition insert_diff_log :: "string \<Rightarrow> diff_log_entry \<Rightarrow> int tx" where
  "insert_diff_log now entry db =
     (if diff_check entry \<and> dl_FileID entry \<in> file_ids db then
        let i = db_diffs_seq db + 1 in
        (Inr i, db\<lparr>db_diffs := db_diffs db @ [entry\<lparr>dl_ID := i, dl_Timestamp := now\<rparr>], db_diffs_seq := i\<rparr>)
      else (Inl (ErrWrap ''insert diff_log'' constraint_err), db))"

definition null_int :: "int \<Rightarrow> int option" where
  "null_int i = (if i = 0 then None else Some i)"

definition insert_diff_symbol :: "int \<Rightarrow> diff_symbol_entry \<Rightarrow> unit tx" where
  "insert_diff_symbol diffID ds db =
     (let i = db_diffsyms_seq db + 1;
          row = \<lparr>dy_ID = i, dy_DiffID = diffID, dy_SymbolID = null_int (ds_SymbolID ds),
                 dy_SymbolName = ds_SymbolName ds, dy_ChangeType = ds_ChangeType ds, dy_ChunkID = null_int (ds_ChunkID ds)\<rparr>
      in if diff_symbol_check row \<and> diffID \<in> diff_ids db \<and> ref_ok (symbol_ids db) (dy_SymbolID row)
            \<and> ref_ok (chunk_ids db) (dy_ChunkID row)
         then (Inr (), db\<lparr>db_diffsyms := db_diffsyms db @ [row], db_diffsyms_seq := i\<rparr>)
         else (Inl constraint_err, db))"

fun insert_diff_symbols :: "int \<Rightarrow> diff_symbol_entry list \<Rightarrow> unit tx" where
  "insert_diff_symbols diffID [] db = (Inr (), db)"
| "insert_diff_symbols diffID (ds # rest) db =
     (case insert_diff_symbol diffID ds db of
        (Inl e, db1) \<Rightarrow> (Inl (ErrWrap ''insert diff_symbol'' e), db1)
      | (Inr _, db1) \<Rightarrow> insert_diff_symbols diffID rest db1)"

section \<open>Queries\<close>

text \<open>\<open>ORDER BY timestamp DESC\<close>; equal time stamps keep their order.\<close>

definition newest_first :: "('a \<Rightarrow> string) \<Rightarrow> 'a list \<Rightarrow> 'a list" where
  "newest_first ts rows = rev (sort_key ts (rev rows))"

definition get_recent_diffs :: "recent_diffs_input \<Rightarrow> sql_db \<Rightarrow> diff_log_entry list" where
  "get_recent_diffs input db =
     (let rows = (if rd_FileID input \<noteq> 0
                  then filter (\<lambda>d. dl_FileID d = rd_FileID input \<and> rd_Since input \<le> dl_Timestamp d) (db_diffs db)
                  else filter (\<lambda>d. rd_Since input \<le> dl_Timestamp d) (db_diffs db));
          sorted = newest_first dl_Timestamp rows
      in if rd_Limit input > 0 then sql_limit (rd_Limit input) sorted else sorted)"

definition int_or_zero :: "int option \<Rightarrow> int" where
  "int_or_zero r = (case r of Some i \<Rightarrow> i | None \<Rightarrow> 0)"

definition get_diff_symbols :: "int \<Rightarrow> sql_db \<Rightarrow> diff_symbol_entry list" where
  "get_diff_symbols diffID db =
     map (\<lambda>d. \<lparr>ds_SymbolName = dy_SymbolName d, ds_SymbolID = int_or_zero (dy_SymbolID d),
               ds_ChangeType = dy_ChangeType d, ds_ChunkID = int_or_zero (dy_ChunkID d)\<rparr>)
       (filter (\<lambda>d. dy_DiffID d = diffID) (db_diffsyms db))"

section \<open>Change scores\<close>

definition ns_per_hour :: real where "ns_per_hour = 3600000000000"

definition score_row :: "(string \<Rightarrow> int option) \<Rightarrow> int \<Rightarrow> diff_log_entry \<Rightarrow> real" where
  "score_row parse now dl =
     (case parse (dl_Timestamp dl) of
        None \<Rightarrow> 0
      | Some t \<Rightarrow>
          let hours = real_of_int (now - t) / ns_per_hour;
              magnitude = real_of_int (dl_LinesAdded dl + dl_LinesRemoved dl)
          in exp (- 0.05 * hours) * min (magnitude / 50) 1)"

text \<open>Rows newest first; the first row of a chunk with a positive score decides.\<close>

fun add_scores :: "(diff_log_entry \<Rightarrow> real) \<Rightarrow> (int \<times> diff_log_entry) list \<Rightarrow> (int \<times> real) list \<Rightarrow> (int \<times> real) list" where
  "add_scores score [] scores = scores"
| "add_scores score ((chunkID, dl) # rows) scores =
     (if map_of scores chunkID \<noteq> None then add_scores score rows scores
      else if score dl > 0 then add_scores score rows (AList.update chunkID (score dl) scores)
      else add_scores score rows scores)"

definition symbol_level_rows :: "int list \<Rightarrow> sql_db \<Rightarrow> (int \<times> diff_log_entry) list" where
  "symbol_level_rows ids db =
     newest_first (\<lambda>(i, dl). dl_Timestamp dl) (concat (map (\<lambda>ds.
       case dy_ChunkID ds of
         Some c \<Rightarrow> if c \<in> set ids then map (Pair c) (filter (\<lambda>dl. dl_ID dl = dy_DiffID ds) (db_diffs db)) else []
       | None \<Rightarrow> []) (db_diffsyms db)))"

definition file_level_rows :: "int list \<Rightarrow> sql_db \<Rightarrow> (int \<times> diff_log_entry) list" where
  "file_level_rows ids db =
     newest_first (\<lambda>(i, dl). dl_Timestamp dl) (concat (map (\<lambda>c.
       map (Pair (cr_ID c)) (filter (\<lambda>dl. dl_FileID dl = cr_FileID c) (db_diffs db)))
       (filter (\<lambda>c. cr_ID c \<in> set ids) (db_chunks db))))"

definition compute_change_scores :: "(string \<Rightarrow> int option) \<Rightarrow> int \<Rightarrow> int list \<Rightarrow> sql_db \<Rightarrow> (int \<times> real) list" where
  "compute_change_scores parse now chunkIDs db =
     (if chunkIDs = [] then []
      else
        let score = score_row parse now;
            scores = add_scores score (symbol_level_rows chunkIDs db) [];
            missing = filter (\<lambda>i. map_of scores i = None) chunkIDs
        in if missing \<noteq> [] then add_scores score (file_level_rows missing db) scores else scores)"

section \<open>The store stays in order\<close>

lemma diff_snoc_inv:
  assumes inv: "db_inv db" and "diff_check d" "dl_FileID d \<in> file_ids db"
  shows "db_inv (db\<lparr>db_diffs := db_diffs db @ [d\<lparr>dl_ID := db_diffs_seq db + 1, dl_Timestamp := t\<rparr>], db_diffs_seq := db_diffs_seq db + 1\<rparr>)"
proof -
  have "diff_check (d\<lparr>dl_ID := i, dl_Timestamp := t\<rparr>)" for i using assms(2) by (simp add: diff_check_def)
  then show ?thesis
    using assms wf_ids_snoc [of "map dl_ID (db_diffs db)" "db_diffs_seq db"] by (simp add: db_inv_def)
qed

lemma keeps_insert_diff_log: "tx_keeps (insert_diff_log now entry)"
proof (rule keepsI)
  fix db
  show "db_inv (snd (insert_diff_log now entry db))" if "db_inv db"
    using that diff_snoc_inv [OF that] by (simp add: insert_diff_log_def Let_def)
qed (simp_all add: insert_diff_log_def Let_def fts_fresh_def)

lemma keeps_insert_diff_symbol: "tx_keeps (insert_diff_symbol diffID ds)"
proof (rule keepsI)
  fix db
  show "db_inv (snd (insert_diff_symbol diffID ds db))" if "db_inv db"
    using that wf_ids_snoc [of "map dy_ID (db_diffsyms db)" "db_diffsyms_seq db"]
    by (simp add: insert_diff_symbol_def Let_def db_inv_def)
qed (simp_all add: insert_diff_symbol_def Let_def fts_fresh_def)

lemma keeps_insert_diff_symbols: "tx_keeps (insert_diff_symbols diffID dss)"
proof (induction dss)
  case (Cons ds dss)
  have "insert_diff_symbols diffID (ds # dss) =
      tx_bind (tx_wrap ''insert diff_symbol'' (insert_diff_symbol diffID ds)) (\<lambda>_. insert_diff_symbols diffID dss)"
    by (auto simp: fun_eq_iff tx_bind_def tx_wrap_def split: prod.splits sum.splits)
  with Cons show ?case by (simp add: keeps_bind keeps_tx_wrap keeps_insert_diff_symbol)
qed (simp add: keeps_const)

section \<open>Scores\<close>

lemma set_newest_first [simp]: "set (newest_first ts rows) = set rows"
  by (simp add: newest_first_def)

lemma score_row_unit:
  assumes "\<And>t. parse (dl_Timestamp dl) = Some t \<Longrightarrow> t \<le> now"
  shows "score_row parse now dl \<le> 1"
proof (cases "parse (dl_Timestamp dl)")
  case (Some t)
  with assms have "0 \<le> real_of_int (now - t) / ns_per_hour" by (simp add: ns_per_hour_def)
  then have "exp (- 0.05 * (real_of_int (now - t) / ns_per_hour)) \<le> 1" by simp
  then have "exp (- 0.05 * (real_of_int (now - t) / ns_per_hour)) * min m 1 \<le> 1" for m :: real
    by (cases "0 \<le> min m 1") (auto intro: mult_le_one simp: mult_nonneg_nonpos order.trans [of _ 0])
  then show ?thesis by (simp only: score_row_def Let_def Some option.case)
qed (simp add: score_row_def)

lemma add_scores_entries:
  "map_of (add_scores score rows scores) i = Some s \<Longrightarrow>
   map_of scores i = Some s \<or> (0 < s \<and> (\<exists>dl. (i, dl) \<in> set rows \<and> s = score dl))"
proof (induction score rows scores rule: add_scores.induct)
  case (2 score chunkID dl rows scores)
  then show ?case
    by (auto simp: update_conv' split: if_splits)
qed simp

lemma symbol_level_rows_sound:
  assumes "(i, dl) \<in> set (symbol_level_rows ids db)"
  shows "i \<in> set ids \<and> dl \<in> set (db_diffs db)"
  using assms by (auto simp: symbol_level_rows_def split: option.splits if_splits)

lemma file_level_rows_sound:
  assumes "(i, dl) \<in> set (file_level_rows ids db)"
  shows "i \<in> set ids \<and> dl \<in> set (db_diffs db)"
  using assms by (auto simp: file_level_rows_def)

lemma change_scores_entries:
  assumes "map_of (compute_change_scores parse now ids db) i = Some s"
  shows "0 < s \<and> i \<in> set ids \<and> (\<exists>dl \<in> set (db_diffs db). s = score_row parse now dl)"
proof -
  define score where "score = score_row parse now"
  define scores where "scores = add_scores score (symbol_level_rows ids db) []"
  have sym: "0 < s \<and> i \<in> set ids \<and> (\<exists>dl \<in> set (db_diffs db). s = score dl)" if "map_of scores i = Some s"
    using add_scores_entries [OF that [unfolded scores_def]] symbol_level_rows_sound [of i _ ids db] by auto
  have by_file: "0 < s \<and> i \<in> set ids \<and> (\<exists>dl \<in> set (db_diffs db). s = score dl)"
    if "map_of (add_scores score (file_level_rows (filter P ids) db) scores) i = Some s" for P
    using add_scores_entries [OF that] sym file_level_rows_sound [of i _ "filter P ids" db] by auto
  from assms sym by_file show ?thesis
    by (auto simp: compute_change_scores_def Let_def score_def scores_def split: if_splits)
qed

section \<open>Properties\<close>

text \<open>Change scores are what the ranker expects: only requested chunks have one, each is the score of a
  recorded diff, and as long as no diff is stamped in the future it lies above 0 and at most at 1.\<close>

theorem change_scores_unit:
  assumes "\<And>d t. d \<in> set (db_diffs db) \<Longrightarrow> parse (dl_Timestamp d) = Some t \<Longrightarrow> t \<le> now"
    and "map_of (compute_change_scores parse now ids db) i = Some s"
  shows "0 < s \<and> s \<le> 1 \<and> i \<in> set ids"
  using change_scores_entries [OF assms(2)] score_row_unit [of parse _ now] assms(1) by blast

text \<open>The hypotheses hold for the small database an hour after its only change.\<close>

theorem change_scores_unit_witness:
  "\<exists>s. map_of (compute_change_scores (\<lambda>_. Some 0) 3600000000000 [1, 3] sample_db) 1 = Some s \<and> 0 < s \<and> s \<le> 1
     \<and> (1 :: int) \<in> set [1, 3]"
proof -
  have eq: "map_of (compute_change_scores (\<lambda>_. Some 0) 3600000000000 [1, 3] sample_db) 1 = Some (exp (- 0.05) * 0.3)"
    by (simp add: compute_change_scores_def symbol_level_rows_def file_level_rows_def newest_first_def sample_defs
        score_row_def ns_per_hour_def)
  have "0 < exp (- 0.05) * (0.3 :: real) \<and> exp (- 0.05) * (0.3 :: real) \<le> 1 \<and> (1 :: int) \<in> set [1, 3]"
    by (rule change_scores_unit [OF _ eq]) simp
  with eq show ?thesis by blast
qed

end
