(* ===== verification/Sqlite_Query.thy ===== *)
theory Sqlite_Query
  imports Sqlite_Graph Sqlite_Fts Sqlite_Diff Retrieval Ranker
begin

text \<open>
  The SQLite store as the query engine sees it: the record of query functions the engine reads
  the index through, filled in with the queries of \<open>metadata.go\<close>, \<open>graph.go\<close>, \<open>fts.go\<close> and
  \<open>diff.go\<close>; the step relation of everything that writes to the database; and the contracts of
  the retrieval and ranking theories, discharged on this store.
\<close>

section \<open>The engine's view\<close>

definition sqlite_batch :: "sql_db \<Rightarrow> batch_store" where
  "sqlite_batch db =
     \<lparr>bs_BatchGetSymbolIDsForChunks = (\<lambda>ids. Inr (batch_get_symbol_ids_for_chunks ids db)),
      bs_BatchNeighbors = (\<lambda>ids d. Inr (batch_neighbors ids d db)),
      bs_BatchGetChunkIDsForSymbols = (\<lambda>ids. Inr (batch_get_chunk_ids_for_symbols ids db)),
      bs_BatchHydrateChunks = (\<lambda>ids. Inr (batch_hydrate_chunks ids db)),
      bs_BatchGetSiblingChunks = (\<lambda>keys. Inr (batch_get_sibling_chunks keys db))\<rparr>"

definition sqlite_store :: "fts_match \<Rightarrow> (string \<Rightarrow> int option) \<Rightarrow> int \<Rightarrow> sql_db \<Rightarrow> metadata_store" where
  "sqlite_store fts parse now db =
     \<lparr>ms_GetChunkByID = (\<lambda>i. Inr (get_chunk_by_id i db)), ms_GetSymbolByName = (\<lambda>n. Inr (get_symbol_by_name n db)),
      ms_GetSymbolByID = (\<lambda>i. Inr (get_symbol_by_id i db)), ms_GetFilePathByID = (\<lambda>i. get_file_path_by_id i db),
      ms_GetFileIsTestByID = (\<lambda>i. get_file_is_test_by_id i db), ms_GetIndexStats = Inr (get_index_stats db),
      ms_KeywordSearch = (\<lambda>q n. Inr (keyword_search_fts fts q n db)),
      ms_ComputeChangeScores = (\<lambda>ids. Inr (compute_change_scores parse now ids db)),
      ms_Neighbors = (\<lambda>i d dir. neighbors i d dir db), ms_GetSiblingChunks = (\<lambda>f n k. Inr (get_sibling_chunks f n k db)),
      ms_PendingEdgeCallers = (\<lambda>n. Inr (pending_edge_callers n db)),
      ms_PendingEdgeCallersWithKind = (\<lambda>n. Inr (pending_edge_callers_with_kind n db)),
      ms_GetRecentDiffs = (\<lambda>input. Inr (get_recent_diffs input db)),
      ms_GetDiffSymbols = (\<lambda>i. Inr (get_diff_symbols i db)), ms_batch = Some (sqlite_batch db)\<rparr>"

section \<open>Everything that writes\<close>

text \<open>
  One rule per operation of the store; a transaction of the daemon is any sequence of the
  statements below, run under \<open>WithWriteTx\<close>. Startup recovery is a step only of a database whose
  triggers are installed, that is, when no bulk write was interrupted.
\<close>

datatype tx_stmt =
    SUpsertFile string file_record
  | SInsertEdges int "edge_record list" "string \<rightharpoonup> int" string
  | SResolvePending "string list"
  | SDeleteEdges int
  | SInsertDiffLog string diff_log_entry
  | SInsertDiffSymbols int "diff_symbol_entry list"

fun exec_stmt :: "tx_stmt \<Rightarrow> unit tx" where
  "exec_stmt (SUpsertFile now f) = tx_bind (upsert_file_tx now f) (\<lambda>_. tx_return ())"
| "exec_stmt (SInsertEdges fid es ids lang) = insert_edges fid es ids lang"
| "exec_stmt (SResolvePending names) = resolve_pending_edges names"
| "exec_stmt (SDeleteEdges fid) = delete_edges_by_file fid"
| "exec_stmt (SInsertDiffLog now e) = tx_bind (insert_diff_log now e) (\<lambda>_. tx_return ())"
| "exec_stmt (SInsertDiffSymbols i ds) = insert_diff_symbols i ds"

fun exec_stmts :: "tx_stmt list \<Rightarrow> unit tx" where
  "exec_stmts [] = tx_return ()"
| "exec_stmts (s # ss) = tx_bind (exec_stmt s) (\<lambda>_. exec_stmts ss)"

text \<open>The operations of the store, in any order and with any arguments; \<open>OnStartup\<close> runs on every start. The
  argument \<open>broken\<close> tells whether a start has found the triggers dropped, that is a bulk write interrupted,
  since the last bulk write that was finished.\<close>

inductive sql_step :: "sql_db \<Rightarrow> sql_db \<Rightarrow> bool" where
  step_upsert: "sql_step db (snd (upsert_file now f db))"
| step_delete_file: "sql_step db (snd (delete_file i db))"
| step_delete_path: "sql_step db (snd (delete_file_by_path path db))"
| step_parents: "sql_step db (snd (update_chunk_parents ups db))"
| step_insert_chunks: "sql_step db (snd (insert_chunks fid cs db))"
| step_delete_chunks: "sql_step db (snd (delete_chunks_by_file fid db))"
| step_insert_symbols: "sql_step db (snd (insert_symbols fid ss db))"
| step_delete_symbols: "sql_step db (snd (delete_symbols_by_file fid db))"
| step_mark: "sql_step db (snd (mark_chunks_embedded ids db))"
| step_reset: "sql_step db (snd (reset_embedded_flags ids db))"
| step_reset_all: "sql_step db (snd (reset_all_embedded_flags db))"
| step_tool_calls: "sql_step db (snd (record_tool_calls rs db))"
| step_config: "sql_step db (snd (set_config k v db))"
| step_tx: "sql_step db (snd (with_write_tx (exec_stmts ss) db))"
| step_bulk_begin: "sql_step db (snd (on_bulk_write_begin db))"

inductive sql_reach :: "bool \<Rightarrow> sql_db \<Rightarrow> bool" where
  reach_empty: "sql_reach False empty_db"
| reach_step: "sql_reach broken db \<Longrightarrow> sql_step db db' \<Longrightarrow> sql_reach broken db'"
| reach_bulk_end: "sql_reach broken db \<Longrightarrow> sql_reach False (snd (on_bulk_write_end db))"
| reach_startup: "sql_reach broken db \<Longrightarrow> sql_reach (broken \<or> \<not> db_fts_triggers db) (snd (on_startup db))"

lemma inv_at_bind:
  "(\<And>db. inv_at u db \<Longrightarrow> inv_at u (snd (m db))) \<Longrightarrow> (\<And>a db. inv_at u db \<Longrightarrow> inv_at u (snd (g a db))) \<Longrightarrow>
   inv_at u db \<Longrightarrow> inv_at u (snd (tx_bind m g db))"
  by (auto simp: tx_bind_def split: prod.splits sum.splits) (metis snd_conv)+

lemma inv_at_tx:
  "(\<And>db. inv_at u db \<Longrightarrow> inv_at u (snd (m db))) \<Longrightarrow> inv_at u db \<Longrightarrow> inv_at u (snd (with_write_tx m db))"
  by (auto simp: with_write_tx_def split: prod.splits sum.splits) (metis snd_conv)+

lemmas keeps_atD = conjunct1 [OF keeps_at]

lemma inv_at_exec_stmt: "inv_at u db \<Longrightarrow> inv_at u (snd (exec_stmt s db))"
proof (cases s)
  case (SUpsertFile now f)
  assume "inv_at u db"
  then show ?thesis
    unfolding SUpsertFile exec_stmt.simps
    by (rule keeps_atD [OF keeps_bind [OF keeps_upsert_file_tx keeps_return]])
next
  case (SInsertDiffLog now e)
  assume "inv_at u db"
  then show ?thesis
    unfolding SInsertDiffLog exec_stmt.simps
    by (rule keeps_atD [OF keeps_bind [OF keeps_insert_diff_log keeps_return]])
qed (auto intro: keeps_atD [OF keeps_resolve_pending_edges] keeps_atD [OF keeps_insert_edges] keeps_atD [OF keeps_delete_edges_by_file]
      keeps_atD [OF keeps_insert_diff_symbols])

lemma inv_at_exec_stmts: "inv_at u db \<Longrightarrow> inv_at u (snd (exec_stmts ss db))"
proof (induction ss arbitrary: db)
  case Nil
  then show ?case by (simp add: tx_return_def)
next
  case (Cons s ss)
  show ?case
    unfolding exec_stmts.simps by (rule inv_at_bind [OF inv_at_exec_stmt Cons.IH Cons.prems])
qed

lemma inv_at_mark:
  assumes "inv_at u db"
  shows "inv_at u (snd (mark_chunks_embedded ids db))" "inv_at u (snd (reset_embedded_flags ids db))"
  using sq.mark_embedded_inv [of u db "db_fts_triggers db" ids] sq.reset_embedded_inv [of u db "db_fts_triggers db" ids] assms
  by (auto simp: mark_chunks_embedded_def reset_embedded_flags_def with_write_tx_def)

lemma inv_at_step: "sql_step db db' \<Longrightarrow> inv_at u db \<Longrightarrow> inv_at u db'"
proof (induction rule: sql_step.induct)
  case (step_tx db ss)
  then show ?case by (intro inv_at_tx inv_at_exec_stmts)
next
  case (step_bulk_begin db)
  then show ?case by (simp add: on_bulk_write_begin_def disable_eq inv_at_def)
next
  case (step_upsert db now f)
  then show ?case by (intro keeps_atD [OF keeps_with_write_tx [OF keeps_upsert_file_tx], folded upsert_file_def])
next
  case (step_parents db ups)
  then show ?case
    using keeps_atD [OF keeps_with_write_tx [OF keeps_set_parents]] by (auto simp: update_chunk_parents_def)
next
  case (step_tool_calls db rs)
  then show ?case
    by (simp add: record_tool_calls_def with_write_tx_def inv_at_def db_inv_def fts_fresh_def)
next
  case (step_config db k v)
  then show ?case
    by (simp add: set_config_def with_write_tx_def inv_at_def db_inv_def fts_fresh_def)
next
  case (step_delete_file db i)
  then show ?case
    using keeps_atD [OF keeps_drop_files [of "\<lambda>_. {i}"]] by (simp add: delete_file_def with_write_tx_def)
next
  case (step_delete_chunks db fid)
  then show ?case
    using keeps_atD [OF keeps_drop_chunks [of "\<lambda>db. cr_ID ` {c \<in> set (db_chunks db). cr_FileID c = fid}"]]
    by (simp add: delete_chunks_by_file_def with_write_tx_def)
next
  case (step_delete_symbols db fid)
  then show ?case
    using keeps_atD [OF keeps_drop_symbols [of "\<lambda>db. sy_ID ` {s \<in> set (db_symbols db). sy_FileID s = fid}"]]
    by (simp add: delete_symbols_by_file_def with_write_tx_def)
next
  case (step_insert_symbols db fid ss)
  then show ?case
    unfolding insert_symbols_def by (intro keeps_atD [OF keeps_with_write_tx [OF keeps_insert_symbol_rows]])
qed (auto intro: inv_at_mark keeps_atD [OF keeps_delete_file_by_path] keeps_atD [OF keeps_insert_chunks] keeps_atD [OF keeps_reset_all])

lemma reach_inv_at: "sql_reach broken db \<Longrightarrow> inv_at (\<not> broken) db"
proof (induction rule: sql_reach.induct)
  case reach_empty
  then show ?case using empty_store_ok by simp
next
  case (reach_step broken db db')
  then show ?case by (simp add: inv_at_step)
next
  case (reach_bulk_end broken db)
  then show ?case by (simp add: bulk_end_eq inv_at_def store_ok_def fts_fresh_def)
next
  case (reach_startup broken db)
  then show ?case by (auto simp: on_startup_only_triggers inv_at_def fts_fresh_def)
qed

lemma reach_store_ok: "sql_reach False db \<Longrightarrow> store_ok db"
  using reach_inv_at [of False db] by simp

section \<open>Batch queries against single queries\<close>

lemma chunk_find:
  assumes "db_inv db"
  shows "find (\<lambda>c. cr_ID c = i) (db_chunks db) = Some c \<longleftrightarrow> c \<in> set (db_chunks db) \<and> cr_ID c = i"
  using assms find_key_distinct [of cr_ID "db_chunks db" c]
  by (auto simp: db_inv_def dest: find_Some_set wf_ids_distinct)

lemma file_find:
  assumes "db_inv db"
  shows "find (\<lambda>f. fr_ID f = i) (db_files db) = Some f \<longleftrightarrow> f \<in> set (db_files db) \<and> fr_ID f = i"
  using assms find_key_distinct [of fr_ID "db_files db" f]
  by (auto simp: db_inv_def dest: find_Some_set wf_ids_distinct)

lemma symbol_find:
  assumes "db_inv db"
  shows "find (\<lambda>s. sy_ID s = i) (db_symbols db) = Some s \<longleftrightarrow> s \<in> set (db_symbols db) \<and> sy_ID s = i"
  using assms find_key_distinct [of sy_ID "db_symbols db" s]
  by (auto simp: db_inv_def dest: find_Some_set wf_ids_distinct)

lemma chunk_file:
  assumes "db_inv db" and "c \<in> set (db_chunks db)"
  obtains f where "f \<in> set (db_files db)" "fr_ID f = cr_FileID c" "find (\<lambda>f. fr_ID f = cr_FileID c) (db_files db) = Some f"
proof -
  from assms obtain f where "f \<in> set (db_files db)" "fr_ID f = cr_FileID c" by (auto simp: db_inv_def)
  with that file_find [OF assms(1)] show thesis by blast
qed

lemma in_batch_hydrate:
  "h \<in> set (batch_hydrate_chunks ids db) \<longleftrightarrow>
     (\<exists>c \<in> set (db_chunks db). cr_ID c \<in> set ids \<and> (\<exists>f \<in> set (db_files db). fr_ID f = cr_FileID c \<and> h = hydrate_row c f))"
proof -
  have "h \<in> set (concat (map (\<lambda>batch. join_files db (filter (\<lambda>c. cr_ID c \<in> set batch) (db_chunks db))) bs)) \<longleftrightarrow>
     (\<exists>c \<in> set (db_chunks db). cr_ID c \<in> (\<Union>b \<in> set bs. set b) \<and> (\<exists>f \<in> set (db_files db). fr_ID f = cr_FileID c \<and> h = hydrate_row c f))" for bs
    unfolding join_files_def by auto
  from this [of "batches chunk_batch_limit ids"] show ?thesis
    by (simp add: batch_hydrate_chunks_def set_batches chunk_batch_limit_def)
qed

lemma hydration_sqlite:
  assumes inv: "db_inv db" and c: "c \<in> set (db_chunks db)" and f: "f \<in> set (db_files db)" "fr_ID f = cr_FileID c"
  shows "hydration (sqlite_store fts parse now db) (cr_ID c) = Some (hydrate_row c f)"
proof -
  have "find (\<lambda>x. cr_ID x = cr_ID c) (db_chunks db) = Some c" using chunk_find [OF inv] c by blast
  moreover have "find (\<lambda>x. fr_ID x = cr_FileID c) (db_files db) = Some f" using file_find [OF inv] f by blast
  ultimately show ?thesis
    by (simp add: hydration_def sqlite_store_def get_chunk_by_id_def get_file_path_by_id_def get_file_is_test_by_id_def
        hydrate_row_def hydrated_from_chunk_def chunk_record.truncate_def)
qed

text \<open>The store honours the contract of hydration.\<close>

interpretation sqh: batch_hydration "sqlite_store fts parse now" sqlite_batch db_inv for fts parse now
proof (unfold_locales, goal_cases)
  case (1 db i)
  show ?case by (simp add: sqlite_store_def)
next
  case (2 db i c)
  then show ?case
    by (auto simp: sqlite_store_def get_chunk_by_id_def chunk_record.truncate_def dest!: find_Some_set)
next
  case (3 db i c)
  then obtain r where r: "r \<in> set (db_chunks db)" "cr_FileID c = cr_FileID r"
    by (auto simp: sqlite_store_def get_chunk_by_id_def chunk_record.truncate_def dest!: find_Some_set)
  from chunk_file [OF 3(1) r(1)] obtain f where "find (\<lambda>f. fr_ID f = cr_FileID r) (db_files db) = Some f" .
  then show ?case
    by (simp add: sqlite_store_def get_file_path_by_id_def get_file_is_test_by_id_def r(2))
next
  case (4 db ids)
  have "hydration (sqlite_store fts parse now db) (hc_ChunkID h) = Some h" if "h \<in> set (batch_hydrate_chunks ids db)" for h
    using that hydration_sqlite [OF 4] by (auto simp: in_batch_hydrate hydrate_row_def)
  moreover have "i \<in> hc_ChunkID ` set (batch_hydrate_chunks ids db)"
    if i: "i \<in> set ids" and h: "hydration (sqlite_store fts parse now db) i \<noteq> None" for i
  proof -
    from h obtain c where c: "c \<in> set (db_chunks db)" "cr_ID c = i"
      by (auto simp: hydration_def sqlite_store_def get_chunk_by_id_def split: option.splits dest!: find_Some_set)
    from chunk_file [OF 4 c(1)] obtain f where "f \<in> set (db_files db)" "fr_ID f = cr_FileID c" .
    with c i have "hydrate_row c f \<in> set (batch_hydrate_chunks ids db)" by (auto simp: in_batch_hydrate)
    with c(2) show ?thesis by (force simp: hydrate_row_def)
  qed
  ultimately show ?case by (auto simp: sqlite_batch_def)
qed

lemma map_of_dedup: "map_of (dedup_on fst seen xs) i = (if i \<in> seen then None else map_of xs i)"
  by (induction xs arbitrary: seen) auto

lemma map_of_fold_update:
  "map_of (fold (\<lambda>(k, v). AList.update k v) kvs acc) i = Some v \<Longrightarrow> (i, v) \<in> set kvs \<or> map_of acc i = Some v"
proof (induction kvs arbitrary: acc)
  case (Cons p kvs)
  obtain k w where p: "p = (k, w)" by (cases p)
  from Cons.IH [of "AList.update k w acc"] Cons.prems show ?case
    by (auto simp: p update_conv' split: if_splits)
qed simp

lemma dom_fold_update: "i \<in> fst ` set kvs \<Longrightarrow> map_of (fold (\<lambda>(k, v). AList.update k v) kvs acc) i \<noteq> None"
proof -
  have keep: "map_of acc i \<noteq> None \<Longrightarrow> map_of (fold (\<lambda>(k, v). AList.update k v) kvs acc) i \<noteq> None" for kvs acc
    by (induction kvs arbitrary: acc) (auto simp: update_conv')
  assume "i \<in> fst ` set kvs"
  then show ?thesis
  proof (induction kvs arbitrary: acc)
    case (Cons p kvs)
    obtain k w where p: "p = (k, w)" by (cases p)
    show ?case
    proof (cases "i = k")
      case True
      then show ?thesis using keep [of "AList.update k w acc" kvs] by (simp add: p update_conv')
    next
      case False
      with Cons show ?thesis by (simp add: p)
    qed
  qed simp
qed

lemma map_of_fold_neighbors:
  "map_of (fold (\<lambda>i. AList.update i (g i)) ids acc) s = (if s \<in> set ids then Some (g s) else map_of acc s)"
  by (induction ids arbitrary: acc) (auto simp: update_conv')

lemma sort_key_two:
  "sort_key (\<lambda>x. if P x then 0 else 1 :: nat) xs = filter P xs @ filter (\<lambda>x. \<not> P x) xs"
proof (rule properties_for_sort_key)
  show "mset (filter P xs @ filter (\<lambda>x. \<not> P x) xs) = mset xs" by simp
  show "sorted (map (\<lambda>x. if P x then 0 else 1 :: nat) (filter P xs @ filter (\<lambda>x. \<not> P x) xs))"
    by (auto simp: sorted_append intro: sorted_wrt_mono_rel [of _ "\<lambda>_ _. True"] simp: sorted_wrt_map sorted_wrt_true)
next
  fix k assume "k \<in> set (filter P xs @ filter (\<lambda>x. \<not> P x) xs)"
  show "filter (\<lambda>x. (if P k then 0 else 1 :: nat) = (if P x then 0 else 1)) (filter P xs @ filter (\<lambda>x. \<not> P x) xs)
      = filter (\<lambda>x. (if P k then 0 else 1 :: nat) = (if P x then 0 else 1)) xs"
    by (cases "P k") (auto simp: filter_filter intro: filter_cong)
qed

lemma sort_by_id:
  assumes "wf_ids (map f xs) n" shows "sort_key f (filter P xs) = filter P xs"
proof -
  from wf_ids_filter [OF assms] have "sorted (map f (filter P xs))"
    by (auto simp: wf_ids_def intro: strict_sorted_imp_sorted)
  then show ?thesis by (rule sort_key_id_if_sorted)
qed

text \<open>The first row of a chunk names the symbol the legacy lookup finds.\<close>

lemma symbol_rows_first:
  assumes inv: "db_inv db" and c: "c \<in> set (db_chunks db)" and name: "cr_SymbolName c \<noteq> []"
  shows "map_of (symbol_rows_for_chunk db c) (cr_ID c) =
    (if lookup_symbol_for_chunk (sqlite_store fts parse now db) (cr_ID c) = 0 then None
     else Some (lookup_symbol_for_chunk (sqlite_store fts parse now db) (cr_ID c)))"
proof -
  define ss where "ss = filter (\<lambda>s. sy_Name s = cr_SymbolName c) (db_symbols db)"
  let ?P = "\<lambda>s. sy_FileID s = cr_FileID c"
  have find: "find (\<lambda>x. cr_ID x = cr_ID c) (db_chunks db) = Some c" using chunk_find [OF inv] c by blast
  have nz: "sy_ID s \<noteq> 0" if "s \<in> set ss" for s using inv that by (auto simp: ss_def db_inv_def wf_ids_def)
  have "sort_key sy_ID ss = ss"
    unfolding ss_def using inv by (intro sort_by_id [of _ _ "db_symbols_seq db"]) (simp add: db_inv_def)
  then have rows: "symbol_rows_for_chunk db c = map (\<lambda>s. (cr_ID c, sy_ID s)) (filter ?P ss @ filter (\<lambda>s. \<not> ?P s) ss)"
    unfolding symbol_rows_for_chunk_def ss_def [symmetric] by (simp only: sort_key_two)
  have look: "lookup_symbol_for_chunk (sqlite_store fts parse now db) (cr_ID c)
      = (case ss of [] \<Rightarrow> 0 | s # zs \<Rightarrow> (case find ?P (s # zs) of Some x \<Rightarrow> sy_ID x | None \<Rightarrow> sy_ID s))"
    using name by (simp add: lookup_symbol_for_chunk_def sqlite_store_def get_chunk_by_id_def find get_symbol_by_name_def
        chunk_record.truncate_def ss_def split: list.split)
  show ?thesis
  proof (cases ss)
    case Nil
    then show ?thesis using rows look by simp
  next
    case (Cons s zs)
    show ?thesis
    proof (cases "find ?P ss")
      case None
      then have "\<forall>s \<in> set ss. \<not> ?P s" by (simp add: find_None_set)
      then have "filter ?P ss = []" "filter (\<lambda>s. \<not> ?P s) ss = ss" by (auto simp: filter_empty_conv)
      then show ?thesis using None look nz [of s] unfolding rows Cons by simp
    next
      case (Some x)
      have "filter ?P ys = x # filter ?P (tl (dropWhile (\<lambda>s. \<not> ?P s) ys))" if "find ?P ys = Some x" for ys
        using that by (induction ys) (auto split: if_splits)
      from this [OF Some] obtain ws where ws: "filter ?P ss = x # ws" by blast
      from Some have "x \<in> set ss" by (rule find_Some_set [THEN conjunct1])
      then show ?thesis using Some look nz [of x] Cons unfolding rows ws by simp
    qed
  qed
qed

lemma symbol_rows_keys: "p \<in> set (symbol_rows_for_chunk db c) \<Longrightarrow> fst p = cr_ID c"
  by (auto simp: symbol_rows_for_chunk_def)

lemma map_of_concat:
  "(\<And>ys. ys \<in> set xss \<Longrightarrow> map_of ys i = None \<or> map_of ys i = v) \<Longrightarrow>
   (v \<noteq> None \<Longrightarrow> \<exists>ys \<in> set xss. map_of ys i = v) \<Longrightarrow> map_of (concat xss) i = v"
proof (induction xss)
  case (Cons xs xss)
  show ?case
  proof (cases "map_of xs i")
    case None
    with Cons show ?thesis by (auto simp: map_add_def split: option.splits)
  next
    case (Some w)
    with Cons.prems(1) [of xs] show ?thesis by (auto simp: map_add_def)
  qed
qed (cases v, auto)

lemma batch_symbol_ids:
  assumes inv: "db_inv db" and i: "i \<in> set ids"
  shows "map_of (batch_get_symbol_ids_for_chunks ids db) i =
    (if lookup_symbol_for_chunk (sqlite_store fts parse now db) i = 0 then None
     else Some (lookup_symbol_for_chunk (sqlite_store fts parse now db) i))"
proof -
  define rows where "rows = (\<lambda>batch. concat (map (symbol_rows_for_chunk db)
         (sort_key cr_ID (filter (\<lambda>c. cr_ID c \<in> set batch \<and> cr_SymbolName c \<noteq> []) (db_chunks db)))))"
  have batch: "map_of (batch_get_symbol_ids_for_chunks ids db) i = map_of (concat (map rows (batches chunk_batch_limit ids))) i"
    by (simp add: batch_get_symbol_ids_for_chunks_def map_of_dedup rows_def)
  show ?thesis
  proof (cases "\<exists>c \<in> set (db_chunks db). cr_ID c = i \<and> cr_SymbolName c \<noteq> []")
    case True
    then obtain c where c: "c \<in> set (db_chunks db)" "cr_ID c = i" "cr_SymbolName c \<noteq> []" by blast
    define v where "v = map_of (symbol_rows_for_chunk db c) i"
    have row: "map_of (symbol_rows_for_chunk db d) i = (if d = c then v else None)"
      if "d \<in> set (db_chunks db)" for d
    proof (cases "d = c")
      case False
      have "distinct (map cr_ID (db_chunks db))" using inv by (auto simp: db_inv_def dest: wf_ids_distinct)
      with False that c have "cr_ID d \<noteq> i" by (auto simp: distinct_map inj_on_def)
      then show ?thesis using False symbol_rows_keys [of _ db d] by (auto simp: map_of_eq_None_iff)
    qed (simp add: v_def)
    have one: "map_of (rows b) i = (if i \<in> set b then v else None)" for b
      unfolding rows_def
      by (rule map_of_concat) (use row c in \<open>auto split: if_splits\<close>)
    have "i \<in> (\<Union>b \<in> set (batches chunk_batch_limit ids). set b)" using i by (simp add: set_batches chunk_batch_limit_def)
    then have "map_of (concat (map rows (batches chunk_batch_limit ids))) i = v"
      by (intro map_of_concat) (auto simp: one)
    then show ?thesis using batch symbol_rows_first [OF inv c(1,3), of fts parse now] unfolding c(2) v_def by (simp only:)
  next
    case False
    have "map_of (symbol_rows_for_chunk db d) i = None" if "d \<in> set (db_chunks db)" "cr_SymbolName d \<noteq> []" for d
      using that False symbol_rows_keys [of _ db d] by (auto simp: map_of_eq_None_iff)
    then have "map_of (rows b) i = None" for b
      unfolding rows_def by (intro map_of_concat) auto
    then have "map_of (concat (map rows (batches chunk_batch_limit ids))) i = None"
      by (intro map_of_concat) auto
    moreover have "lookup_symbol_for_chunk (sqlite_store fts parse now db) i = 0"
      using False by (auto simp: lookup_symbol_for_chunk_def sqlite_store_def get_chunk_by_id_def chunk_record.truncate_def
          split: option.splits dest!: find_Some_set)
    ultimately show ?thesis using batch by simp
  qed
qed

lemma batch_symbol_keys: "fst ` set (batch_get_symbol_ids_for_chunks ids db) \<subseteq> set ids"
proof -
  define rows where "rows = (\<lambda>batch. concat (map (symbol_rows_for_chunk db)
         (sort_key cr_ID (filter (\<lambda>c. cr_ID c \<in> set batch \<and> cr_SymbolName c \<noteq> []) (db_chunks db)))))"
  have "fst ` set (rows b) \<subseteq> set b" for b
    by (auto simp: rows_def dest!: symbol_rows_keys)
  then have "fst ` set (concat (map rows (batches chunk_batch_limit ids))) \<subseteq> (\<Union>b \<in> set (batches chunk_batch_limit ids). set b)"
    by fastforce
  also have "\<dots> = set ids" by (rule set_batches) (simp add: chunk_batch_limit_def)
  finally have keys: "fst ` set (concat (map rows (batches chunk_batch_limit ids))) \<subseteq> set ids" .
  have "batch_get_symbol_ids_for_chunks ids db = dedup_on fst {} (concat (map rows (batches chunk_batch_limit ids)))"
    by (simp only: batch_get_symbol_ids_for_chunks_def rows_def)
  with keys dedup_on_subset [of fst "{}" "concat (map rows (batches chunk_batch_limit ids))"] show ?thesis by (metis image_mono subset_trans)
qed

lemma batch_chunk_ids:
  assumes inv: "db_inv db" and s: "s \<in> set syms"
  shows "map_of (batch_get_chunk_ids_for_symbols syms db) s = map_option sy_ChunkID (get_symbol_by_id s db)"
proof -
  define kvs where "kvs = concat (map (\<lambda>batch. map (\<lambda>s. (sy_ID s, sy_ChunkID s)) (filter (\<lambda>s. sy_ID s \<in> set batch) (db_symbols db)))
         (batches chunk_batch_limit syms))"
  have eq: "batch_get_chunk_ids_for_symbols syms db = fold (\<lambda>(k, v). AList.update k v) kvs []"
    by (simp add: batch_get_chunk_ids_for_symbols_def kvs_def)
  have "set (concat (map (\<lambda>batch. map (\<lambda>s. (sy_ID s, sy_ChunkID s)) (filter (\<lambda>s. sy_ID s \<in> set batch) (db_symbols db))) bs))
      = {(sy_ID s, sy_ChunkID s) |s. s \<in> set (db_symbols db) \<and> sy_ID s \<in> (\<Union>b \<in> set bs. set b)}" for bs
    by auto
  from this [of "batches chunk_batch_limit syms"]
  have kvs: "set kvs = {(sy_ID s, sy_ChunkID s) |s. s \<in> set (db_symbols db) \<and> sy_ID s \<in> set syms}"
    by (simp add: kvs_def set_batches chunk_batch_limit_def)
  show ?thesis
  proof (cases "get_symbol_by_id s db")
    case None
    then have "\<forall>y \<in> set (db_symbols db). sy_ID y \<noteq> s" by (simp add: get_symbol_by_id_def find_None_set)
    with map_of_fold_update [of kvs "[]" s] kvs have "map_of (fold (\<lambda>(k, v). AList.update k v) kvs []) s = None"
      by (cases "map_of (fold (\<lambda>(k, v). AList.update k v) kvs []) s") auto
    with None eq show ?thesis by simp
  next
    case (Some y)
    then have y: "y \<in> set (db_symbols db)" "sy_ID y = s" by (auto simp: get_symbol_by_id_def dest: find_Some_set)
    with s kvs have "s \<in> fst ` set kvs" by force
    from dom_fold_update [OF this, of "[]"] obtain v where v: "map_of (fold (\<lambda>(k, v). AList.update k v) kvs []) s = Some v" by auto
    with map_of_fold_update [OF v] kvs obtain z where "z \<in> set (db_symbols db)" "sy_ID z = s" "v = sy_ChunkID z" by auto
    then have "z = y" using y symbol_find [OF inv, of s y] symbol_find [OF inv, of s z] by simp
    with v \<open>v = sy_ChunkID z\<close> Some eq show ?thesis by simp
  qed
qed

text \<open>The store honours the contract of structural ranking.\<close>

interpretation sqg: batch_graph "sqlite_store fts parse now" sqlite_batch db_inv for fts parse now
proof (unfold_locales, goal_cases)
  case (1 db ids)
  have "distinct (map fst (batch_get_symbol_ids_for_chunks ids db))"
    unfolding batch_get_symbol_ids_for_chunks_def by (rule distinct_dedup_on)
  with batch_symbol_keys [of ids db] batch_symbol_ids [OF 1, of _ ids fts parse now] show ?case
    by (simp add: sqlite_batch_def)
next
  case (2 db syms d)
  have both: "\<exists>ns. neighbors s d ''both'' db = Inr ns" for s by (simp add: neighbors_def Let_def)
  define g where "g = (\<lambda>s. case neighbors s d ''both'' db of Inr ns \<Rightarrow> ns | Inl _ \<Rightarrow> [])"
  have g: "neighbors s d ''both'' db = Inr (g s)" for s using both [of s] by (auto simp: g_def)
  have "batch_neighbors syms d db = fold (\<lambda>i. AList.update i (g i)) syms []"
    by (simp add: batch_neighbors_def g)
  then show ?case by (simp add: sqlite_batch_def sqlite_store_def g map_of_fold_neighbors)
next
  case (3 db syms)
  then show ?case
    by (auto simp: sqlite_batch_def sqlite_store_def batch_chunk_ids split: option.split)
next
  case (4 db s y)
  then have "y \<in> set (db_symbols db)" by (auto simp: sqlite_store_def get_symbol_by_id_def dest: find_Some_set)
  with 4(1) have "sy_ChunkID y \<in> chunk_ids db" "\<forall>i \<in> chunk_ids db. 0 < i" by (auto simp: db_inv_def wf_ids_def)
  then show ?case by auto
qed

section \<open>Properties\<close>

text \<open>C14. Whatever sequence of operations, transactions, bulk writes and starts the store goes through, rolled back
  or not, every foreign key, check, uniqueness constraint and id sequence holds. Whenever the triggers
  are installed the full-text index mirrors the chunks, unless a start has interrupted a bulk write
  that none has repaired since; then the index can be behind although the triggers are installed.\<close>

theorem sqlite_integrity:
  assumes "sql_reach broken db"
  shows "db_inv db \<and> (db_fts_triggers db \<and> \<not> broken \<longrightarrow> fts_fresh db)
    \<and> (\<exists>db. sql_reach True db \<and> db_fts_triggers db \<and> \<not> fts_fresh db)"
proof -
  define db1 where "db1 = empty_db\<lparr>db_files := [sample_file_row 1 ''a.go'' ''go''], db_files_seq := 1\<rparr>"
  have "snd (upsert_file ''t'' (sample_file_row 0 ''a.go'' ''go'') empty_db) = db1"
    by (simp add: db1_def upsert_file_def upsert_file_tx_def with_write_tx_def Let_def sample_file_row_def empty_db_def file_check_def
        coalesce_def embedding_status_valid_def parse_quality_valid_def)
  with reach_step [OF reach_empty step_upsert] have r1: "sql_reach False db1" by metis
  define db2 where "db2 = snd (insert_chunks 1 [chunk_record.truncate (sample_chunk_row 0 1 ''foo'')] (db1\<lparr>db_fts_triggers := False\<rparr>))"
  have "sql_reach False (db1\<lparr>db_fts_triggers := False\<rparr>)"
    using reach_step [OF r1 step_bulk_begin] by (simp add: on_bulk_write_begin_def disable_eq)
  then have r2: "sql_reach False db2" unfolding db2_def by (rule reach_step [OF _ step_insert_chunks])
  have db2: "\<not> db_fts_triggers db2" "db_fts db2 = {}" "db_chunks db2 \<noteq> []"
    unfolding db2_def db1_def
    by (simp_all add: insert_chunks_def with_write_tx_def tx_bind_def tx_return_def insert_chunk_def Let_def empty_db_def
        chunk_row_of_def sample_chunk_row_def sample_file_row_def chunk_check_def chunk_kind_check_def coalesce_def ref_ok_def fts_row_def
        chunk_record.truncate_def chunk_record.extend_def chunk_row.fields_def)
  have "sql_reach True (snd (on_startup db2))" using reach_startup [OF r2] db2(1) by simp
  moreover have "\<not> fts_fresh (snd (on_startup db2))" using db2(2,3) by (simp add: on_startup_only_triggers fts_fresh_def)
  ultimately have "\<exists>db. sql_reach True db \<and> db_fts_triggers db \<and> \<not> fts_fresh db"
    by (intro exI [of _ "snd (on_startup db2)"]) (simp add: on_startup_only_triggers)
  then show ?thesis using reach_inv_at [OF assms] by (simp add: inv_at_def)
qed

text \<open>The hypothesis holds after a file has been indexed and deleted again.\<close>

theorem sqlite_integrity_witness:
  "\<exists>db1 db2. db1 = snd (upsert_file ''t'' (sample_file_row 0 ''a.go'' ''go'') empty_db) \<and> db_files db1 = [sample_file_row 1 ''a.go'' ''go'']
     \<and> db2 = snd (delete_file 1 db1) \<and> db_inv db1 \<and> db_inv db2"
proof -
  define db1 where "db1 = snd (upsert_file ''t'' (sample_file_row 0 ''a.go'' ''go'') empty_db)"
  have r1: "sql_reach False db1" unfolding db1_def by (rule reach_step [OF reach_empty step_upsert])
  have r2: "sql_reach False (snd (delete_file 1 db1))" by (rule reach_step [OF r1 step_delete_file])
  have "db_files db1 = [sample_file_row 1 ''a.go'' ''go'']"
    by (simp add: db1_def upsert_file_def upsert_file_tx_def with_write_tx_def Let_def sample_file_row_def empty_db_def file_check_def
        coalesce_def embedding_status_valid_def parse_quality_valid_def)
  with sqlite_integrity [OF r1] sqlite_integrity [OF r2] db1_def show ?thesis by blast
qed

text \<open>C15. On the SQLite store the batched queries change nothing but the number of queries: hydrating
  keyword hits in one batch returns what hydrating them one by one returns, and batched structural
  scores are the scores computed symbol by symbol.\<close>

theorem batch_matches_legacy:
  assumes "db_inv db"
  shows "hydrate_fts_results_batch (sqlite_batch db) hits f
         = hydrate_fts_results_legacy (sqlite_store fts parse now db) hits f
    \<and> compute_structural_scores_batch (sqlite_batch db) cands
         = compute_structural_scores_legacy (sqlite_store fts parse now db) cands"
  using sqh.batch_eq_legacy [OF assms] sqg.structural_batch_eq_legacy [OF assms] by blast

theorem batch_matches_legacy_witness:
  "hydrate_fts_results_batch (sqlite_batch sample_db) [\<lparr>ft_ChunkID = 1, ft_Rank = -1\<rparr>] (scope_to_filter ''all'')
     = hydrate_fts_results_legacy (sqlite_store (\<lambda>_ _. []) (\<lambda>_. None) 0 sample_db) [\<lparr>ft_ChunkID = 1, ft_Rank = -1\<rparr>] (scope_to_filter ''all'')"
  using batch_matches_legacy [OF conjunct1 [OF sample_db_ok(1) [unfolded store_ok_def]]] by blast

text \<open>Keyword search never returns a dangling hit: as long as FTS5 returns rows of its index, every
  hit of a search on a reachable database with its triggers installed, and no bulk write interrupted, is a chunk of the store.\<close>

theorem keyword_hits_exist:
  assumes "sql_reach False db" and "db_fts_triggers db"
    and "\<And>q idx. set (map fst (fts q idx)) \<subseteq> fst ` idx"
    and "r \<in> set (keyword_search_fts fts query n db)"
  shows "\<exists>c. get_chunk_by_id (ft_ChunkID r) db = Some c \<and> cr_ID c = ft_ChunkID r"
proof -
  have lim: "set (sql_limit n xs) \<subseteq> set xs" for xs :: "(int \<times> real) list"
    by (auto simp: sql_limit_def dest: in_set_takeD)
  from assms(4) obtain q where "ft_ChunkID r \<in> set (map fst (fts q (db_fts db)))"
    using lim by (auto simp: keyword_search_fts_def Let_def split: if_splits) force
  with assms(3) have "ft_ChunkID r \<in> fst ` db_fts db" by blast
  moreover from reach_store_ok [OF assms(1)] assms(2) have "db_inv db" and "db_fts db = fts_row ` set (db_chunks db)"
    by (simp_all add: store_ok_def fts_fresh_def)
  ultimately obtain c where "c \<in> set (db_chunks db)" "cr_ID c = ft_ChunkID r" by (auto simp: fts_row_def)
  with chunk_find [OF \<open>db_inv db\<close>, of "ft_ChunkID r" c] show ?thesis
    by (simp add: get_chunk_by_id_def chunk_record.truncate_def)
qed

text \<open>The hypotheses hold for the empty store with one indexed chunk and a full-text engine that returns
  every row.\<close>

definition sample_indexed :: sql_db where
  "sample_indexed = snd (insert_chunks 1 [chunk_record.truncate (sample_chunk_row 0 1 ''foo'')]
     (snd (upsert_file ''t'' (sample_file_row 0 ''a.go'' ''go'') empty_db)))"

definition sample_fts :: fts_match where
  "sample_fts q idx = (if (1, ''foo'', ''foo'') \<in> idx then [(1, 0)] else [])"

theorem keyword_hits_exist_witness:
  "keyword_search_fts sample_fts ''foo'' 10 sample_indexed = [\<lparr>ft_ChunkID = 1, ft_Rank = 0\<rparr>]
   \<and> (\<exists>c. get_chunk_by_id 1 sample_indexed = Some c \<and> cr_ID c = 1)"
proof -
  have reach: "sql_reach False sample_indexed"
    unfolding sample_indexed_def by (rule reach_step [OF _ step_insert_chunks], rule reach_step [OF reach_empty step_upsert])
  have upserted: "snd (upsert_file ''t'' (sample_file_row 0 ''a.go'' ''go'') empty_db)
      = empty_db\<lparr>db_files := [sample_file_row 1 ''a.go'' ''go''], db_files_seq := 1\<rparr>"
    by (simp add: upsert_file_def upsert_file_tx_def with_write_tx_def Let_def sample_file_row_def empty_db_def file_check_def
        coalesce_def embedding_status_valid_def parse_quality_valid_def)
  have trig: "db_fts_triggers sample_indexed" and idx: "db_fts sample_indexed = {(1, ''foo'', ''foo'')}"
    unfolding sample_indexed_def upserted
    by (simp_all add: insert_chunks_def with_write_tx_def tx_bind_def tx_return_def insert_chunk_def Let_def empty_db_def
        chunk_row_of_def sample_chunk_row_def sample_file_row_def chunk_check_def chunk_kind_check_def coalesce_def ref_ok_def fts_row_def
        chunk_record.truncate_def chunk_record.extend_def chunk_row.fields_def)
  have terms: "fts_terms ''foo'' = [''foo'']"
    by (simp add: fts_terms_def ws_fields.simps is_ws_def trim_ws_def fts_special_def Let_def)
  have hits: "keyword_search_fts sample_fts ''foo'' 10 sample_indexed = [\<lparr>ft_ChunkID = 1, ft_Rank = 0\<rparr>]"
    by (simp add: keyword_search_fts_def Let_def sanitize_fts_query_def terms quoted_def idx sample_fts_def sql_limit_def)
  have "\<exists>c. get_chunk_by_id (ft_ChunkID \<lparr>ft_ChunkID = 1, ft_Rank = 0\<rparr>) sample_indexed = Some c
      \<and> cr_ID c = ft_ChunkID \<lparr>ft_ChunkID = 1, ft_Rank = 0\<rparr>"
    by (rule keyword_hits_exist [OF reach trig, where fts = sample_fts and query = "''foo''" and n = 10])
      (force simp: sample_fts_def, simp add: hits)
  with hits show ?thesis by simp
qed

end
