(* ===== verification/Embed_Worker.thy ===== *)
theory Embed_Worker
  imports Circuit_Breaker Bruteforce Sqlite_Store
begin

text \<open>
  \<open>internal/vector/embed_worker.go\<close> and \<open>EmbedBatch\<close> of \<open>ollama.go\<close>: the worker that turns
  chunks into vectors, on the SQLite store and the brute-force vector store. The HTTP service is
  the argument \<open>wk_http\<close>: its reply to the n-th call, and how long the call takes. Time is a
  field of the world: sleeping and calling advance it, and \<open>wk_done\<close> says whether the context
  is done at a time; store operations of the database fail under a context that is done, those
  of the in-memory vector store ignore it. The loops of \<open>RunFromDB\<close> are partial functions,
  whose value is \<open>None\<close> when they do not return. Progress callbacks are recorded; logs and
  metrics are left out.
\<close>

section \<open>The service\<close>

text \<open>A reply: the status, up to 512 bytes of the body, and the body decoded as JSON.\<close>

datatype http_reply = NoReply | Reply int string "vec list option"

definition embed_batch :: "http_reply \<Rightarrow> string list \<Rightarrow> vec list res" where
  "embed_batch reply texts =
     (case reply of
        NoReply \<Rightarrow> Inl (ErrWrap ''embed HTTP call'' (ErrMsg ''transport error''))
      | Reply status body decoded \<Rightarrow>
          if status \<noteq> 200 then Inl (ErrEmbedHTTP status body)
          else (case decoded of
                  None \<Rightarrow> Inl (ErrWrap ''decode embed response'' (ErrMsg ''invalid JSON''))
                | Some vs \<Rightarrow> if length vs \<noteq> length texts then Inl (ErrMsg ''ollama returned another number of embeddings'')
                             else Inr vs))"

section \<open>The worker and its world\<close>

record worker =
  wk_http :: "nat \<Rightarrow> string list \<Rightarrow> http_reply \<times> int"
  wk_done :: "int \<Rightarrow> bool"
  wk_batchSz :: nat
  wk_prefix :: string

record embed_progress =
  ep_Embedded :: int
  ep_Total :: int
  ep_Skipped :: int
  ep_Deferred :: "int option"

record world =
  w_cb :: circuit_breaker
  w_vecs :: bf_store
  w_db :: sql_db
  w_now :: int
  w_calls :: nat
  w_reports :: "embed_progress list"

definition second :: int where "second = 10 ^ 9"

definition ctx_err :: "worker \<Rightarrow> world \<Rightarrow> bool" where
  "ctx_err w wd \<longleftrightarrow> wk_done w (w_now wd)"

text \<open>\<open>select { case <-time.After(d): case <-ctx.Done(): }\<close>: whether the time passed before the context
  was done; either way the clock is then where the context, if done, is seen to be.\<close>

definition sleep :: "worker \<Rightarrow> int \<Rightarrow> world \<Rightarrow> bool \<times> world" where
  "sleep w d wd = (\<not> wk_done w (w_now wd + d), wd\<lparr>w_now := w_now wd + d\<rparr>)"

definition call_embedder :: "worker \<Rightarrow> string list \<Rightarrow> world \<Rightarrow> vec list res \<times> world" where
  "call_embedder w texts wd =
     (let (reply, d) = wk_http w (w_calls wd) texts
      in (embed_batch reply texts, wd\<lparr>w_calls := w_calls wd + 1, w_now := w_now wd + d\<rparr>))"

definition breaker_allow :: "world \<Rightarrow> bool \<times> world" where
  "breaker_allow wd = (let (ok, cb) = cb_allow (w_now wd) (w_cb wd) in (ok, wd\<lparr>w_cb := cb\<rparr>))"

definition breaker_success :: "world \<Rightarrow> world" where
  "breaker_success wd = wd\<lparr>w_cb := cb_record_success (w_cb wd)\<rparr>"

definition breaker_failure :: "world \<Rightarrow> world" where
  "breaker_failure wd = wd\<lparr>w_cb := cb_record_failure (w_now wd) (w_cb wd)\<rparr>"

definition mark_embedded_db :: "worker \<Rightarrow> int list \<Rightarrow> world \<Rightarrow> unit res \<times> world" where
  "mark_embedded_db w ids wd =
     (if ctx_err w wd \<and> ids \<noteq> [] then (Inl ErrContext, wd)
      else let (r, db) = mark_chunks_embedded ids (w_db wd) in (r, wd\<lparr>w_db := db\<rparr>))"

definition upsert_vecs :: "int list \<Rightarrow> vec list \<Rightarrow> world \<Rightarrow> unit res \<times> world" where
  "upsert_vecs ids vs wd = (let (r, s) = bf_upsert_batch ids vs (w_vecs wd) in (r, wd\<lparr>w_vecs := s\<rparr>))"

definition upsert_vec :: "int \<Rightarrow> vec \<Rightarrow> world \<Rightarrow> unit res \<times> world" where
  "upsert_vec i v wd = (let (r, s) = bf_upsert i v (w_vecs wd) in (r, wd\<lparr>w_vecs := s\<rparr>))"

section \<open>The queue\<close>

definition queue_cap :: nat where "queue_cap = 1000"

text \<open>\<open>Submit\<close> on the channel's contents and the count of dropped jobs.\<close>

definition submit :: "embed_job \<Rightarrow> embed_job list \<times> int \<Rightarrow> bool \<times> embed_job list \<times> int" where
  "submit job q = (if length (fst q) < queue_cap then (True, fst q @ [job], snd q) else (False, fst q, snd q + 1))"

fun submit_batch :: "embed_job list \<Rightarrow> embed_job list \<times> int \<Rightarrow> int \<times> embed_job list \<times> int" where
  "submit_batch [] q = (0, q)"
| "submit_batch (j # js) q =
     (let (ok, q1) = submit j q; (n, q2) = submit_batch js q1 in ((if ok then n + 1 else n), q2))"

definition embed_ready :: "circuit_breaker \<Rightarrow> bool" where
  "embed_ready cb \<longleftrightarrow> cb_State cb = StateClosed \<or> cb_State cb = StateHalfOpen"

definition process_batch :: "worker \<Rightarrow> embed_job list \<Rightarrow> world \<Rightarrow> world" where
  "process_batch w batch wd =
     (let (ok, wd1) = breaker_allow wd in
      if \<not> ok then wd1
      else
        case call_embedder w (map (\<lambda>j. wk_prefix w @ ej_Content j) batch) wd1 of
          (Inl e, wd2) \<Rightarrow> breaker_failure wd2
        | (Inr vectors, wd2) \<Rightarrow>
            let wd3 = breaker_success wd2;
                (cleanIDs, cleanVecs, rej) = sanitize_embeddings (map ej_ChunkID batch) vectors 0
            in if cleanIDs = [] then wd3
               else (case upsert_vecs cleanIDs cleanVecs wd3 of
                       (Inl e, wd4) \<Rightarrow> wd4
                     | (Inr _, wd4) \<Rightarrow> wd4\<lparr>w_db := snd (mark_chunks_embedded cleanIDs (w_db wd4))\<rparr>))"

text \<open>\<open>Run\<close>: what the select statement receives, in order; cancellation and a closed queue end it. The
  context of its own that the last batch gets bounds the HTTP call, which is the service's reply here.\<close>

datatype run_event = Job embed_job | Tick | Closed | Cancelled

fun run_loop :: "worker \<Rightarrow> embed_job list \<Rightarrow> run_event list \<Rightarrow> world \<Rightarrow> embed_job list \<times> world" where
  "run_loop w batch [] wd = (batch, wd)"
| "run_loop w batch (Job j # es) wd =
     (let batch' = batch @ [j] in
      if length batch' \<ge> wk_batchSz w then run_loop w [] es (process_batch w batch' wd) else run_loop w batch' es wd)"
| "run_loop w batch (Tick # es) wd =
     (if batch \<noteq> [] then run_loop w [] es (process_batch w batch wd) else run_loop w batch es wd)"
| "run_loop w batch (Closed # es) wd = ([], if batch \<noteq> [] then process_batch w batch wd else wd)"
| "run_loop w batch (Cancelled # es) wd =
     ([], if batch \<noteq> [] then process_batch w batch wd else wd)"

section \<open>RunFromDB\<close>

record run_state =
  rs_embedded :: int
  rs_skipped :: int
  rs_activeBatch :: nat
  rs_deferred :: "embed_job list"
  rs_total :: int

definition report :: "run_state \<Rightarrow> int option \<Rightarrow> world \<Rightarrow> world" where
  "report rs warning wd =
     wd\<lparr>w_reports := w_reports wd @
        [\<lparr>ep_Embedded = rs_embedded rs, ep_Total = rs_total rs, ep_Skipped = rs_skipped rs, ep_Deferred = warning\<rparr>]\<rparr>"

text \<open>\<open>embedWithRetry\<close>: the attempts left, and the last error.\<close>

fun embed_attempts ::
  "worker \<Rightarrow> string list \<Rightarrow> nat \<Rightarrow> err \<Rightarrow> run_state \<Rightarrow> world \<Rightarrow> vec list res \<times> run_state \<times> world" where
  "embed_attempts w texts 0 lastErr rs wd = (Inl (ErrWrap ''embed batch exhausted retries'' lastErr), rs, wd)"
| "embed_attempts w texts (Suc n) lastErr rs wd =
     (if ctx_err w wd then (Inl ErrContext, rs, wd)
      else
        let (ok, wd1) = breaker_allow wd in
        if \<not> ok then
          (let (slept, wd2) = sleep w (2 * second) wd1 in
           if slept then embed_attempts w texts n lastErr rs wd2 else (Inl ErrContext, rs, wd2))
        else
          case call_embedder w texts wd1 of
            (Inr vectors, wd2) \<Rightarrow> (Inr vectors, rs\<lparr>rs_activeBatch := wk_batchSz w\<rparr>, breaker_success wd2)
          | (Inl e, wd2) \<Rightarrow>
              if errors_is e ErrPermanentEmbed then (Inl e, rs, wd2)
              else
                let wd3 = breaker_failure wd2; newSz = rs_activeBatch rs div 2 in
                if newSz \<ge> 1 \<and> newSz < rs_activeBatch rs
                then (Inl ErrBatchShrunk, rs\<lparr>rs_activeBatch := newSz\<rparr>, wd3)
                else
                  let (slept, wd4) = sleep w second wd3 in
                  if slept then embed_attempts w texts n e rs wd4 else (Inl ErrContext, rs, wd4))"

definition embed_with_retry ::
  "worker \<Rightarrow> string list \<Rightarrow> run_state \<Rightarrow> world \<Rightarrow> vec list res \<times> run_state \<times> world" where
  "embed_with_retry w texts rs wd = embed_attempts w texts 3 (ErrMsg []) rs wd"

text \<open>The tail every path of \<open>reconcileAndEmbed\<close> shares: mark the whole batch and count it.\<close>

definition mark_and_count ::
  "worker \<Rightarrow> string \<Rightarrow> embed_job list \<Rightarrow> run_state \<Rightarrow> world \<Rightarrow> unit res \<times> run_state \<times> world" where
  "mark_and_count w ctx batch rs wd =
     (case mark_embedded_db w (map ej_ChunkID batch) wd of
        (Inl e, wd1) \<Rightarrow> (Inl (ErrWrap ctx e), rs, wd1)
      | (Inr _, wd1) \<Rightarrow>
          let rs1 = rs\<lparr>rs_embedded := rs_embedded rs + int (length batch)\<rparr> in (Inr (), rs1, report rs1 None wd1))"

definition reconcile_and_embed ::
  "worker \<Rightarrow> embed_job list \<Rightarrow> run_state \<Rightarrow> world \<Rightarrow> unit res \<times> run_state \<times> world" where
  "reconcile_and_embed w batch rs wd =
     (if ctx_err w wd then (Inl ErrContext, rs, wd)
      else
        let needEmbed = filter (\<lambda>j. bf_has (ej_ChunkID j) (w_vecs wd) \<noteq> Inr True) batch in
        if needEmbed = [] then mark_and_count w ''mark already-embedded chunks'' batch rs wd
        else
          let texts = map (\<lambda>j. wk_prefix w @ ej_Content j) needEmbed; needIDs = map ej_ChunkID needEmbed in
          case embed_with_retry w texts rs wd of
            (Inl e, rs1, wd1) \<Rightarrow>
              if errors_is e ErrBatchShrunk then (Inl ErrBatchShrunk, rs1, wd1)
              else if errors_is e ErrPermanentEmbed then
                mark_and_count w ''mark skipped chunks'' batch
                  (rs1\<lparr>rs_skipped := rs_skipped rs1 + int (length needEmbed)\<rparr>) wd1
              else
                let rs2 = rs1\<lparr>rs_deferred := rs_deferred rs1 @ needEmbed\<rparr>
                in mark_and_count w ''mark deferred chunks'' batch rs2
                     (report rs2 (Some (int (length (rs_deferred rs2)))) wd1)
          | (Inr vectors, rs1, wd1) \<Rightarrow>
              let (cleanIDs, cleanVecs, rej) = sanitize_embeddings needIDs vectors 0 in
              (case (if cleanIDs \<noteq> [] then upsert_vecs cleanIDs cleanVecs wd1 else (Inr (), wd1)) of
                 (Inl e, wd2) \<Rightarrow> (Inl (ErrWrap ''upsert batch'' e), rs1, wd2)
               | (Inr _, wd2) \<Rightarrow> mark_and_count w ''mark chunks embedded'' batch rs1 wd2))"

text \<open>The slices of a page; a shrunk batch size slices again from the same position.\<close>

partial_function (option) run_slices ::
  "worker \<Rightarrow> embed_job list \<Rightarrow> nat \<Rightarrow> run_state \<Rightarrow> world \<Rightarrow> (unit res \<times> run_state \<times> world) option" where
  "run_slices w page i rs wd =
     (if i < length page then
        let e = (if i + rs_activeBatch rs > length page then length page else i + rs_activeBatch rs) in
        case reconcile_and_embed w (take (e - i) (drop i page)) rs wd of
          (Inl err, rs1, wd1) \<Rightarrow>
            if errors_is err ErrBatchShrunk then run_slices w page i rs1 wd1 else Some (Inl err, rs1, wd1)
        | (Inr _, rs1, wd1) \<Rightarrow> run_slices w page e rs1 wd1
      else Some (Inr (), rs, wd))"

definition page_size :: int where "page_size = 256"

partial_function (option) run_pages ::
  "worker \<Rightarrow> int \<Rightarrow> run_state \<Rightarrow> world \<Rightarrow> (unit res \<times> run_state \<times> world) option" where
  "run_pages w lastID rs wd =
     (if ctx_err w wd then Some (Inl ErrContext, rs, wd)
      else
        let page = get_embed_page lastID page_size (w_db wd) in
        if page = [] then Some (Inr (), rs, wd)
        else Option.bind (run_slices w page 0 rs wd) (\<lambda>(r, rs1, wd1).
          case r of
            Inl e \<Rightarrow> Some (Inl e, rs1, wd1)
          | Inr _ \<Rightarrow> run_pages w (ej_ChunkID (last page)) rs1 wd1))"

text \<open>One pass over the deferred chunks; the second component collects those still failing.\<close>

fun deferred_pass ::
  "worker \<Rightarrow> embed_job list \<Rightarrow> embed_job list \<Rightarrow> run_state \<Rightarrow> world \<Rightarrow> embed_job list res \<times> run_state \<times> world" where
  "deferred_pass w [] still rs wd = (Inr still, rs, wd)"
| "deferred_pass w (job # jobs) still rs wd =
     (if ctx_err w wd then (Inl ErrContext, rs, wd)
      else
        let (ok, wd1) = breaker_allow wd in
        if \<not> ok then deferred_pass w jobs (still @ [job]) rs wd1
        else
          case call_embedder w [wk_prefix w @ ej_Content job] wd1 of
            (Inl e, wd2) \<Rightarrow>
              if errors_is e ErrPermanentEmbed
              then deferred_pass w jobs still (rs\<lparr>rs_skipped := rs_skipped rs + 1\<rparr>) wd2
              else deferred_pass w jobs (still @ [job]) rs (breaker_failure wd2)
          | (Inr vecs, wd2) \<Rightarrow>
              let wd3 = breaker_success wd2;
                  (cleanIDs, cleanVecs, rej) = sanitize_embeddings [ej_ChunkID job] [hd vecs] 0
              in if cleanIDs = [] then deferred_pass w jobs still (rs\<lparr>rs_skipped := rs_skipped rs + 1\<rparr>) wd3
                 else (case upsert_vec (hd cleanIDs) (hd cleanVecs) wd3 of
                         (Inl e, wd4) \<Rightarrow> (Inl (ErrWrap ''upsert deferred chunk'' e), rs, wd4)
                       | (Inr _, wd4) \<Rightarrow> deferred_pass w jobs still rs wd4))"

fun deferred_passes :: "worker \<Rightarrow> nat \<Rightarrow> run_state \<Rightarrow> world \<Rightarrow> unit res \<times> run_state \<times> world" where
  "deferred_passes w 0 rs wd = (Inr (), rs, wd)"
| "deferred_passes w (Suc n) rs wd =
     (if rs_deferred rs = [] then (Inr (), rs, wd)
      else
        case deferred_pass w (rs_deferred rs) [] rs wd of
          (Inl e, rs1, wd1) \<Rightarrow> (Inl e, rs1, wd1)
        | (Inr still, rs1, wd1) \<Rightarrow>
            let rs2 = rs1\<lparr>rs_deferred := still\<rparr> in
            if still \<noteq> [] then
              (let (slept, wd2) = sleep w (2 * second) wd1 in
               if slept then deferred_passes w n rs2 wd2 else (Inl ErrContext, rs2, wd2))
            else deferred_passes w n rs2 wd1)"

definition retry_deferred :: "worker \<Rightarrow> run_state \<Rightarrow> world \<Rightarrow> unit res \<times> run_state \<times> world" where
  "retry_deferred w rs wd =
     (if rs_deferred rs = [] then (Inr (), rs, wd)
      else
        case deferred_passes w 3 rs (report rs (Some (int (length (rs_deferred rs)))) wd) of
          (Inl e, rs1, wd1) \<Rightarrow> (Inl e, rs1, wd1)
        | (Inr _, rs1, wd1) \<Rightarrow> (Inr (), rs1\<lparr>rs_skipped := rs_skipped rs1 + int (length (rs_deferred rs1))\<rparr>, wd1))"

definition run_from_db :: "worker \<Rightarrow> world \<Rightarrow> (unit res \<times> world) option" where
  "run_from_db w wd =
     (if ctx_err w wd then Some (Inl (ErrWrap ''count chunks needing embedding'' ErrContext), wd)
      else
        let total = count_chunks_needing_embedding (w_db wd);
            rs = \<lparr>rs_embedded = 0, rs_skipped = 0, rs_activeBatch = wk_batchSz w, rs_deferred = [], rs_total = total\<rparr>
        in if total = 0 then Some (Inr (), report rs None wd)
           else Option.bind (run_pages w 0 rs wd) (\<lambda>(r, rs1, wd1).
             case r of
               Inl e \<Rightarrow> Some (Inl e, wd1)
             | Inr _ \<Rightarrow>
                 (case retry_deferred w rs1 wd1 of
                    (Inl e, rs2, wd2) \<Rightarrow> Some (Inl e, wd2)
                  | (Inr _, rs2, wd2) \<Rightarrow> Some (Inr (), if rs_skipped rs2 > 0 then report rs2 None wd2 else wd2))))"

section \<open>Embedding a batch\<close>

lemma embed_batch_error: "embed_batch reply texts = Inl e \<Longrightarrow> \<not> errors_is e ErrBatchShrunk"
  by (auto simp: embed_batch_def split: http_reply.splits if_splits option.splits)

lemma embed_batch_length: "embed_batch reply texts = Inr vs \<Longrightarrow> length vs = length texts"
  by (auto simp: embed_batch_def split: http_reply.splits if_splits option.splits)

lemma call_embedder_fields:
  assumes "call_embedder w texts wd = (r, wd')"
  shows "w_db wd' = w_db wd \<and> w_vecs wd' = w_vecs wd \<and> w_cb wd' = w_cb wd
    \<and> (\<exists>n. r = embed_batch (fst (wk_http w n texts)) texts)"
  using assms by (auto simp: call_embedder_def split: prod.splits) (metis fst_conv)

lemma breaker_fields:
  "w_db (snd (breaker_allow wd)) = w_db wd" "w_vecs (snd (breaker_allow wd)) = w_vecs wd"
  "w_db (breaker_success wd) = w_db wd" "w_vecs (breaker_success wd) = w_vecs wd"
  "w_db (breaker_failure wd) = w_db wd" "w_vecs (breaker_failure wd) = w_vecs wd"
  by (simp_all add: breaker_allow_def breaker_success_def breaker_failure_def split: prod.splits)

definition answered :: "worker \<Rightarrow> string list \<Rightarrow> vec list \<Rightarrow> bool" where
  "answered w texts vs \<longleftrightarrow> (\<exists>n. embed_batch (fst (wk_http w n texts)) texts = Inr vs)"

lemma embed_attempts_spec:
  assumes "embed_attempts w texts n e0 rs wd = (r, rs', wd')"
    and "0 < rs_activeBatch rs" and "0 < wk_batchSz w" and "\<not> errors_is e0 ErrBatchShrunk"
  shows "w_db wd' = w_db wd \<and> w_vecs wd' = w_vecs wd \<and> 0 < rs_activeBatch rs'
    \<and> (\<forall>e. r = Inl e \<longrightarrow> errors_is e ErrBatchShrunk \<longrightarrow> rs_activeBatch rs' < rs_activeBatch rs)
    \<and> (\<forall>vs. r = Inr vs \<longrightarrow> answered w texts vs)"
  using assms
proof (induction n arbitrary: e0 wd)
  case (Suc n)
  show ?case
  proof (cases "ctx_err w wd")
    case False
    obtain ok wd1 where a: "breaker_allow wd = (ok, wd1)" by (cases "breaker_allow wd")
    have w1: "w_db wd1 = w_db wd" "w_vecs wd1 = w_vecs wd" using breaker_fields(1,2) [of wd] a by simp_all
    show ?thesis
    proof (cases ok)
      case no: False
      obtain slept wd2 where s: "sleep w (2 * second) wd1 = (slept, wd2)" by (cases "sleep w (2 * second) wd1")
      have w2: "w_db wd2 = w_db wd" "w_vecs wd2 = w_vecs wd" using s w1 by (auto simp: sleep_def)
      show ?thesis
        using Suc.prems False a no s w2 Suc.IH [of e0 wd2] by (cases slept) auto
    next
      case ok: True
      obtain q wd2 where c: "call_embedder w texts wd1 = (q, wd2)" by (cases "call_embedder w texts wd1")
      have w2: "w_db wd2 = w_db wd" "w_vecs wd2 = w_vecs wd" using call_embedder_fields [OF c] w1 by simp_all
      show ?thesis
      proof (cases q)
        case (Inr vs)
        then have "answered w texts vs" using call_embedder_fields [OF c] by (auto simp: answered_def)
        with Suc.prems False a ok c Inr w2 show ?thesis by (auto simp: breaker_fields)
      next
        case (Inl e)
        then have e: "\<not> errors_is e ErrBatchShrunk"
          using call_embedder_fields [OF c] embed_batch_error by metis
        obtain slept wd4 where s: "sleep w second (breaker_failure wd2) = (slept, wd4)" by (cases "sleep w second (breaker_failure wd2)")
        have w4: "w_db wd4 = w_db wd" "w_vecs wd4 = w_vecs wd" using s w2 by (auto simp: sleep_def breaker_fields)
        show ?thesis
          using Suc.prems False a ok c Inl e w2 s w4 Suc.IH [of e wd4]
          by (cases slept) (auto simp: Let_def breaker_fields split: if_splits)
      qed
    qed
  qed (use Suc.prems in auto)
qed auto

section \<open>A slice of a page\<close>

definition patient :: "worker \<Rightarrow> bool" where
  "patient w \<longleftrightarrow> (\<forall>t. \<not> wk_done w t)"

definition right_dims :: "worker \<Rightarrow> int \<Rightarrow> bool" where
  "right_dims w d \<longleftrightarrow> (\<forall>texts vs v. answered w texts vs \<longrightarrow> v \<in> set vs \<longrightarrow> int (length v) = d)"

lemma mark_embedded_db_ok:
  assumes "store_ok (w_db wd)"
  shows "(mark_embedded_db w ids wd = (Inl ErrContext, wd) \<and> ctx_err w wd)
    \<or> (\<exists>wd'. mark_embedded_db w ids wd = (Inr (), wd') \<and> wd' = wd\<lparr>w_db := w_db wd'\<rparr> \<and> store_ok (w_db wd')
         \<and> chunk_views (w_db wd') = set_flags (set ids) True (chunk_views (w_db wd)))"
proof (cases "ctx_err w wd \<and> ids \<noteq> []")
  case False
  from sq.mark_embedded_inv [of True "w_db wd" "db_fts_triggers (w_db wd)" ids] assms obtain db where
    db: "mark_embedded sqlite_chunk_ops ids (w_db wd) = (Inr (), db)" "store_ok db"
      "chunk_views db = set_flags (set ids) True (chunk_views (w_db wd))" by auto
  then show ?thesis using False by (intro disjI2 exI [of _ "wd\<lparr>w_db := db\<rparr>"])
      (simp add: mark_embedded_db_def mark_chunks_embedded_def with_write_tx_def)
qed (simp add: mark_embedded_db_def)

lemma mark_and_count_ok:
  assumes "store_ok (w_db wd)"
  shows "(mark_and_count w c0 batch rs wd = (Inl (ErrWrap c0 ErrContext), rs, wd) \<and> ctx_err w wd)
    \<or> (\<exists>rs' wd'. mark_and_count w c0 batch rs wd = (Inr (), rs', wd') \<and> rs_activeBatch rs' = rs_activeBatch rs
         \<and> w_vecs wd' = w_vecs wd \<and> store_ok (w_db wd')
         \<and> chunk_views (w_db wd') = set_flags (set (map ej_ChunkID batch)) True (chunk_views (w_db wd)))"
proof (cases "mark_embedded_db w (map ej_ChunkID batch) wd = (Inl ErrContext, wd) \<and> ctx_err w wd")
  case True
  then show ?thesis by (simp add: mark_and_count_def)
next
  case False
  with mark_embedded_db_ok [OF assms, of w "map ej_ChunkID batch"] obtain wd1 where
    m: "mark_embedded_db w (map ej_ChunkID batch) wd = (Inr (), wd1)" and wd1: "wd1 = wd\<lparr>w_db := w_db wd1\<rparr>"
      "store_ok (w_db wd1)" "chunk_views (w_db wd1) = set_flags (set (map ej_ChunkID batch)) True (chunk_views (w_db wd))"
    by blast
  have "w_vecs wd1 = w_vecs wd" by (subst wd1(1)) simp
  with m wd1(2,3) show ?thesis by (simp add: mark_and_count_def Let_def report_def)
qed

lemma sanitize_sub:
  assumes "sanitize_embeddings ids vs d = (cids, cvs, rej)"
  shows "length cids = length cvs \<and> set cids \<subseteq> set ids \<and> set cvs \<subseteq> set vs \<and> (\<forall>v \<in> set cvs. healthy_vec v)"
  using assms sanitize_loop_result [of d "zip ids vs" "[]" "[]" no_reject]
  by (auto simp: sanitize_embeddings_def accepted_vec_def dest: set_zip_leftD set_zip_rightD)

lemma upsert_vecs_fields:
  assumes "upsert_vecs ids vs wd = (r, wd')"
  shows "w_db wd' = w_db wd \<and> bf_dim (w_vecs wd') = bf_dim (w_vecs wd)
    \<and> (\<forall>e. r = Inl e \<longrightarrow> \<not> errors_is e ErrBatchShrunk \<and> \<not> (length ids = length vs \<and> (\<forall>v \<in> set vs. int (length v) = bf_dim (w_vecs wd))))"
proof (cases "check_batch_dims (int (length ids)) vs (bf_dim (w_vecs wd))")
  case None
  with assms show ?thesis by (auto simp: upsert_vecs_def bf_upsert_batch_def)
next
  case (Some e)
  then have "\<not> (length ids = length vs \<and> (\<forall>v \<in> set vs. int (length v) = bf_dim (w_vecs wd)))"
    using check_batch_dims_None by (metis option.distinct(1))
  moreover have "\<not> errors_is e ErrBatchShrunk"
    using Some by (auto simp: check_batch_dims_def check_batch_lengths_def split: if_splits)
  ultimately show ?thesis using assms Some by (auto simp: upsert_vecs_def bf_upsert_batch_def)
qed

text \<open>What a slice leaves behind: \<open>slice_post\<close> relates the state before and after.\<close>

definition slice_post :: "worker \<Rightarrow> int list \<Rightarrow> run_state \<Rightarrow> world \<Rightarrow> unit res \<Rightarrow> run_state \<Rightarrow> world \<Rightarrow> bool" where
  "slice_post w ids rs wd r rs' wd' \<longleftrightarrow>
     store_ok (w_db wd') \<and> 0 < rs_activeBatch rs' \<and> bf_dim (w_vecs wd') = bf_dim (w_vecs wd)
   \<and> (\<forall>u. r = Inr u \<longrightarrow> chunk_views (w_db wd') = set_flags (set ids) True (chunk_views (w_db wd)))
   \<and> (\<forall>e. r = Inl e \<longrightarrow> chunk_views (w_db wd') = chunk_views (w_db wd)
         \<and> (errors_is e ErrBatchShrunk \<longrightarrow> rs_activeBatch rs' < rs_activeBatch rs)
         \<and> (patient w \<longrightarrow> right_dims w (bf_dim (w_vecs wd)) \<longrightarrow> errors_is e ErrBatchShrunk))"

lemma mark_and_count_post:
  assumes ok: "store_ok (w_db wd1)" and r: "mark_and_count w c0 batch rs1 wd1 = (r, rs', wd')"
    and wd1: "w_db wd1 = w_db wd" "bf_dim (w_vecs wd1) = bf_dim (w_vecs wd)" and act: "0 < rs_activeBatch rs1"
  shows "slice_post w (map ej_ChunkID batch) rs wd r rs' wd'"
  using mark_and_count_ok [OF ok, of w c0 batch rs1] r wd1 act ok
  by (auto simp: slice_post_def patient_def ctx_err_def)

lemma reconcile_post:
  assumes ok: "store_ok (w_db wd)" and act: "0 < rs_activeBatch rs" and sz: "0 < wk_batchSz w"
    and r: "reconcile_and_embed w batch rs wd = (r, rs', wd')"
  shows "slice_post w (map ej_ChunkID batch) rs wd r rs' wd'"
proof (cases "ctx_err w wd")
  case True
  with r ok act show ?thesis by (auto simp: reconcile_and_embed_def slice_post_def patient_def ctx_err_def)
next
  case ctx: False
  define need where "need = filter (\<lambda>j. bf_has (ej_ChunkID j) (w_vecs wd) \<noteq> Inr True) batch"
  show ?thesis
  proof (cases "need = []")
    case True
    with r ctx have "mark_and_count w ''mark already-embedded chunks'' batch rs wd = (r, rs', wd')"
      by (simp add: reconcile_and_embed_def Let_def need_def)
    from mark_and_count_post [OF ok this _ _ act] show ?thesis by simp
  next
    case need: False
    define texts where "texts = map (\<lambda>j. wk_prefix w @ ej_Content j) need"
    obtain q rs1 wd1 where e: "embed_with_retry w texts rs wd = (q, rs1, wd1)" by (metis prod.exhaust)
    have sp: "w_db wd1 = w_db wd" "w_vecs wd1 = w_vecs wd" "0 < rs_activeBatch rs1"
      "\<And>e. q = Inl e \<Longrightarrow> errors_is e ErrBatchShrunk \<Longrightarrow> rs_activeBatch rs1 < rs_activeBatch rs"
      "\<And>vs. q = Inr vs \<Longrightarrow> answered w texts vs"
      using embed_attempts_spec [OF e [unfolded embed_with_retry_def] act sz] by auto
    have ok1: "store_ok (w_db wd1)" using ok sp(1) by simp
    show ?thesis
    proof (cases q)
      case (Inl err)
      show ?thesis
      proof (cases "errors_is err ErrBatchShrunk")
        case True
        with r ctx need e Inl have "r = Inl ErrBatchShrunk" "rs' = rs1" "wd' = wd1"
          by (simp_all add: reconcile_and_embed_def Let_def need_def texts_def)
        with sp Inl True ok1 show ?thesis by (simp add: slice_post_def)
      next
        case shr: False
        have "\<exists>c rs2 wd2. mark_and_count w c batch rs2 wd2 = (r, rs', wd') \<and> w_db wd2 = w_db wd1
            \<and> w_vecs wd2 = w_vecs wd1 \<and> rs_activeBatch rs2 = rs_activeBatch rs1"
        proof (cases "errors_is err ErrPermanentEmbed")
          case True
          with r ctx need e Inl shr show ?thesis
            by (intro exI conjI) (simp add: reconcile_and_embed_def Let_def need_def texts_def, simp_all)
        next
          case False
          let ?rs2 = "rs1\<lparr>rs_deferred := rs_deferred rs1 @ need\<rparr>"
          from False r ctx need e Inl shr
          have "mark_and_count w ''mark deferred chunks'' batch ?rs2
              (report ?rs2 (Some (int (length (rs_deferred ?rs2)))) wd1) = (r, rs', wd')"
            by (simp add: reconcile_and_embed_def Let_def need_def texts_def)
          then show ?thesis by (intro exI conjI) (assumption, simp_all add: report_def)
        qed
        then obtain c rs2 wd2 where m: "mark_and_count w c batch rs2 wd2 = (r, rs', wd')"
          and w2: "w_db wd2 = w_db wd1" "w_vecs wd2 = w_vecs wd1" "rs_activeBatch rs2 = rs_activeBatch rs1" by blast
        show ?thesis
          by (rule mark_and_count_post [OF _ m]) (use ok1 w2 sp in simp_all)
      qed
    next
      case (Inr vs)
      obtain cids cvs rej where san: "sanitize_embeddings (map ej_ChunkID need) vs 0 = (cids, cvs, rej)"
        by (metis prod.exhaust)
      obtain u wd2 where up: "(if cids \<noteq> [] then upsert_vecs cids cvs wd1 else (Inr (), wd1)) = (u, wd2)"
        by (metis prod.exhaust)
      have w2: "w_db wd2 = w_db wd" "bf_dim (w_vecs wd2) = bf_dim (w_vecs wd)"
        using up upsert_vecs_fields [of cids cvs wd1 u wd2] sp(1,2) by (auto split: if_splits)
      have dims: "\<forall>v \<in> set cvs. int (length v) = d" if "right_dims w d" for d
        using sanitize_sub [OF san] sp(5) [OF Inr] that by (auto simp: right_dims_def)
      have rec: "(case u of Inl e \<Rightarrow> (Inl (ErrWrap ''upsert batch'' e), rs1, wd2)
          | Inr _ \<Rightarrow> mark_and_count w ''mark chunks embedded'' batch rs1 wd2) = (r, rs', wd')"
        using r ctx need e Inr san up by (simp add: reconcile_and_embed_def Let_def need_def texts_def)
      show ?thesis
      proof (cases u)
        case (Inl err)
        with up upsert_vecs_fields [of cids cvs wd1 u wd2]
        have "\<not> errors_is err ErrBatchShrunk" "\<not> (length cids = length cvs \<and> (\<forall>v \<in> set cvs. int (length v) = bf_dim (w_vecs wd1)))"
          by (auto split: if_splits)
        with Inl rec sp w2 ok dims sanitize_sub [OF san] show ?thesis by (auto simp: slice_post_def)
      next
        case (Inr _)
        with rec have "mark_and_count w ''mark chunks embedded'' batch rs1 wd2 = (r, rs', wd')" by simp
        from mark_and_count_post [OF _ this] w2 ok sp(3) show ?thesis by simp
      qed
    qed
  qed
qed

section \<open>Pages\<close>

lemma set_flags_twice: "set_flags T b (set_flags S b cs) = set_flags (S \<union> T) b cs"
  by (rule set_flags_set_flags)

text \<open>A page is worked through: every slice returns, and at the end the whole rest is marked.\<close>

lemma run_slices_post:
  assumes "store_ok (w_db wd)" and "0 < rs_activeBatch rs" and "0 < wk_batchSz w" and "i \<le> length page"
  shows "\<exists>r rs' wd'. run_slices w page i rs wd = Some (r, rs', wd') \<and> store_ok (w_db wd') \<and> 0 < rs_activeBatch rs'
    \<and> bf_dim (w_vecs wd') = bf_dim (w_vecs wd)
    \<and> (\<exists>S. chunk_views (w_db wd') = set_flags S True (chunk_views (w_db wd)))
    \<and> (\<forall>u. r = Inr u \<longrightarrow> chunk_views (w_db wd') = set_flags (set (map ej_ChunkID (drop i page))) True (chunk_views (w_db wd)))
    \<and> (\<forall>e. r = Inl e \<longrightarrow> \<not> (patient w \<and> right_dims w (bf_dim (w_vecs wd))))"
  using assms
proof (induction "(length page - i, rs_activeBatch rs)" arbitrary: i rs wd rule: wf_induct_rule [OF wf_lex_prod [OF wf_less_than wf_less_than]])
  case (1 i rs wd)
  show ?case
  proof (cases "i < length page")
    case False
    then show ?thesis using 1
      by (subst run_slices.simps) (auto simp: set_flags_def intro!: exI [of _ "{}"] map_idI [symmetric])
  next
    case True
    define e where "e = (if i + rs_activeBatch rs > length page then length page else i + rs_activeBatch rs)"
    have e: "i < e" "e \<le> length page" using True 1(3) by (auto simp: e_def)
    define b where "b = take (e - i) (drop i page)"
    obtain r1 rs1 wd1 where rec: "reconcile_and_embed w b rs wd = (r1, rs1, wd1)" by (metis prod.exhaust)
    have post: "slice_post w (map ej_ChunkID b) rs wd r1 rs1 wd1"
      by (rule reconcile_post [OF 1(2,3,4) rec])
    then have ok1: "store_ok (w_db wd1)" "0 < rs_activeBatch rs1" "bf_dim (w_vecs wd1) = bf_dim (w_vecs wd)"
      by (simp_all add: slice_post_def)
    have step: "run_slices w page i rs wd = (case r1 of
        Inl err \<Rightarrow> if errors_is err ErrBatchShrunk then run_slices w page i rs1 wd1 else Some (Inl err, rs1, wd1)
      | Inr _ \<Rightarrow> run_slices w page e rs1 wd1)"
      by (subst run_slices.simps) (simp add: True Let_def rec split: sum.split flip: e_def b_def)
    show ?thesis
    proof (cases r1)
      case (Inl err)
      with post have same: "chunk_views (w_db wd1) = chunk_views (w_db wd)"
        "errors_is err ErrBatchShrunk \<Longrightarrow> rs_activeBatch rs1 < rs_activeBatch rs"
        "patient w \<Longrightarrow> right_dims w (bf_dim (w_vecs wd)) \<Longrightarrow> errors_is err ErrBatchShrunk"
        by (auto simp: slice_post_def)
      show ?thesis
      proof (cases "errors_is err ErrBatchShrunk")
        case shr: True
        have "((length page - i, rs_activeBatch rs1), (length page - i, rs_activeBatch rs)) \<in> less_than <*lex*> less_than"
          using same(2) [OF shr] by simp
        from 1(1) [OF this ok1(1,2) 1(4,5)] step Inl shr same(1) ok1(3) show ?thesis by simp
      next
        case shr: False
        have "set_flags {} True cs = cs" for cs by (auto simp: set_flags_def intro!: map_idI)
        with step Inl shr same ok1 show ?thesis by (auto intro!: exI [of _ "{}"])
      qed
    next
      case (Inr u)
      with post have marked: "chunk_views (w_db wd1) = set_flags (set (map ej_ChunkID b)) True (chunk_views (w_db wd))"
        by (simp add: slice_post_def)
      have "((length page - e, rs_activeBatch rs1), (length page - i, rs_activeBatch rs)) \<in> less_than <*lex*> less_than"
        using e True by auto
      from 1(1) [OF this ok1(1,2) 1(4) e(2)] obtain r rs' wd' S where IH:
        "run_slices w page e rs1 wd1 = Some (r, rs', wd')" "store_ok (w_db wd')" "0 < rs_activeBatch rs'"
        "bf_dim (w_vecs wd') = bf_dim (w_vecs wd1)" "chunk_views (w_db wd') = set_flags S True (chunk_views (w_db wd1))"
        "\<And>u. r = Inr u \<Longrightarrow> chunk_views (w_db wd') = set_flags (set (map ej_ChunkID (drop e page))) True (chunk_views (w_db wd1))"
        "\<And>e. r = Inl e \<Longrightarrow> \<not> (patient w \<and> right_dims w (bf_dim (w_vecs wd1)))" by blast
      have parts: "b @ drop e page = drop i page"
        using e unfolding b_def by (metis append_take_drop_id drop_drop le_add_diff_inverse2 less_imp_le)
      have "set (map ej_ChunkID b) \<union> set (map ej_ChunkID (drop e page)) = set (map ej_ChunkID (drop i page))"
        by (metis parts map_append set_append)
      with IH step Inr marked ok1(3) show ?thesis by (auto simp: set_flags_twice)
    qed
  qed
qed

definition all_marked_upto :: "int \<Rightarrow> chunk_view list \<Rightarrow> bool" where
  "all_marked_upto n cs \<longleftrightarrow> (\<forall>(i, f, e) \<in> set cs. i \<le> n \<longrightarrow> e)"

lemma strict_sorted_take:
  fixes xs :: "int list"
  assumes "sorted_wrt (<) xs" and "x \<in> set xs" and "take n xs \<noteq> []" and "x \<le> last (take n xs)"
  shows "x \<in> set (take n xs)"
proof (rule ccontr)
  assume "x \<notin> set (take n xs)"
  with assms(2) have "x \<in> set (drop n xs)" by (metis UnE append_take_drop_id set_append)
  moreover have "sorted_wrt (<) (take n xs @ drop n xs)" using assms(1) by simp
  ultimately have "last (take n xs) < x" using assms(3) unfolding sorted_wrt_append by (meson last_in_set)
  with assms(4) show False by simp
qed

lemma page_ids:
  assumes "db_inv db" and "page = get_embed_page n page_size db" and "page \<noteq> []"
  shows "n < ej_ChunkID (last page)" and "\<exists>c \<in> set (db_chunks db). cr_ID c = ej_ChunkID (last page)"
    and "\<And>c. c \<in> set (db_chunks db) \<Longrightarrow> \<not> cw_embedded c \<Longrightarrow> n < cr_ID c \<Longrightarrow> cr_ID c \<le> ej_ChunkID (last page)
          \<Longrightarrow> cr_ID c \<in> ej_ChunkID ` set page"
proof -
  define cs where "cs = filter (\<lambda>c. \<not> cw_embedded c \<and> n < cr_ID c) (db_chunks db)"
  have page: "page = map embed_job_of (take 256 cs)"
    by (simp add: assms(2) get_embed_page_def sql_limit_def page_size_def cs_def take_map)
  have ids: "map ej_ChunkID page = take 256 (map cr_ID cs)" by (simp add: page embed_job_of_def take_map)
  have ne: "take 256 (map cr_ID cs) \<noteq> []" using assms(3) by (simp flip: ids)
  have last: "ej_ChunkID (last page) = last (take 256 (map cr_ID cs))" using assms(3) by (simp flip: ids add: last_map)
  then have "ej_ChunkID (last page) \<in> set (take 256 (map cr_ID cs))" using ne by simp
  then have "ej_ChunkID (last page) \<in> cr_ID ` set cs" by (metis in_set_takeD set_map)
  then show "n < ej_ChunkID (last page)" "\<exists>c \<in> set (db_chunks db). cr_ID c = ej_ChunkID (last page)"
    by (auto simp: cs_def)
  have "sorted_wrt (<) (map cr_ID cs)"
    using assms(1) wf_ids_filter [of cr_ID "db_chunks db"] by (auto simp: cs_def db_inv_def wf_ids_def)
  then show "cr_ID c \<in> ej_ChunkID ` set page"
    if "c \<in> set (db_chunks db)" "\<not> cw_embedded c" "n < cr_ID c" "cr_ID c \<le> ej_ChunkID (last page)" for c
    using strict_sorted_take [of "map cr_ID cs" "cr_ID c" 256] that ne last ids by (metis (mono_tags, lifting) cs_def image_eqI mem_Collect_eq set_filter set_map)
qed

lemma page_progress:
  assumes inv: "db_inv db" and page: "page = get_embed_page n page_size db" "page \<noteq> []"
    and up: "all_marked_upto n (chunk_views db)"
  shows "all_marked_upto (ej_ChunkID (last page)) (set_flags (set (map ej_ChunkID page)) True (chunk_views db))"
    and "length (filter (\<lambda>(i, f, e). ej_ChunkID (last page) < i) (chunk_views db)) < length (filter (\<lambda>(i, f, e). n < i) (chunk_views db))"
proof -
  note ids = page_ids [OF inv page]
  show "all_marked_upto (ej_ChunkID (last page)) (set_flags (set (map ej_ChunkID page)) True (chunk_views db))"
    using ids(3) up by (fastforce simp: all_marked_upto_def set_flags_def chunk_views_def not_le split: if_splits)
  from ids(2) obtain c where c: "c \<in> set (db_chunks db)" "cr_ID c = ej_ChunkID (last page)" by blast
  have "length (filter (\<lambda>c. cr_ID c > m) cs) < length (filter (\<lambda>c. cr_ID c > n) cs)"
    if "c \<in> set cs" "m = cr_ID c" "n < m" for m and cs :: "chunk_row list"
    using that
  proof (induction cs)
    case (Cons x cs)
    have "length (filter (\<lambda>c. cr_ID c > m) cs) \<le> length (filter (\<lambda>c. cr_ID c > n) cs)"
      using Cons.prems(3) by (induction cs) auto
    with Cons show ?case by (cases "x = c") auto
  qed simp
  from this [OF c(1) refl] c(2) ids(1)
  show "length (filter (\<lambda>(i, f, e). ej_ChunkID (last page) < i) (chunk_views db)) < length (filter (\<lambda>(i, f, e). n < i) (chunk_views db))"
    by (simp add: chunk_views_def filter_map comp_def)
qed

lemma filter_set_flags: "length (filter (\<lambda>(i, f, e). n < i) (set_flags S b cs)) = length (filter (\<lambda>(i, f, e). n < i) cs)"
proof (induction cs)
  case (Cons c cs)
  obtain i f e where c: "c = (i, f, e)" by (metis prod.exhaust)
  have "set_flags S b (c # cs) = (i, f, if i \<in> S then b else e) # set_flags S b cs"
    by (simp add: set_flags_def c)
  with Cons.IH show ?case by (simp add: c)
qed (simp add: set_flags_def)

lemma run_pages_post:
  assumes "store_ok (w_db wd)" and "0 < rs_activeBatch rs" and "0 < wk_batchSz w"
    and "all_marked_upto n (chunk_views (w_db wd))"
  shows "\<exists>r rs' wd'. run_pages w n rs wd = Some (r, rs', wd') \<and> store_ok (w_db wd')
    \<and> bf_dim (w_vecs wd') = bf_dim (w_vecs wd)
    \<and> (\<exists>S. chunk_views (w_db wd') = set_flags S True (chunk_views (w_db wd)))
    \<and> (\<forall>u. r = Inr u \<longrightarrow> (\<forall>(i, f, e) \<in> set (chunk_views (w_db wd')). e))
    \<and> (\<forall>e. r = Inl e \<longrightarrow> \<not> (patient w \<and> right_dims w (bf_dim (w_vecs wd))))"
  using assms
proof (induction "length (filter (\<lambda>(i, f, e). n < i) (chunk_views (w_db wd)))" arbitrary: n rs wd rule: less_induct)
  case (less n wd rs)
  have none: "set_flags {} True cs = cs" for cs by (auto simp: set_flags_def intro!: map_idI)
  have inv: "db_inv (w_db wd)" using less.prems(1) by (simp add: store_ok_def)
  define page where "page = get_embed_page n page_size (w_db wd)"
  show ?case
  proof (cases "ctx_err w wd")
    case True
    then show ?thesis using less.prems
      by (subst run_pages.simps) (auto simp: patient_def ctx_err_def none intro!: exI [of _ "{}"])
  next
    case ctx: False
    show ?thesis
    proof (cases "page = []")
      case True
      then have "filter (\<lambda>c. \<not> cw_embedded c \<and> n < cr_ID c) (db_chunks (w_db wd)) = []"
        by (simp add: page_def get_embed_page_def sql_limit_def page_size_def)
      with less.prems(4) have "\<forall>(i, f, e) \<in> set (chunk_views (w_db wd)). e"
        by (fastforce simp: all_marked_upto_def chunk_views_def filter_empty_conv)
      with True ctx less.prems show ?thesis
        by (subst run_pages.simps) (auto simp: page_def none intro!: exI [of _ "{}"])
    next
      case False
      from run_slices_post [OF less.prems(1-3) le0, of page, unfolded drop_0] obtain r rs1 wd1 S where sl:
        "run_slices w page 0 rs wd = Some (r, rs1, wd1)" "store_ok (w_db wd1)" "0 < rs_activeBatch rs1"
        "bf_dim (w_vecs wd1) = bf_dim (w_vecs wd)" "chunk_views (w_db wd1) = set_flags S True (chunk_views (w_db wd))"
        "\<And>u. r = Inr u \<Longrightarrow> chunk_views (w_db wd1) = set_flags (set (map ej_ChunkID page)) True (chunk_views (w_db wd))"
        "\<And>e. r = Inl e \<Longrightarrow> \<not> (patient w \<and> right_dims w (bf_dim (w_vecs wd)))" by blast
      have step: "run_pages w n rs wd = (case r of Inl e \<Rightarrow> Some (Inl e, rs1, wd1)
          | Inr _ \<Rightarrow> run_pages w (ej_ChunkID (last page)) rs1 wd1)"
        using ctx False sl(1) by (subst run_pages.simps) (simp add: Let_def flip: page_def)
      show ?thesis
      proof (cases r)
        case (Inl e)
        with step sl show ?thesis by auto
      next
        case (Inr u)
        note views = sl(6) [OF Inr] and prog = page_progress [OF inv page_def False less.prems(4)]
        have "length (filter (\<lambda>(i, f, e). ej_ChunkID (last page) < i) (chunk_views (w_db wd1)))
            < length (filter (\<lambda>(i, f, e). n < i) (chunk_views (w_db wd)))"
          using prog(2) by (simp add: views filter_set_flags)
        note smaller = this
        have "all_marked_upto (ej_ChunkID (last page)) (chunk_views (w_db wd1))" unfolding views by (rule prog(1))
        from less.hyps [OF smaller sl(2,3) less.prems(3) this] obtain r2 rs2 wd2 T where next_pages:
          "run_pages w (ej_ChunkID (last page)) rs1 wd1 = Some (r2, rs2, wd2)" "store_ok (w_db wd2)"
          "bf_dim (w_vecs wd2) = bf_dim (w_vecs wd1)" "chunk_views (w_db wd2) = set_flags T True (chunk_views (w_db wd1))"
          "\<And>u. r2 = Inr u \<Longrightarrow> \<forall>(i, f, e) \<in> set (chunk_views (w_db wd2)). e"
          "\<And>e. r2 = Inl e \<Longrightarrow> \<not> (patient w \<and> right_dims w (bf_dim (w_vecs wd1)))" by blast
        have ex: "\<exists>S. chunk_views (w_db wd2) = set_flags S True (chunk_views (w_db wd))"
          using next_pages(4) sl(5) by (auto simp: set_flags_twice)
        have "run_pages w n rs wd = Some (r2, rs2, wd2)" using step Inr next_pages(1) by simp
        then show ?thesis using next_pages(2,3,5,6) ex unfolding sl(4) by blast
      qed
    qed
  qed
qed

section \<open>The deferred chunks\<close>

lemma deferred_pass_post:
  assumes "deferred_pass w jobs still rs wd = (r, rs', wd')"
  shows "w_db wd' = w_db wd \<and> bf_dim (w_vecs wd') = bf_dim (w_vecs wd)
    \<and> (\<forall>e. r = Inl e \<longrightarrow> \<not> (patient w \<and> right_dims w (bf_dim (w_vecs wd))))"
  using assms
proof (induction jobs arbitrary: still rs wd)
  case (Cons job jobs)
  show ?case
  proof (cases "ctx_err w wd")
    case True
    with Cons.prems show ?thesis by (auto simp: patient_def ctx_err_def)
  next
    case ctx: False
    obtain ok wd1 where a: "breaker_allow wd = (ok, wd1)" by (cases "breaker_allow wd")
    have w1: "w_db wd1 = w_db wd" "w_vecs wd1 = w_vecs wd" using breaker_fields(1,2) [of wd] a by simp_all
    show ?thesis
    proof (cases ok)
      case False
      with Cons.prems ctx a have "deferred_pass w jobs (still @ [job]) rs wd1 = (r, rs', wd')" by simp
      from Cons.IH [OF this] w1 show ?thesis by simp
    next
      case ok: True
      obtain q wd2 where c: "call_embedder w [wk_prefix w @ ej_Content job] wd1 = (q, wd2)"
        by (cases "call_embedder w [wk_prefix w @ ej_Content job] wd1")
      have w2: "w_db wd2 = w_db wd" "w_vecs wd2 = w_vecs wd" using call_embedder_fields [OF c] w1 by simp_all
      show ?thesis
      proof (cases q)
        case (Inl e)
        show ?thesis
        proof (cases "errors_is e ErrPermanentEmbed")
          case True
          with Cons.prems ctx a ok c Inl
          have "deferred_pass w jobs still (rs\<lparr>rs_skipped := rs_skipped rs + 1\<rparr>) wd2 = (r, rs', wd')" by simp
          from Cons.IH [OF this] w2 show ?thesis by simp
        next
          case False
          with Cons.prems ctx a ok c Inl
          have "deferred_pass w jobs (still @ [job]) rs (breaker_failure wd2) = (r, rs', wd')" by simp
          from Cons.IH [OF this] w2 show ?thesis by (simp add: breaker_fields)
        qed
      next
        case (Inr vecs)
        then obtain n where n: "embed_batch (fst (wk_http w n [wk_prefix w @ ej_Content job])) [wk_prefix w @ ej_Content job] = Inr vecs"
          using call_embedder_fields [OF c] by metis
        then have ans: "answered w [wk_prefix w @ ej_Content job] vecs" and len: "length vecs = 1"
          using embed_batch_length [OF n] by (auto simp: answered_def)
        obtain cids cvs rej where san: "sanitize_embeddings [ej_ChunkID job] [hd vecs] 0 = (cids, cvs, rej)" by (metis prod.exhaust)
        have cvs: "length cids = length cvs" "set cvs \<subseteq> set vecs"
          using sanitize_sub [OF san] len by (cases vecs; auto)+
        show ?thesis
        proof (cases "cids = []")
          case True
          with Cons.prems ctx a ok c Inr san have "deferred_pass w jobs still (rs\<lparr>rs_skipped := rs_skipped rs + 1\<rparr>) (breaker_success wd2) = (r, rs', wd')"
            by (simp add: Let_def)
          from Cons.IH [OF this] w2 show ?thesis by (simp add: breaker_fields)
        next
          case False
          obtain u wd4 where up: "upsert_vec (hd cids) (hd cvs) (breaker_success wd2) = (u, wd4)" by (metis prod.exhaust)
          have w4: "w_db wd4 = w_db wd" "bf_dim (w_vecs wd4) = bf_dim (w_vecs wd)"
            "\<And>e. u = Inl e \<Longrightarrow> int (length (hd cvs)) \<noteq> bf_dim (w_vecs wd)"
            using up w2 by (auto simp: upsert_vec_def bf_upsert_def breaker_fields split: if_splits)
          have "hd cvs \<in> set vecs" using False cvs by (cases cvs) auto
          then have d: "right_dims w (bf_dim (w_vecs wd)) \<Longrightarrow> int (length (hd cvs)) = bf_dim (w_vecs wd)"
            using ans by (auto simp: right_dims_def)
          show ?thesis
          proof (cases u)
            case (Inl e)
            with Cons.prems ctx a ok c Inr san False up have "r = Inl (ErrWrap ''upsert deferred chunk'' e)" "wd' = wd4"
              by (simp_all add: Let_def)
            with w4 d Inl show ?thesis by auto
          next
            case (Inr _)
            with Cons.prems ctx a ok c \<open>q = Inr vecs\<close> san False up have "deferred_pass w jobs still rs wd4 = (r, rs', wd')"
              by (simp add: Let_def)
            from Cons.IH [OF this] w4 show ?thesis by simp
          qed
        qed
      qed
    qed
  qed
qed auto

lemma deferred_passes_post:
  assumes "deferred_passes w n rs wd = (r, rs', wd')"
  shows "w_db wd' = w_db wd \<and> bf_dim (w_vecs wd') = bf_dim (w_vecs wd)
    \<and> (\<forall>e. r = Inl e \<longrightarrow> \<not> (patient w \<and> right_dims w (bf_dim (w_vecs wd))))"
  using assms
proof (induction n arbitrary: rs wd)
  case (Suc n)
  obtain q rs1 wd1 where p: "deferred_pass w (rs_deferred rs) [] rs wd = (q, rs1, wd1)" by (metis prod.exhaust)
  note post = deferred_pass_post [OF p]
  show ?case
  proof (cases "rs_deferred rs = []")
    case False
    show ?thesis
    proof (cases q)
      case (Inl e)
      with False Suc.prems p post show ?thesis by auto
    next
      case (Inr still)
      obtain slept wd2 where s: "sleep w (2 * second) wd1 = (slept, wd2)" by (cases "sleep w (2 * second) wd1")
      have w2: "w_db wd2 = w_db wd1" "w_vecs wd2 = w_vecs wd1" "patient w \<Longrightarrow> slept"
        using s by (auto simp: sleep_def patient_def)
      consider "r = Inl ErrContext" "wd' = wd2" "\<not> slept"
        | rs2 wd3 where "deferred_passes w n rs2 wd3 = (r, rs', wd')" "w_db wd3 = w_db wd1" "w_vecs wd3 = w_vecs wd1"
        using False Suc.prems p Inr s w2(1,2) by (auto simp: Let_def split: if_splits)
      then show ?thesis
      proof cases
        case 1
        with post w2 show ?thesis by auto
      next
        case 2
        from Suc.IH [OF 2(1)] 2(2,3) post show ?thesis by simp
      qed
    qed
  qed (use Suc.prems in auto)
qed auto

lemma retry_deferred_post:
  assumes "retry_deferred w rs wd = (r, rs', wd')"
  shows "w_db wd' = w_db wd \<and> bf_dim (w_vecs wd') = bf_dim (w_vecs wd)
    \<and> (\<forall>e. r = Inl e \<longrightarrow> \<not> (patient w \<and> right_dims w (bf_dim (w_vecs wd))))"
proof (cases "rs_deferred rs = []")
  case False
  obtain q rs1 wd1 where p: "deferred_passes w 3 rs (report rs (Some (int (length (rs_deferred rs)))) wd) = (q, rs1, wd1)"
    by (metis prod.exhaust)
  from deferred_passes_post [OF p] False assms p show ?thesis
    by (cases q) (auto simp: retry_deferred_def report_def)
qed (use assms in \<open>auto simp: retry_deferred_def\<close>)

text \<open>The whole run.\<close>

lemma run_from_db_post:
  assumes ok: "store_ok (w_db wd)" and sz: "0 < wk_batchSz w"
  shows "\<exists>r wd'. run_from_db w wd = Some (r, wd') \<and> store_ok (w_db wd')
    \<and> (\<exists>S. chunk_views (w_db wd') = set_flags S True (chunk_views (w_db wd)))
    \<and> (\<forall>u. r = Inr u \<longrightarrow> count_chunks_needing_embedding (w_db wd') = 0)
    \<and> (\<forall>e. r = Inl e \<longrightarrow> \<not> (patient w \<and> right_dims w (bf_dim (w_vecs wd))))"
proof -
  have none: "set_flags {} True cs = cs" for cs by (auto simp: set_flags_def intro!: map_idI)
  define rs where "rs = \<lparr>rs_embedded = 0, rs_skipped = 0, rs_activeBatch = wk_batchSz w, rs_deferred = [],
    rs_total = count_chunks_needing_embedding (w_db wd)\<rparr>"
  consider (cancelled) "ctx_err w wd" | (nothing) "\<not> ctx_err w wd" "count_chunks_needing_embedding (w_db wd) = 0"
    | (work) "\<not> ctx_err w wd" "count_chunks_needing_embedding (w_db wd) \<noteq> 0" by blast
  then show ?thesis
  proof cases
    case cancelled
    then show ?thesis
      using ok by (auto simp: run_from_db_def patient_def ctx_err_def none intro!: exI [of _ "{}"])
  next
    case nothing
    then show ?thesis
      using ok by (auto simp: run_from_db_def Let_def report_def none intro!: exI [of _ "{}"])
  next
    case work
    have "\<forall>(i, f, e) \<in> set (chunk_views (w_db wd)). \<not> i \<le> 0"
      using ok by (auto simp: store_ok_def db_inv_def wf_ids_def chunk_views_def)
    then have "all_marked_upto 0 (chunk_views (w_db wd))" by (auto simp: all_marked_upto_def)
    moreover have "0 < rs_activeBatch rs" using sz by (simp add: rs_def)
    ultimately obtain r rs1 wd1 S where pages:
      "run_pages w 0 rs wd = Some (r, rs1, wd1)" "store_ok (w_db wd1)" "bf_dim (w_vecs wd1) = bf_dim (w_vecs wd)"
      "chunk_views (w_db wd1) = set_flags S True (chunk_views (w_db wd))"
      "\<And>u. r = Inr u \<Longrightarrow> \<forall>(i, f, e) \<in> set (chunk_views (w_db wd1)). e"
      "\<And>e. r = Inl e \<Longrightarrow> \<not> (patient w \<and> right_dims w (bf_dim (w_vecs wd)))"
      using run_pages_post [OF ok _ sz, of rs 0] by blast
    have run: "run_from_db w wd = (case r of Inl e \<Rightarrow> Some (Inl e, wd1) | Inr _ \<Rightarrow>
        (case retry_deferred w rs1 wd1 of (Inl e, rs2, wd2) \<Rightarrow> Some (Inl e, wd2)
         | (Inr _, rs2, wd2) \<Rightarrow> Some (Inr (), if rs_skipped rs2 > 0 then report rs2 None wd2 else wd2)))"
      using work pages(1) by (simp add: run_from_db_def Let_def flip: rs_def)
    show ?thesis
    proof (cases r)
      case (Inl e)
      with run pages show ?thesis by auto
    next
      case (Inr u)
      obtain q rs2 wd2 where rd: "retry_deferred w rs1 wd1 = (q, rs2, wd2)" by (metis prod.exhaust)
      note post = retry_deferred_post [OF rd]
      have "count_chunks_needing_embedding (w_db wd1) = 0"
        using pages(5) [OF Inr] by (auto simp: count_chunks_needing_embedding_def chunk_views_def filter_empty_conv)
      with run Inr rd post pages show ?thesis by (cases q) (auto simp: report_def)
    qed
  qed
qed

section \<open>A silent service\<close>

definition silent :: "worker \<Rightarrow> bool" where
  "silent w \<longleftrightarrow> (\<forall>n texts. fst (wk_http w n texts) = NoReply)"

lemma silent_answered: "silent w \<Longrightarrow> \<not> answered w texts vs"
  by (auto simp: silent_def answered_def embed_batch_def)

lemma mark_and_count_vecs:
  assumes "mark_and_count w c batch rs wd = (r, rs', wd')" shows "w_vecs wd' = w_vecs wd"
  using assms by (auto simp: mark_and_count_def mark_embedded_db_def Let_def report_def split: prod.splits sum.splits if_splits)

lemma silent_slice:
  assumes s: "silent w" and act: "0 < rs_activeBatch rs" and sz: "0 < wk_batchSz w"
    and r: "reconcile_and_embed w batch rs wd = (r, rs', wd')"
  shows "w_vecs wd' = w_vecs wd"
proof -
  define need where "need = filter (\<lambda>j. bf_has (ej_ChunkID j) (w_vecs wd) \<noteq> Inr True) batch"
  define texts where "texts = map (\<lambda>j. wk_prefix w @ ej_Content j) need"
  obtain q rs1 wd1 where e: "embed_with_retry w texts rs wd = (q, rs1, wd1)" by (metis prod.exhaust)
  from embed_attempts_spec [OF e [unfolded embed_with_retry_def] act sz] silent_answered [OF s]
  obtain err where q: "q = Inl err" and v: "w_vecs wd1 = w_vecs wd" by (cases q) auto
  have rep: "w_vecs (report x y wd1) = w_vecs wd" for x y using v by (simp add: report_def)
  show ?thesis
    using r e v q rep mark_and_count_vecs
    unfolding reconcile_and_embed_def Let_def need_def [symmetric] texts_def [symmetric]
    by (auto split: if_splits)
qed

lemma run_slices_silent:
  "run_slices w page i rs wd = Some y \<Longrightarrow> silent w \<Longrightarrow> store_ok (w_db wd) \<Longrightarrow> 0 < rs_activeBatch rs \<Longrightarrow> 0 < wk_batchSz w \<Longrightarrow>
    w_vecs (snd (snd y)) = w_vecs wd"
proof (induction rule: run_slices.raw_induct [rotated, consumes 1, case_names 1])
  case (1 run w page i rs wd y)
  show ?case
  proof (cases "i < length page")
    case True
    define e where "e = (if i + rs_activeBatch rs > length page then length page else i + rs_activeBatch rs)"
    define b where "b = take (e - i) (drop i page)"
    obtain r1 rs1 wd1 where rec: "reconcile_and_embed w b rs wd = (r1, rs1, wd1)" by (metis prod.exhaust)
    have post: "store_ok (w_db wd1)" "0 < rs_activeBatch rs1" "w_vecs wd1 = w_vecs wd"
      using reconcile_post [OF 1(4,5,6) rec] silent_slice [OF 1(3,5,6) rec] by (simp_all add: slice_post_def)
    have "(case r1 of Inl err \<Rightarrow> if errors_is err ErrBatchShrunk then run w page i rs1 wd1 else Some (Inl err, rs1, wd1)
        | Inr _ \<Rightarrow> run w page e rs1 wd1) = Some y"
      using 1(2) True rec by (cases r1) (simp_all add: Let_def flip: e_def b_def)
    then show ?thesis
      using 1(1) [OF _ 1(3) post(1,2) 1(6)] post(3) by (auto split: sum.splits if_splits)
  qed (use 1(2) in auto)
qed

lemma run_pages_silent:
  "run_pages w n rs wd = Some y \<Longrightarrow> silent w \<Longrightarrow> store_ok (w_db wd) \<Longrightarrow> 0 < rs_activeBatch rs \<Longrightarrow> 0 < wk_batchSz w \<Longrightarrow>
    w_vecs (snd (snd y)) = w_vecs wd"
proof (induction rule: run_pages.raw_induct [rotated, consumes 1, case_names 1])
  case (1 run w n rs wd y)
  define page where "page = get_embed_page n page_size (w_db wd)"
  show ?case
  proof (cases "ctx_err w wd \<or> page = []")
    case True
    with 1(2) show ?thesis by (auto simp: Let_def simp flip: page_def split: if_splits)
  next
    case False
    from run_slices_post [OF 1(4,5,6) le0, of page] obtain r rs1 wd1 where
      sl: "run_slices w page 0 rs wd = Some (r, rs1, wd1)" "store_ok (w_db wd1)" "0 < rs_activeBatch rs1" by blast
    have same: "w_vecs wd1 = w_vecs wd" using run_slices_silent [OF sl(1) 1(3-6)] by simp
    have "(case r of Inl e \<Rightarrow> Some (Inl e, rs1, wd1) | Inr _ \<Rightarrow> run w (ej_ChunkID (last page)) rs1 wd1) = Some y"
      using 1(2) False sl(1) by (simp add: Let_def flip: page_def)
    then show ?thesis
      using 1(1) [OF _ 1(3) sl(2,3) 1(6)] same by (auto split: sum.splits)
  qed
qed

lemma deferred_pass_silent:
  assumes "deferred_pass w jobs still rs wd = (r, rs', wd')" and "silent w"
  shows "w_vecs wd' = w_vecs wd"
  using assms(1)
proof (induction jobs arbitrary: still rs wd)
  case (Cons job jobs)
  obtain ok wd1 where a: "breaker_allow wd = (ok, wd1)" by (cases "breaker_allow wd")
  obtain q wd2 where c: "call_embedder w [wk_prefix w @ ej_Content job] wd1 = (q, wd2)"
    by (cases "call_embedder w [wk_prefix w @ ej_Content job] wd1")
  have same: "w_vecs wd1 = w_vecs wd" "w_vecs wd2 = w_vecs wd"
    using breaker_fields(2) [of wd] a call_embedder_fields [OF c] by simp_all
  obtain e where q: "q = Inl e"
    using call_embedder_fields [OF c] assms(2) by (auto simp: silent_def embed_batch_def)
  show ?case
    using Cons.prems a c q same Cons.IH by (auto simp: breaker_fields split: if_splits)
qed auto

lemma deferred_passes_silent:
  assumes "deferred_passes w n rs wd = (r, rs', wd')" and "silent w"
  shows "w_vecs wd' = w_vecs wd"
  using assms(1)
proof (induction n arbitrary: rs wd)
  case (Suc n)
  obtain q rs1 wd1 where p: "deferred_pass w (rs_deferred rs) [] rs wd = (q, rs1, wd1)" by (metis prod.exhaust)
  have "w_vecs wd1 = w_vecs wd" by (rule deferred_pass_silent [OF p assms(2)])
  with p Suc.prems Suc.IH show ?case
    by (auto simp: Let_def sleep_def split: sum.splits if_splits)
qed auto

lemma retry_deferred_silent:
  assumes "retry_deferred w rs wd = (r, rs', wd')" and "silent w"
  shows "w_vecs wd' = w_vecs wd"
  using assms deferred_passes_silent [OF _ assms(2), of 3 rs "report rs (Some (int (length (rs_deferred rs)))) wd"]
  by (auto simp: retry_deferred_def report_def split: prod.splits sum.splits if_splits)

lemma run_from_db_silent:
  assumes "run_from_db w wd = Some (r, wd')" and "silent w" and "store_ok (w_db wd)" and "0 < wk_batchSz w"
  shows "w_vecs wd' = w_vecs wd"
proof -
  define rs where "rs = \<lparr>rs_embedded = 0, rs_skipped = 0, rs_activeBatch = wk_batchSz w, rs_deferred = [],
    rs_total = count_chunks_needing_embedding (w_db wd)\<rparr>"
  have act: "0 < rs_activeBatch rs" using assms(4) by (simp add: rs_def)
  have pages: "w_vecs wd1 = w_vecs wd" if "run_pages w 0 rs wd = Some (q, rs1, wd1)" for q rs1 wd1
    using run_pages_silent [OF that assms(2,3) act assms(4)] by simp
  have retry: "w_vecs wd2 = w_vecs wd1" if "retry_deferred w rs1 wd1 = (q, rs2, wd2)" for q rs1 rs2 wd1 wd2
    by (rule retry_deferred_silent [OF that assms(2)])
  show ?thesis
  proof (cases "ctx_err w wd \<or> count_chunks_needing_embedding (w_db wd) = 0")
    case True
    with assms(1) show ?thesis by (auto simp: run_from_db_def Let_def report_def split: if_splits)
  next
    case False
    with assms(1) obtain q rs1 wd1 where p: "run_pages w 0 rs wd = Some (q, rs1, wd1)"
      by (auto simp: run_from_db_def Let_def bind_eq_Some_conv simp flip: rs_def)
    obtain u rs2 wd2 where rd: "retry_deferred w rs1 wd1 = (u, rs2, wd2)" by (metis prod.exhaust)
    from False assms(1) p rd have "wd' = wd1 \<or> wd' = wd2 \<or> wd' = report rs2 None wd2"
      by (cases q; cases u) (auto simp: run_from_db_def Let_def simp flip: rs_def)
    with pages [OF p] retry [OF rd] show ?thesis by (auto simp: report_def)
  qed
qed

section \<open>Concrete workers\<close>

definition sample_world :: world where
  "sample_world = \<lparr>w_cb = new_circuit_breaker, w_vecs = new_bf_store 2, w_db = sample_db, w_now = 0, w_calls = 0, w_reports = []\<rparr>"

definition worker_with :: "http_reply \<Rightarrow> worker" where
  "worker_with reply = \<lparr>wk_http = (\<lambda>_ _. (reply, 0)), wk_done = (\<lambda>_. False), wk_batchSz = 2, wk_prefix = []\<rparr>"

lemma sample_world_ok: "store_ok (w_db sample_world)" "0 < wk_batchSz (worker_with reply)" "patient (worker_with reply)"
  by (simp_all add: sample_world_def worker_with_def patient_def sample_db_ok)

lemma sample_silent: "silent (worker_with NoReply)"
  by (simp add: silent_def worker_with_def)

section \<open>Properties\<close>

text \<open>C38. \<open>RunFromDB\<close> returns, whatever the embedding service answers, however long it takes and whenever
  the context is cancelled: the adaptive batch size and the paging cannot loop. It leaves the store
  in order and changes the flags of chunks only from pending to embedded.\<close>

theorem run_from_db_returns:
  assumes "store_ok (w_db wd)" and "0 < wk_batchSz w"
  shows "\<exists>r wd' S. run_from_db w wd = Some (r, wd') \<and> store_ok (w_db wd')
    \<and> chunk_views (w_db wd') = set_flags S True (chunk_views (w_db wd))"
  using run_from_db_post [OF assms] by blast

theorem run_from_db_returns_witness:
  "\<exists>r wd' S. run_from_db (worker_with (Reply 500 [] None)) sample_world = Some (r, wd') \<and> store_ok (w_db wd')
    \<and> chunk_views (w_db wd') = set_flags S True (chunk_views sample_db)"
  using run_from_db_returns [OF sample_world_ok(1,2)] by (simp add: sample_world_def)

text \<open>With a context that is never cancelled and a service whose vectors, when it sends any, have the
  store's dimension, \<open>RunFromDB\<close> succeeds and no chunk is left to embed, even if every call fails.\<close>

theorem run_from_db_completes:
  assumes "store_ok (w_db wd)" and "0 < wk_batchSz w" and "patient w" and "right_dims w (bf_dim (w_vecs wd))"
  shows "\<exists>wd'. run_from_db w wd = Some (Inr (), wd') \<and> store_ok (w_db wd')
    \<and> count_chunks_needing_embedding (w_db wd') = 0"
proof -
  from run_from_db_post [OF assms(1,2)] obtain r wd' where r: "run_from_db w wd = Some (r, wd')" "store_ok (w_db wd')"
    "\<And>u. r = Inr u \<Longrightarrow> count_chunks_needing_embedding (w_db wd') = 0"
    "\<And>e. r = Inl e \<Longrightarrow> \<not> (patient w \<and> right_dims w (bf_dim (w_vecs wd)))" by blast
  with assms(3,4) show ?thesis by (cases r) auto
qed

theorem run_from_db_completes_witness:
  "\<exists>wd'. run_from_db (worker_with NoReply) sample_world = Some (Inr (), wd') \<and> store_ok (w_db wd')
    \<and> count_chunks_needing_embedding (w_db wd') = 0"
  by (rule run_from_db_completes [OF sample_world_ok])
    (simp add: right_dims_def silent_answered [OF sample_silent])

text \<open>C19. A service that is down loses embeddings silently: the run succeeds, every chunk is recorded as
  embedded, and the vector store is what it was, so nothing will ever embed those chunks.\<close>

theorem run_from_db_marks_without_vectors:
  assumes "store_ok (w_db wd)" and "0 < wk_batchSz w" and "patient w" and "silent w"
  shows "\<exists>wd'. run_from_db w wd = Some (Inr (), wd') \<and> count_chunks_needing_embedding (w_db wd') = 0
    \<and> w_vecs wd' = w_vecs wd"
proof -
  from run_from_db_post [OF assms(1,2)] obtain r wd' where r: "run_from_db w wd = Some (r, wd')"
    "\<And>u. r = Inr u \<Longrightarrow> count_chunks_needing_embedding (w_db wd') = 0"
    "\<And>e. r = Inl e \<Longrightarrow> \<not> (patient w \<and> right_dims w (bf_dim (w_vecs wd)))" by blast
  have "right_dims w d" for d using silent_answered [OF assms(4)] by (simp add: right_dims_def)
  with r assms(3) obtain u where "r = Inr u" by (cases r) auto
  with r(1,2) run_from_db_silent [OF r(1) assms(4,1,2)] show ?thesis by auto
qed

theorem run_from_db_marks_without_vectors_witness:
  "\<exists>wd'. run_from_db (worker_with NoReply) sample_world = Some (Inr (), wd')
    \<and> count_chunks_needing_embedding sample_db = 4 \<and> count_chunks_needing_embedding (w_db wd') = 0
    \<and> bf_vectors (w_vecs wd') = []"
proof -
  have "count_chunks_needing_embedding sample_db = 4"
    by (simp add: count_chunks_needing_embedding_def sample_defs)
  with run_from_db_marks_without_vectors [OF sample_world_ok sample_silent] show ?thesis
    by (auto simp: sample_world_def new_bf_store_def)
qed

text \<open>C20. A 4xx reply to the probe of a half-open breaker wedges it: \<open>embedWithRetry\<close> gives up without
  telling the breaker the outcome, so the probe stays outstanding and \<open>Allow\<close> refuses every later call.\<close>

theorem permanent_error_wedges_breaker:
  assumes "cb_state (w_cb wd) = StateOpen" and "w_now wd - cb_lastOpenTime (w_cb wd) > cb_currentCooldown (w_cb wd)"
    and "\<not> ctx_err w wd" and "fst (wk_http w (w_calls wd) texts) = Reply status body d" and "400 \<le> status" and "status < 500"
  shows "\<exists>wd'. embed_with_retry w texts rs wd = (Inl (ErrEmbedHTTP status body), rs, wd')
    \<and> cb_state (w_cb wd') = StateHalfOpen \<and> (\<forall>t. cb_allow t (w_cb wd') = (False, w_cb wd'))"
proof -
  obtain dl where h: "wk_http w (w_calls wd) texts = (Reply status body d, dl)" using assms(4) by (metis fst_conv prod.exhaust)
  have "errors_is (ErrEmbedHTTP status body) ErrPermanentEmbed" using assms(5,6) by simp
  then show ?thesis
    using assms(1-3,5,6) h
    by (auto simp: embed_with_retry_def numeral_3_eq_3 breaker_allow_def cb_allow_def call_embedder_def embed_batch_def ctx_err_def Let_def)
qed

theorem permanent_error_wedges_breaker_witness:
  "\<exists>wd'. embed_with_retry (worker_with (Reply 400 [] None)) [''x'']
        \<lparr>rs_embedded = 0, rs_skipped = 0, rs_activeBatch = 2, rs_deferred = [], rs_total = 1\<rparr>
        (sample_world\<lparr>w_cb := new_circuit_breaker\<lparr>cb_state := StateOpen\<rparr>, w_now := 6 * minute\<rparr>)
      = (Inl (ErrEmbedHTTP 400 []),
         \<lparr>rs_embedded = 0, rs_skipped = 0, rs_activeBatch = 2, rs_deferred = [], rs_total = 1\<rparr>, wd')
    \<and> cb_state (w_cb wd') = StateHalfOpen \<and> (\<forall>t. cb_allow t (w_cb wd') = (False, w_cb wd'))"
  by (rule permanent_error_wedges_breaker)
    (simp_all add: sample_world_def worker_with_def new_circuit_breaker_def ctx_err_def minute_def)

text \<open>The queue's worker records a chunk as embedded only when its vector is in the store: every chunk
  that \<open>processBatch\<close> newly marks has a stored vector that is finite and not zero.\<close>

theorem process_batch_marks_stored:
  assumes "store_ok (w_db wd)" and "bf_inv (w_vecs wd)"
    and "(i, f, True) \<in> set (chunk_views (w_db (process_batch w batch wd)))" and "(i, f, True) \<notin> set (chunk_views (w_db wd))"
  shows "\<exists>v. bf_lookup (w_vecs (process_batch w batch wd)) i = Some v \<and> healthy_vec v"
proof -
  obtain ok wd1 where a: "breaker_allow wd = (ok, wd1)" by (cases "breaker_allow wd")
  obtain q wd2 where c: "call_embedder w (map (\<lambda>j. wk_prefix w @ ej_Content j) batch) wd1 = (q, wd2)"
    by (cases "call_embedder w (map (\<lambda>j. wk_prefix w @ ej_Content j) batch) wd1")
  have same: "w_db wd2 = w_db wd" "w_vecs wd2 = w_vecs wd" "w_db wd1 = w_db wd"
    using breaker_fields(1,2) [of wd] a call_embedder_fields [OF c] by simp_all
  have changed: "chunk_views (w_db (process_batch w batch wd)) \<noteq> chunk_views (w_db wd)" using assms(3,4) by auto
  then have ok: "ok" using a same by (auto simp: process_batch_def split: if_splits)
  with changed a c same obtain vs where q: "q = Inr vs" by (cases q) (auto simp: process_batch_def breaker_fields)
  obtain cids cvs rej where san: "sanitize_embeddings (map ej_ChunkID batch) vs 0 = (cids, cvs, rej)" by (metis prod.exhaust)
  obtain u wd4 where up: "upsert_vecs cids cvs (breaker_success wd2) = (u, wd4)" by (metis prod.exhaust)
  have w4: "w_db wd4 = w_db wd" using upsert_vecs_fields [OF up] same by (simp add: breaker_fields)
  have pb: "process_batch w batch wd = (if cids = [] then breaker_success wd2 else case u of Inl e \<Rightarrow> wd4
      | Inr _ \<Rightarrow> wd4\<lparr>w_db := snd (mark_chunks_embedded cids (w_db wd4))\<rparr>)"
    using a ok c q san up by (simp add: process_batch_def Let_def split: sum.split)
  with changed w4 same obtain x where u: "u = Inr x" and ne: "cids \<noteq> []"
    by (cases u) (auto simp: breaker_fields split: if_splits)
  from sq.mark_embedded_inv [of True "w_db wd" "db_fts_triggers (w_db wd)" cids] assms(1)
  have "chunk_views (snd (mark_chunks_embedded cids (w_db wd))) = set_flags (set cids) True (chunk_views (w_db wd))"
    by (auto simp: mark_chunks_embedded_def with_write_tx_def)
  with assms(3,4) pb u ne w4 have i: "i \<in> set cids" by (auto simp: set_flags_def split: if_splits)
  from up u have b: "bf_upsert_batch cids cvs (w_vecs wd) = (Inr (), w_vecs wd4)"
    using same by (auto simp: upsert_vecs_def breaker_fields split: prod.splits)
  from bf.upsert_ok [OF assms(2) b]
  have l: "length cids = length cvs" "bf_lookup (w_vecs wd4) = bf_lookup (w_vecs wd) ++ map_of (rev (zip cids cvs))" by simp_all
  from i l(1) have "i \<in> fst ` set (zip cids cvs)" by (metis map_fst_zip set_map)
  then obtain v where v: "map_of (rev (zip cids cvs)) i = Some v" by (metis map_of_eq_None_iff not_None_eq set_rev set_map)
  then have "v \<in> set cvs" by (metis map_of_SomeD set_rev set_zip_rightD)
  then have "healthy_vec v" using sanitize_sub [OF san] by blast
  with v l(2) pb u ne show ?thesis by (simp add: map_add_def)
qed

theorem process_batch_marks_stored_witness:
  "\<exists>v. bf_lookup (w_vecs (process_batch (worker_with (Reply 200 [] (Some [[F32 1, F32 0]])))
      [\<lparr>ej_ChunkID = 1, ej_Content = ''foo''\<rparr>] sample_world)) 1 = Some v \<and> healthy_vec v"
proof (rule process_batch_marks_stored)
  let ?w = "worker_with (Reply 200 [] (Some [[F32 1, F32 0]]))" and ?b = "[\<lparr>ej_ChunkID = 1, ej_Content = ''foo''\<rparr>]"
  show "store_ok (w_db sample_world)" by (rule sample_world_ok)
  show "bf_inv (w_vecs sample_world)" by (simp add: sample_world_def new_bf_store_def bf_inv_def)
  have "w_db (process_batch ?w ?b sample_world) = snd (mark_chunks_embedded [1] sample_db)"
    by (simp add: process_batch_def breaker_allow_def cb_allow_def sample_world_def new_circuit_breaker_def worker_with_def
        call_embedder_def embed_batch_def breaker_success_def sanitize_embeddings_def scan_vector_health_def upsert_vecs_def
        bf_upsert_batch_def check_batch_dims_def check_batch_lengths_def new_bf_store_def Let_def)
  moreover from sq.mark_embedded_inv [of True sample_db "db_fts_triggers sample_db" "[1]"] sample_db_ok
  have "chunk_views (snd (mark_chunks_embedded [1] sample_db)) = set_flags {1} True (chunk_views sample_db)"
    by (auto simp: mark_chunks_embedded_def with_write_tx_def)
  ultimately show "(1, 1, True) \<in> set (chunk_views (w_db (process_batch ?w ?b sample_world)))"
    by (simp add: chunk_views_def set_flags_def sample_defs)
  show "(1, 1, True) \<notin> set (chunk_views (w_db sample_world))"
    by (simp add: chunk_views_def sample_defs sample_world_def)
qed

end
