(* ===== verification/Writer_Queue.thy ===== *)
theory Writer_Queue
  imports Core_Types
begin

text \<open>
  The queue of \<open>internal/daemon/writer.go\<close>: the writer goroutine, its producers and the shutdown
  protocol, as a step relation. The mutex makes every step below atomic: \<open>Submit\<close> checks
  \<open>closed\<close> and sends, or waits on the condition variable; \<open>AddProducer\<close> refuses once draining
  has begun; \<open>drain\<close> waits for the producers, closes the queue and empties it. The wait group is the
  set of its registrations. Anybody may call \<open>Submit\<close> at any time: a goroutine of a registered
  producer (\<open>Some p\<close>), whose registration ends only after its calls have returned (\<open>IndexAll\<close> joins its
  workers first), or one without a registration (\<open>None\<close>), as \<open>IndexAll\<close> does for its sync job after
  \<open>RemoveProducer\<close>. A waiting call may retry whenever it likes, which includes every \<open>Signal\<close> and
  \<open>Broadcast\<close>. The jobs accepted, processed and refused are recorded.
\<close>

datatype writer_phase = Running | AwaitingProducers | Draining | Finished

record writer_mgr =
  wm_ch :: "write_job list"
  wm_cap :: nat
  wm_producers :: "nat set"
  wm_blocked :: "(nat option \<times> write_job) list"
  wm_draining :: bool
  wm_closed :: bool
  wm_phase :: writer_phase
  wm_timed_out :: bool
  wm_accepted :: "write_job list"
  wm_processed :: "write_job list"
  wm_refused :: "(nat option \<times> write_job) list"

definition new_writer_manager :: "nat \<Rightarrow> writer_mgr" where
  "new_writer_manager chanSize =
     \<lparr>wm_ch = [], wm_cap = chanSize, wm_producers = {}, wm_blocked = [], wm_draining = False, wm_closed = False,
      wm_phase = Running, wm_timed_out = False, wm_accepted = [], wm_processed = [], wm_refused = []\<rparr>"

text \<open>One attempt of \<open>Submit\<close> by caller \<open>c\<close>: refused, accepted, or \<open>None\<close> when it has to wait.\<close>

definition try_send :: "nat option \<Rightarrow> write_job \<Rightarrow> writer_mgr \<Rightarrow> (err option \<times> writer_mgr) option" where
  "try_send c job s =
     (if wm_closed s then Some (Some ErrWriterClosed, s\<lparr>wm_refused := wm_refused s @ [(c, job)]\<rparr>)
      else if length (wm_ch s) < wm_cap s
      then Some (None, s\<lparr>wm_ch := wm_ch s @ [job], wm_accepted := wm_accepted s @ [job]\<rparr>)
      else None)"

definition add_producer :: "nat \<Rightarrow> writer_mgr \<Rightarrow> bool \<times> writer_mgr" where
  "add_producer p s =
     (if wm_draining s \<or> wm_closed s then (False, s) else (True, s\<lparr>wm_producers := insert p (wm_producers s)\<rparr>))"

definition remove_producer :: "nat \<Rightarrow> writer_mgr \<Rightarrow> writer_mgr" where
  "remove_producer p s = s\<lparr>wm_producers := wm_producers s - {p}\<rparr>"

definition take_job :: "writer_mgr \<Rightarrow> writer_mgr" where
  "take_job s = s\<lparr>wm_processed := wm_processed s @ [hd (wm_ch s)], wm_ch := tl (wm_ch s)\<rparr>"

text \<open>A caller that says it belongs to a producer does.\<close>

definition caller_ok :: "nat option \<Rightarrow> writer_mgr \<Rightarrow> bool" where
  "caller_ok c s \<longleftrightarrow> set_option c \<subseteq> wm_producers s"

inductive wm_step :: "writer_mgr \<Rightarrow> writer_mgr \<Rightarrow> bool" where
  wm_submit: "caller_ok c s \<Longrightarrow> try_send c job s = Some (e, s') \<Longrightarrow> wm_step s s'"
| wm_wait: "caller_ok c s \<Longrightarrow> try_send c job s = None \<Longrightarrow>
    wm_step s (s\<lparr>wm_blocked := wm_blocked s @ [(c, job)]\<rparr>)"
| wm_wake: "(c, job) \<in> set (wm_blocked s) \<Longrightarrow> try_send c job s = Some (e, s') \<Longrightarrow>
    wm_step s (s'\<lparr>wm_blocked := remove1 (c, job) (wm_blocked s')\<rparr>)"
| wm_add: "p \<notin> wm_producers s \<Longrightarrow> add_producer p s = (True, s') \<Longrightarrow> wm_step s s'"
| wm_remove: "p \<in> wm_producers s \<Longrightarrow> Some p \<notin> fst ` set (wm_blocked s) \<Longrightarrow> wm_step s (remove_producer p s)"
| wm_run: "wm_phase s = Running \<Longrightarrow> wm_ch s \<noteq> [] \<Longrightarrow> wm_step s (take_job s)"
| wm_cancel: "wm_phase s = Running \<Longrightarrow> wm_step s (s\<lparr>wm_phase := AwaitingProducers, wm_draining := True\<rparr>)"
| wm_close: "wm_phase s = AwaitingProducers \<Longrightarrow> wm_producers s = {} \<Longrightarrow>
    wm_step s (s\<lparr>wm_phase := Draining, wm_closed := True\<rparr>)"
| wm_drain: "wm_phase s = Draining \<Longrightarrow> wm_ch s \<noteq> [] \<Longrightarrow> wm_step s (take_job s)"
| wm_drained: "wm_phase s = Draining \<Longrightarrow> wm_ch s = [] \<Longrightarrow> wm_step s (s\<lparr>wm_phase := Finished\<rparr>)"
| wm_deadline: "wm_phase s = Draining \<Longrightarrow> wm_step s (s\<lparr>wm_phase := Finished, wm_timed_out := True\<rparr>)"

inductive wm_reach :: "nat \<Rightarrow> writer_mgr \<Rightarrow> bool" for chanSize where
  wm_new: "wm_reach chanSize (new_writer_manager chanSize)"
| wm_next: "wm_reach chanSize s \<Longrightarrow> wm_step s s' \<Longrightarrow> wm_reach chanSize s'"

inductive_cases wm_stepE: "wm_step s s'"

definition wm_inv :: "nat \<Rightarrow> writer_mgr \<Rightarrow> bool" where
  "wm_inv chanSize s \<longleftrightarrow>
     wm_cap s = chanSize \<and> wm_accepted s = wm_processed s @ wm_ch s \<and> length (wm_ch s) \<le> chanSize
   \<and> (wm_draining s \<longleftrightarrow> wm_phase s \<noteq> Running) \<and> (wm_closed s \<longleftrightarrow> wm_phase s \<in> {Draining, Finished})
   \<and> (\<forall>b \<in> set (wm_blocked s). caller_ok (fst b) s)
   \<and> (wm_closed s \<longrightarrow> wm_producers s = {})
   \<and> (wm_phase s = Finished \<longrightarrow> \<not> wm_timed_out s \<longrightarrow> wm_ch s = [])
   \<and> (wm_refused s \<noteq> [] \<longrightarrow> wm_closed s) \<and> (\<forall>r \<in> set (wm_refused s). fst r = None)"

lemma try_send_cases:
  assumes "try_send c job s = Some (e, s')"
  obtains (refused) "wm_closed s" "e = Some ErrWriterClosed" "s' = s\<lparr>wm_refused := wm_refused s @ [(c, job)]\<rparr>"
  | (accepted) "\<not> wm_closed s" "length (wm_ch s) < wm_cap s" "e = None"
      "s' = s\<lparr>wm_ch := wm_ch s @ [job], wm_accepted := wm_accepted s @ [job]\<rparr>"
  using assms by (auto simp: try_send_def split: if_splits)

text \<open>A closed writer has no producers left.\<close>

lemma caller_closed: "caller_ok c s \<Longrightarrow> wm_producers s = {} \<Longrightarrow> c = None"
  by (cases c) (simp_all add: caller_ok_def)

lemma caller_ok_mono: "caller_ok c s \<Longrightarrow> wm_producers s \<subseteq> wm_producers s' \<Longrightarrow> caller_ok c s'"
  by (auto simp: caller_ok_def)

lemma wm_inv_send:
  assumes "wm_inv n s" and "caller_ok c s" and "try_send c job s = Some (e, s')"
  shows "wm_inv n s' \<and> wm_producers s' = wm_producers s \<and> wm_blocked s' = wm_blocked s"
  using assms(3)
proof (cases rule: try_send_cases)
  case refused
  with assms(1) have "c = None" by (intro caller_closed [OF assms(2)]) (simp add: wm_inv_def)
  with refused assms(1) show ?thesis by (auto simp: wm_inv_def caller_ok_def)
next
  case accepted
  with assms(1) show ?thesis by (auto simp: wm_inv_def caller_ok_def)
qed

lemma wm_inv_step:
  assumes "wm_step s s'" and "wm_inv n s"
  shows "wm_inv n s'"
  using assms
proof (induction rule: wm_step.induct)
  case (wm_submit c s job e s')
  then show ?case using wm_inv_send by blast
next
  case (wm_wake c job s e s')
  then have "caller_ok c s" by (fastforce simp: wm_inv_def)
  from wm_inv_send [OF wm_wake.prems this wm_wake.hyps(2)] have "wm_inv n s'" by simp
  then show ?case using set_remove1_subset [of "(c, job)" "wm_blocked s'"] by (auto simp: wm_inv_def caller_ok_def)
next
  case (wm_run s)
  then show ?case by (cases "wm_ch s") (auto simp: wm_inv_def take_job_def caller_ok_def)
next
  case (wm_drain s)
  then show ?case by (cases "wm_ch s") (auto simp: wm_inv_def take_job_def caller_ok_def)
next
  case (wm_remove p s)
  then have "\<forall>b \<in> set (wm_blocked s). caller_ok (fst b) (remove_producer p s)"
    by (force simp: wm_inv_def caller_ok_def remove_producer_def elem_set)
  with wm_remove.prems show ?case by (auto simp: wm_inv_def remove_producer_def)
next
  case (wm_add p s s')
  then have "\<forall>b \<in> set (wm_blocked s). caller_ok (fst b) s'"
    by (auto simp: wm_inv_def add_producer_def split: if_splits intro: caller_ok_mono)
  with wm_add show ?case by (auto simp: wm_inv_def add_producer_def split: if_splits)
qed (auto simp: wm_inv_def caller_ok_def split: if_splits)

lemma wm_reach_inv: "wm_reach n s \<Longrightarrow> wm_inv n s"
proof (induction rule: wm_reach.induct)
  case wm_new
  show ?case by (simp add: new_writer_manager_def wm_inv_def)
qed (rule wm_inv_step)

section \<open>Properties\<close>

text \<open>C21. No accepted job is lost and none overtakes another: the jobs processed are always the first of the
  jobs accepted, in order, the rest waits in a queue within its capacity, and when the writer is done
  without hitting its deadline every accepted job has been processed. A job is refused only after
  every producer has gone, and never one of a registered producer.\<close>

theorem writer_loses_no_job:
  assumes "wm_reach chanSize s"
  shows "wm_accepted s = wm_processed s @ wm_ch s \<and> length (wm_ch s) \<le> chanSize
    \<and> (wm_phase s = Finished \<and> \<not> wm_timed_out s \<longrightarrow> wm_processed s = wm_accepted s)
    \<and> (wm_refused s \<noteq> [] \<longrightarrow> wm_producers s = {}) \<and> (\<forall>r \<in> set (wm_refused s). fst r = None)"
  using wm_reach_inv [OF assms] by (auto simp: wm_inv_def)

text \<open>The job that \<open>IndexAll\<close> waits for.\<close>

definition sync_job :: write_job where
  "sync_job = \<lparr>wj_Type = WriteJobSync, wj_FilePath = [], wj_File = None, wj_Chunks = [],
    wj_Symbols = [], wj_Edges = [], wj_ContentHash = [], wj_Timestamp = 0\<rparr>"

text \<open>A writer of which producer 0 has filled the queue up to \<open>n\<close> jobs.\<close>

definition filled :: "nat \<Rightarrow> nat \<Rightarrow> writer_mgr" where
  "filled chanSize n = (new_writer_manager chanSize)\<lparr>wm_producers := {0}, wm_ch := replicate n sync_job,
     wm_accepted := replicate n sync_job\<rparr>"

lemma filled_fields [simp]:
  "wm_producers (filled c n) = {0}" "wm_ch (filled c n) = replicate n sync_job" "wm_blocked (filled c n) = []"
  "wm_phase (filled c n) = Running" "\<not> wm_closed (filled c n)" "wm_cap (filled c n) = c" "\<not> wm_draining (filled c n)"
  "wm_processed (filled c n) = []"
  by (simp_all add: filled_def new_writer_manager_def)

lemma filled_reach: "n \<le> chanSize \<Longrightarrow> wm_reach chanSize (filled chanSize n)"
proof (induction n)
  case 0
  have "wm_step (new_writer_manager chanSize) (filled chanSize 0)"
    by (rule wm_add [of 0]) (simp_all add: add_producer_def new_writer_manager_def filled_def)
  with wm_new show ?case by (rule wm_next)
next
  case (Suc n)
  have "wm_step (filled chanSize n) (filled chanSize (Suc n))"
  proof (rule wm_submit)
    show "try_send (Some 0) sync_job (filled chanSize n) = Some (None, filled chanSize (Suc n))"
      using Suc.prems by (simp add: try_send_def filled_def new_writer_manager_def replicate_append_same)
  qed (simp add: caller_ok_def)
  with Suc show ?case by (auto intro: wm_next)
qed

text \<open>A job goes through the writer, it shuts down, and the sync job that comes after is refused.\<close>

theorem writer_loses_no_job_witness:
  "\<exists>s. wm_reach 5 s \<and> wm_phase s = Finished \<and> \<not> wm_timed_out s \<and> wm_accepted s = [sync_job] \<and> wm_processed s = [sync_job]
     \<and> wm_refused s = [(None, sync_job)]"
proof -
  define s1 where "s1 = remove_producer 0 (filled 5 1)"
  define s2 where "s2 = s1\<lparr>wm_phase := AwaitingProducers, wm_draining := True\<rparr>"
  define s3 where "s3 = s2\<lparr>wm_phase := Draining, wm_closed := True\<rparr>"
  define s4 where "s4 = take_job s3"
  define s5 where "s5 = s4\<lparr>wm_phase := Finished\<rparr>"
  define s6 where "s6 = s5\<lparr>wm_refused := [(None, sync_job)]\<rparr>"
  note defs = s1_def s2_def s3_def s4_def s5_def s6_def remove_producer_def take_job_def
  have "wm_reach 5 (filled 5 1)" by (rule filled_reach) simp
  then have "wm_reach 5 s1" by (rule wm_next) (unfold s1_def, rule wm_remove, simp_all)
  then have "wm_reach 5 s2" by (rule wm_next) (unfold s2_def, rule wm_cancel, simp add: defs)
  then have "wm_reach 5 s3" by (rule wm_next) (unfold s3_def, rule wm_close, simp_all add: defs)
  then have "wm_reach 5 s4" by (rule wm_next) (unfold s4_def, rule wm_drain, simp_all add: defs)
  then have "wm_reach 5 s5" by (rule wm_next) (unfold s5_def, rule wm_drained, simp_all add: defs)
  moreover have "try_send None sync_job s5 = Some (Some ErrWriterClosed, s6)"
    by (simp add: try_send_def defs filled_def new_writer_manager_def)
  then have "wm_step s5 s6" by (rule wm_submit [rotated]) (simp add: caller_ok_def)
  ultimately have r: "wm_reach 5 s6" by (rule wm_next)
  have f: "wm_phase s6 = Finished" "\<not> wm_timed_out s6" "wm_accepted s6 = [sync_job]" "wm_refused s6 = [(None, sync_job)]"
    by (simp_all add: defs filled_def new_writer_manager_def)
  have "wm_processed s6 = wm_accepted s6" using writer_loses_no_job [OF r] f by blast
  with r f show ?thesis by (intro exI [of _ s6]) simp
qed

text \<open>C22. Shutdown can hang: when the writer waits for its producers while one of them waits in \<open>Submit\<close> on a full
  queue, each waits for the other. Whatever anybody does afterwards, the writer takes no job from its
  queue, never closes and never finishes, and the producer stays in \<open>Submit\<close>.\<close>

theorem writer_shutdown_deadlock:
  assumes "wm_reach chanSize s" and "wm_phase s = AwaitingProducers" and "length (wm_ch s) = chanSize"
    and "(Some p, job) \<in> set (wm_blocked s)" and "wm_step\<^sup>*\<^sup>* s s'"
  shows "wm_phase s' = AwaitingProducers \<and> wm_ch s' = wm_ch s \<and> wm_processed s' = wm_processed s
    \<and> p \<in> wm_producers s' \<and> (Some p, job) \<in> set (wm_blocked s')"
proof -
  define stuck where "stuck t \<longleftrightarrow> wm_phase t = AwaitingProducers \<and> wm_ch t = wm_ch s \<and> wm_processed t = wm_processed s
    \<and> p \<in> wm_producers t \<and> (Some p, job) \<in> set (wm_blocked t)" for t :: writer_mgr
  have full: "try_send c j t = None" if "stuck t" "wm_inv chanSize t" for c j t
    using that assms(3) by (simp add: try_send_def stuck_def wm_inv_def)
  have stuck_step: "stuck t'" if "wm_step t t'" "stuck t" "wm_inv chanSize t" for t t'
    using that
  proof (induction rule: wm_step.induct)
    case (wm_submit c t j e t')
    then show ?case using full [of t c j] by simp
  next
    case (wm_wake c j t e t')
    then show ?case using full [of t c j] by simp
  next
    case (wm_remove q t)
    then have "q \<noteq> p" by (force simp: stuck_def)
    with wm_remove show ?case by (simp add: stuck_def remove_producer_def)
  next
    case (wm_add q t t')
    then show ?case by (auto simp: stuck_def add_producer_def split: if_splits)
  next
    case (wm_close t)
    then show ?case by (simp add: stuck_def)
  qed (simp_all add: stuck_def)
  have inv: "wm_inv chanSize s" by (rule wm_reach_inv [OF assms(1)])
  then have "p \<in> wm_producers s" using assms(4) by (fastforce simp: wm_inv_def caller_ok_def)
  with assms(2,4) have "stuck s" by (simp add: stuck_def)
  from assms(5) have "stuck s' \<and> wm_inv chanSize s'"
  proof (induction rule: rtranclp_induct)
    case (step t t')
    then show ?case using stuck_step [of t t'] wm_inv_step [of t t'] by blast
  qed (use inv \<open>stuck s\<close> in simp)
  then show ?thesis by (simp add: stuck_def)
qed

text \<open>A queue of one job that is full, a producer that waits, and a cancelled context.\<close>

theorem writer_shutdown_deadlock_witness:
  "\<exists>s. wm_reach 1 s \<and> (Some 0, sync_job) \<in> set (wm_blocked s) \<and> (\<forall>s'. wm_step\<^sup>*\<^sup>* s s' \<longrightarrow> wm_phase s' \<noteq> Finished)"
proof -
  define s1 where "s1 = (filled 1 1)\<lparr>wm_blocked := [(Some 0, sync_job)]\<rparr>"
  define s2 where "s2 = s1\<lparr>wm_phase := AwaitingProducers, wm_draining := True\<rparr>"
  have "wm_step (filled 1 1) ((filled 1 1)\<lparr>wm_blocked := wm_blocked (filled 1 1) @ [(Some 0, sync_job)]\<rparr>)"
    by (rule wm_wait) (simp_all add: try_send_def caller_ok_def)
  then have "wm_step (filled 1 1) s1" by (simp add: s1_def)
  moreover have "wm_step s1 s2" unfolding s2_def by (rule wm_cancel) (simp add: s1_def)
  ultimately have r: "wm_reach 1 s2" using filled_reach [of 1 1] by (auto intro: wm_next)
  have f: "wm_phase s2 = AwaitingProducers" "length (wm_ch s2) = 1" "(Some 0, sync_job) \<in> set (wm_blocked s2)"
    by (simp_all add: s2_def s1_def)
  have "wm_phase s' \<noteq> Finished" if "wm_step\<^sup>*\<^sup>* s2 s'" for s'
    using writer_shutdown_deadlock [OF r f that] by simp
  with r f(3) show ?thesis by blast
qed

end
