(* ===== verification/Scanner.thy ===== *)
theory Scanner
  imports Fallback "HOL-Library.Sublist"
begin

text \<open>
  \<open>internal/daemon/scanner.go\<close>: which files of a project are indexed, and which of them are
  tests. The directory tree, symbolic links and file contents are those of \<open>Fallback\<close>; the
  matcher of ignore patterns (a third-party package), SHA-256 and the file information are
  arguments. \<open>filepath.Match\<close> is modelled as its documentation states it; Go takes the first
  place where the text after a star fits, which accepts the same base names.
\<close>

section \<open>Languages and directories\<close>

definition scan_skip_dirs :: "string set" where
  "scan_skip_dirs = {''.git'', ''node_modules'', ''dist'', ''build'', ''.shaktiman'', ''vendor'', ''__pycache__''}"

definition language_extensions :: "(string \<times> string) list" where
  "language_extensions =
     [(''.ts'', ''typescript''), (''.tsx'', ''typescript''), (''.py'', ''python''), (''.go'', ''go''), (''.rs'', ''rust''),
      (''.java'', ''java''), (''.sh'', ''bash''), (''.bash'', ''bash''), (''.js'', ''javascript''), (''.jsx'', ''javascript''),
      (''.mjs'', ''javascript''), (''.cjs'', ''javascript''), (''.rb'', ''ruby''), (''.rake'', ''ruby''),
      (''.gemspec'', ''ruby''), (''.erb'', ''erb'')]"

definition language_for_ext :: "string \<Rightarrow> string option" where
  "language_for_ext ext = map_of language_extensions ext"

section \<open>Patterns\<close>

text \<open>One character of a class, possibly escaped; something must follow it.\<close>

definition get_esc :: "string \<Rightarrow> (char \<times> string) option" where
  "get_esc chunk =
     (case chunk of
        [] \<Rightarrow> None
      | c # cs \<Rightarrow>
          if c = CHR ''-'' \<or> c = CHR '']'' then None
          else if c = CHR 0x5C then (case cs of d # e # ds \<Rightarrow> Some (d, e # ds) | _ \<Rightarrow> None)
          else if cs = [] then None else Some (c, cs))"

text \<open>Characters stand for the runes of ASCII names.\<close>

definition char_le :: "char \<Rightarrow> char \<Rightarrow> bool" where
  "char_le a b \<longleftrightarrow> (of_char a :: nat) \<le> of_char b"

lemma get_esc_length: "get_esc chunk = Some (c, cs) \<Longrightarrow> length cs < length chunk"
  by (auto simp: get_esc_def split: list.splits if_splits)

function class_items :: "string \<Rightarrow> char \<Rightarrow> bool \<Rightarrow> nat \<Rightarrow> (bool \<times> string) option" where
  "class_items chunk c matched n =
     (if n > 0 \<and> chunk \<noteq> [] \<and> hd chunk = CHR '']'' then Some (matched, tl chunk)
      else (case get_esc chunk of
              None \<Rightarrow> None
            | Some (lo, r1) \<Rightarrow>
                if hd r1 = CHR ''-''
                then (case get_esc (tl r1) of
                        None \<Rightarrow> None
                      | Some (hi, r2) \<Rightarrow> class_items r2 c (matched \<or> (char_le lo c \<and> char_le c hi)) (n + 1))
                else class_items r1 c (matched \<or> lo = c) (n + 1)))"
  by pat_completeness auto
termination
proof (relation "measure (\<lambda>(chunk, c, m, n). length chunk)", goal_cases)
  case (2 chunk c matched n a lo r1 b hi r2)
  then have "length r2 < length (tl r1)" "length r1 < length chunk" using get_esc_length by blast+
  then show ?case by simp
next
  case (3 chunk c matched n a lo r1)
  then have "get_esc chunk = Some (lo, r1)" by simp
  from get_esc_length [OF this] show ?case by simp
qed simp

declare class_items.simps [simp del]

definition class_match :: "string \<Rightarrow> char \<Rightarrow> (bool \<times> string) option" where
  "class_match chunk c =
     (let negated = (chunk \<noteq> [] \<and> hd chunk = CHR ''^'')
      in map_option (\<lambda>(m, rest). (m \<noteq> negated, rest)) (class_items (if negated then tl chunk else chunk) c False 0))"

lemma class_items_length: "class_items chunk c m n = Some (b, rest) \<Longrightarrow> length rest < length chunk"
proof (induction chunk c m n rule: class_items.induct)
  case (1 chunk c m n)
  show ?case
  proof (cases "n > 0 \<and> chunk \<noteq> [] \<and> hd chunk = CHR '']''")
    case True
    with "1.prems" show ?thesis by (auto simp: class_items.simps [of chunk] neq_Nil_conv)
  next
    case False
    have unf: "class_items chunk c m n = (case get_esc chunk of
              None \<Rightarrow> None
            | Some (lo, r1) \<Rightarrow>
                if hd r1 = CHR ''-''
                then (case get_esc (tl r1) of
                        None \<Rightarrow> None
                      | Some (hi, r2) \<Rightarrow> class_items r2 c (m \<or> (char_le lo c \<and> char_le c hi)) (n + 1))
                else class_items r1 c (m \<or> lo = c) (n + 1))"
      by (subst class_items.simps) (simp only: False if_False)
    with "1.prems" obtain lo r1 where g: "get_esc chunk = Some (lo, r1)" by (auto split: option.splits)
    have l1: "length r1 < length chunk" by (rule get_esc_length [OF g])
    show ?thesis
    proof (cases "hd r1 = CHR ''-''")
      case True
      with "1.prems" unf g obtain hi r2 where h: "get_esc (tl r1) = Some (hi, r2)"
        by (auto split: option.splits)
      from True "1.prems" unf g h have "class_items r2 c (m \<or> (char_le lo c \<and> char_le c hi)) (n + 1) = Some (b, rest)"
        by simp
      from "1.IH"(1) [OF False g refl True h refl this] get_esc_length [OF h] l1 show ?thesis by simp
    next
      case no: False
      with "1.prems" unf g have "class_items r1 c (m \<or> lo = c) (n + 1) = Some (b, rest)" by simp
      from "1.IH"(2) [OF False g refl no this] l1 show ?thesis by simp
    qed
  qed
qed

lemma class_match_length: "class_match chunk c = Some (b, rest) \<Longrightarrow> length rest < length chunk"
  by (auto simp: class_match_def Let_def dest!: class_items_length split: if_splits)

text \<open>\<open>filepath.Match\<close>; a malformed pattern matches nothing.\<close>

function glob_match :: "string \<Rightarrow> string \<Rightarrow> bool" where
  "glob_match [] s = (s = [])"
| "glob_match (p # ps) s =
     (if p = CHR ''*'' then
        (if glob_match ps s then True
         else if s = [] \<or> hd s = slash then False
         else glob_match (p # ps) (tl s))
      else if s = [] then False
      else if p = CHR ''?'' then hd s \<noteq> slash \<and> glob_match ps (tl s)
      else if p = CHR ''['' then
        (case class_match ps (hd s) of None \<Rightarrow> False | Some (m, rest) \<Rightarrow> m \<and> glob_match rest (tl s))
      else if p = CHR 0x5C then ps \<noteq> [] \<and> hd ps = hd s \<and> glob_match (tl ps) (tl s)
      else p = hd s \<and> glob_match ps (tl s))"
  by pat_completeness auto
termination
proof (relation "measures [\<lambda>(p, s). length p, \<lambda>(p, s). length s]", goal_cases)
  case (5 p ps s a b c)
  then show ?case using class_match_length [of ps "hd s"] by (auto simp: less_SucI)
qed auto

declare glob_match.simps [simp del]

text \<open>\<open>filepath.Base\<close>.\<close>

definition filepath_base :: "string \<Rightarrow> string" where
  "filepath_base path =
     (if path = [] then ''.''
      else let stripped = rev (dropWhile (\<lambda>c. c = slash) (rev path));
               elem = rev (takeWhile (\<lambda>c. c \<noteq> slash) (rev stripped))
           in if elem = [] then [slash] else elem)"

definition matches_dir_component :: "string \<Rightarrow> string \<Rightarrow> bool" where
  "matches_dir_component path d \<longleftrightarrow> prefix (d @ [slash]) path \<or> sublist ([slash] @ d @ [slash]) path"

definition pattern_matches :: "string \<Rightarrow> string \<Rightarrow> bool" where
  "pattern_matches path p =
     (if suffix [slash] p then matches_dir_component path (butlast p) else glob_match p (filepath_base path))"

definition is_test_file :: "string \<Rightarrow> string list \<Rightarrow> bool" where
  "is_test_file path patterns = list_ex (pattern_matches path) patterns"

section \<open>The scan\<close>

record scanned_file =
  sf_Path :: string
  sf_AbsPath :: string
  sf_ContentHash :: string
  sf_Mtime :: real
  sf_Size :: int
  sf_Language :: string
  sf_Content :: "string option"

record scan_env =
  sc_fs :: filesystem
  sc_root :: string
  sc_compile_ignore :: "string list \<Rightarrow> string \<Rightarrow> bool"
  sc_sha256 :: "string \<Rightarrow> string"
  sc_info :: "string \<Rightarrow> (int \<times> int) option"
  sc_cancelled :: "string \<Rightarrow> bool"

definition ws_char :: "char \<Rightarrow> bool" where
  "ws_char c \<longleftrightarrow> c \<in> {CHR '' '', CHR 0x09, CHR 0x0A, CHR 0x0B, CHR 0x0C, CHR 0x0D}"

definition trim_line :: "string \<Rightarrow> string" where
  "trim_line s = rev (dropWhile ws_char (rev (dropWhile ws_char s)))"

text \<open>\<open>filepath.Join(root, name)\<close> on a clean root.\<close>

definition join_path :: "string \<Rightarrow> string \<Rightarrow> string" where
  "join_path base name = (if base = [slash] then slash # name else base @ [slash] @ name)"

definition ignore_lines :: "string \<Rightarrow> string list" where
  "ignore_lines content =
     filter (\<lambda>l. l \<noteq> [] \<and> \<not> prefix [CHR 0x23] l) (map trim_line (split_on (CHR 0x0A) content))"

definition load_ignore_patterns :: "scan_env \<Rightarrow> (string \<Rightarrow> bool) option" where
  "load_ignore_patterns env =
     (let patterns = concat (map (\<lambda>name. case fs_ReadFile (sc_fs env) (join_path (sc_root env) name) of
                                            Inl _ \<Rightarrow> [] | Inr content \<Rightarrow> ignore_lines content)
                       [''.gitignore'', ''.shaktimanignore''])
      in if patterns = [] then None else Some (sc_compile_ignore env patterns))"

definition is_binary :: "string \<Rightarrow> bool" where
  "is_binary content = list_ex (\<lambda>c. c = CHR 0x00) (take 512 content)"

text \<open>The callback on a regular entry: \<open>None\<close> when the file is left out.\<close>

definition scan_file :: "scan_env \<Rightarrow> (string \<Rightarrow> bool) option \<Rightarrow> string \<Rightarrow> string \<Rightarrow> string \<Rightarrow> scanned_file option" where
  "scan_file env gi absRoot path name =
     (case language_for_ext (to_lower (filepath_ext name)) of
        None \<Rightarrow> None
      | Some lang \<Rightarrow>
          let relPath = filepath_rel (sc_root env) path in
          if (case gi of Some m \<Rightarrow> m relPath | None \<Rightarrow> False) then None
          else (case fs_EvalSymlinks (sc_fs env) path of
                  Inl _ \<Rightarrow> None
                | Inr absPath \<Rightarrow>
                    if \<not> prefix (absRoot @ [slash]) absPath \<and> absPath \<noteq> absRoot then None
                    else (case fs_ReadFile (sc_fs env) absPath of
                            Inl _ \<Rightarrow> None
                          | Inr content \<Rightarrow>
                              if is_binary content then None
                              else (case sc_info env path of
                                      None \<Rightarrow> None
                                    | Some (mtime_ms, sz) \<Rightarrow>
                                        Some \<lparr>sf_Path = relPath, sf_AbsPath = absPath, sf_ContentHash = sc_sha256 env content,
                                              sf_Mtime = real_of_int mtime_ms / 1000, sf_Size = sz, sf_Language = lang,
                                              sf_Content = Some content\<rparr>))))"

definition scan_skips_dir :: "string \<Rightarrow> bool" where
  "scan_skips_dir name \<longleftrightarrow> name \<in> scan_skip_dirs \<or> (prefix ''.'' name \<and> name \<noteq> ''.'')"

text \<open>The walk: \<open>None\<close> once the context is seen to be done.\<close>

fun scan_entry :: "scan_env \<Rightarrow> (string \<Rightarrow> bool) option \<Rightarrow> string \<Rightarrow> string \<Rightarrow> fs_entry \<Rightarrow> scanned_file list option"
and scan_entries :: "scan_env \<Rightarrow> (string \<Rightarrow> bool) option \<Rightarrow> string \<Rightarrow> string \<Rightarrow> fs_entry list \<Rightarrow> scanned_file list option" where
  "scan_entry env gi absRoot path (FsError n) = Some []"
| "scan_entry env gi absRoot path (FsFile n) =
     (if sc_cancelled env path then None
      else Some (case scan_file env gi absRoot path n of None \<Rightarrow> [] | Some f \<Rightarrow> [f]))"
| "scan_entry env gi absRoot path (FsDir n es) =
     (if sc_cancelled env path then None
      else if scan_skips_dir n then Some []
      else scan_entries env gi absRoot path es)"
| "scan_entries env gi absRoot path [] = Some []"
| "scan_entries env gi absRoot path (e # es) =
     (case scan_entry env gi absRoot (join_path path (entry_name e)) e of
        None \<Rightarrow> None
      | Some fs \<Rightarrow> (case scan_entries env gi absRoot path es of None \<Rightarrow> None | Some gs \<Rightarrow> Some (fs @ gs)))"

definition scan_repo :: "scan_env \<Rightarrow> scanned_file list res" where
  "scan_repo env =
     (case fs_EvalSymlinks (sc_fs env) (sc_root env) of
        Inl e \<Rightarrow> Inl (ErrWrap ''resolve project root symlinks'' e)
      | Inr absRoot \<Rightarrow>
          (case scan_entry env (load_ignore_patterns env) absRoot (sc_root env) (fs_root (sc_fs env)) of
             None \<Rightarrow> Inl (ErrWrap ''scan repo'' ErrContext)
           | Some files \<Rightarrow> Inr files))"

section \<open>What a pattern means\<close>

abbreviation plain_pattern :: "string \<Rightarrow> bool" where
  "plain_pattern ps \<equiv> set ps \<inter> {CHR ''*'', CHR ''?'', CHR ''['', CHR 0x5C} = {}"

lemma glob_literal: "plain_pattern ps \<Longrightarrow> glob_match ps s \<longleftrightarrow> s = ps"
proof (induction ps arbitrary: s)
  case (Cons p ps)
  then have p: "p \<noteq> CHR ''*''" "p \<noteq> CHR ''?''" "p \<noteq> CHR ''[''" "p \<noteq> CHR 0x5C"
    and IH: "\<And>s. glob_match ps s \<longleftrightarrow> s = ps" by auto
  show ?case by (subst glob_match.simps(2), simp only: p if_False IH, cases s) auto
qed (simp add: glob_match.simps(1))

lemma glob_star_literal:
  assumes "plain_pattern ps" and "slash \<notin> set s"
  shows "glob_match (CHR ''*'' # ps) s \<longleftrightarrow> suffix ps s"
  using assms(2)
proof (induction s)
  case Nil
  show ?case by (subst glob_match.simps(2)) (simp add: glob_literal [OF assms(1)])
next
  case (Cons c s)
  then have "glob_match (CHR ''*'' # ps) s \<longleftrightarrow> suffix ps s" "c \<noteq> slash" by auto
  then show ?case
    by (subst glob_match.simps(2)) (auto simp: glob_literal [OF assms(1)] suffix_Cons)
qed

lemma filepath_base_slash: "filepath_base path = [slash] \<or> slash \<notin> set (filepath_base path)"
  by (auto simp: filepath_base_def Let_def slash_def dest: set_takeWhileD)

lemma prefix_sep_join:
  assumes "sep \<notin> set d" and "sep \<notin> set p"
  shows "prefix (d @ [sep]) (join_with [sep] (p # ps)) \<longleftrightarrow> ps \<noteq> [] \<and> p = d"
proof (cases ps)
  case Nil
  then show ?thesis using assms by (auto simp: prefix_def)
next
  case (Cons q qs)
  have "p @ sep # us = d @ sep # vs \<longleftrightarrow> p = d \<and> us = vs" for us vs
    using assms by (auto simp: append_eq_append_conv2 append_eq_Cons_conv Cons_eq_append_conv)
  then show ?thesis by (simp add: Cons prefix_def)
qed

lemma sublist_sep_append:
  assumes "sep \<notin> set p"
  shows "sublist (sep # d) (p @ t) \<longleftrightarrow> sublist (sep # d) t"
  using assms
proof (induction p)
  case (Cons x p)
  then have "\<not> prefix (sep # d) (x # p @ t)" by simp
  with Cons show ?case by (simp only: append_Cons sublist_Cons_right) simp
qed simp

lemma sublist_sep_join:
  assumes "sep \<notin> set d" and "\<forall>p \<in> set (p # ps). sep \<notin> set p"
  shows "sublist ([sep] @ d @ [sep]) (join_with [sep] (p # ps)) \<longleftrightarrow> d \<in> set (butlast ps)"
  using assms(2)
proof (induction ps arbitrary: p)
  case Nil
  then have "sep \<notin> set p" by simp
  then have "\<not> sublist (sep # d @ [sep]) p" using set_mono_sublist [of "sep # d @ [sep]" p] by auto
  then show ?case by simp
next
  case (Cons q qs)
  have "sublist ([sep] @ d @ [sep]) (join_with [sep] (p # q # qs))
        \<longleftrightarrow> sublist (sep # d @ [sep]) (sep # join_with [sep] (q # qs))"
    using Cons.prems sublist_sep_append [of sep p "d @ [sep]"] by simp
  also have "\<dots> \<longleftrightarrow> prefix (d @ [sep]) (join_with [sep] (q # qs)) \<or> sublist ([sep] @ d @ [sep]) (join_with [sep] (q # qs))"
    by (simp add: sublist_Cons_right)
  also have "\<dots> \<longleftrightarrow> (qs \<noteq> [] \<and> q = d) \<or> d \<in> set (butlast qs)"
    using Cons prefix_sep_join [of sep d q qs] assms(1) by simp
  finally show ?case by auto
qed

lemma dir_component_iff:
  assumes "slash \<notin> set d"
  shows "matches_dir_component path d \<longleftrightarrow> d \<in> set (butlast (split_on slash path))"
proof -
  obtain p ps where s: "split_on slash path = p # ps" using split_on_ne by (metis list.exhaust)
  have path: "path = join_with [slash] (p # ps)" using join_split_on [of slash path] s by simp
  have free: "\<forall>q \<in> set (p # ps). slash \<notin> set q" using split_on_no_sep [of _ slash path] s by simp
  show ?thesis
    unfolding matches_dir_component_def s
    using prefix_sep_join [OF assms, of p ps] sublist_sep_join [OF assms free] free by (auto simp: path)
qed

text \<open>A test pattern of the shape star plus literal text accepts the files whose base name ends
  with the text; a pattern ending with a slash accepts the files below a directory of exactly that
  name, at any depth, and never a file of that name (the contract in the comment of \<open>IsTestFile\<close>).\<close>

theorem is_test_file_patterns:
  assumes "plain_pattern suf" and "slash \<notin> set suf" and "suf \<noteq> []" and "slash \<notin> set d"
  shows "is_test_file path [CHR ''*'' # suf, d @ [slash]] \<longleftrightarrow>
         suffix suf (filepath_base path) \<or> d \<in> set (butlast (split_on slash path))"
proof -
  have 1: "pattern_matches path (d @ [slash]) \<longleftrightarrow> d \<in> set (butlast (split_on slash path))"
    using dir_component_iff [OF assms(4)] by (simp add: pattern_matches_def)
  have "\<not> suffix [slash] (CHR ''*'' # suf)"
    using assms(2,3) by (auto simp: suffix_def append_eq_Cons_conv Cons_eq_append_conv)
  then have 2: "pattern_matches path (CHR ''*'' # suf) \<longleftrightarrow> glob_match (CHR ''*'' # suf) (filepath_base path)"
    by (simp add: pattern_matches_def)
  have 3: "glob_match (CHR ''*'' # suf) (filepath_base path) \<longleftrightarrow> suffix suf (filepath_base path)"
  proof (cases "filepath_base path = [slash]")
    case True
    have "\<not> suffix suf [slash]" using assms(2,3) by (auto simp: suffix_Cons)
    moreover have "\<not> glob_match (CHR ''*'' # suf) [slash]"
      using assms(2,3) glob_literal [OF assms(1), of "[slash]"] by (subst glob_match.simps(2)) auto
    ultimately show ?thesis using True by simp
  next
    case False
    with filepath_base_slash [of path] have "slash \<notin> set (filepath_base path)" by simp
    with glob_star_literal [OF assms(1)] show ?thesis by simp
  qed
  from 1 2 3 show ?thesis by (simp add: is_test_file_def)
qed

theorem is_test_file_patterns_witness:
  "is_test_file ''pkg/testdata/a.go'' [''*_test.go'', ''testdata/'']
   \<and> \<not> is_test_file ''pkg/testdata'' [''*_test.go'', ''testdata/'']"
  using is_test_file_patterns [of "''_test.go''" "''testdata''" "''pkg/testdata/a.go''"]
    is_test_file_patterns [of "''_test.go''" "''testdata''" "''pkg/testdata''"]
  by (simp add: slash_def filepath_base_def Let_def suffix_Cons)

section \<open>What a scan returns\<close>

text \<open>The regular entries of a tree, each with the names of the directories above it.\<close>

inductive tree_file :: "string \<Rightarrow> fs_entry \<Rightarrow> string list \<Rightarrow> string \<Rightarrow> string \<Rightarrow> bool" where
  tree_here: "tree_file path (FsFile n) [] path n"
| tree_below: "e \<in> set es \<Longrightarrow> tree_file (join_path path (entry_name e)) e ds p n \<Longrightarrow>
     tree_file path (FsDir d es) (d # ds) p n"

inductive_simps tree_file_simps [simp]:
  "tree_file path (FsFile m) ds p n" "tree_file path (FsDir d es) ds p n" "tree_file path (FsError m) ds p n"

lemma scan_entry_exact:
  "scan_entry env gi absRoot path e = Some fs \<Longrightarrow>
   set fs = {f. \<exists>ds p n. tree_file path e ds p n \<and> list_all (\<lambda>d. \<not> scan_skips_dir d) ds
                         \<and> scan_file env gi absRoot p n = Some f}"
  "scan_entries env gi absRoot path es = Some fs \<Longrightarrow>
   set fs = {f. \<exists>e \<in> set es. \<exists>ds p n. tree_file (join_path path (entry_name e)) e ds p n
                  \<and> list_all (\<lambda>d. \<not> scan_skips_dir d) ds \<and> scan_file env gi absRoot p n = Some f}"
proof (induction env gi absRoot path e and env gi absRoot path es arbitrary: fs and fs
    rule: scan_entry_scan_entries.induct)
  case (3 env gi absRoot path n es)
  show ?case
  proof (cases "scan_skips_dir n")
    case True
    with 3(2) show ?thesis by (auto split: if_splits)
  next
    case False
    with 3(2) have e: "scan_entries env gi absRoot path es = Some fs" and "\<not> sc_cancelled env path"
      by (auto split: if_splits)
    from 3(1) [OF _ False e] \<open>\<not> sc_cancelled env path\<close>
    have "set fs = {f. \<exists>e \<in> set es. \<exists>ds p n. tree_file (join_path path (entry_name e)) e ds p n
                  \<and> list_all (\<lambda>d. \<not> scan_skips_dir d) ds \<and> scan_file env gi absRoot p n = Some f}" .
    moreover have "(\<exists>ds p m. tree_file path (FsDir n es) ds p m \<and> list_all (\<lambda>d. \<not> scan_skips_dir d) ds
                      \<and> scan_file env gi absRoot p m = Some f)
        \<longleftrightarrow> (\<exists>e \<in> set es. \<exists>ds p m. tree_file (join_path path (entry_name e)) e ds p m
                  \<and> list_all (\<lambda>d. \<not> scan_skips_dir d) ds \<and> scan_file env gi absRoot p m = Some f)" for f
    proof
      assume "\<exists>ds p m. tree_file path (FsDir n es) ds p m \<and> list_all (\<lambda>d. \<not> scan_skips_dir d) ds
                \<and> scan_file env gi absRoot p m = Some f"
      then show "\<exists>e \<in> set es. \<exists>ds p m. tree_file (join_path path (entry_name e)) e ds p m
                  \<and> list_all (\<lambda>d. \<not> scan_skips_dir d) ds \<and> scan_file env gi absRoot p m = Some f" by force
    next
      assume "\<exists>e \<in> set es. \<exists>ds p m. tree_file (join_path path (entry_name e)) e ds p m
                  \<and> list_all (\<lambda>d. \<not> scan_skips_dir d) ds \<and> scan_file env gi absRoot p m = Some f"
      then obtain e ds p m where e: "e \<in> set es" "tree_file (join_path path (entry_name e)) e ds p m"
        and f: "list_all (\<lambda>d. \<not> scan_skips_dir d) ds" "scan_file env gi absRoot p m = Some f" by blast
      from tree_below [OF e, of n] f False
      show "\<exists>ds p m. tree_file path (FsDir n es) ds p m \<and> list_all (\<lambda>d. \<not> scan_skips_dir d) ds
                \<and> scan_file env gi absRoot p m = Some f"
        by (intro exI [of _ "n # ds"] exI [of _ p] exI [of _ m]) simp
    qed
    ultimately show ?thesis by simp
  qed
next
  case (5 env gi absRoot path e es)
  then obtain as bs where "scan_entry env gi absRoot (join_path path (entry_name e)) e = Some as"
    and "scan_entries env gi absRoot path es = Some bs" and "fs = as @ bs"
    by (auto split: option.splits)
  with 5(1,2) show ?case by auto
qed (auto split: option.splits if_splits)

definition sf_in_root :: "string \<Rightarrow> scanned_file \<Rightarrow> bool" where
  "sf_in_root absRoot f \<longleftrightarrow> prefix (absRoot @ [slash]) (sf_AbsPath f) \<or> sf_AbsPath f = absRoot"

definition sf_read :: "scan_env \<Rightarrow> scanned_file \<Rightarrow> bool" where
  "sf_read env f \<longleftrightarrow>
     (case sf_Content f of
        None \<Rightarrow> False
      | Some content \<Rightarrow> fs_ReadFile (sc_fs env) (sf_AbsPath f) = Inr content
          \<and> sf_ContentHash f = sc_sha256 env content \<and> \<not> is_binary content)"

definition sf_kept :: "scan_env \<Rightarrow> scanned_file \<Rightarrow> bool" where
  "sf_kept env f \<longleftrightarrow> (case load_ignore_patterns env of Some m \<Rightarrow> \<not> m (sf_Path f) | None \<Rightarrow> True)"

lemma scan_file_facts:
  assumes "scan_file env (load_ignore_patterns env) absRoot p n = Some f"
  shows "language_for_ext (to_lower (filepath_ext n)) = Some (sf_Language f)"
    and "sf_in_root absRoot f" and "sf_read env f" and "sf_kept env f"
  using assms
  by (auto simp: scan_file_def sf_in_root_def sf_read_def sf_kept_def Let_def
      split: option.splits if_splits sum.splits prod.splits)

text \<open>C40. A scan that is not cancelled returns exactly the regular files of the tree below directories that
  are not skipped and that pass the file test, and every one of them lies, with its symbolic links
  resolved, inside the resolved root, has a supported language, is not ignored and not binary, and
  carries the content that was read and its hash.\<close>

theorem scan_repo_exact:
  assumes "scan_repo env = Inr files"
    and "fs_EvalSymlinks (sc_fs env) (sc_root env) = Inr absRoot"
  shows "(f \<in> set files \<longleftrightarrow>
           (\<exists>ds p n. tree_file (sc_root env) (fs_root (sc_fs env)) ds p n
              \<and> list_all (\<lambda>d. \<not> scan_skips_dir d) ds
              \<and> scan_file env (load_ignore_patterns env) absRoot p n = Some f))
    \<and> (f \<in> set files \<longrightarrow>
           sf_in_root absRoot f \<and> sf_kept env f \<and> sf_read env f
           \<and> sf_Language f \<in> set (map snd language_extensions))"
proof -
  from assms have "scan_entry env (load_ignore_patterns env) absRoot (sc_root env) (fs_root (sc_fs env)) = Some files"
    by (auto simp: scan_repo_def split: option.splits)
  from scan_entry_exact(1) [OF this] have iff: "f \<in> set files \<longleftrightarrow>
           (\<exists>ds p n. tree_file (sc_root env) (fs_root (sc_fs env)) ds p n
              \<and> list_all (\<lambda>d. \<not> scan_skips_dir d) ds
              \<and> scan_file env (load_ignore_patterns env) absRoot p n = Some f)"
    by simp
  have "sf_Language f \<in> set (map snd language_extensions)" "sf_in_root absRoot f" "sf_read env f" "sf_kept env f"
    if "scan_file env (load_ignore_patterns env) absRoot p n = Some f" for p n
    using scan_file_facts [OF that] by (force simp: language_for_ext_def dest: map_of_SomeD)+
  with iff show ?thesis by blast
qed

definition sample_scan :: scan_env where
  "sample_scan = \<lparr>sc_fs = sample_fs\<lparr>fs_ReadFile := (\<lambda>p. if p = ''/p/a.GO'' then Inr ''package p'' else Inl (ErrMsg ''not exist''))\<rparr>,
     sc_root = ''/p'', sc_compile_ignore = (\<lambda>_ _. False), sc_sha256 = id, sc_info = (\<lambda>_. Some (1000, 9)),
     sc_cancelled = (\<lambda>_. False)\<rparr>"

definition sample_file :: scanned_file where
  "sample_file = \<lparr>sf_Path = ''a.GO'', sf_AbsPath = ''/p/a.GO'', sf_ContentHash = ''package p'', sf_Mtime = 1, sf_Size = 9,
     sf_Language = ''go'', sf_Content = Some ''package p''\<rparr>"

theorem scan_repo_exact_witness:
  "scan_repo sample_scan = Inr [sample_file] \<and> sf_in_root ''/p'' sample_file"
proof -
  have "scan_repo sample_scan = Inr [sample_file]" by code_simp
  moreover have "fs_EvalSymlinks (sc_fs sample_scan) (sc_root sample_scan) = Inr ''/p''" by code_simp
  ultimately show ?thesis using scan_repo_exact [of sample_scan "[sample_file]" "''/p''" sample_file] by simp
qed

end
