(* ===== verification/Write_Job.thy ===== *)
theory Write_Job
  imports Sqlite_Graph Sqlite_Diff Scanner Bruteforce
begin

text \<open>
  \<open>processJob\<close> of \<open>internal/daemon/writer.go\<close>: what the writer goroutine does with one job. A job is
  several transactions, each committed before the next begins, so an error leaves the ones before
  it in place. The environment holds the test patterns and the clock: the formatted time of
  this job, the column default of \<open>diff_log.timestamp\<close>, and \<open>time.Parse\<close> in nanoseconds. The Go
  maps \<open>oldSymbols\<close> and \<open>newSymbolSet\<close> are association lists in the order they were filled, and are
  ranged over in that order. An index out of range, which panics, is an error. Log lines are left out.
\<close>

record job_env =
  je_testPatterns :: "string list"
  je_now :: string
  je_sql_now :: string
  je_parse :: "string \<Rightarrow> int option"

section \<open>Diffs\<close>

record old_symbol =
  os_kind :: string
  os_signature :: string
  os_startLine :: int
  os_endLine :: int

definition build_old_symbols :: "int \<Rightarrow> sql_db \<Rightarrow> (string \<times> old_symbol) list" where
  "build_old_symbols fileID db =
     (let chunkEndLines = map_of (rev (map (\<lambda>c. (cr_ID c, cr_EndLine c)) (get_chunks_by_file fileID db)))
      in fold (\<lambda>s. AList.update (sy_Name s)
                 \<lparr>os_kind = sy_Kind s, os_signature = sy_Signature s, os_startLine = sy_Line s,
                  os_endLine = (case chunkEndLines (sy_ChunkID s) of Some el \<Rightarrow> el | None \<Rightarrow> sy_Line s)\<rparr>)
           (get_symbols_by_file fileID db) [])"

definition chunk_lines :: "chunk_record list \<Rightarrow> int" where
  "chunk_lines cs = (\<Sum>c\<leftarrow>cs. cr_EndLine c - cr_StartLine c + 1)"

definition old_symbol_lines :: "(string \<times> old_symbol) list \<Rightarrow> int" where
  "old_symbol_lines oldSymbols = (\<Sum>(n, s)\<leftarrow>oldSymbols. os_endLine s - os_startLine s + 1)"

definition diff_symbol :: "string \<Rightarrow> int \<Rightarrow> string \<Rightarrow> diff_symbol_entry" where
  "diff_symbol name symID change =
     \<lparr>ds_SymbolName = name, ds_SymbolID = symID, ds_ChangeType = change, ds_ChunkID = 0\<rparr>"

definition symbol_set :: "symbol_record list \<Rightarrow> (string \<times> symbol_record) list" where
  "symbol_set syms = fold (\<lambda>s. AList.update (sy_Name s) s) syms []"

definition symbol_diffs ::
  "(string \<times> old_symbol) list \<Rightarrow> symbol_record list \<Rightarrow> (string \<rightharpoonup> int) \<Rightarrow> diff_symbol_entry list" where
  "symbol_diffs oldSymbols syms newSymbolIDs =
     (let newSymbolSet = symbol_set syms in
      concat (map (\<lambda>(name, oldSym).
        case map_of newSymbolSet name of
          Some newSym \<Rightarrow>
            if os_signature oldSym \<noteq> sy_Signature newSym
            then [diff_symbol name (map_or_zero newSymbolIDs name) ''signature_changed'']
            else if os_startLine oldSym \<noteq> sy_Line newSym
            then [diff_symbol name (map_or_zero newSymbolIDs name) ''modified'']
            else []
        | None \<Rightarrow> [diff_symbol name 0 ''removed'']) oldSymbols)
      @ concat (map (\<lambda>(name, s). if map_of oldSymbols name = None
                                 then [diff_symbol name (map_or_zero newSymbolIDs name) ''added''] else []) newSymbolSet))"

definition record_diff :: "job_env \<Rightarrow> diff_log_entry \<Rightarrow> diff_symbol_entry list \<Rightarrow> unit tx" where
  "record_diff env entry diffSymbols =
     with_write_tx (tx_bind (insert_diff_log (je_sql_now env) entry) (\<lambda>diffID.
       if diffSymbols \<noteq> [] then insert_diff_symbols diffID diffSymbols else tx_return ()))"

definition compute_and_record_diff ::
  "job_env \<Rightarrow> int \<Rightarrow> string \<Rightarrow> write_job \<Rightarrow> (string \<times> old_symbol) list \<Rightarrow> (string \<rightharpoonup> int) \<Rightarrow> sql_db \<Rightarrow> sql_db" where
  "compute_and_record_diff env fileID oldHash job oldSymbols newSymbolIDs db =
     (let totalOldLines = old_symbol_lines oldSymbols;
          totalNewLines = chunk_lines (wj_Chunks job);
          entry = \<lparr>dl_ID = 0, dl_FileID = fileID, dl_Timestamp = [], dl_ChangeType = ''modify'',
            dl_LinesAdded = (if totalNewLines > totalOldLines then totalNewLines - totalOldLines else 0),
            dl_LinesRemoved = (if totalNewLines > totalOldLines then 0 else totalOldLines - totalNewLines),
            dl_HashBefore = oldHash, dl_HashAfter = wj_ContentHash job\<rparr>
      in snd (record_diff env entry (symbol_diffs oldSymbols (wj_Symbols job) newSymbolIDs) db))"

definition record_add_diff ::
  "job_env \<Rightarrow> int \<Rightarrow> string \<Rightarrow> int \<Rightarrow> symbol_record list \<Rightarrow> (string \<rightharpoonup> int) \<Rightarrow> sql_db \<Rightarrow> sql_db" where
  "record_add_diff env fileID hash totalLines symbols symbolIDs db =
     snd (record_diff env
       \<lparr>dl_ID = 0, dl_FileID = fileID, dl_Timestamp = [], dl_ChangeType = ''add'', dl_LinesAdded = totalLines,
        dl_LinesRemoved = 0, dl_HashBefore = [], dl_HashAfter = hash\<rparr>
       (map (\<lambda>s. diff_symbol (sy_Name s) (map_or_zero symbolIDs (sy_Name s)) ''added'') symbols) db)"

section \<open>The enrichment job\<close>

text \<open>The content hash guard and the stale check.\<close>

definition skip_job :: "job_env \<Rightarrow> write_job \<Rightarrow> sql_db \<Rightarrow> bool" where
  "skip_job env job db \<longleftrightarrow>
     wj_ContentHash job \<noteq> [] \<and>
     (case get_file_by_path (wj_FilePath job) db of
        None \<Rightarrow> False
      | Some file \<Rightarrow>
          fr_ContentHash file = wj_ContentHash job
        \<or> (fr_IndexedAt file \<noteq> [] \<and>
           (case je_parse env (fr_IndexedAt file) of Some dbTime \<Rightarrow> dbTime > wj_Timestamp job | None \<Rightarrow> False)))"

definition job_file_record :: "job_env \<Rightarrow> file_record \<Rightarrow> file_record" where
  "job_file_record env file =
     \<lparr>fr_ID = 0, fr_Path = fr_Path file, fr_ContentHash = fr_ContentHash file, fr_Mtime = fr_Mtime file, fr_Size = fr_Size file,
      fr_Language = fr_Language file, fr_IndexedAt = je_now env, fr_EmbeddingStatus = ''pending'',
      fr_ParseQuality = fr_ParseQuality file, fr_IsTest = is_test_file (fr_Path file) (je_testPatterns env)\<rparr>"

definition job_chunk :: "chunk_record \<Rightarrow> chunk_record" where
  "job_chunk c =
     zero_chunk\<lparr>cr_ChunkIndex := cr_ChunkIndex c, cr_SymbolName := cr_SymbolName c, cr_Kind := cr_Kind c,
       cr_StartLine := cr_StartLine c, cr_EndLine := cr_EndLine c, cr_Content := cr_Content c,
       cr_TokenCount := cr_TokenCount c, cr_Signature := cr_Signature c,
       cr_ParseQuality := coalesce (cr_ParseQuality c) ''full''\<rparr>"

text \<open>The updates of the parent map; \<open>None\<close> when a negative index panics.\<close>

fun parent_updates :: "int list \<Rightarrow> (chunk_record \<times> int) list \<Rightarrow> (int \<times> int) list option" where
  "parent_updates chunkIDs [] = Some []"
| "parent_updates chunkIDs ((c, i) # rest) =
     (case cr_ParentIndex c of
        Some p \<Rightarrow>
          if p < int (length chunkIDs) then
            if p < 0 then None else map_option (Cons (i, chunkIDs ! nat p)) (parent_updates chunkIDs rest)
          else parent_updates chunkIDs rest
      | None \<Rightarrow> parent_updates chunkIDs rest)"

definition set_job_parents :: "string \<Rightarrow> int list \<Rightarrow> chunk_record list \<Rightarrow> unit tx" where
  "set_job_parents path chunkIDs chunks =
     (case parent_updates chunkIDs (zip chunks chunkIDs) of
        None \<Rightarrow> (\<lambda>db. (Inl (ErrMsg ''index out of range''), db))
      | Some parents \<Rightarrow> tx_wrap (''set parent chunks for '' @ path) (update_chunk_parents parents))"

definition has_chunk :: "nat \<Rightarrow> symbol_record \<Rightarrow> bool" where
  "has_chunk n s \<longleftrightarrow> 0 \<le> sy_ChunkID s \<and> sy_ChunkID s < int n"

definition job_symbol :: "int list \<Rightarrow> symbol_record \<Rightarrow> symbol_record" where
  "job_symbol chunkIDs s =
     zero_symbol\<lparr>sy_ChunkID := chunkIDs ! nat (sy_ChunkID s), sy_Name := sy_Name s, sy_QualifiedName := sy_QualifiedName s,
       sy_Kind := sy_Kind s, sy_Line := sy_Line s, sy_Signature := sy_Signature s,
       sy_Visibility := sy_Visibility s, sy_IsExported := sy_IsExported s\<rparr>"

definition job_symbols :: "int list \<Rightarrow> symbol_record list \<Rightarrow> symbol_record list" where
  "job_symbols chunkIDs syms = map (job_symbol chunkIDs) (filter (has_chunk (length chunkIDs)) syms)"

text \<open>The first id of each name.\<close>

definition first_symbol_ids :: "symbol_record list \<Rightarrow> int list \<Rightarrow> string \<rightharpoonup> int" where
  "first_symbol_ids symRecords symIDs =
     fold (\<lambda>(s, i) m. if m (sy_Name s) = None then m(sy_Name s \<mapsto> i) else m) (zip symRecords symIDs) Map.empty"

definition record_job_diff ::
  "job_env \<Rightarrow> int \<Rightarrow> string \<Rightarrow> write_job \<Rightarrow> (string \<times> old_symbol) list \<Rightarrow> (string \<rightharpoonup> int) \<Rightarrow> unit tx" where
  "record_job_diff env fileID oldHash job oldSymbols symbolIDs db =
     (Inr (),
      if oldHash \<noteq> [] \<and> oldHash \<noteq> wj_ContentHash job
      then compute_and_record_diff env fileID oldHash job oldSymbols symbolIDs db
      else if oldHash = []
      then record_add_diff env fileID (wj_ContentHash job) (chunk_lines (wj_Chunks job)) (wj_Symbols job) symbolIDs db
      else db)"

definition write_job_edges :: "int \<Rightarrow> write_job \<Rightarrow> file_record \<Rightarrow> (string \<rightharpoonup> int) \<Rightarrow> string list \<Rightarrow> unit tx" where
  "write_job_edges fileID job file symbolIDs newSymbolNames =
     with_write_tx
       (tx_bind (tx_wrap (''delete old edges for '' @ wj_FilePath job) (delete_edges_by_file fileID)) (\<lambda>_.
        tx_bind (tx_wrap (''insert edges for '' @ wj_FilePath job)
          (insert_edges fileID (wj_Edges job) symbolIDs (fr_Language file))) (\<lambda>_.
        resolve_pending_edges newSymbolNames)))"

text \<open>From the upsert on; the result is the ids of the replaced chunks that had vectors.\<close>

definition write_enrichment ::
  "job_env \<Rightarrow> write_job \<Rightarrow> file_record \<Rightarrow> string \<Rightarrow> (string \<times> old_symbol) list \<Rightarrow> int list tx" where
  "write_enrichment env job file oldHash oldSymbols =
     tx_bind (tx_wrap (''upsert file '' @ wj_FilePath job) (upsert_file (je_now env) (job_file_record env file))) (\<lambda>fileID.
     tx_bind (\<lambda>db. (Inr (get_embedded_chunk_ids_by_file fileID db), db)) (\<lambda>staleChunkIDs.
     tx_bind (tx_wrap (''delete old chunks for '' @ wj_FilePath job) (delete_chunks_by_file fileID)) (\<lambda>_.
     tx_bind (tx_wrap (''insert chunks for '' @ wj_FilePath job) (insert_chunks fileID (map job_chunk (wj_Chunks job)))) (\<lambda>chunkIDs.
     tx_bind (set_job_parents (wj_FilePath job) chunkIDs (wj_Chunks job)) (\<lambda>_.
     tx_bind (tx_wrap (''insert symbols for '' @ wj_FilePath job)
       (insert_symbols fileID (job_symbols chunkIDs (wj_Symbols job)))) (\<lambda>symIDs.
     let symRecords = job_symbols chunkIDs (wj_Symbols job);
         symbolIDs = first_symbol_ids symRecords symIDs in
     tx_bind (record_job_diff env fileID oldHash job oldSymbols symbolIDs) (\<lambda>_.
     tx_bind (write_job_edges fileID job file symbolIDs (map sy_Name symRecords)) (\<lambda>_.
     tx_return staleChunkIDs))))))))"

definition process_enrichment_job :: "job_env \<Rightarrow> write_job \<Rightarrow> int list tx" where
  "process_enrichment_job env job db =
     (case wj_File job of
        None \<Rightarrow> (Inl (ErrMsg (''enrichment job for '' @ wj_FilePath job @ '' has nil file'')), db)
      | Some file \<Rightarrow>
          if skip_job env job db then (Inr [], db)
          else (case get_file_by_path (wj_FilePath job) db of
                  None \<Rightarrow> write_enrichment env job file [] [] db
                | Some oldFile \<Rightarrow>
                    write_enrichment env job file (fr_ContentHash oldFile) (build_old_symbols (fr_ID oldFile) db) db))"

definition process_write_job :: "job_env \<Rightarrow> write_job \<Rightarrow> int list tx" where
  "process_write_job env job db =
     (case wj_Type job of
        WriteJobEnrichment \<Rightarrow> process_enrichment_job env job db
      | WriteJobFileDelete \<Rightarrow>
          let staleChunkIDs = (case get_file_by_path (wj_FilePath job) db of
                                 None \<Rightarrow> [] | Some file \<Rightarrow> get_embedded_chunk_ids_by_file (fr_ID file) db)
          in (case delete_file_by_path (wj_FilePath job) db of
                (Inl e, db1) \<Rightarrow> (Inl (ErrWrap (''delete file '' @ wj_FilePath job) e), db1)
              | (Inr _, db1) \<Rightarrow> (Inr staleChunkIDs, db1))
      | WriteJobSync \<Rightarrow> (Inr [], db)
      | WriteJobOther n \<Rightarrow> (Inl (ErrMsg (''unknown write job type: '' @ dec_int n)), db))"

text \<open>
  The job with its clean-up of the vector store; \<open>None\<close> for the deleter is a daemon without
  embeddings. The first component is what the job's \<open>Done\<close> channel receives.
\<close>

definition process_job ::
  "job_env \<Rightarrow> (int list \<Rightarrow> 'v \<Rightarrow> unit res \<times> 'v) option \<Rightarrow> write_job \<Rightarrow> sql_db \<times> 'v \<Rightarrow> unit res \<times> sql_db \<times> 'v" where
  "process_job env vectorDeleter job state =
     (case state of (db, vs) \<Rightarrow>
        (case process_write_job env job db of
           (Inl e, db1) \<Rightarrow> (Inl e, db1, vs)
         | (Inr staleChunkIDs, db1) \<Rightarrow>
             (case vectorDeleter of
                Some delete \<Rightarrow> (Inr (), db1, if staleChunkIDs \<noteq> [] then snd (delete staleChunkIDs vs) else vs)
              | None \<Rightarrow> (Inr (), db1, vs))))"

section \<open>The store stays in order\<close>

lemma keeps_record_diff: "tx_keeps (record_diff env entry dss)"
  unfolding record_diff_def
  by (intro keeps_intros keeps_insert_diff_log) (simp add: keeps_insert_diff_symbols keeps_return)

lemma keeps_set_job_parents: "tx_keeps (set_job_parents path ids cs)"
proof -
  have "tx_keeps (update_chunk_parents ups)" for ups
  proof (cases "ups = []")
    case True
    then show ?thesis by (simp add: update_chunk_parents_def keeps_const)
  next
    case False
    then show ?thesis
      using keeps_with_write_tx [OF keeps_set_parents [of ups]] by (simp add: update_chunk_parents_def)
  qed
  then show ?thesis
    by (cases "parent_updates ids (zip cs ids)") (simp_all add: set_job_parents_def keeps_const keeps_tx_wrap)
qed

lemma keeps_record_job_diff: "tx_keeps (record_job_diff env fileID oldHash job olds ids)"
  using keeps_record_diff [of env]
  by (simp add: record_job_diff_def keeps_def compute_and_record_diff_def record_add_diff_def Let_def)

lemma keeps_write_job_edges: "tx_keeps (write_job_edges fileID job file ids names)"
  unfolding write_job_edges_def
  by (intro keeps_intros keeps_delete_edges_by_file keeps_insert_edges keeps_resolve_pending_edges)

lemma keeps_write_enrichment: "tx_keeps (write_enrichment env job file oldHash olds)"
  unfolding write_enrichment_def Let_def upsert_file_def delete_chunks_by_file_def insert_symbols_def
  by (intro keeps_intros keeps_upsert_file_tx keeps_insert_chunks keeps_set_job_parents keeps_insert_symbol_rows
      keeps_record_job_diff keeps_write_job_edges) (simp add: keeps_drop_chunks)

lemma keeps_process_write_job: "tx_keeps (process_write_job env job)"
proof -
  have enrich: "tx_keeps (process_enrichment_job env job)"
  proof (cases "wj_File job")
    case None
    then show ?thesis by (simp add: process_enrichment_job_def keeps_const)
  next
    case (Some fl)
    have old: "tx_keeps (\<lambda>db. write_enrichment env job fl (fr_ContentHash f) (build_old_symbols (fr_ID f) db) db)" for f
      by (rule keeps_arg [of "write_enrichment env job fl (fr_ContentHash f)"]) (rule keeps_write_enrichment)
    have "tx_keeps (\<lambda>db. if skip_job env job db then (Inr [], db)
          else (case get_file_by_path (wj_FilePath job) db of
                  None \<Rightarrow> write_enrichment env job fl [] [] db
                | Some oldFile \<Rightarrow> write_enrichment env job fl (fr_ContentHash oldFile) (build_old_symbols (fr_ID oldFile) db) db))"
      by (rule keeps_if, rule keeps_const, rule keeps_case_option, rule old, rule keeps_write_enrichment)
    then show ?thesis using Some by (simp add: process_enrichment_job_def cong: option.case_cong)
  qed
  have "tx_keeps (\<lambda>db. case delete_file_by_path p db of (Inl e, db1) \<Rightarrow> (Inl (g e), db1) | (Inr _, db1) \<Rightarrow> (Inr (h db), db1))"
    for p and g :: "err \<Rightarrow> err" and h :: "sql_db \<Rightarrow> int list"
    using keeps_delete_file_by_path [of p] unfolding keeps_def by (simp split: prod.splits sum.splits) (metis snd_conv)
  with enrich show ?thesis
    by (cases "wj_Type job") (simp_all add: process_write_job_def Let_def keeps_const)
qed

section \<open>What a job changes\<close>

text \<open>An operation leaves a part of the store alone when that part is the same after it, whatever it returns.\<close>

definition leaves :: "(sql_db \<Rightarrow> 'b) \<Rightarrow> 'a tx \<Rightarrow> bool" where
  "leaves q m \<longleftrightarrow> (\<forall>db. q (snd (m db)) = q db)"

named_theorems leaves_intros \<open>operations that leave a part of the store alone\<close>

lemma leavesD: "leaves q m \<Longrightarrow> m db = (r, db') \<Longrightarrow> q db' = q db"
  unfolding leaves_def by (metis snd_conv)

lemma leaves_return [leaves_intros]: "leaves q (tx_return a)"
  by (simp add: leaves_def tx_return_def)

lemma leaves_bind [leaves_intros]: "leaves q m \<Longrightarrow> (\<And>a. leaves q (g a)) \<Longrightarrow> leaves q (tx_bind m g)"
  by (auto simp: leaves_def tx_bind_def split: prod.splits sum.splits) (metis snd_conv)+

lemma leaves_wrap [leaves_intros]: "leaves q m \<Longrightarrow> leaves q (tx_wrap ctx m)"
  by (auto simp: leaves_def tx_wrap_def split: prod.splits) (metis snd_conv)

lemma leaves_tx [leaves_intros]: "leaves q m \<Longrightarrow> leaves q (with_write_tx m)"
  by (auto simp: leaves_def with_write_tx_def split: prod.splits sum.splits) (metis snd_conv)

definition core :: "sql_db \<Rightarrow> file_record list \<times> chunk_row list \<times> symbol_record list" where
  "core db = (db_files db, db_chunks db, db_symbols db)"

text \<open>A part of the store that the statements on edges leave alone is left alone by the edges of a job.\<close>

locale edge_frame =
  fixes q :: "sql_db \<Rightarrow> 'b"
  assumes edge: "leaves q (insert_edge a b k f)" and pending: "leaves q (insert_pending a f n c k l)"
    and no_pending: "q (delete_pending i db) = q db" and no_edges: "leaves q (delete_edges_by_file f)"
begin

lemma one_edge: "leaves q (insert_one_edge fileID ids language e)"
  using edge pending
  by (simp add: leaves_def insert_one_edge_def tx_wrap_def Let_def split: prod.split) (metis snd_conv)

lemma all_edges: "leaves q (insert_edges fileID es ids language)"
proof (induction es)
  case (Cons e es)
  have "insert_edges fileID (e # es) ids language =
      tx_bind (insert_one_edge fileID ids language e) (\<lambda>_. insert_edges fileID es ids language)"
    by (auto simp: fun_eq_iff tx_bind_def)
  then show ?case by (simp add: leaves_bind one_edge Cons)
qed (simp add: leaves_def)

lemma rows: "leaves q (resolve_rows ps)"
  unfolding leaves_def
proof (intro allI)
  fix db show "q (snd (resolve_rows ps db)) = q db"
  proof (induction ps arbitrary: db)
    case (Cons p ps)
    obtain r db1 where i: "insert_edge (pe_Src p) (lookup_symbol_id_tx (pe_DstName p) 0 (pe_Language p) db) (pe_Kind p) (pe_FileID p) db = (r, db1)"
      by fastforce
    from leavesD [OF edge this] have "q db1 = q db" .
    with Cons i show ?case by (simp add: Let_def no_pending split: sum.split)
  qed simp
qed

lemma job_edges: "leaves q (write_job_edges fileID job fl ids names)"
proof -
  have "leaves q (resolve_pending_edges names)" using rows by (simp add: leaves_def resolve_pending_edges_def)
  then show ?thesis unfolding write_job_edges_def by (intro leaves_intros all_edges no_edges)
qed

end

interpretation core_frame: edge_frame core
  by unfold_locales
    (simp_all add: leaves_def core_def insert_edge_def insert_pending_def delete_pending_def delete_edges_by_file_def Let_def)

text \<open>The diff log.\<close>

definition logs :: "sql_db \<Rightarrow> diff_log_entry list \<times> diff_symbol_row list" where
  "logs db = (db_diffs db, db_diffsyms db)"

interpretation log_frame: edge_frame logs
  by unfold_locales
    (simp_all add: leaves_def logs_def insert_edge_def insert_pending_def delete_pending_def delete_edges_by_file_def Let_def)

lemmas leaves_insert_one_edge = core_frame.one_edge
lemmas leaves_write_job_edges = core_frame.job_edges

text \<open>A part of the store that the statements on the diff log leave alone is left alone by the diff of a job.\<close>

locale diff_frame =
  fixes q :: "sql_db \<Rightarrow> 'b"
  assumes log_entry: "leaves q (insert_diff_log now entry)" and log_symbol: "leaves q (insert_diff_symbol diffID ds)"
begin

lemma log_symbols: "leaves q (insert_diff_symbols diffID dss)"
proof (induction dss)
  case (Cons ds dss)
  have "insert_diff_symbols diffID (ds # dss) =
      tx_bind (tx_wrap ''insert diff_symbol'' (insert_diff_symbol diffID ds)) (\<lambda>_. insert_diff_symbols diffID dss)"
    by (auto simp: fun_eq_iff tx_bind_def tx_wrap_def split: prod.splits sum.splits)
  then show ?case by (simp add: leaves_bind leaves_wrap log_symbol Cons)
qed (simp add: leaves_def)

lemma job_diff: "leaves q (record_job_diff env fileID oldHash job olds ids)"
proof -
  have "leaves q (record_diff env entry dss)" for entry dss
    unfolding record_diff_def by (intro leaves_intros) (simp_all add: log_entry log_symbols leaves_return)
  then show ?thesis
    by (simp add: leaves_def record_job_diff_def compute_and_record_diff_def record_add_diff_def Let_def)
qed

end

interpretation core_diff: diff_frame core
  by unfold_locales (simp_all add: leaves_def core_def insert_diff_log_def insert_diff_symbol_def Let_def)

text \<open>The edges and the pending edges.\<close>

definition graph :: "sql_db \<Rightarrow> edge_row list \<times> pending_row list" where
  "graph db = (db_edges db, db_pending db)"

interpretation graph_diff: diff_frame graph
  by unfold_locales (simp_all add: leaves_def graph_def insert_diff_log_def insert_diff_symbol_def Let_def)

lemmas leaves_record_job_diff = core_diff.job_diff

end
