(* ===== verification/Job_Rows.thy ===== *)
theory Job_Rows
  imports Write_Job
begin

text \<open>
  What the statements of an enrichment job (\<open>Write_Job\<close>) leave row by row: the parents of the chunks, the edges
  and pending edges, and the entry of the diff log.
\<close>

section \<open>Successful steps\<close>

lemma tx_bind_Inr:
  "tx_bind m g db = (Inr a, db') \<longleftrightarrow> (\<exists>b db1. m db = (Inr b, db1) \<and> g b db1 = (Inr a, db'))"
  by (auto simp: tx_bind_def split: prod.splits sum.splits)

lemma tx_wrap_Inr: "tx_wrap ctx m db = (Inr a, db') \<longleftrightarrow> m db = (Inr a, db')"
  by (auto simp: tx_wrap_def wrap_res_def split: prod.splits sum.splits)

lemma with_write_tx_Inr: "with_write_tx m db = (Inr a, db') \<longleftrightarrow> m db = (Inr a, db')"
  by (auto simp: with_write_tx_def split: prod.splits sum.splits)

lemmas tx_Inr = tx_bind_Inr tx_wrap_Inr with_write_tx_Inr

section \<open>Parts that the statements on chunks and symbols leave alone\<close>

locale row_frame =
  fixes q :: "sql_db \<Rightarrow> 'b"
  assumes chunk: "leaves q (insert_chunk c)" and parent: "leaves q (set_parent p i)" and symbol: "leaves q (insert_symbol s)"
begin

lemma chunks: "leaves q (insert_chunks fid cs)"
proof -
  have rows: "leaves q (insert_chunk_rows fid cs)" for cs
  proof (induction cs)
    case (Cons c cs)
    with chunk show ?case unfolding insert_chunk_rows_Cons by (intro leaves_intros)
  qed (simp add: leaves_def)
  have "leaves q (resolve_parents ids ps)" for ids ps
    unfolding leaves_def
  proof
    fix db show "q (snd (resolve_parents ids ps db)) = q db"
    proof (induction ps arbitrary: db)
      case (Cons x ps)
      obtain c i where x: "x = (c, i)" by (cases x)
      have "q db1 = q db" if "set_parent p j db = (r, db1)" for p j r db1
        by (rule leavesD [OF parent that])
      with Cons show ?case by (auto simp: x split: option.split prod.split sum.split)
    qed simp
  qed
  with rows show ?thesis unfolding insert_chunks_def by (intro leaves_intros)
qed

lemma symbols: "leaves q (insert_symbols fid ss)"
proof -
  have "leaves q (insert_symbol_rows fid ss)"
  proof (induction ss)
    case (Cons s ss)
    with symbol show ?case unfolding insert_symbol_rows_Cons by (intro leaves_intros)
  qed (simp add: leaves_def)
  then show ?thesis unfolding insert_symbols_def by (intro leaves_intros)
qed

lemma parents: "leaves q (set_job_parents path ids cs)"
  unfolding leaves_def
proof
  fix db
  have ups: "leaves q (set_parents ups)" for ups
  proof (induction ups)
    case (Cons u ups)
    obtain i p where u: "u = (i, p)" by (cases u)
    have "set_parents (u # ups) = tx_bind (set_parent p i) (\<lambda>_. set_parents ups)" by (auto simp: u fun_eq_iff tx_bind_def)
    with Cons show ?case by (simp add: leaves_bind parent)
  qed (simp add: leaves_def)
  have "q (snd (update_chunk_parents ups db)) = q db" for ups
    using leaves_tx [OF ups [of ups]] by (simp add: leaves_def update_chunk_parents_def)
  then have "q (snd (tx_wrap ctx (update_chunk_parents ups) db)) = q db" for ctx ups
    by (simp add: tx_wrap_def split: prod.split) (metis snd_conv)
  then show "q (snd (set_job_parents path ids cs db)) = q db"
    by (simp add: set_job_parents_def split: option.split)
qed

end

interpretation file_rows: row_frame db_files
  by unfold_locales (simp_all add: leaves_def insert_chunk_def set_parent_def update_chunks_def insert_symbol_def Let_def)

text \<open>Edges, pending edges and the diff log.\<close>

definition links :: "sql_db \<Rightarrow> edge_row list \<times> pending_row list \<times> diff_log_entry list" where
  "links db = (db_edges db, db_pending db, db_diffs db)"

interpretation link_rows: row_frame links
  by unfold_locales (simp_all add: leaves_def links_def insert_chunk_def set_parent_def update_chunks_def insert_symbol_def Let_def)

section \<open>Parents\<close>

text \<open>The parent that a chunk of a job gets among the ids of the inserted chunks.\<close>

definition job_parent :: "int list \<Rightarrow> chunk_record \<Rightarrow> int option" where
  "job_parent ids c =
     (case cr_ParentIndex c of None \<Rightarrow> None | Some p \<Rightarrow> if p < int (length ids) then Some (ids ! nat p) else None)"

definition adopt :: "(int \<rightharpoonup> int) \<Rightarrow> chunk_row \<Rightarrow> chunk_row" where
  "adopt m c = (case m (cr_ID c) of None \<Rightarrow> c | Some p \<Rightarrow> c\<lparr>cr_ParentChunkID := Some p\<rparr>)"

lemma adopt_fields [simp]: "cr_ID (adopt m c) = cr_ID c" "cr_FileID (adopt m c) = cr_FileID c"
  by (simp_all add: adopt_def split: option.split)

lemma set_parents_rows:
  "set_parents ups db = (Inr u, db') \<Longrightarrow> db_chunks db' = map (adopt (map_of (rev ups))) (db_chunks db)"
proof (induction ups arbitrary: db)
  case Nil
  then show ?case by (simp add: adopt_def)
next
  case (Cons x ups)
  obtain i p where x: "x = (i, p)" by (cases x)
  define db1 where "db1 = update_chunks (\<lambda>c. cr_ID c = i) (\<lambda>c. c\<lparr>cr_ParentChunkID := Some p\<rparr>) db"
  from Cons.prems have rest: "set_parents ups db1 = (Inr u, db')"
    by (auto simp: x set_parent_def db1_def split: if_splits prod.splits sum.splits)
  have "db_chunks db1 = map (\<lambda>c. if cr_ID c = i then c\<lparr>cr_ParentChunkID := Some p\<rparr> else c) (db_chunks db)"
    by (simp add: db1_def update_chunks_def)
  with Cons.IH [OF rest] show ?case
    by (auto simp: x adopt_def map_add_def split: option.splits)
qed

lemma parent_updates_Cons:
  "parent_updates ids ((c, i) # rest) = Some ups \<longleftrightarrow>
     (case job_parent ids c of
        None \<Rightarrow> parent_updates ids rest = Some ups
      | Some p \<Rightarrow> (\<forall>k. cr_ParentIndex c = Some k \<longrightarrow> 0 \<le> k) \<and> (\<exists>ups'. parent_updates ids rest = Some ups' \<and> ups = (i, p) # ups'))"
  by (cases "cr_ParentIndex c") (auto simp: job_parent_def)

lemma parent_updates_exact:
  "parent_updates ids ps = Some ups \<Longrightarrow> distinct (map snd ps) \<Longrightarrow>
   distinct (map fst ups) \<and> fst ` set ups \<subseteq> snd ` set ps \<and> (\<forall>(c, i) \<in> set ps. map_of ups i = job_parent ids c)"
proof (induction ps arbitrary: ups)
  case (Cons x rest)
  obtain c i where x: "x = (c, i)" by (cases x)
  have i: "i \<notin> snd ` set rest" "distinct (map snd rest)" using Cons.prems(2) x by auto
  show ?case
  proof (cases "job_parent ids c")
    case None
    with Cons.prems(1) have "parent_updates ids rest = Some ups" unfolding x parent_updates_Cons by simp
    with Cons.IH i(2) have IH: "distinct (map fst ups)" "fst ` set ups \<subseteq> snd ` set rest" "\<forall>(c, i) \<in> set rest. map_of ups i = job_parent ids c"
      by blast+
    with i(1) have "map_of ups i = None" by (auto simp: map_of_eq_None_iff)
    with IH None x show ?thesis by auto
  next
    case (Some p)
    with Cons.prems(1) obtain ups' where ups: "parent_updates ids rest = Some ups'" "ups = (i, p) # ups'"
      unfolding x parent_updates_Cons by auto
    with Cons.IH i(2) have IH: "distinct (map fst ups')" "fst ` set ups' \<subseteq> snd ` set rest" "\<forall>(c, i) \<in> set rest. map_of ups' i = job_parent ids c"
      by blast+
    have "\<forall>(d, j) \<in> set rest. map_of ups j = job_parent ids d" using IH(3) i(1) unfolding ups(2) by force
    moreover have "i \<notin> fst ` set ups'" using IH(2) i(1) by blast
    ultimately show ?thesis using IH Some unfolding x ups(2) by auto
  qed
qed simp

lemma set_job_parents_rows:
  assumes "set_job_parents path ids cs db = (Inr u, db')" and "length ids = length cs" and "distinct ids"
  obtains m where "db_chunks db' = map (adopt m) (db_chunks db)" and "\<forall>(c, i) \<in> set (zip cs ids). m i = job_parent ids c"
proof -
  from assms(1) obtain ups where ups: "parent_updates ids (zip cs ids) = Some ups" and run: "update_chunk_parents ups db = (Inr u, db')"
    by (auto simp: set_job_parents_def tx_Inr split: option.splits)
  have "distinct (map snd (zip cs ids))" using assms(2,3) by simp
  from parent_updates_exact [OF ups this] have m: "distinct (map fst ups)" "\<forall>(c, i) \<in> set (zip cs ids). map_of ups i = job_parent ids c"
    by simp_all
  from m(1) have "map_of (rev ups) = map_of ups" by (subst map_of_inject_set) (simp_all add: rev_map [symmetric])
  moreover have "set_parents ups db = (Inr u, db')"
    using run by (auto simp: update_chunk_parents_def with_write_tx_Inr split: if_splits)
  from set_parents_rows [OF this] have "db_chunks db' = map (adopt (map_of (rev ups))) (db_chunks db)" .
  ultimately show thesis using m(2) by (intro that [of "map_of ups"]) simp_all
qed

section \<open>Edges\<close>

text \<open>A pending row without the key that the database assigns.\<close>

definition unkeyed :: "pending_row \<Rightarrow> pending_row" where
  "unkeyed p = p\<lparr>pe_ID := 0\<rparr>"

lemma unkeyed_simps [simp]:
  "pe_Src (unkeyed p) = pe_Src p" "pe_FileID (unkeyed p) = pe_FileID p" "pe_DstName (unkeyed p) = pe_DstName p"
  "pe_DstQualified (unkeyed p) = pe_DstQualified p" "pe_Kind (unkeyed p) = pe_Kind p" "pe_Language (unkeyed p) = pe_Language p"
  by (simp_all add: unkeyed_def)

text \<open>The target of an edge, zero when there is none, and its pending row.\<close>

definition edge_target :: "(string \<rightharpoonup> int) \<Rightarrow> int \<Rightarrow> string \<Rightarrow> sql_db \<Rightarrow> edge_record \<Rightarrow> int" where
  "edge_target ids fid language db e =
     (if map_or_zero ids (er_DstSymbolName e) = 0 then lookup_symbol_id_tx (er_DstSymbolName e) fid language db
      else map_or_zero ids (er_DstSymbolName e))"

definition pending_for :: "int \<Rightarrow> int \<Rightarrow> string \<Rightarrow> edge_record \<Rightarrow> pending_row" where
  "pending_for s fid language e =
     \<lparr>pe_ID = 0, pe_Src = s, pe_FileID = fid, pe_DstName = er_DstSymbolName e, pe_DstQualified = er_DstQualifiedName e,
      pe_Kind = er_Kind e, pe_Language = language\<rparr>"

text \<open>The edges and the pending edges that a list of edges gives.\<close>

definition job_triples :: "(string \<rightharpoonup> int) \<Rightarrow> int \<Rightarrow> string \<Rightarrow> sql_db \<Rightarrow> edge_record list \<Rightarrow> (int \<times> int \<times> string) set" where
  "job_triples ids fid language db es =
     {(map_or_zero ids (er_SrcSymbolName e), edge_target ids fid language db e, er_Kind e) |e. e \<in> set es
        \<and> map_or_zero ids (er_SrcSymbolName e) \<noteq> 0 \<and> edge_target ids fid language db e \<noteq> 0 \<and> edge_kind_valid (er_Kind e)}"

definition job_pendings :: "(string \<rightharpoonup> int) \<Rightarrow> int \<Rightarrow> string \<Rightarrow> sql_db \<Rightarrow> edge_record list \<Rightarrow> pending_row set" where
  "job_pendings ids fid language db es =
     {pending_for (map_or_zero ids (er_SrcSymbolName e)) fid language e |e. e \<in> set es
        \<and> map_or_zero ids (er_SrcSymbolName e) \<noteq> 0 \<and> edge_target ids fid language db e = 0}"

lemma edge_target_core: "core db' = core db \<Longrightarrow> edge_target ids fid language db' e = edge_target ids fid language db e"
  using lookup_cong [of db' db] by (simp add: edge_target_def core_def)

lemma insert_one_edge_rows:
  assumes "insert_one_edge fid ids language e db = (Inr u, db')"
  shows "edge_triples db' = edge_triples db \<union> job_triples ids fid language db [e]
    \<and> unkeyed ` set (db_pending db') = unkeyed ` set (db_pending db) \<union> job_pendings ids fid language db [e]"
proof -
  let ?s = "map_or_zero ids (er_SrcSymbolName e)" and ?d = "edge_target ids fid language db e"
  have eq: "insert_one_edge fid ids language e db =
      (if ?s = 0 then (Inr (), db)
       else if ?d \<noteq> 0 then tx_wrap ''insert edge'' (insert_edge ?s ?d (er_Kind e) fid) db
       else tx_wrap ''insert pending edge'' (insert_pending ?s fid (er_DstSymbolName e) (er_DstQualifiedName e) (er_Kind e) language) db)"
    by (simp add: insert_one_edge_def edge_target_def Let_def)
  consider "?s = 0" | "?s \<noteq> 0" "?d \<noteq> 0" | "?s \<noteq> 0" "?d = 0" by blast
  then show ?thesis
  proof cases
    case 1
    with assms eq show ?thesis by (simp add: job_triples_def job_pendings_def)
  next
    case 2
    with assms eq have "insert_edge ?s ?d (er_Kind e) fid db = (Inr u, db')" by (simp add: tx_Inr)
    then have "edge_triples db' = edge_triples db \<union> (if edge_kind_valid (er_Kind e) then {(?s, ?d, er_Kind e)} else {})
        \<and> db_pending db' = db_pending db"
      by (auto simp: insert_edge_def Let_def split: if_splits)
    with 2 show ?thesis by (auto simp: job_triples_def job_pendings_def)
  next
    case 3
    with assms eq have "insert_pending ?s fid (er_DstSymbolName e) (er_DstQualifiedName e) (er_Kind e) language db = (Inr u, db')"
      by (simp add: tx_Inr)
    then have "edge_triples db' = edge_triples db \<and> unkeyed ` set (db_pending db') = insert (pending_for ?s fid language e) (unkeyed ` set (db_pending db))"
      by (auto simp: insert_pending_def Let_def unkeyed_def pending_for_def split: if_splits)
    with 3 show ?thesis by (auto simp: job_triples_def job_pendings_def)
  qed
qed

lemma insert_edges_rows:
  assumes "insert_edges fid es ids language db = (Inr u, db')"
  shows "edge_triples db' = edge_triples db \<union> job_triples ids fid language db es
    \<and> unkeyed ` set (db_pending db') = unkeyed ` set (db_pending db) \<union> job_pendings ids fid language db es
    \<and> core db' = core db"
  using assms
proof (induction es arbitrary: db)
  case Nil
  then show ?case by (simp add: job_triples_def job_pendings_def)
next
  case (Cons e es)
  then obtain v db1 where one: "insert_one_edge fid ids language e db = (Inr v, db1)" and rest: "insert_edges fid es ids language db1 = (Inr u, db')"
    by (auto split: prod.splits sum.splits)
  have core: "core db1 = core db" by (rule leavesD [OF leaves_insert_one_edge one])
  have "job_triples ids fid language db (e # es) = job_triples ids fid language db [e] \<union> job_triples ids fid language db es"
    "job_pendings ids fid language db (e # es) = job_pendings ids fid language db [e] \<union> job_pendings ids fid language db es"
    by (auto simp: job_triples_def job_pendings_def)
  moreover have "job_triples ids fid language db1 es = job_triples ids fid language db es"
    "job_pendings ids fid language db1 es = job_pendings ids fid language db es"
    by (simp_all add: job_triples_def job_pendings_def edge_target_core [OF core])
  ultimately show ?case using insert_one_edge_rows [OF one] Cons.IH [OF rest] core by (simp add: Un_assoc)
qed

lemma resolve_unkeyed [simp]: "resolved db (unkeyed p) = resolved db p" "resolution db (unkeyed p) = resolution db p"
  by (simp_all add: resolved_def resolution_def)

lemma resolve_core:
  assumes "core db' = core db"
  shows "resolved db' = resolved db" and "resolution db' = resolution db"
  using assms lookup_cong [of db' db] by (simp_all add: resolved_def resolution_def core_def fun_eq_iff)

text \<open>All pending rows that may wait after the edges of a job have been inserted.\<close>

definition waiting :: "(string \<rightharpoonup> int) \<Rightarrow> int \<Rightarrow> string \<Rightarrow> sql_db \<Rightarrow> edge_record list \<Rightarrow> pending_row set" where
  "waiting ids fid language db es = unkeyed ` set (db_pending db) \<union> job_pendings ids fid language db es"

lemma resolve_pending_rows:
  assumes "store_ok db" and "resolve_pending_edges names db = (Inr u, db')"
  shows "edge_triples db' = edge_triples db \<union> resolution db ` {p \<in> unkeyed ` set (db_pending db). pe_DstName p \<in> set names \<and> resolved db p}
    \<and> unkeyed ` set (db_pending db') = {p \<in> unkeyed ` set (db_pending db). \<not> (pe_DstName p \<in> set names \<and> resolved db p)}
    \<and> core db' = core db"
proof -
  let ?ps = "filter (\<lambda>p. pe_DstName p \<in> set names) (db_pending db)"
  have "distinct (map pe_ID (db_pending db))" using assms(1) by (auto simp: store_ok_def db_inv_def dest: wf_ids_distinct)
  then have "distinct ?ps" by (simp add: distinct_map)
  from resolve_rows_exact [OF assms(1) _ this] obtain db2 where db2: "resolve_rows ?ps db = (Inr (), db2)"
    "db_pending db2 = filter (\<lambda>p. \<not> (p \<in> set ?ps \<and> resolved db p)) (db_pending db)"
    "edge_triples db2 = edge_triples db \<union> resolution db ` {p \<in> set ?ps. resolved db p}"
    "db_symbols db2 = db_symbols db" "db_files db2 = db_files db" "db_chunks db2 = db_chunks db" by auto
  have "db' = (if names = [] then db else db2)" using assms(2) db2(1) by (auto simp: resolve_pending_edges_def)
  moreover have "unkeyed ` {p \<in> set (db_pending db). P p} = {p \<in> unkeyed ` set (db_pending db). P p}" if "\<And>p. P (unkeyed p) = P p" for P
    using that by auto
  from this [of "\<lambda>p. \<not> (pe_DstName p \<in> set names \<and> resolved db p)"]
  have "unkeyed ` set (db_pending db2) = {p \<in> unkeyed ` set (db_pending db). \<not> (pe_DstName p \<in> set names \<and> resolved db p)}"
    unfolding db2(2) by (auto simp: image_iff)
  moreover have "resolution db ` {p \<in> set ?ps. resolved db p}
      = resolution db ` {p \<in> unkeyed ` set (db_pending db). pe_DstName p \<in> set names \<and> resolved db p}"
  proof (intro set_eqI iffI)
    fix t assume "t \<in> resolution db ` {p \<in> set ?ps. resolved db p}"
    then obtain p where "p \<in> set ?ps" "resolved db p" "t = resolution db p" by blast
    then show "t \<in> resolution db ` {p \<in> unkeyed ` set (db_pending db). pe_DstName p \<in> set names \<and> resolved db p}"
      by (intro image_eqI [of _ _ "unkeyed p"]) auto
  qed auto
  ultimately show ?thesis using db2(3-6) by (cases "names = []") (auto simp: core_def)
qed

lemma write_job_edges_rows:
  assumes "store_ok db" and "write_job_edges fid job file ids names db = (Inr u, db')"
  shows "edge_triples db' = edge_triple ` {e \<in> set (db_edges db). eg_FileID e \<noteq> fid} \<union> job_triples ids fid (fr_Language file) db (wj_Edges job)
      \<union> resolution db ` {p \<in> waiting ids fid (fr_Language file) db (wj_Edges job). pe_DstName p \<in> set names \<and> resolved db p}
    \<and> unkeyed ` set (db_pending db')
      = {p \<in> waiting ids fid (fr_Language file) db (wj_Edges job). \<not> (pe_DstName p \<in> set names \<and> resolved db p)}
    \<and> core db' = core db"
proof -
  define db1 where "db1 = db\<lparr>db_edges := filter (\<lambda>e. eg_FileID e \<noteq> fid) (db_edges db)\<rparr>"
  from assms(2) obtain v db2 where ins: "insert_edges fid (wj_Edges job) ids (fr_Language file) db1 = (Inr v, db2)"
    and res: "resolve_pending_edges names db2 = (Inr u, db')"
    by (auto simp: write_job_edges_def tx_Inr delete_edges_by_file_def db1_def)
  have "store_ok db1" using keepsD [OF keeps_delete_edges_by_file assms(1), of fid] by (simp add: delete_edges_by_file_def db1_def)
  from tx_keepsD [OF keeps_insert_edges this ins] have ok2: "store_ok db2" .
  have c1: "core db1 = core db" by (simp add: core_def db1_def)
  note ins_rows = insert_edges_rows [OF ins]
  from ins_rows c1 have c2: "core db2 = core db" by simp
  have job: "job_triples ids fid l db1 es = job_triples ids fid l db es" "job_pendings ids fid l db1 es = job_pendings ids fid l db es" for l es
    by (simp_all add: job_triples_def job_pendings_def edge_target_core [OF c1])
  have P: "unkeyed ` set (db_pending db2) = waiting ids fid (fr_Language file) db (wj_Edges job)"
    using ins_rows unfolding job waiting_def by (simp add: db1_def)
  have T: "edge_triples db2 = edge_triple ` {e \<in> set (db_edges db). eg_FileID e \<noteq> fid} \<union> job_triples ids fid (fr_Language file) db (wj_Edges job)"
    using ins_rows unfolding job by (simp add: db1_def)
  show ?thesis
    using resolve_pending_rows [OF ok2 res] unfolding P T resolve_core [OF c2] c2 .
qed

section \<open>The diff log\<close>

definition diff_entry_ok :: "int set \<Rightarrow> diff_symbol_entry \<Rightarrow> bool" where
  "diff_entry_ok S d \<longleftrightarrow> ds_ChangeType d \<in> {''added'', ''modified'', ''removed'', ''signature_changed'', ''moved''}
     \<and> (ds_SymbolID d = 0 \<or> ds_SymbolID d \<in> S) \<and> ds_ChunkID d = 0"

text \<open>What is said of a symbol in a diff.\<close>

abbreviation change_of :: "diff_symbol_entry \<Rightarrow> string \<times> string" where
  "change_of d \<equiv> (ds_SymbolName d, ds_ChangeType d)"

abbreviation row_change :: "diff_symbol_row \<Rightarrow> string \<times> string" where
  "row_change r \<equiv> (dy_SymbolName r, dy_ChangeType r)"

lemma insert_diff_symbols_rows:
  assumes "\<forall>d \<in> set dss. diff_entry_ok (symbol_ids db) d" and "i \<in> diff_ids db"
  shows "\<exists>rows db'. insert_diff_symbols i dss db = (Inr (), db') \<and> db_diffsyms db' = db_diffsyms db @ rows \<and> db_diffs db' = db_diffs db
    \<and> map row_change rows = map change_of dss
    \<and> (\<forall>r \<in> set rows. dy_DiffID r = i)"
  using assms
proof (induction dss arbitrary: db)
  case (Cons d dss)
  define row where "row = \<lparr>dy_ID = db_diffsyms_seq db + 1, dy_DiffID = i, dy_SymbolID = null_int (ds_SymbolID d),
    dy_SymbolName = ds_SymbolName d, dy_ChangeType = ds_ChangeType d, dy_ChunkID = null_int (ds_ChunkID d)\<rparr>"
  define db1 where "db1 = db\<lparr>db_diffsyms := db_diffsyms db @ [row], db_diffsyms_seq := db_diffsyms_seq db + 1\<rparr>"
  have "diff_symbol_check row" "ref_ok (symbol_ids db) (dy_SymbolID row)" "ref_ok (chunk_ids db) (dy_ChunkID row)"
    using Cons.prems(1) by (auto simp: diff_entry_ok_def row_def diff_symbol_check_def ref_ok_def null_int_def)
  with Cons.prems(2) have one: "insert_diff_symbol i d db = (Inr (), db1)"
    by (simp add: insert_diff_symbol_def Let_def db1_def row_def)
  have "\<exists>rows db'. insert_diff_symbols i dss db1 = (Inr (), db') \<and> db_diffsyms db' = db_diffsyms db1 @ rows \<and> db_diffs db' = db_diffs db1
    \<and> map row_change rows = map change_of dss
    \<and> (\<forall>r \<in> set rows. dy_DiffID r = i)"
    using Cons.prems by (intro Cons.IH) (auto simp: db1_def)
  then obtain rows db' where "insert_diff_symbols i dss db1 = (Inr (), db')" "db_diffsyms db' = db_diffsyms db1 @ rows" "db_diffs db' = db_diffs db1"
    "map row_change rows = map change_of dss" "\<forall>r \<in> set rows. dy_DiffID r = i"
    by blast
  then show ?case by (intro exI [of _ "row # rows"] exI [of _ db']) (simp add: one db1_def row_def)
qed simp

lemma record_diff_rows:
  assumes "diff_check entry" and "dl_FileID entry \<in> file_ids db" and "\<forall>d \<in> set dss. diff_entry_ok (symbol_ids db) d"
  shows "\<exists>rows. db_diffs (snd (record_diff env entry dss db)) = db_diffs db @ [entry\<lparr>dl_ID := db_diffs_seq db + 1, dl_Timestamp := je_sql_now env\<rparr>]
    \<and> db_diffsyms (snd (record_diff env entry dss db)) = db_diffsyms db @ rows \<and> map row_change rows = map change_of dss
    \<and> (\<forall>r \<in> set rows. dy_DiffID r = db_diffs_seq db + 1)"
proof -
  define db1 where "db1 = db\<lparr>db_diffs := db_diffs db @ [entry\<lparr>dl_ID := db_diffs_seq db + 1, dl_Timestamp := je_sql_now env\<rparr>],
    db_diffs_seq := db_diffs_seq db + 1\<rparr>"
  have one: "insert_diff_log (je_sql_now env) entry db = (Inr (db_diffs_seq db + 1), db1)"
    using assms(1,2) by (simp add: insert_diff_log_def Let_def db1_def)
  have "\<forall>d \<in> set dss. diff_entry_ok (symbol_ids db1) d" "db_diffs_seq db + 1 \<in> diff_ids db1"
    using assms(3) by (simp_all add: db1_def)
  from insert_diff_symbols_rows [OF this] obtain rows db2 where two: "insert_diff_symbols (db_diffs_seq db + 1) dss db1 = (Inr (), db2)"
    "db_diffsyms db2 = db_diffsyms db1 @ rows" "db_diffs db2 = db_diffs db1" "map row_change rows = map change_of dss"
    "\<forall>r \<in> set rows. dy_DiffID r = db_diffs_seq db + 1" by blast
  have "record_diff env entry dss db = (Inr (), db2)"
  proof (cases "dss = []")
    case True
    with two(1) one show ?thesis by (simp add: record_diff_def with_write_tx_def tx_bind_def tx_return_def)
  next
    case False
    with two(1) one show ?thesis by (simp add: record_diff_def with_write_tx_def tx_bind_def)
  qed
  with two(2-5) show ?thesis by (intro exI [of _ rows]) (simp add: db1_def)
qed

lemma list_all_concat_map: "(\<And>x. x \<in> set xs \<Longrightarrow> list_all P (f x)) \<Longrightarrow> list_all P (concat (map f xs))"
  by (induction xs) simp_all

lemma symbol_diffs_ok:
  assumes "\<forall>n i. m n = Some i \<longrightarrow> i \<in> S"
  shows "\<forall>d \<in> set (symbol_diffs olds syms m). diff_entry_ok S d"
proof -
  have "map_or_zero m n = 0 \<or> map_or_zero m n \<in> S" for n using assms by (auto simp: map_or_zero_def split: option.splits)
  then have "diff_entry_ok S (diff_symbol n (map_or_zero m n) c)" if "c \<in> {''added'', ''modified'', ''signature_changed''}" for n c
    using that by (auto simp: diff_entry_ok_def diff_symbol_def)
  moreover have "diff_entry_ok S (diff_symbol n 0 ''removed'')" for n by (simp add: diff_entry_ok_def diff_symbol_def)
  ultimately have "list_all (diff_entry_ok S) (symbol_diffs olds syms m)"
    unfolding symbol_diffs_def Let_def list_all_append
    by (intro conjI list_all_concat_map) (simp_all split: prod.split option.split)
  then show ?thesis by (simp add: list_all_iff)
qed

lemma concat_map_change:
  assumes "\<And>x. x \<in> set xs \<Longrightarrow> map g (f x) = map g (f' x)"
  shows "map g (concat (map f xs)) = map g (concat (map f' xs))"
  using assms by (induction xs) simp_all

lemma symbol_diffs_changes: "map change_of (symbol_diffs olds syms m) = map change_of (symbol_diffs olds syms Map.empty)"
  unfolding symbol_diffs_def Let_def map_append
proof (intro arg_cong2 [where f = "(@)"] concat_map_change, goal_cases)
  case (1 x)
  show ?case by (simp add: diff_symbol_def split: prod.split option.split)
next
  case (2 x)
  show ?case by (simp add: diff_symbol_def split: prod.split)
qed

text \<open>The entry that a job leaves in the diff log of file \<open>fid\<close>, given the hash and the symbols the file had before.\<close>

definition diff_logged :: "job_env \<Rightarrow> string \<Rightarrow> (string \<times> old_symbol) list \<Rightarrow> write_job \<Rightarrow> int \<Rightarrow> sql_db \<Rightarrow> sql_db \<Rightarrow> bool" where
  "diff_logged env oldHash olds job fid db db' \<longleftrightarrow>
     (if oldHash \<noteq> [] \<and> oldHash = wj_ContentHash job then db_diffs db' = db_diffs db
      else \<exists>d. db_diffs db' = db_diffs db @ [d] \<and> dl_FileID d = fid \<and> dl_Timestamp d = je_sql_now env
        \<and> dl_ChangeType d = (if oldHash = [] then ''add'' else ''modify'')
        \<and> dl_HashBefore d = oldHash \<and> dl_HashAfter d = wj_ContentHash job
        \<and> dl_LinesAdded d - dl_LinesRemoved d = chunk_lines (wj_Chunks job) - (if oldHash = [] then 0 else old_symbol_lines olds)
        \<and> (dl_LinesAdded d = 0 \<or> dl_LinesRemoved d = 0)
        \<and> map row_change (filter (\<lambda>r. dy_DiffID r = dl_ID d) (db_diffsyms db'))
            = (if oldHash = [] then map (\<lambda>s. (sy_Name s, ''added'')) (wj_Symbols job)
               else map change_of (symbol_diffs olds (wj_Symbols job) Map.empty)))"

lemma record_job_diff_rows:
  assumes "db_inv db" and "fid \<in> file_ids db" and "\<forall>n i. m n = Some i \<longrightarrow> i \<in> symbol_ids db"
    and "record_job_diff env fid oldHash job olds m db = (Inr u, db')"
  shows "diff_logged env oldHash olds job fid db db'"
proof -
  have old: "filter (\<lambda>r. dy_DiffID r = db_diffs_seq db + 1) (db_diffsyms db) = []"
    using assms(1) by (fastforce simp: db_inv_def wf_ids_def filter_empty_conv)
  have new: "filter (\<lambda>r. dy_DiffID r = db_diffs_seq db + 1) rows = rows" if "\<forall>r \<in> set rows. dy_DiffID r = db_diffs_seq db + 1" for rows
    using that by (simp add: filter_id_conv)
  consider "oldHash \<noteq> []" "oldHash = wj_ContentHash job" | "oldHash \<noteq> []" "oldHash \<noteq> wj_ContentHash job" | "oldHash = []" by blast
  then show ?thesis
  proof cases
    case 1
    with assms(4) show ?thesis by (simp add: record_job_diff_def diff_logged_def)
  next
    case 2
    define t0 where "t0 = old_symbol_lines olds"
    define t1 where "t1 = chunk_lines (wj_Chunks job)"
    define entry where "entry = \<lparr>dl_ID = 0, dl_FileID = fid, dl_Timestamp = [], dl_ChangeType = ''modify'',
      dl_LinesAdded = (if t1 > t0 then t1 - t0 else 0), dl_LinesRemoved = (if t1 > t0 then 0 else t0 - t1),
      dl_HashBefore = oldHash, dl_HashAfter = wj_ContentHash job\<rparr>"
    have "db' = snd (record_diff env entry (symbol_diffs olds (wj_Symbols job) m) db)"
      using 2 assms(4) unfolding entry_def t0_def t1_def by (simp only: record_job_diff_def compute_and_record_diff_def Let_def prod.inject HOL.simp_thms if_True)
    moreover have "diff_check entry" "dl_FileID entry \<in> file_ids db" using assms(2) by (simp_all add: entry_def diff_check_def)
    ultimately show ?thesis
      using 2 record_diff_rows [of entry db "symbol_diffs olds (wj_Symbols job) m" env] symbol_diffs_ok [OF assms(3)] old new
      by (auto simp: diff_logged_def symbol_diffs_changes [of olds _ m] entry_def t0_def t1_def)
  next
    case 3
    define dss where "dss = map (\<lambda>s. diff_symbol (sy_Name s) (map_or_zero m (sy_Name s)) ''added'') (wj_Symbols job)"
    define entry where "entry = \<lparr>dl_ID = 0, dl_FileID = fid, dl_Timestamp = [], dl_ChangeType = ''add'',
      dl_LinesAdded = chunk_lines (wj_Chunks job), dl_LinesRemoved = 0, dl_HashBefore = [], dl_HashAfter = wj_ContentHash job\<rparr>"
    have "db' = snd (record_diff env entry dss db)"
      using 3 assms(4) by (simp add: record_job_diff_def record_add_diff_def entry_def dss_def)
    moreover have "diff_check entry" "dl_FileID entry \<in> file_ids db" using assms(2) by (simp_all add: entry_def diff_check_def)
    moreover have "map_or_zero m n = 0 \<or> map_or_zero m n \<in> symbol_ids db" for n
      using assms(3) by (auto simp: map_or_zero_def split: option.splits)
    then have "\<forall>d \<in> set dss. diff_entry_ok (symbol_ids db) d" by (auto simp: dss_def diff_entry_ok_def diff_symbol_def)
    moreover have "map change_of dss = map (\<lambda>s. (sy_Name s, ''added'')) (wj_Symbols job)" by (simp add: dss_def diff_symbol_def)
    ultimately show ?thesis
      using 3 record_diff_rows [of entry db dss env] old new by (auto simp: diff_logged_def entry_def)
  qed
qed

end
