(* ===== verification/Job_Effects.thy ===== *)
theory Job_Effects
  imports Job_Rows
begin

text \<open>
  What a write job does to the store: the effect of each transaction of \<open>Write_Job\<close> on files, chunks and
  symbols, the complete result of a successful enrichment (\<open>enriched\<close>: rows, edges, pending edges and diff
  log), and the properties of the whole job.
\<close>

section \<open>Files, chunks and symbols\<close>

lemma get_file_by_path_map:
  assumes "\<And>f. fr_Path (g f) = fr_Path f"
  shows "find (\<lambda>f. fr_Path f = p) (map g fs) = map_option g (find (\<lambda>f. fr_Path f = p) fs)"
  by (induction fs) (simp_all add: assms)

lemma upsert_file_effect:
  assumes "upsert_file now f db = (Inr fid, db')"
  shows "get_file_by_path (fr_Path f) db' =
      Some (f\<lparr>fr_ID := fid, fr_IndexedAt := now, fr_EmbeddingStatus := coalesce (fr_EmbeddingStatus f) ''pending'',
              fr_ParseQuality := coalesce (fr_ParseQuality f) ''full''\<rparr>)"
    and "p \<noteq> fr_Path f \<Longrightarrow> get_file_by_path p db' = get_file_by_path p db"
    and "db_chunks db' = db_chunks db \<and> db_symbols db' = db_symbols db \<and> db_chunks_seq db' = db_chunks_seq db"
    and "get_file_by_path (fr_Path f) db = Some old \<Longrightarrow> fid = fr_ID old"
    and "get_file_by_path (fr_Path f) db = None \<Longrightarrow> fid = db_files_seq db + 1"
proof -
  define row where "row = f\<lparr>fr_IndexedAt := now, fr_EmbeddingStatus := coalesce (fr_EmbeddingStatus f) ''pending'',
              fr_ParseQuality := coalesce (fr_ParseQuality f) ''full''\<rparr>"
  have row: "fr_Path row = fr_Path f" by (simp add: row_def)
  from assms have tx: "upsert_file_tx now f db = (Inr fid, db')" by (simp add: upsert_file_def with_write_tx_Inr)
  have "get_file_by_path (fr_Path f) db' = Some (row\<lparr>fr_ID := fid\<rparr>)
      \<and> (\<forall>p. p \<noteq> fr_Path f \<longrightarrow> get_file_by_path p db' = get_file_by_path p db)
      \<and> db_chunks db' = db_chunks db \<and> db_symbols db' = db_symbols db \<and> db_chunks_seq db' = db_chunks_seq db
      \<and> fid = (case get_file_by_path (fr_Path f) db of Some old \<Rightarrow> fr_ID old | None \<Rightarrow> db_files_seq db + 1)"
  proof (cases "find (\<lambda>g. fr_Path g = fr_Path f) (db_files db)")
    case None
    with tx have "fid = db_files_seq db + 1" "db' = db\<lparr>db_files := db_files db @ [row\<lparr>fr_ID := fid\<rparr>], db_files_seq := fid\<rparr>"
      by (auto simp: upsert_file_tx_def Let_def row_def split: if_splits)
    moreover have "find P (xs @ ys) = (case find P xs of Some x \<Rightarrow> Some x | None \<Rightarrow> find P ys)" for P and xs ys :: "file_record list"
      by (induction xs) auto
    ultimately show ?thesis using None row by (auto simp: get_file_by_path_def split: option.split)
  next
    case (Some old)
    let ?g = "\<lambda>g. if fr_Path g = fr_Path f then row\<lparr>fr_ID := fr_ID g\<rparr> else g"
    from Some tx have fid: "fid = fr_ID old" and db': "db' = db\<lparr>db_files := map ?g (db_files db)\<rparr>"
      by (auto simp: upsert_file_tx_def Let_def row_def split: if_splits)
    have "fr_Path (?g g) = fr_Path g" for g using row by simp
    from get_file_by_path_map [where g = ?g, OF this]
    have "get_file_by_path p db' = map_option ?g (get_file_by_path p db)" for p
      by (simp add: get_file_by_path_def db')
    moreover have "fr_Path g = p" if "get_file_by_path p db = Some g" for g p
      using that by (auto simp: get_file_by_path_def find_Some_iff)
    ultimately show ?thesis using Some fid row
      by (auto simp: db' get_file_by_path_def [of "fr_Path f"] map_option_case split: option.split)
  qed
  then show "get_file_by_path (fr_Path f) db' =
      Some (f\<lparr>fr_ID := fid, fr_IndexedAt := now, fr_EmbeddingStatus := coalesce (fr_EmbeddingStatus f) ''pending'',
              fr_ParseQuality := coalesce (fr_ParseQuality f) ''full''\<rparr>)"
    and "p \<noteq> fr_Path f \<Longrightarrow> get_file_by_path p db' = get_file_by_path p db"
    and "db_chunks db' = db_chunks db \<and> db_symbols db' = db_symbols db \<and> db_chunks_seq db' = db_chunks_seq db"
    and "get_file_by_path (fr_Path f) db = Some old \<Longrightarrow> fid = fr_ID old"
    and "get_file_by_path (fr_Path f) db = None \<Longrightarrow> fid = db_files_seq db + 1" for p old
    by (simp_all add: row_def)
qed

text \<open>A row without what the database assigns and what deletions may clear.\<close>

definition bare :: "chunk_row \<Rightarrow> chunk_row" where
  "bare c = c\<lparr>cr_ParentChunkID := None\<rparr>"

lemma bare_simps [simp]: "bare (c\<lparr>cr_ParentChunkID := p\<rparr>) = bare c" "cr_ID (bare c) = cr_ID c"
  "cr_FileID (bare c) = cr_FileID c" "cw_embedded (bare c) = cw_embedded c"
  by (simp_all add: bare_def)

definition chunks_of :: "int \<Rightarrow> sql_db \<Rightarrow> chunk_row list" where
  "chunks_of fid db = filter (\<lambda>c. cr_FileID c = fid) (db_chunks db)"

definition other_chunks :: "int \<Rightarrow> sql_db \<Rightarrow> chunk_row list" where
  "other_chunks fid db = map bare (filter (\<lambda>c. cr_FileID c \<noteq> fid) (db_chunks db))"

lemma delete_chunks_effect:
  assumes "delete_chunks_by_file fid db = (Inr u, db')" and "store_ok db"
  shows "chunks_of fid db' = []" and "other_chunks fid db' = other_chunks fid db"
    and "db_files db' = db_files db" and "db_chunks_seq db' = db_chunks_seq db"
proof -
  let ?C = "cr_ID ` {c \<in> set (db_chunks db). cr_FileID c = fid}"
  from assms(1) have db': "db' = drop_chunks ?C db"
    by (simp add: delete_chunks_by_file_def with_write_tx_Inr)
  have "distinct (map cr_ID (db_chunks db))" using assms(2) by (auto simp: store_ok_def db_inv_def dest: wf_ids_distinct)
  from key_filter [OF this, of "\<lambda>c. cr_FileID c = fid"]
  have "db_chunks db' = map (\<lambda>c. c\<lparr>cr_ParentChunkID := forget ?C (cr_ParentChunkID c)\<rparr>)
      (filter (\<lambda>c. cr_FileID c \<noteq> fid) (db_chunks db))" by (simp add: db' drop_chunks_fields)
  then show "chunks_of fid db' = []" "other_chunks fid db' = other_chunks fid db"
    by (simp_all add: chunks_of_def other_chunks_def filter_map comp_def filter_empty_conv)
  show "db_files db' = db_files db" "db_chunks_seq db' = db_chunks_seq db"
    by (simp_all add: db' drop_chunks_def Let_def drop_symbols_def)
qed

lemma insert_chunk_rows_effect:
  assumes "insert_chunk_rows fid cs db = (Inr ids, db')"
  shows "db_chunks db' = db_chunks db @ map2 (\<lambda>c i. (chunk_row_of fid c)\<lparr>cr_ID := i\<rparr>) cs ids"
    and "ids = map (\<lambda>k. db_chunks_seq db + 1 + int k) [0..<length cs]"
    and "db_files db' = db_files db" and "db_symbols db' = db_symbols db"
proof -
  have "db_chunks db' = db_chunks db @ map2 (\<lambda>c i. (chunk_row_of fid c)\<lparr>cr_ID := i\<rparr>) cs ids
      \<and> ids = map (\<lambda>k. db_chunks_seq db + 1 + int k) [0..<length cs]
      \<and> db_files db' = db_files db \<and> db_symbols db' = db_symbols db"
    using assms
  proof (induction cs arbitrary: ids db)
    case (Cons c cs)
    from Cons.prems obtain i js db1 where i: "insert_chunk (chunk_row_of fid c) db = (Inr i, db1)"
      and rest: "insert_chunk_rows fid cs db1 = (Inr js, db')" and ids: "ids = i # js"
      by (auto split: prod.splits sum.splits)
    from i have "i = db_chunks_seq db + 1" "db_chunks db1 = db_chunks db @ [(chunk_row_of fid c)\<lparr>cr_ID := i\<rparr>]"
      "db_chunks_seq db1 = i" "db_files db1 = db_files db" "db_symbols db1 = db_symbols db"
      by (auto simp: insert_chunk_def Let_def split: if_splits)
    moreover have "map (\<lambda>k. a + 1 + int k) [0..<Suc n] = (a + 1) # map (\<lambda>k. a + 1 + 1 + int k) [0..<n]" for a n
      by (simp add: upt_conv_Cons map_Suc_upt [symmetric] comp_def del: upt_Suc)
    ultimately show ?case using Cons.IH [OF rest] by (simp add: ids)
  qed simp
  then show "db_chunks db' = db_chunks db @ map2 (\<lambda>c i. (chunk_row_of fid c)\<lparr>cr_ID := i\<rparr>) cs ids"
    and "ids = map (\<lambda>k. db_chunks_seq db + 1 + int k) [0..<length cs]"
    and "db_files db' = db_files db" and "db_symbols db' = db_symbols db" by simp_all
qed

lemma insert_chunks_effect:
  assumes "insert_chunks fid cs db = (Inr ids, db')" and "\<forall>c \<in> set cs. cr_ParentIndex c = None"
  shows "insert_chunk_rows fid cs db = (Inr ids, db')"
proof -
  have "resolve_parents ids ps db1 = (Inr (), db1)" if "\<forall>(c, i) \<in> set ps. cr_ParentIndex c = None" for ids ps db1
    using that by (induction ps) auto
  moreover have "\<forall>(c, i) \<in> set (zip cs ids). cr_ParentIndex c = None" for ids :: "int list"
    using assms(2) by (auto dest: set_zip_leftD)
  ultimately show ?thesis
    using assms(1) by (auto simp: insert_chunks_def tx_Inr tx_return_def)
qed

lemma set_job_parents_effect:
  assumes "set_job_parents path ids cs db = (Inr u, db')"
  shows "map bare (db_chunks db') = map bare (db_chunks db)" and "db_files db' = db_files db"
    and "db_symbols db' = db_symbols db"
proof -
  let ?q = "\<lambda>db. (map bare (db_chunks db), db_files db, db_symbols db)"
  have "?q (snd (set_parent p i db)) = ?q db" for p i db
    by (auto simp: set_parent_def update_chunks_def)
  then have 1: "?q db' = ?q db" if "set_parent p i db = (r, db')" for p i r db db'
    using that by (metis snd_conv)
  have "?q (snd (set_parents ups db)) = ?q db" for ups db
  proof (induction ups arbitrary: db)
    case (Cons u ups)
    obtain i p where u: "u = (i, p)" by (cases u)
    obtain r db1 where s: "set_parent p i db = (r, db1)" by fastforce
    from Cons 1 [OF s] show ?case by (simp add: u s split: sum.split)
  qed simp
  then have "leaves ?q (set_parents ups)" for ups by (simp add: leaves_def)
  then have "leaves ?q (update_chunk_parents ups)" for ups
    using leaves_tx [of ?q "set_parents ups"] by (simp add: leaves_def update_chunk_parents_def)
  then have "leaves ?q (set_job_parents path ids cs)"
    by (auto simp: set_job_parents_def leaves_wrap split: option.split) (simp add: leaves_def)
  from leavesD [OF this assms] show "map bare (db_chunks db') = map bare (db_chunks db)" "db_files db' = db_files db"
    "db_symbols db' = db_symbols db" by simp_all
qed

lemma insert_symbols_effect:
  assumes "insert_symbols fid ss db = (Inr ids, db')"
  shows "db_symbols db' = db_symbols db @ map2 (\<lambda>s i. s\<lparr>sy_FileID := fid, sy_ID := i\<rparr>) ss ids" and "length ids = length ss"
    and "db_chunks db' = db_chunks db" and "db_files db' = db_files db" and "\<forall>i \<in> set ids. db_symbols_seq db < i"
proof -
  from assms have "insert_symbol_rows fid ss db = (Inr ids, db')" by (simp add: insert_symbols_def tx_Inr)
  then have "db_symbols db' = db_symbols db @ map2 (\<lambda>s i. s\<lparr>sy_FileID := fid, sy_ID := i\<rparr>) ss ids \<and> length ids = length ss
      \<and> db_chunks db' = db_chunks db \<and> db_files db' = db_files db \<and> (\<forall>i \<in> set ids. db_symbols_seq db < i)"
  proof (induction ss arbitrary: ids db)
    case (Cons s ss)
    from Cons.prems obtain i js db1 where i: "insert_symbol (s\<lparr>sy_FileID := fid\<rparr>) db = (Inr i, db1)"
      and rest: "insert_symbol_rows fid ss db1 = (Inr js, db')" and ids: "ids = i # js"
      by (auto split: prod.splits sum.splits)
    from i have "db_symbols db1 = db_symbols db @ [s\<lparr>sy_FileID := fid, sy_ID := i\<rparr>]"
      "db_chunks db1 = db_chunks db" "db_files db1 = db_files db" "db_symbols_seq db < i" "db_symbols_seq db1 = i"
      by (auto simp: insert_symbol_def Let_def split: if_splits)
    with Cons.IH [OF rest] show ?case by (force simp: ids)
  qed simp
  then show "db_symbols db' = db_symbols db @ map2 (\<lambda>s i. s\<lparr>sy_FileID := fid, sy_ID := i\<rparr>) ss ids" and "length ids = length ss"
    and "db_chunks db' = db_chunks db" and "db_files db' = db_files db" and "\<forall>i \<in> set ids. db_symbols_seq db < i" by simp_all
qed

section \<open>The whole enrichment\<close>

lemma map_zip_fst: "length xs = length ys \<Longrightarrow> map (\<lambda>p. h (fst p)) (zip xs ys) = map h xs"
  by (induction xs ys rule: list_induct2) simp_all

lemma map_zip_snd: "length xs = length ys \<Longrightarrow> map (\<lambda>p. h (snd p)) (zip xs ys) = map h ys"
  by (induction xs ys rule: list_induct2) simp_all

lemmas map2_sides = case_prod_unfold comp_def map_zip_fst map_zip_snd [where h = "\<lambda>i. i", simplified]

lemma bare_chunks_of: "map bare (chunks_of fid db) = filter (\<lambda>c. cr_FileID c = fid) (map bare (db_chunks db))"
  by (simp add: chunks_of_def filter_map comp_def)

lemma bare_other_chunks: "other_chunks fid db = filter (\<lambda>c. cr_FileID c \<noteq> fid) (map bare (db_chunks db))"
  by (simp add: other_chunks_def filter_map comp_def)

lemma core_eq: "core db' = core db \<longleftrightarrow> db_files db' = db_files db \<and> db_chunks db' = db_chunks db \<and> db_symbols db' = db_symbols db"
  by (simp add: core_def)

lemma store_ok_keeps_step: "tx_keeps m \<Longrightarrow> m db = (r, db') \<Longrightarrow> store_ok db \<Longrightarrow> store_ok db'"
  by (rule tx_keepsD)

lemma wf_id_le: "store_ok db \<Longrightarrow> c \<in> set (db_chunks db) \<Longrightarrow> cr_ID c \<le> db_chunks_seq db"
  by (auto simp: store_ok_def db_inv_def wf_ids_def)

text \<open>The states that a successful enrichment goes through.\<close>

definition enrichment_trace :: "job_env \<Rightarrow> write_job \<Rightarrow> file_record \<Rightarrow> string \<Rightarrow> (string \<times> old_symbol) list \<Rightarrow> int \<Rightarrow> int list \<Rightarrow> int list
    \<Rightarrow> sql_db \<Rightarrow> sql_db \<Rightarrow> sql_db \<Rightarrow> sql_db \<Rightarrow> sql_db \<Rightarrow> sql_db \<Rightarrow> sql_db \<Rightarrow> sql_db \<Rightarrow> bool" where
  "enrichment_trace env job file oldHash olds fid ids symIDs db db1 db2 db3 db4 db5 db6 db' \<longleftrightarrow>
     upsert_file (je_now env) (job_file_record env file) db = (Inr fid, db1)
   \<and> delete_chunks_by_file fid db1 = (Inr (), db2)
   \<and> insert_chunks fid (map job_chunk (wj_Chunks job)) db2 = (Inr ids, db3)
   \<and> set_job_parents (wj_FilePath job) ids (wj_Chunks job) db3 = (Inr (), db4)
   \<and> insert_symbols fid (job_symbols ids (wj_Symbols job)) db4 = (Inr symIDs, db5)
   \<and> record_job_diff env fid oldHash job olds (first_symbol_ids (job_symbols ids (wj_Symbols job)) symIDs) db5 = (Inr (), db6)
   \<and> write_job_edges fid job file (first_symbol_ids (job_symbols ids (wj_Symbols job)) symIDs)
        (map sy_Name (job_symbols ids (wj_Symbols job))) db6 = (Inr (), db')"

lemma write_enrichment_trace:
  assumes "write_enrichment env job file oldHash olds db = (Inr stale, db')"
  obtains fid ids symIDs db1 db2 db3 db4 db5 db6
  where "enrichment_trace env job file oldHash olds fid ids symIDs db db1 db2 db3 db4 db5 db6 db'"
    and "stale = get_embedded_chunk_ids_by_file fid db1"
  using assms unfolding write_enrichment_def Let_def tx_Inr by (auto simp: tx_return_def enrichment_trace_def)

text \<open>Symbols in the chunks of a file, and the first one of a name.\<close>

definition stored_symbols :: "int \<Rightarrow> sql_db \<Rightarrow> symbol_record list" where
  "stored_symbols fid db = filter (\<lambda>s. sy_ChunkID s \<in> cr_ID ` set (chunks_of fid db)) (db_symbols db)"

definition stored_id :: "int \<Rightarrow> sql_db \<Rightarrow> string \<rightharpoonup> int" where
  "stored_id fid db n = map_option sy_ID (find (\<lambda>s. sy_Name s = n) (stored_symbols fid db))"

text \<open>The files, chunks and symbols that a successful enrichment leaves, seen from the state before.\<close>

definition rows_stored :: "job_env \<Rightarrow> write_job \<Rightarrow> file_record \<Rightarrow> sql_db \<Rightarrow> int \<Rightarrow> sql_db \<Rightarrow> bool" where
  "rows_stored env job file db fid db' \<longleftrightarrow>
     get_file_by_path (fr_Path file) db' =
       Some ((job_file_record env file)\<lparr>fr_ID := fid, fr_ParseQuality := coalesce (fr_ParseQuality file) ''full''\<rparr>)
   \<and> (\<forall>p. p \<noteq> fr_Path file \<longrightarrow> get_file_by_path p db' = get_file_by_path p db)
   \<and> map (\<lambda>c. c\<lparr>cr_ID := 0, cr_ParentChunkID := None\<rparr>) (chunks_of fid db') = map (\<lambda>c. chunk_row_of fid (job_chunk c)) (wj_Chunks job)
   \<and> map cr_ParentChunkID (chunks_of fid db') = map (job_parent (map cr_ID (chunks_of fid db'))) (wj_Chunks job)
   \<and> (\<forall>c \<in> set (chunks_of fid db'). db_chunks_seq db < cr_ID c)
   \<and> other_chunks fid db' = other_chunks fid db
   \<and> map (\<lambda>s. s\<lparr>sy_ID := 0\<rparr>) (stored_symbols fid db')
       = map (\<lambda>s. s\<lparr>sy_FileID := fid\<rparr>) (job_symbols (map cr_ID (chunks_of fid db')) (wj_Symbols job))"

text \<open>
  Its edges: from the file's symbols go exactly the edges of the job whose target is known, and there wait
  exactly those whose target is not. What waited for one of the names that the file now has and finds its
  target has become an edge and waits no more. The edges of other files between other symbols are
  still there.
\<close>

definition edges_stored :: "write_job \<Rightarrow> file_record \<Rightarrow> sql_db \<Rightarrow> int \<Rightarrow> sql_db \<Rightarrow> bool" where
  "edges_stored job file db fid db' \<longleftrightarrow>
     (let ids = stored_id fid db'; new = sy_ID ` set (stored_symbols fid db'); names = sy_Name ` set (stored_symbols fid db');
          l = fr_Language file in
        {t \<in> edge_triples db'. fst t \<in> new} = job_triples ids fid l db' (wj_Edges job)
      \<and> {p \<in> unkeyed ` set (db_pending db'). pe_Src p \<in> new} = job_pendings ids fid l db' (wj_Edges job)
      \<and> (\<forall>p \<in> set (db_pending db'). pe_DstName p \<in> names \<longrightarrow> \<not> resolved db' p)
      \<and> (\<forall>p \<in> set (db_pending db). pe_Src p \<in> symbol_ids db' - new \<and> pe_DstName p \<in> names \<and> resolved db' p
           \<longrightarrow> resolution db' p \<in> edge_triples db')
      \<and> (\<forall>r \<in> set (db_edges db). eg_FileID r \<noteq> fid \<and> {eg_Src r, eg_Dst r} \<subseteq> symbol_ids db' - new
           \<longrightarrow> edge_triple r \<in> edge_triples db'))"

text \<open>All that an enrichment leaves, given the hash and the symbols that the file had before.\<close>

definition enriched :: "job_env \<Rightarrow> string \<Rightarrow> (string \<times> old_symbol) list \<Rightarrow> write_job \<Rightarrow> file_record \<Rightarrow> sql_db \<Rightarrow> int \<Rightarrow> sql_db \<Rightarrow> bool" where
  "enriched env oldHash olds job file db fid db' \<longleftrightarrow>
     rows_stored env job file db fid db' \<and> edges_stored job file db fid db' \<and> diff_logged env oldHash olds job fid db db'"

lemma trace_ok:
  assumes "store_ok db" and "enrichment_trace env job file oldHash olds fid ids symIDs db db1 db2 db3 db4 db5 db6 db'"
  shows "store_ok db1" "store_ok db2" "store_ok db3" "store_ok db4" "store_ok db5" "store_ok db6"
proof -
  note t = assms(2) [unfolded enrichment_trace_def]
  show ok1: "store_ok db1" using t tx_keepsD [OF keeps_with_write_tx [OF keeps_upsert_file_tx] assms(1)] unfolding upsert_file_def by blast
  have "tx_keeps (delete_chunks_by_file fid)"
    unfolding delete_chunks_by_file_def by (rule keeps_with_write_tx) (simp add: keeps_drop_chunks)
  from tx_keepsD [OF this ok1] t show ok2: "store_ok db2" by blast
  from tx_keepsD [OF keeps_insert_chunks ok2] t show ok3: "store_ok db3" by blast
  from tx_keepsD [OF keeps_set_job_parents ok3] t show ok4: "store_ok db4" by blast
  from tx_keepsD [OF keeps_with_write_tx [OF keeps_insert_symbol_rows] ok4] t show ok5: "store_ok db5" unfolding insert_symbols_def by blast
  from tx_keepsD [OF keeps_record_job_diff ok5] t show "store_ok db6" by blast
qed

lemma trace_core:
  assumes "enrichment_trace env job file oldHash olds fid ids symIDs db db1 db2 db3 db4 db5 db6 db'"
  shows "core db' = core db5" "core db6 = core db5"
  using assms leavesD [OF leaves_write_job_edges] leavesD [OF leaves_record_job_diff] unfolding enrichment_trace_def by metis+

text \<open>The chunks: those of the file are the inserted ones with their parents.\<close>

lemma trace_chunks:
  assumes ok: "store_ok db" and t: "enrichment_trace env job file oldHash olds fid ids symIDs db db1 db2 db3 db4 db5 db6 db'"
  shows "\<exists>m. chunks_of fid db' = map (adopt m) (map2 (\<lambda>c i. (chunk_row_of fid (job_chunk c))\<lparr>cr_ID := i\<rparr>) (wj_Chunks job) ids)
      \<and> (\<forall>(c, i) \<in> set (zip (wj_Chunks job) ids). m i = job_parent ids c)"
    and "length ids = length (wj_Chunks job)" and "distinct ids" and "\<forall>i \<in> set ids. db_chunks_seq db < i"
    and "other_chunks fid db' = other_chunks fid db" and "map cr_ID (chunks_of fid db') = ids"
proof -
  let ?cs = "map job_chunk (wj_Chunks job)"
  define rows where "rows = map2 (\<lambda>c i. (chunk_row_of fid c)\<lparr>cr_ID := i\<rparr>) ?cs ids"
  note s = t [unfolded enrichment_trace_def]
  have "\<forall>c \<in> set ?cs. cr_ParentIndex c = None" by (simp add: job_chunk_def zero_chunk_def)
  with s have ins: "insert_chunk_rows fid ?cs db2 = (Inr ids, db3)" by (blast intro: insert_chunks_effect)
  note ins_eff = insert_chunk_rows_effect [OF ins]
  note del_eff = delete_chunks_effect [OF conjunct1 [OF conjunct2 [OF s]] trace_ok(1) [OF ok t]]
  note up_eff = upsert_file_effect(3) [OF conjunct1 [OF s]]
  show len: "length ids = length (wj_Chunks job)" using ins_eff(2) by simp
  show dist: "distinct ids" unfolding ins_eff(2) by (simp add: distinct_map inj_on_def)
  show "\<forall>i \<in> set ids. db_chunks_seq db < i" using ins_eff(2) del_eff(4) up_eff by auto
  from s have "set_job_parents (wj_FilePath job) ids (wj_Chunks job) db3 = (Inr (), db4)" by blast
  from set_job_parents_rows [OF this len dist] obtain m where m: "db_chunks db4 = map (adopt m) (db_chunks db3)"
    "\<forall>(c, i) \<in> set (zip (wj_Chunks job) ids). m i = job_parent ids c" .
  from s have "insert_symbols fid (job_symbols ids (wj_Symbols job)) db4 = (Inr symIDs, db5)" by blast
  from insert_symbols_effect(3) [OF this] trace_core(1) [OF t] m(1) ins_eff(1)
  have all: "db_chunks db' = map (adopt m) (db_chunks db2) @ map (adopt m) rows" by (simp add: core_eq rows_def)
  have none: "\<forall>c \<in> set (db_chunks db2). cr_FileID c \<noteq> fid" using del_eff(1) by (simp add: chunks_of_def filter_empty_conv)
  have fids: "\<forall>c \<in> set rows. cr_FileID c = fid" by (auto simp: rows_def chunk_row_of_def chunk_record.defs dest!: set_zip_rightD)
  have own: "chunks_of fid db' = map (adopt m) rows"
    unfolding chunks_of_def all using none fids by (auto simp: filter_empty_conv intro!: filter_True)
  moreover have "rows = map2 (\<lambda>c i. (chunk_row_of fid (job_chunk c))\<lparr>cr_ID := i\<rparr>) (wj_Chunks job) ids"
    by (simp add: rows_def zip_map1 case_prod_unfold comp_def)
  ultimately show "\<exists>m. chunks_of fid db' = map (adopt m) (map2 (\<lambda>c i. (chunk_row_of fid (job_chunk c))\<lparr>cr_ID := i\<rparr>) (wj_Chunks job) ids)
      \<and> (\<forall>(c, i) \<in> set (zip (wj_Chunks job) ids). m i = job_parent ids c)" using m(2) by blast
  have "bare (adopt m c) = bare c" for c by (simp add: bare_def adopt_def split: option.split)
  then have "other_chunks fid db' = other_chunks fid db2"
    unfolding bare_other_chunks all using none fids by (auto simp: filter_empty_conv comp_def)
  with del_eff(2) up_eff show "other_chunks fid db' = other_chunks fid db" by (simp add: other_chunks_def)
  show "map cr_ID (chunks_of fid db') = ids" unfolding own rows_def using len by (simp add: comp_def map2_sides)
qed

lemma first_ids_find:
  assumes "length ids = length ss"
  shows "first_symbol_ids ss ids n = map_option sy_ID (find (\<lambda>s. sy_Name s = n) (map2 (\<lambda>s i. s\<lparr>sy_FileID := fid, sy_ID := i\<rparr>) ss ids))"
proof -
  let ?step = "\<lambda>(s, i) m. if m (sy_Name s) = None then m(sy_Name s \<mapsto> i) else m"
  let ?row = "\<lambda>(s, i). s\<lparr>sy_FileID := fid, sy_ID := i\<rparr>"
  have "fold ?step ps m n = (case m n of Some i \<Rightarrow> Some i | None \<Rightarrow> map_option sy_ID (find (\<lambda>s. sy_Name s = n) (map ?row ps)))"
    for ps :: "(symbol_record \<times> int) list" and m
    by (induction ps arbitrary: m) (auto split: option.splits if_splits)
  from this [of "zip ss ids" Map.empty] show ?thesis by (simp add: first_symbol_ids_def)
qed

text \<open>The symbols: those in the file's chunks are the inserted ones, and their names map to the first id.\<close>

lemma trace_symbols:
  assumes ok: "store_ok db" and t: "enrichment_trace env job file oldHash olds fid ids symIDs db db1 db2 db3 db4 db5 db6 db'"
  defines "new \<equiv> map2 (\<lambda>s i. s\<lparr>sy_FileID := fid, sy_ID := i\<rparr>) (job_symbols ids (wj_Symbols job)) symIDs"
  shows "stored_symbols fid db' = new" and "db_symbols db' = db_symbols db2 @ new" and "db_symbols db4 = db_symbols db2"
    and "length symIDs = length (job_symbols ids (wj_Symbols job))"
    and "stored_id fid db' = first_symbol_ids (job_symbols ids (wj_Symbols job)) symIDs"
    and "sy_ID ` set new \<inter> symbol_ids db4 = {}"
proof -
  note s = t [unfolded enrichment_trace_def]
  note cs = trace_chunks [OF ok t]
  note oks = trace_ok [OF ok t]
  have "\<forall>c \<in> set (map job_chunk (wj_Chunks job)). cr_ParentIndex c = None" by (simp add: job_chunk_def zero_chunk_def)
  with s have ins: "insert_chunk_rows fid (map job_chunk (wj_Chunks job)) db2 = (Inr ids, db3)" by (blast intro: insert_chunks_effect)
  from s have par: "set_job_parents (wj_FilePath job) ids (wj_Chunks job) db3 = (Inr (), db4)"
    and syms: "insert_symbols fid (job_symbols ids (wj_Symbols job)) db4 = (Inr symIDs, db5)" by blast+
  note sym = insert_symbols_effect [OF syms]
  show same: "db_symbols db4 = db_symbols db2" using set_job_parents_effect(3) [OF par] insert_chunk_rows_effect(4) [OF ins] by simp
  show all: "db_symbols db' = db_symbols db2 @ new"
    using sym(1) same trace_core(1) [OF t] by (simp add: core_eq new_def)
  show len: "length symIDs = length (job_symbols ids (wj_Symbols job))" by (rule sym(2))
  have old: "sy_ChunkID r \<notin> set ids" if "r \<in> set (db_symbols db2)" for r
  proof -
    have "sy_ChunkID r \<in> chunk_ids db2" using that oks(2) by (auto simp: store_ok_def db_inv_def)
    then have "sy_ChunkID r \<le> db_chunks_seq db2" using wf_id_le [OF oks(2)] by auto
    with insert_chunk_rows_effect(2) [OF ins] show ?thesis by force
  qed
  have inside: "sy_ChunkID r \<in> set ids" if "r \<in> set new" for r
    using that by (auto simp: new_def job_symbols_def job_symbol_def zero_symbol_def has_chunk_def dest!: set_zip_leftD)
  have "cr_ID ` set (chunks_of fid db') = set ids" using cs(6) by (metis set_map)
  then show stored: "stored_symbols fid db' = new"
    unfolding stored_symbols_def all using old inside by (auto simp: filter_empty_conv intro!: filter_True)
  show "stored_id fid db' = first_symbol_ids (job_symbols ids (wj_Symbols job)) symIDs"
    by (rule ext) (simp add: stored_id_def stored first_ids_find [OF len, where fid = fid] new_def)
  have "\<forall>i \<in> symbol_ids db4. i \<le> db_symbols_seq db4" using oks(4) by (auto simp: store_ok_def db_inv_def wf_ids_def)
  moreover have "\<forall>i \<in> sy_ID ` set new. db_symbols_seq db4 < i" using sym(5) by (auto simp: new_def dest!: set_zip_rightD)
  ultimately show "sy_ID ` set new \<inter> symbol_ids db4 = {}" by fastforce
qed

lemma trace_rows:
  assumes ok: "store_ok db" and t: "enrichment_trace env job file oldHash olds fid ids symIDs db db1 db2 db3 db4 db5 db6 db'"
  shows "rows_stored env job file db fid db'"
proof -
  note s = t [unfolded enrichment_trace_def]
  note cs = trace_chunks [OF ok t] and ss = trace_symbols [OF ok t]
  have path: "fr_Path (job_file_record env file) = fr_Path file" by (simp add: job_file_record_def)
  from s have up: "upsert_file (je_now env) (job_file_record env file) db = (Inr fid, db1)" by blast
  note up_eff = upsert_file_effect [OF up, unfolded path]
  have "db_files db' = db_files db1"
  proof -
    from s have "delete_chunks_by_file fid db1 = (Inr (), db2)" by blast
    from delete_chunks_effect(3) [OF this trace_ok(1) [OF ok t]] have "db_files db2 = db_files db1" .
    moreover have "db_files db5 = db_files db2"
      using s leavesD [OF file_rows.chunks] leavesD [OF file_rows.parents] leavesD [OF file_rows.symbols] by metis
    ultimately show ?thesis using trace_core(1) [OF t] by (simp add: core_eq)
  qed
  then have files: "get_file_by_path p db' = get_file_by_path p db1" for p by (simp add: get_file_by_path_def)
  obtain m where m: "chunks_of fid db' = map (adopt m) (map2 (\<lambda>c i. (chunk_row_of fid (job_chunk c))\<lparr>cr_ID := i\<rparr>) (wj_Chunks job) ids)"
    "\<forall>(c, i) \<in> set (zip (wj_Chunks job) ids). m i = job_parent ids c" using cs(1) by blast
  have plain: "(adopt m c)\<lparr>cr_ID := 0, cr_ParentChunkID := None\<rparr> = c\<lparr>cr_ID := 0, cr_ParentChunkID := None\<rparr>" for c
    by (simp add: adopt_def split: option.split)
  have "(chunk_row_of fid (job_chunk c))\<lparr>cr_ID := 0, cr_ParentChunkID := None\<rparr> = chunk_row_of fid (job_chunk c)" for c
    by (simp add: chunk_row_of_def chunk_record.defs job_chunk_def zero_chunk_def)
  then have rows: "map (\<lambda>c. c\<lparr>cr_ID := 0, cr_ParentChunkID := None\<rparr>) (chunks_of fid db') = map (\<lambda>c. chunk_row_of fid (job_chunk c)) (wj_Chunks job)"
    using cs(2) by (simp add: m(1) comp_def plain case_prod_unfold map_zip_fst [where h = "\<lambda>c. chunk_row_of fid (job_chunk c)"])
  have "cr_ParentChunkID (adopt m ((chunk_row_of fid (job_chunk c))\<lparr>cr_ID := i\<rparr>)) = m i" for c i
    by (simp add: adopt_def chunk_row_of_def chunk_record.defs job_chunk_def zero_chunk_def split: option.split)
  then have "map cr_ParentChunkID (chunks_of fid db') = map (\<lambda>(c, i). m i) (zip (wj_Chunks job) ids)" by (simp add: m(1) comp_def case_prod_unfold)
  also have "\<dots> = map (\<lambda>(c, i). job_parent ids c) (zip (wj_Chunks job) ids)" using m(2) by (intro map_cong) auto
  also have "\<dots> = map (job_parent ids) (wj_Chunks job)" using cs(2) by (simp add: case_prod_unfold map_zip_fst [where h = "job_parent ids"])
  finally have parents: "map cr_ParentChunkID (chunks_of fid db') = map (job_parent ids) (wj_Chunks job)" .
  have fresh: "\<forall>c \<in> set (chunks_of fid db'). db_chunks_seq db < cr_ID c" using cs(4,6) by (metis image_eqI set_map)
  have "map (\<lambda>s. s\<lparr>sy_ID := 0\<rparr>) (stored_symbols fid db') = map (\<lambda>p. (fst p)\<lparr>sy_FileID := fid\<rparr>) (zip (job_symbols ids (wj_Symbols job)) symIDs)"
    unfolding ss(1) by (auto simp: job_symbols_def job_symbol_def zero_symbol_def dest!: set_zip_leftD)
  then have symbols: "map (\<lambda>s. s\<lparr>sy_ID := 0\<rparr>) (stored_symbols fid db') = map (\<lambda>s. s\<lparr>sy_FileID := fid\<rparr>) (job_symbols ids (wj_Symbols job))"
    using map_zip_fst [of "job_symbols ids (wj_Symbols job)" symIDs "\<lambda>s. s\<lparr>sy_FileID := fid\<rparr>"] ss(4) by simp
  show ?thesis
    unfolding rows_stored_def files cs(6)
    using rows parents fresh cs(5) symbols up_eff(1,2) by (simp add: job_file_record_def coalesce_def)
qed

lemma upsert_file_links: "leaves links (upsert_file now f)"
  unfolding upsert_file_def by (rule leaves_tx) (simp add: leaves_def upsert_file_tx_def links_def Let_def split: option.split)

lemma upsert_file_symbols: "leaves db_symbols (upsert_file now f)"
  unfolding upsert_file_def by (rule leaves_tx) (simp add: leaves_def upsert_file_tx_def Let_def split: option.split)

lemma drop_chunks_links:
  obtains S where "db_symbols (drop_chunks C db) = filter (\<lambda>s. sy_ID s \<notin> S) (db_symbols db)"
    and "links (drop_chunks C db) = (filter (\<lambda>e. eg_Src e \<notin> S \<and> eg_Dst e \<notin> S) (db_edges db),
          filter (\<lambda>p. pe_Src p \<notin> S) (db_pending db), db_diffs db)"
  by (simp add: drop_chunks_def Let_def drop_symbols_def links_def)

text \<open>The edges and pending edges between the remaining symbols are there before the job's edges are written.\<close>

lemma trace_graph:
  assumes t: "enrichment_trace env job file oldHash olds fid ids symIDs db db1 db2 db3 db4 db5 db6 db'"
  shows "graph db6 = graph db4" and "db_diffs db5 = db_diffs db"
    and "r \<in> set (db_edges db) \<Longrightarrow> {eg_Src r, eg_Dst r} \<subseteq> symbol_ids db2 \<Longrightarrow> r \<in> set (db_edges db4)"
    and "p \<in> set (db_pending db) \<Longrightarrow> pe_Src p \<in> symbol_ids db2 \<Longrightarrow> p \<in> set (db_pending db4)"
proof -
  note s = t [unfolded enrichment_trace_def]
  have "links db1 = links db" using s leavesD [OF upsert_file_links] by blast
  moreover have "links db4 = links db2" using s leavesD [OF link_rows.chunks] leavesD [OF link_rows.parents] by metis
  moreover have db2: "db2 = drop_chunks (cr_ID ` {c \<in> set (db_chunks db1). cr_FileID c = fid}) db1"
    using s by (simp add: delete_chunks_by_file_def with_write_tx_Inr)
  moreover obtain S where S: "db_symbols db2 = filter (\<lambda>s. sy_ID s \<notin> S) (db_symbols db1)"
    "links db2 = (filter (\<lambda>e. eg_Src e \<notin> S \<and> eg_Dst e \<notin> S) (db_edges db1), filter (\<lambda>p. pe_Src p \<notin> S) (db_pending db1), db_diffs db1)"
    using drop_chunks_links [of "cr_ID ` {c \<in> set (db_chunks db1). cr_FileID c = fid}" db1] unfolding db2 by blast
  ultimately have l4: "db_edges db4 = filter (\<lambda>e. eg_Src e \<notin> S \<and> eg_Dst e \<notin> S) (db_edges db)"
    "db_pending db4 = filter (\<lambda>p. pe_Src p \<notin> S) (db_pending db)" "db_diffs db4 = db_diffs db"
    by (simp_all add: links_def)
  have gone: "symbol_ids db2 \<inter> S = {}" using S(1) by auto
  show "r \<in> set (db_edges db) \<Longrightarrow> {eg_Src r, eg_Dst r} \<subseteq> symbol_ids db2 \<Longrightarrow> r \<in> set (db_edges db4)"
    and "p \<in> set (db_pending db) \<Longrightarrow> pe_Src p \<in> symbol_ids db2 \<Longrightarrow> p \<in> set (db_pending db4)"
    using gone unfolding l4 by auto
  have l5: "links db5 = links db4" using s leavesD [OF link_rows.symbols] by blast
  moreover have "graph db6 = graph db5" using s leavesD [OF graph_diff.job_diff] by blast
  ultimately show "graph db6 = graph db4" by (simp add: links_def graph_def)
  show "db_diffs db5 = db_diffs db" using l5 l4(3) by (simp add: links_def)
qed

text \<open>What a job leaves pending has no target in the whole store.\<close>

lemma job_pendings_unresolved:
  assumes "db_inv db" and "p \<in> job_pendings ids fid l db es"
  shows "\<not> resolved db p"
proof -
  from assms(2) obtain e where p: "pe_DstName p = er_DstSymbolName e" "pe_Language p = l" and none: "edge_target ids fid l db e = 0"
    by (auto simp: job_pendings_def pending_for_def)
  have "\<forall>s \<in> set (db_symbols db). sy_ID s \<noteq> 0" using assms(1) by (auto simp: db_inv_def wf_ids_def)
  with none have "lookup_symbol_id_tx (er_DstSymbolName e) 0 l db = 0"
    by (auto simp: edge_target_def lookup_symbol_id_tx_def split: if_splits option.splits dest!: find_Some_set)
  with p show ?thesis by (simp add: resolved_def)
qed

lemma trace_edges:
  assumes ok: "store_ok db" and t: "enrichment_trace env job file oldHash olds fid ids symIDs db db1 db2 db3 db4 db5 db6 db'"
  shows "edges_stored job file db fid db'"
proof -
  note s = t [unfolded enrichment_trace_def]
  note ss = trace_symbols [OF ok t] and oks = trace_ok [OF ok t] and gr = trace_graph [OF t]
  define m where "m = stored_id fid db'"
  define new where "new = sy_ID ` set (stored_symbols fid db')"
  define names where "names = sy_Name ` set (stored_symbols fid db')"
  define l where "l = fr_Language file"
  have inv4: "db_inv db4" and inv6: "db_inv db6" using oks(4,6) by (auto simp: store_ok_def)
  have core6: "core db' = core db6" using trace_core [OF t] by simp
  have nm: "set (map sy_Name (job_symbols ids (wj_Symbols job))) = names"
  proof -
    have "map sy_Name (stored_symbols fid db') = map sy_Name (job_symbols ids (wj_Symbols job))"
      using ss(4) by (simp add: ss(1) comp_def case_prod_unfold map_zip_fst)
    then show ?thesis unfolding names_def by (metis set_map)
  qed
  have run: "write_job_edges fid job file m (map sy_Name (job_symbols ids (wj_Symbols job))) db6 = (Inr (), db')"
    using s by (simp add: m_def ss(5))
  have mnew: "map_or_zero m n \<in> new" if "map_or_zero m n \<noteq> 0" for n
    using that by (auto simp: map_or_zero_def m_def new_def stored_id_def split: option.splits dest!: find_Some_set)
  have old: "symbol_ids db4 \<inter> new = {}" using ss(6) unfolding new_def ss(1) by blast
  have "symbol_ids db' = symbol_ids db2 \<union> new" by (simp add: ss(1,2) new_def image_Un)
  with old ss(3) have rest: "symbol_ids db' - new = symbol_ids db2" by auto
  define W where "W = waiting m fid l db6 (wj_Edges job)"
  note rows = write_job_edges_rows [OF oks(6) run, folded l_def, unfolded nm, folded W_def]
  have target: "job_triples m fid l db6 es = job_triples m fid l db' es" "job_pendings m fid l db6 es = job_pendings m fid l db' es" for es
    by (simp_all add: job_triples_def job_pendings_def edge_target_core [OF core6])
  have W: "W = unkeyed ` set (db_pending db4) \<union> job_pendings m fid l db' (wj_Edges job)"
    using gr(1) by (simp add: W_def waiting_def target graph_def)
  have unres: "\<not> resolved db6 p" if "p \<in> job_pendings m fid l db' (wj_Edges job)" for p
    using job_pendings_unresolved [OF inv6] that by (metis target(2))
  have src: "pe_Src p \<in> new" if "p \<in> job_pendings m fid l db' (wj_Edges job)" for p
    using that mnew by (auto simp: job_pendings_def pending_for_def)
  have "\<forall>p \<in> set (db_pending db4). pe_Src p \<in> symbol_ids db4" "\<forall>r \<in> set (db_edges db4). eg_Src r \<in> symbol_ids db4"
    using inv4 by (simp_all add: db_inv_def)
  moreover have "db_edges db6 = db_edges db4" using gr(1) by (simp add: graph_def)
  ultimately have src4: "\<forall>p \<in> set (db_pending db4). pe_Src p \<notin> new" and edge4: "\<forall>r \<in> set (db_edges db6). eg_Src r \<notin> new"
    using old by auto
  have jobT: "fst x \<in> new" if "x \<in> job_triples m fid l db' (wj_Edges job)" for x using that mnew by (auto simp: job_triples_def)
  define R where "R = resolution db6 ` {p \<in> W. pe_DstName p \<in> names \<and> resolved db6 p}"
  define old_edges where "old_edges = edge_triple ` {e \<in> set (db_edges db6). eg_FileID e \<noteq> fid}"
  have all: "edge_triples db' = old_edges \<union> job_triples m fid l db' (wj_Edges job) \<union> R"
    using rows unfolding target R_def old_edges_def by blast
  have "\<forall>x \<in> R. fst x \<notin> new" using unres src4 unfolding R_def W by (auto simp: resolution_def)
  moreover have "\<forall>x \<in> old_edges. fst x \<notin> new" using edge4 unfolding old_edges_def by auto
  ultimately have T: "{x \<in> edge_triples db'. fst x \<in> new} = job_triples m fid l db' (wj_Edges job)"
    using jobT unfolding all by blast
  have pend: "unkeyed ` set (db_pending db') = {p \<in> W. \<not> (pe_DstName p \<in> names \<and> resolved db6 p)}" using rows by blast
  have "\<forall>p \<in> unkeyed ` set (db_pending db4). pe_Src p \<notin> new" using src4 by simp
  then have P: "{p \<in> unkeyed ` set (db_pending db'). pe_Src p \<in> new} = job_pendings m fid l db' (wj_Edges job)"
    using unres src unfolding pend W by blast
  have quiet: "\<forall>p \<in> set (db_pending db'). pe_DstName p \<in> names \<longrightarrow> \<not> resolved db' p"
  proof
    fix p assume "p \<in> set (db_pending db')"
    then have "unkeyed p \<in> {p \<in> W. \<not> (pe_DstName p \<in> names \<and> resolved db6 p)}" unfolding pend [symmetric] by (rule imageI)
    then show "pe_DstName p \<in> names \<longrightarrow> \<not> resolved db' p" by (simp add: resolve_core [OF core6])
  qed
  have woken: "resolution db' p \<in> edge_triples db'"
    if "p \<in> set (db_pending db)" "pe_Src p \<in> symbol_ids db' - new" "pe_DstName p \<in> names" "resolved db' p" for p
  proof -
    have "unkeyed p \<in> W" using gr(4) that(1,2) unfolding rest W by blast
    with that(3,4) have "unkeyed p \<in> {p \<in> W. pe_DstName p \<in> names \<and> resolved db6 p}" by (simp add: resolve_core [OF core6])
    then have "resolution db6 (unkeyed p) \<in> R" unfolding R_def by (rule imageI)
    then show ?thesis using all by (simp add: resolve_core [OF core6])
  qed
  have kept: "edge_triple r \<in> edge_triples db'"
    if "r \<in> set (db_edges db)" "eg_FileID r \<noteq> fid" "{eg_Src r, eg_Dst r} \<subseteq> symbol_ids db' - new" for r
  proof -
    have "r \<in> set (db_edges db6)" using gr(1,3) that unfolding rest by (simp add: graph_def)
    with that(2) have "edge_triple r \<in> old_edges" unfolding old_edges_def by (intro imageI) simp
    with all show ?thesis by blast
  qed
  show ?thesis
    unfolding edges_stored_def Let_def m_def [symmetric] new_def [symmetric] names_def [symmetric] l_def [symmetric]
    by (intro conjI T P quiet) (use woken kept in auto)
qed

text \<open>The entry of the diff log.\<close>

lemma trace_diff:
  assumes ok: "store_ok db" and t: "enrichment_trace env job file oldHash olds fid ids symIDs db db1 db2 db3 db4 db5 db6 db'"
  shows "diff_logged env oldHash olds job fid db db'"
proof -
  note s = t [unfolded enrichment_trace_def]
  note ss = trace_symbols [OF ok t]
  have inv5: "db_inv db5" using trace_ok(5) [OF ok t] by (simp add: store_ok_def)
  have c: "core db' = core db5" by (rule trace_core(1) [OF t])
  have "fid \<in> file_ids db'"
  proof -
    from trace_rows [OF ok t] have "get_file_by_path (fr_Path file) db' =
        Some ((job_file_record env file)\<lparr>fr_ID := fid, fr_ParseQuality := coalesce (fr_ParseQuality file) ''full''\<rparr>)"
      by (simp add: rows_stored_def)
    from find_Some_set [OF this [unfolded get_file_by_path_def]] show ?thesis by force
  qed
  then have fid: "fid \<in> file_ids db5" using c by (simp add: core_eq)
  have "\<forall>n i. first_symbol_ids (job_symbols ids (wj_Symbols job)) symIDs n = Some i \<longrightarrow> i \<in> symbol_ids db'"
    unfolding ss(5) [symmetric] by (auto simp: stored_id_def stored_symbols_def dest!: find_Some_set)
  then have m: "\<forall>n i. first_symbol_ids (job_symbols ids (wj_Symbols job)) symIDs n = Some i \<longrightarrow> i \<in> symbol_ids db5"
    using c by (simp add: core_eq)
  from s have d: "record_job_diff env fid oldHash job olds (first_symbol_ids (job_symbols ids (wj_Symbols job)) symIDs) db5 = (Inr (), db6)"
    and e: "write_job_edges fid job file (first_symbol_ids (job_symbols ids (wj_Symbols job)) symIDs)
        (map sy_Name (job_symbols ids (wj_Symbols job))) db6 = (Inr (), db')" by blast+
  have "logs db' = logs db6" by (rule leavesD [OF log_frame.job_edges e])
  then have same: "db_diffs db' = db_diffs db6" "db_diffsyms db' = db_diffsyms db6" by (simp_all add: logs_def)
  show ?thesis
    using record_job_diff_rows [OF inv5 fid m d] unfolding diff_logged_def same trace_graph(2) [OF t] .
qed

lemma write_enrichment_effect:
  assumes ok: "store_ok db" and run: "write_enrichment env job file oldHash olds db = (Inr stale, db')"
  shows "\<exists>fid. enriched env oldHash olds job file db fid db'
    \<and> stale = map cr_ID (filter cw_embedded (chunks_of fid db))
    \<and> fid = (case get_file_by_path (fr_Path file) db of Some old \<Rightarrow> fr_ID old | None \<Rightarrow> db_files_seq db + 1)"
proof -
  from write_enrichment_trace [OF run] obtain fid ids symIDs db1 db2 db3 db4 db5 db6
    where t: "enrichment_trace env job file oldHash olds fid ids symIDs db db1 db2 db3 db4 db5 db6 db'"
      and stale: "stale = get_embedded_chunk_ids_by_file fid db1" .
  from t have up: "upsert_file (je_now env) (job_file_record env file) db = (Inr fid, db1)" by (simp add: enrichment_trace_def)
  have path: "fr_Path (job_file_record env file) = fr_Path file" by (simp add: job_file_record_def)
  note up_eff = upsert_file_effect [OF up, unfolded path]
  have "enriched env oldHash olds job file db fid db'"
    unfolding enriched_def using trace_rows [OF ok t] trace_edges [OF ok t] trace_diff [OF ok t] by blast
  moreover have "stale = map cr_ID (filter cw_embedded (chunks_of fid db))"
    using up_eff(3) by (simp add: stale get_embedded_chunk_ids_by_file_def chunks_of_def conj_commute)
  moreover have "fid = (case get_file_by_path (fr_Path file) db of Some old \<Rightarrow> fr_ID old | None \<Rightarrow> db_files_seq db + 1)"
    using up_eff(4,5) by (cases "get_file_by_path (fr_Path file) db") auto
  ultimately show ?thesis by blast
qed

text \<open>The hash and the symbols of the file that the job replaces.\<close>

definition old_hash :: "write_job \<Rightarrow> sql_db \<Rightarrow> string" where
  "old_hash job db = (case get_file_by_path (wj_FilePath job) db of None \<Rightarrow> [] | Some f \<Rightarrow> fr_ContentHash f)"

definition old_symbols :: "write_job \<Rightarrow> sql_db \<Rightarrow> (string \<times> old_symbol) list" where
  "old_symbols job db = (case get_file_by_path (wj_FilePath job) db of None \<Rightarrow> [] | Some f \<Rightarrow> build_old_symbols (fr_ID f) db)"

lemma enrichment_cases:
  assumes "process_enrichment_job env job db = (r, db')" and "wj_File job = Some file" and "\<not> skip_job env job db"
  shows "write_enrichment env job file (old_hash job db) (old_symbols job db) db = (r, db')"
  using assms by (auto simp: process_enrichment_job_def old_hash_def old_symbols_def split: option.splits)

section \<open>The files table after the upsert\<close>

lemma leaves_files_core: "leaves core m \<Longrightarrow> leaves db_files m"
  by (simp add: leaves_def core_def)

lemma upsert_file_succeeds:
  assumes "embedding_status_valid (coalesce (fr_EmbeddingStatus f) ''pending'')"
    and "parse_quality_valid (coalesce (fr_ParseQuality f) ''full'')"
  shows "\<exists>fid db1. upsert_file now f db = (Inr fid, db1)"
proof -
  define row where "row = f\<lparr>fr_IndexedAt := now, fr_EmbeddingStatus := coalesce (fr_EmbeddingStatus f) ''pending'',
              fr_ParseQuality := coalesce (fr_ParseQuality f) ''full''\<rparr>"
  have "file_check row" using assms by (simp add: row_def file_check_def)
  then show ?thesis
    by (simp add: upsert_file_def with_write_tx_Inr upsert_file_tx_def Let_def flip: row_def split: option.split)
qed

lemma failed_enrichment_files:
  assumes "write_enrichment env job file oldHash olds db = (Inl e, db')"
    and "upsert_file (je_now env) (job_file_record env file) db = (Inr fid, db1)"
  shows "db_files db' = db_files db1"
proof -
  have "leaves db_files (delete_chunks_by_file fid)"
    by (simp add: leaves_def delete_chunks_by_file_def with_write_tx_def drop_chunks_def Let_def drop_symbols_def)
  moreover have "leaves db_files (\<lambda>db. (Inr (get_embedded_chunk_ids_by_file fid db), db))" by (simp add: leaves_def)
  ultimately show ?thesis
    using assms
    unfolding write_enrichment_def Let_def
    by (subst (asm) (1) tx_bind_def) (auto simp: tx_wrap_def wrap_res_def
        intro!: leavesD [rotated] leaves_intros file_rows.chunks file_rows.parents file_rows.symbols
          leaves_files_core [OF leaves_record_job_diff] leaves_files_core [OF leaves_write_job_edges])
qed

section \<open>Vectors and chunks\<close>

text \<open>What the writer needs of \<open>types.VectorDeleter\<close>: the named vectors are gone, the others stay.\<close>

locale vector_deleter =
  fixes delete :: "int list \<Rightarrow> 'v \<Rightarrow> unit res \<times> 'v" and vector_ids :: "'v \<Rightarrow> int set"
  assumes delete_ids: "vector_ids (snd (delete ids vs)) = vector_ids vs - set ids"

definition embedded_ids :: "sql_db \<Rightarrow> int set" where
  "embedded_ids db = cr_ID ` {c \<in> set (db_chunks db). cw_embedded c}"

lemma embedded_ids_list: "embedded_ids db = set (map cr_ID (filter cw_embedded (db_chunks db)))"
  by (auto simp: embedded_ids_def)

lemma embedded_ids_split:
  "embedded_ids db = cr_ID ` set (filter cw_embedded (chunks_of fid db)) \<union> cr_ID ` {c \<in> set (other_chunks fid db). cw_embedded c}"
proof -
  have "i \<in> cr_ID ` {c \<in> set (other_chunks fid db). cw_embedded c}
      \<longleftrightarrow> (\<exists>c \<in> set (db_chunks db). cr_FileID c \<noteq> fid \<and> cw_embedded c \<and> i = cr_ID c)" for i
    by (auto simp: other_chunks_def) (metis (mono_tags, lifting) bare_simps(2,4) image_eqI mem_Collect_eq)+
  then show ?thesis by (auto simp: embedded_ids_def chunks_of_def)
qed

lemma delete_file_effect:
  assumes "delete_file_by_path path db = (Inr i, db')" and "store_ok db"
  shows "(case get_file_by_path path db of
            None \<Rightarrow> db' = db
          | Some f \<Rightarrow> chunks_of (fr_ID f) db' = [] \<and> other_chunks (fr_ID f) db' = other_chunks (fr_ID f) db)"
proof (cases "get_file_by_path path db")
  case None
  with assms(1) show ?thesis by (simp add: delete_file_by_path_def with_write_tx_Inr)
next
  case (Some f)
  let ?C = "cr_ID ` {c \<in> set (db_chunks db). cr_FileID c = fr_ID f}"
  have "db' = drop_files {fr_ID f} db" using assms(1) Some by (auto simp: delete_file_by_path_def with_write_tx_Inr)
  moreover have "distinct (map cr_ID (db_chunks db))" using assms(2) by (auto simp: store_ok_def db_inv_def dest: wf_ids_distinct)
  from key_filter [OF this, of "\<lambda>c. cr_FileID c = fr_ID f"]
  have "db_chunks (drop_files {fr_ID f} db) = map (\<lambda>c. c\<lparr>cr_ParentChunkID := forget ?C (cr_ParentChunkID c)\<rparr>)
      (filter (\<lambda>c. cr_FileID c \<noteq> fr_ID f) (db_chunks db))"
    by (simp add: drop_files_def Let_def drop_chunks_fields drop_symbols_fields drop_diffs_fields)
  ultimately show ?thesis using Some
    by (simp add: chunks_of_def other_chunks_def filter_map comp_def filter_empty_conv)
qed

context vector_deleter
begin

lemma stale_deleted:
  assumes "vector_ids vs \<subseteq> embedded_ids db" and "other_chunks fid db' = other_chunks fid db"
    and "set stale = cr_ID ` set (filter cw_embedded (chunks_of fid db))"
  shows "vector_ids (if stale \<noteq> [] then snd (delete stale vs) else vs) \<subseteq> embedded_ids db'"
  using assms embedded_ids_split [of db fid] embedded_ids_split [of db' fid] delete_ids by auto

lemma no_orphans:
  assumes ok: "store_ok db" and sub: "vector_ids vs \<subseteq> embedded_ids db"
    and run: "process_job env (Some delete) job (db, vs) = (Inr u, db', vs')"
  shows "vector_ids vs' \<subseteq> embedded_ids db'"
proof -
  from run obtain stale where p: "process_write_job env job db = (Inr stale, db')"
    and vs': "vs' = (if stale \<noteq> [] then snd (delete stale vs) else vs)"
    by (auto simp: process_job_def split: prod.splits sum.splits)
  show ?thesis
  proof (cases "wj_Type job")
    case WriteJobEnrichment
    with p have e: "process_enrichment_job env job db = (Inr stale, db')" by (simp add: process_write_job_def)
    then obtain fl where fl: "wj_File job = Some fl" by (cases "wj_File job") (auto simp: process_enrichment_job_def)
    show ?thesis
    proof (cases "skip_job env job db")
      case True
      with e fl vs' sub show ?thesis by (auto simp: process_enrichment_job_def)
    next
      case False
      from write_enrichment_effect [OF ok enrichment_cases [OF e fl False]] obtain fid where
        "rows_stored env job fl db fid db'" "stale = map cr_ID (filter cw_embedded (chunks_of fid db))"
        unfolding enriched_def by blast
      then show ?thesis unfolding vs' by (intro stale_deleted [OF sub]) (auto simp: rows_stored_def)
    qed
  next
    case WriteJobFileDelete
    with p obtain i where d: "delete_file_by_path (wj_FilePath job) db = (Inr i, db')"
      and stale: "stale = (case get_file_by_path (wj_FilePath job) db of
          None \<Rightarrow> [] | Some f \<Rightarrow> get_embedded_chunk_ids_by_file (fr_ID f) db)"
      by (auto simp: process_write_job_def Let_def split: prod.splits sum.splits)
    show ?thesis
    proof (cases "get_file_by_path (wj_FilePath job) db")
      case None
      with delete_file_effect [OF d ok] stale vs' sub show ?thesis by simp
    next
      case (Some f)
      with delete_file_effect [OF d ok] have "other_chunks (fr_ID f) db' = other_chunks (fr_ID f) db" by simp
      then show ?thesis unfolding vs' using Some
        by (intro stale_deleted [OF sub]) (auto simp: stale get_embedded_chunk_ids_by_file_def chunks_of_def)
    qed
  qed (use p vs' sub in \<open>auto simp: process_write_job_def\<close>)
qed

end

interpretation bfd: vector_deleter bf_delete "\<lambda>s. dom (bf_lookup s)"
  by unfold_locales (auto simp: bf_delete_def bf_lookup_def bf_delete_lookup)

section \<open>A small job\<close>

definition sample_env :: job_env where
  "sample_env = \<lparr>je_testPatterns = [''*_test.go''], je_now = ''n'', je_sql_now = ''s'', je_parse = (\<lambda>_. None)\<rparr>"

definition sample_job :: "string \<Rightarrow> write_job" where
  "sample_job kind =
     \<lparr>wj_Type = WriteJobEnrichment, wj_FilePath = ''a.go'',
      wj_File = Some ((sample_file_row 0 ''a.go'' ''go'')\<lparr>fr_ContentHash := ''h2''\<rparr>),
      wj_Chunks = [zero_chunk\<lparr>cr_SymbolName := ''foo'', cr_Kind := kind, cr_StartLine := 1, cr_EndLine := 3, cr_Content := ''foo()''\<rparr>],
      wj_Symbols = [zero_symbol\<lparr>sy_Name := ''foo'', sy_Kind := ''function'', sy_Line := 1, sy_Visibility := ''public''\<rparr>,
                    zero_symbol\<lparr>sy_ChunkID := -1, sy_Name := ''lost''\<rparr>],
      wj_Edges = [], wj_ContentHash = ''h2'', wj_Timestamp = 0\<rparr>"

lemma sample_job_runs:
  "fst (process_enrichment_job sample_env (sample_job ''function'') sample_db) = Inr []"
  by code_simp

lemma sample_job_fails:
  "fst (process_enrichment_job sample_env (sample_job ''constant'') sample_db) \<noteq> Inr []"
  by code_simp

text \<open>A job that fails has already stored the file's hash.\<close>

lemma failed_enrichment_hash:
  assumes "process_enrichment_job env job db = (Inl e, db')" and "wj_File job = Some file"
    and "\<not> skip_job env job db" and "parse_quality_valid (coalesce (fr_ParseQuality file) ''full'')"
  shows "\<exists>r. get_file_by_path (fr_Path file) db' = Some r \<and> fr_ContentHash r = fr_ContentHash file"
proof -
  note run = enrichment_cases [OF assms(1,2,3)]
  have "embedding_status_valid (coalesce (fr_EmbeddingStatus (job_file_record env file)) ''pending'')"
    and "parse_quality_valid (coalesce (fr_ParseQuality (job_file_record env file)) ''full'')"
    using assms(4) by (simp_all add: job_file_record_def coalesce_def embedding_status_valid_def)
  from upsert_file_succeeds [OF this] obtain fid db1
    where up: "upsert_file (je_now env) (job_file_record env file) db = (Inr fid, db1)" by blast
  have "get_file_by_path (fr_Path file) db' = get_file_by_path (fr_Path file) db1"
    using failed_enrichment_files [OF run up] by (simp add: get_file_by_path_def)
  with upsert_file_effect(1) [OF up] show ?thesis by (simp add: job_file_record_def)
qed

section \<open>Properties\<close>

text \<open>An enrichment job that succeeds and is not skipped leaves the file's record with the new hash, the
  status pending and the test flag of the patterns; the file's chunks are exactly the job's, in
  order, none of them embedded, under ids never used before; their symbols are exactly the
  job's symbols that have a chunk; the chunks of every other file are what they were, and so are the
  other files. The result lists the file's old chunks that had vectors.\<close>

theorem enrichment_replaces_file:
  assumes "store_ok db" and "wj_File job = Some file" and "\<not> skip_job env job db"
    and "process_enrichment_job env job db = (Inr stale, db')"
  shows "\<exists>fid. enriched env (old_hash job db) (old_symbols job db) job file db fid db' \<and> stale = map cr_ID (filter cw_embedded (chunks_of fid db))
    \<and> fid = (case get_file_by_path (fr_Path file) db of Some old \<Rightarrow> fr_ID old | None \<Rightarrow> db_files_seq db + 1)"
  by (rule write_enrichment_effect [OF assms(1) enrichment_cases [OF assms(4,2,3)]])

theorem enrichment_replaces_file_witness:
  "\<exists>db'. process_enrichment_job sample_env (sample_job ''function'') sample_db = (Inr [], db')
     \<and> enriched sample_env (old_hash (sample_job ''function'') sample_db) (old_symbols (sample_job ''function'') sample_db)
         (sample_job ''function'') (the (wj_File (sample_job ''function''))) sample_db 1 db'"
proof -
  obtain db' where run: "process_enrichment_job sample_env (sample_job ''function'') sample_db = (Inr [], db')"
    using sample_job_runs by (metis prod.collapse)
  define fl where "fl = the (wj_File (sample_job ''function''))"
  have fl: "wj_File (sample_job ''function'') = Some fl" by (simp add: sample_job_def fl_def)
  have "\<not> skip_job sample_env (sample_job ''function'') sample_db" by code_simp
  from enrichment_replaces_file [OF sample_db_ok(1) fl this run] obtain fid where
    e: "enriched sample_env (old_hash (sample_job ''function'') sample_db) (old_symbols (sample_job ''function'') sample_db)
          (sample_job ''function'') fl sample_db fid db'"
    and fid: "fid = (case get_file_by_path (fr_Path fl) sample_db of Some old \<Rightarrow> fr_ID old | None \<Rightarrow> db_files_seq sample_db + 1)"
    by blast
  have "(case get_file_by_path (fr_Path fl) sample_db of Some old \<Rightarrow> fr_ID old | None \<Rightarrow> db_files_seq sample_db + 1) = 1"
    unfolding fl_def by code_simp
  with e fid run show ?thesis by (simp add: fl_def)
qed

text \<open>Whatever a job asks for and however it ends, the store stays in order: keys, foreign keys, checks
  and uniqueness hold and the full-text index mirrors the chunks while the triggers are installed.\<close>

theorem process_job_keeps_store:
  assumes "store_ok db"
  shows "store_ok (fst (snd (process_job env vectorDeleter job (db, vs))))"
proof -
  obtain r db1 where p: "process_write_job env job db = (r, db1)" by fastforce
  from tx_keepsD [OF keeps_process_write_job assms this] have "store_ok db1" .
  with p show ?thesis by (auto simp: process_job_def split: sum.split option.split)
qed

theorem process_job_keeps_store_witness:
  "store_ok (fst (snd (process_job sample_env None (sample_job ''constant'') (sample_db, ()))))"
  by (rule process_job_keeps_store [OF sample_db_ok(1)])

text \<open>The hash is committed before the chunks: when a job fails after the file was upserted, the same job
  submitted again is skipped as already indexed and reported as a success, although the file's
  chunks were never written.\<close>

theorem failed_enrichment_not_retried:
  assumes "process_enrichment_job env job db = (Inl e, db')" and "wj_File job = Some file"
    and "fr_Path file = wj_FilePath job" and "fr_ContentHash file = wj_ContentHash job" and "wj_ContentHash job \<noteq> []"
    and "\<not> skip_job env job db" and "parse_quality_valid (coalesce (fr_ParseQuality file) ''full'')"
  shows "process_enrichment_job env job db' = (Inr [], db')"
  using failed_enrichment_hash [OF assms(1,2,6,7)] assms(2,3,4,5) by (auto simp: process_enrichment_job_def skip_job_def)

theorem failed_enrichment_not_retried_witness:
  "\<exists>e db'. process_enrichment_job sample_env (sample_job ''constant'') sample_db = (Inl e, db')
     \<and> process_enrichment_job sample_env (sample_job ''constant'') db' = (Inr [], db')"
proof -
  have "isl (fst (process_enrichment_job sample_env (sample_job ''constant'') sample_db))" by code_simp
  then obtain e db' where run: "process_enrichment_job sample_env (sample_job ''constant'') sample_db = (Inl e, db')"
    by (metis prod.collapse isl_def)
  define fl where "fl = the (wj_File (sample_job ''constant''))"
  have "wj_File (sample_job ''constant'') = Some fl" "fr_Path fl = wj_FilePath (sample_job ''constant'')"
    "fr_ContentHash fl = wj_ContentHash (sample_job ''constant'')" "wj_ContentHash (sample_job ''constant'') \<noteq> []"
    "parse_quality_valid (coalesce (fr_ParseQuality fl) ''full'')"
    by (simp_all add: fl_def sample_job_def sample_file_row_def coalesce_def parse_quality_valid_def)
  moreover have "\<not> skip_job sample_env (sample_job ''constant'') sample_db" by code_simp
  ultimately show ?thesis using failed_enrichment_not_retried [OF run] run by blast
qed

text \<open>C39. No vector outlives its chunk when a job succeeds: if every vector belongs to a chunk marked embedded, the
  same holds afterwards, because the ids of the chunks that the job replaced or deleted are removed from the
  vector store. A job that fails removes no vector, also when it has already deleted chunks.\<close>

theorem no_vector_outlives_chunk:
  assumes "store_ok db" and "dom (bf_lookup vs) \<subseteq> embedded_ids db"
    and "process_job env (Some bf_delete) job (db, vs) = (r, db', vs')"
  shows "if r = Inr () then dom (bf_lookup vs') \<subseteq> embedded_ids db' else vs' = vs"
proof (cases r)
  case (Inl e)
  with assms(3) show ?thesis by (auto simp: process_job_def split: prod.splits sum.splits)
next
  case (Inr u)
  with bfd.no_orphans [OF assms(1,2)] assms(3) show ?thesis by simp
qed

definition sample_db_embedded :: sql_db where
  "sample_db_embedded = snd (mark_chunks_embedded [1, 3] sample_db)"

theorem no_vector_outlives_chunk_witness:
  "\<exists>db' vs'. process_job sample_env (Some bf_delete) (sample_job ''function'')
      (sample_db_embedded, \<lparr>bf_vectors = [(1, [F32 1]), (3, [F32 1])], bf_dim = 1\<rparr>) = (Inr (), db', vs')
    \<and> dom (bf_lookup vs') \<subseteq> embedded_ids db'"
proof -
  let ?vs = "\<lparr>bf_vectors = [(1, [F32 1]), (3, [F32 1])], bf_dim = 1\<rparr>"
  have "fst (process_job sample_env (Some bf_delete) (sample_job ''function'') (sample_db_embedded, ?vs)) = Inr ()" by code_simp
  then obtain db' vs' where run: "process_job sample_env (Some bf_delete) (sample_job ''function'') (sample_db_embedded, ?vs) = (Inr (), db', vs')"
    by (metis prod.collapse)
  have "map cr_ID (filter cw_embedded (db_chunks sample_db_embedded)) = [1, 3]" by code_simp
  then have "embedded_ids sample_db_embedded = {1, 3}" unfolding embedded_ids_list by simp
  moreover have "store_ok sample_db_embedded"
    using sq.mark_embedded_inv [of True sample_db "db_fts_triggers sample_db" "[1, 3]"] sample_db_ok(1)
    by (auto simp: sample_db_embedded_def mark_chunks_embedded_def with_write_tx_def)
  moreover have "dom (bf_lookup ?vs) = {1, 3}" by (auto simp: bf_lookup_def)
  ultimately show ?thesis using no_vector_outlives_chunk [OF _ _ run] run by auto
qed

text \<open>A job that fails after its file's chunks were deleted leaves their vectors behind.\<close>

lemma failed_job_orphans_vectors:
  "\<exists>e db'. process_job sample_env (Some bf_delete) (sample_job ''constant'')
      (sample_db_embedded, \<lparr>bf_vectors = [(1, [F32 1]), (3, [F32 1])], bf_dim = 1\<rparr>)
        = (Inl e, db', \<lparr>bf_vectors = [(1, [F32 1]), (3, [F32 1])], bf_dim = 1\<rparr>)
    \<and> 1 \<notin> chunk_ids db'"
proof -
  let ?vs = "\<lparr>bf_vectors = [(1, [F32 1]), (3, [F32 1])], bf_dim = 1\<rparr>"
  define r where "r = process_job sample_env (Some bf_delete) (sample_job ''constant'') (sample_db_embedded, ?vs)"
  have "isl (fst r)" and gone: "1 \<notin> set (map cr_ID (db_chunks (fst (snd r))))" unfolding r_def by code_simp+
  then obtain e db' vs' where run: "r = (Inl e, db', vs')" by (metis prod.collapse isl_def)
  then have "vs' = ?vs" by (auto simp: r_def process_job_def split: prod.splits sum.splits)
  with run gone show ?thesis by (auto simp: r_def)
qed

end
