(* ===== verification/Syntax_Tree.thy ===== *)
theory Syntax_Tree
  imports Core_Types Utf8 "HOL-Library.Sublist"
begin

text \<open>
  The syntax trees of \<open>internal/parser\<close> and the helpers of \<open>walk.go\<close>. tree-sitter is not part of the
  repository: a tree is a value of \<open>node\<close>, the data its API hands out. A node has a kind, the field
  names its parent knows it by, whether it is named, its byte range, the rows of its ends, and
  its children in order; trees that tree-sitter returns lie within the source they were parsed
  from, so the slices the code takes are in range.
\<close>

datatype node = Node
  (nd_Kind: string) (nd_Fields: "string list") (nd_Named: bool)
  (nd_StartByte: nat) (nd_EndByte: nat) (nd_StartRow: int) (nd_EndRow: int)
  (nd_Children: "node list")

definition slice :: "string \<Rightarrow> nat \<Rightarrow> nat \<Rightarrow> string" where
  "slice source a b = take (b - a) (drop a source)"

definition utf8_text :: "node \<Rightarrow> string \<Rightarrow> string" where
  "utf8_text n source = slice source (nd_StartByte n) (nd_EndByte n)"

definition named_children :: "node \<Rightarrow> node list" where
  "named_children n = filter nd_Named (nd_Children n)"

definition child_by_field :: "string \<Rightarrow> node \<Rightarrow> node option" where
  "child_by_field f n = find (\<lambda>c. f \<in> set (nd_Fields c)) (nd_Children n)"

definition find_named_child :: "node \<Rightarrow> (node \<Rightarrow> bool) \<Rightarrow> node option" where
  "find_named_child n pred = find pred (named_children n)"

definition find_child_by_type :: "node \<Rightarrow> string \<Rightarrow> node option" where
  "find_child_by_type n t = find_named_child n (\<lambda>c. nd_Kind c = t)"

definition start_line :: "node \<Rightarrow> int" where "start_line n = nd_StartRow n + 1"

definition end_line :: "node \<Rightarrow> int" where "end_line n = nd_EndRow n + 1"

section \<open>Go strings\<close>

text \<open>\<open>strings.TrimRight\<close> and \<open>strings.Trim\<close> with a set of ASCII characters.\<close>

definition trim_right :: "char set \<Rightarrow> string \<Rightarrow> string" where
  "trim_right cs s = rev (dropWhile (\<lambda>c. c \<in> cs) (rev s))"

definition trim_both :: "char set \<Rightarrow> string \<Rightarrow> string" where
  "trim_both cs s = trim_right cs (dropWhile (\<lambda>c. c \<in> cs) s)"

text \<open>\<open>unicode.IsUpper\<close>: the Latin-1 table, and the argument \<open>upper\<close> for the rest of Unicode;
  \<open>rune_value\<close> is the code point that \<open>utf8.DecodeRuneInString\<close> returns (\<open>RuneError\<close> for malformed input).\<close>

definition rune_is_upper :: "(nat \<Rightarrow> bool) \<Rightarrow> nat \<Rightarrow> bool" where
  "rune_is_upper upper r =
     (if r \<le> 255 then (65 \<le> r \<and> r \<le> 90) \<or> (192 \<le> r \<and> r \<le> 222 \<and> r \<noteq> 215) else upper r)"

definition rune_value :: "string \<Rightarrow> nat" where
  "rune_value s =
     (case decode_rune s of
        (ok, n) \<Rightarrow>
          if \<not> ok then 65533
          else if n = 1 then byte (s ! 0)
          else if n = 2 then (byte (s ! 0) mod 32) * 64 + byte (s ! 1) mod 64
          else if n = 3 then (byte (s ! 0) mod 16) * 4096 + (byte (s ! 1) mod 64) * 64 + byte (s ! 2) mod 64
          else (byte (s ! 0) mod 8) * 262144 + (byte (s ! 1) mod 64) * 4096 + (byte (s ! 2) mod 64) * 64 + byte (s ! 3) mod 64)"

section \<open>Sizes, for recursion over trees\<close>

named_theorems child_size \<open>a node reached from another one is smaller\<close>

lemma size_nd_Children [child_size]: "c \<in> set (nd_Children n) \<Longrightarrow> size c < size n"
  by (cases n) (simp add: size_list_estimation' less_Suc_eq_le)

lemma size_named_children [child_size]: "c \<in> set (named_children n) \<Longrightarrow> size c < size n"
  by (simp add: named_children_def size_nd_Children)

lemma size_child_by_field [child_size]: "child_by_field f n = Some c \<Longrightarrow> size c < size n"
  by (auto simp: child_by_field_def dest!: find_Some_set intro: size_nd_Children)

lemma size_find_named_child [child_size]: "find_named_child n p = Some c \<Longrightarrow> size c < size n"
  by (auto simp: find_named_child_def dest!: find_Some_set intro: size_named_children)

lemma size_list_named_children [child_size]: "size_list size (named_children n) < size n"
proof -
  have "size_list size (filter P cs) \<le> size_list size cs" for P and cs :: "node list"
    by (induction cs) simp_all
  then show ?thesis by (cases n) (simp add: named_children_def less_Suc_eq_le)
qed

lemma find_child_by_type_Some:
  "find_child_by_type n t = Some c \<Longrightarrow> c \<in> set (named_children n) \<and> nd_Kind c = t"
  by (auto simp: find_child_by_type_def find_named_child_def dest: find_Some_set)

end
