(* ===== verification/Languages.thy ===== *)
theory Languages
  imports Syntax_Tree Sql_Db
begin

text \<open>
  \<open>internal/parser/languages.go\<close>: what each node kind of each language means to the parser. The grammar of a
  configuration is tree-sitter's and left out; a kind without an entry has Go's zero \<open>NodeMeta\<close>.
\<close>

record node_meta =
  nm_IsChunkable :: bool
  nm_Kind :: string
  nm_IsContainer :: bool
  nm_SymbolKind :: string
  nm_IsImport :: bool

record language_config =
  lc_Name :: string
  lc_Nodes :: "(string \<times> node_meta) list"
  lc_ExportType :: string
  lc_AmbientType :: string

definition zero_meta :: node_meta where
  "zero_meta = \<lparr>nm_IsChunkable = False, nm_Kind = [], nm_IsContainer = False, nm_SymbolKind = [], nm_IsImport = False\<rparr>"

definition meta_of :: "language_config \<Rightarrow> string \<Rightarrow> node_meta" where
  "meta_of cfg k = (case map_of (lc_Nodes cfg) k of Some m \<Rightarrow> m | None \<Rightarrow> zero_meta)"

definition typescript_config :: language_config where
  "typescript_config =
     \<lparr>lc_Name = ''typescript'',
      lc_Nodes =
       [(''function_declaration'', \<lparr>nm_IsChunkable = True, nm_Kind = ''function'', nm_IsContainer = False, nm_SymbolKind = ''function'', nm_IsImport = False\<rparr>),
        (''generator_function_declaration'', \<lparr>nm_IsChunkable = True, nm_Kind = ''function'', nm_IsContainer = False, nm_SymbolKind = ''function'', nm_IsImport = False\<rparr>),
        (''function_signature'', \<lparr>nm_IsChunkable = True, nm_Kind = ''function'', nm_IsContainer = False, nm_SymbolKind = ''function'', nm_IsImport = False\<rparr>),
        (''class_declaration'', \<lparr>nm_IsChunkable = True, nm_Kind = ''class'', nm_IsContainer = True, nm_SymbolKind = ''class'', nm_IsImport = False\<rparr>),
        (''abstract_class_declaration'', \<lparr>nm_IsChunkable = True, nm_Kind = ''class'', nm_IsContainer = True, nm_SymbolKind = ''class'', nm_IsImport = False\<rparr>),
        (''interface_declaration'', \<lparr>nm_IsChunkable = True, nm_Kind = ''interface'', nm_IsContainer = True, nm_SymbolKind = ''interface'', nm_IsImport = False\<rparr>),
        (''type_alias_declaration'', \<lparr>nm_IsChunkable = True, nm_Kind = ''type'', nm_IsContainer = False, nm_SymbolKind = ''type'', nm_IsImport = False\<rparr>),
        (''enum_declaration'', \<lparr>nm_IsChunkable = True, nm_Kind = ''type'', nm_IsContainer = False, nm_SymbolKind = ''type'', nm_IsImport = False\<rparr>),
        (''internal_module'', \<lparr>nm_IsChunkable = True, nm_Kind = ''block'', nm_IsContainer = True, nm_SymbolKind = ''namespace'', nm_IsImport = False\<rparr>),
        (''export_statement'', \<lparr>nm_IsChunkable = True, nm_Kind = [], nm_IsContainer = True, nm_SymbolKind = [], nm_IsImport = False\<rparr>),
        (''ambient_declaration'', \<lparr>nm_IsChunkable = True, nm_Kind = [], nm_IsContainer = True, nm_SymbolKind = [], nm_IsImport = False\<rparr>),
        (''lexical_declaration'', \<lparr>nm_IsChunkable = True, nm_Kind = ''block'', nm_IsContainer = False, nm_SymbolKind = ''variable'', nm_IsImport = False\<rparr>),
        (''variable_declaration'', \<lparr>nm_IsChunkable = True, nm_Kind = ''block'', nm_IsContainer = False, nm_SymbolKind = ''variable'', nm_IsImport = False\<rparr>),
        (''method_definition'', \<lparr>nm_IsChunkable = True, nm_Kind = ''method'', nm_IsContainer = False, nm_SymbolKind = ''method'', nm_IsImport = False\<rparr>),
        (''public_field_definition'', \<lparr>nm_IsChunkable = True, nm_Kind = ''block'', nm_IsContainer = False, nm_SymbolKind = [], nm_IsImport = False\<rparr>),
        (''import_statement'', \<lparr>nm_IsChunkable = False, nm_Kind = [], nm_IsContainer = False, nm_SymbolKind = [], nm_IsImport = True\<rparr>)],
      lc_ExportType = ''export_statement'', lc_AmbientType = ''ambient_declaration''\<rparr>"

definition python_config :: language_config where
  "python_config =
     \<lparr>lc_Name = ''python'',
      lc_Nodes =
       [(''function_definition'', \<lparr>nm_IsChunkable = True, nm_Kind = ''function'', nm_IsContainer = False, nm_SymbolKind = ''function'', nm_IsImport = False\<rparr>),
        (''class_definition'', \<lparr>nm_IsChunkable = True, nm_Kind = ''class'', nm_IsContainer = True, nm_SymbolKind = ''class'', nm_IsImport = False\<rparr>),
        (''decorated_definition'', \<lparr>nm_IsChunkable = True, nm_Kind = [], nm_IsContainer = True, nm_SymbolKind = [], nm_IsImport = False\<rparr>),
        (''type_alias_statement'', \<lparr>nm_IsChunkable = True, nm_Kind = ''type'', nm_IsContainer = False, nm_SymbolKind = ''type'', nm_IsImport = False\<rparr>),
        (''import_statement'', \<lparr>nm_IsChunkable = True, nm_Kind = [], nm_IsContainer = False, nm_SymbolKind = [], nm_IsImport = True\<rparr>),
        (''import_from_statement'', \<lparr>nm_IsChunkable = True, nm_Kind = [], nm_IsContainer = False, nm_SymbolKind = [], nm_IsImport = True\<rparr>)],
      lc_ExportType = [], lc_AmbientType = []\<rparr>"

definition go_config :: language_config where
  "go_config =
     \<lparr>lc_Name = ''go'',
      lc_Nodes =
       [(''function_declaration'', \<lparr>nm_IsChunkable = True, nm_Kind = ''function'', nm_IsContainer = False, nm_SymbolKind = ''function'', nm_IsImport = False\<rparr>),
        (''method_declaration'', \<lparr>nm_IsChunkable = True, nm_Kind = ''method'', nm_IsContainer = False, nm_SymbolKind = ''method'', nm_IsImport = False\<rparr>),
        (''type_declaration'', \<lparr>nm_IsChunkable = True, nm_Kind = ''type'', nm_IsContainer = False, nm_SymbolKind = ''type'', nm_IsImport = False\<rparr>),
        (''import_declaration'', \<lparr>nm_IsChunkable = True, nm_Kind = [], nm_IsContainer = False, nm_SymbolKind = [], nm_IsImport = True\<rparr>),
        (''var_declaration'', \<lparr>nm_IsChunkable = True, nm_Kind = ''block'', nm_IsContainer = False, nm_SymbolKind = ''variable'', nm_IsImport = False\<rparr>),
        (''const_declaration'', \<lparr>nm_IsChunkable = True, nm_Kind = ''block'', nm_IsContainer = False, nm_SymbolKind = ''variable'', nm_IsImport = False\<rparr>)],
      lc_ExportType = [], lc_AmbientType = []\<rparr>"

definition rust_config :: language_config where
  "rust_config =
     \<lparr>lc_Name = ''rust'',
      lc_Nodes =
       [(''function_item'', \<lparr>nm_IsChunkable = True, nm_Kind = ''function'', nm_IsContainer = False, nm_SymbolKind = ''function'', nm_IsImport = False\<rparr>),
        (''function_signature_item'', \<lparr>nm_IsChunkable = True, nm_Kind = ''function'', nm_IsContainer = False, nm_SymbolKind = ''function'', nm_IsImport = False\<rparr>),
        (''struct_item'', \<lparr>nm_IsChunkable = True, nm_Kind = ''type'', nm_IsContainer = False, nm_SymbolKind = ''type'', nm_IsImport = False\<rparr>),
        (''enum_item'', \<lparr>nm_IsChunkable = True, nm_Kind = ''type'', nm_IsContainer = False, nm_SymbolKind = ''type'', nm_IsImport = False\<rparr>),
        (''union_item'', \<lparr>nm_IsChunkable = True, nm_Kind = ''type'', nm_IsContainer = False, nm_SymbolKind = ''type'', nm_IsImport = False\<rparr>),
        (''trait_item'', \<lparr>nm_IsChunkable = True, nm_Kind = ''interface'', nm_IsContainer = True, nm_SymbolKind = ''interface'', nm_IsImport = False\<rparr>),
        (''impl_item'', \<lparr>nm_IsChunkable = True, nm_Kind = ''block'', nm_IsContainer = True, nm_SymbolKind = ''type'', nm_IsImport = False\<rparr>),
        (''type_item'', \<lparr>nm_IsChunkable = True, nm_Kind = ''type'', nm_IsContainer = False, nm_SymbolKind = ''type'', nm_IsImport = False\<rparr>),
        (''mod_item'', \<lparr>nm_IsChunkable = True, nm_Kind = ''block'', nm_IsContainer = True, nm_SymbolKind = ''module'', nm_IsImport = False\<rparr>),
        (''foreign_mod_item'', \<lparr>nm_IsChunkable = True, nm_Kind = ''block'', nm_IsContainer = True, nm_SymbolKind = [], nm_IsImport = False\<rparr>),
        (''use_declaration'', \<lparr>nm_IsChunkable = True, nm_Kind = [], nm_IsContainer = False, nm_SymbolKind = [], nm_IsImport = True\<rparr>),
        (''const_item'', \<lparr>nm_IsChunkable = True, nm_Kind = ''block'', nm_IsContainer = False, nm_SymbolKind = ''variable'', nm_IsImport = False\<rparr>),
        (''static_item'', \<lparr>nm_IsChunkable = True, nm_Kind = ''block'', nm_IsContainer = False, nm_SymbolKind = ''variable'', nm_IsImport = False\<rparr>),
        (''macro_definition'', \<lparr>nm_IsChunkable = True, nm_Kind = ''function'', nm_IsContainer = False, nm_SymbolKind = ''function'', nm_IsImport = False\<rparr>)],
      lc_ExportType = [], lc_AmbientType = []\<rparr>"

definition java_config :: language_config where
  "java_config =
     \<lparr>lc_Name = ''java'',
      lc_Nodes =
       [(''class_declaration'', \<lparr>nm_IsChunkable = True, nm_Kind = ''class'', nm_IsContainer = True, nm_SymbolKind = ''class'', nm_IsImport = False\<rparr>),
        (''interface_declaration'', \<lparr>nm_IsChunkable = True, nm_Kind = ''interface'', nm_IsContainer = True, nm_SymbolKind = ''interface'', nm_IsImport = False\<rparr>),
        (''enum_declaration'', \<lparr>nm_IsChunkable = True, nm_Kind = ''type'', nm_IsContainer = False, nm_SymbolKind = ''type'', nm_IsImport = False\<rparr>),
        (''record_declaration'', \<lparr>nm_IsChunkable = True, nm_Kind = ''class'', nm_IsContainer = True, nm_SymbolKind = ''class'', nm_IsImport = False\<rparr>),
        (''annotation_type_declaration'', \<lparr>nm_IsChunkable = True, nm_Kind = ''type'', nm_IsContainer = False, nm_SymbolKind = ''type'', nm_IsImport = False\<rparr>),
        (''method_declaration'', \<lparr>nm_IsChunkable = True, nm_Kind = ''method'', nm_IsContainer = False, nm_SymbolKind = ''method'', nm_IsImport = False\<rparr>),
        (''constructor_declaration'', \<lparr>nm_IsChunkable = True, nm_Kind = ''method'', nm_IsContainer = False, nm_SymbolKind = ''method'', nm_IsImport = False\<rparr>),
        (''compact_constructor_declaration'', \<lparr>nm_IsChunkable = True, nm_Kind = ''method'', nm_IsContainer = False, nm_SymbolKind = ''method'', nm_IsImport = False\<rparr>),
        (''static_initializer'', \<lparr>nm_IsChunkable = True, nm_Kind = ''block'', nm_IsContainer = True, nm_SymbolKind = [], nm_IsImport = False\<rparr>),
        (''import_declaration'', \<lparr>nm_IsChunkable = True, nm_Kind = [], nm_IsContainer = False, nm_SymbolKind = [], nm_IsImport = True\<rparr>),
        (''package_declaration'', \<lparr>nm_IsChunkable = True, nm_Kind = [], nm_IsContainer = False, nm_SymbolKind = [], nm_IsImport = False\<rparr>),
        (''field_declaration'', \<lparr>nm_IsChunkable = True, nm_Kind = ''block'', nm_IsContainer = False, nm_SymbolKind = ''variable'', nm_IsImport = False\<rparr>)],
      lc_ExportType = [], lc_AmbientType = []\<rparr>"

definition bash_config :: language_config where
  "bash_config =
     \<lparr>lc_Name = ''bash'',
      lc_Nodes =
       [(''function_definition'', \<lparr>nm_IsChunkable = True, nm_Kind = ''function'', nm_IsContainer = False, nm_SymbolKind = ''function'', nm_IsImport = False\<rparr>)],
      lc_ExportType = [], lc_AmbientType = []\<rparr>"

definition javascript_config :: language_config where
  "javascript_config =
     \<lparr>lc_Name = ''javascript'',
      lc_Nodes =
       [(''function_declaration'', \<lparr>nm_IsChunkable = True, nm_Kind = ''function'', nm_IsContainer = False, nm_SymbolKind = ''function'', nm_IsImport = False\<rparr>),
        (''class_declaration'', \<lparr>nm_IsChunkable = True, nm_Kind = ''class'', nm_IsContainer = True, nm_SymbolKind = ''class'', nm_IsImport = False\<rparr>),
        (''generator_function_declaration'', \<lparr>nm_IsChunkable = True, nm_Kind = ''function'', nm_IsContainer = False, nm_SymbolKind = ''function'', nm_IsImport = False\<rparr>),
        (''export_statement'', \<lparr>nm_IsChunkable = True, nm_Kind = [], nm_IsContainer = True, nm_SymbolKind = [], nm_IsImport = False\<rparr>),
        (''lexical_declaration'', \<lparr>nm_IsChunkable = True, nm_Kind = ''block'', nm_IsContainer = False, nm_SymbolKind = ''variable'', nm_IsImport = False\<rparr>),
        (''variable_declaration'', \<lparr>nm_IsChunkable = True, nm_Kind = ''block'', nm_IsContainer = False, nm_SymbolKind = ''variable'', nm_IsImport = False\<rparr>),
        (''method_definition'', \<lparr>nm_IsChunkable = True, nm_Kind = ''method'', nm_IsContainer = False, nm_SymbolKind = ''method'', nm_IsImport = False\<rparr>),
        (''field_definition'', \<lparr>nm_IsChunkable = True, nm_Kind = ''block'', nm_IsContainer = False, nm_SymbolKind = [], nm_IsImport = False\<rparr>),
        (''import_statement'', \<lparr>nm_IsChunkable = False, nm_Kind = [], nm_IsContainer = False, nm_SymbolKind = [], nm_IsImport = True\<rparr>)],
      lc_ExportType = ''export_statement'', lc_AmbientType = []\<rparr>"

definition ruby_config :: language_config where
  "ruby_config =
     \<lparr>lc_Name = ''ruby'',
      lc_Nodes =
       [(''method'', \<lparr>nm_IsChunkable = True, nm_Kind = ''function'', nm_IsContainer = False, nm_SymbolKind = ''method'', nm_IsImport = False\<rparr>),
        (''singleton_method'', \<lparr>nm_IsChunkable = True, nm_Kind = ''function'', nm_IsContainer = False, nm_SymbolKind = ''method'', nm_IsImport = False\<rparr>),
        (''class'', \<lparr>nm_IsChunkable = True, nm_Kind = ''class'', nm_IsContainer = True, nm_SymbolKind = ''class'', nm_IsImport = False\<rparr>),
        (''module'', \<lparr>nm_IsChunkable = True, nm_Kind = ''class'', nm_IsContainer = True, nm_SymbolKind = ''class'', nm_IsImport = False\<rparr>),
        (''singleton_class'', \<lparr>nm_IsChunkable = True, nm_Kind = ''class'', nm_IsContainer = True, nm_SymbolKind = ''class'', nm_IsImport = False\<rparr>),
        (''lambda'', \<lparr>nm_IsChunkable = True, nm_Kind = ''function'', nm_IsContainer = False, nm_SymbolKind = [], nm_IsImport = False\<rparr>)],
      lc_ExportType = [], lc_AmbientType = []\<rparr>"

definition erb_config :: language_config where
  "erb_config =
     \<lparr>lc_Name = ''erb'',
      lc_Nodes =
       [(''directive'', \<lparr>nm_IsChunkable = True, nm_Kind = ''block'', nm_IsContainer = False, nm_SymbolKind = [], nm_IsImport = False\<rparr>),
        (''output_directive'', \<lparr>nm_IsChunkable = True, nm_Kind = ''block'', nm_IsContainer = False, nm_SymbolKind = [], nm_IsImport = False\<rparr>),
        (''template'', \<lparr>nm_IsChunkable = True, nm_Kind = ''block'', nm_IsContainer = False, nm_SymbolKind = [], nm_IsImport = False\<rparr>)],
      lc_ExportType = [], lc_AmbientType = []\<rparr>"

definition language_registry :: "(string \<times> language_config) list" where
  "language_registry =
     [(''typescript'', typescript_config),
      (''python'', python_config),
      (''go'', go_config),
      (''rust'', rust_config),
      (''java'', java_config),
      (''bash'', bash_config),
      (''javascript'', javascript_config),
      (''ruby'', ruby_config),
      (''erb'', erb_config)]"

definition get_language_config :: "string \<Rightarrow> language_config res" where
  "get_language_config lang =
     (case map_of language_registry lang of
        None \<Rightarrow> Inl (ErrMsg (''unsupported language: '' @ lang))
      | Some cfg \<Rightarrow> Inr cfg)"

definition supported_language :: "string \<Rightarrow> bool" where
  "supported_language lang \<longleftrightarrow> map_of language_registry lang \<noteq> None"

text \<open>Go's order on strings: byte by byte.\<close>

fun string_less :: "string \<Rightarrow> string \<Rightarrow> bool" where
  "string_less _ [] = False"
| "string_less [] (d # ds) = True"
| "string_less (c # cs) (d # ds) = (byte c < byte d \<or> (c = d \<and> string_less cs ds))"

text \<open>\<open>sort.Strings\<close> on the distinct keys has one outcome, which insertion sort computes.\<close>

definition supported_languages :: "string list" where
  "supported_languages = insertion_sort string_less (map fst language_registry)"

section \<open>What the configurations promise to the database\<close>

definition metas :: "node_meta list" where
  "metas = concat (map (\<lambda>(_, cfg). map snd (lc_Nodes cfg)) language_registry)"

lemma meta_of_metas:
  assumes "get_language_config lang = Inr cfg"
  shows "meta_of cfg k \<in> insert zero_meta (set metas)"
proof -
  from assms have "(lang, cfg) \<in> set language_registry"
    by (auto simp: get_language_config_def split: option.splits dest: map_of_SomeD)
  then have "set (map snd (lc_Nodes cfg)) \<subseteq> set metas" by (auto simp: metas_def)
  then show ?thesis by (force simp: meta_of_def split: option.split dest: map_of_SomeD)
qed

lemma metas_kinds: "list_all (\<lambda>m. nm_Kind m = [] \<or> chunk_kind_check (nm_Kind m)) metas"
  by code_simp

lemma metas_symbol_kinds:
  "list_all (\<lambda>m. nm_SymbolKind m = [] \<or> nm_SymbolKind m = ''module'' \<or> nm_SymbolKind m \<in> {''function'', ''class'', ''method'', ''type'',
     ''interface'', ''variable'', ''constant'', ''namespace''}) metas"
  by code_simp

lemma meta_kind_ok:
  "get_language_config lang = Inr cfg \<Longrightarrow> nm_Kind (meta_of cfg k) \<noteq> [] \<Longrightarrow> chunk_kind_check (nm_Kind (meta_of cfg k))"
  using meta_of_metas [of lang cfg k] metas_kinds by (auto simp: list_all_iff zero_meta_def)

lemma meta_symbol_kind_ok:
  "get_language_config lang = Inr cfg \<Longrightarrow> nm_SymbolKind (meta_of cfg k) \<noteq> [] \<Longrightarrow>
   nm_SymbolKind (meta_of cfg k) \<in> {''module'', ''function'', ''class'', ''method'', ''type'', ''interface'', ''variable'', ''constant'', ''namespace''}"
  using meta_of_metas [of lang cfg k] metas_symbol_kinds by (auto simp: list_all_iff zero_meta_def)

end
