(* ===== verification/Chunker.thy ===== *)
theory Chunker
  imports Languages
begin

text \<open>
  \<open>internal/parser/chunker.go\<close>: from the syntax tree of a file to its chunks. The token counter of
  \<open>token.go\<close> is the argument \<open>tc\<close> (tiktoken's encoder is not part of the repository). The walks
  recurse over the tree as the code does, so they are total; the two depth guards are the code's.
\<close>

definition max_chunk_tokens :: int where "max_chunk_tokens = 1024"
definition min_chunk_tokens :: int where "min_chunk_tokens = 20"
definition max_chunk_depth :: int where "max_chunk_depth = 10"
definition max_ast_depth :: int where "max_ast_depth = 200"

definition newline :: char where "newline = CHR 0x0A"

section \<open>Tree helpers\<close>

definition name_kinds :: "string list" where
  "name_kinds = [''identifier'', ''type_identifier'', ''property_identifier'', ''package_identifier'',
     ''field_identifier'', ''word'', ''constant'']"

definition field_name :: "string \<Rightarrow> node \<Rightarrow> string option" where
  "field_name source n =
     map_option (\<lambda>c. utf8_text c source)
       (find (\<lambda>c. nd_Kind c \<in> set name_kinds) (List.map_filter (\<lambda>f. child_by_field f n) [''name'', ''property'', ''function'']))"

text \<open>
  The second loop of \<open>extractName\<close> returns at the first child that is an identifier or yields a
  non-empty name.
\<close>

function extract_name :: "string \<Rightarrow> node \<Rightarrow> string" where
  "extract_name source n =
     (case field_name source n of
        Some t \<Rightarrow> t
      | None \<Rightarrow>
          (case find (\<lambda>c. if nd_Kind c = ''variable_declarator'' then extract_name source c \<noteq> [] else False) (named_children n) of
             Some vd \<Rightarrow> extract_name source vd
           | None \<Rightarrow>
               (case find (\<lambda>c. if nd_Kind c \<in> {''identifier'', ''field_identifier'', ''constant''} then True
                                else if nd_Kind c \<notin> {''comment'', ''decorator'', ''type_identifier''} then extract_name source c \<noteq> []
                                else False) (named_children n) of
                  Some c \<Rightarrow>
                    if nd_Kind c \<in> {''identifier'', ''field_identifier'', ''constant''} then utf8_text c source
                    else extract_name source c
                | None \<Rightarrow>
                    (case find_child_by_type n ''type_identifier'' of
                       Some t \<Rightarrow> utf8_text t source
                     | None \<Rightarrow> []))))"
  by pat_completeness auto
termination
  by (relation "measure (\<lambda>(source, n). size n)")
     (auto simp: child_size dest!: find_Some_set)

declare extract_name.simps [simp del]

definition extract_signature :: "string \<Rightarrow> node \<Rightarrow> string" where
  "extract_signature source n =
     (case child_by_field ''parameters'' n of
        None \<Rightarrow> []
      | Some params \<Rightarrow>
          (case child_by_field ''return_type'' n of
             None \<Rightarrow> utf8_text params source
           | Some retType \<Rightarrow> utf8_text params source @ '': '' @ utf8_text retType source))"

definition extract_go_type_name :: "string \<Rightarrow> node \<Rightarrow> string" where
  "extract_go_type_name source n =
     (case find_child_by_type n ''type_spec'' of
        Some spec \<Rightarrow> extract_name source spec
      | None \<Rightarrow> extract_name source n)"

definition find_declaration_child :: "language_config \<Rightarrow> node \<Rightarrow> node option" where
  "find_declaration_child cfg n =
     (case child_by_field ''declaration'' n of
        Some decl \<Rightarrow> Some decl
      | None \<Rightarrow> find_named_child n (\<lambda>child.
          if \<not> nm_IsChunkable (meta_of cfg (nd_Kind child)) then False
          else if nd_Kind child = lc_ExportType cfg \<or> nd_Kind child = lc_AmbientType cfg then False
          else nm_Kind (meta_of cfg (nd_Kind child)) \<noteq> []))"

definition unwrap_kind :: "language_config \<Rightarrow> string \<Rightarrow> node \<Rightarrow> node" where
  "unwrap_kind cfg wrapper n =
     (if wrapper \<noteq> [] \<and> nd_Kind n = wrapper
      then (case find_declaration_child cfg n of Some inner \<Rightarrow> inner | None \<Rightarrow> n) else n)"

definition unwrap :: "language_config \<Rightarrow> node \<Rightarrow> node" where
  "unwrap cfg n = unwrap_kind cfg (lc_AmbientType cfg) (unwrap_kind cfg (lc_ExportType cfg) n)"

lemma size_find_declaration_child [child_size]: "find_declaration_child cfg n = Some c \<Longrightarrow> size c < size n"
  by (auto simp: find_declaration_child_def child_size split: option.splits)

lemma size_unwrap_kind [child_size]: "size (unwrap_kind cfg w n) \<le> size n"
  by (auto simp: unwrap_kind_def split: option.split dest: size_find_declaration_child)

lemma size_unwrap [child_size]: "size (unwrap cfg n) \<le> size n"
  unfolding unwrap_def by (meson order_trans size_unwrap_kind)

section \<open>Splitting and merging\<close>

definition part_of :: "(string \<Rightarrow> int) \<Rightarrow> chunk_record \<Rightarrow> int \<Rightarrow> string \<Rightarrow> int \<Rightarrow> int \<Rightarrow> chunk_record" where
  "part_of tc c index content first end_at =
     zero_chunk\<lparr>cr_ChunkIndex := index, cr_SymbolName := cr_SymbolName c, cr_Kind := cr_Kind c, cr_StartLine := first,
       cr_EndLine := end_at, cr_Content := content, cr_TokenCount := tc content, cr_Signature := cr_Signature c,
       cr_ParentIndex := cr_ParentIndex c\<rparr>"

text \<open>
  The loop over the lines of one oversized chunk: \<open>i\<close> is the index of the next line, \<open>current\<close> the
  text collected since line \<open>first\<close>, \<open>tokens\<close> its tokens so far, \<open>index\<close> the length of the result.
\<close>

fun split_lines :: "(string \<Rightarrow> int) \<Rightarrow> chunk_record \<Rightarrow> int \<Rightarrow> int \<Rightarrow> string list \<Rightarrow> string \<Rightarrow> int \<Rightarrow> int \<Rightarrow> chunk_record list" where
  "split_lines tc c index i [] current first tokens =
     (if current \<noteq> [] then [part_of tc c index current first (cr_EndLine c)] else [])"
| "split_lines tc c index i (line # rest) current first tokens =
     (let lineTokens = tc line + (if rest \<noteq> [] then 1 else 0);
          piece = line @ (if rest \<noteq> [] then [newline] else [])
      in if tokens + lineTokens \<ge> max_chunk_tokens \<and> current \<noteq> []
         then part_of tc c index current first (cr_StartLine c + i - 1)
                # split_lines tc c (index + 1) (i + 1) rest piece (cr_StartLine c + i) lineTokens
         else split_lines tc c index (i + 1) rest (current @ piece) first (tokens + lineTokens))"

definition split_large_chunks :: "(string \<Rightarrow> int) \<Rightarrow> chunk_record list \<Rightarrow> chunk_record list" where
  "split_large_chunks tc chunks =
     fold (\<lambda>c result.
         if cr_TokenCount c \<le> max_chunk_tokens then result @ [c]
         else result @ split_lines tc c (int (length result)) 0 (split_on newline (cr_Content c)) [] (cr_StartLine c) 0)
       chunks []"

definition absorb :: "(string \<Rightarrow> int) \<Rightarrow> chunk_record \<Rightarrow> chunk_record \<Rightarrow> chunk_record" where
  "absorb tc prev c =
     (let content = cr_Content prev @ [newline, newline] @ cr_Content c
      in prev\<lparr>cr_Content := content, cr_TokenCount := tc content, cr_EndLine := cr_EndLine c\<rparr>)"

definition merge_step :: "(string \<Rightarrow> int) \<Rightarrow> chunk_record \<Rightarrow> chunk_record list \<Rightarrow> chunk_record list" where
  "merge_step tc c merged =
     (if cr_TokenCount c < min_chunk_tokens \<and> merged \<noteq> [] \<and> cr_Kind c \<noteq> ''header''
      then butlast merged @ [absorb tc (last merged) c]
      else merged @ [c])"

definition merge_small_chunks :: "(string \<Rightarrow> int) \<Rightarrow> chunk_record list \<Rightarrow> chunk_record list" where
  "merge_small_chunks tc chunks =
     (if length chunks \<le> 1 then chunks else fold (merge_step tc) chunks [])"

definition split_node_by_lines :: "(string \<Rightarrow> int) \<Rightarrow> string \<Rightarrow> node \<Rightarrow> string \<Rightarrow> string \<Rightarrow> chunk_record list" where
  "split_node_by_lines tc source n name kind =
     (let content = utf8_text n source
      in split_large_chunks tc
           [zero_chunk\<lparr>cr_SymbolName := name, cr_Kind := kind, cr_StartLine := start_line n, cr_EndLine := end_line n,
              cr_Content := content, cr_TokenCount := tc content\<rparr>])"

section \<open>Signatures of containers\<close>

definition blanks :: "char set" where "blanks = {CHR '' '', CHR 0x09, newline, CHR 0x0D}"

text \<open>\<open>strings.TrimSpace\<close> on bytes: the ASCII white space and, in UTF-8, U+0085 and U+00A0, U+1680,
  U+2000 to U+200A, U+2028, U+2029, U+202F, U+205F and U+3000.\<close>

definition unicode_spaces :: "nat list list" where
  "unicode_spaces =
     [[0xC2, 0x85], [0xC2, 0xA0], [0xE1, 0x9A, 0x80], [0xE2, 0x80, 0xA8], [0xE2, 0x80, 0xA9], [0xE2, 0x80, 0xAF],
      [0xE2, 0x81, 0x9F], [0xE3, 0x80, 0x80]] @ map (\<lambda>b. [0xE2, 0x80, b]) [0x80..<0x8B]"

definition leading_space :: "string \<Rightarrow> nat" where
  "leading_space s =
     (case s of
        [] \<Rightarrow> 0
      | c # _ \<Rightarrow>
          if byte c \<in> {9, 10, 11, 12, 13, 32} then 1
          else (case find (\<lambda>u. prefix u (map of_char s)) unicode_spaces of Some u \<Rightarrow> length u | None \<Rightarrow> 0))"

definition trailing_space :: "string \<Rightarrow> nat" where
  "trailing_space s =
     (case rev s of
        [] \<Rightarrow> 0
      | c # _ \<Rightarrow>
          if byte c \<in> {9, 10, 11, 12, 13, 32} then 1
          else (case find (\<lambda>u. suffix u (map of_char s)) unicode_spaces of Some u \<Rightarrow> length u | None \<Rightarrow> 0))"

function trim_space_left :: "string \<Rightarrow> string" where
  "trim_space_left s = (if leading_space s = 0 then s else trim_space_left (drop (leading_space s) s))"
  by pat_completeness auto
termination
  by (relation "measure length") (auto simp: leading_space_def split: list.splits)

function trim_space_right :: "string \<Rightarrow> string" where
  "trim_space_right s = (if trailing_space s = 0 then s else trim_space_right (take (length s - trailing_space s) s))"
  by pat_completeness auto
termination
  by (relation "measure length") (auto simp: trailing_space_def split: list.splits)

declare trim_space_left.simps [simp del] trim_space_right.simps [simp del]

definition trim_space :: "string \<Rightarrow> string" where
  "trim_space s = trim_space_right (trim_space_left s)"

text \<open>The loop of \<open>stripHeaderComments\<close> over the named children, with what has been written and the cursor.\<close>

fun strip_comments :: "string \<Rightarrow> nat \<Rightarrow> node list \<Rightarrow> string \<Rightarrow> nat \<Rightarrow> string" where
  "strip_comments source headerEnd [] buf pos =
     (if pos < headerEnd then buf @ slice source pos headerEnd else buf)"
| "strip_comments source headerEnd (child # rest) buf pos =
     (if nd_StartByte child \<ge> headerEnd
      then (if pos < headerEnd then buf @ slice source pos headerEnd else buf)
      else if nd_Kind child \<noteq> ''comment'' then strip_comments source headerEnd rest buf pos
      else strip_comments source headerEnd rest
             (buf @ (if nd_StartByte child > pos then slice source pos (nd_StartByte child) else []) @ '' '') (nd_EndByte child))"

definition strip_header_comments :: "string \<Rightarrow> node \<Rightarrow> nat \<Rightarrow> string" where
  "strip_header_comments source n headerEnd = strip_comments source headerEnd (named_children n) [] (nd_StartByte n)"

definition body_node :: "node \<Rightarrow> node option" where
  "body_node n =
     (case child_by_field ''body'' n of
        Some b \<Rightarrow> Some b
      | None \<Rightarrow> (if named_children n = [] then None else Some (last (named_children n))))"

definition member_line :: "chunk_record \<Rightarrow> string" where
  "member_line child =
     ''  '' @ (if cr_SymbolName child \<noteq> [] then cr_SymbolName child else cr_Kind child) @ cr_Signature child @ '' { ... }'' @ [newline]"

definition closing_line :: "string \<Rightarrow> node \<Rightarrow> node \<Rightarrow> string" where
  "closing_line source n body =
     (let after = trim_space (slice source (nd_EndByte body) (nd_EndByte n)) in
      if after \<noteq> [] then after @ [newline]
      else
        let trimmed = trim_right blanks (utf8_text n source) in
        if suffix ''end'' trimmed then ''end'' @ [newline]
        else if suffix ''}'' trimmed then ''}'' @ [newline]
        else [])"

definition build_signature :: "string \<Rightarrow> node \<Rightarrow> chunk_record list \<Rightarrow> string" where
  "build_signature source n children =
     (let body = body_node n;
          header = trim_right blanks (strip_header_comments source n (case body of Some b \<Rightarrow> nd_StartByte b | None \<Rightarrow> nd_EndByte n))
      in (if header \<noteq> [] then header @ [newline] else [])
         @ concat (map member_line (filter (\<lambda>c. cr_ParentIndex c = None) children))
         @ (case body of Some b \<Rightarrow> closing_line source n b | None \<Rightarrow> []))"

section \<open>The walk\<close>

text \<open>The kind of a chunk and the node its name comes from: for a wrapper, those of the declaration inside.\<close>

definition resolve_kind :: "language_config \<Rightarrow> node \<Rightarrow> string \<times> node" where
  "resolve_kind cfg n =
     (let kind = nm_Kind (meta_of cfg (nd_Kind n)) in
      if kind \<noteq> [] then (kind, n)
      else (case find_declaration_child cfg n of
              None \<Rightarrow> (''block'', n)
            | Some inner \<Rightarrow>
                (let innerKind = nm_Kind (meta_of cfg (nd_Kind inner))
                 in (if innerKind \<noteq> [] then innerKind else ''block'', inner))))"

definition node_name :: "language_config \<Rightarrow> string \<Rightarrow> node \<Rightarrow> string" where
  "node_name cfg source n =
     (if nd_Kind n = ''type_declaration'' then extract_go_type_name source n
      else extract_name source (snd (resolve_kind cfg n)))"

definition whole_chunk :: "(string \<Rightarrow> int) \<Rightarrow> language_config \<Rightarrow> string \<Rightarrow> node \<Rightarrow> string \<Rightarrow> chunk_record" where
  "whole_chunk tc cfg source n content =
     zero_chunk\<lparr>cr_SymbolName := node_name cfg source n, cr_Kind := fst (resolve_kind cfg n), cr_StartLine := start_line n,
       cr_EndLine := end_line n, cr_Content := content, cr_TokenCount := tc content,
       cr_Signature := extract_signature source (snd (resolve_kind cfg n))\<rparr>"

definition set_parent_index :: "chunk_record \<Rightarrow> chunk_record" where
  "set_parent_index c = (if cr_ParentIndex c = None then c\<lparr>cr_ParentIndex := Some 0\<rparr> else c)"

function chunk_node :: "(string \<Rightarrow> int) \<Rightarrow> language_config \<Rightarrow> string \<Rightarrow> int \<Rightarrow> node \<Rightarrow> chunk_record list"
  and find_chunkable_children :: "(string \<Rightarrow> int) \<Rightarrow> language_config \<Rightarrow> string \<Rightarrow> int \<Rightarrow> int \<Rightarrow> node \<Rightarrow> chunk_record list"
  and find_chunkable :: "(string \<Rightarrow> int) \<Rightarrow> language_config \<Rightarrow> string \<Rightarrow> int \<Rightarrow> int \<Rightarrow> node list \<Rightarrow> chunk_record list"
where
  "chunk_node tc cfg source depth n =
     (let content = utf8_text n source in
      if tc content \<le> max_chunk_tokens then [whole_chunk tc cfg source n content]
      else if depth > max_chunk_depth
      then split_node_by_lines tc source n (node_name cfg source n) (fst (resolve_kind cfg n))
      else
        let extracted = find_chunkable_children tc cfg source depth 0 n in
        if extracted \<noteq> []
        then whole_chunk tc cfg source n (build_signature source n extracted) # map set_parent_index extracted
        else split_node_by_lines tc source n (node_name cfg source n) (fst (resolve_kind cfg n)))"
| "find_chunkable_children tc cfg source chunkDepth astDepth n =
     (if astDepth > max_ast_depth then []
      else find_chunkable tc cfg source chunkDepth astDepth (named_children n))"
| "find_chunkable tc cfg source chunkDepth astDepth [] = []"
| "find_chunkable tc cfg source chunkDepth astDepth (child # rest) =
     (if nd_Kind child = ''comment'' then []
      else if nm_IsChunkable (meta_of cfg (nd_Kind (unwrap cfg child)))
      then chunk_node tc cfg source (chunkDepth + 1) (unwrap cfg child)
      else find_chunkable_children tc cfg source chunkDepth (astDepth + 1) (unwrap cfg child))
     @ find_chunkable tc cfg source chunkDepth astDepth rest"
  by pat_completeness auto
termination
proof (relation "measure (\<lambda>x. case x of Inl (tc, cfg, source, depth, n) \<Rightarrow> 3 * size n + 2
     | Inr (Inl (tc, cfg, source, cd, ad, n)) \<Rightarrow> 3 * size n + 1
     | Inr (Inr (tc, cfg, source, cd, ad, ns)) \<Rightarrow> 3 * size_list size ns)", goal_cases)
  case (3 tc cfg source cd ad n)
  then show ?case using size_list_named_children [of n] by simp
next
  case (4 tc cfg source cd ad child rest)
  then show ?case using size_unwrap [of cfg child] by simp
next
  case (5 tc cfg source cd ad child rest)
  then show ?case using size_unwrap [of cfg child] by simp
qed simp_all

declare chunk_node.simps [simp del] find_chunkable_children.simps [simp del]

section \<open>A file\<close>

record header_fragment =
  hf_content :: string
  hf_startLine :: int
  hf_endLine :: int

definition fragment_of :: "string \<Rightarrow> node \<Rightarrow> header_fragment" where
  "fragment_of source n = \<lparr>hf_content = utf8_text n source, hf_startLine = start_line n, hf_endLine = end_line n\<rparr>"

definition build_header_chunk :: "(string \<Rightarrow> int) \<Rightarrow> header_fragment list \<Rightarrow> chunk_record" where
  "build_header_chunk tc parts =
     (let content = join_with [newline] (map hf_content parts)
      in zero_chunk\<lparr>cr_Kind := ''header'', cr_StartLine := hf_startLine (hd parts), cr_EndLine := hf_endLine (last parts),
           cr_Content := content, cr_TokenCount := tc content\<rparr>)"

text \<open>One top-level child: a comment is skipped, imports, package clauses and whatever is not
  chunkable go to the header, anything else is chunked.\<close>

definition in_header :: "language_config \<Rightarrow> node \<Rightarrow> bool" where
  "in_header cfg child \<longleftrightarrow>
     nm_IsImport (meta_of cfg (nd_Kind child)) \<or> nd_Kind child \<in> {''package_clause'', ''package_declaration''}
     \<or> \<not> nm_IsChunkable (meta_of cfg (nd_Kind child))"

definition file_step ::
  "(string \<Rightarrow> int) \<Rightarrow> language_config \<Rightarrow> string \<Rightarrow> node \<Rightarrow> header_fragment list \<times> chunk_record list \<Rightarrow> header_fragment list \<times> chunk_record list" where
  "file_step tc cfg source child st =
     (case st of (headerParts, chunks) \<Rightarrow>
        if nd_Kind child = ''comment'' then (headerParts, chunks)
        else if in_header cfg child then (headerParts @ [fragment_of source child], chunks)
        else (headerParts, chunks @ chunk_node tc cfg source 0 (unwrap cfg child)))"

definition reindex :: "int \<Rightarrow> chunk_record list \<Rightarrow> chunk_record list" where
  "reindex base chunks = map (\<lambda>(i, c). c\<lparr>cr_ChunkIndex := i\<rparr>) (zip (map (\<lambda>i. base + int i) [0..<length chunks]) chunks)"

definition assemble_chunks :: "(string \<Rightarrow> int) \<Rightarrow> header_fragment list \<Rightarrow> chunk_record list \<Rightarrow> chunk_record list" where
  "assemble_chunks tc headerParts chunks =
     (if headerParts \<noteq> [] then (build_header_chunk tc headerParts)\<lparr>cr_ChunkIndex := 0\<rparr> # reindex 1 chunks else chunks)"

definition chunk_file :: "(string \<Rightarrow> int) \<Rightarrow> language_config \<Rightarrow> string \<Rightarrow> node \<Rightarrow> chunk_record list" where
  "chunk_file tc cfg source tree =
     (let (headerParts, chunks) = fold (file_step tc cfg source) (named_children tree) ([], []);
          chunks1 = split_large_chunks tc (merge_small_chunks tc (assemble_chunks tc headerParts chunks))
      in map (\<lambda>c. c\<lparr>cr_ParseQuality := ''full''\<rparr>) (reindex 0 chunks1))"

end
