(* ===== verification/Chunk_Facts.thy ===== *)
theory Chunk_Facts
  imports Chunker
begin

text \<open>
  What the chunker guarantees: splitting loses nothing and keeps its bound, every line of a node at which the walk
  stops is in one chunk after merging and splitting (text of a decomposed container between its members need
  not be), and the chunks of a file are rows the database accepts.
\<close>

section \<open>Splitting into lines\<close>

definition with_newlines :: "string list \<Rightarrow> string list" where
  "with_newlines ls = (if ls = [] then [] else map (\<lambda>l. l @ [newline]) (butlast ls) @ [last ls])"

text \<open>The lines of a text, each with its newline; no piece is empty.\<close>

definition pieces :: "string \<Rightarrow> string list" where
  "pieces s = filter (\<lambda>p. p \<noteq> []) (with_newlines (split_on newline s))"

lemma with_newlines_simps [simp]:
  "with_newlines [] = []"
  "with_newlines (l # ls) = (l @ (if ls \<noteq> [] then [newline] else [])) # with_newlines ls"
  by (simp_all add: with_newlines_def)

lemma concat_with_newlines: "concat (with_newlines ls) = join_with [newline] ls"
  by (induction ls rule: induct_list012) simp_all

lemma concat_filter_ne: "concat (filter (\<lambda>p. p \<noteq> []) ps) = concat ps"
  by (induction ps) auto

lemma concat_pieces [simp]: "concat (pieces s) = s"
  by (simp add: pieces_def concat_filter_ne concat_with_newlines join_split_on)

lemma with_newlines_lines: "p \<in> set (with_newlines ls) \<Longrightarrow> \<forall>l \<in> set ls. newline \<notin> set l \<Longrightarrow> newline \<notin> set (butlast p)"
  by (induction ls) (auto dest: in_set_butlastD split: if_splits)

lemma pieces_lines: "p \<in> set (pieces s) \<Longrightarrow> newline \<notin> set (butlast p)"
  by (rule with_newlines_lines [of p "split_on newline s"]) (auto simp: pieces_def dest: split_on_no_sep)

text \<open>A text without a newline before its end, where it occurs at all, occurs within one line.\<close>

lemma within_line:
  assumes "\<forall>l \<in> set ls. newline \<notin> set l" and "concat (with_newlines ls) = u @ p @ v" and "p \<noteq> []" and "newline \<notin> set (butlast p)"
  shows "\<exists>q \<in> set (with_newlines ls). sublist p q"
  using assms(1,2)
proof (induction ls arbitrary: u)
  case Nil
  with assms(3) show ?case by simp
next
  case (Cons l ls)
  show ?case
  proof (cases "ls = []")
    case True
    with Cons.prems(2) show ?thesis by (auto simp: sublist_def)
  next
    case False
    have lines: "\<forall>l \<in> set ls. newline \<notin> set l" using Cons.prems(1) by simp
    have later: ?thesis if "concat (with_newlines ls) = u' @ p @ v" for u'
      using Cons.IH [OF lines that] by auto
    from Cons.prems(2) False have "(l @ [newline]) @ concat (with_newlines ls) = u @ p @ v" by simp
    from iffD1 [OF append_eq_append_conv2 this] obtain us where "l @ [newline] = u @ us \<and> us @ concat (with_newlines ls) = p @ v
        \<or> (l @ [newline]) @ us = u \<and> concat (with_newlines ls) = us @ p @ v" by blast
    then show ?thesis
    proof (elim disjE conjE)
      assume us: "l @ [newline] = u @ us" and eq: "us @ concat (with_newlines ls) = p @ v"
      from iffD1 [OF append_eq_append_conv2 eq] obtain w where "us = p @ w \<or> us @ w = p \<and> concat (with_newlines ls) = w @ v" by blast
      then show ?thesis
      proof (elim disjE conjE)
        assume "us = p @ w"
        with us have "l @ [newline] = u @ p @ w" by simp
        then have "sublist p (l @ [newline])" unfolding sublist_def by blast
        with False show ?thesis by simp
      next
        assume p: "us @ w = p" and rest: "concat (with_newlines ls) = w @ v"
        show ?thesis
        proof (cases "us = [] \<or> w = []")
          case True
          then show ?thesis
          proof
            assume "us = []"
            with p rest show ?thesis by (intro later [of "[]"]) simp
          next
            assume "w = []"
            with p us have "l @ [newline] = u @ p @ []" by simp
            then have "sublist p (l @ [newline])" unfolding sublist_def by blast
            with False show ?thesis by simp
          qed
        next
          case False
          with us have "last us = newline" by (metis last_appendR last_snoc)
          with False have "newline \<in> set us" by (metis last_in_set)
          with False p have "newline \<in> set (butlast p)" by (auto simp: butlast_append)
          with assms(4) show ?thesis by simp
        qed
      qed
    qed (rule later)
  qed
qed

lemma piece_part: "p \<in> set (pieces a) \<Longrightarrow> sublist p a"
  by (metis concat.simps(2) concat_append concat_pieces split_list sublist_appendI)

lemma piece_within:
  assumes "p \<in> set (pieces a)" and "sublist p b"
  shows "\<exists>q \<in> set (pieces b). sublist p q"
proof -
  from assms(2) obtain u v where uv: "b = u @ p @ v" by (auto simp: sublist_def)
  have p: "p \<noteq> []" using assms(1) by (simp add: pieces_def)
  have "concat (with_newlines (split_on newline b)) = u @ p @ v" by (simp add: concat_with_newlines join_split_on uv)
  from within_line [OF _ this p pieces_lines [OF assms(1)]] obtain q
    where "q \<in> set (with_newlines (split_on newline b))" "sublist p q" by (auto dest: split_on_no_sep)
  with p show ?thesis by (intro bexI [of _ q]) (auto simp: pieces_def)
qed

definition piece_cost :: "(string \<Rightarrow> int) \<Rightarrow> string \<Rightarrow> int" where
  "piece_cost tc p = (if p \<noteq> [] \<and> last p = newline then tc (butlast p) + 1 else tc p)"

definition cost :: "(string \<Rightarrow> int) \<Rightarrow> string list \<Rightarrow> int" where
  "cost tc ps = (\<Sum>p\<leftarrow>ps. piece_cost tc p)"

text \<open>
  The parts of an oversized chunk \<open>c\<close>, one for each group of lines: a group of more than one line stays
  below the limit, the line numbers run on without gaps, everything else is the chunk's.
\<close>

fun parts_ok :: "(string \<Rightarrow> int) \<Rightarrow> chunk_record \<Rightarrow> int \<Rightarrow> string list list \<Rightarrow> chunk_record list \<Rightarrow> bool" where
  "parts_ok tc c first [] [] = True"
| "parts_ok tc c first (g # gs) (p # ps) =
     (g \<noteq> [] \<and> (length g = 1 \<or> cost tc g < max_chunk_tokens)
      \<and> cr_StartLine p = first
      \<and> (cr_EndLine p = first + int (length g) - 1 \<or> gs = [] \<and> cr_EndLine p = cr_EndLine c)
      \<and> cr_Content p = concat g \<and> cr_TokenCount p = tc (concat g)
      \<and> cr_SymbolName p = cr_SymbolName c \<and> cr_Kind p = cr_Kind c \<and> cr_Signature p = cr_Signature c
      \<and> cr_ParentIndex p = cr_ParentIndex c
      \<and> parts_ok tc c (first + int (length g)) gs ps)"
| "parts_ok tc c first _ _ = False"

lemma piece_cost_line:
  assumes "newline \<notin> set line"
  shows "piece_cost tc (line @ (if b then [newline] else [])) = tc line + (if b then 1 else 0)"
proof -
  have "line \<noteq> [] \<Longrightarrow> last line \<noteq> newline" using assms last_in_set by metis
  then show ?thesis by (auto simp: piece_cost_def)
qed

lemma parts_ok_Cons:
  assumes "g \<noteq> []" and "length g = 1 \<or> cost tc g < max_chunk_tokens" and "concat g = current"
    and "end_at = first + int (length g) - 1 \<or> gs = [] \<and> end_at = cr_EndLine c"
    and "parts_ok tc c (first + int (length g)) gs ps"
  shows "parts_ok tc c first (g # gs) (part_of tc c index current first end_at # ps)"
  using assms by (simp add: part_of_def zero_chunk_def)

lemma parts_ok_last:
  assumes "g \<noteq> []" and "length g \<le> 1 \<or> cost tc g < max_chunk_tokens" and "concat g = current"
  shows "parts_ok tc c first [g] [part_of tc c index current first (cr_EndLine c)]"
  by (rule parts_ok_Cons) (use assms in \<open>auto simp: le_Suc_eq\<close>)

lemma split_lines_parts:
  assumes "\<forall>l \<in> set ls. newline \<notin> set l" and "current = concat g" and "[] \<notin> set g"
    and "cost tc g = tokens" and "length g \<le> 1 \<or> cost tc g < max_chunk_tokens"
    and "cr_StartLine c + i = first + int (length g)"
  shows "\<exists>groups. concat groups = g @ filter (\<lambda>p. p \<noteq> []) (with_newlines ls)
    \<and> parts_ok tc c first groups (split_lines tc c index i ls current first tokens)"
  using assms
proof (induction ls arbitrary: index i current first tokens g)
  case Nil
  show ?case
  proof (cases "g = []")
    case True
    with Nil show ?thesis by (intro exI [of _ "[]"]) simp
  next
    case False
    with Nil have "current \<noteq> []" by (cases g) auto
    with Nil False show ?thesis
      by (intro exI [of _ "[g]"]) (simp add: parts_ok_last del: parts_ok.simps(2))
  qed
next
  case (Cons line rest)
  define piece where "piece = line @ (if rest \<noteq> [] then [newline] else [])"
  define lt where "lt = tc line + (if rest \<noteq> [] then 1 else 0)"
  have pc: "piece_cost tc piece = lt"
    using Cons.prems(1) piece_cost_line unfolding piece_def lt_def by (metis list.set_intros(1))
  have lines: "\<forall>l \<in> set rest. newline \<notin> set l" using Cons.prems(1) by simp
  have empty: "rest = []" if "piece = []" using that by (auto simp: piece_def split: if_splits)
  have ne: "g \<noteq> [] \<longleftrightarrow> current \<noteq> []" using Cons.prems(2,3) by (cases g) auto
  show ?case
  proof (cases "tokens + lt \<ge> max_chunk_tokens \<and> current \<noteq> []")
    case True
    have eq: "split_lines tc c index i (line # rest) current first tokens
        = part_of tc c index current first (cr_StartLine c + i - 1)
          # split_lines tc c (index + 1) (i + 1) rest piece (cr_StartLine c + i) lt"
      using True by (simp add: lt_def piece_def)
    define g' where "g' = (if piece = [] then [] else [piece])"
    have g: "g \<noteq> []" using True ne by blast
    obtain groups where rec: "concat groups = g' @ filter (\<lambda>p. p \<noteq> []) (with_newlines rest)"
      "parts_ok tc c (cr_StartLine c + i) groups (split_lines tc c (index + 1) (i + 1) rest piece (cr_StartLine c + i) lt)"
    proof (cases "piece = []")
      case no: True
      then have "rest = []" by (rule empty)
      with no show thesis by (intro that [of "[]"]) (simp_all add: g'_def)
    next
      case False
      then show thesis
        using Cons.IH [OF lines, of piece "[piece]" lt "i + 1" "cr_StartLine c + i" "index + 1"] that pc
        by (auto simp: cost_def g'_def)
    qed
    have "concat (g # groups) = g @ filter (\<lambda>p. p \<noteq> []) (with_newlines (line # rest))"
      using rec(1) by (auto simp: g'_def piece_def)
    moreover have "parts_ok tc c first (g # groups) (split_lines tc c index i (line # rest) current first tokens)"
      unfolding eq
    proof (rule parts_ok_Cons)
      show "length g = 1 \<or> cost tc g < max_chunk_tokens" using g Cons.prems(5) by (cases g) auto
      show "concat g = current" using Cons.prems(2) by simp
      show "cr_StartLine c + i - 1 = first + int (length g) - 1 \<or> groups = [] \<and> cr_StartLine c + i - 1 = cr_EndLine c"
        using Cons.prems(6) by simp
      show "parts_ok tc c (first + int (length g)) groups (split_lines tc c (index + 1) (i + 1) rest piece (cr_StartLine c + i) lt)"
        using rec(2) Cons.prems(6) by simp
    qed (rule g)
    ultimately show ?thesis by blast
  next
    case False
    have eq: "split_lines tc c index i (line # rest) current first tokens
        = split_lines tc c index (i + 1) rest (current @ piece) first (tokens + lt)"
      using False by (auto simp: lt_def piece_def Let_def)
    show ?thesis
    proof (cases "piece = []")
      case True
      then have r: "rest = []" by (rule empty)
      have l: "line = []" using True by (simp add: piece_def)
      show ?thesis
      proof (cases "g = []")
        case True
        then show ?thesis using Cons.prems(2) eq l r \<open>piece = []\<close> by (intro exI [of _ "[]"]) simp
      next
        case False
        then have "parts_ok tc c first [g] (split_lines tc c index i (line # rest) current first tokens)"
          using Cons.prems ne eq r \<open>piece = []\<close> by (simp add: parts_ok_last del: parts_ok.simps(2))
        then show ?thesis using l r by (intro exI [of _ "[g]"]) simp
      qed
    next
      case pn: False
      have "cost tc (g @ [piece]) = tokens + lt"
        using Cons.prems(4) pc by (simp add: cost_def)
      moreover have "length (g @ [piece]) \<le> 1 \<or> cost tc (g @ [piece]) < max_chunk_tokens"
        using False ne calculation by (cases "g = []") auto
      ultimately have "\<exists>groups. concat groups = (g @ [piece]) @ filter (\<lambda>p. p \<noteq> []) (with_newlines rest)
        \<and> parts_ok tc c first groups (split_lines tc c index (i + 1) rest (current @ piece) first (tokens + lt))"
        by (intro Cons.IH [OF lines]) (use Cons.prems pn in auto)
      then show ?thesis unfolding eq using pn by (simp add: piece_def)
    qed
  qed
qed


text \<open>Over a list of chunks, a chunk within the limit stays and another becomes its parts.\<close>

definition split_one :: "(string \<Rightarrow> int) \<Rightarrow> int \<Rightarrow> chunk_record \<Rightarrow> chunk_record list" where
  "split_one tc index c =
     (if cr_TokenCount c \<le> max_chunk_tokens then [c]
      else split_lines tc c index 0 (split_on newline (cr_Content c)) [] (cr_StartLine c) 0)"

lemma split_one_parts:
  assumes "max_chunk_tokens < cr_TokenCount c"
  shows "\<exists>groups. concat groups = pieces (cr_Content c) \<and> parts_ok tc c (cr_StartLine c) groups (split_one tc index c)"
  using split_lines_parts [of "split_on newline (cr_Content c)" "[]" "[]" tc 0 c 0 "cr_StartLine c" index] assms
  by (auto simp: split_one_def pieces_def cost_def dest: split_on_no_sep)

lemma parts_ok_content: "parts_ok tc c first groups ps \<Longrightarrow> map cr_Content ps = map concat groups"
  by (induction tc c first groups ps rule: parts_ok.induct) auto

lemma split_one_content: "concat (map cr_Content (split_one tc index c)) = cr_Content c"
proof (cases "max_chunk_tokens < cr_TokenCount c")
  case True
  obtain groups where "concat groups = pieces (cr_Content c)" and "parts_ok tc c (cr_StartLine c) groups (split_one tc index c)"
    using split_one_parts [OF True] by blast
  moreover have "concat (map concat gs) = concat (concat gs)" for gs :: "string list list"
    by (induction gs) simp_all
  ultimately show ?thesis using parts_ok_content concat_pieces by metis
qed (simp add: split_one_def)

lemma split_large_chunks_snoc:
  "split_large_chunks tc (cs @ [c]) = split_large_chunks tc cs @ split_one tc (int (length (split_large_chunks tc cs))) c"
  by (simp add: split_large_chunks_def split_one_def)

lemma split_large_chunks_Nil [simp]: "split_large_chunks tc [] = []"
  by (simp add: split_large_chunks_def)

lemma split_large_chunks_content: "concat (map cr_Content (split_large_chunks tc cs)) = concat (map cr_Content cs)"
  by (induction cs rule: rev_induct) (simp_all add: split_large_chunks_snoc split_one_content)

lemma split_large_chunks_from:
  "d \<in> set (split_large_chunks tc cs) \<Longrightarrow> \<exists>c \<in> set cs. \<exists>i. d \<in> set (split_one tc i c)"
  by (induction cs rule: rev_induct) (auto simp: split_large_chunks_snoc)

lemma split_large_chunks_single: "split_large_chunks tc [c] = split_one tc 0 c"
  using split_large_chunks_snoc [of tc "[]" c] by simp

text \<open>C5. Splitting an oversized chunk loses nothing: the parts are consecutive groups of its lines, put together
  they are its content, every group of more than one line stays below the token limit, the line numbers run on
  without gaps from the chunk's first line, and name, kind, signature and parent are the chunk's.\<close>

theorem split_large_chunks_lossless:
  assumes "max_chunk_tokens < cr_TokenCount c"
  shows "\<exists>groups. concat groups = pieces (cr_Content c)
      \<and> parts_ok tc c (cr_StartLine c) groups (split_large_chunks tc [c])
      \<and> concat (map cr_Content (split_large_chunks tc [c])) = cr_Content c"
  using split_one_parts [OF assms] split_large_chunks_content [of tc "[c]"] by (simp add: split_large_chunks_single)

text \<open>A counter for examples: every letter is a token.\<close>

definition sample_count :: "string \<Rightarrow> int" where "sample_count s = int (length s)"

definition sample_big :: chunk_record where
  "sample_big = zero_chunk\<lparr>cr_Kind := ''function'', cr_StartLine := 5, cr_EndLine := 7,
     cr_Content := replicate 600 CHR ''a'' @ [newline] @ replicate 600 CHR ''b'' @ [newline] @ ''}'', cr_TokenCount := 1203\<rparr>"

theorem split_large_chunks_lossless_witness:
  "\<exists>groups. concat groups = pieces (cr_Content sample_big) \<and> parts_ok sample_count sample_big 5 groups (split_large_chunks sample_count [sample_big])"
  using split_large_chunks_lossless [of sample_big sample_count] by (auto simp: sample_big_def max_chunk_tokens_def)

section \<open>Merging and numbering\<close>

lemma map_reindex: "(\<And>c i. f (c\<lparr>cr_ChunkIndex := i\<rparr>) = f c) \<Longrightarrow> map f (reindex b cs) = map f cs"
  by (rule nth_equalityI) (simp_all add: reindex_def)

lemma length_reindex [simp]: "length (reindex b cs) = length cs"
  by (simp add: reindex_def)

lemma nth_reindex [simp]: "i < length cs \<Longrightarrow> reindex b cs ! i = (cs ! i)\<lparr>cr_ChunkIndex := b + int i\<rparr>"
  by (simp add: reindex_def)

lemma in_reindex: "d \<in> set (reindex b cs) \<Longrightarrow> \<exists>c \<in> set cs. \<exists>i. d = c\<lparr>cr_ChunkIndex := i\<rparr>"
  by (force simp: in_set_conv_nth)

lemma in_merge_step:
  assumes "m \<in> set merged"
  shows "\<exists>m' \<in> set (merge_step tc c merged). sublist (cr_Content m) (cr_Content m')"
proof (cases "m \<in> set (merge_step tc c merged)")
  case False
  with assms have abs: "merge_step tc c merged = butlast merged @ [absorb tc (last merged) c]"
    by (auto simp: merge_step_def split: if_splits)
  have "merged \<noteq> []" using assms by auto
  then have "set merged = insert (last merged) (set (butlast merged))"
    by (metis append_butlast_last_id list.simps(15) rotate1.simps(2) set_rotate1)
  with assms False abs have "m = last merged" by auto
  then have "sublist (cr_Content m) (cr_Content (absorb tc (last merged) c))"
    by (simp add: absorb_def Let_def sublist_append_rightI)
  with abs show ?thesis by auto
qed blast

lemma merge_step_last: "\<exists>m' \<in> set (merge_step tc c merged). sublist (cr_Content c) (cr_Content m')"
proof (cases "c \<in> set (merge_step tc c merged)")
  case False
  then have "absorb tc (last merged) c \<in> set (merge_step tc c merged)" by (auto simp: merge_step_def split: if_splits)
  moreover have "sublist (cr_Content c) (cr_Content (absorb tc (last merged) c))"
    unfolding absorb_def Let_def sublist_def by (simp, metis append_assoc append_Cons append_Nil append_Nil2)
  ultimately show ?thesis by blast
qed blast

lemma fold_merge_keeps:
  "c \<in> set cs \<Longrightarrow> \<exists>m \<in> set (fold (merge_step tc) cs []). sublist (cr_Content c) (cr_Content m)"
proof (induction cs rule: rev_induct)
  case (snoc d cs)
  show ?case
  proof (cases "c = d")
    case True
    then show ?thesis using merge_step_last by simp
  next
    case False
    with snoc obtain m where m: "m \<in> set (fold (merge_step tc) cs [])" "sublist (cr_Content c) (cr_Content m)" by auto
    from in_merge_step [OF m(1), of tc d] m(2) show ?thesis by (auto intro: sublist_order.order_trans)
  qed
qed simp

lemma merge_keeps:
  "c \<in> set cs \<Longrightarrow> \<exists>m \<in> set (merge_small_chunks tc cs). sublist (cr_Content c) (cr_Content m)"
  using fold_merge_keeps by (cases "length cs \<le> 1") (auto simp: merge_small_chunks_def)

lemma merge_step_cases:
  "m \<in> set (merge_step tc c merged) \<Longrightarrow> m \<in> set merged \<or> m = c \<or> (merged \<noteq> [] \<and> m = absorb tc (last merged) c)"
  by (auto simp: merge_step_def dest: in_set_butlastD split: if_splits)

lemma fold_merge_from:
  "m \<in> set (fold (merge_step tc) cs []) \<Longrightarrow>
   \<exists>c \<in> set cs. cr_Kind m = cr_Kind c \<and> cr_StartLine m = cr_StartLine c \<and> cr_ParentIndex m = cr_ParentIndex c \<and> (m = c \<or> cr_TokenCount m = tc (cr_Content m))"
proof (induction cs arbitrary: m rule: rev_induct)
  case (snoc d cs)
  let ?ms = "fold (merge_step tc) cs []"
  from snoc.prems have "m \<in> set ?ms \<or> m = d \<or> (?ms \<noteq> [] \<and> m = absorb tc (last ?ms) d)"
    using merge_step_cases by simp
  then show ?case
  proof (elim disjE conjE)
    assume "?ms \<noteq> []" "m = absorb tc (last ?ms) d"
    with snoc.IH [of "last ?ms"] show ?thesis by (auto simp: absorb_def Let_def)
  qed (use snoc.IH in auto)
qed simp

lemma merge_from:
  "m \<in> set (merge_small_chunks tc cs) \<Longrightarrow>
   \<exists>c \<in> set cs. cr_Kind m = cr_Kind c \<and> cr_StartLine m = cr_StartLine c \<and> cr_ParentIndex m = cr_ParentIndex c \<and> (m = c \<or> cr_TokenCount m = tc (cr_Content m))"
  using fold_merge_from by (cases "length cs \<le> 1") (auto simp: merge_small_chunks_def)

section \<open>What the walk keeps\<close>

text \<open>
  \<open>member cfg d n m\<close>: the walk below \<open>n\<close>, \<open>d\<close> structural levels down, finds the chunkable node \<open>m\<close>.
  \<open>whole tc cfg source d n x\<close>: chunking \<open>n\<close> at depth \<open>d\<close> decomposes containers down to \<open>x\<close>, which is not
  decomposed further: it fits, or nothing chunkable is in it, or the depth guard stops there.
\<close>

inductive member :: "language_config \<Rightarrow> int \<Rightarrow> node \<Rightarrow> node \<Rightarrow> bool" for cfg where
  member_here: "d \<le> max_ast_depth \<Longrightarrow> child \<in> set (named_children n) \<Longrightarrow> nd_Kind child \<noteq> ''comment'' \<Longrightarrow>
    nm_IsChunkable (meta_of cfg (nd_Kind (unwrap cfg child))) \<Longrightarrow> member cfg d n (unwrap cfg child)"
| member_below: "d \<le> max_ast_depth \<Longrightarrow> child \<in> set (named_children n) \<Longrightarrow> nd_Kind child \<noteq> ''comment'' \<Longrightarrow>
    \<not> nm_IsChunkable (meta_of cfg (nd_Kind (unwrap cfg child))) \<Longrightarrow> member cfg (d + 1) (unwrap cfg child) m \<Longrightarrow> member cfg d n m"

inductive whole :: "(string \<Rightarrow> int) \<Rightarrow> language_config \<Rightarrow> string \<Rightarrow> int \<Rightarrow> node \<Rightarrow> node \<Rightarrow> bool" for tc cfg source where
  whole_fits: "tc (utf8_text n source) \<le> max_chunk_tokens \<Longrightarrow> whole tc cfg source d n n"
| whole_deep: "d > max_chunk_depth \<Longrightarrow> whole tc cfg source d n n"
| whole_atom: "find_chunkable_children tc cfg source d 0 n = [] \<Longrightarrow> whole tc cfg source d n n"
| whole_inner: "max_chunk_tokens < tc (utf8_text n source) \<Longrightarrow> d \<le> max_chunk_depth \<Longrightarrow> member cfg 0 n m \<Longrightarrow>
    whole tc cfg source (d + 1) m x \<Longrightarrow> whole tc cfg source d n x"

lemma find_chunkable_concat:
  "find_chunkable tc cfg source cd ad ns =
     concat (map (\<lambda>child. if nd_Kind child = ''comment'' then []
        else if nm_IsChunkable (meta_of cfg (nd_Kind (unwrap cfg child)))
        then chunk_node tc cfg source (cd + 1) (unwrap cfg child)
        else find_chunkable_children tc cfg source cd (ad + 1) (unwrap cfg child)) ns)"
  by (induction ns) simp_all

lemma sublist_concat_map: "x \<in> set xs \<Longrightarrow> sublist (f x) (concat (map f xs))"
  by (induction xs) (auto intro: sublist_order.order_trans)

lemma member_chunks:
  "member cfg ad n m \<Longrightarrow>
   sublist (chunk_node tc cfg source (cd + 1) m) (find_chunkable_children tc cfg source cd ad n)"
proof (induction rule: member.induct)
  case (member_here d child n)
  then show ?case
    using sublist_concat_map [of child "named_children n"
        "\<lambda>child. if nd_Kind child = ''comment'' then []
        else if nm_IsChunkable (meta_of cfg (nd_Kind (unwrap cfg child)))
        then chunk_node tc cfg source (cd + 1) (unwrap cfg child)
        else find_chunkable_children tc cfg source cd (d + 1) (unwrap cfg child)"]
    by (simp add: find_chunkable_children.simps [of _ _ _ _ _ n] find_chunkable_concat)
next
  case (member_below d child n m)
  then show ?case
    using sublist_concat_map [of child "named_children n"
        "\<lambda>child. if nd_Kind child = ''comment'' then []
        else if nm_IsChunkable (meta_of cfg (nd_Kind (unwrap cfg child)))
        then chunk_node tc cfg source (cd + 1) (unwrap cfg child)
        else find_chunkable_children tc cfg source cd (d + 1) (unwrap cfg child)"]
    by (auto simp: find_chunkable_children.simps [of _ _ _ _ _ n] find_chunkable_concat intro: sublist_order.order_trans)
qed

lemma set_sublist: "sublist xs ys \<Longrightarrow> set xs \<subseteq> set ys"
  by (auto simp: sublist_def)

lemma parts_ok_member:
  "parts_ok tc c first groups ps \<Longrightarrow> g \<in> set groups \<Longrightarrow> \<exists>d \<in> set ps. cr_Content d = concat g"
  by (induction tc c first groups ps rule: parts_ok.induct) auto

lemma split_keeps_pieces:
  assumes "p \<in> set (pieces (cr_Content c))"
  shows "\<exists>d \<in> set (split_one tc index c). sublist p (cr_Content d)"
proof (cases "max_chunk_tokens < cr_TokenCount c")
  case True
  from split_one_parts [OF True, of tc index] obtain groups where g: "concat groups = pieces (cr_Content c)"
    "parts_ok tc c (cr_StartLine c) groups (split_one tc index c)" by blast
  from assms g(1) obtain h where h: "h \<in> set groups" "p \<in> set h" by (metis UN_E set_concat)
  then have "sublist p (concat h)" using sublist_concat_map [of p h "\<lambda>x. x"] by simp
  with parts_ok_member [OF g(2) h(1)] show ?thesis by metis
next
  case False
  then show ?thesis using assms sublist_concat_map [of p "pieces (cr_Content c)" "\<lambda>x. x"] by (simp add: split_one_def)
qed

lemma split_node_keeps_pieces:
  "p \<in> set (pieces (utf8_text n source)) \<Longrightarrow> \<exists>d \<in> set (split_node_by_lines tc source n name kind). sublist p (cr_Content d)"
  unfolding split_node_by_lines_def Let_def split_large_chunks_single by (rule split_keeps_pieces) simp

lemma content_set_parent_index [simp]: "cr_Content (set_parent_index c) = cr_Content c"
  by (simp add: set_parent_index_def)

lemma content_whole_chunk [simp]: "cr_Content (whole_chunk tc cfg source n content) = content"
  by (simp add: whole_chunk_def)

lemma chunk_node_fits:
  "tc (utf8_text n source) \<le> max_chunk_tokens \<Longrightarrow> chunk_node tc cfg source d n = [whole_chunk tc cfg source n (utf8_text n source)]"
  by (simp add: chunk_node.simps)

lemma chunk_node_inner:
  assumes "max_chunk_tokens < tc (utf8_text n source)" and "d \<le> max_chunk_depth"
    and "c \<in> set (find_chunkable_children tc cfg source d 0 n)"
  shows "set_parent_index c \<in> set (chunk_node tc cfg source d n)"
proof -
  from assms(3) have "find_chunkable_children tc cfg source d 0 n \<noteq> []" by auto
  with assms show ?thesis by (simp add: chunk_node.simps [of _ _ _ _ n] Let_def)
qed

lemma whole_fitting_kept:
  "whole tc cfg source d n x \<Longrightarrow> tc (utf8_text x source) \<le> max_chunk_tokens \<Longrightarrow>
   \<exists>c \<in> set (chunk_node tc cfg source d n). cr_Content c = utf8_text x source"
proof (induction rule: whole.induct)
  case (whole_inner n d m x)
  then obtain c where c: "c \<in> set (chunk_node tc cfg source (d + 1) m)" "cr_Content c = utf8_text x source" by blast
  with set_sublist [OF member_chunks [OF whole_inner(3), of tc source d]]
  have "c \<in> set (find_chunkable_children tc cfg source d 0 n)" by blast
  from chunk_node_inner [of tc n source d c, OF whole_inner(1,2) this] c(2) show ?case by (metis content_set_parent_index)
qed (simp_all add: chunk_node_fits)

lemma whole_pieces_kept:
  "whole tc cfg source d n x \<Longrightarrow> p \<in> set (pieces (utf8_text x source)) \<Longrightarrow>
   \<exists>c \<in> set (chunk_node tc cfg source d n). sublist p (cr_Content c)"
proof (induction rule: whole.induct)
  case (whole_inner n d m x)
  then obtain c where c: "c \<in> set (chunk_node tc cfg source (d + 1) m)" "sublist p (cr_Content c)" by blast
  with set_sublist [OF member_chunks [OF whole_inner(3), of tc source d]]
  have "c \<in> set (find_chunkable_children tc cfg source d 0 n)" by blast
  from chunk_node_inner [of tc n source d c, OF whole_inner(1,2) this] c(2) show ?case by (metis content_set_parent_index)
next
  case (whole_fits n d)
  then show ?case using sublist_concat_map [of p "pieces (utf8_text n source)" "\<lambda>x. x"] by (simp add: chunk_node_fits)
next
  case (whole_deep d n)
  then show ?case
    using split_node_keeps_pieces [of p n source tc] sublist_concat_map [of p "pieces (utf8_text n source)" "\<lambda>x. x"]
    by (simp add: chunk_node.simps [of _ _ _ _ n] Let_def)
next
  case (whole_atom d n)
  then show ?case
    using split_node_keeps_pieces [of p n source tc] sublist_concat_map [of p "pieces (utf8_text n source)" "\<lambda>x. x"]
    by (simp add: chunk_node.simps [of _ _ _ _ n] Let_def)
qed

section \<open>A whole file\<close>

lemma file_fold:
  "fold (file_step tc cfg source) ns (hs, cs) =
     (hs @ map (fragment_of source) (filter (\<lambda>n. nd_Kind n \<noteq> ''comment'' \<and> in_header cfg n) ns),
      cs @ concat (map (\<lambda>n. chunk_node tc cfg source 0 (unwrap cfg n))
        (filter (\<lambda>n. nd_Kind n \<noteq> ''comment'' \<and> \<not> in_header cfg n) ns)))"
  by (induction ns arbitrary: hs cs) (simp_all add: file_step_def)

definition header_nodes :: "language_config \<Rightarrow> node \<Rightarrow> node list" where
  "header_nodes cfg tree = filter (\<lambda>n. nd_Kind n \<noteq> ''comment'' \<and> in_header cfg n) (named_children tree)"

definition code_nodes :: "language_config \<Rightarrow> node \<Rightarrow> node list" where
  "code_nodes cfg tree = filter (\<lambda>n. nd_Kind n \<noteq> ''comment'' \<and> \<not> in_header cfg n) (named_children tree)"

definition walked_chunks :: "(string \<Rightarrow> int) \<Rightarrow> language_config \<Rightarrow> string \<Rightarrow> node \<Rightarrow> chunk_record list" where
  "walked_chunks tc cfg source tree =
     assemble_chunks tc (map (fragment_of source) (header_nodes cfg tree))
       (concat (map (\<lambda>n. chunk_node tc cfg source 0 (unwrap cfg n)) (code_nodes cfg tree)))"

lemma chunk_file_walked:
  "chunk_file tc cfg source tree = map (\<lambda>c. c\<lparr>cr_ParseQuality := ''full''\<rparr>)
     (reindex 0 (split_large_chunks tc (merge_small_chunks tc (walked_chunks tc cfg source tree))))"
  by (simp add: chunk_file_def file_fold walked_chunks_def header_nodes_def code_nodes_def)

lemma chunk_file_contents:
  "map cr_Content (chunk_file tc cfg source tree)
     = map cr_Content (split_large_chunks tc (merge_small_chunks tc (walked_chunks tc cfg source tree)))"
  by (simp add: chunk_file_walked comp_def map_reindex)

lemma chunk_file_content:
  "concat (map cr_Content (chunk_file tc cfg source tree)) = concat (map cr_Content (merge_small_chunks tc (walked_chunks tc cfg source tree)))"
  by (simp add: chunk_file_contents split_large_chunks_content)

lemma walked_content_kept:
  assumes "c \<in> set (walked_chunks tc cfg source tree)"
  shows "sublist (cr_Content c) (concat (map cr_Content (chunk_file tc cfg source tree)))"
proof -
  from merge_keeps [OF assms] obtain m where "m \<in> set (merge_small_chunks tc (walked_chunks tc cfg source tree))"
    "sublist (cr_Content c) (cr_Content m)" by blast
  then show ?thesis unfolding chunk_file_content using sublist_concat_map by (metis sublist_order.order_trans)
qed

text \<open>A line of a chunk of the walk is in one chunk of the file.\<close>

lemma split_large_chunks_keeps:
  "c \<in> set cs \<Longrightarrow> p \<in> set (pieces (cr_Content c)) \<Longrightarrow> \<exists>d \<in> set (split_large_chunks tc cs). sublist p (cr_Content d)"
proof (induction cs rule: rev_induct)
  case (snoc e cs)
  show ?case
  proof (cases "c \<in> set cs")
    case True
    with snoc show ?thesis by (auto simp: split_large_chunks_snoc)
  next
    case False
    with snoc.prems(1) have "c = e" by simp
    with split_keeps_pieces [OF snoc.prems(2), of tc "int (length (split_large_chunks tc cs))"] show ?thesis
      by (auto simp: split_large_chunks_snoc)
  qed
qed simp

definition line_kept :: "(string \<Rightarrow> int) \<Rightarrow> language_config \<Rightarrow> string \<Rightarrow> node \<Rightarrow> string \<Rightarrow> bool" where
  "line_kept tc cfg source tree p \<longleftrightarrow> (\<exists>c \<in> set (chunk_file tc cfg source tree). sublist p (cr_Content c))"

lemma walked_lines_kept:
  assumes "c \<in> set (walked_chunks tc cfg source tree)" and "p \<in> set (pieces a)" and "sublist p (cr_Content c)"
  shows "line_kept tc cfg source tree p"
proof -
  from merge_keeps [OF assms(1)] obtain m where m: "m \<in> set (merge_small_chunks tc (walked_chunks tc cfg source tree))"
    "sublist (cr_Content c) (cr_Content m)" by blast
  from piece_within [OF assms(2)] assms(3) m(2) obtain q where q: "q \<in> set (pieces (cr_Content m))" "sublist p q"
    by (meson sublist_order.order_trans)
  let ?cs = "split_large_chunks tc (merge_small_chunks tc (walked_chunks tc cfg source tree))"
  from split_large_chunks_keeps [OF m(1) q(1)] obtain d where d: "d \<in> set ?cs" "sublist q (cr_Content d)" by blast
  have "cr_Content ` set (chunk_file tc cfg source tree) = cr_Content ` set ?cs"
    by (metis chunk_file_contents list.set_map)
  then have "cr_Content d \<in> cr_Content ` set (chunk_file tc cfg source tree)" using d(1) by blast
  then obtain e where "e \<in> set (chunk_file tc cfg source tree)" "cr_Content e = cr_Content d" by auto
  with d(2) q(2) show ?thesis unfolding line_kept_def by (metis sublist_order.order_trans)
qed

lemma walked_code_content:
  "cr_Content ` set (walked_chunks tc cfg source tree) \<supseteq>
   cr_Content ` set (concat (map (\<lambda>n. chunk_node tc cfg source 0 (unwrap cfg n)) (code_nodes cfg tree)))"
proof -
  have "cr_Content ` set (reindex 1 cs) = cr_Content ` set cs" for cs
    using map_reindex [of cr_Content 1 cs] by (metis (no_types, lifting) chunk_record.select_convs(9) chunk_record.surjective chunk_record.update_convs(4) list.set_map)
  then show ?thesis by (auto simp: walked_chunks_def assemble_chunks_def)
qed

lemma code_chunk_walked:
  assumes "n \<in> set (code_nodes cfg tree)" and "c \<in> set (chunk_node tc cfg source 0 (unwrap cfg n))"
  shows "\<exists>d \<in> set (walked_chunks tc cfg source tree). cr_Content d = cr_Content c"
proof -
  have "cr_Content c \<in> cr_Content ` set (concat (map (\<lambda>n. chunk_node tc cfg source 0 (unwrap cfg n)) (code_nodes cfg tree)))"
    using assms by auto
  with walked_code_content have "cr_Content c \<in> cr_Content ` set (walked_chunks tc cfg source tree)" by blast
  then show ?thesis by auto
qed

lemma join_with_member: "x \<in> set xs \<Longrightarrow> sublist x (join_with sep xs)"
proof (induction xs)
  case (Cons y ys)
  show ?case
  proof (cases "ys = []")
    case False
    have "sublist (join_with sep ys) (y @ sep @ join_with sep ys)" by (metis append.assoc sublist_append_leftI)
    with Cons False show ?thesis by (auto simp: join_with_Cons intro: sublist_order.order_trans)
  qed (use Cons in simp)
qed simp

definition file_text :: "(string \<Rightarrow> int) \<Rightarrow> language_config \<Rightarrow> string \<Rightarrow> node \<Rightarrow> string" where
  "file_text tc cfg source tree = concat (map cr_Content (chunk_file tc cfg source tree))"

lemma header_kept:
  assumes "n \<in> set (header_nodes cfg tree)"
  shows "sublist (utf8_text n source) (file_text tc cfg source tree)"
    and "p \<in> set (pieces (utf8_text n source)) \<Longrightarrow> line_kept tc cfg source tree p"
proof -
  define h where "h = (build_header_chunk tc (map (fragment_of source) (header_nodes cfg tree)))\<lparr>cr_ChunkIndex := 0\<rparr>"
  have h: "h \<in> set (walked_chunks tc cfg source tree)" using assms by (auto simp: walked_chunks_def assemble_chunks_def h_def)
  have "utf8_text n source \<in> set (map hf_content (map (fragment_of source) (header_nodes cfg tree)))"
    using assms by (force simp: fragment_of_def)
  from join_with_member [OF this, of "[newline]"] have part: "sublist (utf8_text n source) (cr_Content h)"
    by (simp add: h_def build_header_chunk_def Let_def)
  from walked_content_kept [OF h] part show "sublist (utf8_text n source) (file_text tc cfg source tree)"
    unfolding file_text_def by (rule sublist_order.order_trans [rotated])
  show "p \<in> set (pieces (utf8_text n source)) \<Longrightarrow> line_kept tc cfg source tree p"
    using walked_lines_kept [OF h] piece_part part by (metis sublist_order.order_trans)
qed

lemma code_kept:
  assumes "n \<in> set (code_nodes cfg tree)" and "c \<in> set (chunk_node tc cfg source 0 (unwrap cfg n))"
  shows "sublist (cr_Content c) (file_text tc cfg source tree)"
    and "p \<in> set (pieces a) \<Longrightarrow> sublist p (cr_Content c) \<Longrightarrow> line_kept tc cfg source tree p"
proof -
  obtain d where d: "d \<in> set (walked_chunks tc cfg source tree)" "cr_Content d = cr_Content c" using code_chunk_walked [OF assms] by blast
  from walked_content_kept [OF d(1)] d(2) show "sublist (cr_Content c) (file_text tc cfg source tree)" by (simp add: file_text_def)
  show "p \<in> set (pieces a) \<Longrightarrow> sublist p (cr_Content c) \<Longrightarrow> line_kept tc cfg source tree p"
    using walked_lines_kept [OF d(1)] d(2) by simp
qed

lemma whole_kept:
  assumes "n \<in> set (code_nodes cfg tree)" and w: "whole tc cfg source 0 (unwrap cfg n) x"
  shows "tc (utf8_text x source) \<le> max_chunk_tokens \<Longrightarrow> sublist (utf8_text x source) (file_text tc cfg source tree)"
    and "p \<in> set (pieces (utf8_text x source)) \<Longrightarrow> line_kept tc cfg source tree p"
proof -
  show "sublist (utf8_text x source) (file_text tc cfg source tree)" if "tc (utf8_text x source) \<le> max_chunk_tokens"
    using whole_fitting_kept [OF w that] code_kept(1) [OF assms(1)] by metis
  assume p: "p \<in> set (pieces (utf8_text x source))"
  from whole_pieces_kept [OF w this] obtain c where "c \<in> set (chunk_node tc cfg source 0 (unwrap cfg n))" "sublist p (cr_Content c)" by blast
  with code_kept(2) [OF assms(1) _ p] show "line_kept tc cfg source tree p" by blast
qed

text \<open>C4. What the decomposition of a file reaches is kept line by line: every line of an import, a package clause or
  another top-level node that is not chunkable, and every line of a node at which the decomposition of a
  chunkable node stops (because it fits a chunk, has nothing chunkable in it, or is too deep) is in one chunk
  of the file. The text of a header node or of a node that fits is moreover kept in one piece when the
  chunks' contents are put together. Nothing is claimed of the text of a decomposed container outside the
  members found in it: its chunk holds a signature instead, and such text can be lost.\<close>

theorem chunk_file_keeps_lines:
  "(\<forall>n \<in> set (header_nodes cfg tree). sublist (utf8_text n source) (file_text tc cfg source tree)
      \<and> (\<forall>p \<in> set (pieces (utf8_text n source)). line_kept tc cfg source tree p))
   \<and> (\<forall>n \<in> set (code_nodes cfg tree). \<forall>x. whole tc cfg source 0 (unwrap cfg n) x \<longrightarrow>
       (tc (utf8_text x source) \<le> max_chunk_tokens \<longrightarrow> sublist (utf8_text x source) (file_text tc cfg source tree))
       \<and> (\<forall>p \<in> set (pieces (utf8_text x source)). line_kept tc cfg source tree p))"
  by (intro conjI ballI allI impI header_kept whole_kept)

section \<open>The rows of a file\<close>

definition good_chunk :: "(string \<Rightarrow> int) \<Rightarrow> chunk_record \<Rightarrow> bool" where
  "good_chunk tc c \<longleftrightarrow> cr_TokenCount c = tc (cr_Content c) \<and> chunk_kind_check (cr_Kind c) \<and> cr_ParentIndex c \<in> {None, Some 0}"

text \<open>A chunk within the limit, or a part made of lines that is a single line or below the limit line by line.\<close>

definition bounded_chunk :: "(string \<Rightarrow> int) \<Rightarrow> chunk_record \<Rightarrow> bool" where
  "bounded_chunk tc c \<longleftrightarrow>
     cr_TokenCount c \<le> max_chunk_tokens
     \<or> (\<exists>g. cr_Content c = concat g \<and> (\<forall>p \<in> set g. newline \<notin> set (butlast p)) \<and> (length g = 1 \<or> cost tc g < max_chunk_tokens))"

lemma parts_ok_good:
  "parts_ok tc c first groups ps \<Longrightarrow> chunk_kind_check (cr_Kind c) \<Longrightarrow> cr_ParentIndex c \<in> {None, Some 0} \<Longrightarrow> d \<in> set ps \<Longrightarrow>
   good_chunk tc d"
  by (induction tc c first groups ps rule: parts_ok.induct) (auto simp: good_chunk_def)

lemma parts_ok_group:
  "parts_ok tc c first groups ps \<Longrightarrow> d \<in> set ps \<Longrightarrow>
   \<exists>g \<in> set groups. cr_Content d = concat g \<and> (length g = 1 \<or> cost tc g < max_chunk_tokens)"
  by (induction tc c first groups ps rule: parts_ok.induct) auto

lemma split_one_good:
  assumes "good_chunk tc c" and "d \<in> set (split_one tc i c)"
  shows "good_chunk tc d"
proof (cases "max_chunk_tokens < cr_TokenCount c")
  case True
  from split_one_parts [OF True] obtain groups where "parts_ok tc c (cr_StartLine c) groups (split_one tc i c)" by blast
  from parts_ok_good [OF this _ _ assms(2)] assms(1) show ?thesis by (simp add: good_chunk_def)
qed (use assms in \<open>simp add: split_one_def\<close>)

lemma split_one_bounded:
  assumes "d \<in> set (split_one tc i c)"
  shows "bounded_chunk tc d"
proof (cases "max_chunk_tokens < cr_TokenCount c")
  case True
  from split_one_parts [OF True, of tc i] obtain groups where g: "concat groups = pieces (cr_Content c)"
    "parts_ok tc c (cr_StartLine c) groups (split_one tc i c)" by blast
  from parts_ok_group [OF g(2) assms] obtain h where h: "h \<in> set groups" "cr_Content d = concat h"
    "length h = 1 \<or> cost tc h < max_chunk_tokens" by blast
  have "newline \<notin> set (butlast p)" if "p \<in> set h" for p
    using h(1) that g(1) pieces_lines [of p "cr_Content c"] by (metis UN_I set_concat)
  with h show ?thesis by (auto simp: bounded_chunk_def)
qed (use assms in \<open>simp add: split_one_def bounded_chunk_def\<close>)

lemma resolve_kind_ok:
  assumes "get_language_config lang = Inr cfg"
  shows "chunk_kind_check (fst (resolve_kind cfg n))"
  using meta_kind_ok [OF assms] by (auto simp: resolve_kind_def Let_def chunk_kind_check_def split: option.split)

lemma whole_chunk_good:
  "get_language_config lang = Inr cfg \<Longrightarrow> good_chunk tc (whole_chunk tc cfg source n content)"
  using resolve_kind_ok by (simp add: whole_chunk_def good_chunk_def zero_chunk_def)

lemma split_node_good:
  "chunk_kind_check kind \<Longrightarrow> d \<in> set (split_node_by_lines tc source n name kind) \<Longrightarrow> good_chunk tc d"
  unfolding split_node_by_lines_def Let_def split_large_chunks_single by (rule split_one_good) (auto simp: good_chunk_def zero_chunk_def)

lemma set_parent_index_good [simp]: "good_chunk tc (set_parent_index c) = good_chunk tc c"
  by (auto simp: set_parent_index_def good_chunk_def)

lemma chunk_node_good:
  assumes "get_language_config lang = Inr cfg"
  shows "\<forall>c \<in> set (chunk_node tc cfg source d n). good_chunk tc c"
    and "\<forall>c \<in> set (find_chunkable_children tc cfg source d ad n). good_chunk tc c"
    and "\<forall>c \<in> set (find_chunkable tc cfg source d ad ns). good_chunk tc c"
  using assms
proof (induction tc cfg source d n and tc cfg source d ad n and tc cfg source d ad ns
    rule: chunk_node_find_chunkable_children_find_chunkable.induct)
  case (1 tc cfg source depth n)
  then show ?case
    using whole_chunk_good [OF 1(2)] split_node_good [OF resolve_kind_ok [OF 1(2)]]
    by (auto simp: chunk_node.simps [of _ _ _ _ n] Let_def)
next
  case (2 tc cfg source cd ad n)
  then show ?case by (auto simp: find_chunkable_children.simps [of _ _ _ _ _ n])
qed auto

lemma walked_good:
  assumes "get_language_config lang = Inr cfg" and "c \<in> set (walked_chunks tc cfg source tree)"
  shows "good_chunk tc c"
proof -
  let ?cs = "concat (map (\<lambda>n. chunk_node tc cfg source 0 (unwrap cfg n)) (code_nodes cfg tree))"
  have good: "\<forall>c \<in> set ?cs. good_chunk tc c" using chunk_node_good(1) [OF assms(1)] by auto
  then have "\<forall>c \<in> set (reindex 1 ?cs). good_chunk tc c" by (fastforce dest: in_reindex simp: good_chunk_def)
  with good assms(2) show ?thesis
    by (auto simp: walked_chunks_def assemble_chunks_def good_chunk_def build_header_chunk_def Let_def chunk_kind_check_def zero_chunk_def split: if_splits)
qed

lemma merge_good:
  assumes "\<forall>c \<in> set cs. good_chunk tc c" and "m \<in> set (merge_small_chunks tc cs)"
  shows "good_chunk tc m"
  using merge_from [OF assms(2)] assms(1) by (auto simp: good_chunk_def)

text \<open>C16. The chunks of a file in a supported language are numbered by position, carry their exact token count and a
  kind and quality the schema accepts, name no parent or the file's first chunk (whatever their container), and stay within the token limit, except for a part that is one long
  line or whose lines, counted one by one with their newlines, stay below it.\<close>

theorem chunk_file_rows:
  assumes "get_language_config lang = Inr cfg" and "i < length (chunk_file tc cfg source tree)"
  shows "let c = chunk_file tc cfg source tree ! i in
    cr_ChunkIndex c = int i \<and> cr_TokenCount c = tc (cr_Content c) \<and> chunk_kind_check (cr_Kind c)
    \<and> cr_ParseQuality c = ''full'' \<and> cr_ParentIndex c \<in> {None, Some 0} \<and> bounded_chunk tc c"
proof -
  let ?cs = "split_large_chunks tc (merge_small_chunks tc (walked_chunks tc cfg source tree))"
  have i: "i < length ?cs" using assms(2) by (simp add: chunk_file_walked)
  have eq: "chunk_file tc cfg source tree ! i = (?cs ! i)\<lparr>cr_ChunkIndex := int i, cr_ParseQuality := ''full''\<rparr>"
    using i by (simp add: chunk_file_walked)
  obtain c j where c: "c \<in> set (merge_small_chunks tc (walked_chunks tc cfg source tree))" "?cs ! i \<in> set (split_one tc j c)"
    using split_large_chunks_from [OF nth_mem [OF i]] by blast
  have "good_chunk tc c" using merge_good [OF _ c(1)] walked_good [OF assms(1)] by blast
  from split_one_good [OF this c(2)] split_one_bounded [OF c(2)] show ?thesis
    by (simp add: eq Let_def good_chunk_def bounded_chunk_def)
qed

section \<open>An example\<close>

text \<open>A small Python file: an import, a function and a main block; every letter counts as a token.\<close>

definition sample_source :: string where
  "sample_source = ''import os'' @ [newline, newline] @ ''def run():'' @ [newline] @ ''    return 1'' @ [newline, newline]
     @ ''if x:'' @ [newline] @ ''    run()''"

definition sample_leaf :: "string \<Rightarrow> string list \<Rightarrow> nat \<Rightarrow> nat \<Rightarrow> int \<Rightarrow> node" where
  "sample_leaf kind fs a b row = Node kind fs True a b row row []"

definition sample_function :: node where
  "sample_function = Node ''function_definition'' [] True 11 34 2 3
     [sample_leaf ''identifier'' [''name''] 15 18 2, sample_leaf ''parameters'' [''parameters''] 18 20 2,
      sample_leaf ''block'' [''body''] 26 34 3]"

definition sample_call :: node where
  "sample_call = Node ''call'' [] True 46 51 6 6 [sample_leaf ''identifier'' [''function''] 46 49 6]"

definition sample_tree :: node where
  "sample_tree = Node ''module'' [] True 0 51 0 6
     [Node ''import_statement'' [] True 0 9 0 0 [sample_leaf ''dotted_name'' [''name''] 7 9 0], sample_function,
      Node ''if_statement'' [] True 36 51 5 6
        [sample_leaf ''identifier'' [''condition''] 39 40 5, Node ''block'' [''consequence''] True 46 51 6 6 [sample_call]]]"

lemma sample_chunks:
  "map (\<lambda>c. (cr_Kind c, cr_SymbolName c, cr_StartLine c, cr_EndLine c, cr_TokenCount c))
     (chunk_file sample_count python_config sample_source sample_tree)
   = [(''header'', [], 1, 7, 25), (''function'', ''run'', 3, 4, 23)]"
  by code_simp

theorem chunk_file_rows_witness:
  "let c = chunk_file sample_count python_config sample_source sample_tree ! 1 in
    cr_ChunkIndex c = int 1 \<and> cr_TokenCount c = sample_count (cr_Content c) \<and> chunk_kind_check (cr_Kind c)
    \<and> cr_ParseQuality c = ''full'' \<and> cr_ParentIndex c \<in> {None, Some 0} \<and> bounded_chunk sample_count c"
proof (rule chunk_file_rows)
  show "get_language_config ''python'' = Inr python_config"
    by (simp add: get_language_config_def language_registry_def)
  show "1 < length (chunk_file sample_count python_config sample_source sample_tree)"
    using arg_cong [OF sample_chunks, of length] by simp
qed

theorem chunk_file_keeps_lines_witness:
  "sublist (utf8_text sample_function sample_source) (file_text sample_count python_config sample_source sample_tree)
   \<and> line_kept sample_count python_config sample_source sample_tree ''    return 1''"
proof -
  have fits: "sample_count (utf8_text sample_function sample_source) \<le> max_chunk_tokens" by code_simp
  have "unwrap python_config sample_function = sample_function" by code_simp
  then have "whole sample_count python_config sample_source 0 (unwrap python_config sample_function) sample_function"
    by (simp add: whole_fits fits)
  moreover have "code_nodes python_config sample_tree = [sample_function]" by code_simp
  moreover have "pieces (utf8_text sample_function sample_source) = [''def run():'' @ [newline], ''    return 1'']" by code_simp
  ultimately show ?thesis
    using chunk_file_keeps_lines [of python_config sample_tree sample_source sample_count] fits by simp
qed

text \<open>A class that does not fit: its attribute is in no chunk, its method is.\<close>

definition attribute_source :: string where
  "attribute_source = ''class A:'' @ [newline] @ ''    x = 1'' @ [newline] @ ''    def f(self):'' @ [newline] @ ''        return 1'' @ [newline]"

definition attribute_tree :: node where
  "attribute_tree = Node ''module'' [] True 0 53 0 4
     [Node ''class_definition'' [] True 0 52 0 3
       [sample_leaf ''identifier'' [''name''] 6 7 0,
        Node ''block'' [''body''] True 13 52 1 3
          [sample_leaf ''expression_statement'' [] 13 18 1,
           Node ''function_definition'' [] True 23 52 2 3
             [sample_leaf ''identifier'' [''name''] 27 28 2, sample_leaf ''parameters'' [''parameters''] 28 34 2,
              sample_leaf ''block'' [''body''] 44 52 3]]]]"

lemma container_text_lost:
  "\<not> line_kept (\<lambda>s. 30 * int (length s)) python_config attribute_source attribute_tree ''x = 1''
   \<and> line_kept (\<lambda>s. 30 * int (length s)) python_config attribute_source attribute_tree ''return 1''"
  unfolding line_kept_def by code_simp

end
