(* ===== verification/Parser_Symbols.thy ===== *)
theory Parser_Symbols
  imports Chunk_Facts
begin

text \<open>
  \<open>internal/parser/symbols.go\<close> and the symbol helpers of \<open>walk.go\<close>: the symbols of a tree, in the order the
  walk appends them, each with the index of its chunk. \<open>upper\<close> says which code points beyond
  Latin-1 are upper case.
\<close>

definition visibility_for :: "bool \<Rightarrow> string" where
  "visibility_for isExported = (if isExported then ''exported'' else ''internal'')"

fun containing_from :: "int \<Rightarrow> int \<Rightarrow> chunk_record list \<Rightarrow> int" where
  "containing_from line i [] = -1"
| "containing_from line i (c # cs) =
     (if line \<ge> cr_StartLine c \<and> line \<le> cr_EndLine c then i else containing_from line (i + 1) cs)"

definition find_containing_chunk :: "int \<Rightarrow> chunk_record list \<Rightarrow> int" where
  "find_containing_chunk line chunks = containing_from line 0 chunks"

definition build_symbol :: "string \<Rightarrow> string \<Rightarrow> int \<Rightarrow> bool \<Rightarrow> string \<Rightarrow> chunk_record list \<Rightarrow> symbol_record" where
  "build_symbol name kind line isExported signature chunks =
     zero_symbol\<lparr>sy_Name := name, sy_Kind := kind, sy_Line := line, sy_Signature := signature, sy_IsExported := isExported,
       sy_Visibility := visibility_for isExported, sy_ChunkID := find_containing_chunk line chunks\<rparr>"

definition is_go_exported :: "(nat \<Rightarrow> bool) \<Rightarrow> language_config \<Rightarrow> string \<Rightarrow> bool" where
  "is_go_exported upper cfg name = (if lc_Name cfg \<noteq> ''go'' then False else rune_is_upper upper (rune_value name))"

definition is_const_declaration :: "node \<Rightarrow> bool" where
  "is_const_declaration n \<longleftrightarrow> list_ex (\<lambda>c. nd_Kind c = ''const'') (nd_Children n)"

text \<open>The loop the extractors of multi-declarator nodes share: a symbol for each child of the given kind that has a name.\<close>

definition spec_symbols :: "string \<Rightarrow> string \<Rightarrow> node \<Rightarrow> (string \<Rightarrow> int \<Rightarrow> symbol_record) \<Rightarrow> symbol_record list" where
  "spec_symbols source specType n mk =
     concat (map (\<lambda>child.
         if nd_Kind child \<noteq> specType then []
         else let name = extract_name source child in if name = [] then [] else [mk name (start_line child)])
       (named_children n))"

definition extract_variable_symbols :: "string \<Rightarrow> bool \<Rightarrow> chunk_record list \<Rightarrow> node \<Rightarrow> symbol_record list" where
  "extract_variable_symbols source exported chunks n =
     (let kind = (if is_const_declaration n then ''constant'' else ''variable'')
      in spec_symbols source ''variable_declarator'' n (\<lambda>name line. build_symbol name kind line exported [] chunks))"

definition extract_go_var_symbols :: "(nat \<Rightarrow> bool) \<Rightarrow> language_config \<Rightarrow> string \<Rightarrow> chunk_record list \<Rightarrow> node \<Rightarrow> symbol_record list" where
  "extract_go_var_symbols upper cfg source chunks n =
     (let (specType, kind) = (if nd_Kind n = ''const_declaration'' then (''const_spec'', ''constant'') else (''var_spec'', ''variable''))
      in spec_symbols source specType n (\<lambda>name line. build_symbol name kind line (is_go_exported upper cfg name) [] chunks))"

definition modifier_step :: "node \<Rightarrow> string \<times> bool \<times> bool \<Rightarrow> string \<times> bool \<times> bool" where
  "modifier_step m st =
     (case st of (visibility, sawStatic, sawFinal) \<Rightarrow>
        if nd_Kind m = ''public'' then (''public'', sawStatic, sawFinal)
        else if nd_Kind m = ''private'' then (''private'', sawStatic, sawFinal)
        else if nd_Kind m = ''protected'' then (''internal'', sawStatic, sawFinal)
        else if nd_Kind m = ''static'' then (visibility, True, sawFinal)
        else if nd_Kind m = ''final'' then (visibility, sawStatic, True)
        else (visibility, sawStatic, sawFinal))"

definition inspect_java_field_modifiers :: "node \<Rightarrow> string \<times> bool" where
  "inspect_java_field_modifiers n =
     (let (visibility, sawStatic, sawFinal) =
        fold (\<lambda>child st. if nd_Kind child \<noteq> ''modifiers'' then st else fold modifier_step (nd_Children child) st)
          (named_children n) (''internal'', False, False)
      in (visibility, sawStatic \<and> sawFinal))"

definition extract_java_field_symbols :: "string \<Rightarrow> chunk_record list \<Rightarrow> node \<Rightarrow> symbol_record list" where
  "extract_java_field_symbols source chunks n =
     (let (visibility, isConstant) = inspect_java_field_modifiers n;
          kind = (if isConstant then ''constant'' else ''variable'')
      in spec_symbols source ''variable_declarator'' n (\<lambda>name line.
           zero_symbol\<lparr>sy_Name := name, sy_Kind := kind, sy_Line := line, sy_Visibility := visibility,
             sy_IsExported := (visibility = ''public''), sy_ChunkID := find_containing_chunk line chunks\<rparr>))"

definition extract_go_type_symbols :: "(nat \<Rightarrow> bool) \<Rightarrow> language_config \<Rightarrow> string \<Rightarrow> chunk_record list \<Rightarrow> node \<Rightarrow> symbol_record list" where
  "extract_go_type_symbols upper cfg source chunks n =
     spec_symbols source ''type_spec'' n (\<lambda>name line. build_symbol name ''type'' line (is_go_exported upper cfg name) [] chunks)"

text \<open>The symbol of a node that declares one name.\<close>

definition own_symbol :: "(nat \<Rightarrow> bool) \<Rightarrow> language_config \<Rightarrow> string \<Rightarrow> bool \<Rightarrow> chunk_record list \<Rightarrow> node \<Rightarrow> symbol_record list" where
  "own_symbol upper cfg source exported chunks n =
     (let name = extract_name source n in
      if name = [] then []
      else [build_symbol name (nm_SymbolKind (meta_of cfg (nd_Kind n))) (start_line n) (exported \<or> is_go_exported upper cfg name)
              (extract_signature source n) chunks])"

function walk_for_symbols ::
  "(nat \<Rightarrow> bool) \<Rightarrow> language_config \<Rightarrow> string \<Rightarrow> chunk_record list \<Rightarrow> bool \<Rightarrow> node \<Rightarrow> symbol_record list" where
  "walk_for_symbols upper cfg source chunks exported n =
     (if lc_ExportType cfg \<noteq> [] \<and> nd_Kind n = lc_ExportType cfg
      then concat (map (walk_for_symbols upper cfg source chunks True) (named_children n))
      else if nd_Kind n = ''decorated_definition''
      then concat (map (\<lambda>child. if nd_Kind child \<noteq> ''decorator'' then walk_for_symbols upper cfg source chunks exported child else [])
             (named_children n))
      else
        let meta = meta_of cfg (nd_Kind n);
            isSymbol = (nm_SymbolKind meta \<noteq> []) in
        if isSymbol \<and> nd_Kind n \<in> {''lexical_declaration'', ''variable_declaration''}
        then extract_variable_symbols source exported chunks n
        else if isSymbol \<and> nd_Kind n \<in> {''var_declaration'', ''const_declaration''}
        then extract_go_var_symbols upper cfg source chunks n
        else if isSymbol \<and> nd_Kind n = ''type_declaration'' then extract_go_type_symbols upper cfg source chunks n
        else if isSymbol \<and> nd_Kind n = ''field_declaration'' then extract_java_field_symbols source chunks n
        else
          (if isSymbol then own_symbol upper cfg source exported chunks n else [])
          @ (if lc_AmbientType cfg \<noteq> [] \<and> nd_Kind n = lc_AmbientType cfg
             then concat (map (walk_for_symbols upper cfg source chunks exported) (named_children n))
             else if (if isSymbol then nm_IsContainer meta else True)
             then concat (map (walk_for_symbols upper cfg source chunks exported) (named_children n))
             else []))"
  by pat_completeness auto
termination
  by (relation "measure (\<lambda>(upper, cfg, source, chunks, exported, n). size n)") (auto simp: child_size)

declare walk_for_symbols.simps [simp del]

definition extract_symbols :: "(nat \<Rightarrow> bool) \<Rightarrow> language_config \<Rightarrow> string \<Rightarrow> chunk_record list \<Rightarrow> node \<Rightarrow> symbol_record list" where
  "extract_symbols upper cfg source chunks tree = walk_for_symbols upper cfg source chunks False tree"

section \<open>Where symbols end up\<close>

definition contains_line :: "chunk_record \<Rightarrow> int \<Rightarrow> bool" where
  "contains_line c line \<longleftrightarrow> cr_StartLine c \<le> line \<and> line \<le> cr_EndLine c"

text \<open>The first chunk that contains a line, or \<open>-1\<close>.\<close>

definition located :: "int \<Rightarrow> int \<Rightarrow> chunk_record list \<Rightarrow> bool" where
  "located j line chunks \<longleftrightarrow>
     (if j = -1 then \<forall>c \<in> set chunks. \<not> contains_line c line
      else 0 \<le> j \<and> j < int (length chunks) \<and> contains_line (chunks ! nat j) line
         \<and> (\<forall>k < nat j. \<not> contains_line (chunks ! k) line))"

lemma containing_from_cases:
  "containing_from line i cs = -1 \<and> (\<forall>c \<in> set cs. \<not> contains_line c line)
   \<or> (\<exists>j < length cs. containing_from line i cs = i + int j \<and> contains_line (cs ! j) line \<and> (\<forall>k < j. \<not> contains_line (cs ! k) line))"
proof (induction cs arbitrary: i)
  case (Cons c cs)
  show ?case
  proof (cases "contains_line c line")
    case True
    then show ?thesis by (intro disjI2 exI [of _ 0]) (simp add: contains_line_def)
  next
    case False
    then have "containing_from line i (c # cs) = containing_from line (i + 1) cs" by (auto simp: contains_line_def)
    with Cons.IH [of "i + 1"] False show ?thesis
      by (elim disjE exE) (simp, intro disjI2, rule_tac x = "Suc j" in exI, auto simp: nth_Cons split: nat.split)
  qed
qed simp

lemma find_containing_located: "located (find_containing_chunk line chunks) line chunks"
  using containing_from_cases [of line 0 chunks] by (auto simp: find_containing_chunk_def located_def)

definition symbol_kinds :: "string set" where
  "symbol_kinds = {''function'', ''class'', ''method'', ''type'', ''interface'', ''variable'', ''constant'', ''namespace''}"

definition symbol_ok :: "language_config \<Rightarrow> chunk_record list \<Rightarrow> symbol_record \<Rightarrow> bool" where
  "symbol_ok cfg chunks s \<longleftrightarrow>
     sy_Name s \<noteq> [] \<and> sy_Kind s \<in> symbol_kinds \<union> (if lc_Name cfg = ''rust'' then {''module''} else {})
     \<and> visibility_valid (sy_Visibility s) \<and> (sy_IsExported s \<longleftrightarrow> sy_Visibility s \<in> {''exported'', ''public''})
     \<and> sy_ChunkID s = find_containing_chunk (sy_Line s) chunks"

lemma build_symbol_ok:
  "name \<noteq> [] \<Longrightarrow> kind \<in> symbol_kinds \<union> (if lc_Name cfg = ''rust'' then {''module''} else {}) \<Longrightarrow>
   symbol_ok cfg chunks (build_symbol name kind line e sig chunks)"
  by (simp add: build_symbol_def symbol_ok_def visibility_for_def visibility_valid_def)

lemma spec_symbols_ok:
  "(\<And>name line. name \<noteq> [] \<Longrightarrow> symbol_ok cfg chunks (mk name line)) \<Longrightarrow> s \<in> set (spec_symbols source t n mk) \<Longrightarrow> symbol_ok cfg chunks s"
  by (auto simp: spec_symbols_def Let_def split: if_splits)

lemma java_visibility:
  "fst (inspect_java_field_modifiers n) \<in> {''public'', ''private'', ''internal''}"
proof -
  let ?ok = "\<lambda>st :: string \<times> bool \<times> bool. fst st \<in> {''public'', ''private'', ''internal''}"
  have one: "?ok (modifier_step m st)" if "?ok st" for m st
    using that by (auto simp: modifier_step_def split: prod.split)
  have mods: "?ok (fold modifier_step ms st)" if "?ok st" for ms st
    by (rule fold_invariant [where Q = "\<lambda>_. True"]) (use that one in auto)
  have "?ok (fold (\<lambda>child st. if nd_Kind child \<noteq> ''modifiers'' then st else fold modifier_step (nd_Children child) st) cs st)"
    if "?ok st" for cs st
    by (rule fold_invariant [where Q = "\<lambda>_. True"]) (use that mods in auto)
  from this [of "(''internal'', False, False)" "named_children n"] show ?thesis
    by (auto simp: inspect_java_field_modifiers_def split: prod.split)
qed

lemma java_symbols_ok: "s \<in> set (extract_java_field_symbols source chunks n) \<Longrightarrow> symbol_ok cfg chunks s"
proof -
  obtain v c where v: "inspect_java_field_modifiers n = (v, c)" by fastforce
  with java_visibility [of n] have "v \<in> {''public'', ''private'', ''internal''}" by simp
  then show "s \<in> set (extract_java_field_symbols source chunks n) \<Longrightarrow> symbol_ok cfg chunks s"
    unfolding extract_java_field_symbols_def v Let_def prod.case
    by (rule_tac spec_symbols_ok) (auto simp: symbol_ok_def symbol_kinds_def visibility_valid_def)
qed

lemma module_only_rust:
  "list_all (\<lambda>(lang, cfg). lc_Name cfg = lang \<and> (lang = ''rust'' \<or> list_all (\<lambda>(_, m). nm_SymbolKind m \<noteq> ''module'') (lc_Nodes cfg))) language_registry"
  by code_simp

lemma meta_symbol_kind:
  assumes "get_language_config lang = Inr cfg" and "nm_SymbolKind (meta_of cfg k) \<noteq> []"
  shows "nm_SymbolKind (meta_of cfg k) \<in> symbol_kinds \<union> (if lc_Name cfg = ''rust'' then {''module''} else {})"
proof -
  have "(lang, cfg) \<in> set language_registry"
    using assms(1) by (auto simp: get_language_config_def split: option.splits dest: map_of_SomeD)
  then have "lc_Name cfg = lang" "lang = ''rust'' \<or> (\<forall>(k, m) \<in> set (lc_Nodes cfg). nm_SymbolKind m \<noteq> ''module'')"
    using module_only_rust by (auto simp: list_all_iff)
  moreover obtain m where "map_of (lc_Nodes cfg) k = Some m" "meta_of cfg k = m"
    using assms(2) by (auto simp: meta_of_def zero_meta_def split: option.splits)
  moreover from this have "(k, m) \<in> set (lc_Nodes cfg)" by (simp add: map_of_SomeD)
  ultimately show ?thesis using meta_symbol_kind_ok [OF assms] by (auto simp: symbol_kinds_def)
qed

lemma own_symbol_ok:
  assumes "get_language_config lang = Inr cfg" and "nm_SymbolKind (meta_of cfg (nd_Kind n)) \<noteq> []"
    and "s \<in> set (own_symbol upper cfg source exported chunks n)"
  shows "symbol_ok cfg chunks s"
  using assms(3) meta_symbol_kind [OF assms(1,2)] by (auto simp: own_symbol_def Let_def intro: build_symbol_ok split: if_splits)

lemmas extractor_defs = extract_variable_symbols_def extract_go_var_symbols_def extract_go_type_symbols_def

lemma extracted_ok:
  "s \<in> set (extract_variable_symbols source exported chunks n) \<Longrightarrow> symbol_ok cfg chunks s"
  "s \<in> set (extract_go_var_symbols upper cfg' source chunks n) \<Longrightarrow> symbol_ok cfg chunks s"
  "s \<in> set (extract_go_type_symbols upper cfg' source chunks n) \<Longrightarrow> symbol_ok cfg chunks s"
  by (auto simp: extractor_defs Let_def symbol_kinds_def intro!: build_symbol_ok elim!: spec_symbols_ok [rotated] split: if_splits)

lemma walk_symbols_cases:
  assumes "s \<in> set (walk_for_symbols upper cfg source chunks exported n)"
  obtains (child) c e where "c \<in> set (named_children n)" and "s \<in> set (walk_for_symbols upper cfg source chunks e c)"
  | (variable) "s \<in> set (extract_variable_symbols source exported chunks n)"
  | (go_var) "s \<in> set (extract_go_var_symbols upper cfg source chunks n)"
  | (go_type) "s \<in> set (extract_go_type_symbols upper cfg source chunks n)"
  | (java) "s \<in> set (extract_java_field_symbols source chunks n)"
  | (own) "nm_SymbolKind (meta_of cfg (nd_Kind n)) \<noteq> []" and "s \<in> set (own_symbol upper cfg source exported chunks n)"
  using assms by (subst (asm) walk_for_symbols.simps) (auto simp: Let_def split: if_splits)

lemma walk_symbols_ok:
  assumes "get_language_config lang = Inr cfg"
  shows "s \<in> set (walk_for_symbols upper cfg source chunks exported n) \<Longrightarrow> symbol_ok cfg chunks s"
proof (induction "size n" arbitrary: n exported rule: less_induct)
  case less
  from less.prems show ?case
  proof (cases rule: walk_symbols_cases)
    case (child c e)
    from less.hyps [OF size_named_children [OF child(1)] child(2)] show ?thesis .
  next
    case own
    from own_symbol_ok [OF assms own] show ?thesis .
  qed (erule extracted_ok java_symbols_ok)+
qed

section \<open>The header chunk spans the code between its parts\<close>

lemma merge_large_id:
  "\<forall>c \<in> set cs. min_chunk_tokens \<le> cr_TokenCount c \<or> cr_Kind c = ''header'' \<Longrightarrow> merge_small_chunks tc cs = cs"
proof -
  have "fold (merge_step tc) cs [] = cs"
    if "\<forall>c \<in> set cs. min_chunk_tokens \<le> cr_TokenCount c \<or> cr_Kind c = ''header''" for cs
    using that by (induction cs rule: rev_induct) (auto simp: merge_step_def)
  then show "\<forall>c \<in> set cs. min_chunk_tokens \<le> cr_TokenCount c \<or> cr_Kind c = ''header'' \<Longrightarrow> merge_small_chunks tc cs = cs"
    by (simp add: merge_small_chunks_def)
qed

lemma split_large_first:
  "cr_TokenCount c \<le> max_chunk_tokens \<Longrightarrow> \<exists>rest. split_large_chunks tc (c # cs) = c # rest"
proof (induction cs rule: rev_induct)
  case (snoc d cs)
  then show ?case using split_large_chunks_snoc [of tc "c # cs" d] by auto
qed (simp add: split_large_chunks_def)

definition header_of :: "(string \<Rightarrow> int) \<Rightarrow> language_config \<Rightarrow> string \<Rightarrow> node \<Rightarrow> chunk_record" where
  "header_of tc cfg source tree = build_header_chunk tc (map (fragment_of source) (header_nodes cfg tree))"

lemma chunk_file_header:
  assumes "header_nodes cfg tree \<noteq> []" and "cr_TokenCount (header_of tc cfg source tree) \<le> max_chunk_tokens"
    and "\<forall>c \<in> set (walked_chunks tc cfg source tree). min_chunk_tokens \<le> cr_TokenCount c \<or> cr_Kind c = ''header''"
  shows "\<exists>rest. chunk_file tc cfg source tree = (header_of tc cfg source tree)\<lparr>cr_ChunkIndex := 0, cr_ParseQuality := ''full''\<rparr> # rest"
proof -
  obtain cs where w: "walked_chunks tc cfg source tree = (header_of tc cfg source tree)\<lparr>cr_ChunkIndex := 0\<rparr> # cs"
    using assms(1) by (simp add: walked_chunks_def assemble_chunks_def header_of_def)
  have "cr_TokenCount ((header_of tc cfg source tree)\<lparr>cr_ChunkIndex := 0\<rparr>) \<le> max_chunk_tokens" using assms(2) by simp
  from split_large_first [OF this, of tc cs] obtain rest
    where "split_large_chunks tc (walked_chunks tc cfg source tree) = (header_of tc cfg source tree)\<lparr>cr_ChunkIndex := 0\<rparr> # rest"
    unfolding w by blast
  moreover have "reindex 0 (c # cs) = c\<lparr>cr_ChunkIndex := 0\<rparr> # reindex 1 cs" for c cs
    by (rule nth_equalityI) (simp_all add: nth_Cons split: nat.split)
  ultimately show ?thesis by (simp add: chunk_file_walked merge_large_id [OF assms(3)])
qed

lemma header_lines:
  assumes "header_nodes cfg tree \<noteq> []"
  shows "cr_StartLine (header_of tc cfg source tree) = start_line (hd (header_nodes cfg tree))"
    and "cr_EndLine (header_of tc cfg source tree) = end_line (last (header_nodes cfg tree))"
  using assms by (simp_all add: header_of_def build_header_chunk_def Let_def hd_map last_map fragment_of_def)

text \<open>Every symbol has a name, a kind the parser knows, a visibility the schema accepts that agrees with its
  export flag, and the first chunk that contains its line, or \<open>-1\<close> when none does; the kind \<open>module\<close>, which the
  schema does not know, occurs in Rust only.\<close>

theorem symbols_located:
  assumes "get_language_config lang = Inr cfg" and "s \<in> set (extract_symbols upper cfg source chunks tree)"
  shows "sy_Name s \<noteq> [] \<and> (sy_Kind s \<in> symbol_kinds \<or> lang = ''rust'' \<and> sy_Kind s = ''module'')
    \<and> visibility_valid (sy_Visibility s) \<and> (sy_IsExported s \<longleftrightarrow> sy_Visibility s \<in> {''exported'', ''public''})
    \<and> located (sy_ChunkID s) (sy_Line s) chunks"
proof -
  have "(lang, cfg) \<in> set language_registry"
    using assms(1) by (auto simp: get_language_config_def split: option.splits dest: map_of_SomeD)
  then have "lc_Name cfg = lang" using module_only_rust by (auto simp: list_all_iff)
  with walk_symbols_ok [OF assms(1)] assms(2) show ?thesis
    using find_containing_located by (fastforce simp: extract_symbols_def symbol_ok_def split: if_splits)
qed

text \<open>The header chunk is the first chunk and its lines run from the first to the last of its parts, which may be the
  whole file (an import at the top, a main block at the end): every symbol in between is attributed to the
  header instead of the chunk that holds its code.\<close>

theorem header_takes_symbols:
  assumes "header_nodes cfg tree \<noteq> []" and "cr_TokenCount (header_of tc cfg source tree) \<le> max_chunk_tokens"
    and "\<forall>c \<in> set (walked_chunks tc cfg source tree). min_chunk_tokens \<le> cr_TokenCount c \<or> cr_Kind c = ''header''"
    and "get_language_config lang = Inr cfg" and "s \<in> set (extract_symbols upper cfg source (chunk_file tc cfg source tree) tree)"
    and "start_line (hd (header_nodes cfg tree)) \<le> sy_Line s" and "sy_Line s \<le> end_line (last (header_nodes cfg tree))"
  shows "sy_ChunkID s = 0 \<and> cr_Kind (chunk_file tc cfg source tree ! 0) = ''header''"
proof -
  from chunk_file_header [OF assms(1,2,3)] obtain rest
    where chunks: "chunk_file tc cfg source tree = (header_of tc cfg source tree)\<lparr>cr_ChunkIndex := 0, cr_ParseQuality := ''full''\<rparr> # rest" ..
  have "symbol_ok cfg (chunk_file tc cfg source tree) s"
    using walk_symbols_ok [OF assms(4)] assms(5) by (simp add: extract_symbols_def)
  then have "sy_ChunkID s = find_containing_chunk (sy_Line s) (chunk_file tc cfg source tree)" by (simp add: symbol_ok_def)
  with chunks show ?thesis
    using assms(6,7) header_lines [OF assms(1), of tc source]
    by (simp add: find_containing_chunk_def) (simp add: header_of_def build_header_chunk_def Let_def)
qed

lemma sample_python: "get_language_config ''python'' = Inr python_config"
  by (simp add: get_language_config_def language_registry_def)

abbreviation sample_file_chunks :: "chunk_record list" where
  "sample_file_chunks \<equiv> chunk_file sample_count python_config sample_source sample_tree"

lemma sample_symbols:
  "map (\<lambda>s. (sy_Name s, sy_Kind s, sy_Line s, sy_ChunkID s)) (extract_symbols (\<lambda>_. False) python_config sample_source sample_file_chunks sample_tree)
   = [(''run'', ''function'', 3, 0)]"
  by code_simp

lemma sample_symbol:
  obtains s where "s \<in> set (extract_symbols (\<lambda>_. False) python_config sample_source sample_file_chunks sample_tree)"
    and "sy_Name s = ''run''" and "sy_Line s = 3"
  using sample_symbols by (auto simp: map_eq_Cons_conv)

theorem symbols_located_witness:
  "\<exists>s :: symbol_record. sy_Name s = ''run'' \<and> located (sy_ChunkID s) (sy_Line s) sample_file_chunks \<and> sy_Kind s \<in> symbol_kinds"
proof -
  from sample_symbol obtain s where s: "s \<in> set (extract_symbols (\<lambda>_. False) python_config sample_source sample_file_chunks sample_tree)"
    "sy_Name s = ''run''" by blast
  from symbols_located [OF sample_python s(1)] s(2)
  have "sy_Name s = ''run'' \<and> located (sy_ChunkID s) (sy_Line s) sample_file_chunks \<and> sy_Kind s \<in> symbol_kinds" by simp
  then show ?thesis by blast
qed

theorem header_takes_symbols_witness:
  "\<exists>s \<in> set (extract_symbols (\<lambda>_. False) python_config sample_source sample_file_chunks sample_tree).
     sy_Name s = ''run'' \<and> sy_ChunkID s = 0 \<and> contains_line (sample_file_chunks ! 1) (sy_Line s)"
proof -
  from sample_symbol obtain s where s: "s \<in> set (extract_symbols (\<lambda>_. False) python_config sample_source sample_file_chunks sample_tree)"
    "sy_Name s = ''run''" "sy_Line s = 3" by blast
  have "header_nodes python_config sample_tree \<noteq> []" "cr_TokenCount (header_of sample_count python_config sample_source sample_tree) \<le> max_chunk_tokens"
    "start_line (hd (header_nodes python_config sample_tree)) \<le> 3" "3 \<le> end_line (last (header_nodes python_config sample_tree))"
    by code_simp+
  moreover have "list_all (\<lambda>c. min_chunk_tokens \<le> cr_TokenCount c \<or> cr_Kind c = ''header'') (walked_chunks sample_count python_config sample_source sample_tree)"
    by code_simp
  moreover have "contains_line (sample_file_chunks ! 1) 3" by code_simp
  ultimately show ?thesis
    using header_takes_symbols [OF _ _ _ sample_python s(1)] s by (auto simp: list_all_iff)
qed

end
