(* ===== verification/Parser_Edges.thy ===== *)
theory Parser_Edges
  imports Parser_Symbols
begin

text \<open>
  \<open>internal/parser/edges.go\<close>: imports, calls and inheritance found in a tree, as a walk that threads the
  edge context. The Go binding of tree-sitter makes a handle for a node whenever it is asked for
  one, and \<open>pyImportEdges\<close> compares handles: the field \<open>ec_same_handle\<close> says whether two handles of one
  node are equal.
\<close>

record edge_context =
  ec_source :: string
  ec_cfg :: language_config
  ec_edges :: "edge_record list"
  ec_seen :: "string set"
  ec_importOwner :: string
  ec_same_handle :: bool

definition bar :: char where "bar = CHR ''|''"

definition edge_key :: "string \<Rightarrow> string \<Rightarrow> string \<Rightarrow> string \<Rightarrow> string" where
  "edge_key src dst qualifiedDst kind = src @ [bar] @ dst @ [bar] @ qualifiedDst @ [bar] @ kind"

definition add_edge_qualified :: "string \<Rightarrow> string \<Rightarrow> string \<Rightarrow> string \<Rightarrow> edge_context \<Rightarrow> edge_context" where
  "add_edge_qualified src dst qualifiedDst kind ctx =
     (if dst = [] then ctx
      else
        let key = edge_key src dst qualifiedDst kind in
        if key \<in> ec_seen ctx then ctx
        else ctx\<lparr>ec_seen := insert key (ec_seen ctx),
               ec_edges := ec_edges ctx @
                 [\<lparr>er_ID = 0, er_SrcSymbolID = 0, er_DstSymbolID = 0, er_SrcSymbolName = src, er_DstSymbolName = dst,
                   er_DstQualifiedName = qualifiedDst, er_Kind = kind, er_FileID = 0, er_IsCrossFile = (kind = ''imports'')\<rparr>]\<rparr>)"

definition add_edge :: "string \<Rightarrow> string \<Rightarrow> string \<Rightarrow> edge_context \<Rightarrow> edge_context" where
  "add_edge src dst kind = add_edge_qualified src dst [] kind"

section \<open>Imports\<close>

definition quotes :: "char set" where "quotes = {CHR 0x22, CHR 0x27, CHR 0x60}"

definition import_short :: "string \<Rightarrow> string \<Rightarrow> node \<Rightarrow> edge_context \<Rightarrow> edge_context" where
  "import_short owner modulePath n ctx =
     (let shortName = utf8_text n (ec_source ctx)
      in add_edge_qualified owner shortName (modulePath @ ''/'' @ shortName) ''imports'' ctx)"

definition ts_import_clause_child :: "string \<Rightarrow> string \<Rightarrow> node \<Rightarrow> edge_context \<Rightarrow> edge_context" where
  "ts_import_clause_child owner modulePath child ctx =
     (if nd_Kind child = ''identifier'' then import_short owner modulePath child ctx
      else if nd_Kind child = ''named_imports''
      then fold (\<lambda>spec ctx.
             if nd_Kind spec \<noteq> ''import_specifier'' then ctx
             else (case child_by_field ''name'' spec of
                     None \<Rightarrow> ctx
                   | Some name \<Rightarrow> import_short owner modulePath name ctx)) (named_children child) ctx
      else if nd_Kind child = ''namespace_import''
      then (let name = extract_name (ec_source ctx) child
            in if name \<noteq> [] then add_edge_qualified owner name modulePath ''imports'' ctx else ctx)
      else ctx)"

definition ts_import_edges :: "node \<Rightarrow> string \<Rightarrow> edge_context \<Rightarrow> edge_context" where
  "ts_import_edges n owner ctx =
     (case find_child_by_type n ''import_clause'' of
        None \<Rightarrow> ctx
      | Some clause \<Rightarrow>
          let modulePath = (case find_child_by_type n ''string'' of
                              None \<Rightarrow> [] | Some src \<Rightarrow> trim_both quotes (utf8_text src (ec_source ctx)))
          in fold (ts_import_clause_child owner modulePath) (named_children clause) ctx)"

definition py_import_name :: "string \<Rightarrow> string \<Rightarrow> string \<Rightarrow> edge_context \<Rightarrow> edge_context" where
  "py_import_name owner modulePrefix content ctx =
     add_edge_qualified owner content (if modulePrefix \<noteq> [] then modulePrefix @ ''.'' @ content else content) ''imports'' ctx"

text \<open>The closure \<open>walk\<close> of \<open>pyImportEdges\<close>; only children of the import node itself can be its module field.\<close>

function py_import_walk :: "string \<Rightarrow> string \<Rightarrow> node option \<Rightarrow> node \<Rightarrow> edge_context \<Rightarrow> edge_context" where
  "py_import_walk owner modulePrefix moduleField n ctx =
     (if nd_Kind n = ''dotted_name'' then py_import_name owner modulePrefix (utf8_text n (ec_source ctx)) ctx
      else if nd_Kind n = ''aliased_import''
      then (case child_by_field ''name'' n of
              None \<Rightarrow> ctx
            | Some name \<Rightarrow> py_import_name owner modulePrefix (utf8_text name (ec_source ctx)) ctx)
      else if nd_Kind n = ''wildcard_import'' then ctx
      else fold (\<lambda>child ctx.
             if ec_same_handle ctx \<and> Some child = moduleField then ctx
             else py_import_walk owner modulePrefix None child ctx) (named_children n) ctx)"
  by pat_completeness auto
termination
  by (relation "measure (\<lambda>(owner, modulePrefix, moduleField, n, ctx). size n)") (auto simp: child_size)

definition py_import_edges :: "node \<Rightarrow> string \<Rightarrow> edge_context \<Rightarrow> edge_context" where
  "py_import_edges n owner ctx =
     (let moduleField = child_by_field ''module_name'' n;
          modulePrefix = (case moduleField of None \<Rightarrow> [] | Some m \<Rightarrow> utf8_text m (ec_source ctx))
      in py_import_walk owner modulePrefix moduleField n ctx)"

function go_import_edges :: "node \<Rightarrow> string \<Rightarrow> edge_context \<Rightarrow> edge_context" where
  "go_import_edges n owner ctx =
     (if nd_Kind n = ''import_spec''
      then (case child_by_field ''path'' n of
              None \<Rightarrow> ctx
            | Some path \<Rightarrow>
                let pkgPath = trim_both {CHR 0x22} (utf8_text path (ec_source ctx));
                    pkgName = last (split_on (CHR ''/'') pkgPath)
                in add_edge_qualified owner pkgName pkgPath ''imports'' ctx)
      else fold (\<lambda>child. go_import_edges child owner) (named_children n) ctx)"
  by pat_completeness auto
termination
  by (relation "measure (\<lambda>(n, owner, ctx). size n)") (auto simp: child_size)

function java_import_edges :: "node \<Rightarrow> string \<Rightarrow> edge_context \<Rightarrow> edge_context" where
  "java_import_edges n owner ctx =
     (if nd_Kind n = ''scoped_identifier''
      then (case child_by_field ''name'' n of
              None \<Rightarrow> ctx
            | Some name \<Rightarrow> add_edge_qualified owner (utf8_text name (ec_source ctx)) (utf8_text n (ec_source ctx)) ''imports'' ctx)
      else if nd_Kind n = ''identifier''
      then add_edge_qualified owner (utf8_text n (ec_source ctx)) (utf8_text n (ec_source ctx)) ''imports'' ctx
      else fold (\<lambda>child. java_import_edges child owner) (named_children n) ctx)"
  by pat_completeness auto
termination
  by (relation "measure (\<lambda>(n, owner, ctx). size n)") (auto simp: child_size)

definition rust_list_item :: "string \<Rightarrow> string \<Rightarrow> node \<Rightarrow> edge_context \<Rightarrow> edge_context" where
  "rust_list_item owner pre child ctx =
     (let shortName = utf8_text child (ec_source ctx)
      in add_edge_qualified owner shortName (if pre \<noteq> [] then pre @ ''::'' @ shortName else shortName) ''imports'' ctx)"

definition rust_scoped_name :: "node \<Rightarrow> string \<Rightarrow> edge_context \<Rightarrow> edge_context" where
  "rust_scoped_name n owner ctx =
     (case child_by_field ''name'' n of
        None \<Rightarrow> ctx
      | Some name \<Rightarrow> add_edge_qualified owner (utf8_text name (ec_source ctx)) (utf8_text n (ec_source ctx)) ''imports'' ctx)"

text \<open>Go's \<open>switch\<close> does not fall through: a \<open>use_as_clause\<close> without alias goes on to the children.\<close>

function rust_import_edges :: "node \<Rightarrow> string \<Rightarrow> edge_context \<Rightarrow> edge_context" where
  "rust_import_edges n owner ctx =
     (if (if nd_Kind n = ''use_as_clause'' then child_by_field ''alias'' n \<noteq> None else False)
      then add_edge_qualified owner (utf8_text (the (child_by_field ''alias'' n)) (ec_source ctx))
             (case child_by_field ''path'' n of None \<Rightarrow> [] | Some path \<Rightarrow> utf8_text path (ec_source ctx)) ''imports'' ctx
      else if nd_Kind n = ''scoped_identifier'' then rust_scoped_name n owner ctx
      else if nd_Kind n = ''identifier''
      then add_edge_qualified owner (utf8_text n (ec_source ctx)) (utf8_text n (ec_source ctx)) ''imports'' ctx
      else if nd_Kind n = ''scoped_use_list''
      then (case child_by_field ''list'' n of
              None \<Rightarrow> ctx
            | Some uses \<Rightarrow>
                let pre = (case child_by_field ''path'' n of None \<Rightarrow> [] | Some p \<Rightarrow> utf8_text p (ec_source ctx))
                in fold (\<lambda>child ctx.
                     if nd_Kind child = ''identifier'' then rust_list_item owner pre child ctx
                     else rust_import_edges child owner ctx) (named_children uses) ctx)
      else if nd_Kind n = ''use_wildcard'' then ctx
      else fold (\<lambda>child. rust_import_edges child owner) (named_children n) ctx)"
  by pat_completeness auto
termination
proof (relation "measure (\<lambda>(n, owner, ctx). size n)", goal_cases)
  case (2 n owner ctx uses pre child)
  then show ?case using size_child_by_field size_named_children by (fastforce intro: less_trans)
qed (auto simp: child_size)

declare py_import_walk.simps [simp del] go_import_edges.simps [simp del] java_import_edges.simps [simp del]
  rust_import_edges.simps [simp del]

definition extract_import_edges_from :: "node \<Rightarrow> string \<Rightarrow> edge_context \<Rightarrow> edge_context" where
  "extract_import_edges_from n owner0 ctx =
     (let owner = (if owner0 = [] \<and> ec_importOwner ctx \<noteq> [] then ec_importOwner ctx else owner0);
          lang = lc_Name (ec_cfg ctx) in
      if lang = ''typescript'' then ts_import_edges n owner ctx
      else if lang = ''javascript'' then ts_import_edges n owner ctx
      else if lang = ''python'' then py_import_edges n owner ctx
      else if lang = ''go'' then go_import_edges n owner ctx
      else if lang = ''java'' then java_import_edges n owner ctx
      else if lang = ''rust'' then rust_import_edges n owner ctx
      else ctx)"

section \<open>Calls\<close>

definition receiver_fields :: "(string \<times> string \<times> string) list" where
  "receiver_fields =
     [(''member_expression'', ''object'', ''property''), (''selector_expression'', ''operand'', ''field''),
      (''attribute'', ''object'', ''attribute''), (''field_access'', ''object'', ''field'')]"

text \<open>\<open>resolveCallee\<close>, with \<open>joinReceiverProp\<close> written out at the four kinds of \<open>receiver_fields\<close>.\<close>

function resolve_callee :: "string \<Rightarrow> node \<Rightarrow> string" where
  "resolve_callee source n =
     (if nd_Kind n \<in> set name_kinds then utf8_text n source
      else if nd_Kind n = ''scoped_identifier''
      then (case child_by_field ''path'' n of
              None \<Rightarrow> []
            | Some path \<Rightarrow>
                (case child_by_field ''name'' n of
                   None \<Rightarrow> []
                 | Some name \<Rightarrow>
                     let leftStr = resolve_callee source path; rightStr = utf8_text name source in
                     if leftStr \<noteq> [] \<and> rightStr \<noteq> [] then leftStr @ ''::'' @ rightStr
                     else if rightStr \<noteq> [] then rightStr else []))
      else (case map_of receiver_fields (nd_Kind n) of
              None \<Rightarrow> []
            | Some (receiverField, propField) \<Rightarrow>
                (case child_by_field propField n of
                   None \<Rightarrow> []
                 | Some prop \<Rightarrow>
                     (case child_by_field receiverField n of
                        None \<Rightarrow> utf8_text prop source
                      | Some receiver \<Rightarrow>
                          let receiverText = resolve_callee source receiver in
                          if receiverText = [] then utf8_text prop source
                          else receiverText @ ''.'' @ utf8_text prop source))))"
  by pat_completeness auto
termination
  by (relation "measure (\<lambda>(source, n). size n)") (auto simp: child_size)

declare resolve_callee.simps [simp del]

definition extract_callee_name :: "string \<Rightarrow> node \<Rightarrow> string" where
  "extract_callee_name source n =
     (case child_by_field ''function'' n of
        Some fn \<Rightarrow> resolve_callee source fn
      | None \<Rightarrow> (case child_by_field ''name'' n of Some name \<Rightarrow> utf8_text name source | None \<Rightarrow> []))"

section \<open>Inheritance\<close>

function heritage_type_names :: "string \<Rightarrow> string \<Rightarrow> node \<Rightarrow> edge_context \<Rightarrow> edge_context" where
  "heritage_type_names owner kind n ctx =
     (if nd_Kind n \<in> {''type_identifier'', ''identifier''} then add_edge owner (utf8_text n (ec_source ctx)) kind ctx
      else fold (heritage_type_names owner kind) (named_children n) ctx)"
  by pat_completeness auto
termination
  by (relation "measure (\<lambda>(owner, kind, n, ctx). size n)") (auto simp: child_size)

declare heritage_type_names.simps [simp del]

definition extract_python_bases :: "node \<Rightarrow> string \<Rightarrow> edge_context \<Rightarrow> edge_context" where
  "extract_python_bases n owner ctx =
     fold (\<lambda>child ctx.
         if nd_Kind child = ''identifier'' then add_edge owner (utf8_text child (ec_source ctx)) ''inherits'' ctx
         else if nd_Kind child = ''attribute''
         then (case child_by_field ''attribute'' child of
                 None \<Rightarrow> ctx
               | Some attr \<Rightarrow> add_edge owner (utf8_text attr (ec_source ctx)) ''inherits'' ctx)
         else if nd_Kind child = ''keyword_argument'' then ctx
         else (let name = extract_name (ec_source ctx) child
               in if name \<noteq> [] then add_edge owner name ''inherits'' ctx else ctx)) (named_children n) ctx"

section \<open>The walk\<close>

definition call_kinds :: "string list" where
  "call_kinds = [''call_expression'', ''call'', ''method_invocation'', ''function_call'']"

definition new_owner :: "language_config \<Rightarrow> string \<Rightarrow> string \<Rightarrow> node \<Rightarrow> string" where
  "new_owner cfg source owner n =
     (if nm_SymbolKind (meta_of cfg (nd_Kind n)) \<noteq> [] \<and> extract_name source n \<noteq> [] then extract_name source n else owner)"

definition call_edge :: "string \<Rightarrow> node \<Rightarrow> edge_context \<Rightarrow> edge_context" where
  "call_edge owner n ctx =
     (if nd_Kind n \<in> set call_kinds
      then (let callee = extract_callee_name (ec_source ctx) n in if callee \<noteq> [] then add_edge owner callee ''calls'' ctx else ctx)
      else ctx)"

definition heritage_kind :: "string \<Rightarrow> string option" where
  "heritage_kind k =
     (if k \<in> {''extends_clause'', ''class_heritage'', ''superclass''} then Some ''inherits''
      else if k \<in> {''implements_clause'', ''super_interfaces''} then Some ''implements''
      else None)"

definition python_bases :: "node \<Rightarrow> string \<Rightarrow> edge_context \<Rightarrow> edge_context" where
  "python_bases n owner ctx =
     (if nd_Kind n = ''class_definition'' \<and> lc_Name (ec_cfg ctx) = ''python''
      then (case child_by_field ''superclasses'' n of None \<Rightarrow> ctx | Some s \<Rightarrow> extract_python_bases s owner ctx)
      else ctx)"

function walk_for_edges :: "node \<Rightarrow> string \<Rightarrow> edge_context \<Rightarrow> edge_context" where
  "walk_for_edges n owner ctx =
     (if lc_ExportType (ec_cfg ctx) \<noteq> [] \<and> nd_Kind n = lc_ExportType (ec_cfg ctx)
      then fold (\<lambda>child. walk_for_edges child owner) (named_children n) ctx
      else if nd_Kind n = ''decorated_definition''
      then fold (\<lambda>child ctx. if nd_Kind child \<noteq> ''decorator'' then walk_for_edges child owner ctx else ctx) (named_children n) ctx
      else if nm_IsImport (meta_of (ec_cfg ctx) (nd_Kind n)) then extract_import_edges_from n owner ctx
      else
        let newOwner = new_owner (ec_cfg ctx) (ec_source ctx) owner n;
            ctx1 = call_edge newOwner n ctx in
        (case heritage_kind (nd_Kind n) of
           Some kind \<Rightarrow> heritage_type_names newOwner kind n ctx1
         | None \<Rightarrow> fold (\<lambda>child. walk_for_edges child newOwner) (named_children n) (python_bases n newOwner ctx1)))"
  by pat_completeness auto
termination
  by (relation "measure (\<lambda>(n, owner, ctx). size n)") (auto simp: child_size)

declare walk_for_edges.simps [simp del]

definition import_owner :: "symbol_record list \<Rightarrow> string" where
  "import_owner symbols = (case find (\<lambda>s. sy_Name s \<noteq> [] \<and> sy_Name s \<noteq> ''_'') symbols of Some s \<Rightarrow> sy_Name s | None \<Rightarrow> [])"

definition extract_edges :: "bool \<Rightarrow> language_config \<Rightarrow> string \<Rightarrow> symbol_record list \<Rightarrow> node \<Rightarrow> edge_record list" where
  "extract_edges same_handle cfg source symbols tree =
     ec_edges (walk_for_edges tree []
       \<lparr>ec_source = source, ec_cfg = cfg, ec_edges = [], ec_seen = {}, ec_importOwner = import_owner symbols,
        ec_same_handle = same_handle\<rparr>)"

section \<open>The context only grows\<close>

definition key_of :: "edge_record \<Rightarrow> string" where
  "key_of e = edge_key (er_SrcSymbolName e) (er_DstSymbolName e) (er_DstQualifiedName e) (er_Kind e)"

definition edge_ok :: "edge_record \<Rightarrow> bool" where
  "edge_ok e \<longleftrightarrow> er_DstSymbolName e \<noteq> [] \<and> edge_kind_valid (er_Kind e) \<and> (er_IsCrossFile e \<longleftrightarrow> er_Kind e = ''imports'')
     \<and> (er_Kind e \<noteq> ''imports'' \<longrightarrow> er_DstQualifiedName e = [])"

definition ctx_ok :: "edge_context \<Rightarrow> bool" where
  "ctx_ok ctx \<longleftrightarrow> ec_seen ctx = key_of ` set (ec_edges ctx) \<and> distinct (map key_of (ec_edges ctx)) \<and> (\<forall>e \<in> set (ec_edges ctx). edge_ok e)"

text \<open>\<open>grows K ctx ctx'\<close>: edges of the kinds \<open>K\<close> have been appended, and nothing else has changed.\<close>

definition grows :: "string set \<Rightarrow> edge_context \<Rightarrow> edge_context \<Rightarrow> bool" where
  "grows K ctx ctx' \<longleftrightarrow>
     (\<exists>es. ec_edges ctx' = ec_edges ctx @ es \<and> er_Kind ` set es \<subseteq> K) \<and> (ctx_ok ctx \<longrightarrow> ctx_ok ctx')
     \<and> ec_source ctx' = ec_source ctx \<and> ec_cfg ctx' = ec_cfg ctx \<and> ec_importOwner ctx' = ec_importOwner ctx"

lemma grows_refl [simp, intro!]: "grows K ctx ctx"
  by (simp add: grows_def)

lemma grows_trans: "grows K a b \<Longrightarrow> grows K b c \<Longrightarrow> grows K a c"
  unfolding grows_def by (elim conjE exE) (simp add: image_Un)

lemma grows_mono: "grows K a b \<Longrightarrow> K \<subseteq> L \<Longrightarrow> grows L a b"
  unfolding grows_def by blast

lemma grows_fold:
  "(\<And>c ctx. c \<in> set cs \<Longrightarrow> grows K ctx (f c ctx)) \<Longrightarrow> grows K ctx (fold f cs ctx)"
  by (induction cs arbitrary: ctx) (auto intro: grows_trans)

lemma grows_add:
  assumes "kind \<in> K" and "edge_kind_valid kind" and "kind \<noteq> ''imports'' \<Longrightarrow> q = []"
  shows "grows K ctx (add_edge_qualified src dst q kind ctx)"
  using assms by (auto simp: grows_def add_edge_qualified_def ctx_ok_def key_of_def edge_ok_def Let_def)

lemma grows_import [simp, intro]: "grows {''imports''} ctx (add_edge_qualified src dst q ''imports'' ctx)"
  by (rule grows_add) (simp_all add: edge_kind_valid_def)

lemma grows_add_edge: "kind \<in> {''calls'', ''inherits'', ''implements''} \<Longrightarrow> grows {kind} ctx (add_edge src dst kind ctx)"
  unfolding add_edge_def by (rule grows_add) (auto simp: edge_kind_valid_def)

lemma grows_ts: "grows {''imports''} ctx (ts_import_edges n owner ctx)"
proof -
  have "grows {''imports''} ctx (ts_import_clause_child ow p c ctx)" for ow p c ctx
    unfolding ts_import_clause_child_def import_short_def Let_def
    by (auto intro!: grows_fold split: option.split)
  then show ?thesis unfolding ts_import_edges_def Let_def by (auto intro!: grows_fold split: option.split)
qed

lemma grows_py_walk: "grows {''imports''} ctx (py_import_walk owner pre mf n ctx)"
proof (induction "size n" arbitrary: n mf ctx rule: less_induct)
  case less
  show ?case
    by (subst py_import_walk.simps) (auto simp: py_import_name_def intro!: grows_fold less size_named_children split: option.split)
qed

lemma grows_go: "grows {''imports''} ctx (go_import_edges n owner ctx)"
proof (induction "size n" arbitrary: n ctx rule: less_induct)
  case less
  show ?case
    by (subst go_import_edges.simps) (auto simp: Let_def intro!: grows_fold less size_named_children split: option.split)
qed

lemma grows_java: "grows {''imports''} ctx (java_import_edges n owner ctx)"
proof (induction "size n" arbitrary: n ctx rule: less_induct)
  case less
  show ?case
    by (subst java_import_edges.simps) (auto simp: Let_def intro!: grows_fold less size_named_children split: option.split)
qed

lemma grows_rust: "grows {''imports''} ctx (rust_import_edges n owner ctx)"
proof (induction "size n" arbitrary: n ctx rule: less_induct)
  case less
  have nested: "grows {''imports''} ctx (rust_import_edges c owner ctx)"
    if "child_by_field f n = Some m" "c \<in> set (named_children m)" for f m c ctx
    using less size_child_by_field [OF that(1)] size_named_children [OF that(2)] by (meson less_trans)
  note ih = less [OF size_named_children]
  show ?case
    by (subst rust_import_edges.simps)
       (auto simp: Let_def rust_scoped_name_def rust_list_item_def intro!: grows_fold intro: ih nested split: option.split)
qed

lemma grows_imports: "grows {''imports''} ctx (extract_import_edges_from n owner ctx)"
  by (simp add: extract_import_edges_from_def Let_def py_import_edges_def grows_ts grows_py_walk grows_go grows_java grows_rust)

lemma grows_heritage: "kind \<in> {''inherits'', ''implements''} \<Longrightarrow> grows {kind} ctx (heritage_type_names owner kind n ctx)"
proof (induction "size n" arbitrary: n ctx rule: less_induct)
  case less
  then show ?case
    by (subst heritage_type_names.simps) (auto intro!: grows_add_edge grows_fold less size_named_children)
qed

lemma grows_bases: "grows {''inherits''} ctx (python_bases n owner ctx)"
proof -
  have "grows {''inherits''} ctx (extract_python_bases m owner ctx)" for m
    unfolding extract_python_bases_def Let_def by (rule grows_fold) (auto intro!: grows_add_edge split: option.split)
  then show ?thesis by (simp add: python_bases_def split: option.split)
qed

lemma grows_call: "grows {''calls''} ctx (call_edge owner n ctx)"
  by (auto simp: call_edge_def Let_def intro!: grows_add_edge)

definition other_kinds :: "string set" where "other_kinds = {''imports'', ''inherits'', ''implements''}"

lemma grows_others:
  "grows other_kinds ctx (extract_import_edges_from n owner ctx)"
  "heritage_kind k = Some kind \<Longrightarrow> grows other_kinds ctx (heritage_type_names owner kind n ctx)"
  "grows other_kinds ctx (python_bases n owner ctx)"
  using grows_mono [OF grows_imports, of other_kinds] grows_mono [OF grows_heritage, of kind other_kinds] grows_mono [OF grows_bases, of other_kinds]
  by (auto simp: other_kinds_def heritage_kind_def split: if_splits)

text \<open>The four ways the walk treats a node.\<close>

definition is_export :: "language_config \<Rightarrow> node \<Rightarrow> bool" where
  "is_export cfg n \<longleftrightarrow> lc_ExportType cfg \<noteq> [] \<and> nd_Kind n = lc_ExportType cfg"

definition is_decorated :: "language_config \<Rightarrow> node \<Rightarrow> bool" where
  "is_decorated cfg n \<longleftrightarrow> \<not> is_export cfg n \<and> nd_Kind n = ''decorated_definition''"

definition is_plain :: "language_config \<Rightarrow> node \<Rightarrow> bool" where
  "is_plain cfg n \<longleftrightarrow> \<not> is_export cfg n \<and> \<not> is_decorated cfg n \<and> \<not> nm_IsImport (meta_of cfg (nd_Kind n))"

lemma walk_export:
  "is_export (ec_cfg ctx) n \<Longrightarrow> walk_for_edges n owner ctx = fold (\<lambda>child. walk_for_edges child owner) (named_children n) ctx"
  by (subst walk_for_edges.simps) (simp add: is_export_def)

lemma walk_decorated:
  "is_decorated (ec_cfg ctx) n \<Longrightarrow> walk_for_edges n owner ctx
     = fold (\<lambda>child. walk_for_edges child owner) (filter (\<lambda>c. nd_Kind c \<noteq> ''decorator'') (named_children n)) ctx"
proof -
  have "fold (\<lambda>child ctx. if nd_Kind child \<noteq> ''decorator'' then walk_for_edges child owner ctx else ctx) cs ctx
      = fold (\<lambda>child. walk_for_edges child owner) (filter (\<lambda>c. nd_Kind c \<noteq> ''decorator'') cs) ctx" for cs ctx
    by (induction cs arbitrary: ctx) simp_all
  then show "is_decorated (ec_cfg ctx) n \<Longrightarrow> ?thesis"
    by (subst walk_for_edges.simps) (auto simp: is_decorated_def is_export_def)
qed

lemma walk_import:
  "\<not> is_export (ec_cfg ctx) n \<Longrightarrow> \<not> is_decorated (ec_cfg ctx) n \<Longrightarrow> \<not> is_plain (ec_cfg ctx) n \<Longrightarrow>
   walk_for_edges n owner ctx = extract_import_edges_from n owner ctx"
  by (subst walk_for_edges.simps) (auto simp: is_plain_def is_decorated_def is_export_def)

lemma walk_plain:
  "is_plain (ec_cfg ctx) n \<Longrightarrow> walk_for_edges n owner ctx =
     (let ow = new_owner (ec_cfg ctx) (ec_source ctx) owner n; ctx1 = call_edge ow n ctx in
      case heritage_kind (nd_Kind n) of
        Some kind \<Rightarrow> heritage_type_names ow kind n ctx1
      | None \<Rightarrow> fold (\<lambda>child. walk_for_edges child ow) (named_children n) (python_bases n ow ctx1))"
  by (subst walk_for_edges.simps) (auto simp: is_plain_def is_decorated_def is_export_def Let_def)

abbreviation all_kinds :: "string set" where "all_kinds \<equiv> insert ''calls'' other_kinds"

lemma grows_walk: "grows all_kinds ctx (walk_for_edges n owner ctx)"
proof (induction "size n" arbitrary: n owner ctx rule: less_induct)
  case less
  have kids: "grows all_kinds ctx (fold (\<lambda>child. walk_for_edges child ow) cs ctx)" if "set cs \<subseteq> set (named_children n)" for cs ow ctx
    by (rule grows_fold) (use that less size_named_children in blast)
  have all: "grows other_kinds a b \<Longrightarrow> grows all_kinds a b" for a b by (rule grows_mono) auto
  consider "is_export (ec_cfg ctx) n" | "is_decorated (ec_cfg ctx) n" | "is_plain (ec_cfg ctx) n"
    | "\<not> is_export (ec_cfg ctx) n" "\<not> is_decorated (ec_cfg ctx) n" "\<not> is_plain (ec_cfg ctx) n" by blast
  then show ?case
  proof cases
    case 3
    define ow where "ow = new_owner (ec_cfg ctx) (ec_source ctx) owner n"
    have call: "grows all_kinds ctx (call_edge ow n ctx)" by (rule grows_mono [OF grows_call]) simp
    show ?thesis
    proof (cases "heritage_kind (nd_Kind n)")
      case None
      have "grows all_kinds (call_edge ow n ctx) (python_bases n ow (call_edge ow n ctx))" by (rule all [OF grows_others(3)])
      then show ?thesis using None kids [of "named_children n"] call
        by (simp add: walk_plain [OF 3] Let_def flip: ow_def) (blast intro: grows_trans)
    next
      case (Some kind)
      then show ?thesis using grows_trans [OF call all [OF grows_others(2) [OF Some]]]
        by (simp add: walk_plain [OF 3] Let_def flip: ow_def)
    qed
  qed (simp_all add: walk_export walk_decorated walk_import kids all grows_others(1) image_subset_iff)
qed

section \<open>Which calls are recorded\<close>

text \<open>
  \<open>visits cfg source owner n ow m\<close>: the walk that enters \<open>n\<close> with \<open>owner\<close> comes to \<open>m\<close>, where the enclosing symbol
  is \<open>ow\<close>. Decorators, import statements and the clauses that name supertypes are not walked.
\<close>

inductive visits :: "language_config \<Rightarrow> string \<Rightarrow> string \<Rightarrow> node \<Rightarrow> string \<Rightarrow> node \<Rightarrow> bool" for cfg source where
  visit_here: "is_plain cfg n \<Longrightarrow> visits cfg source owner n (new_owner cfg source owner n) n"
| visit_export: "is_export cfg n \<Longrightarrow> c \<in> set (named_children n) \<Longrightarrow> visits cfg source owner c ow m \<Longrightarrow> visits cfg source owner n ow m"
| visit_decorated: "is_decorated cfg n \<Longrightarrow> c \<in> set (named_children n) \<Longrightarrow> nd_Kind c \<noteq> ''decorator'' \<Longrightarrow>
    visits cfg source owner c ow m \<Longrightarrow> visits cfg source owner n ow m"
| visit_child: "is_plain cfg n \<Longrightarrow> heritage_kind (nd_Kind n) = None \<Longrightarrow> c \<in> set (named_children n) \<Longrightarrow>
    visits cfg source (new_owner cfg source owner n) c ow m \<Longrightarrow> visits cfg source owner n ow m"

inductive_simps visits_iff: "visits cfg source owner n ow m"

definition call_pairs :: "language_config \<Rightarrow> string \<Rightarrow> string \<Rightarrow> node \<Rightarrow> (string \<times> string) set" where
  "call_pairs cfg source owner n =
     {(ow, extract_callee_name source m) | ow m. visits cfg source owner n ow m \<and> nd_Kind m \<in> set call_kinds \<and> extract_callee_name source m \<noteq> []}"

definition own_call :: "string \<Rightarrow> string \<Rightarrow> node \<Rightarrow> (string \<times> string) set" where
  "own_call source ow n =
     (if nd_Kind n \<in> set call_kinds \<and> extract_callee_name source n \<noteq> [] then {(ow, extract_callee_name source n)} else {})"

definition calls_of :: "edge_record list \<Rightarrow> (string \<times> string) set" where
  "calls_of es = set (map (\<lambda>e. (er_SrcSymbolName e, er_DstSymbolName e)) (filter (\<lambda>e. er_Kind e = ''calls'') es))"

definition no_bar :: "(string \<times> string) set \<Rightarrow> bool" where
  "no_bar ps \<longleftrightarrow> (\<forall>(a, b) \<in> ps. bar \<notin> set a \<and> bar \<notin> set b)"

lemma visits_export:
  "is_export cfg n \<Longrightarrow> visits cfg source owner n ow m \<longleftrightarrow> (\<exists>c \<in> set (named_children n). visits cfg source owner c ow m)"
  by (subst visits_iff) (auto simp: is_plain_def is_decorated_def)

lemma visits_decorated:
  "is_decorated cfg n \<Longrightarrow> visits cfg source owner n ow m
     \<longleftrightarrow> (\<exists>c \<in> set (filter (\<lambda>c. nd_Kind c \<noteq> ''decorator'') (named_children n)). visits cfg source owner c ow m)"
  by (subst visits_iff) (auto simp: is_plain_def is_decorated_def)

lemma visits_plain:
  "is_plain cfg n \<Longrightarrow> visits cfg source owner n ow m
     \<longleftrightarrow> ow = new_owner cfg source owner n \<and> m = n
       \<or> heritage_kind (nd_Kind n) = None \<and> (\<exists>c \<in> set (named_children n). visits cfg source (new_owner cfg source owner n) c ow m)"
  by (subst visits_iff) (auto simp: is_plain_def is_decorated_def)

lemma visits_import:
  "\<not> is_export cfg n \<Longrightarrow> \<not> is_decorated cfg n \<Longrightarrow> \<not> is_plain cfg n \<Longrightarrow> \<not> visits cfg source owner n ow m"
  by (subst visits_iff) simp

lemma call_pairs_export: "is_export cfg n \<Longrightarrow> call_pairs cfg source owner n = (\<Union>c \<in> set (named_children n). call_pairs cfg source owner c)"
  by (auto simp: call_pairs_def visits_export)

lemma call_pairs_decorated:
  "is_decorated cfg n \<Longrightarrow> call_pairs cfg source owner n
     = (\<Union>c \<in> set (filter (\<lambda>c. nd_Kind c \<noteq> ''decorator'') (named_children n)). call_pairs cfg source owner c)"
  unfolding call_pairs_def visits_decorated by blast

lemma call_pairs_plain:
  "is_plain cfg n \<Longrightarrow> call_pairs cfg source owner n = own_call source (new_owner cfg source owner n) n
     \<union> (if heritage_kind (nd_Kind n) = None
        then \<Union>c \<in> set (named_children n). call_pairs cfg source (new_owner cfg source owner n) c else {})"
  unfolding call_pairs_def visits_plain own_call_def by auto

lemma call_pairs_import:
  "\<not> is_export cfg n \<Longrightarrow> \<not> is_decorated cfg n \<Longrightarrow> \<not> is_plain cfg n \<Longrightarrow> call_pairs cfg source owner n = {}"
  by (simp add: call_pairs_def visits_import)

lemma calls_of_grows:
  assumes "grows other_kinds ctx ctx'"
  shows "calls_of (ec_edges ctx') = calls_of (ec_edges ctx)"
proof -
  obtain es where es: "ec_edges ctx' = ec_edges ctx @ es" "er_Kind ` set es \<subseteq> other_kinds" using assms by (auto simp: grows_def)
  then have "filter (\<lambda>e. er_Kind e = ''calls'') es = []" by (auto simp: filter_empty_conv other_kinds_def)
  with es show ?thesis by (simp add: calls_of_def)
qed

lemma edge_key_call_inj:
  assumes "edge_key src dst [] ''calls'' = edge_key src' dst' q kind" and "edge_kind_valid kind" and "kind = ''calls'' \<longrightarrow> q = []"
    and "bar \<notin> set src" "bar \<notin> set dst" "kind = ''calls'' \<longrightarrow> bar \<notin> set src' \<and> bar \<notin> set dst'"
  shows "kind = ''calls'' \<and> src = src' \<and> dst = dst'"
proof -
  have nb: "bar \<notin> set ''calls''" "bar \<notin> set kind" using assms(2) by (auto simp: edge_kind_valid_def bar_def)
  have "(src @ [bar] @ dst @ [bar]) @ bar # ''calls'' = (src' @ [bar] @ dst' @ [bar] @ q) @ bar # kind"
    using assms(1) by (simp add: edge_key_def)
  from append_sep_inj [OF this nb] have k: "kind = ''calls''" "src @ bar # (dst @ [bar]) = src' @ bar # (dst' @ [bar] @ q)"
    by simp_all
  then show ?thesis using append_sep_inj_prefix [OF k(2)] assms by simp
qed

lemma calls_of_add:
  assumes "ctx_ok ctx" and "no_bar (insert (src, dst) (calls_of (ec_edges ctx)))" and "dst \<noteq> []"
  shows "calls_of (ec_edges (add_edge src dst ''calls'' ctx)) = insert (src, dst) (calls_of (ec_edges ctx))"
proof (cases "edge_key src dst [] ''calls'' \<in> ec_seen ctx")
  case True
  then obtain e where e: "e \<in> set (ec_edges ctx)" "edge_key src dst [] ''calls'' = key_of e" using assms(1) by (auto simp: ctx_ok_def)
  have ok: "edge_ok e" using assms(1) e(1) by (simp add: ctx_ok_def)
  have "er_Kind e = ''calls'' \<and> src = er_SrcSymbolName e \<and> dst = er_DstSymbolName e"
  proof (rule edge_key_call_inj [OF e(2) [unfolded key_of_def]])
    show "er_Kind e = ''calls'' \<longrightarrow> bar \<notin> set (er_SrcSymbolName e) \<and> bar \<notin> set (er_DstSymbolName e)"
      using assms(2) e(1) by (auto simp: no_bar_def calls_of_def)
  qed (use ok assms(2) in \<open>auto simp: edge_ok_def no_bar_def\<close>)
  then have "(src, dst) \<in> calls_of (ec_edges ctx)" using e(1) by (auto simp: calls_of_def)
  then show ?thesis using True assms(3) by (auto simp: add_edge_def add_edge_qualified_def)
qed (use assms(3) in \<open>auto simp: add_edge_def add_edge_qualified_def calls_of_def Let_def\<close>)

lemma call_edge_calls:
  assumes "ctx_ok ctx" and "no_bar (calls_of (ec_edges ctx) \<union> own_call (ec_source ctx) ow n)"
  shows "calls_of (ec_edges (call_edge ow n ctx)) = calls_of (ec_edges ctx) \<union> own_call (ec_source ctx) ow n"
  using calls_of_add [OF assms(1), of ow "extract_callee_name (ec_source ctx) n"] assms(2)
  by (auto simp: call_edge_def own_call_def Let_def)

definition ctx_for :: "language_config \<Rightarrow> string \<Rightarrow> edge_context \<Rightarrow> bool" where
  "ctx_for cfg source ctx \<longleftrightarrow> ctx_ok ctx \<and> ec_cfg ctx = cfg \<and> ec_source ctx = source"

lemma ctx_for_grows: "ctx_for cfg source ctx \<Longrightarrow> grows K ctx ctx' \<Longrightarrow> ctx_for cfg source ctx'"
  by (simp add: ctx_for_def grows_def)

lemma no_bar_Un [simp]: "no_bar (A \<union> B) \<longleftrightarrow> no_bar A \<and> no_bar B"
  by (auto simp: no_bar_def)

lemma walk_children_calls:
  assumes "\<And>c ctx. c \<in> set cs \<Longrightarrow> ctx_for cfg source ctx \<Longrightarrow> no_bar (calls_of (ec_edges ctx) \<union> call_pairs cfg source ow c) \<Longrightarrow>
      calls_of (ec_edges (walk_for_edges c ow ctx)) = calls_of (ec_edges ctx) \<union> call_pairs cfg source ow c"
    and "ctx_for cfg source ctx" and "no_bar (calls_of (ec_edges ctx) \<union> (\<Union>c \<in> set cs. call_pairs cfg source ow c))"
  shows "calls_of (ec_edges (fold (\<lambda>c. walk_for_edges c ow) cs ctx)) = calls_of (ec_edges ctx) \<union> (\<Union>c \<in> set cs. call_pairs cfg source ow c)"
  using assms
proof (induction cs arbitrary: ctx)
  case (Cons c cs)
  have one: "calls_of (ec_edges (walk_for_edges c ow ctx)) = calls_of (ec_edges ctx) \<union> call_pairs cfg source ow c"
    by (rule Cons.prems(1)) (use Cons.prems in simp_all)
  have "calls_of (ec_edges (fold (\<lambda>c. walk_for_edges c ow) cs (walk_for_edges c ow ctx)))
      = calls_of (ec_edges (walk_for_edges c ow ctx)) \<union> (\<Union>c \<in> set cs. call_pairs cfg source ow c)"
  proof (rule Cons.IH)
    show "ctx_for cfg source (walk_for_edges c ow ctx)" by (rule ctx_for_grows [OF Cons.prems(2) grows_walk])
    show "no_bar (calls_of (ec_edges (walk_for_edges c ow ctx)) \<union> (\<Union>c \<in> set cs. call_pairs cfg source ow c))"
      using Cons.prems(3) by (simp add: one)
  qed (simp add: Cons.prems(1))
  with one show ?case by (simp add: Un_assoc)
qed simp

lemma walk_calls:
  "ctx_for cfg source ctx \<Longrightarrow> no_bar (calls_of (ec_edges ctx) \<union> call_pairs cfg source owner n) \<Longrightarrow>
   calls_of (ec_edges (walk_for_edges n owner ctx)) = calls_of (ec_edges ctx) \<union> call_pairs cfg source owner n"
proof (induction "size n" arbitrary: n owner ctx rule: less_induct)
  case less
  have kids: "calls_of (ec_edges (fold (\<lambda>c. walk_for_edges c ow) cs ctx)) = calls_of (ec_edges ctx) \<union> (\<Union>c \<in> set cs. call_pairs cfg source ow c)"
    if "set cs \<subseteq> set (named_children n)" "ctx_for cfg source ctx" "no_bar (calls_of (ec_edges ctx) \<union> (\<Union>c \<in> set cs. call_pairs cfg source ow c))"
    for cs ctx ow
    by (rule walk_children_calls [OF _ that(2,3)]) (use less(1) size_named_children that(1) in blast)
  have cfg: "ec_cfg ctx = cfg" "ec_source ctx = source" using less(2) by (simp_all add: ctx_for_def)
  consider "is_export cfg n" | "is_decorated cfg n" | "is_plain cfg n"
    | "\<not> is_export cfg n" "\<not> is_decorated cfg n" "\<not> is_plain cfg n" by blast
  then show ?case
  proof cases
    case 1
    then show ?thesis using less(2,3) kids [of "named_children n" ctx owner] by (simp add: walk_export cfg call_pairs_export)
  next
    case 2
    then show ?thesis
      using less(2,3) kids [of "filter (\<lambda>c. nd_Kind c \<noteq> ''decorator'') (named_children n)" ctx owner]
      by (simp add: walk_decorated cfg call_pairs_decorated)
  next
    case 3
    define ow where "ow = new_owner cfg source owner n"
    define ctx1 where "ctx1 = call_edge ow n ctx"
    have pairs: "call_pairs cfg source owner n = own_call source ow n
        \<union> (if heritage_kind (nd_Kind n) = None then \<Union>c \<in> set (named_children n). call_pairs cfg source ow c else {})"
      using call_pairs_plain [OF 3] by (simp add: ow_def)
    have one: "calls_of (ec_edges ctx1) = calls_of (ec_edges ctx) \<union> own_call source ow n"
      using call_edge_calls [of ctx ow n] less(2,3) pairs by (simp add: ctx1_def ctx_for_def)
    have for1: "ctx_for cfg source ctx1" using ctx_for_grows [OF less(2) grows_call] by (simp add: ctx1_def)
    show ?thesis
    proof (cases "heritage_kind (nd_Kind n)")
      case None
      define ctx2 where "ctx2 = python_bases n ow ctx1"
      have two: "calls_of (ec_edges ctx2) = calls_of (ec_edges ctx1)" using calls_of_grows [OF grows_others(3)] by (simp add: ctx2_def)
      have "ctx_for cfg source ctx2" using ctx_for_grows [OF for1 grows_others(3)] by (simp add: ctx2_def)
      then show ?thesis
        using less(3) kids [of "named_children n" ctx2 ow] None
        by (simp add: walk_plain cfg 3 Let_def pairs one two Un_assoc flip: ow_def ctx1_def ctx2_def)
    next
      case (Some kind)
      then show ?thesis
        using calls_of_grows [OF grows_others(2) [OF Some]] by (simp add: walk_plain cfg 3 Let_def pairs one flip: ow_def ctx1_def)
    qed
  next
    case 4
    then show ?thesis using calls_of_grows [OF grows_others(1)] by (simp add: walk_import cfg call_pairs_import)
  qed
qed

lemma extract_edges_ok:
  "distinct (map key_of (extract_edges same_handle cfg source symbols tree))
   \<and> (\<forall>e \<in> set (extract_edges same_handle cfg source symbols tree). edge_ok e)"
proof -
  define ctx where "ctx = \<lparr>ec_source = source, ec_cfg = cfg, ec_edges = [], ec_seen = {}, ec_importOwner = import_owner symbols,
    ec_same_handle = same_handle\<rparr>"
  have "ctx_ok ctx" by (simp add: ctx_ok_def ctx_def)
  with grows_walk have "ctx_ok (walk_for_edges tree [] ctx)" by (auto simp: grows_def)
  then show ?thesis by (simp add: ctx_ok_def extract_edges_def ctx_def)
qed

lemma extract_edges_calls:
  assumes "no_bar (call_pairs cfg source [] tree)"
  shows "calls_of (extract_edges same_handle cfg source symbols tree) = call_pairs cfg source [] tree"
  using assms walk_calls [of cfg source "\<lparr>ec_source = source, ec_cfg = cfg, ec_edges = [], ec_seen = {},
    ec_importOwner = import_owner symbols, ec_same_handle = same_handle\<rparr>" "[]" tree]
  by (simp add: extract_edges_def ctx_for_def ctx_ok_def calls_of_def no_bar_def)

text \<open>C6. The edges of a file are pairwise distinct, each names a target, has a kind the schema accepts and crosses
  files exactly when it is an import; and the call edges are exactly the calls the walk comes to, each from the
  innermost enclosing symbol, self-calls included, provided no name contains the separator of the deduplication key.\<close>

theorem extracted_edges_exact:
  "distinct (map key_of (extract_edges same_handle cfg source symbols tree))
   \<and> (\<forall>e \<in> set (extract_edges same_handle cfg source symbols tree). edge_ok e)
   \<and> (no_bar (call_pairs cfg source [] tree) \<longrightarrow>
       calls_of (extract_edges same_handle cfg source symbols tree) = call_pairs cfg source [] tree)"
  using extract_edges_ok extract_edges_calls by blast

abbreviation sample_edges :: "edge_record list" where
  "sample_edges \<equiv> extract_edges False python_config sample_source
     (extract_symbols (\<lambda>_. False) python_config sample_source sample_file_chunks sample_tree) sample_tree"

lemma sample_edges_found:
  "map (\<lambda>e. (er_SrcSymbolName e, er_DstSymbolName e, er_Kind e)) sample_edges = [(''run'', ''os'', ''imports''), ([], ''run'', ''calls'')]"
  by code_simp

theorem extracted_edges_exact_witness:
  "\<exists>e \<in> set sample_edges. edge_ok e \<and> er_DstSymbolName e = ''run'' \<and> er_Kind e = ''calls''"
proof -
  have "([], ''run'', ''calls'') \<in> set (map (\<lambda>e. (er_SrcSymbolName e, er_DstSymbolName e, er_Kind e)) sample_edges)"
    unfolding sample_edges_found by simp
  then obtain e where "e \<in> set sample_edges" "er_DstSymbolName e = ''run''" "er_Kind e = ''calls''"
    unfolding set_map by (elim imageE) simp
  with extracted_edges_exact [of False python_config sample_source] show ?thesis by blast
qed

text \<open>
  \<open>from os.path import join\<close>: when handles of one node differ, the module itself is walked too and
  comes out as an import of \<open>os.path\<close> from \<open>os.path.os.path\<close>.
\<close>

lemma from_import_names_module:
  "map (\<lambda>e. (er_DstSymbolName e, er_DstQualifiedName e))
     (extract_edges same python_config ''from os.path import join'' []
       (Node ''import_from_statement'' [] True 0 24 0 0
         [Node ''dotted_name'' [''module_name''] True 5 12 0 0 [], Node ''dotted_name'' [''name''] True 20 24 0 0 []]))
   = (if same then [] else [(''os.path'', ''os.path.os.path'')]) @ [(''join'', ''os.path.join'')]"
  by (cases same; simp; code_simp)

end
