(* ===== verification/Parser.thy ===== *)
theory Parser
  imports Parser_Edges
begin

text \<open>
  \<open>internal/parser/parser.go\<close>: parsing one file. tree-sitter, the tokenizer and the context's error are
  fields of the environment; \<open>pe_tree\<close> gives no tree, a tree without a root, or the root. The cache of
  configurations only saves work. \<open>Parse\<close> turns a panic of the walks into an error; on trees within
  their source they do not panic.
\<close>

record parser_env =
  pe_count :: "string \<Rightarrow> int"
  pe_upper :: "nat \<Rightarrow> bool"
  pe_same_handle :: bool
  pe_set_language :: "string \<Rightarrow> unit res"
  pe_tree :: "string \<Rightarrow> string \<Rightarrow> node option option"
  pe_ctx_err :: "err option"

record parse_result =
  pr_Chunks :: "chunk_record list"
  pr_Symbols :: "symbol_record list"
  pr_Edges :: "edge_record list"

definition parse_tree :: "parser_env \<Rightarrow> language_config \<Rightarrow> string \<Rightarrow> node \<Rightarrow> parse_result" where
  "parse_tree env cfg content tree =
     (let chunks = chunk_file (pe_count env) cfg content tree;
          symbols = extract_symbols (pe_upper env) cfg content chunks tree;
          edges = extract_edges (pe_same_handle env) cfg content symbols tree
      in \<lparr>pr_Chunks = chunks, pr_Symbols = symbols, pr_Edges = edges\<rparr>)"

definition parse :: "parser_env \<Rightarrow> string \<Rightarrow> string \<Rightarrow> string \<Rightarrow> parse_result res" where
  "parse env path content lang =
     bind_res (wrap_res (''get language config for '' @ lang) (get_language_config lang)) (\<lambda>cfg.
     bind_res (wrap_res (''set language '' @ lang) (pe_set_language env lang)) (\<lambda>_.
       (case pe_tree env lang content of
          None \<Rightarrow>
            (case pe_ctx_err env of
               Some e \<Rightarrow> Inl (ErrWrap (''parse cancelled for '' @ path) e)
             | None \<Rightarrow> Inl (ErrMsg (''tree-sitter returned nil tree for '' @ path)))
        | Some None \<Rightarrow> Inl (ErrMsg (''nil root node for '' @ path))
        | Some (Some tree) \<Rightarrow> Inr (parse_tree env cfg content tree))))"

definition count_tokens :: "parser_env \<Rightarrow> string \<Rightarrow> int" where
  "count_tokens env text = pe_count env text"

lemma parse_Inr:
  "parse env path content lang = Inr result \<longleftrightarrow>
     (\<exists>cfg tree. get_language_config lang = Inr cfg \<and> pe_set_language env lang = Inr () \<and> pe_tree env lang content = Some (Some tree)
        \<and> result = parse_tree env cfg content tree)"
proof (cases "pe_tree env lang content")
  case None
  then show ?thesis by (auto simp: parse_def bind_res_Inr_iff split: option.splits)
next
  case (Some t)
  then show ?thesis by (cases t) (auto simp: parse_def bind_res_Inr_iff)
qed

text \<open>What a parse hands to the store satisfies the schema, Rust modules apart.\<close>

lemma parsed_chunk_check:
  assumes "parse env path content lang = Inr result" and "c \<in> set (pr_Chunks result)"
  shows "chunk_kind_check (cr_Kind c) \<and> cr_ParseQuality c = ''full'' \<and> cr_ParentIndex c \<in> {None, Some 0}"
proof -
  from assms(1) obtain cfg tree where cfg: "get_language_config lang = Inr cfg"
    and r: "pr_Chunks result = chunk_file (pe_count env) cfg content tree"
    by (auto simp: parse_Inr parse_tree_def Let_def)
  obtain d where "d \<in> set (split_large_chunks (pe_count env) (merge_small_chunks (pe_count env) (walked_chunks (pe_count env) cfg content tree)))"
    and d: "cr_Kind c = cr_Kind d" "cr_ParseQuality c = ''full''" "cr_ParentIndex c = cr_ParentIndex d"
    using assms(2) by (auto simp: r chunk_file_walked dest!: in_reindex)
  then obtain e i where "e \<in> set (merge_small_chunks (pe_count env) (walked_chunks (pe_count env) cfg content tree))"
    "d \<in> set (split_one (pe_count env) i e)" using split_large_chunks_from by blast
  then have "good_chunk (pe_count env) d" using split_one_good merge_good walked_good [OF cfg] by metis
  with d show ?thesis by (simp add: good_chunk_def)
qed

lemma parsed_symbol_ok:
  assumes "parse env path content lang = Inr result" and "s \<in> set (pr_Symbols result)"
  shows "\<exists>cfg. get_language_config lang = Inr cfg \<and> symbol_ok cfg (pr_Chunks result) s"
  using assms walk_symbols_ok by (fastforce simp: parse_Inr parse_tree_def Let_def extract_symbols_def)

text \<open>A module of a Rust file becomes a symbol of kind \<open>module\<close>.\<close>

lemma rust_module_symbol:
  assumes "nd_Kind tree = ''source_file''" and "m \<in> set (named_children tree)" and "nd_Kind m = ''mod_item''"
    and "extract_name source m \<noteq> []"
  shows "\<exists>s \<in> set (extract_symbols upper rust_config source chunks tree).
    sy_Kind s = ''module'' \<and> sy_ChunkID s = find_containing_chunk (start_line m) chunks"
proof -
  have cfg: "nm_SymbolKind (meta_of rust_config ''mod_item'') = ''module''" "nm_SymbolKind (meta_of rust_config ''source_file'') = []"
    "lc_ExportType rust_config = []" "lc_AmbientType rust_config = []" by code_simp+
  have root: "walk_for_symbols upper rust_config source chunks False tree
      = concat (map (walk_for_symbols upper rust_config source chunks False) (named_children tree))"
    by (subst walk_for_symbols.simps) (simp add: assms(1) cfg Let_def)
  have "set (own_symbol upper rust_config source False chunks m) \<subseteq> set (walk_for_symbols upper rust_config source chunks False m)"
    by (subst walk_for_symbols.simps) (simp add: assms(3) cfg Let_def)
  moreover obtain s where "s \<in> set (own_symbol upper rust_config source False chunks m)" "sy_Kind s = ''module''"
    "sy_ChunkID s = find_containing_chunk (start_line m) chunks"
    using assms(3,4) cfg(1) by (simp add: own_symbol_def Let_def build_symbol_def)
  ultimately show ?thesis using assms(2) unfolding extract_symbols_def root by auto
qed

end
