(* ===== verification/Enrichment.thy ===== *)
theory Enrichment
  imports Job_Effects Sqlite_Fts Parser
begin

text \<open>
  \<open>internal/daemon/enrichment.go\<close>: from scanned files and change events to write jobs, and the cold
  index of a project. Parsing, the file system, SHA-256 and the clock are fields of the
  pipeline. The workers of \<open>IndexAll\<close> take files from a channel and submit their jobs as they
  finish, so the jobs reach the writer in an order of the scheduler's choosing: the argument
  \<open>sched\<close> gives the files the workers took, in that order. The producer is registered while they
  run, so no submission is refused; the sync job makes \<open>IndexAll\<close> wait until the writer, modelled by
  \<open>process_write_job\<close>, has worked off the queue. Each job has an environment of its own.
\<close>

record file_info =
  fi_Size :: int
  fi_MtimeMs :: int

record pipeline =
  ep_Parse :: "string \<Rightarrow> string \<Rightarrow> string \<Rightarrow> parse_result res"
  ep_Parsers :: "unit res list"
  ep_Stat :: "string \<Rightarrow> file_info res"
  ep_ReadFile :: "string \<Rightarrow> string res"
  ep_sha256 :: "string \<Rightarrow> string"
  ep_now :: "string \<Rightarrow> int"

record file_change_event =
  fe_Path :: string
  fe_AbsPath :: string
  fe_ChangeType :: string
  fe_Timestamp :: int

definition max_file_size :: int where "max_file_size = 10 * 1024 * 1024"

definition read_file_content :: "pipeline \<Rightarrow> string \<Rightarrow> string res" where
  "read_file_content ep path =
     (case ep_Stat ep path of
        Inl e \<Rightarrow> Inl e
      | Inr info \<Rightarrow>
          if fi_Size info > max_file_size then Inl (ErrMsg ''file too large'') else ep_ReadFile ep path)"

section \<open>Which files have changed\<close>

definition existing_hashes :: "bool \<Rightarrow> string list \<Rightarrow> sql_db \<Rightarrow> (string \<times> string) list" where
  "existing_hashes batch paths db =
     (if batch then batch_get_file_hashes paths db
      else fold (\<lambda>p m. case get_file_by_path p db of Some f \<Rightarrow> AList.update p (fr_ContentHash f) m | None \<Rightarrow> m) paths [])"

definition filter_changed :: "bool \<Rightarrow> scanned_file list \<Rightarrow> sql_db \<Rightarrow> scanned_file list" where
  "filter_changed batch files db =
     (let existing = existing_hashes batch (map sf_Path files) db in
      filter (\<lambda>f. case map_of existing (sf_Path f) of None \<Rightarrow> True | Some hash \<Rightarrow> hash \<noteq> sf_ContentHash f) files)"

section \<open>Jobs\<close>

definition enrichment_job :: "file_record \<Rightarrow> parse_result \<Rightarrow> int \<Rightarrow> write_job" where
  "enrichment_job file result now =
     \<lparr>wj_Type = WriteJobEnrichment, wj_FilePath = fr_Path file, wj_File = Some file, wj_Chunks = pr_Chunks result,
      wj_Symbols = pr_Symbols result, wj_Edges = pr_Edges result, wj_ContentHash = fr_ContentHash file, wj_Timestamp = now\<rparr>"

definition scanned_record :: "scanned_file \<Rightarrow> file_record" where
  "scanned_record f =
     \<lparr>fr_ID = 0, fr_Path = sf_Path f, fr_ContentHash = sf_ContentHash f, fr_Mtime = sf_Mtime f, fr_Size = sf_Size f,
      fr_Language = sf_Language f, fr_IndexedAt = [], fr_EmbeddingStatus = ''pending'', fr_ParseQuality = ''full'', fr_IsTest = False\<rparr>"

definition enrich_scanned :: "pipeline \<Rightarrow> scanned_file \<Rightarrow> write_job res" where
  "enrich_scanned ep file =
     bind_res (case sf_Content file of
                 Some content \<Rightarrow> Inr content
               | None \<Rightarrow> wrap_res (''read '' @ sf_Path file) (read_file_content ep (sf_AbsPath file)))
       (\<lambda>content. bind_res (wrap_res (''parse '' @ sf_Path file) (ep_Parse ep (sf_Path file) content (sf_Language file)))
         (\<lambda>result. Inr (enrichment_job (scanned_record file) result (ep_now ep (sf_Path file)))))"

text \<open>\<open>EnrichFile\<close>: the job of a change event, or \<open>None\<close> when there is nothing to do.\<close>

definition enrich_event :: "pipeline \<Rightarrow> file_change_event \<Rightarrow> sql_db \<Rightarrow> write_job option res" where
  "enrich_event ep event db =
     (if fe_ChangeType event = ''delete''
      then Inr (Some \<lparr>wj_Type = WriteJobFileDelete, wj_FilePath = fe_Path event, wj_File = None, wj_Chunks = [],
                      wj_Symbols = [], wj_Edges = [], wj_ContentHash = [], wj_Timestamp = 0\<rparr>)
      else bind_res (wrap_res (''read '' @ fe_Path event) (read_file_content ep (fe_AbsPath event))) (\<lambda>content.
        case language_for_ext (filepath_ext (fe_Path event)) of
          None \<Rightarrow> Inr None
        | Some lang \<Rightarrow>
            let hash = ep_sha256 ep content in
            if (case get_file_by_path (fe_Path event) db of Some f \<Rightarrow> fr_ContentHash f = hash | None \<Rightarrow> False) then Inr None
            else bind_res (wrap_res (''parse '' @ fe_Path event) (ep_Parse ep (fe_Path event) content lang)) (\<lambda>result.
              bind_res (wrap_res (''stat '' @ fe_Path event) (ep_Stat ep (fe_AbsPath event))) (\<lambda>info.
                Inr (Some (enrichment_job
                  \<lparr>fr_ID = 0, fr_Path = fe_Path event, fr_ContentHash = hash, fr_Mtime = real_of_int (fi_MtimeMs info) / 1000,
                   fr_Size = fi_Size info, fr_Language = lang, fr_IndexedAt = [], fr_EmbeddingStatus = ''pending'',
                   fr_ParseQuality = ''full'', fr_IsTest = False\<rparr>
                  result (ep_now ep (fe_Path event))))))))"

section \<open>The cold index\<close>

text \<open>The writer's work on the jobs of the workers; a file that cannot be read or parsed gives no job.\<close>

fun run_jobs :: "pipeline \<Rightarrow> (scanned_file \<Rightarrow> job_env) \<Rightarrow> scanned_file list \<Rightarrow> sql_db \<Rightarrow> (scanned_file \<times> int list res) list \<times> sql_db" where
  "run_jobs ep env [] db = ([], db)"
| "run_jobs ep env (f # fs) db =
     (case enrich_scanned ep f of
        Inl e \<Rightarrow> (let (rs, db') = run_jobs ep env fs db in ((f, Inl e) # rs, db'))
      | Inr job \<Rightarrow>
          (let (r, db1) = process_write_job (env f) job db; (rs, db') = run_jobs ep env fs db1
           in ((f, r) # rs, db')))"

definition parser_error :: "unit res list \<Rightarrow> unit res" where
  "parser_error parsers = (case filter isl parsers of [] \<Rightarrow> Inr () | errs \<Rightarrow> last errs)"

definition index_all ::
  "pipeline \<Rightarrow> bool \<Rightarrow> bool \<Rightarrow> (scanned_file \<Rightarrow> job_env) \<Rightarrow> (scanned_file list \<Rightarrow> scanned_file list) \<Rightarrow> scanned_file list \<Rightarrow> sql_db \<Rightarrow>
   unit res \<times> (scanned_file \<times> int list res) list \<times> sql_db" where
  "index_all ep batch accepting env sched files db =
     (let needsIndex = filter_changed batch files db in
      if needsIndex = [] then (Inr (), [], db)
      else
        let db1 = snd (on_bulk_write_begin db) in
        if \<not> accepting then (Inl (ErrMsg ''writer is shutting down''), [], snd (on_bulk_write_end db1))
        else
          let taken = (if list_all isl (ep_Parsers ep) then [] else sched needsIndex);
              (results, db2) = run_jobs ep env taken db1
          in (parser_error (ep_Parsers ep), results, snd (on_bulk_write_end db2)))"

section \<open>Which files have changed: both ways agree\<close>

lemma map_of_unique:
  "(\<And>h. (p, h) \<in> set rows \<Longrightarrow> h = h0) \<Longrightarrow> map_of rows p = (if p \<in> fst ` set rows then Some h0 else None)"
  by (cases "map_of rows p") (force simp: map_of_eq_None_iff dest: map_of_SomeD)+

lemma get_file_by_path_in:
  assumes "store_ok db" and "f \<in> set (db_files db)"
  shows "get_file_by_path (fr_Path f) db = Some f"
proof (cases "get_file_by_path (fr_Path f) db")
  case None
  with assms(2) show ?thesis by (auto simp: get_file_by_path_def find_None_iff)
next
  case (Some g)
  then have "g \<in> set (db_files db)" "fr_Path g = fr_Path f" by (auto simp: get_file_by_path_def find_Some_iff)
  with assms have "g = f" by (auto simp: store_ok_def db_inv_def distinct_map inj_on_def)
  with Some show ?thesis by simp
qed

lemma get_file_by_path_Some: "get_file_by_path p db = Some f \<Longrightarrow> f \<in> set (db_files db) \<and> fr_Path f = p"
  by (auto simp: get_file_by_path_def find_Some_iff)

lemma map_of_batch_hashes:
  assumes "store_ok db"
  shows "map_of (batch_get_file_hashes paths db) p = (if p \<in> set paths then map_option fr_ContentHash (get_file_by_path p db) else None)"
proof -
  let ?bs = "batches chunk_batch_limit paths"
  define rows where "rows = concat (map (\<lambda>batch. map (\<lambda>f. (fr_Path f, fr_ContentHash f)) (filter (\<lambda>f. fr_Path f \<in> set batch) (db_files db))) ?bs)"
  have "set paths = (\<Union>b \<in> set ?bs. set b)" by (rule set_batches [symmetric]) (simp add: chunk_batch_limit_def)
  then have rows: "set rows = {(fr_Path f, fr_ContentHash f) | f. f \<in> set (db_files db) \<and> fr_Path f \<in> set paths}"
    by (auto simp: rows_def)
  have "map_of (batch_get_file_hashes paths db) p = map_of (rev rows) p"
    unfolding batch_get_file_hashes_def rows_def [symmetric] by (simp add: bf_fold_update)
  also have "\<dots> = (if p \<in> set paths then map_option fr_ContentHash (get_file_by_path p db) else None)"
  proof (cases "get_file_by_path p db")
    case None
    then have "p \<notin> fst ` set (rev rows)" using get_file_by_path_in [OF assms] by (force simp: rows)
    then have "map_of (rev rows) p = None" using map_of_eq_None_iff [of "rev rows" p] by blast
    with None show ?thesis by simp
  next
    case (Some f)
    note f = get_file_by_path_Some [OF Some]
    have "h = fr_ContentHash f" if "(p, h) \<in> set (rev rows)" for h
      using that get_file_by_path_in [OF assms] Some by (auto simp: rows)
    then have "map_of (rev rows) p = (if p \<in> fst ` set (rev rows) then Some (fr_ContentHash f) else None)" by (rule map_of_unique)
    moreover have "p \<in> fst ` set (rev rows) \<longleftrightarrow> p \<in> set paths" using f by (force simp: rows)
    ultimately show ?thesis using Some by simp
  qed
  finally show ?thesis .
qed

lemma map_of_legacy_hashes:
  "map_of (existing_hashes False paths db) p = (if p \<in> set paths then map_option fr_ContentHash (get_file_by_path p db) else None)"
proof -
  have "map_of (fold (\<lambda>p m. case get_file_by_path p db of Some f \<Rightarrow> AList.update p (fr_ContentHash f) m | None \<Rightarrow> m) paths m) p
      = (if p \<in> set paths \<and> get_file_by_path p db \<noteq> None then map_option fr_ContentHash (get_file_by_path p db) else map_of m p)" for m
    by (induction paths arbitrary: m) (auto simp: update_conv' split: option.splits)
  from this [of "[]"] show ?thesis by (auto simp: existing_hashes_def)
qed

definition due :: "sql_db \<Rightarrow> scanned_file \<Rightarrow> bool" where
  "due db f \<longleftrightarrow> (case get_file_by_path (sf_Path f) db of None \<Rightarrow> True | Some r \<Rightarrow> fr_ContentHash r \<noteq> sf_ContentHash f)"

lemma filter_changed_due:
  assumes "store_ok db"
  shows "filter_changed batch files db = filter (due db) files"
proof -
  have "map_of (existing_hashes batch (map sf_Path files) db) (sf_Path f) = map_option fr_ContentHash (get_file_by_path (sf_Path f) db)"
    if "f \<in> set files" for f
    using that map_of_legacy_hashes map_of_batch_hashes [OF assms] by (cases batch) (auto simp: existing_hashes_def)
  then show ?thesis
    unfolding filter_changed_def Let_def
    by (intro filter_cong) (simp_all add: due_def split: option.split)
qed

section \<open>The jobs of a cold index\<close>

lemma enrich_scanned_job:
  "enrich_scanned ep f = Inr job \<Longrightarrow>
   \<exists>result. job = enrichment_job (scanned_record f) result (ep_now ep (sf_Path f))"
  by (auto simp: enrich_scanned_def bind_res_def split: sum.splits option.splits)

definition not_stale :: "pipeline \<Rightarrow> (scanned_file \<Rightarrow> job_env) \<Rightarrow> sql_db \<Rightarrow> scanned_file \<Rightarrow> bool" where
  "not_stale ep env db f \<longleftrightarrow>
     (case get_file_by_path (sf_Path f) db of
        None \<Rightarrow> True
      | Some r \<Rightarrow> (case je_parse (env f) (fr_IndexedAt r) of Some t \<Rightarrow> t \<le> ep_now ep (sf_Path f) | None \<Rightarrow> True))"

definition indexed :: "sql_db \<Rightarrow> scanned_file \<Rightarrow> bool" where
  "indexed db f \<longleftrightarrow> (case get_file_by_path (sf_Path f) db of None \<Rightarrow> False | Some r \<Rightarrow> fr_ContentHash r = sf_ContentHash f)"

lemma enrich_scanned_indexes:
  assumes ok: "store_ok db" and due: "due db f" "not_stale ep env db f"
    and job: "enrich_scanned ep f = Inr job" and run: "process_write_job (env f) job db = (Inr stale, db')"
  shows "indexed db' f" and "p \<noteq> sf_Path f \<Longrightarrow> get_file_by_path p db' = get_file_by_path p db"
    and "store_ok db'" and "db_fts_triggers db' = db_fts_triggers db"
proof -
  from enrich_scanned_job [OF job] obtain result where j: "job = enrichment_job (scanned_record f) result (ep_now ep (sf_Path f))" ..
  have "process_enrichment_job (env f) job db = (Inr stale, db')"
    using run by (simp add: process_write_job_def j enrichment_job_def)
  moreover have fl: "wj_File job = Some (scanned_record f)" by (simp add: j enrichment_job_def)
  moreover have "\<not> skip_job (env f) job db"
    using due by (auto simp: skip_job_def j enrichment_job_def scanned_record_def due_def not_stale_def split: option.splits)
  ultimately have "write_enrichment (env f) job (scanned_record f) (old_hash job db) (old_symbols job db) db = (Inr stale, db')"
    by (rule enrichment_cases)
  from write_enrichment_effect [OF ok this] obtain fid where "rows_stored (env f) job (scanned_record f) db fid db'"
    unfolding enriched_def by blast
  then have "get_file_by_path (sf_Path f) db' = Some ((job_file_record (env f) (scanned_record f))\<lparr>fr_ID := fid,
        fr_ParseQuality := coalesce (fr_ParseQuality (scanned_record f)) ''full''\<rparr>)"
    and other: "\<forall>p. p \<noteq> sf_Path f \<longrightarrow> get_file_by_path p db' = get_file_by_path p db"
    by (auto simp: rows_stored_def scanned_record_def)
  then show "indexed db' f" by (simp add: indexed_def job_file_record_def scanned_record_def)
  from other show "p \<noteq> sf_Path f \<Longrightarrow> get_file_by_path p db' = get_file_by_path p db" by blast
  show "store_ok db'" by (rule tx_keepsD [OF keeps_process_write_job ok run])
  show "db_fts_triggers db' = db_fts_triggers db"
    using keeps_ok [OF keeps_process_write_job ok, of "env f" job] run by simp
qed

lemma run_jobs_indexes:
  assumes "run_jobs ep env fs db = (rs, db')" and "store_ok db" and "distinct (map sf_Path fs)"
    and "\<forall>f \<in> set fs. due db f \<and> not_stale ep env db f" and "\<forall>(f, r) \<in> set rs. \<not> isl r"
  shows "(\<forall>f \<in> set fs. indexed db' f) \<and> (\<forall>p. p \<notin> sf_Path ` set fs \<longrightarrow> get_file_by_path p db' = get_file_by_path p db)
    \<and> store_ok db' \<and> db_fts_triggers db' = db_fts_triggers db"
  using assms
proof (induction fs arbitrary: db rs)
  case (Cons f fs)
  from Cons.prems(1,5) obtain job stale db1 rs1 where job: "enrich_scanned ep f = Inr job"
    and run: "process_write_job (env f) job db = (Inr stale, db1)" and rest: "run_jobs ep env fs db1 = (rs1, db')"
    and rs: "rs = (f, Inr stale) # rs1"
    by (auto split: sum.splits prod.splits) (metis sum.collapse(2))
  from Cons.prems(4) have "due db f" "not_stale ep env db f" by simp_all
  note eff = enrich_scanned_indexes [OF Cons.prems(2) this job run]
  have same: "get_file_by_path (sf_Path g) db1 = get_file_by_path (sf_Path g) db" if "g \<in> set fs" for g
  proof (rule eff(2))
    show "sf_Path g \<noteq> sf_Path f" using that Cons.prems(3) by (auto simp: image_iff)
  qed
  have "\<forall>g \<in> set fs. due db1 g \<and> not_stale ep env db1 g"
    using Cons.prems(4) same by (auto simp: due_def not_stale_def)
  moreover have "\<forall>(f, r) \<in> set rs1. \<not> isl r" "distinct (map sf_Path fs)" using Cons.prems(3,5) rs by auto
  ultimately have IH: "(\<forall>f \<in> set fs. indexed db' f) \<and> (\<forall>p. p \<notin> sf_Path ` set fs \<longrightarrow> get_file_by_path p db' = get_file_by_path p db1)
    \<and> store_ok db' \<and> db_fts_triggers db' = db_fts_triggers db1"
    using Cons.IH [OF rest eff(3)] by blast
  moreover have "sf_Path f \<notin> sf_Path ` set fs" using Cons.prems(3) by auto
  then have "indexed db' f" using eff(1) IH by (simp add: indexed_def)
  ultimately show ?case using eff(2,4) by auto
qed simp

section \<open>Properties\<close>

text \<open>A file is indexed again exactly when the store has no record of it or one with another hash,
  whether the hashes are read in batches or file by file.\<close>

theorem filter_changed_exact:
  assumes "store_ok db"
  shows "filter_changed batch files db =
     filter (\<lambda>f. case get_file_by_path (sf_Path f) db of None \<Rightarrow> True | Some r \<Rightarrow> fr_ContentHash r \<noteq> sf_ContentHash f) files"
  using filter_changed_due [OF assms] by (simp add: due_def [abs_def])

definition sample_pipeline :: pipeline where
  "sample_pipeline =
     \<lparr>ep_Parse = (\<lambda>path content lang. Inr \<lparr>pr_Chunks = wj_Chunks (sample_job ''function''), pr_Symbols = wj_Symbols (sample_job ''function''),
                                        pr_Edges = []\<rparr>),
      ep_Parsers = [Inr ()], ep_Stat = (\<lambda>_. Inr \<lparr>fi_Size = 3, fi_MtimeMs = 0\<rparr>), ep_ReadFile = (\<lambda>_. Inr ''src''), ep_sha256 = id, ep_now = (\<lambda>_. 0)\<rparr>"

definition sample_files :: "scanned_file list" where
  "sample_files = [sample_file\<lparr>sf_Path := ''a.go'', sf_ContentHash := ''h2''\<rparr>, sample_file\<lparr>sf_Path := ''d.go'', sf_ContentHash := ''h3''\<rparr>,
     sample_file\<lparr>sf_Path := ''b.go'', sf_ContentHash := ''h''\<rparr>]"

theorem filter_changed_exact_witness:
  "map sf_Path (filter_changed True sample_files sample_db) = [''a.go'', ''d.go'']"
  using filter_changed_exact [OF sample_db_ok(1), of True sample_files]
  by (simp add: sample_files_def sample_defs get_file_by_path_def)

lemma indexed_iff: "indexed db f \<longleftrightarrow> \<not> due db f"
  by (auto simp: indexed_def due_def split: option.split)

lemma index_all_runs:
  assumes "index_all ep batch accepting env sched files db = (Inr (), results, db')" and "ep_Parsers ep \<noteq> []"
    and "filter_changed batch files db \<noteq> []"
  obtains db2 where "run_jobs ep env (sched (filter_changed batch files db)) (db\<lparr>db_fts_triggers := False\<rparr>) = (results, db2)"
    and "db' = db2\<lparr>db_fts := fts_row ` set (db_chunks db2), db_fts_triggers := True\<rparr>"
proof -
  have start: "snd (on_bulk_write_begin db) = db\<lparr>db_fts_triggers := False\<rparr>"
    by (simp add: on_bulk_write_begin_def disable_eq)
  have acc: accepting using assms(1,3) by (auto simp: index_all_def Let_def split: if_splits)
  have pe: "parser_error (ep_Parsers ep) = Inr ()"
    using assms(1,3) acc by (simp add: index_all_def Let_def split: prod.splits)
  have "\<not> list_all isl (ep_Parsers ep)"
  proof
    assume all: "list_all isl (ep_Parsers ep)"
    then have "filter isl (ep_Parsers ep) = ep_Parsers ep" by (simp add: list_all_iff)
    with assms(2) pe have "last (ep_Parsers ep) = Inr ()" by (auto simp: parser_error_def split: list.splits)
    moreover have "isl (last (ep_Parsers ep))" using all assms(2) by (simp add: list_all_iff)
    ultimately show False by simp
  qed
  with assms acc that show thesis
    by (simp add: index_all_def Let_def start bulk_end_eq split: prod.splits)
qed

lemma index_all_effect:
  assumes "store_ok db" and "distinct (map sf_Path files)" and perm: "mset (sched (filter_changed batch files db)) = mset (filter_changed batch files db)"
    and fresh: "\<forall>f \<in> set files. not_stale ep env db f" and good: "\<forall>(f, r) \<in> set results. \<not> isl r"
    and run: "run_jobs ep env (sched (filter_changed batch files db)) (db\<lparr>db_fts_triggers := False\<rparr>) = (results, db2)"
  shows "(\<forall>f \<in> set files. indexed db2 f) \<and> (\<forall>p. p \<notin> sf_Path ` set files \<longrightarrow> get_file_by_path p db2 = get_file_by_path p db) \<and> store_ok db2"
proof -
  let ?needs = "filter_changed batch files db" and ?db1 = "db\<lparr>db_fts_triggers := False\<rparr>"
  have needs: "?needs = filter (due db) files" by (rule filter_changed_due [OF assms(1)])
  have same: "get_file_by_path p ?db1 = get_file_by_path p db" for p by (simp add: get_file_by_path_def)
  have set: "set (sched ?needs) = set ?needs" using perm by (metis mset_eq_setD)
  have "mset (map sf_Path (sched ?needs)) = mset (map sf_Path ?needs)" using perm by simp
  then have "distinct (map sf_Path (sched ?needs))"
    using assms(2) needs by (metis distinct_map_filter mset_eq_imp_distinct_iff)
  moreover have "due ?db1 f \<and> not_stale ep env ?db1 f" if "f \<in> set (sched ?needs)" for f
  proof -
    from that have "f \<in> set ?needs" by (simp only: set)
    then have "f \<in> set files" "due db f" by (simp_all add: needs)
    with fresh show ?thesis by (simp add: due_def not_stale_def same)
  qed
  moreover have "store_ok ?db1" using assms(1) by (simp add: store_ok_def)
  ultimately have post: "(\<forall>f \<in> set ?needs. indexed db2 f)
      \<and> (\<forall>p. p \<notin> sf_Path ` set ?needs \<longrightarrow> get_file_by_path p db2 = get_file_by_path p db) \<and> store_ok db2"
    using run_jobs_indexes [OF run _ _ _ good] set same by simp
  have "indexed db2 f" if f: "f \<in> set files" for f
  proof (cases "f \<in> set ?needs")
    case False
    have "sf_Path f \<notin> sf_Path ` set ?needs"
      using f False assms(2) needs by (auto simp: distinct_map inj_on_def)
    moreover have "indexed db f" using f False by (simp add: needs indexed_iff)
    ultimately show ?thesis using post by (simp add: indexed_def)
  qed (use post in simp)
  then show ?thesis using post needs by auto
qed

lemma index_all_post:
  assumes "store_ok db" and "db_fts_triggers db" and "distinct (map sf_Path files)"
    and "\<And>fs. mset (sched fs) = mset fs" and "\<forall>f \<in> set files. not_stale ep env db f" and "ep_Parsers ep \<noteq> []"
    and "index_all ep batch accepting env sched files db = (Inr (), results, db')" and "\<forall>(f, r) \<in> set results. \<not> isl r"
  shows "(\<forall>f \<in> set files. indexed db' f) \<and> (\<forall>p. p \<notin> sf_Path ` set files \<longrightarrow> get_file_by_path p db' = get_file_by_path p db)
    \<and> store_ok db' \<and> db_fts_triggers db' \<and> filter_changed batch files db' = []"
proof -
  have main: "(\<forall>f \<in> set files. indexed db' f) \<and> (\<forall>p. p \<notin> sf_Path ` set files \<longrightarrow> get_file_by_path p db' = get_file_by_path p db)
    \<and> store_ok db' \<and> db_fts_triggers db'"
  proof (cases "filter_changed batch files db = []")
    case True
    then have "db' = db" using assms(7) by (simp add: index_all_def)
    then show ?thesis using True filter_changed_due [OF assms(1)] assms(1,2) by (auto simp: filter_empty_conv indexed_iff)
  next
    case False
    from index_all_runs [OF assms(7,6) False] obtain db2
      where run: "run_jobs ep env (sched (filter_changed batch files db)) (db\<lparr>db_fts_triggers := False\<rparr>) = (results, db2)"
        and db': "db' = db2\<lparr>db_fts := fts_row ` set (db_chunks db2), db_fts_triggers := True\<rparr>" .
    from db' have "get_file_by_path p db' = get_file_by_path p db2" for p by (simp add: get_file_by_path_def)
    with index_all_effect [of db files sched batch, OF assms(1,3) assms(4) assms(5,8) run] show ?thesis by (simp add: db' indexed_def store_ok_def fts_fresh_def)
  qed
  moreover have "filter_changed batch files db' = []"
    using main indexed_iff filter_changed_due [of db' batch files] by (auto simp: filter_empty_conv)
  ultimately show ?thesis by blast
qed

text \<open>A cold index whose jobs all succeed, in whatever order the workers submit them, leaves every scanned
  file recorded with its content's hash, every other file as it was, the store in order, and the
  full-text index rebuilt with its triggers back in place; run again on the same files it has nothing to do.\<close>

theorem index_all_complete:
  assumes "store_ok db" and "db_fts_triggers db" and "distinct (map sf_Path files)"
    and "\<And>fs. mset (sched fs) = mset fs" and "\<forall>f \<in> set files. not_stale ep env db f" and "ep_Parsers ep \<noteq> []"
    and "index_all ep batch accepting env sched files db = (Inr (), results, db')" and "\<forall>(f, r) \<in> set results. \<not> isl r"
  shows "(\<forall>f \<in> set files. indexed db' f) \<and> (\<forall>p. p \<notin> sf_Path ` set files \<longrightarrow> get_file_by_path p db' = get_file_by_path p db)
    \<and> store_ok db' \<and> db_fts_triggers db' \<and> filter_changed batch files db' = []"
  using assms by (rule index_all_post)

theorem index_all_complete_witness:
  "\<exists>results db'. index_all sample_pipeline True True (\<lambda>_. sample_env) rev sample_files sample_db = (Inr (), results, db')
     \<and> indexed db' (hd sample_files) \<and> db_fts_triggers db' \<and> filter_changed True sample_files db' = []"
proof -
  obtain results db' where run: "index_all sample_pipeline True True (\<lambda>_. sample_env) rev sample_files sample_db = (Inr (), results, db')"
  proof -
    have "fst (index_all sample_pipeline True True (\<lambda>_. sample_env) rev sample_files sample_db) = Inr ()" by code_simp
    then show thesis using that by (metis prod.collapse)
  qed
  have "list_all (\<lambda>(f, r). \<not> isl r) (fst (snd (index_all sample_pipeline True True (\<lambda>_. sample_env) rev sample_files sample_db)))"
    by code_simp
  then have "\<forall>(f, r) \<in> set results. \<not> isl r" using run by (simp add: list_all_iff)
  moreover have "db_fts_triggers sample_db" "distinct (map sf_Path sample_files)" "ep_Parsers sample_pipeline \<noteq> []"
    "\<forall>f \<in> set sample_files. not_stale sample_pipeline (\<lambda>_. sample_env) sample_db f"
    by (simp_all add: sample_defs sample_files_def sample_pipeline_def sample_env_def not_stale_def split: option.split)
  ultimately show ?thesis
    using index_all_complete [OF sample_db_ok(1) _ _ _ _ _ run] run by (auto simp: sample_files_def)
qed

end
