(* ===== verification/Job_Progress.thy ===== *)
theory Job_Progress
  imports Job_Effects
begin

text \<open>
  When an enrichment job gets through: each statement of \<open>processEnrichmentJob\<close> succeeds on a store in order
  when the job's rows satisfy the schema.
\<close>

definition runs :: "'a tx \<Rightarrow> sql_db \<Rightarrow> bool" where
  "runs m db \<longleftrightarrow> (\<exists>a db'. m db = (Inr a, db'))"

lemma runs_tx: "runs (with_write_tx m) db \<longleftrightarrow> runs m db" "runs (tx_wrap s m) db \<longleftrightarrow> runs m db"
  by (simp_all add: runs_def with_write_tx_Inr tx_wrap_Inr)

section \<open>Chunks\<close>

definition chunk_valid :: "chunk_record \<Rightarrow> bool" where
  "chunk_valid c \<longleftrightarrow> chunk_kind_check (cr_Kind c) \<and> cr_ParseQuality c \<in> {[], ''full'', ''partial''}
     \<and> (\<forall>p. cr_ParentIndex c = Some p \<longrightarrow> 0 \<le> p)"

lemma insert_chunk_rows_runs:
  "\<forall>c \<in> set cs. chunk_kind_check (cr_Kind c) \<and> cr_ParseQuality c \<in> {[], ''full'', ''partial''} \<and> cr_ParentChunkID c = None \<Longrightarrow>
   fid \<in> file_ids db \<Longrightarrow> runs (insert_chunk_rows fid cs) db"
proof (induction cs arbitrary: db)
  case (Cons c cs)
  have "chunk_check (chunk_row_of fid c)" "cr_FileID (chunk_row_of fid c) = fid" "cr_ParentChunkID (chunk_row_of fid c) = None"
    using Cons.prems(1) by (auto simp: chunk_check_def chunk_row_of_def chunk_record.defs chunk_row.defs coalesce_def)
  with Cons.prems(2) obtain i db1 where i: "insert_chunk (chunk_row_of fid c) db = (Inr i, db1)" "db_files db1 = db_files db"
    by (simp add: insert_chunk_def ref_ok_def Let_def)
  from Cons.IH [of db1] Cons.prems i(2) have "runs (insert_chunk_rows fid cs) db1" by simp
  with i(1) show ?case by (auto simp: runs_def)
qed (simp add: runs_def)

lemma insert_job_chunks_runs:
  assumes "\<forall>c \<in> set cs. chunk_valid c" and "fid \<in> file_ids db"
  shows "runs (insert_chunks fid (map job_chunk cs)) db"
proof -
  have none: "\<forall>c \<in> set (map job_chunk cs). cr_ParentIndex c = None" by (simp add: job_chunk_def zero_chunk_def)
  have "runs (insert_chunk_rows fid (map job_chunk cs)) db"
    by (rule insert_chunk_rows_runs [OF _ assms(2)])
       (use assms(1) in \<open>auto simp: chunk_valid_def job_chunk_def zero_chunk_def coalesce_def\<close>)
  then obtain ids db' where "insert_chunk_rows fid (map job_chunk cs) db = (Inr ids, db')" by (auto simp: runs_def)
  moreover have "resolve_parents ids ps db1 = (Inr (), db1)" if "\<forall>(c, i) \<in> set ps. cr_ParentIndex c = None" for ps db1
    using that by (induction ps) auto
  then have "resolve_parents ids (zip (map job_chunk cs) ids) db' = (Inr (), db')"
    using none by (fastforce dest: set_zip_leftD)
  ultimately show ?thesis by (auto simp: runs_def insert_chunks_def tx_Inr tx_return_def)
qed

lemma chunk_ids_update:
  assumes "\<And>c. cr_ID (f c) = cr_ID c"
  shows "chunk_ids (update_chunks P f db) = chunk_ids db"
proof -
  have "map cr_ID (map (\<lambda>c. if P c then f c else c) cs) = map cr_ID cs" for cs by (simp add: assms)
  then show ?thesis by (simp add: update_chunks_def flip: set_map del: map_map)
qed

lemma set_parents_runs:
  "\<forall>(i, p) \<in> set ups. p \<in> chunk_ids db \<Longrightarrow> runs (set_parents ups) db"
proof (induction ups arbitrary: db)
  case (Cons u ups)
  obtain i p where u: "u = (i, p)" by (cases u)
  have "set_parent p i db = (Inr (), update_chunks (\<lambda>c. cr_ID c = i) (\<lambda>c. c\<lparr>cr_ParentChunkID := Some p\<rparr>) db)"
    using Cons.prems u by (simp add: set_parent_def)
  moreover have "chunk_ids (update_chunks (\<lambda>c. cr_ID c = i) (\<lambda>c. c\<lparr>cr_ParentChunkID := Some p\<rparr>) db) = chunk_ids db"
    by (rule chunk_ids_update) simp
  ultimately show ?case using Cons.IH Cons.prems by (simp add: runs_def u)
qed (simp add: runs_def)

lemma parent_updates_valid:
  "\<forall>(c, i) \<in> set ps. \<forall>p. cr_ParentIndex c = Some p \<longrightarrow> 0 \<le> p \<Longrightarrow>
   \<exists>ups. parent_updates ids ps = Some ups \<and> snd ` set ups \<subseteq> set ids"
proof (induction ids ps rule: parent_updates.induct)
  case (2 ids c i rest)
  then show ?case by (auto split: option.split)
qed simp

lemma set_job_parents_runs:
  assumes "\<forall>c \<in> set cs. chunk_valid c" and "set ids \<subseteq> chunk_ids db"
  shows "runs (set_job_parents path ids cs) db"
proof -
  have "\<forall>(c, i) \<in> set (zip cs ids). \<forall>p. cr_ParentIndex c = Some p \<longrightarrow> 0 \<le> p"
    using assms(1) by (fastforce simp: chunk_valid_def dest: set_zip_leftD)
  from parent_updates_valid [OF this] obtain ups where ups: "parent_updates ids (zip cs ids) = Some ups" "snd ` set ups \<subseteq> set ids"
    by blast
  have "runs (set_parents ups) db" by (rule set_parents_runs) (use ups(2) assms(2) in force)
  then have "runs (update_chunk_parents ups) db"
    by (cases "ups = []") (simp_all add: runs_def update_chunk_parents_def with_write_tx_Inr)
  with ups(1) show ?thesis by (simp add: set_job_parents_def runs_tx)
qed

section \<open>Symbols\<close>

lemma insert_symbol_rows_runs:
  "\<forall>s \<in> set ss. symbol_check s \<and> sy_ChunkID s \<in> chunk_ids db \<Longrightarrow> fid \<in> file_ids db \<Longrightarrow> runs (insert_symbol_rows fid ss) db"
proof (induction ss arbitrary: db)
  case (Cons s ss)
  have "symbol_check (s\<lparr>sy_FileID := fid\<rparr>)" using Cons.prems(1) by (simp add: symbol_check_def)
  with Cons.prems obtain i db1 where i: "insert_symbol (s\<lparr>sy_FileID := fid\<rparr>) db = (Inr i, db1)"
    "db_files db1 = db_files db" "db_chunks db1 = db_chunks db"
    by (simp add: insert_symbol_def Let_def)
  from Cons.IH [of db1] Cons.prems i(2,3) have "runs (insert_symbol_rows fid ss) db1" by simp
  with i(1) show ?case by (auto simp: runs_def)
qed (simp add: runs_def)

definition symbol_valid :: "symbol_record \<Rightarrow> bool" where
  "symbol_valid s \<longleftrightarrow> symbol_check s"

lemma insert_job_symbols_runs:
  assumes "\<forall>s \<in> set ss. has_chunk (length ids) s \<longrightarrow> symbol_valid s" and "set ids \<subseteq> chunk_ids db" and "fid \<in> file_ids db"
  shows "runs (insert_symbols fid (job_symbols ids ss)) db"
proof -
  have "symbol_check s \<and> sy_ChunkID s \<in> chunk_ids db" if s: "s \<in> set (job_symbols ids ss)" for s
  proof -
    from s obtain t where t: "t \<in> set ss" "has_chunk (length ids) t" "s = job_symbol ids t" by (auto simp: job_symbols_def)
    have "ids ! nat (sy_ChunkID t) \<in> set ids" by (rule nth_mem) (use t(2) in \<open>simp add: has_chunk_def nat_less_iff\<close>)
    then have "ids ! nat (sy_ChunkID t) \<in> chunk_ids db" using assms(2) by (rule set_rev_mp)
    moreover have "symbol_check t" using assms(1) t(1,2) by (simp add: symbol_valid_def)
    ultimately show ?thesis unfolding t(3) by (simp add: job_symbol_def symbol_check_def)
  qed
  then show ?thesis unfolding insert_symbols_def runs_tx by (intro insert_symbol_rows_runs [OF _ assms(3)]) simp
qed

section \<open>Edges\<close>

lemma insert_one_edge_runs:
  assumes "\<forall>n i. ids n = Some i \<longrightarrow> i \<in> symbol_ids db" and "fid \<in> file_ids db" and "edge_kind_valid (er_Kind e)"
  shows "runs (insert_one_edge fid ids language e) db"
proof -
  have known: "map_or_zero ids n \<noteq> 0 \<Longrightarrow> map_or_zero ids n \<in> symbol_ids db" for n
    using assms(1) by (auto simp: map_or_zero_def split: option.splits)
  have found: "lookup_symbol_id_tx n fid language db \<noteq> 0 \<Longrightarrow> lookup_symbol_id_tx n fid language db \<in> symbol_ids db" for n
    by (auto simp: lookup_symbol_id_tx_def sym_id_or_zero_def split: if_splits option.splits dest!: find_Some_set)
  have edge: "runs (insert_edge a b k fid) db" if "a \<in> symbol_ids db" "b \<in> symbol_ids db" for a b k
    using that assms(2) by (simp add: runs_def insert_edge_def Let_def)
  have pend: "runs (insert_pending a fid n q (er_Kind e) language) db" if "a \<in> symbol_ids db" for a n q
    using that assms(2,3) by (simp add: runs_def insert_pending_def Let_def)
  show ?thesis
  proof (cases "map_or_zero ids (er_SrcSymbolName e) = 0")
    case True
    then show ?thesis by (simp add: runs_def insert_one_edge_def)
  next
    case False
    define dst where "dst = (if map_or_zero ids (er_DstSymbolName e) = 0 then lookup_symbol_id_tx (er_DstSymbolName e) fid language db
      else map_or_zero ids (er_DstSymbolName e))"
    have "dst \<noteq> 0 \<Longrightarrow> dst \<in> symbol_ids db" using known found unfolding dst_def by (auto split: if_splits)
    with False known edge pend show ?thesis
      unfolding insert_one_edge_def runs_def by (simp add: Let_def tx_wrap_Inr flip: dst_def)
  qed
qed

lemma insert_edges_runs:
  "\<forall>n i. ids n = Some i \<longrightarrow> i \<in> symbol_ids db \<Longrightarrow> fid \<in> file_ids db \<Longrightarrow> \<forall>e \<in> set es. edge_kind_valid (er_Kind e) \<Longrightarrow>
   runs (insert_edges fid es ids language) db"
proof (induction es arbitrary: db)
  case (Cons e es)
  from insert_one_edge_runs [OF Cons.prems(1,2)] Cons.prems(3) obtain u db1 where e: "insert_one_edge fid ids language e db = (Inr u, db1)"
    unfolding runs_def by fastforce
  from leavesD [OF leaves_insert_one_edge e] have "symbol_ids db1 = symbol_ids db" "file_ids db1 = file_ids db" by (simp_all add: core_def)
  with Cons have "runs (insert_edges fid es ids language) db1" by simp
  with e show ?case by (simp add: runs_def)
qed (simp add: runs_def)

lemma write_job_edges_runs:
  assumes "store_ok db" and "\<forall>n i. ids n = Some i \<longrightarrow> i \<in> symbol_ids db" and "fid \<in> file_ids db"
    and "\<forall>e \<in> set (wj_Edges job). edge_kind_valid (er_Kind e)"
  shows "runs (write_job_edges fid job file ids names) db"
proof -
  obtain db1 where del: "delete_edges_by_file fid db = (Inr (), db1)" by (simp add: delete_edges_by_file_def)
  have ok1: "store_ok db1" using tx_keepsD [OF keeps_delete_edges_by_file assms(1) del] .
  from del have "symbol_ids db1 = symbol_ids db" "file_ids db1 = file_ids db" by (auto simp: delete_edges_by_file_def)
  with insert_edges_runs [of ids db1 fid "wj_Edges job" "fr_Language file"] assms obtain u db2
    where ins: "insert_edges fid (wj_Edges job) ids (fr_Language file) db1 = (Inr u, db2)" by (auto simp: runs_def)
  have ok2: "store_ok db2" using tx_keepsD [OF keeps_insert_edges ok1 ins] .
  have "distinct (db_pending db2)" using ok2 by (auto simp: store_ok_def db_inv_def dest!: wf_ids_distinct simp: distinct_map)
  then have "runs (resolve_pending_edges names) db2"
    using resolve_rows_exact [OF ok2, of "filter (\<lambda>p. pe_DstName p \<in> set names) (db_pending db2)"]
    by (auto simp: runs_def resolve_pending_edges_def)
  with del ins show ?thesis by (auto simp: runs_def write_job_edges_def tx_Inr)
qed

section \<open>The job\<close>

lemma first_symbol_ids_range: "first_symbol_ids ss ids n = Some i \<Longrightarrow> i \<in> set ids"
proof -
  have "fold (\<lambda>(s, i) m. if m (sy_Name s) = None then m(sy_Name s \<mapsto> i) else m) ps m n = Some i \<Longrightarrow> i \<in> snd ` set ps \<or> m n = Some i"
    for ps :: "(symbol_record \<times> int) list" and m
    by (induction ps arbitrary: m) (fastforce split: if_splits prod.splits)+
  then show "first_symbol_ids ss ids n = Some i \<Longrightarrow> i \<in> set ids"
    by (fastforce simp: first_symbol_ids_def dest: set_zip_rightD)
qed

text \<open>The rows of a job satisfy the schema.\<close>

definition job_valid :: "write_job \<Rightarrow> bool" where
  "job_valid job \<longleftrightarrow>
     (\<forall>c \<in> set (wj_Chunks job). chunk_valid c)
   \<and> (\<forall>s \<in> set (wj_Symbols job). has_chunk (length (wj_Chunks job)) s \<longrightarrow> symbol_valid s)
   \<and> (\<forall>e \<in> set (wj_Edges job). edge_kind_valid (er_Kind e))"

text \<open>Up to the chunks: the file, its old chunks removed, its new chunks with their ids.\<close>

lemma enrichment_chunks_run:
  assumes ok: "store_ok db" and job: "job_valid job" and quality: "parse_quality_valid (coalesce (fr_ParseQuality file) ''full'')"
  obtains fid db1 db2 ids db3 db4
    where "upsert_file (je_now env) (job_file_record env file) db = (Inr fid, db1)"
      and "delete_chunks_by_file fid db1 = (Inr (), db2)"
      and "insert_chunks fid (map job_chunk (wj_Chunks job)) db2 = (Inr ids, db3)"
      and "set_job_parents (wj_FilePath job) ids (wj_Chunks job) db3 = (Inr (), db4)"
      and "store_ok db4" and "fid \<in> file_ids db4" and "set ids \<subseteq> chunk_ids db4" and "length ids = length (wj_Chunks job)"
proof -
  have "embedding_status_valid (coalesce (fr_EmbeddingStatus (job_file_record env file)) ''pending'')"
    and "parse_quality_valid (coalesce (fr_ParseQuality (job_file_record env file)) ''full'')"
    using quality by (simp_all add: job_file_record_def coalesce_def embedding_status_valid_def)
  from upsert_file_succeeds [OF this] obtain fid db1
    where up: "upsert_file (je_now env) (job_file_record env file) db = (Inr fid, db1)" by blast
  have "tx_keeps (upsert_file (je_now env) (job_file_record env file))"
    unfolding upsert_file_def by (rule keeps_with_write_tx [OF keeps_upsert_file_tx])
  from tx_keepsD [OF this ok up] have ok1: "store_ok db1" .
  have fid1: "fid \<in> file_ids db1" using upsert_file_effect(1) [OF up] by (force simp: get_file_by_path_def dest: find_Some_set)
  obtain db2 where del: "delete_chunks_by_file fid db1 = (Inr (), db2)" by (simp add: delete_chunks_by_file_def with_write_tx_Inr)
  have "tx_keeps (delete_chunks_by_file fid)"
    unfolding delete_chunks_by_file_def by (rule keeps_with_write_tx) (simp add: keeps_drop_chunks)
  from tx_keepsD [OF this ok1 del] have ok2: "store_ok db2" .
  have fid2: "fid \<in> file_ids db2" using delete_chunks_effect(3) [OF del ok1] fid1 by simp
  from insert_job_chunks_runs [OF _ fid2, of "wj_Chunks job"] job obtain ids db3
    where ins: "insert_chunks fid (map job_chunk (wj_Chunks job)) db2 = (Inr ids, db3)" by (auto simp: job_valid_def runs_def)
  have "\<forall>c \<in> set (map job_chunk (wj_Chunks job)). cr_ParentIndex c = None" by (simp add: job_chunk_def zero_chunk_def)
  note ins_eff = insert_chunk_rows_effect [OF insert_chunks_effect [OF ins this]]
  have len: "length ids = length (wj_Chunks job)" using ins_eff(2) by simp
  have "map cr_ID (map2 (\<lambda>c i. (chunk_row_of fid c)\<lparr>cr_ID := i\<rparr>) (map job_chunk (wj_Chunks job)) ids) = ids"
    using len by (simp add: map2_sides)
  then have ids3: "set ids \<subseteq> chunk_ids db3" unfolding ins_eff(1) by (metis Un_upper2 image_Un set_append set_map)
  have ok3: "store_ok db3" by (rule tx_keepsD [OF keeps_insert_chunks ok2 ins])
  from set_job_parents_runs [OF _ ids3, of "wj_Chunks job" "wj_FilePath job"] job obtain db4
    where par: "set_job_parents (wj_FilePath job) ids (wj_Chunks job) db3 = (Inr (), db4)" by (auto simp: job_valid_def runs_def)
  note par_eff = set_job_parents_effect [OF par]
  have "map cr_ID (map bare (db_chunks db4)) = map cr_ID (map bare (db_chunks db3))" by (simp only: par_eff(1))
  moreover have "cr_ID \<circ> bare = cr_ID" by (simp add: fun_eq_iff)
  ultimately have "map cr_ID (db_chunks db4) = map cr_ID (db_chunks db3)" by simp
  with ids3 have "set ids \<subseteq> chunk_ids db4" by (metis set_map)
  moreover have "fid \<in> file_ids db4" using par_eff(2) ins_eff(3) fid2 by simp
  moreover have "store_ok db4" by (rule tx_keepsD [OF keeps_set_job_parents ok3 par])
  ultimately show thesis using that [OF up del ins par] len by blast
qed

lemma write_enrichment_runs:
  assumes ok: "store_ok db" and job: "job_valid job" and quality: "parse_quality_valid (coalesce (fr_ParseQuality file) ''full'')"
  shows "runs (write_enrichment env job file oldHash olds) db"
proof -
  from enrichment_chunks_run [OF assms] obtain fid db1 db2 ids db3 db4
    where steps: "upsert_file (je_now env) (job_file_record env file) db = (Inr fid, db1)"
      "delete_chunks_by_file fid db1 = (Inr (), db2)"
      "insert_chunks fid (map job_chunk (wj_Chunks job)) db2 = (Inr ids, db3)"
      "set_job_parents (wj_FilePath job) ids (wj_Chunks job) db3 = (Inr (), db4)"
    and ok4: "store_ok db4" and fid4: "fid \<in> file_ids db4" and ids4: "set ids \<subseteq> chunk_ids db4" and len: "length ids = length (wj_Chunks job)" .
  let ?ss = "job_symbols ids (wj_Symbols job)"
  from insert_job_symbols_runs [OF _ ids4 fid4, of "wj_Symbols job"] job len obtain symIDs db5
    where syms: "insert_symbols fid ?ss db4 = (Inr symIDs, db5)" by (auto simp: job_valid_def runs_def)
  note sym_eff = insert_symbols_effect [OF syms]
  have "tx_keeps (insert_symbols fid ?ss)" unfolding insert_symbols_def by (rule keeps_with_write_tx [OF keeps_insert_symbol_rows])
  from tx_keepsD [OF this ok4 syms] have ok5: "store_ok db5" .
  define m where "m = first_symbol_ids ?ss symIDs"
  obtain db6 where diff: "record_job_diff env fid oldHash job olds m db5 = (Inr (), db6)" by (simp add: record_job_diff_def)
  have core: "core db6 = core db5" by (rule leavesD [OF leaves_record_job_diff diff])
  have ok6: "store_ok db6" by (rule tx_keepsD [OF keeps_record_job_diff ok5 diff])
  have "map sy_ID (map2 (\<lambda>s i. s\<lparr>sy_FileID := fid, sy_ID := i\<rparr>) ?ss symIDs) = symIDs"
    using sym_eff(2) by (simp add: map2_sides)
  then have "set symIDs \<subseteq> symbol_ids db5" unfolding sym_eff(1) by (metis Un_upper2 image_Un set_append set_map)
  then have "\<forall>n i. m n = Some i \<longrightarrow> i \<in> symbol_ids db6"
    using first_symbol_ids_range core unfolding m_def core_eq by (metis subsetD)
  moreover have "fid \<in> file_ids db6" using core sym_eff(4) fid4 by (simp add: core_eq)
  ultimately have "runs (write_job_edges fid job file m (map sy_Name ?ss)) db6"
    using job by (intro write_job_edges_runs [OF ok6]) (auto simp: job_valid_def)
  then obtain u db' where "write_job_edges fid job file m (map sy_Name ?ss) db6 = (Inr u, db')" by (auto simp: runs_def)
  with steps syms diff show ?thesis
    unfolding runs_def write_enrichment_def Let_def tx_Inr m_def by (fastforce simp: tx_return_def)
qed


text \<open>A job with a method inside a class, a call of a symbol of its own and one of a symbol that is nowhere.\<close>

definition sample_call :: "string \<Rightarrow> string \<Rightarrow> edge_record" where
  "sample_call a b = \<lparr>er_ID = 0, er_SrcSymbolID = 0, er_DstSymbolID = 0, er_SrcSymbolName = a, er_DstSymbolName = b,
     er_DstQualifiedName = [], er_Kind = ''calls'', er_FileID = 0, er_IsCrossFile = False\<rparr>"

definition linked_job :: write_job where
  "linked_job = (sample_job ''function'')\<lparr>
     wj_Chunks := [zero_chunk\<lparr>cr_Kind := ''class'', cr_StartLine := 1, cr_EndLine := 9, cr_Content := ''C''\<rparr>,
       zero_chunk\<lparr>cr_ChunkIndex := 1, cr_ParentIndex := Some 0, cr_Kind := ''method'', cr_StartLine := 2, cr_EndLine := 3, cr_Content := ''m''\<rparr>],
     wj_Symbols := [zero_symbol\<lparr>sy_Name := ''C'', sy_Kind := ''class'', sy_Line := 1, sy_Visibility := ''public''\<rparr>,
       zero_symbol\<lparr>sy_ChunkID := 1, sy_Name := ''m'', sy_Kind := ''method'', sy_Line := 2, sy_Visibility := ''public''\<rparr>],
     wj_Edges := [sample_call ''m'' ''C'', sample_call ''m'' ''far'']\<rparr>"


end
