(* ===== verification/Index_Source.thy ===== *)
theory Index_Source
  imports Enrichment Job_Progress
begin

text \<open>
  The parser in the pipeline: which source files end up in the store. The chunks, symbols and edges of
  \<open>Parse\<close> satisfy the schema, with one exception: the kind \<open>module\<close> of a Rust module, which the check on
  \<open>symbols.kind\<close> does not list.
\<close>

definition source_pipeline :: "parser_env \<Rightarrow> pipeline \<Rightarrow> pipeline" where
  "source_pipeline env ep = ep\<lparr>ep_Parse := parse env\<rparr>"

lemma symbol_ok_check:
  "symbol_ok cfg chunks s \<Longrightarrow> sy_Kind s \<noteq> ''module'' \<Longrightarrow> symbol_check s"
  by (auto simp: symbol_ok_def symbol_check_def symbol_kinds_def split: if_splits)

lemma symbol_ok_chunk:
  assumes "symbol_ok cfg chunks s"
  shows "has_chunk (length chunks) s \<longleftrightarrow> 0 \<le> sy_ChunkID s"
  using assms find_containing_located [of "sy_Line s" chunks] by (auto simp: symbol_ok_def located_def has_chunk_def split: if_splits)

lemma parsed_job_valid:
  assumes "parse env path content lang = Inr result" and "\<forall>s \<in> set (pr_Symbols result). 0 \<le> sy_ChunkID s \<longrightarrow> sy_Kind s \<noteq> ''module''"
  shows "job_valid (enrichment_job file result now)"
proof -
  have "chunk_valid c" if "c \<in> set (pr_Chunks result)" for c
    using parsed_chunk_check [OF assms(1) that] by (auto simp: chunk_valid_def)
  moreover have "symbol_valid s" if "s \<in> set (pr_Symbols result)" "has_chunk (length (pr_Chunks result)) s" for s
  proof -
    from parsed_symbol_ok [OF assms(1) that(1)] obtain cfg where "symbol_ok cfg (pr_Chunks result) s" by blast
    with that assms(2) show ?thesis by (simp add: symbol_valid_def symbol_ok_check symbol_ok_chunk)
  qed
  moreover have "edge_kind_valid (er_Kind e)" if "e \<in> set (pr_Edges result)" for e
    using assms(1) that extract_edges_ok by (fastforce simp: parse_Inr parse_tree_def Let_def edge_ok_def)
  ultimately show ?thesis by (simp add: job_valid_def enrichment_job_def)
qed

lemma bad_symbol_fails:
  assumes ok: "store_ok db" and run: "write_enrichment env job file oldHash olds db = (Inr stale, db')"
    and s: "s \<in> set (wj_Symbols job)" "has_chunk (length (wj_Chunks job)) s"
  shows "symbol_check s"
proof -
  from write_enrichment_effect [OF ok run] obtain fid where e: "rows_stored env job file db fid db'" unfolding enriched_def by blast
  have ok': "store_ok db'" by (rule tx_keepsD [OF keeps_write_enrichment ok run])
  let ?ids = "map cr_ID (chunks_of fid db')"
  have "length ?ids = length (wj_Chunks job)" using e unfolding rows_stored_def by (metis length_map)
  with s have "job_symbol ?ids s \<in> set (job_symbols ?ids (wj_Symbols job))" by (auto simp: job_symbols_def)
  then have "(job_symbol ?ids s)\<lparr>sy_FileID := fid\<rparr> \<in> set (map (\<lambda>s. s\<lparr>sy_FileID := fid\<rparr>) (job_symbols ?ids (wj_Symbols job)))" by simp
  moreover have "set (map (\<lambda>s. s\<lparr>sy_ID := 0\<rparr>) (stored_symbols fid db'))
      = set (map (\<lambda>s. s\<lparr>sy_FileID := fid\<rparr>) (job_symbols ?ids (wj_Symbols job)))"
    using e by (simp only: rows_stored_def)
  ultimately have "(job_symbol ?ids s)\<lparr>sy_FileID := fid\<rparr>
      \<in> set (map (\<lambda>s. s\<lparr>sy_ID := 0\<rparr>) (stored_symbols fid db'))" by simp
  then obtain t where t: "t \<in> set (db_symbols db')" "(job_symbol ?ids s)\<lparr>sy_FileID := fid\<rparr> = t\<lparr>sy_ID := 0\<rparr>"
    by (auto simp: stored_symbols_def)
  have "symbol_check t" using ok' t(1) by (auto simp: store_ok_def db_inv_def)
  then have "symbol_check (t\<lparr>sy_ID := 0\<rparr>)" by (simp add: symbol_check_def)
  then show ?thesis unfolding t(2) [symmetric] by (simp add: symbol_check_def job_symbol_def)
qed

lemma parsed_job_outcome:
  assumes "store_ok db" and "parse env path content lang = Inr result" and "parse_quality_valid (coalesce (fr_ParseQuality file) ''full'')"
  shows "runs (write_enrichment jenv (enrichment_job file result now) file oldHash olds) db
    \<longleftrightarrow> (\<forall>s \<in> set (pr_Symbols result). 0 \<le> sy_ChunkID s \<longrightarrow> sy_Kind s \<noteq> ''module'')"
proof
  assume "runs (write_enrichment jenv (enrichment_job file result now) file oldHash olds) db"
  then obtain stale db' where run: "write_enrichment jenv (enrichment_job file result now) file oldHash olds db = (Inr stale, db')"
    by (auto simp: runs_def)
  show "\<forall>s \<in> set (pr_Symbols result). 0 \<le> sy_ChunkID s \<longrightarrow> sy_Kind s \<noteq> ''module''"
  proof (intro ballI impI)
    fix s assume s: "s \<in> set (pr_Symbols result)" "0 \<le> sy_ChunkID s"
    from parsed_symbol_ok [OF assms(2) s(1)] obtain cfg where "symbol_ok cfg (pr_Chunks result) s" by blast
    with s have "has_chunk (length (pr_Chunks result)) s" by (simp add: symbol_ok_chunk)
    with bad_symbol_fails [OF assms(1) run, of s] s(1) have "symbol_check s" by (simp add: enrichment_job_def)
    then show "sy_Kind s \<noteq> ''module''" by (auto simp: symbol_check_def)
  qed
qed (use write_enrichment_runs [OF assms(1) parsed_job_valid [OF assms(2)] assms(3)] in blast)

text \<open>C1. A file that is parsed and not up to date is stored completely, on any store in order, if none of the symbols
  that the parser placed in one of its chunks is a Rust module (symbols outside every chunk are not stored at
  all): its record, its chunks with their parents, their symbols, the edges and pending edges from them, and the
  entry of the diff log. Otherwise its job fails, although the file's new hash stays behind.\<close>

theorem parsed_file_outcome:
  assumes "store_ok db" and "parse env path content lang = Inr result" and "job = enrichment_job file result now"
    and "parse_quality_valid (coalesce (fr_ParseQuality file) ''full'')" and "\<not> skip_job jenv job db"
  shows "if \<forall>s \<in> set (pr_Symbols result). 0 \<le> sy_ChunkID s \<longrightarrow> sy_Kind s \<noteq> ''module''
    then \<exists>stale db' fid. process_enrichment_job jenv job db = (Inr stale, db')
      \<and> enriched jenv (old_hash job db) (old_symbols job db) job file db fid db'
    else \<exists>e db' r. process_enrichment_job jenv job db = (Inl e, db') \<and> get_file_by_path (fr_Path file) db' = Some r
      \<and> fr_ContentHash r = fr_ContentHash file"
proof -
  have fl: "wj_File job = Some file" by (simp add: assms(3) enrichment_job_def)
  obtain r db' where run: "process_enrichment_job jenv job db = (r, db')" by fastforce
  note w = enrichment_cases [OF run fl assms(5)]
  then have iff: "(\<exists>stale. r = Inr stale) \<longleftrightarrow> (\<forall>s \<in> set (pr_Symbols result). 0 \<le> sy_ChunkID s \<longrightarrow> sy_Kind s \<noteq> ''module'')"
    using parsed_job_outcome [OF assms(1,2,4), of jenv now "old_hash job db" "old_symbols job db"] by (simp add: runs_def assms(3))
  show ?thesis
  proof (cases r)
    case (Inr stale)
    from write_enrichment_effect [OF assms(1) w [unfolded Inr]] obtain fid
      where "enriched jenv (old_hash job db) (old_symbols job db) job file db fid db'" by blast
    with run iff Inr show ?thesis by auto
  next
    case (Inl e)
    from failed_enrichment_hash [OF run [unfolded Inl] fl assms(5,4)] iff run Inl show ?thesis by auto
  qed
qed

lemma due_not_skipped:
  assumes "due db f" and "not_stale ep env db f"
  shows "\<not> skip_job (env f) (enrichment_job (scanned_record f) result (ep_now ep (sf_Path f))) db"
  using assms by (auto simp: skip_job_def enrichment_job_def scanned_record_def due_def not_stale_def split: option.splits)

lemma scanned_quality: "parse_quality_valid (coalesce (fr_ParseQuality (scanned_record f)) ''full'')"
  by (simp add: scanned_record_def coalesce_def parse_quality_valid_def)

lemma rust_registered: "get_language_config ''rust'' = Inr rust_config"
  by (simp add: get_language_config_def language_registry_def)

text \<open>C3. A Rust file with a named module at top level is never indexed: the job that the pipeline makes of it fails at the
  symbol of the module, and from then on the file counts as unchanged, so no later scan takes it up again.\<close>

theorem rust_module_never_indexed:
  assumes "store_ok db" and "pe_set_language env ''rust'' = Inr ()" and "pe_tree env ''rust'' content = Some (Some tree)"
    and "nd_Kind tree = ''source_file''" and "m \<in> set (named_children tree)" and "nd_Kind m = ''mod_item''" and "extract_name content m \<noteq> []"
    and "find_containing_chunk (start_line m) (chunk_file (pe_count env) rust_config content tree) \<noteq> -1"
    and "sf_Language f = ''rust''" and "sf_Content f = Some content" and "due db f" and "not_stale ep jenv db f"
  shows "\<exists>job e db'. enrich_scanned (source_pipeline env ep) f = Inr job \<and> process_write_job (jenv f) job db = (Inl e, db')
    \<and> filter_changed batch [f] db' = []"
proof -
  define result where "result = parse_tree env rust_config content tree"
  define job where "job = enrichment_job (scanned_record f) result (ep_now ep (sf_Path f))"
  have parsed: "parse env (sf_Path f) content ''rust'' = Inr result"
    using assms(2,3) rust_registered by (simp add: parse_Inr result_def)
  then have made: "enrich_scanned (source_pipeline env ep) f = Inr job"
    using assms(9,10) by (simp add: enrich_scanned_def source_pipeline_def job_def)
  have fl: "wj_File job = Some (scanned_record f)" by (simp add: job_def enrichment_job_def)
  have skip: "\<not> skip_job (jenv f) job db" unfolding job_def by (rule due_not_skipped [OF assms(11,12)])
  obtain r db' where run: "process_enrichment_job (jenv f) job db = (r, db')" by fastforce
  note w = enrichment_cases [OF run fl skip]
  let ?chunks = "chunk_file (pe_count env) rust_config content tree"
  obtain s where s: "s \<in> set (extract_symbols (pe_upper env) rust_config content ?chunks tree)" "sy_Kind s = ''module''"
    "sy_ChunkID s = find_containing_chunk (start_line m) ?chunks" using rust_module_symbol [OF assms(4-7)] by blast
  have "0 \<le> sy_ChunkID s" using find_containing_located [of "start_line m" ?chunks] assms(8) by (simp add: s(3) located_def)
  with s(1,2) have "\<exists>s \<in> set (pr_Symbols result). 0 \<le> sy_ChunkID s \<and> sy_Kind s = ''module''"
    by (auto simp: result_def parse_tree_def Let_def)
  then have "\<not> runs (write_enrichment (jenv f) job (scanned_record f) (old_hash job db) (old_symbols job db)) db"
    unfolding job_def using parsed_job_outcome [OF assms(1) parsed scanned_quality] by blast
  with w obtain e where r: "r = Inl e" by (cases r) (auto simp: runs_def)
  have ok': "store_ok db'" using tx_keepsD [OF keeps_write_enrichment assms(1) w] .
  from failed_enrichment_hash [OF run [unfolded r] fl skip scanned_quality] have "\<not> due db' f"
    by (auto simp: due_def scanned_record_def)
  then have "filter_changed batch [f] db' = []" by (simp add: filter_changed_due [OF ok'])
  moreover have "process_write_job (jenv f) job db = (Inl e, db')"
    using run r by (simp add: process_write_job_def job_def enrichment_job_def)
  ultimately show ?thesis using made by blast
qed

section \<open>Examples\<close>

definition sample_rust_tree :: node where
  "sample_rust_tree = Node ''source_file'' [] True 0 8 0 0
     [Node ''mod_item'' [] True 0 8 0 0 [sample_leaf ''identifier'' [''name''] 4 5 0, sample_leaf ''declaration_list'' [''body''] 6 8 0]]"

definition sample_parser :: parser_env where
  "sample_parser =
     \<lparr>pe_count = sample_count, pe_upper = (\<lambda>_. False), pe_same_handle = False, pe_set_language = (\<lambda>_. Inr ()),
      pe_tree = (\<lambda>lang _. Some (Some (if lang = ''rust'' then sample_rust_tree else sample_tree))), pe_ctx_err = None\<rparr>"

definition sample_rust_file :: scanned_file where
  "sample_rust_file = (hd sample_files)\<lparr>sf_Path := ''m.rs'', sf_Language := ''rust'', sf_Content := Some ''mod a {}''\<rparr>"

theorem rust_module_never_indexed_witness:
  "\<exists>job e db'. enrich_scanned (source_pipeline sample_parser sample_pipeline) sample_rust_file = Inr job
     \<and> process_write_job sample_env job sample_db = (Inl e, db') \<and> filter_changed True [sample_rust_file] db' = []"
proof (rule rust_module_never_indexed [OF sample_db_ok(1)])
  show "find_containing_chunk (start_line (hd (named_children sample_rust_tree)))
      (chunk_file (pe_count sample_parser) rust_config ''mod a {}'' sample_rust_tree) \<noteq> -1" by code_simp
  show "extract_name ''mod a {}'' (hd (named_children sample_rust_tree)) \<noteq> []" by code_simp
  show "due sample_db sample_rust_file" by code_simp
  show "not_stale sample_pipeline (\<lambda>_. sample_env) sample_db sample_rust_file"
    by (simp add: not_stale_def sample_env_def split: option.split)
qed (simp_all add: sample_parser_def sample_rust_file_def sample_rust_tree_def named_children_def)

theorem parsed_file_outcome_witness:
  "\<exists>result stale db'. parse sample_parser ''p.py'' sample_source ''python'' = Inr result
     \<and> process_enrichment_job sample_env (enrichment_job (sample_file_row 0 ''p.py'' ''python'') result 0) sample_db = (Inr stale, db')"
proof -
  define result where "result = parse_tree sample_parser python_config sample_source sample_tree"
  have parsed: "parse sample_parser ''p.py'' sample_source ''python'' = Inr result"
    using sample_python by (simp add: parse_Inr sample_parser_def result_def)
  have "list_all (\<lambda>s. sy_Kind s \<noteq> ''module'') (pr_Symbols result)" unfolding result_def by code_simp
  then have good: "\<forall>s \<in> set (pr_Symbols result). 0 \<le> sy_ChunkID s \<longrightarrow> sy_Kind s \<noteq> ''module''" by (simp add: list_all_iff)
  have "\<not> skip_job sample_env (enrichment_job (sample_file_row 0 ''p.py'' ''python'') result 0) sample_db"
    by (simp add: skip_job_def enrichment_job_def sample_file_row_def sample_defs get_file_by_path_def)
  moreover have "parse_quality_valid (coalesce (fr_ParseQuality (sample_file_row 0 ''p.py'' ''python'')) ''full'')"
    by (simp add: sample_file_row_def coalesce_def parse_quality_valid_def)
  ultimately show ?thesis using parsed_file_outcome [OF sample_db_ok(1) parsed refl] parsed good by fastforce
qed

end
