(* ===== verification/Pg_Db.thy ===== *)
theory Pg_Db
  imports Sqlite_Query
begin

text \<open>
  The database of \<open>internal/storage/migrations/postgres\<close>, which the daemons of several projects
  share. It has the tables of \<open>Sql_Db\<close> with the same checks and cascades, a table of projects,
  and a column \<open>project_id\<close> in \<open>files\<close>; \<open>UNIQUE\<close> is on \<open>(project_id, path)\<close>. Every other row belongs to
  a project through its file. The full-text column of \<open>chunks\<close> is generated from the row, so
  there are no triggers to model: they stay off. Numbers come from sequences; the gaps that
  failed or conflicting inserts leave in them are not modelled.

  \<open>slice\<close> is what one project owns. The lemmas say which statements of \<open>Sql_Db\<close> act on every
  slice separately, and which a project can run without touching the rows of another
  (\<open>confined\<close>).
\<close>

section \<open>The shared database and its slices\<close>

record pg_db =
  pg_sql :: sql_db
  pg_project :: "int \<Rightarrow> int"
  pg_projects :: "(int \<times> string \<times> string) list"
  pg_projects_seq :: int

type_synonym 'a pg_tx = "pg_db \<Rightarrow> 'a res \<times> pg_db"

text \<open>A statement or transaction that leaves the projects alone.\<close>

definition pg_run :: "'a tx \<Rightarrow> 'a pg_tx" where
  "pg_run m pg = (case m (pg_sql pg) of (r, db) \<Rightarrow> (r, pg\<lparr>pg_sql := db\<rparr>))"

definition pg_with_write_tx :: "'a pg_tx \<Rightarrow> 'a pg_tx" where
  "pg_with_write_tx fn pg = (case fn pg of (Inl e, _) \<Rightarrow> (Inl e, pg) | (Inr a, pg') \<Rightarrow> (Inr a, pg'))"

definition slice :: "(int \<Rightarrow> int) \<Rightarrow> int \<Rightarrow> sql_db \<Rightarrow> sql_db" where
  "slice own p db =
     db\<lparr>db_files := filter (\<lambda>f. own (fr_ID f) = p) (db_files db),
        db_chunks := filter (\<lambda>c. own (cr_FileID c) = p) (db_chunks db),
        db_symbols := filter (\<lambda>s. own (sy_FileID s) = p) (db_symbols db),
        db_edges := filter (\<lambda>e. own (eg_FileID e) = p) (db_edges db),
        db_pending := filter (\<lambda>r. own (pe_FileID r) = p) (db_pending db),
        db_diffs := filter (\<lambda>d. own (dl_FileID d) = p) (db_diffs db),
        db_diffsyms := filter (\<lambda>d. dy_DiffID d \<in> dl_ID ` {l \<in> set (db_diffs db). own (dl_FileID l) = p}) (db_diffsyms db)\<rparr>"

definition project_db :: "int \<Rightarrow> pg_db \<Rightarrow> sql_db" where
  "project_db p pg = slice (pg_project pg) p (pg_sql pg)"

text \<open>The rows alone, without the sequences and the tables that no project owns.\<close>

definition contents :: "sql_db \<Rightarrow> sql_db" where
  "contents db = db\<lparr>db_files_seq := 0, db_chunks_seq := 0, db_symbols_seq := 0, db_edges_seq := 0, db_pending_seq := 0,
     db_diffs_seq := 0, db_diffsyms_seq := 0, db_config := [], db_tool_calls := []\<rparr>"

definition seqs :: "sql_db \<Rightarrow> int list" where
  "seqs db = [db_files_seq db, db_chunks_seq db, db_symbols_seq db, db_edges_seq db, db_pending_seq db,
     db_diffs_seq db, db_diffsyms_seq db]"

definition ids_ok :: "sql_db \<Rightarrow> bool" where
  "ids_ok db \<longleftrightarrow>
     wf_ids (map fr_ID (db_files db)) (db_files_seq db)
   \<and> wf_ids (map cr_ID (db_chunks db)) (db_chunks_seq db)
   \<and> wf_ids (map sy_ID (db_symbols db)) (db_symbols_seq db)
   \<and> wf_ids (map eg_ID (db_edges db)) (db_edges_seq db)
   \<and> wf_ids (map pe_ID (db_pending db)) (db_pending_seq db)
   \<and> wf_ids (map dl_ID (db_diffs db)) (db_diffs_seq db)
   \<and> wf_ids (map dy_ID (db_diffsyms db)) (db_diffsyms_seq db)
   \<and> (\<forall>d \<in> set (db_diffsyms db). dy_DiffID d \<in> diff_ids db)"

text \<open>Ids are unique in the whole database and no row of the change log is an orphan, and the rows of each project are a sound database.\<close>

definition slices_ok :: "(int \<Rightarrow> int) \<Rightarrow> sql_db \<Rightarrow> bool" where
  "slices_ok own db \<longleftrightarrow> ids_ok db \<and> \<not> db_fts_triggers db \<and> (\<forall>p. db_inv (slice own p db))"

definition pg_inv :: "pg_db \<Rightarrow> bool" where
  "pg_inv pg \<longleftrightarrow> slices_ok (pg_project pg) (pg_sql pg)"

section \<open>Slices and deletions\<close>

lemma slice_fields [simp]:
  "db_files (slice own p db) = filter (\<lambda>f. own (fr_ID f) = p) (db_files db)"
  "db_chunks (slice own p db) = filter (\<lambda>c. own (cr_FileID c) = p) (db_chunks db)"
  "db_symbols (slice own p db) = filter (\<lambda>s. own (sy_FileID s) = p) (db_symbols db)"
  "db_edges (slice own p db) = filter (\<lambda>e. own (eg_FileID e) = p) (db_edges db)"
  "db_pending (slice own p db) = filter (\<lambda>r. own (pe_FileID r) = p) (db_pending db)"
  "db_diffs (slice own p db) = filter (\<lambda>d. own (dl_FileID d) = p) (db_diffs db)"
  "db_diffsyms (slice own p db) = filter (\<lambda>d. dy_DiffID d \<in> dl_ID ` {l \<in> set (db_diffs db). own (dl_FileID l) = p}) (db_diffsyms db)"
  "db_files_seq (slice own p db) = db_files_seq db" "db_chunks_seq (slice own p db) = db_chunks_seq db"
  "db_symbols_seq (slice own p db) = db_symbols_seq db" "db_edges_seq (slice own p db) = db_edges_seq db"
  "db_pending_seq (slice own p db) = db_pending_seq db" "db_diffs_seq (slice own p db) = db_diffs_seq db"
  "db_diffsyms_seq (slice own p db) = db_diffsyms_seq db" "db_config (slice own p db) = db_config db"
  "db_tool_calls (slice own p db) = db_tool_calls db" "db_fts (slice own p db) = db_fts db"
  "db_fts_triggers (slice own p db) = db_fts_triggers db"
  by (simp_all add: slice_def)

lemma slices_okD:
  assumes "slices_ok own db"
  shows "ids_ok db" "\<not> db_fts_triggers db" "db_inv (slice own p db)"
  using assms by (simp_all add: slices_ok_def)

lemma key_unique: "wf_ids (map f xs) n \<Longrightarrow> x \<in> set xs \<Longrightarrow> y \<in> set xs \<Longrightarrow> f x = f y \<Longrightarrow> x = y"
  by (auto dest!: wf_ids_distinct simp: distinct_map inj_on_def)

lemma key_inter:
  "inj_on f A \<Longrightarrow> B \<subseteq> A \<Longrightarrow> f ` {x \<in> A. Q x} \<inter> f ` B = f ` {x \<in> B. Q x} \<inter> f ` B"
  by (auto simp: inj_on_def)

text \<open>The references between tables that deletions follow.\<close>

definition sym_refs :: "sql_db \<Rightarrow> bool" where
  "sym_refs db \<longleftrightarrow> (\<forall>e \<in> set (db_edges db). eg_Src e \<in> symbol_ids db \<and> eg_Dst e \<in> symbol_ids db)
     \<and> (\<forall>p \<in> set (db_pending db). pe_Src p \<in> symbol_ids db)
     \<and> (\<forall>d \<in> set (db_diffsyms db). ref_ok (symbol_ids db) (dy_SymbolID d))"

lemma forget_cong: "ref_ok A r \<Longrightarrow> S \<inter> A = T \<inter> A \<Longrightarrow> forget S r = forget T r"
  by (auto simp: forget_def ref_ok_def split: option.splits)

lemma drop_symbols_cong:
  assumes "sym_refs db" and "S \<inter> symbol_ids db = T \<inter> symbol_ids db"
  shows "drop_symbols S db = drop_symbols T db"
proof -
  have mem: "i \<in> S \<longleftrightarrow> i \<in> T" if "i \<in> symbol_ids db" for i using assms(2) that by blast
  have "filter (\<lambda>s. sy_ID s \<notin> S) (db_symbols db) = filter (\<lambda>s. sy_ID s \<notin> T) (db_symbols db)"
    by (rule filter_cong) (simp_all add: mem)
  moreover have "filter (\<lambda>e. eg_Src e \<notin> S \<and> eg_Dst e \<notin> S) (db_edges db) = filter (\<lambda>e. eg_Src e \<notin> T \<and> eg_Dst e \<notin> T) (db_edges db)"
    by (rule filter_cong) (use assms(1) mem in \<open>auto simp: sym_refs_def\<close>)
  moreover have "filter (\<lambda>p. pe_Src p \<notin> S) (db_pending db) = filter (\<lambda>p. pe_Src p \<notin> T) (db_pending db)"
    by (rule filter_cong) (use assms(1) mem in \<open>auto simp: sym_refs_def\<close>)
  moreover have "map (\<lambda>d. d\<lparr>dy_SymbolID := forget S (dy_SymbolID d)\<rparr>) (db_diffsyms db)
      = map (\<lambda>d. d\<lparr>dy_SymbolID := forget T (dy_SymbolID d)\<rparr>) (db_diffsyms db)"
    using assms forget_cong [of "symbol_ids db" _ S T] by (simp add: sym_refs_def)
  ultimately show ?thesis unfolding drop_symbols_def by simp
qed

lemma forget_none [simp]: "forget {} r = r"
  by (simp add: forget_def split: option.split)

lemma drop_symbols_none [simp]: "drop_symbols {} db = db"
  by (simp add: drop_symbols_def)

lemma slice_drop_symbols: "slice own p (drop_symbols S db) = drop_symbols S (slice own p db)"
  by (simp add: slice_def drop_symbols_def filter_map comp_def conj_commute)

lemma db_inv_sym_refs: "db_inv db \<Longrightarrow> sym_refs db"
  by (simp add: db_inv_def sym_refs_def)

text \<open>The chunk rows go first, then the symbols in them.\<close>

definition drop_chunk_rows :: "int set \<Rightarrow> sql_db \<Rightarrow> sql_db" where
  "drop_chunk_rows C db = db\<lparr>db_chunks := map (\<lambda>c. c\<lparr>cr_ParentChunkID := forget C (cr_ParentChunkID c)\<rparr>)
                      (filter (\<lambda>c. cr_ID c \<notin> C) (db_chunks db)),
                   db_diffsyms := map (\<lambda>d. d\<lparr>dy_ChunkID := forget C (dy_ChunkID d)\<rparr>) (db_diffsyms db),
                   db_fts := (if db_fts_triggers db
                              then db_fts db - fts_row ` {c \<in> set (db_chunks db). cr_ID c \<in> C}
                              else db_fts db)\<rparr>"

lemma drop_chunks_rows: "drop_chunks C db = drop_symbols (sy_ID ` {s \<in> set (db_symbols db). sy_ChunkID s \<in> C}) (drop_chunk_rows C db)"
  by (simp add: drop_chunks_def drop_chunk_rows_def Let_def)

lemma slice_drop_chunk_rows:
  "\<not> db_fts_triggers db \<Longrightarrow> slice own p (drop_chunk_rows C db) = drop_chunk_rows C (slice own p db)"
  by (simp add: slice_def drop_chunk_rows_def filter_map comp_def conj_commute)

lemma sym_refs_chunk_rows: "sym_refs (drop_chunk_rows C db) = sym_refs db"
  by (simp add: sym_refs_def drop_chunk_rows_def)

lemma slice_drop_chunks:
  assumes ok: "slices_ok own db"
  shows "slice own p (drop_chunks C db) = drop_chunks C (slice own p db)"
proof -
  let ?S = "sy_ID ` {s \<in> set (db_symbols db). sy_ChunkID s \<in> C}"
  let ?T = "sy_ID ` {s \<in> set (db_symbols (slice own p db)). sy_ChunkID s \<in> C}"
  have refs: "sym_refs (drop_chunk_rows C (slice own p db))"
    using db_inv_sym_refs [OF slices_okD(3) [OF ok]] by (simp add: sym_refs_chunk_rows)
  have "inj_on sy_ID (set (db_symbols db))"
    using slices_okD(1) [OF ok] by (auto simp: ids_ok_def distinct_map dest!: wf_ids_distinct)
  from key_inter [OF this, of "set (db_symbols (slice own p db))" "\<lambda>s. sy_ChunkID s \<in> C"]
  have "?S \<inter> symbol_ids (drop_chunk_rows C (slice own p db)) = ?T \<inter> symbol_ids (drop_chunk_rows C (slice own p db))"
    by (simp add: drop_chunk_rows_def)
  from drop_symbols_cong [OF refs this] show ?thesis
    unfolding drop_chunks_rows slice_drop_symbols slice_drop_chunk_rows [OF slices_okD(2) [OF ok]] .
qed

definition chunk_refs :: "sql_db \<Rightarrow> bool" where
  "chunk_refs db \<longleftrightarrow> (\<forall>c \<in> set (db_chunks db). ref_ok (chunk_ids db) (cr_ParentChunkID c))
     \<and> (\<forall>s \<in> set (db_symbols db). sy_ChunkID s \<in> chunk_ids db)
     \<and> (\<forall>d \<in> set (db_diffsyms db). ref_ok (chunk_ids db) (dy_ChunkID d))"

lemma db_inv_chunk_refs: "db_inv db \<Longrightarrow> chunk_refs db"
  by (simp add: db_inv_def chunk_refs_def)

lemma drop_chunks_cong:
  assumes refs: "chunk_refs db" and same: "S \<inter> chunk_ids db = T \<inter> chunk_ids db"
  shows "drop_chunks S db = drop_chunks T db"
proof -
  have mem: "i \<in> S \<longleftrightarrow> i \<in> T" if "i \<in> chunk_ids db" for i using same that by blast
  have syms: "{s \<in> set (db_symbols db). sy_ChunkID s \<in> S} = {s \<in> set (db_symbols db). sy_ChunkID s \<in> T}"
    using refs mem by (auto simp: chunk_refs_def)
  have rows: "filter (\<lambda>c. cr_ID c \<notin> S) (db_chunks db) = filter (\<lambda>c. cr_ID c \<notin> T) (db_chunks db)"
    by (rule filter_cong) (simp_all add: mem)
  have parents: "map (\<lambda>c. c\<lparr>cr_ParentChunkID := forget S (cr_ParentChunkID c)\<rparr>) (filter P (db_chunks db))
      = map (\<lambda>c. c\<lparr>cr_ParentChunkID := forget T (cr_ParentChunkID c)\<rparr>) (filter P (db_chunks db))" for P
    using refs forget_cong [OF _ same] by (simp add: chunk_refs_def)
  have diffs: "map (\<lambda>d. d\<lparr>dy_ChunkID := forget S (dy_ChunkID d)\<rparr>) (db_diffsyms db)
      = map (\<lambda>d. d\<lparr>dy_ChunkID := forget T (dy_ChunkID d)\<rparr>) (db_diffsyms db)"
    using refs forget_cong [OF _ same] by (simp add: chunk_refs_def)
  have gone: "{c \<in> set (db_chunks db). cr_ID c \<in> S} = {c \<in> set (db_chunks db). cr_ID c \<in> T}" using mem by auto
  show ?thesis
    unfolding drop_chunks_rows drop_chunk_rows_def by (simp only: syms rows parents diffs gone)
qed

lemma drop_chunks_none [simp]: "drop_chunks {} db = db"
  by (simp add: drop_chunks_def)

lemma drop_chunks_disjoint: "db_inv db \<Longrightarrow> S \<inter> chunk_ids db = {} \<Longrightarrow> drop_chunks S db = db"
  using drop_chunks_cong [of db S "{}"] db_inv_chunk_refs by simp

lemma drop_symbols_disjoint: "db_inv db \<Longrightarrow> S \<inter> symbol_ids db = {} \<Longrightarrow> drop_symbols S db = db"
  using drop_symbols_cong [of db S "{}"] db_inv_sym_refs by simp

lemma slice_drop_diffs: "slice own p (drop_diffs D db) = drop_diffs D (slice own p db)"
proof -
  have "(i \<notin> D \<and> i \<in> dl_ID ` {l. l \<in> set (db_diffs db) \<and> dl_ID l \<notin> D \<and> own (dl_FileID l) = p}) \<longleftrightarrow>
    (i \<in> dl_ID ` {l. l \<in> set (db_diffs db) \<and> own (dl_FileID l) = p} \<and> i \<notin> D)" for i
    by auto
  then show ?thesis by (simp add: slice_def drop_diffs_def conj_commute conj_left_commute)
qed

lemma drop_diffs_cong:
  assumes "\<forall>d \<in> set (db_diffsyms db). dy_DiffID d \<in> diff_ids db" and "S \<inter> diff_ids db = T \<inter> diff_ids db"
  shows "drop_diffs S db = drop_diffs T db"
proof -
  have mem: "i \<in> S \<longleftrightarrow> i \<in> T" if "i \<in> diff_ids db" for i using assms(2) that by blast
  have "filter (\<lambda>d. dl_ID d \<notin> S) (db_diffs db) = filter (\<lambda>d. dl_ID d \<notin> T) (db_diffs db)"
    by (rule filter_cong) (simp_all add: mem)
  moreover have "filter (\<lambda>d. dy_DiffID d \<notin> S) (db_diffsyms db) = filter (\<lambda>d. dy_DiffID d \<notin> T) (db_diffsyms db)"
    by (rule filter_cong) (simp_all add: mem assms(1))
  ultimately show ?thesis by (simp add: drop_diffs_def)
qed

lemma ids_ok_drop:
  assumes "ids_ok db"
  shows "ids_ok (drop_symbols S db)" "ids_ok (drop_chunks C db)" "ids_ok (drop_diffs D db)" "ids_ok (drop_files F db)"
proof -
  have a: "ids_ok (drop_symbols S db)" if "ids_ok db" for S db
    using that by (simp add: ids_ok_def drop_symbols_def wf_ids_filter comp_def)
  have b: "ids_ok (drop_chunks C db)" if "ids_ok db" for C db
    unfolding drop_chunks_rows by (rule a) (use that in \<open>simp add: ids_ok_def drop_chunk_rows_def wf_ids_filter comp_def\<close>)
  have c: "ids_ok (drop_diffs D db)" if "ids_ok db" for D db
    using that by (auto simp: ids_ok_def drop_diffs_def wf_ids_filter)
  have d: "ids_ok (db\<lparr>db_files := filter P (db_files db), db_edges := filter Q (db_edges db), db_pending := filter R (db_pending db)\<rparr>)"
    if "ids_ok db" for P Q R db
    using that by (simp add: ids_ok_def wf_ids_filter)
  show "ids_ok (drop_files F db)"
    unfolding drop_files_def Let_def by (intro d c a b assms)
  show "ids_ok (drop_symbols S db)" "ids_ok (drop_chunks C db)" "ids_ok (drop_diffs D db)"
    by (rule a b c, rule assms)+
qed

lemma slices_ok_drop:
  assumes "slices_ok own db"
  shows "slices_ok own (drop_symbols S db)" "slices_ok own (drop_chunks C db)" "slices_ok own (drop_diffs D db)"
  using assms ids_ok_drop slice_drop_chunks [OF assms]
  by (auto simp: slices_ok_def slice_drop_symbols slice_drop_diffs drop_symbols_inv drop_chunks_inv drop_diffs_inv
      drop_symbols_fields drop_chunks_fields drop_diffs_fields)

text \<open>Dropping what a predicate on the rows selects, in the whole database and in a slice.\<close>

lemma slice_drop_chunks_where:
  assumes ok: "slices_ok own db"
  shows "slice own p (drop_chunks (cr_ID ` {c \<in> set (db_chunks db). Q c}) db)
       = drop_chunks (cr_ID ` {c \<in> set (db_chunks (slice own p db)). Q c}) (slice own p db)"
proof -
  have "inj_on cr_ID (set (db_chunks db))"
    using slices_okD(1) [OF ok] by (auto simp: ids_ok_def distinct_map dest!: wf_ids_distinct)
  from key_inter [OF this, of "set (db_chunks (slice own p db))" Q]
  show ?thesis
    unfolding slice_drop_chunks [OF ok]
    by (intro drop_chunks_cong db_inv_chunk_refs slices_okD(3) [OF ok]) simp
qed

lemma slice_drop_symbols_where:
  assumes ok: "slices_ok own db"
  shows "slice own p (drop_symbols (sy_ID ` {s \<in> set (db_symbols db). Q s}) db)
       = drop_symbols (sy_ID ` {s \<in> set (db_symbols (slice own p db)). Q s}) (slice own p db)"
proof -
  have "inj_on sy_ID (set (db_symbols db))"
    using slices_okD(1) [OF ok] by (auto simp: ids_ok_def distinct_map dest!: wf_ids_distinct)
  from key_inter [OF this, of "set (db_symbols (slice own p db))" Q]
  show ?thesis
    unfolding slice_drop_symbols
    by (intro drop_symbols_cong db_inv_sym_refs slices_okD(3) [OF ok]) simp
qed

lemma slice_drop_diffs_where:
  assumes ok: "slices_ok own db"
  shows "slice own p (drop_diffs (dl_ID ` {d \<in> set (db_diffs db). Q d}) db)
       = drop_diffs (dl_ID ` {d \<in> set (db_diffs (slice own p db)). Q d}) (slice own p db)"
proof -
  have "inj_on dl_ID (set (db_diffs db))"
    using slices_okD(1) [OF ok] by (auto simp: ids_ok_def distinct_map dest!: wf_ids_distinct)
  from key_inter [OF this, of "set (db_diffs (slice own p db))" Q]
  show ?thesis
    unfolding slice_drop_diffs
    by (intro drop_diffs_cong) (use slices_okD(3) [OF ok, of p] in \<open>simp_all add: db_inv_def\<close>)
qed

lemma slice_drop_files:
  assumes ok: "slices_ok own db"
  shows "slice own p (drop_files F db) = drop_files F (slice own p db)"
proof -
  define db1 where "db1 = drop_chunks (cr_ID ` {c \<in> set (db_chunks db). cr_FileID c \<in> F}) db"
  define db2 where "db2 = drop_symbols (sy_ID ` {s \<in> set (db_symbols db1). sy_FileID s \<in> F}) db1"
  define db3 where "db3 = drop_diffs (dl_ID ` {d \<in> set (db_diffs db2). dl_FileID d \<in> F}) db2"
  have ok1: "slices_ok own db1" unfolding db1_def by (rule slices_ok_drop [OF ok])
  have ok2: "slices_ok own db2" unfolding db2_def by (rule slices_ok_drop [OF ok1])
  note 1 = slice_drop_chunks_where [OF ok, of p "\<lambda>c. cr_FileID c \<in> F", folded db1_def]
    and 2 = slice_drop_symbols_where [OF ok1, of p "\<lambda>s. sy_FileID s \<in> F", folded db2_def]
    and 3 = slice_drop_diffs_where [OF ok2, of p "\<lambda>d. dl_FileID d \<in> F", folded db3_def]
  have "drop_files F db = db3\<lparr>db_files := filter (\<lambda>f. fr_ID f \<notin> F) (db_files db3),
      db_edges := filter (\<lambda>e. eg_FileID e \<notin> F) (db_edges db3), db_pending := filter (\<lambda>p. pe_FileID p \<notin> F) (db_pending db3)\<rparr>"
    by (simp add: drop_files_def Let_def db1_def db2_def db3_def)
  then have "slice own p (drop_files F db) = (slice own p db3)\<lparr>db_files := filter (\<lambda>f. fr_ID f \<notin> F) (db_files (slice own p db3)),
      db_edges := filter (\<lambda>e. eg_FileID e \<notin> F) (db_edges (slice own p db3)),
      db_pending := filter (\<lambda>p. pe_FileID p \<notin> F) (db_pending (slice own p db3))\<rparr>"
    by (simp add: slice_def conj_commute)
  then show ?thesis
    by (simp only: drop_files_def Let_def 1 [symmetric] 2 [symmetric] 3 [symmetric])
qed

lemma slices_ok_drop_files: "slices_ok own db \<Longrightarrow> slices_ok own (drop_files F db)"
  by (simp add: slices_ok_def slice_drop_files slices_ok_def drop_files_inv ids_ok_drop drop_files_triggers)

lemma drop_files_disjoint:
  assumes inv: "db_inv db" and none: "F \<inter> file_ids db = {}"
  shows "drop_files F db = db"
proof -
  have c: "{c \<in> set (db_chunks db). cr_FileID c \<in> F} = {}" and s: "{s \<in> set (db_symbols db). sy_FileID s \<in> F} = {}"
    and d: "{d \<in> set (db_diffs db). dl_FileID d \<in> F} = {}"
    using inv none unfolding db_inv_def by blast+
  have "filter (\<lambda>f. fr_ID f \<notin> F) (db_files db) = db_files db" "filter (\<lambda>e. eg_FileID e \<notin> F) (db_edges db) = db_edges db"
    "filter (\<lambda>p. pe_FileID p \<notin> F) (db_pending db) = db_pending db"
    using inv none unfolding db_inv_def filter_id_conv by blast+
  then show ?thesis
    by (simp add: drop_files_def Let_def c s d drop_diffs_def)
qed

section \<open>Confined transactions\<close>

text \<open>
  Run on the shared database, the transaction does to the slice of \<open>p\<close> what it would do to that
  slice alone, with the same result, and leaves the contents of every other slice as they are.
\<close>

definition confined :: "(int \<Rightarrow> int) \<Rightarrow> int \<Rightarrow> 'a tx \<Rightarrow> sql_db \<Rightarrow> bool" where
  "confined own p m db \<longleftrightarrow> (\<forall>r db'. m db = (r, db') \<longrightarrow>
     m (slice own p db) = (r, slice own p db') \<and> slices_ok own db'
     \<and> (\<forall>q. q \<noteq> p \<longrightarrow> contents (slice own q db') = contents (slice own q db)))"

lemma confinedD:
  assumes "confined own p m db" and "m db = (r, db')"
  shows "m (slice own p db) = (r, slice own p db')" "slices_ok own db'"
    "q \<noteq> p \<Longrightarrow> contents (slice own q db') = contents (slice own q db)"
  using assms unfolding confined_def by blast+

lemma confined_const: "slices_ok own db \<Longrightarrow> confined own p (\<lambda>db. (r, db)) db"
  by (simp add: confined_def)

lemma confined_return: "slices_ok own db \<Longrightarrow> confined own p (tx_return r) db"
  by (simp add: confined_def tx_return_def)

lemma confined_bind:
  assumes "confined own p m db"
    and "\<And>a db'. m db = (Inr a, db') \<Longrightarrow> slices_ok own db' \<Longrightarrow> confined own p (g a) db'"
  shows "confined own p (tx_bind m g) db"
proof -
  obtain r1 db1 where m: "m db = (r1, db1)" by (cases "m db")
  note d = confinedD [OF assms(1) m]
  show ?thesis
  proof (cases r1)
    case (Inl e)
    with m d show ?thesis by (simp add: confined_def tx_bind_def)
  next
    case (Inr a)
    have "confined own p (g a) db1" using assms(2) m d(2) Inr by blast
    with m d Inr show ?thesis by (simp add: confined_def tx_bind_def)
  qed
qed

lemma confined_wrap: "confined own p m db \<Longrightarrow> confined own p (tx_wrap ctx m) db"
  by (auto simp: confined_def tx_wrap_def split: prod.splits)

lemma confined_tx: "slices_ok own db \<Longrightarrow> confined own p m db \<Longrightarrow> confined own p (with_write_tx m) db"
  by (cases "m db") (auto simp: confined_def with_write_tx_def split: sum.splits)

lemma confined_cong: "m db = m' db \<Longrightarrow> m (slice own p db) = m' (slice own p db) \<Longrightarrow> confined own p m' db \<Longrightarrow> confined own p m db"
  by (simp add: confined_def)

text \<open>A deletion or update that acts on every slice separately and finds nothing outside \<open>p\<close>.\<close>

lemma confined_pure:
  assumes "slices_ok own db" "\<And>q. slice own q (f db) = f (slice own q db)" "slices_ok own (f db)"
    and "\<And>q. q \<noteq> p \<Longrightarrow> f (slice own q db) = slice own q db"
  shows "confined own p (\<lambda>db. (Inr x, f db)) db"
  using assms by (simp add: confined_def)

text \<open>A statement that inserts: the slices keep their integrity while the sequences advance.\<close>

lemma wf_ids_mono: "wf_ids ids n \<Longrightarrow> n \<le> m \<Longrightarrow> wf_ids ids m"
  by (fastforce simp: wf_ids_def)

lemma contents_fields:
  assumes "contents db' = contents db"
  shows "db_files db' = db_files db" "db_chunks db' = db_chunks db" "db_symbols db' = db_symbols db"
    "db_edges db' = db_edges db" "db_pending db' = db_pending db" "db_diffs db' = db_diffs db"
    "db_diffsyms db' = db_diffsyms db" "db_fts db' = db_fts db" "db_fts_triggers db' = db_fts_triggers db"
  using arg_cong [OF assms, of db_files] arg_cong [OF assms, of db_chunks] arg_cong [OF assms, of db_symbols]
    arg_cong [OF assms, of db_edges] arg_cong [OF assms, of db_pending] arg_cong [OF assms, of db_diffs]
    arg_cong [OF assms, of db_diffsyms] arg_cong [OF assms, of db_fts] arg_cong [OF assms, of db_fts_triggers]
  by (simp_all add: contents_def)

lemma contents_inv:
  assumes "contents db' = contents db" and "list_all2 (\<le>) (seqs db) (seqs db')" and "db_inv db"
  shows "db_inv db'"
proof -
  have w: "wf_ids (map fr_ID (db_files db)) (db_files_seq db)"
    "wf_ids (map cr_ID (db_chunks db)) (db_chunks_seq db)"
    "wf_ids (map sy_ID (db_symbols db)) (db_symbols_seq db)"
    "wf_ids (map eg_ID (db_edges db)) (db_edges_seq db)"
    "wf_ids (map pe_ID (db_pending db)) (db_pending_seq db)"
    "wf_ids (map dl_ID (db_diffs db)) (db_diffs_seq db)"
    "wf_ids (map dy_ID (db_diffsyms db)) (db_diffsyms_seq db)"
    using assms(3) by (simp_all add: db_inv_def)
  have g: "db_files_seq db \<le> db_files_seq db'"
    "db_chunks_seq db \<le> db_chunks_seq db'"
    "db_symbols_seq db \<le> db_symbols_seq db'"
    "db_edges_seq db \<le> db_edges_seq db'"
    "db_pending_seq db \<le> db_pending_seq db'"
    "db_diffs_seq db \<le> db_diffs_seq db'"
    "db_diffsyms_seq db \<le> db_diffsyms_seq db'"
    using assms(2) by (simp_all add: seqs_def)
  note w(1) [THEN wf_ids_mono, OF g(1)] w(2) [THEN wf_ids_mono, OF g(2)] w(3) [THEN wf_ids_mono, OF g(3)] w(4) [THEN wf_ids_mono, OF g(4)] w(5) [THEN wf_ids_mono, OF g(5)] w(6) [THEN wf_ids_mono, OF g(6)] w(7) [THEN wf_ids_mono, OF g(7)]
  with assms(3) show ?thesis
    unfolding db_inv_def contents_fields [OF assms(1)] by simp
qed

lemma confinedI:
  assumes ok: "slices_ok own db" and keeps: "tx_keeps m"
    and run: "m db = (r, db')" and here: "m (slice own p db) = (r, slice own p db')"
    and there: "\<And>q. q \<noteq> p \<Longrightarrow> contents (slice own q db') = contents (slice own q db)"
    and ids: "ids_ok db'" and grow: "list_all2 (\<le>) (seqs db) (seqs db')"
  shows "confined own p m db"
proof -
  have s: "store_ok (slice own p db)" using slices_okD [OF ok] by (simp add: store_ok_def)
  with keeps have k: "store_ok (snd (m (slice own p db)))" "db_fts_triggers (snd (m (slice own p db))) = db_fts_triggers (slice own p db)"
    using keeps_ok by blast+
  have t: "\<not> db_fts_triggers db'" using k(2) slices_okD(2) [OF ok] by (simp add: here)
  have "db_inv (slice own q db')" for q
  proof (cases "q = p")
    case True
    with k(1) show ?thesis by (simp add: here store_ok_def)
  next
    case False
    from contents_inv [OF there [OF this] _ slices_okD(3) [OF ok]] grow show ?thesis by (simp add: seqs_def)
  qed
  with t ids have "slices_ok own db'" by (simp add: slices_ok_def)
  with run here there show ?thesis by (simp add: confined_def)
qed

end
