(* ===== verification/Pg_Store.thy ===== *)
theory Pg_Store
  imports Pg_Db
begin

text \<open>
  \<open>internal/storage/postgres/metadata.go\<close>, \<open>embed_status.go\<close> and \<open>db.go\<close>: the operations of a
  store that serves one project, \<open>p\<close>, of a shared database. A statement without a project in its
  text is run on all rows with \<open>pg_run\<close>; one that joins \<open>files\<close> and compares \<open>project_id\<close> says
  \<open>file_in\<close>. Time stamps are the strings they are formatted to; \<open>coll\<close> is the sort key of the
  database's collation; \<open>ts\<close> is \<open>to_tsquery\<close>, \<open>@@\<close> and \<open>ts_rank\<close> on one row, which gives the rank of a
  match.
\<close>

section \<open>Projects\<close>

text \<open>
  \<open>EnsureProject\<close>: \<open>absOf\<close> is \<open>filepath.Abs\<close>, \<open>evalSymlinks\<close> \<open>filepath.EvalSymlinks\<close> and \<open>base\<close> \<open>filepath.Base\<close>.
  The result is the number the store keeps as its \<open>projectID\<close>.
\<close>

definition claim_default :: "string \<Rightarrow> string \<Rightarrow> unit pg_tx" where
  "claim_default resolvedPath name pg =
     (let hit = (\<lambda>(i, root, nm). i = 1 \<and> root = ''__default__'') in
      if list_ex hit (pg_projects pg) \<and> list_ex (\<lambda>(i, root, nm). \<not> hit (i, root, nm) \<and> root = resolvedPath) (pg_projects pg)
      then (Inl (ErrWrap ''claim default project row'' constraint_err), pg)
      else (Inr (), pg\<lparr>pg_projects := map (\<lambda>(i, root, nm). if hit (i, root, nm) then (i, resolvedPath, name) else (i, root, nm))
                        (pg_projects pg)\<rparr>))"

definition ensure_project_row :: "string \<Rightarrow> string \<Rightarrow> int pg_tx" where
  "ensure_project_row resolvedPath name pg =
     (case claim_default resolvedPath name pg of
        (Inl e, pg1) \<Rightarrow> (Inl e, pg1)
      | (Inr _, pg1) \<Rightarrow>
          (case find (\<lambda>(i, root, nm). root = resolvedPath) (pg_projects pg1) of
             Some (i, _, _) \<Rightarrow> (Inr i, pg1)
           | None \<Rightarrow>
               let i = pg_projects_seq pg1 + 1 in
               (Inr i, pg1\<lparr>pg_projects := pg_projects pg1 @ [(i, resolvedPath, name)], pg_projects_seq := i\<rparr>)))"

definition ensure_project ::
  "(string \<Rightarrow> string res) \<Rightarrow> (string \<Rightarrow> string res) \<Rightarrow> (string \<Rightarrow> string) \<Rightarrow> string \<Rightarrow> int pg_tx" where
  "ensure_project absOf evalSymlinks base projectRoot pg =
     (case absOf projectRoot of
        Inl e \<Rightarrow> (Inl (ErrWrap ''abs path'' e), pg)
      | Inr absPath \<Rightarrow>
          let resolvedPath = (case evalSymlinks absPath of Inl _ \<Rightarrow> absPath | Inr r \<Rightarrow> r)
          in ensure_project_row resolvedPath (base resolvedPath) pg)"

section \<open>Files\<close>

abbreviation owned :: "int \<Rightarrow> pg_db \<Rightarrow> int \<Rightarrow> bool" where
  "owned p pg fileID \<equiv> pg_project pg fileID = p"

text \<open>\<open>JOIN files f ON ... = f.id WHERE f.project_id = p\<close>.\<close>

definition file_in :: "int \<Rightarrow> pg_db \<Rightarrow> int \<Rightarrow> bool" where
  "file_in p pg fileID \<longleftrightarrow> owned p pg fileID \<and> (\<exists>f \<in> set (db_files (pg_sql pg)). fr_ID f = fileID)"

definition pg_upsert_file :: "string \<Rightarrow> int \<Rightarrow> file_record \<Rightarrow> int pg_tx" where
  "pg_upsert_file now p file pg =
     (let db = pg_sql pg;
          row = file\<lparr>fr_IndexedAt := now, fr_EmbeddingStatus := coalesce (fr_EmbeddingStatus file) ''pending'',
                    fr_ParseQuality := coalesce (fr_ParseQuality file) ''full''\<rparr>;
          same = (\<lambda>f. fr_Path f = fr_Path file \<and> owned p pg (fr_ID f))
      in if \<not> file_check row \<or> p \<notin> fst ` set (pg_projects pg) then (Inl (ErrWrap ''upsert file'' constraint_err), pg)
         else case find same (db_files db) of
           Some old \<Rightarrow>
             (Inr (fr_ID old), pg\<lparr>pg_sql := db\<lparr>db_files := map (\<lambda>f. if same f then row\<lparr>fr_ID := fr_ID f\<rparr> else f) (db_files db)\<rparr>\<rparr>)
         | None \<Rightarrow>
             (let i = db_files_seq db + 1
              in (Inr i, pg\<lparr>pg_sql := db\<lparr>db_files := db_files db @ [row\<lparr>fr_ID := i\<rparr>], db_files_seq := i\<rparr>,
                            pg_project := (pg_project pg)(i := p)\<rparr>)))"

definition pg_get_file_by_path :: "int \<Rightarrow> string \<Rightarrow> pg_db \<Rightarrow> file_record option" where
  "pg_get_file_by_path p path pg = find (\<lambda>f. fr_Path f = path \<and> owned p pg (fr_ID f)) (db_files (pg_sql pg))"

definition pg_list_files :: "(string \<Rightarrow> 'k::linorder) \<Rightarrow> int \<Rightarrow> pg_db \<Rightarrow> file_record list" where
  "pg_list_files coll p pg = sort_key (\<lambda>f. coll (fr_Path f)) (filter (\<lambda>f. owned p pg (fr_ID f)) (db_files (pg_sql pg)))"

definition pg_delete_file :: "int \<Rightarrow> unit pg_tx" where
  "pg_delete_file fileID = pg_run (with_write_tx (\<lambda>db. (Inr (), drop_files {fileID} db)))"

definition pg_delete_file_by_path :: "int \<Rightarrow> string \<Rightarrow> int pg_tx" where
  "pg_delete_file_by_path p path = pg_with_write_tx (\<lambda>pg.
     case pg_get_file_by_path p path pg of
       None \<Rightarrow> (Inr 0, pg)
     | Some f \<Rightarrow> (Inr (fr_ID f), pg\<lparr>pg_sql := drop_files {fr_ID f} (pg_sql pg)\<rparr>))"

definition pg_get_embedded_chunk_ids_by_file :: "int \<Rightarrow> int \<Rightarrow> pg_db \<Rightarrow> int list" where
  "pg_get_embedded_chunk_ids_by_file p fileID pg =
     map cr_ID (filter (\<lambda>c. cr_FileID c = fileID \<and> file_in p pg (cr_FileID c) \<and> cw_embedded c) (db_chunks (pg_sql pg)))"

definition pg_get_file_path_by_id :: "int \<Rightarrow> int \<Rightarrow> pg_db \<Rightarrow> string res" where
  "pg_get_file_path_by_id p fileID pg =
     (case find (\<lambda>f. fr_ID f = fileID \<and> owned p pg (fr_ID f)) (db_files (pg_sql pg)) of
        None \<Rightarrow> Inl (ErrWrap ''get path for file'' (ErrMsg ''no rows in result set''))
      | Some f \<Rightarrow> Inr (fr_Path f))"

definition pg_get_file_is_test_by_id :: "int \<Rightarrow> int \<Rightarrow> pg_db \<Rightarrow> bool res" where
  "pg_get_file_is_test_by_id p fileID pg =
     (case find (\<lambda>f. fr_ID f = fileID \<and> owned p pg (fr_ID f)) (db_files (pg_sql pg)) of
        None \<Rightarrow> Inl (ErrWrap ''get is_test for file'' (ErrMsg ''no rows in result set''))
      | Some f \<Rightarrow> Inr (fr_IsTest f))"

section \<open>Chunks\<close>

text \<open>One \<open>UPDATE\<close> for all pairs; the foreign key is checked when the statement ends.\<close>

definition pg_set_parents :: "(int \<times> int) list \<Rightarrow> unit tx" where
  "pg_set_parents updates db =
     (if list_ex (\<lambda>(chunkID, parentID). chunkID \<in> chunk_ids db \<and> parentID \<notin> chunk_ids db) updates
      then (Inl (ErrWrap ''update chunk parents'' constraint_err), db)
      else (Inr (), update_chunks (\<lambda>c. map_of updates (cr_ID c) \<noteq> None)
                      (\<lambda>c. c\<lparr>cr_ParentChunkID := map_of updates (cr_ID c)\<rparr>) db))"

definition pg_update_chunk_parents :: "(int \<times> int) list \<Rightarrow> unit pg_tx" where
  "pg_update_chunk_parents updates pg =
     (if updates = [] then (Inr (), pg) else pg_run (with_write_tx (pg_set_parents updates)) pg)"

definition pg_insert_chunks :: "int \<Rightarrow> chunk_record list \<Rightarrow> int list pg_tx" where
  "pg_insert_chunks fileID chunks =
     pg_run (with_write_tx (tx_bind (insert_chunk_rows fileID chunks)
       (\<lambda>ids. tx_bind (resolve_parents ids (zip chunks ids)) (\<lambda>_. tx_return ids))))"

definition pg_get_chunks_by_file :: "int \<Rightarrow> int \<Rightarrow> pg_db \<Rightarrow> chunk_record list" where
  "pg_get_chunks_by_file p fileID pg =
     map chunk_record.truncate (sort_key cr_ChunkIndex
       (filter (\<lambda>c. cr_FileID c = fileID \<and> file_in p pg (cr_FileID c)) (db_chunks (pg_sql pg))))"

definition pg_get_chunk_by_id :: "int \<Rightarrow> int \<Rightarrow> pg_db \<Rightarrow> chunk_record option" where
  "pg_get_chunk_by_id p i pg =
     map_option chunk_record.truncate (find (\<lambda>c. cr_ID c = i \<and> file_in p pg (cr_FileID c)) (db_chunks (pg_sql pg)))"

definition pg_get_sibling_chunks :: "int \<Rightarrow> int \<Rightarrow> string \<Rightarrow> string \<Rightarrow> pg_db \<Rightarrow> chunk_record list" where
  "pg_get_sibling_chunks p fileID symbolName kind pg =
     map chunk_record.truncate (sort_key cr_ChunkIndex
       (filter (\<lambda>c. cr_FileID c = fileID \<and> cr_SymbolName c = symbolName \<and> cr_Kind c = kind \<and> file_in p pg (cr_FileID c))
         (db_chunks (pg_sql pg))))"

definition pg_delete_chunks_by_file :: "int \<Rightarrow> unit pg_tx" where
  "pg_delete_chunks_by_file fileID = pg_run (with_write_tx (\<lambda>db.
     (Inr (), drop_chunks (cr_ID ` {c \<in> set (db_chunks db). cr_FileID c = fileID}) db)))"

section \<open>Symbols\<close>

definition pg_insert_symbols :: "int \<Rightarrow> symbol_record list \<Rightarrow> int list pg_tx" where
  "pg_insert_symbols fileID symbols = pg_run (with_write_tx (insert_symbol_rows fileID symbols))"

definition pg_get_symbols_by_file :: "int \<Rightarrow> int \<Rightarrow> pg_db \<Rightarrow> symbol_record list" where
  "pg_get_symbols_by_file p fileID pg =
     sort_key sy_Line (filter (\<lambda>s. sy_FileID s = fileID \<and> file_in p pg (sy_FileID s)) (db_symbols (pg_sql pg)))"

definition pg_get_symbol_by_name :: "int \<Rightarrow> string \<Rightarrow> pg_db \<Rightarrow> symbol_record list" where
  "pg_get_symbol_by_name p name pg = filter (\<lambda>s. sy_Name s = name \<and> file_in p pg (sy_FileID s)) (db_symbols (pg_sql pg))"

definition pg_get_symbol_by_id :: "int \<Rightarrow> int \<Rightarrow> pg_db \<Rightarrow> symbol_record option" where
  "pg_get_symbol_by_id p i pg = find (\<lambda>s. sy_ID s = i \<and> file_in p pg (sy_FileID s)) (db_symbols (pg_sql pg))"

definition pg_delete_symbols_by_file :: "int \<Rightarrow> unit pg_tx" where
  "pg_delete_symbols_by_file fileID = pg_run (with_write_tx (\<lambda>db.
     (Inr (), drop_symbols (sy_ID ` {s \<in> set (db_symbols db). sy_FileID s = fileID}) db)))"

section \<open>Statistics and keyword search\<close>

definition pg_get_index_stats :: "int \<Rightarrow> pg_db \<Rightarrow> index_stats" where
  "pg_get_index_stats p pg =
     (let fs = filter (\<lambda>f. owned p pg (fr_ID f)) (db_files (pg_sql pg));
          langs = filter (\<lambda>l. l \<noteq> []) (map fr_Language fs) in
      \<lparr>st_TotalFiles = int (length fs),
       st_TotalChunks = int (length (filter (\<lambda>c. file_in p pg (cr_FileID c)) (db_chunks (pg_sql pg)))),
       st_TotalSymbols = int (length (filter (\<lambda>s. file_in p pg (sy_FileID s)) (db_symbols (pg_sql pg)))),
       st_Languages = map (\<lambda>l. (l, int (count_list langs l))) (dedup langs),
       st_ParseErrors = int (length (filter (\<lambda>f. fr_ParseQuality f \<in> {''error'', ''unparseable''}) fs)),
       st_StaleFiles = 0\<rparr>)"

text \<open>A negative \<open>LIMIT\<close> is an error here.\<close>

definition pg_limit :: "int \<Rightarrow> 'a list \<Rightarrow> 'a list res" where
  "pg_limit n xs = (if n < 0 then Inl (ErrMsg ''LIMIT must not be negative'') else Inr (take (nat n) xs))"

definition ts_special :: "char \<Rightarrow> bool" where
  "ts_special c \<longleftrightarrow> c \<in> {CHR 0x27, CHR ''&'', CHR ''|'', CHR ''!'', CHR '':'', CHR ''*''}"

definition ts_terms :: "string \<Rightarrow> string list" where
  "ts_terms query = filter (\<lambda>t. t \<noteq> []) (map (\<lambda>w. trim_ws (filter (\<lambda>c. \<not> ts_special c) w)) (ws_fields query))"

definition build_ts_query :: "string \<Rightarrow> string" where
  "build_ts_query query =
     (if ts_terms query = [] then []
      else join_with '' | '' (map (\<lambda>t. CHR 0x27 # t @ [CHR 0x27]) (ts_terms query)))"

type_synonym ts_match = "string \<Rightarrow> string \<Rightarrow> string \<Rightarrow> real option"

definition ts_hits :: "ts_match \<Rightarrow> string \<Rightarrow> chunk_row list \<Rightarrow> (int \<times> real) list" where
  "ts_hits ts q cs = List.map_filter (\<lambda>c. map_option (\<lambda>r. (cr_ID c, - r)) (ts q (cr_Content c) (cr_SymbolName c))) cs"

definition pg_keyword_search :: "ts_match \<Rightarrow> int \<Rightarrow> string \<Rightarrow> int \<Rightarrow> pg_db \<Rightarrow> fts_result list res" where
  "pg_keyword_search ts p query n pg =
     (if query = [] then Inr []
      else let q = build_ts_query query in
           if q = [] then Inr []
           else case pg_limit n (sort_key snd (ts_hits ts q (filter (\<lambda>c. file_in p pg (cr_FileID c)) (db_chunks (pg_sql pg))))) of
                  Inl e \<Rightarrow> Inl (ErrWrap ''FTS search'' e)
                | Inr rows \<Rightarrow> Inr (map (\<lambda>(i, r). \<lparr>ft_ChunkID = i, ft_Rank = r\<rparr>) rows))"

section \<open>Embedding flags\<close>

definition pg_get_embed_page :: "int \<Rightarrow> int \<Rightarrow> int \<Rightarrow> pg_db \<Rightarrow> embed_job list res" where
  "pg_get_embed_page p afterID n pg =
     wrap_res ''get embed page'' (pg_limit n (map embed_job_of (sort_key cr_ID
       (filter (\<lambda>c. file_in p pg (cr_FileID c) \<and> \<not> cw_embedded c \<and> cr_ID c > afterID) (db_chunks (pg_sql pg))))))"

definition pg_count_chunks_needing_embedding :: "int \<Rightarrow> pg_db \<Rightarrow> int" where
  "pg_count_chunks_needing_embedding p pg =
     int (length (filter (\<lambda>c. file_in p pg (cr_FileID c) \<and> \<not> cw_embedded c) (db_chunks (pg_sql pg))))"

definition pg_count_chunks_embedded :: "int \<Rightarrow> pg_db \<Rightarrow> int" where
  "pg_count_chunks_embedded p pg =
     int (length (filter (\<lambda>c. file_in p pg (cr_FileID c) \<and> cw_embedded c) (db_chunks (pg_sql pg))))"

definition pg_reset_all_embedded_flags :: "int \<Rightarrow> unit pg_tx" where
  "pg_reset_all_embedded_flags p = pg_with_write_tx (\<lambda>pg.
     let db1 = update_chunks (\<lambda>c. cw_embedded c \<and> file_in p pg (cr_FileID c)) (\<lambda>c. c\<lparr>cw_embedded := False\<rparr>) (pg_sql pg)
     in (Inr (), pg\<lparr>pg_sql := db1\<lparr>db_files := map (\<lambda>f. if owned p pg (fr_ID f) \<and> fr_EmbeddingStatus f \<noteq> ''pending''
                                                   then f\<lparr>fr_EmbeddingStatus := ''pending''\<rparr> else f) (db_files db1)\<rparr>\<rparr>))"

definition pg_get_embedded_chunk_ids :: "int \<Rightarrow> int \<Rightarrow> int \<Rightarrow> pg_db \<Rightarrow> int list res" where
  "pg_get_embedded_chunk_ids p afterID n pg =
     pg_limit n (map cr_ID (sort_key cr_ID
       (filter (\<lambda>c. file_in p pg (cr_FileID c) \<and> cw_embedded c \<and> cr_ID c > afterID) (db_chunks (pg_sql pg)))))"

definition pg_embedding_readiness :: "int \<Rightarrow> int \<Rightarrow> pg_db \<Rightarrow> real" where
  "pg_embedding_readiness p vectorCount pg =
     (let totalChunks = int (length (filter (\<lambda>c. file_in p pg (cr_FileID c)) (db_chunks (pg_sql pg)))) in
      if totalChunks = 0 then 0 else real_of_int vectorCount / real_of_int totalChunks)"

text \<open>\<open>pgChunkOps\<close>: the ids go to the server as one array.\<close>

definition pg_set_embedded :: "int list \<Rightarrow> bool \<Rightarrow> unit tx" where
  "pg_set_embedded chunkIDs embedded db =
     (Inr (), update_chunks (\<lambda>c. cr_ID c \<in> set chunkIDs) (\<lambda>c. c\<lparr>cw_embedded := embedded\<rparr>) db)"

definition pg_affected_files :: "int list \<Rightarrow> sql_db \<Rightarrow> int list res" where
  "pg_affected_files chunkIDs db = Inr (dedup (map cr_FileID (filter (\<lambda>c. cr_ID c \<in> set chunkIDs) (db_chunks db))))"

definition pg_count_remaining :: "int \<Rightarrow> sql_db \<Rightarrow> int res" where
  "pg_count_remaining fileID db =
     Inr (int (length (filter (\<lambda>c. cr_FileID c = fileID \<and> \<not> cw_embedded c) (db_chunks db))))"

definition pg_count_embedded :: "int \<Rightarrow> sql_db \<Rightarrow> int res" where
  "pg_count_embedded fileID db =
     Inr (int (length (filter (\<lambda>c. cr_FileID c = fileID \<and> cw_embedded c) (db_chunks db))))"

definition pg_set_file_status :: "int \<Rightarrow> string \<Rightarrow> bool \<Rightarrow> unit tx" where
  "pg_set_file_status fileID st keepCompleteOnly db =
     (let hit = (\<lambda>f. fr_ID f = fileID \<and> (\<not> keepCompleteOnly \<or> fr_EmbeddingStatus f \<noteq> ''complete'')) in
      if list_ex hit (db_files db) \<and> \<not> embedding_status_valid st
      then (Inl (ErrWrap ''set embedding_status for file'' constraint_err), db)
      else (Inr (), db\<lparr>db_files := map (\<lambda>f. if hit f then f\<lparr>fr_EmbeddingStatus := st\<rparr> else f) (db_files db)\<rparr>))"

definition pg_chunk_ops :: "sql_db chunk_ops" where
  "pg_chunk_ops =
     \<lparr>co_SetEmbedded = pg_set_embedded, co_AffectedFiles = pg_affected_files,
      co_CountRemaining = pg_count_remaining, co_CountEmbedded = pg_count_embedded,
      co_SetFileStatus = pg_set_file_status\<rparr>"

definition pg_mark_chunks_embedded :: "int list \<Rightarrow> unit pg_tx" where
  "pg_mark_chunks_embedded chunkIDs = pg_run (with_write_tx (mark_embedded pg_chunk_ops chunkIDs))"

definition pg_reset_embedded_flags :: "int list \<Rightarrow> unit pg_tx" where
  "pg_reset_embedded_flags chunkIDs = pg_run (with_write_tx (reset_embedded pg_chunk_ops chunkIDs))"

section \<open>Purging, configuration and metrics\<close>

text \<open>Two statements, each committed on its own.\<close>

definition pg_purge_all :: "int \<Rightarrow> unit pg_tx" where
  "pg_purge_all p pg =
     (let db1 = drop_files (fr_ID ` {f \<in> set (db_files (pg_sql pg)). owned p pg (fr_ID f)}) (pg_sql pg)
      in (Inr (), pg\<lparr>pg_sql := db1\<lparr>db_config := filter (\<lambda>(k, v). k \<noteq> ''parser_algorithm_version'') (db_config db1)\<rparr>\<rparr>))"

definition pg_get_config :: "string \<Rightarrow> pg_db \<Rightarrow> string" where
  "pg_get_config key pg = (case map_of (db_config (pg_sql pg)) key of None \<Rightarrow> [] | Some v \<Rightarrow> v)"

definition pg_set_config :: "string \<Rightarrow> string \<Rightarrow> unit pg_tx" where
  "pg_set_config key v = pg_run (\<lambda>db. (Inr (), db\<lparr>db_config := AList.update key v (db_config db)\<rparr>))"

definition pg_record_tool_calls :: "tool_call list \<Rightarrow> unit pg_tx" where
  "pg_record_tool_calls records = pg_run (\<lambda>db. (Inr (), db\<lparr>db_tool_calls := db_tool_calls db @ records\<rparr>))"

section \<open>Batch queries\<close>

definition pg_symbol_rows_for_chunk :: "int \<Rightarrow> pg_db \<Rightarrow> chunk_row \<Rightarrow> (int \<times> int) list" where
  "pg_symbol_rows_for_chunk p pg c =
     map (\<lambda>s. (cr_ID c, sy_ID s))
       (sort_key (\<lambda>s. if sy_FileID s = cr_FileID c then 0 else 1 :: nat)
         (sort_key sy_ID (filter (\<lambda>s. sy_Name s = cr_SymbolName c \<and> file_in p pg (sy_FileID s)) (db_symbols (pg_sql pg)))))"

definition pg_batch_get_symbol_ids_for_chunks :: "int \<Rightarrow> int list \<Rightarrow> pg_db \<Rightarrow> (int \<times> int) list" where
  "pg_batch_get_symbol_ids_for_chunks p chunkIDs pg =
     dedup_on fst {} (concat (map (pg_symbol_rows_for_chunk p pg)
       (sort_key cr_ID (filter (\<lambda>c. cr_ID c \<in> set chunkIDs \<and> cr_SymbolName c \<noteq> [] \<and> file_in p pg (cr_FileID c))
         (db_chunks (pg_sql pg))))))"

definition pg_batch_get_chunk_ids_for_symbols :: "int \<Rightarrow> int list \<Rightarrow> pg_db \<Rightarrow> (int \<times> int) list" where
  "pg_batch_get_chunk_ids_for_symbols p symbolIDs pg =
     fold (\<lambda>(symID, chunkID). AList.update symID chunkID)
       (map (\<lambda>s. (sy_ID s, sy_ChunkID s))
         (filter (\<lambda>s. sy_ID s \<in> set symbolIDs \<and> file_in p pg (sy_FileID s)) (db_symbols (pg_sql pg)))) []"

definition pg_join_files :: "int \<Rightarrow> pg_db \<Rightarrow> chunk_row list \<Rightarrow> hydrated_chunk list" where
  "pg_join_files p pg cs =
     concat (map (\<lambda>c. map (hydrate_row c)
       (filter (\<lambda>f. fr_ID f = cr_FileID c \<and> owned p pg (fr_ID f)) (db_files (pg_sql pg)))) cs)"

definition pg_batch_hydrate_chunks :: "int \<Rightarrow> int list \<Rightarrow> pg_db \<Rightarrow> hydrated_chunk list" where
  "pg_batch_hydrate_chunks p chunkIDs pg =
     (if chunkIDs = [] then []
      else pg_join_files p pg (filter (\<lambda>c. cr_ID c \<in> set chunkIDs) (db_chunks (pg_sql pg))))"

definition pg_sibling_rows :: "int \<Rightarrow> sibling_key \<Rightarrow> pg_db \<Rightarrow> hydrated_chunk list" where
  "pg_sibling_rows p k pg =
     pg_join_files p pg (sort_key cr_ChunkIndex
       (filter (\<lambda>c. cr_FileID c = sk_FileID k \<and> cr_SymbolName c = sk_SymbolName k \<and> cr_Kind c = sk_Kind k)
         (db_chunks (pg_sql pg))))"

definition pg_batch_get_sibling_chunks :: "int \<Rightarrow> sibling_key list \<Rightarrow> pg_db \<Rightarrow> (string \<times> hydrated_chunk list) list" where
  "pg_batch_get_sibling_chunks p keys pg =
     fold (\<lambda>k result. if length (pg_sibling_rows p k pg) > 1
                       then AList.update (sibling_key_string k) (pg_sibling_rows p k pg) result else result) keys []"

definition pg_batch_get_file_hashes :: "int \<Rightarrow> string list \<Rightarrow> pg_db \<Rightarrow> (string \<times> string) list" where
  "pg_batch_get_file_hashes p paths pg =
     fold (\<lambda>(path, h). AList.update path h)
       (map (\<lambda>f. (fr_Path f, fr_ContentHash f))
         (filter (\<lambda>f. owned p pg (fr_ID f) \<and> fr_Path f \<in> set paths) (db_files (pg_sql pg)))) []"

end
