(* ===== verification/Pg_Graph.thy ===== *)
theory Pg_Graph
  imports Pg_Store
begin

text \<open>
  \<open>internal/storage/postgres/graph.go\<close> and \<open>diff.go\<close>. Statements that a transaction of the daemon
  runs are functions of the shared tables; a lookup of a symbol takes the project. \<open>ON CONFLICT DO
  NOTHING\<close> skips a duplicate edge and nothing else. The columns of type \<open>timestamptz\<close> hold
  instants: \<open>instant\<close> is the instant of a formatted time stamp, and of \<open>Since\<close>.
\<close>

section \<open>Edges\<close>

definition pg_lookup_symbol_id :: "(int \<Rightarrow> int) \<Rightarrow> int \<Rightarrow> string \<Rightarrow> int \<Rightarrow> string \<Rightarrow> sql_db \<Rightarrow> int" where
  "pg_lookup_symbol_id own p name fileID language db =
     (case (if fileID > 0 then find (\<lambda>s. sy_Name s = name \<and> sy_FileID s = fileID) (db_symbols db) else None) of
        Some s \<Rightarrow> sy_ID s
      | None \<Rightarrow>
          let joined = (\<lambda>s f. fr_ID f = sy_FileID s \<and> own (fr_ID f) = p) in
          if language \<noteq> []
          then sym_id_or_zero (find (\<lambda>s. sy_Name s = name
                 \<and> (\<exists>f \<in> set (db_files db). joined s f \<and> fr_Language f = language)) (db_symbols db))
          else sym_id_or_zero (find (\<lambda>s. sy_Name s = name \<and> (\<exists>f \<in> set (db_files db). joined s f)) (db_symbols db)))"

definition pg_insert_edge :: "int \<Rightarrow> int \<Rightarrow> string \<Rightarrow> int \<Rightarrow> unit tx" where
  "pg_insert_edge srcID dstID kind fileID db =
     (if \<not> edge_kind_valid kind then (Inl constraint_err, db)
      else if (srcID, dstID, kind) \<in> edge_triples db then (Inr (), db)
      else if srcID \<in> symbol_ids db \<and> dstID \<in> symbol_ids db \<and> fileID \<in> file_ids db then
        let i = db_edges_seq db + 1 in
        (Inr (), db\<lparr>db_edges := db_edges db @ [\<lparr>eg_ID = i, eg_Src = srcID, eg_Dst = dstID, eg_Kind = kind, eg_FileID = fileID\<rparr>],
                    db_edges_seq := i\<rparr>)
      else (Inl constraint_err, db))"

definition pg_insert_one_edge :: "(int \<Rightarrow> int) \<Rightarrow> int \<Rightarrow> int \<Rightarrow> (string \<rightharpoonup> int) \<Rightarrow> string \<Rightarrow> edge_record \<Rightarrow> unit tx" where
  "pg_insert_one_edge own p fileID symbolIDs language e db =
     (let srcID = map_or_zero symbolIDs (er_SrcSymbolName e) in
      if srcID = 0 then (Inr (), db)
      else
        let dst0 = map_or_zero symbolIDs (er_DstSymbolName e);
            dstID = (if dst0 = 0 then pg_lookup_symbol_id own p (er_DstSymbolName e) fileID language db else dst0)
        in if dstID \<noteq> 0
           then tx_wrap ''insert edge'' (pg_insert_edge srcID dstID (er_Kind e) fileID) db
           else tx_wrap ''insert pending edge''
                  (insert_pending srcID fileID (er_DstSymbolName e) (er_DstQualifiedName e) (er_Kind e) language) db)"

fun pg_insert_edges :: "(int \<Rightarrow> int) \<Rightarrow> int \<Rightarrow> int \<Rightarrow> edge_record list \<Rightarrow> (string \<rightharpoonup> int) \<Rightarrow> string \<Rightarrow> unit tx" where
  "pg_insert_edges own p fileID [] symbolIDs language db = (Inr (), db)"
| "pg_insert_edges own p fileID (e # es) symbolIDs language db =
     (case pg_insert_one_edge own p fileID symbolIDs language e db of
        (Inl err, db1) \<Rightarrow> (Inl err, db1)
      | (Inr _, db1) \<Rightarrow> pg_insert_edges own p fileID es symbolIDs language db1)"

text \<open>\<open>ResolvePendingEdges\<close>. The query has no project in it.\<close>

fun pg_resolve_rows :: "(int \<Rightarrow> int) \<Rightarrow> int \<Rightarrow> pending_row list \<Rightarrow> unit tx" where
  "pg_resolve_rows own p [] db = (Inr (), db)"
| "pg_resolve_rows own p (r # rs) db =
     (let dstID = pg_lookup_symbol_id own p (pe_DstName r) 0 (pe_Language r) db in
      if dstID = 0 then pg_resolve_rows own p rs db
      else case pg_insert_edge (pe_Src r) dstID (pe_Kind r) (pe_FileID r) db of
             (Inl err, db1) \<Rightarrow> (Inl (ErrWrap ''insert resolved edge'' err), db1)
           | (Inr _, db1) \<Rightarrow> pg_resolve_rows own p rs (delete_pending (pe_ID r) db1))"

definition pg_resolve_pending_edges :: "(int \<Rightarrow> int) \<Rightarrow> int \<Rightarrow> string list \<Rightarrow> unit tx" where
  "pg_resolve_pending_edges own p newSymbolNames db =
     (if newSymbolNames = [] then (Inr (), db)
      else pg_resolve_rows own p (filter (\<lambda>r. pe_DstName r \<in> set newSymbolNames) (db_pending db)) db)"

definition pg_delete_edges_by_file :: "int \<Rightarrow> unit tx" where
  "pg_delete_edges_by_file fileID db =
     (Inr (), db\<lparr>db_edges := filter (\<lambda>e. eg_FileID e \<noteq> fileID) (db_edges db)\<rparr>)"

definition pg_pending_edge_callers :: "string \<Rightarrow> pg_db \<Rightarrow> int list" where
  "pg_pending_edge_callers dstName pg =
     dedup (map pe_Src (filter (\<lambda>r. pe_DstName r = dstName) (db_pending (pg_sql pg))))"

definition pg_pending_edge_callers_with_kind :: "string \<Rightarrow> pg_db \<Rightarrow> pending_edge_caller list" where
  "pg_pending_edge_callers_with_kind dstName pg =
     map (\<lambda>r. \<lparr>pc_SrcSymbolID = pe_Src r, pc_Kind = pe_Kind r, pc_DstQualifiedName = pe_DstQualified r\<rparr>)
       (filter (\<lambda>r. pe_DstName r = dstName) (db_pending (pg_sql pg)))"

section \<open>Neighbours\<close>

text \<open>The queries walk the whole table of edges.\<close>

definition pg_neighbors :: "int \<Rightarrow> int \<Rightarrow> string \<Rightarrow> pg_db \<Rightarrow> int list res" where
  "pg_neighbors symbolID maxDepth direction pg =
     (let depth = clamp_depth maxDepth;
          out = neighbors_cte (outgoing (pg_sql pg)) symbolID depth;
          inc = neighbors_cte (incoming (pg_sql pg)) symbolID depth
      in if direction = ''outgoing'' then Inr out
         else if direction = ''incoming'' then Inr inc
         else if direction = ''both'' then Inr (dedup (out @ inc))
         else Inl (ErrMsg ''invalid direction''))"

definition pg_batch_neighbors :: "int list \<Rightarrow> int \<Rightarrow> pg_db \<Rightarrow> (int \<times> int list) list" where
  "pg_batch_neighbors symbolIDs maxDepth pg =
     fold (\<lambda>i result. case pg_neighbors i maxDepth ''both'' pg of
                         Inl _ \<Rightarrow> result
                       | Inr ns \<Rightarrow> AList.update i ns result) symbolIDs []"

section \<open>The log of changes\<close>

definition pg_insert_diff_log :: "string \<Rightarrow> diff_log_entry \<Rightarrow> int tx" where
  "pg_insert_diff_log now entry db =
     (if diff_check entry \<and> dl_FileID entry \<in> file_ids db then
        let i = db_diffs_seq db + 1 in
        (Inr i, db\<lparr>db_diffs := db_diffs db @ [entry\<lparr>dl_ID := i, dl_Timestamp := now\<rparr>], db_diffs_seq := i\<rparr>)
      else (Inl (ErrWrap ''insert diff_log'' constraint_err), db))"

fun pg_insert_diff_symbols :: "int \<Rightarrow> diff_symbol_entry list \<Rightarrow> unit tx" where
  "pg_insert_diff_symbols diffID [] db = (Inr (), db)"
| "pg_insert_diff_symbols diffID (ds # rest) db =
     (case insert_diff_symbol diffID ds db of
        (Inl e, db1) \<Rightarrow> (Inl (ErrWrap ''insert diff_symbol'' e), db1)
      | (Inr _, db1) \<Rightarrow> pg_insert_diff_symbols diffID rest db1)"

text \<open>\<open>ORDER BY timestamp DESC\<close>, by instant.\<close>

definition latest_first :: "('a \<Rightarrow> int) \<Rightarrow> 'a list \<Rightarrow> 'a list" where
  "latest_first ts rows = rev (sort_key ts (rev rows))"

definition pg_get_recent_diffs ::
  "(string \<Rightarrow> int) \<Rightarrow> int \<Rightarrow> recent_diffs_input \<Rightarrow> pg_db \<Rightarrow> diff_log_entry list" where
  "pg_get_recent_diffs instant p input pg =
     (let recent = (\<lambda>d. instant (rd_Since input) \<le> instant (dl_Timestamp d));
          rows = (if rd_FileID input \<noteq> 0
                  then filter (\<lambda>d. dl_FileID d = rd_FileID input \<and> recent d) (db_diffs (pg_sql pg))
                  else filter (\<lambda>d. file_in p pg (dl_FileID d) \<and> recent d) (db_diffs (pg_sql pg)));
          newest = latest_first (\<lambda>d. instant (dl_Timestamp d)) rows
      in if rd_Limit input > 0 then take (nat (rd_Limit input)) newest else newest)"

definition pg_get_diff_symbols :: "int \<Rightarrow> pg_db \<Rightarrow> diff_symbol_entry list" where
  "pg_get_diff_symbols diffID pg =
     map (\<lambda>d. \<lparr>ds_SymbolName = dy_SymbolName d, ds_SymbolID = int_or_zero (dy_SymbolID d),
               ds_ChangeType = dy_ChangeType d, ds_ChunkID = int_or_zero (dy_ChunkID d)\<rparr>)
       (filter (\<lambda>d. dy_DiffID d = diffID) (db_diffsyms (pg_sql pg)))"

text \<open>\<open>changeScore\<close>.\<close>

definition pg_change_score :: "(string \<Rightarrow> int) \<Rightarrow> int \<Rightarrow> diff_log_entry \<Rightarrow> real" where
  "pg_change_score instant now dl =
     (let hours = real_of_int (now - instant (dl_Timestamp dl)) / ns_per_hour;
          magnitude = real_of_int (dl_LinesAdded dl + dl_LinesRemoved dl)
      in exp (- 0.05 * hours) * min (magnitude / 50) 1)"

definition pg_symbol_level_rows :: "(string \<Rightarrow> int) \<Rightarrow> int list \<Rightarrow> sql_db \<Rightarrow> (int \<times> diff_log_entry) list" where
  "pg_symbol_level_rows instant ids db =
     latest_first (\<lambda>(i, dl). instant (dl_Timestamp dl)) (concat (map (\<lambda>ds.
       case dy_ChunkID ds of
         Some c \<Rightarrow> if c \<in> set ids then map (Pair c) (filter (\<lambda>dl. dl_ID dl = dy_DiffID ds) (db_diffs db)) else []
       | None \<Rightarrow> []) (db_diffsyms db)))"

definition pg_file_level_rows :: "(string \<Rightarrow> int) \<Rightarrow> int list \<Rightarrow> sql_db \<Rightarrow> (int \<times> diff_log_entry) list" where
  "pg_file_level_rows instant ids db =
     latest_first (\<lambda>(i, dl). instant (dl_Timestamp dl)) (concat (map (\<lambda>c.
       map (Pair (cr_ID c)) (filter (\<lambda>dl. dl_FileID dl = cr_FileID c) (db_diffs db)))
       (filter (\<lambda>c. cr_ID c \<in> set ids) (db_chunks db))))"

definition pg_compute_change_scores :: "(string \<Rightarrow> int) \<Rightarrow> int \<Rightarrow> int list \<Rightarrow> pg_db \<Rightarrow> (int \<times> real) list" where
  "pg_compute_change_scores instant now chunkIDs pg =
     (if chunkIDs = [] then []
      else
        let score = pg_change_score instant now;
            scores = add_scores score (pg_symbol_level_rows instant chunkIDs (pg_sql pg)) [];
            missing = filter (\<lambda>i. map_of scores i = None) chunkIDs
        in if missing \<noteq> [] then add_scores score (pg_file_level_rows instant missing (pg_sql pg)) scores else scores)"

section \<open>Transactions of the daemon\<close>

text \<open>The statements the writer runs in a transaction of its own making.\<close>

datatype pg_stmt =
    PInsertEdges int "edge_record list" "string \<rightharpoonup> int" string
  | PResolvePending "string list"
  | PDeleteEdges int
  | PInsertDiffLog string diff_log_entry
  | PInsertDiffSymbols int "diff_symbol_entry list"

fun pg_exec_stmt :: "(int \<Rightarrow> int) \<Rightarrow> int \<Rightarrow> pg_stmt \<Rightarrow> unit tx" where
  "pg_exec_stmt own p (PInsertEdges fid es ids lang) = pg_insert_edges own p fid es ids lang"
| "pg_exec_stmt own p (PResolvePending names) = pg_resolve_pending_edges own p names"
| "pg_exec_stmt own p (PDeleteEdges fid) = pg_delete_edges_by_file fid"
| "pg_exec_stmt own p (PInsertDiffLog now e) = tx_bind (pg_insert_diff_log now e) (\<lambda>_. tx_return ())"
| "pg_exec_stmt own p (PInsertDiffSymbols i ds) = pg_insert_diff_symbols i ds"

fun pg_exec_stmts :: "(int \<Rightarrow> int) \<Rightarrow> int \<Rightarrow> pg_stmt list \<Rightarrow> unit tx" where
  "pg_exec_stmts own p [] = tx_return ()"
| "pg_exec_stmts own p (s # ss) = tx_bind (pg_exec_stmt own p s) (\<lambda>_. pg_exec_stmts own p ss)"

definition pg_transaction :: "int \<Rightarrow> pg_stmt list \<Rightarrow> unit pg_tx" where
  "pg_transaction p ss pg = pg_run (with_write_tx (pg_exec_stmts (pg_project pg) p ss)) pg"

end
