(* ===== verification/Pg_Confined.thy ===== *)
theory Pg_Confined
  imports Pg_Graph
begin

text \<open>
  The statements of the Postgres store, run with ids that a project owns, are confined to its
  slice of the database: insertions, updates of chunks and files, parents, and the embedding
  state machine over \<open>pgChunkOps\<close>. \<open>chunk_local\<close> and its companions say that an id, if it is
  in use at all, is the project's.
\<close>

section \<open>Ids of a project\<close>

definition chunk_local :: "(int \<Rightarrow> int) \<Rightarrow> int \<Rightarrow> sql_db \<Rightarrow> int \<Rightarrow> bool" where
  "chunk_local own p db i \<longleftrightarrow> (\<forall>c \<in> set (db_chunks db). cr_ID c = i \<longrightarrow> own (cr_FileID c) = p)"

definition sym_local :: "(int \<Rightarrow> int) \<Rightarrow> int \<Rightarrow> sql_db \<Rightarrow> int \<Rightarrow> bool" where
  "sym_local own p db i \<longleftrightarrow> (\<forall>s \<in> set (db_symbols db). sy_ID s = i \<longrightarrow> own (sy_FileID s) = p)"

definition diff_local :: "(int \<Rightarrow> int) \<Rightarrow> int \<Rightarrow> sql_db \<Rightarrow> int \<Rightarrow> bool" where
  "diff_local own p db i \<longleftrightarrow> (\<forall>d \<in> set (db_diffs db). dl_ID d = i \<longrightarrow> own (dl_FileID d) = p)"

lemma slice_ids:
  "own i = p \<Longrightarrow> i \<in> fr_ID ` {f \<in> set (db_files db). own (fr_ID f) = p} \<longleftrightarrow> i \<in> file_ids db"
  "chunk_local own p db i \<Longrightarrow> i \<in> cr_ID ` {c \<in> set (db_chunks db). own (cr_FileID c) = p} \<longleftrightarrow> i \<in> chunk_ids db"
  "sym_local own p db i \<Longrightarrow> i \<in> sy_ID ` {s \<in> set (db_symbols db). own (sy_FileID s) = p} \<longleftrightarrow> i \<in> symbol_ids db"
  "diff_local own p db i \<Longrightarrow> i \<in> dl_ID ` {d \<in> set (db_diffs db). own (dl_FileID d) = p} \<longleftrightarrow> i \<in> diff_ids db"
  by (auto simp: chunk_local_def sym_local_def diff_local_def)

lemma slice_local [simp]:
  "chunk_local own p (slice own p db) i" "sym_local own p (slice own p db) i" "diff_local own p (slice own p db) i"
  by (simp_all add: chunk_local_def sym_local_def diff_local_def)

text \<open>A row of one project is in no other slice.\<close>

lemma in_slice_unique:
  assumes "slices_ok own db"
  shows "s \<in> set (db_symbols db) \<Longrightarrow> sy_ID s \<in> symbol_ids (slice own q db) \<Longrightarrow> own (sy_FileID s) = q"
proof -
  assume s: "s \<in> set (db_symbols db)" "sy_ID s \<in> symbol_ids (slice own q db)"
  then obtain t where t: "t \<in> set (db_symbols db)" "sy_ID s = sy_ID t" "own (sy_FileID t) = q" by auto
  from slices_okD(1) [OF assms] have "wf_ids (map sy_ID (db_symbols db)) (db_symbols_seq db)" by (simp add: ids_ok_def)
  from key_unique [OF this s(1) t(1,2)] t(3) show ?thesis by simp
qed

section \<open>Statements that insert\<close>

lemmas slice_insert_simps = slice_def contents_def seqs_def slice_ids

lemma confined_insert_chunk:
  assumes ok: "slices_ok own db" and own: "own (cr_FileID c) = p" and parent: "cr_ParentChunkID c = None"
  shows "confined own p (insert_chunk c) db"
proof (cases "chunk_check c \<and> cr_FileID c \<in> file_ids db")
  case True
  have t: "\<not> db_fts_triggers db" using slices_okD [OF ok] by simp
  let ?db = "db\<lparr>db_chunks := db_chunks db @ [c\<lparr>cr_ID := db_chunks_seq db + 1\<rparr>], db_chunks_seq := db_chunks_seq db + 1\<rparr>"
  have run: "insert_chunk c db = (Inr (db_chunks_seq db + 1), ?db)"
    using True parent t by (simp add: insert_chunk_def Let_def ref_ok_def)
  show ?thesis
  proof (rule confinedI [OF ok keeps_insert_chunk run])
    show "insert_chunk c (slice own p db) = (Inr (db_chunks_seq db + 1), slice own p ?db)"
      using True parent t own by (simp add: insert_chunk_def Let_def ref_ok_def slice_insert_simps)
    show "ids_ok ?db" using slices_okD(1) [OF ok] wf_ids_snoc [of "map cr_ID (db_chunks db)"] by (simp add: ids_ok_def)
  qed (use own in \<open>simp_all add: slice_insert_simps\<close>)
next
  case False
  then have "insert_chunk c db = (Inl constraint_err, db)" "insert_chunk c (slice own p db) = (Inl constraint_err, slice own p db)"
    using own by (auto simp: insert_chunk_def slice_insert_simps)
  with ok show ?thesis by (simp add: confined_def)
qed

lemma confined_insert_symbol:
  assumes ok: "slices_ok own db" and own: "own (sy_FileID s) = p" and loc: "chunk_local own p db (sy_ChunkID s)"
  shows "confined own p (insert_symbol s) db"
proof (cases "symbol_check s \<and> sy_ChunkID s \<in> chunk_ids db \<and> sy_FileID s \<in> file_ids db")
  case True
  let ?db = "db\<lparr>db_symbols := db_symbols db @ [s\<lparr>sy_ID := db_symbols_seq db + 1\<rparr>], db_symbols_seq := db_symbols_seq db + 1\<rparr>"
  have run: "insert_symbol s db = (Inr (db_symbols_seq db + 1), ?db)"
    using True by (simp add: insert_symbol_def Let_def)
  show ?thesis
  proof (rule confinedI [OF ok keeps_insert_symbol run])
    show "insert_symbol s (slice own p db) = (Inr (db_symbols_seq db + 1), slice own p ?db)"
      using True own loc by (simp add: insert_symbol_def Let_def slice_insert_simps)
    show "ids_ok ?db" using slices_okD(1) [OF ok] wf_ids_snoc [of "map sy_ID (db_symbols db)"] by (simp add: ids_ok_def)
  qed (use own in \<open>simp_all add: slice_insert_simps\<close>)
next
  case False
  then have "insert_symbol s db = (Inl constraint_err, db)" "insert_symbol s (slice own p db) = (Inl constraint_err, slice own p db)"
    using own loc by (auto simp: insert_symbol_def slice_insert_simps)
  with ok show ?thesis by (simp add: confined_def)
qed

text \<open>Which edges there are from a symbol of the project can be read off its slice.\<close>

lemma edge_in_slice:
  assumes ok: "slices_ok own db" and loc: "sym_local own p db a"
  shows "(a, b, k) \<in> edge_triples (slice own p db) \<longleftrightarrow> (a, b, k) \<in> edge_triples db"
proof
  assume "(a, b, k) \<in> edge_triples db"
  then obtain e where e: "e \<in> set (db_edges db)" "edge_triple e = (a, b, k)" by force
  then have src: "a \<in> symbol_ids (slice own (own (eg_FileID e)) db)"
    using slices_okD(3) [OF ok, of "own (eg_FileID e)"] unfolding db_inv_def by force
  then obtain s where s: "s \<in> set (db_symbols db)" "sy_ID s = a" by auto
  with loc have "own (sy_FileID s) = p" by (auto simp: sym_local_def)
  with in_slice_unique [OF ok s(1)] s(2) src have "own (eg_FileID e) = p" by metis
  with e show "(a, b, k) \<in> edge_triples (slice own p db)" by force
qed auto

lemma confined_pg_insert_edge:
  assumes ok: "slices_ok own db" and own: "own f = p" and loc: "sym_local own p db a" "sym_local own p db b"
  shows "confined own p (pg_insert_edge a b k f) db"
proof -
  have conds: "(a, b, k) \<in> edge_triples (slice own p db) \<longleftrightarrow> (a, b, k) \<in> edge_triples db"
    "a \<in> symbol_ids (slice own p db) \<longleftrightarrow> a \<in> symbol_ids db" "b \<in> symbol_ids (slice own p db) \<longleftrightarrow> b \<in> symbol_ids db"
    "f \<in> file_ids (slice own p db) \<longleftrightarrow> f \<in> file_ids db"
    using edge_in_slice [OF ok loc(1)] own loc by (simp_all add: slice_ids)
  show ?thesis
  proof (cases "edge_kind_valid k \<and> (a, b, k) \<notin> edge_triples db \<and> a \<in> symbol_ids db \<and> b \<in> symbol_ids db \<and> f \<in> file_ids db")
    case True
    let ?db = "db\<lparr>db_edges := db_edges db @ [\<lparr>eg_ID = db_edges_seq db + 1, eg_Src = a, eg_Dst = b, eg_Kind = k, eg_FileID = f\<rparr>],
        db_edges_seq := db_edges_seq db + 1\<rparr>"
    have run: "pg_insert_edge a b k f db = (Inr (), ?db)" using True by (simp add: pg_insert_edge_def Let_def)
    have eq: "pg_insert_edge a b k f = insert_edge a b k f" using True by (simp add: fun_eq_iff pg_insert_edge_def insert_edge_def)
    show ?thesis
    proof (rule confinedI [where m = "pg_insert_edge a b k f", OF ok _ run])
      show "tx_keeps (pg_insert_edge a b k f)" unfolding eq by (rule keeps_insert_edge)
      have "pg_insert_edge a b k f (slice own p db) = (Inr (), (slice own p db)\<lparr>db_edges := db_edges (slice own p db)
          @ [\<lparr>eg_ID = db_edges_seq db + 1, eg_Src = a, eg_Dst = b, eg_Kind = k, eg_FileID = f\<rparr>], db_edges_seq := db_edges_seq db + 1\<rparr>)"
        unfolding pg_insert_edge_def conds using True by (simp add: Let_def)
      then show "pg_insert_edge a b k f (slice own p db) = (Inr (), slice own p ?db)" using own by (simp add: slice_def)
      show "ids_ok ?db" using slices_okD(1) [OF ok] wf_ids_snoc [of "map eg_ID (db_edges db)"] by (simp add: ids_ok_def)
    qed (use own in \<open>simp_all add: slice_insert_simps\<close>)
  next
    case False
    have "\<exists>r. pg_insert_edge a b k f db = (r, db) \<and> pg_insert_edge a b k f (slice own p db) = (r, slice own p db)"
      unfolding pg_insert_edge_def conds using False by (cases "edge_kind_valid k"; cases "(a, b, k) \<in> edge_triples db") auto
    with ok show ?thesis by (auto simp: confined_def)
  qed
qed

lemma confined_insert_pending:
  assumes ok: "slices_ok own db" and own: "own f = p" and loc: "sym_local own p db a"
  shows "confined own p (insert_pending a f n q k l) db"
proof (cases "edge_kind_valid k \<and> a \<in> symbol_ids db \<and> f \<in> file_ids db")
  case True
  let ?db = "db\<lparr>db_pending := db_pending db @ [\<lparr>pe_ID = db_pending_seq db + 1, pe_Src = a, pe_FileID = f, pe_DstName = n,
      pe_DstQualified = q, pe_Kind = k, pe_Language = l\<rparr>], db_pending_seq := db_pending_seq db + 1\<rparr>"
  have run: "insert_pending a f n q k l db = (Inr (), ?db)" using True by (simp add: insert_pending_def Let_def)
  show ?thesis
  proof (rule confinedI [OF ok keeps_insert_pending run])
    show "insert_pending a f n q k l (slice own p db) = (Inr (), slice own p ?db)"
      using True own loc by (simp add: insert_pending_def Let_def slice_insert_simps)
    show "ids_ok ?db" using slices_okD(1) [OF ok] wf_ids_snoc [of "map pe_ID (db_pending db)"] by (simp add: ids_ok_def)
  qed (use own in \<open>simp_all add: slice_insert_simps\<close>)
next
  case False
  then have "insert_pending a f n q k l db = (Inl constraint_err, db)"
    "insert_pending a f n q k l (slice own p db) = (Inl constraint_err, slice own p db)"
    using own loc by (auto simp: insert_pending_def slice_insert_simps)
  with ok show ?thesis by (simp add: confined_def)
qed

lemma pg_insert_diff_log_eq: "pg_insert_diff_log = insert_diff_log"
  by (simp add: fun_eq_iff pg_insert_diff_log_def insert_diff_log_def)

lemma confined_insert_diff_log:
  assumes ok: "slices_ok own db" and own: "own (dl_FileID e) = p"
  shows "confined own p (pg_insert_diff_log now e) db"
proof (cases "diff_check e \<and> dl_FileID e \<in> file_ids db")
  case True
  let ?db = "db\<lparr>db_diffs := db_diffs db @ [e\<lparr>dl_ID := db_diffs_seq db + 1, dl_Timestamp := now\<rparr>], db_diffs_seq := db_diffs_seq db + 1\<rparr>"
  have run: "pg_insert_diff_log now e db = (Inr (db_diffs_seq db + 1), ?db)" using True by (simp add: pg_insert_diff_log_def Let_def)
  have fresh: "dy_DiffID d \<noteq> db_diffs_seq db + 1" if "d \<in> set (db_diffsyms db)" for d
  proof -
    from slices_okD(1) [OF ok] have "\<forall>i \<in> diff_ids db. i \<le> db_diffs_seq db" "dy_DiffID d \<in> diff_ids db"
      using that by (auto simp: ids_ok_def wf_ids_def)
    then show ?thesis by fastforce
  qed
  have syms: "filter (\<lambda>d. dy_DiffID d = db_diffs_seq db + 1 \<or> dy_DiffID d \<in> A) (db_diffsyms db) = filter (\<lambda>d. dy_DiffID d \<in> A) (db_diffsyms db)" for A
    by (rule filter_cong) (simp_all add: fresh)
  have new: "{l. (l = x \<or> l \<in> S) \<and> own (dl_FileID l) = q} = (if own (dl_FileID x) = q then insert x {l \<in> S. own (dl_FileID l) = q} else {l \<in> S. own (dl_FileID l) = q})"
    for x S q by auto
  show ?thesis
  proof (rule confinedI [where m = "pg_insert_diff_log now e", OF ok _ run])
    show "tx_keeps (pg_insert_diff_log now e)" unfolding pg_insert_diff_log_eq by (rule keeps_insert_diff_log)
    show "pg_insert_diff_log now e (slice own p db) = (Inr (db_diffs_seq db + 1), slice own p ?db)"
      using True own by (simp add: pg_insert_diff_log_def Let_def slice_insert_simps new syms)
    show "ids_ok ?db" using slices_okD(1) [OF ok] wf_ids_snoc [of "map dl_ID (db_diffs db)"] by (simp add: ids_ok_def)
  qed (use own in \<open>simp_all add: slice_insert_simps new syms\<close>)
next
  case False
  then have "pg_insert_diff_log now e db = (Inl (ErrWrap ''insert diff_log'' constraint_err), db)"
    "pg_insert_diff_log now e (slice own p db) = (Inl (ErrWrap ''insert diff_log'' constraint_err), slice own p db)"
    using own by (auto simp: pg_insert_diff_log_def slice_insert_simps)
  with ok show ?thesis by (simp add: confined_def)
qed

lemma null_local: "(i \<noteq> 0 \<Longrightarrow> sym_local own p db i) \<Longrightarrow> ref_ok (symbol_ids (slice own p db)) (null_int i) = ref_ok (symbol_ids db) (null_int i)"
  "(i \<noteq> 0 \<Longrightarrow> chunk_local own p db i) \<Longrightarrow> ref_ok (chunk_ids (slice own p db)) (null_int i) = ref_ok (chunk_ids db) (null_int i)"
  by (auto simp: ref_ok_def null_int_def slice_ids)

lemma confined_insert_diff_symbol:
  assumes ok: "slices_ok own db" and loc: "diff_local own p db i"
    "ds_SymbolID ds \<noteq> 0 \<Longrightarrow> sym_local own p db (ds_SymbolID ds)" "ds_ChunkID ds \<noteq> 0 \<Longrightarrow> chunk_local own p db (ds_ChunkID ds)"
  shows "confined own p (insert_diff_symbol i ds) db"
proof -
  define row where "row = \<lparr>dy_ID = db_diffsyms_seq db + 1, dy_DiffID = i, dy_SymbolID = null_int (ds_SymbolID ds),
                 dy_SymbolName = ds_SymbolName ds, dy_ChangeType = ds_ChangeType ds, dy_ChunkID = null_int (ds_ChunkID ds)\<rparr>"
  let ?cond = "diff_symbol_check row \<and> i \<in> diff_ids db \<and> ref_ok (symbol_ids db) (dy_SymbolID row) \<and> ref_ok (chunk_ids db) (dy_ChunkID row)"
  let ?db = "db\<lparr>db_diffsyms := db_diffsyms db @ [row], db_diffsyms_seq := db_diffsyms_seq db + 1\<rparr>"
  have cond: "i \<in> diff_ids (slice own p db) \<longleftrightarrow> i \<in> diff_ids db"
    "ref_ok (symbol_ids (slice own p db)) (dy_SymbolID row) = ref_ok (symbol_ids db) (dy_SymbolID row)"
    "ref_ok (chunk_ids (slice own p db)) (dy_ChunkID row) = ref_ok (chunk_ids db) (dy_ChunkID row)"
    using loc null_local by (simp_all add: slice_ids row_def)
  have run: "insert_diff_symbol i ds db = (if ?cond then (Inr (), ?db) else (Inl constraint_err, db))"
    by (simp only: insert_diff_symbol_def Let_def flip: row_def)
  have here: "insert_diff_symbol i ds (slice own p db) = (if ?cond
      then (Inr (), (slice own p db)\<lparr>db_diffsyms := db_diffsyms (slice own p db) @ [row], db_diffsyms_seq := db_diffsyms_seq db + 1\<rparr>)
      else (Inl constraint_err, slice own p db))"
    unfolding cond [symmetric] by (simp only: insert_diff_symbol_def Let_def slice_fields(14) flip: row_def)
  show ?thesis
  proof (cases ?cond)
    case True
    with run have run': "insert_diff_symbol i ds db = (Inr (), ?db)" by simp
    have mem: "i \<in> dl_ID ` {l. l \<in> set (db_diffs db) \<and> own (dl_FileID l) = q} \<longleftrightarrow> q = p" for q
      using True loc(1) by (auto simp: diff_local_def)
    show ?thesis
    proof (rule confinedI [OF ok keeps_insert_diff_symbol run'])
      show "insert_diff_symbol i ds (slice own p db) = (Inr (), slice own p ?db)"
        using True here mem by (simp add: slice_def row_def)
      show "ids_ok ?db" using True slices_okD(1) [OF ok] wf_ids_snoc [of "map dy_ID (db_diffsyms db)"] by (simp add: ids_ok_def row_def)
    qed (use mem in \<open>simp_all add: slice_insert_simps row_def\<close>)
  next
    case False
    with run here have "insert_diff_symbol i ds db = (Inl constraint_err, db)"
      "insert_diff_symbol i ds (slice own p db) = (Inl constraint_err, slice own p db)" by (simp_all only: if_False)
    with ok show ?thesis by (simp add: confined_def)
  qed
qed

section \<open>Updates\<close>

lemma slice_update_chunks:
  assumes "\<not> db_fts_triggers db" and "\<And>c. cr_FileID (f c) = cr_FileID c"
  shows "slice own p (update_chunks P f db) = update_chunks P f (slice own p db)"
proof -
  have "filter (\<lambda>c. own (cr_FileID c) = p) (map (\<lambda>c. if P c then f c else c) cs)
      = map (\<lambda>c. if P c then f c else c) (filter (\<lambda>c. own (cr_FileID c) = p) cs)" for cs
    by (induction cs) (auto simp: assms(2))
  with assms(1) show ?thesis by (simp add: slice_def update_chunks_def)
qed

lemma update_chunks_none:
  "\<not> db_fts_triggers db \<Longrightarrow> \<forall>c \<in> set (db_chunks db). \<not> P c \<Longrightarrow> update_chunks P f db = db"
  by (simp add: update_chunks_def map_idI)

lemma confined_update_chunks:
  assumes ok: "slices_ok own db" and keep: "\<And>c. cr_ID (f c) = cr_ID c \<and> cr_FileID (f c) = cr_FileID c \<and> chunk_check (f c) = chunk_check c"
    and own: "\<And>c. c \<in> set (db_chunks db) \<Longrightarrow> P c \<Longrightarrow> own (cr_FileID c) = p \<and> ref_ok (chunk_ids (slice own p db)) (cr_ParentChunkID (f c))"
  shows "confined own p (\<lambda>db. (Inr x, update_chunks P f db)) db"
proof (rule confined_pure [OF ok])
  have t: "\<not> db_fts_triggers db" using slices_okD [OF ok] by simp
  show slice: "slice own q (update_chunks P f db) = update_chunks P f (slice own q db)" for q
    by (rule slice_update_chunks [OF t]) (simp add: keep)
  show none: "update_chunks P f (slice own q db) = slice own q db" if "q \<noteq> p" for q
    using own that t by (intro update_chunks_none) auto
  have "db_inv (slice own q (update_chunks P f db))" for q
  proof (cases "q = p")
    case True
    show ?thesis
      unfolding slice True
      by (rule update_chunks_inv [OF slices_okD(3) [OF ok]])
        (use slices_okD(3) [OF ok, of p] own keep in \<open>auto simp: db_inv_def\<close>)
  next
    case False
    then show ?thesis unfolding slice none [OF False] by (intro slices_okD(3) [OF ok])
  qed
  moreover have ids: "map cr_ID (db_chunks (update_chunks P f db)) = map cr_ID (db_chunks db)"
    by (simp add: update_chunks_def keep)
  have "ids_ok (update_chunks P f db)"
    using slices_okD(1) [OF ok] unfolding ids_ok_def ids by (simp add: update_chunks_def)
  ultimately show "slices_ok own (update_chunks P f db)" using t by (simp add: slices_ok_def update_chunks_def)
qed

lemma confined_update_files:
  assumes ok: "slices_ok own db" and keep: "\<And>f. f \<in> set (db_files db) \<Longrightarrow> fr_ID (h f) = fr_ID f \<and> fr_Path (h f) = fr_Path f \<and> file_check (h f)"
    and own: "\<And>f. f \<in> set (db_files db) \<Longrightarrow> own (fr_ID f) \<noteq> p \<Longrightarrow> h f = f"
  shows "confined own p (\<lambda>db. (Inr x, db\<lparr>db_files := map h (db_files db)\<rparr>)) db"
proof (rule confined_pure [OF ok])
  have same: "filter (\<lambda>f. own (fr_ID f) = q) (map h fs) = map h (filter (\<lambda>f. own (fr_ID f) = q) fs)"
    if "set fs \<subseteq> set (db_files db)" for q fs using that by (induction fs) (auto simp: keep)
  show slice: "slice own q (db\<lparr>db_files := map h (db_files db)\<rparr>) = (slice own q db)\<lparr>db_files := map h (db_files (slice own q db))\<rparr>" for q
    using same [of "db_files db" q] by (simp add: slice_def)
  show none: "(slice own q db)\<lparr>db_files := map h (db_files (slice own q db))\<rparr> = slice own q db" if "q \<noteq> p" for q
  proof -
    have "map h (db_files (slice own q db)) = db_files (slice own q db)"
      using that own by (intro map_idI) auto
    then show ?thesis by simp
  qed
  have "db_inv (slice own q (db\<lparr>db_files := map h (db_files db)\<rparr>))" for q
    unfolding slice
    by (rule files_replace_inv [OF slices_okD(3) [OF ok]]) (use keep in auto)
  moreover have "ids_ok (db\<lparr>db_files := map h (db_files db)\<rparr>)"
  proof -
    have ids: "map fr_ID (db_files (db\<lparr>db_files := map h (db_files db)\<rparr>)) = map fr_ID (db_files db)" using keep by simp
    from slices_okD(1) [OF ok] show ?thesis unfolding ids_ok_def ids by simp
  qed
  ultimately show "slices_ok own (db\<lparr>db_files := map h (db_files db)\<rparr>)" using slices_okD(2) [OF ok] by (simp add: slices_ok_def)
qed

lemma confined_set_embedded:
  assumes "slices_ok own db" and "\<forall>i \<in> set ids. chunk_local own p db i"
  shows "confined own p (pg_set_embedded ids b) db"
proof -
  have "confined own p (\<lambda>db. (Inr (), update_chunks (\<lambda>c. cr_ID c \<in> set ids) (\<lambda>c. c\<lparr>cw_embedded := b\<rparr>) db)) db"
    by (rule confined_update_chunks [OF assms(1)])
      (use assms slices_okD(3) [OF assms(1), of p] in \<open>auto simp: chunk_check_def chunk_local_def db_inv_def\<close>)
  then show ?thesis by (simp add: pg_set_embedded_def [abs_def])
qed

lemma confined_set_file_status:
  assumes ok: "slices_ok own db" and own: "own fid = p" and valid: "embedding_status_valid st"
  shows "confined own p (pg_set_file_status fid st keep) db"
proof -
  let ?hit = "\<lambda>f. fr_ID f = fid \<and> (\<not> keep \<or> fr_EmbeddingStatus f \<noteq> ''complete'')"
  have "confined own p (\<lambda>db. (Inr (), db\<lparr>db_files := map (\<lambda>f. if ?hit f then f\<lparr>fr_EmbeddingStatus := st\<rparr> else f) (db_files db)\<rparr>)) db"
  proof (rule confined_update_files [OF ok])
    fix f assume "f \<in> set (db_files db)"
    then have "f \<in> set (db_files (slice own (own (fr_ID f)) db))" by simp
    with slices_okD(3) [OF ok, of "own (fr_ID f)"] have "file_check f" unfolding db_inv_def by blast
    with valid show "fr_ID (if ?hit f then f\<lparr>fr_EmbeddingStatus := st\<rparr> else f) = fr_ID f
        \<and> fr_Path (if ?hit f then f\<lparr>fr_EmbeddingStatus := st\<rparr> else f) = fr_Path f
        \<and> file_check (if ?hit f then f\<lparr>fr_EmbeddingStatus := st\<rparr> else f)"
      by (simp add: file_check_def)
  qed (use own in auto)
  with valid show ?thesis by (simp add: pg_set_file_status_def [abs_def] Let_def)
qed

lemma pg_count_slice: "own fid = p \<Longrightarrow> pg_count_remaining fid (slice own p db) = pg_count_remaining fid db"
  "own fid = p \<Longrightarrow> pg_count_embedded fid (slice own p db) = pg_count_embedded fid db"
proof -
  assume "own fid = p"
  then have "filter (\<lambda>c. cr_FileID c = fid \<and> Q c) (filter (\<lambda>c. own (cr_FileID c) = p) cs) = filter (\<lambda>c. cr_FileID c = fid \<and> Q c) cs"
    for Q and cs :: "chunk_row list" by (induction cs) auto
  then show "pg_count_remaining fid (slice own p db) = pg_count_remaining fid db"
    "pg_count_embedded fid (slice own p db) = pg_count_embedded fid db"
    by (simp_all only: pg_count_remaining_def pg_count_embedded_def slice_fields)
qed

text \<open>The loops of the embedding state machine, for any project's files.\<close>

lemma confined_step:
  assumes "confined own p m db" and "m db = (Inr a, db1)" and "confined own p n db1"
    and "w db = n db1" and "w (slice own p db) = n (slice own p db1)"
  shows "confined own p w db"
  using assms(3-5) confinedD [OF assms(1,2)] unfolding confined_def by simp

lemma pg_set_file_status_ok: "embedding_status_valid st \<Longrightarrow> \<exists>db1. pg_set_file_status fid st keep db = (Inr (), db1)"
  by (simp add: pg_set_file_status_def Let_def)

lemma status_valid [simp]: "embedding_status_valid ''complete''" "embedding_status_valid ''partial''" "embedding_status_valid ''pending''"
  by (simp_all add: embedding_status_valid_def)

lemma pg_ops [simp]:
  "co_SetEmbedded pg_chunk_ops = pg_set_embedded" "co_AffectedFiles pg_chunk_ops = pg_affected_files"
  "co_CountRemaining pg_chunk_ops = pg_count_remaining" "co_CountEmbedded pg_chunk_ops = pg_count_embedded"
  "co_SetFileStatus pg_chunk_ops = pg_set_file_status"
  by (simp_all add: pg_chunk_ops_def)

lemma confined_mark_files:
  "slices_ok own db \<Longrightarrow> \<forall>f \<in> set fids. own f = p \<Longrightarrow> confined own p (mark_files pg_chunk_ops fids) db"
proof (induction fids arbitrary: db)
  case Nil
  then show ?case by (simp add: confined_def)
next
  case (Cons fid fids)
  obtain n where n: "pg_count_remaining fid db = Inr n" by (simp add: pg_count_remaining_def)
  with Cons.prems have n': "pg_count_remaining fid (slice own p db) = Inr n" by (simp add: pg_count_slice)
  let ?m = "if n = 0 then pg_set_file_status fid ''complete'' False else pg_set_file_status fid ''partial'' True"
  have m: "confined own p ?m db" using Cons.prems by (simp add: confined_set_file_status)
  obtain db1 where db1: "?m db = (Inr (), db1)"
    using pg_set_file_status_ok [of "''complete''" fid False db] pg_set_file_status_ok [of "''partial''" fid True db]
    by (cases "n = 0") auto
  from confinedD(2) [OF m db1] Cons.prems have "confined own p (mark_files pg_chunk_ops fids) db1" by (intro Cons.IH) auto
  then show ?case
  proof (rule confined_step [OF m db1])
    show "mark_files pg_chunk_ops (fid # fids) db = mark_files pg_chunk_ops fids db1"
      using n db1 by (cases "n = 0") simp_all
    show "mark_files pg_chunk_ops (fid # fids) (slice own p db) = mark_files pg_chunk_ops fids (slice own p db1)"
      using n' confinedD(1) [OF m db1] by (cases "n = 0") simp_all
  qed
qed

lemma confined_reset_files:
  "slices_ok own db \<Longrightarrow> \<forall>f \<in> set fids. own f = p \<Longrightarrow> confined own p (reset_files pg_chunk_ops fids) db"
proof (induction fids arbitrary: db)
  case Nil
  then show ?case by (simp add: confined_def)
next
  case (Cons fid fids)
  obtain n where n: "pg_count_embedded fid db = Inr n" by (simp add: pg_count_embedded_def)
  with Cons.prems have n': "pg_count_embedded fid (slice own p db) = Inr n" by (simp add: pg_count_slice)
  let ?m = "pg_set_file_status fid (if n > 0 then ''partial'' else ''pending'') False"
  have m: "confined own p ?m db" using Cons.prems by (simp add: confined_set_file_status)
  obtain db1 where db1: "?m db = (Inr (), db1)"
    using pg_set_file_status_ok [of "''partial''" fid False db] pg_set_file_status_ok [of "''pending''" fid False db]
    by (cases "n > 0") auto
  from confinedD(2) [OF m db1] Cons.prems have "confined own p (reset_files pg_chunk_ops fids) db1" by (intro Cons.IH) auto
  then show ?case
  proof (rule confined_step [OF m db1])
    show "reset_files pg_chunk_ops (fid # fids) db = reset_files pg_chunk_ops fids db1"
      using n db1 by (cases "n > 0") simp_all
    show "reset_files pg_chunk_ops (fid # fids) (slice own p db) = reset_files pg_chunk_ops fids (slice own p db1)"
      using n' confinedD(1) [OF m db1] by (cases "n > 0") simp_all
  qed
qed

lemma affected_slice:
  assumes "\<forall>i \<in> set ids. chunk_local own p db i"
  shows "pg_affected_files ids (slice own p db) = pg_affected_files ids db"
    "pg_affected_files ids db = Inr fids \<Longrightarrow> \<forall>f \<in> set fids. own f = p"
proof -
  have "filter (\<lambda>c. cr_ID c \<in> set ids) (filter (\<lambda>c. own (cr_FileID c) = p) (db_chunks db)) = filter (\<lambda>c. cr_ID c \<in> set ids) (db_chunks db)"
    unfolding filter_filter by (rule filter_cong) (use assms in \<open>auto simp: chunk_local_def\<close>)
  then show "pg_affected_files ids (slice own p db) = pg_affected_files ids db"
    by (simp only: pg_affected_files_def slice_fields)
  show "pg_affected_files ids db = Inr fids \<Longrightarrow> \<forall>f \<in> set fids. own f = p"
    using assms by (auto simp: pg_affected_files_def chunk_local_def)
qed

lemma set_embedded_local: "pg_set_embedded ids b db = (r, db1) \<Longrightarrow> chunk_local own p db1 i = chunk_local own p db i"
proof -
  have "(\<forall>c \<in> set (map (\<lambda>c. if Q c then c\<lparr>cw_embedded := b\<rparr> else c) cs). cr_ID c = i \<longrightarrow> own (cr_FileID c) = p)
      = (\<forall>c \<in> set cs. cr_ID c = i \<longrightarrow> own (cr_FileID c) = p)" for Q and cs :: "chunk_row list"
    by (induction cs) auto
  moreover assume "pg_set_embedded ids b db = (r, db1)"
  then have "db_chunks db1 = map (\<lambda>c. if cr_ID c \<in> set ids then c\<lparr>cw_embedded := b\<rparr> else c) (db_chunks db)"
    by (auto simp: pg_set_embedded_def update_chunks_def)
  ultimately show ?thesis by (simp only: chunk_local_def)
qed

lemma confined_mark_reset:
  assumes ok: "slices_ok own db" and loc: "\<forall>i \<in> set ids. chunk_local own p db i"
  shows "confined own p (mark_embedded pg_chunk_ops ids) db" "confined own p (reset_embedded pg_chunk_ops ids) db"
proof -
  have main: "confined own p w db"
    if n: "\<And>fids db1. slices_ok own db1 \<Longrightarrow> \<forall>f \<in> set fids. own f = p \<Longrightarrow> confined own p (n fids) db1"
      and w: "\<And>x. w x = (case pg_set_embedded ids b x of (Inl e, x1) \<Rightarrow> (Inl e, x1) | (Inr _, x1) \<Rightarrow>
          (case pg_affected_files ids x1 of Inl e \<Rightarrow> (Inl e, x1) | Inr fids \<Rightarrow> n fids x1))" for w n b
  proof -
    obtain db1 where db1: "pg_set_embedded ids b db = (Inr (), db1)" by (simp add: pg_set_embedded_def)
    note c = confined_set_embedded [OF ok loc, of b]
    have loc1: "\<forall>i \<in> set ids. chunk_local own p db1 i" using loc set_embedded_local [OF db1] by simp
    obtain fids where f: "pg_affected_files ids db1 = Inr fids" by (simp add: pg_affected_files_def)
    have "confined own p (n fids) db1" using n confinedD(2) [OF c db1] affected_slice(2) [OF loc1 f] by blast
    then show ?thesis
    proof (rule confined_step [OF c db1])
      show "w db = n fids db1" using db1 f by (simp add: w)
      show "w (slice own p db) = n fids (slice own p db1)"
        using confinedD(1) [OF c db1] affected_slice(1) [OF loc1] f by (simp add: w)
    qed
  qed
  show "confined own p (mark_embedded pg_chunk_ops ids) db"
  proof (cases "ids = []")
    case True
    with ok show ?thesis by (simp add: confined_def mark_embedded_def)
  next
    case False
    then show ?thesis
      by (intro main [of "mark_files pg_chunk_ops" _ True] confined_mark_files) (simp_all only: mark_embedded_def pg_ops if_False ok not_False_eq_True)
  qed
  show "confined own p (reset_embedded pg_chunk_ops ids) db"
  proof (cases "ids = []")
    case True
    with ok show ?thesis by (simp add: confined_def reset_embedded_def)
  next
    case False
    then show ?thesis
      by (intro main [of "reset_files pg_chunk_ops" _ False] confined_reset_files) (simp_all only: reset_embedded_def pg_ops if_False)
  qed
qed

section \<open>Parents and rows\<close>

lemma update_local:
  assumes "\<And>c. cr_ID (f c) = cr_ID c \<and> cr_FileID (f c) = cr_FileID c"
  shows "chunk_local own p (update_chunks P f db) i = chunk_local own p db i"
proof -
  have "(\<forall>c \<in> set (map (\<lambda>c. if P c then f c else c) cs). cr_ID c = i \<longrightarrow> own (cr_FileID c) = p)
      = (\<forall>c \<in> set cs. cr_ID c = i \<longrightarrow> own (cr_FileID c) = p)" for cs
    by (induction cs) (auto simp: assms)
  moreover have "db_chunks (update_chunks P f db) = map (\<lambda>c. if P c then f c else c) (db_chunks db)"
    by (simp add: update_chunks_def)
  ultimately show ?thesis by (simp only: chunk_local_def)
qed

lemma chunk_ids_slice: "chunk_local own p db i \<Longrightarrow> i \<in> chunk_ids (slice own p db) \<longleftrightarrow> i \<in> chunk_ids db"
  by (simp add: slice_ids)

lemma set_parent_if:
  "(\<exists>c \<in> set (db_chunks x). cr_ID c = i) \<and> q \<notin> chunk_ids x \<Longrightarrow> set_parent q i x = (Inl constraint_err, x)"
  "\<not> ((\<exists>c \<in> set (db_chunks x). cr_ID c = i) \<and> q \<notin> chunk_ids x) \<Longrightarrow>
     set_parent q i x = (Inr (), update_chunks (\<lambda>c. cr_ID c = i) (\<lambda>c. c\<lparr>cr_ParentChunkID := Some q\<rparr>) x)"
  unfolding set_parent_def by (rule if_P, assumption) (rule if_not_P, assumption)

lemma pg_set_parents_if:
  "list_ex (\<lambda>(c, q). c \<in> chunk_ids x \<and> q \<notin> chunk_ids x) ups \<Longrightarrow>
     pg_set_parents ups x = (Inl (ErrWrap ''update chunk parents'' constraint_err), x)"
  "\<not> list_ex (\<lambda>(c, q). c \<in> chunk_ids x \<and> q \<notin> chunk_ids x) ups \<Longrightarrow>
     pg_set_parents ups x = (Inr (), update_chunks (\<lambda>c. map_of ups (cr_ID c) \<noteq> None)
       (\<lambda>c. c\<lparr>cr_ParentChunkID := map_of ups (cr_ID c)\<rparr>) x)"
  unfolding pg_set_parents_def by (rule if_P, assumption) (rule if_not_P, assumption)

lemma confined_error:
  assumes "slices_ok own db" and "m db = (r, db)" and "m (slice own p db) = (r, slice own p db)"
  shows "confined own p m db"
  using assms by (simp add: confined_def)

lemma chunk_ex: "(\<exists>c \<in> set (db_chunks x). cr_ID c = i) \<longleftrightarrow> i \<in> chunk_ids x"
  by auto

lemma confined_set_parent:
  assumes ok: "slices_ok own db" and loc: "chunk_local own p db parentID" "chunk_local own p db chunkID"
  shows "confined own p (set_parent parentID chunkID) db"
proof -
  let ?bad = "\<lambda>x. (\<exists>c \<in> set (db_chunks x). cr_ID c = chunkID) \<and> parentID \<notin> chunk_ids x"
  have same: "?bad (slice own p db) \<longleftrightarrow> ?bad db"
    unfolding chunk_ex chunk_ids_slice [OF loc(1)] chunk_ids_slice [OF loc(2)] ..
  show ?thesis
  proof (cases "?bad db")
    case True
    have "?bad (slice own p db)" unfolding same by (rule True)
    from confined_error [where m = "set_parent parentID chunkID", OF ok set_parent_if(1) [OF True] set_parent_if(1) [OF this]]
    show ?thesis .
  next
    case False
    show ?thesis
    proof (rule confined_cong [where m' = "\<lambda>db. (Inr (), update_chunks (\<lambda>c. cr_ID c = chunkID) (\<lambda>c. c\<lparr>cr_ParentChunkID := Some parentID\<rparr>) db)"])
      show "confined own p (\<lambda>db. (Inr (), update_chunks (\<lambda>c. cr_ID c = chunkID) (\<lambda>c. c\<lparr>cr_ParentChunkID := Some parentID\<rparr>) db)) db"
      proof (rule confined_update_chunks [OF ok])
        fix c assume c: "c \<in> set (db_chunks db)" "cr_ID c = chunkID"
        with False have "parentID \<in> chunk_ids db" by blast
        then have "parentID \<in> chunk_ids (slice own p db)" using chunk_ids_slice [OF loc(1)] by blast
        moreover have "own (cr_FileID c) = p" using c loc(2) unfolding chunk_local_def by blast
        ultimately show "own (cr_FileID c) = p \<and> ref_ok (chunk_ids (slice own p db)) (cr_ParentChunkID (c\<lparr>cr_ParentChunkID := Some parentID\<rparr>))"
          by (simp add: ref_ok_def)
      qed (simp add: chunk_check_def)
      show "set_parent parentID chunkID (slice own p db)
          = (Inr (), update_chunks (\<lambda>c. cr_ID c = chunkID) (\<lambda>c. c\<lparr>cr_ParentChunkID := Some parentID\<rparr>) (slice own p db))"
        by (rule set_parent_if(2), unfold same, rule False)
    qed (rule set_parent_if(2) [OF False])
  qed
qed

lemma set_parent_local:
  assumes run: "set_parent a b db = (r, db1)"
  shows "chunk_local own p db1 i = chunk_local own p db i"
proof (cases "(\<exists>c \<in> set (db_chunks db). cr_ID c = b) \<and> a \<notin> chunk_ids db")
  case True
  from set_parent_if(1) [OF this] run have "db1 = db" by (simp only: prod.inject)
  then show ?thesis by (simp only:)
next
  case False
  from set_parent_if(2) [OF this] run
  have "db1 = update_chunks (\<lambda>c. cr_ID c = b) (\<lambda>c. c\<lparr>cr_ParentChunkID := Some a\<rparr>) db" by (simp only: prod.inject)
  moreover have "chunk_local own p (update_chunks (\<lambda>c. cr_ID c = b) (\<lambda>c. c\<lparr>cr_ParentChunkID := Some a\<rparr>) db) i = chunk_local own p db i"
    by (rule update_local) simp
  ultimately show ?thesis by (simp only:)
qed

lemma confined_resolve_parents:
  "slices_ok own db \<Longrightarrow> \<forall>i \<in> set ids \<union> snd ` set rest. chunk_local own p db i \<Longrightarrow> confined own p (resolve_parents ids rest) db"
proof (induction rest arbitrary: db)
  case Nil
  then show ?case by (simp add: confined_def)
next
  case (Cons x rest)
  obtain c i where x: "x = (c, i)" by (cases x)
  show ?case
  proof (cases "\<exists>q. cr_ParentIndex c = Some q \<and> q < int (length ids)")
    case False
    have "confined own p (resolve_parents ids rest) db"
      by (rule Cons.IH [OF Cons.prems(1)]) (use Cons.prems(2) in simp)
    moreover have "resolve_parents ids (x # rest) y = resolve_parents ids rest y" for y
      using False by (cases "cr_ParentIndex c") (simp_all add: x)
    ultimately show ?thesis by (simp only: confined_def)
  next
    case True
    then obtain q where q: "cr_ParentIndex c = Some q" "q < int (length ids)" by blast
    show ?thesis
    proof (cases "q < 0")
      case True
      with q Cons.prems show ?thesis by (simp add: x confined_def)
    next
      case False
      with q have "ids ! nat q \<in> set ids" by simp
      with Cons.prems(2) have p: "confined own p (set_parent (ids ! nat q) i) db"
        by (intro confined_set_parent [OF Cons.prems(1)]) (simp_all add: x)
      have "confined own p (tx_bind (tx_wrap ''set parent chunk'' (set_parent (ids ! nat q) i)) (\<lambda>_. resolve_parents ids rest)) db"
      proof (rule confined_bind [OF confined_wrap [OF p]])
        fix a db' assume run: "tx_wrap ''set parent chunk'' (set_parent (ids ! nat q) i) db = (Inr a, db')" and "slices_ok own db'"
        from run obtain r where "set_parent (ids ! nat q) i db = (r, db')" by (auto simp: tx_wrap_def split: prod.splits)
        from set_parent_local [OF this] Cons.prems(2) show "confined own p (resolve_parents ids rest) db'"
          by (intro Cons.IH [OF \<open>slices_ok own db'\<close>]) simp
      qed
      moreover have "resolve_parents ids (x # rest) y
          = tx_bind (tx_wrap ''set parent chunk'' (set_parent (ids ! nat q) i)) (\<lambda>_. resolve_parents ids rest) y" for y
        using q False by (auto simp: x tx_bind_def tx_wrap_def split: prod.split sum.split)
      ultimately show ?thesis by (simp only: confined_def)
    qed
  qed
qed

lemma chunk_row_of_fields:
  "cr_FileID (chunk_row_of fid c) = fid" "cr_ParentChunkID (chunk_row_of fid c) = cr_ParentChunkID c"
  by (simp_all add: chunk_row_of_def chunk_record.extend_def)

lemma confined_insert_chunk_rows:
  "slices_ok own db \<Longrightarrow> own fid = p \<Longrightarrow> \<forall>c \<in> set cs. cr_ParentChunkID c = None \<Longrightarrow> confined own p (insert_chunk_rows fid cs) db"
proof (induction cs arbitrary: db)
  case Nil
  then show ?case by (simp add: confined_def)
next
  case (Cons c cs)
  show ?case
    unfolding insert_chunk_rows_Cons
    by (intro confined_bind confined_wrap confined_insert_chunk Cons.IH confined_return)
      (use Cons.prems in \<open>simp_all add: chunk_row_of_fields\<close>)
qed

lemma insert_chunk_rows_new:
  "insert_chunk_rows fid cs db = (Inr ids, db') \<Longrightarrow> \<exists>new. db_chunks db' = db_chunks db @ new
     \<and> (\<forall>c \<in> set new. cr_FileID c = fid) \<and> (\<forall>i \<in> set ids. db_chunks_seq db < i) \<and> db_chunks_seq db \<le> db_chunks_seq db'"
proof (induction cs arbitrary: db ids)
  case (Cons c cs)
  from Cons.prems obtain i db1 js where i: "insert_chunk (chunk_row_of fid c) db = (Inr i, db1)"
    and rest: "insert_chunk_rows fid cs db1 = (Inr js, db')" and ids: "ids = i # js"
    by (auto split: prod.splits sum.splits)
  from i have 1: "db_chunks db1 = db_chunks db @ [(chunk_row_of fid c)\<lparr>cr_ID := i\<rparr>]" "i = db_chunks_seq db + 1" "db_chunks_seq db1 = i"
    by (auto simp: insert_chunk_def Let_def split: if_splits)
  from Cons.IH [OF rest] obtain new where "db_chunks db' = db_chunks db1 @ new" "\<forall>c \<in> set new. cr_FileID c = fid"
    "\<forall>i \<in> set js. db_chunks_seq db1 < i" "db_chunks_seq db1 \<le> db_chunks_seq db'" by blast
  with 1 ids show ?case
    by (intro exI [of _ "(chunk_row_of fid c)\<lparr>cr_ID := i\<rparr> # new"]) (auto simp: chunk_row_of_fields)
qed auto

lemma confined_insert_chunks:
  assumes ok: "slices_ok own db" and own: "own fid = p" and parent: "\<forall>c \<in> set cs. cr_ParentChunkID c = None"
  shows "confined own p (with_write_tx (tx_bind (insert_chunk_rows fid cs)
       (\<lambda>ids. tx_bind (resolve_parents ids (zip cs ids)) (\<lambda>_. tx_return ids)))) db"
proof (intro confined_tx [OF ok] confined_bind confined_return)
  show "confined own p (insert_chunk_rows fid cs) db" by (rule confined_insert_chunk_rows [OF ok own parent])
next
  fix ids db' assume run: "insert_chunk_rows fid cs db = (Inr ids, db')" and ok': "slices_ok own db'"
  have "chunk_local own p db' i" if "i \<in> set ids" for i
  proof -
    from insert_chunk_rows_new [OF run] obtain new where new: "db_chunks db' = db_chunks db @ new" "\<forall>c \<in> set new. cr_FileID c = fid"
      "\<forall>i \<in> set ids. db_chunks_seq db < i" by (elim exE conjE)
    from new(3) that have "db_chunks_seq db < i" by blast
    moreover note new(1,2)
    moreover have "\<forall>c \<in> set (db_chunks db). cr_ID c \<le> db_chunks_seq db"
      using slices_okD(1) [OF ok] by (auto simp: ids_ok_def wf_ids_def)
    ultimately show ?thesis using own by (fastforce simp: chunk_local_def)
  qed
  then show "confined own p (resolve_parents ids (zip cs ids)) db'"
    by (intro confined_resolve_parents [OF ok']) (auto dest: set_zip_rightD)
qed

lemma insert_symbol_chunks: "insert_symbol s db = (r, db') \<Longrightarrow> db_chunks db' = db_chunks db"
  by (auto simp: insert_symbol_def Let_def split: if_splits)

lemma confined_insert_symbol_rows:
  "slices_ok own db \<Longrightarrow> own fid = p \<Longrightarrow> \<forall>s \<in> set ss. chunk_local own p db (sy_ChunkID s) \<Longrightarrow> confined own p (insert_symbol_rows fid ss) db"
proof (induction ss arbitrary: db)
  case Nil
  then show ?case by (simp add: confined_def)
next
  case (Cons s ss)
  have s: "confined own p (insert_symbol (s\<lparr>sy_FileID := fid\<rparr>)) db"
    by (rule confined_insert_symbol) (use Cons.prems in simp_all)
  have rest: "confined own p (insert_symbol_rows fid ss) db'"
    if "tx_wrap ''insert symbol'' (insert_symbol (s\<lparr>sy_FileID := fid\<rparr>)) db = (Inr a, db')" "slices_ok own db'" for a db'
  proof -
    from that(1) obtain r where "insert_symbol (s\<lparr>sy_FileID := fid\<rparr>) db = (r, db')" by (auto simp: tx_wrap_def split: prod.splits)
    from insert_symbol_chunks [OF this] Cons.prems that(2) show ?thesis by (intro Cons.IH) (auto simp: chunk_local_def)
  qed
  show ?case
    unfolding insert_symbol_rows_Cons
    by (intro confined_bind [OF confined_wrap [OF s]] confined_bind [OF rest] confined_return)
qed

text \<open>\<open>UpdateChunkParents\<close> with chunks of the project on both sides.\<close>

lemma confined_set_parents:
  assumes ok: "slices_ok own db" and loc: "\<forall>(c, q) \<in> set ups. chunk_local own p db c \<and> chunk_local own p db q"
  shows "confined own p (pg_set_parents ups) db"
proof -
  let ?bad = "\<lambda>x. list_ex (\<lambda>(c, q). c \<in> chunk_ids x \<and> q \<notin> chunk_ids x) ups"
  have same: "?bad (slice own p db) \<longleftrightarrow> ?bad db"
    using loc chunk_ids_slice [of own p db] unfolding list_ex_iff by fast
  let ?P = "\<lambda>c. map_of ups (cr_ID c) \<noteq> None" and ?f = "\<lambda>c. c\<lparr>cr_ParentChunkID := map_of ups (cr_ID c)\<rparr>"
  show ?thesis
  proof (cases "?bad db")
    case True
    have "?bad (slice own p db)" unfolding same by (rule True)
    from confined_error [where m = "pg_set_parents ups", OF ok pg_set_parents_if(1) [OF True] pg_set_parents_if(1) [OF this]]
    show ?thesis .
  next
    case False
    have upd: "confined own p (\<lambda>db. (Inr (), update_chunks ?P ?f db)) db"
    proof (rule confined_update_chunks [OF ok])
      fix c assume c: "c \<in> set (db_chunks db)" "?P c"
      then obtain q where q: "map_of ups (cr_ID c) = Some q" by auto
      then have in_ups: "(cr_ID c, q) \<in> set ups" by (rule map_of_SomeD)
      with loc have l: "chunk_local own p db (cr_ID c)" "chunk_local own p db q" by auto
      with c have "own (cr_FileID c) = p" by (simp add: chunk_local_def)
      moreover from False in_ups c have "q \<in> chunk_ids db" by (auto simp: list_ex_iff)
      then have "q \<in> chunk_ids (slice own p db)" using chunk_ids_slice [OF l(2)] by blast
      ultimately show "own (cr_FileID c) = p \<and> ref_ok (chunk_ids (slice own p db)) (cr_ParentChunkID (?f c))"
        by (simp add: q ref_ok_def)
    qed (simp add: chunk_check_def)
    show ?thesis
      by (rule confined_cong [where m' = "\<lambda>db. (Inr (), update_chunks ?P ?f db)", OF pg_set_parents_if(2) [OF False] pg_set_parents_if(2) upd])
        (unfold same, rule False)
  qed
qed

end
