(* ===== verification/Pg_Isolation.thy ===== *)
theory Pg_Isolation
  imports Pg_Confined
begin

text \<open>
  What a project can do to the shared database: \<open>pg_step\<close> has one rule per operation, with the
  condition on its arguments under which the operation stays inside the project. The
  main result says that such a step leaves the contents of every other project as they are and
  that the project could have made the same step on a database of its own. The statements
  that the conditions exclude are shown to cross the border.
\<close>

section \<open>Edges\<close>

lemma find_filter: "find P (filter Q xs) = find (\<lambda>x. Q x \<and> P x) xs"
  by (induction xs) auto

lemma find_cong_set: "(\<And>x. x \<in> set xs \<Longrightarrow> P x = Q x) \<Longrightarrow> find P xs = find Q xs"
  by (induction xs) auto

lemma pg_lookup_slice:
  assumes "fid > 0 \<longrightarrow> own fid = p"
  shows "pg_lookup_symbol_id own p n fid l (slice own p db) = pg_lookup_symbol_id own p n fid l db"
proof -
  have files: "(\<exists>f \<in> set (filter (\<lambda>f. own (fr_ID f) = p) (db_files db)). (fr_ID f = i \<and> own (fr_ID f) = p) \<and> R f)
      = (\<exists>f \<in> set (db_files db). (fr_ID f = i \<and> own (fr_ID f) = p) \<and> R f)" for i R
    by auto
  have a: "find (\<lambda>s. sy_Name s = n \<and> sy_FileID s = fid) (filter (\<lambda>s. own (sy_FileID s) = p) (db_symbols db))
      = find (\<lambda>s. sy_Name s = n \<and> sy_FileID s = fid) (db_symbols db)" if "fid > 0"
    unfolding find_filter by (rule find_cong_set) (use assms that in auto)
  have b: "find (\<lambda>s. sy_Name s = n \<and> (\<exists>f \<in> set (db_files db). (fr_ID f = sy_FileID s \<and> own (fr_ID f) = p) \<and> R f))
         (filter (\<lambda>s. own (sy_FileID s) = p) (db_symbols db))
      = find (\<lambda>s. sy_Name s = n \<and> (\<exists>f \<in> set (db_files db). (fr_ID f = sy_FileID s \<and> own (fr_ID f) = p) \<and> R f)) (db_symbols db)" for R
    unfolding find_filter by (rule find_cong_set) auto
  have c: "find (\<lambda>s. sy_Name s = n \<and> (\<exists>f \<in> set (db_files db). fr_ID f = sy_FileID s \<and> own (fr_ID f) = p))
         (filter (\<lambda>s. own (sy_FileID s) = p) (db_symbols db))
      = find (\<lambda>s. sy_Name s = n \<and> (\<exists>f \<in> set (db_files db). fr_ID f = sy_FileID s \<and> own (fr_ID f) = p)) (db_symbols db)"
    unfolding find_filter by (rule find_cong_set) auto
  have files': "(\<exists>f \<in> set (filter (\<lambda>f. own (fr_ID f) = p) (db_files db)). fr_ID f = i \<and> own (fr_ID f) = p)
      = (\<exists>f \<in> set (db_files db). fr_ID f = i \<and> own (fr_ID f) = p)" for i
    by auto
  show ?thesis
    unfolding pg_lookup_symbol_id_def Let_def slice_fields files files' b c
    by (cases "fid > 0") (simp_all only: a if_True if_False)
qed

lemma pg_lookup_local:
  assumes ok: "slices_ok own db" and own: "fid > 0 \<longrightarrow> own fid = p" and nz: "pg_lookup_symbol_id own p n fid l db \<noteq> 0"
  shows "sym_local own p db (pg_lookup_symbol_id own p n fid l db)"
proof -
  obtain s where s: "s \<in> set (db_symbols db)" "sy_ID s = pg_lookup_symbol_id own p n fid l db" "own (sy_FileID s) = p"
  proof (cases "if fid > 0 then find (\<lambda>s. sy_Name s = n \<and> sy_FileID s = fid) (db_symbols db) else None")
    case (Some s)
    then have "s \<in> set (db_symbols db)" "sy_FileID s = fid" "fid > 0" by (auto split: if_splits dest: find_Some_set)
    with Some own show thesis by (intro that [of s]) (simp_all add: pg_lookup_symbol_id_def)
  next
    case None
    from nz obtain s where "s \<in> set (db_symbols db)" "sy_ID s = pg_lookup_symbol_id own p n fid l db"
      "\<exists>f \<in> set (db_files db). fr_ID f = sy_FileID s \<and> own (fr_ID f) = p"
      unfolding pg_lookup_symbol_id_def None
      by (auto simp: sym_id_or_zero_def Let_def split: if_splits option.splits dest!: find_Some_set)
    with that show thesis by metis
  qed
  have "t = s" if "t \<in> set (db_symbols db)" "sy_ID t = sy_ID s" for t
    using slices_okD(1) [OF ok] key_unique [of sy_ID "db_symbols db" _ t s] that s(1) by (auto simp: ids_ok_def)
  then show ?thesis using s(3) unfolding sym_local_def s(2) [symmetric] by blast
qed

lemma pg_insert_edge_tables:
  "pg_insert_edge a b k f db = (r, db1) \<Longrightarrow> db_symbols db1 = db_symbols db \<and> db_pending db1 = db_pending db \<and> db_files db1 = db_files db"
  by (auto simp: pg_insert_edge_def Let_def split: if_splits)

lemma insert_pending_tables:
  "insert_pending a f n q k l db = (r, db1) \<Longrightarrow> db_symbols db1 = db_symbols db \<and> db_files db1 = db_files db"
  by (auto simp: insert_pending_def Let_def split: if_splits)

lemma pg_insert_one_edge_tables:
  "pg_insert_one_edge own p fid ids l e db = (r, db1) \<Longrightarrow> db_symbols db1 = db_symbols db \<and> db_files db1 = db_files db"
  by (auto simp: pg_insert_one_edge_def Let_def tx_wrap_def split: if_splits prod.splits
      dest!: pg_insert_edge_tables insert_pending_tables)

lemma confined_insert_one_edge:
  assumes ok: "slices_ok own db" and own: "own fid = p" and ids: "\<And>n i. ids n = Some i \<Longrightarrow> sym_local own p db i"
  shows "confined own p (pg_insert_one_edge own p fid ids l e) db"
proof -
  let ?src = "map_or_zero ids (er_SrcSymbolName e)" and ?dst0 = "map_or_zero ids (er_DstSymbolName e)"
  have loc0: "map_or_zero ids n \<noteq> 0 \<Longrightarrow> sym_local own p db (map_or_zero ids n)" for n
    using ids by (auto simp: map_or_zero_def split: option.splits)
  define dst where "dst = (\<lambda>x. if ?dst0 = 0 then pg_lookup_symbol_id own p (er_DstSymbolName e) fid l x else ?dst0)"
  have dst: "dst (slice own p db) = dst db" using own by (simp add: dst_def pg_lookup_slice)
  have dst_loc: "dst db \<noteq> 0 \<Longrightarrow> sym_local own p db (dst db)"
    unfolding dst_def using loc0 pg_lookup_local [OF ok] own by (simp split: if_splits)
  have eq: "pg_insert_one_edge own p fid ids l e x = (if ?src = 0 then (Inr (), x)
      else if dst x \<noteq> 0 then tx_wrap ''insert edge'' (pg_insert_edge ?src (dst x) (er_Kind e) fid) x
      else tx_wrap ''insert pending edge'' (insert_pending ?src fid (er_DstSymbolName e) (er_DstQualifiedName e) (er_Kind e) l) x)" for x
    by (simp add: pg_insert_one_edge_def Let_def dst_def)
  show ?thesis
  proof (cases "?src = 0")
    case True
    show ?thesis by (rule confined_error [OF ok]) (simp_all add: eq True)
  next
    case src: False
    show ?thesis
    proof (cases "dst db = 0")
      case True
      have "confined own p (tx_wrap ''insert pending edge''
          (insert_pending ?src fid (er_DstSymbolName e) (er_DstQualifiedName e) (er_Kind e) l)) db"
        by (intro confined_wrap confined_insert_pending ok own loc0 src)
      then show ?thesis by (rule confined_cong [rotated 2]) (simp_all add: eq src dst True)
    next
      case False
      have "confined own p (tx_wrap ''insert edge'' (pg_insert_edge ?src (dst db) (er_Kind e) fid)) db"
        by (intro confined_wrap confined_pg_insert_edge ok own loc0 src dst_loc False)
      then show ?thesis by (rule confined_cong [rotated 2]) (simp_all add: eq src dst False)
    qed
  qed
qed

lemma confined_insert_edges:
  "slices_ok own db \<Longrightarrow> own fid = p \<Longrightarrow> (\<And>n i. ids n = Some i \<Longrightarrow> sym_local own p db i) \<Longrightarrow>
   confined own p (pg_insert_edges own p fid es ids l) db"
proof (induction es arbitrary: db)
  case Nil
  then show ?case by (simp add: confined_def)
next
  case (Cons e es)
  have e: "confined own p (pg_insert_one_edge own p fid ids l e) db"
    by (rule confined_insert_one_edge) (use Cons.prems in auto)
  have rest: "confined own p (pg_insert_edges own p fid es ids l) db'"
    if "pg_insert_one_edge own p fid ids l e db = (Inr a, db')" "slices_ok own db'" for a db'
  proof (rule Cons.IH [OF that(2) Cons.prems(2)])
    fix n i assume "ids n = Some i"
    with Cons.prems(3) pg_insert_one_edge_tables [OF that(1)] show "sym_local own p db' i"
      by (simp add: sym_local_def)
  qed
  have eq: "pg_insert_edges own p fid (e # es) ids l =
      tx_bind (pg_insert_one_edge own p fid ids l e) (\<lambda>_. pg_insert_edges own p fid es ids l)"
    by (rule ext) (simp only: pg_insert_edges.simps tx_bind_def)
  show ?case unfolding eq by (rule confined_bind [OF e rest])
qed

section \<open>Resolving pending edges\<close>

definition pending_local :: "(int \<Rightarrow> int) \<Rightarrow> int \<Rightarrow> sql_db \<Rightarrow> int \<Rightarrow> bool" where
  "pending_local own p db i \<longleftrightarrow> (\<forall>r \<in> set (db_pending db). pe_ID r = i \<longrightarrow> own (pe_FileID r) = p)"

lemma confined_delete_pending:
  assumes ok: "slices_ok own db" and loc: "pending_local own p db i"
  shows "confined own p (\<lambda>db. (Inr x, delete_pending i db)) db"
proof (rule confined_pure [OF ok])
  show slice: "slice own q (delete_pending i db) = delete_pending i (slice own q db)" for q
    by (simp add: slice_def delete_pending_def conj_commute)
  have "ids_ok (delete_pending i db)" using slices_okD(1) [OF ok] by (simp add: ids_ok_def delete_pending_def wf_ids_filter)
  moreover have "db_inv (slice own q (delete_pending i db))" for q
    unfolding slice
    using keepsD [OF keeps_delete_pending, of "slice own q db" i] slices_okD(2,3) [OF ok] by (simp add: store_ok_def)
  ultimately show "slices_ok own (delete_pending i db)" using slices_okD(2) [OF ok] by (simp add: slices_ok_def delete_pending_def)
  show "delete_pending i (slice own q db) = slice own q db" if "q \<noteq> p" for q
  proof -
    have "filter (\<lambda>r. pe_ID r \<noteq> i) (db_pending (slice own q db)) = db_pending (slice own q db)"
      using loc that by (auto simp: pending_local_def intro!: filter_cong)
    then show ?thesis by (simp add: delete_pending_def)
  qed
qed

lemma confined_resolve_rows:
  "slices_ok own db \<Longrightarrow> \<forall>r \<in> set rs. own (pe_FileID r) = p \<and> sym_local own p db (pe_Src r) \<and> pending_local own p db (pe_ID r) \<Longrightarrow>
   confined own p (pg_resolve_rows own p rs) db"
proof (induction rs arbitrary: db)
  case Nil
  then show ?case by (simp add: confined_def)
next
  case (Cons r rs)
  let ?dst = "\<lambda>x. pg_lookup_symbol_id own p (pe_DstName r) 0 (pe_Language r) x"
  have dst: "?dst (slice own p db) = ?dst db" by (simp add: pg_lookup_slice)
  show ?case
  proof (cases "?dst db = 0")
    case True
    have "confined own p (pg_resolve_rows own p rs) db" by (rule Cons.IH [OF Cons.prems(1)]) (use Cons.prems(2) in auto)
    then show ?thesis by (rule confined_cong [rotated 2]) (simp_all add: dst True)
  next
    case False
    have loc: "sym_local own p db (?dst db)" by (rule pg_lookup_local [OF Cons.prems(1) _ False]) simp
    let ?ins = "tx_wrap ''insert resolved edge'' (pg_insert_edge (pe_Src r) (?dst db) (pe_Kind r) (pe_FileID r))"
    let ?rest = "\<lambda>_ :: unit. tx_bind (\<lambda>db. (Inr (), delete_pending (pe_ID r) db)) (\<lambda>_. pg_resolve_rows own p rs)"
    have ins: "confined own p ?ins db"
      by (intro confined_wrap confined_pg_insert_edge Cons.prems(1) loc) (use Cons.prems(2) in auto)
    have "confined own p (tx_bind ?ins ?rest) db"
    proof (rule confined_bind [OF ins])
      fix a db1 assume run: "?ins db = (Inr a, db1)" and ok1: "slices_ok own db1"
      then obtain r' where r': "pg_insert_edge (pe_Src r) (?dst db) (pe_Kind r) (pe_FileID r) db = (r', db1)"
        by (auto simp: tx_wrap_def split: prod.splits)
      note t = pg_insert_edge_tables [OF r']
      show "confined own p (?rest a) db1"
      proof (rule confined_bind)
        show "confined own p (\<lambda>db. (Inr (), delete_pending (pe_ID r) db)) db1"
          by (rule confined_delete_pending [OF ok1]) (use Cons.prems(2) t in \<open>simp add: pending_local_def\<close>)
        fix b db2 assume "(Inr (), delete_pending (pe_ID r) db1) = (Inr b, db2)" "slices_ok own db2"
        then show "confined own p (pg_resolve_rows own p rs) db2"
          by (intro Cons.IH) (use Cons.prems(2) t in \<open>auto simp: pending_local_def sym_local_def delete_pending_def\<close>)
      qed
    qed
    then show ?thesis
      by (rule confined_cong [rotated 2])
        (use False dst in \<open>simp_all add: tx_bind_def tx_wrap_def split: prod.split sum.split\<close>)
  qed
qed

lemma pending_src_local:
  assumes ok: "slices_ok own db" and r: "r \<in> set (db_pending db)"
  shows "sym_local own (own (pe_FileID r)) db (pe_Src r)"
proof -
  have "pe_Src r \<in> symbol_ids (slice own (own (pe_FileID r)) db)"
    using slices_okD(3) [OF ok, of "own (pe_FileID r)"] r unfolding db_inv_def by force
  then show ?thesis using in_slice_unique [OF ok] unfolding sym_local_def by metis
qed

text \<open>Resolution stays inside when no other project waits for one of the names.\<close>

lemma confined_resolve:
  assumes ok: "slices_ok own db" and names: "\<forall>r \<in> set (db_pending db). pe_DstName r \<in> set names \<longrightarrow> own (pe_FileID r) = p"
  shows "confined own p (pg_resolve_pending_edges own p names) db"
proof -
  let ?rs = "filter (\<lambda>r. pe_DstName r \<in> set names) (db_pending db)"
  have same: "filter (\<lambda>r. pe_DstName r \<in> set names) (db_pending (slice own p db)) = ?rs"
    unfolding slice_fields filter_filter by (rule filter_cong) (use names in auto)
  have uniq: "r = q" if "r \<in> set (db_pending db)" "q \<in> set (db_pending db)" "pe_ID r = pe_ID q" for r q
    using slices_okD(1) [OF ok] key_unique [of pe_ID "db_pending db" _ r q] that by (auto simp: ids_ok_def)
  show ?thesis
  proof (cases "names = []")
    case True
    then show ?thesis using ok by (intro confined_error) (simp_all add: pg_resolve_pending_edges_def)
  next
    case False
    have "confined own p (pg_resolve_rows own p ?rs) db"
    proof (rule confined_resolve_rows [OF ok], intro ballI conjI)
      fix r assume r: "r \<in> set ?rs"
      with names show o: "own (pe_FileID r) = p" by simp
      show "sym_local own p db (pe_Src r)" using pending_src_local [OF ok, of r] r o by simp
      show "pending_local own p db (pe_ID r)" using uniq [of _ r] r o by (auto simp: pending_local_def)
    qed
    then show ?thesis
      by (rule confined_cong [rotated 2]) (simp_all only: pg_resolve_pending_edges_def False if_False same)
  qed
qed

section \<open>Deletions and updates of a whole project\<close>

lemma confined_delete_edges:
  assumes ok: "slices_ok own db" and own: "own fid = p"
  shows "confined own p (pg_delete_edges_by_file fid) db"
proof -
  let ?f = "\<lambda>db. db\<lparr>db_edges := filter (\<lambda>e. eg_FileID e \<noteq> fid) (db_edges db)\<rparr>"
  have "confined own p (\<lambda>db. (Inr (), ?f db)) db"
  proof (rule confined_pure [where f = ?f, OF ok])
    show slice: "slice own q (?f db) = ?f (slice own q db)" for q by (simp add: slice_def conj_commute)
    have "ids_ok (?f db)" using slices_okD(1) [OF ok] by (simp add: ids_ok_def wf_ids_filter)
    moreover have "db_inv (slice own q (?f db))" for q
      unfolding slice
      using keepsD [OF keeps_delete_edges_by_file, of "slice own q db" fid] slices_okD(2,3) [OF ok]
      by (simp add: store_ok_def delete_edges_by_file_def)
    ultimately show "slices_ok own (?f db)" using slices_okD(2) [OF ok] by (simp add: slices_ok_def)
    show "?f (slice own q db) = slice own q db" if "q \<noteq> p" for q
    proof -
      have "filter (\<lambda>e. eg_FileID e \<noteq> fid) (db_edges (slice own q db)) = db_edges (slice own q db)"
        using own that by (auto intro!: filter_cong)
      then show ?thesis by simp
    qed
  qed
  then show ?thesis by (simp add: pg_delete_edges_by_file_def [abs_def])
qed

lemma confined_drop_files:
  assumes ok: "slices_ok own db" and own: "\<And>i. i \<in> F \<Longrightarrow> own i = p"
  shows "confined own p (\<lambda>db. (Inr x, drop_files F db)) db"
proof (rule confined_pure [OF ok slice_drop_files [OF ok] slices_ok_drop_files [OF ok]])
  fix q assume "q \<noteq> p"
  with own have "F \<inter> file_ids (slice own q db) = {}" by auto
  then show "drop_files F (slice own q db) = slice own q db" by (rule drop_files_disjoint [OF slices_okD(3) [OF ok]])
qed

lemma confined_drop_chunks:
  assumes ok: "slices_ok own db" and own: "own fid = p"
  shows "confined own p (\<lambda>db. (Inr x, drop_chunks (cr_ID ` {c \<in> set (db_chunks db). cr_FileID c = fid}) db)) db"
proof (rule confined_pure [OF ok slice_drop_chunks_where [OF ok] slices_ok_drop(2) [OF ok]])
  fix q assume "q \<noteq> p"
  with own have "{c \<in> set (db_chunks (slice own q db)). cr_FileID c = fid} = {}" by auto
  then show "drop_chunks (cr_ID ` {c \<in> set (db_chunks (slice own q db)). cr_FileID c = fid}) (slice own q db) = slice own q db"
    by (simp only: image_empty drop_chunks_none)
qed

lemma confined_drop_symbols:
  assumes ok: "slices_ok own db" and own: "own fid = p"
  shows "confined own p (\<lambda>db. (Inr x, drop_symbols (sy_ID ` {s \<in> set (db_symbols db). sy_FileID s = fid}) db)) db"
proof (rule confined_pure [OF ok slice_drop_symbols_where [OF ok] slices_ok_drop(1) [OF ok]])
  fix q assume "q \<noteq> p"
  with own have "{s \<in> set (db_symbols (slice own q db)). sy_FileID s = fid} = {}" by auto
  then show "drop_symbols (sy_ID ` {s \<in> set (db_symbols (slice own q db)). sy_FileID s = fid}) (slice own q db) = slice own q db"
    by (simp only: image_empty drop_symbols_none)
qed

section \<open>Transactions\<close>

text \<open>The conditions on the arguments of a statement, and of a sequence of statements on the way.\<close>

fun stmt_local :: "(int \<Rightarrow> int) \<Rightarrow> int \<Rightarrow> pg_stmt \<Rightarrow> sql_db \<Rightarrow> bool" where
  "stmt_local own p (PInsertEdges fid es ids lang) db \<longleftrightarrow> own fid = p \<and> (\<forall>i \<in> ran ids. sym_local own p db i)"
| "stmt_local own p (PResolvePending names) db \<longleftrightarrow>
     (\<forall>r \<in> set (db_pending db). pe_DstName r \<in> set names \<longrightarrow> own (pe_FileID r) = p)"
| "stmt_local own p (PDeleteEdges fid) db \<longleftrightarrow> own fid = p"
| "stmt_local own p (PInsertDiffLog now e) db \<longleftrightarrow> own (dl_FileID e) = p"
| "stmt_local own p (PInsertDiffSymbols i dss) db \<longleftrightarrow> diff_local own p db i
     \<and> (\<forall>ds \<in> set dss. (ds_SymbolID ds \<noteq> 0 \<longrightarrow> sym_local own p db (ds_SymbolID ds))
                     \<and> (ds_ChunkID ds \<noteq> 0 \<longrightarrow> chunk_local own p db (ds_ChunkID ds)))"

fun stmts_local :: "(int \<Rightarrow> int) \<Rightarrow> int \<Rightarrow> pg_stmt list \<Rightarrow> sql_db \<Rightarrow> bool" where
  "stmts_local own p [] db \<longleftrightarrow> True"
| "stmts_local own p (s # ss) db \<longleftrightarrow> stmt_local own p s db
     \<and> (case pg_exec_stmt own p s db of (Inl e, db1) \<Rightarrow> True | (Inr _, db1) \<Rightarrow> stmts_local own p ss db1)"

lemma insert_diff_symbol_tables:
  "insert_diff_symbol i ds db = (r, db1) \<Longrightarrow> db_diffs db1 = db_diffs db \<and> db_symbols db1 = db_symbols db \<and> db_chunks db1 = db_chunks db"
  by (auto simp: insert_diff_symbol_def Let_def split: if_splits)

lemma confined_insert_diff_symbols:
  "slices_ok own db \<Longrightarrow> stmt_local own p (PInsertDiffSymbols i dss) db \<Longrightarrow> confined own p (pg_insert_diff_symbols i dss) db"
proof (induction dss arbitrary: db)
  case Nil
  then show ?case by (simp add: confined_def)
next
  case (Cons ds dss)
  have d: "confined own p (insert_diff_symbol i ds) db"
    by (rule confined_insert_diff_symbol) (use Cons.prems in simp_all)
  have rest: "confined own p (pg_insert_diff_symbols i dss) db1"
    if "tx_wrap ''insert diff_symbol'' (insert_diff_symbol i ds) db = (Inr a, db1)" "slices_ok own db1" for a db1
  proof -
    from that(1) obtain r where "insert_diff_symbol i ds db = (r, db1)" by (auto simp: tx_wrap_def split: prod.splits)
    from insert_diff_symbol_tables [OF this] Cons.prems(2) show ?thesis
      by (intro Cons.IH [OF that(2)]) (simp add: diff_local_def sym_local_def chunk_local_def)
  qed
  have eq: "pg_insert_diff_symbols i (ds # dss) x =
      tx_bind (tx_wrap ''insert diff_symbol'' (insert_diff_symbol i ds)) (\<lambda>_. pg_insert_diff_symbols i dss) x" for x
    by (simp add: tx_bind_def tx_wrap_def split: prod.split sum.split)
  have "confined own p (tx_bind (tx_wrap ''insert diff_symbol'' (insert_diff_symbol i ds)) (\<lambda>_. pg_insert_diff_symbols i dss)) db"
    by (rule confined_bind [OF confined_wrap [OF d] rest])
  then show ?case by (rule confined_cong [OF eq eq])
qed

lemma confined_exec_stmt: "slices_ok own db \<Longrightarrow> stmt_local own p s db \<Longrightarrow> confined own p (pg_exec_stmt own p s) db"
proof (cases s)
  case (PInsertEdges fid es ids lang)
  assume "slices_ok own db" "stmt_local own p s db"
  then show ?thesis
    unfolding PInsertEdges pg_exec_stmt.simps by (intro confined_insert_edges) (auto simp: PInsertEdges ranI)
next
  case (PInsertDiffLog now e)
  assume "slices_ok own db" "stmt_local own p s db"
  then show ?thesis
    unfolding PInsertDiffLog pg_exec_stmt.simps
    by (intro confined_bind confined_insert_diff_log confined_return) (auto simp: PInsertDiffLog)
next
  case (PInsertDiffSymbols i dss)
  assume "slices_ok own db" "stmt_local own p s db"
  then show ?thesis
    unfolding PInsertDiffSymbols pg_exec_stmt.simps by (intro confined_insert_diff_symbols)
next
  case (PResolvePending names)
  assume "slices_ok own db" "stmt_local own p s db"
  then show ?thesis
    unfolding PResolvePending pg_exec_stmt.simps by (intro confined_resolve) auto
next
  case (PDeleteEdges fid)
  assume "slices_ok own db" "stmt_local own p s db"
  then show ?thesis
    unfolding PDeleteEdges pg_exec_stmt.simps by (intro confined_delete_edges) auto
qed

lemma confined_exec_stmts: "slices_ok own db \<Longrightarrow> stmts_local own p ss db \<Longrightarrow> confined own p (pg_exec_stmts own p ss) db"
proof (induction ss arbitrary: db)
  case Nil
  then show ?case by (simp add: confined_return)
next
  case (Cons s ss)
  show ?case
    unfolding pg_exec_stmts.simps
  proof (rule confined_bind)
    show "confined own p (pg_exec_stmt own p s) db" by (rule confined_exec_stmt) (use Cons.prems in auto)
    fix a db1 assume "pg_exec_stmt own p s db = (Inr a, db1)" "slices_ok own db1"
    with Cons show "confined own p (pg_exec_stmts own p ss) db1" by simp
  qed
qed

text \<open>On a database of its own a project needs no conditions.\<close>

lemma stmts_local_slice:
  assumes "slices_ok own db" and "stmts_local own p ss db"
  shows "stmts_local own p ss (slice own p db)"
  using assms
proof (induction ss arbitrary: db)
  case (Cons s ss)
  have "stmt_local own p s (slice own p db)"
    using Cons.prems(2) by (cases s) auto
  moreover obtain r db1 where run: "pg_exec_stmt own p s db = (r, db1)" by (cases "pg_exec_stmt own p s db")
  have c: "confined own p (pg_exec_stmt own p s) db" by (rule confined_exec_stmt) (use Cons.prems in auto)
  note d = confinedD [OF c run]
  ultimately show ?case
    using Cons.prems(2) run d Cons.IH [OF d(2)] by (cases r) simp_all
qed simp

end
