(* ===== verification/Pg_Calls.thy ===== *)
theory Pg_Calls
  imports Pg_Isolation
begin

text \<open>
  The writing operations of the Postgres store as calls, with what each returns. \<open>call_local\<close> is
  what a call owes the other projects: its ids are the caller's. \<open>alone p\<close> is the database that
  holds project \<open>p\<close> and no other rows. The theorem on calls is the isolation the package promises;
  the ones after it show what the conditions are there for.
\<close>

datatype pg_call =
    CUpsertFile string file_record
  | CDeleteFile int
  | CDeleteFileByPath string
  | CUpdateChunkParents "(int \<times> int) list"
  | CInsertChunks int "chunk_record list"
  | CDeleteChunksByFile int
  | CInsertSymbols int "symbol_record list"
  | CDeleteSymbolsByFile int
  | CMarkChunksEmbedded "int list"
  | CResetEmbeddedFlags "int list"
  | CResetAllEmbeddedFlags
  | CPurgeAll
  | CSetConfig string string
  | CRecordToolCalls "tool_call list"
  | CTransaction "pg_stmt list"

datatype pg_answer = ADone | AId int | AIds "int list"

definition pg_ans :: "('a \<Rightarrow> pg_answer) \<Rightarrow> 'a res \<times> pg_db \<Rightarrow> pg_answer res \<times> pg_db" where
  "pg_ans f rp = (case rp of (Inl e, pg) \<Rightarrow> (Inl e, pg) | (Inr a, pg) \<Rightarrow> (Inr (f a), pg))"

fun pg_exec :: "int \<Rightarrow> pg_call \<Rightarrow> pg_answer pg_tx" where
  "pg_exec p (CUpsertFile now f) pg = pg_ans AId (pg_upsert_file now p f pg)"
| "pg_exec p (CDeleteFile i) pg = pg_ans (\<lambda>_. ADone) (pg_delete_file i pg)"
| "pg_exec p (CDeleteFileByPath path) pg = pg_ans AId (pg_delete_file_by_path p path pg)"
| "pg_exec p (CUpdateChunkParents ups) pg = pg_ans (\<lambda>_. ADone) (pg_update_chunk_parents ups pg)"
| "pg_exec p (CInsertChunks i cs) pg = pg_ans AIds (pg_insert_chunks i cs pg)"
| "pg_exec p (CDeleteChunksByFile i) pg = pg_ans (\<lambda>_. ADone) (pg_delete_chunks_by_file i pg)"
| "pg_exec p (CInsertSymbols i ss) pg = pg_ans AIds (pg_insert_symbols i ss pg)"
| "pg_exec p (CDeleteSymbolsByFile i) pg = pg_ans (\<lambda>_. ADone) (pg_delete_symbols_by_file i pg)"
| "pg_exec p (CMarkChunksEmbedded ids) pg = pg_ans (\<lambda>_. ADone) (pg_mark_chunks_embedded ids pg)"
| "pg_exec p (CResetEmbeddedFlags ids) pg = pg_ans (\<lambda>_. ADone) (pg_reset_embedded_flags ids pg)"
| "pg_exec p CResetAllEmbeddedFlags pg = pg_ans (\<lambda>_. ADone) (pg_reset_all_embedded_flags p pg)"
| "pg_exec p CPurgeAll pg = pg_ans (\<lambda>_. ADone) (pg_purge_all p pg)"
| "pg_exec p (CSetConfig k v) pg = pg_ans (\<lambda>_. ADone) (pg_set_config k v pg)"
| "pg_exec p (CRecordToolCalls rs) pg = pg_ans (\<lambda>_. ADone) (pg_record_tool_calls rs pg)"
| "pg_exec p (CTransaction ss) pg = pg_ans (\<lambda>_. ADone) (pg_transaction p ss pg)"

fun call_local :: "int \<Rightarrow> pg_call \<Rightarrow> pg_db \<Rightarrow> bool" where
  "call_local p (CDeleteFile i) pg \<longleftrightarrow> owned p pg i"
| "call_local p (CUpdateChunkParents ups) pg \<longleftrightarrow>
     (\<forall>(c, q) \<in> set ups. chunk_local (pg_project pg) p (pg_sql pg) c \<and> chunk_local (pg_project pg) p (pg_sql pg) q)"
| "call_local p (CInsertChunks i cs) pg \<longleftrightarrow> owned p pg i \<and> (\<forall>c \<in> set cs. cr_ParentChunkID c = None)"
| "call_local p (CDeleteChunksByFile i) pg \<longleftrightarrow> owned p pg i"
| "call_local p (CInsertSymbols i ss) pg \<longleftrightarrow>
     owned p pg i \<and> (\<forall>s \<in> set ss. chunk_local (pg_project pg) p (pg_sql pg) (sy_ChunkID s))"
| "call_local p (CDeleteSymbolsByFile i) pg \<longleftrightarrow> owned p pg i"
| "call_local p (CMarkChunksEmbedded ids) pg \<longleftrightarrow> (\<forall>i \<in> set ids. chunk_local (pg_project pg) p (pg_sql pg) i)"
| "call_local p (CResetEmbeddedFlags ids) pg \<longleftrightarrow> (\<forall>i \<in> set ids. chunk_local (pg_project pg) p (pg_sql pg) i)"
| "call_local p (CTransaction ss) pg \<longleftrightarrow> stmts_local (pg_project pg) p ss (pg_sql pg)"
| "call_local p _ pg \<longleftrightarrow> True"

definition alone :: "int \<Rightarrow> pg_db \<Rightarrow> pg_db" where
  "alone p pg = pg\<lparr>pg_sql := project_db p pg\<rparr>"

section \<open>Isolation\<close>

definition isolated :: "int \<Rightarrow> 'a pg_tx \<Rightarrow> pg_db \<Rightarrow> bool" where
  "isolated p m pg \<longleftrightarrow> (\<forall>r pg'. m pg = (r, pg') \<longrightarrow> pg_inv pg' \<and> m (alone p pg) = (r, alone p pg')
     \<and> (\<forall>q. q \<noteq> p \<longrightarrow> contents (project_db q pg') = contents (project_db q pg)))"

lemma isolated_run:
  assumes "confined (pg_project pg) p m (pg_sql pg)"
  shows "isolated p (pg_run m) pg"
proof -
  obtain r db where run: "m (pg_sql pg) = (r, db)" by (cases "m (pg_sql pg)")
  note d = confinedD [OF assms run]
  show ?thesis using run d by (simp add: isolated_def pg_run_def alone_def project_db_def pg_inv_def)
qed

lemma isolated_cong: "m pg = m' pg \<Longrightarrow> m (alone p pg) = m' (alone p pg) \<Longrightarrow> isolated p m' pg \<Longrightarrow> isolated p m pg"
  by (simp add: isolated_def)

lemma isolated_const: "pg_inv pg \<Longrightarrow> isolated p (\<lambda>pg. (r, pg)) pg"
  by (simp add: isolated_def)

lemma isolated_ans: "isolated p m pg \<Longrightarrow> isolated p (\<lambda>pg. pg_ans f (m pg)) pg"
  by (cases "m pg") (auto simp: isolated_def pg_ans_def split: sum.splits)

lemma alone_fields [simp]:
  "pg_project (alone p pg) = pg_project pg" "pg_projects (alone p pg) = pg_projects pg"
  "pg_sql (alone p pg) = slice (pg_project pg) p (pg_sql pg)"
  by (simp_all add: alone_def project_db_def)

text \<open>What no project owns.\<close>

lemma confined_shared:
  assumes "slices_ok own db"
  shows "confined own p (\<lambda>db. (Inr x, db\<lparr>db_config := f (db_config db), db_tool_calls := g (db_tool_calls db)\<rparr>)) db"
proof -
  have slice: "slice own q (db\<lparr>db_config := f (db_config db), db_tool_calls := g (db_tool_calls db)\<rparr>)
      = (slice own q db)\<lparr>db_config := f (db_config db), db_tool_calls := g (db_tool_calls db)\<rparr>" for q
    by (simp add: slice_def)
  have "db_inv (db\<lparr>db_config := a, db_tool_calls := b\<rparr>) = db_inv db" for db a b by (simp add: db_inv_def)
  then have "slices_ok own (db\<lparr>db_config := f (db_config db), db_tool_calls := g (db_tool_calls db)\<rparr>)"
    using assms unfolding slices_ok_def slice by (simp add: ids_ok_def)
  then show ?thesis by (simp add: confined_def slice) (simp add: contents_def)
qed

lemma pg_with_write_tx_Inr: "pg_with_write_tx (\<lambda>pg. (Inr x, f pg)) pg = (Inr x, f pg)"
  by (simp add: pg_with_write_tx_def)

lemma file_in_alone: "file_in p (alone p pg) i = file_in p pg i"
  by (auto simp: file_in_def)

lemma isolated_reset_all:
  assumes inv: "pg_inv pg"
  shows "isolated p (pg_reset_all_embedded_flags p) pg"
proof -
  let ?own = "pg_project pg"
  have ok: "slices_ok ?own (pg_sql pg)" using inv by (simp add: pg_inv_def)
  let ?P = "\<lambda>c. cw_embedded c \<and> file_in p pg (cr_FileID c)" and ?f = "\<lambda>c :: chunk_row. c\<lparr>cw_embedded := False\<rparr>"
  let ?h = "\<lambda>f. if owned p pg (fr_ID f) \<and> fr_EmbeddingStatus f \<noteq> ''pending'' then f\<lparr>fr_EmbeddingStatus := ''pending''\<rparr> else f"
  have "confined ?own p (tx_bind (\<lambda>db. (Inr (), update_chunks ?P ?f db))
      (\<lambda>_ db. (Inr (), db\<lparr>db_files := map ?h (db_files db)\<rparr>))) (pg_sql pg)"
  proof (rule confined_bind)
    show "confined ?own p (\<lambda>db. (Inr (), update_chunks ?P ?f db)) (pg_sql pg)"
      by (rule confined_update_chunks [OF ok])
        (use slices_okD(3) [OF ok, of p] in \<open>auto simp: chunk_check_def file_in_def db_inv_def\<close>)
    fix a db1 assume ok1: "slices_ok ?own db1"
    show "confined ?own p (\<lambda>db. (Inr (), db\<lparr>db_files := map ?h (db_files db)\<rparr>)) db1"
    proof (rule confined_update_files [OF ok1])
      fix f assume "f \<in> set (db_files db1)"
      then have "f \<in> set (db_files (slice ?own (?own (fr_ID f)) db1))" by simp
      with slices_okD(3) [OF ok1, of "?own (fr_ID f)"] have "file_check f" unfolding db_inv_def by blast
      then show "fr_ID (?h f) = fr_ID f \<and> fr_Path (?h f) = fr_Path f \<and> file_check (?h f)"
        by (simp add: file_check_def)
    qed simp
  qed
  then show ?thesis
    by (intro isolated_cong [OF _ _ isolated_run])
      (simp_all add: pg_reset_all_embedded_flags_def pg_with_write_tx_def Let_def pg_run_def tx_bind_def file_in_alone)
qed

lemma isolated_purge:
  assumes inv: "pg_inv pg"
  shows "isolated p (pg_purge_all p) pg"
proof -
  let ?own = "pg_project pg"
  have ok: "slices_ok ?own (pg_sql pg)" using inv by (simp add: pg_inv_def)
  define F where "F = fr_ID ` {f \<in> set (db_files (pg_sql pg)). owned p pg (fr_ID f)}"
  have F: "fr_ID ` {f. f \<in> set (db_files (pg_sql pg)) \<and> owned p pg (fr_ID f)} = F" by (simp add: F_def)
  have "confined ?own p (tx_bind (\<lambda>db. (Inr (), drop_files F db)) (\<lambda>_ db. (Inr (), db\<lparr>db_config :=
      filter (\<lambda>(k, v). k \<noteq> ''parser_algorithm_version'') (db_config db), db_tool_calls := id (db_tool_calls db)\<rparr>))) (pg_sql pg)"
    by (intro confined_bind confined_drop_files [OF ok] confined_shared) (auto simp: F_def)
  then show ?thesis
    by (intro isolated_cong [OF _ _ isolated_run]) (simp_all add: pg_purge_all_def Let_def pg_run_def tx_bind_def F)
qed

lemma isolated_delete_path:
  assumes inv: "pg_inv pg"
  shows "isolated p (pg_delete_file_by_path p path) pg"
proof -
  let ?own = "pg_project pg"
  have ok: "slices_ok ?own (pg_sql pg)" using inv by (simp add: pg_inv_def)
  have same: "pg_get_file_by_path p path (alone p pg) = pg_get_file_by_path p path pg"
    unfolding pg_get_file_by_path_def alone_fields slice_fields find_filter by (rule find_cong_set) auto
  show ?thesis
  proof (cases "pg_get_file_by_path p path pg")
    case None
    from isolated_const [OF inv, of p "Inr 0"] show ?thesis
      by (rule isolated_cong [rotated 2]) (simp_all add: pg_delete_file_by_path_def pg_with_write_tx_def same None)
  next
    case (Some f)
    then have "owned p pg (fr_ID f)" by (auto simp: pg_get_file_by_path_def dest: find_Some_set)
    then have "confined ?own p (\<lambda>db. (Inr (fr_ID f), drop_files {fr_ID f} db)) (pg_sql pg)"
      by (intro confined_drop_files [OF ok]) simp
    from isolated_run [OF this] show ?thesis
      by (rule isolated_cong [rotated 2]) (simp_all add: pg_delete_file_by_path_def pg_with_write_tx_def same Some pg_run_def)
  qed
qed

section \<open>A new file\<close>

lemma fresh_owner:
  assumes ok: "slices_ok own db" and i: "db_files_seq db < i"
  shows "slice (own(i := p)) q db = slice own q db"
proof -
  have used: "j \<noteq> i" if "j \<in> file_ids db" for j
    using slices_okD(1) [OF ok] that i by (fastforce simp: ids_ok_def wf_ids_def)
  have ref: "j \<noteq> i" if "db_inv (slice own r db) \<Longrightarrow> j \<in> file_ids (slice own r db)" for j r
    using that [OF slices_okD(3) [OF ok]] by (intro used) auto
  have c: "cr_FileID x \<noteq> i" if "x \<in> set (db_chunks db)" for x
    by (rule ref [of "own (cr_FileID x)"]) (use that in \<open>simp add: db_inv_def\<close>)
  have s: "sy_FileID x \<noteq> i" if "x \<in> set (db_symbols db)" for x
    by (rule ref [of "own (sy_FileID x)"]) (use that in \<open>simp add: db_inv_def\<close>)
  have e: "eg_FileID x \<noteq> i" if "x \<in> set (db_edges db)" for x
    by (rule ref [of "own (eg_FileID x)"]) (use that in \<open>simp add: db_inv_def\<close>)
  have r: "pe_FileID x \<noteq> i" if "x \<in> set (db_pending db)" for x
    by (rule ref [of "own (pe_FileID x)"]) (use that in \<open>simp add: db_inv_def\<close>)
  have d: "dl_FileID x \<noteq> i" if "x \<in> set (db_diffs db)" for x
    by (rule ref [of "own (dl_FileID x)"]) (use that in \<open>simp add: db_inv_def\<close>)
  have ds: "{l \<in> set (db_diffs db). (own(i := p)) (dl_FileID l) = q} = {l \<in> set (db_diffs db). own (dl_FileID l) = q}"
    using d by auto
  show ?thesis
    unfolding slice_def ds using used c s e r d by (simp cong: filter_cong)
qed

lemma slice_add_file:
  "slice own q (db\<lparr>db_files := db_files db @ [row\<lparr>fr_ID := i\<rparr>], db_files_seq := n\<rparr>)
     = (slice own q db)\<lparr>db_files := db_files (slice own q db) @ (if own i = q then [row\<lparr>fr_ID := i\<rparr>] else []), db_files_seq := n\<rparr>"
  by (simp add: slice_def)

lemma isolated_upsert:
  assumes inv: "pg_inv pg"
  shows "isolated p (pg_upsert_file now p file) pg"
proof -
  let ?own = "pg_project pg"
  have ok: "slices_ok ?own (pg_sql pg)" using inv by (simp add: pg_inv_def)
  define row where "row = file\<lparr>fr_IndexedAt := now, fr_EmbeddingStatus := coalesce (fr_EmbeddingStatus file) ''pending'',
                    fr_ParseQuality := coalesce (fr_ParseQuality file) ''full''\<rparr>"
  define same where "same = (\<lambda>f :: file_record. fr_Path f = fr_Path file \<and> owned p pg (fr_ID f))"
  define h where "h = (\<lambda>f. if same f then row\<lparr>fr_ID := fr_ID f\<rparr> else f)"
  have path: "fr_Path row = fr_Path file" by (simp add: row_def)
  have eq: "pg_upsert_file now p file x = (if \<not> file_check row \<or> p \<notin> fst ` set (pg_projects pg) then (Inl (ErrWrap ''upsert file'' constraint_err), x)
      else case find same (db_files (pg_sql x)) of
           Some old \<Rightarrow> (Inr (fr_ID old), x\<lparr>pg_sql := (pg_sql x)\<lparr>db_files := map h (db_files (pg_sql x))\<rparr>\<rparr>)
         | None \<Rightarrow> (Inr (db_files_seq (pg_sql x) + 1), x\<lparr>pg_sql := (pg_sql x)\<lparr>db_files := db_files (pg_sql x) @ [row\<lparr>fr_ID := db_files_seq (pg_sql x) + 1\<rparr>],
               db_files_seq := db_files_seq (pg_sql x) + 1\<rparr>, pg_project := (pg_project x)(db_files_seq (pg_sql x) + 1 := p)\<rparr>))"
    if "x = pg \<or> x = alone p pg" for x
  proof -
    have "pg_project x = pg_project pg" "pg_projects x = pg_projects pg" using that by auto
    then show ?thesis unfolding pg_upsert_file_def Let_def row_def [symmetric] h_def same_def by (simp only:)
  qed
  have found: "find same (db_files (pg_sql (alone p pg))) = find same (db_files (pg_sql pg))"
    unfolding alone_fields slice_fields find_filter by (rule find_cong_set) (auto simp: same_def)
  show ?thesis
  proof (cases "\<not> file_check row \<or> p \<notin> fst ` set (pg_projects pg)")
    case True
    from isolated_const [OF inv, of p "Inl (ErrWrap ''upsert file'' constraint_err)"] show ?thesis
      by (rule isolated_cong [rotated 2]) (use eq [of pg] eq [of "alone p pg"] True in auto)
  next
    case False
    then have chk: "file_check row" by simp
    show ?thesis
    proof (cases "find same (db_files (pg_sql pg))")
      case (Some old)
      have "confined ?own p (\<lambda>db. (Inr (fr_ID old), db\<lparr>db_files := map h (db_files db)\<rparr>)) (pg_sql pg)"
      proof (rule confined_update_files [OF ok])
        fix f assume "f \<in> set (db_files (pg_sql pg))"
        then have "f \<in> set (db_files (slice ?own (?own (fr_ID f)) (pg_sql pg)))" by simp
        with slices_okD(3) [OF ok, of "?own (fr_ID f)"] have "file_check f" unfolding db_inv_def by blast
        moreover have "file_check (row\<lparr>fr_ID := i\<rparr>)" for i using chk by (simp add: file_check_def)
        ultimately show "fr_ID (h f) = fr_ID f \<and> fr_Path (h f) = fr_Path f \<and> file_check (h f)"
          by (simp add: h_def same_def path)
      qed (simp add: h_def same_def)
      from isolated_run [OF this] show ?thesis
      proof (rule isolated_cong [rotated 2])
        show "pg_upsert_file now p file pg = pg_run (\<lambda>db. (Inr (fr_ID old), db\<lparr>db_files := map h (db_files db)\<rparr>)) pg"
          using eq [of pg] False Some by (simp add: pg_run_def)
        show "pg_upsert_file now p file (alone p pg) = pg_run (\<lambda>db. (Inr (fr_ID old), db\<lparr>db_files := map h (db_files db)\<rparr>)) (alone p pg)"
          using eq [of "alone p pg"] False found Some by (simp add: pg_run_def)
      qed
    next
      case None
      define db where "db = pg_sql pg"
      define i where "i = db_files_seq db + 1"
      define db' where "db' = db\<lparr>db_files := db_files db @ [row\<lparr>fr_ID := i\<rparr>], db_files_seq := i\<rparr>"
      define own' where "own' = ?own(i := p)"
      note ok = ok [folded db_def]
      have fresh: "slice own' q db = slice ?own q db" for q
        unfolding own'_def by (rule fresh_owner [OF ok]) (simp add: i_def)
      have old: "fr_ID f \<noteq> i" if "f \<in> set (db_files db)" for f
        using slices_okD(1) [OF ok] that by (fastforce simp: ids_ok_def wf_ids_def i_def)
      have here: "slice own' p db' = (slice ?own p db)\<lparr>db_files := db_files (slice ?own p db) @ [row\<lparr>fr_ID := i\<rparr>], db_files_seq := i\<rparr>"
        unfolding db'_def slice_add_file fresh by (simp add: own'_def)
      have there: "contents (slice own' q db') = contents (slice ?own q db)" if "q \<noteq> p" for q
        unfolding db'_def slice_add_file fresh using that by (simp add: own'_def contents_def)
      have "db_inv (slice own' q db')" for q
      proof (cases "q = p")
        case True
        have "fr_Path row \<notin> fr_Path ` set (db_files (slice ?own p db))"
          using None by (auto simp: find_None_set same_def path db_def)
        from file_snoc_inv [OF slices_okD(3) [OF ok] chk this] show ?thesis
          unfolding True here by (simp add: i_def)
      next
        case False
        show ?thesis
          by (rule contents_inv [OF there [OF False] _ slices_okD(3) [OF ok]]) (simp add: seqs_def db'_def i_def)
      qed
      moreover have "ids_ok db'"
        using slices_okD(1) [OF ok] wf_ids_snoc [of "map fr_ID (db_files db)" "db_files_seq db"]
        by (simp add: ids_ok_def db'_def i_def)
      ultimately have ok': "slices_ok own' db'" using slices_okD(2) [OF ok] by (simp add: slices_ok_def db'_def)
      let ?pg' = "pg\<lparr>pg_sql := db', pg_project := own'\<rparr>"
      have run: "pg_upsert_file now p file pg = (Inr i, ?pg')"
        using False None eq [of pg] by (simp add: db'_def own'_def i_def db_def)
      have "pg_upsert_file now p file (alone p pg) = (Inr i, alone p ?pg')"
        using False None found eq [of "alone p pg"] here by (simp add: alone_def project_db_def i_def db_def own'_def)
      with run ok' there show ?thesis
        by (simp add: isolated_def pg_inv_def project_db_def db_def)
    qed
  qed
qed

section \<open>The theorem\<close>

lemma isolated_exec:
  assumes inv: "pg_inv pg" and loc: "call_local p call pg"
  shows "isolated p (pg_exec p call) pg"
proof -
  have ok: "slices_ok (pg_project pg) (pg_sql pg)" using inv by (simp add: pg_inv_def)
  note run = isolated_ans [OF isolated_run [OF confined_tx [OF ok]]]
  show ?thesis
  proof (cases call)
    case (CUpsertFile now f)
    from isolated_ans [OF isolated_upsert [OF inv]] show ?thesis by (rule isolated_cong [rotated 2]) (simp_all add: CUpsertFile)
  next
    case (CDeleteFile i)
    have "confined (pg_project pg) p (\<lambda>db. (Inr (), drop_files {i} db)) (pg_sql pg)"
      by (rule confined_drop_files [OF ok]) (use loc CDeleteFile in simp)
    from run [OF this] show ?thesis by (rule isolated_cong [rotated 2]) (simp_all add: CDeleteFile pg_delete_file_def)
  next
    case (CDeleteFileByPath path)
    from isolated_ans [OF isolated_delete_path [OF inv]] show ?thesis by (rule isolated_cong [rotated 2]) (simp_all add: CDeleteFileByPath)
  next
    case (CUpdateChunkParents ups)
    have "confined (pg_project pg) p (pg_set_parents ups) (pg_sql pg)"
      by (rule confined_set_parents [OF ok]) (use loc CUpdateChunkParents in simp)
    note upd = isolated_run [OF confined_tx [OF ok this]] isolated_const [OF inv, of p "Inr ()"]
    have "isolated p (pg_update_chunk_parents ups) pg"
    proof (cases "ups = []")
      case True
      from upd(2) show ?thesis by (rule isolated_cong [rotated 2]) (simp_all add: pg_update_chunk_parents_def True)
    next
      case False
      from upd(1) show ?thesis by (rule isolated_cong [rotated 2]) (simp_all add: pg_update_chunk_parents_def False)
    qed
    from isolated_ans [OF this] show ?thesis by (rule isolated_cong [rotated 2]) (simp_all add: CUpdateChunkParents)
  next
    case (CInsertChunks i cs)
    have "isolated p (pg_insert_chunks i cs) pg"
      unfolding pg_insert_chunks_def
      by (rule isolated_run [OF confined_insert_chunks [OF ok]]) (use loc CInsertChunks in simp_all)
    from isolated_ans [OF this] show ?thesis by (rule isolated_cong [rotated 2]) (simp_all add: CInsertChunks)
  next
    case (CDeleteChunksByFile i)
    with loc have own: "owned p pg i" by simp
    from run [OF confined_drop_chunks [OF ok own]] show ?thesis
      by (rule isolated_cong [rotated 2]) (simp_all add: CDeleteChunksByFile pg_delete_chunks_by_file_def)
  next
    case (CInsertSymbols i ss)
    have "confined (pg_project pg) p (insert_symbol_rows i ss) (pg_sql pg)"
      by (rule confined_insert_symbol_rows [OF ok]) (use loc CInsertSymbols in simp_all)
    from run [OF this] show ?thesis by (rule isolated_cong [rotated 2]) (simp_all add: CInsertSymbols pg_insert_symbols_def)
  next
    case (CDeleteSymbolsByFile i)
    with loc have own: "owned p pg i" by simp
    from run [OF confined_drop_symbols [OF ok own]] show ?thesis
      by (rule isolated_cong [rotated 2]) (simp_all add: CDeleteSymbolsByFile pg_delete_symbols_by_file_def)
  next
    case (CMarkChunksEmbedded ids)
    with loc have l: "\<forall>i \<in> set ids. chunk_local (pg_project pg) p (pg_sql pg) i" by simp
    from run [OF confined_mark_reset(1) [OF ok l]] show ?thesis
      by (rule isolated_cong [rotated 2]) (simp_all add: CMarkChunksEmbedded pg_mark_chunks_embedded_def)
  next
    case (CResetEmbeddedFlags ids)
    with loc have l: "\<forall>i \<in> set ids. chunk_local (pg_project pg) p (pg_sql pg) i" by simp
    from run [OF confined_mark_reset(2) [OF ok l]] show ?thesis
      by (rule isolated_cong [rotated 2]) (simp_all add: CResetEmbeddedFlags pg_reset_embedded_flags_def)
  next
    case CResetAllEmbeddedFlags
    from isolated_ans [OF isolated_reset_all [OF inv]] show ?thesis by (rule isolated_cong [rotated 2]) (simp_all add: CResetAllEmbeddedFlags)
  next
    case CPurgeAll
    from isolated_ans [OF isolated_purge [OF inv]] show ?thesis by (rule isolated_cong [rotated 2]) (simp_all add: CPurgeAll)
  next
    case (CSetConfig k v)
    from isolated_ans [OF isolated_run [OF confined_shared [where x = "()" and p = p and f = "AList.update k v" and g = id, OF ok]]]
    show ?thesis by (rule isolated_cong [rotated 2]) (simp_all add: CSetConfig pg_set_config_def)
  next
    case (CRecordToolCalls rs)
    from isolated_ans [OF isolated_run [OF confined_shared [where x = "()" and p = p and f = id and g = "\<lambda>xs. xs @ rs", OF ok]]]
    show ?thesis by (rule isolated_cong [rotated 2]) (simp_all add: CRecordToolCalls pg_record_tool_calls_def)
  next
    case (CTransaction ss)
    have "confined (pg_project pg) p (pg_exec_stmts (pg_project pg) p ss) (pg_sql pg)"
      by (rule confined_exec_stmts [OF ok]) (use loc CTransaction in simp)
    from isolated_run [OF confined_tx [OF ok this]]
    have "isolated p (pg_transaction p ss) pg"
      by (rule isolated_cong [rotated 2]) (simp_all add: pg_transaction_def)
    from isolated_ans [OF this] show ?thesis by (rule isolated_cong [rotated 2]) (simp_all add: CTransaction)
  qed
qed

text \<open>C23. A call of project \<open>p\<close> is isolated if it is local (\<open>call_local\<close>): the ids of files, chunks, symbols and
  diffs in it are those of rows of \<open>p\<close>, its chunks name no \<open>ParentChunkID\<close>, and no other project waits for a name
  that it resolves. Such a call gets the same answer as on a database of its own, the rows of \<open>p\<close> become what
  they would become there, the rows of every other project stay exactly as they were, and the integrity of all
  projects is kept. The store checks none of these conditions; \<open>resolve_crosses_projects\<close> shows what
  happens without the last one.\<close>

theorem project_isolation:
  assumes "pg_inv pg" and "call_local p call pg" and "pg_exec p call pg = (r, pg')"
  shows "pg_inv pg' \<and> pg_exec p call (alone p pg) = (r, alone p pg')
    \<and> (\<forall>q. q \<noteq> p \<longrightarrow> contents (project_db q pg') = contents (project_db q pg))"
  using isolated_exec [OF assms(1,2)] assms(3) unfolding isolated_def by blast

section \<open>Two projects\<close>

text \<open>The sample database, its first file in project 1 and the others in project 2.\<close>

definition sample_pg :: pg_db where
  "sample_pg = \<lparr>pg_sql = sample_db\<lparr>db_fts := {}, db_fts_triggers := False\<rparr>, pg_project = (\<lambda>i. if i = 1 then 1 else 2),
     pg_projects = [(1, ''/a'', ''a''), (2, ''/b'', ''b'')], pg_projects_seq = 3\<rparr>"

lemma sample_pg_ok: "pg_inv sample_pg"
proof -
  have "db_inv (slice (\<lambda>i. if i = 1 then 1 else 2) q (sample_db\<lparr>db_fts := {}, db_fts_triggers := False\<rparr>))" for q :: int
  proof -
    consider "q = 1" | "q = 2" | "q \<noteq> 1" "q \<noteq> 2" by blast
    then show ?thesis
      by cases (simp_all add: db_inv_def sample_defs wf_ids_def file_check_def embedding_status_valid_def parse_quality_valid_def
          chunk_check_def chunk_kind_check_def symbol_check_def visibility_valid_def edge_kind_valid_def diff_check_def ref_ok_def slice_def)
  qed
  then show ?thesis
    by (simp add: pg_inv_def sample_pg_def slices_ok_def ids_ok_def wf_ids_def sample_defs)
qed

text \<open>Project 1 deletes its file; project 2 keeps both of its own.\<close>

theorem project_isolation_witness:
  "call_local 1 (CDeleteFile 1) sample_pg
   \<and> map fr_ID (db_files (pg_sql (snd (pg_exec 1 (CDeleteFile 1) sample_pg)))) = [2, 3]
   \<and> contents (project_db 2 (snd (pg_exec 1 (CDeleteFile 1) sample_pg))) = contents (project_db 2 sample_pg)"
proof -
  have loc: "call_local 1 (CDeleteFile 1) sample_pg" by (simp add: sample_pg_def)
  obtain r pg' where run: "pg_exec 1 (CDeleteFile 1) sample_pg = (r, pg')" by (cases "pg_exec 1 (CDeleteFile 1) sample_pg")
  have "contents (project_db 2 pg') = contents (project_db 2 sample_pg)"
    using project_isolation [OF sample_pg_ok loc run] by auto
  moreover have "map fr_ID (db_files (pg_sql (snd (pg_exec 1 (CDeleteFile 1) sample_pg)))) = [2, 3]"
    by (simp add: pg_delete_file_def pg_ans_def pg_run_def with_write_tx_def drop_files_def Let_def drop_chunks_fields
        drop_symbols_fields drop_diffs_fields sample_pg_def sample_db_def sample_file_row_def)
  ultimately show ?thesis using loc run by simp
qed

text \<open>C25. The statements whose text names no project reach into other projects. When project 2 resolves the
  name \<open>baz\<close>, a pending edge of project 1 becomes an edge from project 1's symbol to project 2's; the
  graph of project 1 now leads into project 2, and the database is no longer a union of sound
  projects. Before that, asking project 2 for the callers of \<open>baz\<close> names a symbol of project 1,
  which project 2 cannot look up.\<close>

theorem resolve_crosses_projects:
  "pg_inv sample_pg
   \<and> pg_pending_edge_callers ''baz'' sample_pg = [1] \<and> pg_get_symbol_by_id 2 1 sample_pg = None
   \<and> (\<exists>pg'. pg_exec 2 (CTransaction [PResolvePending [''baz'']]) sample_pg = (Inr ADone, pg')
        \<and> pg_neighbors 1 1 ''outgoing'' sample_pg = Inr [] \<and> pg_neighbors 1 1 ''outgoing'' pg' = Inr [4]
        \<and> contents (project_db 1 pg') \<noteq> contents (project_db 1 sample_pg) \<and> \<not> pg_inv pg')"
proof -
  define db where "db = sample_db\<lparr>db_fts := {}, db_fts_triggers := False\<rparr>"
  define own where "own = (\<lambda>i :: int. if i = 1 then 1 else 2 :: int)"
  define e where "e = \<lparr>eg_ID = 2, eg_Src = 1, eg_Dst = 4, eg_Kind = ''calls'', eg_FileID = 1\<rparr>"
  define db' where "db' = db\<lparr>db_edges := db_edges db @ [e], db_edges_seq := 2, db_pending := []\<rparr>"
  define pg' where "pg' = sample_pg\<lparr>pg_sql := db'\<rparr>"
  have look: "pg_lookup_symbol_id own 2 ''baz'' 0 ''go'' db = 4"
    by (simp add: pg_lookup_symbol_id_def sym_id_or_zero_def db_def own_def sample_defs)
  have "pg_resolve_pending_edges own 2 [''baz''] db = (Inr (), db')"
    using look by (simp add: pg_resolve_pending_edges_def db_def db'_def e_def sample_db_def)
      (simp add: pg_insert_edge_def edge_kind_valid_def delete_pending_def Let_def sample_symbol_row_def sample_file_row_def)
  then have run: "pg_exec 2 (CTransaction [PResolvePending [''baz'']]) sample_pg = (Inr ADone, pg')"
    by (simp add: pg_transaction_def pg_ans_def pg_run_def with_write_tx_def tx_bind_def tx_return_def pg'_def sample_pg_def
        flip: db_def own_def)
  have "contents (project_db 1 pg') \<noteq> contents (project_db 1 sample_pg)"
  proof
    assume "contents (project_db 1 pg') = contents (project_db 1 sample_pg)"
    from contents_fields(5) [OF this] show False
      by (simp add: project_db_def pg'_def sample_pg_def db'_def db_def sample_db_def)
  qed
  moreover have "\<not> pg_inv pg'"
  proof
    assume "pg_inv pg'"
    then have "db_inv (slice own 1 db')" by (simp add: pg_inv_def slices_ok_def pg'_def sample_pg_def own_def)
    then show False by (simp add: db_inv_def db'_def e_def db_def own_def sample_defs)
  qed
  moreover have "pg_neighbors 1 1 ''outgoing'' sample_pg = Inr []"
    by (simp add: pg_neighbors_def neighbors_cte_def Let_def outgoing_def sample_pg_def sample_db_def cte_rows.simps)
  moreover have "pg_neighbors 1 1 ''outgoing'' pg' = Inr [4]"
    by (simp add: pg_neighbors_def neighbors_cte_def Let_def outgoing_def pg'_def db'_def db_def e_def sample_db_def cte_rows.simps clamp_depth_def)
  moreover have "pg_pending_edge_callers ''baz'' sample_pg = [1]"
    by (simp add: pg_pending_edge_callers_def sample_pg_def sample_db_def)
  moreover have "pg_get_symbol_by_id 2 1 sample_pg = None"
    by (simp add: pg_get_symbol_by_id_def sample_pg_def sample_defs file_in_def)
  ultimately show ?thesis using sample_pg_ok run by blast
qed

end
