(* ===== verification/Pg_Query.thy ===== *)
theory Pg_Query
  imports Pg_Calls
begin

text \<open>
  The Postgres store as the query engine sees it. Its queries read one project's slice as the SQLite
  queries read a database, so the contracts of retrieval and ranking hold of it too; the
  embedding state machine runs on \<open>pgChunkOps\<close> through the same locale as on SQLite.
\<close>

definition pg_batch :: "int \<Rightarrow> pg_db \<Rightarrow> batch_store" where
  "pg_batch p pg =
     \<lparr>bs_BatchGetSymbolIDsForChunks = (\<lambda>ids. Inr (pg_batch_get_symbol_ids_for_chunks p ids pg)),
      bs_BatchNeighbors = (\<lambda>ids d. Inr (pg_batch_neighbors ids d pg)),
      bs_BatchGetChunkIDsForSymbols = (\<lambda>ids. Inr (pg_batch_get_chunk_ids_for_symbols p ids pg)),
      bs_BatchHydrateChunks = (\<lambda>ids. Inr (pg_batch_hydrate_chunks p ids pg)),
      bs_BatchGetSiblingChunks = (\<lambda>keys. Inr (pg_batch_get_sibling_chunks p keys pg))\<rparr>"

definition pg_store :: "ts_match \<Rightarrow> (string \<Rightarrow> int) \<Rightarrow> int \<Rightarrow> int \<Rightarrow> pg_db \<Rightarrow> metadata_store" where
  "pg_store ts instant now p pg =
     \<lparr>ms_GetChunkByID = (\<lambda>i. Inr (pg_get_chunk_by_id p i pg)), ms_GetSymbolByName = (\<lambda>n. Inr (pg_get_symbol_by_name p n pg)),
      ms_GetSymbolByID = (\<lambda>i. Inr (pg_get_symbol_by_id p i pg)), ms_GetFilePathByID = (\<lambda>i. pg_get_file_path_by_id p i pg),
      ms_GetFileIsTestByID = (\<lambda>i. pg_get_file_is_test_by_id p i pg), ms_GetIndexStats = Inr (pg_get_index_stats p pg),
      ms_KeywordSearch = (\<lambda>q n. pg_keyword_search ts p q n pg),
      ms_ComputeChangeScores = (\<lambda>ids. Inr (pg_compute_change_scores instant now ids pg)),
      ms_Neighbors = (\<lambda>i d dir. pg_neighbors i d dir pg), ms_GetSiblingChunks = (\<lambda>f n k. Inr (pg_get_sibling_chunks p f n k pg)),
      ms_PendingEdgeCallers = (\<lambda>n. Inr (pg_pending_edge_callers n pg)),
      ms_PendingEdgeCallersWithKind = (\<lambda>n. Inr (pg_pending_edge_callers_with_kind n pg)),
      ms_GetRecentDiffs = (\<lambda>input. Inr (pg_get_recent_diffs instant p input pg)),
      ms_GetDiffSymbols = (\<lambda>i. Inr (pg_get_diff_symbols i pg)), ms_batch = Some (pg_batch p pg)\<rparr>"

section \<open>Reading one project\<close>

lemma project_db_fields [simp]:
  "db_files (project_db p pg) = filter (\<lambda>f. owned p pg (fr_ID f)) (db_files (pg_sql pg))"
  "db_chunks (project_db p pg) = filter (\<lambda>c. owned p pg (cr_FileID c)) (db_chunks (pg_sql pg))"
  "db_symbols (project_db p pg) = filter (\<lambda>s. owned p pg (sy_FileID s)) (db_symbols (pg_sql pg))"
  by (simp_all add: project_db_def)

lemma project_db_inv: "pg_inv pg \<Longrightarrow> db_inv (project_db p pg)"
  by (simp add: pg_inv_def project_db_def slices_ok_def)

lemma chunk_file_in:
  assumes inv: "pg_inv pg" and x: "x \<in> set (db_chunks (pg_sql pg))"
  shows "file_in p pg (cr_FileID x) \<longleftrightarrow> owned p pg (cr_FileID x)"
proof -
  have "x \<in> set (db_chunks (project_db (pg_project pg (cr_FileID x)) pg))" using x by simp
  with project_db_inv [OF inv, of "pg_project pg (cr_FileID x)"] have "cr_FileID x \<in> file_ids (project_db (pg_project pg (cr_FileID x)) pg)"
    unfolding db_inv_def by blast
  then show ?thesis by (auto simp: file_in_def)
qed

lemma symbol_file_in:
  assumes inv: "pg_inv pg" and x: "x \<in> set (db_symbols (pg_sql pg))"
  shows "file_in p pg (sy_FileID x) \<longleftrightarrow> owned p pg (sy_FileID x)"
proof -
  have "x \<in> set (db_symbols (project_db (pg_project pg (sy_FileID x)) pg))" using x by simp
  with project_db_inv [OF inv, of "pg_project pg (sy_FileID x)"] have "sy_FileID x \<in> file_ids (project_db (pg_project pg (sy_FileID x)) pg)"
    unfolding db_inv_def by blast
  then show ?thesis by (auto simp: file_in_def)
qed

lemma pg_chunks_where:
  assumes "pg_inv pg"
  shows "filter (\<lambda>c. Q c \<and> file_in p pg (cr_FileID c)) (db_chunks (pg_sql pg)) = filter Q (db_chunks (project_db p pg))"
    "filter (\<lambda>c. file_in p pg (cr_FileID c) \<and> Q c) (db_chunks (pg_sql pg)) = filter Q (db_chunks (project_db p pg))"
    "filter (\<lambda>c. file_in p pg (cr_FileID c)) (db_chunks (pg_sql pg)) = db_chunks (project_db p pg)"
  unfolding project_db_fields filter_filter by (rule filter_cong, simp, auto simp: chunk_file_in [OF assms])+

lemma pg_symbols_where:
  assumes "pg_inv pg"
  shows "filter (\<lambda>s. Q s \<and> file_in p pg (sy_FileID s)) (db_symbols (pg_sql pg)) = filter Q (db_symbols (project_db p pg))"
    "filter (\<lambda>s. file_in p pg (sy_FileID s)) (db_symbols (pg_sql pg)) = db_symbols (project_db p pg)"
  unfolding project_db_fields filter_filter by (rule filter_cong, simp, auto simp: symbol_file_in [OF assms])+

lemma pg_find:
  assumes "pg_inv pg"
  shows "find (\<lambda>c. Q c \<and> file_in p pg (cr_FileID c)) (db_chunks (pg_sql pg)) = find Q (db_chunks (project_db p pg))"
    "find (\<lambda>s. R s \<and> file_in p pg (sy_FileID s)) (db_symbols (pg_sql pg)) = find R (db_symbols (project_db p pg))"
    "find (\<lambda>f. P f \<and> owned p pg (fr_ID f)) (db_files (pg_sql pg)) = find P (db_files (project_db p pg))"
  unfolding project_db_fields find_filter
  by (rule find_cong_set, auto simp: chunk_file_in [OF assms] symbol_file_in [OF assms])+

lemma pg_lookups:
  assumes "pg_inv pg"
  shows "pg_get_chunk_by_id p i pg = get_chunk_by_id i (project_db p pg)"
    "pg_get_symbol_by_id p i pg = get_symbol_by_id i (project_db p pg)"
    "pg_get_symbol_by_name p n pg = get_symbol_by_name n (project_db p pg)"
    "pg_get_file_by_path p path pg = get_file_by_path path (project_db p pg)"
  using assms
  by (simp_all only: pg_get_chunk_by_id_def get_chunk_by_id_def pg_get_symbol_by_id_def get_symbol_by_id_def pg_get_symbol_by_name_def
      get_symbol_by_name_def pg_get_file_by_path_def get_file_by_path_def pg_find pg_symbols_where)

lemma pg_file_lookups:
  assumes "pg_inv pg"
  shows "pg_get_file_path_by_id p i pg = Inr x \<longleftrightarrow> get_file_path_by_id i (project_db p pg) = Inr x"
    "pg_get_file_is_test_by_id p i pg = Inr t \<longleftrightarrow> get_file_is_test_by_id i (project_db p pg) = Inr t"
  unfolding pg_get_file_path_by_id_def get_file_path_by_id_def pg_get_file_is_test_by_id_def get_file_is_test_by_id_def
    pg_find(3) [OF assms]
  by (simp_all split: option.split)

text \<open>C24. Fourteen queries of a project answer what the SQLite store would answer on a database of the project's rows
  alone, so nothing of other projects is seen through them: file by path, list of files (where the database
  collates paths bytewise), chunks and symbols of a file, chunk by id, sibling chunks, symbol by name and by id,
  statistics, page of chunks to embed, page of embedded ids, the two counts and the readiness. Nothing is
  claimed of the others; pending callers, neighbours, the diffs of a given file, the symbols of a diff and
  change scores name no project in their statements at all.\<close>

theorem reads_own_project:
  assumes "pg_inv pg"
  shows "pg_get_file_by_path p path pg = get_file_by_path path (project_db p pg)
    \<and> pg_list_files (\<lambda>x. x) p pg = list_files (project_db p pg)
    \<and> pg_get_chunks_by_file p fid pg = get_chunks_by_file fid (project_db p pg)
    \<and> pg_get_chunk_by_id p i pg = get_chunk_by_id i (project_db p pg)
    \<and> pg_get_sibling_chunks p fid n k pg = get_sibling_chunks fid n k (project_db p pg)
    \<and> pg_get_symbols_by_file p fid pg = get_symbols_by_file fid (project_db p pg)
    \<and> pg_get_symbol_by_name p n pg = get_symbol_by_name n (project_db p pg)
    \<and> pg_get_symbol_by_id p i pg = get_symbol_by_id i (project_db p pg)
    \<and> pg_get_index_stats p pg = get_index_stats (project_db p pg)
    \<and> pg_get_embed_page p i (int m) pg = Inr (get_embed_page i (int m) (project_db p pg))
    \<and> pg_get_embedded_chunk_ids p i (int m) pg = Inr (get_embedded_chunk_ids i (int m) (project_db p pg))
    \<and> pg_count_chunks_needing_embedding p pg = count_chunks_needing_embedding (project_db p pg)
    \<and> pg_count_chunks_embedded p pg = count_chunks_embedded (project_db p pg)
    \<and> pg_embedding_readiness p v pg = embedding_readiness v (project_db p pg)"
proof -
  have ids: "sort_key cr_ID (filter Q (db_chunks (project_db p pg))) = filter Q (db_chunks (project_db p pg))" for Q
    using project_db_inv [OF assms, of p] by (intro sort_by_id [where n = "db_chunks_seq (project_db p pg)"]) (simp only: db_inv_def)
  have files: "filter (\<lambda>f. owned p pg (fr_ID f)) (db_files (pg_sql pg)) = db_files (project_db p pg)" by simp
  have a: "pg_get_chunks_by_file p fid pg = get_chunks_by_file fid (project_db p pg)"
    unfolding pg_get_chunks_by_file_def get_chunks_by_file_def pg_chunks_where [OF assms] ..
  have b: "pg_get_sibling_chunks p fid n k pg = get_sibling_chunks fid n k (project_db p pg)"
    unfolding pg_get_sibling_chunks_def get_sibling_chunks_def conj_assoc [symmetric] pg_chunks_where [OF assms] ..
  have c: "pg_get_symbols_by_file p fid pg = get_symbols_by_file fid (project_db p pg)"
    unfolding pg_get_symbols_by_file_def get_symbols_by_file_def pg_symbols_where [OF assms] ..
  have d: "pg_list_files (\<lambda>x. x) p pg = list_files (project_db p pg)"
    unfolding pg_list_files_def list_files_def files ..
  have e: "pg_get_index_stats p pg = get_index_stats (project_db p pg)"
    unfolding pg_get_index_stats_def get_index_stats_def Let_def files pg_chunks_where [OF assms] pg_symbols_where [OF assms] ..
  have f: "pg_get_embed_page p i (int m) pg = Inr (get_embed_page i (int m) (project_db p pg))"
    unfolding pg_get_embed_page_def get_embed_page_def pg_chunks_where [OF assms] ids
    by (simp add: pg_limit_def sql_limit_def wrap_res_def)
  have g: "pg_get_embedded_chunk_ids p i (int m) pg = Inr (get_embedded_chunk_ids i (int m) (project_db p pg))"
    unfolding pg_get_embedded_chunk_ids_def get_embedded_chunk_ids_def pg_chunks_where [OF assms] ids
    by (simp add: pg_limit_def sql_limit_def)
  have h: "pg_count_chunks_needing_embedding p pg = count_chunks_needing_embedding (project_db p pg)"
    "pg_count_chunks_embedded p pg = count_chunks_embedded (project_db p pg)"
    "pg_embedding_readiness p v pg = embedding_readiness v (project_db p pg)"
    unfolding pg_count_chunks_needing_embedding_def count_chunks_needing_embedding_def pg_count_chunks_embedded_def
      count_chunks_embedded_def pg_embedding_readiness_def embedding_readiness_def pg_chunks_where [OF assms] by (rule refl)+
  show ?thesis using a b c d e f g h pg_lookups [OF assms] by blast
qed

theorem reads_own_project_witness:
  "pg_get_symbol_by_name 2 ''baz'' sample_pg = get_symbol_by_name ''baz'' (project_db 2 sample_pg)
   \<and> map sy_ID (pg_get_symbol_by_name 2 ''baz'' sample_pg) = [3, 4] \<and> pg_get_symbol_by_name 1 ''baz'' sample_pg = []
   \<and> pg_get_embed_page 1 0 1 sample_pg = Inr [\<lparr>ej_ChunkID = 1, ej_Content = ''foo''\<rparr>]"
proof -
  have "pg_get_symbol_by_name q ''baz'' sample_pg = get_symbol_by_name ''baz'' (project_db q sample_pg)"
    "pg_get_embed_page q 0 (int 1) sample_pg = Inr (get_embed_page 0 (int 1) (project_db q sample_pg))" for q
    using reads_own_project [OF sample_pg_ok, where n = "''baz''" and p = q and i = 0 and m = 1] by blast+
  then show ?thesis
    by (simp add: get_symbol_by_name_def get_embed_page_def sql_limit_def embed_job_of_def sample_pg_def sample_defs)
qed

section \<open>The contracts of retrieval and ranking\<close>

lemma pg_hydration:
  assumes "pg_inv pg"
  shows "hydration (pg_store ts instant now p pg) i = hydration (sqlite_store fts parse now (project_db p pg)) i"
proof -
  have "(case (pg_get_file_path_by_id p f pg, pg_get_file_is_test_by_id p f pg) of (Inr x, Inr t) \<Rightarrow> Some (g x t) | _ \<Rightarrow> None)
     = (case (get_file_path_by_id f (project_db p pg), get_file_is_test_by_id f (project_db p pg)) of (Inr x, Inr t) \<Rightarrow> Some (g x t) | _ \<Rightarrow> None)"
    for f and g :: "string \<Rightarrow> bool \<Rightarrow> hydrated_chunk"
    using pg_file_lookups [OF assms, of p f] by (simp split: sum.split) (metis Inr_inject sum.exhaust Inl_Inr_False)
  then show ?thesis
    unfolding hydration_def pg_store_def sqlite_store_def metadata_store.simps pg_lookups [OF assms] by (simp only:)
qed

lemma set_pg_hydrate:
  "set (pg_batch_hydrate_chunks p ids pg) = set (batch_hydrate_chunks ids (project_db p pg))"
proof -
  have "h \<in> set (pg_batch_hydrate_chunks p ids pg) \<longleftrightarrow> h \<in> set (batch_hydrate_chunks ids (project_db p pg))" for h
    unfolding in_batch_hydrate
    by (auto simp: pg_batch_hydrate_chunks_def pg_join_files_def; metis)
  then show ?thesis by blast
qed

interpretation pgh: batch_hydration "pg_store ts instant now p" "pg_batch p" pg_inv for ts instant now p
proof (unfold_locales, goal_cases)
  case (1 pg i)
  show ?case by (simp add: pg_store_def)
next
  case (2 pg i c)
  with sqh.chunk_id [OF project_db_inv [OF 2(1)], of "\<lambda>_ _. []" "\<lambda>_. None" now p i c] show ?case
    by (simp add: pg_store_def sqlite_store_def pg_lookups)
next
  case (3 pg i c)
  then have "ms_GetChunkByID (sqlite_store (\<lambda>_ _. []) (\<lambda>_. None) now (project_db p pg)) i = Inr (Some c)"
    by (simp add: pg_store_def sqlite_store_def pg_lookups)
  from sqh.file_total [OF project_db_inv [OF 3(1)] this] pg_file_lookups [OF 3(1)] show ?case
    by (auto simp: pg_store_def sqlite_store_def)
next
  case (4 pg ids)
  from sqh.batch_rows [OF project_db_inv [OF 4], of p ids "\<lambda>_ _. []" "\<lambda>_. None" now]
  show ?case
    unfolding pg_hydration [OF 4, of ts instant now p _ "\<lambda>_ _. []" "\<lambda>_. None"]
    by (simp add: pg_batch_def sqlite_batch_def set_pg_hydrate)
qed

lemma pg_symbol_rows: "pg_inv pg \<Longrightarrow> pg_symbol_rows_for_chunk p pg c = symbol_rows_for_chunk (project_db p pg) c"
  by (simp only: pg_symbol_rows_for_chunk_def symbol_rows_for_chunk_def pg_symbols_where)

lemma pg_lookup_for_chunk:
  "pg_inv pg \<Longrightarrow> lookup_symbol_for_chunk (pg_store ts instant now p pg) i
     = lookup_symbol_for_chunk (sqlite_store fts parse now (project_db p pg)) i"
  by (simp only: lookup_symbol_for_chunk_def pg_store_def sqlite_store_def metadata_store.simps pg_lookups)

lemma pg_batch_symbol_ids:
  assumes inv: "pg_inv pg" and i: "i \<in> set ids"
  shows "map_of (pg_batch_get_symbol_ids_for_chunks p ids pg) i =
    (if lookup_symbol_for_chunk (pg_store ts instant now p pg) i = 0 then None
     else Some (lookup_symbol_for_chunk (pg_store ts instant now p pg) i))"
proof -
  let ?D = "project_db p pg" and ?none = "\<lambda>_ _. [] :: (int \<times> real) list"
  let ?cs = "filter (\<lambda>c. cr_ID c \<in> set ids \<and> cr_SymbolName c \<noteq> []) (db_chunks ?D)"
  have D: "db_inv ?D" by (rule project_db_inv [OF inv])
  have eq: "pg_batch_get_symbol_ids_for_chunks p ids pg = dedup_on fst {} (concat (map (symbol_rows_for_chunk ?D) (sort_key cr_ID ?cs)))"
    unfolding pg_batch_get_symbol_ids_for_chunks_def conj_assoc [symmetric] pg_chunks_where [OF inv]
    by (simp only: conj_assoc pg_symbol_rows [OF inv] cong: map_cong)
  define v where "v = (if lookup_symbol_for_chunk (sqlite_store ?none (\<lambda>_. None) now ?D) i = 0 then None
     else Some (lookup_symbol_for_chunk (sqlite_store ?none (\<lambda>_. None) now ?D) i))"
  have "map_of (concat (map (symbol_rows_for_chunk ?D) (sort_key cr_ID ?cs))) i = v"
  proof (rule map_of_concat)
    fix ys assume "ys \<in> set (map (symbol_rows_for_chunk ?D) (sort_key cr_ID ?cs))"
    then obtain c where c: "ys = symbol_rows_for_chunk ?D c" "c \<in> set (db_chunks ?D)" "cr_SymbolName c \<noteq> []" by auto
    show "map_of ys i = None \<or> map_of ys i = v"
    proof (cases "cr_ID c = i")
      case True
      with symbol_rows_first [OF D c(2,3), of ?none "\<lambda>_. None" now] c(1) show ?thesis by (simp add: v_def)
    next
      case False
      then have "map_of ys i = None" using c(1) symbol_rows_keys [of _ ?D c] by (auto simp: map_of_eq_None_iff)
      then show ?thesis ..
    qed
  next
    assume "v \<noteq> None"
    then have "lookup_symbol_for_chunk (sqlite_store ?none (\<lambda>_. None) now ?D) i \<noteq> 0" by (auto simp: v_def split: if_splits)
    then obtain c where c: "c \<in> set (db_chunks ?D)" "cr_ID c = i" "cr_SymbolName c \<noteq> []"
      by (auto simp: lookup_symbol_for_chunk_def sqlite_store_def get_chunk_by_id_def chunk_record.truncate_def
          split: option.splits if_splits dest!: find_Some_set)
    with i have "symbol_rows_for_chunk ?D c \<in> set (map (symbol_rows_for_chunk ?D) (sort_key cr_ID ?cs))" by auto
    moreover have "map_of (symbol_rows_for_chunk ?D c) i = v"
      using symbol_rows_first [OF D c(1,3), of ?none "\<lambda>_. None" now] c(2) by (simp add: v_def)
    ultimately show "\<exists>ys \<in> set (map (symbol_rows_for_chunk ?D) (sort_key cr_ID ?cs)). map_of ys i = v" by blast
  qed
  then show ?thesis
    unfolding eq map_of_dedup v_def pg_lookup_for_chunk [OF inv, of ts instant now p i ?none "\<lambda>_. None"] by simp
qed

interpretation pgg: batch_graph "pg_store ts instant now p" "pg_batch p" pg_inv for ts instant now p
proof (unfold_locales, goal_cases)
  case (1 pg ids)
  have "fst ` set (concat (map (pg_symbol_rows_for_chunk p pg)
       (sort_key cr_ID (filter (\<lambda>c. cr_ID c \<in> set ids \<and> cr_SymbolName c \<noteq> [] \<and> file_in p pg (cr_FileID c)) (db_chunks (pg_sql pg))))))
     \<subseteq> set ids"
    by (auto simp: pg_symbol_rows_for_chunk_def)
  then have "fst ` set (pg_batch_get_symbol_ids_for_chunks p ids pg) \<subseteq> set ids"
    unfolding pg_batch_get_symbol_ids_for_chunks_def by (rule order_trans [OF image_mono [OF dedup_on_subset]])
  moreover have "distinct (map fst (pg_batch_get_symbol_ids_for_chunks p ids pg))"
    unfolding pg_batch_get_symbol_ids_for_chunks_def by (rule distinct_dedup_on)
  ultimately show ?case
    using pg_batch_symbol_ids [OF 1, of _ ids p ts instant now] by (simp add: pg_batch_def)
next
  case (2 pg syms d)
  have both: "\<exists>ns. pg_neighbors s d ''both'' pg = Inr ns" for s by (simp add: pg_neighbors_def Let_def)
  define g where "g = (\<lambda>s. case pg_neighbors s d ''both'' pg of Inr ns \<Rightarrow> ns | Inl _ \<Rightarrow> [])"
  have g: "pg_neighbors s d ''both'' pg = Inr (g s)" for s using both [of s] by (auto simp: g_def)
  have "pg_batch_neighbors syms d pg = fold (\<lambda>i. AList.update i (g i)) syms []"
    by (simp add: pg_batch_neighbors_def g)
  then show ?case by (simp add: pg_batch_def pg_store_def g map_of_fold_neighbors)
next
  case (3 pg syms)
  let ?kvs = "map (\<lambda>s. (sy_ID s, sy_ChunkID s)) (filter (\<lambda>s. sy_ID s \<in> set syms) (db_symbols (project_db p pg)))"
  have eq: "pg_batch_get_chunk_ids_for_symbols p syms pg = fold (\<lambda>(k, v). AList.update k v) ?kvs []"
    by (simp only: pg_batch_get_chunk_ids_for_symbols_def pg_symbols_where [OF 3])
  have "map_of (fold (\<lambda>(k, v). AList.update k v) ?kvs []) s = map_option sy_ChunkID (get_symbol_by_id s (project_db p pg))"
    if s: "s \<in> set syms" for s
  proof (cases "get_symbol_by_id s (project_db p pg)")
    case None
    then have "\<forall>y \<in> set (db_symbols (project_db p pg)). sy_ID y \<noteq> s" unfolding get_symbol_by_id_def find_None_set by blast
    with map_of_fold_update [of ?kvs "[]" s] have "map_of (fold (\<lambda>(k, v). AList.update k v) ?kvs []) s = None"
      by (cases "map_of (fold (\<lambda>(k, v). AList.update k v) ?kvs []) s") auto
    with None show ?thesis by simp
  next
    case (Some y)
    then have y: "y \<in> set (db_symbols (project_db p pg))" "sy_ID y = s" unfolding get_symbol_by_id_def by (auto dest: find_Some_set)
    with s have "s \<in> fst ` set ?kvs" by force
    from dom_fold_update [OF this, of "[]"] obtain v where v: "map_of (fold (\<lambda>(k, v). AList.update k v) ?kvs []) s = Some v" by auto
    with map_of_fold_update [OF v] obtain z where z: "z \<in> set (db_symbols (project_db p pg))" "sy_ID z = s" "v = sy_ChunkID z" by auto
    then have "z = y" using y symbol_find [OF project_db_inv [OF 3], of s p y] symbol_find [OF project_db_inv [OF 3], of s p z] by simp
    with v z(3) Some show ?thesis by simp
  qed
  then show ?case
    by (simp add: pg_batch_def pg_store_def eq pg_lookups [OF 3] split: option.split)
next
  case (4 pg s y)
  then have "ms_GetSymbolByID (sqlite_store (\<lambda>_ _. []) (\<lambda>_. None) now (project_db p pg)) s = Inr (Some y)"
    by (simp add: pg_store_def sqlite_store_def pg_lookups)
  then show ?case by (rule sqg.chunk_nonzero [OF project_db_inv [OF 4(1)]])
qed

text \<open>On Postgres as on SQLite the engine's batched paths give what its item-by-item paths give: hydration of
  keyword hits and structural scores do not depend on which of the two the store offers.\<close>

theorem pg_batch_matches_legacy:
  assumes "pg_inv pg"
  shows "hydrate_fts_results_batch (pg_batch p pg) hits f = hydrate_fts_results_legacy (pg_store ts instant now p pg) hits f
    \<and> compute_structural_scores_batch (pg_batch p pg) cands = compute_structural_scores_legacy (pg_store ts instant now p pg) cands"
  using pgh.batch_eq_legacy [OF assms] pgg.structural_batch_eq_legacy [OF assms] by blast

theorem pg_batch_matches_legacy_witness:
  "hydrate_fts_results_batch (pg_batch 1 sample_pg) [\<lparr>ft_ChunkID = 1, ft_Rank = -1\<rparr>] (scope_to_filter ''all'')
     = hydrate_fts_results_legacy (pg_store (\<lambda>_ _ _. None) (\<lambda>_. 0) 0 1 sample_pg) [\<lparr>ft_ChunkID = 1, ft_Rank = -1\<rparr>] (scope_to_filter ''all'')"
  using pg_batch_matches_legacy [OF sample_pg_ok] by blast

section \<open>Embedding flags\<close>

interpretation pgo: chunk_ops pg_chunk_ops "\<lambda>db. True" chunk_views file_statuses
proof (unfold_locales, goal_cases)
  case (1 db ids b)
  show ?case by (simp add: pg_set_embedded_def chunk_views_flag_update) (simp add: file_statuses_def update_chunks_def)
next
  case (2 db ids)
  show ?case unfolding pg_ops pg_affected_files_def in_chunk_views by auto
next
  case (3 db fid)
  show ?case by (simp add: pg_count_remaining_def flags_of_chunk_views filter_map comp_def)
next
  case (4 db fid)
  show ?case by (simp add: pg_count_embedded_def flags_of_chunk_views filter_map comp_def)
next
  case (5 db st fid keep)
  then have valid: "embedding_status_valid st" by (auto simp: embedding_status_valid_def)
  then have "pg_set_file_status fid st keep db = sq_set_file_status fid st keep db"
    by (simp add: pg_set_file_status_def sq_set_file_status_def Let_def)
  with sq_set_file_status_ok [OF valid, of fid keep db] show ?case by simp
qed

text \<open>On Postgres marking and resetting embedded chunks always succeeds, sets exactly the named flags and
  leaves every file with chunks, whichever project it belongs to, with the status its chunks imply.\<close>

theorem pg_embedding_flags_exact:
  assumes "status_exact (chunk_views (pg_sql pg)) (file_statuses (pg_sql pg))"
  shows "(\<exists>pg'. pg_mark_chunks_embedded ids pg = (Inr (), pg')
      \<and> chunk_views (pg_sql pg') = set_flags (set ids) True (chunk_views (pg_sql pg))
      \<and> status_exact (chunk_views (pg_sql pg')) (file_statuses (pg_sql pg')))
    \<and> (\<exists>pg'. pg_reset_embedded_flags ids pg = (Inr (), pg')
      \<and> chunk_views (pg_sql pg') = set_flags (set ids) False (chunk_views (pg_sql pg))
      \<and> status_exact (chunk_views (pg_sql pg')) (file_statuses (pg_sql pg')))"
  using pgo.mark_embedded_ok [OF TrueI assms, of ids] pgo.reset_embedded_ok [OF TrueI assms, of ids]
  by (auto simp: pg_mark_chunks_embedded_def pg_reset_embedded_flags_def pg_run_def with_write_tx_def)

theorem pg_embedding_flags_exact_witness:
  "\<exists>pg'. pg_mark_chunks_embedded [1, 3] sample_pg = (Inr (), pg')
     \<and> chunk_views (pg_sql pg') = [(1, 1, True), (2, 1, False), (3, 2, True), (4, 3, False)]"
proof -
  have "status_exact (chunk_views (pg_sql sample_pg)) (file_statuses (pg_sql sample_pg))"
    by (auto simp: status_exact_def chunk_views_def file_statuses_def flags_of_def status_of_flags_def sample_pg_def sample_defs split: if_splits)
  moreover have "set_flags (set [1, 3]) True (chunk_views (pg_sql sample_pg)) = [(1, 1, True), (2, 1, False), (3, 2, True), (4, 3, False)]"
    by (simp add: chunk_views_def sample_pg_def sample_defs set_flags_def)
  ultimately show ?thesis using pg_embedding_flags_exact [of sample_pg "[1, 3]"] by metis
qed

end
