(* ===== verification/Pg_Projects.thy ===== *)
theory Pg_Projects
  imports Pg_Store
begin

text \<open>
  The registry of projects (\<open>EnsureProject\<close>) and the full-text queries (\<open>buildTSQuery\<close>) of the Postgres
  store. A root directory is registered once and keeps its number; the row that the migrations
  seed as a placeholder becomes the first project.
\<close>

section \<open>The registry\<close>

definition projects_ok :: "pg_db \<Rightarrow> bool" where
  "projects_ok pg \<longleftrightarrow>
     distinct (map fst (pg_projects pg)) \<and> distinct (map (\<lambda>(i, dir, nm). dir) (pg_projects pg))
   \<and> (\<forall>(i, dir, nm) \<in> set (pg_projects pg). i \<le> pg_projects_seq pg)
   \<and> (\<forall>(i, dir, nm) \<in> set (pg_projects pg). dir = ''__default__'' \<longrightarrow> i = 1 \<and> length (pg_projects pg) = 1)"

lemma unique_root:
  "distinct (map (\<lambda>(i, dir, nm). dir) ps) \<Longrightarrow> (i, dir, nm) \<in> set ps \<Longrightarrow>
   find (\<lambda>(i, r, nm). r = dir) ps = Some (i, dir, nm)"
proof (induction ps)
  case (Cons p ps)
  obtain j r m where p: "p = (j, r, m)" by (cases p)
  show ?case
  proof (cases "r = dir")
    case True
    with Cons.prems p have "(i, dir, nm) \<notin> set ps" by force
    with Cons.prems True p show ?thesis by auto
  next
    case False
    with Cons p show ?thesis by auto
  qed
qed simp

lemma claim_done:
  assumes "\<forall>(i, r, nm) \<in> set (pg_projects pg). r \<noteq> ''__default__''"
  shows "claim_default dir nm pg = (Inr (), pg)"
proof -
  have "map (\<lambda>(i, r, n). if i = 1 \<and> r = ''__default__'' then (i, dir, nm) else (i, r, n)) (pg_projects pg) = pg_projects pg"
    using assms by (intro map_idI) auto
  with assms show ?thesis by (auto simp: claim_default_def Let_def list_ex_iff)
qed

text \<open>Registering a project always succeeds. The root gets a number under which it is listed, no other
  root has that number, every project registered before keeps its number, and registering the
  same root again, under any name, gives the same number and changes nothing.\<close>

theorem ensure_project_stable:
  assumes ok: "projects_ok pg" and dir: "dir \<noteq> ''__default__''"
  shows "\<exists>i pg'. ensure_project_row dir nm pg = (Inr i, pg') \<and> projects_ok pg'
    \<and> (\<exists>n. (i, dir, n) \<in> set (pg_projects pg'))
    \<and> (\<forall>r n. (i, r, n) \<in> set (pg_projects pg') \<longrightarrow> r = dir)
    \<and> (\<forall>(j, r, n) \<in> set (pg_projects pg). r \<noteq> ''__default__'' \<longrightarrow> (j, r, n) \<in> set (pg_projects pg'))
    \<and> ensure_project_row dir nm2 pg' = (Inr i, pg')"
proof -
  have again: "ensure_project_row dir nm2 pg' = (Inr i, pg')"
    if "projects_ok pg'" "(i, dir, n) \<in> set (pg_projects pg')" "\<forall>(i, r, nm) \<in> set (pg_projects pg'). r \<noteq> ''__default__''" for i n pg'
    using that unique_root [of "pg_projects pg'" i dir n] by (simp add: ensure_project_row_def claim_done projects_ok_def)
  have same_id: "r = dir" if "projects_ok pg'" "(i, dir, n) \<in> set (pg_projects pg')" "(i, r, m) \<in> set (pg_projects pg')" for i n r m pg'
  proof -
    from that have "distinct (map fst (pg_projects pg'))" by (simp add: projects_ok_def)
    with that(2,3) show ?thesis by (auto dest: eq_key_imp_eq_value)
  qed
  have finish: ?thesis
    if run: "ensure_project_row dir nm pg = (Inr i, pg')" and ok': "projects_ok pg'" and mem: "(i, dir, n) \<in> set (pg_projects pg')"
      and keep: "\<forall>(j, r, n) \<in> set (pg_projects pg). r \<noteq> ''__default__'' \<longrightarrow> (j, r, n) \<in> set (pg_projects pg')"
      and named: "\<forall>(i, r, nm) \<in> set (pg_projects pg'). r \<noteq> ''__default__''" for i n pg'
    using run ok' mem keep again [OF ok' mem named] same_id [OF ok' mem] by blast
  show ?thesis
  proof (cases "\<forall>(i, r, nm) \<in> set (pg_projects pg). r \<noteq> ''__default__''")
    case True
    note claimed = claim_done [OF True]
    show ?thesis
    proof (cases "find (\<lambda>(i, r, nm). r = dir) (pg_projects pg)")
      case None
      let ?pg' = "pg\<lparr>pg_projects := pg_projects pg @ [(pg_projects_seq pg + 1, dir, nm)], pg_projects_seq := pg_projects_seq pg + 1\<rparr>"
      have "projects_ok ?pg'"
        using ok None True dir by (fastforce simp: projects_ok_def find_None_set)
      with True dir show ?thesis
        by (intro finish [of "pg_projects_seq pg + 1" ?pg' nm]) (auto simp: ensure_project_row_def claimed None Let_def)
    next
      case (Some x)
      obtain i r n where x: "x = (i, r, n)" by (cases x)
      with Some have "(i, dir, n) \<in> set (pg_projects pg)" by (auto dest: find_Some_set)
      with ok True Some x show ?thesis
        by (intro finish [of i pg n]) (auto simp: ensure_project_row_def claimed)
    qed
  next
    case False
    then obtain i n where p: "(i, ''__default__'', n) \<in> set (pg_projects pg)" by auto
    with ok have "i = 1" "length (pg_projects pg) = 1" by (auto simp: projects_ok_def)
    with p have ps: "pg_projects pg = [(1, ''__default__'', n)]" by (cases "pg_projects pg") auto
    let ?pg' = "pg\<lparr>pg_projects := [(1, dir, nm)]\<rparr>"
    have "projects_ok ?pg'" using ok dir by (simp add: projects_ok_def ps)
    then show ?thesis
      using dir by (intro finish [of 1 ?pg' nm]) (simp_all add: ensure_project_row_def claim_default_def Let_def ps)
  qed
qed

text \<open>A database fresh from the migrations: two roots are registered, the first takes the seeded row.\<close>

definition fresh_pg :: pg_db where
  "fresh_pg = \<lparr>pg_sql = empty_db\<lparr>db_fts_triggers := False\<rparr>, pg_project = (\<lambda>_. 1),
     pg_projects = [(1, ''__default__'', ''default'')], pg_projects_seq = 2\<rparr>"

theorem ensure_project_stable_witness:
  "projects_ok fresh_pg \<and> (\<exists>i pg'. ensure_project_row ''/a'' ''a'' fresh_pg = (Inr i, pg') \<and> projects_ok pg' \<and> i = 1
     \<and> ensure_project_row ''/a'' ''x'' pg' = (Inr i, pg') \<and> fst (ensure_project_row ''/b'' ''b'' pg') = Inr 3)"
proof -
  have ok: "projects_ok fresh_pg" by (simp add: projects_ok_def fresh_pg_def)
  have run: "ensure_project_row ''/a'' ''a'' fresh_pg = (Inr 1, fresh_pg\<lparr>pg_projects := [(1, ''/a'', ''a'')]\<rparr>)"
    by (simp add: ensure_project_row_def claim_default_def Let_def fresh_pg_def)
  have "fst (ensure_project_row ''/b'' ''b'' (fresh_pg\<lparr>pg_projects := [(1, ''/a'', ''a'')]\<rparr>)) = Inr 3"
    by (simp add: ensure_project_row_def claim_default_def Let_def fresh_pg_def)
  with ensure_project_stable [OF ok, of "''/a''" "''a''" "''x''"] run ok show ?thesis by auto
qed

section \<open>Full-text queries\<close>

text \<open>Whatever the user types, the text handed to \<open>to_tsquery\<close> is a disjunction of quoted words, each
  not empty and free of quotes, operators and white space; a query without a word is not sent.
  A backslash is not removed: \<open>C:\<close> followed by one is sent with the backslash before the closing
  quote.\<close>

theorem build_ts_query_quotes:
  "(\<exists>ws. build_ts_query q = (if ws = [] then [] else join_with '' | '' (map (\<lambda>t. CHR 0x27 # t @ [CHR 0x27]) ws))
      \<and> list_all (\<lambda>w. w \<noteq> [] \<and> list_all (\<lambda>c. \<not> ts_special c \<and> \<not> is_ws c) w) ws)
   \<and> build_ts_query [CHR ''C'', CHR '':'', CHR 0x5C] = [CHR 0x27, CHR ''C'', CHR 0x5C, CHR 0x27]"
proof
  have "list_all (\<lambda>c. \<not> ts_special c \<and> \<not> is_ws c) t" if t: "t \<in> set (ts_terms q)" for t
  proof -
    from t obtain w where w: "w \<in> set (ws_fields q)" "t = trim_ws (filter (\<lambda>c. \<not> ts_special c) w)" by (auto simp: ts_terms_def)
    have "set t \<subseteq> set (filter (\<lambda>c. \<not> ts_special c) w)"
      unfolding w(2) trim_ws_def by (auto dest!: set_dropWhileD)
    with fields_no_ws [OF w(1)] show ?thesis by (auto simp: list_all_iff)
  qed
  moreover have "t \<noteq> []" if "t \<in> set (ts_terms q)" for t using that by (simp add: ts_terms_def)
  ultimately show "\<exists>ws. build_ts_query q = (if ws = [] then [] else join_with '' | '' (map (\<lambda>t. CHR 0x27 # t @ [CHR 0x27]) ws))
      \<and> list_all (\<lambda>w. w \<noteq> [] \<and> list_all (\<lambda>c. \<not> ts_special c \<and> \<not> is_ws c) w) ws"
    by (intro exI [of _ "ts_terms q"]) (simp add: build_ts_query_def list_all_iff)
  show "build_ts_query [CHR ''C'', CHR '':'', CHR 0x5C] = [CHR 0x27, CHR ''C'', CHR 0x5C, CHR 0x27]"
    by (simp add: build_ts_query_def ts_terms_def ts_special_def trim_ws_def is_ws_def ws_fields.simps Let_def)
qed

end
