(* ===== verification/Pg_Vectors.thy ===== *)
theory Pg_Vectors
  imports Pg_Calls Embed_Validate Retrieval
begin

text \<open>
  \<open>internal/vector/pgvector/store.go\<close>: the vectors of all projects in the table \<open>embeddings\<close> beside the other
  tables of the Postgres store (\<open>internal/storage/migrations/postgres/gomigrations.go\<close>): a primary key that
  refers to \<open>chunks\<close> with a cascade, and a column of vectors of a fixed length, in which the server
  stores neither NaN nor infinities. A batch that is sent is a transaction. What an ordered search
  finds is an argument: with an index it need not be all; its contract is a locale, which the exact
  search interprets. Time-outs and connections are left out.
\<close>

section \<open>The table\<close>

record vec_row =
  vw_ChunkID :: int
  vw_Embedding :: vec
  vw_ProjectID :: int

record pg_vectors =
  pv_pg :: pg_db
  pv_rows :: "vec_row list"

record pgvec_store =
  pg_dims :: int
  pg_projectID :: int

definition max_batch_size :: int where "max_batch_size = 100"

definition column_ok :: "int \<Rightarrow> vec \<Rightarrow> bool" where
  "column_ok dims v \<longleftrightarrow> int (length v) = dims \<and> list_all is_finite v"

text \<open>\<open>ValidateDimensions\<close>; the type modifier is read from the catalogue, none if there is no such table.\<close>

definition validate_dimensions :: "int option \<Rightarrow> int \<Rightarrow> err option" where
  "validate_dimensions typmod expected =
     (case typmod of
        None \<Rightarrow> None
      | Some t \<Rightarrow> if t \<noteq> expected then Some (ErrMsg ''pgvector: embeddings table has another dimension'') else None)"

definition new_pgvec_store :: "bool \<Rightarrow> int option \<Rightarrow> int \<Rightarrow> int \<Rightarrow> pgvec_store res" where
  "new_pgvec_store has_pool typmod dims projectID =
     (if \<not> has_pool then Inl (ErrMsg ''pgvector: pool is nil'')
      else case validate_dimensions typmod dims of
        Some e \<Rightarrow> Inl e
      | None \<Rightarrow> Inr \<lparr>pg_dims = dims, pg_projectID = projectID\<rparr>)"

fun is_zero_vector :: "vec \<Rightarrow> bool" where
  "is_zero_vector [] = True"
| "is_zero_vector (f # v) = (if f \<noteq> F32 0 then False else is_zero_vector v)"

text \<open>\<open>INSERT ... ON CONFLICT (chunk_id) DO UPDATE SET embedding = EXCLUDED.embedding\<close>.\<close>

definition upsert_row :: "pgvec_store \<Rightarrow> int \<Rightarrow> vec \<Rightarrow> pg_vectors \<Rightarrow> err option \<times> pg_vectors" where
  "upsert_row st chunkID v s =
     (if \<not> column_ok (pg_dims st) v then (Some constraint_err, s)
      else if chunkID \<in> vw_ChunkID ` set (pv_rows s) then
        (None, s\<lparr>pv_rows := map (\<lambda>r. if vw_ChunkID r = chunkID then r\<lparr>vw_Embedding := v\<rparr> else r) (pv_rows s)\<rparr>)
      else if chunkID \<notin> chunk_ids (pg_sql (pv_pg s)) \<or> pg_projectID st \<notin> fst ` set (pg_projects (pv_pg s)) then (Some constraint_err, s)
      else (None, s\<lparr>pv_rows := pv_rows s @ [\<lparr>vw_ChunkID = chunkID, vw_Embedding = v, vw_ProjectID = pg_projectID st\<rparr>]\<rparr>))"

definition pgvec_upsert :: "pgvec_store \<Rightarrow> int \<Rightarrow> vec \<Rightarrow> pg_vectors \<Rightarrow> err option \<times> pg_vectors" where
  "pgvec_upsert st chunkID v s =
     (if int (length v) \<noteq> pg_dims st then (Some (ErrMsg ''pgvector: vector dim != store dim''), s)
      else if is_zero_vector v then (Some (ErrMsg ''pgvector: zero vector not allowed''), s)
      else upsert_row st chunkID v s)"

text \<open>The statements of one batch, in order.\<close>

fun send_rows :: "pgvec_store \<Rightarrow> (int \<times> vec) list \<Rightarrow> pg_vectors \<Rightarrow> err option \<times> pg_vectors" where
  "send_rows st [] s = (None, s)"
| "send_rows st ((i, v) # rows) s =
     (case upsert_row st i v s of
        (Some e, s1) \<Rightarrow> (Some (ErrWrap ''pgvector upsert batch'' e), s1)
      | (None, s1) \<Rightarrow> send_rows st rows s1)"

text \<open>\<open>xs[start:end]\<close>.\<close>

definition window :: "int \<Rightarrow> int \<Rightarrow> 'a list \<Rightarrow> 'a list" where
  "window lo hi xs = drop (nat lo) (take (nat hi) xs)"

definition send_batch :: "pgvec_store \<Rightarrow> (int \<times> vec) list \<Rightarrow> pg_vectors \<Rightarrow> err option \<times> pg_vectors" where
  "send_batch st items s =
     (let batch = filter (\<lambda>(i, v). \<not> is_zero_vector v) items in
      if batch = [] then (None, s)
      else case send_rows st batch s of (Some e, _) \<Rightarrow> (Some e, s) | (None, s1) \<Rightarrow> (None, s1))"

definition pgvec_upsert_batch :: "pgvec_store \<Rightarrow> int list \<Rightarrow> vec list \<Rightarrow> pg_vectors \<Rightarrow> err option \<times> pg_vectors" where
  "pgvec_upsert_batch st chunkIDs vectors s =
     (case check_batch_lengths (int (length chunkIDs)) (int (length vectors)) of
        Some e \<Rightarrow> (Some (ErrWrap ''pgvector'' e), s)
      | None \<Rightarrow> for_each_batch (int (length chunkIDs)) max_batch_size
          (\<lambda>lo hi. send_batch st (window lo hi (zip chunkIDs vectors))) s)"

definition pgvec_delete :: "int list \<Rightarrow> pg_vectors \<Rightarrow> err option \<times> pg_vectors" where
  "pgvec_delete chunkIDs s =
     for_each_batch (int (length chunkIDs)) max_batch_size
       (\<lambda>lo hi s. (None, s\<lparr>pv_rows := filter (\<lambda>r. vw_ChunkID r \<notin> set (window lo hi chunkIDs)) (pv_rows s)\<rparr>)) s"

definition pgvec_purge_all :: "pgvec_store \<Rightarrow> pg_vectors \<Rightarrow> err option \<times> pg_vectors" where
  "pgvec_purge_all st s = (None, s\<lparr>pv_rows := filter (\<lambda>r. vw_ProjectID r \<noteq> pg_projectID st) (pv_rows s)\<rparr>)"

definition pgvec_has :: "int \<Rightarrow> pg_vectors \<Rightarrow> bool" where
  "pgvec_has chunkID s = list_ex (\<lambda>r. vw_ChunkID r = chunkID) (pv_rows s)"

definition pgvec_count :: "pgvec_store \<Rightarrow> pg_vectors \<Rightarrow> int" where
  "pgvec_count st s = int (length (filter (\<lambda>r. vw_ProjectID r = pg_projectID st) (pv_rows s)))"

text \<open>\<open>scan q p n rows\<close> is the answer to the query for the rows of project \<open>p\<close>, ordered by distance from \<open>q\<close>,
  with the distances, limited to \<open>n\<close>.\<close>

type_synonym vec_scan = "vec \<Rightarrow> int \<Rightarrow> nat \<Rightarrow> vec_row list \<Rightarrow> (vec_row \<times> real) list"

definition pgvec_search :: "vec_scan \<Rightarrow> pgvec_store \<Rightarrow> vec \<Rightarrow> int \<Rightarrow> pg_vectors \<Rightarrow> vector_result list res" where
  "pgvec_search scan st query topK s =
     (if topK \<le> 0 then Inr []
      else if is_zero_vector query then Inr []
      else if \<not> column_ok (pg_dims st) query then Inl (ErrWrap ''pgvector search'' constraint_err)
      else Inr (take (nat topK) (map (\<lambda>(r, d). \<lparr>vr_ChunkID = vw_ChunkID r, vr_Score = 1 - d\<rparr>)
             (scan query (pg_projectID st) (nat (topK * 3)) (pv_rows s)))))"

text \<open>A call of the metadata store: rows of vectors whose chunk is deleted go with it.\<close>

definition with_cascade :: "'a pg_tx \<Rightarrow> pg_vectors \<Rightarrow> 'a res \<times> pg_vectors" where
  "with_cascade m s =
     (case m (pv_pg s) of (r, pg) \<Rightarrow>
        (r, s\<lparr>pv_pg := pg, pv_rows := filter (\<lambda>v. vw_ChunkID v \<in> chunk_ids (pg_sql pg)) (pv_rows s)\<rparr>))"

section \<open>The contract of the search\<close>

lemma take_ok:
  assumes "sorted_wrt P ys" and "distinct (map f ys)" and "list_all Q ys"
  shows "sorted_wrt P (take n ys) \<and> distinct (map f (take n ys)) \<and> list_all Q (take n ys)"
proof -
  have "distinct (take n (map f ys))" using assms(2) by (rule distinct_take)
  moreover have "list_all Q (take n ys)" using assms(3) by (auto simp: list_all_iff dest: in_set_takeD)
  ultimately show ?thesis using assms(1) by (simp add: sorted_wrt_take take_map)
qed

locale vector_scan =
  fixes scan :: vec_scan
  assumes rows: "(r, d) \<in> set (scan q p n rs) \<Longrightarrow> r \<in> set rs \<and> vw_ProjectID r = p"
    and nearest: "sorted (map snd (scan q p n rs))"
    and once: "distinct (map vw_ChunkID rs) \<Longrightarrow> distinct (map (vw_ChunkID \<circ> fst) (scan q p n rs))"
begin

lemma search_ok:
  assumes "pgvec_search scan st q topK s = Inr res" and "distinct (map vw_ChunkID (pv_rows s))"
  shows "int (length res) \<le> max 0 topK \<and> sorted_wrt (\<lambda>a b. vr_Score b \<le> vr_Score a) res \<and> distinct (map vr_ChunkID res)
    \<and> list_all (\<lambda>x. \<exists>r \<in> set (pv_rows s). vw_ChunkID r = vr_ChunkID x \<and> vw_ProjectID r = pg_projectID st) res"
proof (cases "topK \<le> 0 \<or> is_zero_vector q")
  case False
  let ?f = "\<lambda>(r, d). \<lparr>vr_ChunkID = vw_ChunkID r, vr_Score = 1 - d\<rparr>"
  let ?rs = "scan q (pg_projectID st) (nat (topK * 3)) (pv_rows s)"
  have res: "res = take (nat topK) (map ?f ?rs)" using assms(1) False by (auto simp: pgvec_search_def split: if_splits)
  have "sorted_wrt (\<lambda>a b. snd a \<le> snd b) ?rs" using nearest by (simp add: sorted_map)
  then have "sorted_wrt (\<lambda>a b. vr_Score b \<le> vr_Score a) (map ?f ?rs)"
    unfolding sorted_wrt_map by (rule sorted_wrt_mono_rel [rotated]) auto
  moreover have "map vr_ChunkID (map ?f ?rs) = map (vw_ChunkID \<circ> fst) ?rs" by auto
  then have "distinct (map vr_ChunkID (map ?f ?rs))" using once [OF assms(2)] by metis
  moreover have "list_all (\<lambda>x. \<exists>r \<in> set (pv_rows s). vw_ChunkID r = vr_ChunkID x \<and> vw_ProjectID r = pg_projectID st) (map ?f ?rs)"
    using rows by (force simp: list_all_iff)
  moreover have "int (length res) \<le> max 0 topK" using res by simp
  ultimately show ?thesis unfolding res using take_ok by blast
qed (use assms(1) in \<open>auto simp: pgvec_search_def split: if_splits\<close>)

end

text \<open>The search without an index, for a distance of the server.\<close>

definition exact_scan :: "(vec \<Rightarrow> vec \<Rightarrow> real) \<Rightarrow> vec_scan" where
  "exact_scan far q p n rs =
     take n (sort_key snd (map (\<lambda>r. (r, far q (vw_Embedding r))) (filter (\<lambda>r. vw_ProjectID r = p) rs)))"

interpretation exact: vector_scan "exact_scan far"
proof
  fix r d q p n and rs :: "vec_row list"
  show "(r, d) \<in> set (exact_scan far q p n rs) \<Longrightarrow> r \<in> set rs \<and> vw_ProjectID r = p"
    by (auto simp: exact_scan_def dest!: in_set_takeD)
next
  fix q p n and rs :: "vec_row list"
  have "sorted (map snd (sort_key snd (map (\<lambda>r. (r, far q (vw_Embedding r))) (filter (\<lambda>r. vw_ProjectID r = p) rs))))" by simp
  then show "sorted (map snd (exact_scan far q p n rs))" unfolding exact_scan_def by (simp add: sorted_wrt_take flip: take_map)
next
  fix q p n and rs :: "vec_row list"
  let ?xs = "map (\<lambda>r. (r, far q (vw_Embedding r))) (filter (\<lambda>r. vw_ProjectID r = p) rs)"
  assume "distinct (map vw_ChunkID rs)"
  then have "distinct (map (vw_ChunkID \<circ> fst) ?xs)" by (simp add: comp_def distinct_map_filter)
  then have "distinct (map (vw_ChunkID \<circ> fst) (sort_key snd ?xs))"
    using mset_eq_imp_distinct_iff [of "map (vw_ChunkID \<circ> fst) (sort_key snd ?xs)" "map (vw_ChunkID \<circ> fst) ?xs"]
    by (simp only: mset_map mset_sort)
  then show "distinct (map (vw_ChunkID \<circ> fst) (exact_scan far q p n rs))"
    unfolding exact_scan_def by (simp add: distinct_take flip: take_map)
qed

section \<open>Batches\<close>

text \<open>\<open>ForEachBatch\<close> over a list is a recursion on its prefixes.\<close>

function in_batches :: "nat \<Rightarrow> ('a list \<Rightarrow> 's \<Rightarrow> err option \<times> 's) \<Rightarrow> 'a list \<Rightarrow> 's \<Rightarrow> err option \<times> 's" where
  "in_batches n g xs s =
     (if xs = [] \<or> n = 0 then (None, s)
      else case g (take n xs) s of
        (Some e, s1) \<Rightarrow> (Some e, s1)
      | (None, s1) \<Rightarrow> in_batches n g (drop n xs) s1)"
  by pat_completeness auto
termination
  by (relation "measure (\<lambda>(n, g, xs, s). length xs)") auto

declare in_batches.simps [simp del]

lemma each_batch_list:
  assumes "0 < b" and "0 \<le> start"
  shows "each_batch (\<lambda>lo hi. g (window lo hi xs)) (int (length xs)) b start s = in_batches (nat b) g (drop (nat start) xs) s"
  using assms(2)
proof (induction "nat (int (length xs) - start)" arbitrary: start s rule: less_induct)
  case less
  show ?case
  proof (cases "start < int (length xs)")
    case True
    let ?e = "if start + b > int (length xs) then int (length xs) else start + b"
    have w: "window start ?e xs = take (nat b) (drop (nat start) xs)"
      using assms(1) less.prems True by (simp add: window_def drop_take nat_add_distrib)
    have d: "drop (nat b) (drop (nat start) xs) = drop (nat (start + b)) xs"
      using assms(1) less.prems by (simp add: nat_add_distrib add.commute)
    have ne: "drop (nat start) xs \<noteq> []" using True less.prems by simp
    have IH: "each_batch (\<lambda>lo hi. g (window lo hi xs)) (int (length xs)) b (start + b) s1
        = in_batches (nat b) g (drop (nat (start + b)) xs) s1" for s1
      using assms(1) less.prems True by (intro less.hyps) auto
    show ?thesis
      unfolding each_batch.simps [of _ _ _ start] in_batches.simps [of _ _ "drop (nat start) xs"] Let_def w d IH
      using True assms(1) ne by simp
  next
    case False
    then show ?thesis by (simp add: each_batch.simps [of _ _ _ start] in_batches.simps [of _ _ "[]"])
  qed
qed

lemma for_each_batch_list:
  "for_each_batch (int (length xs)) max_batch_size (\<lambda>lo hi. g (window lo hi xs)) s = in_batches 100 g xs s"
proof (cases "xs = []")
  case False
  then show ?thesis using each_batch_list [of max_batch_size 0 g xs s] by (simp add: for_each_batch_def max_batch_size_def)
qed (simp add: for_each_batch_def in_batches.simps)

lemma in_batches_None: "(\<And>ys t. fst (g ys t) = None) \<Longrightarrow> fst (in_batches n g xs s) = None"
proof (induction n g xs s rule: in_batches.induct)
  case (1 n g xs s)
  then show ?case using 1(2) [of "take n xs" s] by (cases "g (take n xs) s") (auto simp: in_batches.simps [of n g xs s] split: option.splits dest: sym)
qed

text \<open>The batches before the first failure take effect.\<close>

lemma in_batches_fold:
  assumes "in_batches n g xs s = (r, s')" and "0 < n" and "\<And>ys t e t'. g ys t = (Some e, t') \<Longrightarrow> t' = t"
    and "\<And>ys t t'. g ys t = (None, t') \<Longrightarrow> t' = f ys t" and "\<And>ys zs t. f (ys @ zs) t = f zs (f ys t)" and "\<And>t. f [] t = t"
  shows "(r = None \<longrightarrow> s' = f xs s) \<and> (r \<noteq> None \<longrightarrow> (\<exists>k. n * k < length xs \<and> s' = f (take (n * k) xs) s))"
  using assms(1)
proof (induction "length xs" arbitrary: xs s rule: less_induct)
  case less
  show ?case
  proof (cases "xs = []")
    case True
    with less.prems show ?thesis by (simp add: in_batches.simps assms(6))
  next
    case False
    show ?thesis
    proof (cases "fst (g (take n xs) s)")
      case (Some e)
      then obtain t where g: "g (take n xs) s = (Some e, t)" by (cases "g (take n xs) s") auto
      with less.prems False assms(2) have "r = Some e" "s' = t" by (auto simp: in_batches.simps [of _ _ xs])
      with assms(3) [OF g] False show ?thesis by (intro conjI impI exI [of _ 0]) (simp_all add: assms(6))
    next
      case None
      then obtain t where g: "g (take n xs) s = (None, t)" by (cases "g (take n xs) s") auto
      with less.prems False assms(2) have run: "in_batches n g (drop n xs) t = (r, s')" by (simp add: in_batches.simps [of _ _ xs])
      have t: "t = f (take n xs) s" using assms(4) [OF g] .
      have step: "f ys t = f (take n xs @ ys) s" for ys unfolding t assms(5) ..
      have "length (drop n xs) < length xs" using False assms(2) by simp
      from less.hyps [OF this run] consider "r = None" "s' = f (take n xs @ drop n xs) s"
        | k where "r \<noteq> None" "n * k < length (drop n xs)" "s' = f (take n xs @ take (n * k) (drop n xs)) s"
        unfolding step by auto
      then show ?thesis
      proof cases
        case 2
        then have "n * Suc k < length xs" "s' = f (take (n * Suc k) xs) s" by (simp_all add: take_add)
        with 2(1) show ?thesis by blast
      qed simp
    qed
  qed
qed

section \<open>What the operations do\<close>

text \<open>The vector of a chunk.\<close>

definition vector_of :: "pg_vectors \<Rightarrow> int \<rightharpoonup> vec" where
  "vector_of s = map_of (map (\<lambda>r. (vw_ChunkID r, vw_Embedding r)) (pv_rows s))"

lemma vector_of_Nil [simp]: "pv_rows s = [] \<Longrightarrow> vector_of s = Map.empty"
  by (simp add: vector_of_def)

lemma vector_of_dom: "dom (vector_of s) = vw_ChunkID ` set (pv_rows s)"
  by (simp add: vector_of_def dom_map_of_conv_image_fst image_image)

lemma pgvec_has_iff: "pgvec_has i s \<longleftrightarrow> vector_of s i \<noteq> None"
  by (force simp: pgvec_has_def list_ex_iff vector_of_def map_of_eq_None_iff)

lemma map_of_replace:
  "map_of (map (\<lambda>r. (vw_ChunkID r, vw_Embedding r)) (map (\<lambda>r. if vw_ChunkID r = i then r\<lparr>vw_Embedding := v\<rparr> else r) rs))
     = (if i \<in> vw_ChunkID ` set rs then (map_of (map (\<lambda>r. (vw_ChunkID r, vw_Embedding r)) rs))(i \<mapsto> v)
        else map_of (map (\<lambda>r. (vw_ChunkID r, vw_Embedding r)) rs))"
  by (induction rs) (auto simp: fun_eq_iff)

text \<open>An accepted insertion, without its checks.\<close>

definition put_row :: "pgvec_store \<Rightarrow> int \<times> vec \<Rightarrow> pg_vectors \<Rightarrow> pg_vectors" where
  "put_row st = (\<lambda>(i, v) s. s\<lparr>pv_rows :=
     if i \<in> vw_ChunkID ` set (pv_rows s) then map (\<lambda>r. if vw_ChunkID r = i then r\<lparr>vw_Embedding := v\<rparr> else r) (pv_rows s)
     else pv_rows s @ [\<lparr>vw_ChunkID = i, vw_Embedding = v, vw_ProjectID = pg_projectID st\<rparr>]\<rparr>)"

lemma upsert_row_ok: "upsert_row st i v s = (None, s') \<Longrightarrow> s' = put_row st (i, v) s"
  by (auto simp: upsert_row_def put_row_def split: if_splits)

lemma upsert_row_error: "upsert_row st i v s = (Some e, s') \<Longrightarrow> s' = s"
  by (auto simp: upsert_row_def split: if_splits)

lemma vector_of_put: "vector_of (put_row st (i, v) s) = (vector_of s)(i \<mapsto> v)"
proof (cases "i \<in> vw_ChunkID ` set (pv_rows s)")
  case True
  then show ?thesis by (simp add: vector_of_def put_row_def map_of_replace del: map_map)
next
  case False
  then have "vector_of s i = None" using vector_of_dom [of s] by blast
  with False show ?thesis
    by (auto simp: vector_of_def put_row_def map_add_def fun_eq_iff split: option.splits)
qed

lemma send_rows_ok: "send_rows st rows s = (None, s') \<Longrightarrow> s' = fold (put_row st) rows s"
  by (induction st rows s rule: send_rows.induct) (auto dest: upsert_row_ok split: prod.splits option.splits)

definition usable :: "int \<times> vec \<Rightarrow> bool" where
  "usable = (\<lambda>(i, v). \<not> is_zero_vector v)"

lemma usable_fold [simp]: "filter (\<lambda>(i, v). \<not> is_zero_vector v) xs = filter usable xs"
  by (simp add: usable_def)

lemma send_batch_ok: "send_batch st items s = (None, s') \<Longrightarrow> s' = fold (put_row st) (filter usable items) s"
  by (auto simp: send_batch_def Let_def dest: send_rows_ok split: if_splits option.splits prod.splits)

lemma send_batch_error: "send_batch st items s = (Some e, s') \<Longrightarrow> s' = s"
  by (auto simp: send_batch_def Let_def split: if_splits option.splits prod.splits)

lemma vector_of_puts: "vector_of (fold (put_row st) rows s) = vector_of s ++ map_of (rev rows)"
proof (induction rows arbitrary: s)
  case (Cons iv rows)
  then show ?case by (cases iv) (auto simp: vector_of_put map_add_def fun_eq_iff split: option.splits)
qed simp

lemma put_row_keeps:
  assumes "i \<in> set ids"
  shows "pv_pg (put_row st (i, v) t) = pv_pg t
    \<and> filter (\<lambda>x. vw_ProjectID x \<noteq> pg_projectID st \<and> vw_ChunkID x \<notin> set ids) (pv_rows (put_row st (i, v) t))
        = filter (\<lambda>x. vw_ProjectID x \<noteq> pg_projectID st \<and> vw_ChunkID x \<notin> set ids) (pv_rows t)
    \<and> (\<lambda>x. (vw_ChunkID x, vw_ProjectID x)) ` set (pv_rows t) \<subseteq> (\<lambda>x. (vw_ChunkID x, vw_ProjectID x)) ` set (pv_rows (put_row st (i, v) t))"
proof -
  have f: "filter (\<lambda>x. vw_ProjectID x \<noteq> pg_projectID st \<and> vw_ChunkID x \<notin> set ids)
        (map (\<lambda>r. if vw_ChunkID r = i then r\<lparr>vw_Embedding := v\<rparr> else r) rs)
      = filter (\<lambda>x. vw_ProjectID x \<noteq> pg_projectID st \<and> vw_ChunkID x \<notin> set ids) rs" for rs
    using assms by (induction rs) auto
  have g: "(\<lambda>x. (vw_ChunkID x, vw_ProjectID x)) ` set (map (\<lambda>r. if vw_ChunkID r = i then r\<lparr>vw_Embedding := v\<rparr> else r) rs)
      = (\<lambda>x. (vw_ChunkID x, vw_ProjectID x)) ` set rs" for rs
    by (induction rs) auto
  show ?thesis using assms by (simp add: put_row_def f g subset_insertI del: set_map)
qed

text \<open>A batch call stores the usable vectors, the last one of a chunk, or with an error those of the first
  whole batches.\<close>

lemma upsert_batch_puts:
  assumes "pgvec_upsert_batch st ids vs s = (r, s')"
  shows "(r = None \<longrightarrow> length ids = length vs \<and> s' = fold (put_row st) (filter usable (zip ids vs)) s)
    \<and> (r \<noteq> None \<longrightarrow> (\<exists>k. s' = fold (put_row st) (filter usable (take (100 * k) (zip ids vs))) s))"
proof (cases "length ids = length vs")
  case True
  then have "in_batches 100 (send_batch st) (zip ids vs) s = (r, s')"
    using assms for_each_batch_list [of "zip ids vs" "send_batch st" s]
    by (simp add: pgvec_upsert_batch_def check_batch_lengths_def)
  from in_batches_fold [OF this, of "\<lambda>xs. fold (put_row st) (filter usable xs)"] True show ?thesis
    by (auto dest: send_batch_ok send_batch_error)
next
  case False
  with assms show ?thesis
    by (auto simp: pgvec_upsert_batch_def check_batch_lengths_def intro: exI [of _ 0])
qed

lemma vector_of_filter:
  "map_of (map (\<lambda>r. (vw_ChunkID r, vw_Embedding r)) (filter (\<lambda>r. vw_ChunkID r \<notin> A) rs))
     = map_of (map (\<lambda>r. (vw_ChunkID r, vw_Embedding r)) rs) |` (- A)"
  by (induction rs) (auto simp: restrict_map_def fun_eq_iff)

lemma delete_rows: "pgvec_delete ids s = (r, s') \<Longrightarrow> r = None \<and> s' = s\<lparr>pv_rows := filter (\<lambda>x. vw_ChunkID x \<notin> set ids) (pv_rows s)\<rparr>"
proof -
  assume run: "pgvec_delete ids s = (r, s')"
  let ?f = "\<lambda>ids s. s\<lparr>pv_rows := filter (\<lambda>x. vw_ChunkID x \<notin> set ids) (pv_rows s)\<rparr>"
  have loop: "in_batches 100 (\<lambda>b s. (None, ?f b s)) ids s = (r, s')"
    using run for_each_batch_list [of ids "\<lambda>b s. (None, ?f b s)" s] by (simp add: pgvec_delete_def)
  have "fst (in_batches 100 (\<lambda>b s. (None, ?f b s)) ids s) = None" by (rule in_batches_None) simp
  with loop have "r = None" by simp
  moreover have "?f (ys @ zs) t = ?f zs (?f ys t)" for ys zs t by (simp add: conj_commute)
  ultimately show ?thesis using in_batches_fold [OF loop, of ?f] by simp
qed

section \<open>Every reachable state\<close>

definition vec_inv :: "int \<Rightarrow> pg_vectors \<Rightarrow> bool" where
  "vec_inv dims s \<longleftrightarrow> distinct (map vw_ChunkID (pv_rows s))
     \<and> list_all (\<lambda>r. vw_ChunkID r \<in> chunk_ids (pg_sql (pv_pg s)) \<and> vw_ProjectID r \<in> fst ` set (pg_projects (pv_pg s))
         \<and> column_ok dims (vw_Embedding r) \<and> \<not> is_zero_vector (vw_Embedding r)) (pv_rows s)"

text \<open>The chunk belongs to a file of the store's project.\<close>

definition chunk_of :: "pgvec_store \<Rightarrow> pg_vectors \<Rightarrow> int \<Rightarrow> bool" where
  "chunk_of st s i \<longleftrightarrow> chunk_local (pg_project (pv_pg s)) (pg_projectID st) (pg_sql (pv_pg s)) i"

text \<open>Every row carries the project of its chunk.\<close>

definition labels_ok :: "pg_vectors \<Rightarrow> bool" where
  "labels_ok s \<longleftrightarrow> (\<forall>r \<in> set (pv_rows s).
     chunk_local (pg_project (pv_pg s)) (vw_ProjectID r) (pg_sql (pv_pg s)) (vw_ChunkID r))"

text \<open>What daemons of several projects do to the shared database: calls of the metadata store and of the
  vector store, in any order and with any arguments. The flag says whether every call so far was local: the
  database was sound at the start, the metadata calls were \<open>call_local\<close>, and vectors were stored
  only for chunks of the caller's project.\<close>

inductive vec_reachable :: "int \<Rightarrow> bool \<Rightarrow> pg_vectors \<Rightarrow> bool" for dims where
  start: "pv_rows s = [] \<Longrightarrow> vec_reachable dims (pg_inv (pv_pg s)) s"
| meta: "vec_reachable dims l s \<Longrightarrow>
    vec_reachable dims (l \<and> call_local p call (pv_pg s)) (snd (with_cascade (pg_exec p call) s))"
| upsert: "vec_reachable dims l s \<Longrightarrow> pg_dims st = dims \<Longrightarrow> vec_reachable dims (l \<and> chunk_of st s i) (snd (pgvec_upsert st i v s))"
| upsert_batch: "vec_reachable dims l s \<Longrightarrow> pg_dims st = dims \<Longrightarrow>
    vec_reachable dims (l \<and> list_all (chunk_of st s) ids) (snd (pgvec_upsert_batch st ids vs s))"
| delete: "vec_reachable dims l s \<Longrightarrow> vec_reachable dims l (snd (pgvec_delete ids s))"
| purge_all: "vec_reachable dims l s \<Longrightarrow> vec_reachable dims l (snd (pgvec_purge_all st s))"

lemma pg_run_projects [simp]: "pg_projects (snd (pg_run m pg)) = pg_projects pg"
  by (cases "m (pg_sql pg)") (simp add: pg_run_def)

lemma pg_ans_snd [simp]: "snd (pg_ans f rp) = snd rp"
  by (cases rp) (simp add: pg_ans_def split: sum.split)

lemma pg_with_write_tx_projects:
  "(\<And>pg. pg_projects (snd (fn pg)) = pg_projects pg) \<Longrightarrow> pg_projects (snd (pg_with_write_tx fn pg)) = pg_projects pg"
  by (simp add: pg_with_write_tx_def split: prod.split sum.split) (metis snd_conv)

lemma pg_exec_projects: "pg_projects (snd (pg_exec p call pg)) = pg_projects pg"
proof (cases call)
  case (CDeleteFileByPath path)
  then show ?thesis by (simp add: pg_delete_file_by_path_def pg_with_write_tx_projects split: option.split)
next
  case CResetAllEmbeddedFlags
  then show ?thesis by (simp add: pg_reset_all_embedded_flags_def Let_def pg_with_write_tx_projects)
qed (simp_all add: pg_upsert_file_def pg_delete_file_def pg_update_chunk_parents_def pg_insert_chunks_def pg_delete_chunks_by_file_def
    pg_insert_symbols_def pg_delete_symbols_by_file_def pg_mark_chunks_embedded_def pg_reset_embedded_flags_def pg_purge_all_def
    pg_set_config_def pg_record_tool_calls_def pg_transaction_def Let_def split: option.split)

lemma vec_inv_filter: "vec_inv dims s \<Longrightarrow> vec_inv dims (s\<lparr>pv_rows := filter P (pv_rows s)\<rparr>)"
  by (auto simp: vec_inv_def list_all_iff distinct_map_filter)

lemma upsert_row_inv:
  assumes "vec_inv (pg_dims st) s" and "upsert_row st i v s = (r, s')" and "\<not> is_zero_vector v"
  shows "vec_inv (pg_dims st) s'"
proof -
  have ids: "map vw_ChunkID (map (\<lambda>r. if vw_ChunkID r = i then r\<lparr>vw_Embedding := v\<rparr> else r) rs) = map vw_ChunkID rs" for rs
    by (induction rs) simp_all
  consider "s' = s" | "column_ok (pg_dims st) v" "s' = s\<lparr>pv_rows := map (\<lambda>r. if vw_ChunkID r = i then r\<lparr>vw_Embedding := v\<rparr> else r) (pv_rows s)\<rparr>"
    | "column_ok (pg_dims st) v" "i \<notin> vw_ChunkID ` set (pv_rows s)" "i \<in> chunk_ids (pg_sql (pv_pg s))"
      "pg_projectID st \<in> fst ` set (pg_projects (pv_pg s))"
      "s' = s\<lparr>pv_rows := pv_rows s @ [\<lparr>vw_ChunkID = i, vw_Embedding = v, vw_ProjectID = pg_projectID st\<rparr>]\<rparr>"
    using assms(2) by (simp add: upsert_row_def split: if_splits)
  then show ?thesis
  proof cases
    case 2
    with assms(1,3) show ?thesis by (auto simp: vec_inv_def ids list_all_iff simp del: map_map)
  next
    case 3
    with assms(1,3) show ?thesis by (simp add: vec_inv_def)
  qed (use assms(1) in simp)
qed

lemma send_rows_inv:
  assumes "send_rows st rows s = (r, s')" and "vec_inv (pg_dims st) s" and "\<forall>iv \<in> set rows. usable iv"
  shows "vec_inv (pg_dims st) s'"
  using assms
  by (induction st rows s rule: send_rows.induct)
    (auto simp: usable_def dest: upsert_row_inv split: prod.splits option.splits)

lemma send_batch_inv: "send_batch st items s = (r, s') \<Longrightarrow> vec_inv (pg_dims st) s \<Longrightarrow> vec_inv (pg_dims st) s'"
  by (auto simp: send_batch_def Let_def dest: send_rows_inv split: if_splits option.splits prod.splits)

lemma in_batches_inv:
  assumes "\<And>ys t r t'. g ys t = (r, t') \<Longrightarrow> I t \<Longrightarrow> I t'" and "I s"
  shows "I (snd (in_batches n g xs s))"
  using assms(2)
proof (induction "length xs" arbitrary: xs s rule: less_induct)
  case less
  show ?case
  proof (cases "xs = [] \<or> n = 0")
    case False
    obtain r t where g: "g (take n xs) s = (r, t)" by (cases "g (take n xs) s")
    with assms(1) less.prems have "I t" by blast
    with less.hyps [of "drop n xs" t] g False show ?thesis by (simp add: in_batches.simps [of _ _ xs] split: option.splits)
  qed (use less.prems in \<open>simp add: in_batches.simps [of n g xs s]\<close>)
qed

lemma upsert_batch_inv: "vec_inv (pg_dims st) s \<Longrightarrow> vec_inv (pg_dims st) (snd (pgvec_upsert_batch st ids vs s))"
  using for_each_batch_list [of "zip ids vs" "send_batch st" s] in_batches_inv [of "send_batch st" "vec_inv (pg_dims st)", OF send_batch_inv]
  by (auto simp: pgvec_upsert_batch_def check_batch_lengths_def)

lemma vec_reachable_inv: "vec_reachable dims l s \<Longrightarrow> vec_inv dims s"
proof (induction rule: vec_reachable.induct)
  case (start s)
  then show ?case by (simp add: vec_inv_def)
next
  case (meta l s p call)
  obtain r pg where run: "pg_exec p call (pv_pg s) = (r, pg)" by (cases "pg_exec p call (pv_pg s)")
  with pg_exec_projects [of p call "pv_pg s"] have "pg_projects pg = pg_projects (pv_pg s)" by simp
  with meta.IH run show ?case by (auto simp: with_cascade_def vec_inv_def list_all_iff distinct_map_filter)
next
  case (upsert l s st i v)
  then show ?case by (cases "upsert_row st i v s") (auto simp: pgvec_upsert_def dest: upsert_row_inv)
next
  case (upsert_batch l s st ids vs)
  then show ?case using upsert_batch_inv by blast
next
  case (delete l s ids)
  then show ?case using delete_rows [of ids s] vec_inv_filter by (cases "pgvec_delete ids s") auto
next
  case (purge_all l s st)
  then show ?case using vec_inv_filter by (simp add: pgvec_purge_all_def)
qed

text \<open>A local call leaves every chunk that it does not delete in its project.\<close>

lemma local_call_chunks:
  assumes inv: "pg_inv pg" and loc: "call_local p call pg" and run: "pg_exec p call pg = (r, pg')"
    and i: "i \<in> chunk_ids (pg_sql pg)" and l: "chunk_local (pg_project pg) q (pg_sql pg) i"
  shows "chunk_local (pg_project pg') q (pg_sql pg') i" and "pg_inv pg'"
proof -
  from isolated_exec [OF inv loc] run have inv': "pg_inv pg'"
    and same: "\<And>w. w \<noteq> p \<Longrightarrow> contents (project_db w pg') = contents (project_db w pg)" unfolding isolated_def by blast+
  show "pg_inv pg'" by (rule inv')
  have rows: "{c \<in> set (db_chunks (pg_sql pg')). pg_project pg' (cr_FileID c) = w} = {c \<in> set (db_chunks (pg_sql pg)). pg_project pg (cr_FileID c) = w}"
    if "w \<noteq> p" for w
    using contents_fields(2) [OF same [OF that]] by (simp add: project_db_def flip: set_filter)
  have d: "distinct (map cr_ID (db_chunks (pg_sql pg)))" "distinct (map cr_ID (db_chunks (pg_sql pg')))"
    using inv inv' by (auto simp: pg_inv_def slices_ok_def ids_ok_def dest: wf_ids_distinct)
  from i obtain c where c: "c \<in> set (db_chunks (pg_sql pg))" "cr_ID c = i" by auto
  with l have cq: "pg_project pg (cr_FileID c) = q" by (simp add: chunk_local_def)
  show "chunk_local (pg_project pg') q (pg_sql pg') i"
    unfolding chunk_local_def
  proof (intro ballI impI)
    fix c' assume c': "c' \<in> set (db_chunks (pg_sql pg'))" "cr_ID c' = i"
    show "pg_project pg' (cr_FileID c') = q"
    proof (cases "q = p")
      case False
      with rows [of q] c(1) cq have "c \<in> set (db_chunks (pg_sql pg'))" "pg_project pg' (cr_FileID c) = q" by auto
      moreover have "c' = c" using d(2) c'(1) calculation(1) c'(2) c(2) by (metis distinct_map inj_onD)
      ultimately show ?thesis by simp
    next
      case True
      show ?thesis
      proof (rule ccontr)
        assume other: "pg_project pg' (cr_FileID c') \<noteq> q"
        with True rows [of "pg_project pg' (cr_FileID c')"] c'(1)
        have "c' \<in> set (db_chunks (pg_sql pg))" "pg_project pg (cr_FileID c') = pg_project pg' (cr_FileID c')" by auto
        moreover have "c' = c" using d(1) c(1) calculation(1) c'(2) c(2) by (metis distinct_map inj_onD)
        ultimately show False using other cq by simp
      qed
    qed
  qed
qed

lemma labels_filter: "labels_ok s \<Longrightarrow> labels_ok (s\<lparr>pv_rows := filter P (pv_rows s)\<rparr>)"
  by (simp add: labels_ok_def)

lemma upsert_row_labels:
  assumes "upsert_row st i v s = (r, s')" and "labels_ok s" and "chunk_of st s i"
  shows "labels_ok s'" and "pv_pg s' = pv_pg s"
  using assms by (auto simp: upsert_row_def labels_ok_def chunk_of_def split: if_splits) metis

lemma upsert_batch_labels:
  assumes "labels_ok s" and "list_all (chunk_of st s) ids"
  shows "labels_ok (snd (pgvec_upsert_batch st ids vs s)) \<and> pv_pg (snd (pgvec_upsert_batch st ids vs s)) = pv_pg s"
proof -
  let ?I = "\<lambda>t. labels_ok t \<and> pv_pg t = pv_pg s"
  have fold: "?I (fold (put_row st) rows t)" if "?I t" "fst ` set rows \<subseteq> set ids" for rows t
    using that
  proof (induction rows arbitrary: t)
    case (Cons iv rows)
    then have "chunk_of st s (fst iv)" using assms(2) by (auto simp: list_all_iff)
    with Cons.prems(1) have "?I (put_row st iv t)" by (cases iv) (auto simp: put_row_def labels_ok_def chunk_of_def)
    with Cons show ?case by simp
  qed simp
  obtain r s' where run: "pgvec_upsert_batch st ids vs s = (r, s')" by (cases "pgvec_upsert_batch st ids vs s")
  have sub: "fst ` set (filter usable (take n (zip ids vs))) \<subseteq> set ids" for n by (auto dest!: in_set_takeD set_zip_leftD)
  from upsert_batch_puts [OF run] consider "s' = fold (put_row st) (filter usable (take (length (zip ids vs)) (zip ids vs))) s"
    | k where "s' = fold (put_row st) (filter usable (take (100 * k) (zip ids vs))) s" by (cases r) auto
  then show ?thesis using fold sub assms(1) unfolding run by cases (metis snd_conv)+
qed

lemma vec_reachable_labels: "vec_reachable dims l s \<Longrightarrow> l \<Longrightarrow> pg_inv (pv_pg s) \<and> labels_ok s"
proof (induction rule: vec_reachable.induct)
  case (start s)
  then show ?case by (simp add: labels_ok_def)
next
  case (meta l s p call)
  obtain r pg where run: "pg_exec p call (pv_pg s) = (r, pg)" by (cases "pg_exec p call (pv_pg s)")
  from meta have inv: "pg_inv (pv_pg s)" "labels_ok s" and loc: "call_local p call (pv_pg s)" by auto
  from vec_reachable_inv [OF meta.hyps] have ids: "\<forall>r \<in> set (pv_rows s). vw_ChunkID r \<in> chunk_ids (pg_sql (pv_pg s))"
    by (auto simp: vec_inv_def list_all_iff)
  from isolated_exec [OF inv(1) loc] run have "pg_inv pg" unfolding isolated_def by blast
  moreover have "chunk_local (pg_project pg) (vw_ProjectID r) (pg_sql pg) (vw_ChunkID r)" if "r \<in> set (pv_rows s)" for r
    using local_call_chunks(1) [OF inv(1) loc run] ids inv(2) that by (simp add: labels_ok_def)
  ultimately show ?case by (simp add: with_cascade_def run labels_ok_def)
next
  case (upsert l s st i v)
  then show ?case by (cases "upsert_row st i v s") (auto simp: pgvec_upsert_def dest: upsert_row_labels)
next
  case (upsert_batch l s st ids vs)
  then show ?case using upsert_batch_labels by auto
next
  case (delete l s ids)
  then show ?case using delete_rows [of ids s] labels_filter by (cases "pgvec_delete ids s") auto
next
  case (purge_all l s st)
  then show ?case using labels_filter by (simp add: pgvec_purge_all_def)
qed

section \<open>The guarantees\<close>

text \<open>A batch call that succeeds stores exactly the vectors that are not zero, of several for a chunk the last one, and
  leaves zero vectors out without an error, where a single call reports one; a call that fails keeps
  whole batches of hundred. It touches no row of another project, unless that row has one of the chunks:
  the conflict is on the chunk alone.\<close>

lemma pgvec_upsert_batch_exact:
  assumes "pgvec_upsert_batch st ids vs s = (r, s')"
  shows "(r = None \<longrightarrow> length ids = length vs \<and> vector_of s' = vector_of s ++ map_of (rev (filter usable (zip ids vs))))
    \<and> (r \<noteq> None \<longrightarrow> (\<exists>k. vector_of s' = vector_of s ++ map_of (rev (filter usable (take (100 * k) (zip ids vs))))))
    \<and> pv_pg s' = pv_pg s
    \<and> filter (\<lambda>x. vw_ProjectID x \<noteq> pg_projectID st \<and> vw_ChunkID x \<notin> set ids) (pv_rows s')
        = filter (\<lambda>x. vw_ProjectID x \<noteq> pg_projectID st \<and> vw_ChunkID x \<notin> set ids) (pv_rows s)
    \<and> (\<forall>x \<in> set (pv_rows s). \<exists>y \<in> set (pv_rows s'). vw_ChunkID y = vw_ChunkID x \<and> vw_ProjectID y = vw_ProjectID x)
    \<and> (is_zero_vector v \<longrightarrow> fst (pgvec_upsert st i v s) \<noteq> None)"
proof -
  obtain rows where rows: "s' = fold (put_row st) rows s" "fst ` set rows \<subseteq> set ids"
  proof -
    have sub: "fst ` set (filter usable (take n (zip ids vs))) \<subseteq> set ids" for n
      by (auto dest!: in_set_takeD set_zip_leftD)
    from upsert_batch_puts [OF assms] consider "s' = fold (put_row st) (filter usable (take (length (zip ids vs)) (zip ids vs))) s"
      | k where "s' = fold (put_row st) (filter usable (take (100 * k) (zip ids vs))) s"
      by (cases r) auto
    then show ?thesis using that sub by cases blast+
  qed
  have keep: "pv_pg (fold (put_row st) rows t) = pv_pg t
     \<and> filter (\<lambda>x. vw_ProjectID x \<noteq> pg_projectID st \<and> vw_ChunkID x \<notin> set ids) (pv_rows (fold (put_row st) rows t))
         = filter (\<lambda>x. vw_ProjectID x \<noteq> pg_projectID st \<and> vw_ChunkID x \<notin> set ids) (pv_rows t)
     \<and> (\<lambda>x. (vw_ChunkID x, vw_ProjectID x)) ` set (pv_rows t) \<subseteq> (\<lambda>x. (vw_ChunkID x, vw_ProjectID x)) ` set (pv_rows (fold (put_row st) rows t))" for t
    using rows(2)
  proof (induction rows arbitrary: t)
    case (Cons iv rows)
    then show ?case using put_row_keeps [of "fst iv" ids st "snd iv" t] by fastforce
  qed simp
  have "\<forall>x \<in> set (pv_rows s). \<exists>y \<in> set (pv_rows s'). vw_ChunkID y = vw_ChunkID x \<and> vw_ProjectID y = vw_ProjectID x"
    using keep [of s] rows(1) by (force simp: image_subset_iff image_iff)
  moreover have "is_zero_vector v \<longrightarrow> fst (pgvec_upsert st i v s) \<noteq> None" by (simp add: pgvec_upsert_def)
  moreover have "r = None \<longrightarrow> length ids = length vs \<and> vector_of s' = vector_of s ++ map_of (rev (filter usable (zip ids vs)))"
    using upsert_batch_puts [OF assms] by (simp add: vector_of_puts)
  moreover have "r \<noteq> None \<longrightarrow> (\<exists>k. vector_of s' = vector_of s ++ map_of (rev (filter usable (take (100 * k) (zip ids vs)))))"
    using upsert_batch_puts [OF assms] by (metis vector_of_puts)
  ultimately show ?thesis using keep [of s] unfolding rows(1) [symmetric] by blast
qed

text \<open>C33. Whatever calls the daemons of several projects make, the table of vectors stays in step with the chunks: at
  most one vector for a chunk, only for chunks that exist, all of the column's length, finite and not zero.
  If every call was local (\<open>call_local\<close> for the metadata, own chunks for the vectors), every row carries
  the project of its chunk. A search, whatever the server's scan finds within its contract (rows of the asked
  project, nearest first, none twice, but not necessarily the nearest there are), answers at most \<open>topK\<close>
  distinct chunks that have a vector, best first, and in the local case only chunks of files of the own
  project.\<close>

theorem pgvec_integrity:
  assumes "vec_reachable dims l s" and "vector_scan scan" and "pgvec_search scan st q topK s = Inr res"
  shows "distinct (map vw_ChunkID (pv_rows s))
    \<and> vw_ChunkID ` set (pv_rows s) \<subseteq> chunk_ids (pg_sql (pv_pg s))
    \<and> list_all (\<lambda>r. column_ok dims (vw_Embedding r) \<and> \<not> is_zero_vector (vw_Embedding r)) (pv_rows s)
    \<and> int (length res) \<le> max 0 topK \<and> sorted_wrt (\<lambda>a b. vr_Score b \<le> vr_Score a) res \<and> distinct (map vr_ChunkID res)
    \<and> list_all (\<lambda>x. pgvec_has (vr_ChunkID x) s) res
    \<and> (l \<longrightarrow> labels_ok s
        \<and> list_all (\<lambda>x. \<exists>c \<in> set (db_chunks (project_db (pg_projectID st) (pv_pg s))). cr_ID c = vr_ChunkID x) res)"
proof -
  have inv: "vec_inv dims s" using assms(1) by (rule vec_reachable_inv)
  then have d: "distinct (map vw_ChunkID (pv_rows s))"
    and ids: "\<forall>r \<in> set (pv_rows s). vw_ChunkID r \<in> chunk_ids (pg_sql (pv_pg s))" by (auto simp: vec_inv_def list_all_iff)
  note found = vector_scan.search_ok [OF assms(2,3) d]
  have own: "\<exists>c \<in> set (db_chunks (project_db (pg_projectID st) (pv_pg s))). cr_ID c = vr_ChunkID x" if "l" "x \<in> set res" for x
  proof -
    from found that(2) obtain r where row: "r \<in> set (pv_rows s)" "vw_ChunkID r = vr_ChunkID x" "vw_ProjectID r = pg_projectID st"
      by (auto simp: list_all_iff)
    from ids row obtain c where "c \<in> set (db_chunks (pg_sql (pv_pg s)))" "cr_ID c = vr_ChunkID x" by force
    moreover have "chunk_local (pg_project (pv_pg s)) (pg_projectID st) (pg_sql (pv_pg s)) (vr_ChunkID x)"
      using vec_reachable_labels [OF assms(1)] that(1) row by (metis labels_ok_def)
    ultimately show ?thesis by (auto simp: chunk_local_def project_db_def)
  qed
  have "list_all (\<lambda>x. pgvec_has (vr_ChunkID x) s) res" using found by (auto simp: list_all_iff pgvec_has_def list_ex_iff)
  with inv d found own vec_reachable_labels [OF assms(1)] show ?thesis by (auto simp: vec_inv_def list_all_iff)
qed

text \<open>Project 1 stores a vector of its chunk 1 and finds it.\<close>

definition sample_vectors :: pg_vectors where
  "sample_vectors = snd (pgvec_upsert \<lparr>pg_dims = 2, pg_projectID = 1\<rparr> 1 [F32 1, F32 0] \<lparr>pv_pg = sample_pg, pv_rows = []\<rparr>)"

theorem pgvec_integrity_witness:
  "vec_reachable 2 True sample_vectors \<and> labels_ok sample_vectors
   \<and> (\<exists>res. pgvec_search (exact_scan (\<lambda>_ _. 0)) \<lparr>pg_dims = 2, pg_projectID = 1\<rparr> [F32 1, F32 0] 5 sample_vectors = Inr res
        \<and> map vr_ChunkID res = [1] \<and> distinct (map vr_ChunkID res))"
proof -
  let ?st = "\<lparr>pg_dims = 2, pg_projectID = 1\<rparr>" and ?s0 = "\<lparr>pv_pg = sample_pg, pv_rows = []\<rparr>"
  have "chunk_of ?st ?s0 1" by (simp add: chunk_of_def chunk_local_def sample_pg_def sample_db_def sample_chunk_row_def)
  moreover have "vec_reachable 2 (pg_inv (pv_pg ?s0) \<and> chunk_of ?st ?s0 1) sample_vectors"
    unfolding sample_vectors_def by (intro upsert start) simp_all
  ultimately have reach: "vec_reachable 2 True sample_vectors" using sample_pg_ok by simp
  have rows: "pv_rows sample_vectors = [\<lparr>vw_ChunkID = 1, vw_Embedding = [F32 1, F32 0], vw_ProjectID = 1\<rparr>]"
    by (simp add: sample_vectors_def pgvec_upsert_def upsert_row_def column_ok_def is_finite_def sample_pg_def sample_db_def sample_chunk_row_def)
  have "pgvec_search (exact_scan (\<lambda>_ _. 0)) ?st [F32 1, F32 0] 5 sample_vectors = Inr [\<lparr>vr_ChunkID = 1, vr_Score = 1\<rparr>]"
    by (simp add: pgvec_search_def rows exact_scan_def column_ok_def is_finite_def)
  with reach pgvec_integrity [OF reach exact.vector_scan_axioms this] show ?thesis by auto
qed

end
