(* ===== verification/Embed_Project.thy ===== *)
theory Embed_Project
  imports Embed_Worker
begin

text \<open>
  How \<open>internal/daemon/daemon.go\<close> keeps the vectors and the embedded flags together: \<open>embedFromDB\<close>,
  \<open>EmbedProject\<close>, \<open>reconcileEmbeddedFlags\<close> and the periodic checkpoints. The world is the embedding
  worker's; the snapshots handed to \<open>SaveToDisk\<close> are recorded. The health check of the embedder is
  an argument.
\<close>

section \<open>A service in good health\<close>

text \<open>Every call is answered with usable vectors of the store's dimension.\<close>

definition healthy_service :: "worker \<Rightarrow> int \<Rightarrow> bool" where
  "healthy_service w d \<longleftrightarrow>
     (\<forall>n texts. \<exists>vs. embed_batch (fst (wk_http w n texts)) texts = Inr vs
        \<and> (\<forall>v \<in> set vs. healthy_vec v \<and> int (length v) = d))"

text \<open>Every chunk recorded as embedded has a vector.\<close>

definition covered :: "sql_db \<Rightarrow> bf_store \<Rightarrow> bool" where
  "covered db s \<longleftrightarrow> (\<forall>(i, f, e) \<in> set (chunk_views db). e \<longrightarrow> bf_has i s = Inr True)"

definition sound_world :: "worker \<Rightarrow> world \<Rightarrow> bool" where
  "sound_world w wd \<longleftrightarrow> store_ok (w_db wd) \<and> bf_inv (w_vecs wd) \<and> cb_state (w_cb wd) = StateClosed
     \<and> healthy_service w (bf_dim (w_vecs wd)) \<and> covered (w_db wd) (w_vecs wd)"

lemma sanitize_all:
  assumes "\<forall>v \<in> set vs. healthy_vec v" and "length ids = length vs"
  shows "\<exists>rej. sanitize_embeddings ids vs 0 = (ids, vs, rej)"
proof -
  have "filter (\<lambda>p. accepted_vec 0 (snd p)) (zip ids vs) = zip ids vs"
    using assms(1) by (auto simp: accepted_vec_def dest: set_zip_rightD intro!: filter_True)
  with sanitize_loop_result [of 0 "zip ids vs" "[]" "[]" no_reject] assms(2)
  have "sanitize_embeddings ids vs 0 = (ids, vs, snd (snd (sanitize_loop 0 (zip ids vs) ([], [], no_reject))))"
    by (simp add: sanitize_embeddings_def)
  then show ?thesis by blast
qed

lemma healthy_attempt:
  assumes "healthy_service w (bf_dim (w_vecs wd))" and "cb_state (w_cb wd) = StateClosed" and "patient w"
  shows "\<exists>vs rs1 wd1. embed_with_retry w texts rs wd = (Inr vs, rs1, wd1) \<and> length vs = length texts
    \<and> (\<forall>v \<in> set vs. healthy_vec v \<and> int (length v) = bf_dim (w_vecs wd))
    \<and> rs_deferred rs1 = rs_deferred rs \<and> w_db wd1 = w_db wd \<and> w_vecs wd1 = w_vecs wd \<and> cb_state (w_cb wd1) = StateClosed"
proof -
  obtain reply d where h: "wk_http w (w_calls wd) texts = (reply, d)" by (cases "wk_http w (w_calls wd) texts")
  from assms(1) obtain vs where vs: "embed_batch reply texts = Inr vs"
    "\<forall>v \<in> set vs. healthy_vec v \<and> int (length v) = bf_dim (w_vecs wd)"
    unfolding healthy_service_def using h by (metis fst_conv)
  have n: "(3::nat) = Suc 2" by simp
  from assms(2,3) vs h embed_batch_length [OF vs(1)] show ?thesis
    unfolding embed_with_retry_def n embed_attempts.simps
    by (simp add: ctx_err_def patient_def breaker_allow_def cb_allow_def call_embedder_def breaker_success_def cb_record_success_def Let_def)
qed

lemma covered_flags:
  assumes "covered db s" and "chunk_views db' = set_flags S True (chunk_views db)"
    and "\<And>i. i \<in> S \<Longrightarrow> bf_has i s' = Inr True" and "\<And>i. bf_has i s = Inr True \<Longrightarrow> bf_has i s' = Inr True"
  shows "covered db' s'"
  using assms by (fastforce simp: covered_def set_flags_def split: if_splits)

lemma mark_and_count_sound:
  assumes "mark_and_count w c batch rs wd = (r, rs', wd')" and "patient w" and "store_ok (w_db wd)"
  shows "r = Inr () \<and> rs_deferred rs' = rs_deferred rs \<and> rs_skipped rs' = rs_skipped rs \<and> w_cb wd' = w_cb wd \<and> w_vecs wd' = w_vecs wd \<and> store_ok (w_db wd')
    \<and> chunk_views (w_db wd') = set_flags (set (map ej_ChunkID batch)) True (chunk_views (w_db wd))"
proof -
  have nctx: "\<not> ctx_err w wd" using assms(2) by (simp add: ctx_err_def patient_def)
  with mark_embedded_db_ok [OF assms(3), of w "map ej_ChunkID batch"] obtain wd1 where
    m: "mark_embedded_db w (map ej_ChunkID batch) wd = (Inr (), wd1)" and wd1: "wd1 = wd\<lparr>w_db := w_db wd1\<rparr>"
      "store_ok (w_db wd1)" "chunk_views (w_db wd1) = set_flags (set (map ej_ChunkID batch)) True (chunk_views (w_db wd))"
    by blast
  have "w_vecs wd1 = w_vecs wd" "w_cb wd1 = w_cb wd" by (subst wd1(1), simp)+
  with m wd1(2,3) assms(1) show ?thesis by (auto simp: mark_and_count_def Let_def report_def)
qed

lemma healthy_slice:
  assumes "sound_world w wd" and p: "patient w" and r: "reconcile_and_embed w batch rs wd = (r, rs', wd')"
  shows "r = Inr () \<and> sound_world w wd' \<and> rs_deferred rs' = rs_deferred rs"
proof -
  note ok = assms(1) [unfolded sound_world_def]
  have nctx: "\<not> ctx_err w wd" using p by (simp add: ctx_err_def patient_def)
  define need where "need = filter (\<lambda>j. bf_has (ej_ChunkID j) (w_vecs wd) \<noteq> Inr True) batch"
  show ?thesis
  proof (cases "need = []")
    case True
    with r nctx have m: "mark_and_count w ''mark already-embedded chunks'' batch rs wd = (r, rs', wd')"
      by (simp add: reconcile_and_embed_def Let_def need_def)
    from True have "\<forall>i \<in> set (map ej_ChunkID batch). bf_has i (w_vecs wd) = Inr True" by (auto simp: need_def filter_empty_conv)
    with mark_and_count_sound [OF m p] ok covered_flags [of "w_db wd" "w_vecs wd" "w_db wd'"]
    show ?thesis by (auto simp: sound_world_def)
  next
    case need: False
    define texts where "texts = map (\<lambda>j. wk_prefix w @ ej_Content j) need"
    define ids where "ids = map ej_ChunkID need"
    from healthy_attempt [of w wd texts rs] ok p obtain vs rs1 wd1 where
      e: "embed_with_retry w texts rs wd = (Inr vs, rs1, wd1)" and len: "length vs = length texts"
      and vs: "\<forall>v \<in> set vs. healthy_vec v \<and> int (length v) = bf_dim (w_vecs wd)"
      and same: "rs_deferred rs1 = rs_deferred rs" "w_db wd1 = w_db wd" "w_vecs wd1 = w_vecs wd" "cb_state (w_cb wd1) = StateClosed"
      by blast
    have lens: "length ids = length vs" using len by (simp add: ids_def texts_def)
    then obtain rej where san: "sanitize_embeddings ids vs 0 = (ids, vs, rej)" using sanitize_all [of vs ids] vs by blast
    have ne: "ids \<noteq> []" using need by (simp add: ids_def)
    obtain s' where up: "bf_upsert_batch ids vs (w_vecs wd) = (Inr (), s')" and dim: "bf_dim s' = bf_dim (w_vecs wd)"
      using check_batch_dims_None [of ids vs "bf_dim (w_vecs wd)"] lens vs by (auto simp: bf_upsert_batch_def)
    from bf.upsert_ok [OF _ up] ok have inv': "bf_inv s'" by blast
    have has: "bf_has i s' = Inr (bf_lookup (w_vecs wd) i \<noteq> None \<or> i \<in> set ids)" for i
      using bf.upsert_has [OF _ up] ok by blast
    have m: "mark_and_count w ''mark chunks embedded'' batch rs1 (wd1\<lparr>w_vecs := s'\<rparr>) = (r, rs', wd')"
      using r nctx need e san up ne same(3)
      by (simp add: reconcile_and_embed_def Let_def upsert_vecs_def flip: need_def texts_def ids_def)
    have keep: "bf_has i s' = Inr True" if "bf_has i (w_vecs wd) = Inr True" for i
      using that has by (simp add: bf.has_ok)
    have batch: "bf_has i s' = Inr True" if "i \<in> set (map ej_ChunkID batch)" for i
    proof (cases "i \<in> set ids")
      case False
      with that have "bf_has i (w_vecs wd) = Inr True" by (auto simp: ids_def need_def)
      then show ?thesis by (rule keep)
    qed (simp add: has)
    from mark_and_count_sound [OF m p] ok same covered_flags [OF _ _ batch keep, of "w_db wd" "w_vecs wd" "w_db wd'"] inv' dim
    show ?thesis by (auto simp: sound_world_def)
  qed
qed

lemma run_slices_sound:
  "run_slices w page i rs wd = Some y \<Longrightarrow> patient w \<Longrightarrow> sound_world w wd \<Longrightarrow> rs_deferred rs = [] \<Longrightarrow>
    fst y = Inr () \<and> sound_world w (snd (snd y)) \<and> rs_deferred (fst (snd y)) = []"
proof (induction rule: run_slices.raw_induct [rotated, consumes 1, case_names 1])
  case (1 run w page i rs wd y)
  show ?case
  proof (cases "i < length page")
    case True
    define e where "e = (if i + rs_activeBatch rs > length page then length page else i + rs_activeBatch rs)"
    define b where "b = take (e - i) (drop i page)"
    obtain r1 rs1 wd1 where rec: "reconcile_and_embed w b rs wd = (r1, rs1, wd1)" by (metis prod.exhaust)
    note post = healthy_slice [OF 1(4,3) rec]
    have "run w page e rs1 wd1 = Some y"
      using 1(2) True rec post by (simp add: Let_def flip: e_def b_def)
    from 1(1) [OF this 1(3)] post 1(5) show ?thesis by simp
  qed (use 1 in auto)
qed

lemma run_pages_sound:
  "run_pages w n rs wd = Some y \<Longrightarrow> patient w \<Longrightarrow> sound_world w wd \<Longrightarrow> rs_deferred rs = [] \<Longrightarrow>
    fst y = Inr () \<and> sound_world w (snd (snd y)) \<and> rs_deferred (fst (snd y)) = []"
proof (induction rule: run_pages.raw_induct [rotated, consumes 1, case_names 1])
  case (1 run w n rs wd y)
  define page where "page = get_embed_page n page_size (w_db wd)"
  have nctx: "\<not> ctx_err w wd" using 1(3) by (simp add: ctx_err_def patient_def)
  show ?case
  proof (cases "page = []")
    case True
    with 1 nctx show ?thesis by (auto simp: Let_def simp flip: page_def)
  next
    case False
    with 1(2) nctx obtain r rs1 wd1 where sl: "run_slices w page 0 rs wd = Some (r, rs1, wd1)"
      by (auto simp: Let_def bind_eq_Some_conv simp flip: page_def)
    from run_slices_sound [OF sl 1(3-5)] have post: "r = Inr ()" "sound_world w wd1" "rs_deferred rs1 = []" by simp_all
    have "run w (ej_ChunkID (last page)) rs1 wd1 = Some y"
      using 1(2) nctx False sl post(1) by (simp add: Let_def flip: page_def)
    from 1(1) [OF this 1(3) post(2,3)] show ?thesis .
  qed
qed

lemma run_from_db_sound:
  assumes "run_from_db w wd = Some (r, wd')" and p: "patient w" and s: "sound_world w wd"
  shows "r = Inr () \<and> sound_world w wd'"
proof -
  have nctx: "\<not> ctx_err w wd" using p by (simp add: ctx_err_def patient_def)
  show ?thesis
  proof (cases "count_chunks_needing_embedding (w_db wd) = 0")
    case True
    with assms(1) nctx s show ?thesis by (auto simp: run_from_db_def Let_def report_def sound_world_def)
  next
    case False
    define rs where "rs = \<lparr>rs_embedded = 0, rs_skipped = 0, rs_activeBatch = wk_batchSz w, rs_deferred = [],
      rs_total = count_chunks_needing_embedding (w_db wd)\<rparr>"
    from False assms(1) nctx obtain q rs1 wd1 where pg: "run_pages w 0 rs wd = Some (q, rs1, wd1)"
      by (auto simp: run_from_db_def Let_def bind_eq_Some_conv simp flip: rs_def)
    from run_pages_sound [OF pg p s] have post: "q = Inr ()" "sound_world w wd1" "rs_deferred rs1 = []" by (simp_all add: rs_def)
    from assms(1) nctx False pg post(1,3) have "r = Inr ()" "wd' = wd1 \<or> wd' = report rs1 None wd1"
      by (auto simp: run_from_db_def Let_def retry_deferred_def simp flip: rs_def split: if_splits)
    with post(2) show ?thesis by (auto simp: report_def sound_world_def)
  qed
qed

section \<open>Reconciling the flags\<close>

definition reconcile_page :: int where "reconcile_page = 256"

fun check_vectors :: "bf_store \<Rightarrow> int list \<Rightarrow> int list \<Rightarrow> int list res" where
  "check_vectors s [] missing = Inr missing"
| "check_vectors s (i # ids) missing =
     (case bf_has i s of
        Inl e \<Rightarrow> Inl (ErrWrap ''check vector store for chunk'' e)
      | Inr has \<Rightarrow> check_vectors s ids (if has then missing else missing @ [i]))"

lemma last_embedded_page:
  "ids = get_embedded_chunk_ids afterID n db \<Longrightarrow> ids \<noteq> [] \<Longrightarrow>
   \<exists>c \<in> set (db_chunks db). cr_ID c = last ids \<and> cw_embedded c \<and> afterID < cr_ID c"
proof -
  assume ids: "ids = get_embedded_chunk_ids afterID n db" "ids \<noteq> []"
  then have "last ids \<in> set (get_embedded_chunk_ids afterID n db)" by simp
  then have "last ids \<in> set (map cr_ID (filter (\<lambda>c. cw_embedded c \<and> cr_ID c > afterID) (db_chunks db)))"
    unfolding get_embedded_chunk_ids_def sql_limit_def by (auto split: if_splits dest: in_set_takeD)
  then show ?thesis by auto
qed

text \<open>The loop of \<open>reconcileEmbeddedFlags\<close> over the pages of embedded chunks.\<close>

function missing_vectors :: "sql_db \<Rightarrow> bf_store \<Rightarrow> int \<Rightarrow> int list \<Rightarrow> int list res" where
  "missing_vectors db s afterID missing =
     (let ids = get_embedded_chunk_ids afterID reconcile_page db in
      if ids = [] then Inr missing
      else (case check_vectors s ids missing of
              Inl e \<Rightarrow> Inl e
            | Inr missing' \<Rightarrow> missing_vectors db s (last ids) missing'))"
  by pat_completeness auto
termination
proof (relation "measure (\<lambda>(db, s, afterID, missing). length (filter (\<lambda>c. cw_embedded c \<and> cr_ID c > afterID) (db_chunks db)))", goal_cases)
  case (2 db s afterID missing ids missing')
  from last_embedded_page [OF 2(1,2)] obtain c where c: "c \<in> set (db_chunks db)" "cr_ID c = last ids" "cw_embedded c" "afterID < cr_ID c" by blast
  let ?P = "\<lambda>a c. cw_embedded c \<and> cr_ID c > a"
  have eq: "filter (?P (last ids)) (db_chunks db) = filter (?P (last ids)) (filter (?P afterID) (db_chunks db))"
    using c(2,4) by (auto simp: filter_filter intro!: filter_cong)
  have "c \<in> set (filter (?P afterID) (db_chunks db))" "\<not> ?P (last ids) c" using c by auto
  then have "length (filter (?P (last ids)) (filter (?P afterID) (db_chunks db))) < length (filter (?P afterID) (db_chunks db))"
    by (rule length_filter_less)
  then show ?case by (simp add: eq)
qed simp

declare missing_vectors.simps [simp del]

definition reconcile_embedded_flags :: "bf_store \<Rightarrow> unit tx" where
  "reconcile_embedded_flags s db =
     (case missing_vectors db s 0 [] of
        Inl e \<Rightarrow> (Inl e, db)
      | Inr missing \<Rightarrow> if missing = [] then (Inr (), db) else reset_embedded_flags missing db)"

lemma check_vectors_eq:
  "check_vectors s ids missing = Inr (missing @ filter (\<lambda>i. bf_has i s \<noteq> Inr True) ids)"
  by (induction ids arbitrary: missing) (auto simp: bf_has_def)

lemma drop_above:
  fixes xs :: "int list"
  assumes "sorted_wrt (<) xs" and "take n xs \<noteq> []"
  shows "filter (\<lambda>x. last (take n xs) < x) xs = drop n xs"
proof -
  have split: "xs = take n xs @ drop n xs" by simp
  have s: "sorted_wrt (<) (take n xs @ drop n xs)" using assms(1) by simp
  have le: "x \<le> last (take n xs)" if "x \<in> set (take n xs)" for x
  proof -
    obtain ys z where yz: "take n xs = ys @ [z]" using assms(2) by (metis rev_exhaust)
    with s that show ?thesis by (auto simp: sorted_wrt_append)
  qed
  have gt: "last (take n xs) < x" if "x \<in> set (drop n xs)" for x
    using s that last_in_set [OF assms(2)] unfolding sorted_wrt_append by blast
  have "filter (\<lambda>x. last (take n xs) < x) (take n xs) = []"
    using le by (simp add: filter_empty_conv not_less)
  moreover have "filter (\<lambda>x. last (take n xs) < x) (drop n xs) = drop n xs"
    using gt by (intro filter_True) blast
  ultimately show ?thesis by (subst split) (simp only: filter_append append_Nil)
qed

lemma missing_vectors_eq:
  assumes "sorted_wrt (<) (map cr_ID (db_chunks db))"
  shows "missing_vectors db s a m =
    Inr (m @ filter (\<lambda>i. bf_has i s \<noteq> Inr True) (map cr_ID (filter (\<lambda>c. cw_embedded c \<and> cr_ID c > a) (db_chunks db))))"
  using assms
proof (induction db s a m rule: missing_vectors.induct)
  case (1 db s a m)
  let ?L = "\<lambda>a. map cr_ID (filter (\<lambda>c. cw_embedded c \<and> cr_ID c > a) (db_chunks db))"
  let ?no = "\<lambda>i. bf_has i s \<noteq> Inr True"
  have ids: "get_embedded_chunk_ids a reconcile_page db = take 256 (?L a)"
    by (simp add: get_embedded_chunk_ids_def sql_limit_def reconcile_page_def)
  show ?case
  proof (cases "take 256 (?L a) = []")
    case True
    then show ?thesis using ids by (simp add: missing_vectors.simps [of db s a m])
  next
    case False
    have sorted: "sorted_wrt (<) (?L a)"
      using 1(2) by (auto simp: sorted_wrt_map intro: sorted_wrt_filter)
    have "a < last (take 256 (?L a))" using last_embedded_page [OF refl, of a reconcile_page db] False ids by auto
    then have "?L (last (take 256 (?L a))) = filter (\<lambda>x. last (take 256 (?L a)) < x) (?L a)"
      by (auto simp: filter_map comp_def intro!: arg_cong [of _ _ "map cr_ID"] filter_cong)
    then have rest: "?L (last (take 256 (?L a))) = drop 256 (?L a)" using drop_above [OF sorted False] by simp
    have "missing_vectors db s a m = missing_vectors db s (last (take 256 (?L a))) (m @ filter ?no (take 256 (?L a)))"
      using False by (simp add: missing_vectors.simps [of db s a m] ids check_vectors_eq Let_def)
    also have "\<dots> = Inr ((m @ filter ?no (take 256 (?L a))) @ filter ?no (drop 256 (?L a)))"
      using 1(1) [OF ids [symmetric] False check_vectors_eq 1(2)] rest by simp
    also have "\<dots> = Inr (m @ filter ?no (?L a))"
      by (simp only: append_assoc flip: filter_append) simp
    finally show ?thesis .
  qed
qed

lemma chunk_ids_sorted: "store_ok db \<Longrightarrow> sorted_wrt (<) (map cr_ID (db_chunks db)) \<and> (\<forall>c \<in> set (db_chunks db). 0 < cr_ID c)"
  by (auto simp: store_ok_def db_inv_def wf_ids_def)

lemma missing_from_start:
  assumes "store_ok db"
  shows "missing_vectors db s 0 [] = Inr (filter (\<lambda>i. bf_has i s \<noteq> Inr True) (map cr_ID (filter cw_embedded (db_chunks db))))"
proof -
  have "filter (\<lambda>c. cw_embedded c \<and> cr_ID c > 0) (db_chunks db) = filter cw_embedded (db_chunks db)"
    using chunk_ids_sorted [OF assms] by (auto intro: filter_cong)
  with missing_vectors_eq [OF conjunct1 [OF chunk_ids_sorted [OF assms]], of s 0 "[]"] show ?thesis by simp
qed

text \<open>Reconciling always succeeds and resets exactly the flags of the chunks that have no vector: afterwards
  every chunk recorded as embedded has one, no other flag has changed, and the store is in order.\<close>

theorem reconcile_exact:
  assumes "store_ok db"
  shows "\<exists>db'. reconcile_embedded_flags s db = (Inr (), db') \<and> store_ok db' \<and> covered db' s
    \<and> chunk_views db' = set_flags {i. bf_has i s \<noteq> Inr True} False (chunk_views db)"
proof -
  let ?ids = "filter (\<lambda>i. bf_has i s \<noteq> Inr True) (map cr_ID (filter cw_embedded (db_chunks db)))"
  have eq: "set_flags (set ?ids) False (chunk_views db) = set_flags {i. bf_has i s \<noteq> Inr True} False (chunk_views db)"
    unfolding set_flags_def chunk_views_def
    by (simp del: set_filter) (auto simp: image_iff)
  have cov: "covered db' s" if "chunk_views db' = set_flags {i. bf_has i s \<noteq> Inr True} False (chunk_views db)" for db'
    unfolding covered_def that by (auto simp: set_flags_def split: if_splits)
  from sq.reset_embedded_inv [of True db "db_fts_triggers db" ?ids] assms obtain db' where
    r: "reset_embedded sqlite_chunk_ops ?ids db = (Inr (), db')" "store_ok db'" "chunk_views db' = set_flags (set ?ids) False (chunk_views db)"
    by auto
  show ?thesis
  proof (cases "?ids = []")
    case True
    have "chunk_views db = set_flags {i. bf_has i s \<noteq> Inr True} False (chunk_views db)"
      using eq unfolding True by (simp add: set_flags_def case_prod_beta)
    moreover have "reconcile_embedded_flags s db = (Inr (), db)"
      unfolding reconcile_embedded_flags_def missing_from_start [OF assms] by (simp only: True sum.case if_True simp_thms)
    ultimately show ?thesis using cov [of db] assms by blast
  next
    case False
    have "reconcile_embedded_flags s db = (Inr (), db')"
      unfolding reconcile_embedded_flags_def missing_from_start [OF assms] reset_embedded_flags_def
      by (simp only: sum.case False if_False with_write_tx_def r(1) prod.case)
    with r(2,3) cov [of db'] eq show ?thesis by auto
  qed
qed

theorem reconcile_exact_witness:
  "\<exists>db'. reconcile_embedded_flags (new_bf_store 2) (snd (mark_chunks_embedded [1, 3] sample_db)) = (Inr (), db')
     \<and> chunk_views db' = [(1, 1, False), (2, 1, False), (3, 2, False), (4, 3, False)]"
proof -
  obtain db where m: "mark_chunks_embedded [1, 3] sample_db = (Inr (), db)" "store_ok db"
    and v: "chunk_views db = set_flags (set [1, 3]) True (chunk_views sample_db)"
    using sq.mark_embedded_inv [of True sample_db "db_fts_triggers sample_db" "[1, 3]"] sample_db_ok(1)
    by (auto simp: mark_chunks_embedded_def with_write_tx_def)
  from reconcile_exact [OF m(2), of "new_bf_store 2"] m(1) v show ?thesis
    by (auto simp: set_flags_def chunk_views_def sample_defs bf_has_def new_bf_store_def)
qed

section \<open>EmbedProject\<close>

record embed_daemon =
  dm_world :: world
  dm_saves :: "bf_store list"

text \<open>\<open>saveVectors\<close> when there is something to save; its errors are only logged.\<close>

definition checkpoint :: "embed_daemon \<Rightarrow> embed_daemon" where
  "checkpoint d = (if bf_vectors (w_vecs (dm_world d)) \<noteq> [] then d\<lparr>dm_saves := dm_saves d @ [w_vecs (dm_world d)]\<rparr> else d)"

definition vectors_held :: "embed_daemon \<Rightarrow> int" where
  "vectors_held d = int (length (bf_vectors (w_vecs (dm_world d))))"

definition embed_from_db :: "worker \<Rightarrow> embed_daemon \<Rightarrow> ((int \<times> err option) \<times> embed_daemon) option" where
  "embed_from_db w d =
     (let d1 = checkpoint d in
      Option.bind (run_from_db w (dm_world d1)) (\<lambda>(r, wd).
        let d2 = d1\<lparr>dm_world := wd\<rparr>
        in Some ((vectors_held d2, case r of Inl e \<Rightarrow> Some (ErrWrap ''RunFromDB'' e) | Inr _ \<Rightarrow> None), d2)))"

definition on_db :: "unit tx \<Rightarrow> embed_daemon \<Rightarrow> unit res \<times> embed_daemon" where
  "on_db t d = (case t (w_db (dm_world d)) of (r, db) \<Rightarrow> (r, d\<lparr>dm_world := (dm_world d)\<lparr>w_db := db\<rparr>\<rparr>))"

text \<open>The reverse reconciliation at the start of \<open>EmbedProject\<close>.\<close>

definition restore_flags :: "embed_daemon \<Rightarrow> unit res \<times> embed_daemon" where
  "restore_flags d =
     (let embeddedInDB = count_chunks_embedded (w_db (dm_world d)); vectorCount = vectors_held d in
      if embeddedInDB > 0 \<and> vectorCount = 0 then
        (case on_db reset_all_embedded_flags d of (r, d1) \<Rightarrow> (wrap_res ''reset embedded flags'' r, d1))
      else if embeddedInDB > 0 \<and> vectorCount < embeddedInDB then
        (case on_db (reconcile_embedded_flags (w_vecs (dm_world d))) d of (r, d1) \<Rightarrow> (wrap_res ''reconcile embedded flags'' r, d1))
      else (Inr (), d))"

definition embed_project :: "worker option \<Rightarrow> bool \<Rightarrow> embed_daemon \<Rightarrow> ((int \<times> err option) \<times> embed_daemon) option" where
  "embed_project worker healthy d =
     (case worker of
        None \<Rightarrow> Some ((0, Some (ErrMsg ''embedding not initialized'')), d)
      | Some w \<Rightarrow>
          if \<not> healthy then Some ((0, Some (ErrMsg ''ollama is not reachable'')), d)
          else case restore_flags d of
            (Inl e, d1) \<Rightarrow> Some ((0, Some e), d1)
          | (Inr _, d1) \<Rightarrow>
              Option.bind (embed_from_db w d1) (\<lambda>((n, err), d2).
                Some ((n, err), if n > 0 then checkpoint d2 else d2)))"

lemma checkpoint_world [simp]: "dm_world (checkpoint d) = dm_world d"
  by (simp add: checkpoint_def)

lemma reset_all_views:
  assumes "store_ok db"
  shows "\<exists>db'. reset_all_embedded_flags db = (Inr (), db') \<and> store_ok db' \<and> (\<forall>(i, f, e) \<in> set (chunk_views db'). \<not> e)"
proof -
  obtain db' where db': "reset_all_embedded_flags db = (Inr (), db')"
    by (simp add: reset_all_embedded_flags_def with_write_tx_def Let_def)
  have "store_ok db'" using keepsD [OF keeps_reset_all assms] db' by simp
  moreover have "\<forall>(i, f, e) \<in> set (chunk_views db'). \<not> e"
    using db' by (auto simp: reset_all_embedded_flags_def with_write_tx_def Let_def update_chunks_def chunk_views_def)
  ultimately show ?thesis using db' by blast
qed

text \<open>No vector of a chunk that is gone or not recorded as embedded.\<close>

definition orphan_free :: "sql_db \<Rightarrow> bf_store \<Rightarrow> bool" where
  "orphan_free db s \<longleftrightarrow> (\<forall>i. bf_has i s = Inr True \<longrightarrow> (\<exists>f. (i, f, True) \<in> set (chunk_views db)))"

lemma embedded_ids:
  assumes "store_ok db"
  shows "count_chunks_embedded db = int (card {i. \<exists>f. (i, f, True) \<in> set (chunk_views db)})"
proof -
  have eq: "{i. \<exists>f. (i, f, True) \<in> set (chunk_views db)} = set (map cr_ID (filter cw_embedded (db_chunks db)))"
    by (auto simp: chunk_views_def image_iff)
  have "distinct (map cr_ID (db_chunks db))"
    using chunk_ids_sorted [OF assms] strict_sorted_iff by blast
  then have "distinct (map cr_ID (filter cw_embedded (db_chunks db)))" by (rule distinct_map_filter)
  from distinct_card [OF this] show ?thesis unfolding eq count_chunks_embedded_def by simp
qed

lemma orphan_free_counts:
  assumes "store_ok db" and "bf_inv s" and "orphan_free db s" and "count_chunks_embedded db \<le> int (length (bf_vectors s))"
  shows "covered db s"
proof -
  let ?E = "{i. \<exists>f. (i, f, True) \<in> set (chunk_views db)}" and ?V = "dom (bf_lookup s)"
  have sub: "?V \<subseteq> ?E" using assms(3) by (auto simp: orphan_free_def bf.has_ok)
  have fin: "finite ?E" by (rule finite_subset [of _ "fst ` set (chunk_views db)"]) force+
  from bf.count_ok [OF assms(2)] have "card ?V = length (bf_vectors s)" by (simp add: bf_count_def)
  with assms(4) embedded_ids [OF assms(1)] have "card ?E \<le> card ?V" by simp
  with sub fin have "?V = ?E" by (metis card_mono card_subset_eq le_antisym)
  then have "bf_lookup s i \<noteq> None" if "(i, f, True) \<in> set (chunk_views db)" for i f using that by blast
  then show ?thesis by (auto simp: covered_def bf.has_ok)
qed

lemma restore_flags_covers:
  assumes "store_ok (w_db (dm_world d))" and "bf_inv (w_vecs (dm_world d))" and "orphan_free (w_db (dm_world d)) (w_vecs (dm_world d))"
  shows "\<exists>d1. restore_flags d = (Inr (), d1) \<and> dm_world d1 = (dm_world d)\<lparr>w_db := w_db (dm_world d1)\<rparr>
    \<and> store_ok (w_db (dm_world d1)) \<and> covered (w_db (dm_world d1)) (w_vecs (dm_world d))"
proof -
  let ?db = "w_db (dm_world d)" and ?s = "w_vecs (dm_world d)"
  consider (empty) "count_chunks_embedded ?db > 0" "vectors_held d = 0"
    | (fewer) "count_chunks_embedded ?db > 0" "vectors_held d \<noteq> 0" "vectors_held d < count_chunks_embedded ?db"
    | (none) "count_chunks_embedded ?db \<le> 0" | (enough) "count_chunks_embedded ?db \<le> vectors_held d" by linarith
  then show ?thesis
  proof cases
    case empty
    from reset_all_views [OF assms(1)] obtain db' where "reset_all_embedded_flags ?db = (Inr (), db')" "store_ok db'"
      "\<forall>(i, f, e) \<in> set (chunk_views db'). \<not> e" by blast
    with empty show ?thesis by (auto simp: restore_flags_def on_db_def Let_def covered_def)
  next
    case fewer
    from reconcile_exact [OF assms(1), of ?s] obtain db' where "reconcile_embedded_flags ?s ?db = (Inr (), db')" "store_ok db'" "covered db' ?s"
      by blast
    with fewer show ?thesis by (simp add: restore_flags_def on_db_def Let_def)
  next
    case none
    then have "\<forall>c \<in> set (db_chunks ?db). \<not> cw_embedded c" by (auto simp: count_chunks_embedded_def filter_empty_conv)
    then have "covered ?db ?s" by (auto simp: covered_def chunk_views_def)
    with none assms show ?thesis by (simp add: restore_flags_def Let_def)
  next
    case enough
    then have "covered ?db ?s" by (intro orphan_free_counts assms) (simp add: vectors_held_def)
    moreover have "\<not> (count_chunks_embedded ?db > 0 \<and> vectors_held d = 0)" using enough by auto
    ultimately show ?thesis using enough assms by (auto simp: restore_flags_def Let_def)
  qed
qed


text \<open>A service that always sends \<open>[1, 0]\<close>.\<close>

definition good_worker :: worker where
  "good_worker = \<lparr>wk_http = (\<lambda>_ texts. (Reply 200 [] (Some (map (\<lambda>_. [F32 1, F32 0]) texts)), 0)), wk_done = (\<lambda>_. False),
     wk_batchSz = 2, wk_prefix = []\<rparr>"

lemma good_worker_ok: "patient good_worker" "0 < wk_batchSz good_worker" "healthy_service good_worker 2"
proof -
  have "healthy_vec [F32 1, F32 0]" by (auto simp: healthy_vec_def is_finite_def intro: exI [of _ 1])
  then show "healthy_service good_worker 2" by (auto simp: healthy_service_def good_worker_def embed_batch_def)
qed (simp_all add: patient_def good_worker_def)


text \<open>C28. The comparison of counts is fooled by stray vectors: when the store holds at least as many vectors as
  there are chunks recorded as embedded, a chunk that has lost its vector is not noticed, and the
  run reports success and leaves it without one.\<close>

theorem stray_vectors_hide_loss:
  assumes "patient w" and "count_chunks_needing_embedding (w_db (dm_world d)) = 0"
    and "count_chunks_embedded (w_db (dm_world d)) \<le> vectors_held d" and "0 < vectors_held d"
    and "(i, f, True) \<in> set (chunk_views (w_db (dm_world d)))" and "bf_has i (w_vecs (dm_world d)) = Inr False"
  shows "\<exists>d'. embed_project (Some w) True d = Some ((vectors_held d, None), d')
    \<and> (i, f, True) \<in> set (chunk_views (w_db (dm_world d'))) \<and> bf_has i (w_vecs (dm_world d')) = Inr False"
proof -
  have r: "restore_flags d = (Inr (), d)" using assms(3,4) by (simp add: restore_flags_def Let_def)
  define rs where "rs = \<lparr>rs_embedded = 0, rs_skipped = 0, rs_activeBatch = wk_batchSz w, rs_deferred = [], rs_total = 0\<rparr>"
  have "run_from_db w (dm_world d) = Some (Inr (), report rs None (dm_world d))"
    using assms(1,2) by (simp add: run_from_db_def ctx_err_def patient_def rs_def)
  then show ?thesis
    using r assms by (auto simp: embed_project_def embed_from_db_def Let_def vectors_held_def report_def)
qed

text \<open>Chunk 1 is recorded as embedded; the store holds a vector of chunk 9, which does not exist.\<close>

definition stray_daemon :: embed_daemon where
  "stray_daemon = \<lparr>dm_world = sample_world\<lparr>w_db := sample_db\<lparr>db_chunks := [(hd (db_chunks sample_db))\<lparr>cw_embedded := True\<rparr>]\<rparr>,
       w_vecs := (new_bf_store 2)\<lparr>bf_vectors := [(9, [F32 1, F32 0])]\<rparr>\<rparr>, dm_saves = []\<rparr>"

theorem stray_vectors_hide_loss_witness:
  "\<exists>d'. embed_project (Some good_worker) True stray_daemon = Some ((1, None), d')
     \<and> (1, 1, True) \<in> set (chunk_views (w_db (dm_world d'))) \<and> bf_has 1 (w_vecs (dm_world d')) = Inr False"
proof -
  have held: "vectors_held stray_daemon = 1" by (simp add: stray_daemon_def vectors_held_def)
  have "count_chunks_needing_embedding (w_db (dm_world stray_daemon)) = 0" "count_chunks_embedded (w_db (dm_world stray_daemon)) \<le> vectors_held stray_daemon"
    "(1, 1, True) \<in> set (chunk_views (w_db (dm_world stray_daemon)))" "bf_has 1 (w_vecs (dm_world stray_daemon)) = Inr False"
    by (simp_all add: stray_daemon_def vectors_held_def count_chunks_needing_embedding_def count_chunks_embedded_def chunk_views_def
        bf_has_def sample_db_def sample_chunk_row_def)
  from stray_vectors_hide_loss [OF good_worker_ok(1) this(1,2) _ this(3,4)] held show ?thesis by simp
qed

section \<open>Periodic checkpoints\<close>

text \<open>\<open>periodicEmbeddingSave\<close>: when the last save was, and the period of the ticker.\<close>

record saver =
  sv_lastSave :: int
  sv_period :: int

text \<open>One tick at time \<open>now\<close>; \<open>saves\<close> tells whether there is something to save and saving succeeds.\<close>

definition save_tick :: "int \<Rightarrow> int \<Rightarrow> int \<Rightarrow> bool \<Rightarrow> bool \<Rightarrow> int \<Rightarrow> saver \<Rightarrow> saver" where
  "save_tick activeInterval idleInterval pollInterval active saves now sv =
     (let saveInterval = (if active then activeInterval else idleInterval) in
      if now - sv_lastSave sv < saveInterval then sv\<lparr>sv_period := if active then pollInterval else idleInterval\<rparr>
      else sv\<lparr>sv_lastSave := if saves then now else sv_lastSave sv, sv_period := if active then activeInterval else idleInterval\<rparr>)"

text \<open>The ticks from \<open>now\<close> on, and how long ago the last save was at each of them.\<close>

fun save_ages :: "int \<Rightarrow> int \<Rightarrow> int \<Rightarrow> (bool \<times> bool) list \<Rightarrow> int \<Rightarrow> saver \<Rightarrow> int list" where
  "save_ages activeInterval idleInterval pollInterval [] now sv = []"
| "save_ages activeInterval idleInterval pollInterval ((active, saves) # ts) now sv =
     (let t = now + sv_period sv; sv' = save_tick activeInterval idleInterval pollInterval active saves t sv
      in (t - sv_lastSave sv) # save_ages activeInterval idleInterval pollInterval ts t sv')"

lemma active_ages:
  assumes "0 < pollInterval" and "pollInterval \<le> activeInterval"
  shows "now + sv_period sv - sv_lastSave sv < activeInterval + pollInterval \<Longrightarrow>
    list_all (\<lambda>age. age < activeInterval + pollInterval) (save_ages activeInterval idleInterval pollInterval (replicate n (True, True)) now sv)"
  using assms by (induction n arbitrary: now sv) (auto simp: save_tick_def Let_def)

text \<open>While embedding is active and saves succeed, a checkpoint is never older than the active interval
  plus one poll. But a tick that finds embedding idle sets the period to the idle interval, so an
  embedding that starts right afterwards runs that long before the saver notices.\<close>

theorem checkpoint_ages:
  assumes "0 < pollInterval" and "pollInterval \<le> activeInterval"
    and "now + sv_period sv - sv_lastSave sv < activeInterval + pollInterval"
  shows "list_all (\<lambda>age. age < activeInterval + pollInterval) (save_ages activeInterval idleInterval pollInterval (replicate n (True, True)) now sv)
    \<and> save_ages activeInterval idleInterval pollInterval [(False, saves), (True, saves')] now sv
      = [now + sv_period sv - sv_lastSave sv,
         now + sv_period sv + idleInterval
           - sv_lastSave (save_tick activeInterval idleInterval pollInterval False saves (now + sv_period sv) sv)]"
  using active_ages [OF assms(1,2,3)] by (simp add: save_tick_def Let_def)

theorem checkpoint_ages_witness:
  "save_ages 30 300 10 (replicate 6 (True, True)) 0 \<lparr>sv_lastSave = 0, sv_period = 10\<rparr> = [10, 20, 30, 30, 30, 30]
   \<and> list_all (\<lambda>age. age < 40) (save_ages 30 300 10 (replicate 6 (True, True)) 0 \<lparr>sv_lastSave = 0, sv_period = 10\<rparr>)
   \<and> save_ages 30 300 10 [(False, True), (True, True)] 0 \<lparr>sv_lastSave = 0, sv_period = 10\<rparr> = [10, 310]"
proof -
  have "save_ages 30 300 10 (replicate 6 (True, True)) 0 \<lparr>sv_lastSave = 0, sv_period = 10\<rparr> = [10, 20, 30, 30, 30, 30]"
    by (simp add: save_tick_def numeral_eq_Suc)
  moreover have "save_ages 30 300 10 [(False, True), (True, True)] 0 \<lparr>sv_lastSave = 0, sv_period = 10\<rparr> = [10, 310]"
    by (simp add: save_tick_def)
  ultimately show ?thesis
    using checkpoint_ages [of 10 30 0 "\<lparr>sv_lastSave = 0, sv_period = 10\<rparr>" 300 6] by simp
qed

end
