(* ===== verification/Reindex.thy ===== *)
theory Reindex
  imports Embed_Project Enrichment Pg_Query
begin

text \<open>
  The upgrade path of \<open>internal/daemon/daemon.go\<close>: \<open>ensureParserVersion\<close>, which purges an index made by
  another version of the chunker, and \<open>IndexProject\<close>, which scans, indexes and records the version. The
  store is an interface, a record of the calls used; the locale states what a backend owes it, and
  both backends interpret it.
\<close>

section \<open>Versions\<close>

definition parser_version_config_key :: string where
  "parser_version_config_key = ''parser_algorithm_version''"

definition chunk_algorithm_version :: string where
  "chunk_algorithm_version = ''3''"

record 's version_store =
  vs_GetConfig :: "string \<Rightarrow> 's \<Rightarrow> string res"
  vs_ListFiles :: "'s \<Rightarrow> file_record list res"
  vs_DeleteFile :: "int \<Rightarrow> 's \<Rightarrow> unit res \<times> 's"

fun delete_files :: "'s version_store \<Rightarrow> file_record list \<Rightarrow> 's \<Rightarrow> unit res \<times> 's" where
  "delete_files vs [] s = (Inr (), s)"
| "delete_files vs (f # fs) s =
     (case vs_DeleteFile vs (fr_ID f) s of
        (Inl e, s1) \<Rightarrow> (Inl (ErrWrap (''delete file '' @ dec_int (fr_ID f)) e), s1)
      | (Inr _, s1) \<Rightarrow> delete_files vs fs s1)"

definition ensure_parser_version :: "'s version_store \<Rightarrow> 's \<Rightarrow> unit res \<times> 's" where
  "ensure_parser_version vs s =
     (case vs_GetConfig vs parser_version_config_key s of
        Inl e \<Rightarrow> (Inl (ErrWrap ''get parser version'' e), s)
      | Inr stored \<Rightarrow>
          if stored = chunk_algorithm_version then (Inr (), s)
          else if stored = [] then (Inr (), s)
          else case vs_ListFiles vs s of
            Inl e \<Rightarrow> (Inl (ErrWrap ''list files for reindex'' e), s)
          | Inr files \<Rightarrow> delete_files vs files s)"

section \<open>The contract of a backend\<close>

text \<open>\<open>rest\<close> is what the deletions must leave alone.\<close>

locale versioned_store =
  fixes vs :: "'s version_store" and inv :: "'s \<Rightarrow> bool" and listed :: "'s \<Rightarrow> file_record list" and cfg :: "string \<Rightarrow> 's \<Rightarrow> string"
    and rest :: "'s \<Rightarrow> 'r"
  assumes config: "vs_GetConfig vs k s = Inr (cfg k s)"
    and list: "vs_ListFiles vs s = Inr (listed s)"
    and ids: "inv s \<Longrightarrow> distinct (map fr_ID (listed s))"
    and delete: "inv s \<Longrightarrow> f \<in> set (listed s) \<Longrightarrow> \<exists>s'. vs_DeleteFile vs (fr_ID f) s = (Inr (), s') \<and> inv s'
      \<and> set (listed s') = {g \<in> set (listed s). fr_ID g \<noteq> fr_ID f} \<and> rest s' = rest s \<and> (\<forall>k. cfg k s' = cfg k s)"
begin

lemma delete_files_ok:
  "inv s \<Longrightarrow> set fs \<subseteq> set (listed s) \<Longrightarrow> distinct (map fr_ID fs) \<Longrightarrow>
   \<exists>s'. delete_files vs fs s = (Inr (), s') \<and> inv s' \<and> set (listed s') = {g \<in> set (listed s). fr_ID g \<notin> fr_ID ` set fs}
     \<and> rest s' = rest s \<and> (\<forall>k. cfg k s' = cfg k s)"
proof (induction fs arbitrary: s)
  case (Cons f fs)
  from delete [OF Cons.prems(1), of f] Cons.prems(2) obtain s1 where s1: "vs_DeleteFile vs (fr_ID f) s = (Inr (), s1)" "inv s1"
    "set (listed s1) = {g \<in> set (listed s). fr_ID g \<noteq> fr_ID f}" "rest s1 = rest s" "\<forall>k. cfg k s1 = cfg k s" by auto
  have "set fs \<subseteq> set (listed s1)" using Cons.prems(2,3) s1(3) by (auto simp: image_iff)
  with Cons.IH [OF s1(2)] Cons.prems(3) obtain s' where "delete_files vs fs s1 = (Inr (), s')" "inv s'"
    "set (listed s') = {g \<in> set (listed s1). fr_ID g \<notin> fr_ID ` set fs}" "rest s' = rest s1" "\<forall>k. cfg k s' = cfg k s1" by auto
  with s1 show ?case by auto
qed auto

lemma ensure_purges:
  assumes "inv s"
  shows "\<exists>s'. ensure_parser_version vs s = (Inr (), s') \<and> inv s' \<and> rest s' = rest s \<and> (\<forall>k. cfg k s' = cfg k s)
    \<and> (if cfg parser_version_config_key s \<in> {[], chunk_algorithm_version} then s' = s else listed s' = [])"
proof (cases "cfg parser_version_config_key s \<in> {[], chunk_algorithm_version}")
  case False
  have "{g \<in> set (listed s). fr_ID g \<notin> fr_ID ` set (listed s)} = {}" by blast
  with delete_files_ok [OF assms order_refl ids [OF assms]] obtain s' where
    "delete_files vs (listed s) s = (Inr (), s')" "inv s'" "listed s' = []" "rest s' = rest s" "\<forall>k. cfg k s' = cfg k s" by auto
  with False show ?thesis by (auto simp: ensure_parser_version_def config list)
qed (use assms in \<open>auto simp: ensure_parser_version_def config\<close>)

end

section \<open>SQLite\<close>

definition sqlite_version_store :: "sql_db version_store" where
  "sqlite_version_store = \<lparr>vs_GetConfig = (\<lambda>k db. Inr (get_config k db)), vs_ListFiles = (\<lambda>db. Inr (list_files db)), vs_DeleteFile = delete_file\<rparr>"

lemma drop_files_other [simp]:
  "db_files (drop_files F db) = filter (\<lambda>f. fr_ID f \<notin> F) (db_files db)" "db_config (drop_files F db) = db_config db"
  by (simp_all add: drop_files_def Let_def drop_chunks_def drop_symbols_def drop_diffs_def)

interpretation sqv: versioned_store sqlite_version_store "\<lambda>db. store_ok db \<and> db_fts_triggers db = t" list_files get_config "\<lambda>_. ()" for t
proof (unfold_locales, goal_cases)
  case (3 db)
  then have "distinct (map fr_ID (db_files db))"
    using strict_sorted_iff by (auto simp: store_ok_def db_inv_def wf_ids_def)
  moreover have "mset (map fr_ID (list_files db)) = mset (map fr_ID (db_files db))" by (simp add: list_files_def)
  ultimately show ?case by (metis mset_eq_imp_distinct_iff)
next
  case (4 db f)
  then show ?case
    using keepsD [OF keeps_drop_files [of "\<lambda>_. {fr_ID f}"]] drop_files_triggers [of "{fr_ID f}" db]
    by (auto simp: sqlite_version_store_def delete_file_def with_write_tx_def list_files_def get_config_def)
qed (simp_all add: sqlite_version_store_def)

lemma no_files_no_chunks:
  assumes "db_inv db" and "db_files db = []"
  shows "db_chunks db = []"
  using assms by (cases "db_chunks db") (auto simp: db_inv_def)

text \<open>An index made by another version of the chunker is purged before it is used: no file and no chunk
  is left, the store stays in order; an index of the current version, or a new database, is left
  as it is. The vectors are not touched, so each vector of the purged chunks is now a stray.\<close>

theorem upgrade_purges:
  assumes "store_ok db"
  shows "\<exists>db'. ensure_parser_version sqlite_version_store db = (Inr (), db') \<and> store_ok db'
    \<and> (get_config parser_version_config_key db \<in> {[], chunk_algorithm_version} \<and> db' = db
       \<or> get_config parser_version_config_key db \<notin> {[], chunk_algorithm_version} \<and> db_files db' = [] \<and> db_chunks db' = []
         \<and> (orphan_free db' s = (bf_vectors s = [])))"
proof -
  from sqv.ensure_purges [of db "db_fts_triggers db"] assms obtain db' where
    e: "ensure_parser_version sqlite_version_store db = (Inr (), db')" "store_ok db'"
      "if get_config parser_version_config_key db \<in> {[], chunk_algorithm_version} then db' = db else list_files db' = []" by auto
  show ?thesis
  proof (cases "get_config parser_version_config_key db \<in> {[], chunk_algorithm_version}")
    case False
    with e(3) have files: "db_files db' = []" by (metis list_files_def mset_sort mset_zero_iff)
    with e(2) have chunks: "db_chunks db' = []" by (intro no_files_no_chunks) (simp_all add: store_ok_def)
    then have "orphan_free db' s \<longleftrightarrow> bf_vectors s = []"
      by (cases "bf_vectors s") (auto simp: orphan_free_def chunk_views_def bf_has_def)
    with False e files chunks show ?thesis by blast
  qed (use e in auto)
qed

theorem upgrade_purges_witness:
  "\<exists>db'. ensure_parser_version sqlite_version_store (sample_db\<lparr>db_config := [(parser_version_config_key, ''2'')]\<rparr>) = (Inr (), db')
     \<and> db_files db' = [] \<and> \<not> orphan_free db' \<lparr>bf_vectors = [(1, [F32 1, F32 0])], bf_dim = 2\<rparr>"
proof -
  let ?db = "sample_db\<lparr>db_config := [(parser_version_config_key, ''2'')]\<rparr>"
  have "store_ok ?db" using sample_db_ok(1) by (simp add: store_ok_def db_inv_def fts_fresh_def)
  moreover have "get_config parser_version_config_key ?db \<notin> {[], chunk_algorithm_version}"
    by (simp add: get_config_def chunk_algorithm_version_def)
  ultimately show ?thesis using upgrade_purges [of ?db "\<lparr>bf_vectors = [(1, [F32 1, F32 0])], bf_dim = 2\<rparr>"] by auto
qed

section \<open>Postgres\<close>

definition pg_version_store :: "(string \<Rightarrow> 'k::linorder) \<Rightarrow> int \<Rightarrow> pg_db version_store" where
  "pg_version_store coll p = \<lparr>vs_GetConfig = (\<lambda>k pg. Inr (pg_get_config k pg)), vs_ListFiles = (\<lambda>pg. Inr (pg_list_files coll p pg)),
     vs_DeleteFile = pg_delete_file\<rparr>"

text \<open>The files of the other projects.\<close>

definition other_files :: "int \<Rightarrow> pg_db \<Rightarrow> file_record list" where
  "other_files p pg = filter (\<lambda>f. \<not> owned p pg (fr_ID f)) (db_files (pg_sql pg))"

lemma pg_list_files_set: "set (pg_list_files coll p pg) = {f \<in> set (db_files (pg_sql pg)). owned p pg (fr_ID f)}"
  by (auto simp: pg_list_files_def)

interpretation pgv: versioned_store "pg_version_store coll p" pg_inv "pg_list_files coll p" pg_get_config "\<lambda>pg. (pg_project pg, other_files p pg)"
  for coll :: "string \<Rightarrow> 'k::linorder" and p
proof (unfold_locales, goal_cases)
  case (3 pg)
  then have "distinct (map fr_ID (db_files (project_db p pg)))"
    using project_db_inv [of pg p] by (auto simp: db_inv_def dest: wf_ids_distinct)
  moreover have "mset (map fr_ID (pg_list_files coll p pg)) = mset (map fr_ID (db_files (project_db p pg)))" by (simp add: pg_list_files_def)
  ultimately show ?case by (metis mset_eq_imp_distinct_iff)
next
  case (4 pg f)
  then have own: "owned p pg (fr_ID f)" by (simp add: pg_list_files_set)
  obtain pg' where d: "pg_delete_file (fr_ID f) pg = (Inr (), pg')" and pg': "pg' = pg\<lparr>pg_sql := drop_files {fr_ID f} (pg_sql pg)\<rparr>"
    by (simp add: pg_delete_file_def pg_run_def with_write_tx_def)
  have "pg_exec p (CDeleteFile (fr_ID f)) pg = (Inr ADone, pg')" using d by (simp add: pg_ans_def)
  then have "pg_inv pg'" using isolated_exec [OF 4(1), of p "CDeleteFile (fr_ID f)"] own by (auto simp: isolated_def)
  moreover have "other_files p pg' = other_files p pg"
    using own by (auto simp: other_files_def pg' filter_filter intro!: filter_cong)
  ultimately show ?case
    using d by (auto simp: pg_version_store_def pg_list_files_set pg_get_config_def get_config_def pg')
qed (simp_all add: pg_version_store_def)

text \<open>C29. The version is recorded once per database, not per project. When one project has upgraded its own
  files and recorded the new version, another project on the same database finds its files, made
  by the old version, and keeps them; had it started first, they would have been purged.\<close>

theorem upgrade_skips_other_projects:
  assumes inv: "pg_inv pg" and pq: "p \<noteq> q" and old: "pg_get_config parser_version_config_key pg \<notin> {[], chunk_algorithm_version}"
  shows "\<exists>pg1 pg2. ensure_parser_version (pg_version_store coll p) pg = (Inr (), pg1) \<and> pg_list_files coll p pg1 = []
    \<and> pg_set_config parser_version_config_key chunk_algorithm_version pg1 = (Inr (), pg2)
    \<and> ensure_parser_version (pg_version_store coll q) pg2 = (Inr (), pg2) \<and> pg_list_files coll q pg2 = pg_list_files coll q pg
    \<and> (\<exists>pg'. ensure_parser_version (pg_version_store coll q) pg = (Inr (), pg') \<and> pg_list_files coll q pg' = [])"
proof -
  from pgv.ensure_purges [OF inv, of coll p] old obtain pg1 where
    e: "ensure_parser_version (pg_version_store coll p) pg = (Inr (), pg1)" "pg_list_files coll p pg1 = []"
      "pg_project pg1 = pg_project pg" "other_files p pg1 = other_files p pg" by auto
  define pg2 where "pg2 = pg1\<lparr>pg_sql := (pg_sql pg1)\<lparr>db_config := AList.update parser_version_config_key chunk_algorithm_version (db_config (pg_sql pg1))\<rparr>\<rparr>"
  have set: "pg_set_config parser_version_config_key chunk_algorithm_version pg1 = (Inr (), pg2)"
    by (simp add: pg_set_config_def pg_run_def pg2_def)
  have "pg_get_config parser_version_config_key pg2 = chunk_algorithm_version"
    by (simp add: pg_get_config_def pg2_def update_conv')
  then have keep: "ensure_parser_version (pg_version_store coll q) pg2 = (Inr (), pg2)"
    by (simp add: ensure_parser_version_def pg_version_store_def)
  have via: "pg_list_files coll q x = sort_key (\<lambda>f. coll (fr_Path f)) (filter (\<lambda>f. owned q x (fr_ID f)) (other_files p x))" for x
    using pq by (auto simp: pg_list_files_def other_files_def filter_filter intro!: arg_cong [of _ _ "sort_key _"] filter_cong)
  have "pg_list_files coll q pg2 = pg_list_files coll q pg"
    using e(3,4) unfolding via by (simp add: pg2_def other_files_def)
  with pgv.ensure_purges [OF inv, of coll q] old e set keep show ?thesis by auto
qed

theorem upgrade_skips_other_projects_witness:
  "\<exists>pg1 pg2. ensure_parser_version (pg_version_store (\<lambda>x. x) 1) (sample_pg\<lparr>pg_sql := (pg_sql sample_pg)\<lparr>db_config := [(parser_version_config_key, ''2'')]\<rparr>\<rparr>)
       = (Inr (), pg1)
     \<and> pg_set_config parser_version_config_key chunk_algorithm_version pg1 = (Inr (), pg2)
     \<and> ensure_parser_version (pg_version_store (\<lambda>x. x) 2) pg2 = (Inr (), pg2) \<and> map fr_ID (pg_list_files (\<lambda>x. x) 2 pg2) = [2, 3]"
proof -
  let ?pg = "sample_pg\<lparr>pg_sql := (pg_sql sample_pg)\<lparr>db_config := [(parser_version_config_key, ''2'')]\<rparr>\<rparr>"
  have "pg_exec 1 (CSetConfig parser_version_config_key ''2'') sample_pg = (Inr ADone, ?pg)"
    by (simp add: pg_ans_def pg_set_config_def pg_run_def sample_pg_def sample_db_def)
  then have "pg_inv ?pg" using isolated_exec [OF sample_pg_ok, of 1 "CSetConfig parser_version_config_key ''2''"] by (simp add: isolated_def)
  moreover have "pg_get_config parser_version_config_key ?pg \<notin> {[], chunk_algorithm_version}"
    by (simp add: pg_get_config_def chunk_algorithm_version_def)
  moreover have "map fr_ID (pg_list_files (\<lambda>x. x) 2 ?pg) = [2, 3]"
    by (simp add: pg_list_files_def sample_pg_def sample_defs)
  ultimately show ?thesis using upgrade_skips_other_projects [of ?pg 1 2 "\<lambda>x. x"] by auto
qed

section \<open>Indexing a project\<close>

text \<open>\<open>IndexProject\<close>: the version check and the recording of the version only log their errors. The writer is
  started before and drained afterwards, so it accepts the producer.\<close>

definition index_project ::
  "scan_env \<Rightarrow> pipeline \<Rightarrow> bool \<Rightarrow> (scanned_file \<Rightarrow> job_env) \<Rightarrow> (scanned_file list \<Rightarrow> scanned_file list) \<Rightarrow> sql_db \<Rightarrow>
   unit res \<times> (scanned_file \<times> int list res) list \<times> sql_db" where
  "index_project scan ep batch env sched db =
     (let db1 = snd (ensure_parser_version sqlite_version_store db) in
      case scan_repo scan of
        Inl e \<Rightarrow> (Inl (ErrWrap ''scan repo'' e), [], db1)
      | Inr files \<Rightarrow>
          (case index_all ep batch True env sched files db1 of
             (Inl e, results, db2) \<Rightarrow> (Inl (ErrWrap ''index all'' e), results, db2)
           | (Inr _, results, db2) \<Rightarrow>
               (Inr (), results, snd (set_config parser_version_config_key chunk_algorithm_version db2))))"

lemma update_same: "map_of al k = Some v \<Longrightarrow> AList.update k v al = al"
  by (induction al) (auto split: if_splits)

lemma run_jobs_files: "map fst (fst (run_jobs ep env fs db)) = fs"
proof (induction fs arbitrary: db)
  case (Cons f fs)
  have "map fst rs = fs" if "run_jobs ep env fs d = (rs, d')" for rs d d' using Cons.IH [of d] that by simp
  then show ?case by (auto split: sum.split prod.split)
qed simp

lemma filter_changed_config: "filter_changed batch files (db\<lparr>db_config := c\<rparr>) = filter_changed batch files db"
proof -
  have "get_file_by_path p (db\<lparr>db_config := c\<rparr>) = get_file_by_path p db" for p by (simp add: get_file_by_path_def)
  then show ?thesis by (simp add: filter_changed_def existing_hashes_def batch_get_file_hashes_def)
qed

text \<open>C26. Indexing a project whose jobs succeed leaves every scanned file recorded with its hash, the store in
  order with its full-text triggers, and the version of the chunker recorded; doing it again has
  nothing to do and changes nothing. When the index was made by another version, every scanned file
  has been parsed again.\<close>

theorem index_project_complete:
  assumes "store_ok db" and "db_fts_triggers db" and scan: "scan_repo scan = Inr files" and "distinct (map sf_Path files)"
    and "\<And>fs. mset (sched fs) = mset fs" and fresh: "\<forall>f \<in> set files. not_stale ep env db f" and parsers: "ep_Parsers ep \<noteq> []"
    and run: "index_project scan ep batch env sched db = (Inr (), results, db')" and good: "\<forall>(f, r) \<in> set results. \<not> isl r"
  shows "(\<forall>f \<in> set files. indexed db' f) \<and> store_ok db' \<and> db_fts_triggers db'
    \<and> get_config parser_version_config_key db' = chunk_algorithm_version
    \<and> index_project scan ep batch env sched db' = (Inr (), [], db')
    \<and> (get_config parser_version_config_key db \<notin> {[], chunk_algorithm_version} \<longrightarrow> fst ` set results = set files)"
proof -
  from sqv.ensure_purges [of db "db_fts_triggers db"] assms(1) obtain db1 where
    e: "ensure_parser_version sqlite_version_store db = (Inr (), db1)" "store_ok db1" "db_fts_triggers db1 = db_fts_triggers db"
      "if get_config parser_version_config_key db \<in> {[], chunk_algorithm_version} then db1 = db else list_files db1 = []" by auto
  have no_files: "list_files x = [] \<Longrightarrow> db_files x = []" for x by (metis list_files_def mset_sort mset_zero_iff)
  have fresh1: "\<forall>f \<in> set files. not_stale ep env db1 f"
    using e(4) fresh no_files [of db1] by (auto simp: not_stale_def get_file_by_path_def split: if_splits)
  from run scan e(1) obtain db2 where idx: "index_all ep batch True env sched files db1 = (Inr (), results, db2)"
    and db': "db' = snd (set_config parser_version_config_key chunk_algorithm_version db2)"
    by (auto simp: index_project_def split: prod.splits sum.splits)
  from index_all_post [OF e(2) _ assms(4,5) fresh1 parsers idx good] assms(2) e(3)
  have post: "\<forall>f \<in> set files. indexed db2 f" "store_ok db2" "db_fts_triggers db2" "filter_changed batch files db2 = []" by auto
  have cfg: "db' = db2\<lparr>db_config := AList.update parser_version_config_key chunk_algorithm_version (db_config db2)\<rparr>"
    by (simp add: db' set_config_def with_write_tx_def)
  have ver: "get_config parser_version_config_key db' = chunk_algorithm_version"
    by (simp add: get_config_def cfg update_conv')
  have ok': "store_ok db'" using post(2) by (simp add: cfg store_ok_def db_inv_def fts_fresh_def)
  have same: "snd (set_config parser_version_config_key chunk_algorithm_version db') = db'"
    using update_same [of "db_config db'" parser_version_config_key chunk_algorithm_version]
    by (simp add: cfg set_config_def with_write_tx_def update_conv')
  have "filter_changed batch files db' = []" using post(4) by (simp add: cfg filter_changed_config)
  then have "index_all ep batch True env sched files db' = (Inr (), [], db')" by (simp add: index_all_def)
  moreover have "ensure_parser_version sqlite_version_store db' = (Inr (), db')"
    using ver by (simp add: ensure_parser_version_def sqlite_version_store_def)
  ultimately have again: "index_project scan ep batch env sched db' = (Inr (), [], db')"
    using scan same by (simp add: index_project_def)
  have all: "fst ` set results = set files" if old: "get_config parser_version_config_key db \<notin> {[], chunk_algorithm_version}"
  proof -
    from e(4) old no_files have "db_files db1 = []" by auto
    then have "filter_changed batch files db1 = files"
      by (auto simp: filter_changed_due [OF e(2)] due_def get_file_by_path_def intro!: filter_True)
    then show ?thesis
    proof (cases "files = []")
      case True
      then show ?thesis using idx by (auto simp: index_all_def filter_changed_def)
    next
      case False
      from index_all_runs [OF idx parsers] \<open>filter_changed batch files db1 = files\<close> False obtain db3
        where "run_jobs ep env (sched files) (db1\<lparr>db_fts_triggers := False\<rparr>) = (results, db3)" by metis
      with run_jobs_files [of ep env "sched files" "db1\<lparr>db_fts_triggers := False\<rparr>"] have "map fst results = sched files" by simp
      then have "set (map fst results) = set files" using assms(5) by (metis mset_eq_setD)
      then show ?thesis by simp
    qed
  qed
  from post(1,3) have "\<forall>f \<in> set files. indexed db' f" "db_fts_triggers db'" by (simp_all add: cfg indexed_def get_file_by_path_def)
  with ok' ver again all show ?thesis by blast
qed

theorem index_project_complete_witness:
  "\<exists>results db'. index_project sample_scan sample_pipeline True (\<lambda>_. sample_env) rev (empty_db\<lparr>db_config := [(parser_version_config_key, ''2'')]\<rparr>) = (Inr (), results, db')
     \<and> indexed db' sample_file \<and> fst ` set results = {sample_file}"
proof -
  let ?db = "empty_db\<lparr>db_config := [(parser_version_config_key, ''2'')]\<rparr>"
  let ?run = "index_project sample_scan sample_pipeline True (\<lambda>_. sample_env) rev ?db"
  have "ensure_parser_version sqlite_version_store ?db = (Inr (), ?db)"
    by (simp add: ensure_parser_version_def sqlite_version_store_def list_files_def empty_db_def)
  then have "snd (ensure_parser_version sqlite_version_store ?db) = ?db" by simp
  note eval = index_project_def [of sample_scan sample_pipeline True _ rev ?db, unfolded this Let_def]
  have "fst ?run = Inr ()" unfolding eval by code_simp
  then obtain results db' where run: "?run = (Inr (), results, db')" by (metis prod.collapse)
  have "list_all (\<lambda>(f, r). \<not> isl r) (fst (snd ?run))" unfolding eval by code_simp
  then have good: "\<forall>(f, r) \<in> set results. \<not> isl r" using run by (simp add: list_all_iff)
  have scan: "scan_repo sample_scan = Inr [sample_file]" by code_simp
  have "store_ok ?db" using empty_db_ok by (simp add: store_ok_def db_inv_def fts_fresh_def)
  moreover have "db_fts_triggers ?db" by (simp add: empty_db_def)
  moreover note scan
  moreover have "\<forall>f \<in> set [sample_file]. not_stale sample_pipeline (\<lambda>_. sample_env) ?db f"
    by (simp add: not_stale_def sample_env_def split: option.split)
  moreover have old: "get_config parser_version_config_key ?db \<notin> {[], chunk_algorithm_version}"
    by (simp add: get_config_def chunk_algorithm_version_def)
  moreover have "ep_Parsers sample_pipeline \<noteq> []" by (simp add: sample_pipeline_def)
  ultimately have "indexed db' sample_file \<and> fst ` set results = {sample_file}"
    using index_project_complete [of ?db sample_scan "[sample_file]" rev sample_pipeline "\<lambda>_. sample_env" True results db'] run good by simp
  with run show ?thesis by blast
qed

end
