(* ===== verification/Watcher.thy ===== *)
theory Watcher
  imports Reindex "HOL-Library.Multiset"
begin

text \<open>
  \<open>internal/daemon/watcher.go\<close>: from file system events to change events, debounced. \<open>handleEvent\<close> and
  \<open>flushPending\<close> are functions; the goroutine that receives file system events, the flusher, the
  consumer and the cancellation of the context are a step relation. What the file system says at a
  step is an argument of the step. The pending paths are an association list; a flush takes them in
  its order. \<open>filepath.Rel\<close> has no error: both paths are absolute.
\<close>

record fs_event =
  ev_Name :: string
  ev_Create :: bool

record watch_env =
  we_isDir :: "string \<Rightarrow> bool"
  we_exists :: "string \<Rightarrow> bool"
  we_EvalSymlinks :: "string \<Rightarrow> string res"
  we_addOk :: "string \<Rightarrow> bool"

record watcher =
  wt_root :: string
  wt_debounce :: int
  wt_watched :: "string list"
  wt_pending :: "(string \<times> int) list"
  wt_eventCh :: "file_change_event list"
  wt_branchSwitchCh :: bool
  wt_dropCount :: int

definition event_ch_cap :: nat where "event_ch_cap = 100"

definition new_watcher :: "string \<Rightarrow> int \<Rightarrow> watcher" where
  "new_watcher rootDir debounceMs = \<lparr>wt_root = rootDir, wt_debounce = debounceMs * 10 ^ 6, wt_watched = [], wt_pending = [],
     wt_eventCh = [], wt_branchSwitchCh = False, wt_dropCount = 0\<rparr>"

section \<open>Directories\<close>

text \<open>\<open>addDirRecursive\<close>: the directories added, and whether an \<open>Add\<close> failed, which ends the walk.\<close>

fun add_dir_recursive :: "(string \<Rightarrow> bool) \<Rightarrow> string \<Rightarrow> string \<Rightarrow> fs_entry \<Rightarrow> string list \<times> bool"
and add_dirs :: "(string \<Rightarrow> bool) \<Rightarrow> string \<Rightarrow> string \<Rightarrow> fs_entry list \<Rightarrow> string list \<times> bool" where
  "add_dir_recursive addOk rootDir path (FsError n) = ([], True)"
| "add_dir_recursive addOk rootDir path (FsFile n) = ([], True)"
| "add_dir_recursive addOk rootDir path (FsDir n es) =
     (if n \<in> scan_skip_dirs \<or> (prefix ''.'' n \<and> n \<noteq> ''.'' \<and> path \<noteq> rootDir) then ([], True)
      else if \<not> addOk path then ([], False)
      else let (ds, ok) = add_dirs addOk rootDir path es in (path # ds, ok))"
| "add_dirs addOk rootDir path [] = ([], True)"
| "add_dirs addOk rootDir path (e # es) =
     (let (ds, ok) = add_dir_recursive addOk rootDir (join_path path (entry_name e)) e in
      if \<not> ok then (ds, False) else let (ds', ok') = add_dirs addOk rootDir path es in (ds @ ds', ok'))"

section \<open>Events\<close>

definition handle_event :: "watch_env \<Rightarrow> fs_event \<Rightarrow> int \<Rightarrow> watcher \<Rightarrow> watcher" where
  "handle_event env event now w =
     (let path = ev_Name event in
      if ev_Create event \<and> we_isDir env path then
        (let name = filepath_base path in
         if name \<notin> scan_skip_dirs \<and> \<not> prefix ''.'' name \<and> we_addOk env path then w\<lparr>wt_watched := wt_watched w @ [path]\<rparr> else w)
      else if language_for_ext (to_lower (filepath_ext path)) = None then w
      else case we_EvalSymlinks env path of
        Inl e \<Rightarrow> w
      | Inr absPath \<Rightarrow>
          let absRoot = (case we_EvalSymlinks env (wt_root w) of Inl _ \<Rightarrow> [] | Inr r \<Rightarrow> r) in
          if absPath \<noteq> absRoot \<and> \<not> prefix (absRoot @ [slash]) absPath then w
          else w\<lparr>wt_pending := AList.update absPath now (wt_pending w)\<rparr>)"

text \<open>The first part of \<open>flushPending\<close>, under the mutex: the paths that are ready leave the map.\<close>

definition ready_paths :: "int \<Rightarrow> watcher \<Rightarrow> string list" where
  "ready_paths now w = map fst (filter (\<lambda>(p, ts). now - ts \<ge> wt_debounce w) (wt_pending w))"

definition start_flush :: "int \<Rightarrow> watcher \<Rightarrow> string list \<times> watcher" where
  "start_flush now w =
     (let ready = ready_paths now w in
      (ready, w\<lparr>wt_pending := filter (\<lambda>(p, ts). \<not> now - ts \<ge> wt_debounce w) (wt_pending w),
                wt_branchSwitchCh := wt_branchSwitchCh w \<or> length ready > 20\<rparr>))"

definition change_event :: "watch_env \<Rightarrow> int \<Rightarrow> watcher \<Rightarrow> string \<Rightarrow> file_change_event" where
  "change_event env now w absPath =
     \<lparr>fe_Path = filepath_rel (wt_root w) absPath, fe_AbsPath = absPath,
      fe_ChangeType = (if \<not> we_exists env absPath then ''delete'' else ''modify''), fe_Timestamp = now\<rparr>"

section \<open>The goroutines\<close>

datatype flusher = Idle | Emitting "string list" | Sending file_change_event "string list" | Stopped

text \<open>The paths taken from the map, the events sent, received and given up are recorded.\<close>

record watch_sys =
  ws_w :: watcher
  ws_flush :: flusher
  ws_cancelled :: bool
  ws_closed :: bool
  ws_panicked :: bool
  ws_taken :: "string list"
  ws_received :: "file_change_event list"
  ws_given_up :: "file_change_event list"

definition new_watch_sys :: "string \<Rightarrow> int \<Rightarrow> watch_sys" where
  "new_watch_sys rootDir debounceMs = \<lparr>ws_w = new_watcher rootDir debounceMs, ws_flush = Idle, ws_cancelled = False, ws_closed = False,
     ws_panicked = False, ws_taken = [], ws_received = [], ws_given_up = []\<rparr>"

inductive watch_step :: "watch_sys \<Rightarrow> watch_sys \<Rightarrow> bool" where
  ws_event: "\<not> ws_closed s \<Longrightarrow> watch_step s (s\<lparr>ws_w := handle_event env e now (ws_w s)\<rparr>)"
| ws_tick: "ws_flush s = Idle \<Longrightarrow> start_flush now (ws_w s) = (ready, w') \<Longrightarrow>
    watch_step s (s\<lparr>ws_w := w', ws_flush := Emitting ready, ws_taken := ws_taken s @ ready\<rparr>)"
| ws_flushed: "ws_flush s = Emitting [] \<Longrightarrow> watch_step s (s\<lparr>ws_flush := Idle\<rparr>)"
| ws_prepare: "ws_flush s = Emitting (p # ps) \<Longrightarrow> watch_step s (s\<lparr>ws_flush := Sending (change_event env now (ws_w s) p) ps\<rparr>)"
| ws_send: "ws_flush s = Sending ev ps \<Longrightarrow> \<not> ws_closed s \<Longrightarrow> length (wt_eventCh (ws_w s)) < event_ch_cap \<Longrightarrow>
    watch_step s (s\<lparr>ws_w := (ws_w s)\<lparr>wt_eventCh := wt_eventCh (ws_w s) @ [ev]\<rparr>, ws_flush := Emitting ps\<rparr>)"
| ws_timeout: "ws_flush s = Sending ev ps \<Longrightarrow>
    watch_step s (s\<lparr>ws_w := (ws_w s)\<lparr>wt_dropCount := wt_dropCount (ws_w s) + 1\<rparr>, ws_flush := Emitting ps, ws_given_up := ws_given_up s @ [ev]\<rparr>)"
| ws_panic: "ws_flush s = Sending ev ps \<Longrightarrow> ws_closed s \<Longrightarrow> watch_step s (s\<lparr>ws_panicked := True\<rparr>)"
| ws_receive: "wt_eventCh (ws_w s) = ev # evs \<Longrightarrow>
    watch_step s (s\<lparr>ws_w := (ws_w s)\<lparr>wt_eventCh := evs\<rparr>, ws_received := ws_received s @ [ev]\<rparr>)"
| ws_branch: "wt_branchSwitchCh (ws_w s) \<Longrightarrow> watch_step s (s\<lparr>ws_w := (ws_w s)\<lparr>wt_branchSwitchCh := False\<rparr>\<rparr>)"
| ws_cancel: "watch_step s (s\<lparr>ws_cancelled := True\<rparr>)"
| ws_close: "ws_cancelled s \<Longrightarrow> \<not> ws_closed s \<Longrightarrow> watch_step s (s\<lparr>ws_closed := True\<rparr>)"
| ws_stop: "ws_flush s = Idle \<Longrightarrow> ws_cancelled s \<Longrightarrow> watch_step s (s\<lparr>ws_flush := Stopped\<rparr>)"

text \<open>A panic ends the process.\<close>

inductive watch_reach :: "string \<Rightarrow> int \<Rightarrow> watch_sys \<Rightarrow> bool" for rootDir debounceMs where
  wr_new: "watch_reach rootDir debounceMs (new_watch_sys rootDir debounceMs)"
| wr_next: "watch_reach rootDir debounceMs s \<Longrightarrow> \<not> ws_panicked s \<Longrightarrow> watch_step s s' \<Longrightarrow> watch_reach rootDir debounceMs s'"

section \<open>Lemmas\<close>

lemma wr_step: "watch_reach rootDir d s \<Longrightarrow> watch_step s s' \<Longrightarrow> \<not> ws_panicked s \<Longrightarrow> watch_reach rootDir d s'"
  by (rule wr_next)

lemma shuffles_snoc:
  "zs \<in> shuffles xs ys \<Longrightarrow> zs @ [z] \<in> shuffles (xs @ [z]) ys"
  "zs \<in> shuffles xs ys \<Longrightarrow> zs @ [z] \<in> shuffles xs (ys @ [z])"
  by (induction zs arbitrary: xs ys) (force simp: Cons_in_shuffles_iff tl_append split: list.split)+

fun outstanding :: "flusher \<Rightarrow> string list" where
  "outstanding (Emitting ps) = ps"
| "outstanding (Sending ev ps) = fe_AbsPath ev # ps"
| "outstanding Idle = []"
| "outstanding Stopped = []"

definition watch_inv :: "string \<Rightarrow> int \<Rightarrow> watch_sys \<Rightarrow> bool" where
  "watch_inv rootDir debounceMs s \<longleftrightarrow>
     wt_root (ws_w s) = rootDir \<and> wt_debounce (ws_w s) = debounceMs * 10 ^ 6
   \<and> distinct (map fst (wt_pending (ws_w s))) \<and> length (wt_eventCh (ws_w s)) \<le> event_ch_cap
   \<and> (\<exists>handled. ws_taken s = handled @ outstanding (ws_flush s)
        \<and> handled \<in> shuffles (map fe_AbsPath (ws_received s @ wt_eventCh (ws_w s))) (map fe_AbsPath (ws_given_up s)))
   \<and> wt_dropCount (ws_w s) = int (length (ws_given_up s))
   \<and> (\<forall>ev \<in> set (ws_received s @ wt_eventCh (ws_w s)). fe_Path ev = filepath_rel rootDir (fe_AbsPath ev))
   \<and> (\<forall>ev ps. ws_flush s = Sending ev ps \<longrightarrow> fe_Path ev = filepath_rel rootDir (fe_AbsPath ev))
   \<and> (ws_closed s \<longrightarrow> ws_cancelled s) \<and> (ws_panicked s \<longrightarrow> ws_closed s)"

lemma handle_event_fields [simp]:
  "wt_root (handle_event env e now w) = wt_root w" "wt_debounce (handle_event env e now w) = wt_debounce w"
  "wt_eventCh (handle_event env e now w) = wt_eventCh w" "wt_dropCount (handle_event env e now w) = wt_dropCount w"
  by (auto simp: handle_event_def Let_def split: sum.split option.split)

lemma handle_event_distinct:
  "distinct (map fst (wt_pending w)) \<Longrightarrow> distinct (map fst (wt_pending (handle_event env e now w)))"
  by (auto simp: handle_event_def Let_def distinct_update split: sum.split option.split)

lemma start_flush_fields:
  assumes "start_flush now w = (ready, w')"
  shows "wt_root w' = wt_root w" "wt_debounce w' = wt_debounce w" "wt_eventCh w' = wt_eventCh w" "wt_dropCount w' = wt_dropCount w"
    and "wt_pending w' = filter (\<lambda>(p, ts). \<not> now - ts \<ge> wt_debounce w) (wt_pending w)" "ready = ready_paths now w"
    and "wt_branchSwitchCh w' \<longleftrightarrow> wt_branchSwitchCh w \<or> length ready > 20"
  using assms by (auto simp: start_flush_def Let_def)

lemma watch_inv_step:
  assumes "watch_step s s'" and "watch_inv rootDir d s"
  shows "watch_inv rootDir d s'"
  using assms
proof (induction rule: watch_step.induct)
  case (ws_event s env e now)
  then show ?case by (simp add: watch_inv_def handle_event_distinct)
next
  case (ws_tick s now ready w')
  note f = start_flush_fields [OF ws_tick.hyps(2)]
  have "distinct (map fst (wt_pending w'))" using ws_tick.prems by (simp add: f(5) watch_inv_def distinct_map_filter)
  with ws_tick f show ?case by (simp add: watch_inv_def)
next
  case (ws_prepare s p ps env now)
  then show ?case by (simp add: watch_inv_def change_event_def)
next
  case (ws_send s ev ps)
  then obtain handled where h: "ws_taken s = (handled @ [fe_AbsPath ev]) @ ps"
    "handled \<in> shuffles (map fe_AbsPath (ws_received s @ wt_eventCh (ws_w s))) (map fe_AbsPath (ws_given_up s))"
    by (auto simp: watch_inv_def)
  from shuffles_snoc(1) [OF h(2), of "fe_AbsPath ev"] h(1) ws_send show ?case
    by (auto simp: watch_inv_def event_ch_cap_def)
next
  case (ws_timeout s ev ps)
  then obtain handled where h: "ws_taken s = (handled @ [fe_AbsPath ev]) @ ps"
    "handled \<in> shuffles (map fe_AbsPath (ws_received s @ wt_eventCh (ws_w s))) (map fe_AbsPath (ws_given_up s))"
    by (auto simp: watch_inv_def)
  from shuffles_snoc(2) [OF h(2), of "fe_AbsPath ev"] h(1) ws_timeout show ?case
    by (auto simp: watch_inv_def)
next
  case (ws_receive s ev evs)
  then show ?case by (simp add: watch_inv_def event_ch_cap_def)
qed (simp_all add: watch_inv_def)

lemma watch_reach_inv: "watch_reach rootDir d s \<Longrightarrow> watch_inv rootDir d s"
proof (induction rule: watch_reach.induct)
  case wr_new
  show ?case by (simp add: new_watch_sys_def new_watcher_def watch_inv_def)
qed (rule watch_inv_step)

text \<open>What is pending for a path to which nothing resolves stays as it is.\<close>

lemma gone_events:
  assumes "\<forall>(env, e, t) \<in> set events. \<forall>q. we_EvalSymlinks env q \<noteq> Inr gone" and "distinct (map fst (wt_pending w))"
  shows "gone \<in> set (ready_paths now (fold (\<lambda>(env, e, t). handle_event env e t) events w))
    \<longleftrightarrow> (\<exists>t. (gone, t) \<in> set (wt_pending w) \<and> t + wt_debounce w \<le> now)"
  using assms
proof (induction events arbitrary: w)
  case Nil
  have "gone \<in> set (ready_paths now w) \<longleftrightarrow> (\<exists>t. (gone, t) \<in> set (wt_pending w) \<and> now - t \<ge> wt_debounce w)"
    by (auto simp: ready_paths_def image_iff)
  then show ?case by (simp add: algebra_simps)
next
  case (Cons x events)
  obtain env e t where x: "x = (env, e, t)" by (cases x)
  have d: "distinct (map fst (wt_pending (handle_event env e t w)))" using Cons.prems(2) by (rule handle_event_distinct)
  have "map_of (wt_pending (handle_event env e t w)) gone = map_of (wt_pending w) gone"
    using Cons.prems(1) x by (auto simp: handle_event_def Let_def update_conv' split: sum.split option.split)
  with d Cons.prems(2) have "(gone, ts) \<in> set (wt_pending (handle_event env e t w)) \<longleftrightarrow> (gone, ts) \<in> set (wt_pending w)" for ts
    by (metis map_of_eq_Some_iff)
  with Cons.IH [OF _ d] Cons.prems(1) x show ?case by simp
qed

section \<open>Properties\<close>

text \<open>C30. No change is lost without trace, and the order is kept: the paths that flushes took are first those
  handled, then those still to be sent; the handled ones are an interleaving, each in its order, of the paths
  delivered to the consumer or waiting for it in the channel, oldest first, and of those given up. Each of
  these is counted as dropped, the channel never holds more than its capacity, and every event names its file
  relative to the root.\<close>

theorem watcher_accounts:
  assumes "watch_reach rootDir debounceMs s"
  shows "(\<exists>handled. ws_taken s = handled @ outstanding (ws_flush s)
        \<and> handled \<in> shuffles (map fe_AbsPath (ws_received s @ wt_eventCh (ws_w s))) (map fe_AbsPath (ws_given_up s)))
    \<and> wt_dropCount (ws_w s) = int (length (ws_given_up s)) \<and> length (wt_eventCh (ws_w s)) \<le> 100
    \<and> list_all (\<lambda>ev. fe_Path ev = filepath_rel rootDir (fe_AbsPath ev)) (ws_received s @ wt_eventCh (ws_w s))"
  using watch_reach_inv [OF assms] by (auto simp: watch_inv_def event_ch_cap_def list_all_iff)

text \<open>A file system in which nothing is a link, and a change of \<open>/p/a.go\<close>.\<close>

definition plain_env :: watch_env where
  "plain_env = \<lparr>we_isDir = (\<lambda>_. False), we_exists = (\<lambda>_. True), we_EvalSymlinks = Inr, we_addOk = (\<lambda>_. True)\<rparr>"

text \<open>One in which every file is gone and \<open>/p/new\<close> is a directory.\<close>

definition gone_env :: watch_env where
  "gone_env = plain_env\<lparr>we_EvalSymlinks := (\<lambda>_. Inl (ErrMsg ''no such file'')), we_exists := (\<lambda>_. False), we_isDir := (\<lambda>d. d = ''/p/new'')\<rparr>"

definition one_pending :: watch_sys where
  "one_pending = (new_watch_sys ''/p'' 200)\<lparr>ws_w := (new_watcher ''/p'' 200)\<lparr>wt_pending := [(''/p/a.go'', 5)]\<rparr>\<rparr>"

definition one_sending :: watch_sys where
  "one_sending = one_pending\<lparr>ws_w := new_watcher ''/p'' 200,
     ws_flush := Sending \<lparr>fe_Path = ''a.go'', fe_AbsPath = ''/p/a.go'', fe_ChangeType = ''modify'', fe_Timestamp = 9\<rparr> [], ws_taken := [''/p/a.go'']\<rparr>"

lemma one_pending_reach: "watch_reach ''/p'' 200 one_pending"
proof (rule wr_next [OF wr_new])
  have "handle_event plain_env \<lparr>ev_Name = ''/p/a.go'', ev_Create = False\<rparr> 5 (new_watcher ''/p'' 200)
      = (new_watcher ''/p'' 200)\<lparr>wt_pending := [(''/p/a.go'', 5)]\<rparr>" by code_simp
  then show "watch_step (new_watch_sys ''/p'' 200) one_pending"
    using ws_event [of "new_watch_sys ''/p'' 200" plain_env "\<lparr>ev_Name = ''/p/a.go'', ev_Create = False\<rparr>" 5]
    by (simp add: one_pending_def new_watch_sys_def)
qed (simp add: new_watch_sys_def)

lemma one_sending_reach: "watch_reach ''/p'' 200 one_sending"
proof -
  define s1 where "s1 = one_pending\<lparr>ws_w := new_watcher ''/p'' 200, ws_flush := Emitting [''/p/a.go''], ws_taken := [''/p/a.go'']\<rparr>"
  have "start_flush 300000000 (ws_w one_pending) = ([''/p/a.go''], new_watcher ''/p'' 200)"
    by (simp add: start_flush_def ready_paths_def one_pending_def new_watcher_def)
  with ws_tick [of one_pending 300000000] have "watch_step one_pending s1"
    by (simp add: s1_def one_pending_def new_watch_sys_def)
  with one_pending_reach have r1: "watch_reach ''/p'' 200 s1"
    by (rule wr_step) (simp add: one_pending_def new_watch_sys_def)
  have "change_event plain_env 9 (new_watcher ''/p'' 200) ''/p/a.go''
      = \<lparr>fe_Path = ''a.go'', fe_AbsPath = ''/p/a.go'', fe_ChangeType = ''modify'', fe_Timestamp = 9\<rparr>" by code_simp
  with ws_prepare [of s1 "''/p/a.go''" "[]" plain_env 9] have "watch_step s1 one_sending"
    by (simp add: s1_def one_sending_def one_pending_def new_watch_sys_def)
  with r1 show ?thesis by (rule wr_step) (simp add: s1_def one_pending_def new_watch_sys_def)
qed

theorem watcher_accounts_witness:
  "\<exists>s. watch_reach ''/p'' 200 s \<and> map fe_Path (wt_eventCh (ws_w s)) = [''a.go''] \<and> ws_taken s = [''/p/a.go'']"
proof -
  define s where "s = one_sending\<lparr>ws_w := (ws_w one_sending)\<lparr>wt_eventCh := [\<lparr>fe_Path = ''a.go'', fe_AbsPath = ''/p/a.go'',
      fe_ChangeType = ''modify'', fe_Timestamp = 9\<rparr>]\<rparr>, ws_flush := Emitting []\<rparr>"
  note defs = one_sending_def one_pending_def new_watch_sys_def new_watcher_def event_ch_cap_def
  have "watch_step one_sending s"
    using ws_send [of one_sending "\<lparr>fe_Path = ''a.go'', fe_AbsPath = ''/p/a.go'', fe_ChangeType = ''modify'', fe_Timestamp = 9\<rparr>" "[]"]
    by (simp add: s_def defs)
  with one_sending_reach have "watch_reach ''/p'' 200 s" by (rule wr_step) (simp add: defs)
  moreover from watcher_accounts [OF this] have "ws_taken s = [''/p/a.go'']" by (auto simp: s_def defs)
  ultimately show ?thesis by (intro exI [of _ s]) (simp add: s_def)
qed

text \<open>C31. Debouncing: after an event of a source file inside the root, a flush takes the file once the debounce
  time has passed since that event and not before, however often it changed; it takes it once, and
  leaves exactly the paths that have to wait. More than twenty at once are signalled as a switch of
  branches.\<close>

theorem debounce_exact:
  assumes "distinct (map fst (wt_pending w))" and "\<not> (ev_Create e \<and> we_isDir env (ev_Name e))"
    and "language_for_ext (to_lower (filepath_ext (ev_Name e))) \<noteq> None"
    and "we_EvalSymlinks env (ev_Name e) = Inr p" and "we_EvalSymlinks env (wt_root w) = Inr absRoot" and "prefix (absRoot @ [slash]) p"
    and "start_flush now (handle_event env e t w) = (ready, w')"
  shows "(p \<in> set ready \<longleftrightarrow> t + wt_debounce w \<le> now) \<and> distinct ready
    \<and> set ready \<union> fst ` set (wt_pending w') = insert p (fst ` set (wt_pending w)) \<and> set ready \<inter> fst ` set (wt_pending w') = {}
    \<and> (wt_branchSwitchCh w' \<longleftrightarrow> wt_branchSwitchCh w \<or> length ready > 20)"
proof -
  have h: "handle_event env e t w = w\<lparr>wt_pending := AList.update p t (wt_pending w)\<rparr>"
    unfolding handle_event_def Let_def using assms(2-6) by auto
  let ?ps = "AList.update p t (wt_pending w)" and ?old = "\<lambda>(p, ts). now - ts \<ge> wt_debounce w"
  have d: "distinct (map fst ?ps)" using assms(1) by (simp add: distinct_update)
  have r: "ready = map fst (filter ?old ?ps)" and w': "wt_pending w' = filter (\<lambda>x. \<not> ?old x) ?ps"
    "wt_branchSwitchCh w' \<longleftrightarrow> wt_branchSwitchCh w \<or> length ready > 20"
    using start_flush_fields [OF assms(7)] by (simp_all add: h ready_paths_def case_prod_unfold)
  have mem: "(p, ts) \<in> set ?ps \<longleftrightarrow> ts = t" for ts
    using d by (auto simp: update_conv' simp flip: map_of_eq_Some_iff)
  have "p \<in> set ready \<longleftrightarrow> t + wt_debounce w \<le> now" unfolding r using mem [of t] by (force simp: mem)
  moreover have "distinct ready" unfolding r by (rule distinct_map_filter [OF d])
  moreover have "set ready \<union> fst ` set (wt_pending w') = fst ` set ?ps" unfolding r w'(1) by (auto simp: image_iff)
  then have "set ready \<union> fst ` set (wt_pending w') = insert p (fst ` set (wt_pending w))"
    by (simp add: dom_update flip: dom_map_of_conv_image_fst) (simp add: update_conv' dom_fun_upd)
  moreover have "set ready \<inter> fst ` set (wt_pending w') = {}"
    unfolding r w'(1) using d by (auto dest: eq_key_imp_eq_value)
  ultimately show ?thesis using w'(2) by blast
qed

theorem debounce_exact_witness:
  "fst (start_flush 200000004 (handle_event plain_env \<lparr>ev_Name = ''/p/a.go'', ev_Create = False\<rparr> 5 (new_watcher ''/p'' 200))) = []
   \<and> set (fst (start_flush 200000005 (handle_event plain_env \<lparr>ev_Name = ''/p/a.go'', ev_Create = False\<rparr> 5 (new_watcher ''/p'' 200)))) = {''/p/a.go''}"
proof -
  let ?w = "new_watcher ''/p'' 200" and ?e = "\<lparr>ev_Name = ''/p/a.go'', ev_Create = False\<rparr>"
  have side: "distinct (map fst (wt_pending ?w))" "\<not> (ev_Create ?e \<and> we_isDir plain_env (ev_Name ?e))"
    "we_EvalSymlinks plain_env (ev_Name ?e) = Inr ''/p/a.go''" "we_EvalSymlinks plain_env (wt_root ?w) = Inr ''/p''"
    "prefix (''/p'' @ [slash]) ''/p/a.go''" by (simp_all add: new_watcher_def plain_env_def slash_def)
  have ext: "language_for_ext (to_lower (filepath_ext (ev_Name ?e))) \<noteq> None" by code_simp
  obtain r w' where a: "start_flush 200000004 (handle_event plain_env ?e 5 ?w) = (r, w')" by (metis prod.exhaust)
  obtain r' w'' where b: "start_flush 200000005 (handle_event plain_env ?e 5 ?w) = (r', w'')" by (metis prod.exhaust)
  note p = debounce_exact [OF side(1,2) ext side(3-5)]
  have pend: "wt_pending ?w = []" "wt_debounce ?w = 200000000" by (simp_all add: new_watcher_def)
  have "set r \<subseteq> {''/p/a.go''}" "''/p/a.go'' \<notin> set r" using p [OF a] pend by auto
  then have "r = []" by (cases r) auto
  moreover have "set r' = {''/p/a.go''}" using p [OF b] pend by auto
  ultimately show ?thesis using a b by simp
qed

text \<open>C32. What becomes of a file that is removed. While it is gone no path resolves to it, and no event, its own removal
  included, changes what is pending for it: if it was not pending no flush takes it and no delete event is
  made; only if a change of it was still pending does a flush take it, once the debounce time has passed since
  that change, and report it as deleted. Indexing the project again, which only looks at
  files that are there, leaves its rows too. Of a new directory only the directory itself is
  watched, not the directories and files it already contains.\<close>

theorem removal_adds_nothing:
  assumes "\<forall>(env, e, t) \<in> set events. \<forall>q. we_EvalSymlinks env q \<noteq> Inr gone" and "distinct (map fst (wt_pending w))"
    and "store_ok db" and "db_fts_triggers db" and "scan_repo scan = Inr files" and "distinct (map sf_Path files)"
    and "\<And>fs. mset (sched fs) = mset fs" and "\<forall>f \<in> set files. not_stale ep jenv db f" and "ep_Parsers ep \<noteq> []"
    and "get_config parser_version_config_key db \<in> {[], chunk_algorithm_version}"
    and "index_project scan ep batch jenv sched db = (Inr (), results, db')" and "\<forall>(f, r) \<in> set results. \<not> isl r"
    and "filepath_rel (wt_root w) gone \<notin> sf_Path ` set files" and "\<not> we_exists now_env gone" and "we_isDir now_env dir"
  shows "let w' = fold (\<lambda>(env, e, t). handle_event env e t) events w in
      (gone \<in> set (ready_paths now w') \<longleftrightarrow> (\<exists>t. (gone, t) \<in> set (wt_pending w) \<and> t + wt_debounce w \<le> now))
    \<and> fe_ChangeType (change_event now_env now w' gone) = ''delete''
    \<and> get_file_by_path (filepath_rel (wt_root w) gone) db' = get_file_by_path (filepath_rel (wt_root w) gone) db
    \<and> wt_pending (handle_event now_env \<lparr>ev_Name = dir, ev_Create = True\<rparr> now w) = wt_pending w
    \<and> set (wt_watched (handle_event now_env \<lparr>ev_Name = dir, ev_Create = True\<rparr> now w)) \<subseteq> insert dir (set (wt_watched w))"
proof -
  have "ensure_parser_version sqlite_version_store db = (Inr (), db)"
    using assms(10) by (auto simp: ensure_parser_version_def sqlite_version_store_def)
  with assms(5,11) obtain db2 where idx: "index_all ep batch True jenv sched files db = (Inr (), results, db2)"
    and db': "db' = snd (set_config parser_version_config_key chunk_algorithm_version db2)"
    by (auto simp: index_project_def split: prod.splits sum.splits)
  from index_all_post [OF assms(3,4,6,7,8,9) idx assms(12)] assms(13)
  have "get_file_by_path (filepath_rel (wt_root w) gone) db2 = get_file_by_path (filepath_rel (wt_root w) gone) db" by blast
  then have row: "get_file_by_path (filepath_rel (wt_root w) gone) db' = get_file_by_path (filepath_rel (wt_root w) gone) db"
    by (simp add: db' set_config_def with_write_tx_def get_file_by_path_def)
  show ?thesis
    unfolding Let_def using gone_events [OF assms(1,2), of now] row assms(14,15)
    by (auto simp: change_event_def handle_event_def Let_def)
qed

theorem removal_adds_nothing_witness:
  "\<exists>results db'. index_project sample_scan sample_pipeline True (\<lambda>_. sample_env) rev sample_db = (Inr (), results, db')
     \<and> ready_paths (10 ^ 12) (handle_event gone_env \<lparr>ev_Name = ''/p/b.go'', ev_Create = False\<rparr> 5 (new_watcher ''/p'' 200)) = []
     \<and> get_file_by_path ''b.go'' db' = get_file_by_path ''b.go'' sample_db \<and> get_file_by_path ''b.go'' sample_db \<noteq> None"
proof -
  let ?w = "new_watcher ''/p'' 200" and ?evs = "[(gone_env, \<lparr>ev_Name = ''/p/b.go'', ev_Create = False\<rparr>, 5)]"
  let ?run = "index_project sample_scan sample_pipeline True (\<lambda>_. sample_env) rev sample_db"
  have cfg: "get_config parser_version_config_key sample_db \<in> {[], chunk_algorithm_version}"
    by (simp add: get_config_def sample_db_def)
  then have "snd (ensure_parser_version sqlite_version_store sample_db) = sample_db"
    by (auto simp: ensure_parser_version_def sqlite_version_store_def)
  note eval = index_project_def [of sample_scan sample_pipeline True _ rev sample_db, unfolded this Let_def]
  have "fst ?run = Inr ()" unfolding eval by code_simp
  then obtain results db' where run: "?run = (Inr (), results, db')" by (metis prod.collapse)
  have "list_all (\<lambda>(f, r). \<not> isl r) (fst (snd ?run))" unfolding eval by code_simp
  then have good: "\<forall>(f, r) \<in> set results. \<not> isl r" using run by (simp add: list_all_iff)
  have rel: "filepath_rel (wt_root ?w) ''/p/b.go'' = ''b.go''" by code_simp
  have scan: "scan_repo sample_scan = Inr [sample_file]" by code_simp
  have "distinct (map sf_Path [sample_file])" "ep_Parsers sample_pipeline \<noteq> []" "db_fts_triggers sample_db"
    "\<forall>f \<in> set [sample_file]. not_stale sample_pipeline (\<lambda>_. sample_env) sample_db f"
    "filepath_rel (wt_root ?w) ''/p/b.go'' \<notin> sf_Path ` set [sample_file]"
    unfolding rel by (simp_all add: sample_pipeline_def sample_db_def not_stale_def sample_env_def sample_file_def split: option.split)
  note side = this
  have gone: "\<forall>(env, e, t) \<in> set ?evs. \<forall>q. we_EvalSymlinks env q \<noteq> Inr ''/p/b.go''" "distinct (map fst (wt_pending ?w))"
    "\<not> we_exists gone_env ''/p/b.go''" "we_isDir gone_env ''/p/new''"
    by (simp_all add: gone_env_def plain_env_def new_watcher_def)
  from removal_adds_nothing [OF gone(1,2) sample_db_ok(1) side(3) scan side(1) _ side(4,2) cfg run good side(5) gone(3,4), of "10 ^ 12"]
  have not_taken: "''/p/b.go'' \<notin> set (ready_paths (10 ^ 12) (fold (\<lambda>(env, e, t). handle_event env e t) ?evs ?w))"
    and row: "get_file_by_path ''b.go'' db' = get_file_by_path ''b.go'' sample_db" unfolding rel by (simp_all add: new_watcher_def Let_def)
  have "handle_event gone_env \<lparr>ev_Name = ''/p/b.go'', ev_Create = False\<rparr> 5 ?w = ?w" by code_simp
  moreover have "get_file_by_path ''b.go'' sample_db \<noteq> None" by (simp add: get_file_by_path_def sample_defs)
  ultimately show ?thesis using run row by (simp add: ready_paths_def new_watcher_def)
qed

text \<open>Stopping the watcher can crash the daemon: when the context is cancelled while the flusher is about to
  send an event, \<open>Start\<close> closes the channel and the send panics.\<close>

theorem watcher_shutdown_panics:
  "\<exists>s. watch_reach ''/p'' 200 s \<and> ws_cancelled s \<and> ws_panicked s"
proof -
  define s1 where "s1 = one_sending\<lparr>ws_cancelled := True\<rparr>"
  define s2 where "s2 = s1\<lparr>ws_closed := True\<rparr>"
  define s3 where "s3 = s2\<lparr>ws_panicked := True\<rparr>"
  note defs = s1_def s2_def s3_def one_sending_def one_pending_def new_watch_sys_def
  have "watch_step one_sending s1" unfolding s1_def by (rule ws_cancel)
  with one_sending_reach have r1: "watch_reach ''/p'' 200 s1" by (rule wr_step) (simp add: defs)
  have "watch_step s1 s2" unfolding s2_def by (rule ws_close) (simp_all add: defs)
  with r1 have r2: "watch_reach ''/p'' 200 s2" by (rule wr_step) (simp add: defs)
  have "watch_step s2 s3" unfolding s3_def by (rule ws_panic) (simp_all add: defs)
  with r2 have "watch_reach ''/p'' 200 s3" by (rule wr_step) (simp add: defs)
  then show ?thesis by (intro exI [of _ s3]) (simp add: defs)
qed

text \<open>A project reached through a link: the directory \<open>/link\<close> stands for \<open>/real\<close>.\<close>

definition link_env :: watch_env where
  "link_env = plain_env\<lparr>we_EvalSymlinks := (\<lambda>p. if p = ''/link/p'' then Inr ''/real/p'' else if p = ''/link/p/a.go'' then Inr ''/real/p/a.go'' else Inr p)\<rparr>"

text \<open>When the root lies behind a symbolic link, the watcher names a changed file by the way from the root to the
  resolved file, which leaves the root, while the scanner names it inside the root: the change is
  indexed as another file.\<close>

theorem linked_root_paths_differ:
  "map (\<lambda>p. fe_Path (change_event link_env 9 (new_watcher ''/link/p'' 200) p))
     (fst (start_flush 200000005 (handle_event link_env \<lparr>ev_Name = ''/link/p/a.go'', ev_Create = False\<rparr> 5 (new_watcher ''/link/p'' 200))))
     = [''../../real/p/a.go'']
   \<and> map_option sf_Path (scan_file
       \<lparr>sc_fs = \<lparr>fs_root = FsDir ''p'' [FsFile ''a.go''], fs_EvalSymlinks = we_EvalSymlinks link_env,
                fs_ReadFile = (\<lambda>_. Inr ''package p''), fs_caseSensitive = True\<rparr>,
        sc_root = ''/link/p'', sc_compile_ignore = (\<lambda>_ _. False), sc_sha256 = id, sc_info = (\<lambda>_. Some (1000, 9)), sc_cancelled = (\<lambda>_. False)\<rparr>
       None ''/real/p'' ''/link/p/a.go'' ''a.go'') = Some ''a.go''"
proof
  have "handle_event link_env \<lparr>ev_Name = ''/link/p/a.go'', ev_Create = False\<rparr> 5 (new_watcher ''/link/p'' 200)
      = (new_watcher ''/link/p'' 200)\<lparr>wt_pending := [(''/real/p/a.go'', 5)]\<rparr>" by code_simp
  moreover have "fe_Path (change_event link_env 9 (new_watcher ''/link/p'' 200) ''/real/p/a.go'') = ''../../real/p/a.go''" by code_simp
  ultimately show "map (\<lambda>p. fe_Path (change_event link_env 9 (new_watcher ''/link/p'' 200) p))
     (fst (start_flush 200000005 (handle_event link_env \<lparr>ev_Name = ''/link/p/a.go'', ev_Create = False\<rparr> 5 (new_watcher ''/link/p'' 200))))
     = [''../../real/p/a.go'']"
    by (simp add: start_flush_def ready_paths_def new_watcher_def)
qed code_simp

end
