(* ===== verification/Result_Format.thy ===== *)
theory Result_Format
  imports Lookup
begin

text \<open>
  \<open>internal/format/format.go\<close>: the plain text of search, context, symbol, dependency, diff and
  statistics results. \<open>%.2f\<close> prints a number to the nearest hundredth, a tie to the even one. The
  languages of the statistics are a map; they are printed in the order of the association list.
\<close>

section \<open>Numbers\<close>

definition round_half_even :: "real \<Rightarrow> int" where
  "round_half_even y =
     (let f = \<lfloor>y\<rfloor>; d = y - of_int f
      in if d < 1 / 2 then f else if d > 1 / 2 then f + 1 else if even f then f else f + 1)"

definition fixed2 :: "real \<Rightarrow> string" where
  "fixed2 x =
     (let c = round_half_even (\<bar>x\<bar> * 100)
      in (if x < 0 then ''-'' else []) @ dec_int (c div 100) @ ''.'' @ dec_int (c mod 100 div 10) @ dec_int (c mod 10))"

section \<open>Chunks\<close>

definition chunk_header :: "scored_result \<Rightarrow> bool \<Rightarrow> bool \<Rightarrow> string" where
  "chunk_header r showPath explain =
     (let parts = (if sr_SymbolName r \<noteq> [] then [sr_SymbolName r] else [])
                @ (if sr_Kind r \<noteq> [] then [sr_Kind r] else [])
                @ (if explain then [''score:'' @ fixed2 (sr_Score r)] else [])
      in ''--- '' @ (if showPath then sr_Path r else [])
         @ '':'' @ dec_int (sr_StartLine r) @ ''-'' @ dec_int (sr_EndLine r)
         @ (if parts \<noteq> [] then '' ('' @ join_with '', '' parts @ '')'' else [])
         @ '' ---'')"

text \<open>The loop of \<open>SearchResults\<close>, with \<open>lastPath\<close>.\<close>

fun search_text :: "bool \<Rightarrow> string \<Rightarrow> scored_result list \<Rightarrow> string" where
  "search_text explain lastPath [] = []"
| "search_text explain lastPath (r # rs) =
     chunk_header r (sr_Path r \<noteq> lastPath) explain @ [newline]
     @ (if sr_Content r \<noteq> [] then sr_Content r @ (if last (sr_Content r) \<noteq> newline then [newline] else []) else [])
     @ (if rs \<noteq> [] then [newline] else [])
     @ search_text explain (sr_Path r) rs"

definition search_results :: "scored_result list \<Rightarrow> bool \<Rightarrow> string" where
  "search_results results explain =
     (if results = [] then ''No results found.'' @ [newline] else search_text explain [] results)"

definition list_section :: "'a list \<Rightarrow> string \<Rightarrow> string \<Rightarrow> ('a \<Rightarrow> string) \<Rightarrow> string" where
  "list_section items emptyMsg label row =
     (if items = [] then emptyMsg @ [newline]
      else dec_int (int (length items)) @ '' '' @ label @ '':'' @ [newline] @ concat (map row items))"

definition locate_row :: "scored_result \<Rightarrow> string" where
  "locate_row r =
     sr_Path r @ '':'' @ dec_int (sr_StartLine r) @ ''-'' @ dec_int (sr_EndLine r)
     @ (if sr_SymbolName r \<noteq> [] then ''  '' @ sr_SymbolName r else [])
     @ (if sr_Kind r \<noteq> [] then '' ('' @ sr_Kind r @ '')'' else [])
     @ ''  score:'' @ fixed2 (sr_Score r)
     @ (if sr_TokenCount r > 0 then ''  ~'' @ dec_int (sr_TokenCount r) @ '' tokens'' else [])"

definition locate_results :: "scored_result list \<Rightarrow> string" where
  "locate_results results = list_section results ''No results found.'' ''results'' (\<lambda>r. locate_row r @ [newline])"

definition context_text :: "context_package option \<Rightarrow> string" where
  "context_text pkg =
     (case pkg of
        None \<Rightarrow> ''No context assembled.'' @ [newline]
      | Some p \<Rightarrow>
          if cp_Chunks p = [] then ''No context assembled.'' @ [newline]
          else ''[context] '' @ dec_int (int (length (cp_Chunks p))) @ '' chunks, '' @ dec_int (cp_TotalTokens p)
               @ '' tokens, strategy: '' @ cp_Strategy p @ [newline, newline]
               @ search_results (cp_Chunks p) False)"

section \<open>Lookups\<close>

definition symbol_row :: "symbol_result \<Rightarrow> string" where
  "symbol_row s =
     ''  '' @ sx_Name s @ ''  '' @ sx_Kind s @ ''  '' @ sx_FilePath s @ '':'' @ dec_int (sx_Line s)
     @ (if sx_Signature s \<noteq> [] then ''  '' @ sx_Signature s else [])
     @ (if sx_Visibility s \<noteq> [] then ''  ['' @ sx_Visibility s @ '']'' else [])"

definition symbols_text :: "symbol_result list \<Rightarrow> string" where
  "symbols_text results = list_section results ''No symbols found.'' ''symbols'' (\<lambda>s. symbol_row s @ [newline])"

definition dependencies_text :: "dep_result list \<Rightarrow> string" where
  "dependencies_text results = list_section results ''No dependencies found.'' ''dependencies''
     (\<lambda>d. ''  '' @ dp_Name d @ ''  '' @ dp_Kind d @ ''  '' @ dp_FilePath d @ '':'' @ dec_int (dp_Line d) @ [newline])"

definition diffs_text :: "diff_result list \<Rightarrow> string" where
  "diffs_text results = list_section results ''No diffs found.'' ''diffs''
     (\<lambda>d. ''  '' @ dr_FilePath d @ ''  '' @ dr_ChangeType d @ ''  +'' @ dec_int (dr_LinesAdded d) @ '' -'' @ dec_int (dr_LinesRemoved d)
          @ ''  '' @ dr_Timestamp d @ [newline]
          @ concat (map (\<lambda>smb. ''    '' @ smb @ [newline]) (dr_Symbols d)))"

definition index_stats_text :: "index_stats option \<Rightarrow> string" where
  "index_stats_text stats =
     (case stats of
        None \<Rightarrow> ''No index stats available.'' @ [newline]
      | Some s \<Rightarrow>
          ''Files:   '' @ dec_int (st_TotalFiles s) @ [newline]
          @ ''Chunks:  '' @ dec_int (st_TotalChunks s) @ [newline]
          @ ''Symbols: '' @ dec_int (st_TotalSymbols s) @ [newline]
          @ ''Errors:  '' @ dec_int (st_ParseErrors s) @ [newline]
          @ ''Stale:   '' @ dec_int (st_StaleFiles s) @ [newline]
          @ (if st_Languages s \<noteq> []
             then ''Languages:'' @ [newline]
                  @ concat (map (\<lambda>(lang, n). ''  '' @ lang @ '': '' @ dec_int n @ [newline]) (st_Languages s))
             else []))"

section \<open>Lemmas\<close>

lemma round_half_even_near: "\<bar>of_int (round_half_even y) - y\<bar> \<le> 1 / 2"
  by (simp add: round_half_even_def Let_def; linarith)

text \<open>What the printed digits say.\<close>

lemma fixed2_value:
  "fixed2 x = (if x < 0 then ''-'' else []) @ dec_int (c div 100) @ ''.'' @ dec_int (c mod 100 div 10) @ dec_int (c mod 10)
     \<and> 0 \<le> c \<and> \<bar>of_int c / 100 - \<bar>x\<bar>\<bar> \<le> 1 / 200"
  if "c = round_half_even (\<bar>x\<bar> * 100)"
proof -
  have "\<bar>of_int c - \<bar>x\<bar> * 100\<bar> \<le> 1 / 2" using round_half_even_near [of "\<bar>x\<bar> * 100"] that by simp
  then have near: "\<bar>of_int c / 100 - \<bar>x\<bar>\<bar> \<le> 1 / 200" by linarith
  then have "0 \<le> c" unfolding that round_half_even_def Let_def by (auto simp: zero_le_floor intro: add_nonneg_nonneg)
  with near show ?thesis by (simp add: fixed2_def Let_def that)
qed

text \<open>The lines of a text.\<close>

lemma split_line: "newline \<notin> set l \<Longrightarrow> split_on newline (l @ newline # s) = l # split_on newline s"
  by (induction l) auto

lemma split_rows:
  "(\<forall>x \<in> set xs. newline \<notin> set (f x)) \<Longrightarrow> split_on newline (concat (map (\<lambda>x. f x @ [newline]) xs)) = map f xs @ [[]]"
  by (induction xs) (simp_all add: split_line)

lemma newline_char: "newline = CHR 0x0A"
  by (simp add: newline_def) code_simp

lemma dec_int_line [simp]: "newline \<notin> set (dec_int i)"
proof
  assume "newline \<in> set (dec_int i)"
  then obtain n where "newline \<in> set (dec_nat n)" by (auto simp: dec_int_def newline_char split: if_splits)
  from dec_nat_digits [OF this] obtain d where "d < 10" "newline = char_of (48 + d :: nat)" by blast
  then have "(of_char newline :: nat) = 48 + d" by (metis of_char_digit)
  then show False by (simp add: newline_def of_char_of)
qed

lemma fixed2_line [simp]: "newline \<notin> set (fixed2 x)"
  using dec_int_line by (auto simp: fixed2_def Let_def newline_char)

text \<open>A result whose strings stay on one line.\<close>

definition one_line :: "scored_result \<Rightarrow> bool" where
  "one_line r \<longleftrightarrow> newline \<notin> set (sr_Path r) \<and> newline \<notin> set (sr_SymbolName r) \<and> newline \<notin> set (sr_Kind r)"

lemma locate_row_line: "one_line r \<Longrightarrow> newline \<notin> set (locate_row r)"
  using dec_int_line fixed2_line by (auto simp: one_line_def locate_row_def newline_char)

text \<open>The location a row starts with.\<close>

definition row_location :: "scored_result \<Rightarrow> string" where
  "row_location r = sr_Path r @ '':'' @ dec_int (sr_StartLine r) @ ''-'' @ dec_int (sr_EndLine r)"

section \<open>Properties\<close>

text \<open>The compact listing has a line with the number of results and then one line for each result, in
  order, which starts with its location and gives its score to the nearest hundredth; nothing is
  listed exactly if there is no result.\<close>

theorem locate_lines:
  assumes "rs \<noteq> []" and "list_all one_line rs" and "c = round_half_even (\<bar>sr_Score r\<bar> * 100)"
  shows "split_on newline (locate_results rs) = (dec_int (int (length rs)) @ '' results:'') # map locate_row rs @ [[]]
    \<and> prefix (row_location r) (locate_row r)
    \<and> fixed2 (sr_Score r) = (if sr_Score r < 0 then ''-'' else []) @ dec_int (c div 100) @ ''.'' @ dec_int (c mod 100 div 10) @ dec_int (c mod 10)
    \<and> \<bar>of_int c / 100 - \<bar>sr_Score r\<bar>\<bar> \<le> 1 / 200
    \<and> locate_results [] = ''No results found.'' @ [newline]"
proof -
  have "split_on newline (locate_results rs)
      = (dec_int (int (length rs)) @ '' results:'') # split_on newline (concat (map (\<lambda>r. locate_row r @ [newline]) rs))"
    using assms(1) split_line [of "dec_int (int (length rs)) @ '' results:''"]
    using dec_int_line by (simp add: locate_results_def list_section_def newline_char)
  moreover have "split_on newline (concat (map (\<lambda>r. locate_row r @ [newline]) rs)) = map locate_row rs @ [[]]"
    by (rule split_rows) (use assms(2) in \<open>auto simp: list_all_iff locate_row_line\<close>)
  moreover have "prefix (row_location r) (locate_row r)" by (simp add: row_location_def locate_row_def)
  ultimately show ?thesis using fixed2_value [OF assms(3)] by (simp add: locate_results_def list_section_def)
qed

end
