(* ===== verification/Observability.thy ===== *)
theory Observability
  imports Core_Types "HOL-Library.Word" "HOL-Library.AList" "HOL-Library.Multiset"
begin

text \<open>
  \<open>internal/observability/metrics.go\<close>: the registry of counters, gauges and histograms. A map is an
  association list in the order it was filled; counters are 64-bit words. The locks make every
  operation atomic, so operations are functions of the registry. The registry of the process is an
  argument of the code that uses it.
\<close>

section \<open>Histograms\<close>

definition max_histogram_samples :: nat where "max_histogram_samples = 4096"

record histogram =
  hg_samples :: "real list"
  hg_count :: "64 word"
  hg_sum :: real
  hg_min :: real
  hg_max :: real
  hg_cursor :: nat

record histogram_out =
  ho_Count :: "64 word"
  ho_Sum :: real
  ho_Min :: real
  ho_Max :: real
  ho_Mean :: real
  ho_P50 :: real
  ho_P95 :: real
  ho_P99 :: real

definition new_histogram :: histogram where
  "new_histogram = \<lparr>hg_samples = [], hg_count = 0, hg_sum = 0, hg_min = 0, hg_max = 0, hg_cursor = 0\<rparr>"

definition keep_sample :: "real \<Rightarrow> histogram \<Rightarrow> histogram" where
  "keep_sample v h =
     (if length (hg_samples h) < max_histogram_samples then h\<lparr>hg_samples := hg_samples h @ [v]\<rparr>
      else h\<lparr>hg_samples := (hg_samples h)[hg_cursor h := v], hg_cursor := (hg_cursor h + 1) mod max_histogram_samples\<rparr>)"

fun observe :: "float32 \<Rightarrow> histogram \<Rightarrow> histogram" where
  "observe (F32 v) h =
     keep_sample v (h\<lparr>hg_min := if hg_count h = 0 \<or> v < hg_min h then v else hg_min h,
                     hg_max := if hg_count h = 0 \<or> v > hg_max h then v else hg_max h,
                     hg_count := hg_count h + 1, hg_sum := hg_sum h + v\<rparr>)"
| "observe F32NaN h = h"
| "observe (F32Inf _) h = h"

definition quantile :: "real list \<Rightarrow> real \<Rightarrow> real" where
  "quantile sorted_samples q =
     (if sorted_samples = [] then 0 else sorted_samples ! nat \<lfloor>real (length sorted_samples - 1) * q\<rfloor>)"

definition summarise :: "histogram \<Rightarrow> histogram_out" where
  "summarise h =
     (let out = \<lparr>ho_Count = hg_count h, ho_Sum = hg_sum h, ho_Min = hg_min h, ho_Max = hg_max h,
                 ho_Mean = (if hg_count h > 0 then hg_sum h / real (unat (hg_count h)) else 0),
                 ho_P50 = 0, ho_P95 = 0, ho_P99 = 0\<rparr>
      in if hg_samples h = [] then out
         else let cp = sort (hg_samples h)
              in out\<lparr>ho_P50 := quantile cp (50 / 100), ho_P95 := quantile cp (95 / 100), ho_P99 := quantile cp (99 / 100)\<rparr>)"

section \<open>The registry\<close>

record registry =
  rg_counters :: "(string \<times> 64 word) list"
  rg_gauges :: "(string \<times> float32) list"
  rg_histograms :: "(string \<times> histogram) list"

definition new_registry :: registry where
  "new_registry = \<lparr>rg_counters = [], rg_gauges = [], rg_histograms = []\<rparr>"

definition reg_add :: "string \<Rightarrow> 64 word \<Rightarrow> registry \<Rightarrow> registry" where
  "reg_add name delta r = r\<lparr>rg_counters := AList.map_default name delta (\<lambda>c. c + delta) (rg_counters r)\<rparr>"

definition reg_inc :: "string \<Rightarrow> registry \<Rightarrow> registry" where
  "reg_inc name = reg_add name 1"

definition reg_set :: "string \<Rightarrow> float32 \<Rightarrow> registry \<Rightarrow> registry" where
  "reg_set name v r = r\<lparr>rg_gauges := AList.update name v (rg_gauges r)\<rparr>"

definition reg_observe :: "string \<Rightarrow> float32 \<Rightarrow> registry \<Rightarrow> registry" where
  "reg_observe name v r =
     r\<lparr>rg_histograms := AList.map_default name (observe v new_histogram) (observe v) (rg_histograms r)\<rparr>"

record reg_snapshot =
  sn_Counters :: "(string \<times> 64 word) list"
  sn_Gauges :: "(string \<times> float32) list"
  sn_Histograms :: "(string \<times> histogram_out) list"

definition reg_snap :: "registry \<Rightarrow> reg_snapshot" where
  "reg_snap r = \<lparr>sn_Counters = rg_counters r, sn_Gauges = rg_gauges r,
     sn_Histograms = map (\<lambda>(k, h). (k, summarise h)) (rg_histograms r)\<rparr>"

text \<open>A \<open>Scope\<close> puts its prefix before every name.\<close>

definition scope_name :: "string \<Rightarrow> string \<Rightarrow> string" where
  "scope_name pfx name = (if pfx = [] then name else if name = [] then pfx else pfx @ ''.'' @ name)"

definition scope_inc :: "string \<Rightarrow> string \<Rightarrow> registry \<Rightarrow> registry" where
  "scope_inc pfx name = reg_inc (scope_name pfx name)"

definition scope_observe :: "string \<Rightarrow> string \<Rightarrow> float32 \<Rightarrow> registry \<Rightarrow> registry" where
  "scope_observe pfx name = reg_observe (scope_name pfx name)"

section \<open>Lemmas\<close>

text \<open>What a histogram knows after the finite values \<open>vs\<close>, oldest first.\<close>

definition hist_of :: "real list \<Rightarrow> histogram \<Rightarrow> bool" where
  "hist_of vs h \<longleftrightarrow>
     hg_count h = of_nat (length vs) \<and> hg_sum h = sum_list vs
   \<and> (vs \<noteq> [] \<longrightarrow> hg_min h = Min (set vs) \<and> hg_max h = Max (set vs))
   \<and> (if length vs \<le> max_histogram_samples then hg_samples h = vs \<and> hg_cursor h = 0
      else length (hg_samples h) = max_histogram_samples \<and> hg_cursor h = length vs mod max_histogram_samples
         \<and> rotate (hg_cursor h) (hg_samples h) = drop (length vs - max_histogram_samples) vs)"

lemma rotate_update:
  assumes "i < length xs"
  shows "rotate (Suc i mod length xs) (xs[i := v]) = tl (rotate i xs) @ [v]"
proof -
  have r: "rotate i xs = drop i xs @ take i xs" using assms by (simp add: rotate_drop_take)
  show ?thesis
  proof (cases "Suc i < length xs")
    case True
    then have "rotate (Suc i mod length xs) (xs[i := v]) = drop (Suc i) xs @ take (Suc i) (xs[i := v])"
      by (simp add: rotate_drop_take)
    moreover have "take (Suc i) (xs[i := v]) = take i xs @ [v]"
      using assms by (simp add: take_Suc_conv_app_nth)
    moreover have "tl (rotate i xs) = drop (Suc i) xs @ take i xs"
      using True r by (simp add: drop_Suc tl_drop)
    ultimately show ?thesis by simp
  next
    case False
    with assms have i: "Suc i = length xs" by simp
    then have "drop i xs = [xs ! i]" by (simp add: Cons_nth_drop_Suc [OF assms, symmetric])
    then have t: "tl (rotate i xs) = take i xs" using r by simp
    have "xs[i := v] = take i xs @ [v]" using assms i by (simp add: upd_conv_take_nth_drop)
    with i t show ?thesis by simp
  qed
qed

lemma hist_of_new: "hist_of [] new_histogram"
  by (simp add: hist_of_def new_histogram_def)

lemma keep_sample_fields [simp]:
  "hg_count (keep_sample v h) = hg_count h" "hg_sum (keep_sample v h) = hg_sum h"
  "hg_min (keep_sample v h) = hg_min h" "hg_max (keep_sample v h) = hg_max h"
  by (simp_all add: keep_sample_def)

lemma unat_count: "n < 2 ^ 64 \<Longrightarrow> unat (of_nat n :: 64 word) = n"
  by (rule of_nat_inverse [of n "of_nat n"]) simp_all

lemma hist_of_observe:
  assumes "hist_of vs h" and "length vs < 2 ^ 64"
  shows "hist_of (vs @ [v]) (observe (F32 v) h)"
proof -
  let ?M = max_histogram_samples
  have M: "0 < ?M" by (simp add: max_histogram_samples_def)
  have zero: "hg_count h = 0 \<longleftrightarrow> vs = []"
  proof -
    have u: "unat (of_nat (length vs) :: 64 word) = length vs" by (rule unat_count [OF assms(2)])
    have c: "hg_count h = of_nat (length vs)" using assms(1) by (simp only: hist_of_def)
    show ?thesis unfolding c unat_eq_0 [symmetric] u by simp
  qed
  have counts: "hg_count (observe (F32 v) h) = of_nat (length (vs @ [v]))" "hg_sum (observe (F32 v) h) = sum_list (vs @ [v])"
    using assms(1) by (simp_all add: hist_of_def)
  have range: "hg_min (observe (F32 v) h) = Min (set (vs @ [v]))" "hg_max (observe (F32 v) h) = Max (set (vs @ [v]))"
  proof -
    have ext: "vs \<noteq> [] \<Longrightarrow> hg_min h = Min (set vs)" "vs \<noteq> [] \<Longrightarrow> hg_max h = Max (set vs)" using assms(1) unfolding hist_of_def by blast+
    show "hg_min (observe (F32 v) h) = Min (set (vs @ [v]))"
      by (cases "vs = []") (simp_all add: zero ext min_def del: Min_gr_iff Min_ge_iff)
    show "hg_max (observe (F32 v) h) = Max (set (vs @ [v]))"
      by (cases "vs = []") (simp_all add: zero ext max_def del: Max_less_iff Max_le_iff)
  qed
  have samples: "if length (vs @ [v]) \<le> ?M then hg_samples (observe (F32 v) h) = vs @ [v] \<and> hg_cursor (observe (F32 v) h) = 0
      else length (hg_samples (observe (F32 v) h)) = ?M \<and> hg_cursor (observe (F32 v) h) = length (vs @ [v]) mod ?M
         \<and> rotate (hg_cursor (observe (F32 v) h)) (hg_samples (observe (F32 v) h)) = drop (length (vs @ [v]) - ?M) (vs @ [v])"
  proof (cases "length vs < ?M")
    case True
    with assms(1) show ?thesis by (simp add: hist_of_def keep_sample_def)
  next
    case False
    have full: "length (hg_samples h) = ?M" "hg_cursor h = length vs mod ?M"
      "rotate (hg_cursor h) (hg_samples h) = drop (length vs - ?M) vs"
      using assms(1) False by (auto simp: hist_of_def split: if_splits)
    then have c: "hg_cursor h < length (hg_samples h)" using M by simp
    from rotate_update [OF c, of v]
    have r: "rotate ((hg_cursor h + 1) mod ?M) ((hg_samples h)[hg_cursor h := v]) = tl (drop (length vs - ?M) vs) @ [v]"
      using full by simp
    have "tl (drop (length vs - ?M) vs) @ [v] = drop (length (vs @ [v]) - ?M) (vs @ [v])"
      using False M by (simp add: tl_drop drop_Suc Suc_diff_le)
    with r full False show ?thesis by (simp add: keep_sample_def mod_Suc_eq)
  qed
  from counts range samples show ?thesis unfolding hist_of_def by blast
qed

text \<open>The finite values among those observed.\<close>

fun finite_values :: "float32 list \<Rightarrow> real list" where
  "finite_values [] = []"
| "finite_values (F32 v # vs) = v # finite_values vs"
| "finite_values (_ # vs) = finite_values vs"

lemma fold_observe:
  "hist_of us h \<Longrightarrow> length us + length (finite_values vs) < 2 ^ 64 \<Longrightarrow> hist_of (us @ finite_values vs) (fold observe vs h)"
proof (induction vs arbitrary: us h rule: finite_values.induct)
  case (2 v vs)
  have "hist_of (us @ [v]) (observe (F32 v) h)" by (rule hist_of_observe) (use 2 in simp_all)
  from "2.IH" [OF this] "2.prems"(2) show ?case by simp
qed simp_all

lemma mset_rotated: "mset (rotate n xs) = mset xs"
proof -
  have "mset (rotate n xs) = mset (take (n mod length xs) xs @ drop (n mod length xs) xs)"
    unfolding rotate_drop_take by (simp only: mset_append union_commute)
  then show ?thesis by (simp only: append_take_drop_id)
qed

lemma mset_recent:
  assumes "hist_of vs h"
  shows "mset (hg_samples h) = mset (drop (length vs - max_histogram_samples) vs)"
proof (cases "length vs \<le> max_histogram_samples")
  case False
  from assms have "rotate (hg_cursor h) (hg_samples h) = drop (length vs - max_histogram_samples) vs"
    unfolding hist_of_def if_not_P [OF False] by (elim conjE)
  from arg_cong [where f = mset, OF this] show ?thesis by (simp only: mset_rotated)
qed (use assms in \<open>simp add: hist_of_def\<close>)

lemma quantile_index:
  assumes "xs \<noteq> []" and "0 \<le> q" and "q < 1"
  shows "nat \<lfloor>real (length xs - 1) * q\<rfloor> < length xs"
proof -
  have "real (length xs - 1) * q \<le> real (length xs - 1)" using assms by (simp add: mult_left_le)
  then have "\<lfloor>real (length xs - 1) * q\<rfloor> \<le> int (length xs - 1)" by linarith
  moreover from assms(1) have "length xs - 1 < length xs" by simp
  ultimately show ?thesis by linarith
qed

lemma quantile_mem: "xs \<noteq> [] \<Longrightarrow> 0 \<le> q \<Longrightarrow> q < 1 \<Longrightarrow> quantile xs q \<in> set xs"
  unfolding quantile_def by (simp only: if_False) (rule nth_mem, rule quantile_index)

lemma quantile_mono:
  assumes "sorted xs" and "0 \<le> p" and "p \<le> q" and "q < 1"
  shows "quantile xs p \<le> quantile xs q"
proof (cases "xs = []")
  case False
  have "real (length xs - 1) * p \<le> real (length xs - 1) * q" using assms(3) by (simp add: mult_left_mono)
  then have "nat \<lfloor>real (length xs - 1) * p\<rfloor> \<le> nat \<lfloor>real (length xs - 1) * q\<rfloor>" by (intro nat_mono floor_mono)
  moreover have "nat \<lfloor>real (length xs - 1) * q\<rfloor> < length xs" using quantile_index [OF False] assms by simp
  ultimately show ?thesis unfolding quantile_def if_not_P [OF False] by (rule sorted_nth_mono [OF assms(1)])
qed (simp add: quantile_def)

section \<open>Properties\<close>

text \<open>A histogram counts and sums every finite value it was shown and ignores NaN and infinities; it
  knows their least and greatest; its samples are exactly the latest 4096; the quantiles are
  samples, in order, between the extremes, and the mean lies between the extremes too.\<close>

theorem histogram_exact:
  fixes observed :: "float32 list"
  defines "vs \<equiv> finite_values observed" and "h \<equiv> fold observe observed new_histogram"
  assumes "vs \<noteq> []" and "length vs < 2 ^ 64"
  shows "ho_Count (summarise h) = of_nat (length vs) \<and> ho_Sum (summarise h) = sum_list vs
    \<and> ho_Min (summarise h) = Min (set vs) \<and> ho_Max (summarise h) = Max (set vs)
    \<and> ho_Mean (summarise h) = sum_list vs / real (length vs)
    \<and> mset (hg_samples h) = mset (drop (length vs - max_histogram_samples) vs)
    \<and> ho_P50 (summarise h) \<in> set (drop (length vs - max_histogram_samples) vs)
    \<and> ho_Min (summarise h) \<le> ho_P50 (summarise h) \<and> ho_P50 (summarise h) \<le> ho_P95 (summarise h)
    \<and> ho_P95 (summarise h) \<le> ho_P99 (summarise h) \<and> ho_P99 (summarise h) \<le> ho_Max (summarise h)"
proof -
  let ?recent = "drop (length vs - max_histogram_samples) vs"
  have h: "hist_of vs h" using fold_observe [OF hist_of_new] assms(4) by (simp add: vs_def h_def)
  have n: "unat (hg_count h) = length vs" using h unat_count [OF assms(4)] by (simp only: hist_of_def)
  then have pos: "hg_count h > 0" using assms(3) unat_gt_0 [of "hg_count h"] by (simp only: word_gt_0) simp
  have recent: "set (hg_samples h) = set ?recent" using mset_recent [OF h] by (rule mset_eq_setD)
  moreover have "?recent \<noteq> []" using assms(3) by (cases vs) (simp_all add: max_histogram_samples_def)
  ultimately have ne: "sort (hg_samples h) \<noteq> []" by (metis set_empty set_sort)
  then have ne': "hg_samples h \<noteq> []" by auto
  have mem: "quantile (sort (hg_samples h)) q \<in> set ?recent" if "0 \<le> q" "q < 1" for q
    using quantile_mem [OF ne that] recent by simp
  then have range: "Min (set vs) \<le> quantile (sort (hg_samples h)) q" "quantile (sort (hg_samples h)) q \<le> Max (set vs)"
    if "0 \<le> q" "q < 1" for q
    using that by (auto intro!: Min_le Max_ge dest: in_set_dropD)
  have "ho_Count (summarise h) = of_nat (length vs)" "ho_Sum (summarise h) = sum_list vs"
    "ho_Min (summarise h) = Min (set vs)" "ho_Max (summarise h) = Max (set vs)"
    "ho_Mean (summarise h) = sum_list vs / real (length vs)"
    using h ne' n pos assms(3) by (simp_all add: summarise_def Let_def hist_of_def)
  moreover have "ho_P50 (summarise h) = quantile (sort (hg_samples h)) (50 / 100)"
    "ho_P95 (summarise h) = quantile (sort (hg_samples h)) (95 / 100)"
    "ho_P99 (summarise h) = quantile (sort (hg_samples h)) (99 / 100)"
    using ne' by (simp_all add: summarise_def Let_def)
  moreover have "quantile (sort (hg_samples h)) (50 / 100) \<le> quantile (sort (hg_samples h)) (95 / 100)"
    "quantile (sort (hg_samples h)) (95 / 100) \<le> quantile (sort (hg_samples h)) (99 / 100)"
    by (rule quantile_mono; simp)+
  ultimately show ?thesis using mset_recent [OF h] mem [of "50 / 100"] range [of "50 / 100"] range [of "99 / 100"] by simp
qed

theorem histogram_exact_witness:
  "ho_Count (summarise (fold observe [F32 3, F32NaN, F32 1, F32Inf True, F32 2] new_histogram)) = 3
   \<and> ho_Mean (summarise (fold observe [F32 3, F32NaN, F32 1, F32Inf True, F32 2] new_histogram)) = 2
   \<and> ho_P99 (summarise (fold observe [F32 3, F32NaN, F32 1, F32Inf True, F32 2] new_histogram)) \<le> 3"
  using histogram_exact [of "[F32 3, F32NaN, F32 1, F32Inf True, F32 2]"] by simp

end
