(* ===== verification/Tool_Metrics.thy ===== *)
theory Tool_Metrics
  imports Sqlite_Store Observability
begin

text \<open>
  \<open>internal/mcp/metrics.go\<close>: the recorder of tool calls, a bounded channel between the handlers and the
  goroutine that writes batches to the store, and the wrapper that caps, measures and records every
  tool call. The recorder is a step relation over the SQLite store; a flush may fail. The registry
  of the process is an argument of the wrapper, the clock and the arguments as JSON too.
\<close>

section \<open>The recorder\<close>

definition metrics_channel_cap :: nat where "metrics_channel_cap = 256"
definition metrics_batch_size :: nat where "metrics_batch_size = 10"

record metrics_recorder =
  mr_sessionID :: string
  mr_ch :: "tool_call list"

definition new_metrics_recorder :: "string \<Rightarrow> metrics_recorder" where
  "new_metrics_recorder sessionID = \<lparr>mr_sessionID = sessionID, mr_ch = []\<rparr>"

text \<open>\<open>Record\<close>: drops on a full channel.\<close>

definition record_call :: "tool_call \<Rightarrow> metrics_recorder \<Rightarrow> metrics_recorder" where
  "record_call tc r =
     (let tc' = tc\<lparr>tc_SessionID := mr_sessionID r\<rparr>
      in if length (mr_ch r) < metrics_channel_cap then r\<lparr>mr_ch := mr_ch r @ [tc']\<rparr> else r)"

datatype recorder_phase = Collecting | Draining | Finished

text \<open>The accepted records and the flushed ones, with their success, are recorded.\<close>

record metrics_sys =
  mt_recorder :: metrics_recorder
  mt_batch :: "tool_call list"
  mt_phase :: recorder_phase
  mt_cancelled :: bool
  mt_db :: sql_db
  mt_accepted :: "tool_call list"
  mt_flushed :: "(bool \<times> tool_call) list"

definition new_metrics_sys :: "string \<Rightarrow> sql_db \<Rightarrow> metrics_sys" where
  "new_metrics_sys sessionID db = \<lparr>mt_recorder = new_metrics_recorder sessionID, mt_batch = [], mt_phase = Collecting,
     mt_cancelled = False, mt_db = db, mt_accepted = [], mt_flushed = []\<rparr>"

text \<open>\<open>flush\<close>; its error is only logged.\<close>

definition metrics_flush :: "bool \<Rightarrow> metrics_sys \<Rightarrow> metrics_sys" where
  "metrics_flush ok s =
     s\<lparr>mt_db := if ok then snd (record_tool_calls (mt_batch s) (mt_db s)) else mt_db s,
       mt_flushed := mt_flushed s @ map (Pair ok) (mt_batch s), mt_batch := []\<rparr>"

inductive metrics_step :: "metrics_sys \<Rightarrow> metrics_sys \<Rightarrow> bool" where
  mt_record: "r' = record_call tc (mt_recorder s) \<Longrightarrow>
    metrics_step s (s\<lparr>mt_recorder := r', mt_accepted := mt_accepted s @ drop (length (mr_ch (mt_recorder s))) (mr_ch r')\<rparr>)"
| mt_take: "mt_phase s = Collecting \<Longrightarrow> mr_ch (mt_recorder s) = tc # tcs \<Longrightarrow>
    s' = s\<lparr>mt_recorder := (mt_recorder s)\<lparr>mr_ch := tcs\<rparr>, mt_batch := mt_batch s @ [tc]\<rparr> \<Longrightarrow>
    metrics_step s (if length (mt_batch s') \<ge> metrics_batch_size then metrics_flush ok s' else s')"
| mt_tick: "mt_phase s = Collecting \<Longrightarrow> metrics_step s (if mt_batch s \<noteq> [] then metrics_flush ok s else s)"
| mt_cancel: "metrics_step s (s\<lparr>mt_cancelled := True\<rparr>)"
| mt_drain: "mt_phase s = Collecting \<Longrightarrow> mt_cancelled s \<Longrightarrow> metrics_step s (s\<lparr>mt_phase := Draining\<rparr>)"
| mt_drain_take: "mt_phase s = Draining \<Longrightarrow> mr_ch (mt_recorder s) = tc # tcs \<Longrightarrow>
    metrics_step s (s\<lparr>mt_recorder := (mt_recorder s)\<lparr>mr_ch := tcs\<rparr>, mt_batch := mt_batch s @ [tc]\<rparr>)"
| mt_deadline: "mt_phase s = Draining \<Longrightarrow>
    metrics_step s ((if mt_batch s \<noteq> [] then metrics_flush ok s else s)\<lparr>mt_phase := Finished\<rparr>)"

inductive metrics_reach :: "string \<Rightarrow> sql_db \<Rightarrow> metrics_sys \<Rightarrow> bool" for sid db where
  mt_new: "metrics_reach sid db (new_metrics_sys sid db)"
| mt_next: "metrics_reach sid db s \<Longrightarrow> metrics_step s s' \<Longrightarrow> metrics_reach sid db s'"

section \<open>The wrapper\<close>

record tool_result =
  tr_Text :: string
  tr_IsError :: bool

definition text_result :: "string \<Rightarrow> tool_result" where
  "text_result t = \<lparr>tr_Text = t, tr_IsError = False\<rparr>"

definition error_result :: "string \<Rightarrow> tool_result" where
  "error_result t = \<lparr>tr_Text = t, tr_IsError = True\<rparr>"

definition max_response_bytes :: int where "max_response_bytes = 8 * 1024 * 1024"

definition response_bytes :: "tool_result \<Rightarrow> int" where
  "response_bytes r = int (length (tr_Text r))"

definition cap_response :: "tool_result \<Rightarrow> tool_result" where
  "cap_response r =
     (if response_bytes r > max_response_bytes
      then error_result (''response size '' @ dec_int (response_bytes r) @ '' bytes exceeds cap '' @ dec_int max_response_bytes
             @ ''; refine the query (smaller scope, narrower path, fewer max results)'')
      else r)"

text \<open>\<open>withMetrics\<close> around the answer of a handler and its result count: the answer, the registry and the
  recorder afterwards. The handlers return no Go error.\<close>

definition with_metrics ::
  "string \<Rightarrow> string \<Rightarrow> string \<Rightarrow> int \<Rightarrow> tool_result \<times> int \<Rightarrow> registry \<Rightarrow> metrics_recorder option \<Rightarrow>
   tool_result \<times> registry \<times> metrics_recorder option" where
  "with_metrics name start argsJSON durationMs answer reg recorder =
     (let (result0, resultCount) = answer;
          result = cap_response result0;
          respBytes = response_bytes result;
          isErr = tr_IsError result;
          scope = ''mcp.tool_call.'' @ name;
          reg1 = scope_observe scope ''response_bytes'' (F32 (real_of_int respBytes))
                   (scope_observe scope ''latency_ms'' (F32 (real_of_int durationMs)) (scope_inc scope ''count'' reg));
          reg2 = (if isErr then scope_inc scope ''error_count'' reg1 else reg1);
          tc = \<lparr>tc_SessionID = [], tc_Timestamp = start, tc_ToolName = name, tc_ArgsJSON = argsJSON,
                tc_ArgsBytes = int (length argsJSON), tc_ResponseBytes = respBytes, tc_ResponseTokensEst = respBytes div 4,
                tc_ResultCount = resultCount, tc_DurationMs = durationMs, tc_IsError = isErr\<rparr>
      in (result, reg2, map_option (record_call tc) recorder))"

section \<open>Lemmas\<close>

definition metrics_inv :: "string \<Rightarrow> sql_db \<Rightarrow> metrics_sys \<Rightarrow> bool" where
  "metrics_inv sid db s \<longleftrightarrow>
     mr_sessionID (mt_recorder s) = sid
   \<and> mt_accepted s = map snd (mt_flushed s) @ mt_batch s @ mr_ch (mt_recorder s)
   \<and> mt_db s = db\<lparr>db_tool_calls := db_tool_calls db @ map snd (filter fst (mt_flushed s))\<rparr>
   \<and> length (mr_ch (mt_recorder s)) \<le> metrics_channel_cap
   \<and> (mt_phase s = Collecting \<longrightarrow> length (mt_batch s) < metrics_batch_size)
   \<and> (mt_phase s = Finished \<longrightarrow> mt_batch s = [])
   \<and> list_all (\<lambda>tc. tc_SessionID tc = sid) (mt_accepted s)"

lemma record_tool_calls_snd: "snd (record_tool_calls tcs db) = db\<lparr>db_tool_calls := db_tool_calls db @ tcs\<rparr>"
  by (simp add: record_tool_calls_def with_write_tx_def)

lemma record_call_fields:
  "mr_sessionID (record_call tc r) = mr_sessionID r"
  "mr_ch (record_call tc r) = mr_ch r @ (if length (mr_ch r) < metrics_channel_cap then [tc\<lparr>tc_SessionID := mr_sessionID r\<rparr>] else [])"
  by (simp_all add: record_call_def Let_def)

lemma filter_fst_Pair: "filter fst (map (Pair b) xs) = (if b then map (Pair b) xs else [])"
  by (induction xs) auto

lemma metrics_flush_inv:
  assumes "metrics_inv sid db (s\<lparr>mt_phase := Draining\<rparr>)"
  shows "metrics_inv sid db (metrics_flush ok s)"
  using assms by (auto simp: metrics_inv_def metrics_flush_def record_tool_calls_snd filter_fst_Pair metrics_batch_size_def comp_def)

lemma metrics_inv_step:
  assumes "metrics_step s s'" and "metrics_inv sid db s"
  shows "metrics_inv sid db s'"
  using assms
proof (induction rule: metrics_step.induct)
  case (mt_record r' tc s)
  then show ?case by (auto simp: metrics_inv_def record_call_fields)
next
  case (mt_take s tc tcs s' ok)
  then have "metrics_inv sid db (s'\<lparr>mt_phase := Draining\<rparr>)" by (auto simp: metrics_inv_def)
  then have "metrics_inv sid db (metrics_flush ok s')" by (rule metrics_flush_inv)
  moreover have "metrics_inv sid db s'" if "\<not> length (mt_batch s') \<ge> metrics_batch_size"
    using mt_take that by (auto simp: metrics_inv_def)
  ultimately show ?case by simp
next
  case (mt_tick s ok)
  then have "metrics_inv sid db (s\<lparr>mt_phase := Draining\<rparr>)" by (auto simp: metrics_inv_def)
  then show ?case using metrics_flush_inv mt_tick by auto
next
  case (mt_deadline s ok)
  then have "metrics_inv sid db (s\<lparr>mt_phase := Draining\<rparr>)" by (auto simp: metrics_inv_def)
  then have "metrics_inv sid db (metrics_flush ok s)" by (rule metrics_flush_inv)
  then show ?case using mt_deadline by (auto simp: metrics_inv_def metrics_flush_def)
qed (auto simp: metrics_inv_def)

lemma metrics_reach_inv: "metrics_reach sid db s \<Longrightarrow> metrics_inv sid db s"
proof (induction rule: metrics_reach.induct)
  case mt_new
  then show ?case
    by (simp add: metrics_inv_def new_metrics_sys_def new_metrics_recorder_def metrics_batch_size_def)
qed (rule metrics_inv_step)

lemma length_dec_nat: "n < 10 ^ Suc k \<Longrightarrow> length (dec_nat n) \<le> Suc k"
proof (induction k arbitrary: n)
  case (Suc k)
  then have "n div 10 < 10 ^ Suc k" by (simp add: less_mult_imp_div_less mult.commute)
  from Suc.IH [OF this] show ?case by (subst dec_nat.simps) simp
qed (subst dec_nat.simps, simp)

lemma cap_response_bound:
  assumes "length (tr_Text r) < 2 ^ 63"
  shows "response_bytes (cap_response r) \<le> max_response_bytes"
proof (cases "response_bytes r > max_response_bytes")
  case True
  have "length (dec_nat (length (tr_Text r))) \<le> Suc 18" by (rule length_dec_nat) (use assms in simp)
  moreover have "length (dec_nat 8388608) \<le> Suc 6" by (rule length_dec_nat) simp
  ultimately show ?thesis
    using True by (simp add: cap_response_def response_bytes_def error_result_def max_response_bytes_def dec_int_def)
qed (simp add: cap_response_def)

lemma with_metrics_post:
  assumes "with_metrics name start args ms (r0, n) reg (Some mr) = (r, reg', mr')"
    and "length (tr_Text r0) < 2 ^ 63"
  shows "response_bytes r \<le> max_response_bytes \<and> (response_bytes r0 \<le> max_response_bytes \<longrightarrow> r = r0)
    \<and> (response_bytes r0 > max_response_bytes \<longrightarrow> tr_IsError r)
    \<and> map_of (rg_counters reg') (''mcp.tool_call.'' @ name @ ''.count'')
        = Some (case map_of (rg_counters reg) (''mcp.tool_call.'' @ name @ ''.count'') of None \<Rightarrow> 1 | Some c \<Rightarrow> c + 1)
    \<and> map_of (rg_counters reg') (''mcp.tool_call.'' @ name @ ''.error_count'')
        = (if tr_IsError r
           then Some (case map_of (rg_counters reg) (''mcp.tool_call.'' @ name @ ''.error_count'') of None \<Rightarrow> 1 | Some c \<Rightarrow> c + 1)
           else map_of (rg_counters reg) (''mcp.tool_call.'' @ name @ ''.error_count''))
    \<and> (\<exists>tc. mr' = Some (record_call tc mr) \<and> tc_ToolName tc = name \<and> tc_ResponseBytes tc = response_bytes r
        \<and> tc_IsError tc = tr_IsError r \<and> tc_ResultCount tc = n
        \<and> mr_ch (record_call tc mr) = mr_ch mr @ (if length (mr_ch mr) < 256 then [tc\<lparr>tc_SessionID := mr_sessionID mr\<rparr>] else []))"
proof -
  have r: "r = cap_response r0" using assms(1) by (auto simp: with_metrics_def Let_def)
  have counters: "map_of (AList.map_default k d f al) k' = (if k' = k then Some (case map_of al k of None \<Rightarrow> d | Some c \<Rightarrow> f c) else map_of al k')"
    for k k' d f and al :: "(string \<times> 64 word) list"
    by (induction al) (auto split: option.split)
  have reg': "rg_counters reg' = (let cs = AList.map_default (''mcp.tool_call.'' @ name @ ''.count'') 1 (\<lambda>c. c + 1) (rg_counters reg)
      in if tr_IsError r then AList.map_default (''mcp.tool_call.'' @ name @ ''.error_count'') 1 (\<lambda>c. c + 1) cs else cs)"
    using assms(1) by (auto simp: with_metrics_def Let_def scope_inc_def scope_observe_def reg_inc_def reg_add_def reg_observe_def scope_name_def)
  have "mr' = Some (record_call \<lparr>tc_SessionID = [], tc_Timestamp = start, tc_ToolName = name, tc_ArgsJSON = args,
      tc_ArgsBytes = int (length args), tc_ResponseBytes = response_bytes r, tc_ResponseTokensEst = response_bytes r div 4,
      tc_ResultCount = n, tc_DurationMs = ms, tc_IsError = tr_IsError r\<rparr> mr)"
    using assms(1) by (auto simp: with_metrics_def Let_def)
  then have "\<exists>tc. mr' = Some (record_call tc mr) \<and> tc_ToolName tc = name \<and> tc_ResponseBytes tc = response_bytes r
      \<and> tc_IsError tc = tr_IsError r \<and> tc_ResultCount tc = n
      \<and> mr_ch (record_call tc mr) = mr_ch mr @ (if length (mr_ch mr) < 256 then [tc\<lparr>tc_SessionID := mr_sessionID mr\<rparr>] else [])"
    by (intro exI conjI, assumption) (simp_all add: record_call_fields metrics_channel_cap_def)
  moreover have "response_bytes r0 > max_response_bytes \<longrightarrow> tr_IsError r" by (simp add: r cap_response_def error_result_def)
  moreover have "response_bytes r0 \<le> max_response_bytes \<longrightarrow> r = r0" by (simp add: r cap_response_def)
  ultimately show ?thesis using cap_response_bound [OF assms(2)] r by (simp add: reg' Let_def counters)
qed

section \<open>Properties\<close>

text \<open>C37. No record of a tool call is lost on its way: what the channel accepted is, in order, what was
  flushed, what waits in the batch and what waits in the channel; the store holds exactly the
  records whose flush succeeded, after those it held before. The channel and the batch stay within
  their bounds, every record carries the session of the recorder, and a recorder that has finished
  holds no batch back.\<close>

theorem metrics_accounts:
  assumes "metrics_reach sid db s"
  shows "mt_accepted s = map snd (mt_flushed s) @ mt_batch s @ mr_ch (mt_recorder s)
    \<and> db_tool_calls (mt_db s) = db_tool_calls db @ map snd (filter fst (mt_flushed s)) \<and> db_files (mt_db s) = db_files db
    \<and> length (mr_ch (mt_recorder s)) \<le> metrics_channel_cap
    \<and> list_all (\<lambda>tc. tc_SessionID tc = sid) (mt_accepted s)
    \<and> (mt_phase s = Collecting \<longrightarrow> length (mt_batch s) < metrics_batch_size) \<and> (mt_phase s = Finished \<longrightarrow> mt_batch s = [])"
  using metrics_reach_inv [OF assms] by (auto simp: metrics_inv_def)

definition sample_call_record :: tool_call where
  "sample_call_record = \<lparr>tc_SessionID = [], tc_Timestamp = ''t'', tc_ToolName = ''search'', tc_ArgsJSON = ''{}'', tc_ArgsBytes = 2,
     tc_ResponseBytes = 4, tc_ResponseTokensEst = 1, tc_ResultCount = 1, tc_DurationMs = 3, tc_IsError = False\<rparr>"

theorem metrics_accounts_witness:
  "\<exists>s. metrics_reach ''s'' empty_db s \<and> mt_phase s = Finished \<and> map tc_ToolName (db_tool_calls (mt_db s)) = [''search'']"
proof -
  let ?tc = "sample_call_record\<lparr>tc_SessionID := ''s''\<rparr>" and ?s0 = "new_metrics_sys ''s'' empty_db"
  let ?s1 = "?s0\<lparr>mt_recorder := \<lparr>mr_sessionID = ''s'', mr_ch = [?tc]\<rparr>, mt_accepted := [?tc]\<rparr>"
  let ?s2 = "?s1\<lparr>mt_cancelled := True\<rparr>"
  let ?s3 = "?s2\<lparr>mt_phase := Draining\<rparr>"
  let ?s4 = "?s3\<lparr>mt_recorder := \<lparr>mr_sessionID = ''s'', mr_ch = []\<rparr>, mt_batch := [?tc]\<rparr>"
  let ?s5 = "(metrics_flush True ?s4)\<lparr>mt_phase := Finished\<rparr>"
  note defs = new_metrics_sys_def new_metrics_recorder_def
  have "record_call sample_call_record (new_metrics_recorder ''s'') = \<lparr>mr_sessionID = ''s'', mr_ch = [?tc]\<rparr>"
    by (simp add: record_call_def metrics_channel_cap_def new_metrics_recorder_def)
  then have "metrics_step ?s0 ?s1"
    using metrics_step.mt_record [of "\<lparr>mr_sessionID = ''s'', mr_ch = [?tc]\<rparr>" sample_call_record ?s0] by (simp add: defs)
  moreover have "metrics_step ?s1 ?s2" by (rule metrics_step.mt_cancel)
  moreover have "metrics_step ?s2 ?s3" by (rule metrics_step.mt_drain) (simp_all add: defs)
  moreover have "metrics_step ?s3 ?s4" using metrics_step.mt_drain_take [of ?s3 ?tc "[]"] by (simp add: defs)
  moreover have "metrics_step ?s4 ?s5" using metrics_step.mt_deadline [of ?s4 True] by (simp add: defs)
  ultimately have r: "metrics_reach ''s'' empty_db ?s5" by (meson mt_new mt_next)
  from metrics_accounts [OF r] have "db_tool_calls (mt_db ?s5) = db_tool_calls empty_db @ map snd (filter fst (mt_flushed ?s5))" by blast
  then have "map tc_ToolName (db_tool_calls (mt_db ?s5)) = [''search'']"
    by (simp add: defs metrics_flush_def sample_call_record_def empty_db_def)
  with r show ?thesis by (intro exI [of _ ?s5]) simp
qed

text \<open>C36. Every tool call answers within eight megabytes, whatever the handler returned, and an answer
  within the cap is the handler's; it adds one to the counter of calls, and one to the counter of errors if the
  answer sent is an error and nothing otherwise; and it leaves one record, which tells the size and the kind of
  the answer that was sent; the record is dropped only if the channel is full.\<close>

theorem with_metrics_accounts:
  assumes "with_metrics name start args ms (r0, n) reg (Some mr) = (r, reg', mr')"
    and "length (tr_Text r0) < 2 ^ 63"
  shows "response_bytes r \<le> max_response_bytes \<and> (response_bytes r0 \<le> max_response_bytes \<longrightarrow> r = r0)
    \<and> (response_bytes r0 > max_response_bytes \<longrightarrow> tr_IsError r)
    \<and> map_of (rg_counters reg') (''mcp.tool_call.'' @ name @ ''.count'')
        = Some (case map_of (rg_counters reg) (''mcp.tool_call.'' @ name @ ''.count'') of None \<Rightarrow> 1 | Some c \<Rightarrow> c + 1)
    \<and> map_of (rg_counters reg') (''mcp.tool_call.'' @ name @ ''.error_count'')
        = (if tr_IsError r
           then Some (case map_of (rg_counters reg) (''mcp.tool_call.'' @ name @ ''.error_count'') of None \<Rightarrow> 1 | Some c \<Rightarrow> c + 1)
           else map_of (rg_counters reg) (''mcp.tool_call.'' @ name @ ''.error_count''))
    \<and> (\<exists>tc. mr' = Some (record_call tc mr) \<and> tc_ToolName tc = name \<and> tc_ResponseBytes tc = response_bytes r
        \<and> tc_IsError tc = tr_IsError r \<and> tc_ResultCount tc = n
        \<and> mr_ch (record_call tc mr) = mr_ch mr @ (if length (mr_ch mr) < 256 then [tc\<lparr>tc_SessionID := mr_sessionID mr\<rparr>] else []))"
  by (rule with_metrics_post [OF assms])

theorem with_metrics_accounts_witness:
  "\<exists>reg' mr'. with_metrics ''search'' ''t'' ''{}'' 3 (error_result ''no'', 0) new_registry (Some (new_metrics_recorder ''s'')) = (error_result ''no'', reg', mr')
     \<and> map_of (rg_counters reg') ''mcp.tool_call.search.count'' = Some 1 \<and> map_of (rg_counters reg') ''mcp.tool_call.search.error_count'' = Some 1"
proof -
  obtain r reg' mr' where run: "with_metrics ''search'' ''t'' ''{}'' 3 (error_result ''no'', 0) new_registry (Some (new_metrics_recorder ''s'')) = (r, reg', mr')"
    by (metis prod_cases3)
  have len: "length (tr_Text (error_result ''no'')) < 2 ^ 63" by (simp add: error_result_def)
  from with_metrics_accounts [OF run len] have r: "r = error_result ''no''" "map_of (rg_counters reg') ''mcp.tool_call.search.count'' = Some 1"
    by (auto simp: response_bytes_def error_result_def max_response_bytes_def new_registry_def)
  with with_metrics_accounts [OF run len] have "map_of (rg_counters reg') ''mcp.tool_call.search.error_count'' = Some 1"
    by (auto simp: error_result_def new_registry_def)
  with run r show ?thesis by blast
qed

end
