(* ===== verification/Configuration.thy ===== *)
theory Configuration
  imports Scanner Query_Params Pg_Store
begin

text \<open>
  \<open>internal/types/config.go\<close>: the defaults, the merge of the TOML file and the environment, the check
  of the backends and the default test patterns; and the parts of \<open>internal/backends\<close> that depend on
  the configuration: the file of the vectors and what a purge removes. The TOML decoder is an
  argument; it delivers the decoded file, in which a key is present or not. A number of the file is
  a \<open>float64\<close>, which TOML allows to be \<open>nan\<close>. Error messages leave out the rejected value. Project roots are clean paths.
\<close>

section \<open>The configuration\<close>

record config =
  cf_ProjectRoot :: string
  cf_DBPath :: string
  cf_MaxBudgetTokens :: int
  cf_DefaultMaxResults :: int
  cf_WriterChannelSize :: int
  cf_EnrichmentWorkers :: int
  cf_Tokenizer :: string
  cf_WatcherEnabled :: bool
  cf_WatcherDebounceMs :: int
  cf_OllamaURL :: string
  cf_EmbeddingModel :: string
  cf_EmbeddingDims :: int
  cf_EmbeddingsPath :: string
  cf_EmbedBatchSize :: int
  cf_EmbedEnabled :: bool
  cf_SearchMaxResults :: int
  cf_SearchDefaultMode :: string
  cf_SearchMinScore :: float32
  cf_ContextEnabled :: bool
  cf_ContextBudgetTokens :: int
  cf_VectorBackend :: string
  cf_DatabaseBackend :: string
  cf_PostgresConnString :: string
  cf_PostgresMaxOpen :: int
  cf_PostgresMaxIdle :: int
  cf_PostgresSchema :: string
  cf_QdrantURL :: string
  cf_QdrantCollection :: string
  cf_QdrantAPIKey :: string
  cf_EmbedTimeout :: int
  cf_EmbedQueryPrefix :: string
  cf_EmbedDocumentPrefix :: string
  cf_TestPatterns :: "string list"

definition default_config :: "string \<Rightarrow> config" where
  "default_config projectRoot =
     \<lparr>cf_ProjectRoot = projectRoot,
      cf_DBPath = join_path (join_path projectRoot ''.shaktiman'') ''index.db'',
      cf_MaxBudgetTokens = 4096, cf_DefaultMaxResults = 10, cf_WriterChannelSize = 500, cf_EnrichmentWorkers = 4,
      cf_Tokenizer = ''cl100k_base'', cf_WatcherEnabled = True, cf_WatcherDebounceMs = 200,
      cf_OllamaURL = ''http://localhost:11434'', cf_EmbeddingModel = ''nomic-embed-text'', cf_EmbeddingDims = 768,
      cf_EmbeddingsPath = join_path (join_path projectRoot ''.shaktiman'') ''embeddings.bin'',
      cf_EmbedBatchSize = 128, cf_EmbedEnabled = True,
      cf_SearchMaxResults = 10, cf_SearchDefaultMode = ''locate'', cf_SearchMinScore = F32 (15 / 100),
      cf_ContextEnabled = True, cf_ContextBudgetTokens = 4096,
      cf_VectorBackend = ''brute_force'', cf_DatabaseBackend = ''sqlite'', cf_PostgresConnString = [],
      cf_PostgresMaxOpen = 20, cf_PostgresMaxIdle = 10, cf_PostgresSchema = ''public'',
      cf_QdrantURL = [], cf_QdrantCollection = ''shaktiman'', cf_QdrantAPIKey = [],
      cf_EmbedTimeout = 120 * 10 ^ 9, cf_EmbedQueryPrefix = [], cf_EmbedDocumentPrefix = [], cf_TestPatterns = []\<rparr>"

text \<open>The decoded file; an absent key is \<open>None\<close>.\<close>

record toml_config =
  tc_SearchMaxResults :: "int option"
  tc_SearchDefaultMode :: "string option"
  tc_SearchMinScore :: "float32 option"
  tc_ContextEnabled :: "bool option"
  tc_ContextBudgetTokens :: "int option"
  tc_VectorBackend :: "string option"
  tc_TestPatterns :: "string list"
  tc_DatabaseBackend :: "string option"
  tc_PostgresConnectionString :: "string option"
  tc_PostgresMaxOpenConns :: "int option"
  tc_PostgresMaxIdleConns :: "int option"
  tc_PostgresSchema :: "string option"
  tc_QdrantURL :: "string option"
  tc_QdrantCollection :: "string option"
  tc_QdrantAPIKey :: "string option"
  tc_EmbeddingOllamaURL :: "string option"
  tc_EmbeddingModel :: "string option"
  tc_EmbeddingDims :: "int option"
  tc_EmbeddingBatchSize :: "int option"
  tc_EmbeddingTimeout :: "string option"
  tc_EmbeddingQueryPrefix :: "string option"
  tc_EmbeddingDocumentPrefix :: "string option"

section \<open>Merging the file\<close>

text \<open>A statement of \<open>LoadConfigFromFile\<close>: the configuration so far, and the error it returns with.\<close>

type_synonym cfg_step = "config \<Rightarrow> config \<times> err option"

fun run_cfg :: "cfg_step list \<Rightarrow> cfg_step" where
  "run_cfg [] cfg = (cfg, None)"
| "run_cfg (s # ss) cfg = (case s cfg of (cfg1, Some e) \<Rightarrow> (cfg1, Some e) | (cfg1, None) \<Rightarrow> run_cfg ss cfg1)"

definition when_present :: "'a option \<Rightarrow> ('a \<Rightarrow> bool) \<Rightarrow> string \<Rightarrow> ('a \<Rightarrow> config \<Rightarrow> config) \<Rightarrow> cfg_step" where
  "when_present v ok msg upd cfg =
     (case v of None \<Rightarrow> (cfg, None) | Some x \<Rightarrow> if \<not> ok x then (cfg, Some (ErrMsg (''config: '' @ msg))) else (upd x cfg, None))"

abbreviation keep :: "'a option \<Rightarrow> ('a \<Rightarrow> config \<Rightarrow> config) \<Rightarrow> cfg_step" where
  "keep v upd \<equiv> when_present v (\<lambda>_. True) [] upd"

text \<open>\<open>*v < 0.0 || *v > 1.0\<close>: no comparison with a NaN holds.\<close>

fun score_rejected :: "float32 \<Rightarrow> bool" where
  "score_rejected (F32 x) = (x < 0 \<or> x > 1)"
| "score_rejected F32NaN = False"
| "score_rejected (F32Inf pos) = True"

definition vector_backends :: "string list" where
  "vector_backends = [''brute_force'', ''hnsw'', ''qdrant'', ''pgvector'']"

definition set_timeout :: "string option \<Rightarrow> cfg_step" where
  "set_timeout v cfg =
     (case v of
        None \<Rightarrow> (cfg, None)
      | Some s \<Rightarrow> (case parse_duration s of
                    None \<Rightarrow> (cfg, Some (ErrWrap ''config: embedding.timeout'' (ErrMsg ''time: invalid duration'')))
                  | Some d \<Rightarrow> (cfg\<lparr>cf_EmbedTimeout := d\<rparr>, None)))"

definition merge_steps :: "toml_config \<Rightarrow> cfg_step list" where
  "merge_steps tc =
     [when_present (tc_SearchMaxResults tc) (\<lambda>v. \<not> (v < 1 \<or> v > 200)) ''search.max_results must be 1-200''
        (\<lambda>v c. c\<lparr>cf_SearchMaxResults := v, cf_DefaultMaxResults := v\<rparr>),
      when_present (tc_SearchDefaultMode tc) (\<lambda>v. v \<in> {''locate'', ''full''}) ''search.default_mode must be locate or full''
        (\<lambda>v c. c\<lparr>cf_SearchDefaultMode := v\<rparr>),
      when_present (tc_SearchMinScore tc) (\<lambda>v. \<not> score_rejected v) ''search.min_score must be 0.0-1.0''
        (\<lambda>v c. c\<lparr>cf_SearchMinScore := v\<rparr>),
      keep (tc_ContextEnabled tc) (\<lambda>v c. c\<lparr>cf_ContextEnabled := v\<rparr>),
      when_present (tc_ContextBudgetTokens tc) (\<lambda>v. \<not> (v < 256 \<or> v > 32768)) ''context.budget_tokens must be 256-32768''
        (\<lambda>v c. c\<lparr>cf_ContextBudgetTokens := v, cf_MaxBudgetTokens := v\<rparr>),
      when_present (tc_VectorBackend tc) (\<lambda>v. v \<in> set vector_backends) ''vector.backend must be a known backend''
        (\<lambda>v c. c\<lparr>cf_VectorBackend := v\<rparr>),
      (\<lambda>c. (if tc_TestPatterns tc \<noteq> [] then c\<lparr>cf_TestPatterns := tc_TestPatterns tc\<rparr> else c, None)),
      when_present (tc_DatabaseBackend tc) (\<lambda>v. v \<in> {''sqlite'', ''postgres''}) ''database.backend must be sqlite or postgres''
        (\<lambda>v c. c\<lparr>cf_DatabaseBackend := v\<rparr>),
      keep (tc_PostgresConnectionString tc) (\<lambda>v c. c\<lparr>cf_PostgresConnString := v\<rparr>),
      when_present (tc_PostgresMaxOpenConns tc) (\<lambda>v. \<not> v < 1) ''postgres.max_open_conns must be >= 1'' (\<lambda>v c. c\<lparr>cf_PostgresMaxOpen := v\<rparr>),
      when_present (tc_PostgresMaxIdleConns tc) (\<lambda>v. \<not> v < 0) ''postgres.max_idle_conns must be >= 0'' (\<lambda>v c. c\<lparr>cf_PostgresMaxIdle := v\<rparr>),
      keep (tc_PostgresSchema tc) (\<lambda>v c. c\<lparr>cf_PostgresSchema := v\<rparr>),
      keep (tc_QdrantURL tc) (\<lambda>v c. c\<lparr>cf_QdrantURL := v\<rparr>),
      keep (tc_QdrantCollection tc) (\<lambda>v c. c\<lparr>cf_QdrantCollection := v\<rparr>),
      keep (tc_QdrantAPIKey tc) (\<lambda>v c. c\<lparr>cf_QdrantAPIKey := v\<rparr>),
      keep (tc_EmbeddingOllamaURL tc) (\<lambda>v c. c\<lparr>cf_OllamaURL := v\<rparr>),
      keep (tc_EmbeddingModel tc) (\<lambda>v c. c\<lparr>cf_EmbeddingModel := v\<rparr>),
      when_present (tc_EmbeddingDims tc) (\<lambda>v. \<not> (v < 1 \<or> v > 4096)) ''embedding.dims must be 1-4096'' (\<lambda>v c. c\<lparr>cf_EmbeddingDims := v\<rparr>),
      when_present (tc_EmbeddingBatchSize tc) (\<lambda>v. \<not> v < 1) ''embedding.batch_size must be >= 1'' (\<lambda>v c. c\<lparr>cf_EmbedBatchSize := v\<rparr>),
      set_timeout (tc_EmbeddingTimeout tc),
      keep (tc_EmbeddingQueryPrefix tc) (\<lambda>v c. c\<lparr>cf_EmbedQueryPrefix := v\<rparr>),
      keep (tc_EmbeddingDocumentPrefix tc) (\<lambda>v c. c\<lparr>cf_EmbedDocumentPrefix := v\<rparr>)]"

datatype file_read = NotExist | ReadError err | FileData string

record config_env =
  ce_ReadFile :: "string \<Rightarrow> file_read"
  ce_toml :: "string \<Rightarrow> toml_config res"
  ce_Getenv :: "string \<Rightarrow> string"

definition env_overrides :: "config_env \<Rightarrow> config \<Rightarrow> config" where
  "env_overrides env cfg =
     (let pg = ce_Getenv env ''SHAKTIMAN_POSTGRES_URL''; key = ce_Getenv env ''SHAKTIMAN_QDRANT_API_KEY'';
          cfg1 = (if pg \<noteq> [] then cfg\<lparr>cf_PostgresConnString := pg\<rparr> else cfg)
      in if key \<noteq> [] then cfg1\<lparr>cf_QdrantAPIKey := key\<rparr> else cfg1)"

text \<open>The last component says whether a sample file is written.\<close>

definition load_config_from_file :: "config_env \<Rightarrow> config \<Rightarrow> config \<times> err option \<times> bool" where
  "load_config_from_file env cfg =
     (let path = join_path (join_path (cf_ProjectRoot cfg) ''.shaktiman'') ''shaktiman.toml'' in
      case ce_ReadFile env path of
        NotExist \<Rightarrow> (cfg, None, True)
      | ReadError e \<Rightarrow> (cfg, Some (ErrWrap (''read config '' @ path) e), False)
      | FileData data \<Rightarrow>
          (case ce_toml env data of
             Inl e \<Rightarrow> (cfg, Some (ErrWrap (''parse config '' @ path) e), False)
           | Inr tc \<Rightarrow>
               (case run_cfg (merge_steps tc) cfg of
                  (cfg1, Some e) \<Rightarrow> (cfg1, Some e, False)
                | (cfg1, None) \<Rightarrow> (env_overrides env cfg1, None, False))))"

definition validate_backend_config :: "config \<Rightarrow> err option" where
  "validate_backend_config cfg =
     (if cf_VectorBackend cfg = ''pgvector'' \<and> cf_DatabaseBackend cfg \<noteq> ''postgres''
      then Some (ErrMsg ''config: vector.backend pgvector requires database.backend postgres'')
      else if cf_DatabaseBackend cfg = ''postgres'' \<and> cf_PostgresConnString cfg = []
      then Some (ErrMsg ''config: database.backend postgres requires postgres.connection_string or SHAKTIMAN_POSTGRES_URL'')
      else if cf_VectorBackend cfg = ''qdrant'' \<and> cf_QdrantURL cfg = []
      then Some (ErrMsg ''config: vector.backend qdrant requires qdrant.url'')
      else if cf_DatabaseBackend cfg = ''postgres'' \<and> (cf_VectorBackend cfg = ''brute_force'' \<or> cf_VectorBackend cfg = ''hnsw'')
      then Some (ErrMsg ''config: database.backend postgres requires vector.backend pgvector or qdrant'')
      else None)"

section \<open>Test patterns\<close>

definition lang_test_patterns :: "(string \<times> string list) list" where
  "lang_test_patterns =
     [(''go'', [''*_test.go'', ''testdata/'']),
      (''python'', [''test_*.py'', ''*_test.py'']),
      (''typescript'', [''*.test.ts'', ''*.spec.ts'', ''*.test.tsx'', ''*.spec.tsx'', ''__tests__/'']),
      (''javascript'', [''*.test.js'', ''*.spec.js'', ''*.test.jsx'', ''*.spec.jsx'', ''*.test.mjs'', ''*.spec.mjs'', ''__tests__/'']),
      (''java'', [''*Test.java'', ''*Tests.java'', ''src/test/'']),
      (''rust'', [''tests/'']),
      (''bash'', [''test_*.sh'', ''*_test.sh'']),
      (''ruby'', [''*_test.rb'', ''test_*.rb'', ''*_spec.rb'', ''spec/'', ''test/''])]"

definition patterns_of :: "string \<Rightarrow> string list" where
  "patterns_of lang = (case map_of lang_test_patterns lang of None \<Rightarrow> [] | Some ps \<Rightarrow> ps)"

definition default_test_patterns :: "string list \<Rightarrow> string list" where
  "default_test_patterns languages = sort (dedup (concat (map patterns_of languages)))"

section \<open>Files of the backends\<close>

definition hnsw_path :: "string \<Rightarrow> string" where
  "hnsw_path base =
     (let ext = filepath_ext base in
      if ext \<noteq> [] then take (length base - length ext) base @ ''.hnsw'' else base @ ''.hnsw'')"

definition embeddings_path :: "config \<Rightarrow> string" where
  "embeddings_path cfg = (if cf_VectorBackend cfg = ''hnsw'' then hnsw_path (cf_EmbeddingsPath cfg) else cf_EmbeddingsPath cfg)"

text \<open>\<open>os.Remove\<close> on the files in order; a file that is not there is no error, the first error ends the purge.
  \<open>rm\<close> gives the error of a removal.\<close>

fun remove_all :: "(string \<Rightarrow> err option) \<Rightarrow> string list \<Rightarrow> string set \<Rightarrow> err option \<times> string set" where
  "remove_all rm [] fs = (None, fs)"
| "remove_all rm (p # ps) fs =
     (if p \<notin> fs then remove_all rm ps fs
      else case rm p of
        Some e \<Rightarrow> (Some (ErrWrap (''remove '' @ p) e), fs)
      | None \<Rightarrow> remove_all rm ps (fs - {p}))"

definition purge_files :: "(string \<Rightarrow> err option) \<Rightarrow> config \<Rightarrow> string set \<Rightarrow> err option \<times> string set" where
  "purge_files rm cfg fs =
     (case (if cf_DatabaseBackend cfg = [] \<or> cf_DatabaseBackend cfg = ''sqlite''
            then remove_all rm (map (\<lambda>suffix. cf_DBPath cfg @ suffix) [[], ''-wal'', ''-shm'']) fs else (None, fs)) of
        (Some e, fs1) \<Rightarrow> (Some e, fs1)
      | (None, fs1) \<Rightarrow> remove_all rm [cf_EmbeddingsPath cfg, hnsw_path (cf_EmbeddingsPath cfg)] fs1)"

section \<open>Properties\<close>

text \<open>The ranges that the configuration file documents. The minimum score lies between 0 and 1, unless it is not a
  number.\<close>

fun unit_score :: "float32 \<Rightarrow> bool" where
  "unit_score (F32 x) = (0 \<le> x \<and> x \<le> 1)"
| "unit_score F32NaN = True"
| "unit_score (F32Inf pos) = False"

definition config_ok :: "config \<Rightarrow> bool" where
  "config_ok c \<longleftrightarrow>
     1 \<le> cf_SearchMaxResults c \<and> cf_SearchMaxResults c \<le> 200 \<and> 1 \<le> cf_DefaultMaxResults c \<and> cf_DefaultMaxResults c \<le> 200
   \<and> cf_SearchDefaultMode c \<in> {''locate'', ''full''}
   \<and> 256 \<le> cf_ContextBudgetTokens c \<and> cf_ContextBudgetTokens c \<le> 32768 \<and> 256 \<le> cf_MaxBudgetTokens c \<and> cf_MaxBudgetTokens c \<le> 32768
   \<and> cf_VectorBackend c \<in> {''brute_force'', ''hnsw'', ''qdrant'', ''pgvector''} \<and> cf_DatabaseBackend c \<in> {''sqlite'', ''postgres''}
   \<and> 1 \<le> cf_PostgresMaxOpen c \<and> 0 \<le> cf_PostgresMaxIdle c
   \<and> 1 \<le> cf_EmbeddingDims c \<and> cf_EmbeddingDims c \<le> 4096 \<and> 1 \<le> cf_EmbedBatchSize c
   \<and> unit_score (cf_SearchMinScore c)"

lemma default_config_ok: "config_ok (default_config projectRoot)"
  by (simp add: config_ok_def default_config_def)

lemma accepted_score: "\<not> score_rejected v \<Longrightarrow> unit_score v"
  by (cases v rule: score_rejected.cases) simp_all

definition step_ok :: "cfg_step \<Rightarrow> bool" where
  "step_ok s \<longleftrightarrow> (\<forall>c. config_ok c \<longrightarrow> config_ok (fst (s c)))"

lemma step_okD: "step_ok s \<Longrightarrow> config_ok c \<Longrightarrow> s c = (c', e) \<Longrightarrow> config_ok c'"
  by (metis step_ok_def fst_conv)

lemma run_cfg_ok: "list_all step_ok ss \<Longrightarrow> config_ok c \<Longrightarrow> run_cfg ss c = (c', e) \<Longrightarrow> config_ok c'"
proof (induction ss arbitrary: c)
  case (Cons s ss)
  obtain c1 e1 where s: "s c = (c1, e1)" by (cases "s c")
  with Cons.prems step_okD [of s c c1 e1] have "config_ok c1" by simp
  with Cons s show ?case by (cases e1) auto
qed simp

lemma step_ok_when:
  assumes "\<And>x c. ok x \<Longrightarrow> config_ok c \<Longrightarrow> config_ok (upd x c)"
  shows "step_ok (when_present v ok msg upd)"
  using assms by (simp add: step_ok_def when_present_def split: option.split)

lemma step_ok_other: "step_ok (set_timeout v)" "step_ok (\<lambda>c. (if ps \<noteq> [] then c\<lparr>cf_TestPatterns := ps\<rparr> else c, None))"
  by (simp_all add: step_ok_def set_timeout_def config_ok_def split: option.split)

lemma merge_steps_ok: "list_all step_ok (merge_steps tc)"
  unfolding merge_steps_def list.pred_inject
  by (intro conjI step_ok_when step_ok_other TrueI) (auto simp: config_ok_def vector_backends_def accepted_score)

text \<open>A file that sets nothing.\<close>

definition no_settings :: toml_config where
  "no_settings = \<lparr>tc_SearchMaxResults = None, tc_SearchDefaultMode = None, tc_SearchMinScore = None, tc_ContextEnabled = None,
     tc_ContextBudgetTokens = None, tc_VectorBackend = None, tc_TestPatterns = [], tc_DatabaseBackend = None,
     tc_PostgresConnectionString = None, tc_PostgresMaxOpenConns = None, tc_PostgresMaxIdleConns = None, tc_PostgresSchema = None,
     tc_QdrantURL = None, tc_QdrantCollection = None, tc_QdrantAPIKey = None, tc_EmbeddingOllamaURL = None, tc_EmbeddingModel = None,
     tc_EmbeddingDims = None, tc_EmbeddingBatchSize = None, tc_EmbeddingTimeout = None, tc_EmbeddingQueryPrefix = None,
     tc_EmbeddingDocumentPrefix = None\<rparr>"

lemma parse_minus_five: "parse_duration ''-5s'' = Some (- 5 * 10 ^ 9)"
proof -
  have "dec_nat 5 = ''5''" by code_simp
  then show ?thesis
    using parse_plain(2) [of "''s''" "10 ^ 9" 5] by (simp add: unit_map_def unit_char_def is_digit_def digit_val_def)
qed

text \<open>C34. Whatever the file and the environment say, and also when loading fails halfway, a configuration
  within its ranges stays within them, and the defaults are within them; the minimum score is then a number
  between 0 and 1 or not a number at all. That case happens: a file that says \<open>nan\<close>, as TOML allows, is
  loaded without an error, and so is one with a negative timeout.\<close>

theorem load_config_in_range:
  assumes "config_ok cfg"
  shows "config_ok (fst (load_config_from_file env cfg)) \<and> config_ok (default_config projectRoot)
    \<and> (ce_ReadFile env (join_path (join_path (cf_ProjectRoot cfg) ''.shaktiman'') ''shaktiman.toml'') = FileData data
        \<and> ce_toml env data = Inr (no_settings\<lparr>tc_SearchMinScore := Some F32NaN, tc_EmbeddingTimeout := Some ''-5s''\<rparr>)
       \<longrightarrow> (\<exists>cfg'. load_config_from_file env cfg = (cfg', None, False)
            \<and> cf_SearchMinScore cfg' = F32NaN \<and> cf_EmbedTimeout cfg' = - 5 * 10 ^ 9))"
proof -
  have env: "config_ok (env_overrides env c)" if "config_ok c" for c
    using that by (simp add: env_overrides_def Let_def config_ok_def)
  have merged: "config_ok (fst (case run_cfg (merge_steps tc) cfg of (cfg1, Some e) \<Rightarrow> (cfg1, Some e, False)
      | (cfg1, None) \<Rightarrow> (env_overrides env cfg1, None, False)))" for tc
  proof -
    obtain c e where r: "run_cfg (merge_steps tc) cfg = (c, e)" by (cases "run_cfg (merge_steps tc) cfg")
    from run_cfg_ok [OF merge_steps_ok assms r] r env show ?thesis by (cases e) simp_all
  qed
  have "config_ok (fst (load_config_from_file env cfg))"
    unfolding load_config_from_file_def Let_def
    using assms merged by (simp split: file_read.split sum.split)
  moreover have "run_cfg (merge_steps (no_settings\<lparr>tc_SearchMinScore := Some F32NaN, tc_EmbeddingTimeout := Some ''-5s''\<rparr>)) cfg
      = (cfg\<lparr>cf_SearchMinScore := F32NaN, cf_EmbedTimeout := - 5 * 10 ^ 9\<rparr>, None)"
    by (simp add: merge_steps_def no_settings_def when_present_def set_timeout_def parse_minus_five)
  ultimately show ?thesis
    by (simp add: default_config_ok load_config_from_file_def env_overrides_def Let_def)
qed

theorem load_config_in_range_witness:
  "\<exists>cfg'. load_config_from_file
     \<lparr>ce_ReadFile = (\<lambda>_. FileData []),
      ce_toml = (\<lambda>_. Inr (no_settings\<lparr>tc_SearchMinScore := Some F32NaN, tc_EmbeddingTimeout := Some ''-5s''\<rparr>)), ce_Getenv = (\<lambda>_. [])\<rparr>
     (default_config ''/p'') = (cfg', None, False) \<and> config_ok cfg' \<and> cf_SearchMinScore cfg' = F32NaN"
proof -
  let ?env = "\<lparr>ce_ReadFile = (\<lambda>_. FileData []),
      ce_toml = (\<lambda>_. Inr (no_settings\<lparr>tc_SearchMinScore := Some F32NaN, tc_EmbeddingTimeout := Some ''-5s''\<rparr>)), ce_Getenv = (\<lambda>_. [])\<rparr>"
  from load_config_in_range [OF default_config_ok [of "''/p''"], of ?env _ "[]"] show ?thesis by fastforce
qed

lemma run_cfg_append:
  "run_cfg (xs @ ys) c = (case run_cfg xs c of (c1, Some e) \<Rightarrow> (c1, Some e) | (c1, None) \<Rightarrow> run_cfg ys c1)"
  by (induction xs arbitrary: c) (auto split: prod.split option.split)

definition leaves :: "(config \<Rightarrow> 'x) \<Rightarrow> cfg_step \<Rightarrow> bool" where
  "leaves f s \<longleftrightarrow> (\<forall>c. f (fst (s c)) = f c)"

lemma leaves_when: "(\<And>x c. f (upd x c) = f c) \<Longrightarrow> leaves f (when_present v ok msg upd)"
  by (simp add: leaves_def when_present_def split: option.split)

lemma leaves_other:
  "(\<And>x c. f (c\<lparr>cf_EmbedTimeout := x\<rparr>) = f c) \<Longrightarrow> leaves f (set_timeout v)"
  "(\<And>c. f (c\<lparr>cf_TestPatterns := ps\<rparr>) = f c) \<Longrightarrow> leaves f (\<lambda>c. (if ps \<noteq> [] then c\<lparr>cf_TestPatterns := ps\<rparr> else c, None))"
  by (simp_all add: leaves_def set_timeout_def split: option.split)

lemma run_cfg_leaves: "list_all (leaves f) ss \<Longrightarrow> run_cfg ss c = (c', e) \<Longrightarrow> f c' = f c"
proof (induction ss arbitrary: c)
  case (Cons s ss)
  obtain c1 e1 where s: "s c = (c1, e1)" by (cases "s c")
  have "f c1 = f c" using Cons.prems(1) s by (simp add: leaves_def) (metis fst_conv)
  with Cons s show ?case by (cases e1) auto
qed simp

definition pick :: "'a option \<Rightarrow> 'a \<Rightarrow> 'a" where
  "pick v old = (case v of None \<Rightarrow> old | Some x \<Rightarrow> x)"

text \<open>The one statement that sets a field decides its value.\<close>

lemma run_cfg_field:
  assumes run: "run_cfg (xs @ when_present v ok msg upd # ys) c = (c', None)"
    and others: "list_all (leaves f) xs" "list_all (leaves f) ys" and set: "\<And>x c. f (upd x c) = x"
  shows "f c' = pick v (f c)"
proof -
  from run obtain c1 c2 where c1: "run_cfg xs c = (c1, None)" and c2: "when_present v ok msg upd c1 = (c2, None)" and c3: "run_cfg ys c2 = (c', None)"
    by (auto simp: run_cfg_append split: prod.splits option.splits)
  have "f c2 = pick v (f c1)"
    using c2 set by (auto simp: when_present_def pick_def split: option.splits if_splits)
  then show ?thesis using run_cfg_leaves [OF others(1) c1] run_cfg_leaves [OF others(2) c3] by simp
qed

lemma split_at: "n < length xs \<Longrightarrow> xs = take n xs @ xs ! n # drop (Suc n) xs"
  by (rule id_take_nth_drop)

lemma merge_field:
  assumes "run_cfg (merge_steps tc) c = (c', None)"
    and "n < 22" and "merge_steps tc ! n = when_present v ok msg upd" and "\<And>x c. f (upd x c) = x"
    and "list_all (leaves f) (take n (merge_steps tc) @ drop (Suc n) (merge_steps tc))"
  shows "f c' = pick v (f c)"
proof (rule run_cfg_field)
  have "n < length (merge_steps tc)" using assms(2) by (simp add: merge_steps_def)
  from split_at [OF this] assms(1,3)
  show "run_cfg (take n (merge_steps tc) @ when_present v ok msg upd # drop (Suc n) (merge_steps tc)) c = (c', None)" by simp
qed (use assms(4,5) in auto)

lemmas leaves_rules = leaves_when leaves_other

lemma merged_fields:
  assumes run: "run_cfg (merge_steps tc) c = (c', None)"
  shows "cf_VectorBackend c' = pick (tc_VectorBackend tc) (cf_VectorBackend c)"
    and "cf_DatabaseBackend c' = pick (tc_DatabaseBackend tc) (cf_DatabaseBackend c)"
    and "cf_PostgresConnString c' = pick (tc_PostgresConnectionString tc) (cf_PostgresConnString c)"
    and "cf_QdrantURL c' = pick (tc_QdrantURL tc) (cf_QdrantURL c)"
    and "cf_QdrantAPIKey c' = pick (tc_QdrantAPIKey tc) (cf_QdrantAPIKey c)"
    and "cf_EmbeddingDims c' = pick (tc_EmbeddingDims tc) (cf_EmbeddingDims c)"
proof -
  note field = merge_field [OF run]
  show "cf_VectorBackend c' = pick (tc_VectorBackend tc) (cf_VectorBackend c)"
    by (rule field [where n = 5], simp, simp add: merge_steps_def, simp, simp add: merge_steps_def leaves_rules)
  show "cf_DatabaseBackend c' = pick (tc_DatabaseBackend tc) (cf_DatabaseBackend c)"
    by (rule field [where n = 7], simp, simp add: merge_steps_def, simp, simp add: merge_steps_def leaves_rules)
  show "cf_PostgresConnString c' = pick (tc_PostgresConnectionString tc) (cf_PostgresConnString c)"
    by (rule field [where n = 8], simp, simp add: merge_steps_def, simp, simp add: merge_steps_def leaves_rules)
  show "cf_QdrantURL c' = pick (tc_QdrantURL tc) (cf_QdrantURL c)"
    by (rule field [where n = 12], simp, simp add: merge_steps_def, simp, simp add: merge_steps_def leaves_rules)
  show "cf_QdrantAPIKey c' = pick (tc_QdrantAPIKey tc) (cf_QdrantAPIKey c)"
    by (rule field [where n = 14], simp, simp add: merge_steps_def, simp, simp add: merge_steps_def leaves_rules)
  show "cf_EmbeddingDims c' = pick (tc_EmbeddingDims tc) (cf_EmbeddingDims c)"
    by (rule field [where n = 17], simp, simp add: merge_steps_def, simp, simp add: merge_steps_def leaves_rules)
qed

text \<open>The order of precedence: a key of the file replaces the value before it, an absent key leaves it, and the
  environment wins for the two secrets. If the result passes the check of the backends and names
  Postgres, it has a connection string and a vector store that several daemons can share.\<close>

theorem load_precedence:
  assumes "ce_ReadFile env (join_path (join_path (cf_ProjectRoot cfg) ''.shaktiman'') ''shaktiman.toml'') = FileData data"
    and "ce_toml env data = Inr tc" and "load_config_from_file env cfg = (cfg', None, w)" and "config_ok cfg"
  shows "cf_VectorBackend cfg' = pick (tc_VectorBackend tc) (cf_VectorBackend cfg)
    \<and> cf_DatabaseBackend cfg' = pick (tc_DatabaseBackend tc) (cf_DatabaseBackend cfg)
    \<and> cf_EmbeddingDims cfg' = pick (tc_EmbeddingDims tc) (cf_EmbeddingDims cfg)
    \<and> cf_PostgresConnString cfg' = (if ce_Getenv env ''SHAKTIMAN_POSTGRES_URL'' \<noteq> [] then ce_Getenv env ''SHAKTIMAN_POSTGRES_URL''
        else pick (tc_PostgresConnectionString tc) (cf_PostgresConnString cfg))
    \<and> cf_QdrantAPIKey cfg' = (if ce_Getenv env ''SHAKTIMAN_QDRANT_API_KEY'' \<noteq> [] then ce_Getenv env ''SHAKTIMAN_QDRANT_API_KEY''
        else pick (tc_QdrantAPIKey tc) (cf_QdrantAPIKey cfg))
    \<and> (validate_backend_config cfg' = None \<longrightarrow> cf_DatabaseBackend cfg' = ''postgres'' \<longrightarrow>
        cf_PostgresConnString cfg' \<noteq> [] \<and> cf_VectorBackend cfg' \<in> {''pgvector'', ''qdrant''})"
proof -
  from assms(1-3) obtain c1 where run: "run_cfg (merge_steps tc) cfg = (c1, None)" and cfg': "cfg' = env_overrides env c1"
    by (auto simp: load_config_from_file_def Let_def split: prod.splits option.splits)
  have same: "cf_VectorBackend cfg' = cf_VectorBackend c1" "cf_DatabaseBackend cfg' = cf_DatabaseBackend c1" "cf_EmbeddingDims cfg' = cf_EmbeddingDims c1"
    "cf_PostgresConnString cfg' = (if ce_Getenv env ''SHAKTIMAN_POSTGRES_URL'' \<noteq> [] then ce_Getenv env ''SHAKTIMAN_POSTGRES_URL'' else cf_PostgresConnString c1)"
    "cf_QdrantAPIKey cfg' = (if ce_Getenv env ''SHAKTIMAN_QDRANT_API_KEY'' \<noteq> [] then ce_Getenv env ''SHAKTIMAN_QDRANT_API_KEY'' else cf_QdrantAPIKey c1)"
    by (simp_all add: cfg' env_overrides_def Let_def)
  have "config_ok c1" by (rule run_cfg_ok [OF merge_steps_ok assms(4) run])
  then have "cf_VectorBackend cfg' \<in> set vector_backends" by (auto simp: config_ok_def same vector_backends_def)
  then have "cf_PostgresConnString cfg' \<noteq> [] \<and> cf_VectorBackend cfg' \<in> {''pgvector'', ''qdrant''}"
    if "validate_backend_config cfg' = None" "cf_DatabaseBackend cfg' = ''postgres''"
    using that by (auto simp: validate_backend_config_def vector_backends_def split: if_splits)
  then show ?thesis unfolding same(1-3) merged_fields(1,2,6) [OF run] using same(4,5) merged_fields(3,5) [OF run] by auto
qed

definition empty_toml :: toml_config where
  "empty_toml = \<lparr>tc_SearchMaxResults = None, tc_SearchDefaultMode = None, tc_SearchMinScore = None, tc_ContextEnabled = None,
     tc_ContextBudgetTokens = None, tc_VectorBackend = None, tc_TestPatterns = [], tc_DatabaseBackend = None,
     tc_PostgresConnectionString = None, tc_PostgresMaxOpenConns = None, tc_PostgresMaxIdleConns = None, tc_PostgresSchema = None,
     tc_QdrantURL = None, tc_QdrantCollection = None, tc_QdrantAPIKey = None, tc_EmbeddingOllamaURL = None, tc_EmbeddingModel = None,
     tc_EmbeddingDims = None, tc_EmbeddingBatchSize = None, tc_EmbeddingTimeout = None, tc_EmbeddingQueryPrefix = None,
     tc_EmbeddingDocumentPrefix = None\<rparr>"

text \<open>A file that selects Postgres and \<open>pgvector\<close> and gives a connection string, which the environment replaces.\<close>

definition pg_config_env :: config_env where
  "pg_config_env = \<lparr>ce_ReadFile = (\<lambda>_. FileData []),
     ce_toml = (\<lambda>_. Inr (empty_toml\<lparr>tc_DatabaseBackend := Some ''postgres'', tc_VectorBackend := Some ''pgvector'',
                                    tc_PostgresConnectionString := Some ''file''\<rparr>)),
     ce_Getenv = (\<lambda>k. if k = ''SHAKTIMAN_POSTGRES_URL'' then ''env'' else [])\<rparr>"

theorem load_precedence_witness:
  "\<exists>cfg'. load_config_from_file pg_config_env (default_config ''/p'') = (cfg', None, False) \<and> cf_PostgresConnString cfg' = ''env''
     \<and> cf_DatabaseBackend cfg' = ''postgres'' \<and> cf_EmbeddingDims cfg' = 768 \<and> validate_backend_config cfg' = None"
proof -
  obtain cfg' where load: "load_config_from_file pg_config_env (default_config ''/p'') = (cfg', None, False)"
    by (simp add: load_config_from_file_def pg_config_env_def empty_toml_def merge_steps_def when_present_def set_timeout_def vector_backends_def)
  have "validate_backend_config (fst (load_config_from_file pg_config_env (default_config ''/p''))) = None"
    by (simp add: load_config_from_file_def pg_config_env_def empty_toml_def merge_steps_def when_present_def set_timeout_def
        vector_backends_def validate_backend_config_def env_overrides_def Let_def default_config_def)
  with load_precedence [of pg_config_env "default_config ''/p''", OF _ _ load default_config_ok] load show ?thesis
    by (simp add: pg_config_env_def empty_toml_def pick_def default_config_def)
qed

text \<open>The default test patterns are sorted, without duplicates, and classify a file as a test exactly when
  the patterns of one of the languages do.\<close>

theorem default_test_patterns_exact:
  "sorted (default_test_patterns languages) \<and> distinct (default_test_patterns languages)
   \<and> is_test_file path (default_test_patterns languages) = list_ex (\<lambda>lang. is_test_file path (patterns_of lang)) languages
   \<and> is_test_file ''pkg/a_test.go'' (default_test_patterns [''rust'', ''go''])"
proof -
  have set: "set (default_test_patterns ls) = (\<Union>l \<in> set ls. set (patterns_of l))" for ls
    by (simp add: default_test_patterns_def)
  have "distinct (default_test_patterns languages)" by (simp add: default_test_patterns_def)
  moreover have "sorted (default_test_patterns languages)" by (simp add: default_test_patterns_def)
  moreover have eq: "is_test_file p (default_test_patterns ls) = list_ex (\<lambda>lang. is_test_file p (patterns_of lang)) ls" for p ls
    by (auto simp: is_test_file_def list_ex_iff set)
  moreover have "is_test_file ''pkg/a_test.go'' (patterns_of ''go'')" by code_simp
  then have "is_test_file ''pkg/a_test.go'' (default_test_patterns [''rust'', ''go''])" by (simp add: eq)
  ultimately show ?thesis by blast
qed

lemma remove_all_ok: "(\<And>p. rm p = None) \<Longrightarrow> remove_all rm ps fs = (None, fs - set ps)"
  by (induction ps arbitrary: fs) auto

text \<open>A purge whose removals succeed removes the vectors of whichever backend, and with SQLite the database
  with its two journal files, and nothing else.\<close>

theorem purge_files_exact:
  assumes "\<And>p. rm p = None"
  shows "purge_files rm cfg fs = (None, fs - ({cf_EmbeddingsPath cfg, hnsw_path (cf_EmbeddingsPath cfg)}
      \<union> (if cf_DatabaseBackend cfg = [] \<or> cf_DatabaseBackend cfg = ''sqlite''
         then {cf_DBPath cfg, cf_DBPath cfg @ ''-wal'', cf_DBPath cfg @ ''-shm''} else {})))
    \<and> embeddings_path cfg \<notin> snd (purge_files rm cfg fs)"
  unfolding purge_files_def remove_all_ok [of rm, OF assms] by (auto simp: embeddings_path_def)

theorem purge_files_exact_witness:
  "purge_files (\<lambda>_. None) (default_config ''/p'') {''/p/.shaktiman/index.db'', ''/p/.shaktiman/embeddings.bin'', ''/p/a.go''} = (None, {''/p/a.go''})"
  using purge_files_exact [of "\<lambda>_. None" "default_config ''/p''" "{''/p/.shaktiman/index.db'', ''/p/.shaktiman/embeddings.bin'', ''/p/a.go''}"]
  by (auto simp: default_config_def join_path_def slash_def hnsw_path_def filepath_ext_def Let_def)

end
