(* ===== verification/Mcp_Tools.thy ===== *)
theory Mcp_Tools
  imports Result_Format Tool_Metrics Configuration Circuit_Breaker
begin

text \<open>
  \<open>internal/mcp/tools.go\<close>, \<open>enums.go\<close>, \<open>server.go\<close>: the tools of the server, from the arguments of a call to
  the answer. The accessors of the request (\<open>RequireString\<close>, \<open>GetInt\<close> and so on) are those of the
  protocol library and an argument, as are the text of an error, the JSON encoder and the format of a
  time stamp; a call reads the clock once. A handler's Go error is always nil. The time limit of a
  call, descriptions and schemas are left out,
  and so are the quotation marks in error messages.
\<close>

section \<open>Enums\<close>

definition mode_valid :: "string \<Rightarrow> bool" where
  "mode_valid m = (m \<in> {''locate'', ''full''})"

definition scope_valid :: "string \<Rightarrow> bool" where
  "scope_valid s = (s \<in> {''impl'', ''test'', ''all''})"

definition direction_valid :: "string \<Rightarrow> bool" where
  "direction_valid d = (d \<in> {''callers'', ''callees'', ''both''})"

definition all_scopes :: "string list" where "all_scopes = [''impl'', ''test'', ''all'']"

definition all_directions :: "string list" where "all_directions = [''callers'', ''callees'', ''both'']"

section \<open>Requests and answers\<close>

record tool_request =
  rq_RequireString :: "string \<Rightarrow> string option"
  rq_GetString :: "string \<Rightarrow> string \<Rightarrow> string"
  rq_GetInt :: "string \<Rightarrow> int \<Rightarrow> int"
  rq_GetFloat :: "string \<Rightarrow> float32 \<Rightarrow> float32"
  rq_GetBool :: "string \<Rightarrow> bool \<Rightarrow> bool"
  rq_ArgsJSON :: string

datatype payload =
    PSymbolsWithRefs "symbol_result list" "symbol_ref list" "(string \<times> int) option"
  | PSymbols "symbol_result list"
  | PDeps "dep_result list"
  | PDiffs "diff_result list"
  | PStatus enrichment_status
  | PSummary summary_result

record tool_env =
  te_query :: query_env
  te_errText :: "err \<Rightarrow> string"
  te_marshal :: "payload \<Rightarrow> string res"
  te_stamp :: "int \<Rightarrow> string"

definition sanitize_error :: "tool_env \<Rightarrow> string \<Rightarrow> err \<Rightarrow> string" where
  "sanitize_error env pfx e =
     (let msg = te_errText env e in pfx @ (if length msg > 200 then take 200 msg @ ''...'' else msg))"

definition failed :: "string \<Rightarrow> tool_result \<times> int" where
  "failed msg = (error_result msg, 0)"

text \<open>\<open>withResultCount\<close> fills the slot of the wrapper.\<close>

definition json_result :: "tool_env \<Rightarrow> payload \<Rightarrow> int \<Rightarrow> string \<Rightarrow> tool_result \<times> int" where
  "json_result env payload resultCount marshalLabel =
     (case te_marshal env payload of
        Inl e \<Rightarrow> failed (sanitize_error env marshalLabel e)
      | Inr data \<Rightarrow> (text_result data, resultCount))"

section \<open>Handlers\<close>

text \<open>A minimum score of NaN is not positive and no filter, as zero is none.\<close>

fun score_value :: "float32 \<Rightarrow> real" where
  "score_value (F32 x) = x"
| "score_value F32NaN = 0"
| "score_value (F32Inf _) = 0"

definition search_handler :: "tool_env \<Rightarrow> config \<Rightarrow> tool_request \<Rightarrow> query_engine \<Rightarrow> (tool_result \<times> int) \<times> query_engine" where
  "search_handler env cfg req e =
     (case rq_RequireString req ''query'' of
        None \<Rightarrow> (failed ''missing required parameter: query'', e)
      | Some query \<Rightarrow>
          if length query > 10000 then (failed ''query exceeds maximum length of 10,000 characters'', e)
          else
            let mode = rq_GetString req ''mode'' (cf_SearchDefaultMode cfg) in
            if mode \<noteq> ''locate'' \<and> mode \<noteq> ''full'' then (failed ''mode must be locate or full'', e)
            else
              let maxResults = rq_GetInt req ''max_results'' (cf_SearchMaxResults cfg) in
              if maxResults < 1 \<or> maxResults > 200 then (failed ''max_results must be between 1 and 200'', e)
              else
                let minScore = rq_GetFloat req ''min_score'' (cf_SearchMinScore cfg) in
                if score_rejected minScore then (failed ''min_score must be between 0.0 and 1.0'', e)
                else
                  let explain = rq_GetBool req ''explain'' False;
                      pathFilter = rq_GetString req ''path'' [];
                      f = scope_to_filter (rq_GetString req ''scope'' ''impl'')
                  in case search (te_query env)
                            \<lparr>si_Query = query, si_MaxResults = search_overfetch_limit maxResults (pathFilter \<noteq> []),
                             si_MinScore = score_value minScore, si_ExcludeTests = tf_ExcludeTests f, si_TestOnly = tf_TestOnly f\<rparr> e of
                       (Inl err, e1) \<Rightarrow> (failed (sanitize_error env ''search failed: '' err), e1)
                     | (Inr found, e1) \<Rightarrow>
                         let results = filter_by_path_prefix found pathFilter maxResults;
                             txt = (if mode = ''locate'' then locate_results results else search_results results explain)
                         in ((text_result txt, int (length results)), e1))"

definition context_handler :: "tool_env \<Rightarrow> config \<Rightarrow> tool_request \<Rightarrow> query_engine \<Rightarrow> (tool_result \<times> int) \<times> query_engine" where
  "context_handler env cfg req e =
     (case rq_RequireString req ''query'' of
        None \<Rightarrow> (failed ''missing required parameter: query'', e)
      | Some query \<Rightarrow>
          if length query > 10000 then (failed ''query exceeds maximum length of 10,000 characters'', e)
          else
            let budget = rq_GetInt req ''budget_tokens'' (cf_ContextBudgetTokens cfg) in
            if budget < 256 \<or> budget > 32768 then (failed ''budget_tokens must be between 256 and 32768'', e)
            else
              let f = scope_to_filter (rq_GetString req ''scope'' ''impl'') in
              case query_context (te_query env)
                     \<lparr>ci_Query = query, ci_BudgetTokens = budget, ci_ExcludeTests = tf_ExcludeTests f, ci_TestOnly = tf_TestOnly f\<rparr> e of
                (Inl err, e1) \<Rightarrow> (failed (sanitize_error env ''context assembly failed: '' err), e1)
              | (Inr pkg, e1) \<Rightarrow> ((text_result (context_text (Some pkg)), int (length (cp_Chunks pkg))), e1))"

definition symbols_handler :: "tool_env \<Rightarrow> metadata_store \<Rightarrow> tool_request \<Rightarrow> tool_result \<times> int" where
  "symbols_handler env store req =
     (case rq_RequireString req ''name'' of
        None \<Rightarrow> failed ''missing required parameter: name''
      | Some name \<Rightarrow>
          let kind = rq_GetString req ''kind'' []; f = scope_to_filter (rq_GetString req ''scope'' ''impl'') in
          case lookup_symbols store name kind f of
            Inl e \<Rightarrow> failed (sanitize_error env ''symbol lookup failed: '' e)
          | Inr result \<Rightarrow>
              if sl_ReferencedBy result \<noteq> [] then
                json_result env (PSymbolsWithRefs (sl_Definitions result) (sl_ReferencedBy result) (sl_Note result))
                  (int (length (sl_ReferencedBy result))) ''marshal results: ''
              else json_result env (PSymbols (sl_Definitions result)) (int (length (sl_Definitions result))) ''marshal results: '')"

definition dependencies_handler :: "tool_env \<Rightarrow> metadata_store \<Rightarrow> tool_request \<Rightarrow> tool_result \<times> int" where
  "dependencies_handler env store req =
     (case rq_RequireString req ''symbol'' of
        None \<Rightarrow> failed ''missing required parameter: symbol''
      | Some symbolName \<Rightarrow>
          let (direction, ok) = normalize_direction (rq_GetString req ''direction'' ''both'') in
          if \<not> ok then failed ''direction must be callers, callees, or both''
          else
            let depth = rq_GetInt req ''depth'' 2 in
            if depth < 1 \<or> depth > 5 then failed ''depth must be between 1 and 5''
            else
              let f = scope_to_filter (rq_GetString req ''scope'' ''impl'') in
              case lookup_dependencies store symbolName direction depth f of
                Inl e \<Rightarrow> failed (sanitize_error env ''dependency lookup failed: '' e)
              | Inr results \<Rightarrow> json_result env (PDeps results) (int (length results)) ''marshal results: '')"

definition diff_handler :: "tool_env \<Rightarrow> metadata_store \<Rightarrow> tool_request \<Rightarrow> tool_result \<times> int" where
  "diff_handler env store req =
     (case validate_diff_window (rq_GetString req ''since'' ''24h'') of
        Inl e \<Rightarrow> failed (''invalid since: '' @ te_errText env e)
      | Inr duration \<Rightarrow>
          let n = rq_GetInt req ''limit'' 50 in
          case validate_diff_limit n of
            Inl e \<Rightarrow> failed (''invalid limit: '' @ te_errText env e)
          | Inr _ \<Rightarrow>
              let f = scope_to_filter (rq_GetString req ''scope'' ''impl'');
                  since = te_stamp env (en_now (te_query env) - duration)
              in case lookup_diffs store since n f of
                   Inl e \<Rightarrow> failed (sanitize_error env ''diff query failed: '' e)
                 | Inr results \<Rightarrow> json_result env (PDiffs results) (int (length results)) ''marshal results: '')"

fun circuit_name :: "circuit_state \<Rightarrow> string" where
  "circuit_name StateClosed = ''closed''"
| "circuit_name StateOpen = ''open''"
| "circuit_name StateHalfOpen = ''half_open''"
| "circuit_name _ = ''disabled''"

text \<open>Of the worker, the number of pending jobs and the state of its breaker.\<close>

definition status_handler :: "tool_env \<Rightarrow> metadata_store \<Rightarrow> vector_ops option \<Rightarrow> (int \<times> circuit_state) option \<Rightarrow> tool_result \<times> int" where
  "status_handler env store vs worker =
     (let pendingFn = (case worker of None \<Rightarrow> 0 | Some (n, _) \<Rightarrow> n);
          circuitFn = (case worker of None \<Rightarrow> ''disabled'' | Some (_, st) \<Rightarrow> circuit_name st)
      in case get_enrichment_status store vs (Some pendingFn) (Some circuitFn) of
           Inl e \<Rightarrow> failed (sanitize_error env ''stats query failed: '' e)
         | Inr result \<Rightarrow> json_result env (PStatus result) 1 ''marshal status: '')"

definition summary_handler :: "tool_env \<Rightarrow> metadata_store \<Rightarrow> vector_ops option \<Rightarrow> tool_result \<times> int" where
  "summary_handler env store vs =
     (case get_summary store vs of
        Inl e \<Rightarrow> failed (sanitize_error env ''summary failed: '' e)
      | Inr result \<Rightarrow> json_result env (PSummary result) 1 ''marshal summary: '')"

section \<open>The server\<close>

record mcp_server =
  sv_Engine :: query_engine
  sv_VectorStore :: "vector_ops option"
  sv_EmbedWorker :: "(int \<times> circuit_state) option"
  sv_Recorder :: "metrics_recorder option"
  sv_Config :: config
  sv_Registry :: registry

text \<open>The names of \<open>toolRegistry\<close> whose gate is open, in order.\<close>

definition registered_tools :: "config \<Rightarrow> string list" where
  "registered_tools cfg =
     [''search''] @ (if cf_ContextEnabled cfg then [''context''] else [])
     @ [''symbols'', ''dependencies'', ''diff'', ''enrichment_status'', ''summary'']"

definition run_tool :: "tool_env \<Rightarrow> mcp_server \<Rightarrow> string \<Rightarrow> tool_request \<Rightarrow> ((tool_result \<times> int) \<times> query_engine) option" where
  "run_tool env sv name req =
     (let e = sv_Engine sv; store = qe_store e in
      if name \<notin> set (registered_tools (sv_Config sv)) then None
      else if name = ''search'' then Some (search_handler env (sv_Config sv) req e)
      else if name = ''context'' then Some (context_handler env (sv_Config sv) req e)
      else if name = ''symbols'' then Some (symbols_handler env store req, e)
      else if name = ''dependencies'' then Some (dependencies_handler env store req, e)
      else if name = ''diff'' then Some (diff_handler env store req, e)
      else if name = ''enrichment_status'' then Some (status_handler env store (sv_VectorStore sv) (sv_EmbedWorker sv), e)
      else Some (summary_handler env store (sv_VectorStore sv), e))"

text \<open>A call of a registered tool: its handler inside the wrapper.\<close>

definition call_tool :: "tool_env \<Rightarrow> string \<Rightarrow> int \<Rightarrow> string \<Rightarrow> tool_request \<Rightarrow> mcp_server \<Rightarrow> (tool_result \<times> mcp_server) option" where
  "call_tool env start ms name req sv =
     (case run_tool env sv name req of
        None \<Rightarrow> None
      | Some (answer, e1) \<Rightarrow>
          let (r, reg, mr) = with_metrics name start (rq_ArgsJSON req) ms answer (sv_Registry sv) (sv_Recorder sv)
          in Some (r, sv\<lparr>sv_Engine := e1, sv_Registry := reg, sv_Recorder := mr\<rparr>))"

section \<open>Lemmas\<close>

lemma record_session_store: "qe_store (record_session t rs e) = qe_store e"
  by (simp add: record_session_def split: option.split)

lemma search_keyword_store: "search_keyword env input e = (r, e') \<Longrightarrow> qe_store e' = qe_store e"
  by (auto simp: search_keyword_def Let_def record_session_store split: sum.splits if_splits)

lemma embed_query_store: "embed_query q e = (r, e1) \<Longrightarrow> qe_store e1 = qe_store e"
  using embed_query_frame [of q e r e1] by auto

lemma search_semantic_store:
  assumes "search_semantic env input e = (r, e')"
  shows "qe_store e' = qe_store e"
proof -
  obtain q e1 where q: "embed_query (si_Query input) e = (q, e1)" by fastforce
  note e1 = embed_query_store [OF q]
  have "qe_store e' = qe_store e" if "search_keyword env input e1 = (r, e')" using search_keyword_store [OF that] e1 by simp
  with assms e1 show ?thesis by (auto simp: search_semantic_def Let_def record_session_store q split: sum.splits)
qed

lemma search_store: "search env input e = (r, e') \<Longrightarrow> qe_store e' = qe_store e"
  by (auto simp: search_def Let_def dest: search_semantic_store search_keyword_store split: fallback_level.splits)

lemma query_context_store: "query_context env input e = (r, e') \<Longrightarrow> qe_store e' = qe_store e"
  by (auto simp: query_context_def context_semantic_def Let_def dest: search_semantic_store
      split: fallback_level.splits prod.splits sum.splits if_splits)

lemma search_handler_store: "search_handler env cfg req e = (a, e') \<Longrightarrow> qe_store e' = qe_store e"
  by (auto simp: search_handler_def Let_def dest: search_store split: option.splits if_splits prod.splits sum.splits)

lemma context_handler_store: "context_handler env cfg req e = (a, e') \<Longrightarrow> qe_store e' = qe_store e"
  by (auto simp: context_handler_def Let_def dest: query_context_store split: option.splits if_splits prod.splits sum.splits)

lemma run_tool_store: "run_tool env sv name req = Some (a, e') \<Longrightarrow> qe_store e' = qe_store (sv_Engine sv)"
  by (auto simp: run_tool_def Let_def dest: search_handler_store context_handler_store split: if_splits)

lemma search_handler_ok:
  assumes "search_handler env cfg req e = ((res, n), e')" and "\<not> tr_IsError res"
  defines "m \<equiv> rq_GetInt req ''max_results'' (cf_SearchMaxResults cfg)" and "p \<equiv> rq_GetString req ''path'' []"
    and "f \<equiv> scope_to_filter (rq_GetString req ''scope'' ''impl'')" and "mode \<equiv> rq_GetString req ''mode'' (cf_SearchDefaultMode cfg)"
    and "s \<equiv> rq_GetFloat req ''min_score'' (cf_SearchMinScore cfg)"
  shows "\<exists>query found. rq_RequireString req ''query'' = Some query \<and> length query \<le> 10000 \<and> mode_valid mode
    \<and> 1 \<le> m \<and> m \<le> 200 \<and> \<not> score_rejected s
    \<and> search (te_query env) \<lparr>si_Query = query, si_MaxResults = search_overfetch_limit m (p \<noteq> []),
        si_MinScore = score_value s, si_ExcludeTests = tf_ExcludeTests f, si_TestOnly = tf_TestOnly f\<rparr> e = (Inr found, e')
    \<and> res = text_result (if mode = ''locate'' then locate_results (filter_by_path_prefix found p m)
        else search_results (filter_by_path_prefix found p m) (rq_GetBool req ''explain'' False))
    \<and> n = int (length (filter_by_path_prefix found p m))"
proof -
  note run0 = assms(1) [unfolded search_handler_def]
  have err: "False" if "(failed msg, e0) = ((res, n), e')" for msg e0
    using that assms(2) by (auto simp: failed_def error_result_def)
  obtain query where q: "rq_RequireString req ''query'' = Some query"
  proof (cases "rq_RequireString req ''query''")
    case None
    from err [OF run0 [unfolded None option.case]] show ?thesis ..
  qed (rule that)
  note run1 = run0 [unfolded q option.case Let_def, folded mode_def m_def s_def p_def f_def]
  have len: "\<not> length query > 10000"
  proof
    assume c: "length query > 10000"
    from err [OF run1 [unfolded if_P [OF c]]] show False .
  qed
  note run2 = run1 [unfolded if_not_P [OF len]]
  have mode: "\<not> (mode \<noteq> ''locate'' \<and> mode \<noteq> ''full'')"
  proof
    assume c: "mode \<noteq> ''locate'' \<and> mode \<noteq> ''full''"
    from err [OF run2 [unfolded if_P [OF c]]] show False .
  qed
  note run3 = run2 [unfolded if_not_P [OF mode]]
  have m: "\<not> (m < 1 \<or> m > 200)"
  proof
    assume c: "m < 1 \<or> m > 200"
    from err [OF run3 [unfolded if_P [OF c]]] show False .
  qed
  note run4 = run3 [unfolded if_not_P [OF m]]
  have s: "\<not> score_rejected s"
  proof
    assume c: "score_rejected s"
    from err [OF run4 [unfolded if_P [OF c]]] show False .
  qed
  note run5 = run4 [unfolded if_not_P [OF s]]
  let ?i = "\<lparr>si_Query = query, si_MaxResults = search_overfetch_limit m (p \<noteq> []), si_MinScore = score_value s,
      si_ExcludeTests = tf_ExcludeTests f, si_TestOnly = tf_TestOnly f\<rparr>"
  obtain r e1 where run: "search (te_query env) ?i e = (r, e1)" by fastforce
  note run6 = run5 [unfolded run prod.case]
  obtain found where found: "r = Inr found"
    by (cases r) (use run6 err in \<open>auto\<close>)
  show ?thesis
    by (intro exI [of _ query] exI [of _ found]) (use q len mode m s run run6 found in \<open>auto simp: mode_valid_def\<close>)
qed

lemma path_filter_subset: "set (filter_by_path_prefix rs p m) \<subseteq> set rs"
  by (auto simp: filter_by_path_prefix_def Let_def dest: in_set_takeD)

lemma path_filter_sorted: "sorted_wrt P rs \<Longrightarrow> sorted_wrt P (filter_by_path_prefix rs p m)"
  by (auto simp: filter_by_path_prefix_def Let_def sorted_wrt_filter intro: sorted_wrt_take)

text \<open>What the filter by path does, in other words.\<close>

lemma path_filter_exact:
  assumes "0 \<le> m"
  shows "filter_by_path_prefix found p m = (if p = [] then found else take (nat m) (filter (\<lambda>r. prefix p (sr_Path r)) found))"
proof -
  have "take (length p) q = p \<longleftrightarrow> prefix p q" for q by (metis append_eq_conv_conj prefix_def)
  then show ?thesis using assms by (auto simp: filter_by_path_prefix_def Let_def)
qed

section \<open>Properties\<close>

text \<open>C35. An answer of the search tool that is no error lists exactly what a search of the engine found, with the
  parameters of the request, all of them in range: without a path everything found, with one the first of those
  found whose path begins with it, as many as asked for. The count is their number. They come best first, from
  files of the scope asked for, with scores from the minimum on, unless they are those of the
  file system fallback; without a path there are at most twice as many as asked for.\<close>

theorem search_tool_exact:
  assumes "slice_sort score_gt (en_sortScore (te_query env))" and "signals_ok (te_query env) e" and "fts_limited (qe_store e)"
    and "search_handler env cfg req e = ((res, n), e')" and "\<not> tr_IsError res"
  defines "m \<equiv> rq_GetInt req ''max_results'' (cf_SearchMaxResults cfg)" and "p \<equiv> rq_GetString req ''path'' []"
    and "f \<equiv> scope_to_filter (rq_GetString req ''scope'' ''impl'')"
    and "s \<equiv> score_value (rq_GetFloat req ''min_score'' (cf_SearchMinScore cfg))"
  shows "1 \<le> m \<and> m \<le> 200 \<and> (\<exists>query found rs. rq_RequireString req ''query'' = Some query \<and> length query \<le> 10000
    \<and> search (te_query env) \<lparr>si_Query = query, si_MaxResults = search_overfetch_limit m (p \<noteq> []), si_MinScore = s,
         si_ExcludeTests = tf_ExcludeTests f, si_TestOnly = tf_TestOnly f\<rparr> e = (Inr found, e')
    \<and> rs = (if p = [] then found else take (nat m) (filter (\<lambda>r. prefix p (sr_Path r)) found)) \<and> n = int (length rs)
    \<and> res = text_result (if rq_GetString req ''mode'' (cf_SearchDefaultMode cfg) = ''locate'' then locate_results rs
                         else search_results rs (rq_GetBool req ''explain'' False))
    \<and> (fallback_chunks (te_query env) e = Inr found
      \<or> sorted_wrt (\<lambda>a b. sr_Score b \<le> sr_Score a) rs \<and> (p = [] \<longrightarrow> n \<le> 2 * m)
        \<and> list_all (\<lambda>r. candidate_ok (qe_store e) f r \<and> (0 < s \<longrightarrow> s \<le> sr_Score r)) rs))"
proof -
  obtain query found where q: "rq_RequireString req ''query'' = Some query" "length query \<le> 10000" and ok: "1 \<le> m" "m \<le> 200"
    and run: "search (te_query env) \<lparr>si_Query = query,
       si_MaxResults = search_overfetch_limit m (p \<noteq> []), si_MinScore = s, si_ExcludeTests = tf_ExcludeTests f, si_TestOnly = tf_TestOnly f\<rparr> e
     = (Inr found, e')"
    and res: "res = text_result (if rq_GetString req ''mode'' (cf_SearchDefaultMode cfg) = ''locate'' then locate_results (filter_by_path_prefix found p m)
       else search_results (filter_by_path_prefix found p m) (rq_GetBool req ''explain'' False))"
    and n: "n = int (length (filter_by_path_prefix found p m))"
    using search_handler_ok [OF assms(4,5)] unfolding m_def p_def f_def s_def by blast
  define rs where "rs = (if p = [] then found else take (nat m) (filter (\<lambda>r. prefix p (sr_Path r)) found))"
  have rs: "filter_by_path_prefix found p m = rs" unfolding rs_def by (rule path_filter_exact) (use ok in simp)
  have lim: "0 < search_overfetch_limit m (p \<noteq> [])"
    using ok by (simp add: search_overfetch_limit_def overfetch_multiplier_def overfetch_cap_def Let_def)
  have f: "\<lparr>tf_ExcludeTests = tf_ExcludeTests f, tf_TestOnly = tf_TestOnly f\<rparr> = f" by simp
  from search_post [OF assms(1-3) run] lim
  consider "fallback_chunks (te_query env) e = Inr found"
    | "sorted_wrt (\<lambda>a b. sr_Score b \<le> sr_Score a) found" "int (length found) \<le> 2 * search_overfetch_limit m (p \<noteq> [])"
      "\<forall>r \<in> set found. candidate_ok (qe_store e) f r \<and> (0 < s \<longrightarrow> s \<le> sr_Score r)"
    by (auto simp: ranked_ok_def input_filter_def f split: if_splits)
  then have "fallback_chunks (te_query env) e = Inr found
      \<or> sorted_wrt (\<lambda>a b. sr_Score b \<le> sr_Score a) rs \<and> (p = [] \<longrightarrow> n \<le> 2 * m)
        \<and> list_all (\<lambda>r. candidate_ok (qe_store e) f r \<and> (0 < s \<longrightarrow> s \<le> sr_Score r)) rs"
  proof cases
    case 2
    have "p = [] \<longrightarrow> n \<le> 2 * m" using 2(2) n by (auto simp: search_overfetch_limit_def filter_by_path_prefix_def)
    moreover have "list_all (\<lambda>r. candidate_ok (qe_store e) f r \<and> (0 < s \<longrightarrow> s \<le> sr_Score r)) rs"
      using 2(3) path_filter_subset [of found p m] unfolding rs by (auto simp: list_all_iff)
    ultimately show ?thesis using path_filter_sorted [OF 2(1)] unfolding rs [symmetric] by blast
  qed simp
  with ok q run n res show ?thesis unfolding rs using rs_def by blast
qed

text \<open>A tool call leaves the index alone: whatever the tool and its arguments, the store behind the engine, the
  vector store and the configuration stay as they are; only a registered tool answers; and the answer
  was measured and recorded under its name.\<close>

theorem call_tool_reads_only:
  assumes "call_tool env start ms name req sv = Some (r, sv')"
  shows "name \<in> set (registered_tools (sv_Config sv)) \<and> qe_store (sv_Engine sv') = qe_store (sv_Engine sv)
    \<and> sv_VectorStore sv' = sv_VectorStore sv \<and> sv_Config sv' = sv_Config sv
    \<and> (\<exists>answer. run_tool env sv name req = Some (answer, sv_Engine sv')
        \<and> with_metrics name start (rq_ArgsJSON req) ms answer (sv_Registry sv) (sv_Recorder sv) = (r, sv_Registry sv', sv_Recorder sv'))
    \<and> (''context'' \<in> set (registered_tools (sv_Config sv)) \<longleftrightarrow> cf_ContextEnabled (sv_Config sv))"
proof -
  obtain answer e1 where run: "run_tool env sv name req = Some (answer, e1)"
    using assms by (auto simp: call_tool_def split: option.splits prod.splits)
  obtain reg mr where m: "with_metrics name start (rq_ArgsJSON req) ms answer (sv_Registry sv) (sv_Recorder sv) = (r, reg, mr)"
    and sv': "sv' = sv\<lparr>sv_Engine := e1, sv_Registry := reg, sv_Recorder := mr\<rparr>"
    using assms run by (auto simp: call_tool_def split: prod.splits)
  from run have "name \<in> set (registered_tools (sv_Config sv))" by (auto simp: run_tool_def Let_def split: if_splits)
  with run_tool_store [OF run] run m show ?thesis by (auto simp: sv' registered_tools_def)
qed

definition sample_request :: tool_request where
  "sample_request = \<lparr>rq_RequireString = (\<lambda>_. Some ''q''), rq_GetString = (\<lambda>_ d. d), rq_GetInt = (\<lambda>_ d. d), rq_GetFloat = (\<lambda>_ d. d),
     rq_GetBool = (\<lambda>_ d. d), rq_ArgsJSON = ''{}''\<rparr>"

definition sample_tool_env :: tool_env where
  "sample_tool_env = \<lparr>te_query = sample_env, te_errText = (\<lambda>_. ''e''), te_marshal = (\<lambda>_. Inr ''[]''), te_stamp = (\<lambda>_. ''t'')\<rparr>"

definition sample_server :: mcp_server where
  "sample_server = \<lparr>sv_Engine = new_query_engine empty_store ''/p'' [], sv_VectorStore = None, sv_EmbedWorker = None,
     sv_Recorder = Some (new_metrics_recorder ''s''), sv_Config = default_config ''/p'', sv_Registry = new_registry\<rparr>"

lemma sample_search:
  "\<exists>rs. search_handler sample_tool_env (default_config ''/p'') sample_request (new_query_engine empty_store ''/p'' [])
     = ((text_result (locate_results rs), int (length rs)), new_query_engine empty_store ''/p'' [])"
proof -
  let ?e = "new_query_engine empty_store ''/p'' []"
  have "engine_level ?e = LevelFilesystem"
    by (simp add: engine_level_def new_query_engine_def determine_level_def empty_store_def empty_stats_def)
  moreover obtain fb where "fallback_chunks sample_env ?e = Inr fb"
    by (simp add: fallback_chunks_def filesystem_fallback_def sample_env_def sample_fs_def new_query_engine_def Let_def)
  ultimately have "search sample_env i ?e = (Inr fb, ?e)" for i by (simp add: search_def Let_def)
  then show ?thesis
    by (intro exI [of _ fb]) (simp add: search_handler_def sample_request_def sample_tool_env_def default_config_def filter_by_path_prefix_def)
qed

theorem search_tool_exact_witness:
  "\<exists>rs found. search_handler sample_tool_env (default_config ''/p'') sample_request (new_query_engine empty_store ''/p'' [])
       = ((text_result (locate_results rs), int (length rs)), new_query_engine empty_store ''/p'' [])
     \<and> fst (search sample_env \<lparr>si_Query = ''q'', si_MaxResults = 10, si_MinScore = 15 / 100, si_ExcludeTests = True, si_TestOnly = False\<rparr>
              (new_query_engine empty_store ''/p'' [])) = Inr found
     \<and> int (length rs) = int (length found)"
proof -
  let ?e = "new_query_engine empty_store ''/p'' []"
  obtain rs where run: "search_handler sample_tool_env (default_config ''/p'') sample_request ?e = ((text_result (locate_results rs), int (length rs)), ?e)"
    using sample_search by blast
  have "slice_sort score_gt (en_sortScore (te_query sample_tool_env))"
    using slice_sort_score by (simp add: sample_tool_env_def sample_env_def)
  moreover have "signals_ok (te_query sample_tool_env) ?e" "fts_limited (qe_store ?e)"
    by (auto simp: signals_ok_def fts_limited_def new_query_engine_def empty_store_def unit_scores_def)
  moreover have "\<not> tr_IsError (text_result (locate_results rs))" by (simp add: text_result_def)
  moreover have "scope_to_filter ''impl'' = \<lparr>tf_ExcludeTests = True, tf_TestOnly = False\<rparr>" by code_simp
  ultimately obtain found where "search sample_env \<lparr>si_Query = ''q'', si_MaxResults = 10, si_MinScore = 15 / 100, si_ExcludeTests = True, si_TestOnly = False\<rparr> ?e
      = (Inr found, ?e)" "int (length rs) = int (length found)"
    using search_tool_exact [OF _ _ _ run]
    by (auto simp: sample_request_def default_config_def search_overfetch_limit_def sample_tool_env_def)
  with run show ?thesis by (intro exI [of _ rs] exI [of _ found]) simp
qed

theorem call_tool_reads_only_witness:
  "\<exists>r sv'. call_tool sample_tool_env ''t'' 3 ''search'' sample_request sample_server = Some (r, sv') \<and> qe_store (sv_Engine sv') = empty_store"
proof -
  obtain rs where "search_handler sample_tool_env (default_config ''/p'') sample_request (new_query_engine empty_store ''/p'' [])
      = ((text_result (locate_results rs), int (length rs)), new_query_engine empty_store ''/p'' [])" using sample_search by blast
  then have "call_tool sample_tool_env ''t'' 3 ''search'' sample_request sample_server \<noteq> None"
    by (simp add: call_tool_def run_tool_def sample_server_def registered_tools_def split: prod.split)
  then obtain r sv' where run: "call_tool sample_tool_env ''t'' 3 ''search'' sample_request sample_server = Some (r, sv')" by auto
  from call_tool_reads_only [OF run] run show ?thesis by (auto simp: sample_server_def new_query_engine_def)
qed

end
