(* ===== verification/Evaluation.thy ===== *)
theory Evaluation
  imports Engine
begin

text \<open>
  \<open>internal/eval/eval.go\<close>: recall, precision and reciprocal rank of searches against curated cases, and the
  queries that should find nothing. The environment of a query (clock, file system) is a function of
  its number in the run. A Go map that is ranged over is the list of its keys in the order of filling.
\<close>

section \<open>One case\<close>

record test_case =
  tk_Query :: string
  tk_ExpectedFiles :: "string list"
  tk_ExpectedSymbols :: "string list"
  tk_Description :: string

record eval_result =
  ev_Query :: string
  ev_Recall :: real
  ev_Precision :: real
  ev_MRR :: real
  ev_Found :: "string list"
  ev_Missing :: "string list"

record eval_state =
  et_found :: "string list"
  et_firstRelevantRank :: nat
  et_relevantInTopK :: nat
  et_satisfiedFiles :: "string set"
  et_satisfiedSymbols :: "string set"

definition result_label :: "scored_result \<Rightarrow> string" where
  "result_label r = sr_Path r @ '':'' @ sr_SymbolName r"

definition file_hit :: "test_case \<Rightarrow> scored_result \<Rightarrow> bool" where
  "file_hit tc r \<longleftrightarrow> sr_Path r \<in> set (tk_ExpectedFiles tc)"

definition symbol_hit :: "test_case \<Rightarrow> scored_result \<Rightarrow> bool" where
  "symbol_hit tc r \<longleftrightarrow> sr_SymbolName r \<noteq> [] \<and> sr_SymbolName r \<in> set (tk_ExpectedSymbols tc)"

text \<open>The loop over the results; \<open>rank\<close> is the index of the first one.\<close>

fun eval_loop :: "test_case \<Rightarrow> int \<Rightarrow> nat \<Rightarrow> scored_result list \<Rightarrow> eval_state \<Rightarrow> eval_state" where
  "eval_loop tc topK rank [] st = st"
| "eval_loop tc topK rank (r # rs) st =
     (if int rank \<ge> topK then st
      else if \<not> file_hit tc r \<and> \<not> symbol_hit tc r then eval_loop tc topK (rank + 1) rs st
      else eval_loop tc topK (rank + 1) rs
        (st\<lparr>et_satisfiedFiles := if file_hit tc r then insert (sr_Path r) (et_satisfiedFiles st) else et_satisfiedFiles st,
            et_satisfiedSymbols := if symbol_hit tc r then insert (sr_SymbolName r) (et_satisfiedSymbols st) else et_satisfiedSymbols st,
            et_found := et_found st @ [result_label r],
            et_relevantInTopK := et_relevantInTopK st + 1,
            et_firstRelevantRank := if et_firstRelevantRank st = 0 then rank + 1 else et_firstRelevantRank st\<rparr>))"

definition evaluate :: "test_case \<Rightarrow> scored_result list \<Rightarrow> int \<Rightarrow> eval_result" where
  "evaluate tc results topK =
     (let st = eval_loop tc topK 0 results
                 \<lparr>et_found = [], et_firstRelevantRank = 0, et_relevantInTopK = 0, et_satisfiedFiles = {}, et_satisfiedSymbols = {}\<rparr>;
          expectedFiles = dedup (tk_ExpectedFiles tc);
          expectedSymbols = dedup (tk_ExpectedSymbols tc);
          missing = filter (\<lambda>f. f \<notin> et_satisfiedFiles st) expectedFiles @ filter (\<lambda>s. s \<notin> et_satisfiedSymbols st) expectedSymbols;
          total0 = length expectedFiles + length expectedSymbols;
          totalExpected = (if total0 = 0 then 1 else total0);
          recall0 = real (et_relevantInTopK st) / real totalExpected;
          k = (if int (length results) < topK then int (length results) else topK)
      in \<lparr>ev_Query = tk_Query tc, ev_Recall = (if recall0 > 1 then 1 else recall0),
          ev_Precision = (if k > 0 then real (et_relevantInTopK st) / real_of_int k else 0),
          ev_MRR = (if et_firstRelevantRank st > 0 then 1 / real (et_firstRelevantRank st) else 0),
          ev_Found = et_found st, ev_Missing = missing\<rparr>)"

section \<open>A run\<close>

record noise_result =
  no_Query :: string
  no_Returned :: int
  no_TopResult :: string

record eval_summary =
  eu_Cases :: "eval_result list"
  eu_AvgRecall :: real
  eu_AvgPrecision :: real
  eu_AvgMRR :: real
  eu_NoiseFalsePosits :: "noise_result list"
  eu_NoiseTotalReturns :: int

record evaluate_input =
  ei_Cases :: "test_case list"
  ei_TopK :: int
  ei_NoiseQueries :: "string list"
  ei_MinMRR :: real

definition eval_search :: "query_env \<Rightarrow> string \<Rightarrow> int \<Rightarrow> query_engine \<Rightarrow> scored_result list res \<times> query_engine" where
  "eval_search env q topK e =
     search env \<lparr>si_Query = q, si_MaxResults = topK, si_MinScore = 0, si_ExcludeTests = False, si_TestOnly = False\<rparr> e"

fun run_cases :: "(nat \<Rightarrow> query_env) \<Rightarrow> nat \<Rightarrow> int \<Rightarrow> test_case list \<Rightarrow> query_engine \<Rightarrow> eval_result list res \<times> query_engine" where
  "run_cases env i topK [] e = (Inr [], e)"
| "run_cases env i topK (tc # tcs) e =
     (case eval_search (env i) (tk_Query tc) topK e of
        (Inl err, e1) \<Rightarrow> (Inl (ErrWrap (''search '' @ tk_Query tc) err), e1)
      | (Inr found, e1) \<Rightarrow>
          (case run_cases env (i + 1) topK tcs e1 of
             (Inl err, e2) \<Rightarrow> (Inl err, e2)
           | (Inr rs, e2) \<Rightarrow> (Inr (evaluate tc found topK # rs), e2)))"

fun run_noise_queries :: "(nat \<Rightarrow> query_env) \<Rightarrow> nat \<Rightarrow> int \<Rightarrow> string list \<Rightarrow> query_engine \<Rightarrow> (noise_result list \<times> int) res \<times> query_engine" where
  "run_noise_queries env i topK [] e = (Inr ([], 0), e)"
| "run_noise_queries env i topK (q # qs) e =
     (case eval_search (env i) q topK e of
        (Inl err, e1) \<Rightarrow> (Inl (ErrWrap (''noise search '' @ q) err), e1)
      | (Inr found, e1) \<Rightarrow>
          (case run_noise_queries env (i + 1) topK qs e1 of
             (Inl err, e2) \<Rightarrow> (Inl err, e2)
           | (Inr (ns, tot), e2) \<Rightarrow>
               (Inr (if found = [] then (ns, tot)
                     else (\<lparr>no_Query = q, no_Returned = int (length found), no_TopResult = result_label (hd found)\<rparr> # ns,
                           int (length found) + tot)), e2)))"

definition err_mrr_below_threshold :: err where
  "err_mrr_below_threshold = ErrMsg ''evaluation MRR below threshold''"

definition evaluate_all :: "(nat \<Rightarrow> query_env) \<Rightarrow> evaluate_input \<Rightarrow> query_engine \<Rightarrow> (eval_summary option \<times> err option) \<times> query_engine" where
  "evaluate_all env input e =
     (let topK = (if ei_TopK input \<le> 0 then 10 else ei_TopK input) in
      case run_cases env 0 topK (ei_Cases input) e of
        (Inl err, e1) \<Rightarrow> ((None, Some err), e1)
      | (Inr results, e1) \<Rightarrow>
          (case run_noise_queries env (length (ei_Cases input)) topK (ei_NoiseQueries input) e1 of
             (Inl err, e2) \<Rightarrow> ((None, Some err), e2)
           | (Inr (ns, tot), e2) \<Rightarrow>
               let n = (if ei_Cases input = [] then 1 else real (length (ei_Cases input)));
                   avg = (\<lambda>f. sum_list (map f results) / n);
                   summary = \<lparr>eu_Cases = results, eu_AvgRecall = avg ev_Recall, eu_AvgPrecision = avg ev_Precision,
                              eu_AvgMRR = avg ev_MRR, eu_NoiseFalsePosits = ns, eu_NoiseTotalReturns = tot\<rparr>
               in ((Some summary,
                    if ei_MinMRR input > 0 \<and> eu_AvgMRR summary < ei_MinMRR input
                    then Some (ErrWrap ''evaluation MRR below threshold'' err_mrr_below_threshold) else None), e2)))"

section \<open>Lemmas\<close>

definition relevant :: "test_case \<Rightarrow> scored_result \<Rightarrow> bool" where
  "relevant tc r \<longleftrightarrow> file_hit tc r \<or> symbol_hit tc r"

definition first_rank :: "(scored_result \<Rightarrow> bool) \<Rightarrow> scored_result list \<Rightarrow> nat" where
  "first_rank P rs = (if list_ex P rs then length (takeWhile (\<lambda>r. \<not> P r) rs) + 1 else 0)"

definition files_hit :: "test_case \<Rightarrow> scored_result list \<Rightarrow> string set" where
  "files_hit tc rs = sr_Path ` {r \<in> set rs. file_hit tc r}"

definition symbols_hit :: "test_case \<Rightarrow> scored_result list \<Rightarrow> string set" where
  "symbols_hit tc rs = sr_SymbolName ` {r \<in> set rs. symbol_hit tc r}"

lemma hit_sets [simp]:
  "files_hit tc [] = {}" "symbols_hit tc [] = {}"
  "files_hit tc (r # rs) = (if file_hit tc r then insert (sr_Path r) (files_hit tc rs) else files_hit tc rs)"
  "symbols_hit tc (r # rs) = (if symbol_hit tc r then insert (sr_SymbolName r) (symbols_hit tc rs) else symbols_hit tc rs)"
  by (auto simp: files_hit_def symbols_hit_def)

lemma eval_loop_take:
  "eval_loop tc topK rank rs st =
     (let firsts = take (nat (topK - int rank)) rs; hits = filter (relevant tc) firsts
      in st\<lparr>et_found := et_found st @ map result_label hits,
            et_relevantInTopK := et_relevantInTopK st + length hits,
            et_satisfiedFiles := et_satisfiedFiles st \<union> files_hit tc firsts,
            et_satisfiedSymbols := et_satisfiedSymbols st \<union> symbols_hit tc firsts,
            et_firstRelevantRank := if et_firstRelevantRank st = 0 \<and> hits \<noteq> [] then rank + first_rank (relevant tc) firsts
                                    else et_firstRelevantRank st\<rparr>)"
proof (induction tc topK rank rs st rule: eval_loop.induct)
  case (2 tc topK rank r rs st)
  show ?case
  proof (cases "int rank \<ge> topK")
    case False
    then have n: "nat (topK - int rank) = Suc (nat (topK - int (rank + 1)))" by simp
    show ?thesis
    proof (cases "relevant tc r")
      case True
      then have hit: "\<not> (\<not> file_hit tc r \<and> \<not> symbol_hit tc r)" by (simp add: relevant_def)
      have rank: "first_rank (relevant tc) (r # xs) = 1" for xs using True by (simp add: first_rank_def)
      show ?thesis
        unfolding eval_loop.simps if_not_P [OF False] if_not_P [OF hit] 2(2) [OF False hit] n
        using True by (cases "file_hit tc r"; cases "symbol_hit tc r"; simp add: Let_def rank del: eval_loop.simps)
    next
      case no: False
      with 2(1) False have "eval_loop tc topK rank (r # rs) st = eval_loop tc topK (rank + 1) rs st" by (simp add: relevant_def)
      with 2(1) False no show ?thesis
        unfolding n by (auto simp: relevant_def Let_def first_rank_def list_ex_iff filter_empty_conv)
    qed
  qed simp
qed simp

lemma length_dedup: "length (dedup xs) = card (set xs)"
  using distinct_card [OF distinct_dedup, of xs] by simp

lemma evaluate_eq:
  fixes tc results topK
  defines "firsts \<equiv> take (nat topK) results"
  defines "hits \<equiv> filter (relevant tc) firsts"
  shows "evaluate tc results topK = \<lparr>ev_Query = tk_Query tc,
     ev_Recall = min 1 (real (length hits) / real (max 1 (card (set (tk_ExpectedFiles tc)) + card (set (tk_ExpectedSymbols tc))))),
     ev_Precision = (if 0 < topK \<and> results \<noteq> [] then real (length hits) / real (length firsts) else 0),
     ev_MRR = (if hits = [] then 0 else 1 / real (first_rank (relevant tc) firsts)),
     ev_Found = map result_label hits,
     ev_Missing = filter (\<lambda>f. f \<notin> files_hit tc firsts) (dedup (tk_ExpectedFiles tc))
       @ filter (\<lambda>s. s \<notin> symbols_hit tc firsts) (dedup (tk_ExpectedSymbols tc))\<rparr>"
proof -
  let ?t = "length (dedup (tk_ExpectedFiles tc)) + length (dedup (tk_ExpectedSymbols tc))"
  have total: "(if ?t = 0 then 1 else ?t) = max 1 (card (set (tk_ExpectedFiles tc)) + card (set (tk_ExpectedSymbols tc)))"
    by (simp add: length_dedup max_def Suc_le_eq card_gt_0_iff)
  have recall: "(if 1 < x then 1 else x) = min 1 x" for x :: real by (simp add: min_def)
  have k: "(if 0 < (if int (length results) < topK then int (length results) else topK)
        then real n / real_of_int (if int (length results) < topK then int (length results) else topK) else 0)
      = (if 0 < topK \<and> results \<noteq> [] then real n / real (length firsts) else 0)" for n
    unfolding firsts_def by (auto simp: min_def)
  have rank: "(if 0 < (if hits \<noteq> [] then first_rank (relevant tc) firsts else 0)
        then 1 / real (if hits \<noteq> [] then first_rank (relevant tc) firsts else 0) else 0)
      = (if hits = [] then 0 else 1 / real (first_rank (relevant tc) firsts))"
    by (simp add: first_rank_def)
  have st: "eval_loop tc topK 0 results
        \<lparr>et_found = [], et_firstRelevantRank = 0, et_relevantInTopK = 0, et_satisfiedFiles = {}, et_satisfiedSymbols = {}\<rparr>
      = \<lparr>et_found = map result_label hits, et_firstRelevantRank = (if hits \<noteq> [] then first_rank (relevant tc) firsts else 0),
         et_relevantInTopK = length hits, et_satisfiedFiles = files_hit tc firsts, et_satisfiedSymbols = symbols_hit tc firsts\<rparr>"
    unfolding eval_loop_take Let_def hits_def firsts_def by simp
  show ?thesis
    unfolding evaluate_def Let_def st eval_state.simps total recall k rank by (rule refl)
qed

lemma first_rank_ok:
  assumes "list_ex P rs"
  shows "first_rank P rs \<le> length rs \<and> P (rs ! (first_rank P rs - 1)) \<and> list_all (\<lambda>r. \<not> P r) (take (first_rank P rs - 1) rs) \<and> 0 < first_rank P rs"
proof -
  have "length (takeWhile (\<lambda>r. \<not> P r) rs) < length rs" "P (rs ! length (takeWhile (\<lambda>r. \<not> P r) rs))"
    using assms by (induction rs) auto
  moreover have "take (length (takeWhile (\<lambda>r. \<not> P r) rs)) rs = takeWhile (\<lambda>r. \<not> P r) rs"
    by (simp add: takeWhile_eq_take [symmetric])
  ultimately show ?thesis using assms by (auto simp: first_rank_def list_all_iff dest: set_takeWhileD)
qed

text \<open>The figures of a case lie between 0 and 1.\<close>

definition unit_result :: "eval_result \<Rightarrow> bool" where
  "unit_result r \<longleftrightarrow> 0 \<le> ev_Recall r \<and> ev_Recall r \<le> 1 \<and> 0 \<le> ev_Precision r \<and> ev_Precision r \<le> 1 \<and> 0 \<le> ev_MRR r \<and> ev_MRR r \<le> 1"

lemma evaluate_unit: "unit_result (evaluate tc results topK)"
proof -
  have "length (filter (relevant tc) (take (nat topK) results)) \<le> length (take (nat topK) results)" by (rule length_filter_le)
  then have "real (length (filter (relevant tc) (take (nat topK) results))) / real (length (take (nat topK) results)) \<le> 1"
    by (simp add: divide_le_eq)
  moreover have "1 / real n \<le> 1" for n by (cases n) simp_all
  ultimately show ?thesis by (simp add: unit_result_def evaluate_eq)
qed

lemma run_cases_ok: "run_cases env i topK tcs e = (Inr rs, e') \<Longrightarrow> length rs = length tcs \<and> list_all unit_result rs"
  by (induction env i topK tcs e arbitrary: rs e' rule: run_cases.induct)
    (auto simp: evaluate_unit split: prod.splits sum.splits)

lemma run_noise_ok:
  "run_noise_queries env i topK qs e = (Inr (ns, tot), e') \<Longrightarrow>
   tot = sum_list (map no_Returned ns) \<and> list_all (\<lambda>n. 0 < no_Returned n \<and> no_Query n \<in> set qs) ns"
proof (induction env i topK qs e arbitrary: ns tot e' rule: run_noise_queries.induct)
  case (2 env i topK q qs e)
  then show ?case by (auto simp: list_all_iff split: prod.splits sum.splits if_splits)
qed simp

lemma average_unit:
  assumes "list_all (\<lambda>r. 0 \<le> f r \<and> f r \<le> (1 :: real)) rs" and "length rs = length cs"
  shows "0 \<le> sum_list (map f rs) / (if cs = [] then 1 else real (length cs)) \<and> sum_list (map f rs) / (if cs = [] then 1 else real (length cs)) \<le> 1"
proof -
  have "0 \<le> sum_list (map f rs) \<and> sum_list (map f rs) \<le> real (length rs)" using assms(1) by (induction rs) auto
  with assms(2) show ?thesis by (auto simp: divide_le_eq)
qed

section \<open>Properties\<close>

text \<open>A case finds exactly the relevant results among the first \<open>topK\<close>; precision is their share, the
  reciprocal rank that of the first one, and all figures lie between 0 and 1; what is missing are the
  expected files and symbols that no such result has. But recall counts results, not expectations:
  two chunks of one expected file give full recall although another file is missing.\<close>

theorem evaluate_exact:
  assumes "0 < topK"
  shows "ev_Found (evaluate tc rs topK) = map result_label (filter (relevant tc) (take (nat topK) rs))
    \<and> unit_result (evaluate tc rs topK)
    \<and> (rs \<noteq> [] \<longrightarrow> ev_Precision (evaluate tc rs topK)
         = real (length (filter (relevant tc) (take (nat topK) rs))) / real (length (take (nat topK) rs)))
    \<and> (ev_MRR (evaluate tc rs topK) = 0 \<longleftrightarrow> list_all (\<lambda>r. \<not> relevant tc r) (take (nat topK) rs))
    \<and> (\<forall>i < length (take (nat topK) rs). relevant tc (rs ! i) \<longrightarrow> list_all (\<lambda>r. \<not> relevant tc r) (take i rs)
         \<longrightarrow> ev_MRR (evaluate tc rs topK) = 1 / real (i + 1))
    \<and> set (ev_Missing (evaluate tc rs topK)) = (set (tk_ExpectedFiles tc) - sr_Path ` set (take (nat topK) rs))
        \<union> {s \<in> set (tk_ExpectedSymbols tc). s = [] \<or> s \<notin> sr_SymbolName ` set (take (nat topK) rs)}
    \<and> ev_Recall (evaluate \<lparr>tk_Query = [], tk_ExpectedFiles = [''a'', ''b''], tk_ExpectedSymbols = [], tk_Description = []\<rparr> [r\<lparr>sr_Path := ''a''\<rparr>, r\<lparr>sr_Path := ''a''\<rparr>] 10) = 1
    \<and> ev_Missing (evaluate \<lparr>tk_Query = [], tk_ExpectedFiles = [''a'', ''b''], tk_ExpectedSymbols = [], tk_Description = []\<rparr> [r\<lparr>sr_Path := ''a''\<rparr>, r\<lparr>sr_Path := ''a''\<rparr>] 10) = [''b'']"
proof -
  let ?firsts = "take (nat topK) rs"
  have mrr0: "ev_MRR (evaluate tc rs topK) = 0 \<longleftrightarrow> list_all (\<lambda>r. \<not> relevant tc r) ?firsts"
  proof -
    have "0 < first_rank (relevant tc) ?firsts" if "\<not> list_all (\<lambda>r. \<not> relevant tc r) ?firsts"
      using that by (simp add: first_rank_def list_ex_iff list_all_iff)
    then show ?thesis by (cases "list_all (\<lambda>r. \<not> relevant tc r) ?firsts") (auto simp: evaluate_eq filter_empty_conv list_all_iff)
  qed
  moreover have "ev_MRR (evaluate tc rs topK) = 1 / real (i + 1)"
    if i: "i < length ?firsts" "relevant tc (rs ! i)" "list_all (\<lambda>r. \<not> relevant tc r) (take i rs)" for i
  proof -
    have firsts: "?firsts = take i rs @ rs ! i # drop (Suc i) ?firsts"
    proof -
      have "i < nat topK" "i < length rs" using i(1) by simp_all
      then have "take i ?firsts = take i rs" "?firsts ! i = rs ! i" by (simp_all add: min_absorb1)
      with id_take_nth_drop [OF i(1)] show ?thesis by simp
    qed
    have "takeWhile (\<lambda>r. \<not> relevant tc r) ?firsts = take i rs"
      by (subst firsts, rule takeWhile_tail [THEN trans]) (use i in \<open>auto simp: list_all_iff\<close>)
    moreover have "list_ex (relevant tc) ?firsts" by (subst firsts) (simp add: i)
    ultimately have "first_rank (relevant tc) ?firsts = i + 1" using i(1) by (simp add: first_rank_def)
    moreover have "filter (relevant tc) ?firsts \<noteq> []" by (subst firsts) (simp add: i)
    ultimately show ?thesis by (simp add: evaluate_eq)
  qed
  moreover have "set (ev_Missing (evaluate tc rs topK)) = (set (tk_ExpectedFiles tc) - sr_Path ` set ?firsts)
      \<union> {s \<in> set (tk_ExpectedSymbols tc). s = [] \<or> s \<notin> sr_SymbolName ` set ?firsts}"
    by (auto simp: evaluate_eq files_hit_def symbols_hit_def file_hit_def symbol_hit_def)
  moreover have "evaluate \<lparr>tk_Query = [], tk_ExpectedFiles = [''a'', ''b''], tk_ExpectedSymbols = [], tk_Description = []\<rparr> [r\<lparr>sr_Path := ''a''\<rparr>, r\<lparr>sr_Path := ''a''\<rparr>] 10
      = \<lparr>ev_Query = [], ev_Recall = 1, ev_Precision = 1, ev_MRR = 1, ev_Found = replicate 2 (''a:'' @ sr_SymbolName r), ev_Missing = [''b'']\<rparr>"
    by (simp add: evaluate_def file_hit_def symbol_hit_def result_label_def numeral_2_eq_2)
  ultimately show ?thesis using assms by (simp add: evaluate_unit) (simp add: evaluate_eq)
qed

theorem evaluate_exact_witness:
  "ev_MRR (evaluate \<lparr>tk_Query = ''q'', tk_ExpectedFiles = [''a''], tk_ExpectedSymbols = [''f''], tk_Description = []\<rparr>
     [r\<lparr>sr_Path := ''x'', sr_SymbolName := []\<rparr>, r\<lparr>sr_Path := ''y'', sr_SymbolName := ''f''\<rparr>] 5) = 1 / 2"
proof -
  let ?tc = "\<lparr>tk_Query = ''q'', tk_ExpectedFiles = [''a''], tk_ExpectedSymbols = [''f''], tk_Description = []\<rparr>"
  let ?rs = "[r\<lparr>sr_Path := ''x'', sr_SymbolName := []\<rparr>, r\<lparr>sr_Path := ''y'', sr_SymbolName := ''f''\<rparr>]"
  have "1 < length (take (nat 5) ?rs)" "relevant ?tc (?rs ! 1)" "list_all (\<lambda>r. \<not> relevant ?tc r) (take 1 ?rs)"
    by (simp_all add: relevant_def file_hit_def symbol_hit_def)
  moreover have "(0 :: int) < 5" by simp
  from evaluate_exact [OF this, of ?tc ?rs r] have "\<forall>i < length (take (nat 5) ?rs). relevant ?tc (?rs ! i) \<longrightarrow>
      list_all (\<lambda>r. \<not> relevant ?tc r) (take i ?rs) \<longrightarrow> ev_MRR (evaluate ?tc ?rs 5) = 1 / real (i + 1)"
    by (elim conjE)
  ultimately have "ev_MRR (evaluate ?tc ?rs 5) = 1 / real (1 + 1)" by blast
  then show ?thesis by simp
qed

text \<open>A run that reports a summary has one result for every case, all figures and their averages between
  0 and 1, an error exactly if the reciprocal rank is below the threshold asked for, and as noise
  exactly the queries that found something, with their sum.\<close>

theorem evaluate_all_summary:
  assumes "evaluate_all env input e = ((Some sm, err), e')"
  shows "length (eu_Cases sm) = length (ei_Cases input) \<and> list_all unit_result (eu_Cases sm)
    \<and> 0 \<le> eu_AvgRecall sm \<and> eu_AvgRecall sm \<le> 1 \<and> 0 \<le> eu_AvgPrecision sm \<and> eu_AvgPrecision sm \<le> 1
    \<and> 0 \<le> eu_AvgMRR sm \<and> eu_AvgMRR sm \<le> 1
    \<and> (err \<noteq> None \<longleftrightarrow> 0 < ei_MinMRR input \<and> eu_AvgMRR sm < ei_MinMRR input)
    \<and> eu_NoiseTotalReturns sm = sum_list (map no_Returned (eu_NoiseFalsePosits sm))
    \<and> list_all (\<lambda>n. 0 < no_Returned n \<and> no_Query n \<in> set (ei_NoiseQueries input)) (eu_NoiseFalsePosits sm)"
proof -
  let ?k = "if ei_TopK input \<le> 0 then 10 else ei_TopK input"
  obtain rs e1 where cs: "run_cases env 0 ?k (ei_Cases input) e = (Inr rs, e1)"
    using assms by (auto simp: evaluate_all_def Let_def split: prod.splits sum.splits)
  obtain ns tot e2 where ns: "run_noise_queries env (length (ei_Cases input)) ?k (ei_NoiseQueries input) e1 = (Inr (ns, tot), e2)"
    using assms cs by (auto simp: evaluate_all_def Let_def split: prod.splits sum.splits)
  let ?avg = "\<lambda>f. sum_list (map f rs) / (if ei_Cases input = [] then 1 else real (length (ei_Cases input)))"
  have sm: "sm = \<lparr>eu_Cases = rs, eu_AvgRecall = ?avg ev_Recall, eu_AvgPrecision = ?avg ev_Precision, eu_AvgMRR = ?avg ev_MRR,
      eu_NoiseFalsePosits = ns, eu_NoiseTotalReturns = tot\<rparr>"
    and err: "err = (if ei_MinMRR input > 0 \<and> eu_AvgMRR sm < ei_MinMRR input
        then Some (ErrWrap ''evaluation MRR below threshold'' err_mrr_below_threshold) else None)"
    using assms cs ns by (auto simp: evaluate_all_def Let_def)
  have rs: "length rs = length (ei_Cases input)" "list_all unit_result rs" using run_cases_ok [OF cs] by simp_all
  have "0 \<le> ?avg f \<and> ?avg f \<le> 1" if "\<And>r. unit_result r \<Longrightarrow> 0 \<le> f r \<and> f r \<le> 1" for f
    by (rule average_unit [OF _ rs(1)]) (use rs(2) that in \<open>auto simp: list_all_iff\<close>)
  from this [of ev_Recall] this [of ev_Precision] this [of ev_MRR] show ?thesis
    using rs run_noise_ok [OF ns] unfolding err by (simp add: sm unit_result_def)
qed

theorem evaluate_all_summary_witness:
  "\<exists>sm err e'. evaluate_all (\<lambda>_. sample_env) \<lparr>ei_Cases = [], ei_TopK = 5, ei_NoiseQueries = [], ei_MinMRR = 1 / 2\<rparr> e = ((Some sm, err), e')
     \<and> err \<noteq> None \<and> eu_AvgMRR sm = 0"
proof -
  obtain sm err e' where run: "evaluate_all (\<lambda>_. sample_env) \<lparr>ei_Cases = [], ei_TopK = 5, ei_NoiseQueries = [], ei_MinMRR = 1 / 2\<rparr> e
      = ((Some sm, err), e')" and "eu_AvgMRR sm = 0"
    by (simp add: evaluate_all_def Let_def)
  with evaluate_all_summary [OF run] show ?thesis by auto
qed

end
