(* ===== verification/Spec2Isabelle.thy ===== *)
theory Spec2Isabelle
  imports Circuit_Breaker Lookup Embed_Validate Bruteforce Vector_File Sqlite_Query Embed_Worker Writer_Queue Index_Source Pg_Query Pg_Projects Pg_Vectors
    Watcher Mcp_Tools Evaluation
begin

text \<open>
  A verification development for shaktiman, a code index and context server written in Go: a daemon
  scans a project, parses its files into chunks and symbols, stores them in SQLite, embeds the
  chunks into vectors and answers searches with ranked chunks packed into a token budget. File
  names below are relative to \<open>src/internal\<close>; a definition has the name of the Go function
  it translates, in snake case where it would clash.

  \<^bold>\<open>Base.\<close> \<open>Prelude\<close> has the error values (\<open>'a res\<close> is an error or a value), Go's integer
  printing and string helpers, association lists, and the contract of \<open>sort.Slice\<close> as a locale.
  \<open>Core_Types\<close> and \<open>Core_Store\<close> are the entities of \<open>types/\<close> and the read interface of the store as a
  record of functions.

  \<^bold>\<open>Queries.\<close> \<open>Query_Params\<close> (\<open>core/queryparams.go\<close>), \<open>Retrieval\<close> (\<open>core/retrieval.go\<close>), \<open>Ranker\<close>
  (\<open>core/ranker.go\<close>), \<open>Assembler\<close> (\<open>core/assembler.go\<close>), \<open>Linked_Lru\<close> and \<open>Session\<close> (\<open>core/session.go\<close>), \<open>Utf8\<close>
  and \<open>Fallback\<close> (\<open>core/fallback.go\<close>, \<open>core/path.go\<close>), \<open>Embed_Cache\<close> (\<open>vector/embed_cache.go\<close>), composed by \<open>Engine\<close>
  (\<open>core/engine.go\<close>) and \<open>Lookup\<close> (\<open>core/lookup.go\<close>). The engine reads the index only through the store record
  and the vector store record; what it needs of the batched queries is the locales
  \<open>batch_hydration\<close> and \<open>batch_graph\<close>.

  \<^bold>\<open>Store.\<close> \<open>Sql_Db\<close> is the schema: tables as lists of rows in rowid order, constraints, cascades,
  full-text triggers and transactions with rollback, with the integrity invariant \<open>store_ok\<close> and
  the predicate \<open>keeps\<close> of the operations that preserve it. \<open>Sqlite_Store\<close> (\<open>metadata.go\<close>),
  \<open>Sqlite_Graph\<close> (\<open>graph.go\<close>), \<open>Sqlite_Fts\<close> (\<open>fts.go\<close>, \<open>lifecycle.go\<close>) and \<open>Sqlite_Diff\<close> (\<open>diff.go\<close>) are its
  operations; \<open>Embed_Status\<close> is \<open>embedstatus/state.go\<close> over the locale \<open>chunk_ops\<close>, which the SQLite
  adapter interprets. \<open>Sqlite_Query\<close> fills the engine's store record with the SQLite queries,
  interprets the engine's locales on it, and collects every write in one step relation; reachable databases carry a
  flag for a bulk write that was interrupted by a new start, after which the full-text index may be stale.

  \<^bold>\<open>Postgres.\<close> The Postgres store serves many projects from one database. \<open>Pg_Db\<close> has the shared tables, the
  part of them that belongs to a project and the integrity invariant \<open>pg_inv\<close>; \<open>Pg_Store\<close>
  (\<open>postgres/metadata.go\<close>, \<open>embed_status.go\<close>, \<open>db.go\<close>) and \<open>Pg_Graph\<close> (\<open>graph.go\<close>, \<open>diff.go\<close>) are its operations, each with
  the project condition its statement has or lacks. \<open>Pg_Confined\<close> and \<open>Pg_Isolation\<close> show of each write that
  it acts on the rows of its project as on a database of its own; \<open>Pg_Calls\<close> joins them into the
  isolation theorem and exhibits the statements that break it; \<open>Pg_Query\<close> compares the reads with
  those of SQLite and interprets the engine's and the embedding status's locales; \<open>Pg_Projects\<close> is
  the registry of projects and the full-text queries; \<open>Pg_Vectors\<close> (\<open>vector/pgvector/store.go\<close>) the table of
  vectors with its cascade, where what an ordered search finds is a locale; a flag says whether all calls
  stayed within their project. Gaps that a rolled back insert leaves in a
  sequence, concurrent transactions and the migrations are left out.

  \<^bold>\<open>Vectors.\<close> \<open>Circuit_Breaker\<close>, \<open>Embed_Validate\<close> (\<open>embed_validate.go\<close>, \<open>batch.go\<close>), \<open>Score_Heap\<close> and \<open>Bruteforce\<close>
  (\<open>bruteforce/store.go\<close>), \<open>Vector_File\<close> (its file format, on bytes), and \<open>Embed_Worker\<close> (\<open>embed_worker.go\<close> and
  \<open>EmbedBatch\<close> of \<open>ollama.go\<close>), which runs on the breaker, the vector store and the SQLite store together.

  \<^bold>\<open>Daemon.\<close> \<open>Scanner\<close> (\<open>daemon/scanner.go\<close>), \<open>Writer_Queue\<close> (the protocol of \<open>daemon/writer.go\<close> between
  those who submit jobs, registered as producers or not, and the writer, as a step relation), \<open>Write_Job\<close> (what
  the writer does with a job), \<open>Job_Rows\<close> (what its statements leave row by row: parents, edges, pending edges,
  the diff log), \<open>Job_Effects\<close> (that together they replace the rows of one file, the predicate \<open>enriched\<close>, and
  what a failure leaves behind) and \<open>Job_Progress\<close> (that a job whose rows satisfy the schema gets through), \<open>Enrichment\<close>
  (\<open>daemon/enrichment.go\<close>: from scanned files to jobs, and the cold index as a whole) and \<open>Index_Source\<close>, which
  puts the parser into the pipeline: which source files end up in the store.

  \<open>Embed_Project\<close> and \<open>Reindex\<close> are the operations of \<open>daemon/daemon.go\<close>: \<open>EmbedProject\<close> with the
  reconciliation of flags and vectors and the periodic checkpoints, \<open>IndexProject\<close> with the version check, on
  the locale \<open>versioned_store\<close>, which both backends interpret. \<open>Watcher\<close> is \<open>daemon/watcher.go\<close>, its
  goroutines, channels and shutdown as a step relation.

  \<^bold>\<open>Configuration.\<close> \<open>Configuration\<close> is \<open>types/config.go\<close> (defaults, merging of the file and the environment,
  range checks, backend validation, test patterns) and the file handling of \<open>backends/\<close>.

  \<^bold>\<open>Parser.\<close> \<open>Syntax_Tree\<close> is the tree that tree-sitter hands out and \<open>parser/walk.go\<close>; \<open>Languages\<close> the nine
  configurations of \<open>languages.go\<close>; \<open>Chunker\<close> is \<open>chunker.go\<close> and \<open>Chunk_Facts\<close> what it guarantees (which
  lines are kept, limits, schema); \<open>Parser_Symbols\<close> is \<open>symbols.go\<close>, \<open>Parser_Edges\<close> \<open>edges.go\<close>, \<open>Parser\<close> \<open>parser.go\<close>. The walks
  recurse over the tree, so they are total; the code's depth guards are part of the model.

  \<^bold>\<open>Tools.\<close> \<open>Mcp_Tools\<close> (\<open>mcp/tools.go\<close>, \<open>enums.go\<close>, \<open>server.go\<close>) are the handlers from the arguments of a call to
  the answer, over the engine and the lookups; \<open>Result_Format\<close> (\<open>format/format.go\<close>) is the text they answer
  with; \<open>Tool_Metrics\<close> (\<open>mcp/metrics.go\<close>) the wrapper that caps, counts and records a call and the recorder that
  writes the records to the store; \<open>Observability\<close> (\<open>observability/metrics.go\<close>) the counters and histograms.
  \<open>Evaluation\<close> (\<open>eval/eval.go\<close>) measures searches against cases: recall, precision, reciprocal rank and noise.

  \<^bold>\<open>Conventions.\<close> Strings are lists of characters, Go's \<open>int\<close> and \<open>int64\<close> are integers, \<open>float64\<close> is
  \<open>real\<close>, \<open>float32\<close> a type with NaN and infinities, time an integer of nanoseconds given as an argument.
  Bytes and 64-bit counters whose width matters are words. Code outside the repository is an
  argument: the clock, the file system, HTTP replies, the FTS5 and \<open>tsquery\<close> matchers, \<open>time.Parse\<close>, \<open>sort.Slice\<close>,
  the ignore-pattern matcher, tree-sitter and the tokenizer. A Go map that is ranged over is an association list in the order
  it was filled. Queries without \<open>ORDER BY\<close> deliver rows in rowid order. Failures of the SQL
  driver are left out; violated constraints are errors. Loops whose end is a theorem
  (\<open>RunFromDB\<close>) are partial functions to \<open>option\<close>; no fuel is used.

  \<^bold>\<open>Not modelled.\<close> Command lines, daemon start-up and shut-down, proxies, lock files and logging
  are wiring or pure input and output; the HNSW and Qdrant stores are adapters to an
  external library and service; migrations run SQL files through an external package.
\<close>

end
